(* ===== verification/Prelude.thy ===== *)
theory Prelude
  imports Complex_Main "HOL-Library.AList" "HOL-Library.Char_ord" "HOL-Library.List_Lexorder"
    "HOL-Library.Sublist"
begin

text \<open>
  Shared vocabulary of the development: the JavaScript values the sources compute with, as HOL values, and the
  generic lemmas the components share.

  \<^item> A JavaScript string is a HOL \<^typ>\<open>string\<close>, one \<^typ>\<open>char\<close> per UTF-16 code unit; a \<^typ>\<open>char\<close> holds the code
    units 0 to 255 (Latin-1). \<open>js_trim\<close>, \<open>js_lower\<close>, \<open>index_of\<close>, \<open>last_index_of\<close>, \<open>split_on\<close> are
    \<open>trim\<close>, \<open>toLowerCase\<close>, \<open>indexOf\<close>, \<open>lastIndexOf\<close>, \<open>split\<close> on such strings, and the order of
    \<^theory_text>\<open>List_Lexorder\<close> is the code unit order that \<open><\<close> and \<open>toSorted()\<close> use.
  \<^item> Times are epoch milliseconds and counts are integers within the safe range, so a JavaScript number is an \<^typ>\<open>int\<close>
    (or a \<^typ>\<open>nat\<close> where it counts); \<open>undefined\<close> is \<^const>\<open>None\<close>.
  \<^item> A JavaScript \<open>Map\<close>, and an object used as a dictionary, is an association list in insertion order:
    \<^const>\<open>map_of\<close> is \<open>get\<close>, \<^const>\<open>AList.update\<close> is \<open>set\<close> (an existing key keeps its place, a new one goes last),
    \<open>AList.delete\<close> is \<open>delete\<close>. Iteration is list order. (An object lists keys that look like array indices
    first; no key of the modelled objects is one.)
\<close>

named_theorems js_defs \<open>definitions of the JavaScript helpers, to unfold on concrete input\<close>

type_synonym ('k, 'v) js_map = "('k \<times> 'v) list"

type_synonym ms = int

subsection \<open>Strings\<close>

definition is_ws :: "char \<Rightarrow> bool" where
  "is_ws c \<longleftrightarrow> (let n = (of_char c :: nat) in n = 32 \<or> (9 \<le> n \<and> n \<le> 13) \<or> n = 160)"

definition js_trim :: "string \<Rightarrow> string" where
  "js_trim s = rev (dropWhile is_ws (rev (dropWhile is_ws s)))"

definition lower_char :: "char \<Rightarrow> char" where
  "lower_char c = (let n = (of_char c :: nat) in
     if (65 \<le> n \<and> n \<le> 90) \<or> (192 \<le> n \<and> n \<le> 222 \<and> n \<noteq> 215) then char_of (n + 32) else c)"

definition js_lower :: "string \<Rightarrow> string" where
  "js_lower s = map lower_char s"

fun index_of :: "string \<Rightarrow> string \<Rightarrow> nat option" where
  "index_of sub [] = (if sub = [] then Some 0 else None)"
| "index_of sub (c # s) = (if prefix sub (c # s) then Some 0 else map_option Suc (index_of sub s))"

definition js_includes :: "string \<Rightarrow> string \<Rightarrow> bool" where
  "js_includes s sub \<longleftrightarrow> index_of sub s \<noteq> None"

definition starts_with :: "string \<Rightarrow> string \<Rightarrow> bool" where
  "starts_with s p \<longleftrightarrow> prefix p s"

definition ends_with :: "string \<Rightarrow> string \<Rightarrow> bool" where
  "ends_with s p \<longleftrightarrow> suffix p s"

fun last_index_of :: "char \<Rightarrow> string \<Rightarrow> nat option" where
  "last_index_of c [] = None"
| "last_index_of c (d # s) =
     (case last_index_of c s of
        Some i \<Rightarrow> Some (Suc i)
      | None \<Rightarrow> if d = c then Some 0 else None)"

text \<open>\<open>s.slice(from, to)\<close> for \<open>0 \<le> from\<close> and \<open>0 \<le> to\<close>.\<close>

definition js_slice :: "nat \<Rightarrow> nat \<Rightarrow> 'a list \<Rightarrow> 'a list" where
  "js_slice i j s = drop i (take j s)"

fun split_on :: "char \<Rightarrow> string \<Rightarrow> string list" where
  "split_on c [] = [[]]"
| "split_on c (d # s) =
     (if d = c then [] # split_on c s
      else (case split_on c s of [] \<Rightarrow> [[d]] | w # ws \<Rightarrow> (d # w) # ws))"

fun join_with :: "string \<Rightarrow> string list \<Rightarrow> string" where
  "join_with sep [] = []"
| "join_with sep [w] = w"
| "join_with sep (w # ws) = w @ sep @ join_with sep ws"

definition replace_char :: "char \<Rightarrow> char \<Rightarrow> string \<Rightarrow> string" where
  "replace_char c d s = map (\<lambda>x. if x = c then d else x) s"

definition is_digit :: "char \<Rightarrow> bool" where
  "is_digit c \<longleftrightarrow> (let n = (of_char c :: nat) in 48 \<le> n \<and> n \<le> 57)"

definition digit_val :: "char \<Rightarrow> int" where
  "digit_val c = int (of_char c) - 48"

definition digits_val :: "string \<Rightarrow> int" where
  "digits_val s = foldl (\<lambda>acc c. acc * 10 + digit_val c) 0 s"

text \<open>\<open>String(n)\<close> and \<open>${n}\<close> for an integer.\<close>

fun show_nat :: "nat \<Rightarrow> string" where
  "show_nat n = (if n < 10 then [char_of (48 + n)] else show_nat (n div 10) @ [char_of (48 + n mod 10)])"

declare show_nat.simps [simp del]

definition show_int :: "int \<Rightarrow> string" where
  "show_int i = (if i < 0 then CHR ''-'' # show_nat (nat (- i)) else show_nat (nat i))"

lemmas [js_defs] = js_trim_def js_lower_def js_includes_def starts_with_def ends_with_def js_slice_def
  replace_char_def is_ws_def lower_char_def

lemma js_trim_Nil [simp]: "js_trim [] = []"
  by (simp add: js_trim_def)

lemma js_lower_Nil [simp]: "js_lower [] = []"
  by (simp add: js_lower_def)

lemma js_lower_eq_Nil [simp]: "js_lower s = [] \<longleftrightarrow> s = []"
  by (simp add: js_lower_def)

text \<open>Trimming takes characters off both ends and nothing else, and is idempotent.\<close>

lemma dropWhile_idem: "dropWhile P (dropWhile P xs) = dropWhile P xs"
  by (induction xs) auto

lemma dropWhile_rev_dropWhile:
  "dropWhile P (rev (dropWhile P (rev (dropWhile P xs)))) = rev (dropWhile P (rev (dropWhile P xs)))"
proof (cases "dropWhile P xs")
  case Nil
  show ?thesis unfolding Nil by simp
next
  case (Cons y ys)
  then have y: "\<not> P y"
    by (metis list.sel(1) hd_dropWhile list.discI)
  have "rev (dropWhile P (rev (y # ys))) = y # rev (dropWhile P (rev ys))"
    using y by (simp add: dropWhile_append)
  with Cons y show ?thesis by simp
qed

lemma js_trim_idem [simp]: "js_trim (js_trim s) = js_trim s"
  by (simp add: js_trim_def dropWhile_rev_dropWhile dropWhile_idem)

lemma last_index_of_Some:
  "last_index_of c s = Some i \<Longrightarrow> i < length s \<and> s ! i = c \<and> c \<notin> set (drop (Suc i) s)"
proof (induction s arbitrary: i)
  case Nil
  then show ?case by simp
next
  case (Cons d s)
  have none: "last_index_of c s = None \<Longrightarrow> c \<notin> set s"
    by (induction s) (auto split: option.splits if_splits)
  show ?case
    using Cons none by (auto split: option.splits if_splits)
qed

lemma last_index_of_None: "last_index_of c s = None \<longleftrightarrow> c \<notin> set s"
  by (induction s) (auto split: option.splits)

lemma index_of_Some_length: "index_of sub s = Some i \<Longrightarrow> i + length sub \<le> length s"
  by (induction sub s arbitrary: i rule: index_of.induct)
    (auto split: if_splits dest: prefix_length_le)

subsection \<open>Insertion-ordered maps\<close>

text \<open>
  What every client of a JavaScript \<open>Map\<close> relies on: the laws of \<open>get\<close>, \<open>set\<close>, \<open>delete\<close> and of the
  number of keys. The association lists below provide them.
\<close>

locale keyed_store =
  fixes getk :: "'m \<Rightarrow> 'k \<Rightarrow> 'v option"
    and setk :: "'k \<Rightarrow> 'v \<Rightarrow> 'm \<Rightarrow> 'm"
    and delk :: "'k \<Rightarrow> 'm \<Rightarrow> 'm"
    and sizek :: "'m \<Rightarrow> nat"
    and okk :: "'m \<Rightarrow> bool"
  assumes get_set: "okk m \<Longrightarrow> getk (setk k v m) = (getk m)(k \<mapsto> v)"
    and get_del: "okk m \<Longrightarrow> getk (delk k m) = (getk m)(k := None)"
    and ok_set: "okk m \<Longrightarrow> okk (setk k v m)"
    and ok_del: "okk m \<Longrightarrow> okk (delk k m)"
    and size_dom: "okk m \<Longrightarrow> sizek m = card (dom (getk m))"
    and finite_dom: "okk m \<Longrightarrow> finite (dom (getk m))"
begin

lemma size_set: "okk m \<Longrightarrow> sizek (setk k v m) = (if getk m k = None then Suc (sizek m) else sizek m)"
  by (auto simp: size_dom ok_set get_set finite_dom insert_absorb domIff)

lemma size_set_le: "okk m \<Longrightarrow> sizek (setk k v m) \<le> Suc (sizek m)"
  by (simp add: size_set)

lemma size_del: "okk m \<Longrightarrow> sizek (delk k m) = (if getk m k = None then sizek m else sizek m - 1)"
  by (auto simp: size_dom ok_del get_del finite_dom domIff)

lemma del_then_set: "okk m \<Longrightarrow> getk (setk k v (delk k m)) = (getk m)(k \<mapsto> v)"
  by (simp add: get_set get_del ok_del)

end

definition distinct_keys :: "('k, 'v) js_map \<Rightarrow> bool" where
  "distinct_keys m \<longleftrightarrow> distinct (map fst m)"

lemma distinct_keys_Nil [simp, intro]: "distinct_keys []"
  by (simp add: distinct_keys_def)

lemma distinct_keys_update [simp, intro]: "distinct_keys m \<Longrightarrow> distinct_keys (AList.update k v m)"
  by (simp add: distinct_keys_def distinct_update)

lemma distinct_keys_delete [simp, intro]: "distinct_keys m \<Longrightarrow> distinct_keys (AList.delete k m)"
  by (simp add: distinct_keys_def distinct_delete)

lemma distinct_keys_filter [simp, intro]: "distinct_keys m \<Longrightarrow> distinct_keys (filter P m)"
  by (simp add: distinct_keys_def distinct_map_filter)

interpretation js: keyed_store map_of AList.update AList.delete length distinct_keys
proof
  fix m :: "('a, 'b) js_map" and k v
  assume ok: "distinct_keys m"
  show "map_of (AList.update k v m) = (map_of m)(k \<mapsto> v)" by (simp add: update_conv')
  show "map_of (AList.delete k m) = (map_of m)(k := None)" by (simp add: delete_conv')
  show "distinct_keys (AList.update k v m)" using ok by simp
  show "distinct_keys (AList.delete k m)" using ok by simp
  have "length m = card (set (map fst m))"
    using ok distinct_card [of "map fst m"] by (simp add: distinct_keys_def)
  then show "length m = card (dom (map_of m))" by (simp add: dom_map_of_conv_image_fst)
  show "finite (dom (map_of m))" by (rule finite_dom_map_of)
qed

lemma map_of_filter_distinct:
  "distinct_keys m \<Longrightarrow>
     map_of (filter P m) k = (case map_of m k of None \<Rightarrow> None | Some v \<Rightarrow> if P (k, v) then Some v else None)"
proof (induction m)
  case Nil
  then show ?case by simp
next
  case (Cons p m)
  then have ih: "map_of (filter P m) k =
      (case map_of m k of None \<Rightarrow> None | Some v \<Rightarrow> if P (k, v) then Some v else None)"
    by (simp add: distinct_keys_def)
  have "fst p = k \<Longrightarrow> map_of m k = None"
    using Cons.prems by (auto simp: distinct_keys_def map_of_eq_None_iff)
  with ih show ?case by (cases p) (auto split: option.splits)
qed

lemma map_of_SomeI: "distinct_keys m \<Longrightarrow> (k, v) \<in> set m \<Longrightarrow> map_of m k = Some v"
  by (simp add: distinct_keys_def)

lemma map_of_Some_in: "map_of m k = Some v \<Longrightarrow> (k, v) \<in> set m"
  by (rule map_of_SomeD)

subsection \<open>Generic lemmas\<close>

lemma find_None_filter: "List.find P xs = None \<longleftrightarrow> filter P xs = []"
  by (auto simp: find_None_iff filter_empty_conv)

lemma find_SomeD: "List.find P xs = Some x \<Longrightarrow> x \<in> set xs \<and> P x"
  by (auto simp: find_Some_iff)

text \<open>A loop that returns the first answer it finds.\<close>

definition first_some :: "('a \<Rightarrow> 'b option) \<Rightarrow> 'a list \<Rightarrow> 'b option" where
  "first_some f xs = (case List.find (\<lambda>x. f x \<noteq> None) xs of None \<Rightarrow> None | Some x \<Rightarrow> f x)"

lemma first_some_Cons [simp]: "first_some f (x # xs) = (case f x of None \<Rightarrow> first_some f xs | Some y \<Rightarrow> Some y)"
  by (auto simp: first_some_def split: option.split)

lemma first_some_Nil [simp]: "first_some f [] = None"
  by (simp add: first_some_def)

lemma first_some_Some: "first_some f xs = Some y \<Longrightarrow> \<exists>x \<in> set xs. f x = Some y"
  by (induction xs) (auto split: option.splits)

lemma first_some_None: "first_some f xs = None \<longleftrightarrow> (\<forall>x \<in> set xs. f x = None)"
  by (induction xs) (auto split: option.splits)

text \<open>An invariant of a loop over a list.\<close>

lemma foldl_invariant:
  assumes "I a" and "\<And>a x. x \<in> set xs \<Longrightarrow> I a \<Longrightarrow> I (f a x)"
  shows "I (foldl f a xs)"
  using assms
proof (induction xs arbitrary: a)
  case (Cons x xs)
  have "I (f a x)" using Cons.prems by simp
  then show ?case using Cons.IH Cons.prems(2) by simp
qed simp

lemma set_update_values: "p \<in> set (AList.update k v m) \<Longrightarrow> p = (k, v) \<or> p \<in> set m"
  by (induction m) (auto split: if_splits)

lemma sum_list_update:
  fixes f :: "'a \<Rightarrow> int"
  shows "distinct xs \<Longrightarrow> x \<in> set xs \<Longrightarrow>
    (\<Sum>y\<leftarrow>xs. (f(x := v)) y) = (\<Sum>y\<leftarrow>xs. f y) - f x + v"
proof (induction xs)
  case Nil
  then show ?case by simp
next
  case (Cons y ys)
  show ?case
  proof (cases "x = y")
    case True
    with Cons.prems(1) have "map (f(x := v)) ys = map f ys" by (intro map_cong) auto
    then have "(\<Sum>a\<leftarrow>ys. (f(x := v)) a) = (\<Sum>a\<leftarrow>ys. f a)" by (rule arg_cong)
    then show ?thesis using True by (simp del: fun_upd_apply add: fun_upd_same)
  next
    case False
    with Cons show ?thesis by auto
  qed
qed

subsection \<open>Sets and separators\<close>

text \<open>\<open>[...new Set(xs)]\<close>: each element once, in the order of first occurrence.\<close>

definition js_set :: "'a list \<Rightarrow> 'a list" where
  "js_set xs = rev (remdups (rev xs))"

lemma set_js_set [simp]: "set (js_set xs) = set xs"
  by (simp add: js_set_def)

lemma distinct_js_set [simp]: "distinct (js_set xs)"
  by (simp add: js_set_def)

lemma js_set_distinct: "distinct xs \<Longrightarrow> js_set xs = xs"
  by (simp add: js_set_def distinct_remdups_id)

text \<open>Two texts that a separator closes are equal when neither holds the separator.\<close>

lemma free_prefix:
  assumes "sep \<notin> set a" "sep \<notin> set b" "a @ sep # x = b @ sep # y"
  shows "a = b \<and> x = y"
  using assms
proof (induction a arbitrary: b)
  case Nil
  then show ?case by (cases b) auto
next
  case (Cons c a)
  then show ?case by (cases b) auto
qed

lemma free_suffix:
  assumes "sep \<notin> set a" "sep \<notin> set b" "x @ sep # a = y @ sep # b"
  shows "a = b \<and> x = y"
proof -
  have "rev a @ sep # rev x = rev b @ sep # rev y" using assms(3) by (metis append.assoc append_Cons append_Nil rev.simps(2) rev_append)
  from free_prefix [OF _ _ this] assms(1,2) show ?thesis by simp
qed

end
