(* ===== verification/Json.thy ===== *)
theory Json
  imports Prelude
begin

text \<open>
  JSON values (\<open>packages/json/src/value.ts\<close>) and the standard library's \<open>JSON.parse\<close>, which
  credential expiry and error classification run on upstream text.

  A number is a \<^typ>\<open>rat\<close>: the decimal the text writes, without the rounding to a double. An object is an
  association list in insertion order; a repeated key keeps its first place and its last value, as in JavaScript.
  \<open>json_parse\<close> is a recursive descent parser with a fuel argument; \<open>parse_fuel_enough\<close> shows that the fuel
  \<open>json_parse\<close> starts with never runs out. A code unit above 255 written as an escape is read as the
  substitute character (code 26).
\<close>

datatype json =
    JNull
  | JBool bool
  | JNum rat
  | JStr string
  | JArr "json list"
  | JObj "(string, json) js_map"

type_synonym json_object = "(string, json) js_map"

subsection \<open>value.ts\<close>

fun is_json_object :: "json \<Rightarrow> bool" where
  "is_json_object (JObj _) = True"
| "is_json_object _ = False"

fun is_json_array :: "json \<Rightarrow> bool" where
  "is_json_array (JArr _) = True"
| "is_json_array _ = False"

definition is_json_container :: "json \<Rightarrow> bool" where
  "is_json_container v \<longleftrightarrow> is_json_object v \<or> is_json_array v"

subsection \<open>JSON.parse\<close>

definition json_ws :: "char \<Rightarrow> bool" where
  "json_ws c \<longleftrightarrow> (let n = (of_char c :: nat) in n = 32 \<or> n = 9 \<or> n = 10 \<or> n = 13)"

definition skip_ws :: "string \<Rightarrow> string" where
  "skip_ws s = dropWhile json_ws s"

definition hex_val :: "char \<Rightarrow> nat option" where
  "hex_val c = (let n = (of_char c :: nat) in
     if 48 \<le> n \<and> n \<le> 57 then Some (n - 48)
     else if 97 \<le> n \<and> n \<le> 102 then Some (n - 87)
     else if 65 \<le> n \<and> n \<le> 70 then Some (n - 55) else None)"

definition code_unit :: "nat \<Rightarrow> char" where
  "code_unit n = (if n < 256 then char_of n else CHR 0x1A)"

definition simple_escape :: "char \<Rightarrow> char option" where
  "simple_escape e =
     (if e = CHR 0x22 \<or> e = CHR 0x5C \<or> e = CHR ''/'' then Some e
      else if e = CHR ''b'' then Some (CHR 0x08)
      else if e = CHR ''f'' then Some (CHR 0x0C)
      else if e = CHR ''n'' then Some (CHR 0x0A)
      else if e = CHR ''r'' then Some (CHR 0x0D)
      else if e = CHR ''t'' then Some (CHR 0x09) else None)"

text \<open>The rest of a string literal after its opening quote: its contents and what follows the closing quote.\<close>

fun parse_chars :: "string \<Rightarrow> (string \<times> string) option" where
  "parse_chars [] = None"
| "parse_chars (c # s) =
     (if c = CHR 0x22 then Some ([], s)
      else if c = CHR 0x5C then
        (case s of
           [] \<Rightarrow> None
         | e # t \<Rightarrow>
             if e = CHR ''u'' then
               (case t of
                  a # b # d # f # u \<Rightarrow>
                    (case (hex_val a, hex_val b, hex_val d, hex_val f) of
                       (Some p, Some q, Some x, Some y) \<Rightarrow>
                         map_option (\<lambda>(w, r). (code_unit (((p * 16 + q) * 16 + x) * 16 + y) # w, r)) (parse_chars u)
                     | _ \<Rightarrow> None)
                | _ \<Rightarrow> None)
             else
               (case simple_escape e of
                  None \<Rightarrow> None
                | Some d \<Rightarrow> map_option (\<lambda>(w, r). (d # w, r)) (parse_chars t)))
      else if (of_char c :: nat) < 32 then None
      else map_option (\<lambda>(w, r). (c # w, r)) (parse_chars s))"

text \<open>A number: an optional minus, an integer without leading zeros, an optional fraction and exponent.\<close>

definition pow10 :: "int \<Rightarrow> rat" where
  "pow10 e = (if 0 \<le> e then 10 ^ nat e else 1 / 10 ^ nat (- e))"

definition parse_frac :: "string \<Rightarrow> (string \<times> string) option" where
  "parse_frac s =
     (case s of
        c # t \<Rightarrow>
          if c = CHR ''.'' then
            (case takeWhile is_digit t of [] \<Rightarrow> None | d # ds \<Rightarrow> Some (d # ds, dropWhile is_digit t))
          else Some ([], s)
      | [] \<Rightarrow> Some ([], s))"

definition parse_exp :: "string \<Rightarrow> (int \<times> string) option" where
  "parse_exp s =
     (case s of
        c # t \<Rightarrow>
          if c = CHR ''e'' \<or> c = CHR ''E'' then
            (let (sg, u) = (case t of d # u \<Rightarrow> if d = CHR ''-'' then (-1, u) else if d = CHR ''+'' then (1, u) else (1, t)
                            | [] \<Rightarrow> (1, t))
             in (case takeWhile is_digit u of
                   [] \<Rightarrow> None
                 | d # ds \<Rightarrow> Some (sg * digits_val (d # ds), dropWhile is_digit u)))
          else Some (0, s)
      | [] \<Rightarrow> Some (0, s))"

definition parse_number :: "string \<Rightarrow> (rat \<times> string) option" where
  "parse_number s =
     (let (sg, t) = (case s of c # t \<Rightarrow> if c = CHR ''-'' then (-1, t) else (1, s) | [] \<Rightarrow> (1, s));
          ds = takeWhile is_digit t; u = dropWhile is_digit t
      in if ds = [] \<or> (hd ds = CHR ''0'' \<and> length ds > 1) then None
         else (case parse_frac u of
                 None \<Rightarrow> None
               | Some (fs, v) \<Rightarrow>
                   (case parse_exp v of
                      None \<Rightarrow> None
                    | Some (e, r) \<Rightarrow>
                        Some (rat_of_int (sg * digits_val (ds @ fs)) * pow10 (e - int (length fs)), r))))"

definition strip_word :: "string \<Rightarrow> string \<Rightarrow> string option" where
  "strip_word w s = (if prefix w s then Some (drop (length w) s) else None)"

fun parse_value :: "nat \<Rightarrow> string \<Rightarrow> (json \<times> string) option"
  and parse_elements :: "nat \<Rightarrow> string \<Rightarrow> (json list \<times> string) option"
  and parse_members :: "nat \<Rightarrow> json_object \<Rightarrow> string \<Rightarrow> (json_object \<times> string) option" where
  "parse_value 0 s = None"
| "parse_value (Suc n) s =
     (case skip_ws s of
        [] \<Rightarrow> None
      | c # t \<Rightarrow>
          if c = CHR ''{'' then
            (case skip_ws t of
               [] \<Rightarrow> None
             | d # u \<Rightarrow> if d = CHR ''}'' then Some (JObj [], u) else map_option (map_prod JObj id) (parse_members n [] t))
          else if c = CHR ''['' then
            (case skip_ws t of
               [] \<Rightarrow> None
             | d # u \<Rightarrow> if d = CHR '']'' then Some (JArr [], u) else map_option (map_prod JArr id) (parse_elements n t))
          else if c = CHR 0x22 then map_option (map_prod JStr id) (parse_chars t)
          else if c = CHR ''t'' then map_option (Pair (JBool True)) (strip_word ''true'' (c # t))
          else if c = CHR ''f'' then map_option (Pair (JBool False)) (strip_word ''false'' (c # t))
          else if c = CHR ''n'' then map_option (Pair JNull) (strip_word ''null'' (c # t))
          else map_option (map_prod JNum id) (parse_number (c # t)))"
| "parse_elements 0 s = None"
| "parse_elements (Suc n) s =
     (case parse_value n s of
        None \<Rightarrow> None
      | Some (v, r) \<Rightarrow>
          (case skip_ws r of
             [] \<Rightarrow> None
           | c # t \<Rightarrow>
               if c = CHR '']'' then Some ([v], t)
               else if c = CHR '','' then map_option (map_prod ((#) v) id) (parse_elements n t)
               else None))"
| "parse_members 0 m s = None"
| "parse_members (Suc n) m s =
     (case skip_ws s of
        [] \<Rightarrow> None
      | c # t \<Rightarrow>
          if c \<noteq> CHR 0x22 then None
          else (case parse_chars t of
                  None \<Rightarrow> None
                | Some (k, r) \<Rightarrow>
                    (case skip_ws r of
                       [] \<Rightarrow> None
                     | d # u \<Rightarrow>
                         if d \<noteq> CHR '':'' then None
                         else (case parse_value n u of
                                 None \<Rightarrow> None
                               | Some (v, r') \<Rightarrow>
                                   (case skip_ws r' of
                                      [] \<Rightarrow> None
                                    | e # w \<Rightarrow>
                                        if e = CHR ''}'' then Some (AList.update k v m, w)
                                        else if e = CHR '','' then parse_members n (AList.update k v m) w
                                        else None)))))"

definition parse_fuel :: "string \<Rightarrow> nat" where
  "parse_fuel s = 2 * length s + 2"

text \<open>\<open>JSON.parse\<close>; \<^const>\<open>None\<close> where it throws.\<close>

definition json_parse :: "string \<Rightarrow> json option" where
  "json_parse s =
     (case parse_value (parse_fuel s) s of
        Some (v, r) \<Rightarrow> if skip_ws r = [] then Some v else None
      | None \<Rightarrow> None)"

definition try_parse_json :: "string \<Rightarrow> json option" where
  "try_parse_json t = json_parse t"

definition is_valid_json :: "string \<Rightarrow> bool" where
  "is_valid_json t \<longleftrightarrow> json_parse t \<noteq> None"

definition parse_json_or_text :: "string \<Rightarrow> json" where
  "parse_json_or_text t = (case try_parse_json t of None \<Rightarrow> JStr t | Some v \<Rightarrow> v)"

subsection \<open>The parser's fuel is enough\<close>

lemma length_dropWhile_le': "length (dropWhile P s) \<le> length s"
  by (induction s) auto

lemma skip_ws_length: "skip_ws s = c # t \<Longrightarrow> length t < length s"
  unfolding skip_ws_def using length_dropWhile_le' [of json_ws s] by simp

lemma parse_chars_length: "parse_chars s = Some (w, r) \<Longrightarrow> length r < length s"
  by (induction s arbitrary: w r rule: parse_chars.induct)
    (fastforce split: if_splits list.splits option.splits)+

lemma parse_frac_length: "parse_frac s = Some (w, r) \<Longrightarrow> length r \<le> length s"
  using length_dropWhile_le' [of is_digit "tl s"]
  by (auto simp: parse_frac_def split: if_splits list.splits)

lemma parse_exp_length: "parse_exp s = Some (w, r) \<Longrightarrow> length r \<le> length s"
  using length_dropWhile_le' [of is_digit "tl s"] length_dropWhile_le' [of is_digit "tl (tl s)"]
  by (auto simp: parse_exp_def Let_def split: if_splits list.splits)

lemma parse_number_length: "parse_number s = Some (w, r) \<Longrightarrow> length r < length s"
proof -
  assume h: "parse_number s = Some (w, r)"
  define t where "t = (case s of c # t \<Rightarrow> if c = CHR ''-'' then t else s | [] \<Rightarrow> s)"
  have ts: "length t \<le> length s" by (auto simp: t_def split: list.splits)
  from h obtain fs v e where d: "takeWhile is_digit t \<noteq> []"
    and f: "parse_frac (dropWhile is_digit t) = Some (fs, v)" and e: "parse_exp v = Some (e, r)"
    by (auto simp: parse_number_def t_def Let_def split: list.splits if_splits option.splits)
  have "length (takeWhile is_digit t) + length (dropWhile is_digit t) = length t"
    by (metis length_append takeWhile_dropWhile_id)
  with d have "length (dropWhile is_digit t) < length t" by (cases "takeWhile is_digit t") auto
  with parse_frac_length [OF f] parse_exp_length [OF e] ts show ?thesis by linarith
qed

lemma strip_word_length: "strip_word w s = Some r \<Longrightarrow> w \<noteq> [] \<Longrightarrow> length r < length s"
  by (cases s) (auto simp: strip_word_def split: if_splits)

lemma parse_length:
  "parse_value n s = Some (v, r) \<Longrightarrow> length r < length s"
  "parse_elements n s = Some (vs, r) \<Longrightarrow> length r < length s"
  "parse_members n m s = Some (m', r) \<Longrightarrow> length r < length s"
proof (induction n s and n s and n m s arbitrary: v r and vs r and m' r
    rule: parse_value_parse_elements_parse_members.induct)
  case (2 n s)
  then show ?case
    by (auto split: list.splits if_splits dest!: skip_ws_length parse_chars_length parse_number_length
        strip_word_length)
      (force dest!: skip_ws_length)+
next
  case (4 n s)
  then show ?case
    by (auto split: list.splits if_splits option.splits dest!: skip_ws_length) (force)+
next
  case (6 n m s)
  then show ?case
    by (auto split: list.splits if_splits option.splits dest!: skip_ws_length parse_chars_length) (force)+
qed auto

text \<open>
  One more unit of fuel changes nothing once the fuel is above twice the length of the text: \<open>json_parse\<close>
  fails only on texts that are no JSON.
\<close>

lemma parse_fuel_step:
  "(\<forall>s. 2 * length s < n \<longrightarrow> parse_value (Suc n) s = parse_value n s) \<and>
   (\<forall>s. Suc (2 * length s) < n \<longrightarrow> parse_elements (Suc n) s = parse_elements n s) \<and>
   (\<forall>m s. Suc (2 * length s) < n \<longrightarrow> parse_members (Suc n) m s = parse_members n m s)"
proof (induction n)
  case 0
  then show ?case by simp
next
  case (Suc n)
  then have v: "\<And>s. 2 * length s < n \<Longrightarrow> parse_value (Suc n) s = parse_value n s"
    and e: "\<And>s. Suc (2 * length s) < n \<Longrightarrow> parse_elements (Suc n) s = parse_elements n s"
    and m: "\<And>m s. Suc (2 * length s) < n \<Longrightarrow> parse_members (Suc n) m s = parse_members n m s"
    by auto
  have 1: "parse_value (Suc (Suc n)) s = parse_value (Suc n) s" if "2 * length s < Suc n" for s
  proof (cases "skip_ws s")
    case (Cons c t)
    from skip_ws_length [OF Cons] that have "Suc (2 * length t) < n" by linarith
    from e [OF this] m [OF this] Cons show ?thesis
      by (simp only: parse_value.simps Cons list.case)
  qed simp
  have 2: "parse_elements (Suc (Suc n)) s = parse_elements (Suc n) s" if "Suc (2 * length s) < Suc n" for s
  proof -
    from that have s: "2 * length s < n" by simp
    have "parse_elements (Suc n) t = parse_elements n t"
      if "parse_value n s = Some (x, r)" and "skip_ws r = c # t" for x r c t
      using parse_length(1) [OF that(1)] skip_ws_length [OF that(2)] s by (intro e) linarith
    then show ?thesis
      by (simp only: parse_elements.simps v [OF s]) (auto split: option.splits list.splits)
  qed
  have 3: "parse_members (Suc (Suc n)) acc s = parse_members (Suc n) acc s"
    if "Suc (2 * length s) < Suc n" for acc s
  proof -
    from that have s: "2 * length s < n" by simp
    have "parse_value (Suc n) u = parse_value n u"
      if "skip_ws s = c # t" "parse_chars t = Some (k, r)" "skip_ws r = d # u" for c t k r d u
      using skip_ws_length [OF that(1)] parse_chars_length [OF that(2)] skip_ws_length [OF that(3)] s
      by (intro v) linarith
    moreover have "parse_members (Suc n) m' w = parse_members n m' w"
      if "skip_ws s = c # t" "parse_chars t = Some (k, r)" "skip_ws r = d # u"
        "parse_value n u = Some (x, r')" "skip_ws r' = e # w" for c t k r d u x r' e w m'
      using skip_ws_length [OF that(1)] parse_chars_length [OF that(2)] skip_ws_length [OF that(3)]
        parse_length(1) [OF that(4)] skip_ws_length [OF that(5)] s
      by (intro m) linarith
    ultimately show ?thesis
      by (simp only: parse_members.simps) (auto split: option.splits list.splits)
  qed
  from 1 2 3 show ?case by blast
qed

lemma parse_fuel_enough: "parse_value (parse_fuel s + k) s = parse_value (parse_fuel s) s"
proof (induction k)
  case (Suc k)
  have "2 * length s < parse_fuel s + k" by (simp add: parse_fuel_def)
  with parse_fuel_step [of "parse_fuel s + k"] Suc show ?case by simp
qed simp

lemma json_parse_any_fuel:
  assumes "parse_fuel s \<le> n"
  shows "json_parse s =
    (case parse_value n s of Some (v, r) \<Rightarrow> if skip_ws r = [] then Some v else None | None \<Rightarrow> None)"
  using parse_fuel_enough [of s "n - parse_fuel s"] assms by (simp add: json_parse_def)

end
