(* ===== verification/Credential_Model.thy ===== *)
theory Credential_Model
  imports Json
begin

text \<open>
  The credential records (\<open>packages/models/src/credentials/model.ts\<close>, \<open>cooldown/recent-requests.ts\<close> for the
  bucket type), who owns a credential (\<open>packages/auth/src/ownership.ts\<close>, \<open>credentials/ownership.ts\<close>) and the
  weight of an account (\<open>credentials/weight.ts\<close>).

  A field the source declares optional is an \<^typ>\<open>'a option\<close>. Configured model entries keep the three fields that
  routing reads.
\<close>

datatype auth_kind = OAuth | ApiKey

datatype credential_source = FromFile | FromConfig

datatype credential_status = StUnknown | StActive | StPending | StRefreshing | StError | StDisabled

record model_entry =
  me_name :: string
  me_alias :: "string option"
  me_force_mapping :: "bool option"

record oauth_model_alias =
  oa_name :: string
  oa_alias :: string
  oa_force_mapping :: "bool option"

record credential =
  cr_id :: string
  cr_provider :: string
  cr_source :: credential_source
  cr_auth_kind :: "auth_kind option"
  cr_label :: string
  cr_prefix :: "string option"
  cr_disabled :: bool
  cr_owner :: "string option"
  cr_priority :: int
  cr_weight :: int
  cr_attributes :: "(string, string) js_map"
  cr_metadata :: json_object
  cr_headers :: "(string, string) js_map"
  cr_proxy_url :: "string option"
  cr_excluded_models :: "string list"
  cr_model_aliases :: "oauth_model_alias list"
  cr_models :: "model_entry list option"
  cr_version :: int
  cr_created_at :: ms
  cr_updated_at :: ms

record credential_error =
  er_code :: "string option"
  er_message :: string
  er_retryable :: bool
  er_http_status :: "int option"

record quota_state =
  q_exceeded :: bool
  q_reason :: "string option"
  q_next_recover_at :: ms
  q_backoff_level :: int
  q_observed_at :: "ms option"
  q_signals :: "(string, string) js_map option"

record model_state =
  md_status :: credential_status
  md_status_message :: "string option"
  md_unavailable :: bool
  md_next_retry_after :: ms
  md_last_error :: "credential_error option"
  md_quota :: quota_state
  md_updated_at :: ms

record recent_bucket =
  rb_bucket :: int
  rb_success :: int
  rb_failed :: int

record credential_state =
  cs_status :: credential_status
  cs_status_message :: "string option"
  cs_unavailable :: bool
  cs_next_retry_after :: ms
  cs_quota :: quota_state
  cs_last_error :: "credential_error option"
  cs_model_states :: "(string, model_state) js_map"
  cs_next_refresh_after :: ms
  cs_refresh_failures :: int
  cs_rejected_access_token :: "string option"
  cs_success :: int
  cs_failed :: int
  cs_recent_requests :: "recent_bucket list option"
  cs_updated_at :: ms

definition empty_quota :: quota_state where
  "empty_quota = \<lparr>q_exceeded = False, q_reason = None, q_next_recover_at = 0, q_backoff_level = 0,
     q_observed_at = None, q_signals = None\<rparr>"

definition empty_state :: credential_state where
  "empty_state = \<lparr>cs_status = StActive, cs_status_message = None, cs_unavailable = False,
     cs_next_retry_after = 0, cs_quota = empty_quota, cs_last_error = None, cs_model_states = [],
     cs_next_refresh_after = 0, cs_refresh_failures = 0, cs_rejected_access_token = None,
     cs_success = 0, cs_failed = 0, cs_recent_requests = None, cs_updated_at = 0\<rparr>"

text \<open>\<open>attributes[key]?.trim() ?? ""\<close> and the like.\<close>

definition attribute :: "string \<Rightarrow> credential \<Rightarrow> string" where
  "attribute k c = (case map_of (cr_attributes c) k of None \<Rightarrow> [] | Some v \<Rightarrow> v)"

definition openai_compatible_provider_key :: "string \<Rightarrow> string" where
  "openai_compatible_provider_key nm =
     (let k = js_lower (js_trim nm) in
      if k = [] \<or> k = ''openai-compatibility'' \<or> starts_with k ''openai-compatible-''
      then (if k = [] then ''openai-compatibility'' else k)
      else ''openai-compatible-'' @ k)"

definition executor_key :: "credential \<Rightarrow> string" where
  "executor_key c =
     (let compat_name = js_trim (attribute ''compat_name'' c) in
      if compat_name \<noteq> [] then
        (let pk = js_trim (attribute ''provider_key'' c)
         in openai_compatible_provider_key (if pk = [] then compat_name else pk))
      else (let provider = js_lower (js_trim (cr_provider c)) in
        if provider = ''openai-compatibility'' then openai_compatible_provider_key (js_trim (cr_label c))
        else if provider = ''kimi.com'' then ''kimi''
        else if provider = ''kimi.ai'' then ''kimi-ai''
        else provider))"

subsection \<open>Ownership\<close>

record viewer =
  vw_admin :: bool
  vw_member :: "string option"

datatype access_scope = ViewerScope viewer | FullAccess

datatype access = FullAcc | LimitedAcc | NoAcc

definition access_to :: "string option \<Rightarrow> access_scope \<Rightarrow> access" where
  "access_to owner scope =
     (case scope of
        FullAccess \<Rightarrow> FullAcc
      | ViewerScope v \<Rightarrow>
          (case owner of
             None \<Rightarrow> if vw_admin v then FullAcc else NoAcc
           | Some ow \<Rightarrow> if vw_member v = Some ow then FullAcc
                        else if vw_admin v then LimitedAcc else NoAcc))"

definition serves_member :: "credential \<Rightarrow> string option \<Rightarrow> bool" where
  "serves_member c member \<longleftrightarrow> cr_owner c = None \<or> cr_owner c = member"

lemma serves_member_private: "serves_member c member \<Longrightarrow> cr_owner c = Some m \<Longrightarrow> member = Some m"
  by (auto simp: serves_member_def)

subsection \<open>Weights\<close>

definition default_weight :: int where "default_weight = 1"

definition max_weight :: int where "max_weight = 1000000"

datatype weight_result = WeightOk int | WeightBad string

definition normalize_weight :: "int \<Rightarrow> weight_result" where
  "normalize_weight weight =
     (if weight \<le> 0 then WeightOk 0
      else if weight > max_weight then WeightBad (''weight must not exceed '' @ show_int max_weight)
      else WeightOk weight)"

text \<open>\<open>/^[+-]?\d+$/\<close> and the number such a text denotes.\<close>

definition signed_digits :: "string \<Rightarrow> int option" where
  "signed_digits s =
     (let (sg, ds) = (case s of c # t \<Rightarrow> if c = CHR ''-'' then (-1, t) else if c = CHR ''+'' then (1, t) else (1, s)
                      | [] \<Rightarrow> (1, s))
      in if ds \<noteq> [] \<and> list_all is_digit ds then Some (sg * digits_val ds) else None)"

definition parse_weight_value :: "json option \<Rightarrow> weight_result" where
  "parse_weight_value v =
     (case v of
        Some (JNum r) \<Rightarrow>
          if r \<noteq> rat_of_int \<lfloor>r\<rfloor> then WeightBad ''weight must be an integer'' else normalize_weight \<lfloor>r\<rfloor>
      | Some (JStr s) \<Rightarrow>
          (let t = js_trim s in
           if t = [] then WeightOk default_weight
           else (case signed_digits t of
                   None \<Rightarrow> WeightBad ''weight must be an integer''
                 | Some n \<Rightarrow> normalize_weight n))
      | _ \<Rightarrow> WeightBad ''weight must be an integer'')"

lemma normalize_weight_range: "normalize_weight w = WeightOk n \<Longrightarrow> 0 \<le> n \<and> n \<le> max_weight"
  by (auto simp: normalize_weight_def max_weight_def split: if_splits)

lemma parse_weight_range: "parse_weight_value v = WeightOk n \<Longrightarrow> 0 \<le> n \<and> n \<le> max_weight"
  by (auto simp: parse_weight_value_def default_weight_def max_weight_def Let_def
      split: option.splits json.splits if_splits dest: normalize_weight_range)

text \<open>Small concrete records, for evaluating the model at an input.\<close>

definition sample_credential :: credential where
  "sample_credential = \<lparr>cr_id = ''a'', cr_provider = ''claude'', cr_source = FromFile, cr_auth_kind = Some OAuth,
     cr_label = ''A'', cr_prefix = None, cr_disabled = False, cr_owner = None, cr_priority = 0, cr_weight = 1,
     cr_attributes = [], cr_metadata = [], cr_headers = [], cr_proxy_url = None, cr_excluded_models = [],
     cr_model_aliases = [], cr_models = None, cr_version = 1, cr_created_at = 0, cr_updated_at = 0\<rparr>"

end
