(* ===== verification/Expiry.thy ===== *)
theory Expiry
  imports Credential_Model
begin

text \<open>
  When an access token ends (\<open>packages/models/src/credentials/expiry.ts\<close>): a JWT \<open>exp\<close> claim first, then the
  metadata keys, then \<open>expires_in\<close> after \<open>timestamp\<close>, then the same inside a nested token object.

  The standard functions it calls are modelled for the texts that reach them: \<open>date_parse\<close> is \<open>Date.parse\<close> on
  the RFC 3339 and \<open>YYYY-MM-DD HH:MM[:SS]\<close> forms the two regular expressions accept (a day past the end of its
  month runs into the next one, as in V8), \<open>js_number\<close> is \<open>Number\<close> of a text (\<^const>\<open>None\<close> for NaN and for an
  infinity), \<open>atob\<close> decodes base64 and \<open>utf8_decode\<close> is \<open>TextDecoder\<close>, with the substitute character for
  whatever is not Latin-1.
\<close>

subsection \<open>Numbers and dates of the standard library\<close>

definition all_digits :: "string \<Rightarrow> bool" where
  "all_digits s \<longleftrightarrow> s \<noteq> [] \<and> list_all is_digit s"

text \<open>An unsigned decimal literal: digits, an optional fraction (or only a fraction), an optional exponent.\<close>

definition decimal_literal :: "string \<Rightarrow> rat option" where
  "decimal_literal s =
     (let ds = takeWhile is_digit s; u = dropWhile is_digit s;
          (fs, v) = (case u of c # t \<Rightarrow> if c = CHR ''.'' then (takeWhile is_digit t, dropWhile is_digit t) else ([], u)
                     | [] \<Rightarrow> ([], u))
      in if ds = [] \<and> fs = [] then None
         else (case parse_exp v of
                 Some (e, []) \<Rightarrow> Some (rat_of_int (digits_val (ds @ fs)) * pow10 (e - int (length fs)))
               | _ \<Rightarrow> None))"

definition radix_literal :: "nat \<Rightarrow> string \<Rightarrow> rat option" where
  "radix_literal b s =
     (if s = [] then None
      else map_option (\<lambda>n. rat_of_int n)
        (foldl (\<lambda>acc c. case (acc, hex_val c) of
                          (Some a, Some d) \<Rightarrow> if d < b then Some (a * int b + int d) else None
                        | _ \<Rightarrow> None) (Some 0) s))"

definition js_number :: "string \<Rightarrow> rat option" where
  "js_number text =
     (let s = js_trim text in
      case s of
        [] \<Rightarrow> Some 0
      | c # t \<Rightarrow>
          if c = CHR ''-'' then map_option uminus (decimal_literal t)
          else if c = CHR ''+'' then decimal_literal t
          else if c = CHR ''0'' \<and> t \<noteq> [] \<and> lower_char (hd t) = CHR ''x'' then radix_literal 16 (tl t)
          else if c = CHR ''0'' \<and> t \<noteq> [] \<and> lower_char (hd t) = CHR ''o'' then radix_literal 8 (tl t)
          else if c = CHR ''0'' \<and> t \<noteq> [] \<and> lower_char (hd t) = CHR ''b'' then radix_literal 2 (tl t)
          else decimal_literal s)"

text \<open>Days from 1970-01-01 to a date of the proleptic Gregorian calendar, with the year starting in March.\<close>

definition days_from_civil :: "int \<Rightarrow> int \<Rightarrow> int \<Rightarrow> int" where
  "days_from_civil y m d =
     (let y' = (if m \<le> 2 then y - 1 else y); era = y' div 400; yoe = y' - era * 400;
          mp = (if m > 2 then m - 3 else m + 9); doy = (153 * mp + 2) div 5 + d - 1;
          doe = yoe * 365 + yoe div 4 - yoe div 100 + doy
      in era * 146097 + doe - 719468)"

definition time_ms :: "int \<Rightarrow> int \<Rightarrow> int \<Rightarrow> int \<Rightarrow> int \<Rightarrow> int \<Rightarrow> int \<Rightarrow> ms option" where
  "time_ms y mo d h mi s millis =
     (if 1 \<le> mo \<and> mo \<le> 12 \<and> 1 \<le> d \<and> d \<le> 31 \<and> mi \<le> 59 \<and> s \<le> 59 \<and>
         (h \<le> 23 \<or> (h = 24 \<and> mi = 0 \<and> s = 0 \<and> millis = 0))
      then Some ((((days_from_civil y mo d * 24 + h) * 60 + mi) * 60 + s) * 1000 + millis)
      else None)"

text \<open>Fixed-width fields: \<open>num_at i n s\<close> is the number of the \<open>n\<close> digits at position \<open>i\<close>.\<close>

definition digits_at :: "nat \<Rightarrow> nat \<Rightarrow> string \<Rightarrow> bool" where
  "digits_at i n s \<longleftrightarrow> length (take n (drop i s)) = n \<and> list_all is_digit (take n (drop i s))"

definition num_at :: "nat \<Rightarrow> nat \<Rightarrow> string \<Rightarrow> int" where
  "num_at i n s = digits_val (take n (drop i s))"

definition char_at :: "nat \<Rightarrow> char list \<Rightarrow> string \<Rightarrow> bool" where
  "char_at i cs s \<longleftrightarrow> i < length s \<and> s ! i \<in> set cs"

definition date_part :: "string \<Rightarrow> bool" where
  "date_part s \<longleftrightarrow> digits_at 0 4 s \<and> char_at 4 ''-'' s \<and> digits_at 5 2 s \<and> char_at 7 ''-'' s \<and> digits_at 8 2 s"

text \<open>\<open>(?:\.\d+)?(?:Z|[+-]\d{2}:\d{2})$\<close>: the milliseconds of the fraction and the zone's offset in minutes.\<close>

definition zone_offset :: "string \<Rightarrow> int option" where
  "zone_offset z =
     (if z = ''Z'' \<or> z = ''z'' then Some 0
      else if length z = 6 \<and> char_at 0 ''+-'' z \<and> digits_at 1 2 z \<and> char_at 3 '':'' z \<and> digits_at 4 2 z
      then Some ((if hd z = CHR ''-'' then -1 else 1) * (num_at 1 2 z * 60 + num_at 4 2 z))
      else None)"

definition fraction_ms :: "string \<Rightarrow> int" where
  "fraction_ms ds = digits_val (take 3 (ds @ ''00''))"

text \<open>\<open>RFC3339.test(text)\<close> with \<open>Date.parse(text)\<close>: \<^const>\<open>None\<close> when the text has another form.\<close>

definition rfc3339 :: "string \<Rightarrow> ms option option" where
  "rfc3339 t =
     (if date_part t \<and> char_at 10 ''Tt'' t \<and> digits_at 11 2 t \<and> char_at 13 '':'' t \<and> digits_at 14 2 t \<and>
         char_at 16 '':'' t \<and> digits_at 17 2 t then
        (let rest = drop 19 t;
             (fs, z) = (case rest of c # u \<Rightarrow> if c = CHR ''.'' \<and> takeWhile is_digit u \<noteq> []
                          then (takeWhile is_digit u, dropWhile is_digit u) else ([], rest)
                        | [] \<Rightarrow> ([], rest))
         in (case zone_offset z of
               None \<Rightarrow> None
             | Some off \<Rightarrow>
                 Some (if length z = 1 \<or> (num_at 1 2 z \<le> 23 \<and> num_at 4 2 z \<le> 59) then
                         map_option (\<lambda>t. t - off * 60000)
                           (time_ms (num_at 0 4 t) (num_at 5 2 t) (num_at 8 2 t) (num_at 11 2 t) (num_at 14 2 t)
                              (num_at 17 2 t) (fraction_ms fs))
                       else None)))
      else None)"

definition local_date_time :: "string \<Rightarrow> ms option option" where
  "local_date_time t =
     (if date_part t \<and> char_at 10 '' '' t \<and> digits_at 11 2 t \<and> char_at 13 '':'' t \<and> digits_at 14 2 t \<and>
         (length t = 16 \<or> (length t = 19 \<and> char_at 16 '':'' t \<and> digits_at 17 2 t))
      then Some (time_ms (num_at 0 4 t) (num_at 5 2 t) (num_at 8 2 t) (num_at 11 2 t) (num_at 14 2 t)
             (if length t = 16 then 0 else num_at 17 2 t) 0)
      else None)"

subsection \<open>Expiry of metadata\<close>

definition normalise_unix :: "rat \<Rightarrow> ms option" where
  "normalise_unix raw =
     (if raw \<le> 0 then None
      else (let whole = \<lfloor>raw\<rfloor> in Some (if whole > 1000000000000 then whole else whole * 1000)))"

definition parse_time_value :: "json option \<Rightarrow> ms option" where
  "parse_time_value v =
     (case v of
        Some (JNum r) \<Rightarrow> normalise_unix r
      | Some (JStr s) \<Rightarrow>
          (let t = js_trim s in
           if t = [] then None
           else (case rfc3339 t of
                   Some parsed \<Rightarrow> parsed
                 | None \<Rightarrow>
                     (case local_date_time t of
                        Some parsed \<Rightarrow> parsed
                      | None \<Rightarrow>
                          (case signed_digits t of
                             Some n \<Rightarrow> normalise_unix (rat_of_int n)
                           | None \<Rightarrow> None))))
      | _ \<Rightarrow> None)"

definition expire_keys :: "string list" where
  "expire_keys = [''expired'', ''expire'', ''expires_at'', ''expiresAt'', ''expiry'', ''expires'']"

definition numeric_value :: "json option \<Rightarrow> rat option" where
  "numeric_value v =
     (case v of Some (JNum r) \<Rightarrow> Some r | Some (JStr s) \<Rightarrow> js_number (js_trim s) | _ \<Rightarrow> None)"

text \<open>\<open>Math.trunc\<close>.\<close>

definition js_trunc :: "rat \<Rightarrow> int" where
  "js_trunc r = (if 0 \<le> r then \<lfloor>r\<rfloor> else \<lceil>r\<rceil>)"

definition relative_seconds :: "json_object \<Rightarrow> int option" where
  "relative_seconds meta =
     first_some (\<lambda>k. case numeric_value (map_of meta k) of
                       Some r \<Rightarrow> if js_trunc r > 0 then Some (js_trunc r) else None
                     | None \<Rightarrow> None) [''expires_in'', ''expiresIn'']"

definition issued_at :: "json_object \<Rightarrow> ms option" where
  "issued_at meta = first_some (\<lambda>k. parse_time_value (map_of meta k)) [''timestamp'', ''issued_at'', ''issuedAt'']"

definition own_expiration :: "json_object \<Rightarrow> ms option" where
  "own_expiration meta =
     (case first_some (\<lambda>k. parse_time_value (map_of meta k)) expire_keys of
        Some t \<Rightarrow> Some t
      | None \<Rightarrow>
          (case (relative_seconds meta, issued_at meta) of
             (Some secs, Some issued) \<Rightarrow> Some (issued + secs * 1000)
           | _ \<Rightarrow> None))"

lemma map_of_size: "map_of m k = Some v \<Longrightarrow> size v < size (JObj m)"
  by (induction m) (auto split: if_splits)

function expiration_from_metadata :: "json_object \<Rightarrow> ms option" where
  "expiration_from_metadata meta =
     first_some id
       (own_expiration meta #
        map (\<lambda>k. case map_of meta k of Some (JObj nested) \<Rightarrow> expiration_from_metadata nested | _ \<Rightarrow> None)
          [''token'', ''Token''])"
  by pat_completeness auto
termination
  by (relation "measure (\<lambda>m. size (JObj m))") (auto dest!: map_of_size)

declare expiration_from_metadata.simps [simp del]

subsection \<open>Tokens\<close>

definition b64_val :: "char \<Rightarrow> nat option" where
  "b64_val c = (let n = (of_char c :: nat) in
     if 65 \<le> n \<and> n \<le> 90 then Some (n - 65)
     else if 97 \<le> n \<and> n \<le> 122 then Some (n - 71)
     else if 48 \<le> n \<and> n \<le> 57 then Some (n + 4)
     else if n = 43 then Some 62 else if n = 47 then Some 63 else None)"

fun sextets :: "nat list \<Rightarrow> nat list" where
  "sextets (a # b # c # d # r) =
     (a * 4 + b div 16) # ((b mod 16) * 16 + c div 4) # ((c mod 4) * 64 + d) # sextets r"
| "sextets [a, b, c] = [a * 4 + b div 16, (b mod 16) * 16 + c div 4]"
| "sextets [a, b] = [a * 4 + b div 16]"
| "sextets _ = []"

definition atob :: "string \<Rightarrow> nat list option" where
  "atob s =
     (let u = filter (\<lambda>c. of_char c \<notin> {9, 10, 12, 13, 32 :: nat}) s;
          v = (if length u mod 4 = 0 \<and> ends_with u ''=='' then take (length u - 2) u
               else if length u mod 4 = 0 \<and> ends_with u ''='' then take (length u - 1) u else u)
      in if length v mod 4 = 1 \<or> list_ex (\<lambda>c. b64_val c = None) v then None
         else Some (sextets (map (\<lambda>c. the (b64_val c)) v)))"

fun utf8_decode :: "nat list \<Rightarrow> string" where
  "utf8_decode [] = []"
| "utf8_decode (b # bs) =
     (if b < 128 then char_of b # utf8_decode bs
      else (case bs of
              c # cs \<Rightarrow> if 194 \<le> b \<and> b \<le> 223 \<and> 128 \<le> c \<and> c < 192
                        then code_unit ((b - 192) * 64 + (c - 128)) # utf8_decode cs
                        else CHR 0x1A # utf8_decode bs
            | [] \<Rightarrow> [CHR 0x1A]))"

definition strip_bom :: "nat list \<Rightarrow> nat list" where
  "strip_bom bs = (if take 3 bs = [239, 187, 191] then drop 3 bs else bs)"

definition base64_url_decode :: "string \<Rightarrow> string option" where
  "base64_url_decode segment =
     (let plain = replace_char CHR ''_'' CHR ''/'' (replace_char CHR ''-'' CHR ''+'' segment);
          padded = plain @ replicate ((4 - length segment mod 4) mod 4) CHR ''=''
      in map_option (\<lambda>bs. utf8_decode (strip_bom bs)) (atob padded))"

definition decode_jwt_claims :: "string \<Rightarrow> json_object option" where
  "decode_jwt_claims token =
     (case split_on CHR ''.'' (js_trim token) of
        [h, payload, sg] \<Rightarrow>
          (case base64_url_decode payload of
             None \<Rightarrow> None
           | Some t \<Rightarrow> (case json_parse t of Some (JObj m) \<Rightarrow> Some m | _ \<Rightarrow> None))
      | _ \<Rightarrow> None)"

definition parse_jwt_exp :: "string \<Rightarrow> ms option" where
  "parse_jwt_exp token =
     (case decode_jwt_claims token of
        None \<Rightarrow> None
      | Some claims \<Rightarrow>
          (case map_of claims ''exp'' of
             Some (JNum r) \<Rightarrow> if r > 0 then normalise_unix r else None
           | Some (JStr s) \<Rightarrow> if all_digits (js_trim s) then normalise_unix (rat_of_int (digits_val (js_trim s))) else None
           | _ \<Rightarrow> None))"

definition string_value :: "json_object \<Rightarrow> string \<Rightarrow> string" where
  "string_value meta k = (case map_of meta k of Some (JStr s) \<Rightarrow> js_trim s | _ \<Rightarrow> [])"

definition access_token_of :: "json_object \<Rightarrow> string" where
  "access_token_of meta =
     (let t = string_value meta ''access_token'' in if t = [] then string_value meta ''accessToken'' else t)"

definition access_token_expiry :: "json_object \<Rightarrow> string option \<Rightarrow> ms option" where
  "access_token_expiry meta rejected =
     (let token = access_token_of meta in
      if token = [] then None
      else if rejected \<noteq> None \<and> rejected \<noteq> Some [] \<and> rejected = Some token then Some 0
      else (case parse_jwt_exp token of Some t \<Rightarrow> Some t | None \<Rightarrow> expiration_from_metadata meta))"

subsection \<open>Properties\<close>

lemma normalise_unix_pos: "normalise_unix r = Some t \<Longrightarrow> 0 \<le> t"
  by (auto simp: normalise_unix_def Let_def split: if_splits)

text \<open>A rejected token is expired at every time; a credential without a token never expires.\<close>

lemma rejected_token_expired:
  "access_token_of meta \<noteq> [] \<Longrightarrow> access_token_expiry meta (Some (access_token_of meta)) = Some 0"
  by (simp add: access_token_expiry_def Let_def)

lemma no_token_no_expiry: "access_token_of meta = [] \<Longrightarrow> access_token_expiry meta rejected = None"
  by (simp add: access_token_expiry_def Let_def)

text \<open>A JWT's own \<open>exp\<close> outranks every metadata key.\<close>

lemma jwt_exp_outranks:
  "parse_jwt_exp (access_token_of meta) = Some t \<Longrightarrow> access_token_of meta \<noteq> [] \<Longrightarrow>
     rejected \<noteq> Some (access_token_of meta) \<Longrightarrow> access_token_expiry meta rejected = Some t"
  by (auto simp: access_token_expiry_def Let_def)

end
