(* ===== verification/Classify.thy ===== *)
theory Classify
  imports Expiry
begin

text \<open>
  Error classification (\<open>packages/models/src/credentials/cooldown/classify.ts\<close>): from the status, the text and the
  code of a failed attempt to whose fault it is. The text may be JSON, parsed with \<^const>\<open>json_parse\<close>.
\<close>

record classifiable_error =
  ce_status :: int
  ce_message :: string
  ce_code :: "string option"

definition code_request_scoped :: string where "code_request_scoped = ''request_scoped''"

definition code_connection_lifecycle :: string where "code_connection_lifecycle = ''connection_lifecycle''"

definition code_transient_transport :: string where "code_transient_transport = ''transient_transport''"

definition code_force_cooldown :: string where "code_force_cooldown = ''force_cooldown''"

definition lower :: "string \<Rightarrow> string" where
  "lower t = js_lower (js_trim t)"

subsection \<open>Request faults\<close>

definition request_fault_codes :: "string list" where
  "request_fault_codes = [''cyber_policy'', ''context_length_exceeded'', ''message_too_big'', ''string_above_max_length'',
     ''invalid_prompt'', ''invalid_value'', ''unsupported_value'', ''invalid_request_error'', ''previous_response_not_found'']"

definition request_fault_types :: "string list" where
  "request_fault_types = [''invalid_request'', ''invalid_request_error'', ''bad_request_error'', ''invalid_prompt'']"

definition parse_json_object :: "string \<Rightarrow> json_object option" where
  "parse_json_object t =
     (let trimmed = js_trim t in
      if trimmed = [] \<or> (hd trimmed \<noteq> CHR ''{'' \<and> hd trimmed \<noteq> CHR ''['') then None
      else (case try_parse_json trimmed of Some (JObj m) \<Rightarrow> Some m | _ \<Rightarrow> None))"

definition is_json_text :: "string \<Rightarrow> bool" where
  "is_json_text t = (let trimmed = js_trim t in trimmed \<noteq> [] \<and> json_parse trimmed \<noteq> None)"

text \<open>\<open>String(number)\<close>. A number that is no integer is written as a fraction: the text is only compared with words.\<close>

definition show_num :: "rat \<Rightarrow> string" where
  "show_num r = (let (p, q) = quotient_of r in if q = 1 then show_int p else show_int p @ ''/'' @ show_int q)"

fun string_at :: "json option \<Rightarrow> string list \<Rightarrow> string" where
  "string_at current [] = (case current of Some (JStr s) \<Rightarrow> s | Some (JNum r) \<Rightarrow> show_num r | _ \<Rightarrow> [])"
| "string_at current (k # ks) = (case current of Some (JObj m) \<Rightarrow> string_at (map_of m k) ks | _ \<Rightarrow> [])"

definition code_paths :: "string list list" where
  "code_paths = [[''error'', ''code''], [''code''], [''response'', ''error'', ''code''], [''body'', ''error'', ''code'']]"

definition type_paths :: "string list list" where
  "type_paths = [[''error'', ''type''], [''type''], [''response'', ''error'', ''type''], [''body'', ''error'', ''type'']]"

definition has_body_value :: "string \<Rightarrow> string list list \<Rightarrow> (string \<Rightarrow> bool) \<Rightarrow> bool" where
  "has_body_value body paths accept =
     (case parse_json_object body of
        None \<Rightarrow> False
      | Some doc \<Rightarrow> list_ex (\<lambda>path. accept (lower (string_at (Some (JObj doc)) path))) paths)"

definition is_item_not_persisted :: "string \<Rightarrow> bool" where
  "is_item_not_persisted message =
     (let t = js_lower message in
      js_includes t ''item with id'' \<and> js_includes t ''not found'' \<and>
      js_includes t ''items are not persisted when `store` is set to false'')"

definition is_claude_thread_not_found :: "int \<Rightarrow> string \<Rightarrow> bool" where
  "is_claude_thread_not_found status body =
     (if status \<noteq> 404 then False
      else (let trimmed = js_trim body in
        if trimmed = [] then False
        else (case parse_json_object trimmed of
                Some doc \<Rightarrow>
                  (let message = lower (string_at (Some (JObj doc)) [''error'', ''message'']) in
                   lower (string_at (Some (JObj doc)) [''error'', ''type'']) = ''not_found_error'' \<and>
                   js_includes message ''thread state'' \<and> js_includes message ''previous_message_id'')
              | None \<Rightarrow>
                  if is_json_text trimmed then False
                  else (let t = js_lower trimmed in
                        js_includes t ''thread state'' \<and> js_includes t ''previous_message_id''))))"

definition is_request_fault :: "int \<Rightarrow> string \<Rightarrow> bool" where
  "is_request_fault status body =
     (if status = 402 \<or> status = 429 then False
      else if status = 401 \<and> has_body_value body type_paths (\<lambda>v. v = ''authentication_error'') then False
      else if is_claude_thread_not_found status body then True
      else if has_body_value body code_paths (\<lambda>v. v = ''model_not_found'' \<or> v = ''model_not_found_error'') then False
      else if has_body_value body code_paths (\<lambda>v. v \<in> set request_fault_codes) then True
      else if has_body_value body type_paths (\<lambda>v. v \<in> set request_fault_types) then True
      else if is_item_not_persisted body then True
      else status = 400 \<or> status = 409 \<or> status = 413 \<or> status = 422)"

subsection \<open>Explicit model-not-found\<close>

definition normalize_identifier :: "string \<Rightarrow> string" where
  "normalize_identifier v = replace_char CHR '' '' CHR ''_'' (replace_char CHR ''-'' CHR ''_'' (lower v))"

definition strip_end :: "(char \<Rightarrow> bool) \<Rightarrow> string \<Rightarrow> string" where
  "strip_end P s = rev (dropWhile P (rev s))"

definition is_model_not_found_identifier :: "string \<Rightarrow> bool" where
  "is_model_not_found_identifier v =
     (let c0 = lower v;
          c1 = (case last_index_of CHR ''#'' c0 of
                  Some fragment \<Rightarrow> if fragment + 1 < length c0 then Some (drop (fragment + 1) c0) else None
                | None \<Rightarrow> None);
          candidate = (case c1 of
             Some c \<Rightarrow> c
           | None \<Rightarrow>
               (let c2 = (case index_of ''?'' c0 of Some query \<Rightarrow> take query c0 | None \<Rightarrow> c0);
                    c3 = strip_end (\<lambda>c. c = CHR ''/'') c2
                in (case (last_index_of CHR ''/'' c3, last_index_of CHR '':'' c3) of
                      (None, None) \<Rightarrow> c3
                    | (Some i, None) \<Rightarrow> drop (i + 1) c3
                    | (None, Some j) \<Rightarrow> drop (j + 1) c3
                    | (Some i, Some j) \<Rightarrow> drop (max i j + 1) c3)))
      in normalize_identifier candidate \<in>
           {''model_not_found'', ''model_not_found_error'', ''unknown_model'', ''model_does_not_exist'', ''model_not_exist''})"

definition is_not_found_error_identifier :: "string \<Rightarrow> bool" where
  "is_not_found_error_identifier v = (normalize_identifier v \<in> {''not_found'', ''not_found_error''})"

definition punctuation :: "char \<Rightarrow> bool" where
  "punctuation c \<longleftrightarrow> c \<in> set '' .!;'' \<or> c = CHR 0x09 \<or> c = CHR 0x0D \<or> c = CHR 0x0A"

definition trim_punctuation :: "string \<Rightarrow> string" where
  "trim_punctuation t = strip_end punctuation (dropWhile punctuation t)"

definition missing_model_phrases :: "string list" where
  "missing_model_phrases = [''not found'', ''was not found'', ''could not be found'', ''does not exist'',
     ''doesn'' @ [CHR 0x27] @ ''t exist'', ''not exist'', ''is unknown'', ''does not exist or you do not have access to it'']"

text \<open>\<^const>\<open>None\<close> is \<open>NO_REFERENCE\<close>, \<open>Some rest\<close> a match with its remainder.\<close>

definition trim_requested_model_reference :: "string \<Rightarrow> string \<Rightarrow> string option" where
  "trim_requested_model_reference v requested_model =
     (let model = lower requested_model in
      if model = [] then None
      else first_some
        (\<lambda>candidate.
           if v = candidate then Some []
           else if \<not> starts_with v candidate then None
           else (let remainder = drop (length candidate) v in
                 if remainder = [] \<or> hd remainder \<in> set '' :,''
                 then Some (dropWhile (\<lambda>c. c \<in> set '' :,'') remainder) else None))
        [model, [CHR 0x27] @ model @ [CHR 0x27], [CHR 0x22] @ model @ [CHR 0x22], [CHR 0x60] @ model @ [CHR 0x60]])"

definition strip_prefix_word :: "string \<Rightarrow> string \<Rightarrow> string option" where
  "strip_prefix_word lower_text pre =
     (if lower_text \<noteq> pre \<and> \<not> starts_with lower_text (pre @ '' '') \<and> \<not> starts_with lower_text (pre @ '':'') then None
      else (let rest = js_trim (drop (length pre) lower_text) in
            Some (if starts_with rest '':'' then js_trim (drop 1 rest) else rest)))"

definition model_prefixes :: "string list" where
  "model_prefixes = [''the requested model'', ''requested model'', ''the model'', ''model'']"

definition is_explicit_model_not_found_message :: "string \<Rightarrow> string \<Rightarrow> bool" where
  "is_explicit_model_not_found_message message requested_model =
     (let t = trim_punctuation (lower message); normalized = replace_char CHR ''-'' CHR ''_'' t in
      if t = [] then False
      else if js_includes t ''in request'' \<or> js_includes t ''in body'' \<or> js_includes t ''request body'' then False
      else if js_includes normalized ''model_not_found'' \<or> js_includes normalized ''unknown_model'' then True
      else (case first_some (strip_prefix_word t) [''no such model'', ''unknown model''] of
              Some remainder \<Rightarrow>
                remainder = [] \<or> trim_requested_model_reference remainder requested_model = Some []
            | None \<Rightarrow>
                (case first_some (strip_prefix_word t) model_prefixes of
                   Some remainder \<Rightarrow>
                     trim_punctuation remainder \<in> set missing_model_phrases \<or>
                     (case trim_requested_model_reference remainder requested_model of
                        Some rest \<Rightarrow> trim_punctuation rest \<in> set missing_model_phrases
                      | None \<Rightarrow> False)
                 | None \<Rightarrow> False)))"

definition is_exact_requested_model_reference :: "string \<Rightarrow> string \<Rightarrow> bool" where
  "is_exact_requested_model_reference message requested_model =
     (case first_some (strip_prefix_word (trim_punctuation (lower message))) model_prefixes of
        Some remainder \<Rightarrow> trim_requested_model_reference remainder requested_model = Some []
      | None \<Rightarrow> False)"

text \<open>
  One string entry of an object: whether it answers at once, and what it adds to \<open>notFoundType\<close> and
  \<open>exactModelReference\<close>.
\<close>

definition message_keys :: "string list" where
  "message_keys = [''error'', ''message'', ''detail'', ''error_description'', ''title'']"

definition entry_answers :: "string \<Rightarrow> string \<Rightarrow> string \<Rightarrow> bool" where
  "entry_answers requested_model k item =
     (let key = lower k in
      if key = ''code'' \<or> key = ''type'' then is_model_not_found_identifier item
      else if key \<in> set message_keys then is_explicit_model_not_found_message item requested_model
      else False)"

definition entry_not_found_type :: "string \<Rightarrow> string \<Rightarrow> bool" where
  "entry_not_found_type k item = (lower k = ''type'' \<and> is_not_found_error_identifier item)"

definition entry_exact_reference :: "string \<Rightarrow> string \<Rightarrow> string \<Rightarrow> bool" where
  "entry_exact_reference requested_model k item =
     (lower k \<in> set message_keys \<and> is_exact_requested_model_reference item requested_model)"

definition string_entry :: "(string \<Rightarrow> string \<Rightarrow> bool) \<Rightarrow> string \<times> json \<Rightarrow> bool" where
  "string_entry P e = (case snd e of JStr s \<Rightarrow> P (fst e) s | _ \<Rightarrow> False)"

fun contains_structured_model_not_found :: "string \<Rightarrow> json \<Rightarrow> bool" where
  "contains_structured_model_not_found rm (JArr items) =
     list_ex (\<lambda>item. (case item of JStr s \<Rightarrow> is_explicit_model_not_found_message s rm | _ \<Rightarrow> False) \<or>
                     contains_structured_model_not_found rm item) items"
| "contains_structured_model_not_found rm (JObj entries) =
     (list_ex (string_entry (entry_answers rm)) entries \<or>
      list_ex (\<lambda>item. contains_structured_model_not_found rm item) (map snd entries) \<or>
      (list_ex (string_entry entry_not_found_type) entries \<and>
       list_ex (string_entry (entry_exact_reference rm)) entries))"
| "contains_structured_model_not_found rm _ = False"

definition is_explicit_model_not_found :: "classifiable_error \<Rightarrow> string \<Rightarrow> bool" where
  "is_explicit_model_not_found e requested_model =
     (if (case ce_code e of Some c \<Rightarrow> is_model_not_found_identifier c | None \<Rightarrow> False) then True
      else (let t = js_trim (ce_message e) in
        if t = [] then False
        else (case json_parse t of
                None \<Rightarrow> False
              | Some parsed \<Rightarrow> contains_structured_model_not_found requested_model parsed)))"

subsection \<open>Message classes\<close>

definition includes_any :: "string \<Rightarrow> string list \<Rightarrow> bool" where
  "includes_any t ws = list_ex (\<lambda>w. js_includes t w) ws"

definition model_support_patterns :: "string list" where
  "model_support_patterns = [''model_not_supported'', ''requested model is not supported'',
     ''requested model is unsupported'', ''requested model is unavailable'', ''model is not supported'',
     ''model not supported'', ''unsupported model'', ''model unavailable'', ''not available for your plan'',
     ''not available for your account'']"

definition is_model_support_message :: "string \<Rightarrow> bool" where
  "is_model_support_message message = (let t = lower message in t \<noteq> [] \<and> includes_any t model_support_patterns)"

definition is_model_support_error :: "classifiable_error \<Rightarrow> bool" where
  "is_model_support_error e =
     (if is_explicit_model_not_found e [] then True
      else if ce_status e \<noteq> 400 \<and> ce_status e \<noteq> 422 \<and> ce_status e \<noteq> 404 then False
      else is_model_support_message (ce_message e))"

definition code_or_empty :: "classifiable_error \<Rightarrow> string" where
  "code_or_empty e = (case ce_code e of None \<Rightarrow> [] | Some c \<Rightarrow> c)"

definition is_invalid_grant_error :: "classifiable_error \<Rightarrow> bool" where
  "is_invalid_grant_error e =
     (js_includes (js_lower (code_or_empty e @ '' '' @ ce_message e)) ''invalid_grant'' \<and>
      (ce_status e = 400 \<or> ce_status e = 401 \<or> ce_status e = 0))"

definition is_cloudflare_challenge_message :: "string \<Rightarrow> bool" where
  "is_cloudflare_challenge_message message =
     (let t = lower message in
      js_includes t ''challenge-platform'' \<or> js_includes t ''cf-mitigated'' \<or> js_includes t ''cloudflare challenge'' \<or>
      (js_includes t ''just a moment'' \<and> js_includes t ''cloudflare''))"

definition is_cloudflare_challenge_error :: "classifiable_error \<Rightarrow> bool" where
  "is_cloudflare_challenge_error e = (ce_status e < 500 \<and> is_cloudflare_challenge_message (ce_message e))"

definition is_connection_lifecycle_message :: "string \<Rightarrow> bool" where
  "is_connection_lifecycle_message message =
     (let t = lower message in
      if t = [] then False
      else if t \<in> {''context canceled'', ''context deadline exceeded'', ''eof'', ''unexpected eof'', ''aborted'',
                   ''the operation was aborted''} then True
      else includes_any t [''websocket: close 1000'', ''websocket: close 1001'', ''websocket: close 1006'', ''unexpected eof''])"

definition transient_fragments :: "string list" where
  "transient_fragments = [''tls: tls handshake'', ''tls handshake timeout'', ''connection refused'', ''connection reset'',
     ''i/o timeout'', ''no such host'', ''server misbehaving'', ''network is unreachable'', ''no route to host'',
     ''broken pipe'', ''connection aborted'', ''use of closed network connection'', ''unexpected eof'',
     ''network connection lost'', ''network connection timed out'', ''connection closed'', ''internal error'',
     ''failed to fetch'', ''fetch failed'']"

definition is_transient_transport_message :: "string \<Rightarrow> bool" where
  "is_transient_transport_message message = (let t = lower message in t \<noteq> [] \<and> includes_any t transient_fragments)"

definition is_connection_lifecycle_error :: "classifiable_error \<Rightarrow> bool" where
  "is_connection_lifecycle_error e =
     (ce_code e = Some code_connection_lifecycle \<or> (ce_status e = 0 \<and> is_connection_lifecycle_message (ce_message e)))"

definition is_transient_transport_error :: "classifiable_error \<Rightarrow> bool" where
  "is_transient_transport_error e =
     (ce_code e = Some code_transient_transport \<or> (ce_status e = 0 \<and> is_transient_transport_message (ce_message e)))"

definition is_request_invalid_error :: "classifiable_error \<Rightarrow> bool" where
  "is_request_invalid_error e =
     (if ce_code e = Some code_request_scoped then True
      else if is_cloudflare_challenge_error e then False
      else if is_invalid_grant_error e then False
      else if is_model_support_error e then False
      else is_request_fault (ce_status e) (ce_message e))"

definition is_provider_specific_request_error :: "classifiable_error \<Rightarrow> bool" where
  "is_provider_specific_request_error e =
     ((ce_status e = 400 \<or> ce_status e = 422) \<and> ce_code e \<noteq> Some code_request_scoped \<and> is_request_invalid_error e)"

definition is_request_scoped_result :: "classifiable_error \<Rightarrow> bool" where
  "is_request_scoped_result e =
     (ce_code e = Some code_request_scoped \<or> (ce_status e = 404 \<and> is_item_not_persisted (ce_message e)) \<or>
      is_request_invalid_error e)"

definition should_skip_credential_cooldown :: "classifiable_error \<Rightarrow> bool" where
  "should_skip_credential_cooldown e =
     (if ce_code e = Some code_force_cooldown then False
      else is_request_scoped_result e \<or> is_connection_lifecycle_error e \<or> is_transient_transport_error e)"

definition is_credential_retry_round_status :: "int \<Rightarrow> bool" where
  "is_credential_retry_round_status status = (status \<in> {403, 408, 429, 500, 502, 503, 504, 529})"

definition is_request_retry_round_error :: "classifiable_error \<Rightarrow> bool" where
  "is_request_retry_round_error e = (is_credential_retry_round_status (ce_status e) \<or> is_transient_transport_error e)"

subsection \<open>Properties\<close>

text \<open>A rate limit or a payment failure is never the request's fault, whatever its body says.\<close>

lemma quota_status_no_request_fault: "status = 402 \<or> status = 429 \<Longrightarrow> \<not> is_request_fault status body"
  by (auto simp: is_request_fault_def)

lemma code_distinct [simp]:
  "code_force_cooldown \<noteq> code_request_scoped" "code_force_cooldown \<noteq> code_connection_lifecycle"
  "code_force_cooldown \<noteq> code_transient_transport" "code_request_scoped \<noteq> code_force_cooldown"
  by (simp_all add: code_force_cooldown_def code_request_scoped_def code_connection_lifecycle_def
      code_transient_transport_def)

text \<open>A forced cooldown is never skipped, a request-scoped failure always is.\<close>

lemma forced_never_skipped: "ce_code e = Some code_force_cooldown \<Longrightarrow> \<not> should_skip_credential_cooldown e"
  by (simp add: should_skip_credential_cooldown_def)

lemma request_scoped_skipped: "ce_code e = Some code_request_scoped \<Longrightarrow> should_skip_credential_cooldown e"
  by (simp add: should_skip_credential_cooldown_def is_request_scoped_result_def)

text \<open>
  A 429 counts against the credential: it is skipped only when the caller's own code marks the failure as
  request-scoped, or as a connection or transport failure.
\<close>

lemma rate_limit_skipped_only_by_code:
  assumes "ce_status e = 429" and "should_skip_credential_cooldown e"
  shows "ce_code e \<in> {Some code_request_scoped, Some code_connection_lifecycle, Some code_transient_transport}"
  using assms quota_status_no_request_fault [of 429 "ce_message e"]
  by (auto simp: should_skip_credential_cooldown_def is_request_scoped_result_def is_request_invalid_error_def
      is_connection_lifecycle_error_def is_transient_transport_error_def split: if_splits)

end
