(* ===== verification/Model_Name.thy ===== *)
theory Model_Name
  imports Prelude
begin

text \<open>
  Model names (\<open>packages/models/src/credentials/selection/model-name.ts\<close>): the thinking suffix, the canonical key
  that cooldown state is stored under, and the wildcard patterns of exclusions and grants.

  \<open>glob\<close> is the textbook meaning of a pattern; \<open>match_wildcard\<close> is the code's single left-to-right pass, and
  the lemmas show that they agree.
\<close>

record model_suffix =
  sfx_model_name :: string
  sfx_has :: bool
  sfx_raw :: string

definition parse_model_suffix :: "string \<Rightarrow> model_suffix" where
  "parse_model_suffix model =
     (case last_index_of CHR ''('' model of
        None \<Rightarrow> \<lparr>sfx_model_name = model, sfx_has = False, sfx_raw = []\<rparr>
      | Some last_open \<Rightarrow>
          if \<not> ends_with model '')'' then \<lparr>sfx_model_name = model, sfx_has = False, sfx_raw = []\<rparr>
          else \<lparr>sfx_model_name = take last_open model, sfx_has = True,
                sfx_raw = js_slice (Suc last_open) (length model - 1) model\<rparr>)"

definition canonical_model_key :: "string \<Rightarrow> string" where
  "canonical_model_key model =
     (let trimmed = js_trim model in
      if trimmed = [] then []
      else (let name = js_trim (sfx_model_name (parse_model_suffix trimmed)) in
            if name = [] then trimmed else name))"

definition preserve_resolved_suffix :: "string \<Rightarrow> model_suffix \<Rightarrow> string" where
  "preserve_resolved_suffix resolved request =
     (let name = js_trim resolved in
      if name = [] then []
      else if sfx_has (parse_model_suffix name) then name
      else if sfx_has request \<and> sfx_raw request \<noteq> [] then name @ ''('' @ sfx_raw request @ '')''
      else name)"

text \<open>The loop over the inner segments: each is searched from the end of the one before.\<close>

fun match_segments :: "string list \<Rightarrow> string \<Rightarrow> bool" where
  "match_segments [] rest = True"
| "match_segments (segment # segments) rest =
     (if segment = [] then match_segments segments rest
      else (case index_of segment rest of
              None \<Rightarrow> False
            | Some found \<Rightarrow> match_segments segments (drop (found + length segment) rest)))"

definition match_wildcard :: "string \<Rightarrow> string \<Rightarrow> bool" where
  "match_wildcard pattern val =
     (if pattern = [] then False
      else if CHR ''*'' \<notin> set pattern then pattern = val
      else (let parts = split_on CHR ''*'' pattern; first = hd parts; final = last parts in
            if \<not> starts_with val first then False
            else (let rest = drop (length first) val in
                  if \<not> ends_with rest final then False
                  else match_segments (butlast (tl parts)) (take (length rest - length final) rest))))"

definition normalize_exclusions :: "string list list \<Rightarrow> string list" where
  "normalize_exclusions ls =
     sort (remdups (filter (\<lambda>s. s \<noteq> []) (map (\<lambda>entry. js_lower (js_trim entry)) (concat ls))))"

definition is_model_excluded :: "string list \<Rightarrow> string \<Rightarrow> bool" where
  "is_model_excluded patterns model =
     (if patterns = [] then False
      else (let id = js_lower (canonical_model_key model) in
            if id = [] then False
            else list_ex (\<lambda>pattern. match_wildcard pattern id) patterns))"

subsection \<open>What a pattern means\<close>

fun glob :: "string \<Rightarrow> string \<Rightarrow> bool" where
  "glob [] v = (v = [])"
| "glob (c # p) v =
     (if c = CHR ''*'' then list_ex (glob p) (suffixes v)
      else (case v of [] \<Rightarrow> False | d # w \<Rightarrow> c = d \<and> glob p w))"

text \<open>A pattern as its literal parts with an arbitrary gap between each two.\<close>

fun parts_match :: "string list \<Rightarrow> string \<Rightarrow> bool" where
  "parts_match [] v = False"
| "parts_match [w] v = (v = w)"
| "parts_match (w # ws) v = (\<exists>y z. v = w @ y @ z \<and> parts_match ws z)"

lemma split_on_not_Nil [simp]: "split_on c s \<noteq> []"
  by (induction s) (auto split: list.splits)

lemma parts_match_Cons: "ws \<noteq> [] \<Longrightarrow> parts_match (w # ws) v \<longleftrightarrow> (\<exists>y z. v = w @ y @ z \<and> parts_match ws z)"
  by (cases ws) auto

lemma parts_match_char:
  "ws \<noteq> [] \<Longrightarrow> parts_match ((c # hd ws) # tl ws) v \<longleftrightarrow> (\<exists>z. v = c # z \<and> parts_match ws z)"
  by (cases ws; cases "tl ws") auto

lemma glob_parts: "glob p v \<longleftrightarrow> parts_match (split_on CHR ''*'' p) v"
proof (induction p arbitrary: v)
  case Nil
  then show ?case by simp
next
  case (Cons c p)
  show ?case
  proof (cases "c = CHR ''*''")
    case True
    have "glob (c # p) v \<longleftrightarrow> (\<exists>y z. v = y @ z \<and> parts_match (split_on CHR ''*'' p) z)"
      using True Cons by (fastforce simp: list_ex_iff suffix_def)
    with True show ?thesis by (simp add: parts_match_Cons)
  next
    case False
    obtain w ws where w: "split_on CHR ''*'' p = w # ws"
      by (cases "split_on CHR ''*'' p") auto
    have "glob (c # p) v \<longleftrightarrow> (\<exists>z. v = c # z \<and> parts_match (w # ws) z)"
      using False Cons w by (cases v) auto
    with False w show ?thesis using parts_match_char [of "w # ws" c v] by simp
  qed
qed

text \<open>Inner segments with gaps on both sides; looking further left never loses a match.\<close>

fun segments_fit :: "string list \<Rightarrow> string \<Rightarrow> bool" where
  "segments_fit [] rest = True"
| "segments_fit (s # ss) rest = (\<exists>x y. rest = x @ s @ y \<and> segments_fit ss y)"

lemma segments_fit_prepend: "segments_fit ss y \<Longrightarrow> segments_fit ss (x @ y)"
proof (induction ss arbitrary: x y)
  case Nil
  then show ?case by simp
next
  case (Cons s ss)
  then obtain a b where "y = a @ s @ b" "segments_fit ss b" by auto
  then have "x @ y = (x @ a) @ s @ b \<and> segments_fit ss b" by simp
  then show ?case using segments_fit.simps(2) by blast
qed

lemma index_of_Some_split:
  "index_of sub s = Some i \<Longrightarrow> s = take i s @ sub @ drop (i + length sub) s"
proof (induction sub s arbitrary: i rule: index_of.induct)
  case (1 sub)
  then show ?case by (auto split: if_splits)
next
  case (2 sub c s)
  show ?case
  proof (cases "prefix sub (c # s)")
    case True
    with 2(2) show ?thesis by (auto elim: prefixE)
  next
    case False
    with 2 show ?thesis by (auto split: if_splits)
  qed
qed

lemma index_of_leftmost: "s = x @ sub @ y \<Longrightarrow> \<exists>i. index_of sub s = Some i \<and> i \<le> length x"
proof (induction x arbitrary: s)
  case Nil
  then have "prefix sub s" by simp
  then show ?case by (cases s) auto
next
  case (Cons c x)
  then show ?case by (cases s) force+
qed

lemma match_segments_fit: "match_segments ss rest \<longleftrightarrow> segments_fit ss rest"
proof (induction ss arbitrary: rest)
  case Nil
  then show ?case by simp
next
  case (Cons s ss)
  show ?case
  proof
    assume m: "match_segments (s # ss) rest"
    show "segments_fit (s # ss) rest"
    proof (cases "s = []")
      case True
      with m Cons have "rest = [] @ s @ rest \<and> segments_fit ss rest" by simp
      then show ?thesis using segments_fit.simps(2) by blast
    next
      case False
      with m obtain i where i: "index_of s rest = Some i"
        and r: "match_segments ss (drop (i + length s) rest)"
        by (auto split: option.splits)
      from index_of_Some_split [OF i] r Cons
      have "rest = take i rest @ s @ drop (i + length s) rest \<and> segments_fit ss (drop (i + length s) rest)"
        by simp
      then show ?thesis using segments_fit.simps(2) by blast
    qed
  next
    assume "segments_fit (s # ss) rest"
    then obtain x y where r: "rest = x @ s @ y" and y: "segments_fit ss y" by auto
    show "match_segments (s # ss) rest"
    proof (cases "s = []")
      case True
      with r y Cons segments_fit_prepend [OF y] show ?thesis by simp
    next
      case False
      from index_of_leftmost [OF r] obtain i where i: "index_of s rest = Some i" "i \<le> length x" by blast
      have "drop (i + length s) rest = drop (i + length s) (x @ s) @ y"
        using r i(2) by simp
      with segments_fit_prepend [OF y] have "segments_fit ss (drop (i + length s) rest)" by metis
      with False i Cons show ?thesis by simp
    qed
  qed
qed

lemma parts_match_inner:
  "ws \<noteq> [] \<Longrightarrow> (\<exists>y z. v = y @ z \<and> parts_match ws z) \<longleftrightarrow>
     (\<exists>r. v = r @ last ws \<and> segments_fit (butlast ws) r)"
proof (induction ws arbitrary: v)
  case Nil
  then show ?case by simp
next
  case (Cons w ws)
  show ?case
  proof (cases "ws = []")
    case True
    then show ?thesis by auto
  next
    case False
    have "(\<exists>y z. v = y @ z \<and> parts_match (w # ws) z) \<longleftrightarrow>
        (\<exists>y u. v = y @ w @ u \<and> (\<exists>g z. u = g @ z \<and> parts_match ws z))"
      using False by (auto simp: parts_match_Cons)
    also have "\<dots> \<longleftrightarrow> (\<exists>y u. v = y @ w @ u \<and> (\<exists>r. u = r @ last ws \<and> segments_fit (butlast ws) r))"
      using Cons.IH [OF False] by auto
    also have "\<dots> \<longleftrightarrow> (\<exists>r. v = r @ last (w # ws) \<and> segments_fit (butlast (w # ws)) r)"
      using False by fastforce
    finally show ?thesis .
  qed
qed

lemma split_on_no_char: "c \<notin> set s \<Longrightarrow> split_on c s = [s]"
  by (induction s) auto

lemma split_on_char: "c \<in> set s \<Longrightarrow> tl (split_on c s) \<noteq> []"
  by (induction s) (auto split: list.splits)

lemma glob_literal: "CHR ''*'' \<notin> set p \<Longrightarrow> glob p v \<longleftrightarrow> v = p"
  by (simp add: glob_parts split_on_no_char)

lemma match_wildcard_iff_glob: "match_wildcard p v \<longleftrightarrow> p \<noteq> [] \<and> glob p v"
proof (cases "p = [] \<or> CHR ''*'' \<notin> set p")
  case True
  then show ?thesis by (auto simp: match_wildcard_def glob_literal)
next
  case False
  define parts where "parts = split_on CHR ''*'' p"
  obtain f ws where fw: "parts = f # ws" unfolding parts_def by (cases "split_on CHR ''*'' p") auto
  have ws: "ws \<noteq> []" using split_on_char [of "CHR ''*''" p] False fw parts_def by auto
  have "glob p v \<longleftrightarrow> (\<exists>u. v = f @ u \<and> (\<exists>y z. u = y @ z \<and> parts_match ws z))"
    using ws fw parts_def by (auto simp: glob_parts parts_match_Cons)
  also have "\<dots> \<longleftrightarrow> (\<exists>u r. v = f @ u \<and> u = r @ last ws \<and> segments_fit (butlast ws) r)"
    using parts_match_inner [OF ws] by metis
  also have "\<dots> \<longleftrightarrow> prefix f v \<and> suffix (last ws) (drop (length f) v) \<and>
      match_segments (butlast ws) (take (length (drop (length f) v) - length (last ws)) (drop (length f) v))"
    by (auto simp: prefix_def suffix_def match_segments_fit)
  finally show ?thesis
    using False ws fw unfolding match_wildcard_def Let_def
    by (auto simp: starts_with_def ends_with_def parts_def [symmetric])
qed

lemma glob_star [simp]: "glob ''*'' v"
  by (auto simp: list_ex_iff intro: exI [of _ "[]"])

lemma match_wildcard_star [simp]: "match_wildcard ''*'' v"
  by (simp add: match_wildcard_iff_glob del: glob.simps)

lemma is_model_excluded_star:
  "''*'' \<in> set patterns \<Longrightarrow> canonical_model_key model \<noteq> [] \<Longrightarrow> is_model_excluded patterns model"
  by (auto simp: is_model_excluded_def Let_def list_ex_iff intro!: bexI [of _ "''*''"])

lemma is_model_excluded_iff:
  "is_model_excluded patterns model \<longleftrightarrow>
     canonical_model_key model \<noteq> [] \<and>
     (\<exists>p \<in> set patterns. p \<noteq> [] \<and> glob p (js_lower (canonical_model_key model)))"
  by (auto simp: is_model_excluded_def Let_def list_ex_iff match_wildcard_iff_glob)

lemma is_model_excluded_append:
  "is_model_excluded (ps @ qs) model \<longleftrightarrow> is_model_excluded ps model \<or> is_model_excluded qs model"
  by (auto simp: is_model_excluded_iff)

subsection \<open>Canonical keys\<close>

lemma canonical_model_key_eq_Nil: "canonical_model_key model = [] \<longleftrightarrow> js_trim model = []"
  by (simp add: canonical_model_key_def Let_def)

lemma canonical_model_key_Nil [simp]: "canonical_model_key [] = []"
  by (simp add: canonical_model_key_def)

lemma canonical_model_key_trimmed: "js_trim (canonical_model_key model) = canonical_model_key model"
  by (simp add: canonical_model_key_def Let_def)

lemma canonical_model_key_plain: "CHR ''('' \<notin> set (js_trim model) \<Longrightarrow> canonical_model_key model = js_trim model"
  using last_index_of_None [of "CHR ''(''" "js_trim model"]
  by (simp add: canonical_model_key_def parse_model_suffix_def Let_def)

lemma canonical_model_key_idem:
  "CHR ''('' \<notin> set (canonical_model_key model) \<Longrightarrow>
     canonical_model_key (canonical_model_key model) = canonical_model_key model"
  by (simp add: canonical_model_key_plain canonical_model_key_trimmed)

end
