(* ===== verification/Availability.thy ===== *)
theory Availability
  imports Expiry Model_Name
begin

text \<open>
  The availability filter (\<open>packages/models/src/credentials/selection/availability.ts\<close>): whether a credential may
  serve a model at a time, from its cooldown state. Nothing is mutated: a deadline that has passed no longer blocks.
\<close>

datatype block_reason = BlockNone | BlockDisabled | BlockCooldown | BlockOther

record avail_block =
  bk_blocked :: bool
  bk_reason :: block_reason
  bk_next :: ms

definition free_block :: avail_block where
  "free_block = \<lparr>bk_blocked = False, bk_reason = BlockNone, bk_next = 0\<rparr>"

text \<open>The loop over the two deadlines: the later one of those still ahead, 0 when none is.\<close>

definition later_deadline :: "ms \<Rightarrow> ms \<Rightarrow> ms \<Rightarrow> ms" where
  "later_deadline now a b =
     foldl (\<lambda>nxt candidate. if candidate > now \<and> (nxt = 0 \<or> candidate > nxt) then candidate else nxt) 0 [a, b]"

definition availability_block :: "bool \<Rightarrow> bool \<Rightarrow> ms \<Rightarrow> ms \<Rightarrow> ms \<Rightarrow> avail_block" where
  "availability_block unavailable quota_exceeded next_retry_after next_recover_at now =
     (if \<not> unavailable \<and> \<not> quota_exceeded then free_block
      else (let has_recovery = next_retry_after \<noteq> 0 \<or> next_recover_at \<noteq> 0;
                nxt = later_deadline now next_retry_after next_recover_at
            in if nxt \<noteq> 0 then \<lparr>bk_blocked = True, bk_reason = if quota_exceeded then BlockCooldown else BlockOther, bk_next = nxt\<rparr>
               else if has_recovery then free_block
               else \<lparr>bk_blocked = True, bk_reason = BlockOther, bk_next = 0\<rparr>))"

definition has_unauthorized_failure :: "credential_state \<Rightarrow> bool" where
  "has_unauthorized_failure st =
     (case cs_last_error st of
        None \<Rightarrow> False
      | Some e \<Rightarrow>
          cs_unavailable st \<and> cs_status st = StError \<and> cs_next_refresh_after st = 0 \<and> cs_next_retry_after st = 0 \<and>
          (er_http_status e = Some 401 \<or>
           (case er_code e of None \<Rightarrow> False | Some c \<Rightarrow> js_lower c = ''unauthorized'')))"

definition model_state_block :: "model_state \<Rightarrow> ms \<Rightarrow> avail_block" where
  "model_state_block md now =
     availability_block (md_unavailable md) (q_exceeded (md_quota md)) (md_next_retry_after md)
       (q_next_recover_at (md_quota md)) now"

text \<open>
  The loop over the model states whose canonical key is the model's. Its accumulator is the pair of \<open>matched\<close> and
  \<open>result\<close>; a disabled state, or a block with no known end, answers at once.
\<close>

fun scan_model_states :: "string \<Rightarrow> ms \<Rightarrow> (string, model_state) js_map \<Rightarrow> bool \<Rightarrow> avail_block \<Rightarrow> avail_block" where
  "scan_model_states k now [] matched result = (if matched then result else free_block)"
| "scan_model_states k now ((state_model, md) # states) matched result =
     (if canonical_model_key state_model \<noteq> k then scan_model_states k now states matched result
      else if md_status md = StDisabled then \<lparr>bk_blocked = True, bk_reason = BlockDisabled, bk_next = 0\<rparr>
      else (let block = model_state_block md now in
            if \<not> bk_blocked block then scan_model_states k now states True result
            else if bk_next block = 0 then block
            else if \<not> bk_blocked result \<or> bk_next block > bk_next result \<or>
                    (bk_next block = bk_next result \<and> bk_reason block = BlockCooldown)
            then scan_model_states k now states True block
            else scan_model_states k now states True result))"

definition is_blocked_for_model :: "credential \<Rightarrow> credential_state \<Rightarrow> string \<Rightarrow> ms \<Rightarrow> avail_block" where
  "is_blocked_for_model c st model now =
     (if cr_disabled c \<or> cs_status st = StDisabled then \<lparr>bk_blocked = True, bk_reason = BlockDisabled, bk_next = 0\<rparr>
      else if has_unauthorized_failure st then \<lparr>bk_blocked = True, bk_reason = BlockOther, bk_next = 0\<rparr>
      else if (case access_token_expiry (cr_metadata c) (cs_rejected_access_token st) of
                 None \<Rightarrow> False | Some expiry \<Rightarrow> expiry \<le> now)
      then \<lparr>bk_blocked = True, bk_reason = BlockOther, bk_next = 0\<rparr>
      else (let quota = cs_quota st; states = cs_model_states st in
        if q_exceeded quota \<and> q_reason quota = Some ''credential_quota'' \<and> q_next_recover_at quota > now
        then \<lparr>bk_blocked = True, bk_reason = BlockCooldown, bk_next = q_next_recover_at quota\<rparr>
        else if model \<noteq> [] then
          (if states = [] then
             availability_block (cs_unavailable st) (q_exceeded quota) (cs_next_retry_after st) (q_next_recover_at quota) now
           else scan_model_states (canonical_model_key model) now states False free_block)
        else
          (let quota_exceeded =
             (if states \<noteq> [] \<and> q_reason quota \<noteq> Some ''credential_quota'' \<and> \<not> cs_unavailable st then False
              else q_exceeded quota)
           in availability_block (cs_unavailable st) quota_exceeded (cs_next_retry_after st) (q_next_recover_at quota) now)))"

subsection \<open>Deadlines\<close>

text \<open>Deadlines are epoch milliseconds of a running system: the clock is never negative.\<close>

lemma later_deadline_eq:
  "0 \<le> now \<Longrightarrow> later_deadline now a b = (if a > now \<or> b > now then max a b else 0)"
  by (auto simp: later_deadline_def)

lemma availability_block_blocked:
  assumes "0 \<le> now"
  shows "bk_blocked (availability_block u q a b now) \<longleftrightarrow>
    (u \<or> q) \<and> (a > now \<or> b > now \<or> (a = 0 \<and> b = 0))"
  using assms by (auto simp: availability_block_def later_deadline_eq free_block_def Let_def max_def)

lemma availability_block_next:
  assumes "0 \<le> now"
  shows "bk_next (availability_block u q a b now) = (if (u \<or> q) \<and> (a > now \<or> b > now) then max a b else 0)"
  using assms by (auto simp: availability_block_def later_deadline_eq free_block_def Let_def max_def)

lemma availability_block_reason:
  assumes "0 \<le> now"
  shows "bk_reason (availability_block u q a b now) =
    (if (u \<or> q) \<and> (a > now \<or> b > now) then if q then BlockCooldown else BlockOther
     else if (u \<or> q) \<and> a = 0 \<and> b = 0 then BlockOther else BlockNone)"
  using assms by (auto simp: availability_block_def later_deadline_eq free_block_def Let_def max_def)

lemmas availability_block_fields = availability_block_blocked availability_block_next availability_block_reason

text \<open>A block that knows its end ends in the future; a disabled one never says when.\<close>

definition sound_block :: "ms \<Rightarrow> avail_block \<Rightarrow> bool" where
  "sound_block now b \<longleftrightarrow>
     (bk_next b \<noteq> 0 \<longrightarrow> bk_blocked b \<and> bk_next b > now) \<and>
     (bk_reason b = BlockCooldown \<longrightarrow> bk_next b > now) \<and>
     (bk_reason b = BlockDisabled \<longrightarrow> bk_next b = 0) \<and>
     (bk_reason b = BlockNone \<longleftrightarrow> \<not> bk_blocked b)"

lemma sound_free [simp]: "sound_block now free_block"
  by (simp add: sound_block_def free_block_def)

lemma sound_availability_block: "0 \<le> now \<Longrightarrow> sound_block now (availability_block u q a b now)"
  by (auto simp: sound_block_def availability_block_fields max_def)

lemma sound_scan:
  "0 \<le> now \<Longrightarrow> sound_block now r \<Longrightarrow> sound_block now (scan_model_states k now states matched r)"
proof (induction k now states matched r rule: scan_model_states.induct)
  case (1 k now matched r)
  then show ?case by simp
next
  case (2 k now sm md states matched r)
  have "sound_block now (model_state_block md now)"
    unfolding model_state_block_def using 2 by (intro sound_availability_block)
  moreover have "sound_block now \<lparr>bk_blocked = True, bk_reason = BlockDisabled, bk_next = 0\<rparr>"
    by (simp add: sound_block_def)
  ultimately show ?case using 2 by (auto simp: Let_def)
qed

lemma sound_constants [simp]:
  "sound_block now \<lparr>bk_blocked = True, bk_reason = BlockDisabled, bk_next = 0\<rparr>"
  "sound_block now \<lparr>bk_blocked = True, bk_reason = BlockOther, bk_next = 0\<rparr>"
  "sound_block now \<lparr>bk_blocked = True, bk_reason = BlockCooldown, bk_next = t\<rparr> \<longleftrightarrow> t > now"
  by (auto simp: sound_block_def)

lemma sound_if: "(P \<Longrightarrow> sound_block now a) \<Longrightarrow> (\<not> P \<Longrightarrow> sound_block now b) \<Longrightarrow> sound_block now (if P then a else b)"
  by simp

lemma sound_is_blocked: "0 \<le> now \<Longrightarrow> sound_block now (is_blocked_for_model c st model now)"
  unfolding is_blocked_for_model_def Let_def
  by (intro sound_if sound_scan sound_availability_block sound_constants sound_free) simp_all

lemma blocked_next_future:
  "0 \<le> now \<Longrightarrow> bk_next (is_blocked_for_model c st model now) \<noteq> 0 \<Longrightarrow>
     bk_blocked (is_blocked_for_model c st model now) \<and> now < bk_next (is_blocked_for_model c st model now)"
  using sound_is_blocked [of now c st model] by (auto simp: sound_block_def)

lemma blocked_cooldown_next:
  "0 \<le> now \<Longrightarrow> bk_reason (is_blocked_for_model c st model now) = BlockCooldown \<Longrightarrow>
     now < bk_next (is_blocked_for_model c st model now)"
  using sound_is_blocked [of now c st model] by (auto simp: sound_block_def)

text \<open>What \<^const>\<open>scan_model_states\<close> answers, without the loop: the states of this model decide.\<close>

definition states_for :: "string \<Rightarrow> (string, model_state) js_map \<Rightarrow> model_state list" where
  "states_for k states = map snd (filter (\<lambda>p. canonical_model_key (fst p) = k) states)"

lemma scan_blocked_iff:
  assumes "0 \<le> now"
  shows "bk_blocked (scan_model_states k now states matched r) \<longleftrightarrow>
    (matched \<and> bk_blocked r) \<or>
    (states_for k states \<noteq> [] \<and> bk_blocked r) \<or>
    (\<exists>md \<in> set (states_for k states). md_status md = StDisabled \<or> bk_blocked (model_state_block md now))"
  using assms
proof (induction k now states matched r rule: scan_model_states.induct)
  case (1 k now matched r)
  then show ?case by (auto simp: states_for_def free_block_def)
next
  case (2 k now sm md states matched r)
  then show ?case by (auto simp: states_for_def Let_def)
qed

end
