(* ===== verification/Recent_Requests.thy ===== *)
theory Recent_Requests
  imports Credential_Model
begin

text \<open>
  The ring of recent request counts (\<open>packages/models/src/credentials/cooldown/recent-requests.ts\<close>): 20 buckets of
  ten minutes, each slot reused by every twentieth bucket, and the snapshot the management view reads.
  \<open>bucket mod 20\<close> is the source's \<open>((bucket % 20) + 20) % 20\<close>.
\<close>

definition recent_buckets :: nat where "recent_buckets = 20"

definition recent_bucket_ms :: int where "recent_bucket_ms = 600000"

definition ring_slot :: "int \<Rightarrow> nat" where
  "ring_slot bucket = nat (bucket mod int recent_buckets)"

definition empty_bucket :: recent_bucket where
  "empty_bucket = \<lparr>rb_bucket = -1, rb_success = 0, rb_failed = 0\<rparr>"

text \<open>\<open>ring?.[slot]\<close>.\<close>

definition ring_at :: "recent_bucket list option \<Rightarrow> nat \<Rightarrow> recent_bucket option" where
  "ring_at ring i =
     (case ring of None \<Rightarrow> None | Some bs \<Rightarrow> if i < length bs then Some (bs ! i) else None)"

definition fresh_bucket :: "recent_bucket list option \<Rightarrow> int \<Rightarrow> recent_bucket" where
  "fresh_bucket ring bucket =
     (case ring_at ring (ring_slot bucket) of
        Some current \<Rightarrow> if rb_bucket current = bucket then current
                        else \<lparr>rb_bucket = bucket, rb_success = 0, rb_failed = 0\<rparr>
      | None \<Rightarrow> \<lparr>rb_bucket = bucket, rb_success = 0, rb_failed = 0\<rparr>)"

definition record_recent_request :: "recent_bucket list option \<Rightarrow> ms \<Rightarrow> bool \<Rightarrow> recent_bucket list" where
  "record_recent_request ring now success =
     (let bs = (case ring of None \<Rightarrow> [] | Some bs \<Rightarrow> bs);
          bucket = now div recent_bucket_ms;
          entry = fresh_bucket ring bucket;
          counted = (if success then entry\<lparr>rb_success := rb_success entry + 1\<rparr>
                     else entry\<lparr>rb_failed := rb_failed entry + 1\<rparr>)
      in (bs @ replicate (recent_buckets - length bs) empty_bucket)[ring_slot bucket := counted])"

record recent_requests_entry =
  re_start :: ms
  re_success :: int
  re_failed :: int

definition snapshot_entry :: "recent_bucket list option \<Rightarrow> int \<Rightarrow> recent_requests_entry" where
  "snapshot_entry ring bucket =
     (case ring_at ring (ring_slot bucket) of
        Some entry \<Rightarrow>
          if rb_bucket entry = bucket
          then \<lparr>re_start = bucket * recent_bucket_ms, re_success = rb_success entry, re_failed = rb_failed entry\<rparr>
          else \<lparr>re_start = bucket * recent_bucket_ms, re_success = 0, re_failed = 0\<rparr>
      | None \<Rightarrow> \<lparr>re_start = bucket * recent_bucket_ms, re_success = 0, re_failed = 0\<rparr>)"

definition recent_requests_snapshot :: "recent_bucket list option \<Rightarrow> ms \<Rightarrow> recent_requests_entry list" where
  "recent_requests_snapshot ring now =
     map (\<lambda>offset. snapshot_entry ring (now div recent_bucket_ms - int offset)) (rev [0..<recent_buckets])"

subsection \<open>The ring counts each request once\<close>

lemma ring_slot_less: "ring_slot b < recent_buckets"
  by (simp add: ring_slot_def recent_buckets_def nat_less_iff)

lemma record_length: "length (record_recent_request ring now success) =
    max recent_buckets (case ring of None \<Rightarrow> 0 | Some bs \<Rightarrow> length bs)"
  by (auto simp: record_recent_request_def Let_def split: option.splits)

text \<open>Two buckets at most 19 apart never share a slot.\<close>

lemma ring_slot_inj:
  assumes "ring_slot a = ring_slot b" and "\<bar>a - b\<bar> < int recent_buckets"
  shows "a = b"
proof -
  from assms(1) have "a mod 20 = b mod 20"
    by (simp add: ring_slot_def recent_buckets_def nat_eq_iff2 split: if_splits)
  then have "20 dvd a - b" by (simp add: mod_eq_dvd_iff)
  moreover from assms(2) have "\<bar>a - b\<bar> < 20" by (simp add: recent_buckets_def)
  ultimately show ?thesis by presburger
qed

lemma ring_at_record_same:
  "ring_at (Some (record_recent_request ring now success)) (ring_slot (now div recent_bucket_ms)) =
     Some (let e = fresh_bucket ring (now div recent_bucket_ms)
           in if success then e\<lparr>rb_success := rb_success e + 1\<rparr> else e\<lparr>rb_failed := rb_failed e + 1\<rparr>)"
  using ring_slot_less [of "now div recent_bucket_ms"]
  by (auto simp: ring_at_def record_recent_request_def Let_def split: option.splits)

lemma ring_at_record_other:
  assumes "i \<noteq> ring_slot (now div recent_bucket_ms)" and "i < recent_buckets"
  shows "ring_at (Some (record_recent_request ring now success)) i =
    (case ring_at ring i of Some e \<Rightarrow> Some e | None \<Rightarrow> Some empty_bucket)"
  using assms
  by (auto simp: ring_at_def record_recent_request_def Let_def nth_append split: option.splits)

lemma snapshot_entry_record_same:
  "snapshot_entry (Some (record_recent_request ring now success)) (now div recent_bucket_ms) =
     (let e = snapshot_entry ring (now div recent_bucket_ms)
      in if success then e\<lparr>re_success := re_success e + 1\<rparr> else e\<lparr>re_failed := re_failed e + 1\<rparr>)"
  unfolding snapshot_entry_def ring_at_record_same
  by (auto simp: fresh_bucket_def Let_def split: option.splits)

lemma snapshot_entry_record_other:
  assumes "0 \<le> b" and "b \<noteq> now div recent_bucket_ms" and "\<bar>b - now div recent_bucket_ms\<bar> < int recent_buckets"
  shows "snapshot_entry (Some (record_recent_request ring now success)) b = snapshot_entry ring b"
proof -
  have "ring_slot b \<noteq> ring_slot (now div recent_bucket_ms)"
    using ring_slot_inj assms(2,3) by blast
  from ring_at_record_other [OF this ring_slot_less] show ?thesis
    using assms(1) unfolding snapshot_entry_def by (auto simp: empty_bucket_def split: option.splits)
qed

text \<open>
  Passive quota signals (\<open>packages/models/src/credentials/cooldown/quota-signals.ts\<close>): a bounded snapshot of the
  rate-limit headers of a response. Only the management view reads it.
\<close>

definition max_headers :: nat where "max_headers = 64"

definition max_value_length :: nat where "max_value_length = 512"

definition provider_supports_quota_observation :: "string \<Rightarrow> bool" where
  "provider_supports_quota_observation provider =
     (js_lower (js_trim provider) \<in> {''claude'', ''codex'', ''devin''})"

definition codex_markers :: "string list" where
  "codex_markers = [''-allowed'', ''-limit-reached'', ''-limit-name'', ''-used-percent'', ''-window-minutes'',
     ''-reset-after-seconds'', ''-reset-at'', ''-over-secondary-limit-percent'']"

definition is_signal_header :: "string \<Rightarrow> string \<Rightarrow> bool" where
  "is_signal_header provider nm =
     (if nm = ''retry-after'' then provider = ''claude'' \<or> provider = ''codex''
      else if starts_with nm ''anthropic-ratelimit-unified-'' then provider = ''claude''
      else if starts_with nm ''x-ratelimit-'' then provider = ''codex''
      else if \<not> starts_with nm ''x-codex-'' \<or> provider \<noteq> ''codex'' then False
      else if nm = ''x-codex-active-limit'' \<or> nm = ''x-codex-plan-type'' \<or> starts_with nm ''x-codex-credits-'' then True
      else list_ex (\<lambda>marker. js_includes nm marker) codex_markers)"

definition retention_rank :: "string \<Rightarrow> nat" where
  "retention_rank nm =
     (if nm = ''retry-after'' \<or> starts_with nm ''anthropic-ratelimit-unified-'' then 0
      else if nm = ''x-codex-plan-type'' \<or> nm = ''x-codex-active-limit'' \<or> starts_with nm ''x-codex-credits-'' then 1
      else if nm = ''x-codex-allowed'' \<or> nm = ''x-codex-limit-reached'' \<or> starts_with nm ''x-codex-primary-'' \<or>
              starts_with nm ''x-codex-secondary-'' then 2
      else if starts_with nm ''x-codex-code-review-'' then 3
      else if starts_with nm ''x-codex-additional-'' then 5
      else if starts_with nm ''x-codex-'' then 4
      else 6)"

text \<open>\<open>toUpperCase\<close> of the first letter of a part; header names are ASCII.\<close>

definition upper_char :: "char \<Rightarrow> char" where
  "upper_char c = (let n = (of_char c :: nat) in if 97 \<le> n \<and> n \<le> 122 then char_of (n - 32) else c)"

definition canonical_name :: "string \<Rightarrow> string" where
  "canonical_name nm =
     join_with ''-'' (map (\<lambda>part. case part of [] \<Rightarrow> [] | c # cs \<Rightarrow> upper_char c # cs) (split_on CHR ''-'' nm))"

definition valid_value :: "string \<Rightarrow> bool" where
  "valid_value v =
     (if v = [] \<or> length v > max_value_length then False
      else list_all (\<lambda>c. (of_char c :: nat) \<ge> 32 \<and> (of_char c :: nat) \<noteq> 127) v)"

definition add_signal :: "string \<Rightarrow> (string, string) js_map \<Rightarrow> string \<times> string \<Rightarrow> (string, string) js_map" where
  "add_signal provider vals header =
     (let lower_name = js_lower (js_trim (fst header)); v = js_trim (snd header) in
      if \<not> is_signal_header provider lower_name then vals
      else if \<not> valid_value v then vals
      else AList.update (canonical_name lower_name) v vals)"

definition signal_values :: "string \<Rightarrow> (string, string) js_map \<Rightarrow> (string, string) js_map" where
  "signal_values provider headers = foldl (add_signal provider) [] headers"

definition collect_quota_signals :: "string \<Rightarrow> (string, string) js_map \<Rightarrow> (string, string) js_map option" where
  "collect_quota_signals provider headers =
     (let vals = signal_values provider headers in
      if vals = [] then None
      else (let nms = take max_headers (sort_key (\<lambda>n. retention_rank (js_lower n)) (sort (map fst vals)))
            in Some (map (\<lambda>n. (n, case map_of vals n of None \<Rightarrow> [] | Some v \<Rightarrow> v)) nms)))"

text \<open>The new quota record (the source mutates it) and whether anything changed.\<close>

definition observe_response_headers ::
  "quota_state \<Rightarrow> string \<Rightarrow> (string, string) js_map option \<Rightarrow> ms \<Rightarrow> quota_state \<times> bool" where
  "observe_response_headers quota provider headers now =
     (if \<not> provider_supports_quota_observation provider then
        (if q_signals quota = None \<and> q_observed_at quota = None then (quota, False)
         else (quota\<lparr>q_signals := None, q_observed_at := None\<rparr>, True))
      else (case (case headers of None \<Rightarrow> None | Some hs \<Rightarrow> collect_quota_signals (js_lower (js_trim provider)) hs) of
              None \<Rightarrow> (quota, False)
            | Some signals \<Rightarrow> (quota\<lparr>q_signals := Some signals, q_observed_at := Some now\<rparr>, True)))"

subsection \<open>Properties\<close>

text \<open>Observation never touches what selection reads.\<close>

lemma observe_keeps_cooldown [simp]:
  "q_exceeded (fst (observe_response_headers q p h now)) = q_exceeded q"
  "q_reason (fst (observe_response_headers q p h now)) = q_reason q"
  "q_next_recover_at (fst (observe_response_headers q p h now)) = q_next_recover_at q"
  "q_backoff_level (fst (observe_response_headers q p h now)) = q_backoff_level q"
  by (auto simp: observe_response_headers_def split: option.splits)

lemma signal_values_valid: "p \<in> set (signal_values provider headers) \<Longrightarrow> valid_value (snd p)"
proof -
  have "\<forall>p \<in> set (signal_values provider headers). valid_value (snd p)"
    unfolding signal_values_def
    by (rule foldl_invariant) (auto simp: add_signal_def Let_def dest!: set_update_values)
  then show "p \<in> set (signal_values provider headers) \<Longrightarrow> valid_value (snd p)" by blast
qed

lemma collect_bounded:
  "collect_quota_signals provider headers = Some signals \<Longrightarrow>
     length signals \<le> max_headers \<and> signals \<noteq> [] \<and> (\<forall>p \<in> set signals. valid_value (snd p))"
proof -
  assume c: "collect_quota_signals provider headers = Some signals"
  define vals where "vals = signal_values provider headers"
  define nms where "nms = take max_headers (sort_key (\<lambda>n. retention_rank (js_lower n)) (sort (map fst vals)))"
  from c have s: "signals = map (\<lambda>n. (n, case map_of vals n of None \<Rightarrow> [] | Some v \<Rightarrow> v)) nms" and ne: "vals \<noteq> []"
    by (auto simp: collect_quota_signals_def vals_def nms_def Let_def split: if_splits)
  have "valid_value (case map_of vals n of None \<Rightarrow> [] | Some v \<Rightarrow> v)" if n: "n \<in> set nms" for n
  proof -
    from n have "n \<in> fst ` set vals" by (auto simp: nms_def dest: in_set_takeD)
    then obtain v where v: "map_of vals n = Some v" by (metis dom_map_of_conv_image_fst domD)
    then show ?thesis
      using signal_values_valid [of "(n, v)" provider headers] map_of_SomeD [OF v] by (simp add: vals_def)
  qed
  moreover have "length nms = min max_headers (length vals)" by (simp add: nms_def)
  then have "length nms \<le> max_headers \<and> nms \<noteq> []" using ne by (auto simp: max_headers_def min_def split: if_splits)
  ultimately show ?thesis using s by auto
qed

end
