(* ===== verification/Mark_Result.thy ===== *)
theory Mark_Result
  imports Classify Availability Recent_Requests
begin

text \<open>
  The cooldown and quota state machine (\<open>packages/models/src/credentials/cooldown/mark-result.ts\<close>,
  \<open>credentials/cooldown-reset.ts\<close>, the report shape of \<open>selection/types.ts\<close>): what one reported attempt does to
  the state of a credential. The source edits a deep copy of the state in place; here each edit is a record update, and
  a model state is addressed by its key.

  \<open>redact\<close> stands for \<open>redactSecrets\<close> (\<open>credentials/redact.ts\<close>), a rewriting of stored error texts that no
  decision reads; the definitions take it as their first argument.
\<close>

definition quota_backoff_base_ms :: ms where "quota_backoff_base_ms = 1000"

definition quota_backoff_max_ms :: ms where "quota_backoff_max_ms = 30 * 60000"

definition min_quota_cooldown_ms :: ms where "min_quota_cooldown_ms = 10000"

definition transient_error_cooldown_ms :: ms where "transient_error_cooldown_ms = 60000"

definition hard_cooldown_ms :: ms where "hard_cooldown_ms = 30 * 60000"

definition not_found_cooldown_ms :: ms where "not_found_cooldown_ms = 12 * 60 * 60000"

lemmas cooldown_constants = quota_backoff_base_ms_def quota_backoff_max_ms_def min_quota_cooldown_ms_def
  transient_error_cooldown_ms_def hard_cooldown_ms_def not_found_cooldown_ms_def

record cooldown_settings =
  cd_disable_cooling :: bool
  cd_transient_error_cooldown_seconds :: int

record report_result =
  rr_success :: bool
  rr_http_status :: "int option"
  rr_error :: "credential_error option"
  rr_request_scoped :: bool
  rr_retry_after_ms :: "ms option"
  rr_credential_scoped :: bool
  rr_model :: "string option"
  rr_headers :: "(string, string) js_map option"
  rr_skip_quota_observation :: bool
  rr_availability_neutral :: bool
  rr_cost_micros :: "rat option"

definition clone_error :: "(string \<Rightarrow> string) \<Rightarrow> credential_error \<Rightarrow> credential_error" where
  "clone_error redact e = e\<lparr>er_message := redact (er_message e)\<rparr>"

subsection \<open>The quota ladder\<close>

definition next_quota_cooldown :: "int \<Rightarrow> bool \<Rightarrow> ms \<times> int" where
  "next_quota_cooldown previous_level disable_cooling =
     (let level = max 0 previous_level in
      if disable_cooling then (0, level)
      else (let cooldown = quota_backoff_base_ms * 2 ^ nat (min level 40) in
            if cooldown \<ge> quota_backoff_max_ms then (quota_backoff_max_ms, level)
            else (cooldown, level + 1)))"

definition quota_cooldown_after_failure :: "ms \<Rightarrow> int \<Rightarrow> ms \<Rightarrow> ms \<times> int" where
  "quota_cooldown_after_failure next_recover_at backoff_level now =
     (if next_recover_at > now then (next_recover_at, backoff_level)
      else (let (cooldown, level) = next_quota_cooldown backoff_level False
            in (if cooldown > 0 then now + cooldown else 0, level)))"

definition next_cloudflare_cooldown :: "int \<Rightarrow> bool \<Rightarrow> ms \<Rightarrow> ms \<times> int" where
  "next_cloudflare_cooldown level disable_cooling now =
     (if disable_cooling then (0, level)
      else (let (cooldown, next_level) = next_quota_cooldown level disable_cooling
            in (now + max cooldown 10000, next_level)))"

definition recoverable_retry_after :: "ms \<Rightarrow> ms option \<Rightarrow> bool \<Rightarrow> int \<Rightarrow> ms" where
  "recoverable_retry_after now retry_after_ms disable_cooling transient_seconds =
     (if disable_cooling then 0
      else if transient_seconds < 0 then 0
      else (case retry_after_ms of
              Some r \<Rightarrow> if r > 0 then now + r
                        else now + (if transient_seconds = 0 then transient_error_cooldown_ms else transient_seconds * 1000)
            | None \<Rightarrow> now + (if transient_seconds = 0 then transient_error_cooldown_ms else transient_seconds * 1000)))"

subsection \<open>Settings\<close>

definition parse_bool_any :: "json option \<Rightarrow> bool option" where
  "parse_bool_any v =
     (case v of
        Some (JBool b) \<Rightarrow> Some b
      | Some (JNum r) \<Rightarrow> Some (r \<noteq> 0)
      | Some (JStr s) \<Rightarrow>
          (let t = lower s in
           if t \<in> {''1'', ''t'', ''true''} then Some True
           else if t \<in> {''0'', ''f'', ''false''} then Some False else None)
      | _ \<Rightarrow> None)"

definition cooling_override :: "json_object \<Rightarrow> bool option" where
  "cooling_override meta = first_some (\<lambda>k. parse_bool_any (map_of meta k)) [''disable_cooling'', ''disable-cooling'']"

definition cooling_disabled_for :: "credential \<Rightarrow> cooldown_settings \<Rightarrow> bool" where
  "cooling_disabled_for c settings =
     (case cooling_override (cr_metadata c) of Some b \<Rightarrow> b | None \<Rightarrow> cd_disable_cooling settings)"

subsection \<open>State helpers\<close>

definition apply_cooldown_fields :: "bool \<Rightarrow> string option \<Rightarrow> ms \<Rightarrow> int \<Rightarrow> quota_state \<Rightarrow> quota_state" where
  "apply_cooldown_fields exceeded reason next_recover_at backoff_level target =
     target\<lparr>q_exceeded := exceeded, q_reason := (if reason = Some [] then None else reason),
            q_next_recover_at := next_recover_at, q_backoff_level := backoff_level\<rparr>"

definition clear_quota :: "quota_state \<Rightarrow> quota_state" where
  "clear_quota q = apply_cooldown_fields False None 0 0 q"

definition fresh_model_state :: model_state where
  "fresh_model_state = \<lparr>md_status = StActive, md_status_message = None, md_unavailable = False,
     md_next_retry_after = 0, md_last_error = None, md_quota = empty_quota, md_updated_at = 0\<rparr>"

definition get_model :: "credential_state \<Rightarrow> string \<Rightarrow> model_state option" where
  "get_model st k = map_of (cs_model_states st) k"

definition set_model :: "string \<Rightarrow> model_state \<Rightarrow> credential_state \<Rightarrow> credential_state" where
  "set_model k md st = st\<lparr>cs_model_states := AList.update k md (cs_model_states st)\<rparr>"

definition ensure_model_state :: "credential_state \<Rightarrow> string \<Rightarrow> model_state" where
  "ensure_model_state st k = (case get_model st k of Some md \<Rightarrow> md | None \<Rightarrow> fresh_model_state)"

definition reset_model_state :: "model_state \<Rightarrow> ms \<Rightarrow> model_state" where
  "reset_model_state md now = md\<lparr>md_unavailable := False, md_status := StActive, md_status_message := None,
     md_next_retry_after := 0, md_last_error := None, md_quota := clear_quota (md_quota md), md_updated_at := now\<rparr>"

definition model_in_error :: "ms \<Rightarrow> model_state \<Rightarrow> bool" where
  "model_in_error now md \<longleftrightarrow>
     md_last_error md \<noteq> None \<or>
     (md_status md = StError \<and> md_unavailable md \<and> (md_next_retry_after md = 0 \<or> md_next_retry_after md > now))"

definition has_model_error :: "credential_state \<Rightarrow> ms \<Rightarrow> bool" where
  "has_model_error st now = list_ex (model_in_error now) (map snd (cs_model_states st))"

definition clear_aggregated_availability :: "credential_state \<Rightarrow> credential_state" where
  "clear_aggregated_availability st =
     st\<lparr>cs_unavailable := False, cs_next_retry_after := 0, cs_quota := clear_quota (cs_quota st)\<rparr>"

text \<open>\<open>updateAggregatedAvailability\<close>: the loop's accumulators, what one model state adds, and what it becomes.\<close>

record aggregate =
  ag_all_unavailable :: bool
  ag_earliest_retry :: ms
  ag_quota_exceeded :: bool
  ag_quota_recover :: ms
  ag_max_backoff :: int

definition model_unavailable_now :: "ms \<Rightarrow> model_state \<Rightarrow> bool" where
  "model_unavailable_now now md \<longleftrightarrow>
     md_status md = StDisabled \<or> (md_unavailable md \<and> md_next_retry_after md \<noteq> 0 \<and> md_next_retry_after md > now)"

definition aggregate_step :: "ms \<Rightarrow> aggregate \<Rightarrow> model_state \<Rightarrow> aggregate" where
  "aggregate_step now ag md =
     (let live = (md_status md \<noteq> StDisabled \<and> md_unavailable md \<and> md_next_retry_after md \<noteq> 0 \<and>
                  md_next_retry_after md > now);
          q = md_quota md
      in \<lparr>ag_all_unavailable = (ag_all_unavailable ag \<and> model_unavailable_now now md),
          ag_earliest_retry =
            (if live \<and> (ag_earliest_retry ag = 0 \<or> md_next_retry_after md < ag_earliest_retry ag)
             then md_next_retry_after md else ag_earliest_retry ag),
          ag_quota_exceeded = (ag_quota_exceeded ag \<or> q_exceeded q),
          ag_quota_recover =
            (if q_exceeded q \<and> (ag_quota_recover ag = 0 \<or>
                 (q_next_recover_at q \<noteq> 0 \<and> q_next_recover_at q < ag_quota_recover ag))
             then q_next_recover_at q else ag_quota_recover ag),
          ag_max_backoff =
            (if q_exceeded q \<and> q_backoff_level q > ag_max_backoff ag then q_backoff_level q else ag_max_backoff ag)\<rparr>)"

definition settle_model :: "ms \<Rightarrow> model_state \<Rightarrow> model_state" where
  "settle_model now md =
     (if md_status md \<noteq> StDisabled \<and> md_unavailable md \<and> md_next_retry_after md \<noteq> 0 \<and>
         \<not> md_next_retry_after md > now
      then md\<lparr>md_unavailable := False, md_next_retry_after := 0\<rparr> else md)"

definition aggregate_models :: "ms \<Rightarrow> model_state list \<Rightarrow> aggregate" where
  "aggregate_models now mds =
     foldl (aggregate_step now)
       \<lparr>ag_all_unavailable = True, ag_earliest_retry = 0, ag_quota_exceeded = False, ag_quota_recover = 0,
        ag_max_backoff = 0\<rparr> mds"

definition update_aggregated_availability :: "credential_state \<Rightarrow> ms \<Rightarrow> credential_state" where
  "update_aggregated_availability st now =
     (if has_unauthorized_failure st then st\<lparr>cs_unavailable := True\<rparr>
      else if q_exceeded (cs_quota st) \<and> q_reason (cs_quota st) = Some ''credential_quota'' \<and>
              q_next_recover_at (cs_quota st) > now
      then st\<lparr>cs_unavailable := True\<rparr>
      else if cs_model_states st = [] then clear_aggregated_availability st
      else (let ag = aggregate_models now (map snd (cs_model_states st)); q = cs_quota st in
        st\<lparr>cs_model_states := map (\<lambda>(k, md). (k, settle_model now md)) (cs_model_states st),
           cs_unavailable := ag_all_unavailable ag,
           cs_next_retry_after := (if ag_all_unavailable ag then ag_earliest_retry ag else 0),
           cs_quota :=
             (if ag_quota_exceeded ag then
                q\<lparr>q_exceeded := True, q_reason := Some ''quota'',
                  q_next_recover_at := (if q_next_recover_at q > ag_quota_recover ag then q_next_recover_at q
                                        else ag_quota_recover ag),
                  q_backoff_level := ag_max_backoff ag\<rparr>
              else if q_exceeded q \<and> q_next_recover_at q > now then q
              else clear_quota q)\<rparr>))"

definition clear_state_on_success :: "credential_state \<Rightarrow> ms \<Rightarrow> credential_state" where
  "clear_state_on_success st now =
     (if has_unauthorized_failure st then st\<lparr>cs_unavailable := True\<rparr>
      else st\<lparr>cs_unavailable := False, cs_status := StActive, cs_status_message := None,
              cs_quota := clear_quota (cs_quota st), cs_last_error := None, cs_next_retry_after := 0,
              cs_updated_at := now\<rparr>)"

definition transient_statuses :: "int set" where
  "transient_statuses = {408, 500, 502, 503, 504, 520, 521, 522, 523, 524, 525, 526, 529}"

definition not_found_retry :: "ms \<Rightarrow> ms option \<Rightarrow> bool \<Rightarrow> ms" where
  "not_found_retry now retry_after_ms disable_cooling =
     (if disable_cooling then 0
      else (case retry_after_ms of
              Some r \<Rightarrow> if r > 0 then now + r else now + not_found_cooldown_ms
            | None \<Rightarrow> now + not_found_cooldown_ms))"

subsection \<open>A failure without a model\<close>

definition credential_quota_failure :: "credential_state \<Rightarrow> ms option \<Rightarrow> ms \<Rightarrow> bool \<Rightarrow> credential_state" where
  "credential_quota_failure st retry_after_ms now disable_cooling =
     (let q = (cs_quota st)\<lparr>q_exceeded := True, q_reason := Some ''quota''\<rparr>;
          (after, level) =
            (if disable_cooling then (0, q_backoff_level q)
             else (case retry_after_ms of
                     Some r \<Rightarrow> (now + max r min_quota_cooldown_ms, q_backoff_level q)
                   | None \<Rightarrow> quota_cooldown_after_failure (q_next_recover_at q) (q_backoff_level q) now));
          nxt = (if \<not> disable_cooling \<and> q_next_recover_at q > after then q_next_recover_at q else after)
      in st\<lparr>cs_status_message := Some ''quota exhausted'',
            cs_quota := q\<lparr>q_backoff_level := level, q_next_recover_at := nxt\<rparr>,
            cs_next_retry_after := nxt\<rparr>)"

definition credential_failure_table ::
  "credential_state \<Rightarrow> classifiable_error \<Rightarrow> ms option \<Rightarrow> ms \<Rightarrow> bool \<Rightarrow> cooldown_settings \<Rightarrow> credential_state" where
  "credential_failure_table st classified retry_after_ms now disable_cooling settings =
     (let status = ce_status classified;
          hard = (if disable_cooling then 0 else now + hard_cooldown_ms);
          transient = cd_transient_error_cooldown_seconds settings
      in if is_cloudflare_challenge_error classified then
           (let (nxt, level) = next_cloudflare_cooldown (q_backoff_level (cs_quota st)) disable_cooling now
            in st\<lparr>cs_status_message := Some ''cloudflare challenge'',
                  cs_quota := apply_cooldown_fields True (Some ''cloudflare challenge'') nxt level (cs_quota st),
                  cs_next_retry_after := nxt\<rparr>)
         else if is_invalid_grant_error classified then
           st\<lparr>cs_status_message := Some ''invalid_grant'', cs_next_retry_after := hard\<rparr>
         else if status = 401 then st\<lparr>cs_status_message := Some ''unauthorized'', cs_next_retry_after := hard\<rparr>
         else if status = 402 \<or> status = 403 then
           st\<lparr>cs_status_message := Some ''payment_required'', cs_next_retry_after := hard\<rparr>
         else if status = 404 then
           st\<lparr>cs_status_message := Some ''not_found'',
              cs_next_retry_after := not_found_retry now retry_after_ms disable_cooling\<rparr>
         else if status = 429 then credential_quota_failure st retry_after_ms now disable_cooling
         else if status \<in> transient_statuses then
           (let nxt = recoverable_retry_after now retry_after_ms disable_cooling transient
            in st\<lparr>cs_status_message := Some ''transient upstream error'', cs_next_retry_after := nxt,
                  cs_unavailable := nxt \<noteq> 0\<rparr>)
         else
           (let nxt = recoverable_retry_after now None disable_cooling transient
            in st\<lparr>cs_status_message := (if cs_status_message st = None \<or> cs_status_message st = Some []
                                         then Some ''request failed'' else cs_status_message st),
                  cs_next_retry_after := nxt, cs_unavailable := nxt \<noteq> 0\<rparr>))"

definition apply_credential_failure ::
  "(string \<Rightarrow> string) \<Rightarrow> credential_state \<Rightarrow> credential_error \<Rightarrow> classifiable_error \<Rightarrow> ms option \<Rightarrow> ms \<Rightarrow> bool \<Rightarrow>
   cooldown_settings \<Rightarrow> credential_state" where
  "apply_credential_failure redact st e classified retry_after_ms now disable_cooling settings =
     (if should_skip_credential_cooldown classified then st
      else (let previous = cs_next_retry_after st;
          s1 = st\<lparr>cs_unavailable := True, cs_status := StError, cs_updated_at := now,
                  cs_last_error := Some (clone_error redact e),
                  cs_status_message := (if er_message e \<noteq> [] then Some (redact (er_message e))
                                        else cs_status_message st)\<rparr>;
          s2 = credential_failure_table s1 classified retry_after_ms now disable_cooling settings;
          s3 = (if cs_next_retry_after s2 \<noteq> 0 \<and> previous > cs_next_retry_after s2 \<and> previous > now
                then s2\<lparr>cs_next_retry_after := previous\<rparr> else s2);
          s4 = (if er_code e = Some code_force_cooldown \<and> cs_next_retry_after s3 = 0
                then s3\<lparr>cs_next_retry_after := now + transient_error_cooldown_ms, cs_unavailable := True\<rparr> else s3)
        in if disable_cooling \<and> cs_next_retry_after s4 = 0 \<and> q_next_recover_at (cs_quota s4) = 0
           then s4\<lparr>cs_unavailable := False, cs_quota := (cs_quota s4)\<lparr>q_exceeded := False\<rparr>\<rparr> else s4))"

subsection \<open>A failure of one model\<close>

definition propagate_quota :: "ms \<Rightarrow> int \<Rightarrow> model_state \<Rightarrow> model_state" where
  "propagate_quota credential_next backoff_level other =
     (let other_quota_next =
            (if q_exceeded (md_quota other) \<and> q_next_recover_at (md_quota other) > credential_next
             then q_next_recover_at (md_quota other) else credential_next);
          other_retry_after =
            (if md_next_retry_after other \<noteq> 0 \<and> md_next_retry_after other > other_quota_next
             then md_next_retry_after other else other_quota_next)
      in other\<lparr>md_unavailable := True, md_status := StError, md_next_retry_after := other_retry_after,
               md_quota := apply_cooldown_fields True (Some ''credential_quota'') other_quota_next backoff_level
                             (md_quota other)\<rparr>)"

text \<open>The deadline of a 429 and the ladder's level after it, for the model or for the whole credential.\<close>

definition auth_quota_active :: "credential_state \<Rightarrow> bool" where
  "auth_quota_active st \<longleftrightarrow> q_exceeded (cs_quota st) \<and> q_reason (cs_quota st) = Some ''credential_quota''"

definition quota_deadline ::
  "credential_state \<Rightarrow> quota_state \<Rightarrow> bool \<Rightarrow> ms option \<Rightarrow> ms \<Rightarrow> bool \<Rightarrow> ms \<times> int" where
  "quota_deadline st quota credential_scope retry_after_ms now disable_cooling =
     (let level = (if credential_scope then (if auth_quota_active st then q_backoff_level (cs_quota st) else 0)
                   else q_backoff_level quota)
      in if disable_cooling then (0, level)
         else (case retry_after_ms of
                 Some r \<Rightarrow> (now + max r min_quota_cooldown_ms, level)
               | None \<Rightarrow>
                   (if credential_scope then
                      (if auth_quota_active st
                       then quota_cooldown_after_failure (q_next_recover_at (cs_quota st)) (q_backoff_level (cs_quota st)) now
                       else quota_cooldown_after_failure 0 0 now)
                    else quota_cooldown_after_failure (q_next_recover_at quota) (q_backoff_level quota) now)))"

definition later_recovery :: "bool \<Rightarrow> quota_state \<Rightarrow> ms \<Rightarrow> ms" where
  "later_recovery exceeded quota nxt = (if exceeded \<and> q_next_recover_at quota > nxt then q_next_recover_at quota else nxt)"

definition spread_quota ::
  "credential_state \<Rightarrow> string \<Rightarrow> ms \<Rightarrow> int \<Rightarrow> bool \<Rightarrow> credential_state" where
  "spread_quota st k credential_next level was_terminal =
     (let st1 = st\<lparr>cs_model_states :=
            map (\<lambda>(k', other). (k', if k' = k then other else propagate_quota credential_next level other))
              (cs_model_states st)\<rparr>;
          auth_next = later_recovery (auth_quota_active st) (cs_quota st) credential_next
      in if was_terminal then st1
         else st1\<lparr>cs_unavailable := True,
                   cs_quota := (cs_quota st1)\<lparr>q_exceeded := True, q_reason := Some ''credential_quota'',
                     q_next_recover_at := auth_next, q_backoff_level := level\<rparr>,
                   cs_next_retry_after := auth_next\<rparr>)"

definition apply_quota_failure ::
  "credential_state \<Rightarrow> string \<Rightarrow> model_state \<Rightarrow> report_result \<Rightarrow> ms option \<Rightarrow> ms \<Rightarrow> bool \<Rightarrow> bool \<Rightarrow>
   credential_state \<times> model_state" where
  "apply_quota_failure st k md result retry_after_ms now disable_cooling was_terminal =
     (let (credential_next, level) =
            quota_deadline st (md_quota md) (rr_credential_scoped result) retry_after_ms now disable_cooling;
          nxt = later_recovery (\<not> disable_cooling \<and> q_exceeded (md_quota md)) (md_quota md) credential_next;
          md' = md\<lparr>md_next_retry_after := nxt,
                   md_quota := apply_cooldown_fields True (Some ''quota'') nxt level (md_quota md)\<rparr>
      in (if \<not> rr_credential_scoped result \<or> disable_cooling then st
          else spread_quota st k credential_next level was_terminal, md'))"

definition model_failure_table ::
  "credential_state \<Rightarrow> string \<Rightarrow> model_state \<Rightarrow> classifiable_error \<Rightarrow> report_result \<Rightarrow> ms \<Rightarrow> bool \<Rightarrow> bool \<Rightarrow>
   cooldown_settings \<Rightarrow> credential_state \<times> model_state" where
  "model_failure_table st k md classified result now disable_cooling was_terminal settings =
     (let status = ce_status classified; retry_after_ms = rr_retry_after_ms result;
          transient = cd_transient_error_cooldown_seconds settings
      in if is_model_support_error classified then
           (st, md\<lparr>md_next_retry_after := not_found_retry now retry_after_ms disable_cooling\<rparr>)
         else if is_cloudflare_challenge_error classified then
           (let (nxt, level) = next_cloudflare_cooldown (q_backoff_level (md_quota md)) disable_cooling now
            in (if cs_last_error st \<noteq> None \<and> \<not> was_terminal
                then st\<lparr>cs_status_message := Some ''cloudflare challenge''\<rparr> else st,
                md\<lparr>md_next_retry_after := nxt, md_status_message := Some ''cloudflare challenge'',
                   md_quota := apply_cooldown_fields True (Some ''cloudflare challenge'') nxt level (md_quota md)\<rparr>))
         else if is_invalid_grant_error classified then
           (st, md\<lparr>md_next_retry_after := (if disable_cooling then 0 else now + hard_cooldown_ms)\<rparr>)
         else if status = 401 \<or> status = 402 \<or> status = 403 then
           (st, md\<lparr>md_next_retry_after := (if disable_cooling then 0 else now + hard_cooldown_ms)\<rparr>)
         else if status = 404 then
           (st, md\<lparr>md_next_retry_after := not_found_retry now retry_after_ms disable_cooling\<rparr>)
         else if status = 429 then
           apply_quota_failure st k md result retry_after_ms now disable_cooling was_terminal
         else if status \<in> transient_statuses then
           (let nxt = recoverable_retry_after now retry_after_ms disable_cooling transient
            in (st, md\<lparr>md_next_retry_after := nxt, md_unavailable := nxt \<noteq> 0\<rparr>))
         else
           (let nxt = recoverable_retry_after now None disable_cooling transient
            in (st, md\<lparr>md_next_retry_after := nxt, md_unavailable := nxt \<noteq> 0\<rparr>)))"

definition adjust_model_failure :: "credential_error \<Rightarrow> bool \<Rightarrow> ms \<Rightarrow> ms \<Rightarrow> model_state \<Rightarrow> model_state" where
  "adjust_model_failure failure disable_cooling previous now md =
     (let m1 = (if disable_cooling \<and> md_next_retry_after md = 0 \<and> q_next_recover_at (md_quota md) = 0
                then md\<lparr>md_unavailable := False, md_quota := (md_quota md)\<lparr>q_exceeded := False\<rparr>\<rparr> else md);
          m2 = (if er_code failure = Some code_force_cooldown \<and> md_next_retry_after m1 = 0
                then m1\<lparr>md_next_retry_after := now + transient_error_cooldown_ms, md_unavailable := True\<rparr> else m1)
      in if md_next_retry_after m2 \<noteq> 0 \<and> previous > md_next_retry_after m2 \<and> previous > now
         then m2\<lparr>md_next_retry_after := previous\<rparr> else m2)"

definition failing_model :: "(string \<Rightarrow> string) \<Rightarrow> credential_error \<Rightarrow> ms \<Rightarrow> model_state \<Rightarrow> model_state" where
  "failing_model redact failure now md =
     md\<lparr>md_unavailable := True, md_status := StError, md_updated_at := now,
        md_last_error := Some (clone_error redact failure), md_status_message := Some (redact (er_message failure))\<rparr>"

definition note_failure ::
  "(string \<Rightarrow> string) \<Rightarrow> credential_error \<Rightarrow> bool \<Rightarrow> credential_state \<Rightarrow> credential_state" where
  "note_failure redact failure was_terminal st =
     (if was_terminal then st
      else st\<lparr>cs_last_error := Some (clone_error redact failure),
              cs_status_message := Some (redact (er_message failure))\<rparr>)"

definition apply_model_failure ::
  "(string \<Rightarrow> string) \<Rightarrow> credential_state \<Rightarrow> string \<Rightarrow> credential_error \<Rightarrow> classifiable_error \<Rightarrow> report_result \<Rightarrow> ms \<Rightarrow>
   bool \<Rightarrow> bool \<Rightarrow> cooldown_settings \<Rightarrow> credential_state" where
  "apply_model_failure redact st k failure classified result now disable_cooling was_terminal settings =
     (if should_skip_credential_cooldown classified then st
      else (let ensured = ensure_model_state st k;
          md = failing_model redact failure now ensured;
          s2 = note_failure redact failure was_terminal (set_model k md st);
          (s3, md') = model_failure_table s2 k md classified result now disable_cooling was_terminal settings;
          md'' = adjust_model_failure failure disable_cooling (md_next_retry_after ensured) now md'
        in update_aggregated_availability ((set_model k md'' s3)\<lparr>cs_status := StError\<rparr>) now))"

subsection \<open>MarkResult\<close>

definition result_error :: "report_result \<Rightarrow> credential_error option" where
  "result_error result =
     (if rr_success result then None
      else (let source = rr_error result;
                source_code = (case source of Some e \<Rightarrow> er_code e | None \<Rightarrow> None);
                http_status = (case source of
                    Some e \<Rightarrow> (case er_http_status e of Some s \<Rightarrow> Some s | None \<Rightarrow> rr_http_status result)
                  | None \<Rightarrow> rr_http_status result);
                code = (if rr_request_scoped result \<and> source_code \<noteq> Some code_force_cooldown
                        then Some code_request_scoped else source_code)
            in Some \<lparr>er_code = code,
                 er_message = (case source of
                     Some e \<Rightarrow> er_message e
                   | None \<Rightarrow> (case http_status of None \<Rightarrow> ''request failed'' | Some s \<Rightarrow> ''HTTP '' @ show_int s)),
                 er_retryable = (case source of Some e \<Rightarrow> er_retryable e | None \<Rightarrow> False),
                 er_http_status = http_status\<rparr>))"

definition classifiable :: "credential_error \<Rightarrow> classifiable_error" where
  "classifiable e =
     \<lparr>ce_status = (case er_http_status e of Some s \<Rightarrow> s | None \<Rightarrow> 0), ce_message = er_message e, ce_code = er_code e\<rparr>"

definition apply_success :: "credential_state \<Rightarrow> string \<Rightarrow> ms \<Rightarrow> bool \<Rightarrow> credential_state" where
  "apply_success st k now was_terminal =
     (if was_terminal then
        (if k \<noteq> [] then set_model k (reset_model_state (ensure_model_state st k) now) st else st)
      else if q_reason (cs_quota st) = Some ''credential_quota'' \<and> q_next_recover_at (cs_quota st) > now then st
      else if k \<noteq> [] then
        (let s1 = update_aggregated_availability
                    (set_model k (reset_model_state (ensure_model_state st k) now) st) now
         in if has_model_error s1 now then s1
            else s1\<lparr>cs_last_error := None, cs_status_message := None, cs_status := StActive\<rparr>)
      else clear_state_on_success st now)"

definition count_result :: "credential_state \<Rightarrow> bool \<Rightarrow> ms \<Rightarrow> credential_state" where
  "count_result st success now =
     (let s = st\<lparr>cs_recent_requests := Some (record_recent_request (cs_recent_requests st) now success)\<rparr>
      in if success then s\<lparr>cs_success := cs_success s + 1\<rparr> else s\<lparr>cs_failed := cs_failed s + 1\<rparr>)"

definition keep_terminal :: "bool \<Rightarrow> ms \<Rightarrow> credential_state \<Rightarrow> credential_state" where
  "keep_terminal was_terminal now st =
     (if was_terminal
      then st\<lparr>cs_unavailable := True, cs_status := StError, cs_next_refresh_after := 0, cs_next_retry_after := 0,
              cs_updated_at := now\<rparr>
      else st\<lparr>cs_updated_at := now\<rparr>)"

definition observe_result :: "credential \<Rightarrow> string \<Rightarrow> report_result \<Rightarrow> ms \<Rightarrow> credential_state \<Rightarrow> credential_state" where
  "observe_result c k result now st =
     (if rr_skip_quota_observation result then st
      else (let observe = (\<lambda>q. fst (observe_response_headers q (cr_provider c) (rr_headers result) now));
                s1 = st\<lparr>cs_quota := observe (cs_quota st)\<rparr>
            in if k = [] then s1
               else (case get_model s1 k of
                       None \<Rightarrow> s1
                     | Some md \<Rightarrow> set_model k (md\<lparr>md_quota := observe (md_quota md)\<rparr>) s1)))"

definition mark_result ::
  "(string \<Rightarrow> string) \<Rightarrow> credential \<Rightarrow> credential_state \<Rightarrow> ms \<Rightarrow> string \<Rightarrow> report_result \<Rightarrow> cooldown_settings \<Rightarrow>
   credential_state" where
  "mark_result redact c st now model result settings =
     (let k = canonical_model_key model;
          was_terminal = has_unauthorized_failure st;
          s0 = count_result st (rr_success result) now
      in if rr_availability_neutral result then s0\<lparr>cs_updated_at := now\<rparr>
         else
           (let s1 =
              (if rr_success result then apply_success s0 k now was_terminal
               else (case result_error result of
                       None \<Rightarrow> s0
                     | Some failure \<Rightarrow>
                         (let classified = classifiable failure;
                              forced = (er_code failure = Some code_force_cooldown);
                              disable_cooling = (if forced then False else cooling_disabled_for c settings)
                          in if k \<noteq> [] then
                               apply_model_failure redact s0 k failure classified result now disable_cooling
                                 was_terminal settings
                             else if \<not> was_terminal then
                               apply_credential_failure redact s0 failure classified (rr_retry_after_ms result) now
                                 disable_cooling settings
                             else s0)))
            in observe_result c k result now (keep_terminal was_terminal now s1)))"

subsection \<open>The management reset\<close>

definition reset_cooldown_state :: "credential_state \<Rightarrow> ms \<Rightarrow> credential_state \<times> string list" where
  "reset_cooldown_state st now =
     (let keep_error = (case cs_last_error st of Some e \<Rightarrow> er_http_status e = Some 401 | None \<Rightarrow> False)
      in (st\<lparr>cs_last_error := (if keep_error then cs_last_error st else None),
             cs_status_message := (if keep_error then cs_status_message st else None),
             cs_status := (if keep_error then cs_status st else StActive),
             cs_unavailable := False, cs_next_retry_after := 0, cs_quota := empty_quota, cs_model_states := [],
             cs_updated_at := now\<rparr>,
          filter (\<lambda>k. js_trim k \<noteq> []) (map fst (cs_model_states st))))"

end
