(* ===== verification/Cooldown.thy ===== *)
theory Cooldown
  imports Mark_Result
begin

text \<open>
  What the cooldown state machine guarantees: the ladder of quota windows, what each step keeps of the state
  (\<open>state_ok\<close>), and how the writer (\<^const>\<open>mark_result\<close>) and the reader (\<^const>\<open>is_blocked_for_model\<close>)
  of a cooldown agree.
\<close>

subsection \<open>The ladder\<close>

lemma pow2_cap: "11 \<le> n \<Longrightarrow> n \<le> 40 \<Longrightarrow> (1800000::int) \<le> 1000 * 2 ^ n"
proof -
  assume "11 \<le> n"
  then have "(2::int) ^ 11 \<le> 2 ^ n" by (intro power_increasing) auto
  then show ?thesis by simp
qed

lemma pow2_below_cap: "n \<le> 10 \<Longrightarrow> 1000 * 2 ^ n < (1800000::int)"
proof -
  assume "n \<le> 10"
  then have "(2::int) ^ n \<le> 2 ^ 10" by (intro power_increasing) auto
  then show ?thesis by simp
qed

lemma next_quota_cooldown_closed:
  assumes "0 \<le> level"
  shows "next_quota_cooldown level False =
    (if level \<le> 10 then (1000 * 2 ^ nat level, level + 1) else (quota_backoff_max_ms, level))"
proof (cases "level \<le> 10")
  case True
  then have "nat level \<le> 10" by simp
  from pow2_below_cap [OF this] True assms show ?thesis
    by (simp add: next_quota_cooldown_def Let_def cooldown_constants min_def max_def)
next
  case False
  then have "11 \<le> nat (min level 40)" "nat (min level 40) \<le> 40" using assms by auto
  from pow2_cap [OF this] False assms show ?thesis
    by (simp add: next_quota_cooldown_def Let_def cooldown_constants max_def)
qed

definition level_ok :: "int \<Rightarrow> bool" where
  "level_ok l \<longleftrightarrow> 0 \<le> l \<and> l \<le> 11"

lemma level_ok_0 [simp]: "level_ok 0"
  by (simp add: level_ok_def)

lemma next_quota_cooldown_ok:
  assumes "next_quota_cooldown level False = (cooldown, level')"
  shows "1000 \<le> cooldown \<and> cooldown \<le> quota_backoff_max_ms \<and> (level_ok level \<longrightarrow> level_ok level')"
proof -
  have "next_quota_cooldown (max 0 level) False = next_quota_cooldown level False"
    by (simp add: next_quota_cooldown_def)
  with assms have c: "next_quota_cooldown (max 0 level) False = (cooldown, level')" by simp
  show ?thesis
  proof (cases "max 0 level \<le> 10")
    case True
    have "nat (max 0 level) \<le> 10" using True by auto
    from pow2_below_cap [OF this] c True show ?thesis
      by (auto simp: next_quota_cooldown_closed cooldown_constants level_ok_def max_def split: if_splits)
  next
    case False
    with c show ?thesis
      by (auto simp: next_quota_cooldown_closed cooldown_constants level_ok_def max_def split: if_splits)
  qed
qed

lemma quota_cooldown_after_failure_ok:
  assumes "quota_cooldown_after_failure nra level now = (after, level')"
  shows "now < after \<and> (level_ok level \<longrightarrow> level_ok level') \<and> (nra \<le> now \<longrightarrow> now + 1000 \<le> after) \<and>
    (nra > now \<longrightarrow> after = nra) \<and> (nra \<le> now \<longrightarrow> after \<le> now + quota_backoff_max_ms)"
  using assms next_quota_cooldown_ok [of level "fst (next_quota_cooldown level False)"]
  by (auto simp: quota_cooldown_after_failure_def split: if_splits prod.splits)

lemma next_cloudflare_cooldown_ok:
  assumes "next_cloudflare_cooldown level d now = (after, level')"
  shows "(d \<longrightarrow> after = 0) \<and> (\<not> d \<longrightarrow> now + 10000 \<le> after) \<and> (level_ok level \<longrightarrow> level_ok level')"
  using assms next_quota_cooldown_ok [of level "fst (next_quota_cooldown level False)"]
  by (auto simp: next_cloudflare_cooldown_def split: if_splits prod.splits)

text \<open>
  The windows of a credential that fails again each time its window has ended: the level and the length of the
  \<open>n\<close>-th window from level 0.
\<close>

fun ladder_level :: "nat \<Rightarrow> int" where
  "ladder_level 0 = 0"
| "ladder_level (Suc n) = snd (quota_cooldown_after_failure 0 (ladder_level n) 0)"

definition ladder_window :: "nat \<Rightarrow> ms \<Rightarrow> ms" where
  "ladder_window n now = fst (quota_cooldown_after_failure now (ladder_level n) now) - now"

lemma ladder_level_eq: "ladder_level n = int (min n 11)"
proof (induction n)
  case (Suc n)
  have "next_quota_cooldown (int (min n 11)) False =
      (if int (min n 11) \<le> 10 then (1000 * 2 ^ nat (int (min n 11)), int (min n 11) + 1)
       else (quota_backoff_max_ms, int (min n 11)))"
    by (intro next_quota_cooldown_closed) simp
  then show ?case
    using Suc by (auto simp: quota_cooldown_after_failure_def min_def split: prod.splits)
qed simp

lemma ladder_window_eq: "ladder_window n now = min (1000 * 2 ^ n) quota_backoff_max_ms"
proof -
  have closed: "next_quota_cooldown (int (min n 11)) False =
      (if int (min n 11) \<le> 10 then (1000 * 2 ^ nat (int (min n 11)), int (min n 11) + 1)
       else (quota_backoff_max_ms, int (min n 11)))"
    by (intro next_quota_cooldown_closed) simp
  show ?thesis
  proof (cases "n \<le> 10")
    case True
    with closed pow2_below_cap [OF True] show ?thesis
      by (simp add: ladder_window_def ladder_level_eq quota_cooldown_after_failure_def cooldown_constants min_def)
  next
    case False
    then have "(2::int) ^ 11 \<le> 2 ^ n" by (intro power_increasing) auto
    with False closed show ?thesis
      by (simp add: ladder_window_def ladder_level_eq quota_cooldown_after_failure_def cooldown_constants min_def)
  qed
qed

subsection \<open>Retry times of the failure tables\<close>

lemma not_found_retry_gt: "\<not> d \<Longrightarrow> now < not_found_retry now r d"
  by (auto simp: not_found_retry_def not_found_cooldown_ms_def split: option.splits)

lemma recoverable_gt: "\<not> d \<Longrightarrow> 0 \<le> s \<Longrightarrow> now < recoverable_retry_after now r d s"
  by (auto simp: recoverable_retry_after_def cooldown_constants split: option.splits)

lemma not_found_retry_nonneg: "0 \<le> now \<Longrightarrow> 0 \<le> not_found_retry now r d"
  by (auto simp: not_found_retry_def not_found_cooldown_ms_def split: option.splits)

lemma recoverable_nonneg: "0 \<le> now \<Longrightarrow> 0 \<le> recoverable_retry_after now r d s"
  by (auto simp: recoverable_retry_after_def cooldown_constants split: option.splits)

subsection \<open>Frames\<close>

text \<open>What each helper leaves alone.\<close>

lemma set_model_frame [simp]:
  "cs_status (set_model k md st) = cs_status st" "cs_unavailable (set_model k md st) = cs_unavailable st"
  "cs_next_retry_after (set_model k md st) = cs_next_retry_after st" "cs_quota (set_model k md st) = cs_quota st"
  "cs_last_error (set_model k md st) = cs_last_error st"
  "cs_next_refresh_after (set_model k md st) = cs_next_refresh_after st"
  "cs_rejected_access_token (set_model k md st) = cs_rejected_access_token st"
  "cs_model_states (set_model k md st) = AList.update k md (cs_model_states st)"
  by (simp_all add: set_model_def)

lemma get_set_model [simp]: "get_model (set_model k md st) k' = (if k' = k then Some md else get_model st k')"
  by (simp add: get_model_def update_conv')

lemma count_result_frame [simp]:
  "cs_status (count_result st s now) = cs_status st" "cs_unavailable (count_result st s now) = cs_unavailable st"
  "cs_next_retry_after (count_result st s now) = cs_next_retry_after st"
  "cs_quota (count_result st s now) = cs_quota st" "cs_last_error (count_result st s now) = cs_last_error st"
  "cs_next_refresh_after (count_result st s now) = cs_next_refresh_after st"
  "cs_rejected_access_token (count_result st s now) = cs_rejected_access_token st"
  "cs_model_states (count_result st s now) = cs_model_states st"
  "get_model (count_result st s now) k = get_model st k"
  by (simp_all add: count_result_def Let_def get_model_def)

lemma has_unauthorized_cong:
  "cs_last_error st = cs_last_error st' \<Longrightarrow> cs_unavailable st = cs_unavailable st' \<Longrightarrow> cs_status st = cs_status st' \<Longrightarrow>
   cs_next_refresh_after st = cs_next_refresh_after st' \<Longrightarrow> cs_next_retry_after st = cs_next_retry_after st' \<Longrightarrow>
   has_unauthorized_failure st = has_unauthorized_failure st'"
  unfolding has_unauthorized_failure_def by (simp cong: option.case_cong)

lemma has_unauthorized_count [simp]:
  "has_unauthorized_failure (count_result st s now) = has_unauthorized_failure st"
  by (rule has_unauthorized_cong) simp_all

lemma has_unauthorized_set_model [simp]:
  "has_unauthorized_failure (set_model k md st) = has_unauthorized_failure st"
  by (rule has_unauthorized_cong) simp_all

lemma observe_result_frame [simp]:
  "cs_status (observe_result c k r now st) = cs_status st"
  "cs_unavailable (observe_result c k r now st) = cs_unavailable st"
  "cs_next_retry_after (observe_result c k r now st) = cs_next_retry_after st"
  "cs_last_error (observe_result c k r now st) = cs_last_error st"
  "cs_next_refresh_after (observe_result c k r now st) = cs_next_refresh_after st"
  "cs_rejected_access_token (observe_result c k r now st) = cs_rejected_access_token st"
  "q_exceeded (cs_quota (observe_result c k r now st)) = q_exceeded (cs_quota st)"
  "q_reason (cs_quota (observe_result c k r now st)) = q_reason (cs_quota st)"
  "q_next_recover_at (cs_quota (observe_result c k r now st)) = q_next_recover_at (cs_quota st)"
  "q_backoff_level (cs_quota (observe_result c k r now st)) = q_backoff_level (cs_quota st)"
  by (simp_all add: observe_result_def Let_def split: option.splits)

lemma keep_terminal_frame [simp]:
  "cs_quota (keep_terminal w now st) = cs_quota st"
  "cs_model_states (keep_terminal w now st) = cs_model_states st"
  "cs_last_error (keep_terminal w now st) = cs_last_error st"
  "cs_rejected_access_token (keep_terminal w now st) = cs_rejected_access_token st"
  by (simp_all add: keep_terminal_def)

text \<open>
  The five fields of a model state that availability reads, and that observation keeps. Two states that agree on
  them, key by key, block alike.
\<close>

definition cooldown_view :: "model_state \<Rightarrow> credential_status \<times> bool \<times> ms \<times> bool \<times> ms" where
  "cooldown_view md =
     (md_status md, md_unavailable md, md_next_retry_after md, q_exceeded (md_quota md), q_next_recover_at (md_quota md))"

definition views :: "(string, model_state) js_map \<Rightarrow> (string \<times> credential_status \<times> bool \<times> ms \<times> bool \<times> ms) list" where
  "views states = map (\<lambda>(k, md). (k, cooldown_view md)) states"

lemma model_state_block_view: "cooldown_view a = cooldown_view b \<Longrightarrow> model_state_block a now = model_state_block b now"
  by (simp add: cooldown_view_def model_state_block_def)

lemma scan_views:
  "views states = views states' \<Longrightarrow>
     scan_model_states k now states matched r = scan_model_states k now states' matched r"
proof (induction k now states matched r arbitrary: states' rule: scan_model_states.induct)
  case (1 k now matched r)
  then show ?case by (simp add: views_def)
next
  case (2 k now sm md states matched r)
  then obtain md' rest where s': "states' = (sm, md') # rest" and v: "cooldown_view md = cooldown_view md'"
    and r: "views states = views rest"
    by (cases states') (auto simp: views_def)
  from model_state_block_view [OF v] have "model_state_block md now = model_state_block md' now" .
  moreover from v have "md_status md = md_status md'" by (simp add: cooldown_view_def)
  ultimately show ?case using 2 r s' by (simp add: Let_def)
qed

lemma views_update_same:
  "map_of m k = Some md \<Longrightarrow> cooldown_view md' = cooldown_view md \<Longrightarrow> views (AList.update k md' m) = views m"
  by (induction m) (auto simp: views_def split: if_splits)

lemma observe_result_views: "views (cs_model_states (observe_result c k r now st)) = views (cs_model_states st)"
  by (auto simp: observe_result_def Let_def get_model_def cooldown_view_def intro!: views_update_same split: option.splits)

lemma is_blocked_cong:
  assumes "cs_status st = cs_status st'" "cs_unavailable st = cs_unavailable st'"
    "cs_next_retry_after st = cs_next_retry_after st'" "cs_next_refresh_after st = cs_next_refresh_after st'"
    "cs_last_error st = cs_last_error st'" "cs_rejected_access_token st = cs_rejected_access_token st'"
    "q_exceeded (cs_quota st) = q_exceeded (cs_quota st')" "q_reason (cs_quota st) = q_reason (cs_quota st')"
    "q_next_recover_at (cs_quota st) = q_next_recover_at (cs_quota st')"
    "views (cs_model_states st) = views (cs_model_states st')"
  shows "is_blocked_for_model c st model t = is_blocked_for_model c st' model t"
proof -
  have "has_unauthorized_failure st = has_unauthorized_failure st'"
    using assms(1-5) by (intro has_unauthorized_cong) simp_all
  moreover have "cs_model_states st = [] \<longleftrightarrow> cs_model_states st' = []"
    using assms(10) by (auto simp: views_def)
  ultimately show ?thesis
    using assms scan_views [OF assms(10)] unfolding is_blocked_for_model_def by (simp add: Let_def cong: if_cong)
qed

lemma is_blocked_observe [simp]:
  "is_blocked_for_model c' (observe_result c k r now st) model t = is_blocked_for_model c' st model t"
  by (rule is_blocked_cong) (simp_all add: observe_result_views)

end
