(* ===== verification/Cooldown_Safety.thy ===== *)
theory Cooldown_Safety
  imports Cooldown
begin

text \<open>
  The contract between the reports of attempts (\<^const>\<open>mark_result\<close>) and the selection of credentials
  (\<^const>\<open>is_blocked_for_model\<close>): which reports take a credential out of rotation, for how long, and which never do.
\<close>

definition cooling_on :: "credential \<Rightarrow> cooldown_settings \<Rightarrow> credential_error \<Rightarrow> bool" where
  "cooling_on c settings e \<longleftrightarrow> er_code e = Some code_force_cooldown \<or> \<not> cooling_disabled_for c settings"

subsection \<open>The failure tables\<close>

lemma apply_cooldown_fields_frame [simp]:
  "q_exceeded (apply_cooldown_fields x r n l q) = x" "q_next_recover_at (apply_cooldown_fields x r n l q) = n"
  "q_backoff_level (apply_cooldown_fields x r n l q) = l"
  "q_reason (apply_cooldown_fields x r n l q) = (if r = Some [] then None else r)"
  by (simp_all add: apply_cooldown_fields_def)

lemma quota_deadline_ok:
  assumes "quota_deadline st q scope r now False = (d, l)" and "0 \<le> now"
  shows "now < d \<and> (\<forall>s. r = Some s \<longrightarrow> d = now + max s 10000) \<and>
    (scope \<and> \<not> auth_quota_active st \<longrightarrow> now + 1000 \<le> d)"
proof (cases r)
  case None
  have ok: "quota_cooldown_after_failure n b now = (d, l) \<Longrightarrow> now < d \<and> (n \<le> now \<longrightarrow> now + 1000 \<le> d)" for n b
    by (drule quota_cooldown_after_failure_ok) auto
  show ?thesis
  proof (cases "scope \<and> \<not> auth_quota_active st")
    case True
    then show ?thesis using assms None ok [of 0 0] by (simp add: quota_deadline_def)
  next
    case False
    then show ?thesis using assms None ok by (auto simp: quota_deadline_def split: if_splits)
  qed
next
  case (Some s)
  then show ?thesis using assms by (auto simp: quota_deadline_def Let_def cooldown_constants)
qed

lemma later_recovery_ge: "nxt \<le> later_recovery x q nxt"
  by (simp add: later_recovery_def)

lemma apply_quota_failure_model:
  assumes "apply_quota_failure st k md result r now False w = (st', md')" and "0 \<le> now"
  shows "md_unavailable md' = md_unavailable md \<and> now < md_next_retry_after md' \<and> md_status md' = md_status md \<and>
    (\<forall>s. r = Some s \<longrightarrow> now + max s 10000 \<le> md_next_retry_after md')"
proof -
  obtain d l where dl: "quota_deadline st (md_quota md) (rr_credential_scoped result) r now False = (d, l)" by force
  have md': "md' = md\<lparr>md_next_retry_after := later_recovery (q_exceeded (md_quota md)) (md_quota md) d,
      md_quota := apply_cooldown_fields True (Some ''quota'') (later_recovery (q_exceeded (md_quota md)) (md_quota md) d) l
        (md_quota md)\<rparr>"
    using assms(1) by (simp add: apply_quota_failure_def dl Let_def)
  from quota_deadline_ok [OF dl assms(2)] later_recovery_ge [of d "q_exceeded (md_quota md)" "md_quota md"]
  show ?thesis unfolding md' by auto
qed

lemma model_failure_table_deadline:
  assumes "model_failure_table st k md e result now False w settings = (st', md')"
    and "0 \<le> now" and "0 \<le> cd_transient_error_cooldown_seconds settings" and "md_unavailable md"
  shows "md_unavailable md' \<and> now < md_next_retry_after md'"
proof -
  note gt = not_found_retry_gt [of False now "rr_retry_after_ms result"] recoverable_gt [OF _ assms(3), of False now]
  obtain a l where al: "next_cloudflare_cooldown (q_backoff_level (md_quota md)) False now = (a, l)" by force
  have cloud: "now < a" using next_cloudflare_cooldown_ok [OF al] by simp
  have hard: "now < now + hard_cooldown_ms" by (simp add: cooldown_constants)
  have quota: "apply_quota_failure st k md result (rr_retry_after_ms result) now False w = (st', md') \<Longrightarrow>
      md_unavailable md' \<and> now < md_next_retry_after md'"
    using apply_quota_failure_model assms(2,4) by blast
  have ne: "recoverable_retry_after now r False (cd_transient_error_cooldown_seconds settings) \<noteq> 0" for r
    using gt(2) [of r] assms(2) by simp
  show ?thesis
    using assms(1,4) gt cloud hard quota ne
    by (simp add: model_failure_table_def Let_def al split: if_splits) auto
qed

text \<open>What a failure does to the credential itself: a status message, or the spread of a credential-wide quota.\<close>

lemma model_failure_table_state:
  assumes "model_failure_table st k md e result now d w settings = (st', md')"
  obtains "st' = st"
  | msg where "st' = st\<lparr>cs_status_message := msg\<rparr>"
  | a l where "st' = spread_quota st k a l w" "quota_deadline st (md_quota md) True (rr_retry_after_ms result) now d = (a, l)"
      "rr_credential_scoped result" "\<not> d" "ce_status e = 429"
proof -
  obtain a l where al: "quota_deadline st (md_quota md) (rr_credential_scoped result) (rr_retry_after_ms result) now d = (a, l)"
    by force
  obtain b m where bm: "next_cloudflare_cooldown (q_backoff_level (md_quota md)) d now = (b, m)" by force
  have "st' = st \<or> (\<exists>msg. st' = st\<lparr>cs_status_message := msg\<rparr>) \<or>
    (st' = spread_quota st k a l w \<and> rr_credential_scoped result \<and> \<not> d \<and> ce_status e = 429)"
    using assms
    by (auto simp: model_failure_table_def Let_def apply_quota_failure_def al bm split: if_splits)
  with al that show thesis by auto
qed

definition spread_model :: "string \<Rightarrow> ms \<Rightarrow> int \<Rightarrow> string \<times> model_state \<Rightarrow> string \<times> model_state" where
  "spread_model k a l p = (fst p, if fst p = k then snd p else propagate_quota a l (snd p))"

lemma spread_quota_frame [simp]:
  "cs_status (spread_quota st k a l w) = cs_status st"
  "cs_last_error (spread_quota st k a l w) = cs_last_error st"
  "cs_next_refresh_after (spread_quota st k a l w) = cs_next_refresh_after st"
  "cs_rejected_access_token (spread_quota st k a l w) = cs_rejected_access_token st"
  "cs_model_states (spread_quota st k a l w) = map (spread_model k a l) (cs_model_states st)"
  by (auto simp: spread_quota_def Let_def spread_model_def)

lemma fst_spread_model [simp]: "fst (spread_model k a l p) = fst p"
  by (simp add: spread_model_def)

lemma spread_quota_live:
  "cs_unavailable (spread_quota st k a l False)"
  "q_exceeded (cs_quota (spread_quota st k a l False))"
  "q_reason (cs_quota (spread_quota st k a l False)) = Some ''credential_quota''"
  "a \<le> q_next_recover_at (cs_quota (spread_quota st k a l False))"
  "cs_next_retry_after (spread_quota st k a l False) = q_next_recover_at (cs_quota (spread_quota st k a l False))"
  by (simp_all add: spread_quota_def Let_def later_recovery_ge)

lemma model_failure_table_frame:
  assumes "model_failure_table st k md e result now d w settings = (st', md')"
  shows "cs_status st' = cs_status st \<and> cs_last_error st' = cs_last_error st \<and>
    cs_next_refresh_after st' = cs_next_refresh_after st \<and>
    cs_rejected_access_token st' = cs_rejected_access_token st \<and>
    map fst (cs_model_states st') = map fst (cs_model_states st)"
  using assms by (rule model_failure_table_state) (auto simp: comp_def)

lemma adjust_model_failure_cooling:
  assumes "0 \<le> now" "now < md_next_retry_after md" "md_unavailable md"
  shows "md_unavailable (adjust_model_failure f False previous now md) \<and>
    md_next_retry_after md \<le> md_next_retry_after (adjust_model_failure f False previous now md) \<and>
    (now < previous \<longrightarrow> previous \<le> md_next_retry_after (adjust_model_failure f False previous now md))"
  using assms by (simp add: adjust_model_failure_def Let_def)

subsection \<open>Aggregation\<close>

lemma update_aggregated_frame [simp]:
  "cs_status (update_aggregated_availability st now) = cs_status st"
  "cs_last_error (update_aggregated_availability st now) = cs_last_error st"
  "cs_next_refresh_after (update_aggregated_availability st now) = cs_next_refresh_after st"
  "cs_rejected_access_token (update_aggregated_availability st now) = cs_rejected_access_token st"
  "map fst (cs_model_states (update_aggregated_availability st now)) = map fst (cs_model_states st)"
  by (auto simp: update_aggregated_availability_def Let_def clear_aggregated_availability_def)

lemma update_aggregated_models:
  "cs_model_states (update_aggregated_availability st now) = cs_model_states st \<or>
   cs_model_states (update_aggregated_availability st now) =
     map (\<lambda>(k, md). (k, settle_model now md)) (cs_model_states st)"
  by (auto simp: update_aggregated_availability_def Let_def clear_aggregated_availability_def)

lemma get_model_aggregated:
  "get_model (update_aggregated_availability st now) k = get_model st k \<or>
   get_model (update_aggregated_availability st now) k = map_option (settle_model now) (get_model st k)"
  using update_aggregated_models [of st now] by (auto simp: get_model_def map_of_map)

lemma settle_live [simp]: "now < md_next_retry_after md \<Longrightarrow> settle_model now md = md"
  by (simp add: settle_model_def)

lemma get_model_aggregated_live:
  "get_model st k = Some md \<Longrightarrow> now < md_next_retry_after md \<Longrightarrow>
     get_model (update_aggregated_availability st now) k = Some md"
  using get_model_aggregated [of st now k] by auto

lemma apply_model_failure_cases:
  assumes "\<not> should_skip_credential_cooldown e"
  obtains s2 md0 s3 md1 where "md0 = failing_model redact f now (ensure_model_state st k)"
    "s2 = note_failure redact f w (set_model k md0 st)"
    "model_failure_table s2 k md0 e result now d w settings = (s3, md1)"
    "apply_model_failure redact st k f e result now d w settings =
       update_aggregated_availability ((set_model k
         (adjust_model_failure f d (md_next_retry_after (ensure_model_state st k)) now md1) s3)\<lparr>cs_status := StError\<rparr>) now"
proof -
  define md0 where "md0 = failing_model redact f now (ensure_model_state st k)"
  define s2 where "s2 = note_failure redact f w (set_model k md0 st)"
  obtain s3 md1 where t: "model_failure_table s2 k md0 e result now d w settings = (s3, md1)" by force
  show thesis
    by (rule that [OF md0_def s2_def t])
      (use assms t in \<open>simp add: apply_model_failure_def Let_def md0_def s2_def\<close>)
qed

lemma failing_model_fields [simp]:
  "md_unavailable (failing_model redact f now md)" "md_status (failing_model redact f now md) = StError"
  "md_next_retry_after (failing_model redact f now md) = md_next_retry_after md"
  "md_quota (failing_model redact f now md) = md_quota md"
  by (simp_all add: failing_model_def)

lemma note_failure_frame [simp]:
  "cs_status (note_failure redact f w st) = cs_status st"
  "cs_quota (note_failure redact f w st) = cs_quota st"
  "cs_model_states (note_failure redact f w st) = cs_model_states st"
  "cs_next_refresh_after (note_failure redact f w st) = cs_next_refresh_after st"
  "cs_rejected_access_token (note_failure redact f w st) = cs_rejected_access_token st"
  "cs_last_error (note_failure redact f True st) = cs_last_error st"
  by (simp_all add: note_failure_def)

text \<open>\<open>low\<close> is any lower bound the table gives the deadline.\<close>

lemma apply_model_failure_ge:
  assumes "\<not> should_skip_credential_cooldown e" "0 \<le> now"
    and tab: "\<And>s2 md0 s3 md1. model_failure_table s2 k md0 e result now False w settings = (s3, md1) \<Longrightarrow>
      md_unavailable md0 \<Longrightarrow> md_unavailable md1 \<and> now < md_next_retry_after md1 \<and> low \<le> md_next_retry_after md1"
  shows "\<exists>md. get_model (apply_model_failure redact st k f e result now False w settings) k = Some md \<and>
    md_unavailable md \<and> now < md_next_retry_after md \<and> low \<le> md_next_retry_after md \<and>
    (\<forall>old. get_model st k = Some old \<longrightarrow> md_next_retry_after old \<le> md_next_retry_after md)"
proof (rule apply_model_failure_cases [OF assms(1), of redact f now st k w result False settings])
  fix s2 md0 s3 md1
  assume md0: "md0 = failing_model redact f now (ensure_model_state st k)"
    and t: "model_failure_table s2 k md0 e result now False w settings = (s3, md1)"
    and r: "apply_model_failure redact st k f e result now False w settings =
       update_aggregated_availability ((set_model k
         (adjust_model_failure f False (md_next_retry_after (ensure_model_state st k)) now md1) s3)\<lparr>cs_status := StError\<rparr>) now"
  let ?old = "md_next_retry_after (ensure_model_state st k)"
  let ?md2 = "adjust_model_failure f False ?old now md1"
  have d: "md_unavailable md1 \<and> now < md_next_retry_after md1 \<and> low \<le> md_next_retry_after md1"
    by (rule tab [OF t]) (simp add: md0)
  have a: "md_unavailable ?md2 \<and> md_next_retry_after md1 \<le> md_next_retry_after ?md2 \<and>
    (now < ?old \<longrightarrow> ?old \<le> md_next_retry_after ?md2)"
    using d assms(2) by (intro adjust_model_failure_cooling) auto
  then have live: "now < md_next_retry_after ?md2" using d by linarith
  have "get_model ((set_model k ?md2 s3)\<lparr>cs_status := StError\<rparr>) k = Some ?md2" by (simp add: get_model_def update_conv')
  from get_model_aggregated_live [OF this live] a d live show ?thesis
    unfolding r by (auto simp: ensure_model_state_def)
qed

lemma quota_failure_table:
  assumes "model_failure_table st k md e result now False w settings = (st', md')" "0 \<le> now" "md_unavailable md"
    and "ce_status e = 429" "\<not> is_model_support_error e" "\<not> is_cloudflare_challenge_error e" "\<not> is_invalid_grant_error e"
    and "rr_retry_after_ms result = Some r"
  shows "md_unavailable md' \<and> now < md_next_retry_after md' \<and> now + max r 10000 \<le> md_next_retry_after md'"
proof -
  have "apply_quota_failure st k md result (Some r) now False w = (st', md')"
    using assms(1,4-8) by (simp add: model_failure_table_def Let_def)
  from apply_quota_failure_model [OF this assms(2)] assms(3) show ?thesis by simp
qed

subsection \<open>Reports\<close>

lemma mark_result_model_failure:
  assumes "\<not> rr_availability_neutral result" "\<not> rr_success result" "result_error result = Some e"
    and "canonical_model_key model \<noteq> []"
  shows "mark_result redact c st now model result settings =
    observe_result c (canonical_model_key model) result now (keep_terminal (has_unauthorized_failure st) now
      (apply_model_failure redact (count_result st False now) (canonical_model_key model) e (classifiable e) result now
        (\<not> cooling_on c settings e) (has_unauthorized_failure st) settings))"
  using assms by (auto simp: mark_result_def Let_def cooling_on_def)

lemma canonical_Nil_iff: "model = [] \<Longrightarrow> canonical_model_key model = []"
  by simp

lemma live_model_blocks:
  assumes "0 \<le> t" "get_model st k = Some md" "canonical_model_key model = k" "canonical_model_key k = k" "k \<noteq> []"
    and "md_unavailable md" "t < md_next_retry_after md"
  shows "bk_blocked (is_blocked_for_model c st model t)"
proof -
  have "(k, md) \<in> set (cs_model_states st)" using assms(2) by (simp add: get_model_def map_of_Some_in)
  then have mem: "md \<in> set (states_for k (cs_model_states st))"
    using assms(4) by (force simp: states_for_def)
  have "bk_blocked (model_state_block md t)"
    using assms by (simp add: model_state_block_def availability_block_blocked)
  with mem have "bk_blocked (scan_model_states (canonical_model_key model) t (cs_model_states st) False free_block)"
    using assms(1,3) by (auto simp: scan_blocked_iff)
  moreover have "cs_model_states st \<noteq> []" using assms(2) by (auto simp: get_model_def)
  moreover have "model \<noteq> []" using assms(3,5) by auto
  ultimately show ?thesis by (simp add: is_blocked_for_model_def Let_def)
qed

lemma observed_get_model:
  "get_model (observe_result c k' result now st) k = Some md' \<Longrightarrow>
     \<exists>md. get_model st k = Some md \<and> cooldown_view md = cooldown_view md'"
  by (auto simp: observe_result_def Let_def get_model_def cooldown_view_def update_conv' split: option.splits if_splits)

text \<open>A cooldown written by the failure is read by the selection, whatever follows it in the report.\<close>

lemma failure_blocks_ge:
  assumes "\<not> rr_availability_neutral result" "\<not> rr_success result" "result_error result = Some e"
    and "\<not> should_skip_credential_cooldown (classifiable e)" "cooling_on c settings e" "0 \<le> now"
    and k: "k = canonical_model_key model" "k \<noteq> []" "canonical_model_key k = k"
    and tab: "\<And>s2 md0 s3 md1. model_failure_table s2 k md0 (classifiable e) result now False (has_unauthorized_failure st) settings = (s3, md1) \<Longrightarrow>
      md_unavailable md0 \<Longrightarrow> md_unavailable md1 \<and> now < md_next_retry_after md1 \<and> low \<le> md_next_retry_after md1"
  shows "\<exists>deadline. now < deadline \<and> low \<le> deadline \<and>
    (\<forall>old. get_model st k = Some old \<longrightarrow> md_next_retry_after old \<le> deadline) \<and>
    (\<forall>t. 0 \<le> t \<and> t < deadline \<longrightarrow> bk_blocked (is_blocked_for_model c (mark_result redact c st now model result settings) model t))"
proof -
  let ?w = "has_unauthorized_failure st"
  let ?s = "apply_model_failure redact (count_result st False now) k e (classifiable e) result now False ?w settings"
  have "\<exists>md. get_model ?s k = Some md \<and> md_unavailable md \<and> now < md_next_retry_after md \<and>
      low \<le> md_next_retry_after md \<and>
      (\<forall>old. get_model (count_result st False now) k = Some old \<longrightarrow> md_next_retry_after old \<le> md_next_retry_after md)"
    by (rule apply_model_failure_ge [OF assms(4,6)]) (rule tab)
  then obtain md where md: "get_model ?s k = Some md" "md_unavailable md" "now < md_next_retry_after md"
    "low \<le> md_next_retry_after md" "\<forall>old. get_model st k = Some old \<longrightarrow> md_next_retry_after old \<le> md_next_retry_after md"
    by auto
  have g: "get_model (keep_terminal ?w now ?s) k = Some md" using md(1) by (simp add: get_model_def)
  have "mark_result redact c st now model result settings = observe_result c k result now (keep_terminal ?w now ?s)"
    using mark_result_model_failure [OF assms(1-3)] k assms(5) by simp
  then have "bk_blocked (is_blocked_for_model c (mark_result redact c st now model result settings) model t)"
    if "0 \<le> t" "t < md_next_retry_after md" for t
    using live_model_blocks [OF that(1) g k(1) [symmetric] k(3,2) md(2) that(2)] by simp
  with md show ?thesis by blast
qed

end
