(* ===== verification/Cooldown_Invariant.thy ===== *)
theory Cooldown_Invariant
  imports Cooldown_Safety
begin

text \<open>
  The invariant of a credential's cooldown state, and that every report and the management reset keep it: ladder levels
  stay on the ladder, no deadline is negative, an exceeded quota always says when it ends (so that nothing waits for a
  success that may never come), and the model states are keyed by trimmed names, each once.
\<close>

definition quota_ok :: "quota_state \<Rightarrow> bool" where
  "quota_ok q \<longleftrightarrow> level_ok (q_backoff_level q) \<and> 0 \<le> q_next_recover_at q \<and>
     (q_exceeded q \<longrightarrow> 0 < q_next_recover_at q)"

definition model_ok :: "model_state \<Rightarrow> bool" where
  "model_ok md \<longleftrightarrow> quota_ok (md_quota md) \<and> 0 \<le> md_next_retry_after md"

definition models_ok :: "(string, model_state) js_map \<Rightarrow> bool" where
  "models_ok states \<longleftrightarrow> distinct_keys states \<and> (\<forall>md \<in> snd ` set states. model_ok md) \<and>
     (\<forall>k \<in> fst ` set states. js_trim k = k)"

definition state_ok :: "credential_state \<Rightarrow> bool" where
  "state_ok st \<longleftrightarrow> quota_ok (cs_quota st) \<and> 0 \<le> cs_next_retry_after st \<and> models_ok (cs_model_states st)"

lemma quota_ok_empty [simp]: "quota_ok empty_quota"
  by (simp add: quota_ok_def empty_quota_def)

lemma state_ok_empty: "state_ok empty_state"
  by (simp add: state_ok_def empty_state_def models_ok_def)

lemma quota_ok_clear [simp]: "quota_ok (clear_quota q)"
  by (simp add: quota_ok_def clear_quota_def)

lemma quota_ok_observe [simp]: "quota_ok (fst (observe_response_headers q p h now)) = quota_ok q"
  by (simp add: quota_ok_def)

lemma model_ok_fresh: "model_ok fresh_model_state"
  by (simp add: model_ok_def fresh_model_state_def)

lemma models_ok_update:
  "models_ok states \<Longrightarrow> model_ok md \<Longrightarrow> models_ok (AList.update (canonical_model_key model) md states)"
  by (auto simp: models_ok_def canonical_model_key_trimmed dest!: set_update_values)

lemma models_ok_map:
  assumes "models_ok states" and "\<And>k md. model_ok md \<Longrightarrow> model_ok (f k md)"
  shows "models_ok (map (\<lambda>(k, md). (k, f k md)) states)"
proof -
  let ?m = "map (\<lambda>(k, md). (k, f k md)) states"
  have k: "map fst ?m = map fst states" by (simp add: comp_def case_prod_beta)
  have "distinct_keys ?m" using assms(1) unfolding models_ok_def distinct_keys_def k by simp
  moreover have "fst ` set ?m = fst ` set states" using k by (metis list.set_map)
  moreover have "\<forall>md \<in> snd ` set ?m. model_ok md" using assms by (force simp: models_ok_def)
  ultimately show ?thesis using assms(1) by (simp add: models_ok_def)
qed

lemma models_ok_get: "models_ok (cs_model_states st) \<Longrightarrow> get_model st k = Some md \<Longrightarrow> model_ok md"
  by (force simp: models_ok_def get_model_def dest: map_of_Some_in)

lemma model_ok_ensure: "models_ok (cs_model_states st) \<Longrightarrow> model_ok (ensure_model_state st k)"
  by (auto simp: ensure_model_state_def model_ok_fresh dest: models_ok_get split: option.split)

lemma model_ok_reset: "model_ok (reset_model_state md now)"
  by (simp add: model_ok_def reset_model_state_def)

lemma model_ok_settle: "model_ok md \<Longrightarrow> model_ok (settle_model now md)"
  by (simp add: model_ok_def settle_model_def)

subsection \<open>Aggregation\<close>

lemma aggregate_ok:
  assumes "\<forall>md \<in> set mds. model_ok md" and "0 \<le> now"
  shows "0 \<le> ag_earliest_retry (aggregate_models now mds) \<and> level_ok (ag_max_backoff (aggregate_models now mds)) \<and>
    0 \<le> ag_quota_recover (aggregate_models now mds) \<and>
    (ag_quota_exceeded (aggregate_models now mds) \<longrightarrow> 0 < ag_quota_recover (aggregate_models now mds))"
  unfolding aggregate_models_def
proof (rule foldl_invariant [where I = "\<lambda>ag. 0 \<le> ag_earliest_retry ag \<and> level_ok (ag_max_backoff ag) \<and>
    0 \<le> ag_quota_recover ag \<and> (ag_quota_exceeded ag \<longrightarrow> 0 < ag_quota_recover ag)"], goal_cases)
  case 1
  then show ?case by simp
next
  case (2 ag md)
  then have "model_ok md" using assms by simp
  with 2 show ?case
    by (auto simp: aggregate_step_def Let_def model_ok_def quota_ok_def)
qed

lemma state_ok_if: "(P \<Longrightarrow> state_ok a) \<Longrightarrow> (\<not> P \<Longrightarrow> state_ok b) \<Longrightarrow> state_ok (if P then a else b)"
  by simp

lemma quota_ok_if: "(P \<Longrightarrow> quota_ok a) \<Longrightarrow> (\<not> P \<Longrightarrow> quota_ok b) \<Longrightarrow> quota_ok (if P then a else b)"
  by simp

lemma state_ok_aggregated:
  assumes "state_ok st" "0 \<le> now"
  shows "state_ok (update_aggregated_availability st now)"
proof -
  let ?ag = "aggregate_models now (map snd (cs_model_states st))"
  let ?q = "cs_quota st"
  have "\<forall>md \<in> set (map snd (cs_model_states st)). model_ok md"
    using assms(1) by (auto simp: state_ok_def models_ok_def)
  note ag = aggregate_ok [OF this assms(2)]
  have q: "quota_ok ?q" and m: "models_ok (cs_model_states st)" using assms(1) by (simp_all add: state_ok_def)
  have "quota_ok (if ag_quota_exceeded ?ag then
      ?q\<lparr>q_exceeded := True, q_reason := Some ''quota'',
         q_next_recover_at := (if q_next_recover_at ?q > ag_quota_recover ?ag then q_next_recover_at ?q else ag_quota_recover ?ag),
         q_backoff_level := ag_max_backoff ?ag\<rparr>
    else if q_exceeded ?q \<and> q_next_recover_at ?q > now then ?q else clear_quota ?q)"
    using ag q by (intro quota_ok_if quota_ok_clear) (auto simp: quota_ok_def)
  moreover have "models_ok (map (\<lambda>(k, md). (k, settle_model now md)) (cs_model_states st))"
    using m by (rule models_ok_map) (rule model_ok_settle)
  ultimately show ?thesis
    unfolding update_aggregated_availability_def Let_def using assms(1) ag
    by (intro state_ok_if) (simp_all add: state_ok_def clear_aggregated_availability_def)
qed

subsection \<open>The failure paths\<close>

lemma quota_cooldown_levels:
  "quota_cooldown_after_failure n b now = (d, l) \<Longrightarrow> level_ok b \<Longrightarrow> 0 \<le> now \<Longrightarrow> level_ok l \<and> 0 < d"
  by (drule quota_cooldown_after_failure_ok) auto

lemma quota_deadline_invariant:
  assumes "quota_deadline st q scope r now d = (a, l)" "quota_ok (cs_quota st)" "quota_ok q" "0 < now"
  shows "level_ok l \<and> 0 \<le> a \<and> (\<not> d \<longrightarrow> 0 < a)"
proof -
  have lv: "level_ok (q_backoff_level (cs_quota st))" "level_ok (q_backoff_level q)" using assms by (simp_all add: quota_ok_def)
  have nn: "0 \<le> now" using assms(4) by simp
  note ql = quota_cooldown_levels [OF _ lv(1) nn] quota_cooldown_levels [OF _ lv(2) nn]
    quota_cooldown_levels [OF _ level_ok_0 nn]
  show ?thesis
  proof (cases r)
    case None
    then show ?thesis
      using assms(1) lv ql(1) [of "q_next_recover_at (cs_quota st)"] ql(2) [of "q_next_recover_at q"] ql(3) [of 0]
      by (cases d; cases scope; cases "auth_quota_active st") (simp_all add: quota_deadline_def)
  next
    case (Some s)
    then show ?thesis using assms(1,4) lv by (auto simp: quota_deadline_def Let_def cooldown_constants split: if_splits)
  qed
qed

lemma propagate_ok:
  "0 < a \<Longrightarrow> level_ok l \<Longrightarrow> model_ok md \<Longrightarrow> model_ok (propagate_quota a l md)"
  by (simp add: propagate_quota_def Let_def model_ok_def quota_ok_def)

lemma spread_ok:
  assumes "state_ok st" "0 < a" "level_ok l"
  shows "state_ok (spread_quota st k a l w)"
proof -
  have "models_ok (map (\<lambda>(k', md). (k', if k' = k then md else propagate_quota a l md)) (cs_model_states st))"
    using assms by (intro models_ok_map) (auto simp: state_ok_def intro: propagate_ok)
  moreover have "0 < later_recovery (auth_quota_active st) (cs_quota st) a" using assms(2) by (simp add: later_recovery_def)
  ultimately show ?thesis using assms by (simp add: spread_quota_def Let_def state_ok_def quota_ok_def)
qed

text \<open>
  Between the failure table and the adjustment that follows it an exceeded quota may have no end, but only while
  cooling is disabled and then the model has no deadline either.
\<close>

definition table_ok :: "bool \<Rightarrow> model_state \<Rightarrow> bool" where
  "table_ok d md \<longleftrightarrow> level_ok (q_backoff_level (md_quota md)) \<and> 0 \<le> q_next_recover_at (md_quota md) \<and>
     0 \<le> md_next_retry_after md \<and>
     (q_exceeded (md_quota md) \<and> q_next_recover_at (md_quota md) = 0 \<longrightarrow> d \<and> md_next_retry_after md = 0)"

lemma table_ok_retry: "model_ok md \<Longrightarrow> 0 \<le> n \<Longrightarrow> table_ok d (md\<lparr>md_next_retry_after := n\<rparr>)"
  "model_ok md \<Longrightarrow> 0 \<le> n \<Longrightarrow> table_ok d (md\<lparr>md_next_retry_after := n, md_unavailable := u\<rparr>)"
  by (auto simp: table_ok_def model_ok_def quota_ok_def)

lemma quota_failure_invariant:
  assumes "apply_quota_failure st k md result r now d w = (st', md')" "state_ok st" "model_ok md" "0 < now"
  shows "state_ok st' \<and> table_ok d md'"
proof -
  obtain a l where al: "quota_deadline st (md_quota md) (rr_credential_scoped result) r now d = (a, l)" by force
  have ok: "level_ok l \<and> 0 \<le> a \<and> (\<not> d \<longrightarrow> 0 < a)"
    using quota_deadline_invariant [OF al] assms by (simp add: state_ok_def model_ok_def)
  have "st' = st \<or> (st' = spread_quota st k a l w \<and> \<not> d)"
    using assms(1) by (auto simp: apply_quota_failure_def al Let_def split: if_splits)
  then have "state_ok st'" using spread_ok [OF assms(2), of a l k w] ok assms(2) by auto
  moreover have "table_ok d md'"
    using assms(1,3) ok by (auto simp: apply_quota_failure_def al Let_def table_ok_def model_ok_def quota_ok_def later_recovery_def
        split: if_splits)
  ultimately show ?thesis ..
qed

lemma model_table_invariant:
  assumes "model_failure_table st k md e result now d w settings = (st', md')" "state_ok st" "model_ok md" "0 < now"
  shows "state_ok st' \<and> table_ok d md'"
proof -
  obtain b m where bm: "next_cloudflare_cooldown (q_backoff_level (md_quota md)) d now = (b, m)" by force
  have cloud: "level_ok m \<and> 0 \<le> b \<and> (\<not> d \<longrightarrow> 0 < b) \<and> (d \<longrightarrow> b = 0)"
    using next_cloudflare_cooldown_ok [OF bm] assms(3,4) by (auto simp: model_ok_def quota_ok_def)
  have quota: "apply_quota_failure st k md result r now d w = (st', md') \<Longrightarrow> state_ok st' \<and> table_ok d md'" for r
    using quota_failure_invariant assms by blast
  have msg: "state_ok (st\<lparr>cs_status_message := x\<rparr>)" for x using assms(2) by (simp add: state_ok_def)
  have nn: "0 \<le> now" "0 \<le> now + hard_cooldown_ms" using assms(4) by (simp_all add: cooldown_constants)
  have tr: "table_ok d (md\<lparr>md_next_retry_after := n\<rparr>)" if "0 \<le> n" for n using table_ok_retry(1) assms(3) that by blast
  have tr2: "table_ok d (md\<lparr>md_next_retry_after := n, md_unavailable := u\<rparr>)" if "0 \<le> n" for n u
    using table_ok_retry(2) assms(3) that by blast
  have tq: "table_ok d (md\<lparr>md_next_retry_after := b, md_status_message := y, md_quota := apply_cooldown_fields True z b m (md_quota md)\<rparr>)"
    for y z using cloud by (auto simp: table_ok_def)
  show ?thesis
    using assms(1,2) quota msg nn tr tr2 tq not_found_retry_nonneg recoverable_nonneg
    unfolding model_failure_table_def Let_def bm
    by (simp split: if_splits) (auto simp: nn)
qed

lemma adjust_ok:
  assumes "table_ok d md" "0 < now"
  shows "model_ok (adjust_model_failure f d previous now md)"
  using assms unfolding adjust_model_failure_def Let_def
  by (cases "d \<and> md_next_retry_after md = 0 \<and> q_next_recover_at (md_quota md) = 0")
    (auto simp: table_ok_def model_ok_def quota_ok_def cooldown_constants)

lemma set_model_ok:
  "state_ok st \<Longrightarrow> model_ok md \<Longrightarrow> k = canonical_model_key model \<Longrightarrow> state_ok (set_model k md st)"
  by (auto simp: state_ok_def set_model_def intro!: models_ok_update)

lemma note_failure_ok: "state_ok (note_failure redact f w st) = state_ok st"
  by (simp add: note_failure_def state_ok_def)

lemma apply_model_failure_ok:
  assumes "state_ok st" "0 < now" "k = canonical_model_key model"
  shows "state_ok (apply_model_failure redact st k f e result now d w settings)"
proof (cases "should_skip_credential_cooldown e")
  case True
  then show ?thesis using assms(1) by (simp add: apply_model_failure_def)
next
  case False
  then show ?thesis
  proof (rule apply_model_failure_cases [of e redact f now st k w result d settings])
    fix s2 md0 s3 md1
    assume md0: "md0 = failing_model redact f now (ensure_model_state st k)"
      and s2: "s2 = note_failure redact f w (set_model k md0 st)"
      and t: "model_failure_table s2 k md0 e result now d w settings = (s3, md1)"
      and r: "apply_model_failure redact st k f e result now d w settings =
         update_aggregated_availability ((set_model k
           (adjust_model_failure f d (md_next_retry_after (ensure_model_state st k)) now md1) s3)\<lparr>cs_status := StError\<rparr>) now"
    have m: "model_ok md0" using model_ok_ensure [of st k] assms(1) by (simp add: md0 model_ok_def state_ok_def)
    then have "state_ok s2" using assms by (simp add: s2 note_failure_ok set_model_ok)
    with model_table_invariant [OF t] m assms(2) have "state_ok s3" "table_ok d md1" by auto
    then have "state_ok (set_model k (adjust_model_failure f d (md_next_retry_after (ensure_model_state st k)) now md1) s3)"
      using assms(2,3) by (intro set_model_ok adjust_ok)
    then have "state_ok ((set_model k (adjust_model_failure f d (md_next_retry_after (ensure_model_state st k)) now md1) s3)\<lparr>cs_status := StError\<rparr>)"
      by (simp add: state_ok_def)
    then show ?thesis unfolding r using assms(2) by (intro state_ok_aggregated) simp_all
  qed
qed

text \<open>A failure that no model is named for: the same discipline on the credential's own quota.\<close>

definition credential_table_ok :: "bool \<Rightarrow> credential_state \<Rightarrow> bool" where
  "credential_table_ok d st \<longleftrightarrow> level_ok (q_backoff_level (cs_quota st)) \<and> 0 \<le> q_next_recover_at (cs_quota st) \<and>
     0 \<le> cs_next_retry_after st \<and> models_ok (cs_model_states st) \<and>
     (q_exceeded (cs_quota st) \<and> q_next_recover_at (cs_quota st) = 0 \<longrightarrow> d \<and> cs_next_retry_after st = 0)"

lemma credential_quota_failure_ok:
  assumes "state_ok st" "0 < now"
  shows "credential_table_ok d (credential_quota_failure st r now d)"
proof -
  obtain a l where al: "quota_cooldown_after_failure (q_next_recover_at (cs_quota st)) (q_backoff_level (cs_quota st)) now = (a, l)"
    by force
  have "level_ok l \<and> 0 < a" using quota_cooldown_levels [OF al] assms by (simp add: state_ok_def quota_ok_def)
  then show ?thesis
    using assms
    by (cases r; cases d) (auto simp: credential_quota_failure_def al Let_def credential_table_ok_def state_ok_def quota_ok_def cooldown_constants)
qed

lemma credential_table_invariant:
  assumes "state_ok st" "0 < now"
  shows "credential_table_ok d (credential_failure_table st e r now d settings)"
proof -
  obtain b m where bm: "next_cloudflare_cooldown (q_backoff_level (cs_quota st)) d now = (b, m)" by force
  have cloud: "level_ok m \<and> 0 \<le> b \<and> (\<not> d \<longrightarrow> 0 < b) \<and> (d \<longrightarrow> b = 0)"
    using next_cloudflare_cooldown_ok [OF bm] assms by (auto simp: state_ok_def quota_ok_def)
  have nn: "0 \<le> now" "0 \<le> now + hard_cooldown_ms" using assms(2) by (simp_all add: cooldown_constants)
  have plain: "credential_table_ok d (st\<lparr>cs_status_message := msg, cs_next_retry_after := n\<rparr>)"
    "credential_table_ok d (st\<lparr>cs_status_message := msg, cs_next_retry_after := n, cs_unavailable := u\<rparr>)"
    if "0 \<le> n" for msg n u
    using assms(1) that by (auto simp: credential_table_ok_def state_ok_def quota_ok_def)
  have cf: "credential_table_ok d (st\<lparr>cs_status_message := msg, cs_quota := apply_cooldown_fields True z b m (cs_quota st),
      cs_next_retry_after := b\<rparr>)" for msg z
    using assms(1) cloud by (auto simp: credential_table_ok_def state_ok_def)
  show ?thesis
    unfolding credential_failure_table_def Let_def bm
    using credential_quota_failure_ok [OF assms] plain cf nn not_found_retry_nonneg [OF nn(1)] recoverable_nonneg [OF nn(1)]
    by simp
qed

lemma apply_credential_failure_ok:
  assumes "state_ok st" "0 < now" and forced: "er_code f = Some code_force_cooldown \<longrightarrow> \<not> d"
  shows "state_ok (apply_credential_failure redact st f e r now d settings)"
proof (cases "should_skip_credential_cooldown e")
  case True
  then show ?thesis using assms(1) by (simp add: apply_credential_failure_def)
next
  case False
  define s1 where "s1 = st\<lparr>cs_unavailable := True, cs_status := StError, cs_updated_at := now,
    cs_last_error := Some (clone_error redact f),
    cs_status_message := (if er_message f \<noteq> [] then Some (redact (er_message f)) else cs_status_message st)\<rparr>"
  define s2 where "s2 = credential_failure_table s1 e r now d settings"
  have "state_ok s1" using assms(1) by (simp add: s1_def state_ok_def)
  then have t: "credential_table_ok d s2" unfolding s2_def using assms(2) by (intro credential_table_invariant)
  define s3 where "s3 = (if cs_next_retry_after s2 \<noteq> 0 \<and> cs_next_retry_after st > cs_next_retry_after s2 \<and> cs_next_retry_after st > now
    then s2\<lparr>cs_next_retry_after := cs_next_retry_after st\<rparr> else s2)"
  have t3: "credential_table_ok d s3" using t assms(2) by (auto simp: s3_def credential_table_ok_def)
  define s4 where "s4 = (if er_code f = Some code_force_cooldown \<and> cs_next_retry_after s3 = 0
    then s3\<lparr>cs_next_retry_after := now + transient_error_cooldown_ms, cs_unavailable := True\<rparr> else s3)"
  have q4: "cs_quota s4 = cs_quota s3" "cs_model_states s4 = cs_model_states s3" by (simp_all add: s4_def)
  have t3': "0 \<le> cs_next_retry_after s3" using t3 by (simp add: credential_table_ok_def)
  have n4: "0 \<le> cs_next_retry_after s4" using t3' assms(2) by (simp add: s4_def cooldown_constants)
  have z4: "cs_next_retry_after s3 = 0 \<Longrightarrow> d \<Longrightarrow> cs_next_retry_after s4 = 0" using forced by (simp add: s4_def)
  have r: "apply_credential_failure redact st f e r now d settings =
    (if d \<and> cs_next_retry_after s4 = 0 \<and> q_next_recover_at (cs_quota s4) = 0
     then s4\<lparr>cs_unavailable := False, cs_quota := (cs_quota s4)\<lparr>q_exceeded := False\<rparr>\<rparr> else s4)"
    by (simp only: apply_credential_failure_def False if_False Let_def s1_def [symmetric] s2_def [symmetric]
        s3_def [symmetric] s4_def [symmetric])
  have weak: "level_ok (q_backoff_level (cs_quota s4))" "0 \<le> q_next_recover_at (cs_quota s4)" "models_ok (cs_model_states s4)"
    and z3: "q_exceeded (cs_quota s4) \<Longrightarrow> q_next_recover_at (cs_quota s4) = 0 \<Longrightarrow> d \<and> cs_next_retry_after s3 = 0"
    using t3 by (simp_all add: credential_table_ok_def q4)
  show ?thesis
  proof (cases "d \<and> cs_next_retry_after s4 = 0 \<and> q_next_recover_at (cs_quota s4) = 0")
    case True
    then show ?thesis unfolding r using weak by (simp add: state_ok_def quota_ok_def)
  next
    case no: False
    then have "q_exceeded (cs_quota s4) \<longrightarrow> 0 < q_next_recover_at (cs_quota s4)" using z3 z4 weak(2) by force
    then show ?thesis unfolding r using no weak n4 by (simp add: state_ok_def quota_ok_def)
  qed
qed

subsection \<open>Reports\<close>

lemma clear_state_on_success_ok: "state_ok st \<Longrightarrow> state_ok (clear_state_on_success st now)"
  by (simp add: clear_state_on_success_def state_ok_def)

lemma apply_success_ok:
  assumes "state_ok st" "0 < now" "k = canonical_model_key model"
  shows "state_ok (apply_success st k now w)"
proof -
  have s: "state_ok (set_model k (reset_model_state (ensure_model_state st k) now) st)"
    using assms by (intro set_model_ok model_ok_reset)
  then have a: "state_ok (update_aggregated_availability (set_model k (reset_model_state (ensure_model_state st k) now) st) now)"
    using assms(2) by (intro state_ok_aggregated) simp_all
  then have c: "state_ok ((update_aggregated_availability (set_model k (reset_model_state (ensure_model_state st k) now) st) now)
      \<lparr>cs_last_error := None, cs_status_message := None, cs_status := StActive\<rparr>)"
    by (simp add: state_ok_def)
  show ?thesis
    unfolding apply_success_def Let_def using assms(1) s a c
    by (intro state_ok_if clear_state_on_success_ok) simp_all
qed

lemma keep_terminal_ok: "state_ok st \<Longrightarrow> state_ok (keep_terminal w now st)"
  by (simp add: keep_terminal_def state_ok_def)

lemma observe_result_ok:
  assumes "state_ok st" "k = canonical_model_key model"
  shows "state_ok (observe_result c k result now st)"
proof -
  let ?o = "\<lambda>q. fst (observe_response_headers q (cr_provider c) (rr_headers result) now)"
  let ?s = "st\<lparr>cs_quota := ?o (cs_quota st)\<rparr>"
  have s: "state_ok ?s" using assms(1) by (simp add: state_ok_def)
  have "model_ok (md\<lparr>md_quota := ?o (md_quota md)\<rparr>)" if "get_model ?s k = Some md" for md
    using models_ok_get [OF _ that] s by (simp add: state_ok_def model_ok_def)
  with s assms show ?thesis
    by (auto simp: observe_result_def Let_def intro!: set_model_ok split: option.split)
qed

lemma count_result_ok: "state_ok (count_result st s now) = state_ok st"
  by (simp add: state_ok_def)

lemma mark_result_ok:
  assumes "state_ok st" "0 < now"
  shows "state_ok (mark_result redact c st now model result settings)"
proof -
  define k where "k = canonical_model_key model"
  define w where "w = has_unauthorized_failure st"
  define s0 where "s0 = count_result st (rr_success result) now"
  have s0: "state_ok s0" using assms(1) by (simp add: s0_def count_result_ok)
  have fin: "state_ok (observe_result c k result now (keep_terminal w now s))" if "state_ok s" for s
    using that by (intro observe_result_ok keep_terminal_ok) (simp_all add: k_def)
  have neutral: "state_ok (s0\<lparr>cs_updated_at := now\<rparr>)" using s0 by (simp add: state_ok_def)
  have failure: "state_ok (if k \<noteq> [] then apply_model_failure redact s0 k f (classifiable f) result now d w settings
      else if \<not> w then apply_credential_failure redact s0 f (classifiable f) (rr_retry_after_ms result) now d settings
      else s0)" if "er_code f = Some code_force_cooldown \<longrightarrow> \<not> d" for f d
    by (intro state_ok_if apply_model_failure_ok [OF s0 assms(2) k_def] apply_credential_failure_ok [OF s0 assms(2) that] s0)
  have "state_ok (if rr_success result then apply_success s0 k now w
     else case result_error result of None \<Rightarrow> s0
     | Some failure \<Rightarrow>
         let classified = classifiable failure; forced = (er_code failure = Some code_force_cooldown);
           disable_cooling = (if forced then False else cooling_disabled_for c settings)
         in if k \<noteq> [] then apply_model_failure redact s0 k failure classified result now disable_cooling w settings
            else if \<not> w then apply_credential_failure redact s0 failure classified (rr_retry_after_ms result) now
              disable_cooling settings
            else s0)"
  proof (rule state_ok_if)
    show "state_ok (apply_success s0 k now w)" by (rule apply_success_ok [OF s0 assms(2) k_def])
  next
    show "state_ok (case result_error result of None \<Rightarrow> s0
     | Some failure \<Rightarrow>
         let classified = classifiable failure; forced = (er_code failure = Some code_force_cooldown);
           disable_cooling = (if forced then False else cooling_disabled_for c settings)
         in if k \<noteq> [] then apply_model_failure redact s0 k failure classified result now disable_cooling w settings
            else if \<not> w then apply_credential_failure redact s0 failure classified (rr_retry_after_ms result) now
              disable_cooling settings
            else s0)"
    proof (cases "result_error result")
      case (Some f)
      show ?thesis unfolding Some option.case Let_def by (rule failure) simp
    qed (simp add: s0)
  qed
  from fin [OF this] neutral show ?thesis
    unfolding mark_result_def Let_def k_def [symmetric] w_def [symmetric] s0_def [symmetric] by (intro state_ok_if) simp_all
qed

end
