(* ===== verification/Cooldown_Reports.thy ===== *)
theory Cooldown_Reports
  imports Cooldown_Invariant
begin

text \<open>
  Further facts about one report: results that say nothing about the credential leave it alone, a rejected credential
  stays rejected, a credential-wide quota takes every model out, and the failure of one model spares the others.
\<close>

subsection \<open>Results that are skipped\<close>

lemma is_blocked_count_keep:
  assumes "w = has_unauthorized_failure st"
  shows "is_blocked_for_model c' (keep_terminal w now (count_result st s now)) m t = is_blocked_for_model c' st m t"
proof (rule is_blocked_cong)
  have "w \<Longrightarrow> cs_unavailable st \<and> cs_status st = StError \<and> cs_next_refresh_after st = 0 \<and> cs_next_retry_after st = 0"
    using assms by (simp add: has_unauthorized_failure_def split: option.splits)
  then show "cs_status (keep_terminal w now (count_result st s now)) = cs_status st"
    "cs_unavailable (keep_terminal w now (count_result st s now)) = cs_unavailable st"
    "cs_next_retry_after (keep_terminal w now (count_result st s now)) = cs_next_retry_after st"
    "cs_next_refresh_after (keep_terminal w now (count_result st s now)) = cs_next_refresh_after st"
    by (simp_all add: keep_terminal_def)
qed simp_all

lemma is_blocked_touch: "is_blocked_for_model c' (st\<lparr>cs_updated_at := u\<rparr>) m t = is_blocked_for_model c' st m t"
  by (rule is_blocked_cong) simp_all

lemma is_blocked_count: "is_blocked_for_model c' (count_result st s now) m t = is_blocked_for_model c' st m t"
  by (rule is_blocked_cong) simp_all

lemma mark_result_skipped:
  assumes "\<not> rr_success result" "result_error result = Some e" "should_skip_credential_cooldown (classifiable e)"
  shows "is_blocked_for_model c' (mark_result redact c st now model result settings) m t = is_blocked_for_model c' st m t"
proof (cases "rr_availability_neutral result")
  case True
  then show ?thesis by (simp add: mark_result_def Let_def is_blocked_touch is_blocked_count)
next
  case False
  have "mark_result redact c st now model result settings =
      observe_result c (canonical_model_key model) result now
        (keep_terminal (has_unauthorized_failure st) now (count_result st False now))"
    using assms False by (simp add: mark_result_def Let_def apply_model_failure_def apply_credential_failure_def)
  then show ?thesis by (simp add: is_blocked_count_keep)
qed

subsection \<open>A rejected credential\<close>

lemma terminal_keep:
  assumes "cs_last_error st' = cs_last_error st" "has_unauthorized_failure st"
  shows "has_unauthorized_failure (keep_terminal True now st')"
  using assms by (auto simp: has_unauthorized_failure_def keep_terminal_def split: option.splits)

lemma apply_model_failure_last_error:
  "cs_last_error (apply_model_failure redact st k f e result now d True settings) = cs_last_error st"
proof (cases "should_skip_credential_cooldown e")
  case True
  then show ?thesis by (simp add: apply_model_failure_def)
next
  case False
  then show ?thesis
  proof (rule apply_model_failure_cases [of e redact f now st k True result d settings])
    fix s2 md0 s3 md1
    assume "s2 = note_failure redact f True (set_model k md0 st)"
      and t: "model_failure_table s2 k md0 e result now d True settings = (s3, md1)"
      and r: "apply_model_failure redact st k f e result now d True settings =
         update_aggregated_availability ((set_model k
           (adjust_model_failure f d (md_next_retry_after (ensure_model_state st k)) now md1) s3)\<lparr>cs_status := StError\<rparr>) now"
    with model_failure_table_frame [OF t] show ?thesis unfolding r by simp
  qed
qed

lemma apply_success_terminal: "cs_last_error (apply_success st k now True) = cs_last_error st"
  by (simp add: apply_success_def)

lemma has_unauthorized_observe [simp]:
  "has_unauthorized_failure (observe_result c k result now st) = has_unauthorized_failure st"
  by (rule has_unauthorized_cong) simp_all

lemma mark_result_terminal:
  assumes "has_unauthorized_failure st"
  shows "has_unauthorized_failure (mark_result redact c st now model result settings)"
proof (cases "rr_availability_neutral result")
  case True
  have "has_unauthorized_failure ((count_result st (rr_success result) now)\<lparr>cs_updated_at := now\<rparr>) = has_unauthorized_failure st"
    by (rule has_unauthorized_cong) simp_all
  with True assms show ?thesis by (simp add: mark_result_def Let_def)
next
  case False
  let ?s0 = "count_result st (rr_success result) now"
  define s1 where "s1 = (if rr_success result then apply_success ?s0 (canonical_model_key model) now True
    else case result_error result of None \<Rightarrow> ?s0
    | Some f \<Rightarrow> if canonical_model_key model \<noteq> [] then
        apply_model_failure redact ?s0 (canonical_model_key model) f (classifiable f) result now
          (if er_code f = Some code_force_cooldown then False else cooling_disabled_for c settings) True settings
      else ?s0)"
  have "mark_result redact c st now model result settings =
      observe_result c (canonical_model_key model) result now (keep_terminal True now s1)"
    using False assms by (simp add: mark_result_def Let_def s1_def cong: if_cong option.case_cong)
  moreover have "cs_last_error s1 = cs_last_error st"
    by (simp add: s1_def apply_success_terminal apply_model_failure_last_error split: option.split)
  ultimately show ?thesis using terminal_keep [OF _ assms] by simp
qed

lemma terminal_blocks: "has_unauthorized_failure st \<Longrightarrow> bk_blocked (is_blocked_for_model c st m t)"
  by (simp add: is_blocked_for_model_def)

subsection \<open>A credential-wide quota\<close>

lemma credential_quota_blocks:
  "auth_quota_active st \<Longrightarrow> t < q_next_recover_at (cs_quota st) \<Longrightarrow> bk_blocked (is_blocked_for_model c st m t)"
  by (simp add: is_blocked_for_model_def Let_def auth_quota_active_def)

lemma apply_model_failure_scoped:
  fixes redact st k f settings
  assumes "\<not> should_skip_credential_cooldown e" "0 \<le> now" "ce_status e = 429" "\<not> is_model_support_error e"
    "\<not> is_cloudflare_challenge_error e" "\<not> is_invalid_grant_error e" "rr_credential_scoped result"
  defines "s' \<equiv> apply_model_failure redact st k f e result now False False settings"
  shows "auth_quota_active s' \<and> now < q_next_recover_at (cs_quota s') \<and>
    (\<forall>r. rr_retry_after_ms result = Some r \<longrightarrow> now + max r 10000 \<le> q_next_recover_at (cs_quota s')) \<and>
    (auth_quota_active st \<longrightarrow> q_next_recover_at (cs_quota st) \<le> q_next_recover_at (cs_quota s'))"
proof (rule apply_model_failure_cases [OF assms(1), of redact f now st k False result False settings])
  fix s2 md0 s3 md1
  assume s2: "s2 = note_failure redact f False (set_model k md0 st)"
    and t: "model_failure_table s2 k md0 e result now False False settings = (s3, md1)"
    and r: "apply_model_failure redact st k f e result now False False settings =
       update_aggregated_availability ((set_model k
         (adjust_model_failure f False (md_next_retry_after (ensure_model_state st k)) now md1) s3)\<lparr>cs_status := StError\<rparr>) now"
  obtain a l where al: "quota_deadline s2 (md_quota md0) True (rr_retry_after_ms result) now False = (a, l)" by force
  have "apply_quota_failure s2 k md0 result (rr_retry_after_ms result) now False False = (s3, md1)"
    using t assms(3-6) by (simp add: model_failure_table_def Let_def)
  then have s3: "s3 = spread_quota s2 k a l False" using assms(7) al by (simp add: apply_quota_failure_def Let_def)
  have a: "now < a \<and> (\<forall>s. rr_retry_after_ms result = Some s \<longrightarrow> a = now + max s 10000)"
    using quota_deadline_ok [OF al assms(2)] by blast
  let ?q = "cs_quota s3"
  let ?s = "(set_model k (adjust_model_failure f False (md_next_retry_after (ensure_model_state st k)) now md1) s3)\<lparr>cs_status := StError\<rparr>"
  have live: "q_exceeded ?q" "q_reason ?q = Some ''credential_quota''" "a \<le> q_next_recover_at ?q"
    "cs_next_retry_after s3 = q_next_recover_at ?q"
    by (simp_all add: s3 spread_quota_live)
  have old: "auth_quota_active st \<longrightarrow> q_next_recover_at (cs_quota st) \<le> q_next_recover_at ?q"
    by (simp add: s3 spread_quota_def Let_def later_recovery_def s2 note_failure_def auth_quota_active_def)
  have "\<not> has_unauthorized_failure ?s" using live a assms(2) by (simp add: has_unauthorized_failure_def split: option.split)
  then have "s' = ?s\<lparr>cs_unavailable := True\<rparr>"
    unfolding s'_def r using live a by (simp add: update_aggregated_availability_def)
  then have "cs_quota s' = ?q" by simp
  with live a old show ?thesis by (auto simp: auth_quota_active_def)
qed

lemma credential_scoped_blocks_all:
  assumes "\<not> rr_availability_neutral result" "\<not> rr_success result" "result_error result = Some e"
    and "\<not> should_skip_credential_cooldown (classifiable e)" "cooling_on c settings e" "0 \<le> now"
    and "canonical_model_key model \<noteq> []" "er_http_status e = Some 429" "\<not> is_model_support_error (classifiable e)"
    "\<not> is_cloudflare_challenge_error (classifiable e)" "\<not> is_invalid_grant_error (classifiable e)"
    "rr_credential_scoped result" "\<not> has_unauthorized_failure st"
  shows "\<exists>deadline. now < deadline \<and>
    (\<forall>r. rr_retry_after_ms result = Some r \<longrightarrow> now + max r 10000 \<le> deadline) \<and>
    (auth_quota_active st \<longrightarrow> q_next_recover_at (cs_quota st) \<le> deadline) \<and>
    (\<forall>m t. t < deadline \<longrightarrow> bk_blocked (is_blocked_for_model c (mark_result redact c st now model result settings) m t))"
proof -
  let ?k = "canonical_model_key model"
  let ?s = "apply_model_failure redact (count_result st False now) ?k e (classifiable e) result now False False settings"
  have c: "ce_status (classifiable e) = 429" using assms(8) by (simp add: classifiable_def)
  note q = apply_model_failure_scoped [OF assms(4,6) c assms(9-12), of redact "count_result st False now" ?k e settings]
  have eq: "mark_result redact c st now model result settings = observe_result c ?k result now (keep_terminal False now ?s)"
    using mark_result_model_failure [OF assms(1-3,7)] assms(5,13) by simp
  have "auth_quota_active (count_result st False now) = auth_quota_active st" by (simp add: auth_quota_active_def)
  moreover have "bk_blocked (is_blocked_for_model c (mark_result redact c st now model result settings) m t)"
    if "t < q_next_recover_at (cs_quota ?s)" for m t
    unfolding eq is_blocked_observe using q that by (intro credential_quota_blocks) (simp_all add: auth_quota_active_def)
  ultimately show ?thesis using q by (intro exI [of _ "q_next_recover_at (cs_quota ?s)"]) simp
qed

end
