(* ===== verification/Cooldown_Isolation.thy ===== *)
theory Cooldown_Isolation
  imports Cooldown_Reports
begin

text \<open>
  What a report about one model means for the others, and what a success clears.
\<close>

subsection \<open>The aggregate over the model states\<close>

lemma aggregate_all: "ag_all_unavailable (aggregate_models now mds) \<longleftrightarrow> (\<forall>md \<in> set mds. model_unavailable_now now md)"
proof -
  have "ag_all_unavailable (foldl (aggregate_step now) ag mds) \<longleftrightarrow>
      ag_all_unavailable ag \<and> (\<forall>md \<in> set mds. model_unavailable_now now md)" for ag
    by (induction mds arbitrary: ag) (auto simp: aggregate_step_def Let_def)
  then show ?thesis by (simp add: aggregate_models_def)
qed

definition model_live :: "ms \<Rightarrow> model_state \<Rightarrow> bool" where
  "model_live now md \<longleftrightarrow> md_status md \<noteq> StDisabled \<and> md_unavailable md \<and> md_next_retry_after md \<noteq> 0 \<and>
     md_next_retry_after md > now"

text \<open>The earliest retry is the least live deadline, 0 when there is none.\<close>

lemma aggregate_earliest:
  assumes "0 \<le> now"
  shows "ag_earliest_retry (aggregate_models now mds) =
    (if \<exists>md \<in> set mds. model_live now md
     then Min (md_next_retry_after ` {md \<in> set mds. model_live now md}) else 0)"
proof -
  have step: "ag_earliest_retry (foldl (aggregate_step now) ag mds) =
      (if \<exists>md \<in> set mds. model_live now md
       then (if ag_earliest_retry ag = 0 then Min (md_next_retry_after ` {md \<in> set mds. model_live now md})
             else min (ag_earliest_retry ag) (Min (md_next_retry_after ` {md \<in> set mds. model_live now md})))
       else ag_earliest_retry ag)" for ag
  proof (induction mds arbitrary: ag)
    case (Cons md mds)
    define L where "L = {m \<in> set mds. model_live now m}"
    have fin: "finite L" by (simp add: L_def)
    have set: "{m \<in> set (md # mds). model_live now m} = (if model_live now md then insert md L else L)" by (auto simp: L_def)
    have ne: "(\<exists>m \<in> set mds. model_live now m) \<longleftrightarrow> L \<noteq> {}" by (auto simp: L_def)
    have e: "ag_earliest_retry (aggregate_step now ag md) =
        (if model_live now md \<and> (ag_earliest_retry ag = 0 \<or> md_next_retry_after md < ag_earliest_retry ag)
         then md_next_retry_after md else ag_earliest_retry ag)"
      by (simp add: aggregate_step_def Let_def model_live_def conj_assoc)
    have pos: "model_live now md \<Longrightarrow> md_next_retry_after md \<noteq> 0" by (simp add: model_live_def)
    have ex: "(\<exists>m \<in> set (md # mds). model_live now m) \<longleftrightarrow> model_live now md \<or> L \<noteq> {}" by (auto simp: L_def)
    note IH = Cons.IH [of "aggregate_step now ag md", unfolded ne, folded L_def]
    show ?case
    proof (cases "L = {}")
      case True
      then show ?thesis using IH e pos unfolding set ex by (cases "model_live now md") (simp_all add: min_def)
    next
      case False
      then have "Min (md_next_retry_after ` insert md L) = min (md_next_retry_after md) (Min (md_next_retry_after ` L))"
        using fin by simp
      then show ?thesis using IH e pos False unfolding set ex by (cases "model_live now md") (simp_all add: min_def)
    qed
  qed simp
  show ?thesis unfolding aggregate_models_def by (subst step) simp
qed

lemma aggregate_earliest_pos:
  assumes "0 \<le> now" "md \<in> set mds" "model_live now md"
  shows "0 < ag_earliest_retry (aggregate_models now mds)"
proof -
  let ?S = "md_next_retry_after ` {md \<in> set mds. model_live now md}"
  have "Min ?S \<in> ?S" using assms by (intro Min_in) auto
  then have "now < Min ?S" by (auto simp: model_live_def)
  then show ?thesis using assms by (auto simp: aggregate_earliest)
qed

subsection \<open>States of another model\<close>

lemma states_for_update:
  "canonical_model_key k \<noteq> k' \<Longrightarrow> states_for k' (AList.update k md states) = states_for k' states"
  by (induction states) (auto simp: states_for_def)

lemma states_for_map:
  "states_for k' (map (\<lambda>(k, md). (k, f md)) states) = map f (states_for k' states)"
  by (induction states) (auto simp: states_for_def)

lemma settle_not_blocked:
  assumes "model_ok md" "0 \<le> now" "\<not> bk_blocked (model_state_block md now)"
  shows "\<not> bk_blocked (model_state_block (settle_model now md) now)"
  using assms by (auto simp: settle_model_def model_state_block_def availability_block_blocked model_ok_def quota_ok_def)

lemma settle_status: "md_status (settle_model now md) = md_status md"
  by (simp add: settle_model_def)

lemma not_blocked_not_unavailable:
  assumes "0 \<le> now" "\<not> bk_blocked (model_state_block md now)" "md_status md \<noteq> StDisabled"
  shows "\<not> model_unavailable_now now md"
  using assms by (auto simp: model_state_block_def availability_block_blocked model_unavailable_now_def)

text \<open>The states of a credential that nothing but its models' states takes out of rotation.\<close>

definition credential_open :: "credential \<Rightarrow> credential_state \<Rightarrow> ms \<Rightarrow> bool" where
  "credential_open c st now \<longleftrightarrow> \<not> cr_disabled c \<and> cs_status st \<noteq> StDisabled \<and> \<not> has_unauthorized_failure st \<and>
     (case access_token_expiry (cr_metadata c) (cs_rejected_access_token st) of None \<Rightarrow> True | Some e \<Rightarrow> now < e) \<and>
     \<not> (auth_quota_active st \<and> now < q_next_recover_at (cs_quota st))"

lemma blocked_iff_open:
  assumes "0 \<le> now" "model \<noteq> []" "cs_model_states st \<noteq> []"
  shows "bk_blocked (is_blocked_for_model c st model now) \<longleftrightarrow> \<not> credential_open c st now \<or>
    (\<exists>md \<in> set (states_for (canonical_model_key model) (cs_model_states st)).
       md_status md = StDisabled \<or> bk_blocked (model_state_block md now))"
  using assms
  by (auto simp: is_blocked_for_model_def Let_def credential_open_def auth_quota_active_def scan_blocked_iff free_block_def
      split: option.splits)

lemma blocked_open: "\<not> bk_blocked (is_blocked_for_model c st model now) \<Longrightarrow> credential_open c st now"
  by (auto simp: is_blocked_for_model_def Let_def credential_open_def auth_quota_active_def split: option.splits if_splits)

lemma open_observe: "credential_open c' (observe_result c k r now st) t = credential_open c' st t"
  by (simp add: credential_open_def auth_quota_active_def)

subsection \<open>After a model's failure\<close>

text \<open>
  \<open>update_aggregated_availability\<close> on a state that is neither rejected nor under a credential-wide quota never makes
  it so, provided a model that is unavailable for the aggregate is live or another model is available.
\<close>

lemma aggregated_models:
  assumes "\<not> has_unauthorized_failure st" "\<not> (auth_quota_active st \<and> now < q_next_recover_at (cs_quota st))"
    "cs_model_states st \<noteq> []"
  shows "cs_model_states (update_aggregated_availability st now) = map (\<lambda>(k, md). (k, settle_model now md)) (cs_model_states st)"
    "cs_unavailable (update_aggregated_availability st now) \<longleftrightarrow> (\<forall>md \<in> snd ` set (cs_model_states st). model_unavailable_now now md)"
    "cs_unavailable (update_aggregated_availability st now) \<Longrightarrow>
       cs_next_retry_after (update_aggregated_availability st now) = ag_earliest_retry (aggregate_models now (map snd (cs_model_states st)))"
    "\<not> (auth_quota_active (update_aggregated_availability st now) \<and>
        now < q_next_recover_at (cs_quota (update_aggregated_availability st now)))"
proof -
  have "\<not> (q_exceeded (cs_quota st) \<and> q_reason (cs_quota st) = Some ''credential_quota'' \<and>
      now < q_next_recover_at (cs_quota st))"
    using assms(2) by (simp add: auth_quota_active_def)
  note eq = update_aggregated_availability_def [of st now, unfolded Let_def if_not_P [OF assms(1)] if_not_P [OF this]
      if_not_P [OF assms(3)]]
  show "cs_model_states (update_aggregated_availability st now) = map (\<lambda>(k, md). (k, settle_model now md)) (cs_model_states st)"
    "cs_unavailable (update_aggregated_availability st now) \<longleftrightarrow> (\<forall>md \<in> snd ` set (cs_model_states st). model_unavailable_now now md)"
    "cs_unavailable (update_aggregated_availability st now) \<Longrightarrow>
       cs_next_retry_after (update_aggregated_availability st now) = ag_earliest_retry (aggregate_models now (map snd (cs_model_states st)))"
    unfolding eq by (simp_all add: aggregate_all)
  show "\<not> (auth_quota_active (update_aggregated_availability st now) \<and>
        now < q_next_recover_at (cs_quota (update_aggregated_availability st now)))"
    unfolding eq using assms(2) by (auto simp: auth_quota_active_def clear_quota_def)
qed

lemma aggregated_not_rejected:
  assumes "\<not> has_unauthorized_failure st" "\<not> (auth_quota_active st \<and> now < q_next_recover_at (cs_quota st))"
    "0 \<le> now" "md \<in> snd ` set (cs_model_states st)" "md_status md \<noteq> StDisabled"
  shows "\<not> has_unauthorized_failure (update_aggregated_availability st now)"
proof
  let ?s = "update_aggregated_availability st now"
  have ne: "cs_model_states st \<noteq> []" using assms(4) by auto
  note a = aggregated_models [OF assms(1,2) ne]
  assume "has_unauthorized_failure ?s"
  then have u: "cs_unavailable ?s" and z: "cs_next_retry_after ?s = 0"
    by (simp_all add: has_unauthorized_failure_def split: option.splits)
  from u a(2) assms(4) have "model_unavailable_now now md" by blast
  then have "model_live now md" using assms(5) by (auto simp: model_unavailable_now_def model_live_def)
  with aggregate_earliest_pos [OF assms(3), of md "map snd (cs_model_states st)"] assms(4) a(3) [OF u] z
  show False by simp
qed

lemma model_failure_table_unscoped:
  assumes "model_failure_table st k md e result now d w settings = (st', md')"
    and "rr_credential_scoped result \<longrightarrow> ce_status e \<noteq> 429"
  obtains msg where "st' = st\<lparr>cs_status_message := msg\<rparr>"
  using assms(1)
proof (rule model_failure_table_state)
  assume "st' = st" then show thesis using that [of "cs_status_message st"] by simp
qed (use that assms(2) in auto)

lemma model_failure_table_status:
  assumes "model_failure_table st k md e result now d w settings = (st', md')"
  shows "md_status md' = md_status md"
proof -
  obtain b m where bm: "next_cloudflare_cooldown (q_backoff_level (md_quota md)) d now = (b, m)" by force
  show ?thesis using assms
    by (auto simp: model_failure_table_def Let_def bm apply_quota_failure_def split: if_splits prod.splits)
qed

lemma adjust_status [simp]: "md_status (adjust_model_failure f d p now md) = md_status md"
  by (simp add: adjust_model_failure_def Let_def)

lemma other_model_not_blocked:
  assumes free: "\<not> bk_blocked (is_blocked_for_model c st m' now)" and m': "m' \<noteq> []"
    and ok: "state_ok st" and now: "0 \<le> now"
    and k: "canonical_model_key k = k" "canonical_model_key m' \<noteq> k"
    and scope: "rr_credential_scoped result \<longrightarrow> ce_status e \<noteq> 429"
    and live: "cs_unavailable st \<longrightarrow> cs_next_retry_after st \<noteq> 0"
  shows "\<not> bk_blocked (is_blocked_for_model c (apply_model_failure redact st k f e result now d False settings) m' now)"
proof (cases "should_skip_credential_cooldown e")
  case True
  then show ?thesis using free by (simp add: apply_model_failure_def)
next
  case False
  then show ?thesis
  proof (rule apply_model_failure_cases [of e redact f now st k False result d settings])
    fix s2 md0 s3 md1
    assume md0: "md0 = failing_model redact f now (ensure_model_state st k)"
      and s2: "s2 = note_failure redact f False (set_model k md0 st)"
      and t: "model_failure_table s2 k md0 e result now d False settings = (s3, md1)"
      and r: "apply_model_failure redact st k f e result now d False settings =
         update_aggregated_availability ((set_model k
           (adjust_model_failure f d (md_next_retry_after (ensure_model_state st k)) now md1) s3)\<lparr>cs_status := StError\<rparr>) now"
    define md2 where "md2 = adjust_model_failure f d (md_next_retry_after (ensure_model_state st k)) now md1"
    define s4 where "s4 = (set_model k md2 s3)\<lparr>cs_status := StError\<rparr>"
    obtain msg where s3: "s3 = s2\<lparr>cs_status_message := msg\<rparr>" using model_failure_table_unscoped [OF t scope] by blast
    have open_st: "credential_open c st now" using free by (rule blocked_open)
    have s4f: "cs_unavailable s4 = cs_unavailable st" "cs_next_retry_after s4 = cs_next_retry_after st"
      "cs_quota s4 = cs_quota st" "cs_rejected_access_token s4 = cs_rejected_access_token st"
      "cs_model_states s4 = AList.update k md2 (AList.update k md0 (cs_model_states st))"
      by (simp_all add: s4_def s3 s2 note_failure_def)
    have nu: "\<not> has_unauthorized_failure s4" using live s4f by (auto simp: has_unauthorized_failure_def split: option.split)
    have nq: "\<not> (auth_quota_active s4 \<and> now < q_next_recover_at (cs_quota s4))"
      using open_st s4f by (simp add: credential_open_def auth_quota_active_def)
    have st2: "md_status md2 = StError" using model_failure_table_status [OF t] by (simp add: md2_def md0)
    have "map_of (cs_model_states s4) k = Some md2" unfolding s4f by (simp add: update_conv')
    then have mem: "md2 \<in> snd ` set (cs_model_states s4)" by (force dest: map_of_SomeD)
    then have ne: "cs_model_states s4 \<noteq> []" by auto
    let ?s5 = "update_aggregated_availability s4 now"
    note agg = aggregated_models [OF nu nq ne]
    have "credential_open c ?s5 now"
      using open_st agg(4) aggregated_not_rejected [OF nu nq now mem] st2 s4f
      by (auto simp: credential_open_def s4_def split: option.splits)
    moreover have "\<not> (\<exists>md \<in> set (states_for (canonical_model_key m') (cs_model_states ?s5)).
        md_status md = StDisabled \<or> bk_blocked (model_state_block md now))"
    proof -
      have sf: "states_for (canonical_model_key m') (cs_model_states ?s5) =
          map (settle_model now) (states_for (canonical_model_key m') (cs_model_states st))"
        unfolding agg(1) states_for_map s4f using k by (simp add: states_for_update)
      have "\<not> (md_status md = StDisabled \<or> bk_blocked (model_state_block md now)) \<and> model_ok md"
        if md: "md \<in> set (states_for (canonical_model_key m') (cs_model_states st))" for md
      proof -
        have "md \<in> snd ` set (cs_model_states st)" using md by (auto simp: states_for_def)
        then have "model_ok md" "cs_model_states st \<noteq> []" using ok by (auto simp: state_ok_def models_ok_def)
        then show ?thesis using free blocked_iff_open [OF now m'] md by blast
      qed
      then show ?thesis unfolding sf using settle_not_blocked [OF _ now] by (auto simp: settle_status)
    qed
    moreover have "cs_model_states ?s5 \<noteq> []" using agg(1) ne by simp
    ultimately show ?thesis unfolding r md2_def [symmetric] s4_def [symmetric] using blocked_iff_open [OF now m'] by blast
  qed
qed

subsection \<open>After a success\<close>

lemma states_for_distinct:
  assumes "distinct_keys states" "\<forall>k' \<in> fst ` set states. canonical_model_key k' = k \<longrightarrow> k' = k" "map_of states k = Some md"
  shows "\<forall>m \<in> set (states_for k states). m = md"
proof
  fix m assume "m \<in> set (states_for k states)"
  then obtain k' where "(k', m) \<in> set states" "canonical_model_key k' = k" by (auto simp: states_for_def)
  moreover from this have "k' = k" using assms(2) by force
  ultimately show "m = md" using assms(1,3) by (simp add: map_of_SomeI)
qed

text \<open>
  The source keys a model's state by the canonical model key and reads it by the canonical key of the stored key: the
  two agree when the stored keys are themselves canonical.
\<close>

definition keys_fixed :: "credential_state \<Rightarrow> bool" where
  "keys_fixed st \<longleftrightarrow> (\<forall>k \<in> fst ` set (cs_model_states st). canonical_model_key k = k)"

lemma success_unblocks:
  assumes "credential_open c st now" "distinct_keys (cs_model_states st)" "keys_fixed st" "0 \<le> now"
    and "canonical_model_key model = k" "canonical_model_key k = k" "k \<noteq> []"
    and quota: "\<not> (q_reason (cs_quota st) = Some ''credential_quota'' \<and> now < q_next_recover_at (cs_quota st))"
  shows "\<not> bk_blocked (is_blocked_for_model c (apply_success st k now False) model now)"
proof -
  define md where "md = reset_model_state (ensure_model_state st k) now"
  define s0 where "s0 = set_model k md st"
  define s1 where "s1 = update_aggregated_availability s0 now"
  have r: "apply_success st k now False =
      (if has_model_error s1 now then s1 else s1\<lparr>cs_last_error := None, cs_status_message := None, cs_status := StActive\<rparr>)"
    unfolding apply_success_def Let_def if_not_P [OF quota] using assms(7) by (simp add: md_def s0_def s1_def)
  have md: "md_unavailable md = False" "q_exceeded (md_quota md) = False" "md_status md = StActive"
    by (simp_all add: md_def reset_model_state_def clear_quota_def)
  then have settled: "settle_model now md = md" by (simp add: settle_model_def)
  have nu: "\<not> has_unauthorized_failure s0" "\<not> (auth_quota_active s0 \<and> now < q_next_recover_at (cs_quota s0))"
    using assms(1) by (simp_all add: credential_open_def s0_def auth_quota_active_def)
  have g: "map_of (cs_model_states s0) k = Some md" by (simp add: s0_def update_conv')
  then have mem: "md \<in> snd ` set (cs_model_states s0)" and ne: "cs_model_states s0 \<noteq> []" by (force dest: map_of_SomeD)+
  note agg = aggregated_models [OF nu ne, folded s1_def]
  have "\<not> cs_unavailable s1" using agg(2) mem md(1,3) by (auto simp: model_unavailable_now_def)
  then have "\<not> has_unauthorized_failure s1" by (simp add: has_unauthorized_failure_def split: option.split)
  with agg(4) assms(1) have open1: "credential_open c s1 now" by (simp add: credential_open_def s1_def s0_def)
  have "k' = k \<or> k' \<in> fst ` set (cs_model_states st)" if "k' \<in> fst ` set (cs_model_states s0)" for k'
    using that unfolding s0_def by (force dest: set_update_values)
  then have "\<forall>k' \<in> fst ` set (cs_model_states s0). canonical_model_key k' = k \<longrightarrow> k' = k"
    using assms(3,6) unfolding keys_fixed_def by metis
  moreover have "distinct_keys (cs_model_states s0)" using assms(2) by (simp add: s0_def)
  ultimately have keys: "distinct_keys (cs_model_states s0)"
    "\<forall>k' \<in> fst ` set (cs_model_states s0). canonical_model_key k' = k \<longrightarrow> k' = k" by blast+
  have "\<not> (\<exists>m \<in> set (states_for (canonical_model_key model) (cs_model_states s1)).
      md_status m = StDisabled \<or> bk_blocked (model_state_block m now))"
    unfolding agg(1) states_for_map assms(5) using states_for_distinct [OF keys g] md settled assms(4)
    by (auto simp: model_state_block_def availability_block_blocked)
  moreover have "model \<noteq> []" using assms(5,7) by auto
  moreover have "cs_model_states s1 \<noteq> []" using agg(1) ne by simp
  moreover have "credential_open c (s1\<lparr>cs_last_error := None, cs_status_message := None, cs_status := StActive\<rparr>) now"
    using open1 by (simp add: credential_open_def has_unauthorized_failure_def auth_quota_active_def)
  ultimately show ?thesis unfolding r using open1 by (auto simp: blocked_iff_open [OF assms(4)])
qed

end
