(* ===== verification/Cooldown_Properties.thy ===== *)
theory Cooldown_Properties
  imports Cooldown_Isolation Credential_Model
begin

text \<open>
  The properties of the cooldown state machine, each with an evaluation at concrete reports.
\<close>

subsection \<open>Concrete reports\<close>

definition sample_failure :: "int \<Rightarrow> string \<Rightarrow> report_result" where
  "sample_failure status msg = \<lparr>rr_success = False, rr_http_status = Some status,
     rr_error = Some \<lparr>er_code = None, er_message = msg, er_retryable = False, er_http_status = None\<rparr>,
     rr_request_scoped = False, rr_retry_after_ms = None, rr_credential_scoped = False, rr_model = None,
     rr_headers = None, rr_skip_quota_observation = False, rr_availability_neutral = False, rr_cost_micros = None\<rparr>"

definition sample_success :: report_result where
  "sample_success = (sample_failure 200 [])\<lparr>rr_success := True, rr_error := None\<rparr>"

definition sample_settings :: cooldown_settings where
  "sample_settings = \<lparr>cd_disable_cooling = False, cd_transient_error_cooldown_seconds = 0\<rparr>"

definition sample_error :: "int \<Rightarrow> string \<Rightarrow> credential_error" where
  "sample_error status msg = \<lparr>er_code = None, er_message = msg, er_retryable = False, er_http_status = Some status\<rparr>"

definition sample_limited :: credential_state where
  "sample_limited = mark_result id sample_credential empty_state 1000 ''m'' (sample_failure 429 ''slow down'') sample_settings"

definition sample_rejected :: credential_state where
  "sample_rejected = empty_state\<lparr>cs_unavailable := True, cs_status := StError, cs_last_error := Some (sample_error 401 ''no'')\<rparr>"

lemmas sample_defs = sample_failure_def sample_success_def sample_settings_def sample_error_def sample_limited_def
  sample_rejected_def sample_credential_def

subsection \<open>Properties\<close>

text \<open>A failure the credential is to blame for takes the model out of the credential's rotation: from the report on,
  until a deadline in the future that is no earlier than the one the model had, the selection finds the credential
  blocked for that model.\<close>

theorem failure_takes_model_out:
  assumes "\<not> rr_availability_neutral result" "\<not> rr_success result" "result_error result = Some e"
    and "\<not> should_skip_credential_cooldown (classifiable e)" "cooling_on c settings e" "0 \<le> now"
    and "0 \<le> cd_transient_error_cooldown_seconds settings"
    and "k = canonical_model_key model" "k \<noteq> []" "canonical_model_key k = k"
  shows "\<exists>deadline. now < deadline \<and> (\<forall>old. get_model st k = Some old \<longrightarrow> md_next_retry_after old \<le> deadline) \<and>
    (\<forall>t. 0 \<le> t \<and> t < deadline \<longrightarrow>
       bk_blocked (is_blocked_for_model c (mark_result redact c st now model result settings) model t))"
proof -
  have tab: "md_unavailable md1 \<and> now < md_next_retry_after md1 \<and> now \<le> md_next_retry_after md1"
    if "model_failure_table s2 k md0 (classifiable e) result now False (has_unauthorized_failure st) settings = (s3, md1)"
      "md_unavailable md0" for s2 md0 s3 md1
    using model_failure_table_deadline [OF that(1) assms(6,7) that(2)] by simp
  have "\<exists>deadline. now < deadline \<and> now \<le> deadline \<and>
    (\<forall>old. get_model st k = Some old \<longrightarrow> md_next_retry_after old \<le> deadline) \<and>
    (\<forall>t. 0 \<le> t \<and> t < deadline \<longrightarrow>
       bk_blocked (is_blocked_for_model c (mark_result redact c st now model result settings) model t))"
    by (rule failure_blocks_ge [OF assms(1-6,8-10)]) (rule tab)
  then show ?thesis by blast
qed

theorem failure_takes_model_out_witness:
  "\<exists>deadline. 5000 < deadline \<and> (\<forall>old. get_model empty_state ''m'' = Some old \<longrightarrow> md_next_retry_after old \<le> deadline) \<and>
    (\<forall>t. 0 \<le> t \<and> t < deadline \<longrightarrow> bk_blocked (is_blocked_for_model sample_credential
       (mark_result id sample_credential empty_state 5000 ''m'' (sample_failure 503 ''overloaded'') sample_settings) ''m'' t))"
  by (rule failure_takes_model_out [where e = "sample_error 503 ''overloaded''"]) code_simp+

text \<open>A rate-limited model is left alone for at least as long as the provider asked (and never for less than ten
  seconds), whatever the ladder says.\<close>

theorem retry_after_honoured:
  assumes "\<not> rr_availability_neutral result" "\<not> rr_success result" "result_error result = Some e"
    and "\<not> should_skip_credential_cooldown (classifiable e)" "cooling_on c settings e" "0 \<le> now"
    and "k = canonical_model_key model" "k \<noteq> []" "canonical_model_key k = k"
    and "er_http_status e = Some 429" "\<not> is_model_support_error (classifiable e)"
    and "\<not> is_cloudflare_challenge_error (classifiable e)" "\<not> is_invalid_grant_error (classifiable e)"
    and "rr_retry_after_ms result = Some r" "0 \<le> t" "t < now + max r 10000"
  shows "bk_blocked (is_blocked_for_model c (mark_result redact c st now model result settings) model t)"
proof -
  have c: "ce_status (classifiable e) = 429" using assms(10) by (simp add: classifiable_def)
  have tab: "md_unavailable md1 \<and> now < md_next_retry_after md1 \<and> now + max r 10000 \<le> md_next_retry_after md1"
    if "model_failure_table s2 k md0 (classifiable e) result now False (has_unauthorized_failure st) settings = (s3, md1)"
      "md_unavailable md0" for s2 md0 s3 md1
    using quota_failure_table [OF that(1) assms(6) that(2) c assms(11-14)] .
  have "\<exists>deadline. now < deadline \<and> now + max r 10000 \<le> deadline \<and>
    (\<forall>old. get_model st k = Some old \<longrightarrow> md_next_retry_after old \<le> deadline) \<and>
    (\<forall>t. 0 \<le> t \<and> t < deadline \<longrightarrow>
       bk_blocked (is_blocked_for_model c (mark_result redact c st now model result settings) model t))"
    by (rule failure_blocks_ge [OF assms(1-9)]) (rule tab)
  then show ?thesis using assms(15,16) by force
qed

theorem retry_after_honoured_witness:
  "bk_blocked (is_blocked_for_model sample_credential (mark_result id sample_credential empty_state 5000 ''m''
     ((sample_failure 429 ''slow down'')\<lparr>rr_retry_after_ms := Some 60000\<rparr>) sample_settings) ''m'' 64999)"
  by (rule retry_after_honoured [where e = "sample_error 429 ''slow down''" and r = 60000 and k = "''m''"]) code_simp+

text \<open>A rate limit that the provider puts on the whole credential takes every model of it out, those it has no state
  for included, until a deadline no earlier than the provider's Retry-After and than a credential-wide limit that was
  already running.\<close>

theorem credential_limit_blocks_every_model:
  assumes "\<not> rr_availability_neutral result" "\<not> rr_success result" "result_error result = Some e"
    and "\<not> should_skip_credential_cooldown (classifiable e)" "cooling_on c settings e" "0 \<le> now"
    and "canonical_model_key model \<noteq> []" "er_http_status e = Some 429" "\<not> is_model_support_error (classifiable e)"
    and "\<not> is_cloudflare_challenge_error (classifiable e)" "\<not> is_invalid_grant_error (classifiable e)"
    and "rr_credential_scoped result" "\<not> has_unauthorized_failure st"
  shows "\<exists>deadline. now < deadline \<and>
    (\<forall>r. rr_retry_after_ms result = Some r \<longrightarrow> now + max r 10000 \<le> deadline) \<and>
    (auth_quota_active st \<longrightarrow> q_next_recover_at (cs_quota st) \<le> deadline) \<and>
    (\<forall>m t. t < deadline \<longrightarrow> bk_blocked (is_blocked_for_model c (mark_result redact c st now model result settings) m t))"
  by (rule credential_scoped_blocks_all [OF assms])

theorem credential_limit_blocks_every_model_witness:
  "\<exists>deadline. 5000 < deadline \<and>
    (\<forall>r. rr_retry_after_ms ((sample_failure 429 ''slow down'')\<lparr>rr_credential_scoped := True\<rparr>) = Some r \<longrightarrow>
       5000 + max r 10000 \<le> deadline) \<and>
    (auth_quota_active empty_state \<longrightarrow> q_next_recover_at (cs_quota empty_state) \<le> deadline) \<and>
    (\<forall>m t. t < deadline \<longrightarrow> bk_blocked (is_blocked_for_model sample_credential
       (mark_result id sample_credential empty_state 5000 ''m'' ((sample_failure 429 ''slow down'')\<lparr>rr_credential_scoped := True\<rparr>)
         sample_settings) m t))"
  by (rule credential_limit_blocks_every_model [where e = "sample_error 429 ''slow down''"]) code_simp+

text \<open>A failure that is the request's own (a bad request, a cancelled call, a broken connection) changes nothing for
  the selection: every model of the credential is available exactly when it was before.\<close>

theorem skipped_result_changes_nothing:
  assumes "\<not> rr_success result" "result_error result = Some e" "should_skip_credential_cooldown (classifiable e)"
  shows "is_blocked_for_model c (mark_result redact c st now model result settings) m t = is_blocked_for_model c st m t"
  by (rule mark_result_skipped [OF assms])

theorem skipped_result_changes_nothing_witness:
  "is_blocked_for_model sample_credential
     (mark_result id sample_credential sample_limited 5000 ''m''
       ((sample_failure 400 ''bad'')\<lparr>rr_request_scoped := True\<rparr>) sample_settings) ''m'' 1500 =
   is_blocked_for_model sample_credential sample_limited ''m'' 1500"
  by (rule skipped_result_changes_nothing
      [where e = "(sample_error 400 ''bad'')\<lparr>er_code := Some code_request_scoped\<rparr>"]) code_simp+

text \<open>A failure of one model spares the others: a model the credential could serve stays available, whatever
  becomes of the one that failed, unless the limit is on the whole credential. A credential marked unavailable is
  expected to carry the time it may be retried.\<close>

theorem failure_spares_other_models:
  assumes "\<not> bk_blocked (is_blocked_for_model c st other now)" "other \<noteq> []" "state_ok st" "0 \<le> now"
    and "\<not> rr_availability_neutral result" "\<not> rr_success result" "result_error result = Some e"
    and "canonical_model_key model = k" "k \<noteq> []" "canonical_model_key k = k" "canonical_model_key other \<noteq> k"
    and "rr_credential_scoped result \<longrightarrow> er_http_status e \<noteq> Some 429"
    and "cs_unavailable st \<longrightarrow> cs_next_retry_after st \<noteq> 0"
  shows "\<not> bk_blocked (is_blocked_for_model c (mark_result redact c st now model result settings) other now)"
proof -
  have w: "has_unauthorized_failure st = False" using blocked_open [OF assms(1)] by (simp add: credential_open_def)
  have sc: "rr_credential_scoped result \<longrightarrow> ce_status (classifiable e) \<noteq> 429"
    using assms(12) by (auto simp: classifiable_def split: option.split)
  let ?s0 = "count_result st False now"
  have eq: "mark_result redact c st now model result settings = observe_result c k result now (keep_terminal False now
      (apply_model_failure redact ?s0 k e (classifiable e) result now (\<not> cooling_on c settings e) False settings))"
    using mark_result_model_failure [OF assms(5-7)] assms(8,9) w by simp
  have "\<not> bk_blocked (is_blocked_for_model c (apply_model_failure redact ?s0 k e (classifiable e) result now
      (\<not> cooling_on c settings e) False settings) other now)"
    using assms by (intro other_model_not_blocked sc) (simp_all add: is_blocked_count count_result_ok)
  then show ?thesis unfolding eq by (simp add: keep_terminal_def is_blocked_touch)
qed

theorem failure_spares_other_models_witness:
  "\<not> bk_blocked (is_blocked_for_model sample_credential
     (mark_result id sample_credential sample_limited 1500 ''m'' (sample_failure 429 ''slow down'') sample_settings) ''other'' 1500)"
  by (rule failure_spares_other_models [where e = "sample_error 429 ''slow down''" and k = "''m''"])
    code_simp+

text \<open>A success puts the model back: the credential may serve it at once, provided nothing but that model's own
  cooldown kept it out (the credential is neither disabled, rejected nor expired, and no credential-wide quota runs).\<close>

theorem success_puts_model_back:
  assumes "credential_open c st now" "state_ok st" "keys_fixed st" "0 \<le> now"
    and "canonical_model_key model = k" "canonical_model_key k = k" "k \<noteq> []"
    and "\<not> (q_reason (cs_quota st) = Some ''credential_quota'' \<and> now < q_next_recover_at (cs_quota st))"
    and "rr_success result" "\<not> rr_availability_neutral result"
  shows "\<not> bk_blocked (is_blocked_for_model c (mark_result redact c st now model result settings) model now)"
proof -
  let ?s0 = "count_result st True now"
  have w: "has_unauthorized_failure st = False" using assms(1) by (simp add: credential_open_def)
  have "\<not> bk_blocked (is_blocked_for_model c (apply_success ?s0 k now False) model now)"
    using assms by (intro success_unblocks)
      (simp_all add: credential_open_def auth_quota_active_def keys_fixed_def state_ok_def models_ok_def)
  then show ?thesis
    using assms(5,9,10) w by (simp add: mark_result_def Let_def keep_terminal_def is_blocked_touch)
qed

theorem success_puts_model_back_witness:
  "\<not> bk_blocked (is_blocked_for_model sample_credential
     (mark_result id sample_credential sample_limited 1500 ''m'' sample_success sample_settings) ''m'' 1500)"
  by (rule success_puts_model_back [where k = "''m''"]) code_simp+

text \<open>A credential whose token the provider rejected stays out whatever is reported of it later (a late success of a
  request already in flight included), for every model and at every time: only a refresh or a new login readmits it.\<close>

theorem rejected_credential_stays_rejected:
  assumes "has_unauthorized_failure st"
  shows "has_unauthorized_failure (mark_result redact c st now model result settings) \<and>
    bk_blocked (is_blocked_for_model c (mark_result redact c st now model result settings) m t)"
  using mark_result_terminal [OF assms] terminal_blocks by blast

theorem rejected_credential_stays_rejected_witness:
  "has_unauthorized_failure (mark_result id sample_credential sample_rejected 5000 ''m'' sample_success sample_settings) \<and>
   bk_blocked (is_blocked_for_model sample_credential
     (mark_result id sample_credential sample_rejected 5000 ''m'' sample_success sample_settings) ''m'' 6000)"
  by (rule rejected_credential_stays_rejected) code_simp

text \<open>The reports of a credential, each with its time, in the order they arrive.\<close>

fun run_reports ::
  "(string \<Rightarrow> string) \<Rightarrow> credential \<Rightarrow> cooldown_settings \<Rightarrow> (ms \<times> string \<times> report_result) list \<Rightarrow> credential_state \<Rightarrow>
   credential_state" where
  "run_reports redact c settings [] st = st"
| "run_reports redact c settings ((now, model, result) # rest) st =
     run_reports redact c settings rest (mark_result redact c st now model result settings)"

text \<open>Whatever reports a credential gets, its cooldown state stays well-formed: levels stay on the ladder, deadlines
  are never negative, an exceeded quota always says when it ends, and each model has one state under a trimmed name.\<close>

theorem reports_keep_state_ok:
  assumes "state_ok st" "\<forall>report \<in> set reports. 0 < fst report"
  shows "state_ok (run_reports redact c settings reports st)"
  using assms
proof (induction redact c settings reports st rule: run_reports.induct)
  case (2 redact c settings now model result rest st)
  then show ?case using mark_result_ok [of st now redact c model result settings] by simp
qed simp

theorem reports_keep_state_ok_witness:
  "state_ok (run_reports id sample_credential sample_settings
     [(1000, ''m'', sample_failure 429 ''slow down''), (3000, ''m'', sample_failure 429 ''slow down''), (9000, [], sample_failure 403 [])]
     empty_state)"
  by (rule reports_keep_state_ok [OF state_ok_empty]) simp

text \<open>The windows of a credential that keeps hitting its limit double from one second and stop growing at thirty
  minutes, however often it fails.\<close>

theorem ladder_doubles_to_cap: "ladder_window n now = min (1000 * 2 ^ n) (30 * 60000)"
  by (simp add: ladder_window_eq cooldown_constants)

text \<open>An answer of the availability filter is consistent: a named end lies in the future and comes with a block, a
  cooldown always names its end, a disabled credential never does, and nothing else is said of an available one.\<close>

theorem availability_answers_sound:
  assumes "0 \<le> now"
  shows "sound_block now (is_blocked_for_model c st model now)"
  by (rule sound_is_blocked [OF assms])

theorem availability_answers_sound_witness:
  "sound_block 1500 (is_blocked_for_model sample_credential sample_limited ''m'' 1500)"
  by (rule availability_answers_sound) simp


end
