(* ===== verification/Grants.thy ===== *)
theory Grants
  imports Model_Name Credential_Model
begin

text \<open>
  Grants and the reach of a caller (\<open>packages/models/src/grants/grant.ts\<close>, \<open>grants/reach.ts\<close>): which upstream
  models of which shared credentials a request may use. A reach is the record of the three answers the source's
  object gives; \<open>reach_contract\<close> states what selection relies on, and \<open>reach_of\<close> provides it.
\<close>

datatype grant_subject = Everyone | SubjectMember string | SubjectTeam string

datatype grant_scope = ScopeAll | ScopeProvider string | ScopeCredential string

record grant_value =
  gr_subject :: grant_subject
  gr_scope :: grant_scope
  gr_models :: "string list"

record grant_entry = grant_value +
  gr_id :: string
  gr_revision :: int
  gr_updated_at :: ms
  gr_updated_by :: string

record grant_team =
  gt_id :: string
  gt_members :: "string list"

record grant_table =
  gtb_version :: int
  gtb_grants :: "grant_entry list"
  gtb_teams :: "grant_team list"

record grant_target =
  tg_id :: string
  tg_executor :: string

record reach =
  rc_unrestricted :: bool
  rc_permits :: "grant_target \<Rightarrow> string \<Rightarrow> bool"
  rc_covers_all :: "grant_target \<Rightarrow> bool"

record grant_holder =
  gh_member :: "string option"
  gh_teams :: "string list"

definition all_models :: string where "all_models = ''*''"

definition default_grant :: grant_value where
  "default_grant = \<lparr>gr_subject = Everyone, gr_scope = ScopeAll, gr_models = [all_models]\<rparr>"

definition normalize_model_patterns :: "string list \<Rightarrow> string list" where
  "normalize_model_patterns models =
     rev (remdups (rev (filter (\<lambda>p. p \<noteq> []) (map (\<lambda>m. js_lower (js_trim m)) models))))"

definition allow_all :: reach where
  "allow_all = \<lparr>rc_unrestricted = True, rc_permits = (\<lambda>_ _. True), rc_covers_all = (\<lambda>_. True)\<rparr>"

definition grant_names :: "'a grant_value_scheme \<Rightarrow> grant_holder \<Rightarrow> bool" where
  "grant_names g holder =
     (case gr_subject g of
        Everyone \<Rightarrow> True
      | SubjectMember i \<Rightarrow> gh_member holder = Some i
      | SubjectTeam i \<Rightarrow> i \<in> set (gh_teams holder))"

definition grant_covers :: "'a grant_value_scheme \<Rightarrow> grant_target \<Rightarrow> bool" where
  "grant_covers g target =
     (case gr_scope g of
        ScopeAll \<Rightarrow> True
      | ScopeProvider p \<Rightarrow> p = js_lower (tg_executor target)
      | ScopeCredential i \<Rightarrow> i = tg_id target)"

definition reach_of :: "'a grant_value_scheme list \<Rightarrow> grant_holder \<Rightarrow> reach" where
  "reach_of grants holder =
     (let applicable = filter (\<lambda>g. grant_names g holder) grants;
          unrestricted = list_ex (\<lambda>g. gr_scope g = ScopeAll \<and> all_models \<in> set (gr_models g)) applicable
      in if unrestricted then allow_all
         else \<lparr>rc_unrestricted = False,
               rc_permits = (\<lambda>target model.
                 list_ex (\<lambda>g. is_model_excluded (gr_models g) model) (filter (\<lambda>g. grant_covers g target) applicable)),
               rc_covers_all = (\<lambda>target.
                 list_ex (\<lambda>g. all_models \<in> set (gr_models g)) (filter (\<lambda>g. grant_covers g target) applicable))\<rparr>)"

definition reach_from_table :: "grant_table \<Rightarrow> string option \<Rightarrow> reach" where
  "reach_from_table table member =
     reach_of (gtb_grants table)
       \<lparr>gh_member = member,
        gh_teams = (case member of
                      None \<Rightarrow> []
                    | Some m \<Rightarrow> map gt_id (filter (\<lambda>t. m \<in> set (gt_members t)) (gtb_teams table)))\<rparr>"

subsection \<open>The contract of a reach\<close>

text \<open>
  What selection needs of a reach: covering a credential means permitting each of its named models, and an
  unrestricted reach covers every credential.
\<close>

locale reach_contract =
  fixes r :: reach
  assumes covers_permits: "rc_covers_all r t \<Longrightarrow> canonical_model_key model \<noteq> [] \<Longrightarrow> rc_permits r t model"
    and unrestricted_covers: "rc_unrestricted r \<Longrightarrow> rc_covers_all r t"
begin

lemma unrestricted_permits: "rc_unrestricted r \<Longrightarrow> canonical_model_key model \<noteq> [] \<Longrightarrow> rc_permits r t model"
  using covers_permits unrestricted_covers by blast

lemma filter_permitted_all:
  "rc_covers_all r t \<Longrightarrow> \<forall>m \<in> set models. canonical_model_key m \<noteq> [] \<Longrightarrow>
     filter (rc_permits r t) models = models"
  using covers_permits by (simp add: filter_id_conv)

end

interpretation grants: reach_contract "reach_of gs h" for gs h
  by unfold_locales
    (auto simp: reach_of_def allow_all_def all_models_def Let_def list_ex_iff
      intro: is_model_excluded_star split: if_splits)

interpretation everything: reach_contract allow_all
  by unfold_locales (simp_all add: allow_all_def)

subsection \<open>What a reach permits\<close>

lemma reach_permits_iff:
  "canonical_model_key model \<noteq> [] \<Longrightarrow>
   rc_permits (reach_of gs h) t model \<longleftrightarrow>
     (\<exists>g \<in> set gs. grant_names g h \<and> grant_covers g t \<and> is_model_excluded (gr_models g) model)"
proof -
  assume key: "canonical_model_key model \<noteq> []"
  show ?thesis
  proof (cases "rc_unrestricted (reach_of gs h)")
    case True
    then obtain g where g: "g \<in> set gs" "grant_names g h" "gr_scope g = ScopeAll" "''*'' \<in> set (gr_models g)"
      by (auto simp: reach_of_def all_models_def Let_def list_ex_iff split: if_splits)
    moreover from g have "grant_covers g t" by (simp add: grant_covers_def)
    ultimately show ?thesis
      using grants.unrestricted_permits [OF True key] is_model_excluded_star [OF _ key] by blast
  next
    case False
    then show ?thesis by (auto simp: reach_of_def allow_all_def Let_def list_ex_iff split: if_splits)
  qed
qed

text \<open>Grants only add: what a caller may use stays permitted when a grant is added.\<close>

lemma reach_mono:
  "canonical_model_key model \<noteq> [] \<Longrightarrow> rc_permits (reach_of gs h) t model \<Longrightarrow> set gs \<subseteq> set gs' \<Longrightarrow>
     rc_permits (reach_of gs' h) t model"
  by (auto simp: reach_permits_iff)

lemma normalize_model_patterns_clean:
  "p \<in> set (normalize_model_patterns ms) \<Longrightarrow> p \<noteq> [] \<and> (\<exists>m \<in> set ms. p = js_lower (js_trim m))"
  by (auto simp: normalize_model_patterns_def)

lemma normalize_model_patterns_distinct: "distinct (normalize_model_patterns ms)"
  by (simp add: normalize_model_patterns_def)

end
