(* ===== verification/Routing.thy ===== *)
theory Routing
  imports Credential_Model Model_Name Grants "HOL-Library.Multiset"
begin

text \<open>
  Model routing (\<open>packages/models/src/credentials/selection/routing.ts\<close>) and the part of a route that a caller's grants
  reach (\<open>selection/grants.ts\<close>): from the model a client asks for to the upstream models one credential would serve.
\<close>

record routing_context =
  rx_force_model_prefix :: bool
  rx_oauth_model_alias :: "(string, oauth_model_alias list) js_map"
  rx_known_prefixes :: "string list"

record model_route =
  mr_requested_model :: string
  mr_route_model :: string
  mr_upstream_model :: string
  mr_upstream_models :: "string list"
  mr_original_alias :: string
  mr_force_mapping :: bool
  mr_selection_model :: string
  mr_pooled :: bool

record alias_result =
  ar_upstream_model :: string
  ar_force_mapping :: bool
  ar_original_alias :: string

definition no_alias :: alias_result where
  "no_alias = \<lparr>ar_upstream_model = [], ar_force_mapping = False, ar_original_alias = []\<rparr>"

record alias_entry =
  al_name :: string
  al_alias :: string
  al_force_mapping :: bool

subsection \<open>Aliases\<close>

definition lookup_candidates :: "string \<Rightarrow> model_suffix \<times> string list" where
  "lookup_candidates requested =
     (let trimmed = js_trim requested in
      if trimmed = [] then (parse_model_suffix [], [])
      else (let sfx = parse_model_suffix trimmed;
                base = (if sfx_model_name sfx = [] then trimmed else sfx_model_name sfx)
            in (sfx, if base = trimmed then [trimmed] else [trimmed, base])))"

definition equal_fold :: "string \<Rightarrow> string \<Rightarrow> bool" where
  "equal_fold a b \<longleftrightarrow> js_lower a = js_lower b"

text \<open>One entry against one candidate: \<^const>\<open>None\<close> goes on with the loop, \<open>Some r\<close> returns.\<close>

definition alias_match :: "model_suffix \<Rightarrow> string \<Rightarrow> string \<Rightarrow> string \<Rightarrow> alias_entry \<Rightarrow> alias_result option" where
  "alias_match sfx base requested candidate entry =
     (let nm = js_trim (al_name entry); alias = js_trim (al_alias entry) in
      if nm = [] \<or> alias = [] \<or> \<not> equal_fold alias candidate then None
      else if equal_fold nm base then
        Some (if \<not> al_force_mapping entry then no_alias
              else \<lparr>ar_upstream_model = preserve_resolved_suffix nm sfx, ar_force_mapping = True, ar_original_alias = alias\<rparr>)
      else Some \<lparr>ar_upstream_model = preserve_resolved_suffix nm sfx, ar_force_mapping = al_force_mapping entry,
                 ar_original_alias = (if al_force_mapping entry then alias else requested)\<rparr>)"

definition resolve_alias :: "alias_entry list \<Rightarrow> string \<Rightarrow> alias_result" where
  "resolve_alias entries requested =
     (let (sfx, candidates) = lookup_candidates requested in
      if candidates = [] \<or> entries = [] then no_alias
      else (let base = (if sfx_model_name sfx = [] then js_trim requested else sfx_model_name sfx) in
            case first_some (\<lambda>candidate. first_some (alias_match sfx base requested candidate) entries) candidates of
              Some r \<Rightarrow> r
            | None \<Rightarrow> no_alias))"

text \<open>The loop over the entries of one candidate: the keys seen so far and the names collected.\<close>

definition pool_step ::
  "model_suffix \<Rightarrow> string \<Rightarrow> string list \<times> string list \<Rightarrow> model_entry \<Rightarrow> string list \<times> string list" where
  "pool_step sfx candidate acc entry =
     (case acc of (seen, out) \<Rightarrow>
        (let nm = js_trim (me_name entry);
             alias = js_trim (case me_alias entry of None \<Rightarrow> [] | Some a \<Rightarrow> a)
         in if alias = [] \<or> \<not> equal_fold alias candidate then acc
            else (let resolved = preserve_resolved_suffix (if nm = [] then candidate else nm) sfx;
                      key = js_lower resolved
                  in if key = [] \<or> key \<in> set seen then acc else (key # seen, out @ [resolved]))))"

definition alias_pool :: "model_suffix \<Rightarrow> model_entry list \<Rightarrow> string \<Rightarrow> string list" where
  "alias_pool sfx entries candidate = snd (foldl (pool_step sfx candidate) ([], []) entries)"

definition resolve_model_pool :: "model_entry list \<Rightarrow> string \<Rightarrow> string list" where
  "resolve_model_pool entries requested =
     (let (sfx, candidates) = lookup_candidates requested in
      case first_some (\<lambda>candidate. let out = alias_pool sfx entries candidate in if out \<noteq> [] then Some out else None)
             candidates of
        Some out \<Rightarrow> out
      | None \<Rightarrow>
          (case first_some (\<lambda>candidate. first_some (\<lambda>entry.
                   let nm = js_trim (me_name entry)
                   in if nm \<noteq> [] \<and> equal_fold nm candidate then Some [preserve_resolved_suffix nm sfx] else None) entries)
                  candidates of
             Some out \<Rightarrow> out
           | None \<Rightarrow> []))"

definition oauth_alias_channel :: "credential \<Rightarrow> string" where
  "oauth_alias_channel c =
     (if cr_auth_kind c = Some ApiKey then []
      else (let provider = js_lower (js_trim (cr_provider c)) in if provider = ''gemini'' then [] else provider))"

definition entry_of :: "oauth_model_alias \<Rightarrow> alias_entry" where
  "entry_of a = \<lparr>al_name = oa_name a, al_alias = oa_alias a, al_force_mapping = (oa_force_mapping a = Some True)\<rparr>"

subsection \<open>Routes\<close>

definition apply_prefix :: "credential \<Rightarrow> string \<Rightarrow> routing_context \<Rightarrow> string option" where
  "apply_prefix c requested context =
     (let pre = (case cr_prefix c of None \<Rightarrow> [] | Some p \<Rightarrow> p) in
      if pre \<noteq> [] \<and> starts_with requested (pre @ ''/'') then Some (drop (length pre + 1) requested)
      else if pre \<noteq> [] \<and> rx_force_model_prefix context \<and> canonical_model_key requested \<noteq> pre then None
      else (case index_of ''/'' requested of
              Some slash \<Rightarrow>
                if slash > 0 \<and> take slash requested \<in> set (rx_known_prefixes context) \<and> cr_models c = None then None
                else Some requested
            | None \<Rightarrow> Some requested))"

text \<open>\<open>((offset % size) + size) % size\<close> is the remainder of the floored division.\<close>

definition rotate_route :: "model_route \<Rightarrow> int \<Rightarrow> model_route" where
  "rotate_route route offset =
     (let size = length (mr_upstream_models route) in
      if size < 2 then route
      else (let start = nat (offset mod int size) in
            if start = 0 then route
            else (let models = drop start (mr_upstream_models route) @ take start (mr_upstream_models route)
                  in route\<lparr>mr_upstream_model := (case models of [] \<Rightarrow> [] | m # _ \<Rightarrow> m), mr_upstream_models := models\<rparr>)))"

definition make_route :: "string \<Rightarrow> string \<Rightarrow> string list \<Rightarrow> string \<Rightarrow> bool \<Rightarrow> string \<Rightarrow> model_route" where
  "make_route requested_model route_model models original_alias force_mapping selection_model =
     \<lparr>mr_requested_model = requested_model, mr_route_model = route_model,
      mr_upstream_model = (case models of [] \<Rightarrow> [] | m # _ \<Rightarrow> m), mr_upstream_models = models,
      mr_original_alias = original_alias, mr_force_mapping = force_mapping, mr_selection_model = selection_model,
      mr_pooled = False\<rparr>"

definition config_entry :: "model_entry \<Rightarrow> alias_entry" where
  "config_entry m = \<lparr>al_name = me_name m, al_alias = (case me_alias m of None \<Rightarrow> [] | Some a \<Rightarrow> a),
     al_force_mapping = (me_force_mapping m = Some True)\<rparr>"

definition oauth_alias :: "credential \<Rightarrow> string \<Rightarrow> routing_context \<Rightarrow> alias_result" where
  "oauth_alias c route_model context =
     (let channel = oauth_alias_channel c in
      if channel = [] then no_alias
      else (let own = resolve_alias (map entry_of (cr_model_aliases c)) route_model in
            if ar_upstream_model own \<noteq> [] then own
            else resolve_alias
                   (map entry_of (case map_of (rx_oauth_model_alias context) channel of None \<Rightarrow> [] | Some l \<Rightarrow> l))
                   route_model))"

definition resolve_model_route :: "credential \<Rightarrow> string \<Rightarrow> routing_context \<Rightarrow> model_route option" where
  "resolve_model_route c requested context =
     (let requested_model = js_trim requested in
      if requested_model = [] then None
      else (case apply_prefix c requested_model context of
              None \<Rightarrow> None
            | Some route_model \<Rightarrow>
                if js_trim route_model = [] then None
                else (case cr_models c of
                        Some (m # ms) \<Rightarrow>
                          (let pool = resolve_model_pool (m # ms) route_model in
                           if pool = [] then None
                           else if list_ex (is_model_excluded (cr_excluded_models c)) (route_model # pool) then None
                           else (let alias = resolve_alias (map config_entry (m # ms)) route_model
                                 in Some (make_route requested_model route_model pool
                                      (if ar_force_mapping alias then ar_original_alias alias else route_model)
                                      (ar_force_mapping alias) route_model)))
                      | _ \<Rightarrow>
                          (let alias = oauth_alias c route_model context;
                               upstream = (if ar_upstream_model alias = [] then route_model else ar_upstream_model alias)
                           in if is_model_excluded (cr_excluded_models c) upstream then None
                              else Some (make_route requested_model route_model [upstream]
                                     (if ar_upstream_model alias = [] then route_model else ar_original_alias alias)
                                     (ar_force_mapping alias) upstream)))))"

subsection \<open>Grants\<close>

definition target_of :: "credential \<Rightarrow> grant_target" where
  "target_of c = \<lparr>tg_id = cr_id c, tg_executor = executor_key c\<rparr>"

definition granted_route :: "credential \<Rightarrow> model_route \<Rightarrow> reach \<Rightarrow> model_route option" where
  "granted_route c route r =
     (if cr_owner c \<noteq> None then Some route
      else if rc_covers_all r (target_of c) then Some route
      else (case filter (rc_permits r (target_of c)) (mr_upstream_models route) of
              [] \<Rightarrow> None
            | first # permitted \<Rightarrow>
                if length (first # permitted) = length (mr_upstream_models route) then Some route
                else Some (route\<lparr>mr_upstream_model := first, mr_upstream_models := first # permitted, mr_pooled := True\<rparr>)))"

subsection \<open>What a granted route names\<close>

lemma granted_route_models:
  assumes "granted_route c route r = Some g"
  shows "set (mr_upstream_models g) \<subseteq> set (mr_upstream_models route) \<and> mr_selection_model g = mr_selection_model route"
proof -
  have "set (filter P xs) \<subseteq> set xs" for P and xs :: "string list" by auto
  then show ?thesis using assms
    by (auto simp: granted_route_def split: if_splits list.splits) (metis filter_is_subset list.set_intros subsetD)+
qed

lemma granted_private: "cr_owner c \<noteq> None \<Longrightarrow> granted_route c route r = Some route"
  by (simp add: granted_route_def)

context reach_contract
begin

lemma granted_permits:
  assumes "granted_route c route r = Some g" "cr_owner c = None" "m \<in> set (mr_upstream_models g)" "canonical_model_key m \<noteq> []"
  shows "rc_permits r (target_of c) m"
proof (cases "rc_covers_all r (target_of c)")
  case True
  then show ?thesis using covers_permits assms(4) by blast
next
  case False
  define permitted where "permitted = filter (rc_permits r (target_of c)) (mr_upstream_models route)"
  have "mr_upstream_models g = permitted"
  proof (cases permitted)
    case Nil
    then show ?thesis using assms(1,2) False by (simp add: granted_route_def permitted_def [symmetric])
  next
    case (Cons a rest)
    show ?thesis
    proof (cases "length permitted = length (mr_upstream_models route)")
      case True
      then have "permitted = mr_upstream_models route" unfolding permitted_def by (metis filter_id_conv length_filter_less not_less_iff_gr_or_eq)
      then show ?thesis using assms(1,2) False Cons
        by (auto simp: granted_route_def permitted_def [symmetric] split: list.splits)
    next
      case no: False
      then show ?thesis using assms(1,2) False Cons by (auto simp: granted_route_def permitted_def [symmetric])
    qed
  qed
  then show ?thesis using assms(3) by (simp add: permitted_def)
qed

end

subsection \<open>Routes are well-formed\<close>

definition route_ok :: "model_route \<Rightarrow> bool" where
  "route_ok r \<longleftrightarrow> mr_upstream_models r \<noteq> [] \<and> mr_upstream_model r = hd (mr_upstream_models r)"

lemma make_route_ok: "models \<noteq> [] \<Longrightarrow> route_ok (make_route a b models c d e)"
  by (cases models) (auto simp: route_ok_def make_route_def)

lemma make_route_models [simp]: "mr_upstream_models (make_route a b models c d e) = models"
  by (simp add: make_route_def)

lemma resolve_model_route_ok:
  assumes "resolve_model_route c requested context = Some r"
  shows "route_ok r \<and> \<not> mr_pooled r \<and> (\<forall>m \<in> set (mr_upstream_models r). \<not> is_model_excluded (cr_excluded_models c) m)"
  using assms
  by (auto simp: resolve_model_route_def Let_def list_ex_iff split: if_splits option.splits list.splits
      intro!: make_route_ok) (auto simp: make_route_def)

lemma granted_route_ok: "route_ok route \<Longrightarrow> granted_route c route r = Some g \<Longrightarrow> route_ok g"
  by (auto simp: granted_route_def route_ok_def split: if_splits list.splits)

lemma rotate_route_models:
  assumes "route_ok r"
  shows "route_ok (rotate_route r offset) \<and> mset (mr_upstream_models (rotate_route r offset)) = mset (mr_upstream_models r) \<and>
    mr_upstream_model (rotate_route r offset) =
      mr_upstream_models r ! (nat (offset mod int (length (mr_upstream_models r))))"
proof -
  let ?ms = "mr_upstream_models r"
  let ?n = "nat (offset mod int (length ?ms))"
  have ne: "?ms \<noteq> []" using assms by (simp add: route_ok_def)
  then have lt: "?n < length ?ms" by (simp add: nat_less_iff)
  have hd: "hd ?ms = ?ms ! 0" using ne by (rule hd_conv_nth)
  show ?thesis
  proof (cases "length ?ms < 2 \<or> ?n = 0")
    case True
    then have "rotate_route r offset = r" by (auto simp: rotate_route_def Let_def)
    moreover have "?n = 0" using True lt by auto
    ultimately show ?thesis using assms hd by (simp add: route_ok_def)
  next
    case False
    have d: "drop ?n ?ms = ?ms ! ?n # drop (Suc ?n) ?ms" using lt by (simp add: Cons_nth_drop_Suc)
    have "mset (drop ?n ?ms @ take ?n ?ms) = mset ?ms" by (metis append_take_drop_id mset_append union_commute)
    then show ?thesis using False d by (auto simp: rotate_route_def Let_def route_ok_def)
  qed
qed

end
