(* ===== verification/Routing_Properties.thy ===== *)
theory Routing_Properties
  imports Routing Availability Mark_Result Credential_Model
begin

text \<open>The properties of model patterns, grants and routes, and of the cooldown reset.\<close>

definition sample_pool :: credential where
  "sample_pool = sample_credential\<lparr>cr_prefix := Some ''team'',
     cr_models := Some [\<lparr>me_name = ''up-a'', me_alias = Some ''m'', me_force_mapping = None\<rparr>,
                        \<lparr>me_name = ''up-b'', me_alias = Some ''M'', me_force_mapping = None\<rparr>],
     cr_excluded_models := [''*-x'']\<rparr>"

definition sample_context :: routing_context where
  "sample_context = \<lparr>rx_force_model_prefix = True, rx_oauth_model_alias = [], rx_known_prefixes = [''team'']\<rparr>"

text \<open>A model pattern with wildcards means what it says: the segment search agrees with the textbook matching of the
  pattern, in which a star stands for any text.\<close>

theorem wildcard_search_is_glob: "match_wildcard pattern val \<longleftrightarrow> pattern \<noteq> [] \<and> glob pattern val"
  by (rule match_wildcard_iff_glob)

text \<open>A caller's reach is the sum of their grants: a model is permitted on a credential exactly when some grant that
  names the caller covers the credential and has a pattern for the model; adding grants takes nothing away.\<close>

theorem reach_is_the_sum_of_grants:
  assumes "canonical_model_key model \<noteq> []"
  shows "(rc_permits (reach_of gs h) t model \<longleftrightarrow>
      (\<exists>g \<in> set gs. grant_names g h \<and> grant_covers g t \<and>
         (\<exists>p \<in> set (gr_models g). p \<noteq> [] \<and> glob p (js_lower (canonical_model_key model))))) \<and>
    (rc_permits (reach_of gs h) t model \<longrightarrow> rc_permits (reach_of (gs @ gs') h) t model)"
  using assms reach_permits_iff [OF assms, of gs h t] reach_mono [OF assms, of gs h t "gs @ gs'"]
  by (auto simp: is_model_excluded_iff)

theorem reach_is_the_sum_of_grants_witness:
  "rc_permits (reach_of [\<lparr>gr_subject = SubjectTeam ''t'', gr_scope = ScopeProvider ''claude'', gr_models = [''opus*'']\<rparr>]
      \<lparr>gh_member = Some ''u'', gh_teams = [''t'']\<rparr>) \<lparr>tg_id = ''c'', tg_executor = ''Claude''\<rparr> ''Opus-5(high)''"
  using reach_is_the_sum_of_grants [of "''Opus-5(high)''"
      "[\<lparr>gr_subject = SubjectTeam ''t'', gr_scope = ScopeProvider ''claude'', gr_models = [''opus*'']\<rparr>]"
      "\<lparr>gh_member = Some ''u'', gh_teams = [''t'']\<rparr>" "\<lparr>tg_id = ''c'', tg_executor = ''Claude''\<rparr>" "[]"]
  by code_simp

text \<open>A route names at least one upstream model, starts with the first of them, and names none that the credential
  excludes; narrowing it to a caller's grants keeps that and adds no model.\<close>

theorem routes_are_usable:
  assumes "resolve_model_route c requested context = Some r" "granted_route c r reach = Some g"
  shows "mr_upstream_models g \<noteq> [] \<and> mr_upstream_model g = hd (mr_upstream_models g) \<and>
    set (mr_upstream_models g) \<subseteq> set (mr_upstream_models r) \<and>
    (\<forall>m \<in> set (mr_upstream_models g). \<not> is_model_excluded (cr_excluded_models c) m)"
  using resolve_model_route_ok [OF assms(1)] granted_route_ok [OF _ assms(2)] granted_route_models [OF assms(2)]
  by (auto simp: route_ok_def)

theorem routes_are_usable_witness:
  "let g = (case granted_route sample_pool (case resolve_model_route sample_pool ''team/m(8k)'' sample_context of Some r \<Rightarrow> r) allow_all
              of Some g \<Rightarrow> g) in
   mr_upstream_models g \<noteq> [] \<and> mr_upstream_model g = hd (mr_upstream_models g)"
proof -
  let ?r = "case resolve_model_route sample_pool ''team/m(8k)'' sample_context of Some r \<Rightarrow> r"
  let ?g = "case granted_route sample_pool ?r allow_all of Some g \<Rightarrow> g"
  have "resolve_model_route sample_pool ''team/m(8k)'' sample_context \<noteq> None" by code_simp
  then have r: "resolve_model_route sample_pool ''team/m(8k)'' sample_context = Some ?r" by auto
  have "granted_route sample_pool ?r allow_all \<noteq> None" by code_simp
  then have g: "granted_route sample_pool ?r allow_all = Some ?g" by auto
  from routes_are_usable [OF r g] show ?thesis unfolding Let_def by blast
qed

text \<open>After an operator's reset no cooldown, quota or failed login is left: an enabled credential whose token has not
  expired is free for every model again.\<close>

theorem reset_frees_every_model:
  assumes "\<not> cr_disabled c" "cs_status (fst (reset_cooldown_state st t)) \<noteq> StDisabled"
    and "case access_token_expiry (cr_metadata c) (cs_rejected_access_token st) of None \<Rightarrow> True | Some expiry \<Rightarrow> now < expiry"
  shows "\<not> bk_blocked (is_blocked_for_model c (fst (reset_cooldown_state st t)) model now)"
  using assms
  by (auto simp: is_blocked_for_model_def reset_cooldown_state_def Let_def has_unauthorized_failure_def
      availability_block_def empty_quota_def free_block_def split: option.splits)

theorem reset_frees_every_model_witness:
  "\<not> bk_blocked (is_blocked_for_model sample_credential
      (fst (reset_cooldown_state (empty_state\<lparr>cs_unavailable := True, cs_next_retry_after := 99\<rparr>) 5)) ''m'' 6)"
  by (rule reset_frees_every_model) code_simp+

end
