(* ===== verification/Spend_Model.thy ===== *)
theory Spend_Model
  imports Prelude
begin

text \<open>
  The shapes of Spend limits (\<open>packages/state/src/spend/model.ts\<close>, \<open>period.ts\<close>): subjects, periods, limits, refusals
  and the gate that credential selection reads. The bounds of a period come from the effect library's calendar
  (\<open>DateTime.startOf\<close> in a time zone): a function argument of the definitions that use them.
\<close>

datatype subject_kind = KMember | KTeam | KOrg | KCredential | KKey | KToolkitCredential | KAgent

datatype period = Day | Week | Month

datatype limit_source = ByAdmin | ByMember

definition org_subject :: string where "org_subject = []"

record spend_scope =
  ss_kind :: subject_kind
  ss_subject :: string

record spend_limit =
  sl_id :: string
  sl_kind :: subject_kind
  sl_subject :: string
  sl_period :: period
  sl_amount :: int
  sl_source :: limit_source
  sl_revision :: int
  sl_created_at :: ms
  sl_updated_at :: ms
  sl_updated_by :: string

record spend_settings =
  st_time_zone :: string
  st_week_start :: string

record refusal =
  rf_kind :: subject_kind
  rf_period :: period
  rf_resets_at :: ms

record spend_gate =
  sg_refuse :: "refusal option"
  sg_shared_blocked :: "refusal option"
  sg_credentials :: "(string, refusal) js_map"

record charged_credential =
  cc_id :: string
  cc_shared :: bool
  cc_kind :: "subject_kind option"

record spend_caller =
  sp_member_id :: "string option"
  sp_api_key_id :: "string option"
  sp_agent_id :: "string option"

record period_bounds =
  pb_start :: ms
  pb_end :: ms

type_synonym calendar = "period \<Rightarrow> ms \<Rightarrow> string \<Rightarrow> string \<Rightarrow> period_bounds"

text \<open>
  What \<open>startOf\<close> promises of a zone and a week start: a time lies in its period, periods do not overlap or leave gaps
  (two times have the same bounds or disjoint ones), so that the period that follows starts where the last one ended.
\<close>

definition calendar_ok :: "calendar \<Rightarrow> bool" where
  "calendar_ok cal \<longleftrightarrow>
     (\<forall>p t z w. pb_start (cal p t z w) \<le> t \<and> t < pb_end (cal p t z w)) \<and>
     (\<forall>p t u z w. pb_start (cal p t z w) \<le> u \<and> u < pb_end (cal p t z w) \<longrightarrow> cal p u z w = cal p t z w)"

lemma calendar_contains: "calendar_ok cal \<Longrightarrow> pb_start (cal p t z w) \<le> t \<and> t < pb_end (cal p t z w)"
  unfolding calendar_ok_def by blast

lemma calendar_same: "calendar_ok cal \<Longrightarrow> pb_start (cal p t z w) \<le> u \<Longrightarrow> u < pb_end (cal p t z w) \<Longrightarrow> cal p u z w = cal p t z w"
  unfolding calendar_ok_def by blast

text \<open>A concrete calendar for evaluation: UTC days, and weeks and months of seven and thirty of them.\<close>

definition utc_calendar :: calendar where
  "utc_calendar p t z w =
     (let len = (case p of Day \<Rightarrow> 86400000 | Week \<Rightarrow> 604800000 | Month \<Rightarrow> 2592000000)
      in \<lparr>pb_start = t div len * len, pb_end = (t div len + 1) * len\<rparr>)"

lemma div_interval:
  fixes t u len :: int
  assumes "0 < len" "t div len * len \<le> u" "u < (t div len + 1) * len"
  shows "u div len = t div len"
  by (rule int_div_pos_eq [where r = "u - t div len * len"]) (use assms in \<open>auto simp: algebra_simps\<close>)

lemma div_contains: "0 < len \<Longrightarrow> t div len * len \<le> t \<and> t < (t div len + 1) * (len::int)"
proof -
  assume "0 < len"
  then have "0 \<le> t mod len" "t mod len < len" by simp_all
  moreover have "t = t div len * len + t mod len" by simp
  moreover have "(t div len + 1) * len = t div len * len + len" by (simp add: distrib_right)
  ultimately show ?thesis by linarith
qed

lemma utc_calendar_ok: "calendar_ok utc_calendar"
  unfolding calendar_ok_def utc_calendar_def Let_def
proof (intro conjI allI impI, goal_cases)
  case (1 p t z w)
  then show ?case using div_contains [of "case p of Day \<Rightarrow> 86400000 | Week \<Rightarrow> 604800000 | Month \<Rightarrow> 2592000000" t]
    by (cases p) simp_all
next
  case (2 p t z w)
  then show ?case using div_contains [of "case p of Day \<Rightarrow> 86400000 | Week \<Rightarrow> 604800000 | Month \<Rightarrow> 2592000000" t]
    by (cases p) simp_all
next
  case (3 p t u z w)
  then show ?case using div_interval [of "case p of Day \<Rightarrow> 86400000 | Week \<Rightarrow> 604800000 | Month \<Rightarrow> 2592000000" t u]
    by (cases p) simp_all
qed

end
