(* ===== verification/Retry.thy ===== *)
theory Retry
  imports Availability Classify Mark_Result Routing Spend_Model
begin

text \<open>
  Retry planning (\<open>packages/models/src/credentials/selection/retry.ts\<close>): whether another round of attempts starts after a
  failed one, and how long it waits for a cooldown. Optional flags of the query are False when absent.
\<close>

record credential_entry =
  en_credential :: credential
  en_state :: credential_state

record retry_query =
  rq_providers :: "string list"
  rq_model :: string
  rq_round :: int
  rq_request_retry :: int
  rq_status :: int
  rq_attempted :: "string list"
  rq_retry_after_ms :: "ms option"
  rq_max_wait_ms :: ms
  rq_pinned_auth_id :: "string option"
  rq_member_id :: "string option"
  rq_require_auth_kind :: "auth_kind option"
  rq_disallow_free_codex :: bool

text \<open>\<open>{ retry: false, retryAfterMs? }\<close> and \<open>{ retry: true, waitMs }\<close>.\<close>

datatype retry_plan = NoRetry "ms option" | RetryIn ms

subsection \<open>Retry budgets\<close>

definition parse_int_any :: "json option \<Rightarrow> int option" where
  "parse_int_any v =
     (case v of
        Some (JNum r) \<Rightarrow> Some (js_trunc r)
      | Some (JStr s) \<Rightarrow>
          (let t = js_trim s in if starts_with t ''+'' then None else signed_digits t)
      | _ \<Rightarrow> None)"

definition request_retry_override :: "credential \<Rightarrow> int option" where
  "request_retry_override c =
     (case first_some (\<lambda>k. parse_int_any (map_of (cr_metadata c) k)) [''request_retry'', ''request-retry''] of
        None \<Rightarrow> None
      | Some parsed \<Rightarrow> if parsed < 0 then None else Some parsed)"

definition effective_request_retry :: "credential \<Rightarrow> int \<Rightarrow> int" where
  "effective_request_retry c default_retry =
     (case request_retry_override c of Some n \<Rightarrow> n | None \<Rightarrow> max 0 default_retry)"

subsection \<open>Availability in a retry round\<close>

definition retry_round_state_eligible :: "credential_error option \<Rightarrow> bool \<Rightarrow> bool" where
  "retry_round_state_eligible e quota_exceeded =
     (case e of
        None \<Rightarrow> quota_exceeded
      | Some er \<Rightarrow> is_credential_retry_round_status (case er_http_status er of Some s \<Rightarrow> s | None \<Rightarrow> 0))"

record retry_availability =
  ra_eligible :: bool
  ra_next :: ms

definition not_eligible :: retry_availability where
  "not_eligible = \<lparr>ra_eligible = False, ra_next = 0\<rparr>"

text \<open>The loop over the states of the model: an answer, or whether a blocked one was seen.\<close>

fun retry_scan :: "string \<Rightarrow> ms \<Rightarrow> (string, model_state) js_map \<Rightarrow> bool \<Rightarrow> retry_availability + bool" where
  "retry_scan key now [] matched_blocked = Inr matched_blocked"
| "retry_scan key now ((state_model, md) # states) matched_blocked =
     (if canonical_model_key state_model \<noteq> key then retry_scan key now states matched_blocked
      else if md_status md = StDisabled then Inl not_eligible
      else (let block = model_state_block md now in
            if \<not> bk_blocked block then retry_scan key now states matched_blocked
            else if bk_next block = 0 \<or> \<not> retry_round_state_eligible (md_last_error md) (q_exceeded (md_quota md))
            then Inl not_eligible
            else retry_scan key now states True))"

definition retry_round_availability :: "credential_state \<Rightarrow> credential \<Rightarrow> string \<Rightarrow> ms \<Rightarrow> retry_availability" where
  "retry_round_availability st c model now =
     (let block = is_blocked_for_model c st model now in
      if \<not> bk_blocked block then \<lparr>ra_eligible = True, ra_next = 0\<rparr>
      else if bk_next block = 0 \<or> bk_reason block = BlockDisabled then not_eligible
      else if q_exceeded (cs_quota st) \<and> q_reason (cs_quota st) = Some ''credential_quota'' \<and>
              q_next_recover_at (cs_quota st) > now
      then \<lparr>ra_eligible = retry_round_state_eligible (cs_last_error st) True, ra_next = bk_next block\<rparr>
      else (let key = canonical_model_key model;
                scan = (if key \<noteq> [] \<and> cs_model_states st \<noteq> [] then retry_scan key now (cs_model_states st) False
                        else Inr False)
            in case scan of
                 Inl answer \<Rightarrow> answer
               | Inr matched_blocked \<Rightarrow>
                   if matched_blocked then \<lparr>ra_eligible = True, ra_next = bk_next block\<rparr>
                   else if \<not> retry_round_state_eligible (cs_last_error st) (q_exceeded (cs_quota st)) then not_eligible
                   else \<lparr>ra_eligible = True, ra_next = bk_next block\<rparr>))"

text \<open>The best upstream model of a pool; an available one ends the loop.\<close>

fun pool_availability ::
  "(string \<Rightarrow> retry_availability) \<Rightarrow> string list \<Rightarrow> retry_availability option \<Rightarrow> retry_availability" where
  "pool_availability f [] best = (case best of Some b \<Rightarrow> b | None \<Rightarrow> not_eligible)"
| "pool_availability f (upstream # models) best =
     (let a = f upstream in
      if ra_eligible a \<and> ra_next a = 0 then a
      else (case best of
              None \<Rightarrow> pool_availability f models (Some a)
            | Some b \<Rightarrow>
                if ra_eligible a \<and> (\<not> ra_eligible b \<or> ra_next a < ra_next b) then pool_availability f models (Some a)
                else pool_availability f models (Some b)))"

definition route_availability :: "credential_state \<Rightarrow> credential \<Rightarrow> model_route option \<Rightarrow> ms \<Rightarrow> retry_availability" where
  "route_availability st c route now =
     (case route of
        None \<Rightarrow> retry_round_availability st c [] now
      | Some r \<Rightarrow>
          if length (mr_upstream_models r) \<le> 1 \<and> \<not> mr_pooled r
          then retry_round_availability st c (mr_selection_model r) now
          else pool_availability (\<lambda>upstream. retry_round_availability st c upstream now) (mr_upstream_models r) None)"

subsection \<open>The plan\<close>

record retry_plan_input =
  ri_credentials :: "credential_entry list"
  ri_query :: retry_query
  ri_routing :: routing_context
  ri_reach :: reach
  ri_cooling_disabled :: "credential \<Rightarrow> bool"
  ri_now :: ms
  ri_spend :: "spend_gate option"

text \<open>\<open>new Set(providers.map(...).filter(Boolean))\<close>, in order of first occurrence.\<close>

definition provider_set :: "string list \<Rightarrow> string list" where
  "provider_set ps = rev (remdups (rev (filter (\<lambda>p. p \<noteq> []) (map (\<lambda>p. js_lower (js_trim p)) ps))))"

definition shared_blocked :: "spend_gate option \<Rightarrow> refusal option" where
  "shared_blocked gate = (case gate of None \<Rightarrow> None | Some g \<Rightarrow> sg_shared_blocked g)"

definition held_by_limit :: "spend_gate option \<Rightarrow> string \<Rightarrow> refusal option" where
  "held_by_limit gate cid = (case gate of None \<Rightarrow> None | Some g \<Rightarrow> map_of (sg_credentials g) cid)"

definition free_codex :: "credential \<Rightarrow> bool" where
  "free_codex c \<longleftrightarrow> cr_provider c = ''codex'' \<and> js_lower (js_trim (attribute ''plan_type'' c)) = ''free''"

definition trimmed_option :: "string option \<Rightarrow> string" where
  "trimmed_option s = (case s of None \<Rightarrow> [] | Some t \<Rightarrow> js_trim t)"

text \<open>
  The guards of one turn of the loop: \<^const>\<open>None\<close> when the credential is passed over, otherwise its availability, with
  the end of its Spend limit's period.
\<close>

definition retry_candidate :: "retry_plan_input \<Rightarrow> credential_entry \<Rightarrow> retry_availability option" where
  "retry_candidate i entry =
     (let q = ri_query i; c = en_credential entry; st = en_state entry; pinned = trimmed_option (rq_pinned_auth_id q) in
      if cr_disabled c \<or> cs_status st = StDisabled then None
      else if \<not> serves_member c (rq_member_id q) then None
      else if shared_blocked (ri_spend i) \<noteq> None \<and> cr_owner c = None then None
      else if pinned \<noteq> [] \<and> cr_id c \<noteq> pinned then None
      else if rq_require_auth_kind q \<noteq> None \<and> cr_auth_kind c \<noteq> rq_require_auth_kind q then None
      else if rq_disallow_free_codex q \<and> free_codex c then None
      else if executor_key c \<notin> set (provider_set (rq_providers q)) then None
      else (let resolved = (if rq_model q = [] then None else resolve_model_route c (rq_model q) (ri_routing i)) in
            if rq_model q \<noteq> [] \<and> resolved = None then None
            else (let route = (case resolved of None \<Rightarrow> None | Some r \<Rightarrow> granted_route c r (ri_reach i)) in
                  if resolved \<noteq> None \<and> route = None then None
                  else if rq_round q \<ge> effective_request_retry c (rq_request_retry q) then None
                  else (let a = route_availability st c route (ri_now i);
                            nxt = max (ra_next a) (case held_by_limit (ri_spend i) (cr_id c) of
                                                     None \<Rightarrow> 0 | Some rf \<Rightarrow> rf_resets_at rf)
                        in Some (a\<lparr>ra_next := nxt\<rparr>)))))"

record plan_state =
  ps_allowed :: bool
  ps_found :: bool
  ps_min_wait :: ms

definition note_wait :: "ms \<Rightarrow> plan_state \<Rightarrow> plan_state" where
  "note_wait wait s = (if \<not> ps_found s \<or> wait < ps_min_wait s then s\<lparr>ps_found := True, ps_min_wait := wait\<rparr> else s)"

definition plan_step :: "retry_plan_input \<Rightarrow> plan_state \<Rightarrow> credential_entry \<Rightarrow> plan_state + retry_plan" where
  "plan_step i s entry =
     (case retry_candidate i entry of
        None \<Rightarrow> Inl s
      | Some a \<Rightarrow>
          if \<not> ra_eligible a then Inl s
          else (let q = ri_query i; c = en_credential entry; s1 = s\<lparr>ps_allowed := True\<rparr>; nxt = ra_next a in
                if cr_id c \<notin> set (rq_attempted q) \<or> ri_cooling_disabled i c \<or> rq_status q \<noteq> 429 then
                  (if nxt = 0 then Inr (RetryIn 0)
                   else (let wait = nxt - ri_now i in if wait < 0 then Inl s1 else Inl (note_wait wait s1)))
                else (let wait = (if nxt = 0 then min_quota_cooldown_ms else max (nxt - ri_now i) min_quota_cooldown_ms)
                      in Inl (note_wait wait s1))))"

fun plan_loop :: "retry_plan_input \<Rightarrow> plan_state \<Rightarrow> credential_entry list \<Rightarrow> plan_state + retry_plan" where
  "plan_loop i s [] = Inl s"
| "plan_loop i s (entry # entries) =
     (case plan_step i s entry of Inr plan \<Rightarrow> Inr plan | Inl s' \<Rightarrow> plan_loop i s' entries)"

definition finish_plan :: "retry_query \<Rightarrow> plan_state \<Rightarrow> retry_plan" where
  "finish_plan q s =
     (let max_wait = rq_max_wait_ms q in
      if \<not> ps_allowed s then NoRetry None
      else if ps_found s then
        (if ps_min_wait s > 0 \<and> (max_wait \<le> 0 \<or> ps_min_wait s > max_wait) then NoRetry (Some (ps_min_wait s))
         else RetryIn (ps_min_wait s))
      else (case rq_retry_after_ms q of
              Some hint \<Rightarrow>
                if hint < 0 \<or> (hint > 0 \<and> (max_wait \<le> 0 \<or> hint > max_wait)) then NoRetry None else RetryIn hint
            | None \<Rightarrow> RetryIn 0))"

definition plan_retry :: "retry_plan_input \<Rightarrow> retry_plan" where
  "plan_retry i =
     (let q = ri_query i in
      if provider_set (rq_providers q) = [] \<or> rq_round q < 0 then NoRetry None
      else (case plan_loop i \<lparr>ps_allowed = False, ps_found = False, ps_min_wait = 0\<rparr> (ri_credentials i) of
              Inr plan \<Rightarrow> plan
            | Inl s \<Rightarrow> finish_plan q s))"

end
