(* ===== verification/Failures.thy ===== *)
theory Failures
  imports Json Spend_Model
begin

text \<open>
  Why nothing could be picked (\<open>packages/models/src/credentials/selection/failures.ts\<close>). The JSON body of a failure is
  kept as the value that \<open>JSON.stringify\<close> is given.
\<close>

datatype pick_failure_code =
  ProviderNotFound | AuthNotFound | AuthUnavailable | ModelCooldown | ModelNotFound | SpendLimitReached

record pick_failure =
  pf_code :: pick_failure_code
  pf_message :: string
  pf_http_status :: "int option"
  pf_retryable :: bool
  pf_retry_after_seconds :: "int option"
  pf_body :: "json option"

text \<open>\<open>Math.ceil(ms / 1000)\<close> and \<open>Math.round(ms / 1000)\<close>, of integer milliseconds.\<close>

definition ceil_seconds :: "ms \<Rightarrow> int" where
  "ceil_seconds t = - ((- t) div 1000)"

definition round_seconds :: "ms \<Rightarrow> int" where
  "round_seconds t = (t + 500) div 1000"

definition format_duration_seconds :: "int \<Rightarrow> string" where
  "format_duration_seconds seconds =
     (let n = max 0 seconds; hours = n div 3600; minutes = (n mod 3600) div 60; rest = n mod 60 in
      if hours > 0 then show_int hours @ ''h'' @ show_int minutes @ ''m'' @ show_int rest @ ''s''
      else if minutes > 0 then show_int minutes @ ''m'' @ show_int rest @ ''s''
      else show_int rest @ ''s'')"

definition provider_not_found :: pick_failure where
  "provider_not_found = \<lparr>pf_code = ProviderNotFound, pf_message = ''no provider available for the requested model'',
     pf_http_status = None, pf_retryable = False, pf_retry_after_seconds = None, pf_body = None\<rparr>"

definition unknown_model_body :: "string \<Rightarrow> json" where
  "unknown_model_body model =
     JObj [(''error'', JObj [(''message'', JStr (''unknown provider for model '' @ model)),
       (''type'', JStr ''invalid_request_error''), (''code'', JStr ''model_not_found''), (''param'', JStr ''model'')])]"

definition model_not_found :: "string \<Rightarrow> pick_failure" where
  "model_not_found model = \<lparr>pf_code = ModelNotFound, pf_message = ''unknown provider for model '' @ model,
     pf_http_status = Some 400, pf_retryable = False, pf_retry_after_seconds = None,
     pf_body = Some (unknown_model_body model)\<rparr>"

definition auth_not_found :: "string \<Rightarrow> pick_failure" where
  "auth_not_found message = \<lparr>pf_code = AuthNotFound, pf_message = message, pf_http_status = None, pf_retryable = False,
     pf_retry_after_seconds = None, pf_body = None\<rparr>"

definition auth_unavailable :: "ms \<Rightarrow> ms \<Rightarrow> pick_failure" where
  "auth_unavailable earliest now =
     (if earliest > now
      then \<lparr>pf_code = AuthUnavailable, pf_message = ''no auth available'', pf_http_status = Some 503,
             pf_retryable = True, pf_retry_after_seconds = Some (ceil_seconds (earliest - now)), pf_body = None\<rparr>
      else \<lparr>pf_code = AuthUnavailable, pf_message = ''no auth available'', pf_http_status = None,
             pf_retryable = False, pf_retry_after_seconds = None, pf_body = None\<rparr>)"

definition model_cooldown :: "string \<Rightarrow> string \<Rightarrow> ms \<Rightarrow> pick_failure" where
  "model_cooldown model provider reset_in =
     (let reset_ms = max 0 reset_in;
          reset_seconds = ceil_seconds reset_ms;
          display = (if reset_ms > 0 \<and> reset_ms < 1000 then 1 else round_seconds reset_ms);
          base = ''All credentials for model '' @ (if model = [] then ''requested model'' else model) @ '' are cooling down'';
          message = (if provider \<noteq> [] then base @ '' via provider '' @ provider else base);
          err = [(''code'', JStr ''model_cooldown''), (''message'', JStr message), (''model'', JStr model),
                 (''reset_time'', JStr (format_duration_seconds display)),
                 (''reset_seconds'', JNum (of_int reset_seconds))] @
                (if provider \<noteq> [] then [(''provider'', JStr provider)] else [])
      in \<lparr>pf_code = ModelCooldown, pf_message = message, pf_http_status = Some 429, pf_retryable = True,
          pf_retry_after_seconds = Some reset_seconds, pf_body = Some (JObj [(''error'', JObj err)])\<rparr>)"

lemma ceil_seconds_covers: "t \<le> ceil_seconds t * 1000 \<and> ceil_seconds t * 1000 < t + 1000"
proof -
  have "(- t) div 1000 * 1000 + (- t) mod 1000 = - t" by (rule div_mult_mod_eq)
  moreover have "0 \<le> (- t) mod 1000" "(- t) mod 1000 < 1000" by simp_all
  ultimately show ?thesis unfolding ceil_seconds_def by linarith
qed

lemma auth_unavailable_retryable:
  "pf_retryable (auth_unavailable earliest now) \<longleftrightarrow> pf_retry_after_seconds (auth_unavailable earliest now) \<noteq> None"
  by (simp add: auth_unavailable_def)

end
