(* ===== verification/Strategies.thy ===== *)
theory Strategies
  imports Prelude
begin

text \<open>
  Selection strategies (\<open>packages/models/src/credentials/selection/strategies.ts\<close>): the ring cursor of round-robin,
  fill-first, and smooth weighted round-robin, over candidates sorted by id. A candidate is any extension of
  \<open>weighted\<close>, as the source's type parameter is. The two maps of the class and its bound are the record
  \<open>rotation_state\<close>; an operation returns the pick and the new state.
\<close>

record weighted =
  wt_id :: string
  wt_weight :: int

definition default_max_keys :: int where "default_max_keys = 4096"

definition max_smooth_state_entries :: nat where "max_smooth_state_entries = 1024"

text \<open>\<open>Number.MAX_SAFE_INTEGER\<close>.\<close>

definition max_safe :: int where "max_safe = 9007199254740991"

subsection \<open>The ring cursor\<close>

function successor_loop :: "string list \<Rightarrow> string \<Rightarrow> nat \<Rightarrow> nat \<Rightarrow> nat" where
  "successor_loop ids lst low high =
     (if low < high then
        (let mid = (low + high) div 2 in
         if (if mid < length ids then ids ! mid else []) > lst then successor_loop ids lst low mid
         else successor_loop ids lst (mid + 1) high)
      else low)"
  by pat_completeness auto
termination by (relation "measure (\<lambda>(_, _, low, high). high - low)") auto

declare successor_loop.simps [simp del]

definition successor_index :: "('a weighted_scheme) list \<Rightarrow> string option \<Rightarrow> nat" where
  "successor_index candidates last_id =
     (case last_id of
        None \<Rightarrow> 0
      | Some l \<Rightarrow>
          (if l = [] then 0
           else (let low = successor_loop (map wt_id candidates) l 0 (length candidates)
                 in if low \<ge> length candidates then 0 else low)))"

subsection \<open>Smooth weighted round-robin\<close>

definition saturating_add :: "int \<Rightarrow> int \<Rightarrow> int" where
  "saturating_add v d =
     (if d > 0 \<and> v > max_safe - d then max_safe
      else if d < 0 \<and> v < - max_safe - d then - max_safe
      else v + d)"

record smooth_state =
  sm_current :: "(string, int) js_map"
  sm_weights :: "(string, int) js_map"

definition empty_smooth :: smooth_state where
  "empty_smooth = \<lparr>sm_current = [], sm_weights = []\<rparr>"

definition weight_changed :: "(string, int) js_map \<Rightarrow> string \<times> int \<Rightarrow> bool" where
  "weight_changed known p = (case map_of known (fst p) of None \<Rightarrow> False | Some previous \<Rightarrow> previous \<noteq> snd p)"

definition keep_known :: "(string, int) js_map \<Rightarrow> (string, int) js_map \<Rightarrow> (string, int) js_map" where
  "keep_known weights m = filter (\<lambda>p. map_of weights (fst p) \<noteq> None) m"

definition prepare :: "(string, int) js_map \<Rightarrow> smooth_state \<Rightarrow> smooth_state" where
  "prepare weights s =
     (let s1 = (if sm_weights s \<noteq> [] \<and> list_ex (weight_changed (sm_weights s)) weights
                then s\<lparr>sm_current := []\<rparr> else s);
          s2 = s1\<lparr>sm_weights := foldl (\<lambda>m (i, w). AList.update i w m) (sm_weights s1) weights\<rparr>
      in if length (sm_current s2) > max_smooth_state_entries \<or> length (sm_weights s2) > max_smooth_state_entries
         then s2\<lparr>sm_current := keep_known weights (sm_current s2), sm_weights := keep_known weights (sm_weights s2)\<rparr>
         else s2)"

text \<open>\<open>current.get(id) ?? 0\<close>.\<close>

definition credit :: "(string, int) js_map \<Rightarrow> string \<Rightarrow> int" where
  "credit m i = (case map_of m i of None \<Rightarrow> 0 | Some v \<Rightarrow> v)"

text \<open>The loop's variables: the pick so far with its credit, the total of the weights and the credits.\<close>

definition smooth_step ::
  "'a weighted_scheme option \<times> int \<times> int \<times> (string, int) js_map \<Rightarrow> 'a weighted_scheme \<Rightarrow>
   'a weighted_scheme option \<times> int \<times> int \<times> (string, int) js_map" where
  "smooth_step acc cand =
     (case acc of (picked, picked_current, sum_w, current) \<Rightarrow>
        if wt_weight cand \<le> 0 then acc
        else (let nxt = saturating_add (credit current (wt_id cand)) (wt_weight cand);
                  current' = AList.update (wt_id cand) nxt current;
                  sum_w' = saturating_add sum_w (wt_weight cand)
              in if picked = None \<or> nxt > picked_current then (Some cand, nxt, sum_w', current')
                 else (picked, picked_current, sum_w', current')))"

definition pick_smooth_weighted ::
  "('a weighted_scheme) list \<Rightarrow> (string, int) js_map \<Rightarrow> 'a weighted_scheme option \<times> (string, int) js_map" where
  "pick_smooth_weighted candidates current =
     (case foldl smooth_step (None, 0, 0, current) candidates of (picked, _, sum_w, current') \<Rightarrow>
        (case picked of
           None \<Rightarrow> (None, current')
         | Some p \<Rightarrow> (Some p, AList.update (wt_id p) (saturating_add (credit current' (wt_id p)) (- sum_w)) current')))"

subsection \<open>Rotation state\<close>

record rotation_state =
  rt_max_keys :: nat
  rt_last_picked :: "(string, string) js_map"
  rt_weighted :: "(string, smooth_state) js_map"

definition new_rotation :: "int \<Rightarrow> rotation_state" where
  "new_rotation max_keys = \<lparr>rt_max_keys = nat (if max_keys > 0 then max_keys else default_max_keys),
     rt_last_picked = [], rt_weighted = []\<rparr>"

definition round_robin ::
  "string \<Rightarrow> ('a weighted_scheme) list \<Rightarrow> rotation_state \<Rightarrow> 'a weighted_scheme option \<times> rotation_state" where
  "round_robin key candidates rt =
     (if candidates = [] then (None, rt)
      else (let lp = (if map_of (rt_last_picked rt) key = None \<and> length (rt_last_picked rt) \<ge> rt_max_keys rt
                      then [] else rt_last_picked rt);
                i = successor_index candidates (map_of lp key)
            in if i < length candidates
               then (Some (candidates ! i), rt\<lparr>rt_last_picked := AList.update key (wt_id (candidates ! i)) lp\<rparr>)
               else (None, rt\<lparr>rt_last_picked := lp\<rparr>)))"

definition fill_first :: "'a list \<Rightarrow> 'a option" where
  "fill_first candidates = (case candidates of [] \<Rightarrow> None | c # _ \<Rightarrow> Some c)"

definition positive_weights :: "('a weighted_scheme) list \<Rightarrow> (string, int) js_map" where
  "positive_weights candidates =
     foldl (\<lambda>m cand. if wt_weight cand > 0 then AList.update (wt_id cand) (wt_weight cand) m else m) [] candidates"

definition weighted_round_robin ::
  "string \<Rightarrow> ('a weighted_scheme) list \<Rightarrow> rotation_state \<Rightarrow> 'a weighted_scheme option \<times> rotation_state" where
  "weighted_round_robin key candidates rt =
     (let tracked = (if map_of (rt_weighted rt) key = None \<and> length (rt_weighted rt) \<ge> rt_max_keys rt
                     then [] else rt_weighted rt);
          s = prepare (positive_weights candidates) (case map_of tracked key of None \<Rightarrow> empty_smooth | Some s \<Rightarrow> s);
          (picked, current) = pick_smooth_weighted candidates (sm_current s)
      in (picked, rt\<lparr>rt_weighted := AList.update key (s\<lparr>sm_current := current\<rparr>) tracked\<rparr>))"

definition cursor_keys :: "rotation_state \<Rightarrow> nat" where
  "cursor_keys rt = length (rt_last_picked rt)"

subsection \<open>The cursor is the first greater id\<close>

lemma successor_loop_spec:
  assumes "sorted ids" "low \<le> high" "high \<le> length ids"
    and "\<forall>i < low. ids ! i \<le> lst" "\<forall>i. high \<le> i \<and> i < length ids \<longrightarrow> lst < ids ! i"
  shows "successor_loop ids lst low high = length (takeWhile (\<lambda>i. i \<le> lst) ids)"
  using assms
proof (induction ids lst low high rule: successor_loop.induct)
  case (1 ids lst low high)
  show ?case
  proof (cases "low < high")
    case True
    let ?mid = "(low + high) div 2"
    have mid: "low \<le> ?mid" "?mid < high" "?mid < length ids" using True "1.prems"(3) by auto
    have key: "(if ?mid < length ids then ids ! ?mid else []) = ids ! ?mid" using mid by simp
    show ?thesis
    proof (cases "ids ! ?mid > lst")
      case gt: True
      have above: "\<forall>i. ?mid \<le> i \<and> i < length ids \<longrightarrow> lst < ids ! i"
      proof (intro allI impI)
        fix i assume "?mid \<le> i \<and> i < length ids"
        then have "ids ! ?mid \<le> ids ! i" using sorted_nth_mono [OF "1.prems"(1)] by simp
        with gt show "lst < ids ! i" by (rule less_le_trans)
      qed
      have gt': "lst < (if ?mid < length ids then ids ! ?mid else [])" unfolding key by (rule gt)
      have "successor_loop ids lst low ?mid = length (takeWhile (\<lambda>i. i \<le> lst) ids)"
        by (rule "1.IH"(1) [OF True refl gt' "1.prems"(1) mid(1) less_imp_le [OF mid(3)] "1.prems"(4) above])
      then show ?thesis using True gt' by (subst successor_loop.simps) (simp add: Let_def)
    next
      case le: False
      have below: "\<forall>i < ?mid + 1. ids ! i \<le> lst"
      proof (intro allI impI)
        fix i assume "i < ?mid + 1"
        then have "ids ! i \<le> ids ! ?mid" using sorted_nth_mono [OF "1.prems"(1) _ mid(3)] by simp
        with le show "ids ! i \<le> lst" by (simp add: not_less)
      qed
      have le': "\<not> lst < (if ?mid < length ids then ids ! ?mid else [])" unfolding key by (rule le)
      have "successor_loop ids lst (?mid + 1) high = length (takeWhile (\<lambda>i. i \<le> lst) ids)"
        using mid by (intro "1.IH"(2) [OF True refl le' "1.prems"(1) _ "1.prems"(3) below "1.prems"(5)]) simp
      then show ?thesis using True le' by (subst successor_loop.simps) (simp add: Let_def)
    qed
  next
    case False
    then have eq: "low = high" using "1.prems"(2) by simp
    have "takeWhile (\<lambda>i. i \<le> lst) ids = take low ids"
    proof (rule takeWhile_eq_take_P_nth)
      show "ids ! i \<le> lst" if "i < low" "i < length ids" for i using "1.prems"(4) that by simp
      show "\<not> ids ! low \<le> lst" if "low < length ids" using "1.prems"(5) eq that by (simp add: not_le)
    qed
    then show ?thesis using "1.prems"(3) eq by (simp add: successor_loop.simps)
  qed
qed

lemma successor_index_spec:
  assumes "sorted (map wt_id candidates)" "l \<noteq> []"
  shows "successor_index candidates (Some l) =
    (let i = length (takeWhile (\<lambda>c. wt_id c \<le> l) candidates) in if i = length candidates then 0 else i)"
proof -
  have "successor_loop (map wt_id candidates) l 0 (length candidates) =
      length (takeWhile (\<lambda>i. i \<le> l) (map wt_id candidates))"
    using assms(1) by (intro successor_loop_spec) auto
  also have "\<dots> = length (takeWhile (\<lambda>c. wt_id c \<le> l) candidates)" by (simp add: takeWhile_map comp_def)
  finally show ?thesis
    using assms(2) length_takeWhile_le [of "\<lambda>c. wt_id c \<le> l" candidates]
    by (auto simp: successor_index_def Let_def)
qed

subsection \<open>Round-robin visits every candidate in turn\<close>

fun round_robin_run ::
  "nat \<Rightarrow> string \<Rightarrow> ('a weighted_scheme) list \<Rightarrow> rotation_state \<Rightarrow> ('a weighted_scheme option) list \<times> rotation_state" where
  "round_robin_run 0 key candidates rt = ([], rt)"
| "round_robin_run (Suc n) key candidates rt =
     (let (p, rt') = round_robin key candidates rt; (ps, rt'') = round_robin_run n key candidates rt' in (p # ps, rt''))"

definition ring_ok :: "('a weighted_scheme) list \<Rightarrow> bool" where
  "ring_ok candidates \<longleftrightarrow> sorted (map wt_id candidates) \<and> distinct (map wt_id candidates) \<and> [] \<notin> set (map wt_id candidates)"

lemma successor_of_nth:
  assumes "ring_ok candidates" "i < length candidates"
  shows "successor_index candidates (Some (wt_id (candidates ! i))) = Suc i mod length candidates"
proof -
  let ?P = "\<lambda>c. wt_id c \<le> wt_id (candidates ! i)"
  have sd: "sorted (map wt_id candidates)" "distinct (map wt_id candidates)" using assms(1) by (simp_all add: ring_ok_def)
  have ne: "wt_id (candidates ! i) \<noteq> []"
  proof
    assume e: "wt_id (candidates ! i) = []"
    have "wt_id (candidates ! i) \<in> set (map wt_id candidates)" using assms(2) by simp
    then show False using assms(1) unfolding e ring_ok_def by blast
  qed
  have "takeWhile ?P candidates = take (Suc i) candidates"
  proof (rule takeWhile_eq_take_P_nth)
    show "?P (candidates ! j)" if "j < Suc i" "j < length candidates" for j
      using sorted_nth_mono [OF sd(1), of j i] that assms(2) by simp
    show "\<not> ?P (candidates ! Suc i)" if l: "Suc i < length candidates"
    proof -
      have "wt_id (candidates ! i) \<le> wt_id (candidates ! Suc i)"
        using sorted_nth_mono [OF sd(1), of i "Suc i"] l by simp
      moreover have "wt_id (candidates ! i) \<noteq> wt_id (candidates ! Suc i)"
        using nth_eq_iff_index_eq [OF sd(2), of i "Suc i"] l by simp
      ultimately show ?thesis by simp
    qed
  qed
  then show ?thesis using assms(2) successor_index_spec [OF sd(1) ne] by (auto simp: Let_def mod_if)
qed

lemma round_robin_step:
  assumes "ring_ok candidates" "i < length candidates"
    "successor_index candidates (map_of (rt_last_picked rt) key) = i"
  shows "\<exists>rt'. round_robin key candidates rt = (Some (candidates ! i), rt') \<and>
    map_of (rt_last_picked rt') key = Some (wt_id (candidates ! i))"
proof -
  let ?lp = "if map_of (rt_last_picked rt) key = None \<and> length (rt_last_picked rt) \<ge> rt_max_keys rt then []
    else rt_last_picked rt"
  have "map_of ?lp key = map_of (rt_last_picked rt) key" by simp
  then have i: "successor_index candidates (map_of ?lp key) = i" using assms(3) by simp
  have "candidates \<noteq> []" using assms(2) by auto
  then show ?thesis using assms(2) i by (simp add: round_robin_def Let_def update_conv' del: split_paired_Ex)
qed

lemma round_robin_run_from:
  assumes "ring_ok candidates" "i < length candidates"
    "successor_index candidates (map_of (rt_last_picked rt) key) = i"
  shows "fst (round_robin_run n key candidates rt) = map (\<lambda>j. Some (candidates ! ((i + j) mod length candidates))) [0..<n]"
  using assms(2,3)
proof (induction n arbitrary: i rt)
  case (Suc n)
  obtain rt' where rt': "round_robin key candidates rt = (Some (candidates ! i), rt')"
    "map_of (rt_last_picked rt') key = Some (wt_id (candidates ! i))"
    using round_robin_step [OF assms(1) Suc.prems] by blast
  have nxt: "successor_index candidates (map_of (rt_last_picked rt') key) = Suc i mod length candidates"
    using successor_of_nth [OF assms(1) Suc.prems(1)] rt'(2) by simp
  have "Suc i mod length candidates < length candidates" using Suc.prems(1) by (intro mod_less_divisor) linarith
  note IH = Suc.IH [OF this nxt]
  have "[0..<Suc n] = 0 # map Suc [0..<n]" by (simp add: upt_conv_Cons map_Suc_upt)
  then show ?case using IH Suc.prems(1) rt'(1) by (simp add: Let_def case_prod_beta mod_simps comp_def)
qed simp

subsection \<open>The cursor maps are bounded\<close>

definition rotation_bounded :: "rotation_state \<Rightarrow> bool" where
  "rotation_bounded rt \<longleftrightarrow> 0 < rt_max_keys rt \<and> distinct_keys (rt_last_picked rt) \<and> distinct_keys (rt_weighted rt) \<and>
     length (rt_last_picked rt) \<le> rt_max_keys rt \<and> length (rt_weighted rt) \<le> rt_max_keys rt"

lemma length_update:
  "length (AList.update k v m) = (if map_of m k = None then Suc (length m) else length m)"
proof -
  have "length (AList.update k v m) = length (map fst (AList.update k v m))" by simp
  also have "\<dots> = (if k \<in> set (map fst m) then length m else Suc (length m))" by (simp only: update_keys) simp
  finally show ?thesis by (auto simp: map_of_eq_None_iff)
qed

lemma bounded_update:
  fixes k :: 'k and v :: 'v
  assumes "length m \<le> n" "0 < n" "distinct_keys m"
  defines "m' \<equiv> (if map_of m k = None \<and> length m \<ge> n then [] else m)"
  shows "length (AList.update k v m') \<le> n \<and> distinct_keys (AList.update k v m') \<and> length m' \<le> n \<and> distinct_keys m'"
  using assms by (auto simp: length_update)

lemma round_robin_bounded: "rotation_bounded rt \<Longrightarrow> rotation_bounded (snd (round_robin key candidates rt))"
  using bounded_update [of "rt_last_picked rt" "rt_max_keys rt" key]
  by (simp add: rotation_bounded_def round_robin_def Let_def del: One_nat_def)

lemma weighted_round_robin_bounded:
  "rotation_bounded rt \<Longrightarrow> rotation_bounded (snd (weighted_round_robin key candidates rt))"
  using bounded_update [of "rt_weighted rt" "rt_max_keys rt" key]
  by (simp add: rotation_bounded_def weighted_round_robin_def Let_def case_prod_beta)

lemma new_rotation_bounded: "rotation_bounded (new_rotation n)"
  by (simp add: rotation_bounded_def new_rotation_def default_max_keys_def)

subsection \<open>Smooth weighted round-robin is exact over a period\<close>

text \<open>
  The candidates of one key, \<open>W\<close> their total weight: credits stay above \<open>-W\<close> and sum to zero, so that \<open>W\<close> picks
  serve each candidate exactly as often as its weight says. Nothing saturates while the candidates' number times \<open>W\<close>
  is a safe integer.
\<close>

definition total_weight :: "('a weighted_scheme) list \<Rightarrow> int" where
  "total_weight candidates = (\<Sum>c \<leftarrow> candidates. wt_weight c)"

definition weights_ok :: "('a weighted_scheme) list \<Rightarrow> bool" where
  "weights_ok candidates \<longleftrightarrow> candidates \<noteq> [] \<and> distinct (map wt_id candidates) \<and> (\<forall>c \<in> set candidates. 0 < wt_weight c) \<and>
     int (length candidates + 1) * total_weight candidates \<le> max_safe"

lemma credit_update [simp]: "credit (AList.update i v m) j = (if j = i then v else credit m j)"
  by (simp add: credit_def update_conv')

lemma credit_empty [simp]: "credit [] i = 0"
  by (simp add: credit_def)

lemma saturating_exact: "- max_safe \<le> v + d \<Longrightarrow> v + d \<le> max_safe \<Longrightarrow> saturating_add v d = v + d"
  by (auto simp: saturating_add_def)

lemma total_weight_nonneg: "\<forall>c \<in> set cs. 0 < wt_weight c \<Longrightarrow> 0 \<le> total_weight cs"
  by (induction cs) (auto simp: total_weight_def)

lemma sum_absent: "j \<notin> wt_id ` set cs \<Longrightarrow> (\<Sum>c \<leftarrow> cs. if wt_id c = j then wt_weight c else 0) = 0"
  by (induction cs) auto

text \<open>What one pick does to the credits, when nothing saturates.\<close>

lemma smooth_fold:
  assumes "distinct (map wt_id (done @ rest))" "\<forall>c \<in> set (done @ rest). 0 < wt_weight c" "done \<noteq> []"
    and "\<forall>c \<in> set (done @ rest). credit start (wt_id c) + wt_weight c \<le> max_safe \<and> - max_safe \<le> credit start (wt_id c)"
    and "total_weight (done @ rest) \<le> max_safe"
    and "p \<in> set done" "\<forall>c \<in> set done. credit start (wt_id c) + wt_weight c \<le> credit start (wt_id p) + wt_weight p"
    and "\<forall>j. credit current j = credit start j + (\<Sum>c \<leftarrow> done. if wt_id c = j then wt_weight c else 0)"
  shows "\<exists>q current'. foldl smooth_step (Some p, credit start (wt_id p) + wt_weight p, total_weight done, current) rest =
      (Some q, credit start (wt_id q) + wt_weight q, total_weight (done @ rest), current') \<and> q \<in> set (done @ rest) \<and>
    (\<forall>c \<in> set (done @ rest). credit start (wt_id c) + wt_weight c \<le> credit start (wt_id q) + wt_weight q) \<and>
    (\<forall>j. credit current' j = credit start j + (\<Sum>c \<leftarrow> done @ rest. if wt_id c = j then wt_weight c else 0))"
  using assms
proof (induction rest arbitrary: "done" p current)
  case Nil
  then show ?case by auto
next
  case (Cons c rest)
  have "(\<Sum>d \<leftarrow> done. if wt_id d = wt_id c then wt_weight d else 0) = 0"
    using Cons.prems(1) by (intro sum_absent) auto
  then have cc: "credit current (wt_id c) = credit start (wt_id c)" using Cons.prems(8) by simp
  have pos: "0 < wt_weight c" using Cons.prems(2) by simp
  have "saturating_add (credit start (wt_id c)) (wt_weight c) = credit start (wt_id c) + wt_weight c"
    using Cons.prems(4) pos by (intro saturating_exact) auto
  note sat = this
  have nonneg: "0 \<le> total_weight done" "0 \<le> total_weight rest"
    using Cons.prems(2) by (auto intro!: total_weight_nonneg)
  have "saturating_add (total_weight done) (wt_weight c) = total_weight done + wt_weight c"
    using Cons.prems(5) nonneg pos by (intro saturating_exact) (auto simp: total_weight_def max_safe_def)
  also have "\<dots> = total_weight (done @ [c])" by (simp add: total_weight_def)
  finally have tot: "saturating_add (total_weight done) (wt_weight c) = total_weight (done @ [c])" .
  define current' where "current' = AList.update (wt_id c) (credit start (wt_id c) + wt_weight c) current"
  have cur': "\<forall>j. credit current' j = credit start j + (\<Sum>d \<leftarrow> done @ [c]. if wt_id d = j then wt_weight d else 0)"
    using Cons.prems(8) cc by (auto simp: current'_def)
  define q where "q = (if credit start (wt_id c) + wt_weight c > credit start (wt_id p) + wt_weight p then c else p)"
  have step: "smooth_step (Some p, credit start (wt_id p) + wt_weight p, total_weight done, current) c =
      (Some q, credit start (wt_id q) + wt_weight q, total_weight (done @ [c]), current')"
    using pos sat tot cc by (simp add: smooth_step_def Let_def q_def current'_def)
  have q: "q \<in> set (done @ [c])"
    "\<forall>d \<in> set (done @ [c]). credit start (wt_id d) + wt_weight d \<le> credit start (wt_id q) + wt_weight q"
    using Cons.prems(6,7) by (auto simp: q_def)
  have "\<exists>q' current''. foldl smooth_step (Some q, credit start (wt_id q) + wt_weight q, total_weight (done @ [c]), current') rest =
      (Some q', credit start (wt_id q') + wt_weight q', total_weight ((done @ [c]) @ rest), current'') \<and> q' \<in> set ((done @ [c]) @ rest) \<and>
    (\<forall>d \<in> set ((done @ [c]) @ rest). credit start (wt_id d) + wt_weight d \<le> credit start (wt_id q') + wt_weight q') \<and>
    (\<forall>j. credit current'' j = credit start j + (\<Sum>d \<leftarrow> (done @ [c]) @ rest. if wt_id d = j then wt_weight d else 0))"
    using Cons.prems(1-5) q cur' by (intro Cons.IH) auto
  then show ?case using step by simp
qed

lemma pick_exact:
  assumes "distinct (map wt_id cs)" "\<forall>c \<in> set cs. 0 < wt_weight c" "cs \<noteq> []"
    and "\<forall>c \<in> set cs. credit m (wt_id c) + wt_weight c \<le> max_safe \<and> - max_safe \<le> credit m (wt_id c)"
    and "total_weight cs \<le> max_safe"
    and "\<forall>c \<in> set cs. total_weight cs - max_safe \<le> credit m (wt_id c)"
  shows "\<exists>q m'. pick_smooth_weighted cs m = (Some q, m') \<and> q \<in> set cs \<and>
    (\<forall>c \<in> set cs. credit m (wt_id c) + wt_weight c \<le> credit m (wt_id q) + wt_weight q) \<and>
    (\<forall>j. credit m' j = credit m j + (\<Sum>c \<leftarrow> cs. if wt_id c = j then wt_weight c else 0) -
       (if j = wt_id q then total_weight cs else 0))"
proof -
  obtain c rest where cs: "cs = [c] @ rest" using assms(3) by (cases cs) auto
  have pos: "0 < wt_weight c" using assms(2) cs by simp
  have "saturating_add (credit m (wt_id c)) (wt_weight c) = credit m (wt_id c) + wt_weight c"
    using assms(4) pos cs by (intro saturating_exact) auto
  moreover have "saturating_add 0 (wt_weight c) = wt_weight c"
    using assms(2,5) pos total_weight_nonneg [of rest] cs
    by (intro trans [OF saturating_exact]) (auto simp: total_weight_def max_safe_def)
  ultimately have first: "smooth_step (None, 0, 0, m) c =
      (Some c, credit m (wt_id c) + wt_weight c, total_weight [c], AList.update (wt_id c) (credit m (wt_id c) + wt_weight c) m)"
    using pos by (simp add: smooth_step_def Let_def total_weight_def)
  have "\<exists>q current'. foldl smooth_step (Some c, credit m (wt_id c) + wt_weight c, total_weight [c],
        AList.update (wt_id c) (credit m (wt_id c) + wt_weight c) m) rest =
      (Some q, credit m (wt_id q) + wt_weight q, total_weight ([c] @ rest), current') \<and> q \<in> set ([c] @ rest) \<and>
    (\<forall>c \<in> set ([c] @ rest). credit m (wt_id c) + wt_weight c \<le> credit m (wt_id q) + wt_weight q) \<and>
    (\<forall>j. credit current' j = credit m j + (\<Sum>c \<leftarrow> [c] @ rest. if wt_id c = j then wt_weight c else 0))"
    using assms(1,2,4,5) cs by (intro smooth_fold) auto
  then obtain q current' where f: "foldl smooth_step (None, 0, 0, m) cs =
      (Some q, credit m (wt_id q) + wt_weight q, total_weight cs, current')" and q: "q \<in> set cs"
    "\<forall>c \<in> set cs. credit m (wt_id c) + wt_weight c \<le> credit m (wt_id q) + wt_weight q"
    and cur: "\<forall>j. credit current' j = credit m j + (\<Sum>c \<leftarrow> cs. if wt_id c = j then wt_weight c else 0)"
    using first cs by auto
  let ?m' = "AList.update (wt_id q) (saturating_add (credit current' (wt_id q)) (- total_weight cs)) current'"
  have "\<forall>c \<in> set cs. 0 \<le> (if wt_id c = wt_id q then wt_weight c else 0)" using assms(2) by auto
  then have "0 \<le> (\<Sum>c \<leftarrow> cs. if wt_id c = wt_id q then wt_weight c else 0)" by (intro sum_list_nonneg) auto
  moreover have "(\<Sum>c \<leftarrow> cs. if wt_id c = wt_id q then wt_weight c else 0) = wt_weight q"
    using assms(1) q(1)
  proof (induction cs)
    case (Cons a cs)
    then show ?case using sum_absent [of "wt_id a" cs] by (cases "a = q") auto
  qed simp
  ultimately have cq: "credit current' (wt_id q) = credit m (wt_id q) + wt_weight q" using cur by simp
  have "total_weight cs - max_safe \<le> credit m (wt_id q)" "credit m (wt_id q) + wt_weight q \<le> max_safe" "0 < wt_weight q"
    using assms(2,4,6) q(1) by auto
  then have "saturating_add (credit current' (wt_id q)) (- total_weight cs) = credit current' (wt_id q) + - total_weight cs"
    unfolding cq using total_weight_nonneg [OF assms(2)] by (intro saturating_exact) auto
  then have "\<forall>j. credit ?m' j = credit m j + (\<Sum>c \<leftarrow> cs. if wt_id c = j then wt_weight c else 0) -
       (if j = wt_id q then total_weight cs else 0)" using cur by auto
  moreover have "pick_smooth_weighted cs m = (Some q, ?m')" by (simp add: pick_smooth_weighted_def f)
  ultimately show ?thesis using q by blast
qed

text \<open>The credits of a running rotation: above \<open>-W\<close>, and balanced.\<close>

definition credits_ok :: "('a weighted_scheme) list \<Rightarrow> (string, int) js_map \<Rightarrow> bool" where
  "credits_ok cs m \<longleftrightarrow> (\<forall>c \<in> set cs. - total_weight cs < credit m (wt_id c)) \<and> (\<Sum>c \<leftarrow> cs. credit m (wt_id c)) = 0"

lemma sum_upper:
  assumes "\<forall>x \<in> set xs. - W < (f x :: int)" "x \<in> set xs" "0 \<le> W"
  shows "f x \<le> sum_list (map f xs) + int (length xs) * W"
  using assms
proof (induction xs)
  case (Cons a xs)
  have "- (int (length xs) * W) \<le> sum_list (map f xs)" if "\<forall>x \<in> set xs. - W < f x" for xs
    using that
  proof (induction xs)
    case (Cons b xs)
    then show ?case by (simp add: algebra_simps)
  qed simp
  from this [of xs] Cons show ?case by (cases "x = a") (auto simp: algebra_simps)
qed simp

lemma credit_sum:
  assumes "distinct (map wt_id cs)" "\<forall>c \<in> set cs. credit m' (wt_id c) = credit m (wt_id c) + wt_weight c - (if wt_id c = wt_id q then W else 0)"
    and "q \<in> set cs"
  shows "(\<Sum>c \<leftarrow> cs. credit m' (wt_id c)) = (\<Sum>c \<leftarrow> cs. credit m (wt_id c)) + total_weight cs - W"
proof -
  have absent: "(\<Sum>c \<leftarrow> cs. credit m' (wt_id c)) = (\<Sum>c \<leftarrow> cs. credit m (wt_id c)) + total_weight cs"
    if "\<forall>c \<in> set cs. credit m' (wt_id c) = credit m (wt_id c) + wt_weight c - (if wt_id c = wt_id q then W else 0)"
      "wt_id q \<notin> wt_id ` set cs" for cs
    using that by (induction cs) (auto simp: total_weight_def)
  show ?thesis using assms
  proof (induction cs)
    case (Cons a cs)
    show ?case
    proof (cases "a = q")
      case True
      then show ?thesis using Cons.prems absent [of cs] by (auto simp: total_weight_def)
    next
      case False
      then have "q \<in> set cs" using Cons.prems by simp
      then show ?thesis using Cons False by (force simp: total_weight_def)
    qed
  qed simp
qed

lemma id_eq: "distinct (map wt_id cs) \<Longrightarrow> c \<in> set cs \<Longrightarrow> q \<in> set cs \<Longrightarrow> wt_id c = wt_id q \<longleftrightarrow> c = q"
  by (auto simp: distinct_map inj_on_def)

lemma credits_step:
  assumes "weights_ok cs" "credits_ok cs m"
  shows "\<exists>q m'. pick_smooth_weighted cs m = (Some q, m') \<and> q \<in> set cs \<and> credits_ok cs m' \<and>
    (\<forall>c \<in> set cs. credit m' (wt_id c) = credit m (wt_id c) + wt_weight c - (if wt_id c = wt_id q then total_weight cs else 0))"
proof -
  let ?W = "total_weight cs"
  have d: "distinct (map wt_id cs)" and pos: "\<forall>c \<in> set cs. 0 < wt_weight c" and ne: "cs \<noteq> []"
    and safe: "int (length cs + 1) * ?W \<le> max_safe" using assms(1) by (auto simp: weights_ok_def)
  have W: "0 \<le> ?W" by (rule total_weight_nonneg [OF pos])
  have le_W: "wt_weight c \<le> ?W" if "c \<in> set cs" for c
    using that pos unfolding total_weight_def by (intro member_le_sum_list) (auto intro: order_less_imp_le)
  have low: "\<forall>c \<in> set cs. - ?W < credit m (wt_id c)" and zero: "(\<Sum>c \<leftarrow> cs. credit m (wt_id c)) = 0"
    using assms(2) by (auto simp: credits_ok_def)
  have up: "credit m (wt_id c) \<le> int (length cs) * ?W" if "c \<in> set cs" for c
    using sum_upper [of cs ?W "\<lambda>c. credit m (wt_id c)"] low zero that W by simp
  have two: "2 * ?W \<le> max_safe"
  proof -
    have "2 * ?W \<le> int (length cs + 1) * ?W" using ne W by (intro mult_right_mono) (cases cs, auto)
    with safe show ?thesis by simp
  qed
  have bounds: "\<forall>c \<in> set cs. credit m (wt_id c) + wt_weight c \<le> max_safe \<and> - max_safe \<le> credit m (wt_id c)"
  proof
    fix c assume c: "c \<in> set cs"
    have "credit m (wt_id c) + wt_weight c \<le> int (length cs) * ?W + ?W" using up [OF c] le_W [OF c] by simp
    also have "\<dots> = int (length cs + 1) * ?W" by (simp add: algebra_simps)
    finally show "credit m (wt_id c) + wt_weight c \<le> max_safe \<and> - max_safe \<le> credit m (wt_id c)"
      using safe low c two W by fastforce
  qed
  have "\<forall>c \<in> set cs. ?W - max_safe \<le> credit m (wt_id c)" using low two by fastforce
  from pick_exact [OF d pos ne bounds _ this] two W obtain q m' where
    p: "pick_smooth_weighted cs m = (Some q, m')" and q: "q \<in> set cs"
      "\<forall>c \<in> set cs. credit m (wt_id c) + wt_weight c \<le> credit m (wt_id q) + wt_weight q"
    and m': "\<forall>j. credit m' j = credit m j + (\<Sum>c \<leftarrow> cs. if wt_id c = j then wt_weight c else 0) - (if j = wt_id q then ?W else 0)"
    by force
  have own: "(\<Sum>d \<leftarrow> cs. if wt_id d = wt_id c then wt_weight d else 0) = wt_weight c" if "c \<in> set cs" for c
    using d that
  proof (induction cs)
    case (Cons a cs)
    then show ?case using sum_absent [of "wt_id a" cs] by (cases "a = c") auto
  qed simp
  have eq: "\<forall>c \<in> set cs. credit m' (wt_id c) = credit m (wt_id c) + wt_weight c - (if wt_id c = wt_id q then ?W else 0)"
    using m' own by simp
  have "(\<Sum>c \<leftarrow> cs. credit m' (wt_id c)) = 0" using credit_sum [OF d eq q(1)] zero by simp
  moreover have "0 < credit m (wt_id q) + wt_weight q"
  proof (rule ccontr)
    assume "\<not> ?thesis"
    then have "\<forall>c \<in> set cs. credit m (wt_id c) + wt_weight c \<le> 0" using q(2) by force
    then have "(\<Sum>c \<leftarrow> cs. credit m (wt_id c) + wt_weight c) \<le> 0" by (intro sum_list_nonpos) auto
    moreover have "(\<Sum>c \<leftarrow> cs. credit m (wt_id c) + wt_weight c) = ?W" using zero by (simp add: sum_list_addf total_weight_def)
    moreover have "0 < ?W" using le_W [OF q(1)] pos q(1) by force
    ultimately show False by simp
  qed
  then have "- ?W < credit m' (wt_id c)" if "c \<in> set cs" for c
    using eq bspec [OF low that] bspec [OF pos that] that id_eq [OF d that q(1)] by (cases "c = q") simp_all
  ultimately show ?thesis using p q(1) eq by (auto simp: credits_ok_def)
qed

fun smooth_run :: "nat \<Rightarrow> ('a weighted_scheme) list \<Rightarrow> (string, int) js_map \<Rightarrow> ('a weighted_scheme option) list \<times> (string, int) js_map" where
  "smooth_run 0 cs m = ([], m)"
| "smooth_run (Suc n) cs m =
     (let (p, m') = pick_smooth_weighted cs m; (ps, m'') = smooth_run n cs m' in (p # ps, m''))"

definition picks_of :: "'a weighted_scheme \<Rightarrow> ('a weighted_scheme option) list \<Rightarrow> int" where
  "picks_of c ps = int (length (filter (\<lambda>p. p = Some c) ps))"

lemma smooth_run_credits:
  assumes "weights_ok cs" "credits_ok cs m"
  shows "credits_ok cs (snd (smooth_run n cs m)) \<and> length (fst (smooth_run n cs m)) = n \<and>
    set (fst (smooth_run n cs m)) \<subseteq> Some ` set cs \<and>
    (\<forall>c \<in> set cs. credit (snd (smooth_run n cs m)) (wt_id c) =
       credit m (wt_id c) + int n * wt_weight c - total_weight cs * picks_of c (fst (smooth_run n cs m)))"
  using assms(2)
proof (induction n arbitrary: m)
  case 0
  then show ?case by (simp add: picks_of_def)
next
  case (Suc n)
  obtain q m' where q: "pick_smooth_weighted cs m = (Some q, m')" "q \<in> set cs" "credits_ok cs m'"
    "\<forall>c \<in> set cs. credit m' (wt_id c) = credit m (wt_id c) + wt_weight c - (if wt_id c = wt_id q then total_weight cs else 0)"
    using credits_step [OF assms(1) Suc.prems] by blast
  obtain ps m'' where r: "smooth_run n cs m' = (ps, m'')" by force
  have "\<forall>c \<in> set cs. credit m'' (wt_id c) = credit m' (wt_id c) + int n * wt_weight c - total_weight cs * picks_of c ps"
    "credits_ok cs m''" "length ps = n" "set ps \<subseteq> Some ` set cs" using Suc.IH [OF q(3)] r by auto
  moreover have "wt_id c = wt_id q \<longleftrightarrow> c = q" if "c \<in> set cs" for c
    using id_eq [of cs c q] assms(1) that q(2) by (simp add: weights_ok_def)
  ultimately show ?case using q r by (auto simp: picks_of_def algebra_simps)
qed

lemma sum_indicator: "distinct cs \<Longrightarrow> (\<Sum>c \<leftarrow> cs. if c = c0 then 1 else (0::int)) = (if c0 \<in> set cs then 1 else 0)"
  by (induction cs) auto

lemma count_partition:
  assumes "distinct cs" "set ps \<subseteq> Some ` set cs"
  shows "(\<Sum>c \<leftarrow> cs. picks_of c ps) = int (length ps)"
  using assms(2)
proof (induction ps)
  case Nil
  then show ?case by (simp add: picks_of_def)
next
  case (Cons p ps)
  then obtain c0 where p: "p = Some c0" "c0 \<in> set cs" by auto
  have "(\<Sum>c \<leftarrow> cs. picks_of c (p # ps)) = (\<Sum>c \<leftarrow> cs. picks_of c ps + (if c = c0 then 1 else 0))"
    by (intro arg_cong [where f = sum_list] map_cong) (auto simp: picks_of_def p)
  also have "\<dots> = (\<Sum>c \<leftarrow> cs. picks_of c ps) + (\<Sum>c \<leftarrow> cs. if c = c0 then 1 else 0)" by (simp add: sum_list_addf)
  also have "(\<Sum>c \<leftarrow> cs. if c = c0 then 1 else (0::int)) = 1"
    using assms(1) p(2) sum_indicator [of cs c0] by simp
  finally show ?case using Cons by simp
qed

lemma smooth_run_exact:
  assumes "weights_ok cs" "credits_ok cs m" "\<forall>c \<in> set cs. credit m (wt_id c) = 0" "c \<in> set cs"
  shows "picks_of c (fst (smooth_run (nat (total_weight cs)) cs m)) = wt_weight c"
proof -
  let ?W = "total_weight cs"
  let ?n = "nat ?W"
  let ?ps = "fst (smooth_run ?n cs m)"
  let ?m = "snd (smooth_run ?n cs m)"
  have d: "distinct (map wt_id cs)" and pos: "\<forall>c \<in> set cs. 0 < wt_weight c" using assms(1) by (auto simp: weights_ok_def)
  have W: "0 \<le> ?W" by (rule total_weight_nonneg [OF pos])
  note run = smooth_run_credits [OF assms(1,2), of ?n]
  have le: "picks_of x ?ps \<le> wt_weight x" if "x \<in> set cs" for x
  proof -
    have "- ?W < credit ?m (wt_id x)" using run that by (auto simp: credits_ok_def)
    moreover have "credit ?m (wt_id x) = ?W * wt_weight x - ?W * picks_of x ?ps" using run assms(3) that W by simp
    ultimately have "?W * picks_of x ?ps < ?W * (wt_weight x + 1)" by (simp add: algebra_simps)
    then show ?thesis using W by (simp add: mult_less_cancel_left)
  qed
  have "distinct cs" using d by (simp add: distinct_map)
  then have "(\<Sum>c \<leftarrow> cs. picks_of c ?ps) = int ?n" using count_partition [of cs ?ps] run by simp
  then have sum: "(\<Sum>c \<leftarrow> cs. wt_weight c - picks_of c ?ps) = 0"
    using W by (simp add: sum_list_subtractf total_weight_def)
  have "wt_weight c - picks_of c ?ps = 0"
  proof -
    have nn: "0 \<le> v" if "v \<in> set (map (\<lambda>c. wt_weight c - picks_of c ?ps) cs)" for v using that le by auto
    have "\<forall>v \<in> set (map (\<lambda>c. wt_weight c - picks_of c ?ps) cs). v = 0"
      using sum sum_list_nonneg_eq_0_iff [of "map (\<lambda>c. wt_weight c - picks_of c ?ps) cs", OF nn] by simp
    then show ?thesis using assms(4) by auto
  qed
  then show ?thesis by simp
qed

subsection \<open>The rotation keeps its credits\<close>

definition ids_weights :: "('a weighted_scheme) list \<Rightarrow> (string, int) js_map" where
  "ids_weights cs = map (\<lambda>c. (wt_id c, wt_weight c)) cs"

lemma update_absent: "k \<notin> fst ` set m \<Longrightarrow> AList.update k v m = m @ [(k, v)]"
  by (induction m) auto

lemma positive_weights_eq:
  assumes "distinct (map wt_id cs)" "\<forall>c \<in> set cs. 0 < wt_weight c"
  shows "positive_weights cs = ids_weights cs"
proof -
  have "foldl (\<lambda>m cand. if wt_weight cand > 0 then AList.update (wt_id cand) (wt_weight cand) m else m) m cs = m @ ids_weights cs"
    if "distinct (map fst m @ map wt_id cs)" for m
    using that assms(2)
  proof (induction cs arbitrary: m)
    case (Cons c cs)
    have "wt_id c \<notin> fst ` set m" using Cons.prems(1) by auto
    then show ?case using Cons update_absent [of "wt_id c" m] by (simp add: ids_weights_def)
  qed (simp add: ids_weights_def)
  from this [of "[]"] assms(1) show ?thesis by (simp add: positive_weights_def)
qed

lemma update_present: "map_of m k = Some v \<Longrightarrow> AList.update k v m = m"
  by (induction m) (auto split: if_splits)

lemma prepare_synced:
  assumes "distinct_keys ws" "sm_weights s = ws" "\<forall>p \<in> set (sm_current s). map_of ws (fst p) \<noteq> None"
  shows "prepare ws s = s"
proof -
  have present: "map_of ws (fst p) = Some (snd p)" if "p \<in> set ws" for p
    using map_of_SomeI [OF assms(1), of "fst p" "snd p"] that by simp
  then have "\<not> list_ex (weight_changed ws) ws" by (auto simp: list_ex_iff weight_changed_def)
  moreover have "foldl (\<lambda>m (i, w). AList.update i w m) ws xs = ws" if "set xs \<subseteq> set ws" for xs
    using that
  proof (induction xs)
    case (Cons x xs)
    have "AList.update (fst x) (snd x) ws = ws" using present [of x] Cons.prems by (intro update_present) simp
    then show ?case using Cons by (cases x) simp
  qed simp
  moreover have "keep_known ws ws = ws" using present by (auto simp: keep_known_def filter_id_conv)
  moreover have "keep_known ws (sm_current s) = sm_current s" using assms(3) by (auto simp: keep_known_def filter_id_conv)
  ultimately show ?thesis using assms(2) by (simp add: prepare_def Let_def)
qed

lemma prepare_empty:
  assumes "distinct_keys ws"
  shows "prepare ws empty_smooth = \<lparr>sm_current = [], sm_weights = ws\<rparr>"
proof -
  have "foldl (\<lambda>m (i, w). AList.update i w m) m xs = m @ xs" if "distinct (map fst m @ map fst xs)" for m xs :: "(string, int) js_map"
    using that
  proof (induction xs arbitrary: m)
    case (Cons x xs)
    have "fst x \<notin> fst ` set m" using Cons.prems by auto
    then show ?case using Cons update_absent [of "fst x" m "snd x"] by (cases x) simp
  qed simp
  from this [of "[]" ws] assms have w: "foldl (\<lambda>m (i, w). AList.update i w m) [] ws = ws" by (simp add: distinct_keys_def)
  have "map_of ws (fst p) \<noteq> None" if "p \<in> set ws" for p using that by (auto simp: map_of_eq_None_iff)
  then have "keep_known ws ws = ws" "keep_known ws [] = []" by (auto simp: keep_known_def filter_id_conv)
  then show ?thesis by (simp add: prepare_def empty_smooth_def w Let_def)
qed

text \<open>A run of weighted picks for one key, and the smooth state it keeps.\<close>

fun weighted_run ::
  "nat \<Rightarrow> string \<Rightarrow> ('a weighted_scheme) list \<Rightarrow> rotation_state \<Rightarrow> ('a weighted_scheme option) list \<times> rotation_state" where
  "weighted_run 0 key candidates rt = ([], rt)"
| "weighted_run (Suc n) key candidates rt =
     (let (p, rt') = weighted_round_robin key candidates rt; (ps, rt'') = weighted_run n key candidates rt' in (p # ps, rt''))"

lemma smooth_step_keys:
  "fst ` set (snd (snd (snd (smooth_step (p, v, t, m) c)))) \<subseteq> fst ` set m \<union> (if 0 < wt_weight c then {wt_id c} else {})"
  by (auto simp: smooth_step_def Let_def dest!: set_update_values)

definition positive_ids :: "('a weighted_scheme) list \<Rightarrow> string set" where
  "positive_ids cs = wt_id ` {c \<in> set cs. 0 < wt_weight c}"

lemma positive_ids_Cons: "positive_ids (c # cs) = (if 0 < wt_weight c then {wt_id c} else {}) \<union> positive_ids cs"
  by (auto simp: positive_ids_def)

lemma fold_keys:
  "foldl smooth_step acc cs = (p', v', t', m') \<Longrightarrow> acc = (p, v, t, m) \<Longrightarrow>
     fst ` set m' \<subseteq> fst ` set m \<union> positive_ids cs \<and>
     (p' = p \<or> (\<exists>c \<in> set cs. 0 < wt_weight c \<and> p' = Some c))"
proof (induction cs arbitrary: acc p v t m)
  case (Cons c cs)
  obtain p1 v1 t1 m1 where st: "smooth_step acc c = (p1, v1, t1, m1)" by (cases "smooth_step acc c") auto
  have keys: "fst ` set m1 \<subseteq> fst ` set m \<union> (if 0 < wt_weight c then {wt_id c} else {})"
    using smooth_step_keys [of p v t m c] st Cons.prems(2) by simp
  have picks: "p1 = p \<or> (0 < wt_weight c \<and> p1 = Some c)"
    using st Cons.prems(2) by (auto simp: smooth_step_def Let_def split: if_splits)
  from Cons.IH [OF _ refl, of p1 v1 t1 m1] Cons.prems(1) st
  have "fst ` set m' \<subseteq> fst ` set m1 \<union> positive_ids cs \<and>
      (p' = p1 \<or> (\<exists>c \<in> set cs. 0 < wt_weight c \<and> p' = Some c))" by simp
  then have sub: "fst ` set m' \<subseteq> fst ` set m1 \<union> positive_ids cs"
    and pick: "p' = p1 \<or> (\<exists>c \<in> set cs. 0 < wt_weight c \<and> p' = Some c)" by blast+
  have "fst ` set m' \<subseteq> fst ` set m \<union> positive_ids (c # cs)"
    using sub keys unfolding positive_ids_Cons by blast
  moreover have "p' = p \<or> (\<exists>d \<in> set (c # cs). 0 < wt_weight d \<and> p' = Some d)" using pick picks by auto
  ultimately show ?case ..
qed simp

lemma sub_chain: "A \<subseteq> insert x B \<Longrightarrow> x \<in> D \<Longrightarrow> B \<subseteq> C \<union> D \<Longrightarrow> A \<subseteq> C \<union> D"
  by blast

lemma pick_keys:
  "pick_smooth_weighted cs m = (p, m') \<Longrightarrow>
     fst ` set m' \<subseteq> fst ` set m \<union> positive_ids cs \<and>
     (\<forall>c. p = Some c \<longrightarrow> c \<in> set cs \<and> 0 < wt_weight c)"
proof -
  assume pk: "pick_smooth_weighted cs m = (p, m')"
  obtain p1 v1 t1 m1 where f: "foldl smooth_step (None, 0, 0, m) cs = (p1, v1, t1, m1)"
    by (cases "foldl smooth_step (None, 0, 0, m) cs") auto
  have keys: "fst ` set m1 \<subseteq> fst ` set m \<union> positive_ids cs"
    and pick: "p1 = None \<or> (\<exists>c \<in> set cs. 0 < wt_weight c \<and> p1 = Some c)" using fold_keys [OF f refl] by blast+
  show ?thesis
  proof (cases p1)
    case None
    then show ?thesis using pk f keys by (auto simp: pick_smooth_weighted_def)
  next
    case (Some c)
    then have c: "c \<in> set cs" "0 < wt_weight c" using pick by auto
    have upd: "fst ` set m' \<subseteq> insert (wt_id c) (fst ` set m1)"
      using pk f Some by (auto simp: pick_smooth_weighted_def dest!: set_update_values)
    have "wt_id c \<in> positive_ids cs" using c by (simp add: positive_ids_def)
    from sub_chain [OF upd this keys] have "fst ` set m' \<subseteq> fst ` set m \<union> positive_ids cs" .
    moreover have "p = Some c" using pk f Some by (simp add: pick_smooth_weighted_def)
    ultimately show ?thesis using c by simp
  qed
qed

definition synced :: "string \<Rightarrow> ('a weighted_scheme) list \<Rightarrow> (string, int) js_map \<Rightarrow> rotation_state \<Rightarrow> bool" where
  "synced key cs m rt \<longleftrightarrow> map_of (rt_weighted rt) key = Some \<lparr>sm_current = m, sm_weights = ids_weights cs\<rparr> \<and>
     fst ` set m \<subseteq> wt_id ` set cs"

lemma ids_weights_known: "i \<in> wt_id ` set cs \<Longrightarrow> map_of (ids_weights cs) i \<noteq> None"
  by (auto simp: ids_weights_def map_of_eq_None_iff image_iff)

lemma ids_weights_distinct: "distinct (map wt_id cs) \<Longrightarrow> distinct_keys (ids_weights cs)"
  by (simp add: distinct_keys_def ids_weights_def comp_def)

lemma weighted_round_robin_synced:
  assumes "weights_ok cs" "synced key cs m rt \<or> (map_of (rt_weighted rt) key = None \<and> m = [])"
    "pick_smooth_weighted cs m = (p, m')"
  shows "fst (weighted_round_robin key cs rt) = p \<and> synced key cs m' (snd (weighted_round_robin key cs rt))"
proof -
  have d: "distinct (map wt_id cs)" and pos: "\<forall>c \<in> set cs. 0 < wt_weight c" using assms(1) by (auto simp: weights_ok_def)
  note pw = positive_weights_eq [OF d pos]
  note dk = ids_weights_distinct [OF d]
  let ?tracked = "if map_of (rt_weighted rt) key = None \<and> length (rt_weighted rt) \<ge> rt_max_keys rt then [] else rt_weighted rt"
  let ?s = "case map_of ?tracked key of None \<Rightarrow> empty_smooth | Some s \<Rightarrow> s"
  have prep: "prepare (ids_weights cs) ?s = \<lparr>sm_current = m, sm_weights = ids_weights cs\<rparr>"
  proof (cases "synced key cs m rt")
    case True
    have "map_of (ids_weights cs) (fst p) \<noteq> None" if "p \<in> set m" for p
      using True that by (intro ids_weights_known) (auto simp: synced_def)
    then show ?thesis using True dk by (simp add: synced_def prepare_synced)
  next
    case False
    then show ?thesis using assms(2) prepare_empty [OF dk] by simp
  qed
  have old: "fst ` set m \<subseteq> wt_id ` set cs" using assms(2) by (auto simp: synced_def)
  have new: "positive_ids cs \<subseteq> wt_id ` set cs" by (auto simp: positive_ids_def)
  have "fst ` set m' \<subseteq> fst ` set m \<union> positive_ids cs" using pick_keys [OF assms(3)] by simp
  from order_trans [OF this Un_least [OF old new]] have keys: "fst ` set m' \<subseteq> wt_id ` set cs" .
  show ?thesis
    using keys by (simp add: weighted_round_robin_def Let_def pw prep assms(3) synced_def update_conv')
qed

lemma weighted_run_smooth:
  assumes "weights_ok cs" "synced key cs m rt \<or> (map_of (rt_weighted rt) key = None \<and> m = [])"
  shows "fst (weighted_run n key cs rt) = fst (smooth_run n cs m)"
  using assms(2)
proof (induction n arbitrary: m rt)
  case (Suc n)
  obtain p m' where p: "pick_smooth_weighted cs m = (p, m')" by force
  from weighted_round_robin_synced [OF assms(1) Suc.prems p]
  obtain rt' where rt': "weighted_round_robin key cs rt = (p, rt')" "synced key cs m' rt'" by (metis prod.collapse fst_conv)
  from Suc.IH [of m' rt'] rt' p show ?case by (simp add: Let_def case_prod_beta)
qed simp

lemma weighted_run_exact:
  assumes "weights_ok cs" "map_of (rt_weighted rt) key = None" "c \<in> set cs"
  shows "picks_of c (fst (weighted_run (nat (total_weight cs)) key cs rt)) = wt_weight c"
proof -
  have z: "\<forall>c \<in> set cs. credit [] (wt_id c) = 0" by simp
  have "0 < total_weight cs"
  proof -
    have "wt_weight c \<le> total_weight cs"
      unfolding total_weight_def using assms by (intro member_le_sum_list) (auto simp: weights_ok_def intro: order_less_imp_le)
    then show ?thesis using assms by (force simp: weights_ok_def)
  qed
  then have ok: "credits_ok cs []" by (simp add: credits_ok_def)
  show ?thesis using weighted_run_smooth [OF assms(1), of key "[]" rt] assms(2) smooth_run_exact [OF assms(1) ok z assms(3)]
    by simp
qed

subsection \<open>Properties\<close>

definition sample_ring :: "weighted list" where
  "sample_ring = [\<lparr>wt_id = ''a'', wt_weight = 2\<rparr>, \<lparr>wt_id = ''b'', wt_weight = 1\<rparr>, \<lparr>wt_id = ''c'', wt_weight = 3\<rparr>]"

text \<open>The binary search for the ring cursor finds what a linear scan would: the first candidate whose id comes after
  the last one picked (candidate or not), and the head again after the end.\<close>

theorem cursor_is_first_greater:
  assumes "sorted (map wt_id candidates)" "l \<noteq> []"
  shows "successor_index candidates (Some l) =
    (if list_ex (\<lambda>c. l < wt_id c) candidates then length (takeWhile (\<lambda>c. wt_id c \<le> l) candidates) else 0)"
proof -
  have "list_ex (\<lambda>c. l < wt_id c) candidates \<longleftrightarrow> length (takeWhile (\<lambda>c. wt_id c \<le> l) candidates) \<noteq> length candidates"
    by (induction candidates) (auto simp: not_le)
  then show ?thesis using successor_index_spec [OF assms] by (simp add: Let_def)
qed

theorem cursor_is_first_greater_witness:
  "successor_index sample_ring (Some ''b'') =
    (if list_ex (\<lambda>c. ''b'' < wt_id c) sample_ring then length (takeWhile (\<lambda>c. wt_id c \<le> ''b'') sample_ring) else 0)"
  by (rule cursor_is_first_greater) (simp_all add: sample_ring_def)

text \<open>Round-robin gives every candidate its turn: over an unchanged candidate list the picks of one key run through
  the ids in order, again and again, whatever other keys do in the same state.\<close>

theorem round_robin_takes_turns:
  assumes "ring_ok candidates" "candidates \<noteq> []" "map_of (rt_last_picked rt) key = None"
  shows "fst (round_robin_run n key candidates rt) = map (\<lambda>j. Some (candidates ! (j mod length candidates))) [0..<n]"
  using round_robin_run_from [of candidates 0 rt key n] assms by (simp add: successor_index_def)

theorem round_robin_takes_turns_witness:
  "fst (round_robin_run 7 ''k'' sample_ring (new_rotation 0)) =
     map (\<lambda>j. Some (sample_ring ! (j mod length sample_ring))) [0..<7]"
  by (rule round_robin_takes_turns) (simp_all add: ring_ok_def sample_ring_def new_rotation_def)

text \<open>Weighted round-robin is exact: of as many picks as the weights add up to, each candidate gets as many as its
  own weight, and no credit is lost to saturation.\<close>

theorem weighted_round_robin_exact:
  assumes "weights_ok candidates" "map_of (rt_weighted rt) key = None" "c \<in> set candidates"
  shows "picks_of c (fst (weighted_run (nat (total_weight candidates)) key candidates rt)) = wt_weight c"
  by (rule weighted_run_exact [OF assms])

theorem weighted_round_robin_exact_witness:
  "picks_of (sample_ring ! 2) (fst (weighted_run (nat (total_weight sample_ring)) ''k'' sample_ring (new_rotation 0))) =
     wt_weight (sample_ring ! 2)"
  by (rule weighted_round_robin_exact) (simp_all add: weights_ok_def sample_ring_def total_weight_def max_safe_def new_rotation_def)

text \<open>The cursors never outgrow their bound, whichever strategy picks under whatever key.\<close>

theorem rotation_stays_bounded:
  assumes "rotation_bounded rt"
  shows "rotation_bounded (snd (round_robin key candidates rt)) \<and>
    rotation_bounded (snd (weighted_round_robin key candidates rt)) \<and>
    cursor_keys (snd (round_robin key candidates rt)) \<le> rt_max_keys rt"
  using round_robin_bounded [OF assms, of key candidates] weighted_round_robin_bounded [OF assms, of key candidates]
  by (simp add: rotation_bounded_def cursor_keys_def round_robin_def Let_def split: if_splits)

theorem rotation_stays_bounded_witness:
  "rotation_bounded (snd (round_robin ''k'' sample_ring (new_rotation 1))) \<and>
   rotation_bounded (snd (weighted_round_robin ''k'' sample_ring (new_rotation 1))) \<and>
   cursor_keys (snd (round_robin ''k'' sample_ring (new_rotation 1))) \<le> rt_max_keys (new_rotation 1)"
  by (rule rotation_stays_bounded) (rule new_rotation_bounded)

end
