(* ===== verification/Affinity.thy ===== *)
theory Affinity
  imports Prelude
begin

text \<open>
  Session affinity (\<open>packages/models/src/credentials/selection/affinity.ts\<close>): the TTL cache from a session's key to the
  credential that served it, in recency order, and what makes a session a subagent's. An operation that may drop an
  expired entry returns the cache.
\<close>

record affinity_entry =
  ae_auth :: string
  ae_expires :: ms

record session_cache =
  sc_entries :: "(string, affinity_entry) js_map"
  sc_ttl :: ms
  sc_capacity :: nat

definition default_affinity_ttl_ms :: ms where "default_affinity_ttl_ms = 3600000"

definition default_affinity_capacity :: int where "default_affinity_capacity = 65536"

definition new_session_cache :: "ms \<Rightarrow> int \<Rightarrow> session_cache" where
  "new_session_cache ttl capacity =
     \<lparr>sc_entries = [], sc_ttl = (if ttl > 0 then ttl else default_affinity_ttl_ms),
      sc_capacity = nat (if capacity > 0 then capacity else default_affinity_capacity)\<rparr>"

definition set_ttl :: "ms \<Rightarrow> session_cache \<Rightarrow> session_cache" where
  "set_ttl ttl c = (if ttl > 0 then c\<lparr>sc_ttl := ttl\<rparr> else c)"

definition sweep_entries :: "ms \<Rightarrow> (string, affinity_entry) js_map \<Rightarrow> (string, affinity_entry) js_map" where
  "sweep_entries now m = filter (\<lambda>p. \<not> now \<ge> ae_expires (snd p)) m"

definition sweep :: "ms \<Rightarrow> session_cache \<Rightarrow> session_cache" where
  "sweep now c = c\<lparr>sc_entries := sweep_entries now (sc_entries c)\<rparr>"

text \<open>The eviction loop: the oldest entries go while there are too many.\<close>

definition evict :: "nat \<Rightarrow> 'a list \<Rightarrow> 'a list" where
  "evict capacity m = drop (length m - capacity) m"

definition put_entry :: "string \<Rightarrow> string \<Rightarrow> ms \<Rightarrow> session_cache \<Rightarrow> session_cache" where
  "put_entry key auth_id now c =
     (let m = AList.update key \<lparr>ae_auth = auth_id, ae_expires = now + sc_ttl c\<rparr> (AList.delete key (sc_entries c))
      in c\<lparr>sc_entries := (if length m > sc_capacity c then evict (sc_capacity c) (sweep_entries now m) else m)\<rparr>)"

definition affinity_get :: "string \<Rightarrow> ms \<Rightarrow> session_cache \<Rightarrow> string option \<times> session_cache" where
  "affinity_get key now c =
     (case map_of (sc_entries c) key of
        None \<Rightarrow> (None, c)
      | Some e \<Rightarrow> if now \<ge> ae_expires e then (None, c\<lparr>sc_entries := AList.delete key (sc_entries c)\<rparr>)
                  else (Some (ae_auth e), c))"

definition get_and_refresh :: "string \<Rightarrow> ms \<Rightarrow> session_cache \<Rightarrow> string option \<times> session_cache" where
  "get_and_refresh key now c =
     (case affinity_get key now c of
        (Some auth_id, c') \<Rightarrow> (Some auth_id, put_entry key auth_id now c')
      | (None, c') \<Rightarrow> (None, c'))"

definition affinity_set :: "string \<Rightarrow> string \<Rightarrow> ms \<Rightarrow> session_cache \<Rightarrow> session_cache" where
  "affinity_set key auth_id now c = (if key = [] \<or> auth_id = [] then c else put_entry key auth_id now c)"

definition touch :: "string \<Rightarrow> string \<Rightarrow> ms \<Rightarrow> session_cache \<Rightarrow> bool \<times> session_cache" where
  "touch key expected now c =
     (case map_of (sc_entries c) key of
        None \<Rightarrow> (False, c)
      | Some e \<Rightarrow> if ae_auth e \<noteq> expected \<or> now \<ge> ae_expires e then (False, c)
                  else (True, put_entry key expected now c))"

definition compare_and_delete :: "string \<Rightarrow> string \<Rightarrow> session_cache \<Rightarrow> bool \<times> session_cache" where
  "compare_and_delete key expected c =
     (case map_of (sc_entries c) key of
        None \<Rightarrow> (False, c)
      | Some e \<Rightarrow> if ae_auth e \<noteq> expected then (False, c)
                  else (True, c\<lparr>sc_entries := AList.delete key (sc_entries c)\<rparr>))"

definition invalidate_auth :: "string \<Rightarrow> session_cache \<Rightarrow> session_cache" where
  "invalidate_auth auth_id c = c\<lparr>sc_entries := filter (\<lambda>p. ae_auth (snd p) \<noteq> auth_id) (sc_entries c)\<rparr>"

subsection \<open>Keys\<close>

definition affinity_key :: "string \<Rightarrow> string \<Rightarrow> string \<Rightarrow> string \<Rightarrow> string" where
  "affinity_key scope provider session_id model = join_with ''::'' [scope, provider, session_id, model]"

definition is_hierarchy_parent :: "string \<Rightarrow> string \<Rightarrow> bool" where
  "is_hierarchy_parent primary fallback =
     (if fallback = [] \<or> primary = [] \<or> primary = fallback then False
      else if js_includes primary '':agent:'' then True
      else (case (index_of '':'' primary, index_of '':'' fallback) of
              (Some i, Some j) \<Rightarrow> i > 0 \<and> j > 0 \<and> take i primary = take j fallback
            | (None, None) \<Rightarrow> True
            | _ \<Rightarrow> False))"

definition is_subagent_session :: "string \<Rightarrow> string \<Rightarrow> bool" where
  "is_subagent_session primary fallback \<longleftrightarrow>
     js_includes primary '':agent:'' \<or> (fallback \<noteq> [] \<and> is_hierarchy_parent primary fallback)"

subsection \<open>The cache as a store of live bindings\<close>

text \<open>What the cache is for: the credential a key is bound to at a time, if the binding is live.\<close>

definition bound_to :: "session_cache \<Rightarrow> string \<Rightarrow> ms \<Rightarrow> string option" where
  "bound_to c key now =
     (case map_of (sc_entries c) key of None \<Rightarrow> None | Some e \<Rightarrow> if now < ae_expires e then Some (ae_auth e) else None)"

definition cache_ok :: "session_cache \<Rightarrow> bool" where
  "cache_ok c \<longleftrightarrow> 0 < sc_ttl c \<and> 0 < sc_capacity c \<and> distinct_keys (sc_entries c) \<and> length (sc_entries c) \<le> sc_capacity c"

lemma new_session_cache_ok: "cache_ok (new_session_cache ttl capacity)"
  by (simp add: cache_ok_def new_session_cache_def default_affinity_ttl_ms_def default_affinity_capacity_def)

lemma affinity_get_value: "fst (affinity_get key now c) = bound_to c key now"
  by (auto simp: affinity_get_def bound_to_def split: option.split)

lemma affinity_get_ok: "cache_ok c \<Longrightarrow> cache_ok (snd (affinity_get key now c))"
  by (auto simp: affinity_get_def cache_ok_def split: option.split intro: order_trans [OF length_delete_le])

lemma distinct_keys_drop: "distinct_keys m \<Longrightarrow> distinct_keys (drop n m)"
  unfolding distinct_keys_def by (simp add: drop_map [symmetric] distinct_drop)

lemma put_entry_ok: "cache_ok c \<Longrightarrow> cache_ok (put_entry key auth_id now c)"
  unfolding cache_ok_def put_entry_def Let_def evict_def sweep_entries_def
  by (auto intro!: distinct_keys_drop)

lemma length_delete_update:
  "distinct_keys m \<Longrightarrow> length (AList.update k v (AList.delete k m)) \<le> Suc (length m)"
proof -
  have "map_of (AList.delete k m) k = None" by (simp add: delete_conv')
  then have "AList.update k v (AList.delete k m) = AList.delete k m @ [(k, v)]"
    by (induction m) (auto split: if_splits)
  then show ?thesis using length_delete_le [of k m] by simp
qed

lemma update_after_delete: "AList.update k v (AList.delete k m) = AList.delete k m @ [(k, v)]"
  by (induction m) auto

text \<open>The entry just written survives the sweep and the eviction: it is the newest and its deadline is ahead.\<close>

lemma put_entry_bound:
  assumes "cache_ok c"
  shows "map_of (sc_entries (put_entry key auth_id now c)) key = Some \<lparr>ae_auth = auth_id, ae_expires = now + sc_ttl c\<rparr>"
proof -
  let ?e = "\<lparr>ae_auth = auth_id, ae_expires = now + sc_ttl c\<rparr>"
  let ?d = "AList.delete key (sc_entries c)"
  have live: "sweep_entries now (?d @ [(key, ?e)]) = sweep_entries now ?d @ [(key, ?e)]"
    using assms by (simp add: sweep_entries_def cache_ok_def)
  have absent: "map_of (drop n (sweep_entries now ?d)) key = None" for n
  proof -
    have "key \<notin> fst ` set ?d" by (rule delete_notin_dom)
    moreover have "set (drop n (sweep_entries now ?d)) \<subseteq> set ?d" by (auto simp: sweep_entries_def dest: in_set_dropD)
    ultimately show ?thesis by (auto simp: map_of_eq_None_iff)
  qed
  have cap: "0 < sc_capacity c" using assms by (simp add: cache_ok_def)
  have "evict (sc_capacity c) (sweep_entries now ?d @ [(key, ?e)]) =
      drop (Suc (length (sweep_entries now ?d)) - sc_capacity c) (sweep_entries now ?d) @ [(key, ?e)]"
    using cap by (simp add: evict_def)
  moreover have "map_of ?d key = None" by (simp add: delete_conv')
  ultimately show ?thesis
    using absent by (simp add: put_entry_def Let_def update_after_delete live map_add_Some_iff)
qed

lemma put_entry_others:
  assumes "cache_ok c" "key' \<noteq> key" "map_of (sc_entries (put_entry key auth_id now c)) key' = Some e"
  shows "map_of (sc_entries c) key' = Some e"
proof -
  let ?d = "AList.delete key (sc_entries c)"
  let ?m = "?d @ [(key, \<lparr>ae_auth = auth_id, ae_expires = now + sc_ttl c\<rparr>)]"
  have "set (sc_entries (put_entry key auth_id now c)) \<subseteq> set ?m"
    by (auto simp: put_entry_def Let_def update_after_delete evict_def sweep_entries_def dest!: in_set_dropD)
  moreover have "(key', e) \<in> set (sc_entries (put_entry key auth_id now c))" using assms(3) by (rule map_of_SomeD)
  ultimately have "(key', e) \<in> set ?m" by blast
  then have "(key', e) \<in> set (sc_entries c)" using assms(2) by (auto simp: AList.delete_eq)
  then show ?thesis using assms(1) by (simp add: cache_ok_def map_of_SomeI)
qed

subsection \<open>Operations as a whole\<close>

datatype cache_op =
    OpGet string
  | OpGetAndRefresh string
  | OpSet string string
  | OpTouch string string
  | OpCompareAndDelete string string
  | OpInvalidate string
  | OpSweep
  | OpSetTtl ms

fun run_op :: "cache_op \<times> ms \<Rightarrow> session_cache \<Rightarrow> session_cache" where
  "run_op (OpGet k, now) c = snd (affinity_get k now c)"
| "run_op (OpGetAndRefresh k, now) c = snd (get_and_refresh k now c)"
| "run_op (OpSet k a, now) c = affinity_set k a now c"
| "run_op (OpTouch k a, now) c = snd (touch k a now c)"
| "run_op (OpCompareAndDelete k a, now) c = snd (compare_and_delete k a c)"
| "run_op (OpInvalidate a, now) c = invalidate_auth a c"
| "run_op (OpSweep, now) c = sweep now c"
| "run_op (OpSetTtl ttl, now) c = set_ttl ttl c"

lemma run_op_ok: "cache_ok c \<Longrightarrow> cache_ok (run_op op c)"
proof (induction op c rule: run_op.induct)
  case (2 k now c)
  have "cache_ok (snd (affinity_get k now c))" using 2 by (rule affinity_get_ok)
  then show ?case by (auto simp: get_and_refresh_def put_entry_ok split: prod.split option.split)
next
  case (5 k a now c)
  then show ?case
    by (auto simp: compare_and_delete_def cache_ok_def split: option.split intro: order_trans [OF length_delete_le])
next
  case (6 a now c)
  then show ?case by (auto simp: invalidate_auth_def cache_ok_def intro: order_trans [OF length_filter_le])
next
  case (7 now c)
  then show ?case by (auto simp: sweep_def sweep_entries_def cache_ok_def intro: order_trans [OF length_filter_le])
next
  case (8 ttl now c)
  then show ?case by (simp add: set_ttl_def cache_ok_def)
qed (auto simp: affinity_get_ok affinity_set_def touch_def put_entry_ok split: option.split)

lemma key_parts: "affinity_key s p i m = s @ ''::'' @ p @ ''::'' @ i @ ''::'' @ m"
  by (simp add: affinity_key_def)

subsection \<open>Properties\<close>

definition sample_cache :: session_cache where
  "sample_cache = affinity_set ''s2'' ''b'' 200 (affinity_set ''s1'' ''a'' 100 (new_session_cache 1000 2))"

text \<open>However the session cache is used, it never holds more bindings than its capacity, nor two for one session.\<close>

theorem affinity_cache_bounded:
  assumes "cache_ok c"
  shows "cache_ok (fold run_op ops c)"
  using assms by (induction ops arbitrary: c) (simp_all add: run_op_ok)

theorem affinity_cache_bounded_witness:
  "cache_ok (fold run_op [(OpSet ''s1'' ''a'', 0), (OpSet ''s2'' ''b'', 1), (OpSet ''s3'' ''c'', 2), (OpGetAndRefresh ''s1'', 3)]
     (new_session_cache 1000 2))"
  by (rule affinity_cache_bounded) (rule new_session_cache_ok)

text \<open>A session is bound to the credential it was last given until the binding's time is over, and to nothing after
  that; binding one session never rebinds another.\<close>

theorem affinity_binding_lives_its_ttl:
  assumes "cache_ok c" "key \<noteq> []" "auth_id \<noteq> []"
  shows "fst (affinity_get key t (affinity_set key auth_id now c)) = (if t < now + sc_ttl c then Some auth_id else None) \<and>
    (\<forall>other a. other \<noteq> key \<and> fst (affinity_get other t (affinity_set key auth_id now c)) = Some a \<longrightarrow>
       fst (affinity_get other t c) = Some a)"
proof -
  have own: "bound_to (put_entry key auth_id now c) key t = (if t < now + sc_ttl c then Some auth_id else None)"
    using put_entry_bound [OF assms(1), of key auth_id now] by (simp add: bound_to_def)
  have others: "bound_to c other t = Some a" if "other \<noteq> key" "bound_to (put_entry key auth_id now c) other t = Some a" for other a
  proof -
    from that(2) obtain e where "map_of (sc_entries (put_entry key auth_id now c)) other = Some e" "t < ae_expires e" "ae_auth e = a"
      by (auto simp: bound_to_def split: option.splits if_splits)
    with put_entry_others [OF assms(1) that(1)] show ?thesis by (simp add: bound_to_def)
  qed
  show ?thesis using own others assms(2,3) by (simp add: affinity_get_value affinity_set_def)
qed

theorem affinity_binding_lives_its_ttl_witness:
  "fst (affinity_get ''s3'' 900 (affinity_set ''s3'' ''c'' 300 sample_cache)) = (if 900 < 300 + sc_ttl sample_cache then Some ''c'' else None)"
proof -
  have ok: "cache_ok sample_cache" by code_simp
  show ?thesis using affinity_binding_lives_its_ttl [OF ok, of "''s3''" "''c''" 900 300] by simp
qed

text \<open>Bindings never cross callers: callers with different scopes (hashes, which hold no colon) have different keys
  whatever sessions, providers and models they name.\<close>

theorem affinity_scopes_isolated:
  assumes "CHR '':'' \<notin> set scope" "CHR '':'' \<notin> set scope'" "scope \<noteq> scope'"
  shows "affinity_key scope provider session model \<noteq> affinity_key scope' provider' session' model'"
proof
  assume "affinity_key scope provider session model = affinity_key scope' provider' session' model'"
  then show False using assms free_prefix [OF assms(1,2)] by (auto simp: key_parts)
qed

theorem affinity_scopes_isolated_witness:
  "affinity_key ''a1'' ''claude'' ''s'' ''m'' \<noteq> affinity_key ''b2'' ''claude'' ''s'' ''m''"
  by (rule affinity_scopes_isolated) simp_all

end
