(* ===== verification/Pick.thy ===== *)
theory Pick
  imports Retry Failures Strategies Affinity
begin

text \<open>
  Credential selection (\<open>packages/models/src/credentials/selection/pick.ts\<close>, with \<open>boundSessionIdentity\<close> of
  \<open>session-routing/identity.ts\<close> and \<open>lcpNamespace\<close> of \<open>session-routing/matcher.ts\<close>): candidates, availability,
  priority tier, strategy, session affinity. The rotation cursors and the affinity cache are state; the LCP matcher is
  an interface of two operations over a state of its own, and \<open>sha\<close> is SHA-256 in hexadecimal. Optional flags of a
  request are False when absent.
\<close>

datatype routing_strategy = RoundRobin | WeightedRoundRobin | FillFirst

record lcp_sequence =
  lq_fingerprints :: "string list"
  lq_min_prefix_length :: int
  lq_tail_fingerprints :: "string list"
  lq_env_digest :: string

record lcp_identity =
  li_session_id :: string
  li_parent_session_id :: string
  li_is_fork :: bool
  li_is_compaction :: bool
  li_node_kind :: string
  li_access_number :: int

record lcp_match = lcp_identity +
  lm_auth_id :: string
  lm_prefix_length :: int

record 'm lcp_matcher =
  mt_match :: "string \<Rightarrow> lcp_sequence \<Rightarrow> ms \<Rightarrow> 'm \<Rightarrow> lcp_match option \<times> 'm"
  mt_bind :: "string \<Rightarrow> lcp_sequence \<Rightarrow> string \<Rightarrow> ms \<Rightarrow> 'm \<Rightarrow> lcp_identity option \<times> 'm"

record session_ref =
  sn_id :: string
  sn_parent_id :: "string option"
  sn_is_fork :: bool
  sn_caller_scope :: "string option"

record resolved_session =
  rv_id :: string
  rv_parent_id :: "string option"
  rv_is_fork :: bool
  rv_is_compaction :: bool
  rv_node_kind :: "string option"

record pick_request =
  pq_providers :: "string list"
  pq_model :: string
  pq_tried :: "string list"
  pq_retry_round :: int
  pq_request_retry :: int
  pq_pinned_auth_id :: "string option"
  pq_member_id :: "string option"
  pq_require_auth_kind :: "auth_kind option"
  pq_disallow_free_codex :: bool
  pq_prefer_websockets :: bool
  pq_ignore_cooldown :: bool
  pq_session :: "session_ref option"
  pq_lcp :: "(lcp_sequence \<times> string) option"
  pq_fallback_session :: "session_ref option"

record selection_settings =
  sx_force_model_prefix :: bool
  sx_oauth_model_alias :: "(string, oauth_model_alias list) js_map"
  sx_strategy :: routing_strategy
  sx_session_affinity :: bool
  sx_session_affinity_subagents :: bool

record 'm selection_runtime =
  ru_rotation :: rotation_state
  ru_affinity :: session_cache
  ru_lcp :: "'m option"

record selection_input =
  si_credentials :: "credential_entry list"
  si_request :: pick_request
  si_settings :: selection_settings
  si_reach :: reach
  si_now :: ms
  si_spend :: "spend_gate option"

record selection =
  se_entry :: credential_entry
  se_route :: model_route
  se_affinity_keys :: "string list"
  se_lcp :: "(string \<times> int \<times> lcp_sequence) option"
  se_session :: "resolved_session option"

datatype selection_outcome = Picked selection | NotPicked pick_failure

record candidate = weighted +
  ca_entry :: credential_entry
  ca_route :: model_route
  ca_priority :: int

subsection \<open>Helpers\<close>

fun utf8_encode :: "string \<Rightarrow> nat list" where
  "utf8_encode [] = []"
| "utf8_encode (c # cs) =
     (let n = of_char c :: nat in if n < 128 then n # utf8_encode cs else (192 + n div 64) # (128 + n mod 64) # utf8_encode cs)"

text \<open>The loop that backs up to a character boundary.\<close>

fun char_boundary :: "nat list \<Rightarrow> nat \<Rightarrow> nat" where
  "char_boundary bytes 0 = 0"
| "char_boundary bytes (Suc n) =
     (let b = (if Suc n < length bytes then bytes ! Suc n else 0)
      in if b div 64 = 2 then char_boundary bytes n else Suc n)"

definition bound_session_identity :: "(nat list \<Rightarrow> string) \<Rightarrow> string \<Rightarrow> string" where
  "bound_session_identity sha i =
     (let bytes = utf8_encode i in
      if length bytes \<le> 256 then i
      else (let hex = sha bytes; n = min (255 - 1 - length hex) (length bytes)
            in utf8_decode (take (char_boundary bytes n) bytes) @ ''#'' @ hex))"

definition canonical_lcp_provider :: "string \<Rightarrow> string" where
  "canonical_lcp_provider provider =
     (let v = js_lower (js_trim provider) in
      if v \<in> {''google'', ''gemini'', ''vertex'', ''aistudio''} then ''google''
      else if v \<in> {''codex'', ''openai''} then ''openai''
      else if v \<in> {''claude'', ''anthropic''} then ''claude''
      else v)"

definition lcp_namespace :: "string \<Rightarrow> string \<Rightarrow> string \<Rightarrow> string" where
  "lcp_namespace provider model caller_scope =
     (let canonical = canonical_lcp_provider provider; scope = js_trim caller_scope
      in if canonical = [] \<or> scope = [] then [] else join_with ''::'' [''lcp:v1'', canonical, model, scope])"

definition resolved :: "'a lcp_identity_scheme \<Rightarrow> resolved_session" where
  "resolved v = \<lparr>rv_id = li_session_id v,
     rv_parent_id = (if li_parent_session_id v = [] then None else Some (li_parent_session_id v)),
     rv_is_fork = li_is_fork v, rv_is_compaction = (li_is_compaction v \<and> \<not> li_is_fork v),
     rv_node_kind = (if li_node_kind v = [] then None else Some (li_node_kind v))\<rparr>"

definition truthy :: "json option \<Rightarrow> bool" where
  "truthy v = (case v of Some (JBool b) \<Rightarrow> b | Some (JStr s) \<Rightarrow> js_lower s = ''true'' | _ \<Rightarrow> False)"

definition known_prefixes :: "credential_entry list \<Rightarrow> string list" where
  "known_prefixes entries =
     concat (map (\<lambda>e. let c = en_credential e in
        if cr_disabled c then [] else (case cr_prefix c of None \<Rightarrow> [] | Some p \<Rightarrow> if p = [] then [] else [p])) entries)"

definition best_priority :: "candidate list \<Rightarrow> int option" where
  "best_priority candidates =
     foldl (\<lambda>best c. case best of None \<Rightarrow> Some (ca_priority c)
                       | Some b \<Rightarrow> if ca_priority c > b then Some (ca_priority c) else best) None candidates"

definition highest_priority :: "candidate list \<Rightarrow> candidate list" where
  "highest_priority candidates = filter (\<lambda>c. Some (ca_priority c) = best_priority candidates) candidates"

subsection \<open>Candidates\<close>

record gather =
  ga_all :: "candidate list"
  ga_pool_cooldown_until :: ms
  ga_withheld_by_grants :: nat

definition routing_of :: "selection_input \<Rightarrow> routing_context" where
  "routing_of i = \<lparr>rx_force_model_prefix = sx_force_model_prefix (si_settings i),
     rx_oauth_model_alias = sx_oauth_model_alias (si_settings i), rx_known_prefixes = known_prefixes (si_credentials i)\<rparr>"

text \<open>The guards before routing.\<close>

definition may_serve :: "selection_input \<Rightarrow> credential \<Rightarrow> bool" where
  "may_serve i c \<longleftrightarrow>
     (let q = si_request i; pinned = trimmed_option (pq_pinned_auth_id q) in
      \<not> cr_disabled c \<and> serves_member c (pq_member_id q) \<and>
      \<not> (shared_blocked (si_spend i) \<noteq> None \<and> cr_owner c = None) \<and>
      \<not> (pinned \<noteq> [] \<and> cr_id c \<noteq> pinned) \<and>
      \<not> (pq_require_auth_kind q \<noteq> None \<and> cr_auth_kind c \<noteq> pq_require_auth_kind q) \<and>
      \<not> (pq_disallow_free_codex q \<and> free_codex c) \<and>
      executor_key c \<in> set (provider_set (pq_providers q)) \<and>
      cr_id c \<notin> set (pq_tried q) \<and>
      \<not> (pq_retry_round q > 0 \<and> effective_request_retry c (pq_request_retry q) < pq_retry_round q))"

definition earlier :: "ms \<Rightarrow> ms \<Rightarrow> ms" where
  "earlier best t = (if best = 0 \<or> t < best then t else best)"

definition pool_next :: "credential \<Rightarrow> credential_state \<Rightarrow> ms \<Rightarrow> string list \<Rightarrow> ms" where
  "pool_next c st now models =
     foldl (\<lambda>n upstream. let block = is_blocked_for_model c st upstream now
                         in if bk_blocked block \<and> bk_next block > now then earlier n (bk_next block) else n) 0 models"

definition make_candidate :: "credential_entry \<Rightarrow> model_route \<Rightarrow> candidate" where
  "make_candidate entry route =
     \<lparr>wt_id = cr_id (en_credential entry), wt_weight = cr_weight (en_credential entry), ca_entry = entry,
      ca_route = route, ca_priority = cr_priority (en_credential entry)\<rparr>"

definition gather_step :: "selection_input \<Rightarrow> gather \<Rightarrow> credential_entry \<Rightarrow> gather" where
  "gather_step i g entry =
     (let c = en_credential entry in
      if \<not> may_serve i c then g
      else (case resolve_model_route c (pq_model (si_request i)) (routing_of i) of
              None \<Rightarrow> g
            | Some r \<Rightarrow>
                (case granted_route c r (si_reach i) of
                   None \<Rightarrow> g\<lparr>ga_withheld_by_grants := ga_withheld_by_grants g + 1\<rparr>
                 | Some route \<Rightarrow>
                     if length (mr_upstream_models route) > 1 \<or> mr_pooled route then
                       (case filter (\<lambda>upstream. \<not> bk_blocked (is_blocked_for_model c (en_state entry) upstream (si_now i)))
                               (mr_upstream_models route) of
                          [] \<Rightarrow>
                            (let n = pool_next c (en_state entry) (si_now i) (mr_upstream_models route)
                             in if n \<noteq> 0 then g\<lparr>ga_pool_cooldown_until := earlier (ga_pool_cooldown_until g) n\<rparr> else g)
                        | first # usable \<Rightarrow>
                            g\<lparr>ga_all := ga_all g @ [make_candidate entry
                                (route\<lparr>mr_pooled := True, mr_upstream_model := first, mr_upstream_models := first # usable\<rparr>)]\<rparr>)
                     else g\<lparr>ga_all := ga_all g @ [make_candidate entry route]\<rparr>)))"

definition gather_candidates :: "selection_input \<Rightarrow> gather" where
  "gather_candidates i =
     (let g = foldl (gather_step i) \<lparr>ga_all = [], ga_pool_cooldown_until = 0, ga_withheld_by_grants = 0\<rparr> (si_credentials i)
      in g\<lparr>ga_all := sort_key wt_id (ga_all g)\<rparr>)"

subsection \<open>Availability across the tiers\<close>

record avail_scan =
  av_available :: "candidate list"
  av_cooldown_count :: nat
  av_earliest :: ms

definition avail_step :: "selection_input \<Rightarrow> avail_scan \<Rightarrow> candidate \<Rightarrow> avail_scan" where
  "avail_step i a cand =
     (case held_by_limit (si_spend i) (wt_id cand) of
        Some held \<Rightarrow> a\<lparr>av_earliest := earlier (av_earliest a) (rf_resets_at held)\<rparr>
      | None \<Rightarrow>
          (let block = is_blocked_for_model (en_credential (ca_entry cand)) (en_state (ca_entry cand))
                         (mr_selection_model (ca_route cand)) (si_now i)
           in if \<not> bk_blocked block \<or> (pq_ignore_cooldown (si_request i) \<and> bk_reason block = BlockCooldown)
              then a\<lparr>av_available := av_available a @ [cand]\<rparr>
              else (let a1 = (if bk_reason block = BlockCooldown then a\<lparr>av_cooldown_count := av_cooldown_count a + 1\<rparr> else a)
                    in if bk_reason block \<noteq> BlockDisabled \<and> bk_next block > si_now i
                       then a1\<lparr>av_earliest := earlier (av_earliest a1) (bk_next block)\<rparr> else a1)))"

definition scan_available :: "selection_input \<Rightarrow> candidate list \<Rightarrow> avail_scan" where
  "scan_available i pool = foldl (avail_step i) \<lparr>av_available = [], av_cooldown_count = 0, av_earliest = 0\<rparr> pool"

definition single_provider :: "pick_request \<Rightarrow> string \<Rightarrow> string" where
  "single_provider q other = (case provider_set (pq_providers q) of [p] \<Rightarrow> p | _ \<Rightarrow> other)"

text \<open>Steps 1 and 2: the available candidates, or why there are none.\<close>

definition available_candidates :: "selection_input \<Rightarrow> candidate list + pick_failure" where
  "available_candidates i =
     (let q = si_request i; now = si_now i in
      if provider_set (pq_providers q) = [] then Inr provider_not_found
      else (let g = gather_candidates i in
            if ga_all g = [] then
              Inr (if ga_pool_cooldown_until g \<noteq> 0
                   then model_cooldown (pq_model q) (single_provider q []) (ga_pool_cooldown_until g - now)
                   else if ga_withheld_by_grants g > 0 then model_not_found (pq_model q)
                   else auth_not_found ''no auth available'')
            else (let pool = (if sx_strategy (si_settings i) = WeightedRoundRobin
                              then filter (\<lambda>c. wt_weight c > 0) (ga_all g) else ga_all g) in
                  if pool = [] then Inr (auth_not_found ''no auth candidates'')
                  else (let a = scan_available i pool in
                        if av_available a = [] then
                          Inr (if av_cooldown_count a = length pool \<and> av_earliest a \<noteq> 0
                               then model_cooldown (pq_model q) (single_provider q []) (av_earliest a - now)
                               else auth_unavailable (av_earliest a) now)
                        else Inl (av_available a)))))"

subsection \<open>Strategy\<close>

definition provider_label :: "pick_request \<Rightarrow> string" where
  "provider_label q = join_with '','' (sort (provider_set (pq_providers q)))"

definition prefers_websockets :: "candidate \<Rightarrow> bool" where
  "prefers_websockets cand =
     (let c = en_credential (ca_entry cand)
      in truthy (map_option JStr (map_of (cr_attributes c) ''websockets'')) \<or> truthy (map_of (cr_metadata c) ''websockets''))"

definition strategy_pick ::
  "selection_input \<Rightarrow> candidate list \<Rightarrow> rotation_state \<Rightarrow> candidate option \<times> rotation_state" where
  "strategy_pick i candidates rt =
     (let q = si_request i;
          key = provider_label q @ '':'' @ canonical_model_key (pq_model q);
          sockets = filter prefers_websockets candidates;
          cs = (if pq_prefer_websockets q \<and> ''codex'' \<in> set (provider_set (pq_providers q)) \<and> sockets \<noteq> []
                then sockets else candidates)
      in case sx_strategy (si_settings i) of
           FillFirst \<Rightarrow> (fill_first cs, rt)
         | WeightedRoundRobin \<Rightarrow> weighted_round_robin key cs rt
         | RoundRobin \<Rightarrow> round_robin key cs rt)"

definition done_pick :: "candidate option \<Rightarrow> string list \<Rightarrow> selection_outcome" where
  "done_pick picked keys =
     (case picked of
        None \<Rightarrow> NotPicked (auth_not_found ''no auth available with positive weight'')
      | Some c \<Rightarrow> Picked \<lparr>se_entry = ca_entry c, se_route = ca_route c, se_affinity_keys = keys, se_lcp = None,
                   se_session = None\<rparr>)"

definition lcp_done :: "candidate \<Rightarrow> string \<Rightarrow> lcp_sequence \<Rightarrow> 'a lcp_identity_scheme \<Rightarrow> selection_outcome" where
  "lcp_done c nm sq v =
     Picked \<lparr>se_entry = ca_entry c, se_route = ca_route c, se_affinity_keys = [],
       se_lcp = Some (nm, li_access_number v, sq), se_session = Some (resolved v)\<rparr>"

definition find_candidate :: "candidate list \<Rightarrow> string option \<Rightarrow> candidate option" where
  "find_candidate available auth_id =
     (case auth_id of None \<Rightarrow> None | Some a \<Rightarrow> List.find (\<lambda>c. wt_id c = a) available)"

subsection \<open>Session affinity\<close>

definition explicit_session :: "pick_request \<Rightarrow> session_ref option" where
  "explicit_session q =
     (case pq_session q of Some s \<Rightarrow> if js_trim (sn_id s) = [] then None else Some s | None \<Rightarrow> None)"

text \<open>
  A request with no session of its own, in the matcher's hands: a known conversation goes to its credential; otherwise
  the strategy picks, and the conversation is bound to the pick.
\<close>

definition bind_conversation ::
  "'m lcp_matcher \<Rightarrow> selection_input \<Rightarrow> candidate list \<Rightarrow> string \<Rightarrow> lcp_sequence \<Rightarrow> 'm \<Rightarrow> 'm selection_runtime \<Rightarrow>
   selection_outcome \<times> 'm selection_runtime" where
  "bind_conversation matcher i available nm sq m rt =
     (let (fresh, rot) = strategy_pick i (highest_priority available) (ru_rotation rt) in
      case fresh of
        None \<Rightarrow> (done_pick None [], rt\<lparr>ru_rotation := rot, ru_lcp := Some m\<rparr>)
      | Some c \<Rightarrow>
          (let (binding, m') = mt_bind matcher nm sq (wt_id c) (si_now i) m
           in (case binding of None \<Rightarrow> done_pick (Some c) [] | Some v \<Rightarrow> lcp_done c nm sq v,
               rt\<lparr>ru_rotation := rot, ru_lcp := Some m'\<rparr>)))"

definition pick_by_lcp ::
  "'m lcp_matcher \<Rightarrow> selection_input \<Rightarrow> candidate list \<Rightarrow> string \<Rightarrow> lcp_sequence \<Rightarrow> 'm \<Rightarrow> 'm selection_runtime \<Rightarrow>
   selection_outcome \<times> 'm selection_runtime" where
  "pick_by_lcp matcher i available nm sq m rt =
     (case mt_match matcher nm sq (si_now i) m of
        (None, m1) \<Rightarrow> bind_conversation matcher i available nm sq m1 rt
      | (Some v, m1) \<Rightarrow>
          (case find_candidate available (Some (lm_auth_id v)) of
             Some c \<Rightarrow> (lcp_done c nm sq v, rt\<lparr>ru_lcp := Some m1\<rparr>)
           | None \<Rightarrow> bind_conversation matcher i available nm sq m1 rt))"

text \<open>The names a session goes by: its cache key, its parent's when it has one, and what it is.\<close>

record session_names =
  nm_cache_key :: string
  nm_fallback_key :: "string option"
  nm_is_fork :: bool
  nm_is_subagent :: bool

definition session_names_of :: "(nat list \<Rightarrow> string) \<Rightarrow> pick_request \<Rightarrow> session_ref \<Rightarrow> session_names" where
  "session_names_of sha q session =
     (let model_key = canonical_model_key (pq_model q); label = provider_label q;
          scope = (case sn_caller_scope session of None \<Rightarrow> [] | Some s \<Rightarrow> s);
          primary = bound_session_identity sha (js_trim (sn_id session));
          parent_raw = trimmed_option (sn_parent_id session);
          parent = (if parent_raw = [] then [] else bound_session_identity sha parent_raw)
      in \<lparr>nm_cache_key = affinity_key scope label primary model_key,
          nm_fallback_key = (if parent \<noteq> [] \<and> parent \<noteq> primary then Some (affinity_key scope label parent model_key) else None),
          nm_is_fork = sn_is_fork session,
          nm_is_subagent = (\<not> sn_is_fork session \<and> is_subagent_session primary parent)\<rparr>)"

definition bind_session :: "session_names \<Rightarrow> string \<Rightarrow> ms \<Rightarrow> session_cache \<Rightarrow> string list \<times> session_cache" where
  "bind_session names auth_id now cache =
     (let c1 = affinity_set (nm_cache_key names) auth_id now cache in
      case nm_fallback_key names of
        Some fk \<Rightarrow> if \<not> nm_is_subagent names \<and> \<not> nm_is_fork names
                   then ([nm_cache_key names, fk], affinity_set fk auth_id now c1) else ([nm_cache_key names], c1)
      | None \<Rightarrow> ([nm_cache_key names], c1))"

definition pick_bound ::
  "session_names \<Rightarrow> candidate option \<Rightarrow> ms \<Rightarrow> 'm selection_runtime \<Rightarrow> selection_outcome \<times> 'm selection_runtime" where
  "pick_bound names picked now rt =
     (case picked of
        None \<Rightarrow> (done_pick None [], rt)
      | Some c \<Rightarrow> (let (keys, cache) = bind_session names (wt_id c) now (ru_affinity rt)
                   in (done_pick (Some c) keys, rt\<lparr>ru_affinity := cache\<rparr>)))"

text \<open>The parent's binding, asked for only when the session has none of its own.\<close>

definition inherited_candidate ::
  "selection_input \<Rightarrow> candidate list \<Rightarrow> session_names \<Rightarrow> string option \<Rightarrow> session_cache \<Rightarrow> candidate option \<times> session_cache" where
  "inherited_candidate i available names cached cache =
     (case (cached, nm_fallback_key names) of
        (None, Some fk) \<Rightarrow>
          if \<not> nm_is_subagent names \<or> sx_session_affinity_subagents (si_settings i)
          then (let (a, cache') = affinity_get fk (si_now i) cache in (find_candidate available a, cache'))
          else (None, cache)
      | _ \<Rightarrow> (None, cache))"

text \<open>A session with an identity: its binding, its parent's, or a fresh pick that becomes its binding.\<close>

definition pick_by_session ::
  "(nat list \<Rightarrow> string) \<Rightarrow> selection_input \<Rightarrow> candidate list \<Rightarrow> session_ref \<Rightarrow> 'm selection_runtime \<Rightarrow>
   selection_outcome \<times> 'm selection_runtime" where
  "pick_by_session sha i available session rt =
     (let now = si_now i; names = session_names_of sha (si_request i) session;
          (cached, cache1) = get_and_refresh (nm_cache_key names) now (ru_affinity rt)
      in case find_candidate available cached of
           Some c \<Rightarrow> pick_bound names (Some c) now (rt\<lparr>ru_affinity := cache1\<rparr>)
         | None \<Rightarrow>
             (let (inherited, cache2) = inherited_candidate i available names cached cache1
              in case inherited of
                   Some c \<Rightarrow> pick_bound names (Some c) now (rt\<lparr>ru_affinity := cache2\<rparr>)
                 | None \<Rightarrow>
                     (let (picked, rot) = strategy_pick i (highest_priority available) (ru_rotation rt)
                      in pick_bound names picked now (rt\<lparr>ru_rotation := rot, ru_affinity := cache2\<rparr>))))"

definition pick_fresh ::
  "selection_input \<Rightarrow> candidate list \<Rightarrow> 'm selection_runtime \<Rightarrow> selection_outcome \<times> 'm selection_runtime" where
  "pick_fresh i available rt =
     (let (picked, rot) = strategy_pick i (highest_priority available) (ru_rotation rt)
      in (done_pick picked [], rt\<lparr>ru_rotation := rot\<rparr>))"

definition pick_for_session ::
  "(nat list \<Rightarrow> string) \<Rightarrow> selection_input \<Rightarrow> candidate list \<Rightarrow> 'm selection_runtime \<Rightarrow>
   selection_outcome \<times> 'm selection_runtime" where
  "pick_for_session sha i available rt =
     (case (case explicit_session (si_request i) of Some s \<Rightarrow> Some s | None \<Rightarrow> pq_fallback_session (si_request i)) of
        Some s \<Rightarrow> if js_trim (sn_id s) = [] then pick_fresh i available rt else pick_by_session sha i available s rt
      | None \<Rightarrow> pick_fresh i available rt)"

definition select_credential ::
  "(nat list \<Rightarrow> string) \<Rightarrow> 'm lcp_matcher \<Rightarrow> selection_input \<Rightarrow> 'm selection_runtime \<Rightarrow>
   selection_outcome \<times> 'm selection_runtime" where
  "select_credential sha matcher i rt =
     (case available_candidates i of
        Inr failure \<Rightarrow> (NotPicked failure, rt)
      | Inl available \<Rightarrow>
          (let q = si_request i in
           if \<not> sx_session_affinity (si_settings i) then pick_fresh i available rt
           else (let lcp_request = (if explicit_session q = None then pq_lcp q else None)
                 in case (ru_lcp rt, lcp_request) of
                      (Some m, Some (sq, scope)) \<Rightarrow>
                        (let nm = lcp_namespace (single_provider q ''mixed'') (canonical_model_key (pq_model q)) scope
                         in if nm \<noteq> [] then pick_by_lcp matcher i available nm sq m rt
                            else pick_for_session sha i available rt)
                    | _ \<Rightarrow> pick_for_session sha i available rt)))"

end
