(* ===== verification/Pick_Safety.thy ===== *)
theory Pick_Safety
  imports Pick Credential_Model
begin

text \<open>
  What a pick may be, and when there is one: the candidates keep every guard of the request, each way of choosing stays
  among them, and a credential that could serve is never overlooked.
\<close>

subsection \<open>Every way of choosing picks a candidate\<close>

lemma fill_first_member: "fill_first cs = Some c \<Longrightarrow> c \<in> set cs"
  by (cases cs) (auto simp: fill_first_def)

lemma round_robin_member: "fst (round_robin key cs rt) = Some c \<Longrightarrow> c \<in> set cs"
  by (auto simp: round_robin_def Let_def split: if_splits)

lemma weighted_member: "fst (weighted_round_robin key cs rt) = Some c \<Longrightarrow> c \<in> set cs"
proof -
  assume a: "fst (weighted_round_robin key cs rt) = Some c"
  let ?tracked = "if map_of (rt_weighted rt) key = None \<and> length (rt_weighted rt) \<ge> rt_max_keys rt then [] else rt_weighted rt"
  let ?m = "sm_current (prepare (positive_weights cs) (case map_of ?tracked key of None \<Rightarrow> empty_smooth | Some s \<Rightarrow> s))"
  obtain m' where "pick_smooth_weighted cs ?m = (Some c, m')"
    using a by (cases "pick_smooth_weighted cs ?m") (simp add: weighted_round_robin_def Let_def)
  then show "c \<in> set cs" using pick_keys by blast
qed

lemma strategy_pick_member: "fst (strategy_pick i cs rt) = Some c \<Longrightarrow> c \<in> set cs"
  by (auto simp: strategy_pick_def Let_def split: routing_strategy.splits if_splits
      dest!: fill_first_member round_robin_member weighted_member)

lemma highest_priority_subset: "set (highest_priority cs) \<subseteq> set cs"
  by (auto simp: highest_priority_def)

lemma find_candidate_member: "find_candidate cs a = Some c \<Longrightarrow> c \<in> set cs \<and> a = Some (wt_id c)"
  by (auto simp: find_candidate_def split: option.splits dest: find_SomeD)

definition picked_from :: "candidate list \<Rightarrow> selection_outcome \<Rightarrow> bool" where
  "picked_from available out \<longleftrightarrow>
     (case out of NotPicked _ \<Rightarrow> True
      | Picked s \<Rightarrow> list_ex (\<lambda>c. se_entry s = ca_entry c \<and> se_route s = ca_route c) available)"

lemma picked_done: "(\<And>c. p = Some c \<Longrightarrow> c \<in> set available) \<Longrightarrow> picked_from available (done_pick p keys)"
  by (auto simp: picked_from_def done_pick_def list_ex_iff split: option.split)

lemma picked_lcp: "c \<in> set available \<Longrightarrow> picked_from available (lcp_done c nm sq v)"
  by (auto simp: picked_from_def lcp_done_def list_ex_iff)

lemma strategy_pick_available:
  "strategy_pick i (highest_priority available) rot = (Some c, rot') \<Longrightarrow> c \<in> set available"
  using strategy_pick_member [of i "highest_priority available" rot c] highest_priority_subset [of available] by auto

lemma pick_fresh_from: "picked_from available (fst (pick_fresh i available rt))"
  by (auto simp: pick_fresh_def Let_def case_prod_beta
      intro!: picked_done dest: strategy_pick_member subsetD [OF highest_priority_subset])

lemma picked_none: "picked_from available (done_pick None keys)"
  by (rule picked_done) simp

lemma bind_conversation_from: "picked_from available (fst (bind_conversation matcher i available nm sq m rt))"
proof -
  obtain fresh rot where fr: "strategy_pick i (highest_priority available) (ru_rotation rt) = (fresh, rot)" by force
  show ?thesis
  proof (cases fresh)
    case None
    then show ?thesis by (simp add: bind_conversation_def fr picked_none)
  next
    case (Some c)
    then have "c \<in> set available" using strategy_pick_available fr by blast
    then show ?thesis using Some
      by (auto simp: bind_conversation_def fr split: option.split prod.split intro: picked_lcp picked_done)
  qed
qed

lemma pick_by_lcp_from: "picked_from available (fst (pick_by_lcp matcher i available nm sq m rt))"
  by (auto simp: pick_by_lcp_def bind_conversation_from split: prod.split option.split
      intro: picked_lcp dest: find_candidate_member)

lemma pick_bound_from:
  "(\<And>c. picked = Some c \<Longrightarrow> c \<in> set available) \<Longrightarrow> picked_from available (fst (pick_bound names picked now rt))"
  by (cases picked) (auto simp: pick_bound_def picked_none case_prod_beta Let_def intro: picked_done)

lemma inherited_member: "fst (inherited_candidate i available names cached cache) = Some c \<Longrightarrow> c \<in> set available"
  by (auto simp: inherited_candidate_def Let_def case_prod_beta split: option.splits if_splits dest: find_candidate_member)

lemma pick_by_session_from: "picked_from available (fst (pick_by_session sha i available session rt))"
proof -
  let ?names = "session_names_of sha (si_request i) session"
  obtain cached c1 where g: "get_and_refresh (nm_cache_key ?names) (si_now i) (ru_affinity rt) = (cached, c1)" by force
  obtain inh c2 where h: "inherited_candidate i available ?names cached c1 = (inh, c2)" by force
  obtain picked rot where p: "strategy_pick i (highest_priority available) (ru_rotation rt) = (picked, rot)" by force
  have "\<And>c. inh = Some c \<Longrightarrow> c \<in> set available" using inherited_member [of i available ?names cached c1] h by simp
  moreover have "\<And>c. picked = Some c \<Longrightarrow> c \<in> set available" using strategy_pick_available p by blast
  ultimately show ?thesis
    by (auto simp: pick_by_session_def Let_def g h p split: option.split
        intro!: pick_bound_from dest: find_candidate_member)
qed

lemma pick_for_session_from: "picked_from available (fst (pick_for_session sha i available rt))"
  by (auto simp: pick_for_session_def pick_fresh_from pick_by_session_from split: option.split)

lemma select_credential_from:
  assumes "available_candidates i = Inl available"
  shows "picked_from available (fst (select_credential sha matcher i rt))"
  using assms
  by (auto simp: select_credential_def Let_def pick_fresh_from pick_for_session_from pick_by_lcp_from split: option.split)

subsection \<open>Every candidate keeps the request's guards\<close>

definition granted_for :: "selection_input \<Rightarrow> credential \<Rightarrow> model_route \<Rightarrow> bool" where
  "granted_for i c route \<longleftrightarrow>
     (case resolve_model_route c (pq_model (si_request i)) (routing_of i) of
        None \<Rightarrow> False
      | Some r \<Rightarrow> (case granted_route c r (si_reach i) of
                     None \<Rightarrow> False
                   | Some g \<Rightarrow> set (mr_upstream_models route) \<subseteq> set (mr_upstream_models g) \<and>
                               mr_selection_model route = mr_selection_model g))"

text \<open>A pooled route names only upstream models that are not cooling.\<close>

definition pool_usable :: "selection_input \<Rightarrow> credential_entry \<Rightarrow> model_route \<Rightarrow> bool" where
  "pool_usable i entry route \<longleftrightarrow>
     (mr_pooled route \<longrightarrow>
        (\<forall>m \<in> set (mr_upstream_models route).
           \<not> bk_blocked (is_blocked_for_model (en_credential entry) (en_state entry) m (si_now i))))"

definition candidate_ok :: "selection_input \<Rightarrow> candidate \<Rightarrow> bool" where
  "candidate_ok i cand \<longleftrightarrow>
     ca_entry cand \<in> set (si_credentials i) \<and> may_serve i (en_credential (ca_entry cand)) \<and>
     granted_for i (en_credential (ca_entry cand)) (ca_route cand) \<and> pool_usable i (ca_entry cand) (ca_route cand) \<and>
     wt_id cand = cr_id (en_credential (ca_entry cand)) \<and> wt_weight cand = cr_weight (en_credential (ca_entry cand)) \<and>
     ca_priority cand = cr_priority (en_credential (ca_entry cand))"

lemma make_candidate_ok:
  "entry \<in> set (si_credentials i) \<Longrightarrow> may_serve i (en_credential entry) \<Longrightarrow> granted_for i (en_credential entry) route \<Longrightarrow>
     pool_usable i entry route \<Longrightarrow> candidate_ok i (make_candidate entry route)"
  by (simp add: candidate_ok_def make_candidate_def)

lemma filter_Cons_subset: "filter P xs = y # ys \<Longrightarrow> set (y # ys) \<subseteq> set xs"
  by (metis filter_is_subset)

lemma pooled_candidate_ok:
  assumes "entry \<in> set (si_credentials i)" "may_serve i (en_credential entry)"
    and "resolve_model_route (en_credential entry) (pq_model (si_request i)) (routing_of i) = Some r"
    and "granted_route (en_credential entry) r (si_reach i) = Some gr"
    and "filter (\<lambda>upstream. \<not> bk_blocked (is_blocked_for_model (en_credential entry) (en_state entry) upstream (si_now i)))
      (mr_upstream_models gr) = m # usable"
  shows "candidate_ok i
    (make_candidate entry (gr\<lparr>mr_pooled := True, mr_upstream_model := m, mr_upstream_models := m # usable\<rparr>))"
proof (rule make_candidate_ok)
  have "\<forall>x \<in> set (m # usable). \<not> bk_blocked (is_blocked_for_model (en_credential entry) (en_state entry) x (si_now i))"
    unfolding assms(5) [symmetric] by simp
  then show "pool_usable i entry (gr\<lparr>mr_pooled := True, mr_upstream_model := m, mr_upstream_models := m # usable\<rparr>)"
    by (simp add: pool_usable_def)
  show "granted_for i (en_credential entry) (gr\<lparr>mr_pooled := True, mr_upstream_model := m, mr_upstream_models := m # usable\<rparr>)"
    using assms(3,4) filter_Cons_subset [OF assms(5)] by (simp add: granted_for_def)
qed (use assms in simp_all)

lemma single_candidate_ok:
  "entry \<in> set (si_credentials i) \<Longrightarrow> may_serve i (en_credential entry) \<Longrightarrow>
   resolve_model_route (en_credential entry) (pq_model (si_request i)) (routing_of i) = Some r \<Longrightarrow>
   granted_route (en_credential entry) r (si_reach i) = Some gr \<Longrightarrow> \<not> mr_pooled gr \<Longrightarrow> candidate_ok i (make_candidate entry gr)"
  by (rule make_candidate_ok) (simp_all add: granted_for_def pool_usable_def)

lemma gather_step_ok:
  assumes "\<forall>c \<in> set (ga_all g). candidate_ok i c" "entry \<in> set (si_credentials i)"
  shows "\<forall>c \<in> set (ga_all (gather_step i g entry)). candidate_ok i c"
  using assms(1) pooled_candidate_ok [OF assms(2)] single_candidate_ok [OF assms(2)]
  by (auto simp: gather_step_def Let_def split: option.splits list.splits)

lemma gather_candidates_ok: "\<forall>c \<in> set (ga_all (gather_candidates i)). candidate_ok i c"
proof -
  have "\<forall>c \<in> set (ga_all (foldl (gather_step i) \<lparr>ga_all = [], ga_pool_cooldown_until = 0, ga_withheld_by_grants = 0\<rparr>
      (si_credentials i))). candidate_ok i c"
    by (rule foldl_invariant [where I = "\<lambda>g. \<forall>c \<in> set (ga_all g). candidate_ok i c"]) (simp, rule gather_step_ok)
  then show ?thesis by (simp add: gather_candidates_def Let_def)
qed

definition free_to_serve :: "selection_input \<Rightarrow> candidate \<Rightarrow> bool" where
  "free_to_serve i cand \<longleftrightarrow>
     held_by_limit (si_spend i) (wt_id cand) = None \<and>
     (let block = is_blocked_for_model (en_credential (ca_entry cand)) (en_state (ca_entry cand))
                    (mr_selection_model (ca_route cand)) (si_now i)
      in \<not> bk_blocked block \<or> (pq_ignore_cooldown (si_request i) \<and> bk_reason block = BlockCooldown))"

lemma avail_step_available:
  "av_available (avail_step i a cand) = (if free_to_serve i cand then av_available a @ [cand] else av_available a)"
  by (auto simp: avail_step_def free_to_serve_def Let_def split: option.split)

lemma scan_available_eq: "av_available (scan_available i pool) = filter (free_to_serve i) pool"
proof -
  have "av_available (foldl (avail_step i) a pool) = av_available a @ filter (free_to_serve i) pool" for a
    by (induction pool arbitrary: a) (auto simp: avail_step_available)
  then show ?thesis by (simp add: scan_available_def)
qed

definition candidate_pool :: "selection_input \<Rightarrow> candidate list" where
  "candidate_pool i =
     (if sx_strategy (si_settings i) = WeightedRoundRobin then filter (\<lambda>c. wt_weight c > 0) (ga_all (gather_candidates i))
      else ga_all (gather_candidates i))"

lemma available_candidates_Inl:
  "available_candidates i = Inl available \<longleftrightarrow>
     provider_set (pq_providers (si_request i)) \<noteq> [] \<and> available \<noteq> [] \<and> available = filter (free_to_serve i) (candidate_pool i)"
  by (auto simp: available_candidates_def candidate_pool_def Let_def scan_available_eq)

lemma available_ok:
  "available_candidates i = Inl available \<Longrightarrow> c \<in> set available \<Longrightarrow> candidate_ok i c \<and> free_to_serve i c"
  using gather_candidates_ok [of i] by (auto simp: available_candidates_Inl candidate_pool_def split: if_splits)

lemma picked_candidate:
  assumes "fst (select_credential sha matcher i rt) = Picked s"
  shows "\<exists>c. candidate_ok i c \<and> free_to_serve i c \<and> se_entry s = ca_entry c \<and> se_route s = ca_route c"
proof (cases "available_candidates i")
  case (Inl available)
  from select_credential_from [OF this, of sha matcher rt] assms
  obtain c where "c \<in> set available" "se_entry s = ca_entry c" "se_route s = ca_route c"
    by (auto simp: picked_from_def list_ex_iff)
  then show ?thesis using available_ok [OF Inl] by blast
next
  case (Inr f)
  then show ?thesis using assms by (simp add: select_credential_def)
qed

subsection \<open>Somebody able to serve is found\<close>

lemma smooth_step_some: "fst (smooth_step (Some p, v, t, m) c) \<noteq> None"
  by (simp add: smooth_step_def Let_def)

lemma smooth_some: "fst acc \<noteq> None \<Longrightarrow> fst (foldl smooth_step acc cs) \<noteq> None"
proof (induction cs arbitrary: acc)
  case (Cons c cs)
  obtain p v t m where "acc = (Some p, v, t, m)" using Cons.prems by (cases acc) auto
  then have "fst (smooth_step acc c) \<noteq> None" using smooth_step_some by simp
  from Cons.IH [OF this] show ?case by simp
qed simp

lemma pick_smooth_some:
  assumes "cs \<noteq> []" "\<forall>c \<in> set cs. 0 < wt_weight c"
  shows "\<exists>p m'. pick_smooth_weighted cs m = (Some p, m')"
proof -
  obtain c rest where cs: "cs = c # rest" using assms(1) by (cases cs) auto
  have "0 < wt_weight c" using assms(2) cs by simp
  then have "fst (smooth_step (None, 0, 0, m) c) \<noteq> None" by (simp add: smooth_step_def Let_def)
  from smooth_some [OF this, of rest] have "fst (foldl smooth_step (None, 0, 0, m) cs) \<noteq> None" by (simp add: cs)
  moreover obtain p v t m' where "foldl smooth_step (None, 0, 0, m) cs = (p, v, t, m')"
    by (cases "foldl smooth_step (None, 0, 0, m) cs") auto
  ultimately show ?thesis by (auto simp: pick_smooth_weighted_def)
qed

lemma weighted_some:
  assumes "cs \<noteq> []" "\<forall>c \<in> set cs. 0 < wt_weight c"
  shows "\<exists>c rt'. weighted_round_robin key cs rt = (Some c, rt')"
proof -
  let ?tracked = "if map_of (rt_weighted rt) key = None \<and> length (rt_weighted rt) \<ge> rt_max_keys rt then [] else rt_weighted rt"
  let ?m = "sm_current (prepare (positive_weights cs) (case map_of ?tracked key of None \<Rightarrow> empty_smooth | Some s \<Rightarrow> s))"
  obtain p m' where "pick_smooth_weighted cs ?m = (Some p, m')" using pick_smooth_some [OF assms] by blast
  then show ?thesis by (simp add: weighted_round_robin_def Let_def)
qed

lemma round_robin_some: "cs \<noteq> [] \<Longrightarrow> \<exists>c rt'. round_robin key cs rt = (Some c, rt')"
  by (auto simp: round_robin_def Let_def successor_index_def split: option.split)

lemma strategy_pick_some:
  assumes "cs \<noteq> []" "sx_strategy (si_settings i) = WeightedRoundRobin \<longrightarrow> (\<forall>c \<in> set cs. 0 < wt_weight c)"
  shows "\<exists>c rt'. strategy_pick i cs rt = (Some c, rt')"
proof -
  define cs' where "cs' = (if pq_prefer_websockets (si_request i) \<and> ''codex'' \<in> set (provider_set (pq_providers (si_request i))) \<and>
    filter prefers_websockets cs \<noteq> [] then filter prefers_websockets cs else cs)"
  have ne: "cs' \<noteq> []" and sub: "set cs' \<subseteq> set cs" using assms(1) by (auto simp: cs'_def)
  define key where "key = provider_label (si_request i) @ '':'' @ canonical_model_key (pq_model (si_request i))"
  have eq: "strategy_pick i cs rt = (case sx_strategy (si_settings i) of FillFirst \<Rightarrow> (fill_first cs', rt)
      | WeightedRoundRobin \<Rightarrow> weighted_round_robin key cs' rt | RoundRobin \<Rightarrow> round_robin key cs' rt)"
    by (simp only: strategy_pick_def Let_def cs'_def key_def)
  show ?thesis
  proof (cases "sx_strategy (si_settings i)")
    case RoundRobin
    then show ?thesis using eq round_robin_some [OF ne] by simp
  next
    case WeightedRoundRobin
    then have "\<forall>c \<in> set cs'. 0 < wt_weight c" using assms(2) sub by blast
    from weighted_some [OF ne this, of key rt] show ?thesis using eq WeightedRoundRobin by simp
  next
    case FillFirst
    then show ?thesis using eq ne by (cases cs') (auto simp: fill_first_def)
  qed
qed

lemma best_priority_max:
  "cs \<noteq> [] \<Longrightarrow> \<exists>c \<in> set cs. best_priority cs = Some (ca_priority c) \<and> (\<forall>d \<in> set cs. ca_priority d \<le> ca_priority c)"
proof -
  let ?f = "\<lambda>best c. case best of None \<Rightarrow> Some (ca_priority c) | Some b \<Rightarrow> if ca_priority c > b then Some (ca_priority c) else best"
  have "\<exists>c \<in> insert a (set cs). foldl ?f (Some (ca_priority a)) cs = Some (ca_priority c) \<and>
      (\<forall>d \<in> insert a (set cs). ca_priority d \<le> ca_priority c)" for a cs
  proof (induction cs arbitrary: a)
    case (Cons b cs)
    show ?case
    proof (cases "ca_priority b > ca_priority a")
      case True
      then show ?thesis using Cons.IH [of b] by fastforce
    next
      case False
      then show ?thesis using Cons.IH [of a] by fastforce
    qed
  qed simp
  then show "cs \<noteq> [] \<Longrightarrow> ?thesis" by (cases cs) (simp_all add: best_priority_def)
qed

lemma highest_priority_nonempty: "cs \<noteq> [] \<Longrightarrow> highest_priority cs \<noteq> []"
  using best_priority_max [of cs] by (force simp: highest_priority_def filter_empty_conv)

lemma highest_priority_top: "c \<in> set (highest_priority cs) \<Longrightarrow> d \<in> set cs \<Longrightarrow> ca_priority d \<le> ca_priority c"
proof -
  assume c: "c \<in> set (highest_priority cs)" and d: "d \<in> set cs"
  then have "cs \<noteq> []" by auto
  from best_priority_max [OF this] c d show ?thesis by (force simp: highest_priority_def)
qed

end
