(* ===== verification/Pick_Properties.thy ===== *)
theory Pick_Properties
  imports Pick_Safety
begin

text \<open>The properties of credential selection and of retry planning.\<close>

subsection \<open>Somebody able to serve is in the pool\<close>

definition able :: "selection_input \<Rightarrow> credential_entry \<Rightarrow> model_route \<Rightarrow> bool" where
  "able i entry g \<longleftrightarrow>
     (let c = en_credential entry in
      may_serve i c \<and> 0 < cr_weight c \<and>
      (case resolve_model_route c (pq_model (si_request i)) (routing_of i) of
         None \<Rightarrow> False | Some r \<Rightarrow> granted_route c r (si_reach i) = Some g) \<and>
      length (mr_upstream_models g) = 1 \<and> \<not> mr_pooled g \<and> held_by_limit (si_spend i) (cr_id c) = None \<and>
      \<not> bk_blocked (is_blocked_for_model c (en_state entry) (mr_selection_model g) (si_now i)))"

lemma gather_step_mono: "set (ga_all g) \<subseteq> set (ga_all (gather_step i g entry))"
  by (auto simp: gather_step_def Let_def split: option.split list.split)

lemma gather_step_adds: "able i entry r \<Longrightarrow> make_candidate entry r \<in> set (ga_all (gather_step i g entry))"
  by (auto simp: able_def gather_step_def Let_def split: option.splits)

lemma gather_fold_mono: "set (ga_all g) \<subseteq> set (ga_all (foldl (gather_step i) g entries))"
proof (induction entries arbitrary: g)
  case (Cons e entries)
  then show ?case using gather_step_mono [of g i e] by (fastforce simp del: subset_iff)
qed simp

lemma gather_fold_adds:
  "entry \<in> set entries \<Longrightarrow> able i entry r \<Longrightarrow> make_candidate entry r \<in> set (ga_all (foldl (gather_step i) g entries))"
proof (induction entries arbitrary: g)
  case (Cons e entries)
  show ?case
  proof (cases "e = entry")
    case True
    then show ?thesis
      using gather_step_adds [OF Cons.prems(2), of g] gather_fold_mono [of "gather_step i g entry" i entries] by auto
  next
    case False
    then show ?thesis using Cons by simp
  qed
qed simp

lemma able_available:
  assumes "entry \<in> set (si_credentials i)" "able i entry r"
  shows "\<exists>available. available_candidates i = Inl available \<and> make_candidate entry r \<in> set available"
proof -
  let ?c = "make_candidate entry r"
  have "?c \<in> set (ga_all (gather_candidates i))"
    using gather_fold_adds [OF assms] by (simp add: gather_candidates_def Let_def)
  moreover have "wt_weight ?c > 0" using assms(2) by (simp add: able_def Let_def make_candidate_def)
  moreover have "free_to_serve i ?c" using assms(2) by (simp add: able_def Let_def make_candidate_def free_to_serve_def)
  ultimately have mem: "?c \<in> set (filter (free_to_serve i) (candidate_pool i))" by (simp add: candidate_pool_def)
  have "executor_key (en_credential entry) \<in> set (provider_set (pq_providers (si_request i)))"
    using assms(2) by (simp add: able_def Let_def may_serve_def)
  then have "provider_set (pq_providers (si_request i)) \<noteq> []" by (metis empty_iff list.set(1))
  moreover have "filter (free_to_serve i) (candidate_pool i) \<noteq> []" using mem by (metis empty_iff list.set(1))
  ultimately have "available_candidates i = Inl (filter (free_to_serve i) (candidate_pool i))"
    by (simp only: available_candidates_Inl) simp
  then show ?thesis using mem by blast
qed

definition is_picked :: "selection_outcome \<Rightarrow> bool" where
  "is_picked out = (case out of Picked _ \<Rightarrow> True | NotPicked _ \<Rightarrow> False)"

lemma is_picked_simps [simp]: "is_picked (done_pick (Some c) keys)" "is_picked (lcp_done c nm sq v)"
  by (simp_all add: is_picked_def done_pick_def lcp_done_def)

lemma pick_bound_picked [simp]: "is_picked (fst (pick_bound names (Some c) now rt))"
  by (simp add: pick_bound_def case_prod_beta Let_def)

lemma select_credential_some:
  assumes av: "available_candidates i = Inl available"
  shows "is_picked (fst (select_credential sha matcher i rt))"
proof -
  have ne: "available \<noteq> []" and eq: "available = filter (free_to_serve i) (candidate_pool i)"
    using av by (auto simp: available_candidates_Inl)
  have "sx_strategy (si_settings i) = WeightedRoundRobin \<longrightarrow> (\<forall>c \<in> set available. 0 < wt_weight c)"
    unfolding eq by (simp add: candidate_pool_def)
  then have w: "sx_strategy (si_settings i) = WeightedRoundRobin \<longrightarrow> (\<forall>c \<in> set (highest_priority available). 0 < wt_weight c)"
    using highest_priority_subset by blast
  have strat: "\<exists>c rot'. strategy_pick i (highest_priority available) rot = (Some c, rot')" for rot
    by (rule strategy_pick_some [OF highest_priority_nonempty [OF ne] w])
  have fresh: "is_picked (fst (pick_fresh i available rt))" for rt :: "'b selection_runtime"
    using strat [of "ru_rotation rt"] by (auto simp: pick_fresh_def)
  have conv: "is_picked (fst (bind_conversation matcher i available nm sq m rt))" for nm sq m rt
    using strat [of "ru_rotation rt"] by (auto simp: bind_conversation_def split: prod.split option.split)
  have lcp: "is_picked (fst (pick_by_lcp matcher i available nm sq m rt))" for nm sq m rt
    using conv by (auto simp: pick_by_lcp_def split: prod.split option.split)
  have sess: "is_picked (fst (pick_by_session sha i available s rt))" for s and rt :: "'b selection_runtime"
  proof -
    let ?names = "session_names_of sha (si_request i) s"
    obtain cached c1 where g: "get_and_refresh (nm_cache_key ?names) (si_now i) (ru_affinity rt) = (cached, c1)" by force
    obtain inh c2 where h: "inherited_candidate i available ?names cached c1 = (inh, c2)" by force
    obtain c rot where p: "strategy_pick i (highest_priority available) (ru_rotation rt) = (Some c, rot)" using strat by blast
    show ?thesis by (auto simp: pick_by_session_def Let_def g h p split: option.split)
  qed
  have "is_picked (fst (pick_for_session sha i available rt))" for rt :: "'b selection_runtime"
    using fresh sess by (auto simp: pick_for_session_def split: option.split)
  then show ?thesis using av fresh lcp by (auto simp: select_credential_def Let_def split: option.split)
qed

subsection \<open>Sessions stick\<close>

lemma affinity_frame [simp]:
  "sc_ttl (put_entry k a now c) = sc_ttl c" "sc_capacity (put_entry k a now c) = sc_capacity c"
  "sc_ttl (snd (affinity_get k now c)) = sc_ttl c" "sc_capacity (snd (affinity_get k now c)) = sc_capacity c"
  by (auto simp: put_entry_def Let_def affinity_get_def split: option.split)

lemma get_and_refresh_frame [simp]:
  "sc_ttl (snd (get_and_refresh k now c)) = sc_ttl c" "sc_capacity (snd (get_and_refresh k now c)) = sc_capacity c"
  using affinity_frame(3,4) [of k now c]
  by (cases "affinity_get k now c"; cases "fst (affinity_get k now c)"; simp add: get_and_refresh_def)+

lemma get_and_refresh_ok: "cache_ok c \<Longrightarrow> cache_ok (snd (get_and_refresh k now c))"
  using run_op_ok [of c "(OpGetAndRefresh k, now)"] by simp

lemma get_and_refresh_value: "fst (get_and_refresh k now c) = bound_to c k now"
  using affinity_get_value [of k now c] by (auto simp: get_and_refresh_def split: prod.split option.split)

text \<open>The previous newest entry survives the next write, when the cache has room for two.\<close>

lemma put_entry_keeps_last:
  assumes "2 \<le> sc_capacity c" "sc_entries c = m @ [(k, e)]" "k' \<noteq> k" "now < ae_expires e" "cache_ok c"
  shows "map_of (sc_entries (put_entry k' a now c)) k = Some e"
proof -
  let ?e' = "\<lparr>ae_auth = a, ae_expires = now + sc_ttl c\<rparr>"
  have ttl: "0 < sc_ttl c" using assms(5) by (simp add: cache_ok_def)
  have d: "AList.delete k' (sc_entries c) = AList.delete k' m @ [(k, e)]"
    using assms(2,3) by (simp add: AList.delete_eq)
  have "k \<notin> fst ` set m" using assms(2,5) by (auto simp: cache_ok_def distinct_keys_def)
  then have absent: "k \<notin> fst ` set (AList.delete k' m)" by (auto simp: AList.delete_eq)
  let ?s = "sweep_entries now (AList.delete k' m)"
  have sw: "sweep_entries now (AList.delete k' m @ [(k, e), (k', ?e')]) = ?s @ [(k, e), (k', ?e')]"
    using assms(4) ttl by (simp add: sweep_entries_def)
  have ev: "evict (sc_capacity c) (?s @ [(k, e), (k', ?e')]) = drop (length ?s + 2 - sc_capacity c) ?s @ [(k, e), (k', ?e')]"
    using assms(1) by (simp add: evict_def)
  have gone: "map_of xs k = None" if "set xs \<subseteq> set (AList.delete k' m)" for xs
    using that absent by (force simp: map_of_eq_None_iff)
  have "set (drop n ?s) \<subseteq> set (AList.delete k' m)" for n by (auto simp: sweep_entries_def dest: in_set_dropD)
  note absents = gone [OF this] gone [OF order_refl]
  have upd: "AList.update k' ?e' (AList.delete k' (sc_entries c)) = AList.delete k' m @ [(k, e), (k', ?e')]"
    by (subst update_after_delete, subst d) simp
  have "sc_entries (put_entry k' a now c) =
      (if sc_capacity c < length (AList.delete k' m @ [(k, e), (k', ?e')])
       then drop (length ?s + 2 - sc_capacity c) ?s @ [(k, e), (k', ?e')] else AList.delete k' m @ [(k, e), (k', ?e')])"
    by (simp only: put_entry_def Let_def upd sw ev) simp
  then show ?thesis using absents assms(3) by (simp add: map_add_Some_iff)
qed

lemma put_entry_last:
  assumes "cache_ok c"
  shows "\<exists>m. sc_entries (put_entry k a now c) = m @ [(k, \<lparr>ae_auth = a, ae_expires = now + sc_ttl c\<rparr>)]"
  using assms
  by (auto simp: put_entry_def Let_def update_after_delete evict_def sweep_entries_def cache_ok_def)

lemma bind_session_bound:
  assumes "cache_ok c" "2 \<le> sc_capacity c" "nm_cache_key names \<noteq> []" "a \<noteq> []" "nm_fallback_key names \<noteq> Some (nm_cache_key names)"
    "t < now + sc_ttl c"
  shows "bound_to (snd (bind_session names a now c)) (nm_cache_key names) t = Some a \<and> cache_ok (snd (bind_session names a now c))"
proof -
  let ?k = "nm_cache_key names"
  let ?e = "\<lparr>ae_auth = a, ae_expires = now + sc_ttl c\<rparr>"
  let ?c1 = "put_entry ?k a now c"
  have c1: "affinity_set ?k a now c = ?c1" "cache_ok ?c1" using assms(1,3,4) by (simp_all add: affinity_set_def put_entry_ok)
  have b1: "map_of (sc_entries ?c1) ?k = Some ?e" by (rule put_entry_bound [OF assms(1)])
  obtain m where m: "sc_entries ?c1 = m @ [(?k, ?e)]" using put_entry_last [OF assms(1)] by blast
  have ttl: "0 < sc_ttl c" using assms(1) by (simp add: cache_ok_def)
  have "map_of (sc_entries (affinity_set fk a now ?c1)) ?k = Some ?e \<and> cache_ok (affinity_set fk a now ?c1)" if "fk \<noteq> ?k" for fk
    using put_entry_keeps_last [OF _ m that _ c1(2), of now a] assms(2) ttl b1 c1(2)
    by (simp add: affinity_set_def put_entry_ok)
  then show ?thesis using assms(5,6) b1 c1 by (auto simp: bind_session_def Let_def bound_to_def split: option.split)
qed

lemma affinity_key_nonempty: "affinity_key s p i m \<noteq> []"
  by (simp add: key_parts)

lemma session_names_keys:
  "nm_cache_key (session_names_of sha q s) \<noteq> []"
  "nm_fallback_key (session_names_of sha q s) \<noteq> Some (nm_cache_key (session_names_of sha q s))"
  by (auto simp: session_names_of_def Let_def affinity_key_nonempty key_parts)

lemma done_pick_Picked:
  "done_pick (Some c) keys = Picked p \<Longrightarrow> se_entry p = ca_entry c"
  by (auto simp: done_pick_def)

lemma pick_bound_binds:
  assumes "pick_bound (session_names_of sha q s) (Some c) now rt = (Picked p, rt')" "wt_id c = cr_id (en_credential (ca_entry c))"
    "cache_ok (ru_affinity rt)" "2 \<le> sc_capacity (ru_affinity rt)" "cr_id (en_credential (se_entry p)) \<noteq> []"
    "t < now + sc_ttl (ru_affinity rt)"
  shows "bound_to (ru_affinity rt') (nm_cache_key (session_names_of sha q s)) t = Some (cr_id (en_credential (se_entry p)))"
proof -
  let ?names = "session_names_of sha q s"
  obtain keys cache where b: "bind_session ?names (wt_id c) now (ru_affinity rt) = (keys, cache)" by force
  have "se_entry p = ca_entry c" and r: "rt' = rt\<lparr>ru_affinity := cache\<rparr>"
    using assms(1) by (auto simp: pick_bound_def b dest: done_pick_Picked)
  then have w: "wt_id c = cr_id (en_credential (se_entry p))" using assms(2) by simp
  have "bound_to cache (nm_cache_key ?names) t = Some (wt_id c)"
    using bind_session_bound [OF assms(3,4), of ?names "wt_id c" t now] session_names_keys [of sha q s] b w assms(5,6)
    by simp
  then show ?thesis using w r by simp
qed

text \<open>A request with a session of its own is picked for by its session, whatever the matcher.\<close>

lemma select_for_session:
  assumes "available_candidates i = Inl available" "sx_session_affinity (si_settings i)"
    and "explicit_session (si_request i) = Some session"
  shows "select_credential sha matcher i rt = pick_by_session sha i available session rt"
proof -
  have "js_trim (sn_id session) \<noteq> []" using assms(3) by (auto simp: explicit_session_def split: option.splits if_splits)
  then have "pick_for_session sha i available rt = pick_by_session sha i available session rt"
    using assms(3) by (simp add: pick_for_session_def)
  then show ?thesis using assms by (simp add: select_credential_def Let_def split: option.split)
qed

lemma inherited_frame:
  assumes "inherited_candidate i available names cached cache = (inh, cache')" "cache_ok cache"
  shows "cache_ok cache' \<and> sc_ttl cache' = sc_ttl cache \<and> sc_capacity cache' = sc_capacity cache"
proof -
  have "cache' = cache \<or> (\<exists>fk. cache' = snd (affinity_get fk (si_now i) cache))"
    using assms(1) by (auto simp: inherited_candidate_def Let_def case_prod_beta split: option.splits if_splits)
  then show ?thesis using assms(2) affinity_get_ok by auto
qed

text \<open>Every way a session is served ends in one binding write over a cache of the same shape.\<close>

lemma pick_by_session_bound:
  assumes "pick_by_session sha i available session rt = (Picked s, rt')" "cache_ok (ru_affinity rt)"
  obtains c rt0 where "c \<in> set available" "cache_ok (ru_affinity rt0)" "sc_ttl (ru_affinity rt0) = sc_ttl (ru_affinity rt)"
    "sc_capacity (ru_affinity rt0) = sc_capacity (ru_affinity rt)"
    "pick_bound (session_names_of sha (si_request i) session) (Some c) (si_now i) rt0 = (Picked s, rt')"
proof -
  let ?names = "session_names_of sha (si_request i) session"
  obtain cached c1 where g: "get_and_refresh (nm_cache_key ?names) (si_now i) (ru_affinity rt) = (cached, c1)" by force
  have c1: "cache_ok c1" "sc_ttl c1 = sc_ttl (ru_affinity rt)" "sc_capacity c1 = sc_capacity (ru_affinity rt)"
    using get_and_refresh_ok [OF assms(2)] get_and_refresh_frame g by (metis snd_conv)+
  obtain inh c2 where h: "inherited_candidate i available ?names cached c1 = (inh, c2)" by force
  note c2 = inherited_frame [OF h c1(1)]
  obtain picked rot where p: "strategy_pick i (highest_priority available) (ru_rotation rt) = (picked, rot)" by force
  note unfolded = assms(1) [unfolded pick_by_session_def Let_def g h p prod.case]
  show thesis
  proof (cases "find_candidate available cached")
    case (Some c)
    then show thesis using that [of c "rt\<lparr>ru_affinity := c1\<rparr>"] unfolded c1 find_candidate_member by simp
  next
    case no_own: None
    show thesis
    proof (cases inh)
      case (Some c)
      have "c \<in> set available" using inherited_member [of i available ?names cached c1] h Some by simp
      then show thesis using that [of c "rt\<lparr>ru_affinity := c2\<rparr>"] unfolded no_own Some c1 c2 by simp
    next
      case no_inh: None
      show thesis
      proof (cases picked)
        case None
        then show thesis using unfolded no_own no_inh by (simp add: pick_bound_def done_pick_def)
      next
        case (Some c)
        then show thesis using that [of c "rt\<lparr>ru_rotation := rot, ru_affinity := c2\<rparr>"] unfolded no_own no_inh c1 c2 p
            strategy_pick_available by simp
      qed
    qed
  qed
qed

lemma find_candidate_some:
  "c \<in> set available \<Longrightarrow> \<exists>d. find_candidate available (Some (wt_id c)) = Some d \<and> wt_id d = wt_id c"
  by (induction available) (auto simp: find_candidate_def)

text \<open>A live binding to an available credential decides the pick.\<close>

definition picked_id :: "selection_outcome \<Rightarrow> string option" where
  "picked_id out = (case out of Picked s \<Rightarrow> Some (cr_id (en_credential (se_entry s))) | NotPicked _ \<Rightarrow> None)"

lemma pick_by_session_cached:
  assumes "available_candidates i = Inl available" "c \<in> set available"
    and "bound_to (ru_affinity rt) (nm_cache_key (session_names_of sha (si_request i) session)) (si_now i) = Some (wt_id c)"
  shows "picked_id (fst (pick_by_session sha i available session rt)) = Some (wt_id c)"
proof -
  let ?names = "session_names_of sha (si_request i) session"
  obtain c1 where g: "get_and_refresh (nm_cache_key ?names) (si_now i) (ru_affinity rt) = (Some (wt_id c), c1)"
    using get_and_refresh_value [of "nm_cache_key ?names" "si_now i" "ru_affinity rt"] assms(3) by (metis prod.collapse)
  obtain d where d: "find_candidate available (Some (wt_id c)) = Some d" "wt_id d = wt_id c"
    using find_candidate_some [OF assms(2)] by blast
  have "cr_id (en_credential (ca_entry d)) = wt_id d"
    using available_ok [OF assms(1)] find_candidate_member [OF d(1)] by (simp add: candidate_ok_def)
  then show ?thesis
    by (simp add: pick_by_session_def Let_def g d pick_bound_def case_prod_beta done_pick_def picked_id_def)
qed

subsection \<open>Concrete requests\<close>

definition sample_request :: pick_request where
  "sample_request = \<lparr>pq_providers = [''Claude''], pq_model = ''m(8k)'', pq_tried = [], pq_retry_round = 0, pq_request_retry = 0,
     pq_pinned_auth_id = None, pq_member_id = Some ''u1'', pq_require_auth_kind = None, pq_disallow_free_codex = False,
     pq_prefer_websockets = False, pq_ignore_cooldown = False,
     pq_session = Some \<lparr>sn_id = ''s'', sn_parent_id = Some ''p'', sn_is_fork = False, sn_caller_scope = Some ''k1''\<rparr>,
     pq_lcp = None, pq_fallback_session = None\<rparr>"

definition sample_grant :: grant_value where
  "sample_grant = \<lparr>gr_subject = Everyone, gr_scope = ScopeProvider ''claude'', gr_models = [''m*'']\<rparr>"

definition sample_holder :: grant_holder where
  "sample_holder = \<lparr>gh_member = Some ''u1'', gh_teams = []\<rparr>"

definition sample_other :: credential where
  "sample_other = sample_credential\<lparr>cr_id := ''b'', cr_priority := 5\<rparr>"

definition sample_third :: credential where
  "sample_third = sample_credential\<lparr>cr_id := ''c'', cr_priority := 5\<rparr>"

definition sample_entry :: "credential \<Rightarrow> credential_entry" where
  "sample_entry c = \<lparr>en_credential = c, en_state = empty_state\<rparr>"

definition sample_input :: "bool \<Rightarrow> ms \<Rightarrow> selection_input" where
  "sample_input affinity now =
     \<lparr>si_credentials = map sample_entry [sample_credential, sample_other, sample_third], si_request = sample_request,
      si_settings = \<lparr>sx_force_model_prefix = False, sx_oauth_model_alias = [], sx_strategy = RoundRobin,
        sx_session_affinity = affinity, sx_session_affinity_subagents = True\<rparr>,
      si_reach = reach_of [sample_grant] sample_holder, si_now = now, si_spend = None\<rparr>"

definition no_matcher :: "unit lcp_matcher" where
  "no_matcher = \<lparr>mt_match = (\<lambda>_ _ _ m. (None, m)), mt_bind = (\<lambda>_ _ _ _ m. (None, m))\<rparr>"

definition sample_runtime :: "unit selection_runtime" where
  "sample_runtime = \<lparr>ru_rotation = new_rotation 4, ru_affinity = new_session_cache 1000 8, ru_lcp = None\<rparr>"

subsection \<open>Properties\<close>

text \<open>C2. Whatever the strategy, the sessions and the matcher do, a picked credential is one the request may use: it is
  enabled, serves the member, is the pinned one if one is pinned, was not tried, has an executor the request asks for,
  is not at its limit, and, if shared, is used only for models a grant of the caller names.\<close>

theorem pick_respects_access:
  assumes "fst (select_credential sha matcher i rt) = Picked s" "si_reach i = reach_of gs h"
  shows "se_entry s \<in> set (si_credentials i) \<and>
    (let c = en_credential (se_entry s); q = si_request i in
       \<not> cr_disabled c \<and> serves_member c (pq_member_id q) \<and> cr_id c \<notin> set (pq_tried q) \<and>
       (trimmed_option (pq_pinned_auth_id q) \<noteq> [] \<longrightarrow> cr_id c = trimmed_option (pq_pinned_auth_id q)) \<and>
       executor_key c \<in> set (provider_set (pq_providers q)) \<and> held_by_limit (si_spend i) (cr_id c) = None \<and>
       (cr_owner c = None \<longrightarrow> shared_blocked (si_spend i) = None \<and>
          (\<forall>m \<in> set (mr_upstream_models (se_route s)). canonical_model_key m \<noteq> [] \<longrightarrow>
             (\<exists>g \<in> set gs. grant_names g h \<and> grant_covers g (target_of c) \<and> is_model_excluded (gr_models g) m))))"
proof -
  from picked_candidate [OF assms(1)] obtain cand where cand: "candidate_ok i cand" "free_to_serve i cand"
    "se_entry s = ca_entry cand" "se_route s = ca_route cand" by blast
  define c where "c = en_credential (se_entry s)"
  have may: "may_serve i c" and entry: "se_entry s \<in> set (si_credentials i)" and idc: "wt_id cand = cr_id c"
    and granted: "granted_for i c (se_route s)" using cand by (auto simp: candidate_ok_def c_def)
  have free: "held_by_limit (si_spend i) (cr_id c) = None" using cand(2) idc by (simp add: free_to_serve_def)
  have permits: "\<exists>g \<in> set gs. grant_names g h \<and> grant_covers g (target_of c) \<and> is_model_excluded (gr_models g) m"
    if owner: "cr_owner c = None" and mem: "m \<in> set (mr_upstream_models (se_route s))" and key: "canonical_model_key m \<noteq> []" for m
  proof -
    from granted obtain r g where "granted_route c r (reach_of gs h) = Some g" "m \<in> set (mr_upstream_models g)"
      using mem assms(2) by (auto simp: granted_for_def split: option.splits)
    then show ?thesis using grants.granted_permits owner key reach_permits_iff by blast
  qed
  show ?thesis
    using may entry free permits unfolding c_def [symmetric] Let_def may_serve_def by auto
qed

theorem pick_respects_access_witness:
  "let out = fst (select_credential (\<lambda>_. []) no_matcher (sample_input True 0) sample_runtime); s = (case out of Picked s \<Rightarrow> s)
   in se_entry s \<in> set (si_credentials (sample_input True 0)) \<and>
    (let c = en_credential (se_entry s); q = si_request (sample_input True 0) in
       \<not> cr_disabled c \<and> serves_member c (pq_member_id q) \<and> cr_id c \<notin> set (pq_tried q) \<and>
       (trimmed_option (pq_pinned_auth_id q) \<noteq> [] \<longrightarrow> cr_id c = trimmed_option (pq_pinned_auth_id q)) \<and>
       executor_key c \<in> set (provider_set (pq_providers q)) \<and> held_by_limit (si_spend (sample_input True 0)) (cr_id c) = None \<and>
       (cr_owner c = None \<longrightarrow> shared_blocked (si_spend (sample_input True 0)) = None \<and>
          (\<forall>m \<in> set (mr_upstream_models (se_route s)). canonical_model_key m \<noteq> [] \<longrightarrow>
             (\<exists>g \<in> set [sample_grant]. grant_names g sample_holder \<and> grant_covers g (target_of c) \<and>
                is_model_excluded (gr_models g) m))))"
proof -
  let ?out = "fst (select_credential (\<lambda>_. []) no_matcher (sample_input True 0) sample_runtime)"
  have picked: "is_picked ?out" by code_simp
  then have "?out = Picked (case ?out of Picked s \<Rightarrow> s)" by (cases ?out) (simp_all add: is_picked_def)
  moreover have "si_reach (sample_input True 0) = reach_of [sample_grant] sample_holder" by (simp add: sample_input_def)
  ultimately show ?thesis unfolding Let_def [where s = ?out] Let_def [where s = "case ?out of Picked s \<Rightarrow> s"]
    by (rule pick_respects_access)
qed

text \<open>A picked credential can serve the picked route now: its excluded models are not on the route, no model of a
  pool is cooling, and the model the pick was for is not blocked either, unless the request ignores cooldowns, which
  lets a cooldown pass but no other block.\<close>

theorem pick_can_serve:
  assumes "fst (select_credential sha matcher i rt) = Picked s"
  shows "(\<forall>m \<in> set (mr_upstream_models (se_route s)).
            \<not> is_model_excluded (cr_excluded_models (en_credential (se_entry s))) m \<and>
            (mr_pooled (se_route s) \<longrightarrow>
               \<not> bk_blocked (is_blocked_for_model (en_credential (se_entry s)) (en_state (se_entry s)) m (si_now i)))) \<and>
    (let block = is_blocked_for_model (en_credential (se_entry s)) (en_state (se_entry s)) (mr_selection_model (se_route s)) (si_now i)
     in bk_blocked block \<longrightarrow> pq_ignore_cooldown (si_request i) \<and> bk_reason block = BlockCooldown)"
proof -
  from picked_candidate [OF assms(1)] obtain cand where cand: "candidate_ok i cand" "free_to_serve i cand"
    "se_entry s = ca_entry cand" "se_route s = ca_route cand" by blast
  from cand(1) obtain r g where r: "resolve_model_route (en_credential (ca_entry cand)) (pq_model (si_request i)) (routing_of i) = Some r"
    and g: "granted_route (en_credential (ca_entry cand)) r (si_reach i) = Some g"
    and sub: "set (mr_upstream_models (ca_route cand)) \<subseteq> set (mr_upstream_models g)"
    by (auto simp: candidate_ok_def granted_for_def split: option.splits)
  have "\<not> is_model_excluded (cr_excluded_models (en_credential (ca_entry cand))) m"
    if "m \<in> set (mr_upstream_models (ca_route cand))" for m
    using resolve_model_route_ok [OF r] granted_route_models [OF g] sub that by blast
  then show ?thesis using cand by (auto simp: candidate_ok_def pool_usable_def free_to_serve_def Let_def)
qed

theorem pick_can_serve_witness:
  "let s = (case fst (select_credential (\<lambda>_. []) no_matcher (sample_input True 0) sample_runtime) of Picked s \<Rightarrow> s) in
     bk_blocked (is_blocked_for_model (en_credential (se_entry s)) (en_state (se_entry s)) (mr_selection_model (se_route s))
       (si_now (sample_input True 0))) \<longrightarrow> pq_ignore_cooldown (si_request (sample_input True 0))"
proof -
  let ?out = "fst (select_credential (\<lambda>_. []) no_matcher (sample_input True 0) sample_runtime)"
  have "is_picked ?out" by code_simp
  then have "?out = Picked (case ?out of Picked s \<Rightarrow> s)" by (cases ?out) (simp_all add: is_picked_def)
  from pick_can_serve [OF this] show ?thesis by (simp only: Let_def) blast
qed



text \<open>Without session affinity, no credential able to serve has a higher priority than the picked one.\<close>

theorem pick_prefers_priority:
  assumes "\<not> sx_session_affinity (si_settings i)" "fst (select_credential sha matcher i rt) = Picked s"
    and "entry \<in> set (si_credentials i)" "able i entry r"
  shows "cr_priority (en_credential entry) \<le> cr_priority (en_credential (se_entry s))"
proof -
  obtain available where av: "available_candidates i = Inl available" "make_candidate entry r \<in> set available"
    using able_available [OF assms(3,4)] by blast
  obtain c rot where p: "strategy_pick i (highest_priority available) (ru_rotation rt) = (Some c, rot)" "se_entry s = ca_entry c"
    using assms(1,2) av(1)
    by (cases "strategy_pick i (highest_priority available) (ru_rotation rt)")
      (auto simp: select_credential_def pick_fresh_def done_pick_def split: option.splits)
  have "c \<in> set (highest_priority available)" using strategy_pick_member [of i _ "ru_rotation rt" c] p(1) by simp
  from highest_priority_top [OF this av(2)] available_ok [OF av(1), of c] strategy_pick_available [OF p(1)] p(2)
  show ?thesis by (simp add: candidate_ok_def make_candidate_def)
qed

theorem pick_prefers_priority_witness:
  "cr_priority (en_credential (sample_entry sample_credential)) \<le>
     cr_priority (en_credential (se_entry (case fst (select_credential (\<lambda>_. []) no_matcher (sample_input False 0) sample_runtime)
       of Picked s \<Rightarrow> s)))"
proof (rule pick_prefers_priority [where r = "make_route ''m(8k)'' ''m(8k)'' [''m(8k)''] ''m(8k)'' False ''m(8k)''"])
  let ?out = "fst (select_credential (\<lambda>_. []) no_matcher (sample_input False 0) sample_runtime)"
  have "is_picked ?out" by code_simp
  then show "?out = Picked (case ?out of Picked s \<Rightarrow> s)" by (cases ?out) (simp_all add: is_picked_def)
qed code_simp+



end
