(* ===== verification/Retry_Properties.thy ===== *)
theory Retry_Properties
  imports Retry Credential_Model
begin

text \<open>What a retry plan promises: how long it waits, whose credentials it counts, and that rounds run out.\<close>

subsection \<open>The loop\<close>

definition plan_inv :: "plan_state \<Rightarrow> bool" where
  "plan_inv s \<longleftrightarrow> (ps_found s \<longrightarrow> ps_allowed s \<and> 0 \<le> ps_min_wait s)"

lemma note_wait_inv: "plan_inv s \<Longrightarrow> ps_allowed s \<Longrightarrow> 0 \<le> w \<Longrightarrow> plan_inv (note_wait w s)"
  by (simp add: plan_inv_def note_wait_def)

lemma note_wait_fields [simp]:
  "ps_allowed (note_wait w s) = ps_allowed s" "ps_found (note_wait w s)"
  "ps_min_wait (note_wait w s) = (if ps_found s then min (ps_min_wait s) w else w)"
  by (auto simp: note_wait_def)

lemma plan_step_inv:
  assumes "plan_inv s"
  shows "case plan_step i s entry of Inl s' \<Rightarrow> plan_inv s' | Inr plan \<Rightarrow> plan = RetryIn 0"
proof -
  have allowed: "plan_inv (s\<lparr>ps_allowed := True\<rparr>)" using assms by (simp add: plan_inv_def)
  have noted: "plan_inv (note_wait w (s\<lparr>ps_allowed := True\<rparr>))" if "0 \<le> w" for w
    using note_wait_inv [OF allowed _ that] by simp
  have floor: "0 \<le> max w min_quota_cooldown_ms" for w by (simp add: min_quota_cooldown_ms_def)
  show ?thesis using assms allowed noted floor
    by (auto simp: plan_step_def Let_def min_quota_cooldown_ms_def split: option.split)
qed

lemma plan_loop_inv:
  "plan_inv s \<Longrightarrow> case plan_loop i s entries of Inl s' \<Rightarrow> plan_inv s' | Inr plan \<Rightarrow> plan = RetryIn 0"
proof (induction entries arbitrary: s)
  case (Cons e entries)
  then show ?case using plan_step_inv [OF Cons.prems, of i e] by (cases "plan_step i s e") simp_all
qed simp

lemma plan_start_inv: "plan_inv \<lparr>ps_allowed = False, ps_found = False, ps_min_wait = 0\<rparr>"
  by (simp add: plan_inv_def)

lemma finish_plan_wait:
  "plan_inv s \<Longrightarrow> finish_plan q s = RetryIn w \<Longrightarrow> 0 \<le> w \<and> (w = 0 \<or> w \<le> rq_max_wait_ms q)"
  by (auto simp: finish_plan_def plan_inv_def Let_def split: if_splits option.splits)

lemma plan_step_filter:
  "retry_candidate i entry = None \<Longrightarrow> plan_step i s entry = Inl s"
  by (simp add: plan_step_def)

lemma plan_loop_filter:
  assumes "\<And>entry. \<not> P entry \<Longrightarrow> retry_candidate i entry = None"
  shows "plan_loop i s (filter P entries) = plan_loop i s entries"
proof (induction entries arbitrary: s)
  case (Cons e entries)
  then show ?case
    by (cases "P e") (simp_all add: plan_step_filter [OF assms] split: sum.split)
qed simp

lemma retry_candidate_frame: "retry_candidate (i\<lparr>ri_credentials := es\<rparr>) entry = retry_candidate i entry"
  by (simp add: retry_candidate_def Let_def cong: if_cong option.case_cong)

lemma plan_step_frame: "plan_step (i\<lparr>ri_credentials := es\<rparr>) s entry = plan_step i s entry"
  by (simp add: plan_step_def retry_candidate_frame Let_def cong: if_cong option.case_cong)

lemma plan_loop_frame: "plan_loop (i\<lparr>ri_credentials := es\<rparr>) s entries = plan_loop i s entries"
  by (induction entries arbitrary: s) (simp_all add: plan_step_frame split: sum.split)

lemma plan_loop_none:
  "\<forall>entry \<in> set entries. retry_candidate i entry = None \<Longrightarrow> plan_loop i s entries = Inl s"
  by (induction entries) (simp_all add: plan_step_filter)

lemma exhausted_candidate:
  "effective_request_retry (en_credential entry) (rq_request_retry (ri_query i)) \<le> rq_round (ri_query i) \<Longrightarrow>
     retry_candidate i entry = None"
  by (simp add: retry_candidate_def Let_def)

lemma stranger_candidate:
  "\<not> serves_member (en_credential entry) (rq_member_id (ri_query i)) \<Longrightarrow> retry_candidate i entry = None"
  by (simp add: retry_candidate_def Let_def)

text \<open>After a 429, with everybody tried, each eligible credential leaves a wait of the minimum or more.\<close>

definition long_wait :: "plan_state \<Rightarrow> bool" where
  "long_wait s \<longleftrightarrow> (ps_allowed s \<longrightarrow> ps_found s) \<and> (ps_found s \<longrightarrow> min_quota_cooldown_ms \<le> ps_min_wait s)"

lemma plan_step_long:
  assumes "long_wait s" "rq_status (ri_query i) = 429" "cr_id (en_credential entry) \<in> set (rq_attempted (ri_query i))"
    "\<not> ri_cooling_disabled i (en_credential entry)"
  shows "\<exists>s'. plan_step i s entry = Inl s' \<and> long_wait s'"
proof -
  have "long_wait (note_wait w (s\<lparr>ps_allowed := True\<rparr>))" if "min_quota_cooldown_ms \<le> w" for w
    using assms(1) that by (auto simp: long_wait_def)
  then show ?thesis using assms by (auto simp: plan_step_def Let_def split: option.split)
qed

lemma plan_loop_long:
  assumes "long_wait s" "rq_status (ri_query i) = 429"
    "\<forall>entry \<in> set entries. cr_id (en_credential entry) \<in> set (rq_attempted (ri_query i)) \<and> \<not> ri_cooling_disabled i (en_credential entry)"
  shows "\<exists>s'. plan_loop i s entries = Inl s' \<and> long_wait s'"
  using assms(1,3)
proof (induction entries arbitrary: s)
  case (Cons e entries)
  from plan_step_long [OF Cons.prems(1) assms(2)] Cons.prems(2)
  obtain s' where "plan_step i s e = Inl s'" "long_wait s'" by force
  then show ?case using Cons by simp
qed simp

lemma finish_plan_long: "long_wait s \<Longrightarrow> finish_plan q s = RetryIn w \<Longrightarrow> min_quota_cooldown_ms \<le> w"
  by (auto simp: finish_plan_def long_wait_def Let_def split: if_splits)

subsection \<open>Concrete plans\<close>

definition sample_query :: retry_query where
  "sample_query = \<lparr>rq_providers = [''claude''], rq_model = ''m'', rq_round = 0, rq_request_retry = 3, rq_status = 429,
     rq_attempted = [''a''], rq_retry_after_ms = None, rq_max_wait_ms = 30000, rq_pinned_auth_id = None,
     rq_member_id = Some ''u1'', rq_require_auth_kind = None, rq_disallow_free_codex = False\<rparr>"

definition sample_plan :: retry_plan_input where
  "sample_plan = \<lparr>ri_credentials = [\<lparr>en_credential = sample_credential, en_state = empty_state\<rparr>], ri_query = sample_query,
     ri_routing = \<lparr>rx_force_model_prefix = False, rx_oauth_model_alias = [], rx_known_prefixes = []\<rparr>, ri_reach = allow_all,
     ri_cooling_disabled = (\<lambda>_. False), ri_now = 0, ri_spend = None\<rparr>"

definition sample_private :: credential_entry where
  "sample_private = \<lparr>en_credential = sample_credential\<lparr>cr_id := ''x'', cr_owner := Some ''u2''\<rparr>, en_state = empty_state\<rparr>"

subsection \<open>Properties\<close>

text \<open>A retry round starts at once or after a wait that is not negative and within the longest wait allowed.\<close>

theorem retry_wait_within_bounds:
  assumes "plan_retry i = RetryIn w"
  shows "0 \<le> w \<and> (w = 0 \<or> w \<le> rq_max_wait_ms (ri_query i))"
  using assms plan_loop_inv [OF plan_start_inv, of i "ri_credentials i"] finish_plan_wait
  by (auto simp: plan_retry_def Let_def split: if_splits sum.splits)

theorem retry_wait_within_bounds_witness: "(0::int) \<le> 10000 \<and> ((10000::int) = 0 \<or> 10000 \<le> rq_max_wait_ms (ri_query sample_plan))"
  by (rule retry_wait_within_bounds) code_simp

text \<open>After a 429, when every credential was tried in the failed round and cools down, no retry starts within the
  minimum quota cooldown: the upstream is never hammered.\<close>

theorem rate_limited_round_waits:
  assumes "rq_status (ri_query i) = 429" "plan_retry i = RetryIn w"
    and "\<forall>entry \<in> set (ri_credentials i).
      cr_id (en_credential entry) \<in> set (rq_attempted (ri_query i)) \<and> \<not> ri_cooling_disabled i (en_credential entry)"
  shows "min_quota_cooldown_ms \<le> w"
proof -
  have "long_wait \<lparr>ps_allowed = False, ps_found = False, ps_min_wait = 0\<rparr>" by (simp add: long_wait_def)
  from plan_loop_long [OF this assms(1,3)] show ?thesis using assms(2) finish_plan_long
    by (auto simp: plan_retry_def Let_def split: if_splits)
qed

theorem rate_limited_round_waits_witness: "min_quota_cooldown_ms \<le> 10000"
  by (rule rate_limited_round_waits [where i = sample_plan]) code_simp+

text \<open>A plan depends only on the credentials that serve the member: other members' private credentials neither keep a
  retry alive nor change its wait.\<close>

theorem retry_ignores_strangers:
  "plan_retry (i\<lparr>ri_credentials := filter (\<lambda>e. serves_member (en_credential e) (rq_member_id (ri_query i))) (ri_credentials i)\<rparr>) =
     plan_retry i"
  using plan_loop_filter [where P = "\<lambda>e. serves_member (en_credential e) (rq_member_id (ri_query i))", OF stranger_candidate]
  by (simp add: plan_retry_def Let_def plan_loop_frame)

text \<open>C34. Rounds run out: once the round has reached every credential's retry budget, nothing is retried.\<close>

theorem retry_rounds_run_out:
  assumes "\<forall>entry \<in> set (ri_credentials i).
    effective_request_retry (en_credential entry) (rq_request_retry (ri_query i)) \<le> rq_round (ri_query i)"
  shows "plan_retry i = NoRetry None"
  using plan_loop_none [of "ri_credentials i" i] exhausted_candidate assms
  by (auto simp: plan_retry_def Let_def finish_plan_def)

theorem retry_rounds_run_out_witness: "plan_retry (sample_plan\<lparr>ri_query := sample_query\<lparr>rq_round := 3\<rparr>\<rparr>) = NoRetry None"
  by (rule retry_rounds_run_out) code_simp

end
