(* ===== verification/Spend_Ledger.thy ===== *)
theory Spend_Ledger
  imports Spend_Model
begin

text \<open>
  The Spend ledger (\<open>packages/state/src/spend/ledger.ts\<close>): which limits a request meets (the gate), which scopes its
  cost is charged to, and the charge. The ledger works over any \<open>SpendBook\<close>: a record of the four operations it calls
  on a state of its own. \<open>spend_book_laws\<close> states what it relies on; \<open>Spend_Store\<close> provides it.
\<close>

record 'b spend_book =
  bk_settings :: "'b \<Rightarrow> spend_settings"
  bk_limits :: "'b \<Rightarrow> spend_limit list"
  bk_spent :: "spend_scope \<Rightarrow> period \<Rightarrow> ms \<Rightarrow> 'b \<Rightarrow> int"
  bk_charge :: "spend_scope \<Rightarrow> period \<Rightarrow> ms \<Rightarrow> int \<Rightarrow> 'b \<Rightarrow> 'b"

type_synonym teams_of = "string \<Rightarrow> string list"

definition same_scope :: "spend_limit \<Rightarrow> spend_scope \<Rightarrow> bool" where
  "same_scope l sc \<longleftrightarrow> sl_kind l = ss_kind sc \<and> sl_subject l = ss_subject sc"

definition scope_of :: "spend_limit \<Rightarrow> spend_scope" where
  "scope_of l = \<lparr>ss_kind = sl_kind l, ss_subject = sl_subject l\<rparr>"

definition bounds_at :: "calendar \<Rightarrow> 'b spend_book \<Rightarrow> 'b \<Rightarrow> ms \<Rightarrow> period \<Rightarrow> period_bounds" where
  "bounds_at cal book b now p = (let s = bk_settings book b in cal p now (st_time_zone s) (st_week_start s))"

subsection \<open>Scopes\<close>

definition key_scopes :: "spend_caller \<Rightarrow> spend_scope list" where
  "key_scopes caller = (case sp_api_key_id caller of None \<Rightarrow> [] | Some k \<Rightarrow> [\<lparr>ss_kind = KKey, ss_subject = k\<rparr>])"

definition shared_scopes :: "teams_of \<Rightarrow> spend_caller \<Rightarrow> spend_scope list" where
  "shared_scopes teams caller =
     (case sp_member_id caller of
        None \<Rightarrow> []
      | Some m \<Rightarrow> \<lparr>ss_kind = KMember, ss_subject = m\<rparr> # map (\<lambda>t. \<lparr>ss_kind = KTeam, ss_subject = t\<rparr>) (teams m)) @
     [\<lparr>ss_kind = KOrg, ss_subject = org_subject\<rparr>] @
     (case sp_agent_id caller of None \<Rightarrow> [] | Some a \<Rightarrow> [\<lparr>ss_kind = KAgent, ss_subject = a\<rparr>])"

definition charged_scopes :: "teams_of \<Rightarrow> spend_caller \<Rightarrow> charged_credential \<Rightarrow> spend_scope list" where
  "charged_scopes teams caller c =
     key_scopes caller @
     (if cc_shared c
      then shared_scopes teams caller @
        [\<lparr>ss_kind = (case cc_kind c of None \<Rightarrow> KCredential | Some k \<Rightarrow> k), ss_subject = cc_id c\<rparr>]
      else [])"

subsection \<open>Limits without room\<close>

fun kind_name :: "subject_kind \<Rightarrow> string" where
  "kind_name KMember = ''member''"
| "kind_name KTeam = ''team''"
| "kind_name KOrg = ''org''"
| "kind_name KCredential = ''credential''"
| "kind_name KKey = ''key''"
| "kind_name KToolkitCredential = ''toolkit_credential''"
| "kind_name KAgent = ''agent''"

fun period_name :: "period \<Rightarrow> string" where
  "period_name Day = ''day''"
| "period_name Week = ''week''"
| "period_name Month = ''month''"

definition limit_key :: "spend_limit \<Rightarrow> string" where
  "limit_key l = join_with [CHR 0x00] [kind_name (sl_kind l), sl_subject l, period_name (sl_period l)]"

definition smallest_step ::
  "spend_scope list \<Rightarrow> (string, spend_limit) js_map \<Rightarrow> spend_limit \<Rightarrow> (string, spend_limit) js_map" where
  "smallest_step scopes m l =
     (if \<not> list_ex (same_scope l) scopes then m
      else (case map_of m (limit_key l) of
              None \<Rightarrow> AList.update (limit_key l) l m
            | Some known \<Rightarrow> if sl_amount l < sl_amount known then AList.update (limit_key l) l m else m))"

definition smallest_limits :: "spend_limit list \<Rightarrow> spend_scope list \<Rightarrow> (string, spend_limit) js_map" where
  "smallest_limits limits scopes = foldl (smallest_step scopes) [] limits"

definition no_room :: "'b spend_book \<Rightarrow> 'b \<Rightarrow> (period \<Rightarrow> period_bounds) \<Rightarrow> spend_limit \<Rightarrow> bool" where
  "no_room book b bounds l \<longleftrightarrow>
     \<not> bk_spent book (scope_of l) (sl_period l) (pb_start (bounds (sl_period l))) b < sl_amount l"

definition exhausted_step ::
  "'b spend_book \<Rightarrow> 'b \<Rightarrow> (period \<Rightarrow> period_bounds) \<Rightarrow> refusal option \<Rightarrow> spend_limit \<Rightarrow> refusal option" where
  "exhausted_step book b bounds r l =
     (let end_ms = pb_end (bounds (sl_period l)) in
      if \<not> no_room book b bounds l then r
      else if (case r of None \<Rightarrow> True | Some old \<Rightarrow> end_ms > rf_resets_at old)
           then Some \<lparr>rf_kind = sl_kind l, rf_period = sl_period l, rf_resets_at = end_ms\<rparr> else r)"

definition exhausted ::
  "'b spend_book \<Rightarrow> 'b \<Rightarrow> spend_limit list \<Rightarrow> spend_scope list \<Rightarrow> (period \<Rightarrow> period_bounds) \<Rightarrow> refusal option" where
  "exhausted book b limits scopes bounds =
     foldl (exhausted_step book b bounds) None (map snd (smallest_limits limits scopes))"

subsection \<open>The gate, the scopes, the refusal and the charge\<close>

definition held_step ::
  "(spend_scope list \<Rightarrow> refusal option) \<Rightarrow> (string, refusal) js_map \<Rightarrow> spend_limit \<Rightarrow> (string, refusal) js_map" where
  "held_step full held l =
     (if sl_kind l \<noteq> KCredential \<or> map_of held (sl_subject l) \<noteq> None then held
      else (case full [\<lparr>ss_kind = KCredential, ss_subject = sl_subject l\<rparr>] of
              None \<Rightarrow> held
            | Some r \<Rightarrow> AList.update (sl_subject l) r held))"

definition spend_gate_at ::
  "calendar \<Rightarrow> 'b spend_book \<Rightarrow> teams_of \<Rightarrow> spend_caller \<Rightarrow> ms \<Rightarrow> 'b \<Rightarrow> spend_gate option" where
  "spend_gate_at cal book teams caller now b =
     (let limits = bk_limits book b in
      if limits = [] then None
      else (let full = (\<lambda>scopes. exhausted book b limits scopes (bounds_at cal book b now));
                refuse = full (key_scopes caller); blocked = full (shared_scopes teams caller);
                credentials = foldl (held_step full) [] limits
            in if refuse = None \<and> blocked = None \<and> credentials = [] then None
               else Some \<lparr>sg_refuse = refuse, sg_shared_blocked = blocked, sg_credentials = credentials\<rparr>))"

definition spend_scopes :: "'b spend_book \<Rightarrow> teams_of \<Rightarrow> spend_caller \<Rightarrow> charged_credential \<Rightarrow> 'b \<Rightarrow> spend_scope list" where
  "spend_scopes book teams caller c b =
     (let limits = bk_limits book b in
      if limits = [] then []
      else filter (\<lambda>sc. list_ex (\<lambda>l. same_scope l sc) limits) (charged_scopes teams caller c))"

definition spend_refusal ::
  "calendar \<Rightarrow> 'b spend_book \<Rightarrow> teams_of \<Rightarrow> spend_caller \<Rightarrow> charged_credential \<Rightarrow> ms \<Rightarrow> 'b \<Rightarrow> refusal option" where
  "spend_refusal cal book teams caller c now b =
     (let limits = bk_limits book b in
      if limits = [] then None
      else exhausted book b limits (charged_scopes teams caller c) (bounds_at cal book b now))"

text \<open>\<open>Math.round\<close>: halves go up.\<close>

definition js_round :: "rat \<Rightarrow> int" where
  "js_round x = \<lfloor>x + 1 / 2\<rfloor>"

definition limited_periods :: "spend_limit list \<Rightarrow> spend_scope \<Rightarrow> period list" where
  "limited_periods limits sc = js_set (map sl_period (filter (\<lambda>l. same_scope l sc) limits))"

definition charge_scope ::
  "'b spend_book \<Rightarrow> spend_limit list \<Rightarrow> (period \<Rightarrow> period_bounds) \<Rightarrow> int \<Rightarrow> 'b \<Rightarrow> spend_scope \<Rightarrow> 'b" where
  "charge_scope book limits bounds amount b sc =
     foldl (\<lambda>b' p. bk_charge book sc p (pb_start (bounds p)) amount b') b (limited_periods limits sc)"

definition spend_charge :: "calendar \<Rightarrow> 'b spend_book \<Rightarrow> spend_scope list \<Rightarrow> rat \<Rightarrow> ms \<Rightarrow> 'b \<Rightarrow> 'b" where
  "spend_charge cal book scopes micros now b =
     (let amount = max 0 (js_round micros) in
      if amount = 0 \<or> scopes = [] then b
      else foldl (charge_scope book (bk_limits book b) (bounds_at cal book b now) amount) b scopes)"

subsection \<open>Exhaustion is about each limit\<close>

lemma kind_name_eq [simp]: "kind_name k = kind_name k' \<longleftrightarrow> k = k'"
  by (cases k; cases k') simp_all

lemma period_name_eq [simp]: "period_name p = period_name p' \<longleftrightarrow> p = p'"
  by (cases p; cases p') simp_all

lemma name_no_nul: "CHR 0x00 \<notin> set (kind_name k)" "CHR 0x00 \<notin> set (period_name p)"
  by (cases k; simp) (cases p; simp)

lemma limit_key_eq:
  "limit_key l = limit_key l' \<longleftrightarrow> scope_of l = scope_of l' \<and> sl_period l = sl_period l'"
proof
  assume "limit_key l = limit_key l'"
  then have e: "kind_name (sl_kind l) @ CHR 0x00 # (sl_subject l @ CHR 0x00 # period_name (sl_period l)) =
      kind_name (sl_kind l') @ CHR 0x00 # (sl_subject l' @ CHR 0x00 # period_name (sl_period l'))"
    by (simp add: limit_key_def)
  from free_prefix [OF name_no_nul(1) name_no_nul(1) e]
  have k: "sl_kind l = sl_kind l'"
    and e': "sl_subject l @ CHR 0x00 # period_name (sl_period l) = sl_subject l' @ CHR 0x00 # period_name (sl_period l')"
    by simp_all
  from free_suffix [OF name_no_nul(2) name_no_nul(2) e'] k
  show "scope_of l = scope_of l' \<and> sl_period l = sl_period l'" by (simp add: scope_of_def)
qed (simp add: limit_key_def scope_of_def)

lemma same_scope_iff: "same_scope l sc \<longleftrightarrow> scope_of l = sc"
  by (cases sc) (auto simp: same_scope_def scope_of_def)

text \<open>The smallest limits: one for each subject and period among the matching ones, with the least amount.\<close>

definition smallest_ok :: "spend_scope list \<Rightarrow> spend_limit list \<Rightarrow> (string, spend_limit) js_map \<Rightarrow> bool" where
  "smallest_ok scopes limits m \<longleftrightarrow> distinct_keys m \<and>
     (\<forall>(k, l) \<in> set m. l \<in> set limits \<and> scope_of l \<in> set scopes \<and> k = limit_key l) \<and>
     (\<forall>l \<in> set limits. scope_of l \<in> set scopes \<longrightarrow>
        (\<exists>s. map_of m (limit_key l) = Some s \<and> sl_amount s \<le> sl_amount l))"

lemma smallest_step_ok:
  assumes "smallest_ok scopes limits m"
  shows "smallest_ok scopes (limits @ [l]) (smallest_step scopes m l)"
proof -
  have matches: "list_ex (same_scope l) scopes \<longleftrightarrow> scope_of l \<in> set scopes" by (auto simp: list_ex_iff same_scope_iff)
  let ?k = "limit_key l"
  show ?thesis
  proof (cases "scope_of l \<in> set scopes")
    case False
    then show ?thesis using assms matches by (auto simp: smallest_ok_def smallest_step_def)
  next
    case True
    have put: "smallest_ok scopes (limits @ [l]) (AList.update ?k l m)"
      if "\<forall>known. map_of m ?k = Some known \<longrightarrow> sl_amount l < sl_amount known"
      using assms that True
      by (fastforce simp: smallest_ok_def update_conv' dest!: set_update_values split: if_splits)
    show ?thesis
    proof (cases "map_of m ?k")
      case None
      then show ?thesis using put True matches by (simp add: smallest_step_def)
    next
      case (Some known)
      show ?thesis
      proof (cases "sl_amount l < sl_amount known")
        case True
        then show ?thesis using put Some matches \<open>scope_of l \<in> set scopes\<close> by (simp add: smallest_step_def)
      next
        case False
        then show ?thesis using assms Some matches True by (auto simp: smallest_ok_def smallest_step_def)
      qed
    qed
  qed
qed

lemma smallest_limits_ok: "smallest_ok scopes limits (smallest_limits limits scopes)"
proof -
  have "smallest_ok scopes (done_limits @ limits) (foldl (smallest_step scopes) m limits)"
    if "smallest_ok scopes done_limits m" for done_limits m
    using that
  proof (induction limits arbitrary: done_limits m)
    case (Cons l limits)
    from Cons.IH [OF smallest_step_ok [OF Cons.prems, of l]] show ?case by simp
  qed simp
  from this [of "[]" "[]"] show ?thesis by (simp add: smallest_limits_def smallest_ok_def)
qed

text \<open>A limit the scopes meet and that has no room.\<close>

definition full_limit ::
  "'b spend_book \<Rightarrow> 'b \<Rightarrow> spend_limit list \<Rightarrow> spend_scope list \<Rightarrow> (period \<Rightarrow> period_bounds) \<Rightarrow> spend_limit \<Rightarrow> bool" where
  "full_limit book b limits scopes bounds l \<longleftrightarrow>
     l \<in> set limits \<and> scope_of l \<in> set scopes \<and> no_room book b bounds l"

definition refusal_of :: "(period \<Rightarrow> period_bounds) \<Rightarrow> spend_limit \<Rightarrow> refusal" where
  "refusal_of bounds l =
     \<lparr>rf_kind = sl_kind l, rf_period = sl_period l, rf_resets_at = pb_end (bounds (sl_period l))\<rparr>"

lemma exhausted_fold:
  "case foldl (exhausted_step book b bounds) r ls of
     None \<Rightarrow> r = None \<and> (\<forall>l \<in> set ls. \<not> no_room book b bounds l)
   | Some e \<Rightarrow> (r = Some e \<or> (\<exists>l \<in> set ls. no_room book b bounds l \<and> e = refusal_of bounds l)) \<and>
       (\<forall>l \<in> set ls. no_room book b bounds l \<longrightarrow> pb_end (bounds (sl_period l)) \<le> rf_resets_at e) \<and>
       (\<forall>old. r = Some old \<longrightarrow> rf_resets_at old \<le> rf_resets_at e)"
proof (induction ls arbitrary: r)
  case Nil
  then show ?case by (cases r) simp_all
next
  case (Cons l ls)
  show ?case using Cons.IH [of "exhausted_step book b bounds r l"]
    by (cases "foldl (exhausted_step book b bounds) (exhausted_step book b bounds r l) ls")
      (force simp: exhausted_step_def Let_def refusal_of_def split: if_splits option.splits)+
qed

lemma exhausted_spec:
  "case exhausted book b limits scopes bounds of
     None \<Rightarrow> \<forall>l. \<not> full_limit book b limits scopes bounds l
   | Some r \<Rightarrow> (\<exists>l. full_limit book b limits scopes bounds l \<and> r = refusal_of bounds l) \<and>
       (\<forall>l. full_limit book b limits scopes bounds l \<longrightarrow> pb_end (bounds (sl_period l)) \<le> rf_resets_at r)"
proof -
  let ?m = "smallest_limits limits scopes"
  have ok: "smallest_ok scopes limits ?m" by (rule smallest_limits_ok)
  have sound: "full_limit book b limits scopes bounds l" if "l \<in> set (map snd ?m)" "no_room book b bounds l" for l
    using ok that by (auto simp: smallest_ok_def full_limit_def)
  have complete: "\<exists>s \<in> set (map snd ?m). no_room book b bounds s \<and> sl_period s = sl_period l"
    if "full_limit book b limits scopes bounds l" for l
  proof -
    from that ok obtain s where s: "map_of ?m (limit_key l) = Some s" "sl_amount s \<le> sl_amount l"
      by (auto simp: smallest_ok_def full_limit_def)
    then have mem: "(limit_key l, s) \<in> set ?m" by (simp add: map_of_SomeD)
    then have "limit_key l = limit_key s" using ok by (auto simp: smallest_ok_def)
    then have "scope_of s = scope_of l" "sl_period s = sl_period l" by (simp_all add: limit_key_eq)
    moreover have "s \<in> set (map snd ?m)" using mem by force
    moreover have "no_room book b bounds s" using calculation(1,2) that s(2) by (simp add: full_limit_def no_room_def)
    ultimately show ?thesis by blast
  qed
  have fold: "exhausted book b limits scopes bounds = foldl (exhausted_step book b bounds) None (map snd ?m)"
    by (simp add: exhausted_def)
  show ?thesis
  proof (cases "exhausted book b limits scopes bounds")
    case None
    then have "\<forall>l \<in> set (map snd ?m). \<not> no_room book b bounds l"
      using exhausted_fold [where book = book and b = b and bounds = bounds and r = None and ls = "map snd ?m"] fold by simp
    then show ?thesis using None complete by auto
  next
    case (Some r)
    then have "\<exists>l \<in> set (map snd ?m). no_room book b bounds l \<and> r = refusal_of bounds l"
      and "\<forall>l \<in> set (map snd ?m). no_room book b bounds l \<longrightarrow> pb_end (bounds (sl_period l)) \<le> rf_resets_at r"
      using exhausted_fold [where book = book and b = b and bounds = bounds and r = None and ls = "map snd ?m"] fold by simp_all
    then show ?thesis using Some sound complete by (simp only: option.case) metis
  qed
qed

lemma exhausted_None:
  "exhausted book b limits scopes bounds = None \<longleftrightarrow> (\<forall>l. \<not> full_limit book b limits scopes bounds l)"
  using exhausted_spec [of book b limits scopes bounds] by (cases "exhausted book b limits scopes bounds") auto

lemma exhausted_Some:
  "exhausted book b limits scopes bounds = Some r \<Longrightarrow>
     (\<exists>l. full_limit book b limits scopes bounds l \<and> r = refusal_of bounds l) \<and>
     (\<forall>l. full_limit book b limits scopes bounds l \<longrightarrow> pb_end (bounds (sl_period l)) \<le> rf_resets_at r)"
  using exhausted_spec [of book b limits scopes bounds] by simp

subsection \<open>A refusal and time\<close>

lemma full_limit_same_period:
  assumes "calendar_ok cal" "now \<le> t" "t < pb_end (bounds_at cal book b now (sl_period l))"
  shows "bounds_at cal book b t (sl_period l) = bounds_at cal book b now (sl_period l)"
proof -
  have "pb_start (bounds_at cal book b now (sl_period l)) \<le> t"
    using calendar_contains [OF assms(1)] assms(2) unfolding bounds_at_def Let_def by (meson order_trans)
  then show ?thesis using calendar_same [OF assms(1)] assms(3) unfolding bounds_at_def Let_def by blast
qed

lemma exhausted_lasts:
  assumes "calendar_ok cal" "exhausted book b limits scopes (bounds_at cal book b now) = Some r" "now \<le> t" "t < rf_resets_at r"
  shows "exhausted book b limits scopes (bounds_at cal book b t) \<noteq> None"
proof -
  from exhausted_Some [OF assms(2)] obtain l where l: "full_limit book b limits scopes (bounds_at cal book b now) l" "r = refusal_of (bounds_at cal book b now) l"
    by auto
  have "bounds_at cal book b t (sl_period l) = bounds_at cal book b now (sl_period l)"
    by (rule full_limit_same_period [OF assms(1,3)]) (use assms(4) l(2) in \<open>simp add: refusal_of_def\<close>)
  then have "full_limit book b limits scopes (bounds_at cal book b t) l" using l(1) by (simp add: full_limit_def no_room_def)
  then show ?thesis unfolding exhausted_None by blast
qed

text \<open>Nothing counted in periods that begin after a time.\<close>

definition nothing_after :: "'b spend_book \<Rightarrow> ms \<Rightarrow> 'b \<Rightarrow> bool" where
  "nothing_after book now b \<longleftrightarrow> (\<forall>sc p start. now < start \<longrightarrow> bk_spent book sc p start b = 0)"

lemma full_limit_before:
  assumes "calendar_ok cal" "nothing_after book now b" "now \<le> t" "\<forall>l \<in> set limits. 0 < sl_amount l"
    and "full_limit book b limits scopes (bounds_at cal book b t) l"
  shows "full_limit book b limits scopes (bounds_at cal book b now) l \<and> t < pb_end (bounds_at cal book b now (sl_period l))"
proof -
  let ?p = "sl_period l"
  have at: "pb_start (bounds_at cal book b t ?p) \<le> t" "t < pb_end (bounds_at cal book b t ?p)"
    using calendar_contains [OF assms(1)] by (simp_all add: bounds_at_def Let_def)
  have "pb_start (bounds_at cal book b t ?p) \<le> now"
  proof (rule ccontr)
    assume "\<not> ?thesis"
    then have "bk_spent book (scope_of l) ?p (pb_start (bounds_at cal book b t ?p)) b = 0"
      using assms(2) by (simp add: nothing_after_def)
    then show False using assms(4,5) by (force simp: full_limit_def no_room_def)
  qed
  then have same: "bounds_at cal book b now ?p = bounds_at cal book b t ?p"
    using calendar_same [OF assms(1)] at assms(3) unfolding bounds_at_def Let_def by (meson le_less_trans)
  then show ?thesis using assms(5) at(2) by (simp add: full_limit_def no_room_def)
qed

lemma exhausted_lifts:
  assumes "calendar_ok cal" "exhausted book b limits scopes (bounds_at cal book b now) = Some r"
    and "nothing_after book now b" "\<forall>l \<in> set limits. 0 < sl_amount l" "rf_resets_at r \<le> t"
  shows "exhausted book b limits scopes (bounds_at cal book b t) = None"
proof (rule ccontr)
  note spec = exhausted_Some [OF assms(2)]
  assume "\<not> ?thesis"
  then obtain l where l: "full_limit book b limits scopes (bounds_at cal book b t) l"
    unfolding exhausted_None by blast
  have "now < rf_resets_at r"
    using spec calendar_contains [OF assms(1)] by (auto simp: refusal_of_def bounds_at_def Let_def)
  then have "now \<le> t" using assms(5) by simp
  from full_limit_before [OF assms(1,3) this assms(4) l] spec assms(5) show False by fastforce
qed

subsection \<open>The contract of a book\<close>

text \<open>
  What the ledger needs of a book, for the states \<open>ok\<close> holds of: a charge is added to its own counter, leaves the
  counters of other scopes and periods and of later periods alone, and touches neither limits nor settings.
\<close>

locale spend_book_laws =
  fixes book :: "'b spend_book" and ok :: "'b \<Rightarrow> bool"
  assumes charge_ok: "ok b \<Longrightarrow> 0 \<le> a \<Longrightarrow> ok (bk_charge book sc p start a b)"
    and charge_limits: "bk_limits book (bk_charge book sc p start a b) = bk_limits book b"
    and charge_settings: "bk_settings book (bk_charge book sc p start a b) = bk_settings book b"
    and charge_spent: "ok b \<Longrightarrow> bk_spent book sc p start (bk_charge book sc p start a b) = bk_spent book sc p start b + a"
    and charge_other: "ok b \<Longrightarrow> (sc', p') \<noteq> (sc, p) \<Longrightarrow>
      bk_spent book sc' p' start' (bk_charge book sc p start a b) = bk_spent book sc' p' start' b"
    and charge_later: "ok b \<Longrightarrow> start < start' \<Longrightarrow>
      bk_spent book sc p start' (bk_charge book sc p start a b) = bk_spent book sc p start' b"
    and spent_nonneg: "ok b \<Longrightarrow> 0 \<le> bk_spent book sc p start b"
begin

lemma charge_bounds: "bounds_at cal book (bk_charge book sc p start a b) = bounds_at cal book b"
  by (intro ext) (simp add: bounds_at_def charge_settings)

lemma charge_periods:
  assumes "ok b" "0 \<le> a" "distinct ps"
  shows "ok (foldl (\<lambda>b' p. bk_charge book sc p (start p) a b') b ps) \<and>
    bk_limits book (foldl (\<lambda>b' p. bk_charge book sc p (start p) a b') b ps) = bk_limits book b \<and>
    bk_settings book (foldl (\<lambda>b' p. bk_charge book sc p (start p) a b') b ps) = bk_settings book b \<and>
    bk_spent book sc' p' (start p') (foldl (\<lambda>b' p. bk_charge book sc p (start p) a b') b ps) =
      bk_spent book sc' p' (start p') b + (if sc' = sc \<and> p' \<in> set ps then a else 0) \<and>
    ((\<forall>p. start p < late) \<longrightarrow>
      bk_spent book sc' p' late (foldl (\<lambda>b' p. bk_charge book sc p (start p) a b') b ps) = bk_spent book sc' p' late b)"
  using assms
proof (induction ps arbitrary: b)
  case (Cons p ps)
  let ?b = "bk_charge book sc p (start p) a b"
  have own: "bk_spent book sc' p' (start p') ?b = bk_spent book sc' p' (start p') b + (if sc' = sc \<and> p' = p then a else 0)"
    using charge_spent [OF Cons.prems(1)] charge_other [OF Cons.prems(1)] by (cases "(sc', p') = (sc, p)") auto
  have late: "(\<forall>p. start p < late) \<longrightarrow> bk_spent book sc' p' late ?b = bk_spent book sc' p' late b"
    using charge_later [OF Cons.prems(1)] charge_other [OF Cons.prems(1)] by (cases "(sc', p') = (sc, p)") auto
  have IH: "ok ?b" "0 \<le> a" "distinct ps" using charge_ok Cons.prems by simp_all
  show ?case using Cons.IH [OF IH] own late Cons.prems(3) by (auto simp: charge_limits charge_settings)
qed simp

lemma charge_scope_spent:
  assumes "ok b" "0 \<le> a"
  shows "ok (charge_scope book limits bounds a b sc) \<and> bk_limits book (charge_scope book limits bounds a b sc) = bk_limits book b \<and>
    bk_settings book (charge_scope book limits bounds a b sc) = bk_settings book b \<and>
    bk_spent book sc' p' (pb_start (bounds p')) (charge_scope book limits bounds a b sc) =
      bk_spent book sc' p' (pb_start (bounds p')) b +
        (if sc' = sc \<and> (\<exists>l \<in> set limits. scope_of l = sc \<and> sl_period l = p') then a else 0) \<and>
    ((\<forall>p. pb_start (bounds p) < late) \<longrightarrow>
      bk_spent book sc' p' late (charge_scope book limits bounds a b sc) = bk_spent book sc' p' late b)"
proof -
  have "p' \<in> set (limited_periods limits sc) \<longleftrightarrow> (\<exists>l \<in> set limits. scope_of l = sc \<and> sl_period l = p')"
    by (auto simp: limited_periods_def same_scope_iff)
  moreover have "distinct (limited_periods limits sc)" by (simp add: limited_periods_def)
  ultimately show ?thesis
    using charge_periods [OF assms, of "limited_periods limits sc" sc "\<lambda>p. pb_start (bounds p)"]
    by (simp add: charge_scope_def)
qed

text \<open>How often a scope is charged: once for each time it is named, if it has a limit of that period.\<close>

lemma charge_scopes_spent:
  assumes "ok b" "0 \<le> a"
  shows "ok (foldl (charge_scope book limits bounds a) b scopes) \<and>
    bk_limits book (foldl (charge_scope book limits bounds a) b scopes) = bk_limits book b \<and>
    bk_settings book (foldl (charge_scope book limits bounds a) b scopes) = bk_settings book b \<and>
    bk_spent book sc p (pb_start (bounds p)) (foldl (charge_scope book limits bounds a) b scopes) =
      bk_spent book sc p (pb_start (bounds p)) b +
        (if \<exists>l \<in> set limits. scope_of l = sc \<and> sl_period l = p then int (count_list scopes sc) * a else 0) \<and>
    ((\<forall>p. pb_start (bounds p) < late) \<longrightarrow>
      bk_spent book sc p late (foldl (charge_scope book limits bounds a) b scopes) = bk_spent book sc p late b)"
  using assms
proof (induction scopes arbitrary: b)
  case (Cons s scopes)
  note step = charge_scope_spent [OF Cons.prems, of limits bounds s]
  have ok: "ok (charge_scope book limits bounds a b s)" using step by blast
  show ?case using Cons.IH [OF ok Cons.prems(2)] step [of sc p] by (auto simp: distrib_right)
qed simp

end

end
