(* ===== verification/Spend_Store.thy ===== *)
theory Spend_Store
  imports Spend_Ledger "HOL-Library.Product_Lexorder"
begin

text \<open>
  An org's Spend limits and counters (\<open>packages/state/src/spend/store.ts\<close>): three SQL tables as a record of lists, the
  writes with their refusals, and the book the ledger reads and charges. The store's memo of limits and settings is
  dropped or replaced at every write, so reads are modelled on the tables. The clock, a fresh id and \<open>isTimeZone\<close> are
  arguments; a refusal carries its code and not its text, and a violated constraint of a table is \<open>SpendThrown\<close>.
\<close>

type_synonym counter_key = "spend_scope \<times> period \<times> ms"

record spend_store =
  ss_limits :: "spend_limit list"
  ss_counters :: "(counter_key, int) js_map"
  ss_settings :: spend_settings

datatype spend_error = SpendInvalid | SpendConflict | SpendNotFound | ExceedsAdminLimit

datatype 'a spend_result = SpendOk 'a | SpendRefused spend_error | SpendThrown

record new_limit =
  nl_kind :: string
  nl_subject :: string
  nl_period :: string
  nl_amount :: rat
  nl_source :: string

definition max_amount_micros :: int where "max_amount_micros = 9007199254740991"

definition week_starts :: "string list" where
  "week_starts = [''sunday'', ''monday'', ''tuesday'', ''wednesday'', ''thursday'', ''friday'', ''saturday'']"

definition empty_store :: spend_store where
  "empty_store = \<lparr>ss_limits = [], ss_counters = [], ss_settings = \<lparr>st_time_zone = ''UTC'', st_week_start = ''monday''\<rparr>\<rparr>"

subsection \<open>Checks\<close>

definition kind_of :: "string \<Rightarrow> subject_kind option" where
  "kind_of s = List.find (\<lambda>k. kind_name k = s) [KMember, KTeam, KOrg, KCredential, KKey, KToolkitCredential, KAgent]"

definition period_of :: "string \<Rightarrow> period option" where
  "period_of s = List.find (\<lambda>p. period_name p = s) [Day, Week, Month]"

definition source_of :: "string \<Rightarrow> limit_source option" where
  "source_of s = (if s = ''admin'' then Some ByAdmin else if s = ''member'' then Some ByMember else None)"

definition valid_amount :: "rat \<Rightarrow> bool" where
  "valid_amount a \<longleftrightarrow> of_int \<lfloor>a\<rfloor> = a \<and> a \<ge> 0 \<and> a \<le> of_int max_amount_micros"

subsection \<open>Settings\<close>

definition store_settings :: "(string \<Rightarrow> bool) \<Rightarrow> spend_store \<Rightarrow> spend_settings" where
  "store_settings is_zone s =
     (let t = ss_settings s in
      \<lparr>st_time_zone = (if is_zone (st_time_zone t) then st_time_zone t else ''UTC''),
       st_week_start = (if st_week_start t \<in> set week_starts then st_week_start t else ''monday'')\<rparr>)"

definition set_settings ::
  "(string \<Rightarrow> bool) \<Rightarrow> string option \<Rightarrow> string option \<Rightarrow> spend_store \<Rightarrow> spend_settings spend_result \<times> spend_store" where
  "set_settings is_zone time_zone week_start s =
     (let current = store_settings is_zone s;
          tz = (case time_zone of None \<Rightarrow> st_time_zone current | Some z \<Rightarrow> z);
          ws = (case week_start of None \<Rightarrow> st_week_start current | Some w \<Rightarrow> w);
          new = \<lparr>st_time_zone = tz, st_week_start = ws\<rparr>
      in if \<not> is_zone tz then (SpendRefused SpendInvalid, s)
         else if ws \<notin> set week_starts then (SpendRefused SpendInvalid, s)
         else (SpendOk new,
               s\<lparr>ss_settings := new, ss_counters := (if new \<noteq> current then [] else ss_counters s)\<rparr>))"

subsection \<open>Limits\<close>

text \<open>\<open>ORDER BY created_at, id\<close>.\<close>

definition store_limits :: "spend_store \<Rightarrow> spend_limit list" where
  "store_limits s = sort_key (\<lambda>l. (sl_created_at l, sl_id l)) (ss_limits s)"

definition find_limit :: "string \<Rightarrow> spend_store \<Rightarrow> spend_limit option" where
  "find_limit i s = List.find (\<lambda>l. sl_id l = i) (store_limits s)"

text \<open>A member's limit on an API key may not exceed the admin's on that key and period.\<close>

definition above_admin :: "subject_kind \<Rightarrow> string \<Rightarrow> period \<Rightarrow> limit_source \<Rightarrow> int \<Rightarrow> spend_store \<Rightarrow> bool" where
  "above_admin kind subject period source amount s \<longleftrightarrow>
     (if source \<noteq> ByMember \<or> kind \<noteq> KKey then False
      else (case List.find (\<lambda>l. sl_kind l = KKey \<and> sl_subject l = subject \<and> sl_period l = period \<and> sl_source l = ByAdmin)
                   (store_limits s) of
              None \<Rightarrow> False
            | Some admin \<Rightarrow> amount > sl_amount admin))"

definition same_slot :: "subject_kind \<Rightarrow> string \<Rightarrow> period \<Rightarrow> limit_source \<Rightarrow> spend_limit \<Rightarrow> bool" where
  "same_slot kind subject period source l \<longleftrightarrow>
     sl_kind l = kind \<and> sl_subject l = subject \<and> sl_period l = period \<and> sl_source l = source"

text \<open>The row goes in unless its id or its subject, period and source are taken (PRIMARY KEY and UNIQUE).\<close>

definition insert_limit :: "spend_limit \<Rightarrow> spend_store \<Rightarrow> spend_store option" where
  "insert_limit l s =
     (if list_ex (\<lambda>m. sl_id m = sl_id l \<or> same_slot (sl_kind l) (sl_subject l) (sl_period l) (sl_source l) m) (ss_limits s)
      then None else Some (s\<lparr>ss_limits := ss_limits s @ [l]\<rparr>))"

definition create_limit :: "new_limit \<Rightarrow> string \<Rightarrow> ms \<Rightarrow> string \<Rightarrow> spend_store \<Rightarrow> spend_limit spend_result \<times> spend_store" where
  "create_limit input by_id now fresh s =
     (case (kind_of (nl_kind input), period_of (nl_period input), source_of (nl_source input)) of
        (Some kind, Some period, Some source) \<Rightarrow>
          (let subject = nl_subject input; amount = \<lfloor>nl_amount input\<rfloor> in
           if \<not> valid_amount (nl_amount input) then (SpendRefused SpendInvalid, s)
           else if (kind = KOrg) \<noteq> (subject = []) then (SpendRefused SpendInvalid, s)
           else if list_ex (same_slot kind subject period source) (store_limits s) then (SpendRefused SpendConflict, s)
           else if above_admin kind subject period source amount s then (SpendRefused ExceedsAdminLimit, s)
           else (case insert_limit \<lparr>sl_id = fresh, sl_kind = kind, sl_subject = subject, sl_period = period,
                        sl_amount = amount, sl_source = source, sl_revision = 1, sl_created_at = now, sl_updated_at = now,
                        sl_updated_by = by_id\<rparr> s of
                   None \<Rightarrow> (SpendThrown, s)
                 | Some s' \<Rightarrow> (case find_limit fresh s' of None \<Rightarrow> SpendRefused SpendNotFound | Some l \<Rightarrow> SpendOk l, s')))
      | _ \<Rightarrow> (SpendRefused SpendInvalid, s))"

definition update_limit ::
  "string \<Rightarrow> int \<Rightarrow> rat \<Rightarrow> string \<Rightarrow> ms \<Rightarrow> spend_store \<Rightarrow> spend_limit spend_result \<times> spend_store" where
  "update_limit i revision amount by_id now s =
     (case find_limit i s of
        None \<Rightarrow> (SpendRefused SpendNotFound, s)
      | Some l \<Rightarrow>
          if sl_revision l \<noteq> revision then (SpendRefused SpendConflict, s)
          else if \<not> valid_amount amount then (SpendRefused SpendInvalid, s)
          else if above_admin (sl_kind l) (sl_subject l) (sl_period l) (sl_source l) \<lfloor>amount\<rfloor> s
          then (SpendRefused ExceedsAdminLimit, s)
          else (let s' = s\<lparr>ss_limits := map (\<lambda>m. if sl_id m = i
                  then m\<lparr>sl_amount := \<lfloor>amount\<rfloor>, sl_revision := revision + 1, sl_updated_at := now, sl_updated_by := by_id\<rparr>
                  else m) (ss_limits s)\<rparr>
                in (case find_limit i s' of None \<Rightarrow> SpendRefused SpendNotFound | Some l' \<Rightarrow> SpendOk l', s')))"

definition drop_counters :: "(spend_scope \<Rightarrow> period \<Rightarrow> ms \<Rightarrow> bool) \<Rightarrow> spend_store \<Rightarrow> spend_store" where
  "drop_counters P s = s\<lparr>ss_counters := filter (\<lambda>((sc, p, start), _). \<not> P sc p start) (ss_counters s)\<rparr>"

definition remove_limit :: "string \<Rightarrow> int \<Rightarrow> spend_store \<Rightarrow> spend_limit spend_result \<times> spend_store" where
  "remove_limit i revision s =
     (case find_limit i s of
        None \<Rightarrow> (SpendRefused SpendNotFound, s)
      | Some l \<Rightarrow>
          if sl_revision l \<noteq> revision then (SpendRefused SpendConflict, s)
          else (let s' = s\<lparr>ss_limits := filter (\<lambda>m. sl_id m \<noteq> i) (ss_limits s)\<rparr>;
                    left = list_ex (\<lambda>m. sl_kind m = sl_kind l \<and> sl_subject m = sl_subject l \<and> sl_period m = sl_period l)
                             (store_limits s')
                in (SpendOk l, if left then s' else drop_counters (\<lambda>sc p _. sc = scope_of l \<and> p = sl_period l) s')))"

definition forget_subject :: "subject_kind \<Rightarrow> string \<Rightarrow> spend_store \<Rightarrow> spend_store" where
  "forget_subject kind subject s =
     (let sc = \<lparr>ss_kind = kind, ss_subject = subject\<rparr>
      in drop_counters (\<lambda>sc' _ _. sc' = sc) (s\<lparr>ss_limits := filter (\<lambda>l. \<not> same_scope l sc) (ss_limits s)\<rparr>))"

subsection \<open>Counters\<close>

definition store_spent :: "spend_scope \<Rightarrow> period \<Rightarrow> ms \<Rightarrow> spend_store \<Rightarrow> int" where
  "store_spent sc p start s = (case map_of (ss_counters s) (sc, p, start) of None \<Rightarrow> 0 | Some micros \<Rightarrow> micros)"

definition store_charge :: "spend_scope \<Rightarrow> period \<Rightarrow> ms \<Rightarrow> int \<Rightarrow> spend_store \<Rightarrow> spend_store" where
  "store_charge sc p start micros s =
     drop_counters (\<lambda>sc' p' start'. sc' = sc \<and> p' = p \<and> start' < start)
       (s\<lparr>ss_counters := AList.update (sc, p, start) (store_spent sc p start s + micros) (ss_counters s)\<rparr>)"

definition store_book :: "(string \<Rightarrow> bool) \<Rightarrow> spend_store spend_book" where
  "store_book is_zone = \<lparr>bk_settings = store_settings is_zone, bk_limits = store_limits, bk_spent = store_spent,
     bk_charge = store_charge\<rparr>"

subsection \<open>The store's invariant\<close>

definition limits_ok :: "spend_limit list \<Rightarrow> bool" where
  "limits_ok ls \<longleftrightarrow> distinct (map sl_id ls) \<and>
     distinct (map (\<lambda>l. (sl_kind l, sl_subject l, sl_period l, sl_source l)) ls) \<and>
     (\<forall>l \<in> set ls. 0 \<le> sl_amount l \<and> sl_amount l \<le> max_amount_micros \<and> (sl_kind l = KOrg \<longleftrightarrow> sl_subject l = []) \<and>
        1 \<le> sl_revision l)"

definition counters_ok :: "(counter_key, int) js_map \<Rightarrow> bool" where
  "counters_ok cs \<longleftrightarrow> distinct_keys cs \<and> (\<forall>(k, v) \<in> set cs. 0 \<le> v)"

definition store_ok :: "spend_store \<Rightarrow> bool" where
  "store_ok s \<longleftrightarrow> limits_ok (ss_limits s) \<and> counters_ok (ss_counters s)"

lemma empty_store_ok: "store_ok empty_store"
  by (simp add: store_ok_def empty_store_def limits_ok_def counters_ok_def)

lemma counters_ok_filter: "counters_ok cs \<Longrightarrow> counters_ok (filter P cs)"
  by (auto simp: counters_ok_def)

lemma drop_counters_fields [simp]:
  "ss_limits (drop_counters P s) = ss_limits s" "ss_settings (drop_counters P s) = ss_settings s"
  "ss_counters (drop_counters P s) = filter (\<lambda>((sc, p, start), _). \<not> P sc p start) (ss_counters s)"
  by (simp_all add: drop_counters_def)

lemma store_limits_cong: "ss_limits s = ss_limits s' \<Longrightarrow> store_limits s = store_limits s'"
  by (simp add: store_limits_def)

lemma set_store_limits [simp]: "set (store_limits s) = set (ss_limits s)"
  by (simp add: store_limits_def)

lemma store_spent_nonneg: "counters_ok (ss_counters s) \<Longrightarrow> 0 \<le> store_spent sc p start s"
  by (auto simp: store_spent_def counters_ok_def dest!: map_of_SomeD split: option.split)

lemma store_charge_fields [simp]:
  "ss_limits (store_charge sc p start a s) = ss_limits s" "ss_settings (store_charge sc p start a s) = ss_settings s"
  by (simp_all add: store_charge_def)

lemma store_charge_ok: "counters_ok (ss_counters s) \<Longrightarrow> 0 \<le> a \<Longrightarrow> counters_ok (ss_counters (store_charge sc p start a s))"
proof -
  assume c: "counters_ok (ss_counters s)" and a: "0 \<le> a"
  have "0 \<le> store_spent sc p start s + a" using store_spent_nonneg [OF c] a by (simp add: add_nonneg_nonneg)
  then have "counters_ok (AList.update (sc, p, start) (store_spent sc p start s + a) (ss_counters s))"
    using c by (auto simp: counters_ok_def dest!: set_update_values)
  then show ?thesis by (simp add: store_charge_def counters_ok_filter)
qed

lemma store_charge_spent:
  assumes "counters_ok (ss_counters s)"
  shows "store_spent sc' p' start' (store_charge sc p start a s) =
    (if (sc', p') = (sc, p) \<and> start' < start then 0
     else if (sc', p', start') = (sc, p, start) then store_spent sc p start s + a
     else store_spent sc' p' start' s)"
proof -
  let ?m = "AList.update (sc, p, start) (store_spent sc p start s + a) (ss_counters s)"
  have "distinct_keys ?m" using assms by (simp add: counters_ok_def)
  then have "map_of (filter (\<lambda>((sc', p', start'), _). \<not> (sc' = sc \<and> p' = p \<and> start' < start)) ?m) (sc', p', start') =
      (if sc' = sc \<and> p' = p \<and> start' < start then None else map_of ?m (sc', p', start'))"
    by (subst map_of_filter_distinct) (auto split: option.split)
  then show ?thesis by (auto simp: store_spent_def [of sc' p' start'] store_charge_def update_conv')
qed

interpretation store: spend_book_laws "store_book is_zone" store_ok for is_zone
proof (unfold_locales, goal_cases)
  case (1 b a sc p start)
  then show ?case by (simp add: store_book_def store_ok_def store_charge_ok)
next
  case (2 sc p start a b)
  then show ?case by (simp add: store_book_def store_limits_def)
next
  case (3 sc p start a b)
  then show ?case by (simp add: store_book_def store_settings_def)
next
  case (4 b sc p start a)
  then show ?case by (simp add: store_book_def store_ok_def store_charge_spent)
next
  case (5 b sc' p' sc p start' start a)
  then show ?case by (auto simp: store_book_def store_ok_def store_charge_spent)
next
  case (6 b start start' sc p a)
  then show ?case by (simp add: store_book_def store_ok_def store_charge_spent)
next
  case (7 b sc p start)
  then show ?case by (simp add: store_book_def store_ok_def store_spent_nonneg)
qed

end
