(* ===== verification/Spend_Invariant.thy ===== *)
theory Spend_Invariant
  imports Spend_Store
begin

text \<open>Every write of the Spend store keeps its tables well-formed, and what each write does to them.\<close>

lemma limits_ok_filter: "limits_ok ls \<Longrightarrow> limits_ok (filter P ls)"
  by (auto simp: limits_ok_def distinct_map_filter)

lemma find_limit_iff:
  "limits_ok (ss_limits s) \<Longrightarrow> find_limit i s = Some l \<longleftrightarrow> l \<in> set (ss_limits s) \<and> sl_id l = i"
proof
  assume "find_limit i s = Some l"
  then show "l \<in> set (ss_limits s) \<and> sl_id l = i" using find_SomeD [of "\<lambda>l. sl_id l = i" "store_limits s" l] by (simp add: find_limit_def)
next
  assume ok: "limits_ok (ss_limits s)" and l: "l \<in> set (ss_limits s) \<and> sl_id l = i"
  then have "find_limit i s \<noteq> None" by (auto simp: find_limit_def find_None_iff)
  then obtain m where m: "find_limit i s = Some m" by blast
  then have "m \<in> set (ss_limits s)" "sl_id m = i" using find_SomeD [of "\<lambda>l. sl_id l = i" "store_limits s" m] by (simp_all add: find_limit_def)
  then have "m = l" using ok l by (auto simp: limits_ok_def dest: inj_onD [OF distinct_map [THEN iffD1, THEN conjunct2]])
  then show "find_limit i s = Some l" using m by simp
qed

lemma valid_amount_range: "valid_amount a \<Longrightarrow> 0 \<le> \<lfloor>a\<rfloor> \<and> \<lfloor>a\<rfloor> \<le> max_amount_micros"
  by (simp add: valid_amount_def floor_le_iff le_floor_iff)

lemma slot_taken_iff:
  "list_ex (\<lambda>m. sl_id m = i \<or> same_slot k sub p src m) ls \<longleftrightarrow>
     i \<in> sl_id ` set ls \<or> (k, sub, p, src) \<in> (\<lambda>l. (sl_kind l, sl_subject l, sl_period l, sl_source l)) ` set ls"
  by (auto simp: list_ex_iff same_slot_def)

lemma limits_ok_insert:
  assumes "limits_ok (ss_limits s)" "insert_limit l s = Some s'"
    and "0 \<le> sl_amount l" "sl_amount l \<le> max_amount_micros" "sl_kind l = KOrg \<longleftrightarrow> sl_subject l = []" "1 \<le> sl_revision l"
  shows "limits_ok (ss_limits s') \<and> ss_limits s' = ss_limits s @ [l] \<and> ss_counters s' = ss_counters s \<and> ss_settings s' = ss_settings s"
  using assms by (auto simp: insert_limit_def slot_taken_iff limits_ok_def split: if_splits)

text \<open>What a successful creation is: a new row with the requested fields.\<close>

lemma create_limit_cases:
  obtains (refused) e where "create_limit input by_id now fresh s = (SpendRefused e, s)"
  | (thrown) "create_limit input by_id now fresh s = (SpendThrown, s)" "fresh \<in> sl_id ` set (ss_limits s)"
  | (created) kind period source l s' where
      "kind_of (nl_kind input) = Some kind" "period_of (nl_period input) = Some period" "source_of (nl_source input) = Some source"
      "valid_amount (nl_amount input)" "kind = KOrg \<longleftrightarrow> nl_subject input = []"
      "\<not> list_ex (same_slot kind (nl_subject input) period source) (store_limits s)"
      "\<not> above_admin kind (nl_subject input) period source \<lfloor>nl_amount input\<rfloor> s"
      "l = \<lparr>sl_id = fresh, sl_kind = kind, sl_subject = nl_subject input, sl_period = period,
        sl_amount = \<lfloor>nl_amount input\<rfloor>, sl_source = source, sl_revision = 1, sl_created_at = now, sl_updated_at = now,
        sl_updated_by = by_id\<rparr>" "insert_limit l s = Some s'"
      "create_limit input by_id now fresh s = (case find_limit fresh s' of None \<Rightarrow> SpendRefused SpendNotFound | Some l \<Rightarrow> SpendOk l, s')"
proof -
  show thesis
  proof (cases "\<exists>e. create_limit input by_id now fresh s = (SpendRefused e, s)")
    case True
    then show thesis using refused by blast
  next
    case False
    then obtain kind period source where k: "kind_of (nl_kind input) = Some kind" "period_of (nl_period input) = Some period"
        "source_of (nl_source input) = Some source"
      by (auto simp: create_limit_def split: option.splits)
    let ?subject = "nl_subject input"
    define l where "l = \<lparr>sl_id = fresh, sl_kind = kind, sl_subject = ?subject, sl_period = period,
        sl_amount = \<lfloor>nl_amount input\<rfloor>, sl_source = source, sl_revision = 1, sl_created_at = now, sl_updated_at = now,
        sl_updated_by = by_id\<rparr>"
    have guards: "valid_amount (nl_amount input)" "kind = KOrg \<longleftrightarrow> ?subject = []"
      "\<not> list_ex (same_slot kind ?subject period source) (store_limits s)"
      "\<not> above_admin kind ?subject period source \<lfloor>nl_amount input\<rfloor> s"
      using False by (auto simp: create_limit_def k Let_def split: if_splits)
    have eq: "create_limit input by_id now fresh s = (case insert_limit l s of
        None \<Rightarrow> (SpendThrown, s)
      | Some s' \<Rightarrow> (case find_limit fresh s' of None \<Rightarrow> SpendRefused SpendNotFound | Some l \<Rightarrow> SpendOk l, s'))"
      using guards by (simp add: create_limit_def k Let_def l_def)
    show thesis
    proof (cases "insert_limit l s")
      case None
      then have "fresh \<in> sl_id ` set (ss_limits s)"
        using guards(3) by (auto simp: insert_limit_def l_def slot_taken_iff list_ex_iff same_slot_def split: if_splits)
      then show thesis using thrown eq None by simp
    next
      case (Some s')
      show thesis by (rule created [OF k guards l_def Some]) (simp add: eq Some)
    qed
  qed
qed

lemma create_limit_ok:
  assumes "store_ok s"
  shows "store_ok (snd (create_limit input by_id now fresh s))"
proof (cases rule: create_limit_cases [of input by_id now fresh s])
  case (created kind period source l s')
  have "limits_ok (ss_limits s') \<and> ss_counters s' = ss_counters s"
  proof -
    have "limits_ok (ss_limits s)" using assms by (simp add: store_ok_def)
    from limits_ok_insert [OF this created(9)]
    have "0 \<le> sl_amount l \<Longrightarrow> sl_amount l \<le> max_amount_micros \<Longrightarrow> sl_kind l = KOrg \<longleftrightarrow> sl_subject l = [] \<Longrightarrow> 1 \<le> sl_revision l \<Longrightarrow> ?thesis"
      by blast
    then show ?thesis using created(5) valid_amount_range [OF created(4)] by (simp add: created(8))
  qed
  then show ?thesis using created(10) assms by (simp add: store_ok_def)
qed (use assms in simp_all)

subsection \<open>Updates and removals\<close>

lemma update_limit_cases:
  obtains (refused) e where "update_limit i revision amount by_id now s = (SpendRefused e, s)"
  | (updated) l s' where "find_limit i s = Some l" "sl_revision l = revision" "valid_amount amount"
      "\<not> above_admin (sl_kind l) (sl_subject l) (sl_period l) (sl_source l) \<lfloor>amount\<rfloor> s"
      "s' = s\<lparr>ss_limits := map (\<lambda>m. if sl_id m = i
         then m\<lparr>sl_amount := \<lfloor>amount\<rfloor>, sl_revision := revision + 1, sl_updated_at := now, sl_updated_by := by_id\<rparr>
         else m) (ss_limits s)\<rparr>"
      "update_limit i revision amount by_id now s = (case find_limit i s' of None \<Rightarrow> SpendRefused SpendNotFound | Some l' \<Rightarrow> SpendOk l', s')"
proof (cases "\<exists>e. update_limit i revision amount by_id now s = (SpendRefused e, s)")
  case True
  then show thesis using refused by blast
next
  case False
  then obtain l where l: "find_limit i s = Some l" by (auto simp: update_limit_def split: option.splits)
  have guards: "sl_revision l = revision" "valid_amount amount"
    "\<not> above_admin (sl_kind l) (sl_subject l) (sl_period l) (sl_source l) \<lfloor>amount\<rfloor> s"
    using False by (auto simp: update_limit_def l split: if_splits)
  show thesis by (rule updated [OF l guards refl]) (simp add: update_limit_def l guards Let_def)
qed

lemma limits_ok_map:
  assumes "limits_ok ls" "\<And>l. l \<in> set ls \<Longrightarrow> sl_id (f l) = sl_id l \<and> sl_kind (f l) = sl_kind l \<and> sl_subject (f l) = sl_subject l \<and>
      sl_period (f l) = sl_period l \<and> sl_source (f l) = sl_source l \<and>
      0 \<le> sl_amount (f l) \<and> sl_amount (f l) \<le> max_amount_micros \<and> 1 \<le> sl_revision (f l)"
  shows "limits_ok (map f ls)"
proof -
  have "map sl_id (map f ls) = map sl_id ls" using assms(2) by simp
  moreover have "map (\<lambda>l. (sl_kind l, sl_subject l, sl_period l, sl_source l)) (map f ls) =
      map (\<lambda>l. (sl_kind l, sl_subject l, sl_period l, sl_source l)) ls" using assms(2) by simp
  moreover have "\<forall>l \<in> set (map f ls). 0 \<le> sl_amount l \<and> sl_amount l \<le> max_amount_micros \<and>
      (sl_kind l = KOrg \<longleftrightarrow> sl_subject l = []) \<and> 1 \<le> sl_revision l"
    using assms by (simp add: limits_ok_def)
  ultimately show ?thesis using assms(1) by (simp only: limits_ok_def)
qed

lemma update_limit_ok:
  assumes "store_ok s"
  shows "store_ok (snd (update_limit i revision amount by_id now s))"
proof (cases rule: update_limit_cases [of i revision amount by_id now s])
  case (updated l s')
  have "1 \<le> revision" using assms updated(1,2) by (auto simp: store_ok_def find_limit_iff limits_ok_def)
  moreover have ls: "limits_ok (ss_limits s)" using assms by (simp add: store_ok_def)
  ultimately have "limits_ok (map (\<lambda>m. if sl_id m = i
      then m\<lparr>sl_amount := \<lfloor>amount\<rfloor>, sl_revision := revision + 1, sl_updated_at := now, sl_updated_by := by_id\<rparr>
      else m) (ss_limits s))"
    using valid_amount_range [OF updated(3)] by (intro limits_ok_map [OF ls]) (simp add: limits_ok_def)
  then have "limits_ok (ss_limits s')" by (simp add: updated(5))
  then show ?thesis using assms updated(5,6) by (simp add: store_ok_def)
qed (use assms in simp)

lemma store_ok_drop: "store_ok s \<Longrightarrow> store_ok (drop_counters P s)"
  by (simp add: store_ok_def counters_ok_filter)

lemma store_ok_filter: "store_ok s \<Longrightarrow> store_ok (s\<lparr>ss_limits := filter P (ss_limits s)\<rparr>)"
  by (simp add: store_ok_def limits_ok_filter)

lemma remove_limit_ok: "store_ok s \<Longrightarrow> store_ok (snd (remove_limit i revision s))"
  by (auto simp: remove_limit_def Let_def store_ok_drop store_ok_filter split: option.split)

lemma forget_subject_ok: "store_ok s \<Longrightarrow> store_ok (forget_subject kind subject s)"
  by (simp add: forget_subject_def Let_def store_ok_drop store_ok_filter)

lemma set_settings_ok: "store_ok s \<Longrightarrow> store_ok (snd (set_settings is_zone tz ws s))"
  by (auto simp: set_settings_def Let_def store_ok_def counters_ok_def)

lemma spend_charge_ok: "store_ok s \<Longrightarrow> store_ok (spend_charge cal (store_book is_zone) scopes micros now s)"
  using store.charge_scopes_spent [of s "max 0 (js_round micros)" is_zone] by (simp add: spend_charge_def Let_def)

end
