(* ===== verification/Spend_Properties.thy ===== *)
theory Spend_Properties
  imports Spend_Invariant
begin

text \<open>The properties of the Spend store and of the ledger over it.\<close>

subsection \<open>The writes as a whole\<close>

datatype spend_op =
    OpCreateLimit new_limit string ms string
  | OpUpdateLimit string int rat string ms
  | OpRemoveLimit string int
  | OpForgetSubject subject_kind string
  | OpSpendSettings "string option" "string option"
  | OpSpendCharge "spend_scope list" rat ms

fun run_spend_op :: "(string \<Rightarrow> bool) \<Rightarrow> calendar \<Rightarrow> spend_op \<Rightarrow> spend_store \<Rightarrow> spend_store" where
  "run_spend_op is_zone cal (OpCreateLimit input by_id now fresh) s = snd (create_limit input by_id now fresh s)"
| "run_spend_op is_zone cal (OpUpdateLimit i rv amount by_id now) s = snd (update_limit i rv amount by_id now s)"
| "run_spend_op is_zone cal (OpRemoveLimit i rv) s = snd (remove_limit i rv s)"
| "run_spend_op is_zone cal (OpForgetSubject kind subject) s = forget_subject kind subject s"
| "run_spend_op is_zone cal (OpSpendSettings tz ws) s = snd (set_settings is_zone tz ws s)"
| "run_spend_op is_zone cal (OpSpendCharge scopes micros now) s = spend_charge cal (store_book is_zone) scopes micros now s"

text \<open>Counters exist for subjects and periods with a limit only.\<close>

definition counters_limited :: "spend_store \<Rightarrow> bool" where
  "counters_limited s \<longleftrightarrow>
     (\<forall>((sc, p, start), micros) \<in> set (ss_counters s). \<exists>l \<in> set (ss_limits s). scope_of l = sc \<and> sl_period l = p)"

lemma counters_limited_keep:
  "counters_limited s \<Longrightarrow> set (ss_counters s') \<subseteq> set (ss_counters s) \<Longrightarrow>
   (\<And>l. l \<in> set (ss_limits s) \<Longrightarrow> \<exists>l' \<in> set (ss_limits s'). scope_of l' = scope_of l \<and> sl_period l' = sl_period l) \<Longrightarrow>
     counters_limited s'"
  unfolding counters_limited_def by fast

lemma create_limited: "counters_limited s \<Longrightarrow> counters_limited (snd (create_limit input by_id now fresh s))"
proof (cases rule: create_limit_cases [of input by_id now fresh s])
  case (created kind period source l s')
  assume "counters_limited s"
  moreover have "ss_limits s' = ss_limits s @ [l]" "ss_counters s' = ss_counters s"
    using created(9) by (auto simp: insert_limit_def split: if_splits)
  ultimately have "counters_limited s'" by (fastforce simp: counters_limited_def)
  then show ?thesis using created(10) by simp
qed simp_all

lemma update_limited: "counters_limited s \<Longrightarrow> counters_limited (snd (update_limit i rv amount by_id now s))"
proof (cases rule: update_limit_cases [of i rv amount by_id now s])
  case (updated l s')
  assume "counters_limited s"
  then have "counters_limited s'"
  proof (rule counters_limited_keep)
    fix m
    assume m: "m \<in> set (ss_limits s)"
    let ?f = "\<lambda>m. if sl_id m = i then m\<lparr>sl_amount := \<lfloor>amount\<rfloor>, sl_revision := rv + 1, sl_updated_at := now, sl_updated_by := by_id\<rparr>
      else m"
    have "?f m \<in> set (ss_limits s')" using m by (simp add: updated(5))
    then show "\<exists>l' \<in> set (ss_limits s'). scope_of l' = scope_of m \<and> sl_period l' = sl_period m"
      by (rule bexI [rotated]) (simp add: scope_of_def)
  qed (simp add: updated(5))
  then show ?thesis using updated(6) by simp
qed simp

lemma drop_limited:
  assumes "counters_limited s" "\<And>l. l \<in> set (ss_limits s) \<Longrightarrow> \<not> P l \<Longrightarrow>
      (\<forall>start. D (scope_of l) (sl_period l) start) \<or> (\<exists>l' \<in> set (ss_limits s). P l' \<and> scope_of l' = scope_of l \<and> sl_period l' = sl_period l)"
  shows "counters_limited (drop_counters D (s\<lparr>ss_limits := filter P (ss_limits s)\<rparr>))"
  using assms unfolding counters_limited_def by fastforce

lemma remove_limited:
  assumes "store_ok s" "counters_limited s"
  shows "counters_limited (snd (remove_limit i rv s))"
proof (cases "\<exists>l. find_limit i s = Some l \<and> sl_revision l = rv")
  case False
  then show ?thesis using assms(2) by (auto simp: remove_limit_def split: option.split)
next
  case True
  then obtain l where l: "find_limit i s = Some l" "sl_revision l = rv" by blast
  have only: "m = l" if "m \<in> set (ss_limits s)" "sl_id m = i" for m
    using find_limit_iff [of s i] assms(1) l(1) that by (fastforce simp: store_ok_def)
  let ?s = "s\<lparr>ss_limits := filter (\<lambda>m. sl_id m \<noteq> i) (ss_limits s)\<rparr>"
  let ?left = "list_ex (\<lambda>m. sl_kind m = sl_kind l \<and> sl_subject m = sl_subject l \<and> sl_period m = sl_period l) (store_limits ?s)"
  let ?D = "\<lambda>sc p (_ :: ms). sc = scope_of l \<and> p = sl_period l"
  have "counters_limited (drop_counters (\<lambda>sc p start. \<not> ?left \<and> ?D sc p start) ?s)"
    by (rule drop_limited [OF assms(2)]) (auto simp: list_ex_iff scope_of_def dest: only)
  moreover have "drop_counters (\<lambda>sc p start. False) ?s = ?s"
    by (cases s) (simp add: drop_counters_def case_prod_beta')
  ultimately show ?thesis using l by (cases ?left) (simp_all add: remove_limit_def Let_def)
qed

lemma forget_limited: "counters_limited s \<Longrightarrow> counters_limited (forget_subject kind subject s)"
  by (auto simp: forget_subject_def Let_def same_scope_iff intro: drop_limited)

lemma settings_limited: "counters_limited s \<Longrightarrow> counters_limited (snd (set_settings is_zone tz ws s))"
  by (auto simp: set_settings_def Let_def counters_limited_def)

lemma charge_limited:
  assumes "counters_limited s" "l \<in> set (ss_limits s)" "scope_of l = sc" "sl_period l = p"
  shows "counters_limited (store_charge sc p start a s)"
  using assms unfolding counters_limited_def
  by (fastforce simp: store_charge_def dest!: set_update_values)

lemma charge_periods_limited:
  assumes "counters_limited s" "\<forall>p \<in> set ps. \<exists>l \<in> set (ss_limits s). scope_of l = sc \<and> sl_period l = p"
  shows "counters_limited (foldl (\<lambda>s p. store_charge sc p (start p) a s) s ps)"
  using assms
proof (induction ps arbitrary: s)
  case (Cons p ps)
  from Cons.prems(2) obtain l where l: "l \<in> set (ss_limits s)" "scope_of l = sc" "sl_period l = p" by auto
  show ?case using Cons.IH [OF charge_limited [OF Cons.prems(1) l, of "start p" a]] Cons.prems(2) by simp
qed simp

lemma charge_periods_limits: "ss_limits (foldl (\<lambda>s p. store_charge sc p (start p) a s) s ps) = ss_limits s"
  by (induction ps arbitrary: s) simp_all

lemma charge_scopes_limited:
  assumes "counters_limited s" "set limits = set (ss_limits s)"
  shows "counters_limited (foldl (charge_scope (store_book is_zone) limits bounds a) s scopes)"
  using assms
proof (induction scopes arbitrary: s)
  case (Cons sc scopes)
  let ?s = "charge_scope (store_book is_zone) limits bounds a s sc"
  have eq: "?s = foldl (\<lambda>s p. store_charge sc p (pb_start (bounds p)) a s) s (limited_periods limits sc)"
    by (simp add: charge_scope_def store_book_def)
  have "counters_limited ?s" unfolding eq
    by (rule charge_periods_limited [OF Cons.prems(1)]) (auto simp: limited_periods_def same_scope_iff Cons.prems(2))
  moreover have "ss_limits ?s = ss_limits s" unfolding eq by (rule charge_periods_limits)
  ultimately show ?case using Cons by simp
qed simp

lemma spend_charge_limited: "counters_limited s \<Longrightarrow> counters_limited (spend_charge cal (store_book is_zone) scopes micros now s)"
  by (simp add: spend_charge_def Let_def charge_scopes_limited store_book_def [of is_zone, THEN arg_cong [where f = bk_limits]])

lemma run_spend_op_ok: "store_ok s \<Longrightarrow> store_ok (run_spend_op is_zone cal op s)"
  by (cases op) (simp_all add: create_limit_ok update_limit_ok remove_limit_ok forget_subject_ok set_settings_ok spend_charge_ok)

lemma run_spend_op_limited: "store_ok s \<Longrightarrow> counters_limited s \<Longrightarrow> counters_limited (run_spend_op is_zone cal op s)"
  by (cases op)
    (simp_all add: create_limited update_limited remove_limited forget_limited settings_limited spend_charge_limited)

subsection \<open>What a charge adds\<close>

lemma store_book_simps [simp]:
  "bk_limits (store_book is_zone) = store_limits" "bk_spent (store_book is_zone) = store_spent"
  "bk_settings (store_book is_zone) = store_settings is_zone"
  by (simp_all add: store_book_def)

lemma count_distinct: "distinct xs \<Longrightarrow> count_list xs x = (if x \<in> set xs then 1 else 0)"
  by (induction xs) auto

lemma spend_scopes_count:
  assumes "l \<in> set (store_limits s)"
  shows "count_list (spend_scopes (store_book is_zone) teams caller c s) (scope_of l) =
    count_list (charged_scopes teams caller c) (scope_of l)"
proof -
  have "\<exists>l' \<in> set (store_limits s). scope_of l' = scope_of l" using assms by blast
  then have "count_list (filter (\<lambda>sc. list_ex (\<lambda>l. same_scope l sc) (store_limits s)) xs) (scope_of l) = count_list xs (scope_of l)"
    for xs by (induction xs) (auto simp: list_ex_iff same_scope_iff)
  moreover have "store_limits s \<noteq> []" using assms by (metis empty_iff list.set(1))
  ultimately show ?thesis by (simp add: spend_scopes_def Let_def)
qed

lemma spend_charge_adds:
  assumes "store_ok s" "l \<in> set (store_limits s)"
  shows "store_spent (scope_of l) (sl_period l) (pb_start (bounds_at cal (store_book is_zone) s now (sl_period l)))
      (spend_charge cal (store_book is_zone) (spend_scopes (store_book is_zone) teams caller c s) micros now s) =
    store_spent (scope_of l) (sl_period l) (pb_start (bounds_at cal (store_book is_zone) s now (sl_period l))) s +
    int (count_list (charged_scopes teams caller c) (scope_of l)) * max 0 (js_round micros)"
proof -
  let ?scopes = "spend_scopes (store_book is_zone) teams caller c s"
  let ?a = "max 0 (js_round micros)"
  note count = spend_scopes_count [OF assms(2), of is_zone teams caller c]
  show ?thesis
  proof (cases "?a = 0 \<or> ?scopes = []")
    case True
    then have "spend_charge cal (store_book is_zone) ?scopes micros now s = s"
      by (simp only: spend_charge_def Let_def if_True simp_thms)
    then show ?thesis using True count by auto
  next
    case False
    then have eq: "spend_charge cal (store_book is_zone) ?scopes micros now s =
        foldl (charge_scope (store_book is_zone) (store_limits s) (bounds_at cal (store_book is_zone) s now) ?a) s ?scopes"
      by (simp only: spend_charge_def Let_def if_False store_book_simps)
    have "0 \<le> ?a" by simp
    from store.charge_scopes_spent [OF assms(1) this, of is_zone "store_limits s" "bounds_at cal (store_book is_zone) s now"
        ?scopes "scope_of l" "sl_period l"] assms(2) count
    show ?thesis unfolding eq by auto
  qed
qed

lemma spend_charge_bounds:
  assumes "store_ok s"
  shows "store_limits (spend_charge cal (store_book is_zone) scopes micros now s) = store_limits s \<and>
    bounds_at cal' (store_book is_zone) (spend_charge cal (store_book is_zone) scopes micros now s) =
      bounds_at cal' (store_book is_zone) s"
proof -
  let ?book = "store_book is_zone"
  let ?charged = "foldl (charge_scope ?book (store_limits s) (bounds_at cal ?book s now) (max 0 (js_round micros))) s scopes"
  have "spend_charge cal ?book scopes micros now s = s \<or> spend_charge cal ?book scopes micros now s = ?charged"
    by (simp add: spend_charge_def Let_def)
  moreover have "store_limits ?charged = store_limits s \<and> store_settings is_zone ?charged = store_settings is_zone s"
    using store.charge_scopes_spent [OF assms, of "max 0 (js_round micros)" is_zone] by simp
  ultimately show ?thesis by (auto simp: bounds_at_def fun_eq_iff)
qed

lemma held_step_value:
  "map_of (held_step full held l) i =
    (case map_of held i of Some r \<Rightarrow> Some r
     | None \<Rightarrow> if sl_kind l = KCredential \<and> sl_subject l = i then full [\<lparr>ss_kind = KCredential, ss_subject = i\<rparr>] else None)"
  by (cases "map_of held i"; cases "full [\<lparr>ss_kind = KCredential, ss_subject = sl_subject l\<rparr>]")
    (auto simp: held_step_def update_conv')

lemma gate_held:
  "map_of (foldl (held_step full) held ls) i =
    (case map_of held i of Some r \<Rightarrow> Some r
     | None \<Rightarrow> if \<exists>l \<in> set ls. sl_kind l = KCredential \<and> sl_subject l = i then full [\<lparr>ss_kind = KCredential, ss_subject = i\<rparr>] else None)"
proof (induction ls arbitrary: held)
  case (Cons l ls)
  show ?case unfolding foldl_Cons Cons.IH held_step_value by (cases "map_of held i") (auto split: option.split)
qed (simp split: option.split)

text \<open>The gate, limit by limit; no gate is an open one.\<close>

definition open_gate :: spend_gate where
  "open_gate = \<lparr>sg_refuse = None, sg_shared_blocked = None, sg_credentials = []\<rparr>"

lemma gate_spec:
  "let g = (case spend_gate_at cal book teams caller now s of None \<Rightarrow> open_gate | Some g \<Rightarrow> g);
       full = (\<lambda>scopes. \<exists>l. full_limit book s (bk_limits book s) scopes (bounds_at cal book s now) l)
   in (sg_refuse g \<noteq> None \<longleftrightarrow> full (key_scopes caller)) \<and>
      (sg_shared_blocked g \<noteq> None \<longleftrightarrow> full (shared_scopes teams caller)) \<and>
      (map_of (sg_credentials g) i \<noteq> None \<longleftrightarrow> full [\<lparr>ss_kind = KCredential, ss_subject = i\<rparr>])"
proof -
  let ?limits = "bk_limits book s"
  let ?bounds = "bounds_at cal book s now"
  let ?full = "\<lambda>scopes. exhausted book s ?limits scopes ?bounds"
  have none: "?full scopes \<noteq> None \<longleftrightarrow> (\<exists>l. full_limit book s ?limits scopes ?bounds l)" for scopes
    unfolding exhausted_None by blast
  have limited: "\<exists>l \<in> set ?limits. sl_kind l = KCredential \<and> sl_subject l = i" if "?full [\<lparr>ss_kind = KCredential, ss_subject = i\<rparr>] \<noteq> None"
    using that unfolding none by (auto simp: full_limit_def scope_of_def)
  have held: "map_of (foldl (held_step ?full) [] ?limits) i = ?full [\<lparr>ss_kind = KCredential, ss_subject = i\<rparr>]"
    by (cases "?full [\<lparr>ss_kind = KCredential, ss_subject = i\<rparr>] = None") (simp_all add: gate_held limited)
  show ?thesis
  proof (cases "?limits = []")
    case True
    then show ?thesis by (simp add: spend_gate_at_def open_gate_def full_limit_def)
  next
    case False
    define g where "g = (case spend_gate_at cal book teams caller now s of None \<Rightarrow> open_gate | Some g \<Rightarrow> g)"
    have g: "sg_refuse g = ?full (key_scopes caller) \<and> sg_shared_blocked g = ?full (shared_scopes teams caller) \<and>
        sg_credentials g = foldl (held_step ?full) [] ?limits"
      using False unfolding g_def spend_gate_at_def Let_def by (simp add: open_gate_def)
    show ?thesis unfolding Let_def g_def [symmetric] using g held none by simp
  qed
qed

subsection \<open>A concrete store\<close>

definition sample_new_limit :: "string \<Rightarrow> string \<Rightarrow> rat \<Rightarrow> string \<Rightarrow> new_limit" where
  "sample_new_limit kind subject amount source =
     \<lparr>nl_kind = kind, nl_subject = subject, nl_period = ''day'', nl_amount = amount, nl_source = source\<rparr>"

definition sample_store :: spend_store where
  "sample_store = snd (create_limit (sample_new_limit ''key'' ''k'' 100 ''member'') ''u'' 6 ''l2''
     (snd (create_limit (sample_new_limit ''member'' ''u'' 50 ''admin'') ''adm'' 5 ''l1'' empty_store)))"

definition sample_caller :: spend_caller where
  "sample_caller = \<lparr>sp_member_id = Some ''u'', sp_api_key_id = Some ''k'', sp_agent_id = None\<rparr>"

definition sample_charged :: charged_credential where
  "sample_charged = \<lparr>cc_id = ''a'', cc_shared = True, cc_kind = None\<rparr>"

definition sample_spent :: spend_store where
  "sample_spent = spend_charge utc_calendar (store_book (\<lambda>_. True))
     (spend_scopes (store_book (\<lambda>_. True)) (\<lambda>_. [''t'']) sample_caller sample_charged sample_store) (60 + 2 / 5) 1000 sample_store"

definition sample_limit :: spend_limit where
  "sample_limit = \<lparr>sl_id = ''l1'', sl_kind = KMember, sl_subject = ''u'', sl_period = Day, sl_amount = 50, sl_source = ByAdmin,
     sl_revision = 1, sl_created_at = 5, sl_updated_at = 5, sl_updated_by = ''adm''\<rparr>"

lemma sample_store_ok: "store_ok sample_store"
  unfolding sample_store_def by (intro create_limit_ok empty_store_ok)

lemma sample_spent_ok: "store_ok sample_spent"
  unfolding sample_spent_def by (rule spend_charge_ok [OF sample_store_ok])

subsection \<open>Properties\<close>

text \<open>Whatever is written and charged, in whatever order, each subject, period and source has one limit and each id one
  row, amounts stay whole and within bounds, counters stay non-negative, and only subjects and periods with a limit have
  counters.\<close>

theorem spend_tables_stay_sound:
  assumes "store_ok s" "counters_limited s"
  shows "store_ok (fold (run_spend_op is_zone cal) ops s) \<and> counters_limited (fold (run_spend_op is_zone cal) ops s)"
  using assms by (induction ops arbitrary: s) (simp_all add: run_spend_op_ok run_spend_op_limited)

theorem spend_tables_stay_sound_witness:
  "store_ok (fold (run_spend_op (\<lambda>_. True) utc_calendar) [OpRemoveLimit ''l1'' 1, OpForgetSubject KKey ''k''] sample_store) \<and>
   counters_limited (fold (run_spend_op (\<lambda>_. True) utc_calendar) [OpRemoveLimit ''l1'' 1, OpForgetSubject KKey ''k''] sample_store)"
proof (rule spend_tables_stay_sound [OF sample_store_ok])
  show "counters_limited sample_store" by code_simp
qed

text \<open>Creating a limit with a fresh id never breaks a constraint of the table; when it succeeds the limit is there as
  asked, at revision 1, every other limit is as it was, and a member's limit on an API key is within the admin's.\<close>

theorem create_limit_checked:
  assumes "store_ok s" "fresh \<notin> sl_id ` set (ss_limits s)"
  shows "case create_limit input by_id now fresh s of
      (SpendThrown, _) \<Rightarrow> False
    | (SpendRefused _, s') \<Rightarrow> s' = s
    | (SpendOk l, s') \<Rightarrow> find_limit fresh s' = Some l \<and> kind_name (sl_kind l) = nl_kind input \<and> sl_subject l = nl_subject input \<and>
        of_int (sl_amount l) = nl_amount input \<and> sl_revision l = 1 \<and>
        (\<forall>i. i \<noteq> fresh \<longrightarrow> find_limit i s' = find_limit i s) \<and>
        (\<forall>admin \<in> set (ss_limits s). sl_kind l = KKey \<and> sl_source l = ByMember \<and>
           same_slot KKey (sl_subject l) (sl_period l) ByAdmin admin \<longrightarrow> sl_amount l \<le> sl_amount admin)"
proof (cases rule: create_limit_cases [of input by_id now fresh s])
  case (created kind period source l s')
  have ok: "limits_ok (ss_limits s)" using assms(1) by (simp add: store_ok_def)
  have ok': "limits_ok (ss_limits s')"
    using create_limit_ok [OF assms(1), of input by_id now fresh] created(10) by (simp add: store_ok_def)
  have rows: "ss_limits s' = ss_limits s @ [l]" using created(9) by (auto simp: insert_limit_def split: if_splits)
  have found: "find_limit fresh s' = Some l" using find_limit_iff [OF ok'] rows created(8) by simp
  have others: "find_limit i s' = find_limit i s" if "i \<noteq> fresh" for i
  proof -
    have "find_limit i s' = Some m \<longleftrightarrow> find_limit i s = Some m" for m
      unfolding find_limit_iff [OF ok'] find_limit_iff [OF ok] using rows created(8) that by auto
    then show ?thesis by (metis option.exhaust)
  qed
  have kind: "kind_name kind = nl_kind input" using find_SomeD [OF created(1) [unfolded kind_of_def]] by simp
  have amount: "of_int \<lfloor>nl_amount input\<rfloor> = nl_amount input" using created(4) by (simp add: valid_amount_def)
  have capped: "\<lfloor>nl_amount input\<rfloor> \<le> sl_amount admin"
    if "admin \<in> set (ss_limits s)" "kind = KKey" "source = ByMember" "same_slot KKey (nl_subject input) period ByAdmin admin" for admin
  proof -
    let ?P = "\<lambda>l. sl_kind l = KKey \<and> sl_subject l = nl_subject input \<and> sl_period l = period \<and> sl_source l = ByAdmin"
    have P: "?P admin" using that(4) by (simp add: same_slot_def)
    then have "List.find ?P (store_limits s) \<noteq> None" using that(1) by (auto simp: find_None_iff)
    then obtain m where m: "List.find ?P (store_limits s) = Some m" by blast
    from find_SomeD [OF m] have "m \<in> set (ss_limits s)" "?P m" by simp_all
    then have "m = admin" using P that(1) ok inj_onD [of "\<lambda>l. (sl_kind l, sl_subject l, sl_period l, sl_source l)" "set (ss_limits s)" m admin]
      by (simp add: limits_ok_def distinct_map)
    then show ?thesis using created(7) that(2,3) m by (simp add: above_admin_def)
  qed
  show ?thesis using found others kind amount capped created(8,10) by simp
qed (use assms in simp_all)

theorem create_limit_checked_witness:
  "let s' = snd (create_limit (sample_new_limit ''key'' ''k'' 70 ''admin'') ''adm'' 9 ''l3'' sample_store) in
     find_limit ''l3'' s' = Some (sample_limit\<lparr>sl_id := ''l3'', sl_kind := KKey, sl_subject := ''k'', sl_amount := 70,
       sl_created_at := 9, sl_updated_at := 9\<rparr>) \<and> (\<forall>i. i \<noteq> ''l3'' \<longrightarrow> find_limit i s' = find_limit i sample_store)"
proof -
  let ?l = "sample_limit\<lparr>sl_id := ''l3'', sl_kind := KKey, sl_subject := ''k'', sl_amount := 70, sl_created_at := 9, sl_updated_at := 9\<rparr>"
  let ?c = "create_limit (sample_new_limit ''key'' ''k'' 70 ''admin'') ''adm'' 9 ''l3'' sample_store"
  have "fst ?c = SpendOk ?l" by code_simp
  then have c: "?c = (SpendOk ?l, snd ?c)" by (simp add: prod_eq_iff)
  have "''l3'' \<notin> sl_id ` set (ss_limits sample_store)" by code_simp
  from create_limit_checked [OF sample_store_ok this, of "sample_new_limit ''key'' ''k'' 70 ''admin''" "''adm''" 9]
  show ?thesis unfolding Let_def by (subst (asm) c) simp
qed

text \<open>An update goes through only at the revision it names: it moves that limit to the next revision with the new amount
  and leaves the others alone, so that a second write at the old revision is refused as a conflict.\<close>

theorem update_limit_once_per_revision:
  assumes "store_ok s" "update_limit i revision amount by_id now s = (SpendOk l, s')"
  shows "(\<exists>old. find_limit i s = Some old \<and> sl_revision old = revision \<and> scope_of l = scope_of old \<and> sl_period l = sl_period old) \<and>
    find_limit i s' = Some l \<and> sl_revision l = revision + 1 \<and> of_int (sl_amount l) = amount \<and>
    (\<forall>j. j \<noteq> i \<longrightarrow> find_limit j s' = find_limit j s) \<and>
    update_limit i revision amount' by_id' now' s' = (SpendRefused SpendConflict, s')"
proof (cases rule: update_limit_cases [of i revision amount by_id now s])
  case (updated old s2)
  let ?f = "\<lambda>m. if sl_id m = i then m\<lparr>sl_amount := \<lfloor>amount\<rfloor>, sl_revision := revision + 1, sl_updated_at := now, sl_updated_by := by_id\<rparr>
    else m"
  have s': "s' = s2" "find_limit i s' = Some l" using updated(6) assms(2) by (auto split: option.splits)
  have ok: "limits_ok (ss_limits s)" using assms(1) by (simp add: store_ok_def)
  have ok': "limits_ok (ss_limits s')"
    using update_limit_ok [OF assms(1), of i revision amount by_id now] assms(2) by (simp add: store_ok_def)
  have old: "old \<in> set (ss_limits s)" "sl_id old = i" using find_limit_iff [OF ok] updated(1) by simp_all
  have rows: "ss_limits s' = map ?f (ss_limits s)" using updated(5) s'(1) by simp
  have "?f old \<in> set (ss_limits s')" using old(1) by (simp add: rows)
  then have l: "l = ?f old" using find_limit_iff [OF ok', of i "?f old"] s'(2) old(2) by simp
  have others: "find_limit j s' = find_limit j s" if "j \<noteq> i" for j
  proof -
    have "find_limit j s' = Some m \<longleftrightarrow> find_limit j s = Some m" for m
      unfolding find_limit_iff [OF ok'] find_limit_iff [OF ok] using that by (auto simp: rows image_iff)
    then show ?thesis by (metis option.exhaust)
  qed
  have amount: "of_int \<lfloor>amount\<rfloor> = amount" using updated(3) by (simp add: valid_amount_def)
  show ?thesis using updated(1,2) old others amount s'(2) l by (simp add: update_limit_def scope_of_def)
qed (use assms in simp)

theorem update_limit_once_per_revision_witness:
  "find_limit ''l1'' (snd (update_limit ''l1'' 1 80 ''adm'' 9 sample_store)) \<noteq> None \<and>
   update_limit ''l1'' 1 90 ''adm2'' 10 (snd (update_limit ''l1'' 1 80 ''adm'' 9 sample_store)) =
     (SpendRefused SpendConflict, snd (update_limit ''l1'' 1 80 ''adm'' 9 sample_store))"
proof -
  let ?l = "sample_limit\<lparr>sl_amount := 80, sl_revision := 2, sl_updated_at := 9\<rparr>"
  let ?u = "update_limit ''l1'' 1 80 ''adm'' 9 sample_store"
  have "fst ?u = SpendOk ?l" by code_simp
  then have "?u = (SpendOk ?l, snd ?u)" by (simp add: prod_eq_iff)
  from update_limit_once_per_revision [OF sample_store_ok this, of 90 "''adm2''" 10] show ?thesis by simp
qed

text \<open>Serving a request adds its cost, rounded to whole micro-dollars, to the current period of each limit it meets,
  once, and to no other limit's.\<close>

theorem charge_counts_each_limit_once:
  assumes "store_ok s" "l \<in> set (store_limits s)" "distinct (charged_scopes teams caller c)"
  shows "let book = store_book is_zone; start = pb_start (bounds_at cal book s now (sl_period l)) in
    store_spent (scope_of l) (sl_period l) start (spend_charge cal book (spend_scopes book teams caller c s) micros now s) =
      store_spent (scope_of l) (sl_period l) start s +
        (if scope_of l \<in> set (charged_scopes teams caller c) then max 0 (js_round micros) else 0)"
proof -
  have "count_list (charged_scopes teams caller c) (scope_of l) = (if scope_of l \<in> set (charged_scopes teams caller c) then 1 else 0)"
    using assms(3) by (rule count_distinct)
  then show ?thesis unfolding Let_def spend_charge_adds [OF assms(1,2)] by simp
qed

theorem charge_counts_each_limit_once_witness:
  "let book = store_book (\<lambda>_. True); start = pb_start (bounds_at utc_calendar book sample_store 1000 (sl_period sample_limit)) in
    store_spent (scope_of sample_limit) (sl_period sample_limit) start
      (spend_charge utc_calendar book (spend_scopes book (\<lambda>_. [''t'']) sample_caller sample_charged sample_store) (60 + 2 / 5) 1000 sample_store) =
      store_spent (scope_of sample_limit) (sl_period sample_limit) start sample_store +
        (if scope_of sample_limit \<in> set (charged_scopes (\<lambda>_. [''t'']) sample_caller sample_charged)
         then max 0 (js_round (60 + 2 / 5)) else 0)"
  by (rule charge_counts_each_limit_once [OF sample_store_ok]) code_simp+

text \<open>C4. A limit binds: once a charge has used up a limit it meets, the same caller is refused for the rest of the limit's
  period, and told a time no earlier than the end of that period.\<close>

theorem spent_limit_refuses:
  assumes "store_ok s" "calendar_ok cal" "l \<in> set (store_limits s)" "scope_of l \<in> set (charged_scopes teams caller c)"
    and "book = store_book is_zone"
    and "sl_amount l \<le> store_spent (scope_of l) (sl_period l) (pb_start (bounds_at cal book s now (sl_period l))) s + max 0 (js_round micros)"
    and "now \<le> t" "t < pb_end (bounds_at cal book s now (sl_period l))"
  shows "\<exists>r. spend_refusal cal book teams caller c t (spend_charge cal book (spend_scopes book teams caller c s) micros now s) = Some r \<and>
    pb_end (bounds_at cal book s now (sl_period l)) \<le> rf_resets_at r"
proof -
  let ?s = "spend_charge cal book (spend_scopes book teams caller c s) micros now s"
  let ?b = "bounds_at cal book s"
  have limits: "store_limits ?s = store_limits s" and bounds: "bounds_at cal book ?s = ?b"
    using spend_charge_bounds [OF assms(1)] assms(5) by simp_all
  have "1 \<le> count_list (charged_scopes teams caller c) (scope_of l)" using assms(4) count_list_0_iff [of "charged_scopes teams caller c" "scope_of l"] by linarith
  then have "max 0 (js_round micros) \<le> int (count_list (charged_scopes teams caller c) (scope_of l)) * max 0 (js_round micros)"
    using mult_right_mono [of 1 "int (count_list (charged_scopes teams caller c) (scope_of l))" "max 0 (js_round micros)"] by simp
  then have "sl_amount l \<le> store_spent (scope_of l) (sl_period l) (pb_start (?b now (sl_period l))) ?s"
    using assms(6) unfolding assms(5) spend_charge_adds [OF assms(1,3)] by simp
  moreover have same: "?b t (sl_period l) = ?b now (sl_period l)" by (rule full_limit_same_period [OF assms(2,7,8)])
  ultimately have full: "full_limit book ?s (store_limits ?s) (charged_scopes teams caller c) (bounds_at cal book ?s t) l"
    unfolding limits bounds full_limit_def no_room_def same using assms(3,4) by (simp add: assms(5))
  have "store_limits ?s \<noteq> []" unfolding limits using assms(3) by (metis empty_iff list.set(1))
  then have eq: "spend_refusal cal book teams caller c t ?s =
      exhausted book ?s (store_limits ?s) (charged_scopes teams caller c) (bounds_at cal book ?s t)"
    by (simp add: spend_refusal_def assms(5))
  obtain r where r: "spend_refusal cal book teams caller c t ?s = Some r"
    using full exhausted_None [of book ?s] unfolding eq by blast
  then show ?thesis using exhausted_Some [OF r [unfolded eq]] full same bounds by fastforce
qed

theorem spent_limit_refuses_witness:
  "\<exists>r. spend_refusal utc_calendar (store_book (\<lambda>_. True)) (\<lambda>_. [''t'']) sample_caller sample_charged 5000 sample_spent = Some r \<and>
    pb_end (bounds_at utc_calendar (store_book (\<lambda>_. True)) sample_store 1000 (sl_period sample_limit)) \<le> rf_resets_at r"
  unfolding sample_spent_def
  by (rule spent_limit_refuses [OF sample_store_ok utc_calendar_ok _ _ refl]) code_simp+

text \<open>A refusal names the time it ends: until then the caller stays refused, and from then on, with no charge in
  between and no limit of zero, the caller is served again.\<close>

theorem refusal_ends_when_it_says:
  assumes "calendar_ok cal" "spend_refusal cal book teams caller c now s = Some r"
    and "nothing_after book now s" "\<forall>l \<in> set (bk_limits book s). 0 < sl_amount l" "now \<le> t"
  shows "spend_refusal cal book teams caller c t s \<noteq> None \<longleftrightarrow> t < rf_resets_at r"
proof -
  have some: "bk_limits book s \<noteq> []" using assms(2) by (auto simp: spend_refusal_def)
  then have eq: "spend_refusal cal book teams caller c u s =
      exhausted book s (bk_limits book s) (charged_scopes teams caller c) (bounds_at cal book s u)" for u
    by (simp add: spend_refusal_def Let_def)
  note now = assms(2) [unfolded eq]
  show ?thesis
    using exhausted_lasts [OF assms(1) now assms(5)] exhausted_lifts [OF assms(1) now assms(3,4), of t] unfolding eq by fastforce
qed

theorem refusal_ends_when_it_says_witness:
  "spend_refusal utc_calendar (store_book (\<lambda>_. True)) (\<lambda>_. [''t'']) sample_caller sample_charged 86400000 sample_spent \<noteq> None \<longleftrightarrow>
     (86400000 :: ms) < rf_resets_at \<lparr>rf_kind = KMember, rf_period = Day, rf_resets_at = 86400000\<rparr>"
proof (rule refusal_ends_when_it_says [OF utc_calendar_ok, where now = 1000])
  have "ss_counters sample_spent = [((\<lparr>ss_kind = KKey, ss_subject = ''k''\<rparr>, Day, 0), 60), ((\<lparr>ss_kind = KMember, ss_subject = ''u''\<rparr>, Day, 0), 60)]"
    by code_simp
  then show "nothing_after (store_book (\<lambda>_. True)) 1000 sample_spent"
    by (auto simp: nothing_after_def store_spent_def)
qed code_simp+

text \<open>The gate answers for every limit: the request is refused exactly when a limit of its API key has no room, shared
  credentials are out of reach exactly when a limit of the member, a team, the org or the agent has none, and a
  credential is held back exactly when a limit of its own has none.\<close>

theorem gate_answers_every_limit:
  "let g = (case spend_gate_at cal book teams caller now s of None \<Rightarrow> open_gate | Some g \<Rightarrow> g);
       full = (\<lambda>scopes. \<exists>l. full_limit book s (bk_limits book s) scopes (bounds_at cal book s now) l)
   in (sg_refuse g \<noteq> None \<longleftrightarrow> full (key_scopes caller)) \<and>
      (sg_shared_blocked g \<noteq> None \<longleftrightarrow> full (shared_scopes teams caller)) \<and>
      (map_of (sg_credentials g) i \<noteq> None \<longleftrightarrow> full [\<lparr>ss_kind = KCredential, ss_subject = i\<rparr>])"
  by (rule gate_spec)

text \<open>An admin's limit does not reach back: a member's limit on an API key that was within the admin's when it was
  written is above it after the admin lowers theirs, so the cap holds at writes and not between them.\<close>

theorem member_limit_can_exceed_admin:
  "\<exists>member \<in> set (ss_limits (snd (create_limit (sample_new_limit ''key'' ''k'' 40 ''admin'') ''adm'' 9 ''l3'' sample_store))).
   \<exists>admin \<in> set (ss_limits (snd (create_limit (sample_new_limit ''key'' ''k'' 40 ''admin'') ''adm'' 9 ''l3'' sample_store))).
     sl_source member = ByMember \<and> same_slot KKey (sl_subject member) (sl_period member) ByAdmin admin \<and>
     sl_amount admin < sl_amount member"
  by code_simp

end
