(* ===== verification/Lcp_Matcher.thy ===== *)
theory Lcp_Matcher
  imports Pick
begin

text \<open>
  The LCP conversation matcher (\<open>packages/models/src/session-routing/matcher.ts\<close>): an index of the conversations served
  so far, by the rolling hashes of their prefixes and by their last two turns. A \<open>Group\<close> object is named by its namespace
  and key, the two names the code looks it up by; the buckets of the indexes and the LRU list hold those names, so that
  an assignment to a field of a group is one update of the group table. \<open>digest\<close> is SHA-256 on bytes.
\<close>

type_synonym group_id = "string \<times> string"

record lcp_group =
  gp_key :: string
  gp_namespace :: string
  gp_auth :: string
  gp_session :: string
  gp_parent :: string
  gp_min :: int
  gp_is_fork :: bool
  gp_is_compaction :: bool
  gp_node_kind :: string
  gp_env :: string
  gp_fingerprints :: "string list"
  gp_tail :: "string list"
  gp_prefix_keys :: "string list"
  gp_expires :: ms
  gp_access :: int

record lcp_index =
  nx_groups :: "(string, lcp_group) js_map"
  nx_prefixes :: "(string, string list) js_map"
  nx_tails :: "(string, string list) js_map"

record matcher_state =
  mm_ttl :: ms
  mm_max_turns :: nat
  mm_max_groups :: nat
  mm_max_prefixes :: nat
  mm_namespaces :: "(string, lcp_index) js_map"
  mm_lru :: "group_id list"
  mm_group_count :: nat
  mm_prefix_count :: nat
  mm_access :: int
  mm_operations :: nat

definition max_compaction_probe_window :: nat where "max_compaction_probe_window = 32"

definition min_compaction_overlap_turns :: nat where "min_compaction_overlap_turns = 2"

definition max_tails_per_key :: nat where "max_tails_per_key = 16"

definition positive_or :: "int option \<Rightarrow> int \<Rightarrow> int" where
  "positive_or v default_value = (case v of Some n \<Rightarrow> if n > 0 then n else default_value | None \<Rightarrow> default_value)"

definition new_matcher :: "ms option \<Rightarrow> int option \<Rightarrow> int option \<Rightarrow> int option \<Rightarrow> matcher_state" where
  "new_matcher ttl turns groups entries =
     \<lparr>mm_ttl = positive_or ttl 3600000, mm_max_turns = nat (positive_or turns 1024),
      mm_max_groups = nat (positive_or groups 4096),
      mm_max_prefixes = nat (max (positive_or entries 262144) (positive_or turns 1024)),
      mm_namespaces = [], mm_lru = [], mm_group_count = 0, mm_prefix_count = 0, mm_access = 0, mm_operations = 0\<rparr>"

definition set_matcher_ttl :: "ms \<Rightarrow> matcher_state \<Rightarrow> matcher_state" where
  "set_matcher_ttl ttl s = (if ttl > 0 then s\<lparr>mm_ttl := ttl\<rparr> else s)"

subsection \<open>Hashes\<close>

definition hex_digit :: "nat \<Rightarrow> char" where
  "hex_digit n = char_of (if n < 10 then 48 + n else 87 + n)"

definition to_hex :: "nat list \<Rightarrow> string" where
  "to_hex bytes = concat (map (\<lambda>b. [hex_digit (b div 16), hex_digit (b mod 16)]) bytes)"

fun rolling_keys :: "(nat list \<Rightarrow> nat list) \<Rightarrow> nat list \<Rightarrow> nat \<Rightarrow> string list \<Rightarrow> string list" where
  "rolling_keys digest previous index [] = []"
| "rolling_keys digest previous index (f # fs) =
     (let h = digest (previous @ [0] @ utf8_encode f)
      in (show_nat (index + 1) @ '':'' @ to_hex h) # rolling_keys digest h (index + 1) fs)"

definition rolling_prefix_keys :: "(nat list \<Rightarrow> nat list) \<Rightarrow> string list \<Rightarrow> string list" where
  "rolling_prefix_keys digest fingerprints = rolling_keys digest (replicate 32 0) 0 fingerprints"

definition sequence_key :: "(nat list \<Rightarrow> nat list) \<Rightarrow> string list \<Rightarrow> string" where
  "sequence_key digest fingerprints =
     (let keys = rolling_prefix_keys digest fingerprints in if keys = [] then [] else last keys)"

definition new_lcp_session_id :: "(nat list \<Rightarrow> nat list) \<Rightarrow> string \<Rightarrow> string \<Rightarrow> string" where
  "new_lcp_session_id digest ns first_prefix =
     ''lcp:v1:'' @ to_hex (digest (utf8_encode (join_with [CHR 0x00] [''cli-proxy-api:lcp-session:v1'', ns, first_prefix])))"

definition new_compaction_session_id :: "(nat list \<Rightarrow> nat list) \<Rightarrow> string \<Rightarrow> string \<Rightarrow> string \<Rightarrow> string" where
  "new_compaction_session_id digest ns parent seq_key =
     ''lcp:v1:'' @ to_hex (digest (utf8_encode
        (join_with [CHR 0x00] [''cli-proxy-api:lcp-compaction-session:v1'', ns, parent, seq_key])))"

definition extract_tail :: "string list \<Rightarrow> string list" where
  "extract_tail fingerprints = drop (length fingerprints - max_compaction_probe_window) fingerprints"

definition fallback_env_digest :: "(nat list \<Rightarrow> nat list) \<Rightarrow> string list \<Rightarrow> int \<Rightarrow> string" where
  "fallback_env_digest digest fingerprints min_prefix =
     (if min_prefix \<le> 1 \<or> fingerprints = [] then []
      else to_hex (digest (concat (map (\<lambda>f. utf8_encode (show_nat (length (utf8_encode f)) @ '':'') @ utf8_encode f @ [0])
             (take (nat (min_prefix - 1)) fingerprints)))))"

subsection \<open>Overlaps\<close>

definition calculate_overlap :: "string list \<Rightarrow> string list \<Rightarrow> nat \<Rightarrow> nat \<Rightarrow> nat" where
  "calculate_overlap cand parent cand_end parent_end =
     length (takeWhile (\<lambda>i. i \<le> cand_end \<and> i \<le> parent_end \<and> cand ! (cand_end - i) = parent ! (parent_end - i))
       [0..<max_compaction_probe_window])"

definition is_compaction_overlap :: "int \<Rightarrow> int \<Rightarrow> int \<Rightarrow> int \<Rightarrow> int \<Rightarrow> int \<Rightarrow> int \<Rightarrow> int \<Rightarrow> int \<Rightarrow> bool" where
  "is_compaction_overlap full_cand cand_tail cand_end full_parent parent_tail parent_end overlap min_prefix best_length =
     (let cand_start_in_tail = cand_end - overlap + 1;
          parent_start = full_parent - 1 - (parent_tail - 1 - parent_end) - overlap + 1;
          allowed_start = max min_prefix (best_length + 1);
          cand_start_in_full = full_cand - 1 - (cand_tail - 1 - cand_end) - overlap + 1
      in if cand_start_in_tail > 0 \<and> cand_start_in_full > allowed_start then False
         else cand_end - overlap + 1 > 0 \<or> parent_start > 0)"

text \<open>The parent of a session: that of the first of its groups that names one.\<close>

definition parent_of :: "lcp_index \<Rightarrow> string \<Rightarrow> string" where
  "parent_of ix current =
     (case List.find (\<lambda>g. gp_session g = current \<and> gp_parent g \<noteq> []) (map snd (nx_groups ix)) of
        None \<Rightarrow> [] | Some g \<Rightarrow> gp_parent g)"

fun climbs_to :: "nat \<Rightarrow> lcp_index \<Rightarrow> string \<Rightarrow> string \<Rightarrow> bool" where
  "climbs_to 0 ix ancestor current = False"
| "climbs_to (Suc depth) ix ancestor current =
     (let parent = parent_of ix current in
      if parent = [] then False else if parent = ancestor then True else climbs_to depth ix ancestor parent)"

definition is_ancestor_session :: "lcp_index \<Rightarrow> string \<Rightarrow> string \<Rightarrow> bool" where
  "is_ancestor_session ix ancestor descendant =
     (if ancestor = [] \<or> descendant = [] \<or> ancestor = descendant then False else climbs_to 32 ix ancestor descendant)"

definition effective_tail :: "lcp_group \<Rightarrow> string list" where
  "effective_tail g = (if gp_tail g = [] then gp_fingerprints g else gp_tail g)"

definition pair_key :: "string \<Rightarrow> string \<Rightarrow> string" where
  "pair_key a b = a @ [CHR 0x00] @ b"

definition tail_key_of :: "lcp_group \<Rightarrow> string option" where
  "tail_key_of g =
     (let tails = effective_tail g; n = length tails in
      if n \<ge> min_compaction_overlap_turns then Some (pair_key (tails ! (n - 2)) (tails ! (n - 1))) else None)"

subsection \<open>The tables\<close>

definition empty_index :: lcp_index where
  "empty_index = \<lparr>nx_groups = [], nx_prefixes = [], nx_tails = []\<rparr>"

definition index_of_namespace :: "string \<Rightarrow> matcher_state \<Rightarrow> lcp_index" where
  "index_of_namespace n s = (case map_of (mm_namespaces s) n of None \<Rightarrow> empty_index | Some ix \<Rightarrow> ix)"

definition get_group :: "group_id \<Rightarrow> matcher_state \<Rightarrow> lcp_group option" where
  "get_group i s = (case map_of (mm_namespaces s) (fst i) of None \<Rightarrow> None | Some ix \<Rightarrow> map_of (nx_groups ix) (snd i))"

definition put_index :: "string \<Rightarrow> lcp_index \<Rightarrow> matcher_state \<Rightarrow> matcher_state" where
  "put_index n ix s = s\<lparr>mm_namespaces := AList.update n ix (mm_namespaces s)\<rparr>"

text \<open>\<open>#namespace\<close>: the index of a namespace, created when it is not there.\<close>

definition ensure_namespace :: "string \<Rightarrow> matcher_state \<Rightarrow> matcher_state" where
  "ensure_namespace n s = (if map_of (mm_namespaces s) n = None then put_index n empty_index s else s)"

definition next_access :: "matcher_state \<Rightarrow> int \<times> matcher_state" where
  "next_access s = (let a = mm_access s + 1 in (a, s\<lparr>mm_access := a\<rparr>))"

definition move_to_back :: "group_id \<Rightarrow> matcher_state \<Rightarrow> matcher_state" where
  "move_to_back i s = (if i \<in> set (mm_lru s) then s\<lparr>mm_lru := removeAll i (mm_lru s) @ [i]\<rparr> else s)"

text \<open>An assignment to fields of a group.\<close>

definition set_group :: "group_id \<Rightarrow> lcp_group \<Rightarrow> matcher_state \<Rightarrow> matcher_state" where
  "set_group i g s =
     (let ix = index_of_namespace (fst i) s in put_index (fst i) (ix\<lparr>nx_groups := AList.update (snd i) g (nx_groups ix)\<rparr>) s)"

definition bucket_insert :: "string \<Rightarrow> string \<Rightarrow> (string, string list) js_map \<Rightarrow> (string, string list) js_map" where
  "bucket_insert key member_key m =
     (let b = (case map_of m key of None \<Rightarrow> [] | Some b \<Rightarrow> b)
      in AList.update key (if member_key \<in> set b then b else b @ [member_key]) m)"

definition bucket_delete :: "string \<Rightarrow> string \<Rightarrow> (string, string list) js_map \<Rightarrow> (string, string list) js_map" where
  "bucket_delete key member_key m =
     (case map_of m key of
        None \<Rightarrow> m
      | Some b \<Rightarrow> (let b' = removeAll member_key b in if b' = [] then AList.delete key m else AList.update key b' m))"

definition group_id_of :: "lcp_group \<Rightarrow> group_id" where
  "group_id_of g = (gp_namespace g, gp_key g)"

text \<open>\<open>#removeGroup\<close>.\<close>

definition unindex_group :: "lcp_group \<Rightarrow> lcp_index \<Rightarrow> lcp_index" where
  "unindex_group g ix =
     ix\<lparr>nx_groups := AList.delete (gp_key g) (nx_groups ix),
        nx_prefixes := fold (\<lambda>p. bucket_delete p (gp_key g)) (gp_prefix_keys g) (nx_prefixes ix),
        nx_tails := (case tail_key_of g of None \<Rightarrow> nx_tails ix | Some k \<Rightarrow> bucket_delete k (gp_key g) (nx_tails ix))\<rparr>"

definition remove_group :: "lcp_group \<Rightarrow> matcher_state \<Rightarrow> matcher_state" where
  "remove_group g s =
     (let n = gp_namespace g; count = length (gp_prefix_keys g) in
      s\<lparr>mm_namespaces :=
          (case map_of (mm_namespaces s) n of
             None \<Rightarrow> mm_namespaces s
           | Some ix \<Rightarrow>
               (let ix' = unindex_group g ix
                in if nx_groups ix' = [] then AList.delete n (mm_namespaces s) else AList.update n ix' (mm_namespaces s))),
        mm_lru := removeAll (group_id_of g) (mm_lru s),
        mm_group_count := mm_group_count s - 1,
        mm_prefix_count := mm_prefix_count s - count\<rparr>)"

text \<open>\<open>#addGroup\<close>, with its eviction loop: the least recently used groups go while there are too many.\<close>

definition index_group :: "lcp_group \<Rightarrow> lcp_index \<Rightarrow> lcp_index" where
  "index_group g ix =
     ix\<lparr>nx_groups := AList.update (gp_key g) g (nx_groups ix),
        nx_prefixes := fold (\<lambda>p. bucket_insert p (gp_key g)) (gp_prefix_keys g) (nx_prefixes ix),
        nx_tails := (case tail_key_of g of None \<Rightarrow> nx_tails ix | Some k \<Rightarrow> bucket_insert k (gp_key g) (nx_tails ix))\<rparr>"

definition too_many :: "matcher_state \<Rightarrow> bool" where
  "too_many s \<longleftrightarrow> mm_group_count s > mm_max_groups s \<or> mm_prefix_count s > mm_max_prefixes s"

definition remove_id :: "group_id \<Rightarrow> matcher_state \<Rightarrow> matcher_state" where
  "remove_id i s = (case get_group i s of None \<Rightarrow> s | Some g \<Rightarrow> remove_group g s)"

fun evict_groups :: "group_id list \<Rightarrow> matcher_state \<Rightarrow> matcher_state" where
  "evict_groups [] s = s"
| "evict_groups (i # ids) s = (if too_many s then evict_groups ids (remove_id i s) else s)"

definition insert_group :: "(nat list \<Rightarrow> nat list) \<Rightarrow> lcp_group \<Rightarrow> matcher_state \<Rightarrow> matcher_state" where
  "insert_group digest g s =
     (let keyed = (if gp_prefix_keys g = [] then g\<lparr>gp_prefix_keys := rolling_prefix_keys digest (gp_fingerprints g)\<rparr> else g);
          (access, s1) = next_access s;
          placed = keyed\<lparr>gp_access := access\<rparr>; n = gp_namespace g; i = group_id_of g
      in (put_index n (index_group placed (index_of_namespace n s1)) s1)
           \<lparr>mm_lru := (if i \<in> set (mm_lru s1) then mm_lru s1 else mm_lru s1 @ [i]),
            mm_group_count := mm_group_count s1 + 1, mm_prefix_count := mm_prefix_count s1 + length (gp_prefix_keys keyed)\<rparr>)"

definition add_group :: "(nat list \<Rightarrow> nat list) \<Rightarrow> lcp_group \<Rightarrow> matcher_state \<Rightarrow> matcher_state" where
  "add_group digest g s = (let s' = insert_group digest g s in evict_groups (mm_lru s') s')"

end
