(* ===== verification/Lcp_Match.thy ===== *)
theory Lcp_Match
  imports Lcp_Matcher
begin

text \<open>
  Matching, binding and touching in the LCP matcher (\<open>matcher.ts\<close>): the binary search over prefix lengths, the
  detection of forks and compactions, and the operations a caller sees.
\<close>

subsection \<open>Candidates of a prefix\<close>

definition newer_group :: "lcp_group \<Rightarrow> lcp_group \<Rightarrow> bool" where
  "newer_group g best \<longleftrightarrow>
     length (gp_fingerprints g) > length (gp_fingerprints best) \<or>
     (length (gp_fingerprints g) = length (gp_fingerprints best) \<and>
        (gp_access g > gp_access best \<or> (gp_access g = gp_access best \<and> gp_expires g > gp_expires best)))"

definition extends_prefix :: "string list \<Rightarrow> ms \<Rightarrow> lcp_group \<Rightarrow> bool" where
  "extends_prefix fingerprints now g \<longleftrightarrow>
     \<not> (now \<ge> gp_expires g \<or> gp_min g > int (length fingerprints)) \<and> prefix fingerprints (gp_fingerprints g)"

definition newest_step :: "string list \<Rightarrow> ms \<Rightarrow> lcp_group option \<Rightarrow> lcp_group \<Rightarrow> lcp_group option" where
  "newest_step fingerprints now best g =
     (if \<not> extends_prefix fingerprints now g then best
      else (case best of None \<Rightarrow> Some g | Some b \<Rightarrow> if newer_group g b then Some g else best))"

definition bucket_groups :: "lcp_index \<Rightarrow> string list \<Rightarrow> lcp_group list" where
  "bucket_groups ix keys = List.map_filter (map_of (nx_groups ix)) keys"

definition newest_matching_group :: "lcp_index \<Rightarrow> string list option \<Rightarrow> string list \<Rightarrow> ms \<Rightarrow> lcp_group option" where
  "newest_matching_group ix bucket fingerprints now =
     (case bucket of None \<Rightarrow> None | Some keys \<Rightarrow> foldl (newest_step fingerprints now) None (bucket_groups ix keys))"

subsection \<open>The binary search\<close>

function longest_search ::
  "(nat \<Rightarrow> lcp_group option) \<Rightarrow> int \<Rightarrow> int \<Rightarrow> (lcp_group \<times> nat) option \<Rightarrow> (lcp_group \<times> nat) option" where
  "longest_search probe low high best =
     (if low \<le> high
      then (let middle = low + (high - low) div 2
            in case probe (nat middle) of
                 None \<Rightarrow> longest_search probe low (middle - 1) best
               | Some g \<Rightarrow> longest_search probe (middle + 1) high (Some (g, nat middle)))
      else best)"
  by pat_completeness auto
termination
  by (relation "measure (\<lambda>(probe, low, high, best). nat (high - low + 1))") auto

declare longest_search.simps [simp del]

definition probe_length :: "(nat list \<Rightarrow> nat list) \<Rightarrow> lcp_index \<Rightarrow> string list \<Rightarrow> ms \<Rightarrow> nat \<Rightarrow> lcp_group option" where
  "probe_length digest ix fingerprints now m =
     newest_matching_group ix (map_of (nx_prefixes ix) (rolling_prefix_keys digest fingerprints ! (m - 1)))
       (take m fingerprints) now"

subsection \<open>Compaction\<close>

record compaction_scan =
  cs_index :: lcp_index
  cs_candidates :: "lcp_group list"
  cs_best_overlap :: nat
  cs_overflow :: bool

definition weigh_group ::
  "lcp_sequence \<Rightarrow> string list \<Rightarrow> nat \<Rightarrow> nat \<Rightarrow> compaction_scan \<Rightarrow> lcp_group \<Rightarrow> compaction_scan" where
  "weigh_group q cand_tail best_length cand_end c g =
     (let tails = effective_tail g; tail_length = length tails in
      if gp_env g \<noteq> lq_env_digest q then c
      else if tail_length < min_compaction_overlap_turns then c
      else (let overlap = calculate_overlap cand_tail tails cand_end (tail_length - 1) in
            if overlap \<ge> min_compaction_overlap_turns \<and>
               is_compaction_overlap (int (length (lq_fingerprints q))) (int (length cand_tail)) (int cand_end)
                 (int (length (gp_fingerprints g))) (int tail_length) (int tail_length - 1) (int overlap)
                 (lq_min_prefix_length q) (int best_length)
            then (if overlap > cs_best_overlap c then c\<lparr>cs_best_overlap := overlap, cs_candidates := [g]\<rparr>
                  else if overlap = cs_best_overlap c \<and> \<not> list_ex (\<lambda>e. gp_session e = gp_session g) (cs_candidates c)
                  then c\<lparr>cs_candidates := cs_candidates c @ [g]\<rparr> else c)
            else c))"

text \<open>One turn of the outer loop; expired members leave the bucket, an empty bucket leaves the index.\<close>

definition scan_tail ::
  "lcp_sequence \<Rightarrow> string list \<Rightarrow> nat \<Rightarrow> ms \<Rightarrow> nat \<Rightarrow> compaction_scan \<Rightarrow> compaction_scan" where
  "scan_tail q cand_tail best_length now cand_end c =
     (let ix = cs_index c; k = pair_key (cand_tail ! (cand_end - 1)) (cand_tail ! cand_end) in
      case map_of (nx_tails ix) k of
        None \<Rightarrow> c
      | Some keys \<Rightarrow>
          if keys = [] then c
          else (let live = filter (\<lambda>key. case map_of (nx_groups ix) key of None \<Rightarrow> False | Some g \<Rightarrow> \<not> now \<ge> gp_expires g) keys in
                if live = [] then c\<lparr>cs_index := ix\<lparr>nx_tails := AList.delete k (nx_tails ix)\<rparr>\<rparr>
                else (let c1 = c\<lparr>cs_index := ix\<lparr>nx_tails := AList.update k live (nx_tails ix)\<rparr>\<rparr> in
                      if length live > max_tails_per_key then c1\<lparr>cs_overflow := True\<rparr>
                      else foldl (weigh_group q cand_tail best_length cand_end) c1 (bucket_groups ix live))))"

fun scan_tails ::
  "lcp_sequence \<Rightarrow> string list \<Rightarrow> nat \<Rightarrow> ms \<Rightarrow> nat \<Rightarrow> compaction_scan \<Rightarrow> compaction_scan" where
  "scan_tails q cand_tail best_length now 0 c = c"
| "scan_tails q cand_tail best_length now (Suc n) c =
     scan_tails q cand_tail best_length now n (scan_tail q cand_tail best_length now (Suc n) c)"

definition compaction_leaves :: "lcp_index \<Rightarrow> lcp_group list \<Rightarrow> lcp_group list" where
  "compaction_leaves ix cs =
     filter (\<lambda>c1. \<not> list_ex (\<lambda>c2. gp_session c1 \<noteq> gp_session c2 \<and> is_ancestor_session ix (gp_session c1) (gp_session c2)) cs) cs"

text \<open>\<open>expiresAt\<close>, \<open>lastAccessNumber\<close> and the LRU place of a group that was matched.\<close>

definition refresh_group :: "lcp_group \<Rightarrow> ms \<Rightarrow> matcher_state \<Rightarrow> lcp_group \<times> matcher_state" where
  "refresh_group g now s =
     (let (access, s1) = next_access s; g' = g\<lparr>gp_expires := now + mm_ttl s, gp_access := access\<rparr>; i = group_id_of g
      in (g', move_to_back i (set_group i g' s1)))"

definition match_compaction ::
  "(nat list \<Rightarrow> nat list) \<Rightarrow> string \<Rightarrow> lcp_sequence \<Rightarrow> nat \<Rightarrow> ms \<Rightarrow> matcher_state \<Rightarrow> lcp_match option \<times> matcher_state" where
  "match_compaction digest n q best_length now s =
     (let cand_tail = (if lq_tail_fingerprints q = [] then extract_tail (lq_fingerprints q) else lq_tail_fingerprints q) in
      if length cand_tail < min_compaction_overlap_turns then (None, s)
      else (let c = scan_tails q cand_tail best_length now (length cand_tail - 1)
                      \<lparr>cs_index = index_of_namespace n s, cs_candidates = [], cs_best_overlap = 0, cs_overflow = False\<rparr>;
                s1 = put_index n (cs_index c) s
            in if cs_overflow c \<or> cs_candidates c = [] then (None, s1)
               else (case compaction_leaves (cs_index c) (cs_candidates c) of
                       [g] \<Rightarrow>
                         (let (best, s2) = refresh_group g now s1
                          in (Some \<lparr>li_session_id = new_compaction_session_id digest n (gp_session best)
                                       (sequence_key digest (lq_fingerprints q)),
                                    li_parent_session_id = gp_session best, li_is_fork = False, li_is_compaction = True,
                                    li_node_kind = ''compaction'', li_access_number = gp_access best,
                                    lm_auth_id = gp_auth best, lm_prefix_length = int (cs_best_overlap c)\<rparr>, s2))
                     | _ \<Rightarrow> (None, s1))))"

subsection \<open>Match\<close>

definition match_of :: "lcp_group \<Rightarrow> nat \<Rightarrow> lcp_match" where
  "match_of best best_length =
     \<lparr>li_session_id = gp_session best, li_parent_session_id = gp_parent best, li_is_fork = False,
      li_is_compaction = gp_is_compaction best, li_node_kind = gp_node_kind best, li_access_number = gp_access best,
      lm_auth_id = gp_auth best, lm_prefix_length = int best_length\<rparr>"

definition fork_of :: "(nat list \<Rightarrow> nat list) \<Rightarrow> string \<Rightarrow> string list \<Rightarrow> lcp_group \<Rightarrow> nat \<Rightarrow> lcp_match" where
  "fork_of digest n fingerprints best best_length =
     (let keys = rolling_prefix_keys digest fingerprints in
      (match_of best best_length)\<lparr>li_session_id := new_lcp_session_id digest n (keys ! best_length),
        li_parent_session_id := new_lcp_session_id digest n (keys ! (best_length - 1)), li_is_fork := True,
        li_is_compaction := False, li_node_kind := ''fork''\<rparr>)"

definition match_prepared ::
  "(nat list \<Rightarrow> nat list) \<Rightarrow> string \<Rightarrow> lcp_sequence \<Rightarrow> ms \<Rightarrow> matcher_state \<Rightarrow> lcp_match option \<times> matcher_state" where
  "match_prepared digest n q now s =
     (let fps = lq_fingerprints q; m = lq_min_prefix_length q in
      case map_of (mm_namespaces s) n of
        None \<Rightarrow> (None, s)
      | Some ix \<Rightarrow>
          if fps = [] \<or> m \<le> 0 \<or> m > int (length fps) then (None, s)
          else (case longest_search (probe_length digest ix fps now) m (int (length fps)) None of
                  None \<Rightarrow> match_compaction digest n q 0 now s
                | Some (g, best_length) \<Rightarrow>
                    (let (best, s1) = refresh_group g now s in
                     if best_length < length (gp_fingerprints best) \<and> length fps > best_length
                     then (case match_compaction digest n q best_length now s1 of
                             (Some r, s2) \<Rightarrow> (Some r, s2)
                           | (None, s2) \<Rightarrow> (Some (fork_of digest n fps best best_length), s2))
                     else (Some (match_of best best_length), s1))))"

subsection \<open>Bind and touch\<close>

definition make_group :: "string \<Rightarrow> lcp_sequence \<Rightarrow> string \<Rightarrow> string \<Rightarrow> 'a lcp_identity_scheme \<Rightarrow> string list \<Rightarrow> ms \<Rightarrow> int \<Rightarrow> lcp_group" where
  "make_group n q key auth_id v keys expires access =
     \<lparr>gp_key = key, gp_namespace = n, gp_auth = auth_id, gp_session = li_session_id v, gp_parent = li_parent_session_id v,
      gp_min = lq_min_prefix_length q, gp_is_fork = li_is_fork v, gp_is_compaction = li_is_compaction v,
      gp_node_kind = li_node_kind v, gp_env = lq_env_digest q, gp_fingerprints = lq_fingerprints q,
      gp_tail = lq_tail_fingerprints q, gp_prefix_keys = keys, gp_expires = expires, gp_access = access\<rparr>"

definition identity_of_group :: "lcp_group \<Rightarrow> lcp_identity" where
  "identity_of_group g = \<lparr>li_session_id = gp_session g, li_parent_session_id = gp_parent g, li_is_fork = gp_is_fork g,
     li_is_compaction = gp_is_compaction g, li_node_kind = gp_node_kind g, li_access_number = gp_access g\<rparr>"

text \<open>A group goes in; its caller is told the access number that \<open>#addGroup\<close> gave it.\<close>

definition store_group :: "(nat list \<Rightarrow> nat list) \<Rightarrow> lcp_group \<Rightarrow> matcher_state \<Rightarrow> lcp_identity \<times> matcher_state" where
  "store_group digest g s =
     (let (_, s1) = next_access s; s2 = add_group digest g s1
      in (identity_of_group (g\<lparr>gp_access := mm_access s2\<rparr>), s2))"

definition fresh_identity :: "(nat list \<Rightarrow> nat list) \<Rightarrow> string \<Rightarrow> lcp_sequence \<Rightarrow> lcp_match option \<Rightarrow> lcp_identity" where
  "fresh_identity digest n q matched =
     (let v = (case matched of
                 None \<Rightarrow> \<lparr>li_session_id = [], li_parent_session_id = [], li_is_fork = False, li_is_compaction = False,
                          li_node_kind = [], li_access_number = 0\<rparr>
               | Some r \<Rightarrow> \<lparr>li_session_id = li_session_id r, li_parent_session_id = li_parent_session_id r,
                            li_is_fork = li_is_fork r, li_is_compaction = li_is_compaction r,
                            li_node_kind = li_node_kind r, li_access_number = 0\<rparr>);
          keys = rolling_prefix_keys digest (lq_fingerprints q);
          target = (if lq_min_prefix_length q > 0 \<and> lq_min_prefix_length q \<le> int (length keys)
                    then nat (lq_min_prefix_length q - 1) else 0);
          first = (if target < length keys then keys ! target else [])
      in if li_session_id v = [] then v\<lparr>li_session_id := new_lcp_session_id digest n first\<rparr> else v)"

definition bind_prepared ::
  "(nat list \<Rightarrow> nat list) \<Rightarrow> string \<Rightarrow> lcp_sequence \<Rightarrow> string \<Rightarrow> ms \<Rightarrow> matcher_state \<Rightarrow> lcp_identity \<times> matcher_state" where
  "bind_prepared digest n q auth_id now s0 =
     (let s = ensure_namespace n s0; key = sequence_key digest (lq_fingerprints q); existing = get_group (n, key) s in
      case existing of
        Some g \<Rightarrow>
          if now < gp_expires g
          then store_group digest (make_group n q key auth_id (identity_of_group g) (gp_prefix_keys g) (now + mm_ttl s) 0)
                 (remove_group g s)
          else (let (matched, s1) = match_prepared digest n q now (remove_group g s)
                in store_group digest (make_group n q key auth_id (fresh_identity digest n q matched)
                     (rolling_prefix_keys digest (lq_fingerprints q)) (now + mm_ttl s1) 0) s1)
      | None \<Rightarrow>
          (let (matched, s1) = match_prepared digest n q now s
           in store_group digest (make_group n q key auth_id (fresh_identity digest n q matched)
                (rolling_prefix_keys digest (lq_fingerprints q)) (now + mm_ttl s1) 0) s1))"

definition touch_prepared ::
  "(nat list \<Rightarrow> nat list) \<Rightarrow> string \<Rightarrow> lcp_sequence \<Rightarrow> string \<Rightarrow> ms \<Rightarrow> matcher_state \<Rightarrow> bool \<times> matcher_state" where
  "touch_prepared digest n q auth_id now s0 =
     (let s = ensure_namespace n s0; key = sequence_key digest (lq_fingerprints q); i = (n, key) in
      case get_group i s of
        None \<Rightarrow> (True, snd (bind_prepared digest n q auth_id now s))
      | Some g \<Rightarrow>
          if now \<ge> gp_expires g then (True, snd (bind_prepared digest n q auth_id now (remove_group g s)))
          else if gp_auth g \<noteq> auth_id \<and> gp_auth g \<noteq> ''home-pending'' \<and> gp_auth g \<noteq> [] then (False, s)
          else (let (access, s1) = next_access s;
                    g1 = g\<lparr>gp_auth := auth_id, gp_expires := now + mm_ttl s, gp_access := access, gp_env := lq_env_digest q\<rparr>;
                    s2 = set_group i g1 s1;
                    s3 = (if lq_tail_fingerprints q \<noteq> [] \<and> gp_tail g1 \<noteq> lq_tail_fingerprints q
                          then add_group digest (g1\<lparr>gp_tail := lq_tail_fingerprints q\<rparr>) (remove_group g1 s2) else s2)
                in (True, move_to_back i s3)))"

subsection \<open>The operations\<close>

definition prepare_sequence :: "(nat list \<Rightarrow> nat list) \<Rightarrow> nat \<Rightarrow> lcp_sequence \<Rightarrow> lcp_sequence option" where
  "prepare_sequence digest max_turns q =
     (let fps = lq_fingerprints q; m = lq_min_prefix_length q;
          tails = (if lq_tail_fingerprints q = [] then extract_tail fps else lq_tail_fingerprints q);
          env = (if lq_env_digest q = [] then fallback_env_digest digest fps m else lq_env_digest q);
          bounded = (if length fps > max_turns then take max_turns fps else fps)
      in if fps = [] \<or> m \<le> 0 \<or> m > int (length fps) then None
         else if length fps > max_turns \<and> m > int (length bounded) then None
         else Some \<lparr>lq_fingerprints = bounded, lq_min_prefix_length = m, lq_tail_fingerprints = tails, lq_env_digest = env\<rparr>)"

definition all_ids :: "matcher_state \<Rightarrow> group_id list" where
  "all_ids s = concat (map (\<lambda>(n, ix). map (\<lambda>(k, _). (n, k)) (nx_groups ix)) (mm_namespaces s))"

text \<open>A loop that removes the groups with a property; each is judged once, in table order.\<close>

definition remove_where :: "(lcp_group \<Rightarrow> bool) \<Rightarrow> matcher_state \<Rightarrow> matcher_state" where
  "remove_where P s =
     foldl (\<lambda>s' i. case get_group i s' of None \<Rightarrow> s' | Some g \<Rightarrow> if P g then remove_group g s' else s') s (all_ids s)"

definition cleanup :: "ms \<Rightarrow> matcher_state \<Rightarrow> matcher_state" where
  "cleanup now s = remove_where (\<lambda>g. now \<ge> gp_expires g) s"

definition tick :: "ms \<Rightarrow> matcher_state \<Rightarrow> matcher_state" where
  "tick now s =
     (let s1 = s\<lparr>mm_operations := mm_operations s + 1\<rparr> in if mm_operations s1 mod 128 = 0 then cleanup now s1 else s1)"

definition matcher_match ::
  "(nat list \<Rightarrow> nat list) \<Rightarrow> string \<Rightarrow> lcp_sequence \<Rightarrow> ms \<Rightarrow> matcher_state \<Rightarrow> lcp_match option \<times> matcher_state" where
  "matcher_match digest n q now s =
     (if n = [] then (None, s)
      else (case prepare_sequence digest (mm_max_turns s) q of
              None \<Rightarrow> (None, s) | Some p \<Rightarrow> match_prepared digest n p now (tick now s)))"

definition matcher_bind ::
  "(nat list \<Rightarrow> nat list) \<Rightarrow> string \<Rightarrow> lcp_sequence \<Rightarrow> string \<Rightarrow> ms \<Rightarrow> matcher_state \<Rightarrow> lcp_identity option \<times> matcher_state" where
  "matcher_bind digest n q auth_id now s =
     (if js_trim n = [] \<or> js_trim auth_id = [] then (None, s)
      else (case prepare_sequence digest (mm_max_turns s) q of
              None \<Rightarrow> (None, s)
            | Some p \<Rightarrow> (let (v, s') = bind_prepared digest n p (js_trim auth_id) now (tick now s) in (Some v, s'))))"

definition matcher_touch ::
  "(nat list \<Rightarrow> nat list) \<Rightarrow> string \<Rightarrow> lcp_sequence \<Rightarrow> string \<Rightarrow> ms \<Rightarrow> matcher_state \<Rightarrow> bool \<times> matcher_state" where
  "matcher_touch digest n q auth_id now s =
     (if js_trim n = [] \<or> js_trim auth_id = [] then (False, s)
      else (case prepare_sequence digest (mm_max_turns s) q of
              None \<Rightarrow> (False, s) | Some p \<Rightarrow> touch_prepared digest n p (js_trim auth_id) now (tick now s)))"

definition remove_before ::
  "(nat list \<Rightarrow> nat list) \<Rightarrow> string \<Rightarrow> string list \<Rightarrow> string \<Rightarrow> int \<Rightarrow> ms \<Rightarrow> matcher_state \<Rightarrow> bool \<times> matcher_state" where
  "remove_before digest n fingerprints auth_id max_generation now s =
     (if n = [] \<or> auth_id = [] \<or> fingerprints = [] then (False, s)
      else (let fps = (if length fingerprints > mm_max_turns s then take (mm_max_turns s) fingerprints else fingerprints);
                s1 = tick now s
            in case get_group (n, sequence_key digest fps) s1 of
                 None \<Rightarrow> (False, s1)
               | Some g \<Rightarrow>
                   if gp_auth g \<noteq> auth_id then (False, s1)
                   else if max_generation > 0 \<and> gp_access g > max_generation then (False, s1)
                   else (True, remove_group g s1)))"

definition matcher_invalidate :: "string \<Rightarrow> matcher_state \<Rightarrow> matcher_state" where
  "matcher_invalidate auth_id s = (if auth_id = [] then s else remove_where (\<lambda>g. gp_auth g = auth_id) s)"

definition matcher_clear :: "matcher_state \<Rightarrow> matcher_state" where
  "matcher_clear s = s\<lparr>mm_namespaces := [], mm_lru := [], mm_group_count := 0, mm_prefix_count := 0\<rparr>"

definition lookup_session :: "string \<Rightarrow> ms \<Rightarrow> matcher_state \<Rightarrow> (string list \<times> string) option \<times> matcher_state" where
  "lookup_session session now s =
     (if session = [] then (None, s)
      else (let groups = filter (\<lambda>g. gp_session g = session) (List.map_filter (\<lambda>i. get_group i s) (all_ids s));
                active = filter (\<lambda>g. now < gp_expires g) groups;
                s' = foldl (\<lambda>s' g. remove_group g s') s (filter (\<lambda>g. \<not> now < gp_expires g) groups);
                auths = sort (js_set (concat (map (\<lambda>g. if gp_auth g = [] then [] else [gp_auth g]) active)))
            in (case active of [] \<Rightarrow> None | g # _ \<Rightarrow> if auths = [] then None else Some (auths, gp_namespace g), s')))"

text \<open>The matcher as selection uses it.\<close>

definition merkle_matcher :: "(nat list \<Rightarrow> nat list) \<Rightarrow> matcher_state lcp_matcher" where
  "merkle_matcher digest = \<lparr>mt_match = matcher_match digest, mt_bind = matcher_bind digest\<rparr>"

end
