(* ===== verification/Lcp_Invariant.thy ===== *)
theory Lcp_Invariant
  imports Lcp_Match
begin

text \<open>
  The invariant of the LCP matcher: its three indexes agree with the group table, its counters with the groups, its LRU
  list names each group once, and the bounds of the configuration hold. A \<open>postings\<close> index is what the prefix and tail
  tables are: a multimap from index keys to group keys.
\<close>

subsection \<open>Postings\<close>

locale postings =
  fixes view :: "'k \<Rightarrow> 'm \<Rightarrow> 'a set"
    and post :: "'k \<Rightarrow> 'a \<Rightarrow> 'm \<Rightarrow> 'm"
    and unpost :: "'k \<Rightarrow> 'a \<Rightarrow> 'm \<Rightarrow> 'm"
  assumes view_post: "view q (post p a m) = (if q = p then insert a (view q m) else view q m)"
    and view_unpost: "view q (unpost p a m) = (if q = p then view q m - {a} else view q m)"
begin

lemma view_post_all: "view q (fold (\<lambda>p. post p a) ps m) = (if q \<in> set ps then insert a (view q m) else view q m)"
  by (induction ps arbitrary: m) (auto simp: view_post)

lemma view_unpost_all: "view q (fold (\<lambda>p. unpost p a) ps m) = (if q \<in> set ps then view q m - {a} else view q m)"
  by (induction ps arbitrary: m) (auto simp: view_unpost)

text \<open>An index of a table lists a key of the table under each of its labels; both updates keep that up.\<close>

definition indexes :: "('a \<Rightarrow> 'k list option) \<Rightarrow> 'm \<Rightarrow> bool" where
  "indexes labels m \<longleftrightarrow> (\<forall>p. view p m = {a. \<exists>ps. labels a = Some ps \<and> p \<in> set ps})"

lemma indexes_post:
  assumes "indexes labels m" "labels a = None"
  shows "indexes (labels(a \<mapsto> ps)) (fold (\<lambda>p. post p a) ps m)"
  using assms unfolding indexes_def by (auto simp: view_post_all)

lemma indexes_unpost:
  assumes "indexes labels m" "labels a = Some ps"
  shows "indexes (labels(a := None)) (fold (\<lambda>p. unpost p a) ps m)"
  using assms unfolding indexes_def by (auto simp: view_unpost_all)

end

definition bucket :: "string \<Rightarrow> (string, string list) js_map \<Rightarrow> string set" where
  "bucket p m = set (case map_of m p of None \<Rightarrow> [] | Some b \<Rightarrow> b)"

interpretation buckets: postings bucket bucket_insert bucket_delete
proof
  fix q p a :: string and m :: "(string, string list) js_map"
  show "bucket q (bucket_insert p a m) = (if q = p then insert a (bucket q m) else bucket q m)"
    by (auto simp: bucket_def bucket_insert_def update_conv' Let_def split: option.splits)
  show "bucket q (bucket_delete p a m) = (if q = p then bucket q m - {a} else bucket q m)"
    by (auto simp: bucket_def bucket_delete_def update_conv' delete_conv' Let_def removeAll_filter_not_eq
        filter_empty_conv split: option.splits if_splits)
qed

subsection \<open>The invariant\<close>

definition group_ok :: "(nat list \<Rightarrow> nat list) \<Rightarrow> nat \<Rightarrow> lcp_group \<Rightarrow> bool" where
  "group_ok digest turns g \<longleftrightarrow>
     gp_prefix_keys g = rolling_prefix_keys digest (gp_fingerprints g) \<and>
     gp_key g = sequence_key digest (gp_fingerprints g) \<and>
     0 < gp_min g \<and> gp_min g \<le> int (length (gp_fingerprints g)) \<and> length (gp_fingerprints g) \<le> turns"

definition labels_of :: "lcp_index \<Rightarrow> string \<Rightarrow> string list option" where
  "labels_of ix k = map_option gp_prefix_keys (map_of (nx_groups ix) k)"

definition index_ok :: "(nat list \<Rightarrow> nat list) \<Rightarrow> nat \<Rightarrow> string \<Rightarrow> lcp_index \<Rightarrow> bool" where
  "index_ok digest turns n ix \<longleftrightarrow> distinct_keys (nx_groups ix) \<and>
     (\<forall>k g. map_of (nx_groups ix) k = Some g \<longrightarrow> group_id_of g = (n, k) \<and> group_ok digest turns g) \<and>
     buckets.indexes (labels_of ix) (nx_prefixes ix) \<and>
     (\<forall>t. bucket t (nx_tails ix) \<subseteq> {k. \<exists>g. map_of (nx_groups ix) k = Some g \<and> tail_key_of g = Some t})"

definition prefix_size :: "matcher_state \<Rightarrow> group_id \<Rightarrow> nat" where
  "prefix_size s i = (case get_group i s of None \<Rightarrow> 0 | Some g \<Rightarrow> length (gp_prefix_keys g))"

definition tables_ok :: "(nat list \<Rightarrow> nat list) \<Rightarrow> matcher_state \<Rightarrow> bool" where
  "tables_ok digest s \<longleftrightarrow> distinct_keys (mm_namespaces s) \<and>
     (\<forall>n ix. map_of (mm_namespaces s) n = Some ix \<longrightarrow> index_ok digest (mm_max_turns s) n ix)"

definition lru_ok :: "matcher_state \<Rightarrow> bool" where
  "lru_ok s \<longleftrightarrow> distinct (mm_lru s) \<and> set (mm_lru s) = {i. get_group i s \<noteq> None} \<and>
     mm_group_count s = length (mm_lru s) \<and> mm_prefix_count s = sum_list (map (prefix_size s) (mm_lru s))"

definition access_ok :: "matcher_state \<Rightarrow> bool" where
  "access_ok s \<longleftrightarrow> (\<forall>i g. get_group i s = Some g \<longrightarrow> gp_access g \<le> mm_access s) \<and>
     (\<forall>i j g h. get_group i s = Some g \<longrightarrow> get_group j s = Some h \<longrightarrow> gp_access g = gp_access h \<longrightarrow> i = j)"

definition limits_ok :: "matcher_state \<Rightarrow> bool" where
  "limits_ok s \<longleftrightarrow> 0 < mm_ttl s \<and> 0 < mm_max_turns s \<and> 0 < mm_max_groups s \<and> mm_max_turns s \<le> mm_max_prefixes s"

definition matcher_core :: "(nat list \<Rightarrow> nat list) \<Rightarrow> matcher_state \<Rightarrow> bool" where
  "matcher_core digest s \<longleftrightarrow> tables_ok digest s \<and> lru_ok s \<and> access_ok s \<and> limits_ok s"

definition matcher_ok :: "(nat list \<Rightarrow> nat list) \<Rightarrow> matcher_state \<Rightarrow> bool" where
  "matcher_ok digest s \<longleftrightarrow> matcher_core digest s \<and> \<not> too_many s"

subsection \<open>Reading the tables\<close>

lemma get_group_put_index:
  "get_group i (put_index n ix s) = (if fst i = n then map_of (nx_groups ix) (snd i) else get_group i s)"
  by (simp add: get_group_def put_index_def update_conv')

lemma put_index_fields [simp]:
  "mm_lru (put_index n ix s) = mm_lru s" "mm_group_count (put_index n ix s) = mm_group_count s"
  "mm_prefix_count (put_index n ix s) = mm_prefix_count s" "mm_access (put_index n ix s) = mm_access s"
  "mm_ttl (put_index n ix s) = mm_ttl s" "mm_max_turns (put_index n ix s) = mm_max_turns s"
  "mm_max_groups (put_index n ix s) = mm_max_groups s" "mm_max_prefixes (put_index n ix s) = mm_max_prefixes s"
  by (simp_all add: put_index_def)

lemma get_group_index: "get_group (n, k) s = map_of (nx_groups (index_of_namespace n s)) k"
  by (simp add: get_group_def index_of_namespace_def empty_index_def split: option.splits)

lemma empty_index_ok [simp]: "index_ok digest turns n empty_index"
  by (simp add: index_ok_def empty_index_def buckets.indexes_def labels_of_def bucket_def)

lemma tables_okD: "tables_ok digest s \<Longrightarrow> index_ok digest (mm_max_turns s) n (index_of_namespace n s)"
  by (auto simp: tables_ok_def index_of_namespace_def split: option.splits)

lemma get_group_ok:
  assumes "tables_ok digest s" "get_group i s = Some g"
  shows "group_id_of g = i \<and> group_ok digest (mm_max_turns s) g"
proof -
  obtain n k where i: "i = (n, k)" by (cases i)
  have "map_of (nx_groups (index_of_namespace n s)) k = Some g" using assms(2) by (simp add: i get_group_index)
  then show ?thesis using tables_okD [OF assms(1)] by (simp add: index_ok_def i)
qed

lemma tables_ok_put: "tables_ok digest s \<Longrightarrow> index_ok digest (mm_max_turns s) n ix \<Longrightarrow> tables_ok digest (put_index n ix s)"
  by (auto simp: tables_ok_def put_index_def update_conv' split: if_splits)

subsection \<open>Removing a group\<close>

lemma remove_group_fields [simp]:
  "mm_lru (remove_group g s) = removeAll (group_id_of g) (mm_lru s)"
  "mm_group_count (remove_group g s) = mm_group_count s - 1"
  "mm_prefix_count (remove_group g s) = mm_prefix_count s - length (gp_prefix_keys g)"
  "mm_access (remove_group g s) = mm_access s" "mm_ttl (remove_group g s) = mm_ttl s"
  "mm_max_turns (remove_group g s) = mm_max_turns s" "mm_max_groups (remove_group g s) = mm_max_groups s"
  "mm_max_prefixes (remove_group g s) = mm_max_prefixes s"
  by (simp_all add: remove_group_def Let_def)

lemma unindex_groups [simp]: "nx_groups (unindex_group g ix) = AList.delete (gp_key g) (nx_groups ix)"
  by (simp add: unindex_group_def)

lemma get_remove_group: "get_group i (remove_group g s) = (if i = group_id_of g then None else get_group i s)"
proof (cases "map_of (mm_namespaces s) (gp_namespace g)")
  case None
  then show ?thesis by (cases i) (auto simp: get_group_def remove_group_def group_id_of_def Let_def)
next
  case (Some ix)
  have del: "map_of (AList.delete (gp_key g) (nx_groups ix)) k = (if k = gp_key g then None else map_of (nx_groups ix) k)" for k
    by (simp add: delete_conv')
  show ?thesis
  proof (cases "AList.delete (gp_key g) (nx_groups ix) = []")
    case True
    then have "map_of (nx_groups ix) k = None" if "k \<noteq> gp_key g" for k using del [of k] that by simp
    with True Some show ?thesis
      by (cases i) (auto simp: get_group_def remove_group_def group_id_of_def Let_def delete_conv')
  next
    case False
    with Some del show ?thesis
      by (cases i) (auto simp: get_group_def remove_group_def group_id_of_def Let_def update_conv')
  qed
qed

lemma index_ok_unindex:
  assumes ok: "index_ok digest turns n ix" and g: "map_of (nx_groups ix) (gp_key g) = Some g"
  shows "index_ok digest turns n (unindex_group g ix)"
proof -
  have labels: "labels_of (unindex_group g ix) = (labels_of ix)(gp_key g := None)"
    by (auto simp: labels_of_def delete_conv' fun_eq_iff)
  have "labels_of ix (gp_key g) = Some (gp_prefix_keys g)" by (simp add: labels_of_def g)
  then have "buckets.indexes (labels_of (unindex_group g ix)) (nx_prefixes (unindex_group g ix))"
    unfolding labels using ok buckets.indexes_unpost by (simp add: index_ok_def unindex_group_def)
  moreover have "bucket t (nx_tails (unindex_group g ix)) \<subseteq>
      {k. \<exists>h. map_of (nx_groups (unindex_group g ix)) k = Some h \<and> tail_key_of h = Some t}" for t
  proof -
    have "bucket t (nx_tails ix) \<subseteq> {k. \<exists>h. map_of (nx_groups ix) k = Some h \<and> tail_key_of h = Some t}"
      using ok by (simp add: index_ok_def)
    with g show ?thesis
      by (auto simp: unindex_group_def buckets.view_unpost delete_conv' split: option.splits if_splits)
  qed
  ultimately show ?thesis using ok by (auto simp: index_ok_def delete_conv' split: if_splits)
qed

lemma tables_ok_remove:
  assumes ok: "tables_ok digest s" and g: "get_group (group_id_of g) s = Some g"
  shows "tables_ok digest (remove_group g s)"
proof -
  obtain ix where ix: "map_of (mm_namespaces s) (gp_namespace g) = Some ix" "map_of (nx_groups ix) (gp_key g) = Some g"
    using g by (auto simp: get_group_def group_id_of_def split: option.splits)
  have "index_ok digest (mm_max_turns s) (gp_namespace g) (unindex_group g ix)"
    using ok ix index_ok_unindex by (auto simp: tables_ok_def)
  then show ?thesis
    using ok ix by (auto simp: tables_ok_def remove_group_def Let_def update_conv' delete_conv' split: if_splits)
qed

lemma sum_list_removeAll:
  fixes f :: "'a \<Rightarrow> nat"
  shows "distinct xs \<Longrightarrow> x \<in> set xs \<Longrightarrow> sum_list (map f (removeAll x xs)) = sum_list (map f xs) - f x"
proof (induction xs)
  case (Cons y ys)
  show ?case
  proof (cases "x = y")
    case True
    with Cons.prems show ?thesis by (simp add: removeAll_id)
  next
    case False
    then have "x \<in> set ys" using Cons.prems by simp
    then have "f x \<le> sum_list (map f ys)" by (simp add: member_le_sum_list)
    with False Cons show ?thesis by simp
  qed
qed simp

lemma length_removeAll_distinct: "distinct xs \<Longrightarrow> x \<in> set xs \<Longrightarrow> length (removeAll x xs) = length xs - 1"
  by (metis distinct_remove1_removeAll length_remove1)

lemma lru_ok_remove:
  assumes ok: "lru_ok s" and g: "get_group (group_id_of g) s = Some g"
  shows "lru_ok (remove_group g s)"
proof -
  have mem: "group_id_of g \<in> set (mm_lru s)" using assms by (auto simp: lru_ok_def)
  have "map (prefix_size (remove_group g s)) (removeAll (group_id_of g) (mm_lru s)) =
      map (prefix_size s) (removeAll (group_id_of g) (mm_lru s))"
    by (auto simp: prefix_size_def get_remove_group)
  moreover have "prefix_size s (group_id_of g) = length (gp_prefix_keys g)" by (simp add: prefix_size_def g)
  moreover have "sum_list (map (prefix_size s) (removeAll (group_id_of g) (mm_lru s))) =
      sum_list (map (prefix_size s) (mm_lru s)) - prefix_size s (group_id_of g)"
    using ok mem by (simp add: lru_ok_def sum_list_removeAll)
  ultimately have "sum_list (map (prefix_size (remove_group g s)) (removeAll (group_id_of g) (mm_lru s))) =
      sum_list (map (prefix_size s) (mm_lru s)) - length (gp_prefix_keys g)"
    by (simp only:)
  then show ?thesis
    using ok mem unfolding lru_ok_def remove_group_fields
    by (auto simp: get_remove_group length_removeAll_distinct distinct_removeAll)
qed

lemma core_remove:
  assumes ok: "matcher_core digest s" and g: "get_group (group_id_of g) s = Some g"
  shows "matcher_core digest (remove_group g s)"
proof -
  have "access_ok (remove_group g s)" "limits_ok (remove_group g s)"
    using ok by (auto simp: matcher_core_def access_ok_def limits_ok_def get_remove_group)
  then show ?thesis using ok g by (simp add: matcher_core_def tables_ok_remove lru_ok_remove)
qed

lemma too_many_remove: "too_many (remove_group g s) \<Longrightarrow> too_many s"
  by (auto simp: too_many_def)

subsection \<open>Inserting and evicting\<close>

lemma length_rolling_keys [simp]: "length (rolling_keys digest previous i fs) = length fs"
  by (induction fs arbitrary: previous i) (simp_all add: Let_def)

lemma length_rolling_prefix_keys [simp]: "length (rolling_prefix_keys digest fs) = length fs"
  by (simp add: rolling_prefix_keys_def)

lemma insert_group_eq:
  assumes "group_ok digest turns g"
  shows "insert_group digest g s =
    (put_index (gp_namespace g)
       (index_group (g\<lparr>gp_access := mm_access s + 1\<rparr>) (index_of_namespace (gp_namespace g) s))
       (s\<lparr>mm_access := mm_access s + 1\<rparr>))
      \<lparr>mm_lru := (if group_id_of g \<in> set (mm_lru s) then mm_lru s else mm_lru s @ [group_id_of g]),
       mm_group_count := mm_group_count s + 1, mm_prefix_count := mm_prefix_count s + length (gp_prefix_keys g)\<rparr>"
proof -
  have "gp_prefix_keys g \<noteq> []"
    using assms unfolding group_ok_def by (metis length_rolling_prefix_keys list.size(3) of_nat_0 not_less)
  then show ?thesis by (simp add: insert_group_def next_access_def index_of_namespace_def Let_def)
qed

lemma get_more [simp]:
  "get_group i (s\<lparr>mm_lru := l\<rparr>) = get_group i s" "get_group i (s\<lparr>mm_group_count := c\<rparr>) = get_group i s"
  "get_group i (s\<lparr>mm_prefix_count := c\<rparr>) = get_group i s" "get_group i (s\<lparr>mm_access := a\<rparr>) = get_group i s"
  "get_group i (s\<lparr>mm_operations := c\<rparr>) = get_group i s" "get_group i (s\<lparr>mm_ttl := t\<rparr>) = get_group i s"
  by (simp_all add: get_group_def)

lemma index_groups [simp]: "nx_groups (index_group g ix) = AList.update (gp_key g) g (nx_groups ix)"
  by (simp add: index_group_def)

lemma get_insert_group:
  assumes "group_ok digest turns g"
  shows "get_group i (insert_group digest g s) =
    (if i = group_id_of g then Some (g\<lparr>gp_access := mm_access s + 1\<rparr>) else get_group i s)"
  by (cases i) (simp add: insert_group_eq [OF assms] get_group_put_index update_conv' group_id_of_def get_group_index)

lemma insert_group_fields:
  assumes "group_ok digest turns g"
  shows "mm_access (insert_group digest g s) = mm_access s + 1" "mm_ttl (insert_group digest g s) = mm_ttl s"
    "mm_max_turns (insert_group digest g s) = mm_max_turns s" "mm_max_groups (insert_group digest g s) = mm_max_groups s"
    "mm_max_prefixes (insert_group digest g s) = mm_max_prefixes s"
    "mm_group_count (insert_group digest g s) = mm_group_count s + 1"
    "mm_prefix_count (insert_group digest g s) = mm_prefix_count s + length (gp_prefix_keys g)"
  by (simp_all add: insert_group_eq [OF assms])

lemma index_ok_index:
  assumes ok: "index_ok digest turns n ix" and new: "map_of (nx_groups ix) (gp_key g) = None"
    and g: "group_ok digest turns g" "gp_namespace g = n"
  shows "index_ok digest turns n (index_group g ix)"
proof -
  have labels: "labels_of (index_group g ix) = (labels_of ix)(gp_key g \<mapsto> gp_prefix_keys g)"
    by (auto simp: labels_of_def update_conv' fun_eq_iff)
  have "labels_of ix (gp_key g) = None" by (simp add: labels_of_def new)
  then have "buckets.indexes (labels_of (index_group g ix)) (nx_prefixes (index_group g ix))"
    unfolding labels using ok buckets.indexes_post by (simp add: index_ok_def index_group_def)
  moreover have "bucket t (nx_tails (index_group g ix)) \<subseteq>
      {k. \<exists>h. map_of (nx_groups (index_group g ix)) k = Some h \<and> tail_key_of h = Some t}" for t
  proof -
    have "bucket t (nx_tails ix) \<subseteq> {k. \<exists>h. map_of (nx_groups ix) k = Some h \<and> tail_key_of h = Some t}"
      using ok by (simp add: index_ok_def)
    with new show ?thesis
      by (auto simp: index_group_def buckets.view_post update_conv' split: option.splits if_splits)
  qed
  ultimately show ?thesis using ok g by (auto simp: index_ok_def update_conv' group_id_of_def split: if_splits)
qed

lemma tables_ok_insert:
  assumes ok: "tables_ok digest s" and g: "group_ok digest (mm_max_turns s) g" and new: "get_group (group_id_of g) s = None"
  shows "tables_ok digest (insert_group digest g s)"
proof -
  have placed: "group_ok digest (mm_max_turns s) (g\<lparr>gp_access := mm_access s + 1\<rparr>)" using g by (simp add: group_ok_def)
  have "index_ok digest (mm_max_turns s) (gp_namespace g)
     (index_group (g\<lparr>gp_access := mm_access s + 1\<rparr>) (index_of_namespace (gp_namespace g) s))"
    using tables_okD [OF ok] placed new
    by (intro index_ok_index) (simp_all add: group_id_of_def get_group_index)
  then show ?thesis
    using ok unfolding insert_group_eq [OF g]
    by (auto simp: tables_ok_def put_index_def update_conv' split: if_splits)
qed

lemma lru_ok_insert:
  assumes ok: "lru_ok s" and g: "group_ok digest turns g" and new: "get_group (group_id_of g) s = None"
  shows "lru_ok (insert_group digest g s)" "mm_lru (insert_group digest g s) = mm_lru s @ [group_id_of g]"
proof -
  let ?s = "insert_group digest g s"
  have out: "group_id_of g \<notin> set (mm_lru s)" using ok new by (simp add: lru_ok_def)
  show lru: "mm_lru ?s = mm_lru s @ [group_id_of g]" using out by (simp add: insert_group_eq [OF g])
  have "map (prefix_size ?s) (mm_lru s) = map (prefix_size s) (mm_lru s)"
    using out by (auto simp: prefix_size_def get_insert_group [OF g])
  moreover have "prefix_size ?s (group_id_of g) = length (gp_prefix_keys g)"
    by (simp add: prefix_size_def get_insert_group [OF g])
  ultimately have "sum_list (map (prefix_size ?s) (mm_lru ?s)) =
      sum_list (map (prefix_size s) (mm_lru s)) + length (gp_prefix_keys g)"
    by (simp only: lru map_append sum_list_append list.map sum_list.Cons sum_list.Nil add_0_right)
  then show "lru_ok ?s"
    using ok out by (auto simp: lru_ok_def lru get_insert_group [OF g] insert_group_fields [OF g])
qed

lemma core_insert:
  assumes ok: "matcher_core digest s" and g: "group_ok digest (mm_max_turns s) g" and new: "get_group (group_id_of g) s = None"
  shows "matcher_core digest (insert_group digest g s)"
proof -
  have old: "gp_access h \<le> mm_access s" if "get_group i s = Some h" for i h
    using ok that unfolding matcher_core_def access_ok_def by blast
  have one: "i = j" if "get_group i s = Some h" "get_group j s = Some h'" "gp_access h = gp_access h'" for i j h h'
    using ok that unfolding matcher_core_def access_ok_def by blast
  have "gp_access h \<le> mm_access (insert_group digest g s)" if "get_group i (insert_group digest g s) = Some h" for i h
    using that old [of i h] by (auto simp: get_insert_group [OF g] insert_group_fields [OF g] split: if_splits)
  moreover have "i = j" if "get_group i (insert_group digest g s) = Some h" "get_group j (insert_group digest g s) = Some h'"
    "gp_access h = gp_access h'" for i j h h'
    using that old [of i h] old [of j h'] one [of i h j h'] by (auto simp: get_insert_group [OF g] split: if_splits)
  ultimately have "access_ok (insert_group digest g s)" unfolding access_ok_def by blast
  moreover have "limits_ok (insert_group digest g s)"
    using ok by (simp add: matcher_core_def limits_ok_def insert_group_fields [OF g])
  ultimately show ?thesis using ok g new by (simp add: matcher_core_def tables_ok_insert lru_ok_insert)
qed

text \<open>What a matcher loses, it loses from its group table, and nothing else changes there.\<close>

definition shrinks :: "matcher_state \<Rightarrow> matcher_state \<Rightarrow> bool" where
  "shrinks s s' \<longleftrightarrow> (\<forall>i g. get_group i s' = Some g \<longrightarrow> get_group i s = Some g) \<and>
     mm_access s' = mm_access s \<and> mm_ttl s' = mm_ttl s \<and> mm_max_turns s' = mm_max_turns s \<and>
     mm_max_groups s' = mm_max_groups s \<and> mm_max_prefixes s' = mm_max_prefixes s"

lemma shrinks_refl [simp, intro]: "shrinks s s"
  by (simp add: shrinks_def)

lemma shrinks_trans: "shrinks s s' \<Longrightarrow> shrinks s' s'' \<Longrightarrow> shrinks s s''"
  by (simp add: shrinks_def)

lemma shrinks_get: "shrinks s s' \<Longrightarrow> get_group i s' = Some g \<Longrightarrow> get_group i s = Some g"
  unfolding shrinks_def by blast

lemma shrinks_remove: "shrinks s (remove_group g s)"
  by (simp add: shrinks_def get_remove_group)

lemma remove_id_ok:
  assumes "matcher_core digest s"
  shows "matcher_core digest (remove_id i s)" "shrinks s (remove_id i s)" "mm_lru (remove_id i s) = removeAll i (mm_lru s)"
    "get_group j (remove_id i s) = (if j = i then None else get_group j s)"
proof -
  have known: "group_id_of g = i" if "get_group i s = Some g" for g
    using assms get_group_ok [OF _ that] unfolding matcher_core_def by blast
  then show "matcher_core digest (remove_id i s)"
    using assms by (auto simp: remove_id_def core_remove split: option.split)
  show "shrinks s (remove_id i s)" by (simp add: remove_id_def shrinks_remove split: option.split)
  have "set (mm_lru s) = {i. get_group i s \<noteq> None}" using assms by (simp add: matcher_core_def lru_ok_def)
  then show "mm_lru (remove_id i s) = removeAll i (mm_lru s)"
    using known by (auto simp: remove_id_def removeAll_id split: option.split)
  show "get_group j (remove_id i s) = (if j = i then None else get_group j s)"
    using known by (auto simp: remove_id_def get_remove_group split: option.split)
qed

lemma evict_core: "matcher_core digest s \<Longrightarrow> matcher_core digest (evict_groups ids s) \<and> shrinks s (evict_groups ids s)"
proof (induction ids arbitrary: s)
  case (Cons i ids)
  from Cons.IH [OF remove_id_ok(1) [OF Cons.prems], of i] Cons.prems remove_id_ok(2) [OF Cons.prems, of i]
  show ?case by (auto intro: shrinks_trans)
qed simp

lemma no_groups_fit: "matcher_core digest s \<Longrightarrow> mm_lru s = [] \<Longrightarrow> \<not> too_many s"
  by (simp add: matcher_core_def lru_ok_def too_many_def)

lemma evict_enough: "matcher_core digest s \<Longrightarrow> set (mm_lru s) \<subseteq> set ids \<Longrightarrow> \<not> too_many (evict_groups ids s)"
proof (induction ids arbitrary: s)
  case Nil
  then show ?case using no_groups_fit by simp
next
  case (Cons i ids)
  have "set (mm_lru (remove_id i s)) \<subseteq> set ids" using Cons.prems by (auto simp: remove_id_ok(3))
  then show ?case using Cons.IH [OF remove_id_ok(1)] Cons.prems(1) by simp
qed

lemma one_group_fits:
  assumes ok: "matcher_core digest s" and lru: "mm_lru s = [i]"
  shows "\<not> too_many s"
proof -
  obtain g where g: "get_group i s = Some g" using ok lru by (auto simp: matcher_core_def lru_ok_def)
  then have "length (gp_prefix_keys g) \<le> mm_max_turns s"
    using ok get_group_ok [of digest s i g] by (auto simp: matcher_core_def group_ok_def)
  then show ?thesis using ok g lru by (auto simp: matcher_core_def lru_ok_def limits_ok_def too_many_def prefix_size_def)
qed

text \<open>The group used last is never evicted.\<close>

lemma evict_keeps_last:
  "matcher_core digest s \<Longrightarrow> mm_lru s = ids @ [i] \<Longrightarrow> get_group i (evict_groups (ids @ [i]) s) = get_group i s"
proof (induction ids arbitrary: s)
  case Nil
  then show ?case using one_group_fits by simp
next
  case (Cons j ids)
  have "distinct (j # ids @ [i])" using Cons.prems by (simp add: matcher_core_def lru_ok_def)
  then have "i \<noteq> j" "mm_lru (remove_id j s) = ids @ [i]"
    using Cons.prems remove_id_ok(3) [OF Cons.prems(1), of j] by (auto simp: removeAll_id)
  then show ?case using Cons.IH [OF remove_id_ok(1)] Cons.prems(1) by (simp add: remove_id_ok(4))
qed

lemma add_group_ok:
  assumes ok: "matcher_core digest s" and g: "group_ok digest (mm_max_turns s) g" and new: "get_group (group_id_of g) s = None"
  shows "matcher_ok digest (add_group digest g s)"
    "get_group (group_id_of g) (add_group digest g s) = Some (g\<lparr>gp_access := mm_access s + 1\<rparr>)"
    "shrinks (insert_group digest g s) (add_group digest g s)"
proof -
  let ?s = "insert_group digest g s"
  have core: "matcher_core digest ?s" using assms by (rule core_insert)
  have lru: "mm_lru ?s = mm_lru s @ [group_id_of g]" using ok g new lru_ok_insert(2) by (simp add: matcher_core_def)
  show "matcher_ok digest (add_group digest g s)" "shrinks ?s (add_group digest g s)"
    using evict_core [OF core] evict_enough [OF core subset_refl] unfolding matcher_ok_def add_group_def Let_def by blast+
  show "get_group (group_id_of g) (add_group digest g s) = Some (g\<lparr>gp_access := mm_access s + 1\<rparr>)"
    using evict_keeps_last [OF core lru] by (simp add: add_group_def lru get_insert_group [OF g])
qed

subsection \<open>Refreshing a group\<close>

text \<open>Fields that decide where a group is indexed.\<close>

definition same_place :: "lcp_group \<Rightarrow> lcp_group \<Rightarrow> bool" where
  "same_place g' g \<longleftrightarrow> group_id_of g' = group_id_of g \<and> gp_fingerprints g' = gp_fingerprints g \<and> gp_tail g' = gp_tail g \<and>
     gp_prefix_keys g' = gp_prefix_keys g \<and> gp_min g' = gp_min g"

lemma same_place_ok: "same_place g' g \<Longrightarrow> group_ok digest turns g' = group_ok digest turns g"
  by (simp add: same_place_def group_ok_def group_id_of_def)

lemma same_place_tail: "same_place g' g \<Longrightarrow> tail_key_of g' = tail_key_of g"
  by (simp add: same_place_def tail_key_of_def effective_tail_def)

lemma get_set_group: "get_group j (set_group i g s) = (if j = i then Some g else get_group j s)"
  by (cases i; cases j) (auto simp: set_group_def Let_def get_group_put_index update_conv' simp flip: get_group_index)

lemma set_group_fields [simp]:
  "mm_lru (set_group i g s) = mm_lru s" "mm_group_count (set_group i g s) = mm_group_count s"
  "mm_prefix_count (set_group i g s) = mm_prefix_count s" "mm_access (set_group i g s) = mm_access s"
  "mm_ttl (set_group i g s) = mm_ttl s" "mm_max_turns (set_group i g s) = mm_max_turns s"
  "mm_max_groups (set_group i g s) = mm_max_groups s" "mm_max_prefixes (set_group i g s) = mm_max_prefixes s"
  by (simp_all add: set_group_def Let_def)

lemma tables_ok_set:
  assumes ok: "tables_ok digest s" and g: "get_group i s = Some g" and same: "same_place g' g"
  shows "tables_ok digest (set_group i g' s)"
proof -
  let ?ix = "index_of_namespace (fst i) s" and ?ix' = "index_of_namespace (fst i) s\<lparr>nx_groups :=
    AList.update (snd i) g' (nx_groups (index_of_namespace (fst i) s))\<rparr>"
  have old: "map_of (nx_groups ?ix) (snd i) = Some g" using g get_group_index [of "fst i" "snd i" s] by simp
  have "labels_of ?ix' = labels_of ?ix"
    using old same by (auto simp: labels_of_def update_conv' same_place_def fun_eq_iff)
  moreover have "group_id_of g' = i \<and> group_ok digest (mm_max_turns s) g'"
    using get_group_ok [OF ok g] same_place_ok [OF same] same by (simp add: same_place_def)
  moreover have "bucket t (nx_tails ?ix') \<subseteq> {k. \<exists>h. map_of (nx_groups ?ix') k = Some h \<and> tail_key_of h = Some t}" for t
  proof -
    have "bucket t (nx_tails ?ix) \<subseteq> {k. \<exists>h. map_of (nx_groups ?ix) k = Some h \<and> tail_key_of h = Some t}"
      using tables_okD [OF ok, of "fst i"] by (simp add: index_ok_def)
    then show ?thesis using old same_place_tail [OF same] by (auto simp: update_conv')
  qed
  ultimately have "index_ok digest (mm_max_turns s) (fst i) ?ix'"
    using tables_okD [OF ok, of "fst i"] by (auto simp: index_ok_def update_conv' split: if_splits)
  then show ?thesis using ok by (simp add: set_group_def Let_def tables_ok_put)
qed

lemma core_set:
  assumes ok: "matcher_core digest s" and g: "get_group i s = Some g" and same: "same_place g' g"
    and acc: "gp_access g' = mm_access s + 1"
  shows "matcher_core digest (set_group i g' (s\<lparr>mm_access := mm_access s + 1\<rparr>))" (is "matcher_core digest ?s")
proof -
  have "tables_ok digest (s\<lparr>mm_access := mm_access s + 1\<rparr>)" using ok by (simp add: matcher_core_def tables_ok_def)
  then have "tables_ok digest ?s" using g same by (intro tables_ok_set) auto
  moreover have sizes: "prefix_size ?s = prefix_size s"
    using g same by (auto simp: prefix_size_def get_set_group same_place_def fun_eq_iff)
  have "lru_ok ?s"
    using ok g by (auto simp: matcher_core_def lru_ok_def get_set_group sizes)
  moreover have old: "gp_access h \<le> mm_access s" if "get_group j s = Some h" for j h
    using ok that unfolding matcher_core_def access_ok_def by blast
  have one: "j = k" if "get_group j s = Some h" "get_group k s = Some h'" "gp_access h = gp_access h'" for j k h h'
    using ok that unfolding matcher_core_def access_ok_def by blast
  have "gp_access h \<le> mm_access ?s" if "get_group j ?s = Some h" for j h
    using that old [of j h] acc by (auto simp: get_set_group split: if_splits)
  moreover have "j = k" if "get_group j ?s = Some h" "get_group k ?s = Some h'" "gp_access h = gp_access h'" for j k h h'
    using that old [of j h] old [of k h'] one [of j h k h'] acc by (auto simp: get_set_group split: if_splits)
  ultimately have "tables_ok digest ?s" "lru_ok ?s" "access_ok ?s" unfolding access_ok_def by blast+
  moreover have "limits_ok ?s" using ok by (simp add: matcher_core_def limits_ok_def)
  ultimately show ?thesis by (simp add: matcher_core_def)
qed

lemma get_move_to_back [simp]: "get_group j (move_to_back i s) = get_group j s"
  by (simp add: move_to_back_def)

lemma move_to_back_fields [simp]:
  "mm_group_count (move_to_back i s) = mm_group_count s"
  "mm_prefix_count (move_to_back i s) = mm_prefix_count s" "mm_access (move_to_back i s) = mm_access s"
  "mm_ttl (move_to_back i s) = mm_ttl s" "mm_max_turns (move_to_back i s) = mm_max_turns s"
  "mm_max_groups (move_to_back i s) = mm_max_groups s" "mm_max_prefixes (move_to_back i s) = mm_max_prefixes s"
  "mm_namespaces (move_to_back i s) = mm_namespaces s"
  by (simp_all add: move_to_back_def)

lemma core_move:
  assumes ok: "matcher_core digest s"
  shows "matcher_core digest (move_to_back i s)"
proof (cases "i \<in> set (mm_lru s)")
  case True
  then have lru: "mm_lru (move_to_back i s) = removeAll i (mm_lru s) @ [i]" by (simp add: move_to_back_def)
  have d: "distinct (mm_lru s)" using ok by (simp add: matcher_core_def lru_ok_def)
  have len: "length (removeAll i (mm_lru s)) = length (mm_lru s) - 1" "0 < length (mm_lru s)"
    using length_removeAll_distinct [OF d True] True by auto
  have sizes: "prefix_size (move_to_back i s) = prefix_size s" by (simp add: prefix_size_def fun_eq_iff)
  have "prefix_size s i \<le> sum_list (map (prefix_size s) (mm_lru s))" using True by (simp add: member_le_sum_list)
  then have "sum_list (map (prefix_size s) (removeAll i (mm_lru s))) + prefix_size s i = sum_list (map (prefix_size s) (mm_lru s))"
    using sum_list_removeAll [OF d True] by simp
  then have "lru_ok (move_to_back i s)"
    using ok len d True unfolding matcher_core_def lru_ok_def sizes lru by (auto simp: distinct_removeAll)
  then show ?thesis
    using ok by (simp add: matcher_core_def tables_ok_def access_ok_def limits_ok_def)
next
  case False
  then show ?thesis using ok by (simp add: move_to_back_def)
qed

end
