(* ===== verification/Lcp_Steps.thy ===== *)
theory Lcp_Steps
  imports Lcp_Invariant
begin

text \<open>
  Every operation of the LCP matcher keeps the invariant, and an answer of a match names the credential of a live group
  of its namespace. Matching changes no group but for the deadline and the access number of the one it answers with.
\<close>

subsection \<open>Refreshed groups\<close>

definition refreshed :: "lcp_group \<Rightarrow> lcp_group \<Rightarrow> bool" where
  "refreshed g g' \<longleftrightarrow> (\<exists>e a. g' = g\<lparr>gp_expires := e, gp_access := a\<rparr>)"

definition refreshes :: "matcher_state \<Rightarrow> matcher_state \<Rightarrow> bool" where
  "refreshes s s' \<longleftrightarrow> (\<forall>i. rel_option refreshed (get_group i s) (get_group i s')) \<and> mm_access s \<le> mm_access s' \<and>
     mm_group_count s' = mm_group_count s \<and> mm_prefix_count s' = mm_prefix_count s \<and> mm_ttl s' = mm_ttl s \<and>
     mm_max_turns s' = mm_max_turns s \<and> mm_max_groups s' = mm_max_groups s \<and> mm_max_prefixes s' = mm_max_prefixes s"

lemma refreshedI [intro]: "refreshed g g" "refreshed g (g\<lparr>gp_expires := e, gp_access := a\<rparr>)"
proof -
  have "g = g\<lparr>gp_expires := gp_expires g, gp_access := gp_access g\<rparr>" by simp
  then show "refreshed g g" unfolding refreshed_def by blast
qed (auto simp: refreshed_def)

lemma refreshed_trans:
  assumes "refreshed g g'" "refreshed g' g''"
  shows "refreshed g g''"
proof -
  obtain e a e' a' where "g' = g\<lparr>gp_expires := e, gp_access := a\<rparr>" "g'' = g'\<lparr>gp_expires := e', gp_access := a'\<rparr>"
    using assms unfolding refreshed_def by blast
  then have "g'' = g\<lparr>gp_expires := e', gp_access := a'\<rparr>" by simp
  then show ?thesis unfolding refreshed_def by blast
qed

lemma refreshedD:
  "refreshed g g' \<Longrightarrow> same_place g' g \<and> gp_auth g' = gp_auth g \<and> gp_session g' = gp_session g"
  by (auto simp: refreshed_def same_place_def group_id_of_def)

lemma refreshes_refl [intro, simp]: "refreshes s s"
proof -
  have "rel_option refreshed x x" for x by (cases x) auto
  then show ?thesis by (simp add: refreshes_def)
qed

lemma refreshes_trans:
  assumes "refreshes s s'" "refreshes s' s''"
  shows "refreshes s s''"
proof -
  have "rel_option refreshed (get_group i s) (get_group i s'')" for i
  proof -
    have "rel_option refreshed (get_group i s) (get_group i s')" "rel_option refreshed (get_group i s') (get_group i s'')"
      using assms unfolding refreshes_def by blast+
    then show ?thesis
      using refreshed_trans by (cases "get_group i s"; cases "get_group i s'"; cases "get_group i s''") auto
  qed
  then show ?thesis using assms by (simp add: refreshes_def)
qed

lemma refreshes_get:
  assumes "refreshes s s'" "get_group i s' = Some g'"
  obtains g where "get_group i s = Some g" "refreshed g g'"
proof -
  have "rel_option refreshed (get_group i s) (get_group i s')" using assms(1) unfolding refreshes_def by blast
  then have "rel_option refreshed (get_group i s) (Some g')" by (simp only: assms(2))
  then show ?thesis using that by (cases "get_group i s") auto
qed

lemma refreshes_None: "refreshes s s' \<Longrightarrow> get_group i s' = None \<longleftrightarrow> get_group i s = None"
  unfolding refreshes_def by (metis option.rel_distinct option.exhaust)

lemma refreshes_too_many: "refreshes s s' \<Longrightarrow> too_many s' = too_many s"
  by (simp add: refreshes_def too_many_def)

lemma refresh_group_ok:
  assumes core: "matcher_core digest s" and g: "get_group i s = Some g" and r: "refresh_group g now s = (g', s')"
  shows "matcher_core digest s'" "refreshes s s'" "g' = g\<lparr>gp_expires := now + mm_ttl s, gp_access := mm_access s + 1\<rparr>"
    "get_group j s' = (if j = i then Some g' else get_group j s)"
proof -
  have i: "group_id_of g = i" using get_group_ok [OF _ g] core unfolding matcher_core_def by blast
  show g': "g' = g\<lparr>gp_expires := now + mm_ttl s, gp_access := mm_access s + 1\<rparr>"
    using r by (auto simp: refresh_group_def next_access_def Let_def)
  have s': "s' = move_to_back i (set_group i g' (s\<lparr>mm_access := mm_access s + 1\<rparr>))"
    using r by (auto simp: refresh_group_def next_access_def Let_def i)
  have "same_place g' g" "gp_access g' = mm_access s + 1" by (simp_all add: g' same_place_def group_id_of_def)
  then show "matcher_core digest s'" unfolding s' using core_move core_set [OF core g] by blast
  show get: "get_group j s' = (if j = i then Some g' else get_group j s)" for j by (simp add: s' get_set_group)
  have "rel_option refreshed (get_group j s) (get_group j s')" for j
    using g refreshedI by (cases "get_group j s") (auto simp: get g')
  then show "refreshes s s'" by (simp add: refreshes_def s')
qed

subsection \<open>Candidates\<close>

definition alive :: "lcp_index \<Rightarrow> ms \<Rightarrow> lcp_group \<Rightarrow> bool" where
  "alive ix now g \<longleftrightarrow> now < gp_expires g \<and> (\<exists>k. map_of (nx_groups ix) k = Some g)"

lemma bucket_groups_known: "g \<in> set (bucket_groups ix keys) \<longleftrightarrow> (\<exists>k \<in> set keys. map_of (nx_groups ix) k = Some g)"
  by (force simp: bucket_groups_def List.map_filter_def)

lemma newest_fold_some:
  "foldl (newest_step fps now) best gs = Some g \<Longrightarrow>
     best = Some g \<or> g \<in> set gs \<and> extends_prefix fps now g"
proof (induction gs arbitrary: best)
  case (Cons h gs)
  have "foldl (newest_step fps now) (newest_step fps now best h) gs = Some g" using Cons.prems by simp
  from Cons.IH [OF this] show ?case by (auto simp: newest_step_def split: if_splits option.splits)
qed simp

lemma newest_matching_group_some:
  assumes "newest_matching_group ix b fps now = Some g"
  shows "alive ix now g \<and> extends_prefix fps now g"
proof -
  obtain keys where "foldl (newest_step fps now) None (bucket_groups ix keys) = Some g"
    using assms by (auto simp: newest_matching_group_def split: option.splits)
  from newest_fold_some [OF this] have "g \<in> set (bucket_groups ix keys)" "extends_prefix fps now g" by auto
  then show ?thesis by (auto simp: bucket_groups_known alive_def extends_prefix_def)
qed

lemma longest_search_some:
  "0 \<le> low \<Longrightarrow> longest_search probe low high best = Some (g, m) \<Longrightarrow> best = Some (g, m) \<or> probe m = Some g \<and> low \<le> int m \<and> int m \<le> high"
proof (induction probe low high best rule: longest_search.induct)
  case (1 probe low high best)
  let ?m = "low + (high - low) div 2"
  have mid: "low \<le> high \<Longrightarrow> low \<le> ?m \<and> ?m \<le> high" by linarith
  show ?case
  proof (cases "low \<le> high")
    case False
    then show ?thesis using 1 by (simp add: longest_search.simps)
  next
    case True
    show ?thesis
    proof (cases "probe (nat ?m)")
      case None
      then have "longest_search probe low (?m - 1) best = Some (g, m)"
        using 1(4) True by (simp add: longest_search.simps [of probe low high] Let_def)
      from 1(1) [OF True refl None 1(3) this] show ?thesis using mid True by auto
    next
      case (Some h)
      then have found: "longest_search probe (?m + 1) high (Some (h, nat ?m)) = Some (g, m)"
        using 1(4) True by (simp add: longest_search.simps [of probe low high] Let_def)
      have "0 \<le> ?m + 1" using mid True 1(3) by linarith
      from 1(2) [OF True refl Some this found] show ?thesis using mid True Some 1(3) by auto
    qed
  qed
qed

subsection \<open>Compaction\<close>

text \<open>The scan prunes tail buckets and nothing else, and collects live groups.\<close>

definition pruned :: "lcp_index \<Rightarrow> lcp_index \<Rightarrow> bool" where
  "pruned ix ix' \<longleftrightarrow> nx_groups ix' = nx_groups ix \<and> nx_prefixes ix' = nx_prefixes ix \<and>
     (\<forall>t. bucket t (nx_tails ix') \<subseteq> bucket t (nx_tails ix))"

definition scan_ok :: "ms \<Rightarrow> lcp_index \<Rightarrow> compaction_scan \<Rightarrow> bool" where
  "scan_ok now ix c \<longleftrightarrow> pruned ix (cs_index c) \<and> (\<forall>g \<in> set (cs_candidates c). alive ix now g)"

lemma weigh_group_ok: "scan_ok now ix c \<Longrightarrow> alive ix now g \<Longrightarrow> scan_ok now ix (weigh_group q tail m e c g)"
  by (auto simp: scan_ok_def weigh_group_def Let_def)

lemma scan_ok_prune:
  assumes "scan_ok now ix c" "\<And>t. bucket t tails \<subseteq> bucket t (nx_tails (cs_index c))"
  shows "scan_ok now ix (c\<lparr>cs_index := (cs_index c)\<lparr>nx_tails := tails\<rparr>\<rparr>)"
proof -
  have "bucket t tails \<subseteq> bucket t (nx_tails ix)" for t
    using assms(1) subset_trans [OF assms(2)] unfolding scan_ok_def pruned_def by metis
  then show ?thesis using assms(1) by (simp add: scan_ok_def pruned_def)
qed

lemma scan_tail_ok:
  assumes ok: "scan_ok now ix c"
  shows "scan_ok now ix (scan_tail q tail m now e c)"
proof (cases "map_of (nx_tails (cs_index c)) (pair_key (tail ! (e - 1)) (tail ! e))")
  case None
  then show ?thesis using ok by (simp add: scan_tail_def Let_def)
next
  case (Some keys)
  let ?k = "pair_key (tail ! (e - 1)) (tail ! e)" and ?ix = "cs_index c"
  define live where "live = filter (\<lambda>key. case map_of (nx_groups ?ix) key of None \<Rightarrow> False | Some g \<Rightarrow> \<not> now \<ge> gp_expires g) keys"
  have groups: "nx_groups ?ix = nx_groups ix" using ok by (simp add: scan_ok_def pruned_def)
  have "bucket t (AList.delete ?k (nx_tails ?ix)) \<subseteq> bucket t (nx_tails ?ix)" for t by (simp add: bucket_def delete_conv')
  then have gone: "scan_ok now ix (c\<lparr>cs_index := ?ix\<lparr>nx_tails := AList.delete ?k (nx_tails ?ix)\<rparr>\<rparr>)"
    using scan_ok_prune [OF ok, of "AList.delete ?k (nx_tails ?ix)"] by blast
  let ?c1 = "c\<lparr>cs_index := ?ix\<lparr>nx_tails := AList.update ?k live (nx_tails ?ix)\<rparr>\<rparr>"
  have "bucket t (AList.update ?k live (nx_tails ?ix)) \<subseteq> bucket t (nx_tails ?ix)" for t
    using Some by (auto simp: bucket_def update_conv' live_def)
  then have kept: "scan_ok now ix ?c1" using scan_ok_prune [OF ok, of "AList.update ?k live (nx_tails ?ix)"] by blast
  have "alive ix now g" if "g \<in> set (bucket_groups ?ix live)" for g
    using that by (auto simp: bucket_groups_known alive_def live_def groups)
  then have "scan_ok now ix (foldl (weigh_group q tail m e) ?c1 (bucket_groups ?ix live))"
    using foldl_invariant [of "scan_ok now ix", OF kept] weigh_group_ok by blast
  moreover have "scan_ok now ix (?c1\<lparr>cs_overflow := True\<rparr>)" using kept by (simp add: scan_ok_def)
  ultimately show ?thesis
    using ok gone Some by (simp add: scan_tail_def Let_def live_def [symmetric])
qed

lemma scan_tails_ok: "scan_ok now ix c \<Longrightarrow> scan_ok now ix (scan_tails q tail m now n c)"
  by (induction n arbitrary: c) (simp_all add: scan_tail_ok)

lemma pruned_ok:
  assumes ok: "index_ok digest turns n ix" and p: "pruned ix ix'"
  shows "index_ok digest turns n ix'"
proof -
  have "labels_of ix' = labels_of ix" using p by (simp add: pruned_def labels_of_def fun_eq_iff)
  moreover have "bucket t (nx_tails ix') \<subseteq> {k. \<exists>g. map_of (nx_groups ix') k = Some g \<and> tail_key_of g = Some t}" for t
  proof -
    have "bucket t (nx_tails ix') \<subseteq> bucket t (nx_tails ix)" using p by (simp add: pruned_def)
    also have "\<dots> \<subseteq> {k. \<exists>g. map_of (nx_groups ix) k = Some g \<and> tail_key_of g = Some t}" using ok by (simp add: index_ok_def)
    finally show ?thesis using p by (simp add: pruned_def)
  qed
  ultimately show ?thesis using ok p by (simp add: index_ok_def pruned_def)
qed

lemma put_pruned:
  assumes core: "matcher_core digest s" and ix: "pruned (index_of_namespace n s) ix"
  shows "matcher_core digest (put_index n ix s)" "refreshes s (put_index n ix s)"
    "get_group i (put_index n ix s) = get_group i s"
proof -
  show get: "get_group i (put_index n ix s) = get_group i s" for i
    using ix get_group_index [of n "snd i" s] by (cases i) (auto simp: get_group_put_index pruned_def)
  have "index_ok digest (mm_max_turns s) n ix" using core ix tables_okD pruned_ok unfolding matcher_core_def by blast
  then have "tables_ok digest (put_index n ix s)" using core by (simp add: matcher_core_def tables_ok_put)
  moreover have "prefix_size (put_index n ix s) = prefix_size s" by (simp add: prefix_size_def get fun_eq_iff)
  ultimately show "matcher_core digest (put_index n ix s)"
    using core by (simp add: matcher_core_def lru_ok_def access_ok_def limits_ok_def get)
  have "rel_option refreshed x x" for x by (cases x) auto
  then show "refreshes s (put_index n ix s)" by (simp add: refreshes_def get)
qed

text \<open>What an answer rests on: a live group of the namespace, refreshed.\<close>

definition answers :: "string \<Rightarrow> ms \<Rightarrow> matcher_state \<Rightarrow> lcp_match \<Rightarrow> matcher_state \<Rightarrow> bool" where
  "answers n now s r s' \<longleftrightarrow> (\<exists>k g. get_group (n, k) s = Some g \<and> now < gp_expires g \<and> gp_auth g = lm_auth_id r \<and>
     get_group (n, k) s' = Some (g\<lparr>gp_expires := now + mm_ttl s, gp_access := li_access_number r\<rparr>))"

lemma match_compaction_ok:
  assumes core: "matcher_core digest s" and m: "match_compaction digest n q m now s = (r, s')"
  shows "matcher_core digest s'" "refreshes s s'" "r = Some a \<Longrightarrow> answers n now s a s'"
    "r = None \<Longrightarrow> get_group i s' = get_group i s"
proof -
  let ?tail = "if lq_tail_fingerprints q = [] then extract_tail (lq_fingerprints q) else lq_tail_fingerprints q"
  let ?ix = "index_of_namespace n s"
  define c where "c = scan_tails q ?tail m now (length ?tail - 1)
    \<lparr>cs_index = ?ix, cs_candidates = [], cs_best_overlap = 0, cs_overflow = False\<rparr>"
  define s1 where "s1 = put_index n (cs_index c) s"
  have scan: "scan_ok now ?ix c" unfolding c_def by (rule scan_tails_ok) (simp add: scan_ok_def pruned_def)
  then have s1: "matcher_core digest s1" "refreshes s s1" "get_group i s1 = get_group i s" for i
    unfolding s1_def scan_ok_def using put_pruned [OF core] by blast+
  consider "(r, s') = (None, s)" | "(r, s') = (None, s1)"
    | g where "compaction_leaves (cs_index c) (cs_candidates c) = [g]" "r \<noteq> None" "s' = snd (refresh_group g now s1)"
        "\<And>a. r = Some a \<Longrightarrow> lm_auth_id a = gp_auth (fst (refresh_group g now s1)) \<and>
           li_access_number a = gp_access (fst (refresh_group g now s1))"
    using m unfolding match_compaction_def c_def [symmetric] s1_def [symmetric] Let_def
    by (auto split: if_splits list.splits prod.splits)
  then have "matcher_core digest s' \<and> refreshes s s' \<and> (r = Some a \<longrightarrow> answers n now s a s') \<and>
    (r = None \<longrightarrow> get_group i s' = get_group i s)" for a i
  proof cases
    case 3
    have "set (compaction_leaves (cs_index c) (cs_candidates c)) \<subseteq> set (cs_candidates c)"
      unfolding compaction_leaves_def by (rule filter_is_subset)
    then have "g \<in> set (cs_candidates c)" using 3(1) by simp
    then have "alive ?ix now g" using scan by (simp add: scan_ok_def)
    then obtain k where k: "get_group (n, k) s = Some g" "now < gp_expires g" by (auto simp: alive_def get_group_index)
    obtain g' where r: "refresh_group g now s1 = (g', s')" using 3(3) by (metis prod.collapse)
    have "get_group (n, k) s1 = Some g" using s1(3) k by simp
    note f = refresh_group_ok [OF s1(1) this r]
    have "mm_ttl s1 = mm_ttl s" by (simp add: s1_def)
    then have "answers n now s a s'" if "r = Some a" for a
      using 3(4) [OF that] k f(3) f(4) [of "(n, k)"] unfolding answers_def r by auto
    then show ?thesis using f(1,2) s1(2) refreshes_trans 3(2) by blast
  qed (use core s1 in auto)
  then show "matcher_core digest s'" "refreshes s s'" "r = Some a \<Longrightarrow> answers n now s a s'"
    "r = None \<Longrightarrow> get_group i s' = get_group i s" by blast+
qed

subsection \<open>Match\<close>

lemma probe_length_some:
  assumes "probe_length digest ix fps now m = Some g"
  shows "alive ix now g" "extends_prefix (take m fps) now g"
  using newest_matching_group_some assms unfolding probe_length_def by blast+

text \<open>How a prepared match answers: not at all, by a compaction, or by the group the search found.\<close>

lemma match_prepared_cases:
  assumes "match_prepared digest n q now s = (r, s')"
  obtains (none) "r = None" "s' = s"
  | (compaction) "match_compaction digest n q 0 now s = (r, s')"
  | (found) g m g' s1 where "longest_search (probe_length digest (index_of_namespace n s) (lq_fingerprints q) now)
        (lq_min_prefix_length q) (int (length (lq_fingerprints q))) None = Some (g, m)"
      "0 < lq_min_prefix_length q" "refresh_group g now s = (g', s1)"
      "r = Some (match_of g' m) \<and> s' = s1 \<or>
       (\<exists>r'. match_compaction digest n q m now s1 = (r', s') \<and>
         r = Some (case r' of None \<Rightarrow> fork_of digest n (lq_fingerprints q) g' m | Some a \<Rightarrow> a))"
proof (cases "map_of (mm_namespaces s) n")
  case None
  then show ?thesis using assms none by (simp add: match_prepared_def Let_def)
next
  case (Some ix)
  then have ix: "index_of_namespace n s = ix" by (simp add: index_of_namespace_def)
  let ?fps = "lq_fingerprints q" and ?m = "lq_min_prefix_length q"
  show ?thesis
  proof (cases "?fps = [] \<or> ?m \<le> 0 \<or> ?m > int (length ?fps)")
    case True
    then show ?thesis using assms none Some by (simp add: match_prepared_def Let_def)
  next
    case False
    show ?thesis
    proof (cases "longest_search (probe_length digest ix ?fps now) ?m (int (length ?fps)) None")
      case None
      with False Some show ?thesis using assms compaction by (simp add: match_prepared_def)
    next
      case (Some p)
      obtain g m where p: "p = (g, m)" by (cases p)
      obtain g' s1 where f: "refresh_group g now s = (g', s1)" by (cases "refresh_group g now s")
      have "r = Some (match_of g' m) \<and> s' = s1 \<or>
       (\<exists>r'. match_compaction digest n q m now s1 = (r', s') \<and>
         r = Some (case r' of None \<Rightarrow> fork_of digest n ?fps g' m | Some a \<Rightarrow> a))"
        using assms False \<open>map_of (mm_namespaces s) n = Some ix\<close> Some p f
        by (auto simp: match_prepared_def Let_def split: if_splits prod.splits option.splits)
      then show ?thesis using found [OF _ _ f] Some False p ix by auto
    qed
  qed
qed

lemma fork_of_fields [simp]:
  "lm_auth_id (fork_of digest n fps g m) = gp_auth g" "li_access_number (fork_of digest n fps g m) = gp_access g"
  "lm_auth_id (match_of g m) = gp_auth g" "li_access_number (match_of g m) = gp_access g"
  by (simp_all add: fork_of_def match_of_def Let_def)

lemma match_prepared_ok:
  assumes core: "matcher_core digest s" and m: "match_prepared digest n q now s = (r, s')"
  shows "matcher_core digest s'" "refreshes s s'" "r = Some a \<Longrightarrow> answers n now s a s'"
proof -
  have "matcher_core digest s' \<and> refreshes s s' \<and> (r = Some a \<longrightarrow> answers n now s a s')" for a
    using m
  proof (cases rule: match_prepared_cases)
    case none
    then show ?thesis using core by simp
  next
    case compaction
    then show ?thesis using match_compaction_ok [OF core] by blast
  next
    case (found g m g' s1)
    have "alive (index_of_namespace n s) now g"
      using longest_search_some [OF _ found(1)] found(2) probe_length_some by fastforce
    then obtain k where k: "get_group (n, k) s = Some g" "now < gp_expires g" by (auto simp: alive_def get_group_index)
    note f = refresh_group_ok [OF core k(1) found(3)]
    have ttl: "mm_ttl s1 = mm_ttl s" using f(2) by (simp add: refreshes_def)
    from found(4) show ?thesis
    proof (elim disjE exE conjE)
      assume "r = Some (match_of g' m)" "s' = s1"
      then show ?thesis using f k by (auto simp: answers_def)
    next
      fix r' assume c: "match_compaction digest n q m now s1 = (r', s')"
        and r: "r = Some (case r' of None \<Rightarrow> fork_of digest n (lq_fingerprints q) g' m | Some a \<Rightarrow> a)"
      note mc = match_compaction_ok [OF f(1) c]
      have "answers n now s a s'" if a: "r = Some a"
      proof (cases r')
        case None
        then have "a = fork_of digest n (lq_fingerprints q) g' m" using a r by simp
        then show ?thesis using k f(3) f(4) [of "(n, k)"] mc(4) [OF None, of "(n, k)"] by (auto simp: answers_def)
      next
        case (Some b)
        then obtain k' h where h: "get_group (n, k') s1 = Some h" "now < gp_expires h" "gp_auth h = lm_auth_id a"
          "get_group (n, k') s' = Some (h\<lparr>gp_expires := now + mm_ttl s, gp_access := li_access_number a\<rparr>)"
          using mc(3) a r by (auto simp: answers_def ttl)
        show ?thesis
        proof (cases "k' = k")
          case True
          then have "h = g'" using h(1) f(4) [of "(n, k)"] by simp
          then have "gp_auth g = lm_auth_id a \<and>
              get_group (n, k) s' = Some (g\<lparr>gp_expires := now + mm_ttl s, gp_access := li_access_number a\<rparr>)"
            using h(3,4) True f(3) by simp
          then show ?thesis using k unfolding answers_def by blast
        next
          case False
          then have "get_group (n, k') s = Some h" using h(1) f(4) [of "(n, k')"] by simp
          then show ?thesis using h unfolding answers_def by blast
        qed
      qed
      then show ?thesis using mc(1,2) f(2) refreshes_trans by blast
    qed
  qed
  then show "matcher_core digest s'" "refreshes s s'" "r = Some a \<Longrightarrow> answers n now s a s'" by blast+
qed

subsection \<open>Bind and touch\<close>

text \<open>Outside some ids, the groups of the new state are groups of the old one, perhaps refreshed.\<close>

definition evolves :: "group_id set \<Rightarrow> matcher_state \<Rightarrow> matcher_state \<Rightarrow> bool" where
  "evolves X s s' \<longleftrightarrow>
     (\<forall>j h. get_group j s' = Some h \<longrightarrow> j \<in> X \<or> (\<exists>h0. get_group j s = Some h0 \<and> refreshed h0 h)) \<and>
     mm_access s \<le> mm_access s' \<and> mm_ttl s' = mm_ttl s \<and> mm_max_turns s' = mm_max_turns s \<and>
     mm_max_groups s' = mm_max_groups s \<and> mm_max_prefixes s' = mm_max_prefixes s"

lemma evolves_shrinks: "shrinks s s' \<Longrightarrow> evolves X s s'"
  unfolding shrinks_def evolves_def using refreshedI(1) by fastforce

lemma evolves_refreshes:
  assumes "refreshes s s'"
  shows "evolves X s s'"
proof -
  have "\<exists>h0. get_group j s = Some h0 \<and> refreshed h0 h" if "get_group j s' = Some h" for j h
    using refreshes_get [OF assms that] by blast
  then show ?thesis using assms unfolding evolves_def refreshes_def by blast
qed

lemma evolves_trans:
  assumes "evolves X s s'" "evolves X s' s''"
  shows "evolves X s s''"
proof -
  have "j \<in> X \<or> (\<exists>h0. get_group j s = Some h0 \<and> refreshed h0 h)" if h: "get_group j s'' = Some h" for j h
  proof -
    have "j \<in> X \<or> (\<exists>h1. get_group j s' = Some h1 \<and> refreshed h1 h)" using assms(2) h unfolding evolves_def by blast
    then show ?thesis using assms(1) refreshed_trans unfolding evolves_def by blast
  qed
  then show ?thesis using assms unfolding evolves_def by auto
qed

lemma evolves_same:
  assumes "evolves X s s'"
  shows "mm_ttl s' = mm_ttl s" "mm_max_turns s' = mm_max_turns s" "mm_access s \<le> mm_access s'"
  using assms by (simp_all add: evolves_def)

lemma core_access: "matcher_core digest s \<Longrightarrow> mm_access s \<le> a \<Longrightarrow> matcher_core digest (s\<lparr>mm_access := a\<rparr>)"
  unfolding matcher_core_def tables_ok_def lru_ok_def access_ok_def limits_ok_def prefix_size_def
  by (simp, meson order_trans)

lemma store_group_ok:
  assumes core: "matcher_core digest s" and g: "group_ok digest (mm_max_turns s) g" and new: "get_group (group_id_of g) s = None"
    and r: "store_group digest g s = (v, s')"
  shows "matcher_ok digest s'" "evolves {group_id_of g} s s'" "v = identity_of_group (g\<lparr>gp_access := mm_access s'\<rparr>)"
    "get_group (group_id_of g) s' = Some (g\<lparr>gp_access := mm_access s'\<rparr>)" "mm_access s' = mm_access s + 2"
proof -
  let ?s1 = "s\<lparr>mm_access := mm_access s + 1\<rparr>"
  have s': "s' = add_group digest g ?s1" and v: "v = identity_of_group (g\<lparr>gp_access := mm_access s'\<rparr>)"
    using r by (auto simp: store_group_def next_access_def Let_def)
  have core1: "matcher_core digest ?s1" using core by (rule core_access) simp
  have new1: "get_group (group_id_of g) ?s1 = None" using new by simp
  have g1: "group_ok digest (mm_max_turns ?s1) g" using g by simp
  note a = add_group_ok [OF core1 g1 new1]
  show "matcher_ok digest s'" using a(1) s' by simp
  show "v = identity_of_group (g\<lparr>gp_access := mm_access s'\<rparr>)" by (rule v)
  have sh: "shrinks (insert_group digest g ?s1) s'" using a(3) s' by simp
  show acc: "mm_access s' = mm_access s + 2"
    using sh insert_group_fields(1) [OF g1, of ?s1] by (simp add: shrinks_def)
  show "get_group (group_id_of g) s' = Some (g\<lparr>gp_access := mm_access s'\<rparr>)"
    using a(2) s' acc by (simp add: add.assoc)
  have "evolves {group_id_of g} s (insert_group digest g ?s1)"
    using insert_group_fields [OF g1, of ?s1] refreshedI(1)
    by (auto simp: evolves_def get_insert_group [OF g1])
  then show "evolves {group_id_of g} s s'" using evolves_trans evolves_shrinks [OF sh] by blast
qed

definition prepared_ok :: "nat \<Rightarrow> lcp_sequence \<Rightarrow> bool" where
  "prepared_ok turns q \<longleftrightarrow> 0 < lq_min_prefix_length q \<and> lq_min_prefix_length q \<le> int (length (lq_fingerprints q)) \<and>
     length (lq_fingerprints q) \<le> turns"

lemma prepare_sequence_ok:
  assumes "prepare_sequence digest turns q = Some p"
  shows "prepared_ok turns p" "lq_fingerprints p = take turns (lq_fingerprints q)"
    "lq_min_prefix_length p = lq_min_prefix_length q"
  using assms by (auto simp: prepare_sequence_def prepared_ok_def Let_def split: if_splits)

text \<open>
  SHA-256 is relied on not to give two different sequences one key; the matcher never compares the sequences themselves
  when it looks one up by its key.
\<close>

definition no_key_collision :: "(nat list \<Rightarrow> nat list) \<Rightarrow> string \<Rightarrow> string list \<Rightarrow> matcher_state \<Rightarrow> bool" where
  "no_key_collision digest n fps s \<longleftrightarrow>
     (case get_group (n, sequence_key digest fps) s of None \<Rightarrow> True | Some g \<Rightarrow> gp_fingerprints g = fps)"

lemma make_group_ok:
  "prepared_ok turns q \<Longrightarrow>
     group_ok digest turns (make_group n q (sequence_key digest (lq_fingerprints q)) a v
       (rolling_prefix_keys digest (lq_fingerprints q)) e c)"
  by (simp add: group_ok_def make_group_def prepared_ok_def)

lemma make_group_id [simp]: "group_id_of (make_group n q k a v ks e c) = (n, k)"
  by (simp add: group_id_of_def make_group_def)

text \<open>What a bind leaves behind.\<close>

definition bound :: "(nat list \<Rightarrow> nat list) \<Rightarrow> string \<Rightarrow> lcp_sequence \<Rightarrow> string \<Rightarrow> ms \<Rightarrow> lcp_identity \<Rightarrow> matcher_state \<Rightarrow> bool" where
  "bound digest n q a now v s \<longleftrightarrow> (\<exists>g. get_group (n, sequence_key digest (lq_fingerprints q)) s = Some g \<and>
     gp_fingerprints g = lq_fingerprints q \<and> gp_min g = lq_min_prefix_length q \<and> gp_auth g = a \<and>
     gp_expires g = now + mm_ttl s \<and> gp_access g = mm_access s \<and> identity_of_group g = v)"

lemma store_made_ok:
  assumes core: "matcher_core digest s" and q: "prepared_ok (mm_max_turns s) q"
    and new: "get_group (n, sequence_key digest (lq_fingerprints q)) s = None"
    and r: "store_group digest (make_group n q (sequence_key digest (lq_fingerprints q)) a v0
              (rolling_prefix_keys digest (lq_fingerprints q)) (now + mm_ttl s) 0) s = (v, s')"
  shows "matcher_ok digest s'" "evolves {(n, sequence_key digest (lq_fingerprints q))} s s'" "bound digest n q a now v s'"
    "mm_access s < mm_access s'"
proof -
  note st = store_group_ok [OF core make_group_ok [OF q] _ r, unfolded make_group_id, OF new]
  show "matcher_ok digest s'" "evolves {(n, sequence_key digest (lq_fingerprints q))} s s'" by (rule st)+
  show "mm_access s < mm_access s'" using st(5) by simp
  show "bound digest n q a now v s'"
    using st(3,4) evolves_same(1) [OF st(2)] by (simp add: bound_def make_group_def)
qed

lemma ensure_namespace_ok:
  assumes core: "matcher_core digest s"
  shows "matcher_core digest (ensure_namespace n s)" "refreshes s (ensure_namespace n s)"
    "get_group i (ensure_namespace n s) = get_group i s"
proof -
  have "index_of_namespace n s = empty_index" if "map_of (mm_namespaces s) n = None"
    using that by (simp add: index_of_namespace_def)
  then have "pruned (index_of_namespace n s) empty_index" if "map_of (mm_namespaces s) n = None"
    using that by (simp add: pruned_def)
  from put_pruned [OF core this]
  show "matcher_core digest (ensure_namespace n s)" "refreshes s (ensure_namespace n s)"
    "get_group i (ensure_namespace n s) = get_group i s"
    using core by (auto simp: ensure_namespace_def)
qed

lemma bind_prepared_ok:
  assumes core: "matcher_core digest s" and q: "prepared_ok (mm_max_turns s) q"
    and free: "no_key_collision digest n (lq_fingerprints q) s"
    and r: "bind_prepared digest n q a now s = (v, s')"
  shows "matcher_ok digest s'" "evolves {(n, sequence_key digest (lq_fingerprints q))} s s'" "bound digest n q a now v s'"
    "mm_access s < mm_access s'"
proof -
  let ?i = "(n, sequence_key digest (lq_fingerprints q))" and ?s0 = "ensure_namespace n s"
  note e = ensure_namespace_ok [OF core, where n = n]
  have turns0: "mm_max_turns ?s0 = mm_max_turns s" using e(2) by (simp add: refreshes_def)
  have matched: "matcher_ok digest s' \<and> evolves {?i} s s' \<and> bound digest n q a now v s' \<and> mm_access s < mm_access s'"
    if core1: "matcher_core digest s1" and sh: "shrinks ?s0 s1" and new: "get_group ?i s1 = None"
      and m: "match_prepared digest n q now s1 = (matched, s2)"
      and st: "store_group digest (make_group n q (sequence_key digest (lq_fingerprints q)) a (fresh_identity digest n q matched)
              (rolling_prefix_keys digest (lq_fingerprints q)) (now + mm_ttl s2) 0) s2 = (v, s')" for s1 s2 matched
  proof -
    note mp = match_prepared_ok [OF core1 m]
    have new2: "get_group ?i s2 = None" using refreshes_None [OF mp(2)] new by simp
    have ev: "evolves {?i} s s2"
      using evolves_trans evolves_refreshes [OF e(2)] evolves_shrinks [OF sh] evolves_refreshes [OF mp(2)] by blast
    have q2: "prepared_ok (mm_max_turns s2) q" using q evolves_same(2) [OF ev] by simp
    note sm = store_made_ok [OF mp(1) q2 new2 st]
    show ?thesis using sm evolves_trans [OF ev sm(2)] evolves_same(3) [OF ev] by auto
  qed
  have "matcher_ok digest s' \<and> evolves {?i} s s' \<and> bound digest n q a now v s' \<and> mm_access s < mm_access s'"
  proof (cases "get_group ?i ?s0")
    case None
    then show ?thesis
      using r matched [OF e(1) shrinks_refl None] by (auto simp: bind_prepared_def Let_def split: prod.splits)
  next
    case (Some g)
    have gi: "group_id_of g = ?i" and gok: "group_ok digest (mm_max_turns s) g"
      using get_group_ok [OF _ Some] e(1) turns0 unfolding matcher_core_def by auto
    have core1: "matcher_core digest (remove_group g ?s0)" using core_remove [OF e(1)] Some gi by simp
    have new: "get_group ?i (remove_group g ?s0) = None" by (simp add: get_remove_group gi)
    show ?thesis
    proof (cases "now < gp_expires g")
      case False
      then show ?thesis
        using r Some matched [OF core1 shrinks_remove new] by (auto simp: bind_prepared_def Let_def split: prod.splits)
    next
      case True
      have "get_group ?i s = Some g" using e(3) [where i = ?i] Some by simp
      then have "gp_fingerprints g = lq_fingerprints q" using free by (simp add: no_key_collision_def)
      then have keys: "gp_prefix_keys g = rolling_prefix_keys digest (lq_fingerprints q)" using gok by (simp add: group_ok_def)
      have st: "store_group digest (make_group n q (sequence_key digest (lq_fingerprints q)) a (identity_of_group g)
          (rolling_prefix_keys digest (lq_fingerprints q)) (now + mm_ttl (remove_group g ?s0)) 0) (remove_group g ?s0) = (v, s')"
        using r Some True by (simp add: bind_prepared_def Let_def keys)
      have ev: "evolves {?i} s (remove_group g ?s0)"
        using evolves_trans evolves_refreshes [OF e(2)] evolves_shrinks [OF shrinks_remove] by blast
      have q2: "prepared_ok (mm_max_turns (remove_group g ?s0)) q" using q turns0 by simp
      note sm = store_made_ok [OF core1 q2 new st]
      show ?thesis using sm evolves_trans [OF ev sm(2)] evolves_same(3) [OF ev] by auto
    qed
  qed
  then show "matcher_ok digest s'" "evolves {?i} s s'" "bound digest n q a now v s'" "mm_access s < mm_access s'" by auto
qed

text \<open>A touch that answers True leaves the sequence bound to the credential; one that answers False changes no group.\<close>

definition touched :: "group_id \<Rightarrow> string \<Rightarrow> ms \<Rightarrow> matcher_state \<Rightarrow> matcher_state \<Rightarrow> bool" where
  "touched i a now s s' \<longleftrightarrow>
     (\<exists>g. get_group i s' = Some g \<and> gp_auth g = a \<and> gp_expires g = now + mm_ttl s \<and> gp_access g > mm_access s)"

lemma touch_live_ok:
  assumes ok: "matcher_ok digest s" and g: "get_group i s = Some g"
    and g1: "g1 = g\<lparr>gp_auth := a, gp_expires := now + mm_ttl s, gp_access := mm_access s + 1, gp_env := env\<rparr>"
    and s2: "s2 = set_group i g1 (s\<lparr>mm_access := mm_access s + 1\<rparr>)"
    and s3: "s3 = (if change then add_group digest (g1\<lparr>gp_tail := tails\<rparr>) (remove_group g1 s2) else s2)"
  shows "matcher_ok digest s3" "evolves {i} s s3" "touched i a now s s3"
proof -
  have core: "matcher_core digest s" and fit: "\<not> too_many s" using ok by (simp_all add: matcher_ok_def)
  have gi: "group_id_of g = i" "group_ok digest (mm_max_turns s) g"
    using get_group_ok [OF _ g] core unfolding matcher_core_def by blast+
  have same: "same_place g1 g" by (simp add: g1 same_place_def group_id_of_def)
  have core2: "matcher_core digest s2" unfolding s2 by (rule core_set [OF core g same]) (simp add: g1)
  have get2: "get_group j s2 = (if j = i then Some g1 else get_group j s)" for j by (simp add: s2 get_set_group)
  have fields2: "mm_access s2 = mm_access s + 1" "mm_max_turns s2 = mm_max_turns s" "mm_ttl s2 = mm_ttl s"
    "mm_max_groups s2 = mm_max_groups s" "mm_max_prefixes s2 = mm_max_prefixes s" by (simp_all add: s2)
  have ev2: "evolves {i} s s2" using refreshedI(1) by (auto simp: evolves_def get2 fields2)
  have "matcher_ok digest s3 \<and> evolves {i} s s3 \<and> touched i a now s s3"
  proof (cases change)
    case False
    have "\<not> too_many s2" using fit by (simp add: s2 too_many_def)
    moreover have "touched i a now s s2" by (simp add: touched_def get2 g1)
    ultimately show ?thesis using False core2 ev2 s3 by (simp add: matcher_ok_def)
  next
    case True
    let ?g = "g1\<lparr>gp_tail := tails\<rparr>" and ?s = "remove_group g1 s2"
    have id1: "group_id_of g1 = i" "group_id_of ?g = i" using gi(1) by (simp_all add: g1 group_id_of_def)
    have gok: "group_ok digest (mm_max_turns ?s) ?g" using gi(2) by (simp add: group_ok_def g1 fields2)
    have new: "get_group (group_id_of ?g) ?s = None" by (simp add: get_remove_group id1)
    have "matcher_core digest ?s" using core_remove [OF core2] get2 id1 by simp
    note a = add_group_ok [OF this gok new]
    have "evolves {i} ?s (insert_group digest ?g ?s)"
      using insert_group_fields [OF gok, of ?s] refreshedI(1) id1
      by (auto simp: evolves_def get_insert_group [OF gok])
    from evolves_trans [OF ev2 evolves_trans [OF evolves_shrinks [OF shrinks_remove]
        evolves_trans [OF this evolves_shrinks [OF a(3)]]]]
    have ev: "evolves {i} s (add_group digest ?g ?s)" .
    have "touched i a now s (add_group digest ?g ?s)"
      using a(2) id1 by (simp add: touched_def g1 fields2)
    then show ?thesis using True a(1) ev s3 by simp
  qed
  then show "matcher_ok digest s3" "evolves {i} s s3" "touched i a now s s3" by auto
qed

lemma ok_move: "matcher_ok digest s \<Longrightarrow> matcher_ok digest (move_to_back i s)"
  by (simp add: matcher_ok_def core_move too_many_def)

lemma bound_touched:
  "bound digest n q a now v s' \<Longrightarrow> evolves X s s' \<Longrightarrow> mm_access s < mm_access s' \<Longrightarrow>
     touched (n, sequence_key digest (lq_fingerprints q)) a now s s'"
  by (auto simp: bound_def touched_def evolves_def)

lemma touch_prepared_ok:
  assumes ok: "matcher_ok digest s" and q: "prepared_ok (mm_max_turns s) q"
    and r: "touch_prepared digest n q a now s = (b, s')"
  shows "matcher_ok digest s'" "evolves {(n, sequence_key digest (lq_fingerprints q))} s s'"
    "b \<Longrightarrow> touched (n, sequence_key digest (lq_fingerprints q)) a now s s'"
    "\<not> b \<Longrightarrow> get_group i s' = get_group i s"
proof -
  let ?i = "(n, sequence_key digest (lq_fingerprints q))" and ?s0 = "ensure_namespace n s"
  have core: "matcher_core digest s" and fit: "\<not> too_many s" using ok by (simp_all add: matcher_ok_def)
  note e = ensure_namespace_ok [OF core, where n = n]
  have ok0: "matcher_ok digest ?s0" using e(1) refreshes_too_many [OF e(2)] fit by (simp add: matcher_ok_def)
  have same0: "mm_access ?s0 = mm_access s" "mm_ttl ?s0 = mm_ttl s" "mm_max_turns ?s0 = mm_max_turns s"
    by (auto simp: ensure_namespace_def)
  have rebind: "matcher_ok digest s' \<and> evolves {?i} s s' \<and> touched ?i a now s s'"
    if core1: "matcher_core digest s1" and sh: "shrinks ?s0 s1" and none: "get_group ?i s1 = None"
      and st: "bind_prepared digest n q a now s1 = (v, s')" for s1 v
  proof -
    have ev: "evolves {?i} s s1" using evolves_trans evolves_refreshes [OF e(2)] evolves_shrinks [OF sh] by blast
    have "prepared_ok (mm_max_turns s1) q" "no_key_collision digest n (lq_fingerprints q) s1"
      using q evolves_same(2) [OF ev] none by (simp_all add: no_key_collision_def)
    note bp = bind_prepared_ok [OF core1 this st]
    have evs: "evolves {?i} s s'" using ev bp(2) evolves_trans by blast
    then show ?thesis
      using bp(1) bound_touched [OF bp(3) evs] bp(4) evolves_same(3) [OF ev] by auto
  qed
  have "matcher_ok digest s' \<and> evolves {?i} s s' \<and> (b \<longrightarrow> touched ?i a now s s') \<and> (\<not> b \<longrightarrow> (\<forall>i. get_group i s' = get_group i s))"
  proof (cases "get_group ?i ?s0")
    case None
    obtain v where "bind_prepared digest n q a now ?s0 = (v, s')" "b"
      using r None by (cases "bind_prepared digest n q a now ?s0") (auto simp: touch_prepared_def Let_def)
    then show ?thesis using rebind [OF e(1) shrinks_refl None] by blast
  next
    case (Some g)
    have gi: "group_id_of g = ?i" using get_group_ok [OF _ Some] e(1) unfolding matcher_core_def by blast
    show ?thesis
    proof (cases "now \<ge> gp_expires g")
      case True
      obtain v where "bind_prepared digest n q a now (remove_group g ?s0) = (v, s')" "b"
        using r Some True by (cases "bind_prepared digest n q a now (remove_group g ?s0)") (auto simp: touch_prepared_def Let_def)
      moreover have "matcher_core digest (remove_group g ?s0)" using core_remove [OF e(1)] Some gi by simp
      moreover have "get_group ?i (remove_group g ?s0) = None" by (simp add: get_remove_group gi)
      ultimately show ?thesis using rebind shrinks_remove by blast
    next
      case live: False
      show ?thesis
      proof (cases "gp_auth g \<noteq> a \<and> gp_auth g \<noteq> ''home-pending'' \<and> gp_auth g \<noteq> []")
        case True
        then have "s' = ?s0" "\<not> b" using r Some live by (auto simp: touch_prepared_def Let_def)
        then show ?thesis using ok0 evolves_refreshes [OF e(2)] e(3) by auto
      next
        case False
        let ?g1 = "g\<lparr>gp_auth := a, gp_expires := now + mm_ttl ?s0, gp_access := mm_access ?s0 + 1, gp_env := lq_env_digest q\<rparr>"
        let ?s2 = "set_group ?i ?g1 (?s0\<lparr>mm_access := mm_access ?s0 + 1\<rparr>)"
        define change where "change \<longleftrightarrow> lq_tail_fingerprints q \<noteq> [] \<and> gp_tail ?g1 \<noteq> lq_tail_fingerprints q"
        define s3 where "s3 = (if change then add_group digest (?g1\<lparr>gp_tail := lq_tail_fingerprints q\<rparr>) (remove_group ?g1 ?s2) else ?s2)"
        have s': "s' = move_to_back ?i s3" and b: b
          using r Some live False unfolding touch_prepared_def Let_def change_def s3_def next_access_def by auto
        note t = touch_live_ok [OF ok0 Some refl refl s3_def]
        have "evolves {?i} s s3" using evolves_trans [OF evolves_refreshes [OF e(2)] t(2)] .
        then have "evolves {?i} s s'" by (simp add: s' evolves_def)
        moreover have "touched ?i a now s s'" using t(3) same0 by (simp add: touched_def s')
        ultimately show ?thesis using ok_move [OF t(1)] s' b by blast
      qed
    qed
  qed
  then show "matcher_ok digest s'" "evolves {?i} s s'" "b \<Longrightarrow> touched ?i a now s s'"
    "\<not> b \<Longrightarrow> get_group i s' = get_group i s" by blast+
qed

end
