(* ===== verification/Lcp_Operations.thy ===== *)
theory Lcp_Operations
  imports Lcp_Steps
begin

text \<open>
  The operations of the LCP matcher as its callers see them keep the invariant; \<open>matcher_reachable\<close> are the states they
  lead to from a new matcher.
\<close>

subsection \<open>Loops that remove groups\<close>

definition remove_if :: "(lcp_group \<Rightarrow> bool) \<Rightarrow> matcher_state \<Rightarrow> group_id \<Rightarrow> matcher_state" where
  "remove_if P s i = (case get_group i s of None \<Rightarrow> s | Some g \<Rightarrow> if P g then remove_group g s else s)"

lemma remove_where_fold: "remove_where P s = foldl (remove_if P) s (all_ids s)"
proof -
  have "(\<lambda>s' i. case get_group i s' of None \<Rightarrow> s' | Some g \<Rightarrow> if P g then remove_group g s' else s') = remove_if P"
    by (simp add: remove_if_def fun_eq_iff)
  then show ?thesis by (simp add: remove_where_def)
qed

lemma ok_remove:
  assumes "matcher_ok digest s" "get_group (group_id_of g) s = Some g"
  shows "matcher_ok digest (remove_group g s)"
  using core_remove [OF _ assms(2)] too_many_remove [of g s] assms(1) unfolding matcher_ok_def by blast

lemma remove_if_ok:
  assumes "matcher_ok digest s"
  shows "matcher_ok digest (remove_if P s i)" "shrinks s (remove_if P s i)"
    "get_group j (remove_if P s i) = (if j = i \<and> (\<exists>g. get_group i s = Some g \<and> P g) then None else get_group j s)"
proof -
  have known: "group_id_of g = i" if "get_group i s = Some g" for g
    using get_group_ok [OF _ that] assms unfolding matcher_ok_def matcher_core_def by blast
  show "matcher_ok digest (remove_if P s i)"
  proof (cases "get_group i s")
    case None
    then show ?thesis using assms by (simp add: remove_if_def)
  next
    case (Some g)
    then show ?thesis using assms ok_remove [of digest s g] known by (simp add: remove_if_def)
  qed
  show "shrinks s (remove_if P s i)" by (simp add: remove_if_def shrinks_remove split: option.split)
  show "get_group j (remove_if P s i) = (if j = i \<and> (\<exists>g. get_group i s = Some g \<and> P g) then None else get_group j s)"
    using known by (auto simp: remove_if_def get_remove_group split: option.split)
qed

lemma remove_fold_ok:
  "matcher_ok digest s \<Longrightarrow> matcher_ok digest (foldl (remove_if P) s ids) \<and> shrinks s (foldl (remove_if P) s ids) \<and>
     get_group j (foldl (remove_if P) s ids) =
       (if j \<in> set ids \<and> (\<exists>g. get_group j s = Some g \<and> P g) then None else get_group j s)"
proof (induction ids arbitrary: s)
  case (Cons i ids)
  note r = remove_if_ok [OF Cons.prems, where P = P and i = i]
  note ih = Cons.IH [OF r(1)]
  have "shrinks s (foldl (remove_if P) s (i # ids))" using shrinks_trans [OF r(2)] ih by simp
  moreover have "get_group j (foldl (remove_if P) s (i # ids)) =
      (if j \<in> set (i # ids) \<and> (\<exists>g. get_group j s = Some g \<and> P g) then None else get_group j s)"
    using ih r(3) by auto
  ultimately show ?case using ih by simp
qed simp

lemma all_ids_complete: "get_group i s = Some g \<Longrightarrow> i \<in> set (all_ids s)"
  by (cases i) (force simp: get_group_def all_ids_def dest: map_of_SomeD split: option.splits)

lemma remove_where_ok:
  assumes "matcher_ok digest s"
  shows "matcher_ok digest (remove_where P s)" "shrinks s (remove_where P s)"
    "get_group j (remove_where P s) = (case get_group j s of None \<Rightarrow> None | Some g \<Rightarrow> if P g then None else Some g)"
  using remove_fold_ok [OF assms, of P "all_ids s"] all_ids_complete unfolding remove_where_fold
  by (auto split: option.splits)

lemma ok_operations: "matcher_ok digest s \<Longrightarrow> matcher_ok digest (s\<lparr>mm_operations := c\<rparr>)"
proof -
  have "prefix_size (s\<lparr>mm_operations := c\<rparr>) = prefix_size s" by (simp add: prefix_size_def fun_eq_iff)
  then show "matcher_ok digest s \<Longrightarrow> matcher_ok digest (s\<lparr>mm_operations := c\<rparr>)"
    by (simp add: matcher_ok_def matcher_core_def tables_ok_def lru_ok_def access_ok_def limits_ok_def too_many_def)
qed

text \<open>A tick drops expired groups, perhaps, and nothing else.\<close>

lemma tick_ok:
  assumes "matcher_ok digest s"
  shows "matcher_ok digest (tick now s)" "shrinks s (tick now s)"
    "get_group i s = Some g \<Longrightarrow> now < gp_expires g \<Longrightarrow> get_group i (tick now s) = Some g"
proof -
  let ?s = "s\<lparr>mm_operations := mm_operations s + 1\<rparr>"
  have ok: "matcher_ok digest ?s" using assms by (rule ok_operations)
  have sh: "shrinks s ?s" by (simp add: shrinks_def)
  note c = remove_where_ok [OF ok, where P = "\<lambda>g. now \<ge> gp_expires g", folded cleanup_def]
  show "matcher_ok digest (tick now s)" using ok c(1) by (simp add: tick_def Let_def)
  show "shrinks s (tick now s)" using sh shrinks_trans [OF sh c(2)] by (simp add: tick_def Let_def)
  show "get_group i (tick now s) = Some g" if "get_group i s = Some g" "now < gp_expires g"
    using that c(3) [of i] by (simp add: tick_def Let_def)
qed

subsection \<open>The operations\<close>

lemma tick_fields:
  assumes "matcher_ok digest s"
  shows "mm_max_turns (tick now s) = mm_max_turns s" "mm_ttl (tick now s) = mm_ttl s" "mm_access (tick now s) = mm_access s"
  using tick_ok(2) [OF assms] by (simp_all add: shrinks_def)

lemma matcher_match_ok:
  assumes ok: "matcher_ok digest s" and r: "matcher_match digest n q now s = (r, s')"
  shows "matcher_ok digest s'" "evolves {} s s'" "r = Some a \<Longrightarrow> answers n now s a s'"
proof -
  have "matcher_ok digest s' \<and> evolves {} s s' \<and> (r = Some a \<longrightarrow> answers n now s a s')" for a
  proof (cases "n = [] \<or> prepare_sequence digest (mm_max_turns s) q = None")
    case True
    then have "s' = s" "r = None" using r by (auto simp: matcher_match_def split: if_splits)
    then show ?thesis using ok evolves_refreshes by auto
  next
    case False
    then obtain p where m: "match_prepared digest n p now (tick now s) = (r, s')"
      using r by (auto simp: matcher_match_def)
    note t = tick_ok [OF ok, where now = now]
    have core: "matcher_core digest (tick now s)" and fit: "\<not> too_many (tick now s)" using t(1) by (simp_all add: matcher_ok_def)
    note mp = match_prepared_ok [OF core m]
    have ok': "matcher_ok digest s'" using mp(1) refreshes_too_many [OF mp(2)] fit by (simp add: matcher_ok_def)
    have "answers n now s a s'" if "r = Some a"
      using mp(3) [OF that] shrinks_get [OF t(2)] tick_fields(2) [OF ok] unfolding answers_def by fastforce
    then show ?thesis using ok' evolves_trans evolves_shrinks [OF t(2)] evolves_refreshes [OF mp(2)] by blast
  qed
  then show "matcher_ok digest s'" "evolves {} s s'" "r = Some a \<Longrightarrow> answers n now s a s'" by blast+
qed

lemma no_key_collision_shrinks:
  "shrinks s s' \<Longrightarrow> no_key_collision digest n fps s \<Longrightarrow> no_key_collision digest n fps s'"
  using shrinks_get [of s s' "(n, sequence_key digest fps)"] by (auto simp: no_key_collision_def split: option.splits)

lemma matcher_bind_Some:
  assumes ok: "matcher_ok digest s" and p: "prepare_sequence digest (mm_max_turns s) q = Some p"
    and free: "no_key_collision digest n (lq_fingerprints p) s"
    and r: "matcher_bind digest n q a now s = (Some v, s')"
  shows "matcher_ok digest s'" "evolves {(n, sequence_key digest (lq_fingerprints p))} s s'"
    "bound digest n p (js_trim a) now v s'" "mm_access s < mm_access s'"
proof -
  have b: "bind_prepared digest n p (js_trim a) now (tick now s) = (v, s')"
    using r p by (auto simp: matcher_bind_def split: if_splits prod.splits)
  note t = tick_ok [OF ok, where now = now]
  have core: "matcher_core digest (tick now s)" using t(1) by (simp add: matcher_ok_def)
  have q: "prepared_ok (mm_max_turns (tick now s)) p" using prepare_sequence_ok(1) [OF p] tick_fields(1) [OF ok] by simp
  note bp = bind_prepared_ok [OF core q no_key_collision_shrinks [OF t(2) free] b]
  show "matcher_ok digest s'" "bound digest n p (js_trim a) now v s'" by (rule bp)+
  show "evolves {(n, sequence_key digest (lq_fingerprints p))} s s'" using evolves_trans [OF evolves_shrinks [OF t(2)] bp(2)] .
  show "mm_access s < mm_access s'" using bp(4) tick_fields(3) [OF ok] by simp
qed

lemma matcher_bind_None: "matcher_bind digest n q a now s = (None, s') \<Longrightarrow> s' = s"
  by (auto simp: matcher_bind_def split: if_splits option.splits prod.splits)

lemma matcher_touch_ok:
  assumes ok: "matcher_ok digest s" and r: "matcher_touch digest n q a now s = (b, s')"
  shows "matcher_ok digest s'" "evolves {(n, sequence_key digest (take (mm_max_turns s) (lq_fingerprints q)))} s s'"
    "b \<Longrightarrow> touched (n, sequence_key digest (take (mm_max_turns s) (lq_fingerprints q))) (js_trim a) now s s'"
    "\<not> b \<Longrightarrow> get_group i s = Some g \<Longrightarrow> now < gp_expires g \<Longrightarrow> get_group i s' = Some g"
proof -
  let ?i = "(n, sequence_key digest (take (mm_max_turns s) (lq_fingerprints q)))"
  have "matcher_ok digest s' \<and> evolves {?i} s s' \<and> (b \<longrightarrow> touched ?i (js_trim a) now s s') \<and>
    (\<not> b \<longrightarrow> get_group i s = Some g \<longrightarrow> now < gp_expires g \<longrightarrow> get_group i s' = Some g)"
  proof (cases "js_trim n = [] \<or> js_trim a = [] \<or> prepare_sequence digest (mm_max_turns s) q = None")
    case True
    then have "s' = s" "\<not> b" using r by (auto simp: matcher_touch_def split: if_splits)
    then show ?thesis using ok evolves_refreshes by auto
  next
    case False
    then obtain p where p: "prepare_sequence digest (mm_max_turns s) q = Some p"
      and m: "touch_prepared digest n p (js_trim a) now (tick now s) = (b, s')"
      using r by (auto simp: matcher_touch_def)
    note t = tick_ok [OF ok, where now = now]
    have q: "prepared_ok (mm_max_turns (tick now s)) p" using prepare_sequence_ok(1) [OF p] tick_fields(1) [OF ok] by simp
    note tp = touch_prepared_ok [OF t(1) q m, unfolded prepare_sequence_ok(2) [OF p]]
    have "evolves {?i} s s'" using evolves_trans [OF evolves_shrinks [OF t(2)] tp(2)] .
    moreover have "b \<longrightarrow> touched ?i (js_trim a) now s s'"
      using tp(3) tick_fields(2,3) [OF ok, of now] by (auto simp: touched_def)
    moreover have "get_group i s' = Some g" if "\<not> b" "get_group i s = Some g" "now < gp_expires g"
      using tp(4) [OF that(1), where i = i] t(3) [OF that(2,3)] by simp
    ultimately show ?thesis using tp(1) by blast
  qed
  then show "matcher_ok digest s'" "evolves {?i} s s'" "b \<Longrightarrow> touched ?i (js_trim a) now s s'"
    "\<not> b \<Longrightarrow> get_group i s = Some g \<Longrightarrow> now < gp_expires g \<Longrightarrow> get_group i s' = Some g" by blast+
qed

lemma remove_before_ok:
  assumes ok: "matcher_ok digest s" and r: "remove_before digest n fps a gen now s = (b, s')"
  shows "matcher_ok digest s'" "evolves {} s s'"
    "\<not> b \<Longrightarrow> get_group i s = Some g \<Longrightarrow> now < gp_expires g \<Longrightarrow> get_group i s' = Some g"
    "b \<Longrightarrow> \<exists>g. get_group (n, sequence_key digest (take (mm_max_turns s) fps)) s = Some g \<and> gp_auth g = a \<and>
       (gen > 0 \<longrightarrow> gp_access g \<le> gen) \<and> s' = remove_group g (tick now s)"
proof -
  let ?i = "(n, sequence_key digest (take (mm_max_turns s) fps))"
  note t = tick_ok [OF ok, where now = now]
  have cut: "(if mm_max_turns s < length fps then take (mm_max_turns s) fps else fps) = take (mm_max_turns s) fps" by simp
  consider (same) "\<not> b" "s' = s" | (kept) "\<not> b" "s' = tick now s"
    | (gone) h where "b" "get_group ?i (tick now s) = Some h" "gp_auth h = a" "gen > 0 \<longrightarrow> gp_access h \<le> gen"
        "s' = remove_group h (tick now s)"
  proof (cases "n = [] \<or> a = [] \<or> fps = []")
    case True
    then show ?thesis using same r by (simp add: remove_before_def)
  next
    case args: False
    show ?thesis
    proof (cases "get_group ?i (tick now s)")
      case None
      then have "(b, s') = (False, tick now s)" using r args by (simp only: remove_before_def Let_def cut) simp
      then show ?thesis using kept by simp
    next
      case (Some h)
      then have "(b, s') = (if gp_auth h \<noteq> a \<or> gen > 0 \<and> gp_access h > gen then (False, tick now s) else (True, remove_group h (tick now s)))"
        using r args by (simp only: remove_before_def Let_def cut) (auto split: if_splits)
      then show ?thesis using kept gone [OF _ Some] by (auto split: if_splits)
    qed
  qed
  then have "matcher_ok digest s' \<and> evolves {} s s' \<and>
    (\<not> b \<longrightarrow> get_group i s = Some g \<longrightarrow> now < gp_expires g \<longrightarrow> get_group i s' = Some g) \<and>
    (b \<longrightarrow> (\<exists>g. get_group ?i s = Some g \<and> gp_auth g = a \<and> (gen > 0 \<longrightarrow> gp_access g \<le> gen) \<and> s' = remove_group g (tick now s)))"
  proof cases
    case same
    then show ?thesis using ok evolves_refreshes by auto
  next
    case kept
    then show ?thesis using t(1) evolves_shrinks [OF t(2)] t(3) by blast
  next
    case gone
    have "group_id_of h = ?i" using get_group_ok [OF _ gone(2)] t(1) unfolding matcher_ok_def matcher_core_def by blast
    then have "matcher_ok digest s'"
      using ok_remove [OF t(1)] gone(2,5) by simp
    moreover have "evolves {} s s'" using evolves_shrinks [OF shrinks_trans [OF t(2) shrinks_remove]] gone(5) by simp
    ultimately show ?thesis using gone shrinks_get [OF t(2) gone(2)] by blast
  qed
  then show "matcher_ok digest s'" "evolves {} s s'"
    "\<not> b \<Longrightarrow> get_group i s = Some g \<Longrightarrow> now < gp_expires g \<Longrightarrow> get_group i s' = Some g"
    "b \<Longrightarrow> \<exists>g. get_group ?i s = Some g \<and> gp_auth g = a \<and> (gen > 0 \<longrightarrow> gp_access g \<le> gen) \<and> s' = remove_group g (tick now s)"
    by blast+
qed

lemma matcher_invalidate_ok:
  assumes ok: "matcher_ok digest s"
  shows "matcher_ok digest (matcher_invalidate a s)" "shrinks s (matcher_invalidate a s)"
    "a \<noteq> [] \<Longrightarrow> get_group i (matcher_invalidate a s) = Some g \<Longrightarrow> gp_auth g \<noteq> a"
  using ok remove_where_ok [OF ok, where P = "\<lambda>g. gp_auth g = a"]
  by (auto simp: matcher_invalidate_def split: option.splits if_splits)

lemma shrinks_empty: "matcher_ok digest s \<Longrightarrow> matcher_ok digest (matcher_clear s) \<and> shrinks s (matcher_clear s)"
  by (simp add: matcher_ok_def matcher_core_def tables_ok_def lru_ok_def access_ok_def limits_ok_def matcher_clear_def
      too_many_def shrinks_def get_group_def)

lemma new_matcher_ok:
  "matcher_ok digest (new_matcher ttl turns groups entries)"
  by (auto simp: matcher_ok_def matcher_core_def tables_ok_def lru_ok_def access_ok_def limits_ok_def new_matcher_def
      too_many_def get_group_def positive_or_def nat_less_iff split: option.split)

lemma set_matcher_ttl_ok:
  assumes "matcher_ok digest s"
  shows "matcher_ok digest (set_matcher_ttl ttl s)"
proof -
  have "prefix_size (s\<lparr>mm_ttl := ttl\<rparr>) = prefix_size s" by (simp add: prefix_size_def fun_eq_iff)
  then show ?thesis
    using assms by (simp add: matcher_ok_def matcher_core_def tables_ok_def lru_ok_def access_ok_def limits_ok_def
        set_matcher_ttl_def too_many_def)
qed

text \<open>Removing groups of a list that may name some of them twice.\<close>

lemma remove_listed_ok:
  "matcher_ok digest s \<Longrightarrow> (\<And>g. g \<in> set gs \<Longrightarrow> get_group (group_id_of g) s = Some g) \<Longrightarrow> distinct (map group_id_of gs) \<Longrightarrow>
     matcher_ok digest (foldl (\<lambda>s' g. remove_group g s') s gs) \<and> shrinks s (foldl (\<lambda>s' g. remove_group g s') s gs) \<and>
     (\<forall>j. get_group j (foldl (\<lambda>s' g. remove_group g s') s gs) = (if j \<in> group_id_of ` set gs then None else get_group j s))"
proof (induction gs arbitrary: s)
  case (Cons g gs)
  have g: "get_group (group_id_of g) s = Some g" using Cons.prems(2) by simp
  have ok: "matcher_ok digest (remove_group g s)" using ok_remove [OF Cons.prems(1) g] .
  have "get_group (group_id_of h) (remove_group g s) = Some h" if "h \<in> set gs" for h
  proof -
    have "group_id_of h \<in> set (map group_id_of gs)" using that by simp
    then have "group_id_of h \<noteq> group_id_of g" using Cons.prems(3) by (metis distinct.simps(2) list.simps(9))
    then show ?thesis using that Cons.prems(2) [of h] by (simp add: get_remove_group)
  qed
  note ih = Cons.IH [OF ok this]
  show ?case using ih Cons.prems(3) shrinks_trans [OF shrinks_remove] by (auto simp: get_remove_group)
qed auto

lemma distinct_all_ids:
  assumes "tables_ok digest s"
  shows "distinct (all_ids s)"
proof -
  have "distinct (concat (map (\<lambda>(n, ix). map (\<lambda>(k, _). (n, k)) (nx_groups ix)) m))"
    if "distinct (map fst m)" "\<forall>(n, ix) \<in> set m. distinct (map fst (nx_groups ix))" for m :: "(string, lcp_index) js_map"
    using that
  proof (induction m)
    case (Cons p m)
    obtain n ix where p: "p = (n, ix)" by (cases p)
    have "map (\<lambda>(k, _). (n, k)) (nx_groups ix) = map (Pair n) (map fst (nx_groups ix))" by auto
    moreover have "distinct (map (Pair n) (map fst (nx_groups ix)))"
      using Cons.prems(2) by (simp only: p distinct_map [of "Pair n"]) (simp add: inj_on_def)
    ultimately have "distinct (map (\<lambda>(k, _). (n, k)) (nx_groups ix))" by (simp only:)
    moreover have "n \<notin> fst ` set m" using Cons.prems(1) by (simp add: p)
    ultimately show ?case using Cons by (auto simp: p rev_image_eqI)
  qed simp
  moreover have "distinct (map fst (mm_namespaces s))" using assms by (simp add: tables_ok_def distinct_keys_def)
  moreover have "distinct (map fst (nx_groups ix))" if "(n, ix) \<in> set (mm_namespaces s)" for n ix
  proof -
    have "map_of (mm_namespaces s) n = Some ix" using assms by (intro map_of_SomeI that) (simp add: tables_ok_def)
    then have "index_ok digest (mm_max_turns s) n ix" using assms by (simp add: tables_ok_def)
    then show ?thesis by (simp add: index_ok_def distinct_keys_def)
  qed
  ultimately show ?thesis unfolding all_ids_def by blast
qed

definition stored_groups :: "matcher_state \<Rightarrow> lcp_group list" where
  "stored_groups s = List.map_filter (\<lambda>i. get_group i s) (all_ids s)"

lemma stored_groups_ok:
  assumes "matcher_ok digest s"
  shows "g \<in> set (stored_groups s) \<longleftrightarrow> get_group (group_id_of g) s = Some g" "distinct (map group_id_of (stored_groups s))"
proof -
  have tables: "tables_ok digest s" using assms by (simp add: matcher_ok_def matcher_core_def)
  have known: "group_id_of g = i" if "get_group i s = Some g" for g i using get_group_ok [OF tables that] by blast
  show "g \<in> set (stored_groups s) \<longleftrightarrow> get_group (group_id_of g) s = Some g"
  proof
    assume "g \<in> set (stored_groups s)"
    then obtain i where "get_group i s = Some g" unfolding stored_groups_def List.map_filter_def by auto
    then show "get_group (group_id_of g) s = Some g" using known by simp
  next
    assume g: "get_group (group_id_of g) s = Some g"
    show "g \<in> set (stored_groups s)"
      using all_ids_complete [OF g] g image_eqI [of g "\<lambda>i. the (get_group i s)" "group_id_of g"]
      unfolding stored_groups_def List.map_filter_def by simp
  qed
  have "map group_id_of (List.map_filter (\<lambda>i. get_group i s) ids) = filter (\<lambda>i. get_group i s \<noteq> None) ids" for ids
    using known by (induction ids) (auto simp: List.map_filter_simps split: option.split)
  then show "distinct (map group_id_of (stored_groups s))"
    using distinct_all_ids [OF tables] by (simp add: stored_groups_def)
qed

lemma distinct_map_filtered: "distinct (map f xs) \<Longrightarrow> distinct (map f (filter P xs))"
  by (simp add: distinct_map inj_on_def)

lemma lookup_session_ok:
  assumes ok: "matcher_ok digest s" and r: "lookup_session session now s = (v, s')"
  shows "matcher_ok digest s'" "shrinks s s'"
    "v = Some (auths, n) \<Longrightarrow> set auths = {gp_auth g | g i. get_group i s = Some g \<and> gp_session g = session \<and>
       now < gp_expires g \<and> gp_auth g \<noteq> []}"
proof -
  let ?groups = "filter (\<lambda>g. gp_session g = session) (stored_groups s)"
  let ?active = "filter (\<lambda>g. now < gp_expires g) ?groups"
  let ?out = "foldl (\<lambda>s' g. remove_group g s') s (filter (\<lambda>g. \<not> now < gp_expires g) ?groups)"
  let ?auths = "sort (js_set (concat (map (\<lambda>g. if gp_auth g = [] then [] else [gp_auth g]) ?active)))"
  have dist: "distinct (map group_id_of (filter (\<lambda>g. \<not> now < gp_expires g) ?groups))"
    using stored_groups_ok(2) [OF ok] by (intro distinct_map_filtered)
  have "get_group (group_id_of g) s = Some g" if "g \<in> set (filter (\<lambda>g. \<not> now < gp_expires g) ?groups)" for g
    using that stored_groups_ok(1) [OF ok] by simp
  note rem = remove_listed_ok [OF ok this dist]
  have out: "(v, s') = (if session = [] then (None, s)
      else (case ?active of [] \<Rightarrow> None | g # _ \<Rightarrow> if ?auths = [] then None else Some (?auths, gp_namespace g), ?out))"
    using r by (simp only: lookup_session_def Let_def stored_groups_def)
  then have "s' = s \<or> s' = ?out" by (auto split: if_splits)
  then show "matcher_ok digest s'" "shrinks s s'" using ok rem by auto
  have known: "group_id_of g = i" if "get_group i s = Some g" for g i
    using get_group_ok [OF _ that] ok unfolding matcher_ok_def matcher_core_def by blast
  assume "v = Some (auths, n)"
  then have "auths = ?auths" using out by (cases ?active) (simp_all split: if_splits)
  then have "set auths = {gp_auth g | g. g \<in> set ?active \<and> gp_auth g \<noteq> []}" by (auto split: if_splits)
  also have "\<dots> = {gp_auth g | g i. get_group i s = Some g \<and> gp_session g = session \<and> now < gp_expires g \<and> gp_auth g \<noteq> []}"
    unfolding set_filter stored_groups_ok(1) [OF ok] using known by blast
  finally show "set auths = {gp_auth g | g i. get_group i s = Some g \<and> gp_session g = session \<and> now < gp_expires g \<and> gp_auth g \<noteq> []}" .
qed

subsection \<open>Reachable matchers\<close>

inductive matcher_step :: "(nat list \<Rightarrow> nat list) \<Rightarrow> matcher_state \<Rightarrow> matcher_state \<Rightarrow> bool" for digest where
  step_match: "matcher_match digest n q now s = (r, s') \<Longrightarrow> matcher_step digest s s'"
| step_bind: "prepare_sequence digest (mm_max_turns s) q = Some p \<Longrightarrow> no_key_collision digest n (lq_fingerprints p) s \<Longrightarrow>
    matcher_bind digest n q a now s = (r, s') \<Longrightarrow> matcher_step digest s s'"
| step_touch: "matcher_touch digest n q a now s = (b, s') \<Longrightarrow> matcher_step digest s s'"
| step_remove: "remove_before digest n fps a gen now s = (b, s') \<Longrightarrow> matcher_step digest s s'"
| step_invalidate: "matcher_step digest s (matcher_invalidate a s)"
| step_lookup: "lookup_session session now s = (v, s') \<Longrightarrow> matcher_step digest s s'"
| step_clear: "matcher_step digest s (matcher_clear s)"
| step_ttl: "matcher_step digest s (set_matcher_ttl ttl s)"

inductive matcher_reachable :: "(nat list \<Rightarrow> nat list) \<Rightarrow> matcher_state \<Rightarrow> bool" for digest where
  reach_new: "matcher_reachable digest (new_matcher ttl turns groups entries)"
| reach_step: "matcher_reachable digest s \<Longrightarrow> matcher_step digest s s' \<Longrightarrow> matcher_reachable digest s'"

inductive_cases matcher_stepE: "matcher_step digest s s'"

lemma matcher_step_ok:
  assumes "matcher_step digest s s'" "matcher_ok digest s"
  shows "matcher_ok digest s'"
  using assms
proof (cases rule: matcher_step.cases)
  case (step_bind q p n a now r)
  then show ?thesis
    using matcher_bind_Some(1) [OF assms(2) step_bind(1,2)] matcher_bind_None [of digest n q a now s s'] assms(2) by (cases r) auto
qed (simp_all add: matcher_match_ok(1) [OF assms(2)] matcher_touch_ok(1) [OF assms(2)] remove_before_ok(1) [OF assms(2)]
    matcher_invalidate_ok(1) [OF assms(2)] shrinks_empty [OF assms(2)] lookup_session_ok(1) [OF assms(2)]
    set_matcher_ttl_ok [OF assms(2)])

lemma matcher_reachable_ok: "matcher_reachable digest s \<Longrightarrow> matcher_ok digest s"
  by (induction rule: matcher_reachable.induct) (auto intro: new_matcher_ok matcher_step_ok)

end
