(* ===== verification/Lcp_Search.thy ===== *)
theory Lcp_Search
  imports Lcp_Operations
begin

text \<open>
  The search of the LCP matcher against a reference that knows no index: it goes down from the whole request one turn at
  a time and looks at every group of the namespace. Rolling keys agree on a common prefix, so the prefix table finds
  every group that extends one, and a group that extends a prefix extends the shorter ones, so bisection finds the
  longest.
\<close>

subsection \<open>Rolling keys\<close>

lemma rolling_keys_take: "rolling_keys digest previous i (take m fs) = take m (rolling_keys digest previous i fs)"
  by (induction fs arbitrary: previous i m) (auto simp: Let_def take_Cons' split: nat.splits)

lemma rolling_key_shared:
  assumes "prefix (take m fps) gs" "0 < m" "m \<le> length fps"
  shows "rolling_prefix_keys digest fps ! (m - 1) \<in> set (rolling_prefix_keys digest gs)"
proof -
  have len: "m \<le> length gs" using prefix_length_le [OF assms(1)] assms(3) by simp
  have "take m gs = take m fps" using assms(1,3) by (auto simp: prefix_def)
  then have "take m (rolling_prefix_keys digest fps) = take m (rolling_prefix_keys digest gs)"
    unfolding rolling_prefix_keys_def by (simp only: rolling_keys_take [symmetric])
  then have "rolling_prefix_keys digest fps ! (m - 1) = rolling_prefix_keys digest gs ! (m - 1)"
    using assms(2) by (metis diff_less nth_take zero_less_one)
  then show ?thesis using len assms(2) by simp
qed

subsection \<open>The newest group of a list\<close>

lemma newer_trans: "newer_group a b \<Longrightarrow> newer_group b c \<Longrightarrow> newer_group a c"
  by (auto simp: newer_group_def)

lemma not_newer_trans: "\<not> newer_group a b \<Longrightarrow> \<not> newer_group b c \<Longrightarrow> \<not> newer_group a c"
  by (auto simp: newer_group_def)

lemma newest_fold_max:
  "foldl (newest_step fps now) best gs = None \<longleftrightarrow> best = None \<and> (\<forall>g \<in> set gs. \<not> extends_prefix fps now g)"
  "foldl (newest_step fps now) best gs = Some g \<Longrightarrow>
     (\<forall>h. best = Some h \<longrightarrow> \<not> newer_group h g) \<and> (\<forall>h \<in> set gs. extends_prefix fps now h \<longrightarrow> \<not> newer_group h g)"
proof (induction gs arbitrary: best)
  case Nil
  { case 1 show ?case by simp }
  { case 2 then show ?case by (simp add: newer_group_def) }
next
  case (Cons x gs)
  { case 1 show ?case unfolding foldl_Cons Cons.IH(1) by (auto simp: newest_step_def split: option.splits) }
  { case 2
    then have "foldl (newest_step fps now) (newest_step fps now best x) gs = Some g" by simp
    note ih = Cons.IH(2) [OF this]
    have "\<not> newer_group h g" if "best = Some h" for h
      using ih that newer_trans by (auto simp: newest_step_def split: if_splits)
    moreover have "\<not> newer_group x g" if "extends_prefix fps now x"
      using ih that not_newer_trans [of x _ g] by (auto simp: newest_step_def split: if_splits option.splits)
    ultimately show ?case using ih by auto }
qed

text \<open>Groups with access numbers of their own have one newest, whatever the order they are looked at in.\<close>

lemma newest_unique:
  assumes "set (filter (extends_prefix fps now) xs) = set (filter (extends_prefix fps now) ys)"
    and one: "\<And>g h. g \<in> set xs \<Longrightarrow> h \<in> set xs \<Longrightarrow> gp_access g = gp_access h \<Longrightarrow> g = h"
  shows "foldl (newest_step fps now) None xs = foldl (newest_step fps now) None ys"
proof (cases "foldl (newest_step fps now) None xs")
  case None
  then have "set (filter (extends_prefix fps now) xs) = {}" using newest_fold_max(1) [of fps now None xs] by auto
  then have "foldl (newest_step fps now) None ys = None" using assms(1) newest_fold_max(1) [of fps now None ys] by auto
  then show ?thesis using None by simp
next
  case (Some g)
  have g: "g \<in> set (filter (extends_prefix fps now) xs)" using newest_fold_some [OF Some] by simp
  then have "foldl (newest_step fps now) None ys \<noteq> None" using assms(1) newest_fold_max(1) [of fps now None ys] by auto
  then obtain h where h: "foldl (newest_step fps now) None ys = Some h" by blast
  have h': "h \<in> set (filter (extends_prefix fps now) xs)" using newest_fold_some [OF h] assms(1) by simp
  have "\<not> newer_group h g" using newest_fold_max(2) [OF Some] h' by simp
  moreover have "\<not> newer_group g h" using newest_fold_max(2) [OF h] g assms(1) by auto
  ultimately have "gp_access g = gp_access h" by (auto simp: newer_group_def)
  then show ?thesis using one g h' Some h by auto
qed

subsection \<open>Bisection\<close>

text \<open>On a predicate that holds up to a length and not beyond it, bisection finds that length.\<close>

lemma longest_search_threshold:
  assumes "0 \<le> low" "low \<le> high + 1" "low - 1 \<le> M" "M \<le> high"
    and "\<And>m. low \<le> m \<Longrightarrow> m \<le> high \<Longrightarrow> probe (nat m) \<noteq> None \<longleftrightarrow> m \<le> M"
  shows "longest_search probe low high best =
    (if low \<le> M then Some (the (probe (nat M)), nat M) else best)"
  using assms
proof (induction probe low high best rule: longest_search.induct)
  case (1 probe low high best)
  let ?m = "low + (high - low) div 2"
  show ?case
  proof (cases "low \<le> high")
    case False
    then show ?thesis using 1(4-7) by (simp add: longest_search.simps)
  next
    case True
    then have mid: "low \<le> ?m" "?m \<le> high" by linarith+
    show ?thesis
    proof (cases "probe (nat ?m)")
      case None
      then have "M < ?m" using 1(7) [OF mid] by simp
      then have "longest_search probe low (?m - 1) best = (if low \<le> M then Some (the (probe (nat M)), nat M) else best)"
        using 1(1) [OF True refl None] 1(3,5,7) mid by simp
      then show ?thesis using None True by (simp add: longest_search.simps [of probe low high] Let_def)
    next
      case (Some g)
      then have "?m \<le> M" "low \<le> M" using 1(7) [OF mid] mid by simp_all
      then have "longest_search probe (?m + 1) high (Some (g, nat ?m)) =
          (if ?m + 1 \<le> M then Some (the (probe (nat M)), nat M) else Some (g, nat ?m))"
        using 1(2) [OF True refl Some] 1(3,6,7) mid by simp
      moreover have "Some (g, nat ?m) = Some (the (probe (nat M)), nat M)" if "\<not> ?m + 1 \<le> M"
      proof -
        have "?m = M" using that \<open>?m \<le> M\<close> by simp
        then show ?thesis using Some by simp
      qed
      ultimately show ?thesis using Some True mid \<open>?m \<le> M\<close> \<open>low \<le> M\<close> by (simp add: longest_search.simps [of probe low high] Let_def)
    qed
  qed
qed

subsection \<open>The reference\<close>

definition newest_extending :: "lcp_index \<Rightarrow> string list \<Rightarrow> ms \<Rightarrow> lcp_group option" where
  "newest_extending ix prefix_turns now = foldl (newest_step prefix_turns now) None (map snd (nx_groups ix))"

definition longest_known :: "lcp_index \<Rightarrow> string list \<Rightarrow> nat \<Rightarrow> ms \<Rightarrow> (lcp_group \<times> nat) option" where
  "longest_known ix fps shortest now =
     first_some (\<lambda>m. map_option (\<lambda>g. (g, m)) (newest_extending ix (take m fps) now)) (rev [shortest..<Suc (length fps)])"

lemma probe_is_newest:
  assumes ok: "matcher_ok digest s" and m: "0 < m" "m \<le> length fps"
  shows "probe_length digest (index_of_namespace n s) fps now m = newest_extending (index_of_namespace n s) (take m fps) now"
proof -
  let ?ix = "index_of_namespace n s" and ?key = "rolling_prefix_keys digest fps ! (m - 1)"
  let ?found = "bucket_groups ?ix (case map_of (nx_prefixes ?ix) ?key of None \<Rightarrow> [] | Some b \<Rightarrow> b)"
  have ix: "index_ok digest (mm_max_turns s) n ?ix" using ok tables_okD unfolding matcher_ok_def matcher_core_def by blast
  then have dist: "distinct_keys (nx_groups ?ix)" by (simp add: index_ok_def)
  have groups: "g \<in> set (map snd (nx_groups ?ix)) \<longleftrightarrow> (\<exists>k. map_of (nx_groups ?ix) k = Some g)" for g
    using map_of_SomeI [OF dist] map_of_SomeD by force
  have post: "bucket p (nx_prefixes ?ix) = {a. \<exists>ps. labels_of ?ix a = Some ps \<and> p \<in> set ps}" for p
    using ix by (simp add: index_ok_def buckets.indexes_def)
  have known: "g \<in> set ?found \<longleftrightarrow> (\<exists>k. map_of (nx_groups ?ix) k = Some g \<and> ?key \<in> set (gp_prefix_keys g))" for g
    using post [of ?key] by (auto simp: bucket_groups_known bucket_def labels_of_def)
  have keys: "?key \<in> set (gp_prefix_keys g)" if "map_of (nx_groups ?ix) k = Some g" "extends_prefix (take m fps) now g" for g k
  proof -
    have "group_ok digest (mm_max_turns s) g" using ix that(1) by (simp add: index_ok_def)
    then show ?thesis
      using that(2) rolling_key_shared [OF _ m] by (simp add: group_ok_def extends_prefix_def)
  qed
  have "g = h" if g: "g \<in> set (map snd (nx_groups ?ix))" and h: "h \<in> set (map snd (nx_groups ?ix))"
    and acc: "gp_access g = gp_access h" for g h
  proof -
    obtain k where k: "get_group (n, k) s = Some g" using g unfolding groups get_group_index by blast
    obtain k' where k': "get_group (n, k') s = Some h" using h unfolding groups get_group_index by blast
    have "access_ok s" using ok by (simp add: matcher_ok_def matcher_core_def)
    then have "(n, k) = (n, k')" using k k' acc unfolding access_ok_def by blast
    then show ?thesis using k k' by simp
  qed
  moreover have "set (filter (extends_prefix (take m fps) now) (map snd (nx_groups ?ix))) =
      set (filter (extends_prefix (take m fps) now) ?found)"
    using known keys groups by (auto simp del: set_map)
  ultimately have "newest_extending ?ix (take m fps) now = foldl (newest_step (take m fps) now) None ?found"
    unfolding newest_extending_def by (intro newest_unique)
  then show ?thesis by (simp add: probe_length_def newest_matching_group_def bucket_groups_def split: option.split)
qed

text \<open>
  What the matcher relies on: of the groups that share the first \<open>shortest\<close> turns with the request, none needs more
  turns to be shared than that. The request's canonical form decides \<open>minPrefixLength\<close> from the turns themselves.
\<close>

definition same_minimum :: "lcp_index \<Rightarrow> string list \<Rightarrow> nat \<Rightarrow> bool" where
  "same_minimum ix fps shortest \<longleftrightarrow>
     list_all (\<lambda>(_, g). prefix (take shortest fps) (gp_fingerprints g) \<longrightarrow> gp_min g \<le> int shortest) (nx_groups ix)"

lemma newest_extending_down:
  assumes same: "same_minimum ix fps shortest" and m: "shortest \<le> m" "m \<le> m'"
    and found: "newest_extending ix (take m' fps) now \<noteq> None"
  shows "newest_extending ix (take m fps) now \<noteq> None"
proof -
  obtain k g where g: "(k, g) \<in> set (nx_groups ix)" "extends_prefix (take m' fps) now g"
    using found newest_fold_max(1) [of "take m' fps" now None "map snd (nx_groups ix)"] by (force simp: newest_extending_def)
  have pre: "prefix (take m fps) (take m' fps)" "prefix (take shortest fps) (take m fps)"
    using m by (metis min.absorb1 take_is_prefix take_take)+
  then have pre_g: "prefix (take m fps) (gp_fingerprints g)" using g(2) prefix_order.trans unfolding extends_prefix_def by blast
  then have min: "gp_min g \<le> int shortest"
    using same g(1) pre(2) prefix_order.trans unfolding same_minimum_def list_all_iff by fast
  have "gp_min g \<le> int (length (take m fps))"
  proof (cases "m \<le> length fps")
    case True
    then show ?thesis using min m by simp
  next
    case False
    then have "take m fps = take m' fps" using m by simp
    then show ?thesis using g(2) by (simp add: extends_prefix_def)
  qed
  then have "extends_prefix (take m fps) now g" using g(2) pre_g by (simp add: extends_prefix_def)
  then show ?thesis
    using g(1) newest_fold_max(1) [of "take m fps" now None "map snd (nx_groups ix)"] by (force simp: newest_extending_def)
qed

lemma first_some_down:
  "first_some f (rev [a..<b]) = Some y \<longleftrightarrow> (\<exists>m. a \<le> m \<and> m < b \<and> f m = Some y \<and> (\<forall>m'. m < m' \<longrightarrow> m' < b \<longrightarrow> f m' = None))"
proof (induction b)
  case (Suc b)
  show ?case
  proof (cases "a \<le> b")
    case True
    then have "first_some f (rev [a..<Suc b]) = (case f b of None \<Rightarrow> first_some f (rev [a..<b]) | Some y \<Rightarrow> Some y)" by simp
    then show ?thesis using Suc True by (cases "f b") (auto simp: less_Suc_eq)
  next
    case False
    then show ?thesis by auto
  qed
qed simp

lemma longest_search_is_scan:
  assumes ok: "matcher_ok digest s" and q: "0 < shortest" "shortest \<le> length fps"
    and same: "same_minimum (index_of_namespace n s) fps shortest"
  shows "longest_search (probe_length digest (index_of_namespace n s) fps now) (int shortest) (int (length fps)) None =
    longest_known (index_of_namespace n s) fps shortest now"
proof -
  let ?ix = "index_of_namespace n s" and ?probe = "probe_length digest (index_of_namespace n s) fps now"
  let ?new = "\<lambda>m. newest_extending ?ix (take m fps) now" and ?f = "\<lambda>m. map_option (\<lambda>g. (g, m)) (newest_extending ?ix (take m fps) now)"
  have probe: "?probe m = ?new m" if "shortest \<le> m" "m \<le> length fps" for m using probe_is_newest [OF ok] q(1) that by simp
  show ?thesis
  proof (cases "longest_known ?ix fps shortest now")
    case None
    then have none: "?new m = None" if "shortest \<le> m" "m \<le> length fps" for m
      using that unfolding longest_known_def first_some_None by auto
    have "longest_search ?probe (int shortest) (int (length fps)) None =
        (if int shortest \<le> int shortest - 1 then Some (the (?probe (nat (int shortest - 1))), nat (int shortest - 1)) else None)"
      using q probe none by (intro longest_search_threshold) auto
    then show ?thesis using None by simp
  next
    case (Some p)
    then obtain M g where M: "p = (g, M)" "shortest \<le> M" "M \<le> length fps" "?new M = Some g"
      and above: "\<And>m'. M < m' \<Longrightarrow> m' \<le> length fps \<Longrightarrow> ?new m' = None"
      unfolding longest_known_def first_some_down by (auto simp: less_Suc_eq_le)
    have "?new m \<noteq> None \<longleftrightarrow> m \<le> M" if "shortest \<le> m" "m \<le> length fps" for m
      using newest_extending_down [OF same that(1), of M now] above [of m] M(4) that(2) by (metis leI option.distinct(1))
    then have "longest_search ?probe (int shortest) (int (length fps)) None =
        (if int shortest \<le> int M then Some (the (?probe (nat (int M))), nat (int M)) else None)"
      using q probe M(2,3) by (intro longest_search_threshold) auto
    then show ?thesis using M Some probe by simp
  qed
qed

end
