(* ===== verification/Lcp_Properties.thy ===== *)
theory Lcp_Properties
  imports Lcp_Search Pick_Properties
begin

text \<open>
  What the LCP matcher promises: it stays within its bounds, answers only with live bindings of the namespace, finds the
  longest known prefix, keeps a conversation on its credential, forgets a credential that was invalidated and lets no
  failure of an older request undo a newer binding. The last part is the matcher inside credential selection.
\<close>

subsection \<open>A conversation goes on\<close>

lemma newest_extending_some:
  assumes "matcher_ok digest s" "newest_extending (index_of_namespace n s) fps now = Some h"
  obtains k where "get_group (n, k) s = Some h" "extends_prefix fps now h"
proof -
  have ix: "index_ok digest (mm_max_turns s) n (index_of_namespace n s)"
    using assms(1) tables_okD unfolding matcher_ok_def matcher_core_def by blast
  then have "distinct_keys (nx_groups (index_of_namespace n s))" by (simp add: index_ok_def)
  note known = map_of_SomeI [OF this]
  have "h \<in> set (map snd (nx_groups (index_of_namespace n s))) \<and> extends_prefix fps now h"
    using newest_fold_some assms(2) unfolding newest_extending_def by blast
  then show thesis using that known by (force simp: get_group_index)
qed

lemma newest_extending_exists:
  assumes "get_group (n, k) s = Some g" "extends_prefix fps now g"
  shows "newest_extending (index_of_namespace n s) fps now \<noteq> None"
proof -
  have "(k, g) \<in> set (nx_groups (index_of_namespace n s))" using assms(1) map_of_SomeD unfolding get_group_index by metis
  then show ?thesis using assms(2) newest_fold_max(1) [of fps now None] unfolding newest_extending_def by force
qed

lemma match_prepared_continues:
  assumes ok: "matcher_ok digest s" and g: "get_group (n, k) s = Some g" "now < gp_expires g"
    and fps: "lq_fingerprints q = gp_fingerprints g @ later" and min: "lq_min_prefix_length q = gp_min g"
    and alone: "\<And>k' h. get_group (n, k') s = Some h \<Longrightarrow> prefix (gp_fingerprints g) (gp_fingerprints h) \<Longrightarrow> h = g"
  shows "fst (match_prepared digest n q now s) =
    Some (match_of (g\<lparr>gp_expires := now + mm_ttl s, gp_access := mm_access s + 1\<rparr>) (length (gp_fingerprints g)))"
proof -
  let ?ix = "index_of_namespace n s" and ?f = "lq_fingerprints q" and ?L = "length (gp_fingerprints g)"
  let ?probe = "probe_length digest ?ix ?f now"
  have core: "matcher_core digest s" using ok by (simp add: matcher_ok_def)
  then have "group_ok digest (mm_max_turns s) g" using get_group_ok [OF _ g(1)] unfolding matcher_core_def by blast
  then have bounds: "0 < gp_min g" "gp_min g \<le> int ?L" by (simp_all add: group_ok_def)
  then obtain mi where mi: "gp_min g = int mi" by (metis nonneg_int_cases less_imp_le)
  have probe: "?probe m = newest_extending ?ix (take m ?f) now" if "0 < m" "m \<le> length ?f" for m
    using probe_is_newest [OF ok that] .
  have above: "newest_extending ?ix (take m ?f) now = None" if m: "?L < m" "m \<le> length ?f" for m
  proof (rule ccontr)
    assume "newest_extending ?ix (take m ?f) now \<noteq> None"
    then obtain h k' where h: "get_group (n, k') s = Some h" "extends_prefix (take m ?f) now h"
      using newest_extending_some [OF ok] by (metis option.exhaust)
    then have pre: "prefix (take m ?f) (gp_fingerprints h)" by (simp add: extends_prefix_def)
    then have "prefix (gp_fingerprints g) (gp_fingerprints h)"
      using m(1) fps by (metis append_take_drop_id append_eq_conv_conj less_imp_le prefix_def prefix_order.trans take_append take_all)
    then have "h = g" using alone h(1) by blast
    then show False using prefix_length_le [OF pre] m by simp
  qed
  have below: "extends_prefix (take m ?f) now g" if "mi \<le> m" "m \<le> ?L" for m
    using that g(2) mi fps by (simp add: extends_prefix_def take_is_prefix)
  have known: "newest_extending ?ix (take m ?f) now \<noteq> None \<longleftrightarrow> m \<le> ?L" if "mi \<le> m" "m \<le> length ?f" for m
    using newest_extending_exists [OF g(1) below] above that by (meson leI)
  have "?probe (nat m) \<noteq> None \<longleftrightarrow> m \<le> int ?L" if "gp_min g \<le> m" "m \<le> int (length ?f)" for m
    using that known [of "nat m"] probe [of "nat m"] bounds mi by (simp add: nat_le_iff le_nat_iff)
  from longest_search_threshold [OF _ _ _ _ this, where best = None]
  have search: "longest_search ?probe (gp_min g) (int (length ?f)) None = Some (the (?probe ?L), ?L)"
    using bounds fps by simp
  have at_L: "?probe ?L = newest_extending ?ix (take ?L ?f) now" by (rule probe) (use bounds fps in auto)
  moreover have "newest_extending ?ix (take ?L ?f) now \<noteq> None"
    by (rule newest_extending_exists [OF g(1) below]) (use bounds mi in auto)
  ultimately obtain h where h: "?probe ?L = Some h" by (metis option.exhaust)
  then have "newest_extending ?ix (take ?L ?f) now = Some h" using at_L by simp
  then obtain k' where k': "get_group (n, k') s = Some h" "extends_prefix (take ?L ?f) now h"
    using newest_extending_some [OF ok] by blast
  then have "h = g" using alone fps by (simp add: extends_prefix_def)
  then have found: "longest_search ?probe (gp_min g) (int (length ?f)) None = Some (g, ?L)" using search h by simp
  obtain g' s1 where r: "refresh_group g now s = (g', s1)" by force
  note f = refresh_group_ok [OF core g(1) r]
  obtain ix where ix: "map_of (mm_namespaces s) n = Some ix" "?ix = ix"
    using g(1) by (auto simp: get_group_def index_of_namespace_def split: option.splits)
  have "gp_fingerprints g' = gp_fingerprints g" by (simp add: f(3))
  moreover have "?f \<noteq> []" "gp_min g \<le> int (length ?f)" using bounds fps by auto
  ultimately show ?thesis using ix found r bounds f(3) min by (simp add: match_prepared_def Let_def)
qed

text \<open>After a bind the sequence has one group, and no other goes through all its turns if none did before.\<close>

lemma bound_alone:
  assumes ok: "matcher_ok digest s" and ok1: "matcher_ok digest s1"
    and ev: "evolves {(n, sequence_key digest fps)} s s1"
    and g: "get_group (n, sequence_key digest fps) s1 = Some g" "gp_fingerprints g = fps"
    and alone: "list_all (\<lambda>h. gp_namespace h = n \<and> prefix fps (gp_fingerprints h) \<longrightarrow> gp_fingerprints h = fps) (stored_groups s)"
    and h: "get_group (n, k) s1 = Some h" "prefix fps (gp_fingerprints h)"
  shows "h = g"
proof (cases "k = sequence_key digest fps")
  case True
  then show ?thesis using g h by simp
next
  case False
  then obtain h0 where h0: "get_group (n, k) s = Some h0" "refreshed h0 h" using ev h(1) unfolding evolves_def by blast
  have gok: "group_id_of h0 = (n, k) \<and> group_ok digest (mm_max_turns s) h0"
    using get_group_ok [OF _ h0(1)] ok unfolding matcher_ok_def matcher_core_def by blast
  have same: "gp_fingerprints h0 = gp_fingerprints h" using refreshedD [OF h0(2)] by (simp add: same_place_def)
  have "h0 \<in> set (stored_groups s)" using stored_groups_ok(1) [OF ok] h0(1) gok by simp
  then have "gp_fingerprints h0 = fps" using alone gok same h(2) by (auto simp: list_all_iff group_id_of_def)
  then have "k = sequence_key digest fps" using gok by (auto simp: group_ok_def group_id_of_def)
  then show ?thesis using False by simp
qed

lemma bound_continues:
  assumes ok: "matcher_ok digest s" and p: "prepare_sequence digest (mm_max_turns s) q = Some p"
    and free: "no_key_collision digest n (lq_fingerprints p) s" and b: "matcher_bind digest n q a now s = (Some v, s1)"
    and p': "prepare_sequence digest (mm_max_turns s) q' = Some p'" "lq_fingerprints p' = lq_fingerprints p @ later"
      "lq_min_prefix_length p' = lq_min_prefix_length p"
    and t: "now \<le> t" "t < now + mm_ttl s"
    and alone: "list_all (\<lambda>h. gp_namespace h = n \<and> prefix (lq_fingerprints p) (gp_fingerprints h) \<longrightarrow>
      gp_fingerprints h = lq_fingerprints p) (stored_groups s)"
  shows "\<exists>r. fst (matcher_match digest n q' t s1) = Some r \<and> lm_auth_id r = js_trim a \<and> li_session_id r = li_session_id v \<and>
    lm_prefix_length r = int (length (lq_fingerprints p)) \<and> li_access_number r > li_access_number v"
proof -
  let ?k = "sequence_key digest (lq_fingerprints p)" and ?s = "tick t s1"
  note mb = matcher_bind_Some [OF ok p free b]
  have same: "mm_ttl s1 = mm_ttl s" "mm_max_turns s1 = mm_max_turns s" using evolves_same [OF mb(2)] by auto
  obtain g where g: "get_group (n, ?k) s1 = Some g" "gp_fingerprints g = lq_fingerprints p" "gp_min g = lq_min_prefix_length p"
    "gp_auth g = js_trim a" "gp_expires g = now + mm_ttl s1" "gp_access g = mm_access s1" "identity_of_group g = v"
    using mb(3) unfolding bound_def by blast
  note tk = tick_ok [OF mb(1), where now = t]
  have g_t: "get_group (n, ?k) ?s = Some g" using tk(3) [OF g(1)] g(5) t(2) same by simp
  have live: "t < gp_expires g" using g(5) t(2) same by simp
  have only: "h = g" if h: "get_group (n, k') ?s = Some h" "prefix (gp_fingerprints g) (gp_fingerprints h)" for k' h
    using bound_alone [OF ok mb(1,2) g(1,2) alone shrinks_get [OF tk(2) h(1)]] h(2) g(2) by simp
  have fps: "lq_fingerprints p' = gp_fingerprints g @ later" and mn: "lq_min_prefix_length p' = gp_min g" using p' g by simp_all
  note m = match_prepared_continues [OF tk(1) g_t live fps mn only]
  have "n \<noteq> []" using b by (auto simp: matcher_bind_def)
  then have "fst (matcher_match digest n q' t s1) = fst (match_prepared digest n p' t ?s)"
    using p'(1) same by (simp add: matcher_match_def)
  then show ?thesis
    using m g tick_fields(3) [OF mb(1), of t] by (auto simp: match_of_def identity_of_group_def)
qed

subsection \<open>Concrete conversations\<close>

definition toy_digest :: "nat list \<Rightarrow> nat list" where
  "toy_digest bytes = [sum_list bytes mod 256, length bytes mod 256]"

definition toy_turns :: "string list \<Rightarrow> lcp_sequence" where
  "toy_turns fps = \<lparr>lq_fingerprints = fps, lq_min_prefix_length = 1, lq_tail_fingerprints = [], lq_env_digest = []\<rparr>"

definition toy_matcher :: matcher_state where
  "toy_matcher = new_matcher (Some 1000) (Some 4) (Some 2) (Some 8)"

definition toy_bound :: matcher_state where
  "toy_bound = snd (matcher_bind toy_digest ''n'' (toy_turns [''a'', ''b'']) ''k1'' 0 toy_matcher)"

lemma reach_bind:
  assumes "matcher_reachable digest s" "prepare_sequence digest (mm_max_turns s) q = Some p"
    "no_key_collision digest n (lq_fingerprints p) s"
  shows "matcher_reachable digest (snd (matcher_bind digest n q a now s))"
proof -
  obtain r s' where "matcher_bind digest n q a now s = (r, s')" by force
  then show ?thesis using reach_step [OF assms(1) step_bind [OF assms(2,3)]] by simp
qed

definition toy_prepared :: "string list \<Rightarrow> lcp_sequence" where
  "toy_prepared fps = \<lparr>lq_fingerprints = fps, lq_min_prefix_length = 1, lq_tail_fingerprints = fps, lq_env_digest = []\<rparr>"

lemma toy_steps:
  "prepare_sequence toy_digest (mm_max_turns toy_matcher) (toy_turns [''a'', ''b'']) = Some (toy_prepared [''a'', ''b''])"
  "no_key_collision toy_digest ''n'' (lq_fingerprints (toy_prepared [''a'', ''b''])) toy_matcher"
  by code_simp+

lemma toy_reachable: "matcher_reachable toy_digest toy_matcher" "matcher_reachable toy_digest toy_bound"
proof -
  show new: "matcher_reachable toy_digest toy_matcher" unfolding toy_matcher_def by (rule reach_new)
  show "matcher_reachable toy_digest toy_bound" unfolding toy_bound_def by (rule reach_bind [OF new toy_steps])
qed

text \<open>A follow-up request in selection, of a conversation that the third sample credential served.\<close>

definition toy_follow_up :: selection_input where
  "toy_follow_up = (sample_input True 500)\<lparr>si_request := sample_request\<lparr>pq_session := None,
     pq_lcp := Some (toy_turns [''a'', ''b'', ''c''], ''k1'')\<rparr>\<rparr>"

definition is_available :: "'a + 'b \<Rightarrow> bool" where
  "is_available x = (case x of Inl _ \<Rightarrow> True | Inr _ \<Rightarrow> False)"

definition toy_namespace :: string where
  "toy_namespace = lcp_namespace ''claude'' ''m'' ''k1''"

definition toy_served :: "lcp_identity option \<times> matcher_state" where
  "toy_served = matcher_bind toy_digest toy_namespace (toy_turns [''a'', ''b'']) ''c'' 0 toy_matcher"

subsection \<open>Properties\<close>

text \<open>C8. Whatever is matched, bound, touched, removed, invalidated, looked up or cleared, the matcher's indexes agree with
  its groups, its counters count them, its LRU list names each once, and it stays within the groups and the prefixes its
  configuration allows. (Binding relies on SHA-256 giving no two sequences of a namespace one key.)\<close>

theorem lcp_matcher_stays_sound:
  assumes "matcher_reachable digest s"
  shows "matcher_ok digest s \<and> mm_group_count s = length (mm_lru s) \<and> distinct (mm_lru s) \<and>
    set (mm_lru s) = {i. get_group i s \<noteq> None} \<and> mm_group_count s \<le> mm_max_groups s \<and> mm_prefix_count s \<le> mm_max_prefixes s"
  using matcher_reachable_ok [OF assms] by (auto simp: matcher_ok_def matcher_core_def lru_ok_def too_many_def)

theorem lcp_matcher_stays_sound_witness:
  "matcher_ok toy_digest toy_bound \<and> mm_group_count toy_bound = length (mm_lru toy_bound) \<and> distinct (mm_lru toy_bound) \<and>
    set (mm_lru toy_bound) = {i. get_group i toy_bound \<noteq> None} \<and> mm_group_count toy_bound \<le> mm_max_groups toy_bound \<and>
    mm_prefix_count toy_bound \<le> mm_max_prefixes toy_bound"
  using lcp_matcher_stays_sound [OF toy_reachable(2)] .

text \<open>A match answers with the credential of a conversation stored under the namespace asked for, bound at a time that
  has not run out; no other caller, model or provider lends its binding.\<close>

theorem match_answers_a_live_binding:
  assumes "matcher_reachable digest s" "matcher_match digest n q now s = (Some r, s')"
  shows "\<exists>k g. get_group (n, k) s = Some g \<and> gp_namespace g = n \<and> now < gp_expires g \<and> gp_auth g = lm_auth_id r"
proof -
  have ok: "matcher_ok digest s" by (rule matcher_reachable_ok [OF assms(1)])
  obtain k g where g: "get_group (n, k) s = Some g" "now < gp_expires g" "gp_auth g = lm_auth_id r"
    using matcher_match_ok(3) [OF ok assms(2)] unfolding answers_def by blast
  have "group_id_of g = (n, k)" using get_group_ok [OF _ g(1)] ok unfolding matcher_ok_def matcher_core_def by blast
  then show ?thesis using g by (auto simp: group_id_of_def)
qed

theorem match_answers_a_live_binding_witness:
  "let r = the (fst (matcher_match toy_digest ''n'' (toy_turns [''a'', ''b'', ''c'']) 5 toy_bound)) in
   \<exists>k g. get_group (''n'', k) toy_bound = Some g \<and> gp_namespace g = ''n'' \<and> 5 < gp_expires g \<and> gp_auth g = lm_auth_id r"
proof -
  let ?m = "matcher_match toy_digest ''n'' (toy_turns [''a'', ''b'', ''c'']) 5 toy_bound"
  have "fst ?m \<noteq> None" by code_simp
  then have "?m = (Some (the (fst ?m)), snd ?m)" by (cases ?m) auto
  from match_answers_a_live_binding [OF toy_reachable(2) this] show ?thesis unfolding Let_def .
qed



text \<open>A conversation goes on where it was: the same turns with any turns after them, within the time to live, match
  the credential and the session the earlier request was bound to, when no other stored conversation runs through all
  of those turns.\<close>

theorem conversation_goes_on:
  assumes "matcher_reachable digest s" "prepare_sequence digest (mm_max_turns s) q = Some p"
    and "no_key_collision digest n (lq_fingerprints p) s" "matcher_bind digest n q a now s = (Some v, s1)"
    and "prepare_sequence digest (mm_max_turns s) q' = Some p'" "lq_fingerprints p' = lq_fingerprints p @ later"
    and "lq_min_prefix_length p' = lq_min_prefix_length p" "now \<le> t" "t < now + mm_ttl s"
    and "list_all (\<lambda>h. gp_namespace h = n \<and> prefix (lq_fingerprints p) (gp_fingerprints h) \<longrightarrow>
      gp_fingerprints h = lq_fingerprints p) (stored_groups s)"
  shows "\<exists>r. fst (matcher_match digest n q' t s1) = Some r \<and> lm_auth_id r = js_trim a \<and> li_session_id r = li_session_id v \<and>
    lm_prefix_length r = int (length (lq_fingerprints p)) \<and> li_access_number r > li_access_number v"
  using bound_continues [OF matcher_reachable_ok [OF assms(1)] assms(2-10)] .

theorem conversation_goes_on_witness:
  "\<exists>r. fst (matcher_match toy_digest ''n'' (toy_turns [''a'', ''b'', ''c'']) 999
       (snd (matcher_bind toy_digest ''n'' (toy_turns [''a'', ''b'']) ''k1'' 0 toy_matcher))) = Some r \<and>
    lm_auth_id r = js_trim ''k1'' \<and>
    li_session_id r = li_session_id (the (fst (matcher_bind toy_digest ''n'' (toy_turns [''a'', ''b'']) ''k1'' 0 toy_matcher))) \<and>
    lm_prefix_length r = int (length (lq_fingerprints (toy_prepared [''a'', ''b'']))) \<and>
    li_access_number r > li_access_number (the (fst (matcher_bind toy_digest ''n'' (toy_turns [''a'', ''b'']) ''k1'' 0 toy_matcher)))"
proof (rule conversation_goes_on [OF toy_reachable(1) toy_steps])
  let ?b = "matcher_bind toy_digest ''n'' (toy_turns [''a'', ''b'']) ''k1'' 0 toy_matcher"
  have "fst ?b \<noteq> None" by code_simp
  then show "?b = (Some (the (fst ?b)), snd ?b)" by (cases ?b) auto
  show "prepare_sequence toy_digest (mm_max_turns toy_matcher) (toy_turns [''a'', ''b'', ''c'']) =
    Some (toy_prepared [''a'', ''b'', ''c''])" by code_simp
  show "lq_fingerprints (toy_prepared [''a'', ''b'', ''c'']) = lq_fingerprints (toy_prepared [''a'', ''b'']) @ [''c'']" by code_simp
  show "lq_min_prefix_length (toy_prepared [''a'', ''b'', ''c'']) = lq_min_prefix_length (toy_prepared [''a'', ''b''])" by code_simp
  show "(999::int) < 0 + mm_ttl toy_matcher" by code_simp
  show "list_all (\<lambda>h. gp_namespace h = ''n'' \<and> prefix (lq_fingerprints (toy_prepared [''a'', ''b''])) (gp_fingerprints h) \<longrightarrow>
      gp_fingerprints h = lq_fingerprints (toy_prepared [''a'', ''b''])) (stored_groups toy_matcher)" by code_simp
qed simp

text \<open>An invalidated credential is not matched again: no stored conversation names it, so no answer does.\<close>

theorem invalidated_credential_not_matched:
  assumes "matcher_reachable digest s" "a \<noteq> []" "matcher_match digest n q now (matcher_invalidate a s) = (Some r, s')"
  shows "lm_auth_id r \<noteq> a"
proof -
  note inv = matcher_invalidate_ok [OF matcher_reachable_ok [OF assms(1)], where a = a]
  obtain k g where "get_group (n, k) (matcher_invalidate a s) = Some g" "gp_auth g = lm_auth_id r"
    using matcher_match_ok(3) [OF inv(1) assms(3)] unfolding answers_def by blast
  then show ?thesis using inv(3) [OF assms(2)] by metis
qed

theorem invalidated_credential_not_matched_witness:
  "lm_auth_id (the (fst (matcher_match toy_digest ''n'' (toy_turns [''a'', ''b'']) 5 (matcher_invalidate ''k2'' toy_bound)))) \<noteq> ''k2''"
proof -
  let ?m = "matcher_match toy_digest ''n'' (toy_turns [''a'', ''b'']) 5 (matcher_invalidate ''k2'' toy_bound)"
  have "fst ?m \<noteq> None" by code_simp
  then have "?m = (Some (the (fst ?m)), snd ?m)" by (cases ?m) auto
  from invalidated_credential_not_matched [OF toy_reachable(2) _ this] show ?thesis by simp
qed

text \<open>The failure of an older request does not undo a newer binding: after a touch took the sequence over, removing it
  on behalf of a generation from before the touch answers False and leaves the binding, whichever credential failed.\<close>

theorem older_failure_spares_newer_binding:
  assumes "matcher_reachable digest s" "matcher_touch digest n q a now s = (True, s1)" "0 < generation" "generation \<le> mm_access s"
    and "remove_before digest n (lq_fingerprints q) b generation t s1 = (removed, s2)" "t < now + mm_ttl s"
  shows "\<not> removed \<and> (\<exists>g. get_group (n, sequence_key digest (take (mm_max_turns s) (lq_fingerprints q))) s2 = Some g \<and>
    gp_auth g = js_trim a \<and> gp_expires g = now + mm_ttl s)"
proof -
  let ?i = "(n, sequence_key digest (take (mm_max_turns s) (lq_fingerprints q)))"
  have ok: "matcher_ok digest s" by (rule matcher_reachable_ok [OF assms(1)])
  note mt = matcher_touch_ok [OF ok assms(2)]
  obtain g where g: "get_group ?i s1 = Some g" "gp_auth g = js_trim a" "gp_expires g = now + mm_ttl s" "gp_access g > mm_access s"
    using mt(3) unfolding touched_def by blast
  have turns: "mm_max_turns s1 = mm_max_turns s" using evolves_same(2) [OF mt(2)] .
  note rb = remove_before_ok [OF mt(1) assms(5), unfolded turns]
  have "\<not> removed" using rb(4) g(1,4) assms(3,4) by fastforce
  moreover from this have "get_group ?i s2 = Some g" using rb(3) g(1,3) assms(6) by simp
  ultimately show ?thesis using g by blast
qed

theorem older_failure_spares_newer_binding_witness:
  "\<not> fst (remove_before toy_digest ''n'' [''a'', ''b''] ''k1'' 1 20
       (snd (matcher_touch toy_digest ''n'' (toy_turns [''a'', ''b'']) ''k1'' 10 toy_bound))) \<and>
   (\<exists>g. get_group (''n'', sequence_key toy_digest (take (mm_max_turns toy_bound) (lq_fingerprints (toy_turns [''a'', ''b'']))))
       (snd (remove_before toy_digest ''n'' [''a'', ''b''] ''k1'' 1 20
         (snd (matcher_touch toy_digest ''n'' (toy_turns [''a'', ''b'']) ''k1'' 10 toy_bound)))) = Some g \<and>
     gp_auth g = js_trim ''k1'' \<and> gp_expires g = 10 + mm_ttl toy_bound)"
proof -
  let ?t = "matcher_touch toy_digest ''n'' (toy_turns [''a'', ''b'']) ''k1'' 10 toy_bound"
  let ?r = "remove_before toy_digest ''n'' (lq_fingerprints (toy_turns [''a'', ''b''])) ''k1'' 1 20 (snd ?t)"
  have "fst ?t" by code_simp
  then have t: "?t = (True, snd ?t)" by (cases ?t) auto
  have "(1::int) \<le> mm_access toy_bound" "(20::int) < 10 + mm_ttl toy_bound" by code_simp+
  from older_failure_spares_newer_binding [OF toy_reachable(2) t _ this(1) prod.collapse [symmetric] this(2)]
  show ?thesis by (simp add: toy_turns_def)
qed

subsection \<open>The matcher inside selection\<close>

lemma lcp_done_id: "wt_id c = cr_id (en_credential (ca_entry c)) \<Longrightarrow> picked_id (lcp_done c nm sq v) = Some (wt_id c)"
  by (simp add: lcp_done_def picked_id_def)

lemma pick_by_lcp_matched:
  assumes "available_candidates i = Inl available" "c \<in> set available"
    and "fst (mt_match matcher nm sq (si_now i) m) = Some v" "lm_auth_id v = wt_id c"
  shows "picked_id (fst (pick_by_lcp matcher i available nm sq m rt)) = Some (wt_id c)"
proof -
  obtain d where d: "find_candidate available (Some (wt_id c)) = Some d" "wt_id d = wt_id c"
    using find_candidate_some [OF assms(2)] by blast
  have "wt_id d = cr_id (en_credential (ca_entry d))"
    using available_ok [OF assms(1)] find_candidate_member [OF d(1)] by (simp add: candidate_ok_def)
  then show ?thesis
    using assms(3,4) d lcp_done_id by (cases "mt_match matcher nm sq (si_now i) m") (auto simp: pick_by_lcp_def)
qed



end
