(* ===== verification/Session_Table.thy ===== *)
theory Session_Table
  imports Prelude
begin

text \<open>
  The entry tables of a session state instance (\<open>packages/state/src/session-state\<close>): the operations of \<open>StateTable\<close>, the
  laws the engine relies on, and the two tables that provide them, the \<open>Map\<close> of \<open>engine.ts\<close> and the SQLite tables of
  \<open>sqlite-table.ts\<close> with their values cut into chunks.
\<close>

record state_row =
  sw_value :: string
  sw_generation :: int
  sw_expires :: ms

record 't state_table =
  tb_get :: "string \<Rightarrow> 't \<Rightarrow> state_row option"
  tb_put :: "string \<Rightarrow> state_row \<Rightarrow> 't \<Rightarrow> 't"
  tb_delete :: "string \<Rightarrow> 't \<Rightarrow> 't"
  tb_count :: "'t \<Rightarrow> int"
  tb_purge :: "ms \<Rightarrow> 't \<Rightarrow> 't"
  tb_evict :: "nat \<Rightarrow> 't \<Rightarrow> 't"
  tb_next :: "'t \<Rightarrow> ms option"
  tb_max :: "'t \<Rightarrow> int"

subsection \<open>Ranks\<close>

definition rank_in :: "('a \<Rightarrow> int) \<Rightarrow> 'a set \<Rightarrow> 'a \<Rightarrow> nat" where
  "rank_in g A x = card {y \<in> A. g y < g x}"

lemma rank_mono: "finite A \<Longrightarrow> x \<in> A \<Longrightarrow> g x < g y \<Longrightarrow> rank_in g A x < rank_in g A y"
  unfolding rank_in_def by (rule psubset_card_mono) auto

text \<open>Taking the \<open>n\<close> lowest of a finite set takes \<open>n\<close> of them, or all.\<close>

lemma card_lowest:
  assumes fin: "finite A" and inj: "inj_on g A"
  shows "card {x \<in> A. rank_in g A x < n} = min n (card A)"
proof -
  have "inj_on (rank_in g A) A"
  proof (rule inj_onI)
    fix x y assume xy: "x \<in> A" "y \<in> A" "rank_in g A x = rank_in g A y"
    then have "g x = g y" using rank_mono [OF fin xy(1), of g y] rank_mono [OF fin xy(2), of g x] by (cases "g x" "g y" rule: linorder_cases) auto
    then show "x = y" using inj xy by (simp add: inj_on_def)
  qed
  moreover have "rank_in g A ` A \<subseteq> {..<card A}"
  proof
    fix r assume "r \<in> rank_in g A ` A"
    then obtain x where x: "x \<in> A" "r = rank_in g A x" by blast
    have "{y \<in> A. g y < g x} \<subset> A" using x by auto
    then show "r \<in> {..<card A}" using x fin by (simp add: rank_in_def psubset_card_mono)
  qed
  ultimately have bij: "bij_betw (rank_in g A) A {..<card A}"
    unfolding bij_betw_def by (metis card_image card_lessThan card_subset_eq finite_lessThan)
  have img: "rank_in g A ` A = {..<card A}" and inj_rank: "inj_on (rank_in g A) A" using bij by (simp_all add: bij_betw_def)
  have "rank_in g A ` {x \<in> A. rank_in g A x < n} = {..<min n (card A)}"
  proof (rule set_eqI)
    fix r
    have "r \<in> rank_in g A ` {x \<in> A. rank_in g A x < n} \<longleftrightarrow> r \<in> rank_in g A ` A \<and> r < n" by blast
    then show "r \<in> rank_in g A ` {x \<in> A. rank_in g A x < n} \<longleftrightarrow> r \<in> {..<min n (card A)}" by (simp only: img) auto
  qed
  moreover have "inj_on (rank_in g A) {x \<in> A. rank_in g A x < n}" using inj_rank by (rule inj_on_subset) auto
  ultimately have "bij_betw (rank_in g A) {x \<in> A. rank_in g A x < n} {..<min n (card A)}" by (simp add: bij_betw_def)
  then show ?thesis using bij_betw_same_card by fastforce
qed

lemma take_sorted:
  assumes d: "distinct (map g xs)" and x: "x \<in> set xs"
  shows "x \<in> set (take n (sort_key g xs)) \<longleftrightarrow> rank_in g (set xs) x < n"
proof -
  let ?ys = "sort_key g xs"
  have dy: "distinct (map g ?ys)" using d by (simp add: distinct_map)
  have sorted: "sorted (map g ?ys)" by simp
  obtain i where i: "i < length ?ys" "?ys ! i = x" using x by (metis in_set_conv_nth set_sort)
  have less: "g (?ys ! j) < g (?ys ! k) \<longleftrightarrow> j < k" if "j < length ?ys" "k < length ?ys" for j k
  proof -
    have "sorted_wrt (<) (map g ?ys)" using sorted dy by (simp add: strict_sorted_iff)
    then have "j' < k' \<Longrightarrow> k' < length ?ys \<Longrightarrow> g (?ys ! j') < g (?ys ! k')" for j' k'
      using sorted_wrt_nth_less [of "(<)" "map g ?ys" j' k'] by simp
    from this [of j k] this [of k j] that show ?thesis by (cases j k rule: linorder_cases) auto
  qed
  have "{y \<in> set xs. g y < g x} = (!) ?ys ` {..<i}"
  proof (intro equalityI subsetI)
    fix y assume y: "y \<in> {y \<in> set xs. g y < g x}"
    then obtain j where j: "j < length ?ys" "?ys ! j = y" by (metis (no_types, lifting) in_set_conv_nth mem_Collect_eq set_sort)
    then have "j < i" using less [of j i] y i by simp
    then show "y \<in> (!) ?ys ` {..<i}" using j by blast
  next
    fix y assume "y \<in> (!) ?ys ` {..<i}"
    then obtain j where j: "j < i" "y = ?ys ! j" by blast
    then have "y \<in> set ?ys" using i(1) nth_mem [of j ?ys] by simp
    then show "y \<in> {y \<in> set xs. g y < g x}" using less [of j i] j i by simp
  qed
  moreover have "inj_on ((!) ?ys) {..<i}"
    using d i(1) by (intro inj_on_nth) (auto simp: distinct_map)
  ultimately have "rank_in g (set xs) x = i" by (simp add: rank_in_def card_image)
  moreover have "x \<in> set (take n ?ys) \<longleftrightarrow> i < n"
  proof
    assume "x \<in> set (take n ?ys)"
    then obtain j where "j < n" "j < length ?ys" "?ys ! j = x" by (auto simp: in_set_conv_nth)
    then show "i < n" using less [of i j] less [of j i] i by (cases i j rule: linorder_cases) auto
  next
    assume "i < n"
    then show "x \<in> set (take n ?ys)" using i by (auto simp: in_set_conv_nth)
  qed
  ultimately show ?thesis by simp
qed

subsection \<open>The interface\<close>

text \<open>
  A row may be put at a key when its generation is new, or when it is the row already there with another deadline: the
  SQLite table keeps the value of a row whose generation did not change.
\<close>

definition row_fits :: "(string \<Rightarrow> state_row option) \<Rightarrow> string \<Rightarrow> state_row \<Rightarrow> bool" where
  "row_fits look k r \<longleftrightarrow> (\<forall>k' r'. look k' = Some r' \<longrightarrow> sw_generation r' = sw_generation r \<longrightarrow> k' = k \<and> sw_value r' = sw_value r)"

definition older_keys :: "('v \<Rightarrow> int) \<Rightarrow> (string \<Rightarrow> 'v option) \<Rightarrow> int \<Rightarrow> string set" where
  "older_keys gen look g = {k. \<exists>r. look k = Some r \<and> gen r < g}"

abbreviation older_rows :: "(string \<Rightarrow> state_row option) \<Rightarrow> int \<Rightarrow> string set" where
  "older_rows \<equiv> older_keys sw_generation"

locale state_table_laws =
  fixes T :: "'t state_table"
    and ok :: "'t \<Rightarrow> bool"
  assumes get_put: "ok t \<Longrightarrow> row_fits (\<lambda>k. tb_get T k t) k r \<Longrightarrow> tb_get T k' (tb_put T k r t) = (if k' = k then Some r else tb_get T k' t)"
    and get_delete: "ok t \<Longrightarrow> tb_get T k' (tb_delete T k t) = (if k' = k then None else tb_get T k' t)"
    and get_purge: "ok t \<Longrightarrow> tb_get T k (tb_purge T now t) =
      (case tb_get T k t of None \<Rightarrow> None | Some r \<Rightarrow> if sw_expires r \<le> now then None else Some r)"
    and get_evict: "ok t \<Longrightarrow> tb_get T k (tb_evict T n t) =
      (case tb_get T k t of None \<Rightarrow> None
       | Some r \<Rightarrow> if card (older_rows (\<lambda>k. tb_get T k t) (sw_generation r)) < n then None else Some r)"
    and count: "ok t \<Longrightarrow> tb_count T t = int (card {k. tb_get T k t \<noteq> None})"
    and finite_keys: "ok t \<Longrightarrow> finite {k. tb_get T k t \<noteq> None}"
    and next_none: "ok t \<Longrightarrow> tb_next T t = None \<longleftrightarrow> (\<forall>k. tb_get T k t = None)"
    and next_min: "ok t \<Longrightarrow> tb_next T t = Some e \<Longrightarrow>
      (\<exists>k r. tb_get T k t = Some r \<and> sw_expires r = e) \<and> (\<forall>k r. tb_get T k t = Some r \<longrightarrow> e \<le> sw_expires r)"
    and max_bound: "ok t \<Longrightarrow> tb_get T k t = Some r \<Longrightarrow> sw_generation r \<le> tb_max T t"
    and max_least: "ok t \<Longrightarrow> 0 < tb_max T t \<Longrightarrow> \<exists>k r. tb_get T k t = Some r \<and> sw_generation r = tb_max T t"
    and max_nonneg: "ok t \<Longrightarrow> 0 \<le> tb_max T t"
    and one_generation: "ok t \<Longrightarrow> tb_get T k t = Some r \<Longrightarrow> tb_get T k' t = Some r' \<Longrightarrow> sw_generation r = sw_generation r' \<Longrightarrow> k = k'"
    and ok_put: "ok t \<Longrightarrow> row_fits (\<lambda>k. tb_get T k t) k r \<Longrightarrow> ok (tb_put T k r t)"
    and ok_delete: "ok t \<Longrightarrow> ok (tb_delete T k t)"
    and ok_purge: "ok t \<Longrightarrow> ok (tb_purge T now t)"
    and ok_evict: "ok t \<Longrightarrow> ok (tb_evict T n t)"
begin

text \<open>How many entries an operation leaves.\<close>

lemma count_put: "ok t \<Longrightarrow> row_fits (\<lambda>k. tb_get T k t) k r \<Longrightarrow>
  tb_count T (tb_put T k r t) = (if tb_get T k t = None then tb_count T t + 1 else tb_count T t)"
proof -
  assume ok: "ok t" "row_fits (\<lambda>k. tb_get T k t) k r"
  have "{k'. tb_get T k' (tb_put T k r t) \<noteq> None} = insert k {k'. tb_get T k' t \<noteq> None}" by (auto simp: get_put [OF ok])
  then show ?thesis
    using finite_keys [OF ok(1)] by (auto simp: count [OF ok_put [OF ok]] count [OF ok(1)] insert_absorb)
qed

definition row_keys :: "'t \<Rightarrow> string set" where
  "row_keys t = {k. tb_get T k t \<noteq> None}"

definition generation_of :: "'t \<Rightarrow> string \<Rightarrow> int" where
  "generation_of t k = sw_generation (the (tb_get T k t))"

lemma older_rank: "older_rows (\<lambda>k. tb_get T k t) (generation_of t k) = {k' \<in> row_keys t. generation_of t k' < generation_of t k}"
  by (auto simp: older_keys_def row_keys_def generation_of_def)

lemma evict_keys:
  assumes ok: "ok t"
  shows "row_keys (tb_evict T n t) = row_keys t - {k \<in> row_keys t. rank_in (generation_of t) (row_keys t) k < n}"
  unfolding rank_in_def older_rank [symmetric]
  by (auto simp: row_keys_def get_evict [OF ok] generation_of_def split: option.splits if_splits)

lemma generation_inj: "ok t \<Longrightarrow> inj_on (generation_of t) (row_keys t)"
  using one_generation by (auto simp: inj_on_def row_keys_def generation_of_def)

lemma count_evict:
  assumes ok: "ok t"
  shows "tb_count T (tb_evict T n t) = max 0 (tb_count T t - int n)"
proof -
  have fin: "finite (row_keys t)" using finite_keys [OF ok] by (simp add: row_keys_def)
  have "card (row_keys (tb_evict T n t)) = card (row_keys t) - min n (card (row_keys t))"
    unfolding evict_keys [OF ok] using fin by (subst card_Diff_subset) (auto simp: card_lowest [OF fin generation_inj [OF ok]])
  then show ?thesis using count [OF ok] count [OF ok_evict [OF ok]] by (simp add: row_keys_def)
qed

end

subsection \<open>The table in memory\<close>

definition gens_distinct :: "('v \<Rightarrow> int) \<Rightarrow> (string, 'v) js_map \<Rightarrow> bool" where
  "gens_distinct gen m \<longleftrightarrow> distinct_keys m \<and> distinct (map (gen \<circ> snd) m)"

abbreviation generations_distinct :: "(string, state_row) js_map \<Rightarrow> bool" where
  "generations_distinct \<equiv> gens_distinct sw_generation"

definition memory_evict :: "nat \<Rightarrow> (string, state_row) js_map \<Rightarrow> (string, state_row) js_map" where
  "memory_evict n m = foldl (\<lambda>m' (key, _). AList.delete key m') m (take n (sort_key (sw_generation \<circ> snd) m))"

definition earliest :: "ms list \<Rightarrow> ms option" where
  "earliest es = foldl (\<lambda>nxt e. case nxt of None \<Rightarrow> Some e | Some x \<Rightarrow> if e < x then Some e else nxt) None es"

definition highest :: "int list \<Rightarrow> int" where
  "highest gs = foldl (\<lambda>m g. if g > m then g else m) 0 gs"

definition memory_table :: "(string, state_row) js_map state_table" where
  "memory_table =
     \<lparr>tb_get = (\<lambda>key m. map_of m key), tb_put = AList.update, tb_delete = AList.delete, tb_count = (\<lambda>m. int (length m)),
      tb_purge = (\<lambda>now m. filter (\<lambda>(_, r). \<not> sw_expires r \<le> now) m), tb_evict = memory_evict,
      tb_next = (\<lambda>m. earliest (map (sw_expires \<circ> snd) m)), tb_max = (\<lambda>m. highest (map (sw_generation \<circ> snd) m))\<rparr>"

lemma earliest_fold:
  "foldl (\<lambda>nxt e. case nxt of None \<Rightarrow> Some e | Some x \<Rightarrow> if e < x then Some e else nxt) (Some a) es = Some (Min (insert a (set es)))"
  for a :: int
proof (induction es arbitrary: a)
  case (Cons e es)
  have "Min (insert a (insert e (set es))) = Min (insert (min a e) (set es))"
    by (cases "es = []") (auto simp: min_def)
  then show ?case using Cons by (auto simp: min_def)
qed simp

lemma earliest_min: "earliest es = (if es = [] then None else Some (Min (set es)))"
  by (cases es) (simp_all add: earliest_def earliest_fold)

lemma highest_fold: "foldl (\<lambda>m g. if g > m then g else m) a gs = Max (insert a (set gs))" for a :: int
proof (induction gs arbitrary: a)
  case (Cons g gs)
  have "Max (insert a (insert g (set gs))) = Max (insert (max a g) (set gs))"
    by (cases "gs = []") (auto simp: max_def)
  then show ?case using Cons by (auto simp: max_def)
qed simp

lemma highest_max: "highest gs = Max (insert 0 (set gs))"
  by (simp add: highest_def highest_fold)

lemma rank_older:
  assumes m: "distinct_keys m"
  shows "rank_in (gen \<circ> snd) (set m) (k, r) = card (older_keys gen (map_of m) (gen r))"
proof -
  have "bij_betw fst {p \<in> set m. (gen \<circ> snd) p < (gen \<circ> snd) (k, r)} (older_keys gen (map_of m) (gen r))"
    unfolding bij_betw_def
  proof
    show "inj_on fst {p \<in> set m. (gen \<circ> snd) p < (gen \<circ> snd) (k, r)}"
      using m unfolding distinct_keys_def distinct_map by (auto elim: inj_on_subset)
    show "fst ` {p \<in> set m. (gen \<circ> snd) p < (gen \<circ> snd) (k, r)} = older_keys gen (map_of m) (gen r)"
      using map_of_SomeI [OF m] map_of_SomeD by (force simp: older_keys_def)
  qed
  then show ?thesis unfolding rank_in_def by (rule bij_betw_same_card)
qed

text \<open>The keys of the \<open>n\<close> rows written longest ago: what an eviction removes, in either table.\<close>

lemma oldest_keys:
  assumes "gens_distinct gen m"
  shows "k \<in> fst ` set (take n (sort_key (gen \<circ> snd) m)) \<longleftrightarrow>
    (case map_of m k of None \<Rightarrow> False | Some r \<Rightarrow> card (older_keys gen (map_of m) (gen r)) < n)"
proof -
  have d: "distinct_keys m" "distinct (map (gen \<circ> snd) m)" using assms by (simp_all add: gens_distinct_def)
  have sub: "set (take n (sort_key (gen \<circ> snd) m)) \<subseteq> set m" using set_take_subset by fastforce
  show ?thesis
  proof (cases "map_of m k")
    case None
    then have "k \<notin> fst ` set m" by (simp add: map_of_eq_None_iff)
    then show ?thesis using sub None by auto
  next
    case (Some r)
    then have mem: "(k, r) \<in> set m" by (rule map_of_SomeD)
    have one: "r' = r" if "(k, r') \<in> set m" for r' using map_of_SomeI [OF d(1) that] Some by simp
    have "k \<in> fst ` set (take n (sort_key (gen \<circ> snd) m)) \<longleftrightarrow> (k, r) \<in> set (take n (sort_key (gen \<circ> snd) m))"
    proof
      assume "k \<in> fst ` set (take n (sort_key (gen \<circ> snd) m))"
      then obtain r' where r': "(k, r') \<in> set (take n (sort_key (gen \<circ> snd) m))" by auto
      then have "r' = r" using sub one by blast
      then show "(k, r) \<in> set (take n (sort_key (gen \<circ> snd) m))" using r' by simp
    qed (rule image_eqI [of _ fst "(k, r)"], simp)
    then show ?thesis using take_sorted [OF d(2) mem] rank_older [OF d(1)] Some by simp
  qed
qed

lemma map_of_delete_all:
  "map_of (foldl (\<lambda>m' (key, _). AList.delete key m') m ps) k = (if k \<in> fst ` set ps then None else map_of m k)"
  by (induction ps arbitrary: m) (auto simp: delete_conv' split: prod.splits)

lemma delete_all_filter: "foldl (\<lambda>m' (key, _). AList.delete key m') m ps = filter (\<lambda>p. fst p \<notin> fst ` set ps) m"
proof (induction ps arbitrary: m)
  case (Cons p ps)
  have "filter (\<lambda>q. fst q \<notin> fst ` set ps) (AList.delete (fst p) m) = filter (\<lambda>q. fst q \<notin> fst ` set (p # ps)) m"
    unfolding AList.delete_eq filter_filter by (rule filter_cong) auto
  then show ?case using Cons by (simp add: split_def)
qed simp

lemma gens_filter: "gens_distinct gen m \<Longrightarrow> gens_distinct gen (filter P m)"
  by (simp add: gens_distinct_def distinct_map_filter)

lemma gens_delete: "gens_distinct gen m \<Longrightarrow> gens_distinct gen (AList.delete k m)"
  unfolding AList.delete_eq by (rule gens_filter)

lemma gens_update:
  assumes ok: "gens_distinct gen m" and fits: "\<And>k' r'. map_of m k' = Some r' \<Longrightarrow> gen r' = gen r \<Longrightarrow> k' = k"
  shows "gens_distinct gen (AList.update k r m)"
proof -
  have d: "distinct_keys (AList.update k r m)" using ok by (simp add: gens_distinct_def)
  have "inj_on (gen \<circ> snd) (set (AList.update k r m))"
  proof (rule inj_onI)
    fix p q assume pq: "p \<in> set (AList.update k r m)" "q \<in> set (AList.update k r m)"
      "(gen \<circ> snd) p = (gen \<circ> snd) q"
    have look: "map_of (AList.update k r m) (fst x) = Some (snd x)" if "x \<in> set (AList.update k r m)" for x
      using map_of_SomeI [OF d] that by simp
    have old: "p' = q'" if "p' \<in> set m" "q' \<in> set m" "gen (snd p') = gen (snd q')" for p' q'
      using ok that by (auto simp: gens_distinct_def distinct_map inj_on_def)
    have "fst p = fst q"
    proof (cases "fst p = k \<or> fst q = k")
      case True
      then show ?thesis
        using look [OF pq(1)] look [OF pq(2)] pq(3) fits by (auto simp: update_conv' split: if_splits)
    next
      case False
      then have "(fst p, snd p) \<in> set m" "(fst q, snd q) \<in> set m"
        using look [OF pq(1)] look [OF pq(2)] by (auto simp: update_conv' dest: map_of_SomeD)
      then show ?thesis using old pq(3) by fastforce
    qed
    then show "p = q" using look [OF pq(1)] look [OF pq(2)] by (simp add: prod_eq_iff)
  qed
  then show ?thesis using d by (simp add: gens_distinct_def distinct_map distinct_keys_def)
qed

lemma keys_card: "distinct_keys m \<Longrightarrow> card {k. map_of m k \<noteq> None} = length m"
  using js.size_dom [of m] by (simp add: dom_def)

interpretation memory: state_table_laws memory_table generations_distinct
proof
  fix m :: "(string, state_row) js_map" and k k' :: string and r r' :: state_row and now e :: ms and n :: nat
  assume ok: "generations_distinct m"
  then have d: "distinct_keys m" by (simp add: gens_distinct_def)
  have mem: "map_of m k = Some r \<longleftrightarrow> (k, r) \<in> set m" for k r using map_of_SomeI [OF d] map_of_SomeD by metis
  show "tb_get memory_table k' (tb_put memory_table k r m) = (if k' = k then Some r else tb_get memory_table k' m)"
    by (simp add: memory_table_def update_conv')
  show "tb_get memory_table k' (tb_delete memory_table k m) = (if k' = k then None else tb_get memory_table k' m)"
    by (simp add: memory_table_def delete_conv')
  show "tb_get memory_table k (tb_purge memory_table now m) =
      (case tb_get memory_table k m of None \<Rightarrow> None | Some r \<Rightarrow> if sw_expires r \<le> now then None else Some r)"
    by (simp add: memory_table_def map_of_filter_distinct [OF d] split: option.split)
  show "tb_get memory_table k (tb_evict memory_table n m) =
      (case tb_get memory_table k m of None \<Rightarrow> None
       | Some r \<Rightarrow> if card (older_rows (\<lambda>k. tb_get memory_table k m) (sw_generation r)) < n then None else Some r)"
    by (simp add: memory_table_def memory_evict_def map_of_delete_all oldest_keys [OF ok] split: option.split)
  show "tb_count memory_table m = int (card {k. tb_get memory_table k m \<noteq> None})"
    using keys_card [OF d] by (simp add: memory_table_def)
  show "finite {k. tb_get memory_table k m \<noteq> None}" using js.finite_dom [OF d] by (simp add: memory_table_def dom_def)
  show "(tb_next memory_table m = None) = (\<forall>k. tb_get memory_table k m = None)"
    by (cases m) (auto simp: memory_table_def earliest_min)
  show "(\<exists>k r. tb_get memory_table k m = Some r \<and> sw_expires r = e) \<and> (\<forall>k r. tb_get memory_table k m = Some r \<longrightarrow> e \<le> sw_expires r)"
    if nx: "tb_next memory_table m = Some e"
  proof -
    let ?E = "set (map (sw_expires \<circ> snd) m)"
    have "m \<noteq> []" "e = Min ?E" using nx by (auto simp: memory_table_def earliest_min split: if_splits)
    then have "e \<in> ?E" "\<forall>x \<in> ?E. e \<le> x" by (simp_all add: Min_in)
    then show ?thesis by (auto simp: memory_table_def mem) force
  qed
  show "sw_generation r \<le> tb_max memory_table m" if "tb_get memory_table k m = Some r"
    using that by (force simp: memory_table_def highest_max mem intro: Max_ge)
  show "\<exists>k r. tb_get memory_table k m = Some r \<and> sw_generation r = tb_max memory_table m" if "0 < tb_max memory_table m"
  proof -
    have "tb_max memory_table m \<in> insert 0 (set (map (sw_generation \<circ> snd) m))"
      using Max_in [of "insert 0 (set (map (sw_generation \<circ> snd) m))"] by (simp add: memory_table_def highest_max)
    then show ?thesis using that by (force simp: memory_table_def mem)
  qed
  show "0 \<le> tb_max memory_table m" by (simp add: memory_table_def highest_max)
  show "k = k'" if "tb_get memory_table k m = Some r" "tb_get memory_table k' m = Some r'" "sw_generation r = sw_generation r'"
  proof -
    have "inj_on (sw_generation \<circ> snd) (set m)" using ok by (simp add: gens_distinct_def distinct_map)
    then have "(k, r) = (k', r')" using that unfolding inj_on_def by (fastforce simp: memory_table_def mem)
    then show ?thesis by simp
  qed
  show "generations_distinct (tb_put memory_table k r m)" if "row_fits (\<lambda>k. tb_get memory_table k m) k r"
    using gens_update [OF ok] that by (auto simp: memory_table_def row_fits_def)
  show "generations_distinct (tb_delete memory_table k m)" using gens_delete [OF ok] by (simp add: memory_table_def)
  show "generations_distinct (tb_purge memory_table now m)" using gens_filter [OF ok] by (simp add: memory_table_def)
  show "generations_distinct (tb_evict memory_table n m)"
    using gens_filter [OF ok] by (simp add: memory_table_def memory_evict_def delete_all_filter)
qed

end
