(* ===== verification/Session_Sqlite.thy ===== *)
theory Session_Sqlite
  imports Session_Table
begin

text \<open>
  The SQLite tables of a session state instance (\<open>sqlite-table.ts\<close>): one row per entry, and its value in chunk rows of at
  most 256 Ki units. They provide the same interface as the table in memory.
\<close>

record entry_row =
  er_generation :: int
  er_expires :: ms
  er_chunks :: nat

record sqlite_state =
  sq_entries :: "(string, entry_row) js_map"
  sq_chunks :: "(string \<times> nat \<times> string) list"

definition chunk_units :: nat where "chunk_units = 256 * 1024"

text \<open>The pieces a value is stored in: one for the empty value too.\<close>

function split_units :: "nat \<Rightarrow> string \<Rightarrow> string list" where
  "split_units n v = (if n = 0 \<or> length v \<le> n then [v] else take n v # split_units n (drop n v))"
  by pat_completeness auto
termination
  by (relation "measure (\<lambda>(n, v). length v)") auto

declare split_units.simps [simp del]

lemma concat_split_units: "concat (split_units n v) = v"
proof (induction n v rule: split_units.induct)
  case (1 n v)
  then show ?case by (subst split_units.simps) auto
qed

definition chunk_rows :: "string \<Rightarrow> sqlite_state \<Rightarrow> (nat \<times> string) list" where
  "chunk_rows key s = map snd (filter (\<lambda>(k, _). k = key) (sq_chunks s))"

definition sqlite_get :: "string \<Rightarrow> sqlite_state \<Rightarrow> state_row option" where
  "sqlite_get key s =
     (case map_of (sq_entries s) key of
        None \<Rightarrow> None
      | Some e \<Rightarrow> Some \<lparr>sw_value = concat (map snd (sort_key fst (chunk_rows key s))), sw_generation = er_generation e,
                   sw_expires = er_expires e\<rparr>)"

text \<open>The new row of an entry, its old chunks replaced by those of the new value.\<close>

definition sqlite_write :: "string \<Rightarrow> state_row \<Rightarrow> sqlite_state \<Rightarrow> sqlite_state" where
  "sqlite_write key r s =
     (let pieces = split_units chunk_units (sw_value r)
      in \<lparr>sq_entries = AList.update key \<lparr>er_generation = sw_generation r, er_expires = sw_expires r, er_chunks = length pieces\<rparr> (sq_entries s),
          sq_chunks = filter (\<lambda>(k, _). k \<noteq> key) (sq_chunks s) @ map (\<lambda>(n, d). (key, n, d)) (zip [0..<length pieces] pieces)\<rparr>)"

definition sqlite_put :: "string \<Rightarrow> state_row \<Rightarrow> sqlite_state \<Rightarrow> sqlite_state" where
  "sqlite_put key r s =
     (case map_of (sq_entries s) key of
        None \<Rightarrow> sqlite_write key r s
      | Some e \<Rightarrow> if er_generation e \<noteq> sw_generation r then sqlite_write key r s
                  else s\<lparr>sq_entries := AList.update key (e\<lparr>er_expires := sw_expires r\<rparr>) (sq_entries s)\<rparr>)"

definition sqlite_drop :: "(string \<Rightarrow> bool) \<Rightarrow> sqlite_state \<Rightarrow> sqlite_state" where
  "sqlite_drop gone s =
     \<lparr>sq_entries = filter (\<lambda>(k, _). \<not> gone k) (sq_entries s), sq_chunks = filter (\<lambda>(k, _). \<not> gone k) (sq_chunks s)\<rparr>"

definition sqlite_delete :: "string \<Rightarrow> sqlite_state \<Rightarrow> sqlite_state" where
  "sqlite_delete key s = sqlite_drop (\<lambda>k. k = key) s"

definition sqlite_purge :: "ms \<Rightarrow> sqlite_state \<Rightarrow> sqlite_state" where
  "sqlite_purge now s = sqlite_drop (\<lambda>k. k \<in> set (map fst (filter (\<lambda>(_, e). er_expires e \<le> now) (sq_entries s)))) s"

definition sqlite_evict :: "nat \<Rightarrow> sqlite_state \<Rightarrow> sqlite_state" where
  "sqlite_evict n s = sqlite_drop (\<lambda>k. k \<in> set (map fst (take n (sort_key (er_generation \<circ> snd) (sq_entries s))))) s"

definition sqlite_table :: "sqlite_state state_table" where
  "sqlite_table =
     \<lparr>tb_get = sqlite_get, tb_put = sqlite_put, tb_delete = sqlite_delete, tb_count = (\<lambda>s. int (length (sq_entries s))),
      tb_purge = sqlite_purge, tb_evict = sqlite_evict, tb_next = (\<lambda>s. earliest (map (er_expires \<circ> snd) (sq_entries s))),
      tb_max = (\<lambda>s. highest (map (er_generation \<circ> snd) (sq_entries s)))\<rparr>"

text \<open>
  Well-formed tables: the keys and generations of the entries are distinct, and the chunks of a key are numbered from 0
  up to the number its entry holds, so there are no chunks of a key that has no entry.
\<close>

definition chunk_count :: "string \<Rightarrow> sqlite_state \<Rightarrow> nat" where
  "chunk_count key s = (case map_of (sq_entries s) key of None \<Rightarrow> 0 | Some e \<Rightarrow> er_chunks e)"

definition sqlite_ok :: "sqlite_state \<Rightarrow> bool" where
  "sqlite_ok s \<longleftrightarrow> gens_distinct er_generation (sq_entries s) \<and> (\<forall>k. map fst (chunk_rows k s) = [0..<chunk_count k s])"

subsection \<open>The laws\<close>

lemma chunk_rows_drop: "chunk_rows k (sqlite_drop gone s) = (if gone k then [] else chunk_rows k s)"
proof -
  have "filter (\<lambda>(k', _). k' = k) (filter (\<lambda>(k', _). \<not> gone k') cs) = (if gone k then [] else filter (\<lambda>(k', _). k' = k) cs)"
    for cs :: "(string \<times> nat \<times> string) list" by (induction cs) auto
  then show ?thesis by (simp add: chunk_rows_def sqlite_drop_def)
qed

lemma map_of_drop: "map_of (sq_entries (sqlite_drop gone s)) k = (if gone k then None else map_of (sq_entries s) k)"
proof -
  have "map_of (filter (\<lambda>(k, _). \<not> gone k) m) k = (if gone k then None else map_of m k)" for m :: "(string, entry_row) js_map"
    by (induction m) auto
  then show ?thesis by (simp add: sqlite_drop_def)
qed

lemma get_drop: "sqlite_get k (sqlite_drop gone s) = (if gone k then None else sqlite_get k s)"
  by (simp add: sqlite_get_def map_of_drop chunk_rows_drop split: option.split)

lemma ok_drop: "sqlite_ok s \<Longrightarrow> sqlite_ok (sqlite_drop gone s)"
  by (auto simp: sqlite_ok_def chunk_rows_drop chunk_count_def map_of_drop)
    (simp add: sqlite_drop_def gens_filter)

lemma chunk_rows_written:
  "chunk_rows k (sqlite_write key r s) =
    (if k = key then zip [0..<length (split_units chunk_units (sw_value r))] (split_units chunk_units (sw_value r)) else chunk_rows k s)"
proof -
  have "filter (\<lambda>(k', _). k' = k) (map (\<lambda>(n, d). (key, n, d)) xs) = (if k = key then map (\<lambda>(n, d). (key, n, d)) xs else [])"
    for xs :: "(nat \<times> string) list" by (induction xs) auto
  moreover have "filter (\<lambda>(k', _). k' = k) (filter (\<lambda>(k', _). k' \<noteq> key) cs) = (if k = key then [] else filter (\<lambda>(k', _). k' = k) cs)"
    for cs :: "(string \<times> nat \<times> string) list" by (induction cs) auto
  moreover have "map snd (map (\<lambda>(n, d). (key, n, d)) xs) = xs" for xs :: "(nat \<times> string) list" by (induction xs) auto
  ultimately show ?thesis by (simp add: chunk_rows_def sqlite_write_def Let_def)
qed

lemma entries_written:
  "sq_entries (sqlite_write key r s) = AList.update key
     \<lparr>er_generation = sw_generation r, er_expires = sw_expires r, er_chunks = length (split_units chunk_units (sw_value r))\<rparr> (sq_entries s)"
  by (simp add: sqlite_write_def Let_def)

lemma get_written: "sqlite_get k (sqlite_write key r s) = (if k = key then Some r else sqlite_get k s)"
proof -
  have "sort_key fst xs = xs" if "sorted (map fst xs)" for xs :: "(nat \<times> string) list"
    using that by (induction xs) (auto simp: insort_is_Cons)
  then have "sort_key fst (zip [0..<length xs] xs) = zip [0..<length xs] xs" for xs :: "string list" by simp
  then have "k = key \<Longrightarrow> sqlite_get k (sqlite_write key r s) = Some r"
    by (simp add: sqlite_get_def chunk_rows_written concat_split_units entries_written update_conv')
  moreover have "k \<noteq> key \<Longrightarrow> sqlite_get k (sqlite_write key r s) = sqlite_get k s"
    by (simp add: sqlite_get_def chunk_rows_written entries_written update_conv' split: option.split)
  ultimately show ?thesis by simp
qed

lemma ok_written:
  assumes ok: "sqlite_ok s"
    and fits: "\<And>k e. map_of (sq_entries s) k = Some e \<Longrightarrow> er_generation e = sw_generation r \<Longrightarrow> k = key"
  shows "sqlite_ok (sqlite_write key r s)"
proof -
  let ?e = "\<lparr>er_generation = sw_generation r, er_expires = sw_expires r, er_chunks = length (split_units chunk_units (sw_value r))\<rparr>"
  note entries = entries_written [of key r s]
  have "gens_distinct er_generation (AList.update key ?e (sq_entries s))"
    using ok fits by (intro gens_update) (auto simp: sqlite_ok_def)
  moreover have "map fst (chunk_rows k (sqlite_write key r s)) = [0..<chunk_count k (sqlite_write key r s)]" for k
    using ok by (simp add: sqlite_ok_def chunk_rows_written chunk_count_def entries update_conv')
  ultimately show ?thesis by (simp add: sqlite_ok_def entries)
qed

lemma sqlite_get_entry: "sqlite_get k s = Some r \<Longrightarrow>
  \<exists>e. map_of (sq_entries s) k = Some e \<and> er_generation e = sw_generation r \<and> er_expires e = sw_expires r"
  by (auto simp: sqlite_get_def split: option.splits)

lemma sqlite_entry_get: "map_of (sq_entries s) k = Some e \<Longrightarrow>
  \<exists>r. sqlite_get k s = Some r \<and> er_generation e = sw_generation r \<and> er_expires e = sw_expires r"
  by (simp add: sqlite_get_def)

lemma sqlite_get_None: "sqlite_get k s = None \<longleftrightarrow> map_of (sq_entries s) k = None"
  by (simp add: sqlite_get_def split: option.split)

lemma sqlite_put_ok:
  assumes ok: "sqlite_ok s" and fits: "row_fits (\<lambda>k. sqlite_get k s) key r"
  shows "sqlite_get k (sqlite_put key r s) = (if k = key then Some r else sqlite_get k s)" "sqlite_ok (sqlite_put key r s)"
proof -
  have one: "k = key" if "map_of (sq_entries s) k = Some e" "er_generation e = sw_generation r" for k e
    using sqlite_entry_get [OF that(1)] that(2) fits by (auto simp: row_fits_def)
  have "sqlite_get k (sqlite_put key r s) = (if k = key then Some r else sqlite_get k s) \<and> sqlite_ok (sqlite_put key r s)" for k
  proof (cases "\<exists>e. map_of (sq_entries s) key = Some e \<and> er_generation e = sw_generation r")
    case False
    then have "sqlite_put key r s = sqlite_write key r s" by (auto simp: sqlite_put_def split: option.split)
    then show ?thesis using ok_written [OF ok one] get_written by simp
  next
    case True
    then obtain e where e: "map_of (sq_entries s) key = Some e" "er_generation e = sw_generation r" by blast
    let ?s = "s\<lparr>sq_entries := AList.update key (e\<lparr>er_expires := sw_expires r\<rparr>) (sq_entries s)\<rparr>"
    have put: "sqlite_put key r s = ?s" using e by (simp add: sqlite_put_def)
    have rows: "chunk_rows k ?s = chunk_rows k s" for k by (simp add: chunk_rows_def)
    obtain r' where r': "sqlite_get key s = Some r'" "sw_generation r' = sw_generation r" using sqlite_entry_get [OF e(1)] e(2) by auto
    then have "sw_value r' = sw_value r" using fits by (auto simp: row_fits_def)
    then have "sqlite_get key ?s = Some r" using r' e by (auto simp: sqlite_get_def rows update_conv')
    moreover have "k \<noteq> key \<Longrightarrow> sqlite_get k ?s = sqlite_get k s" by (simp add: sqlite_get_def rows update_conv' split: option.split)
    moreover have "sqlite_ok ?s"
    proof -
      have "gens_distinct er_generation (AList.update key (e\<lparr>er_expires := sw_expires r\<rparr>) (sq_entries s))"
        using ok one e by (intro gens_update) (auto simp: sqlite_ok_def)
      then show ?thesis using ok e by (auto simp: sqlite_ok_def rows chunk_count_def update_conv')
    qed
    ultimately show ?thesis by (simp add: put)
  qed
  then show "sqlite_get k (sqlite_put key r s) = (if k = key then Some r else sqlite_get k s)" "sqlite_ok (sqlite_put key r s)" by auto
qed

lemma older_sqlite: "older_keys er_generation (map_of (sq_entries s)) g = older_rows (\<lambda>k. sqlite_get k s) g"
  unfolding older_keys_def using sqlite_get_entry sqlite_entry_get by fastforce

interpretation sqlite: state_table_laws sqlite_table sqlite_ok
proof
  fix s :: sqlite_state and k k' :: string and r r' :: state_row and now e :: ms and n :: nat
  assume ok: "sqlite_ok s"
  then have g: "gens_distinct er_generation (sq_entries s)" and d: "distinct_keys (sq_entries s)"
    by (simp_all add: sqlite_ok_def gens_distinct_def)
  have mem: "map_of (sq_entries s) k = Some x \<longleftrightarrow> (k, x) \<in> set (sq_entries s)" for k x using map_of_SomeI [OF d] map_of_SomeD by metis
  have look: "tb_get sqlite_table = sqlite_get" by (simp add: sqlite_table_def)
  show "tb_get sqlite_table k' (tb_put sqlite_table k r s) = (if k' = k then Some r else tb_get sqlite_table k' s)"
    "sqlite_ok (tb_put sqlite_table k r s)" if "row_fits (\<lambda>k. tb_get sqlite_table k s) k r"
    using sqlite_put_ok [OF ok, of k r] that by (simp_all add: sqlite_table_def)
  show "tb_get sqlite_table k' (tb_delete sqlite_table k s) = (if k' = k then None else tb_get sqlite_table k' s)"
    by (simp add: sqlite_table_def sqlite_delete_def get_drop)
  have "k \<in> set (map fst (filter (\<lambda>(_, e). er_expires e \<le> now) (sq_entries s))) \<longleftrightarrow>
      (\<exists>r. sqlite_get k s = Some r \<and> sw_expires r \<le> now)"
  proof -
    have "k \<in> set (map fst (filter (\<lambda>(_, e). er_expires e \<le> now) (sq_entries s))) \<longleftrightarrow>
        (\<exists>e. map_of (sq_entries s) k = Some e \<and> er_expires e \<le> now)" by (force simp: mem)
    then show ?thesis using sqlite_get_entry sqlite_entry_get by metis
  qed
  then show "tb_get sqlite_table k (tb_purge sqlite_table now s) =
      (case tb_get sqlite_table k s of None \<Rightarrow> None | Some r \<Rightarrow> if sw_expires r \<le> now then None else Some r)"
    by (auto simp: sqlite_table_def sqlite_purge_def get_drop split: option.split)
  have "k \<in> set (map fst (take n (sort_key (er_generation \<circ> snd) (sq_entries s)))) \<longleftrightarrow>
      (\<exists>r. sqlite_get k s = Some r \<and> card (older_rows (\<lambda>k. sqlite_get k s) (sw_generation r)) < n)"
    unfolding set_map oldest_keys [OF g] older_sqlite using sqlite_entry_get [of s k] sqlite_get_entry [of k s]
    by (auto split: option.splits)
  then show "tb_get sqlite_table k (tb_evict sqlite_table n s) =
      (case tb_get sqlite_table k s of None \<Rightarrow> None
       | Some r \<Rightarrow> if card (older_rows (\<lambda>k. tb_get sqlite_table k s) (sw_generation r)) < n then None else Some r)"
    by (auto simp: sqlite_table_def sqlite_evict_def get_drop split: option.split)
  show "tb_count sqlite_table s = int (card {k. tb_get sqlite_table k s \<noteq> None})"
    using keys_card [OF d] by (simp add: sqlite_table_def sqlite_get_None)
  show "finite {k. tb_get sqlite_table k s \<noteq> None}" using js.finite_dom [OF d] by (simp add: sqlite_table_def sqlite_get_None dom_def)
  show "(tb_next sqlite_table s = None) = (\<forall>k. tb_get sqlite_table k s = None)"
    by (cases "sq_entries s") (auto simp: sqlite_table_def earliest_min sqlite_get_None)
  show "(\<exists>k r. tb_get sqlite_table k s = Some r \<and> sw_expires r = e) \<and> (\<forall>k r. tb_get sqlite_table k s = Some r \<longrightarrow> e \<le> sw_expires r)"
    if nx: "tb_next sqlite_table s = Some e"
  proof -
    let ?E = "set (map (er_expires \<circ> snd) (sq_entries s))"
    have "sq_entries s \<noteq> []" "e = Min ?E" using nx by (auto simp: sqlite_table_def earliest_min split: if_splits)
    then have E: "e \<in> ?E" "\<forall>x \<in> ?E. e \<le> x" by (simp_all add: Min_in)
    then obtain k x where "(k, x) \<in> set (sq_entries s)" "er_expires x = e" by auto
    then have "\<exists>k r. sqlite_get k s = Some r \<and> sw_expires r = e" using sqlite_entry_get mem by metis
    moreover have "e \<le> sw_expires r" if "sqlite_get k s = Some r" for k r
      using sqlite_get_entry [OF that] E(2) mem by force
    ultimately show ?thesis by (simp add: look)
  qed
  show "sw_generation r \<le> tb_max sqlite_table s" if "tb_get sqlite_table k s = Some r"
    using sqlite_get_entry [of k s r] that by (force simp: sqlite_table_def highest_max mem intro: Max_ge)
  show "\<exists>k r. tb_get sqlite_table k s = Some r \<and> sw_generation r = tb_max sqlite_table s" if pos: "0 < tb_max sqlite_table s"
  proof -
    have "tb_max sqlite_table s \<in> insert 0 (set (map (er_generation \<circ> snd) (sq_entries s)))"
      using Max_in [of "insert 0 (set (map (er_generation \<circ> snd) (sq_entries s)))"] by (simp add: sqlite_table_def highest_max)
    then obtain k x where "(k, x) \<in> set (sq_entries s)" "er_generation x = tb_max sqlite_table s" using pos by auto
    then show ?thesis using sqlite_entry_get mem unfolding look by metis
  qed
  show "0 \<le> tb_max sqlite_table s" by (simp add: sqlite_table_def highest_max)
  show "k = k'" if same: "tb_get sqlite_table k s = Some r" "tb_get sqlite_table k' s = Some r'" "sw_generation r = sw_generation r'"
  proof -
    obtain e e' where e: "(k, e) \<in> set (sq_entries s)" "(k', e') \<in> set (sq_entries s)" "er_generation e = er_generation e'"
      using sqlite_get_entry same mem unfolding look by metis
    have "inj_on (er_generation \<circ> snd) (set (sq_entries s))" using g by (simp add: gens_distinct_def distinct_map)
    then have "(k, e) = (k', e')" using e unfolding inj_on_def by fastforce
    then show ?thesis by simp
  qed
  show "sqlite_ok (tb_delete sqlite_table k s)" using ok_drop [OF ok] by (simp add: sqlite_table_def sqlite_delete_def)
  show "sqlite_ok (tb_purge sqlite_table now s)" using ok_drop [OF ok] by (simp add: sqlite_table_def sqlite_purge_def)
  show "sqlite_ok (tb_evict sqlite_table n s)" using ok_drop [OF ok] by (simp add: sqlite_table_def sqlite_evict_def)
qed

end
