(* ===== verification/Session_Engine.thy ===== *)
theory Session_Engine
  imports Session_Sqlite
begin

text \<open>
  The session state engine (\<open>packages/state/src/session-state/engine.ts\<close>, with the operations of \<open>protocol.ts\<close>): expiry,
  compare-and-swap generations and the entry bound, over any table that keeps the laws of \<open>state_table_laws\<close>. Times to
  live and bounds are integers; the clock is an argument.
\<close>

datatype state_op =
    GetOp string "ms option"
  | PutOp string string ms "int option" "int option"
  | IncrOp string ms "int option"
  | DeleteOp string "int option"

datatype rejection = TooLarge | Invalid

datatype state_result = OkResult int "string option" | ConflictResult int "string option" | RejectedResult rejection

record 't engine =
  en_table :: 't
  en_last :: int

definition default_max_entries :: int where "default_max_entries = 256"
definition min_ttl_ms :: ms where "min_ttl_ms = 1000"
definition max_ttl_ms :: ms where "max_ttl_ms = 7 * 24 * 3600000"
definition max_value_chars :: int where "max_value_chars = 20 * 1024 * 1024"

fun op_key :: "state_op \<Rightarrow> string" where
  "op_key (GetOp k _) = k"
| "op_key (PutOp k _ _ _ _) = k"
| "op_key (IncrOp k _ _) = k"
| "op_key (DeleteOp k _) = k"

definition clamp_ttl :: "ms \<Rightarrow> ms" where
  "clamp_ttl ttl = min max_ttl_ms (max min_ttl_ms ttl)"

definition new_engine :: "'t state_table \<Rightarrow> 't \<Rightarrow> 't engine" where
  "new_engine T t = \<lparr>en_table = t, en_last = tb_max T t\<rparr>"

definition next_generation :: "ms \<Rightarrow> 't engine \<Rightarrow> int \<times> 't engine" where
  "next_generation now e = (let g = max (en_last e + 1) now in (g, e\<lparr>en_last := g\<rparr>))"

definition live_row :: "'t state_table \<Rightarrow> string \<Rightarrow> ms \<Rightarrow> 't engine \<Rightarrow> state_row option \<times> 't engine" where
  "live_row T key now e =
     (case tb_get T key (en_table e) of
        None \<Rightarrow> (None, e)
      | Some r \<Rightarrow> if sw_expires r \<le> now then (None, e\<lparr>en_table := tb_delete T key (en_table e)\<rparr>) else (Some r, e))"

definition enforce_bound :: "'t state_table \<Rightarrow> int \<Rightarrow> ms \<Rightarrow> 't \<Rightarrow> 't" where
  "enforce_bound T max_entries now t =
     (let limit = max 1 max_entries in
      if tb_count T t \<le> limit then t
      else (let t1 = tb_purge T now t; overflow = tb_count T t1 - limit
            in if overflow > 0 then tb_evict T (nat overflow) t1 else t1))"

text \<open>\<open>Number.parseInt(s, 10)\<close>, \<open>None\<close> for NaN.\<close>

definition parse_int :: "string \<Rightarrow> int option" where
  "parse_int s =
     (let t = dropWhile is_ws s;
          (negative, u) = (case t of [] \<Rightarrow> (False, []) | c # cs \<Rightarrow> if c = CHR ''-'' then (True, cs) else if c = CHR ''+'' then (False, cs) else (False, t));
          ds = takeWhile is_digit u
      in if ds = [] then None else Some (if negative then - digits_val ds else digits_val ds))"

definition counted :: "string option \<Rightarrow> int" where
  "counted v =
     (case parse_int (case v of None \<Rightarrow> ''0'' | Some s \<Rightarrow> s) of
        Some n \<Rightarrow> if 0 \<le> n \<and> n \<le> 9007199254740991 then n else 0 | None \<Rightarrow> 0)"

definition write_row :: "'t state_table \<Rightarrow> string \<Rightarrow> string \<Rightarrow> ms \<Rightarrow> int option \<Rightarrow> ms \<Rightarrow> 't engine \<Rightarrow> int \<times> 't engine" where
  "write_row T key v ttl max_entries now e =
     (let (g, e1) = next_generation now e;
          t = tb_put T key \<lparr>sw_value = v, sw_generation = g, sw_expires = now + clamp_ttl ttl\<rparr> (en_table e1)
      in (g, e1\<lparr>en_table := enforce_bound T (case max_entries of None \<Rightarrow> default_max_entries | Some n \<Rightarrow> n) now t\<rparr>))"

definition conflict_of :: "state_row option \<Rightarrow> state_result" where
  "conflict_of current =
     (case current of None \<Rightarrow> ConflictResult 0 None | Some r \<Rightarrow> ConflictResult (sw_generation r) (Some (sw_value r)))"

definition generation_differs :: "int option \<Rightarrow> state_row option \<Rightarrow> bool" where
  "generation_differs expected current \<longleftrightarrow>
     (case expected of None \<Rightarrow> False | Some g \<Rightarrow> g \<noteq> (case current of None \<Rightarrow> 0 | Some r \<Rightarrow> sw_generation r))"

definition apply_op :: "'t state_table \<Rightarrow> ms \<Rightarrow> state_op \<Rightarrow> 't engine \<Rightarrow> state_result \<times> 't engine" where
  "apply_op T now op e0 =
     (if op_key op = [] then (RejectedResult Invalid, e0)
      else (let (current, e) = live_row T (op_key op) now e0
            in case op of
                 GetOp key slide \<Rightarrow>
                   (case current of
                      None \<Rightarrow> (OkResult 0 None, e)
                    | Some r \<Rightarrow>
                        (OkResult (sw_generation r) (Some (sw_value r)),
                         case slide of
                           None \<Rightarrow> e
                         | Some ttl \<Rightarrow>
                             (let expires = max (sw_expires r) (now + clamp_ttl ttl)
                              in if expires \<noteq> sw_expires r
                                 then e\<lparr>en_table := tb_put T key (r\<lparr>sw_expires := expires\<rparr>) (en_table e)\<rparr> else e)))
               | PutOp key v ttl expected max_entries \<Rightarrow>
                   if int (length v) > max_value_chars then (RejectedResult TooLarge, e)
                   else if generation_differs expected current then (conflict_of current, e)
                   else (let (g, e') = write_row T key v ttl max_entries now e in (OkResult g None, e'))
               | IncrOp key ttl max_entries \<Rightarrow>
                   (let v = show_int (counted (map_option sw_value current) + 1);
                        (g, e') = write_row T key v ttl max_entries now e
                    in (OkResult g (Some v), e'))
               | DeleteOp key expected \<Rightarrow>
                   if generation_differs expected current then (conflict_of current, e)
                   else (OkResult 0 None, if current = None then e else e\<lparr>en_table := tb_delete T key (en_table e)\<rparr>)))"

fun run_ops :: "'t state_table \<Rightarrow> ms \<Rightarrow> state_op list \<Rightarrow> 't engine \<Rightarrow> state_result list \<times> 't engine" where
  "run_ops T now [] e = ([], e)"
| "run_ops T now (op # ops) e =
     (let (r, e1) = apply_op T now op e; (rs, e2) = run_ops T now ops e1 in (r # rs, e2))"

definition sweep_engine :: "'t state_table \<Rightarrow> ms \<Rightarrow> 't engine \<Rightarrow> ms option \<times> 't engine" where
  "sweep_engine T now e = (let t = tb_purge T now (en_table e) in (tb_next T t, e\<lparr>en_table := t\<rparr>))"

subsection \<open>Generations\<close>

context state_table_laws
begin

definition engine_ok :: "'t engine \<Rightarrow> bool" where
  "engine_ok e \<longleftrightarrow> ok (en_table e) \<and> 0 \<le> en_last e \<and>
     (\<forall>k r. tb_get T k (en_table e) = Some r \<longrightarrow> 0 < sw_generation r \<and> sw_generation r \<le> en_last e)"

text \<open>
  What time does to an engine: a row of the later state is newer than the earlier state, or it was there with the same
  generation and value.
\<close>

definition later :: "'t engine \<Rightarrow> 't engine \<Rightarrow> bool" where
  "later e e' \<longleftrightarrow> engine_ok e' \<and> en_last e \<le> en_last e' \<and>
     (\<forall>k r'. tb_get T k (en_table e') = Some r' \<longrightarrow> en_last e < sw_generation r' \<or>
        (\<exists>r. tb_get T k (en_table e) = Some r \<and> sw_generation r = sw_generation r' \<and> sw_value r = sw_value r'))"

lemma later_refl: "engine_ok e \<Longrightarrow> later e e"
  by (auto simp: later_def)

lemma later_trans:
  assumes "later e e'" "later e' e''"
  shows "later e e''"
proof -
  have "en_last e < sw_generation r'' \<or>
      (\<exists>r. tb_get T k (en_table e) = Some r \<and> sw_generation r = sw_generation r'' \<and> sw_value r = sw_value r'')"
    if r'': "tb_get T k (en_table e'') = Some r''" for k r''
  proof -
    have "en_last e' < sw_generation r'' \<or>
      (\<exists>r. tb_get T k (en_table e') = Some r \<and> sw_generation r = sw_generation r'' \<and> sw_value r = sw_value r'')"
      using assms(2) r'' unfolding later_def by blast
    then show ?thesis
    proof
      assume "en_last e' < sw_generation r''"
      then show ?thesis using assms(1) by (auto simp: later_def)
    next
      assume "\<exists>r. tb_get T k (en_table e') = Some r \<and> sw_generation r = sw_generation r'' \<and> sw_value r = sw_value r''"
      then show ?thesis using assms(1) unfolding later_def by metis
    qed
  qed
  then show ?thesis using assms unfolding later_def by auto
qed

lemma engine_ok_new: "ok t \<Longrightarrow> (\<And>k r. tb_get T k t = Some r \<Longrightarrow> 0 < sw_generation r) \<Longrightarrow> engine_ok (new_engine T t)"
  by (auto simp: engine_ok_def new_engine_def max_bound max_nonneg)

text \<open>Dropping rows, and moving a deadline, keep generations.\<close>

lemma later_drop:
  assumes e: "engine_ok e" and t: "ok t" "\<And>k r. tb_get T k t = Some r \<Longrightarrow> tb_get T k (en_table e) = Some r"
  shows "later e (e\<lparr>en_table := t\<rparr>)"
  using assms by (auto simp: later_def engine_ok_def)

lemma later_delete:
  assumes e: "engine_ok e"
  shows "later e (e\<lparr>en_table := tb_delete T key (en_table e)\<rparr>)"
proof -
  have ok: "ok (en_table e)" using e by (simp add: engine_ok_def)
  show ?thesis by (rule later_drop [OF e ok_delete [OF ok]]) (simp add: get_delete [OF ok] split: if_splits)
qed

lemma later_purge:
  assumes e: "engine_ok e"
  shows "later e (e\<lparr>en_table := tb_purge T now (en_table e)\<rparr>)"
proof -
  have ok: "ok (en_table e)" using e by (simp add: engine_ok_def)
  show ?thesis by (rule later_drop [OF e ok_purge [OF ok]]) (simp add: get_purge [OF ok] split: option.splits if_splits)
qed

lemma fresh_fits: "engine_ok e \<Longrightarrow> en_last e < sw_generation r \<Longrightarrow> row_fits (\<lambda>k. tb_get T k (en_table e)) k r"
  by (force simp: row_fits_def engine_ok_def)

lemma same_fits:
  "engine_ok e \<Longrightarrow> tb_get T k (en_table e) = Some r \<Longrightarrow> row_fits (\<lambda>k. tb_get T k (en_table e)) k (r\<lparr>sw_expires := x\<rparr>)"
  using one_generation unfolding row_fits_def engine_ok_def by fastforce

lemma enforce_bound_shrinks:
  assumes "ok t"
  shows "ok (enforce_bound T n now t)" "tb_get T k (enforce_bound T n now t) = Some r \<Longrightarrow> tb_get T k t = Some r"
  using assms ok_purge ok_evict get_purge get_evict
  by (auto simp: enforce_bound_def Let_def split: option.splits if_splits)

subsection \<open>Every operation keeps the engine's invariant\<close>

lemma live_row_ok:
  assumes e: "engine_ok e" and r: "live_row T key now e = (current, e')"
  shows "later e e'" "engine_ok e'" "en_last e' = en_last e" "tb_get T key (en_table e') = current"
    "current = (case tb_get T key (en_table e) of None \<Rightarrow> None | Some x \<Rightarrow> if sw_expires x \<le> now then None else Some x)"
    "k \<noteq> key \<Longrightarrow> tb_get T k (en_table e') = tb_get T k (en_table e)"
proof -
  have ok: "ok (en_table e)" using e by (simp add: engine_ok_def)
  note drop = later_delete [OF e, of key]
  have "current = (case tb_get T key (en_table e) of None \<Rightarrow> None | Some x \<Rightarrow> if sw_expires x \<le> now then None else Some x) \<and>
      later e e' \<and> tb_get T key (en_table e') = current \<and> (k \<noteq> key \<longrightarrow> tb_get T k (en_table e') = tb_get T k (en_table e)) \<and> en_last e' = en_last e" for k
    using r later_refl [OF e] drop by (auto simp: live_row_def get_delete [OF ok] split: option.splits if_splits)
  then show "later e e'" "engine_ok e'" "en_last e' = en_last e" "tb_get T key (en_table e') = current"
    "current = (case tb_get T key (en_table e) of None \<Rightarrow> None | Some x \<Rightarrow> if sw_expires x \<le> now then None else Some x)"
    "k \<noteq> key \<Longrightarrow> tb_get T k (en_table e') = tb_get T k (en_table e)" by (auto simp: later_def)
qed

lemma count_enforced:
  assumes ok: "ok t"
  shows "tb_count T (enforce_bound T n now t) \<le> max 1 n"
  using count_evict [OF ok_purge [OF ok]] by (auto simp: enforce_bound_def Let_def)

text \<open>A row that is live and has the highest generation outlives the bound.\<close>

lemma enforce_bound_keeps:
  assumes ok: "ok t" and r: "tb_get T k t = Some r" "now < sw_expires r"
    and top: "\<And>k' r'. tb_get T k' t = Some r' \<Longrightarrow> k' \<noteq> k \<Longrightarrow> sw_generation r' < sw_generation r"
  shows "tb_get T k (enforce_bound T n now t) = Some r"
proof -
  let ?t = "tb_purge T now t"
  have purged: "tb_get T k ?t = Some r" using r by (simp add: get_purge [OF ok])
  have others: "sw_generation r' < sw_generation r" if "tb_get T k' ?t = Some r'" "k' \<noteq> k" for k' r'
    using that top by (auto simp: get_purge [OF ok] split: option.splits if_splits)
  have okp: "ok ?t" by (rule ok_purge [OF ok])
  have keys: "{k'. tb_get T k' ?t \<noteq> None} = insert k (older_rows (\<lambda>k'. tb_get T k' ?t) (sw_generation r))"
    using purged others by (force simp: older_keys_def)
  have "k \<notin> older_rows (\<lambda>k'. tb_get T k' ?t) (sw_generation r)" using purged by (simp add: older_keys_def)
  then have "tb_count T ?t = int (card (older_rows (\<lambda>k'. tb_get T k' ?t) (sw_generation r))) + 1"
    using count [OF okp] finite_keys [OF okp] keys by simp
  then have "\<not> card (older_rows (\<lambda>k'. tb_get T k' ?t) (sw_generation r)) < nat (tb_count T ?t - max 1 n)" by simp
  then show ?thesis using r purged by (simp add: enforce_bound_def Let_def get_evict [OF okp])
qed

lemma write_row_ok:
  assumes e: "engine_ok e" and w: "write_row T key v ttl n now e = (g, e')"
  shows "later e e'" "engine_ok e'" "g = max (en_last e + 1) now" "en_last e' = g"
    "tb_get T key (en_table e') = Some \<lparr>sw_value = v, sw_generation = g, sw_expires = now + clamp_ttl ttl\<rparr>"
    "tb_count T (en_table e') \<le> max 1 (case n of None \<Rightarrow> default_max_entries | Some n \<Rightarrow> n)"
    "k \<noteq> key \<Longrightarrow> tb_get T k (en_table e') = Some r' \<Longrightarrow> tb_get T k (en_table e) = Some r'"
proof -
  let ?g = "max (en_last e + 1) now" and ?n = "case n of None \<Rightarrow> default_max_entries | Some n \<Rightarrow> n"
  let ?r = "\<lparr>sw_value = v, sw_generation = ?g, sw_expires = now + clamp_ttl ttl\<rparr>"
  let ?t = "tb_put T key ?r (en_table e)"
  have g: "g = ?g" and e': "e' = \<lparr>en_table = enforce_bound T ?n now ?t, en_last = ?g\<rparr>"
    using w by (auto simp: write_row_def next_generation_def Let_def)
  show "g = max (en_last e + 1) now" "en_last e' = g" by (simp_all add: g e')
  have ok: "ok (en_table e)" using e by (simp add: engine_ok_def)
  have fits: "row_fits (\<lambda>k. tb_get T k (en_table e)) key ?r" using e by (intro fresh_fits) auto
  have okt: "ok ?t" by (rule ok_put [OF ok fits])
  note b = enforce_bound_shrinks [OF okt]
  have put: "tb_get T k ?t = (if k = key then Some ?r else tb_get T k (en_table e))" for k by (rule get_put [OF ok fits])
  have "now < sw_expires ?r" by (simp add: clamp_ttl_def min_ttl_ms_def max_ttl_ms_def)
  moreover have "sw_generation r' < sw_generation ?r" if "tb_get T k' ?t = Some r'" "k' \<noteq> key" for k' r'
    using that e by (fastforce simp: put engine_ok_def)
  ultimately have keep: "tb_get T key (enforce_bound T ?n now ?t) = Some ?r"
    using enforce_bound_keeps [OF okt, of key ?r now] put by simp
  then show "tb_get T key (en_table e') = Some \<lparr>sw_value = v, sw_generation = g, sw_expires = now + clamp_ttl ttl\<rparr>"
    by (simp add: e' g)
  show "tb_count T (en_table e') \<le> max 1 ?n" using count_enforced [OF okt] by (simp add: e')
  have old: "tb_get T k (enforce_bound T ?n now ?t) = Some r' \<Longrightarrow> k = key \<and> r' = ?r \<or> k \<noteq> key \<and> tb_get T k (en_table e) = Some r'" for k r'
    using b(2) [of k ?n now r'] put [of k] by (auto split: if_splits)
  then show "k \<noteq> key \<Longrightarrow> tb_get T k (en_table e') = Some r' \<Longrightarrow> tb_get T k (en_table e) = Some r'" by (auto simp: e')
  have rows: "0 < sw_generation r' \<and> sw_generation r' \<le> ?g" if "tb_get T k (enforce_bound T ?n now ?t) = Some r'" for k r'
    using old [OF that] e by (fastforce simp: engine_ok_def)
  show "engine_ok e'" using b(1) rows e by (auto simp: engine_ok_def e')
  then show "later e e'" using old unfolding later_def by (fastforce simp: e')
qed

lemma apply_op_later:
  assumes e: "engine_ok e" and a: "apply_op T now op e = (r, e')"
  shows "later e e'"
proof (cases "op_key op = []")
  case True
  then show ?thesis using a e later_refl by (simp add: apply_op_def)
next
  case False
  obtain current e1 where l: "live_row T (op_key op) now e = (current, e1)" by force
  note lr = live_row_ok [OF e l]
  note body = a [unfolded apply_op_def l Let_def prod.case, simplified False if_False]
  have wrote: "later e e2" if "write_row T k v ttl n now e1 = (g, e2)" for k v ttl n g e2
    using later_trans [OF lr(1) write_row_ok(1) [OF lr(2) that]] .
  show ?thesis
  proof (cases op)
    case (GetOp key slide)
    have slid: "later e1 (e1\<lparr>en_table := tb_put T key (x\<lparr>sw_expires := t\<rparr>) (en_table e1)\<rparr>)" if "current = Some x" for x t
    proof -
      have x: "tb_get T key (en_table e1) = Some x" using lr(4) that GetOp by simp
      have ok: "ok (en_table e1)" using lr(2) by (simp add: engine_ok_def)
      note fits = same_fits [OF lr(2) x]
      show ?thesis
        using lr(2) x by (auto simp: later_def engine_ok_def get_put [OF ok fits] ok_put [OF ok fits] split: if_splits)
    qed
    show ?thesis
      using body lr(1) later_trans [OF lr(1) slid] GetOp by (auto split: option.splits if_splits)
  next
    case (PutOp key v ttl expected n)
    then show ?thesis using body lr(1) wrote by (auto split: if_splits prod.splits)
  next
    case (IncrOp key ttl n)
    then show ?thesis using body wrote by (auto split: prod.splits)
  next
    case (DeleteOp key expected)
    then show ?thesis
      using body lr(1) later_trans [OF lr(1) later_delete [OF lr(2)]] by (auto split: if_splits)
  qed
qed

lemma run_ops_later: "engine_ok e \<Longrightarrow> later e (snd (run_ops T now ops e))"
proof (induction ops arbitrary: e)
  case Nil
  then show ?case by (simp add: later_refl)
next
  case (Cons op ops)
  obtain r e1 where a: "apply_op T now op e = (r, e1)" by force
  obtain rs e2 where b: "run_ops T now ops e1 = (rs, e2)" by force
  note l = apply_op_later [OF Cons.prems a]
  have "engine_ok e1" using l by (simp add: later_def)
  from later_trans [OF l Cons.IH [OF this]] show ?case by (simp add: a b)
qed

lemma sweep_later: "engine_ok e \<Longrightarrow> later e (snd (sweep_engine T now e))"
  using later_purge by (simp add: sweep_engine_def Let_def)

end

end
