(* ===== verification/Session_Refinement.thy ===== *)
theory Session_Refinement
  imports Session_Engine
begin

text \<open>
  Two tables that keep the laws of \<open>state_table_laws\<close> cannot be told apart through the engine: from tables with the same
  rows, the same batches, sweeps and restarts give the same answers. So the SQLite tables, with their chunks, implement
  the map in memory.
\<close>

datatype session_step = Batch "state_op list" ms | Sweep ms | Restart

datatype session_output = Results "state_result list" | NextExpiry "ms option" | Restarted

fun session_run :: "'t state_table \<Rightarrow> session_step \<Rightarrow> 't engine \<Rightarrow> session_output \<times> 't engine" where
  "session_run T (Batch ops now) e = (let (rs, e') = run_ops T now ops e in (Results rs, e'))"
| "session_run T (Sweep now) e = (let (n, e') = sweep_engine T now e in (NextExpiry n, e'))"
| "session_run T Restart e = (Restarted, new_engine T (en_table e))"

fun session_runs :: "'t state_table \<Rightarrow> session_step list \<Rightarrow> 't engine \<Rightarrow> session_output list \<times> 't engine" where
  "session_runs T [] e = ([], e)"
| "session_runs T (st # sts) e = (let (out, e1) = session_run T st e; (outs, e2) = session_runs T sts e1 in (out # outs, e2))"

context state_table_laws
begin

lemma restart_ok: "engine_ok e \<Longrightarrow> engine_ok (new_engine T (en_table e))"
  by (rule engine_ok_new) (auto simp: engine_ok_def)

lemma session_run_ok:
  assumes e: "engine_ok e"
  shows "engine_ok (snd (session_run T st e))"
proof -
  have "engine_ok (snd (run_ops T now ops e))" for now ops using run_ops_later [OF e] by (simp add: later_def)
  moreover have "engine_ok (snd (sweep_engine T now e))" for now using sweep_later [OF e] by (simp add: later_def)
  ultimately show ?thesis using restart_ok [OF e] by (cases st) (simp_all add: case_prod_unfold Let_def)
qed

lemma session_runs_ok: "engine_ok e \<Longrightarrow> engine_ok (snd (session_runs T sts e))"
proof (induction sts arbitrary: e)
  case (Cons st sts)
  then show ?case using session_run_ok [OF Cons.prems, of st] by (simp add: case_prod_unfold Let_def)
qed simp

text \<open>While the engine is not started again, the generations of the past are gone for good.\<close>

lemma session_run_later: "engine_ok e \<Longrightarrow> st \<noteq> Restart \<Longrightarrow> later e (snd (session_run T st e))"
  using run_ops_later [of e] sweep_later [of e] by (cases st) (simp_all add: case_prod_unfold Let_def)

lemma session_runs_later: "engine_ok e \<Longrightarrow> Restart \<notin> set sts \<Longrightarrow> later e (snd (session_runs T sts e))"
proof (induction sts arbitrary: e)
  case Nil
  then show ?case by (simp add: later_refl)
next
  case (Cons st sts)
  let ?e1 = "snd (session_run T st e)"
  have l: "later e ?e1" using session_run_later [OF Cons.prems(1), of st] Cons.prems(2) by auto
  moreover have "later ?e1 (snd (session_runs T sts ?e1))"
    using Cons.IH [of ?e1] l Cons.prems(2) by (simp add: later_def)
  ultimately have "later e (snd (session_runs T sts ?e1))" by (rule later_trans)
  then show ?case by (simp add: case_prod_unfold Let_def)
qed

end

locale two_tables = A: state_table_laws T okT + B: state_table_laws U okU
  for T :: "'t state_table" and okT and U :: "'u state_table" and okU
begin

definition same_rows :: "'t \<Rightarrow> 'u \<Rightarrow> bool" where
  "same_rows t u \<longleftrightarrow> okT t \<and> okU u \<and> (\<forall>k. tb_get T k t = tb_get U k u)"

definition same_engine :: "'t engine \<Rightarrow> 'u engine \<Rightarrow> bool" where
  "same_engine a b \<longleftrightarrow> A.engine_ok a \<and> B.engine_ok b \<and> en_last a = en_last b \<and> same_rows (en_table a) (en_table b)"

lemma same_rows_get: "same_rows t u \<Longrightarrow> tb_get T k t = tb_get U k u"
  by (simp add: same_rows_def)

lemma same_rows_count: "same_rows t u \<Longrightarrow> tb_count T t = tb_count U u"
  by (simp add: same_rows_def A.count B.count)

lemma same_rows_look: "same_rows t u \<Longrightarrow> (\<lambda>k. tb_get T k t) = (\<lambda>k. tb_get U k u)"
  by (simp add: same_rows_def fun_eq_iff)

lemma same_rows_put:
  assumes "same_rows t u" "row_fits (\<lambda>k. tb_get T k t) k r"
  shows "same_rows (tb_put T k r t) (tb_put U k r u)"
  using assms same_rows_look [OF assms(1)] by (simp add: same_rows_def A.get_put B.get_put A.ok_put B.ok_put)

lemma same_rows_delete: "same_rows t u \<Longrightarrow> same_rows (tb_delete T k t) (tb_delete U k u)"
  by (simp add: same_rows_def A.get_delete B.get_delete A.ok_delete B.ok_delete)

lemma same_rows_purge: "same_rows t u \<Longrightarrow> same_rows (tb_purge T now t) (tb_purge U now u)"
  by (simp add: same_rows_def A.get_purge B.get_purge A.ok_purge B.ok_purge)

lemma same_rows_evict:
  assumes s: "same_rows t u"
  shows "same_rows (tb_evict T n t) (tb_evict U n u)"
proof -
  have ok: "okT t" "okU u" and get: "tb_get T k t = tb_get U k u" for k using s by (simp_all add: same_rows_def)
  have older: "older_rows (\<lambda>k. tb_get T k t) g = older_rows (\<lambda>k. tb_get U k u) g" for g
    by (simp only: same_rows_look [OF s])
  have "tb_get T k (tb_evict T n t) = tb_get U k (tb_evict U n u)" for k
    by (simp only: A.get_evict [OF ok(1)] B.get_evict [OF ok(2)] older get)
  then show ?thesis by (simp add: same_rows_def A.ok_evict [OF ok(1)] B.ok_evict [OF ok(2)])
qed

lemma same_rows_bound: "same_rows t u \<Longrightarrow> same_rows (enforce_bound T n now t) (enforce_bound U n now u)"
  using same_rows_count [of t u] same_rows_count [OF same_rows_purge [of t u now]]
  by (auto simp: enforce_bound_def Let_def intro: same_rows_purge same_rows_evict)

lemma same_rows_next: "same_rows t u \<Longrightarrow> tb_next T t = tb_next U u"
proof -
  assume s: "same_rows t u"
  then have ok: "okT t" "okU u" and get: "tb_get T k t = tb_get U k u" for k by (simp_all add: same_rows_def)
  show ?thesis
  proof (cases "tb_next T t")
    case None
    then show ?thesis using A.next_none [OF ok(1)] B.next_none [OF ok(2)] get by simp
  next
    case (Some e)
    then have "\<exists>k. tb_get T k t \<noteq> None" using A.next_none [OF ok(1)] by auto
    then obtain e' where e': "tb_next U u = Some e'" using B.next_none [OF ok(2)] get by auto
    from A.next_min [OF ok(1) Some] B.next_min [OF ok(2) e'] have "e = e'" using get by (metis order_antisym)
    then show ?thesis using Some e' by simp
  qed
qed

lemma same_rows_max: "same_rows t u \<Longrightarrow> tb_max T t = tb_max U u"
proof -
  assume s: "same_rows t u"
  then have ok: "okT t" "okU u" and get: "tb_get T k t = tb_get U k u" for k by (simp_all add: same_rows_def)
  have "tb_max T t \<le> tb_max U u"
    using A.max_least [OF ok(1)] B.max_bound [OF ok(2)] B.max_nonneg [OF ok(2)] get by (metis linorder_not_le order_le_less_trans)
  moreover have "tb_max U u \<le> tb_max T t"
    using B.max_least [OF ok(2)] A.max_bound [OF ok(1)] A.max_nonneg [OF ok(1)] get by (metis linorder_not_le order_le_less_trans)
  ultimately show ?thesis by simp
qed

lemma same_engine_new: "same_rows t u \<Longrightarrow> A.engine_ok (new_engine T t) \<Longrightarrow> B.engine_ok (new_engine U u) \<Longrightarrow>
    same_engine (new_engine T t) (new_engine U u)"
  by (simp add: same_engine_def new_engine_def same_rows_max)

lemma same_live_row:
  assumes s: "same_engine a b" and l: "live_row T k now a = (x, a')" "live_row U k now b = (y, b')"
  shows "x = y \<and> same_engine a' b'"
proof -
  have rows: "same_rows (en_table a) (en_table b)" "A.engine_ok a" "B.engine_ok b" using s by (simp_all add: same_engine_def)
  have "same_engine (a\<lparr>en_table := tb_delete T k (en_table a)\<rparr>) (b\<lparr>en_table := tb_delete U k (en_table b)\<rparr>)"
    using s same_rows_delete A.later_delete [OF rows(2)] B.later_delete [OF rows(3)]
    by (simp add: same_engine_def A.later_def B.later_def)
  then show ?thesis using l s same_rows_get [OF rows(1), of k] by (auto simp: live_row_def split: option.splits if_splits)
qed

lemma same_write_row:
  assumes s: "same_engine a b" and w: "write_row T k v ttl n now a = (g, a')" "write_row U k v ttl n now b = (h, b')"
  shows "g = h \<and> same_engine a' b'"
proof -
  let ?r = "\<lparr>sw_value = v, sw_generation = max (en_last a + 1) now, sw_expires = now + clamp_ttl ttl\<rparr>"
  have e: "A.engine_ok a" "B.engine_ok b" "en_last a = en_last b" "same_rows (en_table a) (en_table b)"
    using s by (simp_all add: same_engine_def)
  have "row_fits (\<lambda>k. tb_get T k (en_table a)) k ?r" using A.fresh_fits [OF e(1)] by simp
  note put = same_rows_bound [OF same_rows_put [OF e(4) this]]
  show ?thesis
    using w put e A.write_row_ok(2) [OF e(1) w(1)] B.write_row_ok(2) [OF e(2) w(2)]
    by (auto simp: same_engine_def write_row_def next_generation_def Let_def)
qed

lemma same_apply_op:
  assumes s: "same_engine a b" and o: "apply_op T now op a = (x, a')" "apply_op U now op b = (y, b')"
  shows "x = y \<and> same_engine a' b'"
proof (cases "op_key op = []")
  case True
  then show ?thesis using o s by (simp add: apply_op_def)
next
  case False
  obtain cur a1 where la: "live_row T (op_key op) now a = (cur, a1)" by force
  obtain cur' b1 where lb: "live_row U (op_key op) now b = (cur', b1)" by force
  have same: "cur' = cur" "same_engine a1 b1" using same_live_row [OF s la lb] by simp_all
  note bodyA = o(1) [unfolded apply_op_def la Let_def prod.case, simplified False if_False]
  note bodyB = o(2) [unfolded apply_op_def lb Let_def prod.case, simplified False if_False, unfolded same(1)]
  have okA: "A.engine_ok a" "A.engine_ok a1" and okB: "B.engine_ok b1" using s same(2) by (simp_all add: same_engine_def)
  have curA: "tb_get T (op_key op) (en_table a1) = cur" using A.live_row_ok(4) [OF okA(1) la] .
  have final: "A.engine_ok a'" "B.engine_ok b'"
    using A.apply_op_later [OF okA(1) o(1)] B.apply_op_later [OF _ o(2)] s by (simp_all add: A.later_def B.later_def same_engine_def)
  have rows: "same_rows (en_table a1) (en_table b1)" "en_last a1 = en_last b1" using same(2) by (simp_all add: same_engine_def)
  show ?thesis
  proof (cases op)
    case (GetOp key slide)
    have slid: "same_rows (tb_put T key (r\<lparr>sw_expires := t\<rparr>) (en_table a1)) (tb_put U key (r\<lparr>sw_expires := t\<rparr>) (en_table b1))"
      if "cur = Some r" for r t
    proof -
      have "tb_get T key (en_table a1) = Some r" using curA that GetOp by simp
      from same_rows_put [OF rows(1) A.same_fits [OF okA(2) this]] show ?thesis .
    qed
    then show ?thesis
      using bodyA bodyB GetOp same(2) final rows by (auto simp: same_engine_def split: option.splits if_splits)
  next
    case (PutOp key v ttl expected n)
    then show ?thesis using bodyA bodyB same(2) same_write_row [OF same(2)] by (auto split: if_splits prod.splits)
  next
    case (IncrOp key ttl n)
    then show ?thesis using bodyA bodyB same_write_row [OF same(2)] by (auto split: prod.splits)
  next
    case (DeleteOp key expected)
    then show ?thesis
      using bodyA bodyB same(2) same_rows_delete [OF rows(1), of key] final rows by (auto simp: same_engine_def split: if_splits)
  qed
qed

lemma same_run_ops:
  "same_engine a b \<Longrightarrow> fst (run_ops T now ops a) = fst (run_ops U now ops b) \<and>
     same_engine (snd (run_ops T now ops a)) (snd (run_ops U now ops b))"
proof (induction ops arbitrary: a b)
  case (Cons op ops)
  obtain x a' where a: "apply_op T now op a = (x, a')" by force
  obtain y b' where b: "apply_op U now op b = (y, b')" by force
  have same: "x = y" "same_engine a' b'" using same_apply_op [OF Cons.prems a b] by simp_all
  from Cons.IH [OF same(2)] show ?case by (simp add: a b same(1) case_prod_unfold Let_def)
qed simp

lemma same_session_run:
  assumes s: "same_engine a b"
  shows "fst (session_run T st a) = fst (session_run U st b) \<and> same_engine (snd (session_run T st a)) (snd (session_run U st b))"
proof -
  have e: "A.engine_ok a" "B.engine_ok b" "same_rows (en_table a) (en_table b)" using s by (simp_all add: same_engine_def)
  show ?thesis
  proof (cases st)
    case (Batch ops now)
    then show ?thesis using same_run_ops [OF s, of now ops] by (simp add: case_prod_unfold Let_def)
  next
    case (Sweep now)
    have "same_rows (tb_purge T now (en_table a)) (tb_purge U now (en_table b))" using same_rows_purge [OF e(3)] .
    then show ?thesis
      using s same_rows_next A.later_purge [OF e(1)] B.later_purge [OF e(2)] Sweep
      by (simp add: sweep_engine_def Let_def same_engine_def A.later_def B.later_def)
  next
    case Restart
    then show ?thesis using same_engine_new [OF e(3) A.restart_ok [OF e(1)] B.restart_ok [OF e(2)]] by simp
  qed
qed

lemma same_session_runs:
  "same_engine a b \<Longrightarrow> fst (session_runs T sts a) = fst (session_runs U sts b) \<and>
     same_engine (snd (session_runs T sts a)) (snd (session_runs U sts b))"
proof (induction sts arbitrary: a b)
  case (Cons st sts)
  obtain x a' where a: "session_run T st a = (x, a')" by force
  obtain y b' where b: "session_run U st b = (y, b')" by force
  have same: "x = y" "same_engine a' b'" using same_session_run [OF Cons.prems, of st] a b by simp_all
  from Cons.IH [OF same(2)] show ?case by (simp add: a b same(1) case_prod_unfold Let_def)
qed simp

end

interpretation tables: two_tables memory_table generations_distinct sqlite_table sqlite_ok
  by unfold_locales

definition empty_memory :: "(string, state_row) js_map" where "empty_memory = []"

definition empty_sqlite :: sqlite_state where "empty_sqlite = \<lparr>sq_entries = [], sq_chunks = []\<rparr>"

lemma empty_tables_same: "tables.same_engine (new_engine memory_table empty_memory) (new_engine sqlite_table empty_sqlite)"
proof -
  have m: "generations_distinct empty_memory" by (simp add: gens_distinct_def empty_memory_def)
  have s: "sqlite_ok empty_sqlite"
    by (simp add: sqlite_ok_def gens_distinct_def empty_sqlite_def chunk_rows_def chunk_count_def)
  have none: "tb_get memory_table k empty_memory = None" "tb_get sqlite_table k empty_sqlite = None" for k
    by (simp_all add: memory_table_def sqlite_table_def sqlite_get_def empty_memory_def empty_sqlite_def)
  have rows: "tables.same_rows empty_memory empty_sqlite" using m s none by (simp add: tables.same_rows_def)
  show ?thesis
    by (rule tables.same_engine_new [OF rows memory.engine_ok_new [OF m] sqlite.engine_ok_new [OF s]]) (simp_all add: none)
qed

end
