(* ===== verification/Session_Properties.thy ===== *)
theory Session_Properties
  imports Session_Refinement
begin

text \<open>
  What the session state engine promises the replay and continuity stores, for the states of an instance: those reached
  from empty tables by batches, sweeps and restarts.
\<close>

abbreviation sqlite_start :: "sqlite_state engine" where
  "sqlite_start \<equiv> new_engine sqlite_table empty_sqlite"

definition session_after :: "session_step list \<Rightarrow> sqlite_state engine" where
  "session_after sts = snd (session_runs sqlite_table sts sqlite_start)"

lemma start_ok: "sqlite.engine_ok sqlite_start"
  using empty_tables_same by (simp add: tables.same_engine_def)

lemma session_after_ok: "sqlite.engine_ok (session_after sts)"
  unfolding session_after_def by (rule sqlite.session_runs_ok [OF start_ok])

context state_table_laws
begin

lemma apply_op_live: "apply_op T now op e = (OkResult g v, e') \<Longrightarrow> op_key op \<noteq> []"
  by (auto simp: apply_op_def)

lemma put_result:
  assumes e: "engine_ok e" and a: "apply_op T now (PutOp key v ttl expected n) e = (OkResult g x, e')"
  shows "\<not> generation_differs expected (case tb_get T key (en_table e) of None \<Rightarrow> None | Some r \<Rightarrow> if sw_expires r \<le> now then None else Some r)"
    "en_last e < g" "en_last e' = g" "engine_ok e'"
    "tb_get T key (en_table e') = Some \<lparr>sw_value = v, sw_generation = g, sw_expires = now + clamp_ttl ttl\<rparr>"
    "tb_count T (en_table e') \<le> max 1 (case n of None \<Rightarrow> default_max_entries | Some n \<Rightarrow> n)"
proof -
  have k: "key \<noteq> []" using apply_op_live [OF a] by simp
  obtain current e1 where l: "live_row T key now e = (current, e1)" by force
  note lr = live_row_ok [OF e l]
  have c: "\<not> generation_differs expected current" and w: "write_row T key v ttl n now e1 = (g, e')"
    using a k l by (auto simp: apply_op_def conflict_of_def split: if_splits prod.splits option.splits)
  note wr = write_row_ok [OF lr(2) w]
  show "\<not> generation_differs expected (case tb_get T key (en_table e) of None \<Rightarrow> None | Some r \<Rightarrow> if sw_expires r \<le> now then None else Some r)"
    using c unfolding lr(5) .
  show "en_last e < g" "en_last e' = g" "engine_ok e'"
    "tb_get T key (en_table e') = Some \<lparr>sw_value = v, sw_generation = g, sw_expires = now + clamp_ttl ttl\<rparr>"
    "tb_count T (en_table e') \<le> max 1 (case n of None \<Rightarrow> default_max_entries | Some n \<Rightarrow> n)"
    using wr lr(3) by simp_all
qed

lemma delete_result:
  assumes e: "engine_ok e" and a: "apply_op T now (DeleteOp key expected) e = (OkResult g x, e')"
  shows "\<not> generation_differs expected (case tb_get T key (en_table e) of None \<Rightarrow> None | Some r \<Rightarrow> if sw_expires r \<le> now then None else Some r)"
    "tb_get T key (en_table e') = None" "later e e'"
proof -
  have k: "key \<noteq> []" using apply_op_live [OF a] by simp
  obtain current e1 where l: "live_row T key now e = (current, e1)" by force
  note lr = live_row_ok [OF e l]
  have ok: "ok (en_table e1)" using lr(2) by (simp add: engine_ok_def)
  have c: "\<not> generation_differs expected current" and e': "e' = (if current = None then e1 else e1\<lparr>en_table := tb_delete T key (en_table e1)\<rparr>)"
    using a k l by (auto simp: apply_op_def conflict_of_def split: if_splits prod.splits option.splits)
  show "\<not> generation_differs expected (case tb_get T key (en_table e) of None \<Rightarrow> None | Some r \<Rightarrow> if sw_expires r \<le> now then None else Some r)"
    using c unfolding lr(5) .
  show "tb_get T key (en_table e') = None" using lr(4) by (simp add: e' get_delete [OF ok])
  show "later e e'" by (rule apply_op_later [OF e a])
qed

text \<open>A read answers the row while it lives.\<close>

lemma get_result:
  assumes e: "engine_ok e" and k: "key \<noteq> []"
  shows "fst (apply_op T now (GetOp key slide) e) =
    (case tb_get T key (en_table e) of None \<Rightarrow> OkResult 0 None
     | Some r \<Rightarrow> if sw_expires r \<le> now then OkResult 0 None else OkResult (sw_generation r) (Some (sw_value r)))"
proof -
  obtain current e1 where l: "live_row T key now e = (current, e1)" by force
  show ?thesis
    using live_row_ok(5) [OF e l] k l by (auto simp: apply_op_def Let_def split: option.splits)
qed

end

text \<open>The operations that compare the generation of their key.\<close>

fun op_expects :: "state_op \<Rightarrow> int option" where
  "op_expects (PutOp _ _ _ expected _) = expected"
| "op_expects (DeleteOp _ expected) = expected"
| "op_expects _ = None"

definition op_applied :: "state_result \<Rightarrow> bool" where
  "op_applied r = (case r of OkResult _ _ \<Rightarrow> True | _ \<Rightarrow> False)"

context state_table_laws
begin

lemma expecting_applied:
  assumes e: "engine_ok e" and op: "op_expects op = Some g" and g: "0 < g" and a: "op_applied (fst (apply_op T now op e))"
  shows "\<exists>r. tb_get T (op_key op) (en_table e) = Some r \<and> sw_generation r = g"
proof -
  obtain g' v e' where r: "apply_op T now op e = (OkResult g' v, e')"
    using a by (cases "apply_op T now op e") (auto simp: op_applied_def split: state_result.splits)
  have "\<not> generation_differs (Some g) (case tb_get T (op_key op) (en_table e) of None \<Rightarrow> None | Some r \<Rightarrow> if sw_expires r \<le> now then None else Some r)"
    using r op put_result(1) [OF e, of now] delete_result(1) [OF e, of now] by (cases op) auto
  then show ?thesis using g by (auto simp: generation_differs_def split: option.splits if_splits)
qed

lemma generation_gone:
  assumes e: "engine_ok e" and op: "op_expects op = Some g" and g: "0 < g" and a: "apply_op T now op e = (r, e')" "op_applied r"
  shows "engine_ok e'" "g \<le> en_last e'" "tb_get T (op_key op) (en_table e') = Some x \<Longrightarrow> sw_generation x \<noteq> g"
proof -
  have l: "later e e'" by (rule apply_op_later [OF e a(1)])
  then show "engine_ok e'" by (simp add: later_def)
  have "op_applied (fst (apply_op T now op e))" using a by simp
  from expecting_applied [OF e op g this] have "g \<le> en_last e" using e by (auto simp: engine_ok_def)
  then show "g \<le> en_last e'" using l by (simp add: later_def)
  obtain g' v where r: "r = OkResult g' v" using a(2) by (cases r) (auto simp: op_applied_def)
  show "tb_get T (op_key op) (en_table e') = Some x \<Longrightarrow> sw_generation x \<noteq> g"
    using a(1) [unfolded r] op put_result(2,5) [OF e, of now] delete_result(2) [OF e, of now] \<open>g \<le> en_last e\<close>
    by (cases op) fastforce+
qed

end


lemma split_units_small: "length v \<le> 262144 \<Longrightarrow> split_units chunk_units v = [v]"
  by (subst split_units.simps) (simp add: chunk_units_def)

lemmas session_eval = session_after_def new_engine_def empty_sqlite_def sqlite_table_def highest_def earliest_def
  apply_op_def live_row_def write_row_def next_generation_def enforce_bound_def generation_differs_def conflict_of_def
  sqlite_get_def sqlite_put_def sqlite_write_def sqlite_delete_def sqlite_purge_def sqlite_drop_def sqlite_evict_def chunk_rows_def
  sweep_engine_def clamp_ttl_def min_ttl_ms_def max_ttl_ms_def max_value_chars_def default_max_entries_def split_units_small op_applied_def



text \<open>A put that is applied is read back, value and generation, until its time to live (clamped to a second and a week) is
  over, and not after; and it leaves the instance within its bound of entries, the new entry never the one evicted.
\<close>

theorem put_is_read_back:
  assumes "apply_op sqlite_table now (PutOp key v ttl expected n) (session_after sts) = (OkResult g x, e)"
  shows "tb_count sqlite_table (en_table e) \<le> max 1 (case n of None \<Rightarrow> 256 | Some n \<Rightarrow> n) \<and>
    fst (apply_op sqlite_table now' (GetOp key slide) e) =
      (if now + min 604800000 (max 1000 ttl) \<le> now' then OkResult 0 None else OkResult g (Some v))"
proof -
  note r = sqlite.put_result [OF session_after_ok assms]
  have "key \<noteq> []" using sqlite.apply_op_live [OF assms] by simp
  from sqlite.get_result [OF r(4) this] show ?thesis
    using r(5,6) by (simp add: default_max_entries_def clamp_ttl_def min_ttl_ms_def max_ttl_ms_def cong: option.case_cong)
qed

theorem put_is_read_back_witness:
  "fst (apply_op sqlite_table 8000 (GetOp ''k'' (Some 3000))
     (snd (apply_op sqlite_table 2000 (PutOp ''k'' ''b'' 9000 None (Some 1)) (session_after [Batch [PutOp ''q'' ''a'' 5000 None None] 1000]))))
   = OkResult 2000 (Some ''b'')"
proof -
  have "apply_op sqlite_table 2000 (PutOp ''k'' ''b'' 9000 None (Some 1)) (session_after [Batch [PutOp ''q'' ''a'' 5000 None None] 1000]) =
    (OkResult 2000 None, snd (apply_op sqlite_table 2000 (PutOp ''k'' ''b'' 9000 None (Some 1)) (session_after [Batch [PutOp ''q'' ''a'' 5000 None None] 1000])))"
    by (simp add: session_eval)
  from put_is_read_back [OF this, of 8000] show ?thesis by simp
qed

subsection \<open>Counters\<close>

lemma digit_char:
  assumes "m < 10"
  shows "is_digit (char_of (48 + m))" "digit_val (char_of (48 + m)) = int m"
proof -
  have "(of_char (char_of (48 + m) :: char) :: nat) = 48 + m" using assms by (simp add: of_char_of)
  then show "is_digit (char_of (48 + m))" "digit_val (char_of (48 + m)) = int m"
    using assms by (simp_all add: is_digit_def digit_val_def)
qed

lemma show_nat_digits: "show_nat n \<noteq> [] \<and> (\<forall>c \<in> set (show_nat n). is_digit c) \<and> digits_val (show_nat n) = int n"
proof (induction n rule: show_nat.induct)
  case (1 n)
  have mod: "n mod 10 < 10" by simp
  show ?case
  proof (cases "n < 10")
    case True
    then show ?thesis using digit_char [of n] by (simp add: show_nat.simps [of n] digits_val_def)
  next
    case False
    moreover have "int (n div 10) * 10 + int (n mod 10) = int n" by (simp add: zdiv_int zmod_int)
    ultimately show ?thesis
      using 1 [OF False] digit_char [OF mod] by (auto simp: show_nat.simps [of n] digits_val_def)
  qed
qed

lemma parse_show_int: "0 \<le> i \<Longrightarrow> parse_int (show_int i) = Some i"
proof -
  assume i: "0 \<le> i"
  let ?s = "show_nat (nat i)"
  note d = show_nat_digits [of "nat i"]
  obtain c cs where s: "?s = c # cs" using d by (cases ?s) auto
  have c: "is_digit c" using d s by simp
  then have "\<not> is_ws c" "c \<noteq> CHR ''-''" "c \<noteq> CHR ''+''" by (auto simp: is_digit_def is_ws_def Let_def)
  moreover have "takeWhile is_digit (c # cs) = c # cs" using d s by (simp add: takeWhile_eq_all_conv)
  moreover have "digits_val (c # cs) = i" using d s i by simp
  ultimately show ?thesis using i by (simp add: parse_int_def show_int_def s)
qed

lemma counted_absent: "counted None = 0"
  by code_simp

context state_table_laws
begin

lemma incr_result:
  assumes e: "engine_ok e" and k: "key \<noteq> []"
    and c: "counted (case tb_get T key (en_table e) of None \<Rightarrow> None | Some r \<Rightarrow> if sw_expires r \<le> now then None else Some (sw_value r)) = c"
  shows "\<exists>g e' r. apply_op T now (IncrOp key ttl n) e = (OkResult g (Some (show_int (c + 1))), e') \<and> engine_ok e' \<and>
    tb_get T key (en_table e') = Some r \<and> now < sw_expires r \<and> sw_value r = show_int (c + 1)"
proof -
  obtain current e1 where l: "live_row T key now e = (current, e1)" by force
  note lr = live_row_ok [OF e l]
  have c': "counted (map_option sw_value current) = c" using c unfolding lr(5) by (auto split: option.splits if_splits)
  obtain g e' where w: "write_row T key (show_int (c + 1)) ttl n now e1 = (g, e')" by force
  note wr = write_row_ok [OF lr(2) w]
  have "apply_op T now (IncrOp key ttl n) e = (OkResult g (Some (show_int (c + 1))), e')"
    using k l w c' by (simp add: apply_op_def)
  moreover have "now < now + clamp_ttl ttl" by (simp add: clamp_ttl_def min_ttl_ms_def max_ttl_ms_def)
  ultimately show ?thesis using wr(2,5) by simp
qed

end

fun result_value :: "state_result \<Rightarrow> string option" where
  "result_value (OkResult _ v) = v"
| "result_value _ = None"

lemma incr_sequence:
  assumes "state_table_laws T ok" "state_table_laws.engine_ok T ok e" "key \<noteq> []"
    and "tb_get T key (en_table e) = Some r" "now < sw_expires r" "sw_value r = show_int (int c)" "int c + int n \<le> 9007199254740991"
  shows "map result_value (fst (run_ops T now (replicate n (IncrOp key ttl m)) e)) = map (\<lambda>i. Some (show_int (int i))) [c + 1..<c + 1 + n]"
  using assms
proof (induction n arbitrary: e r c)
  case (Suc n)
  have counted: "counted (Some (show_int (int c))) = int c" using Suc.prems(7) by (simp add: counted_def parse_show_int)
  obtain g e' r' where step: "apply_op T now (IncrOp key ttl m) e = (OkResult g (Some (show_int (int c + 1))), e')"
      "state_table_laws.engine_ok T ok e'" "tb_get T key (en_table e') = Some r'" "now < sw_expires r'" "sw_value r' = show_int (int c + 1)"
    using state_table_laws.incr_result [OF Suc.prems(1-3), of now "int c" ttl m] Suc.prems(4-6) counted by auto
  have "map result_value (fst (run_ops T now (replicate n (IncrOp key ttl m)) e')) = map (\<lambda>i. Some (show_int (int i))) [Suc c + 1..<Suc c + 1 + n]"
    by (rule Suc.IH [OF Suc.prems(1) step(2) Suc.prems(3) step(3,4)]) (use step(5) Suc.prems(7) in \<open>simp_all add: add.commute\<close>)
  moreover have "[c + 1..<c + 1 + Suc n] = (c + 1) # [Suc c + 1..<Suc c + 1 + n]" by (simp add: upt_rec)
  ultimately show ?case by (simp add: step(1) case_prod_unfold Let_def add.commute)
qed simp

text \<open>Increments of a key that is not there are numbered 1, 2, 3 and so on, without a gap or a repetition.
\<close>

theorem incr_counts_up:
  assumes "key \<noteq> []" "tb_get sqlite_table key (en_table (session_after sts)) = None" "int n \<le> 9007199254740991"
  shows "map result_value (fst (run_ops sqlite_table now (replicate n (IncrOp key ttl m)) (session_after sts))) =
    map (\<lambda>i. Some (show_int (int i))) [1..<n + 1]"
proof (cases n)
  case (Suc k)
  obtain g e' r where step: "apply_op sqlite_table now (IncrOp key ttl m) (session_after sts) = (OkResult g (Some (show_int 1)), e')"
      "sqlite.engine_ok e'" "tb_get sqlite_table key (en_table e') = Some r" "now < sw_expires r" "sw_value r = show_int (int 1)"
    using sqlite.incr_result [OF session_after_ok [of sts] assms(1), of now 0 ttl m] assms(2) counted_absent by auto
  have "map result_value (fst (run_ops sqlite_table now (replicate k (IncrOp key ttl m)) e')) = map (\<lambda>i. Some (show_int (int i))) [1 + 1..<1 + 1 + k]"
    by (rule incr_sequence [OF sqlite.state_table_laws_axioms step(2) assms(1) step(3-5)]) (use assms(3) Suc in simp)
  moreover have "[1..<n + 1] = 1 # [1 + 1..<1 + 1 + k]" by (simp add: Suc upt_rec)
  ultimately show ?thesis by (simp add: Suc step(1) case_prod_unfold Let_def)
qed simp

theorem incr_counts_up_witness:
  "map result_value (fst (run_ops sqlite_table 2000 (replicate 3 (IncrOp ''k'' 5000 None)) (session_after [Batch [PutOp ''q'' ''a'' 5000 None None] 1000]))) =
    [Some ''1'', Some ''2'', Some ''3'']"
proof -
  have "tb_get sqlite_table ''k'' (en_table (session_after [Batch [PutOp ''q'' ''a'' 5000 None None] 1000])) = None"
    by (simp add: session_eval)
  moreover have shown: "show_int 1 = ''1''" "show_int 2 = ''2''" "show_int 3 = ''3''" by code_simp+
  ultimately show ?thesis using incr_counts_up [of "''k''" "[Batch [PutOp ''q'' ''a'' 5000 None None] 1000]" 3 2000 5000 None]
    by (simp add: upt_rec)
qed

end
