(* ===== verification/Org_Names.thy ===== *)
theory Org_Names
  imports Prelude
begin

text \<open>
  Org ids and org-scoped names (\<open>packages/core/src/org.ts\<close>): the names that keep the state of the orgs apart, and the
  principal ids of agent runs (\<open>packages/auth/src/principal.ts\<close>).
\<close>

definition id_char :: "char \<Rightarrow> bool" where
  "id_char c \<longleftrightarrow> is_digit c \<or> (let n = (of_char c :: nat) in 97 \<le> n \<and> n \<le> 122)"

text \<open>The pattern \<open>^[a-z0-9](?:[a-z0-9-]{0,61}[a-z0-9])?$\<close>.\<close>

definition is_org_id :: "string \<Rightarrow> bool" where
  "is_org_id s \<longleftrightarrow> s \<noteq> [] \<and> length s \<le> 63 \<and> (\<forall>c \<in> set s. id_char c \<or> c = CHR ''-'') \<and> id_char (hd s) \<and> id_char (List.last s)"

definition global_org :: string where "global_org = ''global''"

definition org_scoped_name :: "string \<Rightarrow> string \<Rightarrow> string" where
  "org_scoped_name org name = (if org = global_org then name else ''org.'' @ org @ ''.'' @ name)"

definition org_of_scoped_name :: "string \<Rightarrow> string option" where
  "org_of_scoped_name name =
     (if \<not> starts_with name ''org.'' then Some global_org
      else (let org = (case index_of ''.'' (drop 4 name) of None \<Rightarrow> [] | Some end \<Rightarrow> take end (drop 4 name))
            in if is_org_id org \<and> org \<noteq> global_org then Some org else None))"

definition run_principal_id :: "string \<Rightarrow> string" where "run_principal_id run = ''run:'' @ run"

definition is_run_principal_id :: "string \<Rightarrow> bool" where "is_run_principal_id i = starts_with i ''run:''"

definition run_of_principal :: "string \<Rightarrow> string option" where
  "run_of_principal i = (if is_run_principal_id i then Some (drop (length ''run:'') i) else None)"

lemma org_id_no_dot: "is_org_id org \<Longrightarrow> CHR ''.'' \<notin> set org"
  by (auto simp: is_org_id_def id_char_def is_digit_def Let_def)

lemma index_of_dot: "CHR ''.'' \<notin> set s \<Longrightarrow> index_of ''.'' (s @ CHR ''.'' # t) = Some (length s)"
  by (induction s) auto

text \<open>A name of \<open>global\<close> never starts as a scoped name does, so the org is read back from either kind of name.\<close>

lemma org_of_scoped:
  assumes "is_org_id org" "org = global_org \<Longrightarrow> \<not> starts_with name ''org.''"
  shows "org_of_scoped_name (org_scoped_name org name) = Some org"
proof (cases "org = global_org")
  case True
  then show ?thesis using assms(2) by (simp add: org_of_scoped_name_def org_scoped_name_def)
next
  case False
  then show ?thesis using assms(1) index_of_dot [OF org_id_no_dot [OF assms(1)], of name]
    by (simp add: org_of_scoped_name_def org_scoped_name_def starts_with_def)
qed

lemma org_scoped_name_inj:
  assumes "is_org_id org" "is_org_id org'" "org = global_org \<Longrightarrow> \<not> starts_with name ''org.''" "org' = global_org \<Longrightarrow> \<not> starts_with name' ''org.''"
    and same: "org_scoped_name org name = org_scoped_name org' name'"
  shows "org = org' \<and> name = name'"
proof -
  have "Some org = Some org'" using org_of_scoped [OF assms(1,3)] org_of_scoped [OF assms(2,4)] same by simp
  then show ?thesis using same by (auto simp: org_scoped_name_def split: if_splits)
qed

text \<open>The org of a scoped name reads back: the object that holds the state of an org knows from its name whose it is.
\<close>

theorem scoped_name_round_trip:
  assumes "is_org_id org" "org = global_org \<Longrightarrow> \<not> starts_with name ''org.''"
  shows "org_of_scoped_name (org_scoped_name org name) = Some org"
  by (rule org_of_scoped [OF assms])

theorem scoped_name_round_trip_witness:
  "org_of_scoped_name (org_scoped_name ''acme'' ''codex:1'') = Some ''acme''"
  by (rule scoped_name_round_trip) code_simp+

text \<open>
  The per-isolate cache of org data (\<open>makeOrgCache\<close> of \<open>packages/core/src/kv.ts\<close>): a \<open>Map\<close> from the org and the name,
  joined by U+0000, to the entry; bounded when a maximum is given.
\<close>

record 'v cache_entry =
  oe_org :: string
  oe_name :: string
  oe_value :: 'v

type_synonym 'v org_cache = "(string, 'v cache_entry) js_map"

definition cache_key_of :: "string \<Rightarrow> string \<Rightarrow> string" where
  "cache_key_of org name = org @ CHR 0x00 # name"

definition cache_get :: "string \<Rightarrow> string \<Rightarrow> 'v org_cache \<Rightarrow> 'v option" where
  "cache_get org name m = map_option oe_value (map_of m (cache_key_of org name))"

definition cache_set :: "nat option \<Rightarrow> string \<Rightarrow> string \<Rightarrow> 'v \<Rightarrow> 'v org_cache \<Rightarrow> 'v org_cache" where
  "cache_set maximum org name v m =
     (let key = cache_key_of org name;
          m = (case maximum of None \<Rightarrow> m | Some n \<Rightarrow> if map_of m key = None \<and> length m \<ge> n then tl m else m)
      in AList.update key \<lparr>oe_org = org, oe_name = name, oe_value = v\<rparr> m)"

definition cache_delete :: "string \<Rightarrow> string \<Rightarrow> 'v org_cache \<Rightarrow> 'v org_cache" where
  "cache_delete org name m = AList.delete (cache_key_of org name) m"

definition cache_delete_where :: "(string \<Rightarrow> string \<Rightarrow> 'v \<Rightarrow> bool) \<Rightarrow> 'v org_cache \<Rightarrow> 'v org_cache" where
  "cache_delete_where goes m = filter (\<lambda>(_, e). \<not> goes (oe_org e) (oe_name e) (oe_value e)) m"

subsection \<open>Laws\<close>

lemma org_id_no_nul: "is_org_id org \<Longrightarrow> CHR 0x00 \<notin> set org"
  by (auto simp: is_org_id_def id_char_def is_digit_def Let_def)

text \<open>No two orgs share an entry, whatever the names.\<close>

lemma cache_key_injective: "is_org_id a \<Longrightarrow> is_org_id b \<Longrightarrow> cache_key_of a x = cache_key_of b y \<longleftrightarrow> a = b \<and> x = y"
  using free_prefix [of "CHR 0x00" a b x y] org_id_no_nul by (auto simp: cache_key_of_def)

definition org_cache_ok :: "nat option \<Rightarrow> 'v org_cache \<Rightarrow> bool" where
  "org_cache_ok maximum m \<longleftrightarrow> distinct_keys m \<and> (case maximum of None \<Rightarrow> True | Some n \<Rightarrow> length m \<le> max 1 n) \<and>
     (\<forall>(k, e) \<in> set m. k = cache_key_of (oe_org e) (oe_name e))"

lemma distinct_keys_tl: "distinct_keys m \<Longrightarrow> distinct_keys (tl m)"
  by (cases m) (auto simp: distinct_keys_def)

lemma map_of_tl: "distinct_keys m \<Longrightarrow> map_of (tl m) k = Some v \<Longrightarrow> map_of m k = Some v"
  by (cases m) (force simp: distinct_keys_def dest: map_of_SomeD)+

lemma cache_get_set: "cache_get org name (cache_set maximum org name v m) = Some v"
  by (simp add: cache_get_def cache_set_def Let_def update_conv')

lemma cache_get_set_other:
  "distinct_keys m \<Longrightarrow> cache_key_of org name \<noteq> cache_key_of org1 name1 \<Longrightarrow> cache_get org1 name1 (cache_set maximum org name v m) = Some w \<Longrightarrow>
   cache_get org1 name1 m = Some w"
  by (auto simp: cache_get_def cache_set_def Let_def update_conv' map_of_tl split: option.splits if_splits)

lemma cache_get_delete: "cache_get org1 name1 (cache_delete org name m) = Some w \<Longrightarrow> cache_get org1 name1 m = Some w"
  by (auto simp: cache_get_def cache_delete_def delete_conv' split: if_splits)

lemma cache_get_delete_where: "distinct_keys m \<Longrightarrow> cache_get org name (cache_delete_where goes m) = Some w \<Longrightarrow> cache_get org name m = Some w"
  by (auto simp: cache_get_def cache_delete_where_def map_of_filter_distinct split: option.splits if_splits)

lemma org_cache_ok_set: "org_cache_ok maximum m \<Longrightarrow> org_cache_ok maximum (cache_set maximum org name v m)"
proof -
  assume ok: "org_cache_ok maximum m"
  let ?key = "cache_key_of org name"
  define m1 where "m1 = (case maximum of None \<Rightarrow> m | Some n \<Rightarrow> if map_of m ?key = None \<and> length m \<ge> n then tl m else m)"
  have m1: "distinct_keys m1" "set m1 \<subseteq> set m" "map_of m1 ?key = None \<longleftrightarrow> map_of m ?key = None"
    using ok distinct_keys_tl [of m] by (auto simp: m1_def org_cache_ok_def map_of_eq_None_iff dest: list.set_sel(2) split: option.splits; cases m; force)+
  have size: "length (AList.update ?key e m1) = (if map_of m1 ?key = None then Suc (length m1) else length m1)" for e
    using js.size_set [OF m1(1)] by blast
  have "case maximum of None \<Rightarrow> True | Some n \<Rightarrow> (if map_of m ?key = None then Suc (length m1) else length m1) \<le> max 1 n"
    using ok by (auto simp: m1_def org_cache_ok_def split: option.splits)
  then have "case maximum of None \<Rightarrow> True | Some n \<Rightarrow> length (AList.update ?key e m1) \<le> max 1 n" for e
    unfolding size m1(3) .
  moreover have "k = cache_key_of (oe_org x) (oe_name x)" if "(k, x) \<in> set (AList.update ?key \<lparr>oe_org = org, oe_name = name, oe_value = v\<rparr> m1)" for k x
  proof -
    have "map_of (AList.update ?key \<lparr>oe_org = org, oe_name = name, oe_value = v\<rparr> m1) k = Some x"
      by (rule map_of_SomeI [OF _ that]) (simp add: m1(1))
    then show ?thesis using ok m1(2) by (auto simp: update_conv' org_cache_ok_def dest!: map_of_SomeD split: if_splits)
  qed
  ultimately show ?thesis using m1(1) unfolding cache_set_def Let_def m1_def [symmetric] org_cache_ok_def by auto
qed

lemma org_cache_ok_drop: "org_cache_ok maximum m \<Longrightarrow> org_cache_ok maximum (cache_delete org name m) \<and> org_cache_ok maximum (cache_delete_where goes m)"
proof -
  assume ok: "org_cache_ok maximum m"
  have del: "AList.delete k m = filter (\<lambda>(k1, _). k \<noteq> k1) m" for k by (simp add: AList.delete_eq)
  have "org_cache_ok maximum (filter P m)" for P
    using ok by (auto simp: org_cache_ok_def intro: order_trans [OF length_filter_le] split: option.splits)
  then show ?thesis by (simp add: cache_delete_def cache_delete_where_def del)
qed

end
