(* ===== verification/Session_Object.thy ===== *)
theory Session_Object
  imports Session_Properties Org_Names
begin

text \<open>
  The session state Durable Object (\<open>durable-object.ts\<close>) around the engine: its alarm, its registration with the org's
  control plane (\<open>instances.ts\<close>), and what a wipe, a sweep and a restart do to it. Each call runs to its end before the
  next one starts; whether the control plane answers a registration is part of the call.
\<close>

record session_object =
  so_engine :: "sqlite_state engine"
  so_armed :: "ms option"
  so_until :: ms
  so_alarm :: "ms option"

type_synonym instance_table = "(string, ms) js_map"

definition register_instance :: "string \<Rightarrow> ms \<Rightarrow> ms \<Rightarrow> instance_table \<Rightarrow> instance_table" where
  "register_instance name now expires m =
     (let m1 = filter (\<lambda>(_, x). \<not> x \<le> now) m
      in AList.update name (case map_of m1 name of None \<Rightarrow> expires | Some x \<Rightarrow> max x expires) m1)"

definition list_instances :: "ms \<Rightarrow> nat \<Rightarrow> instance_table \<Rightarrow> string list" where
  "list_instances now limit m = take limit (sort (map fst (filter (\<lambda>(_, x). x > now) m)))"

definition forget_instances :: "string list \<Rightarrow> instance_table \<Rightarrow> instance_table" where
  "forget_instances names m = foldl (\<lambda>m name. AList.delete name m) m names"

definition new_object_engine :: "sqlite_state \<Rightarrow> sqlite_state engine" where
  "new_object_engine t = new_engine sqlite_table t"

definition next_expiry :: "session_object \<Rightarrow> ms option" where
  "next_expiry s = tb_next sqlite_table (en_table (so_engine s))"

fun writes_entry :: "state_op \<Rightarrow> bool" where
  "writes_entry (PutOp _ _ _ _ _) = True"
| "writes_entry (IncrOp _ _ _) = True"
| "writes_entry _ = False"

fun moves_expiry :: "state_op \<Rightarrow> bool" where
  "moves_expiry (GetOp _ slide) = (slide \<noteq> None)"
| "moves_expiry op = writes_entry op"

definition arm_object :: "ms option \<Rightarrow> session_object \<Rightarrow> session_object" where
  "arm_object nxt s =
     (case nxt of None \<Rightarrow> s | Some e \<Rightarrow> if so_armed s = Some e then s else s\<lparr>so_armed := Some e, so_alarm := Some e\<rparr>)"

definition register_object :: "string \<Rightarrow> bool \<Rightarrow> ms \<Rightarrow> session_object \<times> instance_table \<Rightarrow> session_object \<times> instance_table" where
  "register_object name answers now = (\<lambda>(s, reg).
     case org_of_scoped_name name of
       None \<Rightarrow> (s, reg)
     | Some org \<Rightarrow>
         if org = global_org \<or> next_expiry s = None \<or> so_until s - now > max_ttl_ms div 2 then (s, reg)
         else let until = now + max_ttl_ms
              in if answers then (s\<lparr>so_until := until\<rparr>, register_instance name now until reg) else (s, reg))"

definition object_run :: "string \<Rightarrow> bool \<Rightarrow> state_op list \<Rightarrow> ms \<Rightarrow> session_object \<times> instance_table \<Rightarrow>
    state_result list \<times> session_object \<times> instance_table" where
  "object_run name answers ops now = (\<lambda>(s, reg).
     let (rs, e) = run_ops sqlite_table now ops (so_engine s);
         s1 = s\<lparr>so_engine := e\<rparr>;
         s2 = (if list_ex writes_entry ops then arm_object (next_expiry s1) s1 else s1)
     in (rs, if list_ex moves_expiry ops then register_object name answers now (s2, reg) else (s2, reg)))"

definition object_sweep :: "ms \<Rightarrow> session_object \<Rightarrow> session_object" where
  "object_sweep now s =
     (let (nxt, e) = sweep_engine sqlite_table now (so_engine s);
          s1 = s\<lparr>so_engine := e, so_armed := None\<rparr>
      in case nxt of
           None \<Rightarrow> s1\<lparr>so_alarm := None, so_engine := new_object_engine empty_sqlite\<rparr>
         | Some x \<Rightarrow> arm_object (Some x) s1)"

definition object_wipe :: "session_object \<Rightarrow> session_object" where
  "object_wipe s = s\<lparr>so_alarm := None, so_armed := None, so_until := 0, so_engine := new_object_engine empty_sqlite\<rparr>"

text \<open>The constructor: a new isolate over the same storage.\<close>

definition object_restart :: "session_object \<Rightarrow> session_object" where
  "object_restart s = s\<lparr>so_engine := new_object_engine (en_table (so_engine s)), so_armed := None, so_until := 0\<rparr>"

definition new_object :: session_object where
  "new_object = \<lparr>so_engine = new_object_engine empty_sqlite, so_armed = None, so_until = 0, so_alarm = None\<rparr>"

text \<open>The alarm: the platform takes it off the storage when it is due and calls the object.\<close>

definition object_alarm :: "ms \<Rightarrow> session_object \<Rightarrow> session_object" where
  "object_alarm now s =
     (case so_alarm s of None \<Rightarrow> s | Some a \<Rightarrow> if a \<le> now then object_sweep now (s\<lparr>so_alarm := None\<rparr>) else s)"

datatype object_step =
    ObjRun "state_op list" ms bool | ObjSweep ms | ObjAlarm ms | ObjWipe | ObjRestart
  | PlaneRegister string ms ms | PlaneForget "string list"

fun run_object_step :: "string \<Rightarrow> object_step \<Rightarrow> session_object \<times> instance_table \<Rightarrow> session_object \<times> instance_table" where
  "run_object_step name (ObjRun ops now answers) w = snd (object_run name answers ops now w)"
| "run_object_step name (ObjSweep now) (s, reg) = (object_sweep now s, reg)"
| "run_object_step name (ObjAlarm now) (s, reg) = (object_alarm now s, reg)"
| "run_object_step name ObjWipe (s, reg) = (object_wipe s, reg)"
| "run_object_step name ObjRestart (s, reg) = (object_restart s, reg)"
| "run_object_step name (PlaneRegister name' now expires) (s, reg) = (s, register_instance name' now expires reg)"
| "run_object_step name (PlaneForget names) (s, reg) = (s, forget_instances names reg)"

definition object_steps :: "string \<Rightarrow> object_step list \<Rightarrow> session_object \<times> instance_table" where
  "object_steps name sts = foldl (\<lambda>w st. run_object_step name st w) (new_object, []) sts"

abbreviation object_rows :: "session_object \<Rightarrow> string \<Rightarrow> state_row option" where
  "object_rows s k \<equiv> tb_get sqlite_table k (en_table (so_engine s))"

subsection \<open>Where a deadline comes from\<close>

context state_table_laws
begin

text \<open>
  A row of the later state was written by a batch of now, or it was there: with the same deadline, or with a deadline the
  batch moved later.
\<close>

definition deadline_from :: "bool \<Rightarrow> bool \<Rightarrow> ms \<Rightarrow> 't engine \<Rightarrow> 't engine \<Rightarrow> bool" where
  "deadline_from writes moves now e e' \<longleftrightarrow>
     (\<forall>k r'. tb_get T k (en_table e') = Some r' \<longrightarrow> writes \<and> sw_expires r' \<le> now + max_ttl_ms \<or>
        (\<exists>r. tb_get T k (en_table e) = Some r \<and>
           (sw_expires r' = sw_expires r \<or> moves \<and> sw_expires r \<le> sw_expires r' \<and> sw_expires r' \<le> now + max_ttl_ms)))"

lemma deadline_from_refl: "deadline_from w m now e e"
  by (auto simp: deadline_from_def)

lemma deadline_from_trans:
  assumes "deadline_from w m now e e1" "deadline_from w' m' now e1 e2"
  shows "deadline_from (w \<or> w') (m \<or> m') now e e2"
  unfolding deadline_from_def
proof (intro allI impI)
  fix k r2 assume "tb_get T k (en_table e2) = Some r2"
  with assms(2) consider "w' \<and> sw_expires r2 \<le> now + max_ttl_ms"
    | r1 where "tb_get T k (en_table e1) = Some r1"
        "sw_expires r2 = sw_expires r1 \<or> m' \<and> sw_expires r1 \<le> sw_expires r2 \<and> sw_expires r2 \<le> now + max_ttl_ms"
    unfolding deadline_from_def by blast
  then show "(w \<or> w') \<and> sw_expires r2 \<le> now + max_ttl_ms \<or> (\<exists>r. tb_get T k (en_table e) = Some r \<and>
      (sw_expires r2 = sw_expires r \<or> (m \<or> m') \<and> sw_expires r \<le> sw_expires r2 \<and> sw_expires r2 \<le> now + max_ttl_ms))"
  proof cases
    case 2
    with assms(1) have "w \<and> sw_expires r1 \<le> now + max_ttl_ms \<or> (\<exists>r. tb_get T k (en_table e) = Some r \<and>
      (sw_expires r1 = sw_expires r \<or> m \<and> sw_expires r \<le> sw_expires r1 \<and> sw_expires r1 \<le> now + max_ttl_ms))"
      unfolding deadline_from_def by blast
    then show ?thesis using 2(2) by (elim disjE exE conjE) force+
  qed simp
qed

lemma deadline_from_weaken:
  "deadline_from w m now e e' \<Longrightarrow> (w \<Longrightarrow> w') \<Longrightarrow> (m \<Longrightarrow> m') \<Longrightarrow> deadline_from w' m' now e e'"
  unfolding deadline_from_def by blast

lemma deadline_from_drop:
  "(\<And>k r. tb_get T k (en_table e') = Some r \<Longrightarrow> tb_get T k (en_table e) = Some r) \<Longrightarrow> deadline_from w m now e e'"
  by (force simp: deadline_from_def)

lemma deadline_from_live:
  assumes e: "engine_ok e" and l: "live_row T key now e = (current, e')"
  shows "deadline_from w m now e e'"
proof (rule deadline_from_drop)
  fix k r assume r: "tb_get T k (en_table e') = Some r"
  show "tb_get T k (en_table e) = Some r"
    using r live_row_ok(4-5) [OF e l] live_row_ok(6) [OF e l, of k] by (cases "k = key") (auto split: option.splits if_splits)
qed

lemma clamp_ttl_le: "clamp_ttl ttl \<le> max_ttl_ms" "0 < clamp_ttl ttl"
  by (simp_all add: clamp_ttl_def min_ttl_ms_def max_ttl_ms_def)

lemma deadline_from_write:
  assumes e: "engine_ok e" and w: "write_row T key v ttl n now e = (g, e')"
  shows "deadline_from True m now e e'"
  unfolding deadline_from_def
proof (intro allI impI)
  fix k r' assume r': "tb_get T k (en_table e') = Some r'"
  show "True \<and> sw_expires r' \<le> now + max_ttl_ms \<or> (\<exists>r. tb_get T k (en_table e) = Some r \<and>
      (sw_expires r' = sw_expires r \<or> m \<and> sw_expires r \<le> sw_expires r' \<and> sw_expires r' \<le> now + max_ttl_ms))"
  proof (cases "k = key")
    case True
    then show ?thesis using r' write_row_ok(5) [OF e w] clamp_ttl_le(1) [of ttl] by auto
  next
    case False
    then show ?thesis using write_row_ok(7) [OF e w False r'] by simp
  qed
qed

lemma deadline_from_apply:
  assumes e: "engine_ok e" and a: "apply_op T now op e = (r, e')"
  shows "deadline_from (writes_entry op) (moves_expiry op) now e e'"
proof (cases "op_key op = []")
  case True
  then show ?thesis using a by (simp add: apply_op_def deadline_from_refl)
next
  case False
  obtain current e1 where l: "live_row T (op_key op) now e = (current, e1)" by force
  note lr = live_row_ok [OF e l]
  note body = a [unfolded apply_op_def l Let_def prod.case, simplified False if_False]
  note live = deadline_from_live [OF e l]
  note step = deadline_from_trans [OF live [of False False], simplified]
  have ok: "ok (en_table e1)" using lr(2) by (simp add: engine_ok_def)
  show ?thesis
  proof (cases op)
    case (GetOp key slide)
    have slid: "deadline_from False True now e1 (e1\<lparr>en_table := tb_put T key (x\<lparr>sw_expires := t\<rparr>) (en_table e1)\<rparr>)"
      if "current = Some x" "t = max (sw_expires x) (now + clamp_ttl ttl)" "t \<noteq> sw_expires x" for x t ttl
    proof -
      have x: "tb_get T key (en_table e1) = Some x" using lr(4) that(1) GetOp by simp
      note fits = same_fits [OF lr(2) x]
      have "sw_expires x \<le> t" "t \<le> now + max_ttl_ms" using that(2,3) clamp_ttl_le(1) [of ttl] by (auto simp: max_def split: if_splits)
      then show ?thesis using x by (auto simp: deadline_from_def get_put [OF ok fits])
    qed
    show ?thesis
    proof (cases "\<exists>x ttl. current = Some x \<and> slide = Some ttl \<and> max (sw_expires x) (now + clamp_ttl ttl) \<noteq> sw_expires x")
      case True
      then obtain x ttl where x: "current = Some x" "slide = Some ttl" "max (sw_expires x) (now + clamp_ttl ttl) \<noteq> sw_expires x" by blast
      then have m: "max (sw_expires x) (now + clamp_ttl ttl) = now + clamp_ttl ttl" by (simp add: max_def split: if_splits)
      show ?thesis using body x step [OF slid [OF x(1) refl x(3)]] GetOp by (auto simp: m)
    next
      case False
      then have "e' = e1" using body GetOp by (auto simp: Let_def split: option.splits)
      then show ?thesis using live GetOp by simp
    qed
  next
    case (PutOp key v ttl expected n)
    then show ?thesis using body live step [OF deadline_from_write [OF lr(2)]] by (auto split: if_splits prod.splits)
  next
    case (IncrOp key ttl n)
    then show ?thesis using body step [OF deadline_from_write [OF lr(2)]] by (auto split: prod.splits)
  next
    case (DeleteOp key expected)
    have "deadline_from False False now e1 (e1\<lparr>en_table := tb_delete T key (en_table e1)\<rparr>)"
      by (rule deadline_from_drop) (simp add: get_delete [OF ok] split: if_splits)
    from step [OF this] show ?thesis using body live DeleteOp by (auto split: if_splits)
  qed
qed

lemma deadline_from_run:
  "engine_ok e \<Longrightarrow> deadline_from (list_ex writes_entry ops) (list_ex moves_expiry ops) now e (snd (run_ops T now ops e))"
proof (induction ops arbitrary: e)
  case Nil
  then show ?case by (simp add: deadline_from_refl)
next
  case (Cons op ops)
  obtain r e1 where a: "apply_op T now op e = (r, e1)" by force
  have "engine_ok e1" using apply_op_later [OF Cons.prems a] by (simp add: later_def)
  from deadline_from_trans [OF deadline_from_apply [OF Cons.prems a] Cons.IH [OF this]]
  show ?case by (simp add: a case_prod_unfold Let_def)
qed

end

subsection \<open>The alarm\<close>

lemma list_ex_writes_moves: "list_ex writes_entry ops \<Longrightarrow> list_ex moves_expiry ops"
proof -
  have "writes_entry op \<Longrightarrow> moves_expiry op" for op by (cases op) simp_all
  then show "list_ex writes_entry ops \<Longrightarrow> list_ex moves_expiry ops" by (auto simp: list_ex_iff)
qed

text \<open>
  What holds between calls: the engine is sound, an armed deadline is the alarm in the storage, and while the object holds
  entries an alarm is set that is due no later than any of them.
\<close>

definition alarm_covers :: "session_object \<Rightarrow> bool" where
  "alarm_covers s \<longleftrightarrow> (\<forall>k r. object_rows s k = Some r \<longrightarrow> (\<exists>a. so_alarm s = Some a \<and> a \<le> sw_expires r))"

definition object_ok :: "session_object \<Rightarrow> bool" where
  "object_ok s \<longleftrightarrow> sqlite.engine_ok (so_engine s) \<and> (\<forall>a. so_armed s = Some a \<longrightarrow> so_alarm s = Some a) \<and> alarm_covers s"

lemma next_expiry_least:
  assumes "sqlite.engine_ok (so_engine s)"
  shows "object_rows s k = Some r \<Longrightarrow> \<exists>e. next_expiry s = Some e \<and> e \<le> sw_expires r"
proof -
  have ok: "sqlite_ok (en_table (so_engine s))" using assms by (simp add: sqlite.engine_ok_def)
  assume r: "object_rows s k = Some r"
  then have "next_expiry s \<noteq> None" using sqlite.next_none [OF ok] by (auto simp: next_expiry_def)
  then obtain e where e: "next_expiry s = Some e" by blast
  then show ?thesis using sqlite.next_min [OF ok, of e] r by (auto simp: next_expiry_def)
qed

lemma arm_object_ok:
  assumes "sqlite.engine_ok (so_engine s)" "\<forall>a. so_armed s = Some a \<longrightarrow> so_alarm s = Some a"
  shows "object_ok (arm_object (next_expiry s) s)"
  using assms next_expiry_least [OF assms(1)]
  by (fastforce simp: object_ok_def alarm_covers_def arm_object_def split: option.splits)

lemma arm_object_engine [simp]: "so_engine (arm_object nxt s) = so_engine s" "so_until (arm_object nxt s) = so_until s"
  by (auto simp: arm_object_def split: option.splits)

lemma register_object_keeps:
  assumes "register_object name answers now (s, reg) = (s', reg')"
  shows "so_engine s' = so_engine s" "so_armed s' = so_armed s" "so_alarm s' = so_alarm s"
  using assms by (auto simp: register_object_def Let_def split: option.splits if_splits)

lemma empty_rows [simp]: "tb_get sqlite_table k empty_sqlite = None"
  by (simp add: sqlite_table_def sqlite_get_def empty_sqlite_def)

lemma new_engine_rows [simp]: "en_table (new_object_engine t) = t"
  by (simp add: new_object_engine_def new_engine_def)

lemma empty_engine_ok: "sqlite.engine_ok (new_object_engine empty_sqlite)"
  using start_ok by (simp add: new_object_engine_def)

lemma object_run_ok:
  assumes s: "object_ok s" and r: "object_run name answers ops now (s, reg) = (rs, s', reg')"
  shows "object_ok s'"
proof -
  let ?e = "snd (run_ops sqlite_table now ops (so_engine s))"
  let ?s1 = "s\<lparr>so_engine := ?e\<rparr>"
  let ?s2 = "if list_ex writes_entry ops then arm_object (next_expiry ?s1) ?s1 else ?s1"
  have e: "sqlite.engine_ok (so_engine s)" using s by (simp add: object_ok_def)
  have e': "sqlite.engine_ok ?e" using sqlite.run_ops_later [OF e] by (simp add: sqlite.later_def)
  have "object_ok ?s2"
  proof (cases "list_ex writes_entry ops")
    case True
    then show ?thesis using arm_object_ok [of ?s1] e' s by (simp add: object_ok_def)
  next
    case False
    have "\<exists>a. so_alarm s = Some a \<and> a \<le> sw_expires r'" if r': "tb_get sqlite_table k (en_table ?e) = Some r'" for k r'
    proof -
      obtain r where "object_rows s k = Some r" "sw_expires r \<le> sw_expires r'"
        using sqlite.deadline_from_run [OF e, of ops now] r' False unfolding sqlite.deadline_from_def by fastforce
      then show ?thesis using s by (fastforce simp: object_ok_def alarm_covers_def)
    qed
    then show ?thesis using False e' s by (simp add: object_ok_def alarm_covers_def)
  qed
  moreover have "so_engine s' = so_engine ?s2 \<and> so_armed s' = so_armed ?s2 \<and> so_alarm s' = so_alarm ?s2"
    using r register_object_keeps [of name answers now ?s2 reg s' reg']
    by (auto simp: object_run_def case_prod_unfold Let_def split: if_splits)
  ultimately show ?thesis by (simp add: object_ok_def alarm_covers_def)
qed

lemma object_sweep_ok:
  assumes e: "sqlite.engine_ok (so_engine s)"
  shows "object_ok (object_sweep now s)"
proof -
  let ?e = "snd (sweep_engine sqlite_table now (so_engine s))"
  let ?s1 = "s\<lparr>so_engine := ?e, so_armed := None\<rparr>"
  have e': "sqlite.engine_ok ?e" using sqlite.sweep_later [OF e] by (simp add: sqlite.later_def)
  have n: "fst (sweep_engine sqlite_table now (so_engine s)) = next_expiry ?s1"
    by (simp add: sweep_engine_def Let_def next_expiry_def)
  show ?thesis
  proof (cases "next_expiry ?s1")
    case None
    then have "object_sweep now s = ?s1\<lparr>so_alarm := None, so_engine := new_object_engine empty_sqlite\<rparr>"
      using n by (simp add: object_sweep_def case_prod_unfold)
    then show ?thesis using empty_engine_ok by (simp add: object_ok_def alarm_covers_def)
  next
    case (Some x)
    then have "object_sweep now s = arm_object (next_expiry ?s1) ?s1" using n by (simp add: object_sweep_def case_prod_unfold)
    then show ?thesis using arm_object_ok [of ?s1] e' by simp
  qed
qed

lemma object_step_ok:
  assumes s: "object_ok s"
  shows "object_ok (fst (run_object_step name st (s, reg)))"
proof (cases st)
  case (ObjRun ops now answers)
  obtain rs s' reg' where r: "object_run name answers ops now (s, reg) = (rs, s', reg')" by (metis prod_cases3)
  then show ?thesis using object_run_ok [OF s r] ObjRun by simp
next
  case (ObjAlarm now)
  have "sqlite.engine_ok (so_engine (s\<lparr>so_alarm := None\<rparr>))" using s by (simp add: object_ok_def)
  from object_sweep_ok [OF this] show ?thesis using s ObjAlarm by (simp add: object_alarm_def split: option.split)
next
  case ObjRestart
  have "sqlite.engine_ok (new_object_engine (en_table (so_engine s)))"
    using s sqlite.restart_ok [of "so_engine s"] by (simp add: object_ok_def new_object_engine_def)
  then show ?thesis using s ObjRestart by (simp add: object_restart_def object_ok_def alarm_covers_def)
next
  case ObjWipe
  then show ?thesis using empty_engine_ok by (simp add: object_wipe_def object_ok_def alarm_covers_def)
next
  case (ObjSweep now)
  then show ?thesis using object_sweep_ok [of s now] s by (simp add: object_ok_def)
qed (use s in simp_all)

lemma new_object_ok: "object_ok new_object"
  using empty_engine_ok by (simp add: new_object_def object_ok_def alarm_covers_def)

lemma object_steps_ok: "object_ok (fst (object_steps name sts))"
  unfolding object_steps_def
proof (induction sts rule: rev_induct)
  case Nil
  then show ?case by (simp add: new_object_ok)
next
  case (snoc st sts)
  then show ?case
    by (metis (no_types, lifting) foldl_Cons foldl_Nil foldl_append object_step_ok prod.collapse)
qed

subsection \<open>The registration\<close>

text \<open>
  Steps up to \<open>now\<close> in which every registration is answered and nobody else makes the control plane forget the instance.
\<close>

fun plain_step :: "string \<Rightarrow> ms \<Rightarrow> object_step \<Rightarrow> bool" where
  "plain_step name now (ObjRun ops t answers) = (t \<le> now \<and> answers)"
| "plain_step name now (PlaneRegister name' t expires) = (t \<le> now)"
| "plain_step name now (PlaneForget names) = (name \<notin> set names)"
| "plain_step name now _ = True"

text \<open>A time the control plane still knows the instance until, unless it is over by \<open>now\<close>.\<close>

definition known_until :: "string \<Rightarrow> ms \<Rightarrow> instance_table \<Rightarrow> ms \<Rightarrow> bool" where
  "known_until name now reg u \<longleftrightarrow> u \<le> now \<or> (\<exists>x. map_of reg name = Some x \<and> u \<le> x)"

definition registration_ok :: "string \<Rightarrow> ms \<Rightarrow> session_object \<times> instance_table \<Rightarrow> bool" where
  "registration_ok name now w \<longleftrightarrow> object_ok (fst w) \<and> distinct_keys (snd w) \<and> known_until name now (snd w) (so_until (fst w)) \<and>
     (\<forall>k r. object_rows (fst w) k = Some r \<longrightarrow>
        (\<exists>u. known_until name now (snd w) u \<and> sw_expires r \<le> u + max_ttl_ms div 2))"

lemma register_instance_distinct: "distinct_keys reg \<Longrightarrow> distinct_keys (register_instance name now expires reg)"
  by (simp add: register_instance_def Let_def)

lemma known_register:
  assumes "distinct_keys reg" "t \<le> now" "known_until name now reg u"
  shows "known_until name now (register_instance name' t expires reg) u"
proof (cases "u \<le> now")
  case False
  then obtain x where x: "map_of reg name = Some x" "u \<le> x" using assms(3) by (auto simp: known_until_def)
  then have "map_of (filter (\<lambda>(_, x). \<not> x \<le> t) reg) name = Some x"
    using False assms(1,2) by (simp add: map_of_filter_distinct)
  then show ?thesis using x(2)
    by (cases "name' = name") (auto simp: known_until_def register_instance_def Let_def update_conv)
qed (simp add: known_until_def)

lemma known_registered: "known_until name now (register_instance name t expires reg) expires"
  by (auto simp: known_until_def register_instance_def Let_def update_conv split: option.split)

lemma known_forget:
  assumes "name \<notin> set names"
  shows "map_of (forget_instances names reg) name = map_of reg name"
  using assms unfolding forget_instances_def by (induction names arbitrary: reg) (auto simp: delete_conv)

lemma forget_distinct: "distinct_keys reg \<Longrightarrow> distinct_keys (forget_instances names reg)"
  unfolding forget_instances_def by (induction names arbitrary: reg) auto

lemma half_week: "max_ttl_ms div 2 + max_ttl_ms div 2 = max_ttl_ms" "0 < max_ttl_ms div 2"
  by (simp_all add: max_ttl_ms_def)

lemma sweep_rows:
  assumes e: "sqlite.engine_ok (so_engine s)" and r: "object_rows (object_sweep now s) k = Some r"
  shows "object_rows s k = Some r"
proof -
  have ok: "sqlite_ok (en_table (so_engine s))" using e by (simp add: sqlite.engine_ok_def)
  have "tb_get sqlite_table k (tb_purge sqlite_table now (en_table (so_engine s))) = Some r"
    using r by (auto simp: object_sweep_def sweep_engine_def Let_def split: option.splits)
  then show ?thesis using sqlite.get_purge [OF ok] by (auto split: option.splits if_splits)
qed

lemma sweep_until [simp]: "so_until (object_sweep now s) = so_until s"
  by (auto simp: object_sweep_def case_prod_unfold Let_def split: option.split)

lemma registration_run:
  assumes w: "registration_ok name now (s, reg)" and name: "org_of_scoped_name name = Some org" "org \<noteq> global_org"
    and t: "t \<le> now" and r: "object_run name True ops t (s, reg) = (rs, s', reg')"
  shows "registration_ok name now (s', reg')"
proof -
  let ?e = "snd (run_ops sqlite_table t ops (so_engine s))"
  let ?s1 = "s\<lparr>so_engine := ?e\<rparr>"
  let ?s2 = "if list_ex writes_entry ops then arm_object (next_expiry ?s1) ?s1 else ?s1"
  have ok: "object_ok s" "distinct_keys reg" "known_until name now reg (so_until s)" using w by (simp_all add: registration_ok_def)
  have rows: "\<exists>u. known_until name now reg u \<and> sw_expires x \<le> u + max_ttl_ms div 2" if "object_rows s k = Some x" for k x
    using w that by (auto simp: registration_ok_def)
  have e: "sqlite.engine_ok (so_engine s)" using ok(1) by (simp add: object_ok_def)
  have from_run: "list_ex moves_expiry ops \<and> sw_expires x \<le> t + max_ttl_ms \<or> (\<exists>u. known_until name now reg u \<and> sw_expires x \<le> u + max_ttl_ms div 2)"
    if "tb_get sqlite_table k (en_table ?e) = Some x" for k x
  proof -
    from sqlite.deadline_from_run [OF e, of ops t] that list_ex_writes_moves [of ops]
    consider "list_ex moves_expiry ops \<and> sw_expires x \<le> t + max_ttl_ms" | r where "object_rows s k = Some r" "sw_expires x = sw_expires r"
      unfolding sqlite.deadline_from_def by blast
    then show ?thesis using rows by cases auto
  qed
  have s2: "so_engine ?s2 = ?e" "so_until ?s2 = so_until s" by simp_all
  have eng: "so_engine s' = ?e"
    using r register_object_keeps(1) [of name True t ?s2 reg s' reg'] s2(1)
    by (auto simp: object_run_def case_prod_unfold Let_def split: if_splits)
  have known: "distinct_keys reg' \<and> known_until name now reg' (so_until s') \<and> (\<forall>u. known_until name now reg u \<longrightarrow> known_until name now reg' u)
     \<and> (list_ex moves_expiry ops \<longrightarrow> next_expiry ?s2 \<noteq> None \<longrightarrow> t + max_ttl_ms \<le> so_until s' + max_ttl_ms div 2)"
  proof (cases "list_ex moves_expiry ops")
    case False
    then have "s' = ?s2 \<and> reg' = reg" using r by (auto simp: object_run_def case_prod_unfold Let_def)
    then show ?thesis using ok False s2(2) by simp
  next
    case True
    then have reg: "register_object name True t (?s2, reg) = (s', reg')"
      using r by (auto simp: object_run_def case_prod_unfold Let_def)
    show ?thesis
    proof (cases "next_expiry ?s2 = None \<or> so_until ?s2 - t > max_ttl_ms div 2")
      case True
      then have "s' = ?s2 \<and> reg' = reg" using reg name unfolding register_object_def by auto
      then show ?thesis using ok True s2(2) half_week by auto
    next
      case False
      then have "s' = ?s2\<lparr>so_until := t + max_ttl_ms\<rparr> \<and> reg' = register_instance name t (t + max_ttl_ms) reg"
        using reg name unfolding register_object_def by (auto simp: Let_def)
      then show ?thesis
        using register_instance_distinct [OF ok(2)] known_register [OF ok(2) t] known_registered half_week(2) by auto
    qed
  qed
  have nxt: "next_expiry ?s2 \<noteq> None" if "tb_get sqlite_table k (en_table ?e) = Some x" for k x
    using next_expiry_least [of ?s2 k x] that s2(1) sqlite.run_ops_later [OF e] by (auto simp: sqlite.later_def)
  have "object_ok s'" by (rule object_run_ok [OF ok(1) r])
  moreover have "\<exists>u. known_until name now reg' u \<and> sw_expires x \<le> u + max_ttl_ms div 2" if x: "object_rows s' k = Some x" for k x
  proof -
    have x': "tb_get sqlite_table k (en_table ?e) = Some x" using x eng by simp
    from from_run [OF x'] show ?thesis
    proof
      assume "list_ex moves_expiry ops \<and> sw_expires x \<le> t + max_ttl_ms"
      then have "sw_expires x \<le> so_until s' + max_ttl_ms div 2" using known nxt [OF x'] by linarith
      then show ?thesis using known by blast
    qed (use known in blast)
  qed
  ultimately show ?thesis using known by (simp add: registration_ok_def)
qed

lemma registration_step:
  assumes w: "registration_ok name now (s, reg)" and name: "org_of_scoped_name name = Some org" "org \<noteq> global_org"
    and now: "0 \<le> now" and st: "plain_step name now st"
  shows "registration_ok name now (run_object_step name st (s, reg))"
proof -
  have ok: "object_ok s" "distinct_keys reg" "known_until name now reg (so_until s)" using w by (simp_all add: registration_ok_def)
  have e: "sqlite.engine_ok (so_engine s)" using ok(1) by (simp add: object_ok_def)
  have ok': "object_ok (fst (run_object_step name st (s, reg)))" by (rule object_step_ok [OF ok(1)])
  have zero: "known_until name now reg 0" using now by (simp add: known_until_def)
  have fewer: "registration_ok name now (s', reg)" if "object_ok s'" "known_until name now reg (so_until s')"
      "\<And>k r. object_rows s' k = Some r \<Longrightarrow> object_rows s k = Some r" for s'
    using w that unfolding registration_ok_def by fastforce
  have sweep: "registration_ok name now (object_sweep t s', reg)" if "so_engine s' = so_engine s" "so_until s' = so_until s" for s' t
    by (rule fewer) (use that e ok object_sweep_ok [of s'] sweep_rows [where s = s' and now = t] in \<open>simp_all\<close>)
  have more: "registration_ok name now (s, reg')" if "distinct_keys reg'" "\<And>u. known_until name now reg u \<Longrightarrow> known_until name now reg' u" for reg'
    using w that unfolding registration_ok_def by (metis fst_conv snd_conv)
  show ?thesis
  proof (cases st)
    case (ObjRun ops t answers)
    obtain rs s' reg' where r: "object_run name True ops t (s, reg) = (rs, s', reg')" by (metis prod_cases3)
    then show ?thesis using registration_run [OF w name _ r] st ObjRun by simp
  next
    case (ObjSweep t)
    then show ?thesis using sweep [of s] by simp
  next
    case (ObjAlarm t)
    then show ?thesis using sweep [of "s\<lparr>so_alarm := None\<rparr>" t] w by (auto simp: object_alarm_def split: option.split)
  next
    case ObjWipe
    then show ?thesis using fewer [of "object_wipe s"] ok' zero by (simp add: object_wipe_def)
  next
    case ObjRestart
    then show ?thesis using fewer [of "object_restart s"] ok' zero by (simp add: object_restart_def)
  next
    case (PlaneRegister name' t expires)
    then show ?thesis using more register_instance_distinct [OF ok(2)] known_register [OF ok(2)] st by simp
  next
    case (PlaneForget names)
    then show ?thesis using more [OF forget_distinct [OF ok(2)]] known_forget [of name names reg] st by (simp add: known_until_def)
  qed
qed

lemma registration_steps:
  assumes name: "org_of_scoped_name name = Some org" "org \<noteq> global_org" and now: "0 \<le> now" and sts: "list_all (plain_step name now) sts"
  shows "registration_ok name now (object_steps name sts)"
  using sts unfolding object_steps_def
proof (induction sts rule: rev_induct)
  case Nil
  show ?case using now new_object_ok by (simp add: registration_ok_def known_until_def) (simp add: new_object_def)
next
  case (snoc st sts)
  obtain s reg where w: "foldl (\<lambda>w st. run_object_step name st w) (new_object, []) sts = (s, reg)" by force
  then have "registration_ok name now (s, reg)" using snoc by simp
  from registration_step [OF this name now] snoc.prems show ?case by (simp add: w)
qed

text \<open>What the session state Durable Object promises, for every sequence of calls, alarms, wipes and restarts.\<close>

lemmas object_eval = session_eval object_steps_def new_object_def new_object_engine_def object_run_def object_sweep_def
  object_alarm_def register_object_def register_instance_def list_instances_def next_expiry_def arm_object_def

lemma alarm_clears:
  assumes s: "object_ok s" and r: "object_rows s k = Some r" "sw_expires r \<le> now"
  shows "object_rows (object_alarm now s) k = None"
proof -
  obtain a where a: "so_alarm s = Some a" "a \<le> now" using s r by (fastforce simp: object_ok_def alarm_covers_def)
  have ok: "sqlite_ok (en_table (so_engine s))" and e: "sqlite.engine_ok (so_engine (s\<lparr>so_alarm := None\<rparr>))"
    using s by (simp_all add: object_ok_def sqlite.engine_ok_def)
  have "tb_get sqlite_table k (tb_purge sqlite_table now (en_table (so_engine s))) = None"
    using r by (simp add: sqlite.get_purge [OF ok])
  then show ?thesis
    using a by (auto simp: object_alarm_def object_sweep_def sweep_engine_def Let_def split: option.splits)
qed

text \<open>C35. An instance never keeps an entry for ever: while it holds one its alarm is set, due no later than the entry's
  deadline, and when it runs at or after that deadline the entry is deleted.
\<close>

theorem entries_have_an_alarm:
  assumes "object_rows (fst (object_steps name sts)) k = Some r"
  shows "(\<exists>a. so_alarm (fst (object_steps name sts)) = Some a \<and> a \<le> sw_expires r) \<and>
    (sw_expires r \<le> now \<longrightarrow> object_rows (object_alarm now (fst (object_steps name sts))) k = None)"
  using assms object_steps_ok [of name sts] alarm_clears [OF object_steps_ok assms]
  by (auto simp: object_ok_def alarm_covers_def)

theorem entries_have_an_alarm_witness:
  "\<exists>r. object_rows (fst (object_steps ''s'' [ObjRun [PutOp ''k'' ''v'' 4000 None None] 1000 True, ObjRestart])) ''k'' = Some r \<and>
     so_alarm (fst (object_steps ''s'' [ObjRun [PutOp ''k'' ''v'' 4000 None None] 1000 True, ObjRestart])) \<noteq> None"
proof -
  have "object_rows (fst (object_steps ''s'' [ObjRun [PutOp ''k'' ''v'' 4000 None None] 1000 True, ObjRestart])) ''k'' =
    Some \<lparr>sw_value = ''v'', sw_generation = 1000, sw_expires = 5000\<rparr>"
    by (simp add: object_eval object_restart_def org_of_scoped_name_def starts_with_def global_org_def)
  from this entries_have_an_alarm [OF this] show ?thesis by auto
qed

text \<open>Deleting an org finds the instances with long-lived entries: while registrations are answered, an instance of the org
  that holds an entry for more than half of the longest time to live is in the control plane's list.
\<close>

theorem long_lived_entries_are_registered:
  assumes "org_of_scoped_name name = Some org" "org \<noteq> global_org" "0 \<le> now" "list_all (plain_step name now) sts"
    and "object_rows (fst (object_steps name sts)) k = Some r" "now + 302400000 < sw_expires r"
  shows "name \<in> set (list_instances now (length (snd (object_steps name sts))) (snd (object_steps name sts)))"
proof -
  let ?reg = "snd (object_steps name sts)"
  have w: "registration_ok name now (object_steps name sts)" by (rule registration_steps [OF assms(1-4)])
  with assms(5) obtain u where u: "known_until name now ?reg u" "sw_expires r \<le> u + 302400000"
    unfolding registration_ok_def by (auto simp: max_ttl_ms_def)
  then obtain x where x: "map_of ?reg name = Some x" "now < x" using assms(6) by (auto simp: known_until_def)
  then have "(name, x) \<in> set (filter (\<lambda>(_, x). x > now) ?reg)" by (auto dest: map_of_SomeD)
  then have "name \<in> set (sort (map fst (filter (\<lambda>(_, x). x > now) ?reg)))" by force
  moreover have "length (sort (map fst (filter (\<lambda>(_, x). x > now) ?reg))) \<le> length ?reg" by simp
  ultimately show ?thesis unfolding list_instances_def by (metis take_all)
qed

theorem long_lived_entries_are_registered_witness:
  "''org.acme.s'' \<in> set (list_instances 2000 1
     (snd (object_steps ''org.acme.s'' [ObjRun [PutOp ''k'' ''v'' 400000000 None None] 1000 True])))"
proof -
  let ?w = "object_steps ''org.acme.s'' [ObjRun [PutOp ''k'' ''v'' 400000000 None None] 1000 True]"
  have org: "org_of_scoped_name ''org.acme.s'' = Some ''acme''" by code_simp
  have "object_rows (fst ?w) ''k'' = Some \<lparr>sw_value = ''v'', sw_generation = 1000, sw_expires = 400001000\<rparr>"
    and len: "length (snd ?w) = 1"
    by (simp_all add: object_eval org global_org_def)
  from long_lived_entries_are_registered [OF org _ _ _ this(1), of 2000] len show ?thesis by (simp add: global_org_def)
qed

text \<open>An entry can outlive the instance's registration: one written three days after the registration is read for three
  more days after the control plane's list no longer names the instance, so deleting the org then misses it.
\<close>

theorem live_entry_can_be_unregistered:
  "let (s, reg) = object_steps ''org.acme.s''
         [ObjRun [PutOp ''a'' ''v'' 604800000 None None] 1000 True, ObjRun [PutOp ''b'' ''w'' 604800000 None None] 259201000 True]
   in list_instances 604801000 10 reg = [] \<and>
      fst (object_run ''org.acme.s'' True [GetOp ''b'' None] 604801000 (s, reg)) = [OkResult 259201000 (Some ''w'')]"
proof -
  have org: "org_of_scoped_name ''org.acme.s'' = Some ''acme''" by code_simp
  show ?thesis by (simp add: object_eval org global_org_def)
qed

text \<open>Generations are reused: an instance that emptied itself starts again from nothing, so a clock no later than the
  highest generation given out gives an old one again, and a writer that held it overwrites the new entry.
\<close>

theorem generation_reused_after_emptying:
  "let w = object_steps ''s''
         [ObjRun [PutOp ''k'' ''a'' 1000 None None, PutOp ''k'' ''b'' 1000 None None] 5000 True, ObjRun [DeleteOp ''k'' None] 5000 True, ObjSweep 5000]
   in fst (object_run ''s'' True [PutOp ''k'' ''c'' 1000 (Some 0) None, PutOp ''k'' ''d'' 1000 (Some 5001) None] 5001 w) =
      [OkResult 5001 None, OkResult 5002 None] \<and>
      fst (object_run ''s'' True [PutOp ''k'' ''a'' 1000 None None, PutOp ''k'' ''b'' 1000 None None] 5000 (object_steps ''s'' [])) =
      [OkResult 5000 None, OkResult 5001 None]"
proof -
  have "org_of_scoped_name ''s'' = Some global_org" by code_simp
  then show ?thesis by (simp add: object_eval)
qed

end
