(* ===== verification/Session_Client.thy ===== *)
theory Session_Client
  imports Session_Properties Org_Names
begin

text \<open>
  The Worker's side of session state (\<open>client.ts\<close>): the names of the instances, the bounded backend in memory, and the
  compare-and-swap loop the replay stores update an entry with. The hash is a parameter; a backend answers a batch or
  fails.
\<close>

record session_address =
  ad_store :: string
  ad_scope :: string
  ad_session :: string

definition address_name :: "(string \<Rightarrow> string) \<Rightarrow> session_address \<Rightarrow> string" where
  "address_name sha256_hex a = ad_store a @ '':'' @ take 32 (sha256_hex (ad_scope a @ [CHR 0x00] @ ad_session a))"

definition org_address :: "string \<Rightarrow> session_address \<Rightarrow> session_address" where
  "org_address org a = (if org = global_org then a else a\<lparr>ad_store := org_scoped_name org (ad_store a)\<rparr>)"

subsection \<open>The backend in memory\<close>

type_synonym memory_engine = "(string, state_row) js_map engine"

type_synonym memory_instances = "(string, memory_engine) js_map"

definition max_memory_instances :: int where "max_memory_instances = 10240"

fun evict_instances :: "int \<Rightarrow> memory_instances \<Rightarrow> memory_instances" where
  "evict_instances limit [] = []"
| "evict_instances limit (x # m) = (if int (length (x # m)) \<ge> limit then evict_instances limit m else x # m)"

definition memory_run :: "(string \<Rightarrow> string) \<Rightarrow> session_address \<Rightarrow> state_op list \<Rightarrow> ms \<Rightarrow> memory_instances \<Rightarrow> state_result list \<times> memory_instances" where
  "memory_run sha256_hex address ops now instances =
     (let name = address_name sha256_hex address;
          (e, rest) = (case map_of instances name of
              None \<Rightarrow> (new_engine memory_table empty_memory, evict_instances max_memory_instances instances)
            | Some e \<Rightarrow> (e, AList.delete name instances));
          (results, e') = run_ops memory_table now ops e;
          instances' = AList.update name e' rest
      in (results, if tb_count memory_table (en_table e') = 0 then AList.delete name instances' else instances'))"

subsection \<open>Read, decide, write\<close>

record entry_options =
  eo_ttl :: ms
  eo_max :: "int option"
  eo_slide :: bool
  eo_known :: "(int \<times> string option) option"

datatype update = PutValue string | DeleteValue | KeepValue

type_synonym 's session_backend = "state_op list \<Rightarrow> 's \<Rightarrow> state_result list option \<times> 's"

definition max_cas_attempts :: nat where "max_cas_attempts = 5"

definition update_op :: "string \<Rightarrow> entry_options \<Rightarrow> int option \<Rightarrow> update \<Rightarrow> state_op" where
  "update_op key opts expected u =
     (case u of PutValue v \<Rightarrow> PutOp key v (eo_ttl opts) expected (eo_max opts) | _ \<Rightarrow> DeleteOp key expected)"

fun cas_loop :: "'s session_backend \<Rightarrow> string \<Rightarrow> entry_options \<Rightarrow> (string option \<Rightarrow> update) \<Rightarrow> nat \<Rightarrow> int \<Rightarrow> string option \<Rightarrow> 's \<Rightarrow>
    (bool \<times> int) option \<times> 's" where
  "cas_loop run key opts decide 0 generation current s = (Some (False, generation), s)"
| "cas_loop run key opts decide (Suc n) generation current s =
     (if decide current = KeepValue then (Some (False, generation), s)
      else case run [update_op key opts (Some generation) (decide current)] s of
             (None, s') \<Rightarrow> (None, s')
           | (Some results, s') \<Rightarrow>
               (case results of
                  OkResult g _ # _ \<Rightarrow> (Some (True, g), s')
                | ConflictResult g v # _ \<Rightarrow> cas_loop run key opts decide n g v s'
                | _ \<Rightarrow> (Some (False, generation), s')))"

definition update_entry :: "'s session_backend \<Rightarrow> string \<Rightarrow> entry_options \<Rightarrow> (string option \<Rightarrow> update) \<Rightarrow> 's \<Rightarrow> (bool \<times> int) option \<times> 's" where
  "update_entry run key opts decide s =
     (case eo_known opts of
        Some (generation, current) \<Rightarrow> cas_loop run key opts decide max_cas_attempts generation current s
      | None \<Rightarrow>
          (case run [GetOp key (if eo_slide opts then Some (eo_ttl opts) else None)] s of
             (None, s') \<Rightarrow> (None, s')
           | (Some results, s') \<Rightarrow>
               (case results of
                  OkResult g v # _ \<Rightarrow> cas_loop run key opts decide max_cas_attempts g v s'
                | _ \<Rightarrow> cas_loop run key opts decide max_cas_attempts 0 None s')))"

subsection \<open>Updates among other writers\<close>

text \<open>
  A backend over one instance that others use too: before each of our batches theirs run, at a time of their own; when the
  schedule ends the instance cannot be reached.
\<close>

fun contended_run :: "'t state_table \<Rightarrow> ((session_step list \<times> ms) list \<times> 't engine) session_backend" where
  "contended_run T ops ([], e) = (None, [], e)"
| "contended_run T ops ((sts, now) # rest, e) =
     (let (results, e') = run_ops T now ops (snd (session_runs T sts e)) in (Some results, rest, e'))"

definition live_value :: "'t state_table \<Rightarrow> string \<Rightarrow> ms \<Rightarrow> 't engine \<Rightarrow> string option" where
  "live_value T key now e =
     (case tb_get T key (en_table e) of None \<Rightarrow> None | Some r \<Rightarrow> if sw_expires r \<le> now then None else Some (sw_value r))"

context state_table_laws
begin

text \<open>What a client that read a generation and a value still knows: no other value ever has that generation.\<close>

definition knows :: "string \<Rightarrow> int \<Rightarrow> string option \<Rightarrow> 't engine \<Rightarrow> bool" where
  "knows key g v e \<longleftrightarrow> engine_ok e \<and>
     (g = 0 \<and> v = None \<or> 0 < g \<and> g \<le> en_last e \<and> (\<forall>r. tb_get T key (en_table e) = Some r \<longrightarrow> sw_generation r = g \<longrightarrow> v = Some (sw_value r)))"

lemma knows_later: "knows key g v e \<Longrightarrow> later e e' \<Longrightarrow> knows key g v e'"
  unfolding knows_def later_def by fastforce

lemma live_generation:
  assumes e: "engine_ok e"
  shows "knows key (case tb_get T key (en_table e) of None \<Rightarrow> 0 | Some r \<Rightarrow> if sw_expires r \<le> now then 0 else sw_generation r) (live_value T key now e) e"
  using e by (auto simp: knows_def live_value_def engine_ok_def split: option.split)

lemma matching_value:
  assumes k: "knows key g v e"
    and m: "\<not> generation_differs (Some g) (case tb_get T key (en_table e) of None \<Rightarrow> None | Some r \<Rightarrow> if sw_expires r \<le> now then None else Some r)"
  shows "v = live_value T key now e"
proof (cases "tb_get T key (en_table e)")
  case (Some r)
  then have "0 < sw_generation r" using k by (simp add: knows_def engine_ok_def)
  then show ?thesis using k m Some by (auto simp: knows_def live_value_def generation_differs_def split: if_splits)
qed (use k m in \<open>auto simp: knows_def live_value_def generation_differs_def\<close>)

text \<open>What one conditional update does.\<close>

lemma apply_update:
  assumes e: "engine_ok e" and k: "knows key g v e" and u: "u \<noteq> KeepValue"
    and a: "apply_op T now (update_op key opts (Some g) u) e = (r, e')"
  shows "r = OkResult g' x \<Longrightarrow> v = live_value T key now e \<and> e' = snd (apply_op T now (update_op key opts None u) e)"
    "r = ConflictResult g' x \<Longrightarrow> knows key g' x e'"
proof -
  obtain current e1 where l: "live_row T key now e = (current, e1)" by force
  note lr = live_row_ok [OF e l]
  have key: "op_key (update_op key opts (Some g) u) = key" by (cases u) (simp_all add: update_op_def)
  show "v = live_value T key now e \<and> e' = snd (apply_op T now (update_op key opts None u) e)" if "r = OkResult g' x"
  proof -
    have "op_applied (fst (apply_op T now (update_op key opts (Some g) u) e))" using a that by (simp add: op_applied_def)
    have m: "\<not> generation_differs (Some g) current" "key \<noteq> []"
      using a that l u by (cases u; auto simp: apply_op_def update_op_def Let_def conflict_of_def split: if_splits option.splits)+
    have "v = live_value T key now e" using matching_value [OF k] m(1) unfolding lr(5) by blast
    moreover have "generation_differs None current = False" by (simp add: generation_differs_def)
    ultimately show ?thesis using a m l u by (cases u) (auto simp: apply_op_def update_op_def Let_def split: if_splits)
  qed
  show "knows key g' x e'" if "r = ConflictResult g' x"
  proof -
    have "e' = e1" "ConflictResult g' x = conflict_of current"
      using a that l u by (cases u; auto simp: apply_op_def update_op_def Let_def split: if_splits prod.splits)+
    then show ?thesis using lr(2,4) by (auto simp: knows_def conflict_of_def engine_ok_def split: option.splits)
  qed
qed

lemma contended_later:
  assumes e: "engine_ok e" and sts: "Restart \<notin> set sts" and r: "contended_run T ops ((sts, now) # rest, e) = (res, w)"
  shows "later e (snd (session_runs T sts e))" "engine_ok (snd (session_runs T sts e))"
    "res = Some (fst (run_ops T now ops (snd (session_runs T sts e))))" "w = (rest, snd (run_ops T now ops (snd (session_runs T sts e))))"
  using session_runs_later [OF e sts] r by (auto simp: later_def case_prod_unfold Let_def)

text \<open>An applied update read, decided and wrote at one moment.\<close>

lemma cas_loop_atomic:
  assumes "knows key g v e" "\<forall>(sts, now) \<in> set w. Restart \<notin> set sts"
    and "cas_loop (contended_run T) key opts decide n g v (w, e) = (Some (True, g'), w', e')"
  shows "\<exists>e0 now. engine_ok e0 \<and> later e e0 \<and> decide (live_value T key now e0) \<noteq> KeepValue \<and>
    apply_op T now (update_op key opts None (decide (live_value T key now e0))) e0 = (OkResult g' None, e')"
  using assms
proof (induction n arbitrary: g v w e)
  case (Suc n)
  have ok: "engine_ok e" using Suc.prems(1) by (simp add: knows_def)
  have u: "decide v \<noteq> KeepValue" using Suc.prems(3) by auto
  obtain sts now rest where w: "w = (sts, now) # rest" using Suc.prems(3) u by (cases w) auto
  let ?e0 = "snd (session_runs T sts e)" and ?op = "update_op key opts (Some g) (decide v)"
  obtain res w1 where run: "contended_run T [?op] ((sts, now) # rest, e) = (res, w1)" by (rule prod.exhaust)
  have nr: "Restart \<notin> set sts" using Suc.prems(2) w by simp
  note c = contended_later [OF ok nr run]
  obtain r e1 where a: "apply_op T now ?op ?e0 = (r, e1)" by force
  have res: "res = Some [r]" "w1 = (rest, e1)" using c(3,4) a by simp_all
  have k0: "knows key g v ?e0" by (rule knows_later [OF Suc.prems(1) c(1)])
  note up = apply_update [OF c(2) k0 u a]
  have loop: "(case r of OkResult g _ \<Rightarrow> (Some (True, g), rest, e1)
        | ConflictResult g v \<Rightarrow> cas_loop (contended_run T) key opts decide n g v (rest, e1)
        | RejectedResult _ \<Rightarrow> (Some (False, g), rest, e1)) = (Some (True, g'), w', e')"
    using Suc.prems(3) u w run res by (simp del: contended_run.simps split: state_result.splits)
  show ?case
  proof (cases r)
    case (OkResult g1 x)
    have live: "v = live_value T key now ?e0" "e1 = snd (apply_op T now (update_op key opts None (decide v)) ?e0)"
      using up(1) [OF OkResult] by simp_all
    have same: "g1 = g'" "e1 = e'" using loop OkResult by simp_all
    obtain current e2 where l: "live_row T key now ?e0 = (current, e2)" by force
    have "fst (apply_op T now (update_op key opts None (decide v)) ?e0) = OkResult g1 None"
      using a OkResult u l
      by (cases "decide v") (auto simp: apply_op_def update_op_def Let_def conflict_of_def generation_differs_def split: if_splits prod.splits option.splits)
    then have "apply_op T now (update_op key opts None (decide v)) ?e0 = (OkResult g' None, e')"
      using live(2) same by (metis prod.collapse)
    then show ?thesis using c(1,2) live(1) u by metis
  next
    case (ConflictResult g1 x)
    have k1: "knows key g1 x e1" by (rule up(2) [OF ConflictResult])
    have "cas_loop (contended_run T) key opts decide n g1 x (rest, e1) = (Some (True, g'), w', e')" using loop ConflictResult by simp
    from Suc.IH [OF k1 _ this] Suc.prems(2) w
    obtain e0 now' where e0: "engine_ok e0" "later e1 e0" "decide (live_value T key now' e0) \<noteq> KeepValue"
      "apply_op T now' (update_op key opts None (decide (live_value T key now' e0))) e0 = (OkResult g' None, e')" by auto
    have "later e e1" by (rule later_trans [OF c(1) apply_op_later [OF c(2) a]])
    then show ?thesis using e0 later_trans by blast
  qed (use loop in simp)
qed simp

end

text \<open>What the Worker's side of session state promises the replay and continuity stores.\<close>

context state_table_laws
begin

lemma update_entry_atomic:
  assumes e: "engine_ok e" and w: "\<forall>(sts, now) \<in> set w. Restart \<notin> set sts" and key: "key \<noteq> []" "eo_known opts = None"
    and u: "update_entry (contended_run T) key opts decide (w, e) = (Some (True, g), w', e')"
  shows "\<exists>e0 now. engine_ok e0 \<and> later e e0 \<and> decide (live_value T key now e0) \<noteq> KeepValue \<and>
    apply_op T now (update_op key opts None (decide (live_value T key now e0))) e0 = (OkResult g None, e')"
proof -
  obtain sts now rest where wc: "w = (sts, now) # rest" using u key by (cases w) (auto simp: update_entry_def)
  let ?e0 = "snd (session_runs T sts e)" and ?op = "GetOp key (if eo_slide opts then Some (eo_ttl opts) else None)"
  obtain res w1 where run: "contended_run T [?op] ((sts, now) # rest, e) = (res, w1)" by (rule prod.exhaust)
  have nr: "Restart \<notin> set sts" using w wc by simp
  note c = contended_later [OF e nr run]
  obtain r e1 where a: "apply_op T now ?op ?e0 = (r, e1)" by (rule prod.exhaust)
  have res: "res = Some [r]" "w1 = (rest, e1)" using c(3,4) a by simp_all
  have r: "r = OkResult (case tb_get T key (en_table ?e0) of None \<Rightarrow> 0 | Some r \<Rightarrow> if sw_expires r \<le> now then 0 else sw_generation r)
      (live_value T key now ?e0)"
    using get_result [OF c(2) key(1), of now] a by (auto simp: live_value_def split: option.splits if_splits dest: arg_cong [where f = fst])
  have l: "later ?e0 e1" by (rule apply_op_later [OF c(2) a])
  then have ok: "later e e1" using later_trans [OF c(1)] by blast
  have k: "knows key (case tb_get T key (en_table ?e0) of None \<Rightarrow> 0 | Some r \<Rightarrow> if sw_expires r \<le> now then 0 else sw_generation r)
      (live_value T key now ?e0) e1"
    by (rule knows_later [OF live_generation [OF c(2)] l])
  have loop: "cas_loop (contended_run T) key opts decide max_cas_attempts
      (case tb_get T key (en_table ?e0) of None \<Rightarrow> 0 | Some r \<Rightarrow> if sw_expires r \<le> now then 0 else sw_generation r)
      (live_value T key now ?e0) (rest, e1) = (Some (True, g), w', e')"
    using u key(2) run res wc by (simp add: update_entry_def r del: contended_run.simps)
  have rest: "\<forall>(sts, now) \<in> set rest. Restart \<notin> set sts" using w wc by simp
  from cas_loop_atomic [OF k rest loop] show ?thesis using ok later_trans by blast
qed

end


definition append_mark :: "string option \<Rightarrow> update" where
  "append_mark v = PutValue (case v of None \<Rightarrow> ''x'' | Some s \<Rightarrow> s @ ''x'')"

definition example_options :: entry_options where
  "example_options = \<lparr>eo_ttl = 5000, eo_max = None, eo_slide = False, eo_known = None\<rparr>"


text \<open>Two orgs never share an instance: whatever the hash, as long as it has at least 32 digits, the addresses of two orgs
  have different names.
\<close>

theorem orgs_never_share_an_instance:
  assumes "is_org_id org" "is_org_id org'" "org \<noteq> org'"
    and "org = global_org \<Longrightarrow> \<not> starts_with (ad_store a) ''org.''" "org' = global_org \<Longrightarrow> \<not> starts_with (ad_store b) ''org.''"
    and "\<And>x. 32 \<le> length (sha256_hex x)"
  shows "address_name sha256_hex (org_address org a) \<noteq> address_name sha256_hex (org_address org' b)"
proof
  assume "address_name sha256_hex (org_address org a) = address_name sha256_hex (org_address org' b)"
  then have "ad_store (org_address org a) = ad_store (org_address org' b)"
    using assms(6) by (simp add: address_name_def)
  moreover have "ad_store (org_address o1 x) = org_scoped_name o1 (ad_store x)" for o1 x
    by (simp add: org_address_def org_scoped_name_def)
  ultimately show False using org_scoped_name_inj [OF assms(1,2,4,5)] assms(3) by auto
qed

theorem orgs_never_share_an_instance_witness:
  "address_name (\<lambda>x. replicate 64 CHR ''0'') (org_address ''acme'' \<lparr>ad_store = ''codex'', ad_scope = ''u'', ad_session = ''s''\<rparr>) \<noteq>
   address_name (\<lambda>x. replicate 64 CHR ''0'') (org_address global_org \<lparr>ad_store = ''codex'', ad_scope = ''u'', ad_session = ''s''\<rparr>)"
proof -
  have ids: "is_org_id ''acme''" "is_org_id global_org" "''acme'' \<noteq> global_org" "\<not> starts_with ''codex'' ''org.''" by code_simp+
  show ?thesis by (rule orgs_never_share_an_instance) (use ids in simp_all)
qed

subsection \<open>The backend in memory\<close>

definition memory_runs :: "(string \<Rightarrow> string) \<Rightarrow> (session_address \<times> state_op list \<times> ms) list \<Rightarrow> memory_instances" where
  "memory_runs sha256_hex calls = foldl (\<lambda>m (a, ops, now). snd (memory_run sha256_hex a ops now m)) [] calls"

definition instances_ok :: "memory_instances \<Rightarrow> bool" where
  "instances_ok m \<longleftrightarrow> distinct_keys m \<and> int (length m) \<le> max_memory_instances \<and>
     (\<forall>(k, e) \<in> set m. memory.engine_ok e \<and> tb_count memory_table (en_table e) \<noteq> 0)"

lemma evict_instances_suffix: "suffix (evict_instances limit m) m"
  by (induction m) (auto simp: suffix_ConsI)

lemma evict_instances_length: "0 < limit \<Longrightarrow> int (length (evict_instances limit m)) < limit"
  by (induction m) auto

lemma distinct_keys_suffix: "suffix m' m \<Longrightarrow> distinct_keys m \<Longrightarrow> distinct_keys m'"
  by (auto simp: distinct_keys_def suffix_def)

lemma update_fresh_length: "map_of m k = None \<Longrightarrow> length (AList.update k v m) = Suc (length m)"
  by (induction m) auto

lemma map_of_suffix_None: "suffix m' m \<Longrightarrow> map_of m k = None \<Longrightarrow> map_of m' k = None"
  by (auto simp: suffix_def map_add_def map_of_eq_None_iff)

lemma empty_memory_ok: "memory.engine_ok (new_engine memory_table empty_memory)"
  using empty_tables_same by (simp add: tables.same_engine_def)

lemma memory_run_ok:
  assumes m: "instances_ok m"
  shows "instances_ok (snd (memory_run sha256_hex a ops now m))"
proof -
  let ?name = "address_name sha256_hex a"
  obtain e rest where start: "(case map_of m ?name of
      None \<Rightarrow> (new_engine memory_table empty_memory, evict_instances max_memory_instances m)
    | Some e \<Rightarrow> (e, AList.delete ?name m)) = (e, rest)" by (rule prod.exhaust)
  have rest: "distinct_keys rest \<and> set rest \<subseteq> set m \<and> map_of rest ?name = None \<and> int (length rest) < max_memory_instances \<and> memory.engine_ok e"
  proof (cases "map_of m ?name")
    case None
    have s: "suffix (evict_instances max_memory_instances m) m" by (rule evict_instances_suffix)
    have "0 < max_memory_instances" by (simp add: max_memory_instances_def)
    then show ?thesis
      using None start m distinct_keys_suffix [OF s] set_mono_suffix [OF s] map_of_suffix_None [OF s None]
        evict_instances_length empty_memory_ok by (auto simp: instances_ok_def)
  next
    case (Some e1)
    then have mem: "(?name, e1) \<in> set m" by (rule map_of_SomeD)
    have del: "set (AList.delete ?name m) \<subseteq> set m" "map_of (AList.delete ?name m) ?name = None"
      by (auto simp: AList.delete_eq) [1] (simp add: delete_conv)
    have "length (AList.delete ?name m) < length m"
      using mem unfolding AList.delete_eq by (intro length_filter_less) auto
    then show ?thesis using Some start m mem del by (auto simp: instances_ok_def)
  qed
  let ?e' = "snd (run_ops memory_table now ops e)"
  have e': "memory.engine_ok ?e'" using memory.run_ops_later rest by (auto simp: memory.later_def)
  let ?m' = "AList.update ?name ?e' rest"
  have run: "snd (memory_run sha256_hex a ops now m) = (if tb_count memory_table (en_table ?e') = 0 then AList.delete ?name ?m' else ?m')"
    using start by (simp add: memory_run_def case_prod_unfold Let_def)
  have set: "p \<in> set ?m' \<Longrightarrow> p = (?name, ?e') \<or> p \<in> set rest" for p by (rule set_update_values)
  have len: "int (length ?m') \<le> max_memory_instances" using rest update_fresh_length [of rest ?name ?e'] by auto
  have "length (AList.delete ?name ?m') \<le> length ?m'" by (simp only: AList.delete_eq length_filter_le)
  then have fewer: "int (length (AList.delete ?name ?m')) \<le> max_memory_instances" using len by linarith
  show ?thesis
  proof (cases "tb_count memory_table (en_table ?e') = 0")
    case True
    have "p \<in> set (AList.delete ?name ?m') \<Longrightarrow> p \<in> set rest" for p using set [of p] by (auto simp: AList.delete_eq)
    then show ?thesis using run True rest fewer m by (fastforce simp: instances_ok_def)
  next
    case False
    then show ?thesis using run rest len set e' m by (fastforce simp: instances_ok_def)
  qed
qed

text \<open>The backend in memory stays within its 10240 instances, one per address, and keeps no instance that holds nothing.
\<close>

theorem memory_backend_is_bounded:
  "int (length (memory_runs sha256_hex calls)) \<le> 10240 \<and> distinct_keys (memory_runs sha256_hex calls) \<and>
   list_all (\<lambda>(name, e). tb_count memory_table (en_table e) > 0) (memory_runs sha256_hex calls)"
proof -
  have "instances_ok (memory_runs sha256_hex calls)"
    unfolding memory_runs_def
  proof (induction calls rule: rev_induct)
    case Nil
    show ?case by (simp add: instances_ok_def max_memory_instances_def)
  next
    case (snoc c calls)
    then show ?case using memory_run_ok by (simp add: case_prod_unfold)
  qed
  moreover have "0 \<le> tb_count memory_table m" for m by (simp add: memory_table_def)
  ultimately show ?thesis by (fastforce simp: instances_ok_def max_memory_instances_def list_all_iff order_le_less)
qed

end
