(* ===== verification/Leases.thy ===== *)
theory Leases
  imports Prelude
begin

text \<open>
  Named leases in a Durable Object's SQLite storage (\<open>packages/state/src/lease.ts\<close>): each name has a table of its own with
  at most one row. The storage lists its tables in order of creation; the random UUID of a token and the object's clock are
  arguments.
\<close>

datatype lease_source = Cron | Panel

record named_lease =
  nl_token :: string
  nl_source :: lease_source
  nl_started :: ms
  nl_renewed :: ms

record lease_row =
  lr_token :: string
  lr_source :: string
  lr_started :: ms
  lr_renewed :: ms

text \<open>A table from before leases were renewed has no column for it.\<close>

record lease_sql =
  lt_renewable :: bool
  lt_row :: "lease_row option"

record lease_store =
  ls_ready :: "string list"
  ls_tables :: "(string, lease_sql) js_map"

datatype take_lease = Taken named_lease | Held named_lease

datatype lease_error = InvalidLeaseName string

definition lease_ttl_ms :: ms where "lease_ttl_ms = 2 * 60000"

definition may_take :: "named_lease option \<Rightarrow> ms \<Rightarrow> bool" where
  "may_take current now = (case current of None \<Rightarrow> True | Some l \<Rightarrow> now - nl_renewed l \<ge> lease_ttl_ms)"

definition lower_letter :: "char \<Rightarrow> bool" where
  "lower_letter c \<longleftrightarrow> (let n = (of_char c :: nat) in 97 \<le> n \<and> n \<le> 122)"

definition lease_name :: "string \<Rightarrow> bool" where
  "lease_name s \<longleftrightarrow> (case s of [] \<Rightarrow> False | c # cs \<Rightarrow> lower_letter c \<and> list_all (\<lambda>d. lower_letter d \<or> is_digit d \<or> d = CHR ''_'') cs)"

definition table_name :: "string \<Rightarrow> string" where
  "table_name name = name @ ''_lease''"

text \<open>\<open>#table\<close>: the table of a name, made sure of once.\<close>

definition ensure_table :: "string \<Rightarrow> lease_store \<Rightarrow> lease_store" where
  "ensure_table name s =
     (if name \<in> set (ls_ready s) then s
      else let t = table_name name;
               kept = (case map_of (ls_tables s) t of
                   Some tb \<Rightarrow> if lt_renewable tb then ls_tables s else AList.delete t (ls_tables s)
                 | None \<Rightarrow> ls_tables s);
               made = (if map_of kept t = None then AList.update t \<lparr>lt_renewable = True, lt_row = None\<rparr> kept else kept)
           in \<lparr>ls_ready = ls_ready s @ [name], ls_tables = made\<rparr>)"

definition lease_table :: "string \<Rightarrow> lease_store \<Rightarrow> lease_error + lease_store" where
  "lease_table name s = (if lease_name name then Inr (ensure_table name s) else Inl (InvalidLeaseName name))"

definition table_row :: "string \<Rightarrow> lease_store \<Rightarrow> lease_row option" where
  "table_row t s = (case map_of (ls_tables s) t of None \<Rightarrow> None | Some tb \<Rightarrow> lt_row tb)"

definition set_row :: "string \<Rightarrow> lease_row option \<Rightarrow> lease_store \<Rightarrow> lease_store" where
  "set_row t r s =
     s\<lparr>ls_tables := AList.map_entry t (\<lambda>tb. tb\<lparr>lt_row := r\<rparr>) (ls_tables s)\<rparr>"

definition read_lease :: "lease_row \<Rightarrow> named_lease" where
  "read_lease r = \<lparr>nl_token = lr_token r, nl_source = (if lr_source r = ''cron'' then Cron else Panel),
     nl_started = lr_started r, nl_renewed = lr_renewed r\<rparr>"

definition lease_current :: "string \<Rightarrow> lease_store \<Rightarrow> lease_error + (named_lease option \<times> lease_store)" where
  "lease_current name s =
     (case lease_table name s of
        Inl e \<Rightarrow> Inl e
      | Inr s1 \<Rightarrow> Inr (map_option read_lease (table_row (table_name name) s1), s1))"

definition source_text :: "lease_source \<Rightarrow> string" where
  "source_text src = (case src of Cron \<Rightarrow> ''cron'' | Panel \<Rightarrow> ''panel'')"

definition lease_take :: "string \<Rightarrow> lease_source \<Rightarrow> string \<Rightarrow> ms \<Rightarrow> lease_store \<Rightarrow> lease_error + (take_lease \<times> lease_store)" where
  "lease_take name src uuid now s =
     (case lease_current name s of
        Inl e \<Rightarrow> Inl e
      | Inr (current, s1) \<Rightarrow>
          (case current of
             Some held \<Rightarrow>
               if \<not> may_take (Some held) now then Inr (Held held, s1)
               else Inr (let l = \<lparr>nl_token = name @ '':'' @ uuid, nl_source = src, nl_started = now, nl_renewed = now\<rparr>
                         in (Taken l, set_row (table_name name)
                              (Some \<lparr>lr_token = nl_token l, lr_source = source_text src, lr_started = now, lr_renewed = now\<rparr>) s1))
           | None \<Rightarrow>
               Inr (let l = \<lparr>nl_token = name @ '':'' @ uuid, nl_source = src, nl_started = now, nl_renewed = now\<rparr>
                    in (Taken l, set_row (table_name name)
                         (Some \<lparr>lr_token = nl_token l, lr_source = source_text src, lr_started = now, lr_renewed = now\<rparr>) s1))))"

text \<open>
  \<open>#tablesOf\<close>: the names whose tables a token may hold a lease in, each table made sure of. \<open>LIKE\<close> ignores case.
\<close>

definition names_of_token :: "string \<Rightarrow> lease_store \<Rightarrow> string list" where
  "names_of_token token s =
     (case index_of '':'' token of
        Some i \<Rightarrow> (let name = take i token in if lease_name name then [name] else [])
      | None \<Rightarrow>
          filter lease_name
            (map (\<lambda>(t, _). take (length t - 6) t) (filter (\<lambda>(t, _). ends_with (js_lower t) ''_lease'') (ls_tables s))))"

definition tables_of :: "string \<Rightarrow> lease_store \<Rightarrow> string list \<times> lease_store" where
  "tables_of token s =
     (let names = names_of_token token s in (map table_name names, foldl (\<lambda>s name. ensure_table name s) s names))"

fun renew_in :: "string list \<Rightarrow> string \<Rightarrow> ms \<Rightarrow> lease_store \<Rightarrow> bool \<times> lease_store" where
  "renew_in [] token now s = (False, s)"
| "renew_in (t # ts) token now s =
     (case table_row t s of
        Some r \<Rightarrow> if lr_token r = token then (True, set_row t (Some (r\<lparr>lr_renewed := now\<rparr>)) s) else renew_in ts token now s
      | None \<Rightarrow> renew_in ts token now s)"

definition lease_renew :: "string \<Rightarrow> ms \<Rightarrow> lease_store \<Rightarrow> bool \<times> lease_store" where
  "lease_renew token now s = (let (ts, s1) = tables_of token s in renew_in ts token now s1)"

definition delete_token :: "string \<Rightarrow> string \<Rightarrow> lease_store \<Rightarrow> lease_store" where
  "delete_token token t s =
     (case table_row t s of None \<Rightarrow> s | Some r \<Rightarrow> if lr_token r = token then set_row t None s else s)"

definition lease_release :: "string \<Rightarrow> lease_store \<Rightarrow> lease_store" where
  "lease_release token s = (let (ts, s1) = tables_of token s in foldl (\<lambda>s t. delete_token token t s) s1 ts)"

text \<open>The object started again: it makes sure of its tables anew.\<close>

definition lease_restart :: "lease_store \<Rightarrow> lease_store" where
  "lease_restart s = s\<lparr>ls_ready := []\<rparr>"

datatype lease_op =
    TakeOp string lease_source string ms
  | RenewOp string ms
  | ReleaseOp string
  | CurrentOp string
  | RestartOp

fun lease_step :: "lease_op \<Rightarrow> lease_store \<Rightarrow> lease_store" where
  "lease_step (TakeOp name src uuid now) s = (case lease_take name src uuid now s of Inl _ \<Rightarrow> s | Inr (_, s') \<Rightarrow> s')"
| "lease_step (RenewOp token now) s = snd (lease_renew token now s)"
| "lease_step (ReleaseOp token) s = lease_release token s"
| "lease_step (CurrentOp name) s = (case lease_current name s of Inl _ \<Rightarrow> s | Inr (_, s') \<Rightarrow> s')"
| "lease_step RestartOp s = lease_restart s"

definition lease_steps :: "lease_op list \<Rightarrow> lease_store \<Rightarrow> lease_store" where
  "lease_steps ops s = foldl (\<lambda>s op. lease_step op s) s ops"

subsection \<open>The row of a lease\<close>

text \<open>The lease of a name as a caller sees it.\<close>

definition lease_held :: "string \<Rightarrow> lease_store \<Rightarrow> named_lease option" where
  "lease_held name s = map_option read_lease (table_row (table_name name) (ensure_table name s))"

definition tables_ready :: "lease_store \<Rightarrow> bool" where
  "tables_ready s \<longleftrightarrow> (\<forall>name \<in> set (ls_ready s). \<exists>tb. map_of (ls_tables s) (table_name name) = Some tb \<and> lt_renewable tb)"

lemma table_name_inj [simp]: "table_name a = table_name b \<longleftrightarrow> a = b"
  by (simp add: table_name_def)

lemma ensure_ready: "tables_ready s \<Longrightarrow> tables_ready (ensure_table name s)"
  unfolding tables_ready_def ensure_table_def by (auto simp: Let_def update_conv delete_conv split: option.splits)

lemma ensure_renewable: "tables_ready s \<Longrightarrow> \<exists>tb. map_of (ls_tables (ensure_table name s)) (table_name name) = Some tb \<and> lt_renewable tb"
  unfolding tables_ready_def ensure_table_def by (auto simp: Let_def update_conv delete_conv split: option.splits)

lemma ensure_in_ready: "name \<in> set (ls_ready (ensure_table name s))"
  by (simp add: ensure_table_def Let_def)

lemma ensure_id: "name \<in> set (ls_ready s) \<Longrightarrow> ensure_table name s = s"
  by (simp add: ensure_table_def)

lemma ensure_other:
  assumes "name' \<noteq> name"
  shows "map_of (ls_tables (ensure_table name' s)) (table_name name) = map_of (ls_tables s) (table_name name)"
    "name \<in> set (ls_ready (ensure_table name' s)) \<longleftrightarrow> name \<in> set (ls_ready s)"
  using assms by (auto simp: ensure_table_def Let_def update_conv delete_conv split: option.split)

lemma held_ensure:
  assumes "tables_ready s"
  shows "lease_held name (ensure_table name' s) = lease_held name s"
proof (cases "name' = name")
  case True
  then show ?thesis by (simp add: lease_held_def ensure_id [OF ensure_in_ready])
next
  case False
  note o = ensure_other [OF False, of s]
  show ?thesis
  proof (cases "name \<in> set (ls_ready s)")
    case True
    then show ?thesis using o by (simp add: lease_held_def ensure_id table_row_def)
  next
    case notin: False
    then have "map_of (ls_tables (ensure_table name (ensure_table name' s))) (table_name name) = map_of (ls_tables (ensure_table name s)) (table_name name)"
      using o by (auto simp: ensure_table_def [of name] Let_def update_conv delete_conv split: option.split)
    then show ?thesis by (simp add: lease_held_def table_row_def)
  qed
qed

text \<open>
  One holder at a time: what each operation does to the lease of a name, and the properties of sequences of operations over
  any storage, tables of earlier versions included.
\<close>

lemma map_of_set_row:
  "map_of (ls_tables (set_row t r s)) t' =
    (if t' = t then map_option (\<lambda>tb. tb\<lparr>lt_row := r\<rparr>) (map_of (ls_tables s) t) else map_of (ls_tables s) t')"
  by (auto simp: set_row_def map_of_map_entry split: option.split)

lemma set_row_ready [simp]: "ls_ready (set_row t r s) = ls_ready s"
  by (simp add: set_row_def)

lemma tables_ready_set: "tables_ready s \<Longrightarrow> tables_ready (set_row t r s)"
  unfolding tables_ready_def by (fastforce simp: map_of_set_row)

lemma held_set:
  assumes ok: "tables_ready s" and name': "name' \<in> set (ls_ready s)"
  shows "lease_held name (set_row (table_name name') r s) = (if name' = name then map_option read_lease r else lease_held name s)"
proof (cases "name' = name")
  case True
  obtain tb where "map_of (ls_tables s) (table_name name) = Some tb" using ok name' True by (auto simp: tables_ready_def)
  then show ?thesis using True name' by (simp add: lease_held_def ensure_id table_row_def map_of_set_row)
next
  case False
  have "map_of (ls_tables (ensure_table name (set_row (table_name name') r s))) (table_name name) = map_of (ls_tables (ensure_table name s)) (table_name name)"
    using False by (auto simp: ensure_table_def Let_def map_of_set_row update_conv delete_conv split: option.split)
  then show ?thesis using False by (simp add: lease_held_def table_row_def)
qed

lemma held_row: "name \<in> set (ls_ready s) \<Longrightarrow> lease_held name s = map_option read_lease (table_row (table_name name) s)"
  by (simp add: lease_held_def ensure_id)

lemma read_written [simp]:
  "read_lease \<lparr>lr_token = t, lr_source = source_text src, lr_started = a, lr_renewed = b\<rparr> = \<lparr>nl_token = t, nl_source = src, nl_started = a, nl_renewed = b\<rparr>"
  by (cases src) (simp_all add: read_lease_def source_text_def)

definition new_lease :: "string \<Rightarrow> lease_source \<Rightarrow> string \<Rightarrow> ms \<Rightarrow> named_lease" where
  "new_lease name src uuid now = \<lparr>nl_token = name @ '':'' @ uuid, nl_source = src, nl_started = now, nl_renewed = now\<rparr>"

lemma take_result:
  assumes ok: "tables_ready s" and t: "lease_take name src uuid now s = Inr (res, s')"
  shows "tables_ready s'" "lease_name name"
    "may_take (lease_held name s) now \<Longrightarrow> res = Taken (new_lease name src uuid now) \<and> lease_held name s' = Some (new_lease name src uuid now)"
    "\<not> may_take (lease_held name s) now \<Longrightarrow> \<exists>l. res = Held l \<and> lease_held name s = Some l \<and> lease_held name s' = Some l"
    "name' \<noteq> name \<Longrightarrow> lease_held name' s' = lease_held name' s"
proof -
  let ?s1 = "ensure_table name s"
  have n: "lease_name name" using t by (auto simp: lease_take_def lease_current_def lease_table_def split: if_splits)
  have ok1: "tables_ready ?s1" by (rule ensure_ready [OF ok])
  have held: "map_option read_lease (table_row (table_name name) ?s1) = lease_held name s" by (simp add: lease_held_def)
  note set = held_set [OF ok1 ensure_in_ready]
  have body: "if may_take (lease_held name s) now
      then res = Taken (new_lease name src uuid now) \<and> s' = set_row (table_name name)
        (Some \<lparr>lr_token = name @ '':'' @ uuid, lr_source = source_text src, lr_started = now, lr_renewed = now\<rparr>) ?s1
      else \<exists>l. lease_held name s = Some l \<and> res = Held l \<and> s' = ?s1"
    using t n unfolding lease_take_def lease_current_def lease_table_def
    by (auto simp: held Let_def new_lease_def may_take_def split: option.splits if_splits)
  show "lease_name name" by (rule n)
  show "tables_ready s'" using body ok1 tables_ready_set by (auto split: if_splits)
  show "may_take (lease_held name s) now \<Longrightarrow> res = Taken (new_lease name src uuid now) \<and> lease_held name s' = Some (new_lease name src uuid now)"
    using body set by (simp add: new_lease_def)
  show "\<not> may_take (lease_held name s) now \<Longrightarrow> \<exists>l. res = Held l \<and> lease_held name s = Some l \<and> lease_held name s' = Some l"
    using body held_ensure [OF ok] by auto
  show "name' \<noteq> name \<Longrightarrow> lease_held name' s' = lease_held name' s"
    using body set held_ensure [OF ok] by (auto split: if_splits)
qed

lemma ensure_all:
  "tables_ready s \<Longrightarrow> tables_ready (foldl (\<lambda>s name. ensure_table name s) s names) \<and>
     lease_held name (foldl (\<lambda>s name. ensure_table name s) s names) = lease_held name s \<and>
     set names \<union> set (ls_ready s) \<subseteq> set (ls_ready (foldl (\<lambda>s name. ensure_table name s) s names))"
proof (induction names arbitrary: s)
  case (Cons n names)
  have "set (ls_ready s) \<subseteq> set (ls_ready (ensure_table n s))" by (auto simp: ensure_table_def Let_def)
  then show ?case
    using Cons.IH [OF ensure_ready [OF Cons.prems, of n]] held_ensure [OF Cons.prems, of name n] ensure_in_ready [of n s] by auto
qed simp

lemma tables_of_result:
  assumes ok: "tables_ready s" and t: "tables_of token s = (ts, s')"
  shows "tables_ready s'" "lease_held name s' = lease_held name s" "\<exists>names. ts = map table_name names \<and> set names \<subseteq> set (ls_ready s')"
    "ts = map table_name (names_of_token token s)"
  using ensure_all [OF ok, where name = name and names = "names_of_token token s"] t by (auto simp: tables_of_def Let_def)

lemma renew_in_result:
  assumes "tables_ready s" "set names \<subseteq> set (ls_ready s)"
  shows "tables_ready (snd (renew_in (map table_name names) token now s)) \<and>
    (lease_held name (snd (renew_in (map table_name names) token now s)) = lease_held name s \<or>
     (\<exists>l. lease_held name s = Some l \<and> nl_token l = token \<and>
        lease_held name (snd (renew_in (map table_name names) token now s)) = Some (l\<lparr>nl_renewed := now\<rparr>)))"
  using assms
proof (induction names)
  case (Cons n names)
  show ?case
  proof (cases "\<exists>r. table_row (table_name n) s = Some r \<and> lr_token r = token")
    case True
    then obtain r where r: "table_row (table_name n) s = Some r" "lr_token r = token" by blast
    have n: "n \<in> set (ls_ready s)" using Cons.prems(2) by simp
    have "lease_held n s = Some (read_lease r)" using held_row [OF n] r by simp
    then show ?thesis
      using r tables_ready_set [OF Cons.prems(1)] held_set [OF Cons.prems(1) n, where name = name and r = "Some (r\<lparr>lr_renewed := now\<rparr>)"]
      by (auto simp: read_lease_def)
  next
    case False
    then show ?thesis using Cons by (auto split: option.split)
  qed
qed simp

lemma renew_result:
  assumes ok: "tables_ready s"
  shows "tables_ready (snd (lease_renew token now s)) \<and>
    (lease_held name (snd (lease_renew token now s)) = lease_held name s \<or>
     (\<exists>l. lease_held name s = Some l \<and> nl_token l = token \<and> lease_held name (snd (lease_renew token now s)) = Some (l\<lparr>nl_renewed := now\<rparr>)))"
proof -
  obtain ts s' where t: "tables_of token s = (ts, s')" by (rule prod.exhaust)
  note r = tables_of_result [OF ok t]
  obtain names where n: "ts = map table_name names" "set names \<subseteq> set (ls_ready s')" using r(3) by blast
  show ?thesis using renew_in_result [OF r(1) n(2), where token = token and now = now and name = name] t r(2) by (simp add: lease_renew_def n(1))
qed

lemma delete_token_result:
  assumes "tables_ready s" "n \<in> set (ls_ready s)"
  shows "tables_ready (delete_token token (table_name n) s)" "ls_ready (delete_token token (table_name n) s) = ls_ready s"
    "lease_held name (delete_token token (table_name n) s) = lease_held name s \<or>
     (\<exists>l. lease_held name s = Some l \<and> nl_token l = token \<and> lease_held name (delete_token token (table_name n) s) = None)"
  using tables_ready_set [OF assms(1)] held_set [OF assms, where name = name and r = None] held_row [OF assms(2)] assms(1)
  by (auto simp: delete_token_def read_lease_def split: option.split)

lemma delete_tokens_result:
  assumes "tables_ready s" "set names \<subseteq> set (ls_ready s)"
  shows "tables_ready (foldl (\<lambda>s t. delete_token token t s) s (map table_name names)) \<and>
    (lease_held name (foldl (\<lambda>s t. delete_token token t s) s (map table_name names)) = lease_held name s \<or>
     (\<exists>l. lease_held name s = Some l \<and> nl_token l = token))"
  using assms
proof (induction names arbitrary: s)
  case (Cons n names)
  note d = delete_token_result [OF Cons.prems(1), where n = n and token = token]
  have "tables_ready (delete_token token (table_name n) s)" "set names \<subseteq> set (ls_ready (delete_token token (table_name n) s))"
    using d(1,2) Cons.prems(2) by simp_all
  note ih = Cons.IH [OF this]
  show ?case
  proof (cases "\<exists>l. lease_held name s = Some l \<and> nl_token l = token")
    case True
    then show ?thesis using ih by simp
  next
    case False
    then have "lease_held name (delete_token token (table_name n) s) = lease_held name s"
      using d(3) [where name = name] Cons.prems(2) by auto
    then show ?thesis using ih by simp
  qed
qed simp

lemma release_result:
  assumes ok: "tables_ready s"
  shows "tables_ready (lease_release token s) \<and>
    (lease_held name (lease_release token s) = lease_held name s \<or> (\<exists>l. lease_held name s = Some l \<and> nl_token l = token))"
proof -
  obtain ts s' where t: "tables_of token s = (ts, s')" by (rule prod.exhaust)
  note r = tables_of_result [OF ok t]
  obtain names where n: "ts = map table_name names" "set names \<subseteq> set (ls_ready s')" using r(3) by blast
  show ?thesis using delete_tokens_result [OF r(1) n(2), where token = token and name = name] t r(2) by (simp add: lease_release_def n(1))
qed

lemma current_result:
  "tables_ready s \<Longrightarrow> lease_current name s = Inr (l, s') \<Longrightarrow> tables_ready s' \<and> l = lease_held name s \<and> lease_held name' s' = lease_held name' s"
  by (auto simp: lease_current_def lease_table_def lease_held_def [of name] ensure_ready held_ensure split: if_splits)

subsection \<open>Sequences of operations\<close>

lemma step_ready:
  assumes ok: "tables_ready s"
  shows "tables_ready (lease_step op s)"
proof (cases op)
  case (TakeOp name src uuid now)
  then show ?thesis using take_result(1) [OF ok] ok by (auto split: sum.split)
next
  case (CurrentOp name)
  then show ?thesis using current_result [OF ok] ok by (auto split: sum.split)
next
  case RestartOp
  then show ?thesis using ok by (simp add: lease_restart_def tables_ready_def)
qed (use renew_result [OF ok] release_result [OF ok] in simp_all)

lemma steps_ready: "tables_ready s \<Longrightarrow> tables_ready (lease_steps ops s)"
  unfolding lease_steps_def by (induction ops arbitrary: s) (simp_all add: step_ready)

lemma restart_held: "tables_ready s \<Longrightarrow> lease_held name (lease_restart s) = lease_held name s"
proof (cases "name \<in> set (ls_ready s)")
  case True
  assume "tables_ready s"
  then obtain tb where "map_of (ls_tables s) (table_name name) = Some tb" "lt_renewable tb" using True by (auto simp: tables_ready_def)
  then show ?thesis using True by (simp add: lease_held_def lease_restart_def ensure_table_def table_row_def Let_def)
next
  case False
  have "ls_tables (ensure_table name (lease_restart s)) = ls_tables (ensure_table name s)"
    using False by (auto simp: lease_restart_def ensure_table_def Let_def split: option.split)
  then show ?thesis by (simp add: lease_held_def table_row_def)
qed

text \<open>An operation of others, within the time the holder of a lease is given.\<close>

fun spares_holder :: "string \<Rightarrow> ms \<Rightarrow> lease_op \<Rightarrow> bool" where
  "spares_holder token t0 (TakeOp _ _ _ now) = (now < t0 + 120000)"
| "spares_holder token t0 (RenewOp token' now) = (token' = token \<longrightarrow> t0 \<le> now)"
| "spares_holder token t0 (ReleaseOp token') = (token' \<noteq> token)"
| "spares_holder token t0 _ = True"

definition held_by :: "string \<Rightarrow> string \<Rightarrow> ms \<Rightarrow> lease_store \<Rightarrow> bool" where
  "held_by name token t0 s \<longleftrightarrow> tables_ready s \<and> (\<exists>l. lease_held name s = Some l \<and> nl_token l = token \<and> t0 \<le> nl_renewed l)"

lemma held_refuses: "held_by name token t0 s \<Longrightarrow> now < t0 + 120000 \<Longrightarrow> \<not> may_take (lease_held name s) now"
  by (auto simp: held_by_def may_take_def lease_ttl_ms_def)

lemma held_by_step:
  assumes h: "held_by name token t0 s" and op: "spares_holder token t0 op"
  shows "held_by name token t0 (lease_step op s)"
proof -
  have ok: "tables_ready s" using h by (simp add: held_by_def)
  have keeps: "held_by name token t0 s'" if "tables_ready s'" "lease_held name s' = lease_held name s" for s'
    using h that by (simp add: held_by_def)
  show ?thesis
  proof (cases op)
    case (TakeOp name' src uuid now)
    show ?thesis
    proof (cases "lease_take name' src uuid now s")
      case (Inr p)
      obtain res s' where p: "p = (res, s')" by (rule prod.exhaust)
      note t = take_result [OF ok Inr [unfolded p]]
      have "lease_held name s' = lease_held name s"
        using t(4,5) held_refuses [OF h, of now] op TakeOp by (cases "name' = name") auto
      then show ?thesis using keeps [OF t(1)] TakeOp Inr p by simp
    qed (use h TakeOp in simp)
  next
    case (RenewOp token' now)
    then show ?thesis using renew_result [OF ok, of token' now name] h op by (auto simp: held_by_def)
  next
    case (ReleaseOp token')
    then show ?thesis using release_result [OF ok, of token' name] h op by (auto simp: held_by_def)
  next
    case (CurrentOp name')
    show ?thesis
    proof (cases "lease_current name' s")
      case (Inr p)
      then show ?thesis using current_result [OF ok, of name' "fst p" "snd p" name] keeps CurrentOp by (cases p) simp
    qed (use h CurrentOp in simp)
  next
    case RestartOp
    then show ?thesis using keeps [OF step_ready [OF ok, of RestartOp]] restart_held [OF ok] by simp
  qed
qed

lemma held_by_steps: "held_by name token t0 s \<Longrightarrow> list_all (spares_holder token t0) ops \<Longrightarrow> held_by name token t0 (lease_steps ops s)"
  unfolding lease_steps_def by (induction ops arbitrary: s) (simp_all add: held_by_step)

lemma take_total: "lease_name name \<Longrightarrow> \<exists>res s'. lease_take name src uuid now s = Inr (res, s')"
  by (cases "table_row (table_name name) (ensure_table name s)")
     (simp_all add: lease_take_def lease_current_def lease_table_def Let_def)

text \<open>A store over any storage, as an object that just started has it.\<close>

definition started_store :: "(string, lease_sql) js_map \<Rightarrow> lease_store" where
  "started_store ts = \<lparr>ls_ready = [], ls_tables = ts\<rparr>"

lemma started_ready: "tables_ready (started_store ts)"
  by (simp add: started_store_def tables_ready_def)

text \<open>C13. One holder at a time: once a lease is taken, every other taker is refused, and told of the holder, for two minutes
  after it was taken, whatever else runs on the store: takes, renewals, releases of other tokens, restarts.
\<close>

theorem lease_has_one_holder:
  assumes "lease_take name src uuid t0 (lease_steps before (started_store ts)) = Inr (Taken l, s)"
    and "list_all (spares_holder (nl_token l) t0) ops" "now < t0 + 120000"
  shows "\<exists>h s'. lease_take name src' uuid' now (lease_steps ops s) = Inr (Held h, s') \<and> nl_token h = nl_token l"
proof -
  have ok: "tables_ready (lease_steps before (started_store ts))" by (rule steps_ready [OF started_ready])
  note t = take_result [OF ok assms(1)]
  have l: "l = new_lease name src uuid t0 \<and> lease_held name s = Some l" using t(3,4) by auto
  then have "held_by name (nl_token l) t0 s" using t(1) by (auto simp: held_by_def new_lease_def)
  then have h: "held_by name (nl_token l) t0 (lease_steps ops s)" using assms(2) by (rule held_by_steps)
  have "lease_name name" by (rule t(2))
  from take_total [OF this] obtain res s' where r: "lease_take name src' uuid' now (lease_steps ops s) = Inr (res, s')"
    by blast
  have "tables_ready (lease_steps ops s)" using h by (simp add: held_by_def)
  from take_result(4) [OF this r held_refuses [OF h assms(3)]] r h show ?thesis by (auto simp: held_by_def)
qed

theorem lease_has_one_holder_witness:
  "\<exists>h s'. lease_take ''quota_sweep'' Panel ''u2'' 60000
     (lease_steps [RenewOp ''quota_sweep:u1'' 30000, RestartOp]
       (case lease_take ''quota_sweep'' Cron ''u1'' 1000 (lease_steps [] (started_store [])) of Inr (_, s) \<Rightarrow> s)) = Inr (Held h, s') \<and>
     nl_token h = ''quota_sweep:u1''"
proof -
  obtain s where t: "lease_take ''quota_sweep'' Cron ''u1'' 1000 (lease_steps [] (started_store [])) =
      Inr (Taken (new_lease ''quota_sweep'' Cron ''u1'' 1000), s)"
    by (simp add: lease_take_def lease_current_def lease_table_def lease_steps_def started_store_def ensure_table_def
        table_row_def new_lease_def Let_def lease_name_def lower_letter_def is_digit_def)
  from lease_has_one_holder [OF t, of "[RenewOp ''quota_sweep:u1'' 30000, RestartOp]" 60000 Panel "''u2''"]
  show ?thesis by (simp add: t new_lease_def)
qed

text \<open>A lease that was not renewed for two minutes is taken over, and its old token has no power left: renewing with it says
  so, and renewing or releasing with it leaves the new holder's lease as it is.
\<close>

theorem abandoned_lease_is_taken_over:
  assumes "lease_take name src uuid t0 (lease_steps before (started_store ts)) = Inr (Taken l, s)"
    and "\<And>h. lease_held name (lease_steps ops s) = Some h \<Longrightarrow> nl_renewed h + 120000 \<le> now" "uuid' \<noteq> uuid"
  shows "\<exists>l' s'. lease_take name src' uuid' now (lease_steps ops s) = Inr (Taken l', s') \<and>
    lease_held name s' = Some l' \<and> fst (lease_renew (nl_token l) later s') = False \<and>
    lease_held name (snd (lease_renew (nl_token l) later s')) = Some l' \<and> lease_held name (lease_release (nl_token l) s') = Some l'"
proof -
  have ok: "tables_ready (lease_steps before (started_store ts))" by (rule steps_ready [OF started_ready])
  note t = take_result [OF ok assms(1)]
  have l: "l = new_lease name src uuid t0" using t(3,4) by auto
  have ok2: "tables_ready (lease_steps ops s)" by (rule steps_ready [OF t(1)])
  have "lease_name name" by (rule t(2))
  from take_total [OF this] obtain res s' where r: "lease_take name src' uuid' now (lease_steps ops s) = Inr (res, s')"
    by blast
  have "may_take (lease_held name (lease_steps ops s)) now"
    using assms(2) by (auto simp: may_take_def lease_ttl_ms_def split: option.split)
  from take_result(1,3) [OF ok2 r] this
  have r': "res = Taken (new_lease name src' uuid' now)" and h: "lease_held name s' = Some (new_lease name src' uuid' now)" and ok': "tables_ready s'"
    by auto
  have differs: "nl_token (new_lease name src' uuid' now) \<noteq> nl_token l" using assms(3) l by (simp add: new_lease_def)
  have held: "lease_held name (snd (lease_renew (nl_token l) later s')) = Some (new_lease name src' uuid' now)"
    "lease_held name (lease_release (nl_token l) s') = Some (new_lease name src' uuid' now)"
    using renew_result [OF ok', of "nl_token l" later name] release_result [OF ok', of "nl_token l" name] h differs by auto
  have "CHR '':'' \<notin> set name" using t(2) by (cases name) (auto simp: lease_name_def lower_letter_def is_digit_def list_all_iff)
  then have "index_of '':'' (nl_token l) = Some (length name)" unfolding l new_lease_def by (induction name) auto
  moreover have "take (length name) (nl_token l) = name" by (simp add: l new_lease_def)
  ultimately have "names_of_token (nl_token l) s' = [name]" using t(2) by (simp add: names_of_token_def Let_def)
  then have "fst (lease_renew (nl_token l) later s') = False"
    using h differs by (auto simp: lease_renew_def tables_of_def Let_def lease_held_def read_lease_def new_lease_def split: option.splits)
  then show ?thesis using r r' h held by blast
qed

theorem abandoned_lease_is_taken_over_witness:
  "\<exists>l' s'. lease_take ''quota_sweep'' Panel ''u2'' 121000
     (lease_steps [] (case lease_take ''quota_sweep'' Cron ''u1'' 1000 (lease_steps [] (started_store [])) of Inr (_, s) \<Rightarrow> s)) = Inr (Taken l', s') \<and>
     fst (lease_renew ''quota_sweep:u1'' 122000 s') = False"
proof -
  obtain s where t: "lease_take ''quota_sweep'' Cron ''u1'' 1000 (lease_steps [] (started_store [])) =
      Inr (Taken (new_lease ''quota_sweep'' Cron ''u1'' 1000), s)"
    by (simp add: lease_take_def lease_current_def lease_table_def lease_steps_def started_store_def ensure_table_def
        table_row_def new_lease_def Let_def lease_name_def lower_letter_def is_digit_def)
  have ok: "tables_ready (lease_steps [] (started_store []))" by (rule steps_ready [OF started_ready])
  have "lease_held ''quota_sweep'' s = Some (new_lease ''quota_sweep'' Cron ''u1'' 1000)"
    using take_result(3,4) [OF ok t] by auto
  then have "nl_renewed h + 120000 \<le> 121000" if "lease_held ''quota_sweep'' (lease_steps [] s) = Some h" for h
    using that by (auto simp: lease_steps_def new_lease_def)
  from abandoned_lease_is_taken_over [OF t, where ops = "[]" and now = 121000 and uuid' = "''u2''" and src' = Panel and later = 122000] this show ?thesis
    by (auto simp: t new_lease_def)
qed

end
