(* ===== verification/Refresh_Schedule.thy ===== *)
theory Refresh_Schedule
  imports Expiry Availability
begin

text \<open>
  When a credential's tokens are refreshed (\<open>packages/models/src/credentials/refresh/schedule.ts\<close>): the lead of each provider,
  intervals a credential sets itself, terminal failures, whether a refresh is due, and when to look again. Intervals may be
  fractions of a millisecond, so a time to look again is a rational.
\<close>

definition minute_ms :: ms where "minute_ms = 60000"
definition hour_ms :: ms where "hour_ms = 3600000"

definition refresh_leads_ms :: "(string, ms) js_map" where
  "refresh_leads_ms =
     [(''codex'', 24 * hour_ms), (''claude'', 4 * hour_ms), (''antigravity'', 30 * minute_ms), (''xai'', 5 * minute_ms),
      (''kimi'', 5 * minute_ms), (''kimi-ai'', 5 * minute_ms), (''kimi.ai'', 5 * minute_ms)]"

definition antigravity_request_safety_ms :: ms where "antigravity_request_safety_ms = 5 * minute_ms"

definition refresh_lead_ms :: "string \<Rightarrow> ms option" where
  "refresh_lead_ms provider = map_of refresh_leads_ms (js_lower (js_trim provider))"

definition has_refresh_credential :: "credential \<Rightarrow> bool" where
  "has_refresh_credential c \<longleftrightarrow>
     (if string_value (cr_metadata c) ''refresh_token'' \<noteq> [] \<or> string_value (cr_metadata c) ''refreshToken'' \<noteq> [] then True
      else js_lower (js_trim (cr_provider c)) = ''meta'' \<and> string_value (cr_metadata c) ''dca_token'' \<noteq> [])"

definition expiration_time :: "json_object \<Rightarrow> string option \<Rightarrow> ms option" where
  "expiration_time meta rejected =
     (let token = access_token_of meta in
      if token \<noteq> [] \<and> rejected \<noteq> None \<and> rejected \<noteq> Some [] \<and> rejected = Some token then Some 0
      else if token \<noteq> []
           then (case parse_jwt_exp token of Some t \<Rightarrow> Some t | None \<Rightarrow> expiration_from_metadata meta)
           else expiration_from_metadata meta)"

subsection \<open>Intervals\<close>

definition interval_keys :: "string list" where
  "interval_keys = [''refresh_interval_seconds'', ''refreshIntervalSeconds'', ''refresh_interval'', ''refreshInterval'']"

definition interval_unit :: "string \<Rightarrow> (ms \<times> string) option" where
  "interval_unit s =
     (if starts_with s ''ms'' then Some (1, drop 2 s)
      else if starts_with s ''s'' then Some (1000, drop 1 s)
      else if starts_with s ''m'' then Some (minute_ms, drop 1 s)
      else if starts_with s ''h'' then Some (hour_ms, drop 1 s) else None)"

text \<open>The number at the front: digits, and a fraction when digits follow the point.\<close>

definition interval_number :: "string \<Rightarrow> (string \<times> string) option" where
  "interval_number s =
     (let whole = takeWhile is_digit s; rest = dropWhile is_digit s in
      if whole = [] then None
      else (case rest of
              c # cs \<Rightarrow> if c = CHR ''.'' \<and> takeWhile is_digit cs \<noteq> []
                        then Some (whole @ CHR ''.'' # takeWhile is_digit cs, dropWhile is_digit cs)
                        else Some (whole, rest)
            | [] \<Rightarrow> Some (whole, rest)))"

lemma interval_number_shorter:
  assumes n: "interval_number s = Some (n, r)"
  shows "length r < length s"
proof -
  have whole: "takeWhile is_digit s \<noteq> []" using n by (auto simp: interval_number_def Let_def)
  have "length s = length (takeWhile is_digit s) + length (dropWhile is_digit s)" by (metis length_append takeWhile_dropWhile_id)
  then have rest: "length (dropWhile is_digit s) < length s" using whole by simp
  show ?thesis
  proof (cases "dropWhile is_digit s")
    case Nil
    then have "Some (n, r) = Some (takeWhile is_digit s, [])"
      using n whole unfolding interval_number_def Let_def by (simp only: if_False list.case)
    then show ?thesis using whole by (cases s) auto
  next
    case (Cons c cs)
    have "length (dropWhile is_digit cs) \<le> length cs" by (rule length_dropWhile_le)
    moreover have "r = dropWhile is_digit cs \<or> r = c # cs"
      using n whole unfolding interval_number_def Let_def Cons by (auto split: if_splits)
    ultimately show ?thesis using rest Cons by auto
  qed
qed

lemma interval_unit_shorter: "interval_unit s = Some (u, r) \<Longrightarrow> length r \<le> length s"
  by (auto simp: interval_unit_def split: if_splits)

text \<open>Sequences of a number and a unit that fill the text.\<close>

function duration_ms :: "string \<Rightarrow> rat option" where
  "duration_ms s =
     (if s = [] then Some 0
      else (case interval_number s of
              None \<Rightarrow> None
            | Some (n, r) \<Rightarrow>
                (case interval_unit r of
                   None \<Rightarrow> None
                 | Some (u, r') \<Rightarrow>
                     (case (js_number n, duration_ms r') of (Some x, Some y) \<Rightarrow> Some (x * of_int u + y) | _ \<Rightarrow> None))))"
  by pat_completeness auto
termination
  by (relation "measure length") (auto dest!: interval_number_shorter interval_unit_shorter)

declare duration_ms.simps [simp del]

definition plain_decimal :: "string \<Rightarrow> bool" where
  "plain_decimal s \<longleftrightarrow> (case interval_number s of Some (n, r) \<Rightarrow> r = [] | None \<Rightarrow> False)"

definition interval_ms :: "json option \<Rightarrow> rat" where
  "interval_ms raw =
     (case raw of
        Some (JNum r) \<Rightarrow> if r > 0 then r * 1000 else 0
      | Some (JStr s) \<Rightarrow>
          (let t = js_trim s in
           if t = [] then 0
           else if plain_decimal t then (case js_number t of Some r \<Rightarrow> r * 1000 | None \<Rightarrow> 0)
           else (case duration_ms t of Some r \<Rightarrow> r | None \<Rightarrow> 0))
      | _ \<Rightarrow> 0)"

definition positive :: "rat \<Rightarrow> rat option" where "positive r = (if r > 0 then Some r else None)"

definition preferred_interval_ms :: "credential \<Rightarrow> rat" where
  "preferred_interval_ms c =
     (case first_some (\<lambda>k. positive (interval_ms (map_of (cr_metadata c) k))) interval_keys of
        Some v \<Rightarrow> v
      | None \<Rightarrow>
          (case first_some (\<lambda>k. positive (interval_ms (map_option JStr (map_of (cr_attributes c) k)))) interval_keys of
             Some v \<Rightarrow> v
           | None \<Rightarrow> 0))"

definition last_refresh_keys :: "string list" where
  "last_refresh_keys = [''last_refresh'', ''lastRefresh'', ''last_refreshed_at'', ''lastRefreshedAt'']"

definition last_refresh_at :: "credential \<Rightarrow> ms option" where
  "last_refresh_at c =
     (case first_some (\<lambda>k. parse_time_value (map_of (cr_metadata c) k)) last_refresh_keys of
        Some t \<Rightarrow> Some t
      | None \<Rightarrow> first_some (\<lambda>k. parse_time_value (map_option JStr (map_of (cr_attributes c) k))) last_refresh_keys)"

subsection \<open>The schedule\<close>

definition is_terminal_refresh_state :: "credential_state \<Rightarrow> bool \<Rightarrow> bool" where
  "is_terminal_refresh_state st disabled =
     (if has_unauthorized_failure st then True
      else (case cs_last_error st of
              None \<Rightarrow> False
            | Some e \<Rightarrow>
                (disabled \<or> cs_status st = StDisabled) \<and>
                (js_includes (js_lower (case er_code e of None \<Rightarrow> [] | Some c \<Rightarrow> c)) ''invalid_grant'' \<or>
                 js_includes (js_lower (er_message e)) ''invalid_grant'')))"

definition should_refresh :: "ms \<Rightarrow> credential \<Rightarrow> credential_state \<Rightarrow> bool" where
  "should_refresh now c st =
     (if \<not> has_refresh_credential c \<or> is_terminal_refresh_state st (cr_disabled c) then False
      else if cs_next_refresh_after st \<noteq> 0 \<and> now < cs_next_refresh_after st then False
      else (let lst = last_refresh_at c;
                expiry = expiration_time (cr_metadata c) (cs_rejected_access_token st);
                interval = preferred_interval_ms c
            in if interval > 0
               then (if (case expiry of None \<Rightarrow> False | Some e \<Rightarrow> e \<le> now \<or> of_int (e - now) \<le> interval) then True
                     else (case lst of None \<Rightarrow> True | Some l \<Rightarrow> of_int (now - l) \<ge> interval))
               else (case refresh_lead_ms (cr_provider c) of
                       None \<Rightarrow> False
                     | Some lead \<Rightarrow>
                         (case expiry of
                            Some e \<Rightarrow> e - now \<le> lead
                          | None \<Rightarrow> (case lst of Some l \<Rightarrow> now - l \<ge> lead | None \<Rightarrow> True)))))"

definition next_refresh_check_at :: "ms \<Rightarrow> credential \<Rightarrow> credential_state \<Rightarrow> rat option" where
  "next_refresh_check_at now c st =
     (if \<not> has_refresh_credential c \<or> is_terminal_refresh_state st (cr_disabled c) then None
      else if cs_next_refresh_after st \<noteq> 0 \<and> now < cs_next_refresh_after st then Some (of_int (cs_next_refresh_after st))
      else (let lst = last_refresh_at c;
                expiry = expiration_time (cr_metadata c) (cs_rejected_access_token st);
                interval = preferred_interval_ms c
            in if interval > 0
               then (if (case expiry of None \<Rightarrow> False | Some e \<Rightarrow> e \<le> now \<or> of_int (e - now) \<le> interval) then Some (of_int now)
                     else (case lst of
                             None \<Rightarrow> Some (of_int now)
                           | Some l \<Rightarrow>
                               (let at_interval = of_int l + interval;
                                    nxt = (case expiry of None \<Rightarrow> at_interval | Some e \<Rightarrow> min (of_int e - interval) at_interval)
                                in Some (if nxt \<le> of_int now then of_int now else nxt))))
               else (case refresh_lead_ms (cr_provider c) of
                       None \<Rightarrow> None
                     | Some lead \<Rightarrow>
                         (let base = (case expiry of Some e \<Rightarrow> e - lead | None \<Rightarrow> (case lst of Some l \<Rightarrow> l + lead | None \<Rightarrow> now))
                          in Some (of_int (if base \<le> now then now else base))))))"

definition invalid_grant_backoff_ms :: "int \<Rightarrow> ms" where
  "invalid_grant_backoff_ms failures =
     (if failures \<le> 1 then minute_ms else min (30 * minute_ms) (minute_ms * 2 ^ nat (min (failures - 1) 10)))"

definition refresh_failure_backoff_ms :: ms where "refresh_failure_backoff_ms = 5 * minute_ms"
definition refresh_ineffective_backoff_ms :: ms where "refresh_ineffective_backoff_ms = 30000"

subsection \<open>The schedule and the due times\<close>

lemma due_iff_check_now: "should_refresh now c st \<longleftrightarrow> (\<exists>t. next_refresh_check_at now c st = Some t \<and> t \<le> of_int now)"
  unfolding should_refresh_def next_refresh_check_at_def
  by (auto simp: Let_def algebra_simps min_def split: option.splits)

lemma not_due_before:
  assumes t: "next_refresh_check_at now c st = Some t" "of_int now' < t" "now \<le> now'"
  shows "\<not> should_refresh now' c st"
proof (cases "cs_next_refresh_after st \<noteq> 0 \<and> now < cs_next_refresh_after st")
  case True
  then show ?thesis using t unfolding should_refresh_def next_refresh_check_at_def by (auto split: if_splits)
next
  case False
  then show ?thesis
    using t unfolding should_refresh_def next_refresh_check_at_def
    by (auto simp: Let_def algebra_simps split: if_splits option.splits)
qed

lemma never_due: "next_refresh_check_at now c st = None \<Longrightarrow> \<not> should_refresh now' c st"
  unfolding should_refresh_def next_refresh_check_at_def by (auto simp: Let_def split: if_splits option.splits)

lemma terminal_never_due: "is_terminal_refresh_state st (cr_disabled c) \<Longrightarrow> next_refresh_check_at now c st = None"
  by (simp add: next_refresh_check_at_def)

lemma backoff_not_due:
  "next_refresh_check_at now c st = Some t \<Longrightarrow> now < cs_next_refresh_after st \<Longrightarrow> cs_next_refresh_after st \<noteq> 0 \<Longrightarrow> t = of_int (cs_next_refresh_after st)"
  by (auto simp: next_refresh_check_at_def split: if_splits)

lemma invalid_grant_backoff_bounds: "minute_ms \<le> invalid_grant_backoff_ms n" "invalid_grant_backoff_ms n \<le> 30 * minute_ms"
  by (auto simp: invalid_grant_backoff_ms_def minute_ms_def)

text \<open>
  What a refresh attempt does to a credential's state (\<open>refresh/error.ts\<close>, \<open>refresh/outcome.ts\<close>): the failure table and the
  success branch, which keeps a cooldown or an error that appeared meanwhile.
\<close>

record refresh_error =
  re_message :: string
  re_status :: "int option"
  re_block_ms :: "ms option"

definition is_unauthorized :: "string \<Rightarrow> int option \<Rightarrow> bool" where
  "is_unauthorized message status =
     (if status = Some 401 then True
      else (let raw = js_lower message in js_includes raw ''status 401'' \<or> js_includes raw ''401 unauthorized''))"

definition is_invalid_grant :: "string \<Rightarrow> int option \<Rightarrow> bool" where
  "is_invalid_grant message status =
     (if \<not> js_includes (js_lower message) ''invalid_grant'' then False
      else (let s = (case status of None \<Rightarrow> 0 | Some n \<Rightarrow> n) in s = 0 \<or> s = 400 \<or> s = 401))"

datatype schedule_effect = Reschedule | Unschedule | NoSchedule

record failure_input =
  fi_now :: ms
  fi_message :: string
  fi_status :: "int option"
  fi_disabled :: bool
  fi_has_valid_access_token :: bool
  fi_access_token_rejected :: bool
  fi_force :: bool
  fi_token_expiry :: "ms option"

definition refresh_last_error :: "failure_input \<Rightarrow> credential_error" where
  "refresh_last_error i =
     (let status = (case fi_status i of Some s \<Rightarrow> Some s | None \<Rightarrow> if is_unauthorized (fi_message i) (fi_status i) then Some 401 else None)
      in \<lparr>er_code = (if status = Some 401 then Some ''unauthorized'' else None), er_message = fi_message i, er_retryable = False,
          er_http_status = status\<rparr>)"

definition unauthorized_error :: "string \<Rightarrow> credential_error" where
  "unauthorized_error message = \<lparr>er_code = Some ''unauthorized'', er_message = message, er_retryable = False, er_http_status = Some 401\<rparr>"

definition apply_refresh_failure :: "credential_state \<Rightarrow> failure_input \<Rightarrow> credential_state \<times> schedule_effect" where
  "apply_refresh_failure st i =
     (let now = fi_now i;
          unauthorized = is_unauthorized (fi_message i) (fi_status i);
          invalid_grant = is_invalid_grant (fi_message i) (fi_status i);
          base = st\<lparr>cs_updated_at := now\<rparr>
      in if has_unauthorized_failure st
         then (if \<not> fi_force i then (st, NoSchedule)
               else (let nxt = base\<lparr>cs_unavailable := True, cs_status := StError, cs_next_refresh_after := 0, cs_next_retry_after := 0\<rparr>
                     in (if unauthorized \<or> invalid_grant
                         then nxt\<lparr>cs_last_error := Some (unauthorized_error (fi_message i)),
                                  cs_status_message := Some ''unauthorized (refresh token invalid)''\<rparr>
                         else nxt, Unschedule)))
         else
           (let failed = base\<lparr>cs_last_error := Some (refresh_last_error i)\<rparr>;
                is_disabled = (fi_disabled i \<or> cs_status st = StDisabled)
            in if is_disabled \<and> invalid_grant
               then (failed\<lparr>cs_unavailable := True, cs_status := StDisabled, cs_next_refresh_after := 0, cs_refresh_failures := 0,
                            cs_status_message := Some ''disabled (invalid grant)''\<rparr>, Unschedule)
               else if is_disabled
               then (failed\<lparr>cs_unavailable := True, cs_status := StDisabled, cs_next_refresh_after := now + refresh_failure_backoff_ms,
                            cs_status_message := (case cs_status_message failed of Some m \<Rightarrow> Some m | None \<Rightarrow> Some ''disabled'')\<rparr>, Reschedule)
               else if fi_access_token_rejected i \<and> invalid_grant
               then (failed\<lparr>cs_unavailable := True, cs_status := StError, cs_next_refresh_after := 0, cs_next_retry_after := 0,
                            cs_refresh_failures := 0, cs_last_error := Some (unauthorized_error (fi_message i)),
                            cs_status_message := Some ''unauthorized (refresh token invalid)''\<rparr>, Unschedule)
               else if \<not> fi_has_valid_access_token i \<or> fi_access_token_rejected i
               then (let unavailable = failed\<lparr>cs_unavailable := True, cs_status := StError\<rparr>
                     in if unauthorized
                        then (unavailable\<lparr>cs_next_refresh_after := 0, cs_next_retry_after := 0, cs_refresh_failures := 0,
                                          cs_status_message := Some ''unauthorized''\<rparr>, NoSchedule)
                        else if invalid_grant
                        then (let failures = cs_refresh_failures st + 1
                              in (unavailable\<lparr>cs_refresh_failures := failures,
                                              cs_next_refresh_after := now + invalid_grant_backoff_ms failures,
                                              cs_status_message := Some ''invalid grant (retrying)''\<rparr>, Reschedule))
                        else (unavailable\<lparr>cs_refresh_failures := 0, cs_next_refresh_after := now + refresh_failure_backoff_ms,
                                          cs_status_message := Some ''token expired''\<rparr>, Reschedule))
               else (let failures = (if invalid_grant then cs_refresh_failures st + 1 else 0);
                         retry = (if invalid_grant then now + invalid_grant_backoff_ms failures else now + refresh_failure_backoff_ms);
                         capped = (case fi_token_expiry i of Some e \<Rightarrow> if e > 0 \<and> retry > e then e else retry | None \<Rightarrow> retry)
                     in (failed\<lparr>cs_refresh_failures := failures, cs_next_refresh_after := capped\<rparr>, Reschedule))))"

subsection \<open>Success\<close>

definition text_or_empty :: "string option \<Rightarrow> string" where
  "text_or_empty t = (case t of None \<Rightarrow> [] | Some s \<Rightarrow> s)"

definition is_unauthorized_model_error :: "credential_error option \<Rightarrow> string option \<Rightarrow> bool" where
  "is_unauthorized_model_error e msg \<longleftrightarrow>
     (case e of None \<Rightarrow> False
      | Some e \<Rightarrow> er_http_status e = Some 401 \<or> (case er_code e of None \<Rightarrow> False | Some c \<Rightarrow> js_lower c = ''unauthorized'') \<or>
                  js_includes (js_lower (er_message e)) ''status 401'') \<or>
     js_includes (js_lower (text_or_empty msg)) ''unauthorized''"

definition cleared_model :: "ms \<Rightarrow> model_state \<Rightarrow> model_state option" where
  "cleared_model now md =
     (if q_exceeded (md_quota md) \<and> (q_next_recover_at (md_quota md) = 0 \<or> q_next_recover_at (md_quota md) > now)
      then Some (md\<lparr>md_last_error := None, md_updated_at := now,
                    md_status_message := (if js_includes (js_lower (text_or_empty (md_status_message md))) ''unauthorized'' \<and> q_reason (md_quota md) \<noteq> None
                                          then q_reason (md_quota md) else md_status_message md)\<rparr>)
      else None)"

fun cleared_models :: "ms \<Rightarrow> (string, model_state) js_map \<Rightarrow> (string, model_state) js_map" where
  "cleared_models now [] = []"
| "cleared_models now ((model, md) # ms) =
     (if \<not> is_unauthorized_model_error (md_last_error md) (md_status_message md) then (model, md) # cleared_models now ms
      else (case cleared_model now md of Some md' \<Rightarrow> (model, md') # cleared_models now ms | None \<Rightarrow> cleared_models now ms))"

definition clear_unauthorized_model_states :: "credential_state \<Rightarrow> ms \<Rightarrow> credential_state" where
  "clear_unauthorized_model_states st now =
     (if list_ex (\<lambda>(_, md). is_unauthorized_model_error (md_last_error md) (md_status_message md)) (cs_model_states st)
      then st\<lparr>cs_model_states := cleared_models now (cs_model_states st)\<rparr> else st)"

definition apply_refresh_success :: "credential_state \<Rightarrow> credential_state \<Rightarrow> ms \<Rightarrow> bool \<Rightarrow> bool \<Rightarrow> credential_state" where
  "apply_refresh_success base current now still_due disabled =
     (let current_status = (if cs_status current = StDisabled \<and> \<not> disabled then StActive else cs_status current);
          cleared = clear_unauthorized_model_states current now;
          nxt = cleared\<lparr>cs_rejected_access_token := None, cs_last_error := None, cs_status_message := None, cs_refresh_failures := 0,
                  cs_next_refresh_after := (if still_due then now + refresh_ineffective_backoff_ms else 0), cs_updated_at := now,
                  cs_unavailable := False,
                  cs_status := (if current_status = StError \<or> current_status = StUnknown then StActive else current_status)\<rparr>;
          new_error = (case cs_last_error current of
              None \<Rightarrow> False
            | Some e \<Rightarrow> er_message e \<noteq> [] \<and> (case cs_last_error base of None \<Rightarrow> True | Some e0 \<Rightarrow> er_message e \<noteq> er_message e0));
          keep_quota = (q_exceeded (cs_quota current) \<and> q_reason (cs_quota current) = Some ''credential_quota'' \<and>
            q_next_recover_at (cs_quota current) > now);
          keep_cooldown = (cs_unavailable current \<and> cs_next_retry_after current > now)
      in if new_error
         then nxt\<lparr>cs_last_error := cs_last_error current, cs_status := current_status, cs_unavailable := cs_unavailable current,
                  cs_status_message := cs_status_message current\<rparr>
         else if keep_quota \<or> keep_cooldown
         then nxt\<lparr>cs_status := current_status, cs_unavailable := cs_unavailable current, cs_status_message := cs_status_message current\<rparr>
         else nxt)"

subsection \<open>The next attempt\<close>

text \<open>Facts about an attempt that the manager makes sure of: a token it calls valid has not expired.\<close>

definition sound_input :: "failure_input \<Rightarrow> bool" where
  "sound_input i \<longleftrightarrow> 0 < fi_now i \<and> (fi_has_valid_access_token i \<longrightarrow> (case fi_token_expiry i of None \<Rightarrow> True | Some e \<Rightarrow> e > fi_now i))"

text \<open>The failure says 401 in its text only.\<close>

definition unauthorized_by_text :: "failure_input \<Rightarrow> bool" where
  "unauthorized_by_text i \<longleftrightarrow> is_unauthorized (fi_message i) (fi_status i) \<and> fi_status i \<noteq> None \<and> fi_status i \<noteq> Some 401"

lemma js_lower_unauthorized [simp]: "js_lower ''unauthorized'' = ''unauthorized''"
  by code_simp

lemma failure_waits:
  assumes i: "sound_input i" "\<not> unauthorized_by_text i" and a: "apply_refresh_failure st i = (st', effect)"
  shows "is_terminal_refresh_state st' (fi_disabled i) \<or>
    (fi_now i < cs_next_refresh_after st' \<and> cs_next_refresh_after st' \<le> fi_now i + 1800000)"
proof -
  note wait = invalid_grant_backoff_bounds [of "cs_refresh_failures st + 1"]
  consider "has_unauthorized_failure st"
    | "\<not> has_unauthorized_failure st" "fi_disabled i \<or> cs_status st = StDisabled"
    | "\<not> has_unauthorized_failure st" "\<not> (fi_disabled i \<or> cs_status st = StDisabled)" "fi_access_token_rejected i \<and> is_invalid_grant (fi_message i) (fi_status i)"
    | "\<not> has_unauthorized_failure st" "\<not> (fi_disabled i \<or> cs_status st = StDisabled)" "\<not> (fi_access_token_rejected i \<and> is_invalid_grant (fi_message i) (fi_status i))"
      "\<not> fi_has_valid_access_token i \<or> fi_access_token_rejected i"
    | "\<not> has_unauthorized_failure st" "\<not> (fi_disabled i \<or> cs_status st = StDisabled)" "\<not> (fi_access_token_rejected i \<and> is_invalid_grant (fi_message i) (fi_status i))"
      "fi_has_valid_access_token i \<and> \<not> fi_access_token_rejected i"
    by blast
  then show ?thesis
  proof cases
    case 1
    then have "has_unauthorized_failure st'"
      using a by (auto simp: apply_refresh_failure_def Let_def has_unauthorized_failure_def unauthorized_error_def split: option.splits if_splits)
    then show ?thesis by (simp add: is_terminal_refresh_state_def)
  next
    case 2
    have inv: "is_invalid_grant (fi_message i) (fi_status i) \<Longrightarrow> js_includes (js_lower (fi_message i)) ''invalid_grant''"
      by (simp add: is_invalid_grant_def split: if_splits)
    show ?thesis using a 2(2) unfolding apply_refresh_failure_def Let_def if_not_P [OF 2(1)]
      by (auto simp: is_terminal_refresh_state_def refresh_last_error_def Let_def refresh_failure_backoff_ms_def minute_ms_def inv split: if_splits)
  next
    case 3
    then show ?thesis using a unfolding apply_refresh_failure_def Let_def if_not_P [OF 3(1)]
      by (auto simp: is_terminal_refresh_state_def has_unauthorized_failure_def unauthorized_error_def)
  next
    case 4
    have auth: "er_http_status (refresh_last_error i) = Some 401" if "is_unauthorized (fi_message i) (fi_status i)"
      using that i(2) by (auto simp: refresh_last_error_def unauthorized_by_text_def split: option.splits)
    show ?thesis using a 4(2-4) wait auth unfolding apply_refresh_failure_def Let_def if_not_P [OF 4(1)]
      by (auto simp: is_terminal_refresh_state_def has_unauthorized_failure_def refresh_failure_backoff_ms_def minute_ms_def split: if_splits)
  next
    case 5
    then show ?thesis using a i(1) wait unfolding apply_refresh_failure_def Let_def if_not_P [OF 5(1)]
      by (auto simp: sound_input_def refresh_failure_backoff_ms_def minute_ms_def split: if_splits option.splits)
  qed
qed

lemma failure_not_due:
  assumes "sound_input i" "\<not> unauthorized_by_text i" "apply_refresh_failure st i = (st', effect)" "fi_disabled i = cr_disabled c"
  shows "\<not> should_refresh (fi_now i) c st'"
    "next_refresh_check_at (fi_now i) c st' = Some t \<Longrightarrow> of_int (fi_now i) < t \<and> t \<le> of_int (fi_now i + 1800000)"
proof -
  note w = failure_waits [OF assms(1-3)]
  show "\<not> should_refresh (fi_now i) c st'" using w assms(1,4) by (auto simp: should_refresh_def sound_input_def)
  assume t: "next_refresh_check_at (fi_now i) c st' = Some t"
  then have "\<not> is_terminal_refresh_state st' (cr_disabled c)" using terminal_never_due by fastforce
  then have n: "fi_now i < cs_next_refresh_after st'" "cs_next_refresh_after st' \<le> fi_now i + 1800000" "cs_next_refresh_after st' \<noteq> 0"
    using w assms(1,4) by (auto simp: sound_input_def)
  from backoff_not_due [OF t n(1,3)] n show "of_int (fi_now i) < t \<and> t \<le> of_int (fi_now i + 1800000)" by simp
qed

end
