(* ===== verification/Refresh_Merge.thy ===== *)
theory Refresh_Merge
  imports Expiry
begin

text \<open>
  Merging the metadata of a credential (\<open>credentials/merge.ts\<close>, \<open>refresh/three-way.ts\<close>) and the equality of JSON values
  (\<open>packages/json/src/value.ts\<close>): what a refresh returned, what the user changed while it ran, and what was stored. The
  entries of an object are an association list with distinct keys.
\<close>

subsection \<open>Equality\<close>

lemma size_zip_left: "(x, y) \<in> set (zip xs ys) \<Longrightarrow> size x < Suc (size_list size xs)"
  by (metis in_set_zipE le_imp_less_Suc size_list_estimation' order_refl)

function (sequential) json_equals :: "json \<Rightarrow> json \<Rightarrow> bool" where
  "json_equals (JArr xs) b =
     (case b of JArr ys \<Rightarrow> length xs = length ys \<and> (\<forall>p \<in> set (zip xs ys). json_equals (fst p) (snd p)) | _ \<Rightarrow> False)"
| "json_equals (JObj m) b =
     (case b of
        JObj n \<Rightarrow> length m = length n \<and> (\<forall>p \<in> set m. case map_of n (fst p) of None \<Rightarrow> False | Some w \<Rightarrow> json_equals (snd p) w)
      | _ \<Rightarrow> False)"
| "json_equals a b = (a = b)"
  by pat_completeness auto
termination
proof (relation "measure (\<lambda>p. size (fst p))", goal_cases)
  case (2 xs b ys p)
  then show ?case using size_zip_left [of "fst p" "snd p" xs ys] by simp
next
  case (3 m b n p w)
  then have "size (snd p) < Suc (size_list (size_prod (\<lambda>x. 0) size) m)"
    using size_list_estimation' [of p m "size (snd p)" "size_prod (\<lambda>x. 0) size"] by (cases p) simp
  then show ?case by simp
qed simp

definition json_option_equals :: "json option \<Rightarrow> json option \<Rightarrow> bool" where
  "json_option_equals a b =
     (case (a, b) of (None, None) \<Rightarrow> True | (Some x, Some y) \<Rightarrow> json_equals x y | _ \<Rightarrow> False)"

subsection \<open>merge.ts\<close>

definition token_keys :: "string list" where
  "token_keys = [''access_token'', ''refresh_token'', ''id_token'', ''session_id'', ''expired'', ''last_refresh'', ''expires_in'',
     ''timestamp'', ''token_type'', ''user_code'', ''verification_uri'', ''verification_uri_complete'']"

definition meta_secret_keys :: "string list" where
  "meta_secret_keys = [''api_key'', ''dca_token'', ''dca_expired'', ''dca_expires_at'']"

definition is_token_payload_key :: "string \<Rightarrow> bool" where
  "is_token_payload_key key \<longleftrightarrow> js_lower (js_trim key) \<in> set token_keys"

text \<open>Legacy spellings of metadata keys (\<open>import.ts\<close>).\<close>

definition key_aliases :: "(string, string) js_map" where
  "key_aliases =
     [(''api-key'', ''api_key''), (''base-url'', ''base_url''), (''disable-cooling'', ''disable_cooling''),
      (''excluded-models'', ''excluded_models''), (''fingerprint-profile'', ''fingerprint_profile''),
      (''model-aliases'', ''model_aliases''), (''proxy-url'', ''proxy_url''), (''request-retry'', ''request_retry''),
      (''request-scoped-errors'', ''request_scoped_errors''), (''tool-prefix-disabled'', ''tool_prefix_disabled'')]"

definition canonical_metadata_key :: "string \<Rightarrow> string" where
  "canonical_metadata_key key = (case map_of key_aliases key of Some k \<Rightarrow> k | None \<Rightarrow> key)"

definition merge_existing_metadata :: "string \<Rightarrow> json_object \<Rightarrow> json_object \<Rightarrow> json_object" where
  "merge_existing_metadata provider incoming existing =
     (let is_meta = (js_lower (js_trim provider) = ''meta'')
      in foldl (\<lambda>merged (key, v).
           if is_token_payload_key key then merged
           else if is_meta \<and> canonical_metadata_key key \<in> set meta_secret_keys then merged
           else if map_of merged key = None then AList.update key v merged else merged) incoming existing)"

definition first_string :: "json_object \<Rightarrow> string list \<Rightarrow> string" where
  "first_string meta keys =
     (case first_some (\<lambda>k. if string_value meta k \<noteq> [] then Some (string_value meta k) else None) keys of None \<Rightarrow> [] | Some v \<Rightarrow> v)"

definition credential_key_groups :: "string list list" where
  "credential_key_groups =
     [[''access_token'', ''accessToken''], [''refresh_token'', ''refreshToken''], [''id_token'', ''idToken''], [''api_key'']]"

definition credentials_changed :: "json_object \<Rightarrow> json_object \<Rightarrow> bool" where
  "credentials_changed before after \<longleftrightarrow> list_ex (\<lambda>keys. first_string before keys \<noteq> first_string after keys) credential_key_groups"

subsection \<open>three-way.ts\<close>

definition skipped_key :: "string \<Rightarrow> bool" where
  "skipped_key key \<longleftrightarrow> js_lower (js_trim key) = ''proxy_url''"

definition changed_by_user :: "json_object \<Rightarrow> json_object \<Rightarrow> string \<Rightarrow> bool" where
  "changed_by_user base current key \<longleftrightarrow>
     (map_of base key \<noteq> None) \<noteq> (map_of current key \<noteq> None) \<or>
     map_of base key \<noteq> None \<and> \<not> json_option_equals (map_of base key) (map_of current key)"

definition changed_by_executor :: "json_object \<Rightarrow> string \<Rightarrow> json \<Rightarrow> bool" where
  "changed_by_executor base key v \<longleftrightarrow> map_of base key = None \<or> \<not> json_option_equals (map_of base key) (Some v)"

definition merge_updated :: "json_object \<Rightarrow> json_object \<Rightarrow> json_object \<Rightarrow> string \<times> json \<Rightarrow> json_object" where
  "merge_updated base current merged e =
     (let (key, v) = e in
      if skipped_key key then merged
      else if changed_by_executor base key v \<and> (\<not> changed_by_user base current key \<or> is_token_payload_key key)
      then AList.update key v merged else merged)"

definition merge_deleted :: "json_object \<Rightarrow> json_object \<Rightarrow> json_object \<Rightarrow> string \<times> json \<Rightarrow> json_object" where
  "merge_deleted current updated merged e =
     (let (key, v) = e in
      if skipped_key key \<or> map_of updated key \<noteq> None then merged
      else if map_of current key \<noteq> None \<and> json_option_equals (Some v) (map_of current key) then AList.delete key merged else merged)"

definition merge_refreshed_metadata :: "json_object \<Rightarrow> json_object \<Rightarrow> json_object \<Rightarrow> json_object" where
  "merge_refreshed_metadata base current updated =
     foldl (merge_deleted current updated) (foldl (merge_updated base current) current updated) base"

subsection \<open>What a merge leaves at a key\<close>

lemma merge_updated_other: "fst e \<noteq> key \<Longrightarrow> map_of (merge_updated base current m e) key = map_of m key"
  by (cases e) (auto simp: merge_updated_def update_conv)

lemma merge_updated_fold:
  assumes "distinct_keys updated"
  shows "map_of (foldl (merge_updated base current) m updated) key =
    (case map_of updated key of
       None \<Rightarrow> map_of m key
     | Some v \<Rightarrow> if \<not> skipped_key key \<and> changed_by_executor base key v \<and> (\<not> changed_by_user base current key \<or> is_token_payload_key key)
                 then Some v else map_of m key)"
  using assms
proof (induction updated arbitrary: m)
  case (Cons e updated)
  obtain k v where e: "e = (k, v)" by (cases e)
  have d: "distinct_keys updated" "map_of updated k = None" using Cons.prems e by (auto simp: distinct_keys_def map_of_eq_None_iff)
  show ?case using Cons.IH [OF d(1), of "merge_updated base current m e"] d(2) e
    by (auto simp: merge_updated_def update_conv split: option.split)
qed simp

lemma merge_deleted_fold:
  assumes "distinct_keys base"
  shows "map_of (foldl (merge_deleted current updated) m base) key =
    (case map_of base key of
       None \<Rightarrow> map_of m key
     | Some v \<Rightarrow> if \<not> skipped_key key \<and> map_of updated key = None \<and> map_of current key \<noteq> None \<and> json_option_equals (Some v) (map_of current key)
                 then None else map_of m key)"
  using assms
proof (induction base arbitrary: m)
  case (Cons e base)
  obtain k v where e: "e = (k, v)" by (cases e)
  have d: "distinct_keys base" "map_of base k = None" using Cons.prems e by (auto simp: distinct_keys_def map_of_eq_None_iff)
  show ?case using Cons.IH [OF d(1), of "merge_deleted current updated m e"] d(2) e
    by (auto simp: merge_deleted_def delete_conv split: option.split)
qed simp

lemma merged_value:
  assumes "distinct_keys base" "distinct_keys updated"
  shows "map_of (merge_refreshed_metadata base current updated) key =
    (if skipped_key key then map_of current key
     else case map_of updated key of
       Some v \<Rightarrow> if changed_by_executor base key v \<and> (\<not> changed_by_user base current key \<or> is_token_payload_key key)
                 then Some v else map_of current key
     | None \<Rightarrow> if map_of base key \<noteq> None \<and> \<not> changed_by_user base current key then None else map_of current key)"
  unfolding merge_refreshed_metadata_def merge_deleted_fold [OF assms(1)] merge_updated_fold [OF assms(2)]
  by (auto simp: changed_by_user_def split: option.split)

end
