(* ===== verification/Refresh_Manager.thy ===== *)
theory Refresh_Manager
  imports Refresh_Schedule Refresh_Merge
begin

text \<open>
  The refresh manager (\<open>refresh/manager.ts\<close>, with \<open>registry.ts\<close> and the pure part of \<open>meta.ts\<close>): which credential is due and
  when the alarm fires, how a refresh begins, and what its outcome commits to the credential as it is when the upstream
  answers. The upstream call itself is an outcome given to \<open>finish_refresh\<close>; redaction and date texts are arguments.
\<close>

record refresh_target =
  tg_credential :: credential
  tg_state :: credential_state

record refresh_commit =
  cm_metadata :: "json_object option"
  cm_state :: "credential_state option"

datatype failure_code = NotFound | NotRefreshable | UnauthorizedCode | DisabledCode | RefreshFailed | PersistFailed

datatype refresh_result =
    RefreshOk bool
  | RefreshFailure failure_code "int option" bool

datatype refresh_outcome = OutcomeOk json_object | OutcomeError refresh_error

definition pending_recheck_ms :: ms where "pending_recheck_ms = 60000"
definition anomaly_rearm_ms :: ms where "anomaly_rearm_ms = 30000"

definition refresh_protocols :: "string list" where
  "refresh_protocols = [''claude'', ''codex'', ''antigravity'', ''xai'', ''kimi'', ''kimi-ai'', ''meta'']"

subsection \<open>Scheduling\<close>

definition target_check_at :: "(string \<Rightarrow> bool) \<Rightarrow> ms \<Rightarrow> refresh_target \<Rightarrow> rat option" where
  "target_check_at in_flight now t =
     (if in_flight (cr_id (tg_credential t)) then Some (of_int (now + pending_recheck_ms))
      else next_refresh_check_at now (tg_credential t) (tg_state t))"

definition next_due_at :: "(string \<Rightarrow> bool) \<Rightarrow> ms \<Rightarrow> refresh_target list \<Rightarrow> rat option" where
  "next_due_at in_flight now targets =
     foldl (\<lambda>nxt t. case target_check_at in_flight now t of
         None \<Rightarrow> nxt
       | Some a \<Rightarrow> (case nxt of None \<Rightarrow> Some a | Some n \<Rightarrow> if a < n then Some a else nxt)) None targets"

text \<open>\<open>rearm\<close>: when the alarm is set to fire, \<open>None\<close> when it is cleared.\<close>

definition rearm :: "(string \<Rightarrow> bool) \<Rightarrow> ms \<Rightarrow> ms \<Rightarrow> refresh_target list \<Rightarrow> rat option" where
  "rearm in_flight due_delay now targets =
     (case next_due_at in_flight now targets of
        None \<Rightarrow> None
      | Some n \<Rightarrow> Some (if n \<le> of_int now then of_int (now + due_delay) else n))"

definition due_targets :: "ms \<Rightarrow> refresh_target list \<Rightarrow> string list" where
  "due_targets now targets =
     map (\<lambda>t. cr_id (tg_credential t)) (filter (\<lambda>t. should_refresh now (tg_credential t) (tg_state t)) targets)"

subsection \<open>Request time\<close>

definition meta_dca_token :: "json_object \<Rightarrow> string" where
  "meta_dca_token meta =
     (let dca = string_value meta ''dca_token'' in
      if dca \<noteq> [] then dca
      else (let a = string_value meta ''access_token'' in if starts_with a ''dca:'' then a else []))"

definition meta_provider_key :: "json_object \<Rightarrow> string" where
  "meta_provider_key meta =
     (case first_some (\<lambda>k. let v = string_value meta k in if v \<noteq> [] \<and> \<not> starts_with v ''dca:'' then Some v else None)
        [''api_key'', ''access_token''] of None \<Rightarrow> [] | Some v \<Rightarrow> v)"

definition meta_needs_mint :: "json_object \<Rightarrow> bool" where
  "meta_needs_mint meta \<longleftrightarrow> meta_provider_key meta = [] \<and> meta_dca_token meta \<noteq> []"

text \<open>\<open>ensureFresh\<close>, for every executor but Vertex: whether the credential is refreshed before a request uses it.\<close>

definition needs_refresh :: "ms \<Rightarrow> refresh_target \<Rightarrow> bool" where
  "needs_refresh now t =
     (let c = tg_credential t in
      if executor_key c = ''meta'' then meta_needs_mint (cr_metadata c)
      else if has_refresh_credential c
      then (let expiry = access_token_expiry (cr_metadata c) (cs_rejected_access_token (tg_state t));
                safety = (if cr_provider c = ''antigravity'' then antigravity_request_safety_ms else 0)
            in access_token_of (cr_metadata c) = [] \<or> (case expiry of None \<Rightarrow> False | Some e \<Rightarrow> e \<le> now + safety))
      else False)"

text \<open>\<open>#markRejected\<close>: the state to commit, when there is one.\<close>

definition mark_rejected :: "ms \<Rightarrow> refresh_target \<Rightarrow> string \<Rightarrow> credential_state option" where
  "mark_rejected now t token =
     (if access_token_of (cr_metadata (tg_credential t)) \<noteq> token \<or> cs_rejected_access_token (tg_state t) = Some token then None
      else if access_token_expiry (cr_metadata (tg_credential t)) None \<noteq> None then None
      else Some ((tg_state t)\<lparr>cs_rejected_access_token := Some token, cs_updated_at := now\<rparr>))"

subsection \<open>One refresh\<close>

datatype refresh_begin =
    BeginFailed refresh_result
  | BeginBlocked refresh_error
  | BeginCall string

definition begin_refresh :: "(ms \<Rightarrow> string) \<Rightarrow> refresh_target option \<Rightarrow> bool \<Rightarrow> ms \<Rightarrow> ms \<Rightarrow> refresh_begin" where
  "begin_refresh show_time target force blocked_until now =
     (case target of
        None \<Rightarrow> BeginFailed (RefreshFailure NotFound None False)
      | Some t \<Rightarrow>
          (let c = tg_credential t in
           if \<not> has_refresh_credential c then BeginFailed (RefreshFailure NotRefreshable None False)
           else if executor_key c \<notin> set refresh_protocols then BeginFailed (RefreshFailure NotRefreshable None False)
           else if \<not> force \<and> is_terminal_refresh_state (tg_state t) (cr_disabled c)
           then BeginFailed (if has_unauthorized_failure (tg_state t) then RefreshFailure UnauthorizedCode (Some 401) True
                             else RefreshFailure DisabledCode None True)
           else if blocked_until > now
           then BeginBlocked \<lparr>re_message = ''refresh temporarily blocked until '' @ show_time blocked_until, re_status = Some 429, re_block_ms = None\<rparr>
           else BeginCall (executor_key c)))"

definition has_valid_access_token :: "refresh_target \<Rightarrow> ms \<Rightarrow> bool" where
  "has_valid_access_token t now =
     (if access_token_of (cr_metadata (tg_credential t)) = [] then False
      else (case access_token_expiry (cr_metadata (tg_credential t)) (cs_rejected_access_token (tg_state t)) of
              None \<Rightarrow> True | Some e \<Rightarrow> e > now))"

definition failure_input_of :: "(string \<Rightarrow> string) \<Rightarrow> refresh_target \<Rightarrow> refresh_error \<Rightarrow> bool \<Rightarrow> string \<Rightarrow> ms \<Rightarrow> failure_input" where
  "failure_input_of redact current e force failed_token finished =
     (let token = access_token_of (cr_metadata (tg_credential current))
      in \<lparr>fi_now = finished, fi_message = redact (re_message e), fi_status = re_status e, fi_disabled = cr_disabled (tg_credential current),
          fi_has_valid_access_token = has_valid_access_token current finished,
          fi_access_token_rejected = (failed_token \<noteq> [] \<and> token = failed_token), fi_force = force,
          fi_token_expiry = access_token_expiry (cr_metadata (tg_credential current)) (cs_rejected_access_token (tg_state current))\<rparr>)"

text \<open>Whether a new login replaced the tokens while the refresh ran.\<close>

definition was_replaced :: "credential \<Rightarrow> credential \<Rightarrow> bool" where
  "was_replaced started current \<longleftrightarrow> cr_version current \<noteq> cr_version started \<or> credentials_changed (cr_metadata started) (cr_metadata current)"

definition merged_credential :: "credential \<Rightarrow> credential \<Rightarrow> json_object \<Rightarrow> credential" where
  "merged_credential started current updated =
     current\<lparr>cr_metadata := merge_refreshed_metadata (cr_metadata started) (cr_metadata current) updated\<rparr>"

definition success_state :: "refresh_target \<Rightarrow> refresh_target \<Rightarrow> json_object \<Rightarrow> ms \<Rightarrow> credential_state" where
  "success_state started current updated finished =
     (let probe = merged_credential (tg_credential started) (tg_credential current) updated;
          still_due = should_refresh finished probe ((tg_state current)\<lparr>cs_rejected_access_token := None, cs_next_refresh_after := 0\<rparr>)
      in apply_refresh_success (tg_state started) (tg_state current) finished still_due (cr_disabled (tg_credential current)))"

text \<open>
  The end of \<open>#execute\<close>: the result and the commit, from the target the refresh started from and the one stored now, and
  until when the refresh token is to be left alone (\<open>Some None\<close>: no longer). A commit that fails to be saved is not
  modelled here.
\<close>

definition finish_refresh ::
  "(string \<Rightarrow> string) \<Rightarrow> refresh_target \<Rightarrow> bool \<Rightarrow> string \<Rightarrow> refresh_outcome \<Rightarrow> ms \<Rightarrow> refresh_target option \<Rightarrow>
     refresh_result \<times> refresh_commit option \<times> ms option option" where
  "finish_refresh redact started force failed_token outcome finished stored =
     (case stored of
        None \<Rightarrow> (RefreshFailure NotFound None False, None, None)
      | Some current \<Rightarrow>
          (case outcome of
             OutcomeError e \<Rightarrow>
               (let block = map_option (\<lambda>b. Some (finished + b)) (re_block_ms e)
                in if was_replaced (tg_credential started) (tg_credential current) then (RefreshOk False, None, block)
                   else (let (st, _) = apply_refresh_failure (tg_state current) (failure_input_of redact current e force failed_token finished);
                             terminal = is_terminal_refresh_state st (cr_disabled (tg_credential current))
                         in (RefreshFailure (if terminal \<and> has_unauthorized_failure st then UnauthorizedCode else RefreshFailed) (re_status e) terminal,
                             Some \<lparr>cm_metadata = None, cm_state = Some st\<rparr>, block)))
           | OutcomeOk updated \<Rightarrow>
               (if was_replaced (tg_credential started) (tg_credential current) then (RefreshOk False, None, None)
                else (RefreshOk True,
                      Some \<lparr>cm_metadata = Some (cr_metadata (merged_credential (tg_credential started) (tg_credential current) updated)),
                            cm_state = Some (success_state started current updated finished)\<rparr>, Some None))))"

end
