(* ===== verification/Refresh_Properties.thy ===== *)
theory Refresh_Properties
  imports Refresh_Manager Credential_Model
begin

text \<open>What the refresh schedule, its outcomes and the manager promise the credentials.\<close>

subsection \<open>The alarm\<close>

lemma next_due_fold:
  "foldl (\<lambda>nxt t. case f t of None \<Rightarrow> nxt | Some a \<Rightarrow> (case nxt of None \<Rightarrow> Some a | Some n \<Rightarrow> if a < n then Some a else nxt)) start ts = None \<longleftrightarrow>
     start = None \<and> (\<forall>t \<in> set ts. f t = None)" for f :: "'a \<Rightarrow> rat option"
  by (induction ts arbitrary: start) (auto split: option.splits)

lemma next_due_least:
  "foldl (\<lambda>nxt t. case f t of None \<Rightarrow> nxt | Some a \<Rightarrow> (case nxt of None \<Rightarrow> Some a | Some n \<Rightarrow> if a < n then Some a else nxt)) start ts = Some n \<Longrightarrow>
     (\<forall>a. start = Some a \<longrightarrow> n \<le> a) \<and> (\<forall>t \<in> set ts. \<forall>a. f t = Some a \<longrightarrow> n \<le> a)" for f :: "'a \<Rightarrow> rat option"
proof (induction ts arbitrary: start)
  case (Cons t ts)
  show ?case using Cons.IH [of "case f t of None \<Rightarrow> start | Some a \<Rightarrow> (case start of None \<Rightarrow> Some a | Some n \<Rightarrow> if a < n then Some a else start)"] Cons.prems
    by (auto split: option.splits if_splits)
qed simp


definition sample_token_credential :: credential where
  "sample_token_credential = sample_credential\<lparr>cr_metadata :=
     [(''refresh_token'', JStr ''r''), (''access_token'', JStr ''a''), (''expired'', JNum 20000000)]\<rparr>"

definition sample_target :: refresh_target where
  "sample_target = \<lparr>tg_credential = sample_token_credential, tg_state = empty_state\<rparr>"


subsection \<open>A failed refresh\<close>

lemma failure_input_sound: "0 < finished \<Longrightarrow> sound_input (failure_input_of redact current e force tok finished)"
  by (auto simp: sound_input_def failure_input_of_def has_valid_access_token_def Let_def split: option.splits if_splits)

lemma finish_error:
  assumes "finish_refresh redact started force tok (OutcomeError e) finished (Some current) = (r, Some cm, b)"
  shows "\<exists>effect. apply_refresh_failure (tg_state current) (failure_input_of redact current e force tok finished) = (the (cm_state cm), effect)"
    "cm_metadata cm = None" "cm_state cm \<noteq> None"
  using assms by (auto simp: finish_refresh_def Let_def split: if_splits prod.splits)

text \<open>C16. A failed refresh is not tried again at once, and not put off for ever: after the failure was committed the credential is
  not due, and it is looked at again within half an hour, unless it is never refreshed again until its tokens change. (A
  failure must not claim a 401 in its text that its status denies.)
\<close>

theorem failed_refresh_waits:
  assumes "finish_refresh redact started force tok (OutcomeError e) finished (Some current) = (r, Some cm, b)" "0 < finished"
    and "re_status e = None \<or> re_status e = Some 401 \<or> \<not> is_unauthorized (redact (re_message e)) (re_status e)"
  shows "cm_metadata cm = None \<and> \<not> should_refresh finished (tg_credential current) (the (cm_state cm)) \<and>
    (\<forall>t. next_refresh_check_at finished (tg_credential current) (the (cm_state cm)) = Some t \<longrightarrow>
       of_int finished < t \<and> t \<le> of_int (finished + 1800000))"
proof -
  let ?i = "failure_input_of redact current e force tok finished"
  obtain effect where a: "apply_refresh_failure (tg_state current) ?i = (the (cm_state cm), effect)" using finish_error(1) [OF assms(1)] by blast
  have i: "fi_now ?i = finished" "fi_disabled ?i = cr_disabled (tg_credential current)" by (simp_all add: failure_input_of_def Let_def)
  have "\<not> unauthorized_by_text ?i" using assms(3) by (auto simp: unauthorized_by_text_def failure_input_of_def Let_def)
  from failure_not_due [OF failure_input_sound [OF assms(2)] this a i(2)] finish_error(2) [OF assms(1)] show ?thesis
    by (simp add: i(1))
qed

definition sample_outcome :: "string \<Rightarrow> int option \<Rightarrow> refresh_outcome" where
  "sample_outcome message status = OutcomeError \<lparr>re_message = message, re_status = status, re_block_ms = None\<rparr>"

theorem failed_refresh_waits_witness:
  "\<not> should_refresh 30000000000 sample_token_credential
     (the (cm_state (the (fst (snd (finish_refresh id sample_target False [] (sample_outcome ''invalid_grant'' (Some 400)) 30000000000 (Some sample_target)))))))"
proof -
  have "\<exists>r cm b. finish_refresh id sample_target False [] (sample_outcome ''invalid_grant'' (Some 400)) 30000000000 (Some sample_target) = (r, Some cm, b)"
    by (simp add: finish_refresh_def was_replaced_def credentials_changed_def sample_outcome_def list_ex_iff case_prod_unfold Let_def)
  then obtain r cm b where f: "finish_refresh id sample_target False [] (sample_outcome ''invalid_grant'' (Some 400)) 30000000000 (Some sample_target) = (r, Some cm, b)"
    by blast
  have u: "\<not> is_unauthorized ''invalid_grant'' (Some 400)" by code_simp
  from failed_refresh_waits [OF f [unfolded sample_outcome_def]] u f show ?thesis by (simp add: sample_target_def)
qed

text \<open>A failure that says 401 in its text but has another status leaves the credential due at once: the state is neither
  terminal nor backed off, so the refresh is tried again immediately.
\<close>

theorem text_unauthorized_is_due_at_once:
  "case finish_refresh id sample_target False [] (sample_outcome ''status 401'' (Some 403)) 30000000000 (Some sample_target) of
     (RefreshFailure code status terminal, Some cm, _) \<Rightarrow>
       \<not> terminal \<and> should_refresh 30000000000 sample_token_credential (the (cm_state cm)) \<and>
       next_refresh_check_at 30000000000 sample_token_credential (the (cm_state cm)) = Some 30000000000
   | _ \<Rightarrow> False"
  by code_simp

subsection \<open>A refresh that succeeded\<close>

lemma finish_ok:
  assumes "finish_refresh redact started force tok (OutcomeOk updated) finished (Some current) = (r, Some cm, b)"
  shows "\<not> was_replaced (tg_credential started) (tg_credential current)"
    "cm_metadata cm = Some (merge_refreshed_metadata (cr_metadata (tg_credential started)) (cr_metadata (tg_credential current)) updated)"
    "cm_state cm = Some (success_state started current updated finished)"
  using assms by (auto simp: finish_refresh_def merged_credential_def split: if_splits)


definition sample_updated :: json_object where
  "sample_updated = [(''refresh_token'', JStr ''r2''), (''access_token'', JStr ''a2''), (''expired'', JNum 40000000), (''prefix'', JStr ''x'')]"

definition edited_target :: refresh_target where
  "edited_target = sample_target\<lparr>tg_credential := sample_token_credential\<lparr>cr_metadata :=
     (cr_metadata sample_token_credential) @ [(''prefix'', JStr ''mine'')]\<rparr>\<rparr>"


text \<open>What the success branch does to the fields the schedule and the selection read.\<close>

lemma clear_unauthorized_fields [simp]:
  "cs_status (clear_unauthorized_model_states st now) = cs_status st" "cs_quota (clear_unauthorized_model_states st now) = cs_quota st"
  "cs_next_retry_after (clear_unauthorized_model_states st now) = cs_next_retry_after st"
  "cs_unavailable (clear_unauthorized_model_states st now) = cs_unavailable st"
  by (simp_all add: clear_unauthorized_model_states_def)

lemma success_fields:
  "cs_next_refresh_after (apply_refresh_success base current now due disabled) = (if due then now + 30000 else 0)"
  "cs_rejected_access_token (apply_refresh_success base current now due disabled) = None"
  "cs_refresh_failures (apply_refresh_success base current now due disabled) = 0"
  "cs_quota (apply_refresh_success base current now due disabled) = cs_quota current"
  "cs_next_retry_after (apply_refresh_success base current now due disabled) = cs_next_retry_after current"
  "cs_model_states (apply_refresh_success base current now due disabled) = cs_model_states (clear_unauthorized_model_states current now)"
  by (simp_all add: apply_refresh_success_def Let_def refresh_ineffective_backoff_ms_def)

lemma due_cong:
  assumes "cs_rejected_access_token a = cs_rejected_access_token b" "cs_next_refresh_after a = 0" "cs_next_refresh_after b = 0"
    and "\<not> is_terminal_refresh_state b (cr_disabled c)" "should_refresh now c a"
  shows "should_refresh now c b"
proof -
  have "has_refresh_credential c" "\<not> is_terminal_refresh_state a (cr_disabled c)" using assms(5) by (auto simp: should_refresh_def split: if_split_asm)
  then show ?thesis using assms(2-5) unfolding should_refresh_def assms(1) by simp
qed

text \<open>A refresh that succeeded is not repeated at once: the credential it leaves is not due, and is not looked at for thirty
  seconds when its new tokens are due again already. (The credential was not given up before, as a forced refresh allows.)
\<close>

theorem refreshed_credential_is_not_due:
  assumes "finish_refresh redact started force tok (OutcomeOk updated) finished (Some current) = (r, Some cm, b)" "0 < finished"
    and "\<not> is_terminal_refresh_state ((tg_state current)\<lparr>cs_rejected_access_token := None, cs_next_refresh_after := 0\<rparr>) (cr_disabled (tg_credential current))"
  shows "\<not> should_refresh finished ((tg_credential current)\<lparr>cr_metadata := the (cm_metadata cm)\<rparr>) (the (cm_state cm)) \<and>
    cs_rejected_access_token (the (cm_state cm)) = None \<and> cs_refresh_failures (the (cm_state cm)) = 0"
proof -
  note f = finish_ok [OF assms(1)]
  let ?c = "merged_credential (tg_credential started) (tg_credential current) updated"
  let ?p = "(tg_state current)\<lparr>cs_rejected_access_token := None, cs_next_refresh_after := 0\<rparr>"
  let ?st = "success_state started current updated finished"
  have st: "?st = apply_refresh_success (tg_state started) (tg_state current) finished (should_refresh finished ?c ?p) (cr_disabled (tg_credential current))"
    by (simp add: success_state_def Let_def)
  have c: "(tg_credential current)\<lparr>cr_metadata := the (cm_metadata cm)\<rparr> = ?c" using f(2) by (simp add: merged_credential_def)
  have "cr_disabled ?c = cr_disabled (tg_credential current)" by (simp add: merged_credential_def)
  then have live: "\<not> is_terminal_refresh_state ?p (cr_disabled ?c)" using assms(3) by simp
  have "\<not> should_refresh finished ?c ?st"
  proof (cases "should_refresh finished ?c ?p")
    case True
    then have "cs_next_refresh_after ?st = finished + 30000" unfolding st success_fields by simp
    then show ?thesis using assms(2) by (simp add: should_refresh_def)
  next
    case False
    have "cs_rejected_access_token ?st = cs_rejected_access_token ?p" "cs_next_refresh_after ?st = 0"
      unfolding st success_fields using False by simp_all
    from due_cong [OF this _ live] False show ?thesis by auto
  qed
  then show ?thesis using f(3) c st by (simp add: success_fields)
qed

theorem refreshed_credential_is_not_due_witness:
  "\<not> should_refresh 5000 (sample_token_credential\<lparr>cr_metadata :=
        the (cm_metadata (the (fst (snd (finish_refresh id sample_target False [] (OutcomeOk sample_updated) 5000 (Some sample_target))))))\<rparr>)
     (the (cm_state (the (fst (snd (finish_refresh id sample_target False [] (OutcomeOk sample_updated) 5000 (Some sample_target)))))))"
proof -
  have "\<not> was_replaced (tg_credential sample_target) (tg_credential sample_target)" by (simp add: was_replaced_def credentials_changed_def list_ex_iff)
  then have "\<exists>r cm b. finish_refresh id sample_target False [] (OutcomeOk sample_updated) 5000 (Some sample_target) = (r, Some cm, b)"
    by (simp add: finish_refresh_def)
  then obtain r cm b where f: "finish_refresh id sample_target False [] (OutcomeOk sample_updated) 5000 (Some sample_target) = (r, Some cm, b)" by blast
  have "\<not> is_terminal_refresh_state ((tg_state sample_target)\<lparr>cs_rejected_access_token := None, cs_next_refresh_after := 0\<rparr>) (cr_disabled (tg_credential sample_target))"
    by code_simp
  from refreshed_credential_is_not_due [OF f _ this] f show ?thesis by (simp add: sample_target_def)
qed

lemma kept_models:
  "(m, md) \<in> set (cs_model_states st) \<Longrightarrow> \<not> is_unauthorized_model_error (md_last_error md) (md_status_message md) \<Longrightarrow>
     (m, md) \<in> set (cs_model_states (clear_unauthorized_model_states st now))"
proof -
  have "(m, md) \<in> set ms \<Longrightarrow> \<not> is_unauthorized_model_error (md_last_error md) (md_status_message md) \<Longrightarrow> (m, md) \<in> set (cleared_models now ms)" for ms
    by (induction now ms rule: cleared_models.induct) (auto split: option.split)
  then show "(m, md) \<in> set (cs_model_states st) \<Longrightarrow> \<not> is_unauthorized_model_error (md_last_error md) (md_status_message md) \<Longrightarrow>
     (m, md) \<in> set (cs_model_states (clear_unauthorized_model_states st now))"
    by (simp add: clear_unauthorized_model_states_def)
qed

text \<open>A refresh lifts no cooldown but those the old token caused: a model that was cooling for any other reason is still not
  selected after the refresh, and neither is any model while the credential is at its quota.
\<close>

theorem refresh_keeps_cooldowns:
  assumes "finish_refresh redact started force tok (OutcomeOk updated) finished (Some current) = (r, Some cm, b)" "0 \<le> t" "model \<noteq> []"
    and "(m, md) \<in> set (cs_model_states (tg_state current)) \<and> \<not> is_unauthorized_model_error (md_last_error md) (md_status_message md) \<and>
           canonical_model_key m = canonical_model_key model \<and> bk_blocked (model_state_block md t)
         \<or> q_exceeded (cs_quota (tg_state current)) \<and> q_reason (cs_quota (tg_state current)) = Some ''credential_quota'' \<and> q_next_recover_at (cs_quota (tg_state current)) > t"
  shows "bk_blocked (is_blocked_for_model c (the (cm_state cm)) model t)"
proof -
  let ?st = "success_state started current updated finished"
  have quota: "cs_quota ?st = cs_quota (tg_state current)"
    and models: "cs_model_states ?st = cs_model_states (clear_unauthorized_model_states (tg_state current) finished)"
    by (simp_all add: success_state_def Let_def success_fields)
  have "bk_blocked (is_blocked_for_model c ?st model t)"
    using assms(4)
  proof
    assume md: "(m, md) \<in> set (cs_model_states (tg_state current)) \<and> \<not> is_unauthorized_model_error (md_last_error md) (md_status_message md) \<and>
        canonical_model_key m = canonical_model_key model \<and> bk_blocked (model_state_block md t)"
    then have mem: "(m, md) \<in> set (cs_model_states ?st)" using kept_models models by metis
    then have "md \<in> set (states_for (canonical_model_key model) (cs_model_states ?st))" using md by (force simp: states_for_def)
    then have "bk_blocked (scan_model_states (canonical_model_key model) t (cs_model_states ?st) False free_block)"
      using md scan_blocked_iff [OF assms(2)] by blast
    moreover have "cs_model_states ?st \<noteq> []" using mem by auto
    ultimately show ?thesis using assms(3) by (simp add: is_blocked_for_model_def Let_def)
  next
    assume "q_exceeded (cs_quota (tg_state current)) \<and> q_reason (cs_quota (tg_state current)) = Some ''credential_quota'' \<and> q_next_recover_at (cs_quota (tg_state current)) > t"
    then show ?thesis using quota by (simp add: is_blocked_for_model_def Let_def)
  qed
  then show ?thesis using finish_ok(3) [OF assms(1)] by simp
qed

definition cooling_target :: refresh_target where
  "cooling_target = sample_target\<lparr>tg_state := empty_state\<lparr>cs_quota := empty_quota\<lparr>q_exceeded := True, q_reason := Some ''credential_quota'', q_next_recover_at := 9000\<rparr>\<rparr>\<rparr>"

theorem refresh_keeps_cooldowns_witness:
  "bk_blocked (is_blocked_for_model sample_token_credential
     (the (cm_state (the (fst (snd (finish_refresh id sample_target False [] (OutcomeOk sample_updated) 5000 (Some cooling_target))))))) ''m'' 8000)"
proof -
  have "\<not> was_replaced (tg_credential sample_target) (tg_credential cooling_target)"
    by (simp add: was_replaced_def credentials_changed_def list_ex_iff cooling_target_def)
  then have "\<exists>r cm b. finish_refresh id sample_target False [] (OutcomeOk sample_updated) 5000 (Some cooling_target) = (r, Some cm, b)"
    by (simp add: finish_refresh_def)
  then obtain r cm b where f: "finish_refresh id sample_target False [] (OutcomeOk sample_updated) 5000 (Some cooling_target) = (r, Some cm, b)" by blast
  have "q_exceeded (cs_quota (tg_state cooling_target)) \<and> q_reason (cs_quota (tg_state cooling_target)) = Some ''credential_quota'' \<and>
      q_next_recover_at (cs_quota (tg_state cooling_target)) > 8000"
    by (simp add: cooling_target_def)
  then show ?thesis using refresh_keeps_cooldowns [OF f, of 8000 "''m''"] f by simp
qed

definition given_up_target :: refresh_target where
  "given_up_target = sample_target\<lparr>tg_state := empty_state\<lparr>cs_status := StError, cs_unavailable := True, cs_last_error := Some (unauthorized_error ''gone'')\<rparr>\<rparr>"

text \<open>A forced refresh skips that guard: a credential that was given up counts as not due when its new tokens are looked at, so
  a refresh whose tokens are due again leaves it due at once.
\<close>

theorem forced_refresh_skips_guard:
  "case finish_refresh id given_up_target True [] (OutcomeOk (cr_metadata sample_token_credential)) 30000000000 (Some given_up_target) of
     (RefreshOk refreshed, Some cm, _) \<Rightarrow>
       refreshed \<and> should_refresh 30000000000 (sample_token_credential\<lparr>cr_metadata := the (cm_metadata cm)\<rparr>) (the (cm_state cm))
   | _ \<Rightarrow> False"
  by code_simp

end
