(* ===== verification/Outbound_Address.thy ===== *)
theory Outbound_Address
  imports Prelude
begin

text \<open>
  The addresses of the outbound guard (\<open>packages/core/src/outbound/check.ts\<close>): IPv4 and IPv6 literals and the ranges
  that are not the public internet. An IPv4 address is a number below \<open>2 ^ 32\<close>, an IPv6 address its eight 16-bit groups;
  \<open>Math.floor(a / 2 ** k)\<close> is \<^const>\<open>divide\<close> and \<open>>>\<close> is \<^const>\<open>drop_bit\<close>, both on naturals.
\<close>

subsection \<open>IPv4\<close>

definition quad_part :: "string \<Rightarrow> bool" where
  "quad_part s \<longleftrightarrow> 1 \<le> length s \<and> length s \<le> 3 \<and> list_all is_digit s"

text \<open>\<open>DOTTED_QUAD\<close>: four groups of one to three digits.\<close>

definition dotted_quad :: "string \<Rightarrow> string list option" where
  "dotted_quad s = (let parts = split_on CHR ''.'' s in
     if length parts = 4 \<and> list_all quad_part parts then Some parts else None)"

definition ipv4 :: "string \<Rightarrow> nat option" where
  "ipv4 hostname =
     (case dotted_quad hostname of
        None \<Rightarrow> None
      | Some parts \<Rightarrow>
          let octets = map (\<lambda>p. nat (digits_val p)) parts
          in if list_ex (\<lambda>octet. octet > 255) octets then None
             else Some (foldl (\<lambda>value octet. value * 256 + octet) 0 octets))"

definition v4 :: "nat \<Rightarrow> nat \<Rightarrow> nat \<Rightarrow> nat \<Rightarrow> nat" where
  "v4 a b c d = ((a * 256 + b) * 256 + c) * 256 + d"

definition non_public_v4 :: "(nat \<times> nat) list" where
  "non_public_v4 =
     [(v4 0 0 0 0, 8), (v4 10 0 0 0, 8), (v4 100 64 0 0, 10), (v4 127 0 0 0, 8), (v4 169 254 0 0, 16),
      (v4 172 16 0 0, 12), (v4 192 0 0 0, 24), (v4 192 0 2 0, 24), (v4 192 88 99 0, 24), (v4 192 168 0 0, 16),
      (v4 198 18 0 0, 15), (v4 198 51 100 0, 24), (v4 203 0 113 0, 24), (v4 224 0 0 0, 4), (v4 240 0 0 0, 4)]"

definition in_v4_range :: "nat \<Rightarrow> nat \<times> nat \<Rightarrow> bool" where
  "in_v4_range address entry = (case entry of (first, bits) \<Rightarrow> address div 2 ^ (32 - bits) = first div 2 ^ (32 - bits))"

definition is_public_v4 :: "nat \<Rightarrow> bool" where
  "is_public_v4 address \<longleftrightarrow> \<not> list_ex (in_v4_range address) non_public_v4"

definition is_loopback_v4 :: "nat \<Rightarrow> bool" where
  "is_loopback_v4 address \<longleftrightarrow> in_v4_range address (v4 127 0 0 0, 8)"

subsection \<open>IPv6\<close>

definition is_hex :: "char \<Rightarrow> bool" where
  "is_hex c \<longleftrightarrow> is_digit c \<or> (let n = (of_char c :: nat) in 97 \<le> n \<and> n \<le> 102)"

definition group_digit :: "char \<Rightarrow> nat" where
  "group_digit c = (if is_digit c then of_char c - 48 else of_char c - 87)"

text \<open>\<open>Number.parseInt(group, 16)\<close> of a group that \<open>HEX_GROUP\<close> matches.\<close>

definition group_val :: "string \<Rightarrow> nat" where
  "group_val s = foldl (\<lambda>v c. v * 16 + group_digit c) 0 s"

definition hex_group :: "string \<Rightarrow> bool" where
  "hex_group s \<longleftrightarrow> 1 \<le> length s \<and> length s \<le> 4 \<and> list_all is_hex s"

text \<open>\<open>text.split("::")\<close>.\<close>

fun split_pair :: "char \<Rightarrow> string \<Rightarrow> string list" where
  "split_pair c [] = [[]]"
| "split_pair c [x] = [[x]]"
| "split_pair c (x # y # s) =
     (if x = c \<and> y = c then [] # split_pair c s
      else (case split_pair c (y # s) of [] \<Rightarrow> [[x]] | w # ws \<Rightarrow> (x # w) # ws))"

text \<open>\<open>parse(halves[i])\<close>.\<close>

definition half_groups :: "string list \<Rightarrow> nat \<Rightarrow> string list" where
  "half_groups halves i = (if i < length halves \<and> halves ! i \<noteq> [] then split_on CHR '':'' (halves ! i) else [])"

definition ipv6 :: "string \<Rightarrow> nat list option" where
  "ipv6 literal =
     (let lowered = js_lower literal;
          cut = (case last_index_of CHR '':'' lowered of None \<Rightarrow> 0 | Some i \<Rightarrow> Suc i);
          quad = ipv4 (drop cut lowered);
          tail = (case quad of None \<Rightarrow> [] | Some q \<Rightarrow> [q div 65536, q mod 65536]);
          text = (case quad of None \<Rightarrow> lowered | Some q \<Rightarrow> take cut lowered @ ''0:0'');
          halves = split_pair CHR '':'' text
      in if length halves > 2 then None
         else
           let head = half_groups halves 0; rest = half_groups halves 1
           in if \<not> list_all hex_group (head @ rest) then None
              else
                let missing = 8 - int (length (head @ rest))
                in if (if length halves = 1 then missing \<noteq> 0 else missing < 1) then None
                   else
                     let groups = map group_val head @ replicate (if length halves = 1 then 0 else nat missing) 0 @ map group_val rest
                     in Some (if tail \<noteq> [] then take 6 groups @ tail @ drop 8 groups else groups))"

definition group_at :: "nat list \<Rightarrow> nat \<Rightarrow> nat" where
  "group_at groups i = (if i < length groups then groups ! i else 0)"

text \<open>The loop of \<open>inV6Range\<close>, from \<open>index\<close> on.\<close>

function in_v6_from :: "nat \<Rightarrow> nat list \<Rightarrow> nat list \<Rightarrow> nat \<Rightarrow> bool" where
  "in_v6_from index groups pre bits =
     (if index * 16 < bits
      then (let width = min 16 (bits - index * 16); shift = 16 - width
            in if drop_bit shift (group_at groups index) \<noteq> drop_bit shift (group_at pre index) then False
               else in_v6_from (Suc index) groups pre bits)
      else True)"
  by pat_completeness auto
termination by (relation "measure (\<lambda>(index, _, _, bits). bits - index * 16)") auto

declare in_v6_from.simps [simp del]

definition in_v6_range :: "nat list \<Rightarrow> nat list \<Rightarrow> nat \<Rightarrow> bool" where
  "in_v6_range groups pre bits = in_v6_from 0 groups pre bits"

definition embedded_v4 :: "nat list \<Rightarrow> nat \<Rightarrow> nat \<Rightarrow> nat" where
  "embedded_v4 groups high low = group_at groups high * 65536 + group_at groups low"

definition non_public_v6 :: "(nat list \<times> nat) list" where
  "non_public_v6 = [([0x2001, 0x0000], 23), ([0x2001, 0x0db8], 32), ([0x3fff, 0x0000], 20)]"

definition is_public_v6 :: "nat list \<Rightarrow> bool" where
  "is_public_v6 groups =
     (if in_v6_range groups [0, 0, 0, 0, 0, 0xffff] 96 \<or> in_v6_range groups [0x64, 0xff9b] 96
      then is_public_v4 (embedded_v4 groups 6 7)
      else if in_v6_range groups [0x2002] 16 then is_public_v4 (embedded_v4 groups 1 2)
      else if \<not> in_v6_range groups [0x2000] 3 then False
      else \<not> list_ex (\<lambda>(pre, bits). in_v6_range groups pre bits) non_public_v6)"

definition is_loopback_v6 :: "nat list \<Rightarrow> bool" where
  "is_loopback_v6 groups \<longleftrightarrow>
     list_all (\<lambda>(index, group). group = (if index = 7 then 1 else 0)) (enumerate 0 groups) \<or>
     in_v6_range groups [0, 0, 0, 0, 0, 0xffff] 96 \<and> is_loopback_v4 (embedded_v4 groups 6 7)"

end
