(* ===== verification/Outbound_Literals.thy ===== *)
theory Outbound_Literals
  imports Outbound_Address
begin

text \<open>
  The literals of IPv6 addresses as the URL parser writes them (lower case groups without leading zeros, one run of zero
  groups compressed to \<open>::\<close>), and the lemmas that read them back. \<open>show_hex\<close>, \<open>v6_full\<close> and \<open>v6_compressed\<close> are the
  specification side: no code of the repository prints an address.
\<close>

definition hex_char :: "nat \<Rightarrow> char" where
  "hex_char n = char_of (if n < 10 then 48 + n else 87 + n)"

fun show_hex :: "nat \<Rightarrow> string" where
  "show_hex n = (if n < 16 then [hex_char n] else show_hex (n div 16) @ [hex_char (n mod 16)])"

declare show_hex.simps [simp del]

definition v6_full :: "nat list \<Rightarrow> string" where
  "v6_full groups = join_with '':'' (map show_hex groups)"

definition v6_compressed :: "nat list \<Rightarrow> nat \<Rightarrow> nat \<Rightarrow> string" where
  "v6_compressed groups i n = v6_full (take i groups) @ ''::'' @ v6_full (drop (i + n) groups)"

subsection \<open>Groups\<close>

lemma of_char_hex_char: "n < 16 \<Longrightarrow> (of_char (hex_char n) :: nat) = (if n < 10 then 48 + n else 87 + n)"
  by (simp add: hex_char_def)

lemma is_hex_hex_char [simp]: "n < 16 \<Longrightarrow> is_hex (hex_char n)"
  by (auto simp: is_hex_def is_digit_def Let_def of_char_hex_char)

lemma group_digit_hex_char [simp]: "n < 16 \<Longrightarrow> group_digit (hex_char n) = n"
  by (auto simp: group_digit_def is_digit_def Let_def of_char_hex_char)

lemma show_hex_chars: "c \<in> set (show_hex n) \<Longrightarrow> is_hex c"
proof (induction n rule: show_hex.induct)
  case (1 n)
  then show ?case by (cases "n < 16") (auto simp: show_hex.simps [of n])
qed

lemma group_val_append: "group_val (s @ [c]) = group_val s * 16 + group_digit c"
  by (simp add: group_val_def)

lemma group_val_show_hex [simp]: "group_val (show_hex n) = n"
proof (induction n rule: show_hex.induct)
  case (1 n)
  show ?case
  proof (cases "n < 16")
    case True
    then show ?thesis by (simp add: show_hex.simps [of n] group_val_def)
  next
    case False
    then show ?thesis using 1 by (simp add: show_hex.simps [of n] group_val_append)
  qed
qed

lemma show_hex_not_Nil [simp]: "show_hex n \<noteq> []"
  by (simp add: show_hex.simps [of n])

lemma length_show_hex: "n < 16 ^ k \<Longrightarrow> 0 < k \<Longrightarrow> length (show_hex n) \<le> k"
proof (induction n arbitrary: k rule: show_hex.induct)
  case (1 n)
  show ?case
  proof (cases "n < 16")
    case True
    then show ?thesis using 1(3) by (simp add: show_hex.simps [of n])
  next
    case False
    then obtain j where k: "k = Suc j" "0 < j" using 1(2,3) by (cases k; cases "k - 1") auto
    then have "n div 16 < 16 ^ j" using 1(2) by (simp add: less_mult_imp_div_less mult.commute)
    then show ?thesis using 1(1) [OF False, of j] k False by (simp add: show_hex.simps [of n])
  qed
qed

lemma hex_group_show_hex: "n < 65536 \<Longrightarrow> hex_group (show_hex n)"
  using length_show_hex [of n 4] by (auto simp: hex_group_def list_all_iff show_hex_chars Suc_le_eq)

lemma hex_not_sep: "is_hex c \<Longrightarrow> c \<noteq> CHR '':'' \<and> c \<noteq> CHR ''.''"
  by (auto simp: is_hex_def is_digit_def)

lemma sep_not_in_show_hex [simp]: "CHR '':'' \<notin> set (show_hex n)"
  using hex_not_sep show_hex_chars by blast

lemma hex_lower: "is_hex c \<Longrightarrow> lower_char c = c"
  by (auto simp: is_hex_def is_digit_def lower_char_def Let_def)

subsection \<open>Splitting\<close>

lemma split_on_no_sep: "c \<notin> set s \<Longrightarrow> split_on c s = [s]"
  by (induction s) auto

lemma split_on_join: "ws \<noteq> [] \<Longrightarrow> \<forall>w \<in> set ws. c \<notin> set w \<Longrightarrow> split_on c (join_with [c] ws) = ws"
proof (induction "[c]" ws rule: join_with.induct)
  case (2 w)
  then show ?case by (simp add: split_on_no_sep)
next
  case (3 w v vs)
  have "split_on c (u @ c # t) = u # split_on c t" if "c \<notin> set u" for u t using that by (induction u) auto
  then show ?case using 3 by simp
qed simp

fun no_pair :: "char \<Rightarrow> string \<Rightarrow> bool" where
  "no_pair c (x # y # s) \<longleftrightarrow> \<not> (x = c \<and> y = c) \<and> no_pair c (y # s)"
| "no_pair c _ \<longleftrightarrow> True"

lemma split_pair_single: "no_pair c s \<Longrightarrow> split_pair c s = [s]"
  by (induction c s rule: no_pair.induct) auto

lemma split_pair_append:
  "no_pair c a \<Longrightarrow> a = [] \<or> List.last a \<noteq> c \<Longrightarrow> split_pair c (a @ c # c # b) = a # split_pair c b"
  by (induction c a rule: no_pair.induct) auto

lemma no_pair_append:
  "no_pair c a \<Longrightarrow> no_pair c b \<Longrightarrow> a = [] \<or> b = [] \<or> List.last a \<noteq> c \<or> hd b \<noteq> c \<Longrightarrow> no_pair c (a @ b)"
  by (induction c a rule: no_pair.induct; cases b) auto

lemma no_pair_no_sep: "c \<notin> set s \<Longrightarrow> no_pair c s"
  by (induction c s rule: no_pair.induct) auto

lemma no_pair_join: "\<forall>w \<in> set ws. w \<noteq> [] \<and> c \<notin> set w \<Longrightarrow> no_pair c (join_with [c] ws) \<and> (ws = [] \<or> join_with [c] ws \<noteq> [] \<and> hd (join_with [c] ws) \<noteq> c \<and> List.last (join_with [c] ws) \<noteq> c)"
proof (induction "[c]" ws rule: join_with.induct)
  case (2 w)
  then show ?case by (auto simp: no_pair_no_sep in_set_conv_decomp dest: last_in_set hd_in_set)
next
  case (3 w v vs)
  let ?t = "join_with [c] (v # vs)"
  have t: "no_pair c ?t" "?t \<noteq> []" "hd ?t \<noteq> c" "List.last ?t \<noteq> c" using 3 by auto
  have w: "w \<noteq> []" "c \<notin> set w" "no_pair c w" "hd w \<noteq> c" "List.last w \<noteq> c"
    using 3(2) by (auto simp: no_pair_no_sep)
  have "no_pair c ([c] @ ?t)" using t no_pair_append [of c "[c]" ?t] by simp
  then have "no_pair c (w @ [c] @ ?t)" using w no_pair_append [of c w "[c] @ ?t"] by simp
  then show ?case using w t by simp
qed simp

subsection \<open>Reading a literal\<close>

lemma v6_full_chars: "c \<in> set (v6_full groups) \<Longrightarrow> is_hex c \<or> c = CHR '':''"
proof -
  have "c \<in> set (join_with [d] ws) \<Longrightarrow> c = d \<or> (\<exists>w \<in> set ws. c \<in> set w)" for d ws
    by (induction "[d]" ws rule: join_with.induct) auto
  then show "c \<in> set (v6_full groups) \<Longrightarrow> is_hex c \<or> c = CHR '':''" by (fastforce simp: v6_full_def dest: show_hex_chars)
qed

lemma v6_full_split:
  "split_on CHR '':'' (v6_full groups) = (if groups = [] then [[]] else map show_hex groups)"
  using split_on_join [of "map show_hex groups" "CHR '':''"] by (auto simp: v6_full_def)

lemma v6_full_pairs:
  "no_pair CHR '':'' (v6_full groups)" "v6_full groups = [] \<or> List.last (v6_full groups) \<noteq> CHR '':''"
  "v6_full groups = [] \<longleftrightarrow> groups = []"
proof -
  have "\<forall>w \<in> set (map show_hex groups). w \<noteq> [] \<and> CHR '':'' \<notin> set w" by auto
  from no_pair_join [OF this]
  show "no_pair CHR '':'' (v6_full groups)" "v6_full groups = [] \<or> List.last (v6_full groups) \<noteq> CHR '':''"
    "v6_full groups = [] \<longleftrightarrow> groups = []"
    by (auto simp: v6_full_def)
qed

lemma ipv4_no_dot: "CHR ''.'' \<notin> set s \<Longrightarrow> ipv4 s = None"
  by (simp add: ipv4_def dotted_quad_def Let_def split_on_no_sep)

text \<open>Without a dot there is no embedded quad, so the text is read as it is.\<close>

lemma ipv6_plain:
  assumes chars: "\<forall>c \<in> set s. is_hex c \<or> c = CHR '':''"
    and split: "split_pair CHR '':'' s = halves" "half_groups halves 0 = head" "half_groups halves 1 = rest"
    and ok: "length halves \<le> 2" "list_all hex_group (head @ rest)"
    and num: "if length halves = 1 then length (head @ rest) = 8 else length (head @ rest) \<le> 7"
  shows "ipv6 s = Some (map group_val head @ replicate (if length halves = 1 then 0 else 8 - length (head @ rest)) 0 @ map group_val rest)"
proof -
  have "lower_char (CHR '':'') = CHR '':''" by (simp add: lower_char_def)
  then have "lower_char c = c" if "c \<in> set s" for c
    using chars that hex_lower by metis
  then have lower: "js_lower s = s" by (simp add: js_lower_def map_idI)
  have "CHR ''.'' \<notin> set s" using chars hex_not_sep by fastforce
  then have none: "ipv4 (drop k s) = None" for k by (meson in_set_dropD ipv4_no_dot)
  have guards: "(length halves > 2) = False" "(\<not> list_all hex_group (head @ rest)) = False"
    "(if length halves = 1 then 8 - int (length (head @ rest)) \<noteq> 0 else 8 - int (length (head @ rest)) < 1) = False"
    using ok num by (auto split: if_splits)
  have gap: "nat (8 - int (length (head @ rest))) = 8 - length (head @ rest)" by simp
  show ?thesis
    unfolding ipv6_def Let_def lower none option.case split guards gap if_False by simp
qed

lemma groups_valid: "\<forall>g \<in> set groups. g < 65536 \<Longrightarrow> list_all hex_group (map show_hex groups)"
  by (auto simp: list_all_iff hex_group_show_hex)

lemma half_groups_full:
  "i < length halves \<Longrightarrow> halves ! i = v6_full groups \<Longrightarrow> half_groups halves i = map show_hex groups"
  using v6_full_pairs(3) [of groups] by (simp add: half_groups_def v6_full_split)

lemma ipv6_full:
  assumes "length groups = 8" "\<forall>g \<in> set groups. g < 65536"
  shows "ipv6 (v6_full groups) = Some groups"
proof -
  have half: "half_groups [v6_full groups] 0 = map show_hex groups" "half_groups [v6_full groups] 1 = []"
    by (simp_all add: half_groups_full) (simp add: half_groups_def)
  show ?thesis
    using ipv6_plain [OF _ split_pair_single [OF v6_full_pairs(1)] half] assms groups_valid [OF assms(2)] v6_full_chars
    by (fastforce simp: comp_def)
qed

lemma ipv6_compressed:
  assumes "length groups = 8" "\<forall>g \<in> set groups. g < 65536" "1 \<le> n" "i + n \<le> 8" "take n (drop i groups) = replicate n 0"
  shows "ipv6 (v6_compressed groups i n) = Some groups"
proof -
  let ?a = "take i groups" and ?b = "drop (i + n) groups"
  let ?halves = "[v6_full ?a, v6_full ?b]"
  have groups: "groups = ?a @ replicate n 0 @ ?b"
    using assms(5) by (metis add.commute append_take_drop_id drop_drop)
  have split: "split_pair CHR '':'' (v6_compressed groups i n) = ?halves"
    using split_pair_append [OF v6_full_pairs(1,2), of ?a "v6_full ?b"] by (simp add: v6_compressed_def split_pair_single [OF v6_full_pairs(1)])
  have half: "half_groups ?halves 0 = map show_hex ?a" "half_groups ?halves 1 = map show_hex ?b"
    by (simp_all add: half_groups_full)
  have small: "list_all hex_group (map show_hex ?a @ map show_hex ?b)"
    using assms(2) hex_group_show_hex by (auto simp: list_all_iff dest!: in_set_takeD in_set_dropD)
  have len: "length (map show_hex ?a @ map show_hex ?b) = 8 - n" using assms(1,4) by simp
  have chars: "\<forall>c \<in> set (v6_compressed groups i n). is_hex c \<or> c = CHR '':''"
    using v6_full_chars by (auto simp: v6_compressed_def)
  have "8 - (8 - n) = n" "8 - n \<le> 7" using assms(3,4) by auto
  then have "ipv6 (v6_compressed groups i n) = Some (?a @ replicate n 0 @ ?b)"
    using ipv6_plain [OF chars split half _ small] len by (simp add: comp_def)
  then show ?thesis using groups by simp
qed

end
