(* ===== verification/Outbound_Ranges.thy ===== *)
theory Outbound_Ranges
  imports Outbound_Literals
begin

text \<open>
  What the range tests of the outbound guard mean: an IPv4 range is an interval of addresses, an IPv6 range is an interval
  of 128-bit numbers, and the parsers answer well-formed addresses.
\<close>

subsection \<open>IPv4 ranges are intervals\<close>

definition between :: "nat \<Rightarrow> nat \<Rightarrow> nat \<Rightarrow> bool" where
  "between low high a \<longleftrightarrow> low \<le> a \<and> a \<le> high"

lemma div_eq_interval: "0 < k \<Longrightarrow> (a::nat) div k = c \<longleftrightarrow> c * k \<le> a \<and> a < (c + 1) * k"
proof -
  assume k: "0 < k"
  have "a div k = c \<longleftrightarrow> c \<le> a div k \<and> a div k < c + 1" by auto
  then show ?thesis using k by (simp only: less_eq_div_iff_mult_less_eq div_less_iff_less_mult)
qed

lemma in_v4_range_between:
  assumes "first mod 2 ^ (32 - bits) = 0" "Suc high = first + 2 ^ (32 - bits)"
  shows "in_v4_range a (first, bits) \<longleftrightarrow> between first high a"
proof -
  define c where "c = first div 2 ^ (32 - bits)"
  have first: "first = c * 2 ^ (32 - bits)" using assms(1) by (simp add: c_def mult_div_mod_eq [symmetric] mod_0_imp_dvd)
  have "a < (c + 1) * 2 ^ (32 - bits) \<longleftrightarrow> a \<le> high" using assms(2) first by auto
  then show ?thesis
    using div_eq_interval [of "2 ^ (32 - bits)" a c] first by (simp add: in_v4_range_def between_def)
qed

lemma v4_ranges:
  "in_v4_range a (v4 0 0 0 0, 8) \<longleftrightarrow> between (v4 0 0 0 0) (v4 0 255 255 255) a"
  "in_v4_range a (v4 10 0 0 0, 8) \<longleftrightarrow> between (v4 10 0 0 0) (v4 10 255 255 255) a"
  "in_v4_range a (v4 100 64 0 0, 10) \<longleftrightarrow> between (v4 100 64 0 0) (v4 100 127 255 255) a"
  "in_v4_range a (v4 127 0 0 0, 8) \<longleftrightarrow> between (v4 127 0 0 0) (v4 127 255 255 255) a"
  "in_v4_range a (v4 169 254 0 0, 16) \<longleftrightarrow> between (v4 169 254 0 0) (v4 169 254 255 255) a"
  "in_v4_range a (v4 172 16 0 0, 12) \<longleftrightarrow> between (v4 172 16 0 0) (v4 172 31 255 255) a"
  "in_v4_range a (v4 192 0 0 0, 24) \<longleftrightarrow> between (v4 192 0 0 0) (v4 192 0 0 255) a"
  "in_v4_range a (v4 192 0 2 0, 24) \<longleftrightarrow> between (v4 192 0 2 0) (v4 192 0 2 255) a"
  "in_v4_range a (v4 192 88 99 0, 24) \<longleftrightarrow> between (v4 192 88 99 0) (v4 192 88 99 255) a"
  "in_v4_range a (v4 192 168 0 0, 16) \<longleftrightarrow> between (v4 192 168 0 0) (v4 192 168 255 255) a"
  "in_v4_range a (v4 198 18 0 0, 15) \<longleftrightarrow> between (v4 198 18 0 0) (v4 198 19 255 255) a"
  "in_v4_range a (v4 198 51 100 0, 24) \<longleftrightarrow> between (v4 198 51 100 0) (v4 198 51 100 255) a"
  "in_v4_range a (v4 203 0 113 0, 24) \<longleftrightarrow> between (v4 203 0 113 0) (v4 203 0 113 255) a"
  "in_v4_range a (v4 224 0 0 0, 4) \<longleftrightarrow> between (v4 224 0 0 0) (v4 239 255 255 255) a"
  "in_v4_range a (v4 240 0 0 0, 4) \<longleftrightarrow> between (v4 240 0 0 0) (v4 255 255 255 255) a"
  by (rule in_v4_range_between; simp add: v4_def)+

definition special_v4 :: "nat \<Rightarrow> bool" where
  "special_v4 a \<longleftrightarrow>
     between (v4 0 0 0 0) (v4 0 255 255 255) a \<or> between (v4 10 0 0 0) (v4 10 255 255 255) a \<or>
     between (v4 100 64 0 0) (v4 100 127 255 255) a \<or> between (v4 127 0 0 0) (v4 127 255 255 255) a \<or>
     between (v4 169 254 0 0) (v4 169 254 255 255) a \<or> between (v4 172 16 0 0) (v4 172 31 255 255) a \<or>
     between (v4 192 0 0 0) (v4 192 0 0 255) a \<or> between (v4 192 0 2 0) (v4 192 0 2 255) a \<or>
     between (v4 192 88 99 0) (v4 192 88 99 255) a \<or> between (v4 192 168 0 0) (v4 192 168 255 255) a \<or>
     between (v4 198 18 0 0) (v4 198 19 255 255) a \<or> between (v4 198 51 100 0) (v4 198 51 100 255) a \<or>
     between (v4 203 0 113 0) (v4 203 0 113 255) a \<or> between (v4 224 0 0 0) (v4 255 255 255 255) a"

lemma is_public_v4_iff: "is_public_v4 a \<longleftrightarrow> \<not> special_v4 a"
proof -
  have "between (v4 224 0 0 0) (v4 255 255 255 255) a \<longleftrightarrow> between (v4 224 0 0 0) (v4 239 255 255 255) a \<or> between (v4 240 0 0 0) (v4 255 255 255 255) a"
    by (auto simp: between_def v4_def)
  then show ?thesis by (simp add: is_public_v4_def non_public_v4_def v4_ranges special_v4_def)
qed

subsection \<open>IPv6 ranges are intervals\<close>

definition v6_address :: "nat list \<Rightarrow> bool" where
  "v6_address groups \<longleftrightarrow> length groups = 8 \<and> (\<forall>g \<in> set groups. g < 65536)"

primrec v6_num :: "nat list \<Rightarrow> nat" where
  "v6_num [] = 0"
| "v6_num (g # gs) = g * 2 ^ (16 * length gs) + v6_num gs"

text \<open>The loop of \<open>inV6Range\<close> on the groups themselves.\<close>

fun same_prefix :: "nat list \<Rightarrow> nat list \<Rightarrow> nat \<Rightarrow> bool" where
  "same_prefix (g # gs) (p # ps) bits \<longleftrightarrow>
     bits = 0 \<or> drop_bit (16 - min 16 bits) g = drop_bit (16 - min 16 bits) p \<and> same_prefix gs ps (bits - 16)"
| "same_prefix _ _ _ \<longleftrightarrow> True"

lemma in_v6_from_same_prefix:
  "length groups = n \<Longrightarrow> length ps = n \<Longrightarrow> bits \<le> 16 * n \<Longrightarrow> i \<le> n \<Longrightarrow>
   in_v6_from i groups ps bits \<longleftrightarrow> same_prefix (drop i groups) (drop i ps) (bits - 16 * i)"
proof (induction i groups ps bits rule: in_v6_from.induct)
  case (1 i groups ps bits)
  show ?case
  proof (cases "i * 16 < bits")
    case False
    then show ?thesis by (cases "drop i groups"; cases "drop i ps") (simp_all add: in_v6_from.simps [of i] mult.commute)
  next
    case True
    then have i: "i < n" using 1(4) by simp
    then have d: "drop i groups = groups ! i # drop (Suc i) groups" "drop i ps = ps ! i # drop (Suc i) ps"
      using 1(2,3) Cons_nth_drop_Suc by metis+
    have next_bits: "bits - 16 * Suc i = bits - 16 * i - 16" by simp
    have IH: "in_v6_from (Suc i) groups ps bits = same_prefix (drop (Suc i) groups) (drop (Suc i) ps) (bits - 16 * i - 16)"
      if "drop_bit (16 - min 16 (bits - i * 16)) (group_at groups i) = drop_bit (16 - min 16 (bits - i * 16)) (group_at ps i)"
      using 1(1) [OF True refl refl] that 1(2,3,4) i next_bits by simp
    show ?thesis using True i 1(2,3) IH by (auto simp: in_v6_from.simps [of i] d Let_def group_at_def mult.commute)
  qed
qed

lemma v6_num_less: "\<forall>g \<in> set gs. g < 65536 \<Longrightarrow> v6_num gs < 2 ^ (16 * length gs)"
proof (induction gs)
  case (Cons g gs)
  have "g + 1 \<le> 65536" using Cons.prems by auto
  have "g * 2 ^ (16 * length gs) + v6_num gs < (g + 1) * 2 ^ (16 * length gs)" using Cons by simp
  also have "\<dots> \<le> 65536 * 2 ^ (16 * length gs)" using Cons.prems by (intro mult_right_mono) auto
  finally show ?case by (simp add: power_add)
qed simp

lemma same_prefix_num:
  "length gs = length ps \<Longrightarrow> \<forall>g \<in> set gs. g < 65536 \<Longrightarrow> \<forall>p \<in> set ps. p < 65536 \<Longrightarrow> bits \<le> 16 * length gs \<Longrightarrow>
   same_prefix gs ps bits \<longleftrightarrow> v6_num gs div 2 ^ (16 * length gs - bits) = v6_num ps div 2 ^ (16 * length gs - bits)"
proof (induction gs ps bits rule: same_prefix.induct)
  case (1 g gs p ps bits)
  let ?k = "16 * length gs"
  have len: "length ps = length gs" using 1(2) by simp
  have less: "v6_num gs < 2 ^ ?k" "v6_num ps < 2 ^ ?k" using v6_num_less 1(3,4) len by (metis list.set_intros(2))+
  show ?case
  proof (cases "bits \<le> 16")
    case True
    have pow: "16 * length (g # gs) - bits = ?k + (16 - bits)" using True by simp
    have "(h * 2 ^ ?k + n) div 2 ^ (?k + (16 - bits)) = drop_bit (16 - bits) h" if "n < 2 ^ ?k" for h n :: nat
      using that by (simp add: power_add div_mult2_eq drop_bit_eq_div)
    moreover have "same_prefix gs ps 0" by (cases gs; cases ps) auto
    moreover have "drop_bit 16 g = 0" "drop_bit 16 p = 0" using 1(3,4) by (auto simp: drop_bit_eq_div)
    ultimately show ?thesis using less True len unfolding pow by (auto simp: len min_def)
  next
    case False
    define j where "j = ?k - (bits - 16)"
    have j: "16 * length (g # gs) - bits = j" "j \<le> ?k" using False by (auto simp: j_def)
    have split: "(h * 2 ^ ?k + n) div 2 ^ j = h * 2 ^ (?k - j) + n div 2 ^ j" for h n :: nat
    proof -
      have "(2::nat) ^ ?k = 2 ^ (?k - j) * 2 ^ j" using j(2) by (simp flip: power_add)
      then have "h * 2 ^ ?k = (h * 2 ^ (?k - j)) * 2 ^ j" by simp
      then show ?thesis by (simp only: div_mult_self3) simp
    qed
    have bound: "n div 2 ^ j < 2 ^ (?k - j)" if "n < 2 ^ ?k" for n :: nat
      using that j(2) by (simp add: less_mult_imp_div_less flip: power_add)
    have inj: "h * m + a = h' * m + b \<longleftrightarrow> h = h' \<and> a = b" if "a < m" "b < m" for h h' m a b :: nat
    proof
      assume e: "h * m + a = h' * m + b"
      have "h = (h * m + a) div m" using that by simp
      also have "\<dots> = h'" using e that by simp
      finally show "h = h' \<and> a = b" using e by simp
    qed auto
    have "same_prefix gs ps (bits - 16) \<longleftrightarrow> v6_num gs div 2 ^ j = v6_num ps div 2 ^ j"
      using 1 False by (simp add: j_def)
    then show ?thesis using False inj [OF bound [OF less(1)] bound [OF less(2)], of g p] unfolding j(1) by (simp add: len split)
  qed
qed auto

text \<open>A prefix shorter than eight groups reads as zeros from its end on.\<close>

definition padded :: "nat list \<Rightarrow> nat list" where
  "padded pre = pre @ replicate (8 - length pre) 0"

lemma in_v6_from_padded: "in_v6_from i groups (padded pre) bits = in_v6_from i groups pre bits"
proof (induction i groups pre bits rule: in_v6_from.induct)
  case (1 i groups pre bits)
  have "group_at (padded pre) i = group_at pre i" by (auto simp: group_at_def padded_def nth_append)
  then show ?case using 1 by (simp add: in_v6_from.simps [of i] Let_def)
qed

lemma in_v6_range_num:
  assumes "v6_address groups" "length pre \<le> 8" "\<forall>p \<in> set pre. p < 65536" "bits \<le> 128"
  shows "in_v6_range groups pre bits \<longleftrightarrow> v6_num groups div 2 ^ (128 - bits) = v6_num (padded pre) div 2 ^ (128 - bits)"
proof -
  have pad: "length (padded pre) = 8" "\<forall>p \<in> set (padded pre). p < 65536" using assms(2,3) by (auto simp: padded_def)
  have "in_v6_range groups pre bits \<longleftrightarrow> same_prefix groups (padded pre) bits"
    using in_v6_from_same_prefix [of groups 8 "padded pre" bits 0] assms(1,4) pad
    by (simp add: in_v6_range_def in_v6_from_padded v6_address_def)
  then show ?thesis
    using same_prefix_num [of groups "padded pre" bits] assms(1,4) pad by (simp add: v6_address_def)
qed

lemma v6_split:
  assumes "v6_address groups"
  shows "embedded_v4 groups 6 7 = v6_num groups mod 2 ^ 32" "embedded_v4 groups 1 2 = v6_num groups div 2 ^ 80 mod 2 ^ 32"
proof -
  have "length groups = Suc (Suc (Suc (Suc (Suc (Suc (Suc (Suc 0)))))))" using assms by (simp add: v6_address_def)
  then obtain a b c d e f g h where l: "groups = [a, b, c, d, e, f, g, h]" by (auto simp: length_Suc_conv)
  have small: "a < 65536" "b < 65536" "c < 65536" "d < 65536" "e < 65536" "f < 65536" "g < 65536" "h < 65536"
    using assms by (auto simp: l v6_address_def)
  have low: "g * 65536 + h < 2 ^ 32" "b * 65536 + c < 2 ^ 32" using small by auto
  have "v6_num groups = (a * 2 ^ 80 + b * 2 ^ 64 + c * 2 ^ 48 + d * 2 ^ 32 + e * 2 ^ 16 + f) * 2 ^ 32 + (g * 65536 + h)"
    by (simp add: l algebra_simps)
  then show "embedded_v4 groups 6 7 = v6_num groups mod 2 ^ 32"
    using low(1) by (simp only: mod_mult_self3 mod_less) (simp add: l embedded_v4_def group_at_def)
  let ?rest = "v6_num [d, e, f, g, h]"
  have "?rest < 2 ^ 80" using v6_num_less [of "[d, e, f, g, h]"] small by simp
  moreover have "v6_num groups = (a * 2 ^ 32 + (b * 65536 + c)) * 2 ^ 80 + ?rest" by (simp add: l algebra_simps)
  ultimately have "v6_num groups div 2 ^ 80 = a * 2 ^ 32 + (b * 65536 + c)" by (simp only: div_mult_self3) simp
  then show "embedded_v4 groups 1 2 = v6_num groups div 2 ^ 80 mod 2 ^ 32"
    using low(2) by (simp only: mod_mult_self3 mod_less) (simp add: l embedded_v4_def group_at_def)
qed

text \<open>The public IPv6 addresses, as numbers.\<close>

definition public_v6_num :: "nat \<Rightarrow> bool" where
  "public_v6_num n \<longleftrightarrow>
     (if n div 2 ^ 32 = 0xffff \<or> n div 2 ^ 32 = 0x64ff9b * 2 ^ 64 then \<not> special_v4 (n mod 2 ^ 32)
      else if n div 2 ^ 112 = 0x2002 then \<not> special_v4 (n div 2 ^ 80 mod 2 ^ 32)
      else between (0x2000 * 2 ^ 112) (0x4000 * 2 ^ 112 - 1) n \<and>
        \<not> between (0x2001 * 2 ^ 112) (0x20010200 * 2 ^ 96 - 1) n \<and>
        \<not> between (0x20010db8 * 2 ^ 96) (0x20010db9 * 2 ^ 96 - 1) n \<and>
        \<not> between (0x3fff0000 * 2 ^ 96) (0x3fff1000 * 2 ^ 96 - 1) n)"

lemma num_padded: "length pre \<le> 8 \<Longrightarrow> v6_num (padded pre) = v6_num pre * 2 ^ (16 * (8 - length pre))"
proof -
  have zero: "v6_num (replicate k 0) = 0" for k by (induction k) simp_all
  have "v6_num (pre @ replicate k 0) = v6_num pre * 2 ^ (16 * k)" for k
  proof (induction pre)
    case (Cons g gs)
    have "16 * length (gs @ replicate k (0::nat)) = 16 * length gs + 16 * k" by simp
    then show ?case using Cons by (simp only: append_Cons v6_num.simps power_add add_mult_distrib mult.assoc)
  qed (simp add: zero)
  then show "length pre \<le> 8 \<Longrightarrow> ?thesis" by (simp add: padded_def)
qed

lemma in_v6_between:
  assumes "v6_address groups" "length pre \<le> 8" "\<forall>p \<in> set pre. p < 65536" "bits \<le> 128"
    and "v6_num (padded pre) mod 2 ^ (128 - bits) = 0" "Suc high = v6_num (padded pre) + 2 ^ (128 - bits)"
  shows "in_v6_range groups pre bits \<longleftrightarrow> between (v6_num (padded pre)) high (v6_num groups)"
proof -
  define c where "c = v6_num (padded pre) div 2 ^ (128 - bits)"
  have first: "v6_num (padded pre) = c * 2 ^ (128 - bits)" using assms(5) by (simp add: c_def mult_div_mod_eq [symmetric] mod_0_imp_dvd)
  have "v6_num groups < (c + 1) * 2 ^ (128 - bits) \<longleftrightarrow> v6_num groups \<le> high" using assms(6) first by auto
  moreover have "in_v6_range groups pre bits \<longleftrightarrow> v6_num groups div 2 ^ (128 - bits) = c"
    unfolding c_def by (rule in_v6_range_num [OF assms(1-4)])
  moreover have "0 < (2::nat) ^ (128 - bits)" by simp
  ultimately show ?thesis unfolding between_def first by (metis div_eq_interval)
qed

lemma is_public_v6_iff:
  assumes "v6_address groups"
  shows "is_public_v6 groups \<longleftrightarrow> public_v6_num (v6_num groups)"
proof -
  let ?n = "v6_num groups"
  have mapped: "in_v6_range groups [0, 0, 0, 0, 0, 0xffff] 96 \<longleftrightarrow> ?n div 2 ^ 32 = 0xffff"
    "in_v6_range groups [0x64, 0xff9b] 96 \<longleftrightarrow> ?n div 2 ^ 32 = 0x64ff9b * 2 ^ 64"
    "in_v6_range groups [0x2002] 16 \<longleftrightarrow> ?n div 2 ^ 112 = 0x2002"
    using in_v6_range_num [OF assms, of "[0, 0, 0, 0, 0, 0xffff]" 96] in_v6_range_num [OF assms, of "[0x64, 0xff9b]" 96]
      in_v6_range_num [OF assms, of "[0x2002]" 16]
    by (simp_all add: num_padded)
  have ranges: "in_v6_range groups [0x2000] 3 \<longleftrightarrow> between (0x2000 * 2 ^ 112) (0x4000 * 2 ^ 112 - 1) ?n"
    "in_v6_range groups [0x2001, 0x0000] 23 \<longleftrightarrow> between (0x2001 * 2 ^ 112) (0x20010200 * 2 ^ 96 - 1) ?n"
    "in_v6_range groups [0x2001, 0x0db8] 32 \<longleftrightarrow> between (0x20010db8 * 2 ^ 96) (0x20010db9 * 2 ^ 96 - 1) ?n"
    "in_v6_range groups [0x3fff, 0x0000] 20 \<longleftrightarrow> between (0x3fff0000 * 2 ^ 96) (0x3fff1000 * 2 ^ 96 - 1) ?n"
    using in_v6_between [OF assms, of "[0x2000]" 3 "0x4000 * 2 ^ 112 - 1"]
      in_v6_between [OF assms, of "[0x2001, 0x0000]" 23 "0x20010200 * 2 ^ 96 - 1"]
      in_v6_between [OF assms, of "[0x2001, 0x0db8]" 32 "0x20010db9 * 2 ^ 96 - 1"]
      in_v6_between [OF assms, of "[0x3fff, 0x0000]" 20 "0x3fff1000 * 2 ^ 96 - 1"]
    by (simp_all add: num_padded)
  show ?thesis
    unfolding is_public_v6_def public_v6_num_def mapped ranges non_public_v6_def is_public_v4_iff v6_split [OF assms]
    by (simp add: ranges)
qed

end
