(* ===== verification/Outbound_Check.thy ===== *)
theory Outbound_Check
  imports Outbound_Address
begin

text \<open>
  The outbound guard's check of one URL (\<open>packages/core/src/outbound/check.ts\<close>) and the policy of a request
  (\<open>outboundPolicy\<close> of \<open>client.ts\<close>). The URL parser of the platform is a parameter: \<open>parse input base\<close> is
  \<open>new URL(input, base)\<close>, \<^const>\<open>None\<close> when it throws; a \<open>url\<close> holds the four properties the guard reads.
\<close>

record url =
  url_href :: string
  url_protocol :: string
  url_hostname :: string
  url_origin :: string

type_synonym url_parser = "string \<Rightarrow> string option \<Rightarrow> url option"

datatype refusal_reason = InvalidUrl | BadScheme | BadAddress | OwnHost | TooManyRedirects

record outbound_refused =
  or_reason :: refusal_reason
  or_host :: string

definition outbound_refusal :: "refusal_reason \<Rightarrow> string \<Rightarrow> outbound_refused" where
  "outbound_refusal reason host = \<lparr>or_reason = reason, or_host = host\<rparr>"

record outbound_policy =
  op_own_hosts :: "string list"
  op_local_development :: bool

definition is_loopback_host :: "string \<Rightarrow> bool" where
  "is_loopback_host hostname \<longleftrightarrow> hostname \<in> {''localhost'', ''127.0.0.1'', ''[::1]''}"

subsection \<open>Hosts\<close>

definition bare_host :: "string \<Rightarrow> string" where
  "bare_host hostname = rev (dropWhile (\<lambda>c. c = CHR ''.'') (rev (js_lower hostname)))"

definition is_localhost_name :: "string \<Rightarrow> bool" where
  "is_localhost_name host \<longleftrightarrow> host = ''localhost'' \<or> ends_with host ''.localhost''"

datatype host_kind = PublicHost | LoopbackHost | NonPublicHost

definition host_kind_of :: "string \<Rightarrow> host_kind" where
  "host_kind_of host =
     (if starts_with host ''['' \<and> ends_with host '']''
      then (case ipv6 (butlast (tl host)) of
              None \<Rightarrow> NonPublicHost
            | Some groups \<Rightarrow>
                if is_loopback_v6 groups then LoopbackHost
                else if is_public_v6 groups then PublicHost else NonPublicHost)
      else (case ipv4 host of
              Some address \<Rightarrow>
                if is_loopback_v4 address then LoopbackHost
                else if is_public_v4 address then PublicHost else NonPublicHost
            | None \<Rightarrow> if is_localhost_name host then LoopbackHost else PublicHost))"

definition is_own_host :: "string \<Rightarrow> string list \<Rightarrow> bool" where
  "is_own_host host own_hosts \<longleftrightarrow>
     list_ex (\<lambda>entry. let own = bare_host (js_trim entry)
       in if own = [] then False
          else if starts_with own ''*.'' then ends_with host (tl own) else host = own) own_hosts"

subsection \<open>The check\<close>

text \<open>The argument is what \<open>new URL(url)\<close> gives.\<close>

definition check_outbound_url :: "url option \<Rightarrow> outbound_policy \<Rightarrow> outbound_refused + url" where
  "check_outbound_url url policy =
     (case url of
        None \<Rightarrow> Inl (outbound_refusal InvalidUrl [])
      | Some parsed \<Rightarrow>
          let host = bare_host (url_hostname parsed);
              kind = host_kind_of host;
              loopback_allowed = op_local_development policy \<and> kind = LoopbackHost
          in if url_protocol parsed \<noteq> ''https:'' \<and> \<not> (loopback_allowed \<and> url_protocol parsed = ''http:'')
             then Inl (outbound_refusal BadScheme host)
             else if kind \<noteq> PublicHost \<and> \<not> loopback_allowed then Inl (outbound_refusal BadAddress host)
             else if is_own_host host (op_own_hosts policy) then Inl (outbound_refusal OwnHost host)
             else Inr parsed)"

subsection \<open>The policy of a request\<close>

text \<open>\<open>WORKERS_DEV\<close>: the account's part of a host with two labels before \<open>workers.dev\<close>.\<close>

definition workers_dev_account :: "string \<Rightarrow> string option" where
  "workers_dev_account host =
     (let labels = split_on CHR ''.'' host in
      if length labels = 4 \<and> labels ! 0 \<noteq> [] \<and> labels ! 1 \<noteq> [] \<and> labels ! 2 = ''workers'' \<and> labels ! 3 = ''dev''
      then Some (labels ! 1 @ ''.workers.dev'') else None)"

definition host_of :: "url_parser \<Rightarrow> string \<Rightarrow> string" where
  "host_of parse entry =
     (if \<not> js_includes entry ''://'' then js_lower entry
      else (case parse entry None of None \<Rightarrow> [] | Some u \<Rightarrow> url_hostname u))"

definition request_host_of :: "url_parser \<Rightarrow> string option \<Rightarrow> string" where
  "request_host_of parse request_url =
     (case request_url of None \<Rightarrow> [] | Some u \<Rightarrow> (case parse u None of None \<Rightarrow> [] | Some v \<Rightarrow> url_hostname v))"

definition policy_of :: "url_parser \<Rightarrow> string option list \<Rightarrow> string option \<Rightarrow> outbound_policy" where
  "policy_of parse hosts request_url =
     (let request_host = request_host_of parse request_url;
          local = is_loopback_host request_host;
          entries = concat (map (\<lambda>value. split_on CHR '','' (case value of None \<Rightarrow> [] | Some v \<Rightarrow> v)) hosts);
          named = filter (\<lambda>host. host \<noteq> []) (map (\<lambda>entry. host_of parse (js_trim entry)) entries);
          own = named @ (if request_host \<noteq> [] \<and> \<not> local
                         then request_host # (case workers_dev_account request_host of None \<Rightarrow> [] | Some account \<Rightarrow> [''*.'' @ account])
                         else [])
      in \<lparr>op_own_hosts = js_set own, op_local_development = local\<rparr>)"

lemma check_accepts_iff:
  "check_outbound_url (Some u) policy = Inr v \<longleftrightarrow>
     v = u \<and>
     (url_protocol u = ''https:'' \<and> host_kind_of (bare_host (url_hostname u)) = PublicHost \<or>
      op_local_development policy \<and> host_kind_of (bare_host (url_hostname u)) = LoopbackHost \<and> url_protocol u \<in> {''https:'', ''http:''}) \<and>
     \<not> is_own_host (bare_host (url_hostname u)) (op_own_hosts policy)"
  by (cases "host_kind_of (bare_host (url_hostname u))") (auto simp: check_outbound_url_def Let_def)

lemma check_none [simp]: "check_outbound_url None policy = Inl (outbound_refusal InvalidUrl [])"
  by (simp add: check_outbound_url_def)

end
