(* ===== verification/Outbound_Client.thy ===== *)
theory Outbound_Client
  imports Outbound_Check
begin

text \<open>
  The outbound guard around an HTTP client (\<open>packages/core/src/outbound/client.ts\<close>) and around the global \<open>fetch\<close>
  (\<open>global-fetch.ts\<close>).

  \<^item> The request builders of the effect library and the URL parser are parameters, collected in a \<open>platform\<close>; what the
    properties rely on is \<open>platform_laws\<close> (in the theory of the properties).
  \<^item> The transport is a parameter that threads a state of its own: \<open>transport redirect request w\<close> answers an error or a
    response; \<open>redirect\<close> is the \<open>redirect\<close> option of the \<open>RequestInit\<close> it is given.
  \<^item> What the guard does to the outside is returned as a list of events: the requests it sends and the bodies it lets go.
\<close>

datatype http_body = EmptyBody | StreamBody | BytesBody string

type_synonym http_headers = "(string, string) js_map"

record http_request =
  rq_method :: string
  rq_url :: string
  rq_params :: "(string \<times> string) list"
  rq_hash :: "string option"
  rq_headers :: http_headers
  rq_body :: http_body

record http_response =
  rs_status :: int
  rs_headers :: http_headers
  rs_url :: string

record platform =
  pf_parse :: url_parser
  pf_make :: "string \<Rightarrow> (string \<times> string) list \<Rightarrow> string option \<Rightarrow> url option"
  pf_set_method :: "http_request \<Rightarrow> string \<Rightarrow> http_request"
  pf_set_body :: "http_request \<Rightarrow> http_body \<Rightarrow> http_request"
  pf_remove_header :: "http_request \<Rightarrow> string \<Rightarrow> http_request"
  pf_set_url :: "http_request \<Rightarrow> url \<Rightarrow> http_request"

datatype http_event = Sent http_request | Released

datatype 'e http_failure = Refused http_request outbound_refused | Transport 'e | UrlDefect

type_synonym ('w, 'e) transport = "string option \<Rightarrow> http_request \<Rightarrow> 'w \<Rightarrow> ('e + http_response) \<times> 'w"

type_synonym ('w, 'e) client = "string option \<Rightarrow> http_request \<Rightarrow> 'w \<Rightarrow> http_event list \<times> ('e http_failure + http_response) \<times> 'w"

definition max_outbound_redirects :: nat where "max_outbound_redirects = 5"

definition redirect_statuses :: "int list" where "redirect_statuses = [301, 302, 303, 307, 308]"

definition check_request :: "platform \<Rightarrow> outbound_policy \<Rightarrow> http_request \<Rightarrow> outbound_refused + url" where
  "check_request pf policy request =
     check_outbound_url (pf_make pf (rq_url request) (rq_params request) (rq_hash request)) policy"

text \<open>\<open>response.headers["location"]\<close> of a response that redirects.\<close>

definition location_of :: "http_response \<Rightarrow> string option" where
  "location_of response =
     (if rs_status response \<in> set redirect_statuses then map_of (rs_headers response) ''location'' else None)"

definition credential_headers :: "string list" where
  "credential_headers = [''authorization'', ''proxy-authorization'', ''cookie'']"

definition redirected :: "platform \<Rightarrow> http_request \<Rightarrow> http_response \<Rightarrow> string \<Rightarrow> http_request option" where
  "redirected pf request response location =
     (case pf_parse pf location (Some (rs_url response)) of
        None \<Rightarrow> None
      | Some target \<Rightarrow>
          let status = rs_status response;
              to_get = (status = 301 \<or> status = 302) \<and> rq_method request = ''POST'' \<or>
                status = 303 \<and> rq_method request \<noteq> ''GET'' \<and> rq_method request \<noteq> ''HEAD''
          in if \<not> to_get \<and> rq_body request = StreamBody then None
             else
               let next_request = (if to_get then pf_set_body pf (pf_set_method pf request ''GET'') EmptyBody else request);
                   same = (case pf_parse pf (rs_url response) None of None \<Rightarrow> False | Some base \<Rightarrow> url_origin target = url_origin base);
                   next_request = (if same then next_request else fold (\<lambda>name r. pf_remove_header pf r name) credential_headers next_request)
               in Some (pf_set_url pf next_request target))"

subsection \<open>The guard\<close>

text \<open>The loop of \<open>guardHttpClient\<close>; it stops by itself, at the latest in the round \<open>hop = 5\<close>.\<close>

function guard_loop :: "platform \<Rightarrow> outbound_policy \<Rightarrow> bool \<Rightarrow> (http_request \<Rightarrow> 'w \<Rightarrow> ('e + http_response) \<times> 'w) \<Rightarrow> nat \<Rightarrow> http_request \<Rightarrow> 'w
    \<Rightarrow> http_event list \<times> ('e http_failure + http_response) \<times> 'w" where
  "guard_loop pf policy follows execute hop request w =
     (case check_request pf policy request of
        Inl refused \<Rightarrow> ([], Inl (Refused request refused), w)
      | Inr _ \<Rightarrow>
          (case execute request w of
             (Inl e, w1) \<Rightarrow> ([Sent request], Inl (Transport e), w1)
           | (Inr response, w1) \<Rightarrow>
               (case if follows then location_of response else None of
                  None \<Rightarrow> ([Sent request], Inr response, w1)
                | Some location \<Rightarrow>
                    if hop \<ge> max_outbound_redirects
                    then ([Sent request, Released],
                      (case pf_parse pf (rs_url response) None of
                         None \<Rightarrow> Inl UrlDefect
                       | Some u \<Rightarrow> Inl (Refused request (outbound_refusal TooManyRedirects (url_hostname u)))), w1)
                    else
                      (case redirected pf request response location of
                         None \<Rightarrow> ([Sent request], Inr response, w1)
                       | Some next_request \<Rightarrow>
                           (case guard_loop pf policy follows execute (Suc hop) next_request w1 of
                              (events, result, w2) \<Rightarrow> (Sent request # Released # events, result, w2))))))"
  by pat_completeness auto
termination by (relation "measure (\<lambda>(pf, policy, follows, execute, hop, request, w). max_outbound_redirects - hop)") auto

declare guard_loop.simps [simp del]

definition guard_http_client :: "platform \<Rightarrow> outbound_policy \<Rightarrow> ('w, 'e) transport \<Rightarrow> ('w, 'e) client" where
  "guard_http_client pf policy transport caller_redirect request w =
     (let follows = caller_redirect = None \<or> caller_redirect = Some ''follow'';
          init = (if follows then Some ''manual'' else caller_redirect)
      in guard_loop pf policy follows (transport init) 0 request w)"

subsection \<open>Redirects within an origin\<close>

function same_origin_loop :: "platform \<Rightarrow> ('w, 'e) client \<Rightarrow> nat \<Rightarrow> http_request \<Rightarrow> 'w
    \<Rightarrow> http_event list \<times> ('e http_failure + http_response) \<times> 'w" where
  "same_origin_loop pf client hop request w =
     (case client (Some ''manual'') request w of
        (events, Inl failure, w1) \<Rightarrow> (events, Inl failure, w1)
      | (events, Inr response, w1) \<Rightarrow>
          (case location_of response of
             None \<Rightarrow> (events, Inr response, w1)
           | Some location \<Rightarrow>
               if hop \<ge> max_outbound_redirects then (events, Inr response, w1)
               else
                 (case redirected pf request response location of
                    None \<Rightarrow> (events, Inr response, w1)
                  | Some next_request \<Rightarrow>
                      (case (pf_parse pf (rq_url next_request) None, pf_parse pf (rs_url response) None) of
                         (Some a, Some b) \<Rightarrow>
                           if url_origin a \<noteq> url_origin b then (events, Inr response, w1)
                           else (case same_origin_loop pf client (Suc hop) next_request w1 of
                                   (events', result, w2) \<Rightarrow> (events @ Released # events', result, w2))
                       | _ \<Rightarrow> (events, Inl UrlDefect, w1)))))"
  by pat_completeness auto
termination by (relation "measure (\<lambda>(pf, client, hop, request, w). max_outbound_redirects - hop)") auto

declare same_origin_loop.simps [simp del]

definition execute_same_origin_redirects :: "platform \<Rightarrow> ('w, 'e) client \<Rightarrow> http_request \<Rightarrow> 'w
    \<Rightarrow> http_event list \<times> ('e http_failure + http_response) \<times> 'w" where
  "execute_same_origin_redirects pf client request w = same_origin_loop pf client 0 request w"

subsection \<open>The refusal behind an error\<close>

datatype error_chain = RefusedError outbound_refused | ClientError "error_chain option" | CausedError "error_chain option"

fun refusal_behind :: "nat \<Rightarrow> error_chain option \<Rightarrow> outbound_refused option" where
  "refusal_behind 0 current = None"
| "refusal_behind (Suc depth) None = None"
| "refusal_behind (Suc depth) (Some (RefusedError refused)) = Some refused"
| "refusal_behind (Suc depth) (Some (ClientError cause)) = refusal_behind depth cause"
| "refusal_behind (Suc depth) (Some (CausedError cause)) = refusal_behind depth cause"

definition outbound_refusal_of :: "error_chain option \<Rightarrow> outbound_refused option" where
  "outbound_refusal_of error = refusal_behind 8 error"

text \<open>
  The outbound guard around the global \<open>fetch\<close> (\<open>packages/core/src/outbound/global-fetch.ts\<close>). A \<open>Request\<close> of the
  platform is the record of the fields the guard reads, a body is \<^const>\<open>None\<close> for \<open>null\<close>; \<open>inner\<close> is the wrapped
  \<open>fetch\<close>, which threads a state of its own.
\<close>

record fetch_request =
  fr_url :: string
  fr_method :: string
  fr_headers :: http_headers
  fr_body :: "string option"
  fr_redirect :: string

datatype fetch_event = Fetched fetch_request | Cancelled

datatype 'e fetch_failure = FetchRefused refusal_reason string | FetchFailed 'e | FetchTypeError

type_synonym ('w, 'e) fetch = "fetch_request \<Rightarrow> 'w \<Rightarrow> ('e + http_response) \<times> 'w"

text \<open>\<open>check(url, policy)\<close>: the refusal it throws, if any.\<close>

definition fetch_check :: "url_parser \<Rightarrow> string \<Rightarrow> outbound_policy \<Rightarrow> 'e fetch_failure option" where
  "fetch_check parse u policy =
     (case check_outbound_url (parse u None) policy of
        Inl refused \<Rightarrow> Some (FetchRefused (or_reason refused) (or_host refused))
      | Inr _ \<Rightarrow> None)"

definition delete_headers :: "string list \<Rightarrow> http_headers \<Rightarrow> http_headers" where
  "delete_headers names headers = filter (\<lambda>(name, _). name \<notin> set names) headers"

definition turns_to_get :: "int \<Rightarrow> string \<Rightarrow> bool" where
  "turns_to_get status method \<longleftrightarrow>
     (if status = 303 then method \<noteq> ''GET'' \<and> method \<noteq> ''HEAD''
      else (status = 301 \<or> status = 302) \<and> method = ''POST'')"

text \<open>What the loop sends next: the method and body after a redirect, and the headers for the new origin.\<close>

definition next_fetch :: "url_parser \<Rightarrow> fetch_request \<Rightarrow> int \<Rightarrow> url \<Rightarrow> fetch_request" where
  "next_fetch parse request status target =
     (let to_get = turns_to_get status (fr_method request);
          same = (case parse (fr_url request) None of None \<Rightarrow> False | Some base \<Rightarrow> url_origin target = url_origin base)
      in request\<lparr>fr_url := url_href target,
           fr_method := (if to_get then ''GET'' else fr_method request),
           fr_body := (if to_get then None else fr_body request),
           fr_headers := (if same then fr_headers request else delete_headers credential_headers (fr_headers request))\<rparr>)"

function fetch_loop :: "url_parser \<Rightarrow> outbound_policy \<Rightarrow> ('w, 'e) fetch \<Rightarrow> nat \<Rightarrow> fetch_request \<Rightarrow> 'w
    \<Rightarrow> fetch_event list \<times> ('e fetch_failure + http_response) \<times> 'w" where
  "fetch_loop parse policy inner hop request w =
     (let sent = request\<lparr>fr_redirect := ''manual''\<rparr>
      in case inner sent w of
           (Inl e, w1) \<Rightarrow> ([Fetched sent], Inl (FetchFailed e), w1)
         | (Inr response, w1) \<Rightarrow>
             (case location_of response of
                None \<Rightarrow> ([Fetched sent], Inr response, w1)
              | Some location \<Rightarrow>
                  (case parse location (Some (fr_url request)) of
                     None \<Rightarrow> ([Fetched sent], Inl FetchTypeError, w1)
                   | Some target \<Rightarrow>
                       if hop \<ge> max_outbound_redirects
                       then ([Fetched sent, Cancelled],
                         Inl (FetchRefused TooManyRedirects (case parse (fr_url request) None of None \<Rightarrow> [] | Some u \<Rightarrow> url_hostname u)), w1)
                       else if \<not> turns_to_get (rs_status response) (fr_method request) \<and> fr_body request \<noteq> None
                       then ([Fetched sent], Inr response, w1)
                       else
                         (case fetch_check parse (url_href target) policy of
                            Some refused \<Rightarrow> ([Fetched sent, Cancelled], Inl refused, w1)
                          | None \<Rightarrow>
                              (case fetch_loop parse policy inner (Suc hop) (next_fetch parse request (rs_status response) target) w1 of
                                 (events, result, w2) \<Rightarrow> (Fetched sent # Cancelled # events, result, w2))))))"
  by pat_completeness auto
termination by (relation "measure (\<lambda>(parse, policy, inner, hop, request, w). max_outbound_redirects - hop)") auto

declare fetch_loop.simps [simp del]

definition guarded_fetch :: "url_parser \<Rightarrow> outbound_policy \<Rightarrow> ('w, 'e) fetch \<Rightarrow> fetch_request \<Rightarrow> 'w
    \<Rightarrow> fetch_event list \<times> ('e fetch_failure + http_response) \<times> 'w" where
  "guarded_fetch parse policy inner first w =
     (case fetch_check parse (fr_url first) policy of
        Some refused \<Rightarrow> ([], Inl refused, w)
      | None \<Rightarrow>
          if fr_redirect first \<noteq> ''follow''
          then (case inner first w of
                  (Inl e, w1) \<Rightarrow> ([Fetched first], Inl (FetchFailed e), w1)
                | (Inr response, w1) \<Rightarrow> ([Fetched first], Inr response, w1))
          else fetch_loop parse policy inner 0 first w)"

text \<open>The wrapper: \<open>policy\<close> is the store of the \<open>AsyncLocalStorage\<close> scope the call is made in.\<close>

definition wrapped_fetch :: "url_parser \<Rightarrow> outbound_policy option \<Rightarrow> ('w, 'e) fetch \<Rightarrow> fetch_request \<Rightarrow> 'w
    \<Rightarrow> fetch_event list \<times> ('e fetch_failure + http_response) \<times> 'w" where
  "wrapped_fetch parse policy inner first w =
     (case policy of
        Some policy \<Rightarrow> guarded_fetch parse policy inner first w
      | None \<Rightarrow>
          (case inner first w of
             (Inl e, w1) \<Rightarrow> ([Fetched first], Inl (FetchFailed e), w1)
           | (Inr response, w1) \<Rightarrow> ([Fetched first], Inr response, w1)))"

end
