(* ===== verification/Outbound_Steps.thy ===== *)
theory Outbound_Steps
  imports Outbound_Client
begin

text \<open>
  The lemmas of the outbound guard's loops: what every request they send has passed, how many there are, and where the
  credential headers go. \<open>platform_laws\<close> is what they rely on of the effect library's request builders and of the URL
  parser.
\<close>

text \<open>
  The documented behaviour of the builders: \<open>setMethod\<close> and \<open>setUrl\<close> keep the headers, \<open>setBody\<close> with an empty body at
  most takes some away, \<open>removeHeader\<close> takes the named one away and no other; a request set to a URL goes to its origin.
\<close>

definition platform_laws :: "platform \<Rightarrow> bool" where
  "platform_laws pf \<longleftrightarrow>
     (\<forall>r m. rq_headers (pf_set_method pf r m) = rq_headers r) \<and>
     (\<forall>r. set (rq_headers (pf_set_body pf r EmptyBody)) \<subseteq> set (rq_headers r)) \<and>
     (\<forall>r n. rq_headers (pf_remove_header pf r n) = filter (\<lambda>(k, _). k \<noteq> n) (rq_headers r)) \<and>
     (\<forall>r u. rq_headers (pf_set_url pf r u) = rq_headers r) \<and>
     (\<forall>r u. map_option url_origin (pf_parse pf (rq_url (pf_set_url pf r u)) None) = Some (url_origin u))"

definition carries_credentials :: "http_headers \<Rightarrow> bool" where
  "carries_credentials headers \<longleftrightarrow> list_ex (\<lambda>(name, _). name \<in> {''authorization'', ''proxy-authorization'', ''cookie''}) headers"

definition origin_of :: "platform \<Rightarrow> http_request \<Rightarrow> string option" where
  "origin_of pf request = map_option url_origin (pf_parse pf (rq_url request) None)"

definition sent_requests :: "http_event list \<Rightarrow> http_request list" where
  "sent_requests events = concat (map (\<lambda>e. case e of Sent r \<Rightarrow> [r] | Released \<Rightarrow> []) events)"

lemma sent_requests_simps [simp]:
  "sent_requests [] = []" "sent_requests (Sent r # es) = r # sent_requests es" "sent_requests (Released # es) = sent_requests es"
  "sent_requests (es @ fs) = sent_requests es @ sent_requests fs"
  by (simp_all add: sent_requests_def)

subsection \<open>The guard's loop\<close>

lemma guard_loop_checked:
  "r \<in> set (sent_requests (fst (guard_loop pf policy follows execute hop request w))) \<Longrightarrow> \<exists>u. check_request pf policy r = Inr u"
proof (induction pf policy follows execute hop request w rule: guard_loop.induct)
  case (1 pf policy follows execute hop request w)
  then show ?case
    by (subst (asm) (2) guard_loop.simps) (auto split: sum.splits prod.splits option.splits if_splits)
qed

lemma guard_loop_count:
  "hop \<le> max_outbound_redirects \<Longrightarrow>
   length (sent_requests (fst (guard_loop pf policy follows execute hop request w))) \<le> Suc max_outbound_redirects - hop"
proof (induction pf policy follows execute hop request w rule: guard_loop.induct)
  case (1 pf policy follows execute hop request w)
  then show ?case
    by (subst guard_loop.simps) (fastforce split: sum.splits prod.splits option.splits if_splits)
qed

lemma guard_loop_manual:
  "length (sent_requests (fst (guard_loop pf policy False execute hop request w))) \<le> 1"
  "r \<in> set (sent_requests (fst (guard_loop pf policy False execute hop request w))) \<Longrightarrow> r = request"
  by (subst guard_loop.simps, simp split: sum.splits prod.splits)
     (subst (asm) guard_loop.simps, auto split: sum.splits prod.splits)

lemma stripped_headers:
  assumes "platform_laws pf"
  shows "rq_headers (fold (\<lambda>name r. pf_remove_header pf r name) names r) = filter (\<lambda>(k, _). k \<notin> set names) (rq_headers r)"
proof -
  have remove: "rq_headers (pf_remove_header pf r n) = filter (\<lambda>(k, _). k \<noteq> n) (rq_headers r)" for r n
    using assms by (simp add: platform_laws_def)
  show ?thesis by (induction names arbitrary: r) (simp_all add: remove, metis (mono_tags, lifting) case_prod_unfold)
qed

lemma carries_mono: "set hs \<subseteq> set hs' \<Longrightarrow> carries_credentials hs \<Longrightarrow> carries_credentials hs'"
  by (auto simp: carries_credentials_def list_ex_iff)

lemma stripped_no_credentials: "\<not> carries_credentials (filter (\<lambda>(k, _). k \<notin> set credential_headers) hs)"
  by (auto simp: carries_credentials_def credential_headers_def list_ex_iff)

lemma redirected_headers:
  assumes laws: "platform_laws pf" and "redirected pf request response location = Some r"
  obtains target where "pf_parse pf location (Some (rs_url response)) = Some target" "origin_of pf r = Some (url_origin target)"
    "carries_credentials (rq_headers r) \<longrightarrow>
       carries_credentials (rq_headers request) \<and> map_option url_origin (pf_parse pf (rs_url response) None) = Some (url_origin target)"
proof -
  obtain target where t: "pf_parse pf location (Some (rs_url response)) = Some target"
    using assms(2) by (auto simp: redirected_def split: option.splits)
  define same where "same = (case pf_parse pf (rs_url response) None of None \<Rightarrow> False | Some base \<Rightarrow> url_origin target = url_origin base)"
  define method_set where "method_set = pf_set_body pf (pf_set_method pf request ''GET'') EmptyBody"
  define strip where "strip q = fold (\<lambda>name r. pf_remove_header pf r name) credential_headers q" for q
  obtain q where q: "q = request \<or> q = method_set" and r: "r = pf_set_url pf (if same then q else strip q) target"
    using assms(2) by (auto simp: redirected_def t Let_def same_def [symmetric] method_set_def [symmetric] strip_def split: if_splits)
  have hs: "rq_headers (pf_set_url pf x u) = rq_headers x" for x u using laws by (simp add: platform_laws_def)
  have "set (rq_headers method_set) \<subseteq> set (rq_headers request)" using laws unfolding platform_laws_def method_set_def by metis
  then have sub: "carries_credentials (rq_headers q) \<Longrightarrow> carries_credentials (rq_headers request)" using q carries_mono by blast
  have "\<not> carries_credentials (rq_headers (strip q))"
    by (simp add: strip_def stripped_headers [OF laws] stripped_no_credentials)
  then have carried: "carries_credentials (rq_headers r) \<longrightarrow> same \<and> carries_credentials (rq_headers request)"
    using sub by (simp add: r hs)
  have "origin_of pf r = Some (url_origin target)" using laws by (simp add: r origin_of_def platform_laws_def)
  moreover have "same \<longrightarrow> map_option url_origin (pf_parse pf (rs_url response) None) = Some (url_origin target)"
    by (simp add: same_def split: option.splits)
  ultimately show ?thesis using that [OF t] carried by blast
qed

definition answers_own_url :: "('a \<Rightarrow> 'w \<Rightarrow> ('e + http_response) \<times> 'w) \<Rightarrow> ('a \<Rightarrow> string) \<Rightarrow> bool" where
  "answers_own_url execute url_of \<longleftrightarrow> (\<forall>r w response w1. execute r w = (Inr response, w1) \<longrightarrow> rs_url response = url_of r)"

lemma guard_loop_credentials:
  "platform_laws pf \<Longrightarrow> answers_own_url execute rq_url \<Longrightarrow> (carries_credentials (rq_headers request) \<Longrightarrow> origin_of pf request = Some o1) \<Longrightarrow>
    r \<in> set (sent_requests (fst (guard_loop pf policy follows execute hop request w))) \<Longrightarrow>
    carries_credentials (rq_headers r) \<Longrightarrow> origin_of pf r = Some o1"
proof (induction pf policy follows execute hop request w rule: guard_loop.induct)
  case (1 pf policy follows execute hop request w)
  note laws = 1(2)
  have step: "carries_credentials (rq_headers q) \<Longrightarrow> origin_of pf q = Some o1"
    if "execute request w = (Inr response, w1)" "redirected pf request response location = Some q" for response w1 location q
  proof -
    have "rs_url response = rq_url request" using 1(3) that(1) by (auto simp: answers_own_url_def)
    then show "carries_credentials (rq_headers q) \<Longrightarrow> origin_of pf q = Some o1"
      using redirected_headers [OF laws that(2)] 1(4) by (metis origin_of_def)
  qed
  show ?case
    using 1(1-6) step
    by (subst (asm) (2) guard_loop.simps) (auto split: sum.splits prod.splits option.splits if_splits)
qed

subsection \<open>Redirects within an origin\<close>

definition sends_once :: "('w, 'e) client \<Rightarrow> bool" where
  "sends_once client \<longleftrightarrow>
     (\<forall>r w events result w1. client (Some ''manual'') r w = (events, result, w1) \<longrightarrow>
        length (sent_requests events) \<le> 1 \<and> set (sent_requests events) \<subseteq> {r} \<and>
        (\<forall>response. result = Inr response \<longrightarrow> rs_url response = rq_url r))"

lemma guard_loop_answer:
  "answers_own_url execute rq_url \<Longrightarrow> guard_loop pf policy False execute hop request w = (events, Inr response, w1) \<Longrightarrow>
   rs_url response = rq_url request"
  by (subst (asm) guard_loop.simps) (auto simp: answers_own_url_def split: sum.splits prod.splits)

text \<open>A redirect that the loop follows.\<close>

definition follows_to :: "platform \<Rightarrow> nat \<Rightarrow> http_request \<Rightarrow> http_response \<Rightarrow> http_request \<Rightarrow> bool" where
  "follows_to pf hop request response q \<longleftrightarrow>
     hop < max_outbound_redirects \<and>
     (case location_of response of
        None \<Rightarrow> False
      | Some location \<Rightarrow>
          redirected pf request response location = Some q \<and>
          (case (pf_parse pf (rq_url q) None, pf_parse pf (rs_url response) None) of
             (Some a, Some b) \<Rightarrow> url_origin a = url_origin b
           | _ \<Rightarrow> False))"

lemma same_origin_step:
  assumes c: "client (Some ''manual'') request w = (events, result, w1)"
  obtains "fst (same_origin_loop pf client hop request w) = events"
  | response q where "result = Inr response" "follows_to pf hop request response q"
      "fst (same_origin_loop pf client hop request w) = events @ Released # fst (same_origin_loop pf client (Suc hop) q w1)"
proof (cases "\<exists>response q. result = Inr response \<and> follows_to pf hop request response q")
  case True
  then obtain response q where q: "result = Inr response" "follows_to pf hop request response q" by blast
  then have "fst (same_origin_loop pf client hop request w) = events @ Released # fst (same_origin_loop pf client (Suc hop) q w1)"
    by (auto simp: same_origin_loop.simps [of pf client hop request w] c follows_to_def split: option.splits prod.splits)
  then show ?thesis using q that(2) by blast
next
  case False
  then have "fst (same_origin_loop pf client hop request w) = events"
    by (cases result) (auto simp: same_origin_loop.simps [of pf client hop request w] c follows_to_def split: option.splits prod.splits)
  then show ?thesis using that(1) by blast
qed

lemma same_origin_loop_sent:
  "hop \<le> max_outbound_redirects \<Longrightarrow> sends_once client \<Longrightarrow>
   length (sent_requests (fst (same_origin_loop pf client hop request w))) \<le> Suc max_outbound_redirects - hop \<and>
   (\<forall>r \<in> set (sent_requests (fst (same_origin_loop pf client hop request w))). r = request \<or> origin_of pf r = origin_of pf request)"
proof (induction "max_outbound_redirects - hop" arbitrary: hop request w rule: less_induct)
  case less
  obtain events result w1 where c: "client (Some ''manual'') request w = (events, result, w1)"
    by (cases "client (Some ''manual'') request w") auto
  then have once: "length (sent_requests events) \<le> 1" "set (sent_requests events) \<subseteq> {request}"
    and own: "\<And>response. result = Inr response \<Longrightarrow> rs_url response = rq_url request"
    using less.prems(2) unfolding sends_once_def by blast+
  show ?case
  proof (rule same_origin_step [where pf = pf and hop = hop and client = client and request = request and w = w, OF c])
    assume "fst (same_origin_loop pf client hop request w) = events"
    then show ?thesis using once less.prems(1) by auto
  next
    fix response q
    assume q: "result = Inr response" "follows_to pf hop request response q"
      and sent: "fst (same_origin_loop pf client hop request w) = events @ Released # fst (same_origin_loop pf client (Suc hop) q w1)"
    have hop: "hop < max_outbound_redirects" using q(2) by (simp add: follows_to_def)
    have "origin_of pf q = origin_of pf request"
      using q(2) own [OF q(1)] by (auto simp: follows_to_def origin_of_def split: option.splits)
    moreover have "length (sent_requests (fst (same_origin_loop pf client (Suc hop) q w1))) \<le> Suc max_outbound_redirects - Suc hop \<and>
        (\<forall>r \<in> set (sent_requests (fst (same_origin_loop pf client (Suc hop) q w1))). r = q \<or> origin_of pf r = origin_of pf q)"
      using less.hyps [of "Suc hop"] hop less.prems(2) by simp
    ultimately show ?thesis using once hop by (auto simp: sent)
  qed
qed

lemma guard_sends_once:
  assumes "answers_own_url (transport (Some ''manual'')) rq_url" "caller = Some ''manual''"
  shows "guard_http_client pf policy transport caller r w = (events, result, w1) \<Longrightarrow>
    length (sent_requests events) \<le> 1 \<and> set (sent_requests events) \<subseteq> {r} \<and> (\<forall>response. result = Inr response \<longrightarrow> rs_url response = rq_url r)"
proof -
  assume g: "guard_http_client pf policy transport caller r w = (events, result, w1)"
  then have e: "events = fst (guard_loop pf policy False (transport (Some ''manual'')) 0 r w)"
    and l: "guard_loop pf policy False (transport (Some ''manual'')) 0 r w = (events, result, w1)"
    using assms(2) by (simp_all add: guard_http_client_def Let_def)
  show ?thesis using guard_loop_manual guard_loop_answer [OF assms(1)] l unfolding e by (metis insertCI subsetI)
qed

subsection \<open>The guarded fetch\<close>

definition fetched :: "fetch_event list \<Rightarrow> fetch_request list" where
  "fetched events = concat (map (\<lambda>e. case e of Fetched r \<Rightarrow> [r] | Cancelled \<Rightarrow> []) events)"

lemma fetched_simps [simp]:
  "fetched [] = []" "fetched (Fetched r # es) = r # fetched es" "fetched (Cancelled # es) = fetched es"
  by (simp_all add: fetched_def)

definition fetch_allowed :: "url_parser \<Rightarrow> outbound_policy \<Rightarrow> string \<Rightarrow> bool" where
  "fetch_allowed parse policy u \<longleftrightarrow> (case check_outbound_url (parse u None) policy of Inl _ \<Rightarrow> False | Inr _ \<Rightarrow> True)"

lemma fetch_check_None: "fetch_check parse u policy = None \<longleftrightarrow> fetch_allowed parse policy u"
  by (simp add: fetch_check_def fetch_allowed_def split: sum.splits)

lemma fetch_step:
  obtains "fetched (fst (fetch_loop parse policy inner hop request w)) = [request\<lparr>fr_redirect := ''manual''\<rparr>]"
  | response w1 location target where
      "inner (request\<lparr>fr_redirect := ''manual''\<rparr>) w = (Inr response, w1)" "hop < max_outbound_redirects"
      "parse location (Some (fr_url request)) = Some target" "fetch_allowed parse policy (url_href target)"
      "fetched (fst (fetch_loop parse policy inner hop request w)) =
         request\<lparr>fr_redirect := ''manual''\<rparr> #
         fetched (fst (fetch_loop parse policy inner (Suc hop) (next_fetch parse request (rs_status response) target) w1))"
proof -
  have "fetched (fst (fetch_loop parse policy inner hop request w)) = [request\<lparr>fr_redirect := ''manual''\<rparr>] \<or>
      (\<exists>response w1 location target. inner (request\<lparr>fr_redirect := ''manual''\<rparr>) w = (Inr response, w1) \<and> hop < max_outbound_redirects \<and>
         parse location (Some (fr_url request)) = Some target \<and> fetch_allowed parse policy (url_href target) \<and>
         fetched (fst (fetch_loop parse policy inner hop request w)) =
           request\<lparr>fr_redirect := ''manual''\<rparr> #
           fetched (fst (fetch_loop parse policy inner (Suc hop) (next_fetch parse request (rs_status response) target) w1)))"
  proof (cases "inner (request\<lparr>fr_redirect := ''manual''\<rparr>) w")
    case (Pair res w1)
    show ?thesis
    proof (cases res)
      case (Inl e)
      then show ?thesis using Pair by (simp add: fetch_loop.simps [of parse policy inner hop request w])
    next
      case (Inr response)
      note unfold = Pair Inr fetch_loop.simps [of parse policy inner hop request w]
      show ?thesis
      proof (cases "location_of response")
        case None
        then show ?thesis by (simp add: unfold)
      next
        case (Some location)
        show ?thesis
        proof (cases "parse location (Some (fr_url request))")
          case None
          then show ?thesis using Some by (simp add: unfold)
        next
          case (Some target)
          then show ?thesis using \<open>location_of response = Some location\<close>
            by (auto simp: unfold fetch_check_None Let_def not_le case_prod_beta split: option.splits)
        qed
      qed
    qed
  qed
  then show ?thesis using that by blast
qed

lemma fetch_loop_sent:
  "hop \<le> max_outbound_redirects \<Longrightarrow> fetch_allowed parse policy (fr_url request) \<Longrightarrow>
   length (fetched (fst (fetch_loop parse policy inner hop request w))) \<le> Suc max_outbound_redirects - hop \<and>
   (\<forall>r \<in> set (fetched (fst (fetch_loop parse policy inner hop request w))). fetch_allowed parse policy (fr_url r))"
proof (induction "max_outbound_redirects - hop" arbitrary: hop request w rule: less_induct)
  case less
  show ?case
  proof (rule fetch_step [of parse policy inner hop request w])
    fix response w1 location target
    assume t: "hop < max_outbound_redirects" "fetch_allowed parse policy (url_href target)"
      and sent: "fetched (fst (fetch_loop parse policy inner hop request w)) = request\<lparr>fr_redirect := ''manual''\<rparr> #
         fetched (fst (fetch_loop parse policy inner (Suc hop) (next_fetch parse request (rs_status response) target) w1))"
    let ?q = "next_fetch parse request (rs_status response) target"
    have "fetch_allowed parse policy (fr_url ?q)" using t(2) by (simp add: next_fetch_def Let_def)
    then have "length (fetched (fst (fetch_loop parse policy inner (Suc hop) ?q w1))) \<le> Suc max_outbound_redirects - Suc hop \<and>
        (\<forall>r \<in> set (fetched (fst (fetch_loop parse policy inner (Suc hop) ?q w1))). fetch_allowed parse policy (fr_url r))"
      using less.hyps [of "Suc hop" ?q w1] t(1) by simp
    then show ?thesis using t(1) less.prems(2) by (auto simp: sent)
  qed (use less.prems in auto)
qed

lemma fetch_loop_credentials:
  assumes laws: "\<forall>s b u. parse s b = Some u \<longrightarrow> map_option url_origin (parse (url_href u) None) = Some (url_origin u)"
  shows "(carries_credentials (fr_headers request) \<longrightarrow> map_option url_origin (parse (fr_url request) None) = Some o1) \<Longrightarrow>
    r \<in> set (fetched (fst (fetch_loop parse policy inner hop request w))) \<Longrightarrow>
    carries_credentials (fr_headers r) \<Longrightarrow> map_option url_origin (parse (fr_url r) None) = Some o1"
proof (induction "max_outbound_redirects - hop" arbitrary: hop request w rule: less_induct)
  case less
  show ?case
  proof (rule fetch_step [of parse policy inner hop request w])
    assume "fetched (fst (fetch_loop parse policy inner hop request w)) = [request\<lparr>fr_redirect := ''manual''\<rparr>]"
    then show ?thesis using less.prems by simp
  next
    fix response w1 location target
    assume t: "hop < max_outbound_redirects" "parse location (Some (fr_url request)) = Some target"
      and sent: "fetched (fst (fetch_loop parse policy inner hop request w)) = request\<lparr>fr_redirect := ''manual''\<rparr> #
         fetched (fst (fetch_loop parse policy inner (Suc hop) (next_fetch parse request (rs_status response) target) w1))"
    let ?q = "next_fetch parse request (rs_status response) target"
    have "carries_credentials (fr_headers ?q) \<Longrightarrow> carries_credentials (fr_headers request) \<and>
        map_option url_origin (parse (fr_url request) None) = Some (url_origin target)"
      by (auto simp: next_fetch_def Let_def carries_credentials_def list_ex_iff delete_headers_def credential_headers_def split: if_splits option.splits)
    moreover have "map_option url_origin (parse (fr_url ?q) None) = Some (url_origin target)"
      using laws t(2) by (simp add: next_fetch_def Let_def)
    ultimately have q: "carries_credentials (fr_headers ?q) \<longrightarrow> map_option url_origin (parse (fr_url ?q) None) = Some o1"
      using less.prems(1) by auto
    show ?thesis
    proof (cases "r = request\<lparr>fr_redirect := ''manual''\<rparr>")
      case True
      then show ?thesis using less.prems by simp
    next
      case False
      then show ?thesis using less.hyps [of "Suc hop" ?q w1] q t(1) less.prems(2,3) by (simp add: sent)
    qed
  qed
qed

end
