(* ===== verification/Outbound_Properties.thy ===== *)
theory Outbound_Properties
  imports Outbound_Ranges Outbound_Steps
begin

text \<open>
  What the outbound guard promises: which addresses and hosts it lets through, that every hop of a redirect is checked,
  how many requests it sends, and where credentials go.
\<close>

subsection \<open>Addresses\<close>

lemma digits_val_bound: "list_all is_digit s \<Longrightarrow> 0 \<le> digits_val s"
proof (induction s rule: rev_induct)
  case (snoc c s)
  then show ?case by (auto simp: digits_val_def is_digit_def digit_val_def Let_def)
qed (simp add: digits_val_def)

lemma ipv4_bound: "ipv4 s = Some a \<Longrightarrow> a < 2 ^ 32"
proof -
  assume "ipv4 s = Some a"
  then obtain parts where p: "dotted_quad s = Some parts" and small: "\<forall>p \<in> set parts. nat (digits_val p) \<le> 255"
    and a: "a = foldl (\<lambda>v octet. v * 256 + octet) 0 (map (\<lambda>p. nat (digits_val p)) parts)"
    by (auto simp: ipv4_def Let_def list_ex_iff not_less split: option.splits if_splits)
  have "length parts = Suc (Suc (Suc (Suc 0)))" using p by (auto simp: dotted_quad_def Let_def split: if_splits)
  then obtain p1 p2 p3 p4 where "parts = [p1, p2, p3, p4]" by (auto simp: length_Suc_conv)
  then show ?thesis using small by (auto simp: a)
qed

lemma group_val_bound:
  assumes "hex_group s"
  shows "group_val s < 65536"
proof -
  have digit: "is_hex c \<Longrightarrow> group_digit c < 16" for c by (auto simp: is_hex_def group_digit_def is_digit_def Let_def)
  have "list_all is_hex s \<Longrightarrow> group_val s < 16 ^ length s" for s
  proof (induction s rule: rev_induct)
    case (snoc c s)
    then have "group_val s + 1 \<le> 16 ^ length s" "group_digit c < 16" using digit by auto
    then show ?case by (simp add: group_val_append)
  qed (simp add: group_val_def)
  then have "group_val s < 16 ^ length s" using assms by (simp add: hex_group_def)
  also have "\<dots> \<le> 16 ^ 4" using assms by (intro power_increasing) (auto simp: hex_group_def)
  finally show ?thesis by simp
qed

lemma ipv6_address: "ipv6 s = Some groups \<Longrightarrow> v6_address groups"
proof -
  assume some: "ipv6 s = Some groups"
  define lowered where "lowered = js_lower s"
  define cut where "cut = (case last_index_of CHR '':'' lowered of None \<Rightarrow> 0 | Some i \<Rightarrow> Suc i)"
  define quad where "quad = ipv4 (drop cut lowered)"
  define tail where "tail = (case quad of None \<Rightarrow> [] | Some q \<Rightarrow> [q div 65536, q mod 65536])"
  define halves where "halves = split_pair CHR '':'' (case quad of None \<Rightarrow> lowered | Some q \<Rightarrow> take cut lowered @ ''0:0'')"
  define h r where "h = half_groups halves 0" and "r = half_groups halves 1"
  define n where "n = (if length halves = 1 then 0 else nat (8 - int (length (h @ r))))"
  let ?gs = "map group_val h @ replicate n 0 @ map group_val r"
  have valid: "list_all hex_group (h @ r)"
    and num: "\<not> (if length halves = 1 then 8 - int (length (h @ r)) \<noteq> 0 else 8 - int (length (h @ r)) < 1)"
    and gs: "groups = (if tail \<noteq> [] then take 6 ?gs @ tail @ drop 8 ?gs else ?gs)"
    using some unfolding ipv6_def Let_def lowered_def [symmetric] cut_def [symmetric] quad_def [symmetric] tail_def [symmetric]
      halves_def [symmetric] h_def [symmetric] r_def [symmetric] n_def [symmetric]
    by (auto simp del: list_all_append split: if_splits)
  have len: "length ?gs = 8" using num by (auto simp: n_def split: if_splits)
  have small: "\<forall>g \<in> set ?gs. g < 65536" using valid group_val_bound by (auto simp: list_all_iff)
  have "tail = [] \<or> length tail = 2 \<and> (\<forall>g \<in> set tail. g < 65536)"
    using ipv4_bound [of "drop cut lowered"] by (auto simp: tail_def quad_def less_mult_imp_div_less split: option.splits)
  moreover have "\<forall>g \<in> set (take 6 ?gs) \<union> set (drop 8 ?gs). g < 65536" using small by (meson Un_iff in_set_dropD in_set_takeD)
  moreover have "length (take 6 ?gs) = 6" "length (drop 8 ?gs) = 0" using len by simp_all
  ultimately show ?thesis using len small unfolding gs v6_address_def by (cases "tail = []") (simp_all only: if_True if_False length_append set_append, auto)
qed

text \<open>C40. The parsers answer addresses: an IPv4 literal reads as a number below \<open>2 ^ 32\<close>, an IPv6 literal, with a dotted quad at its
  end or without, as exactly eight groups of sixteen bits.
\<close>

theorem parsed_addresses_have_their_width:
  "pred_option (\<lambda>a. a < 2 ^ 32) (ipv4 s) \<and> pred_option v6_address (ipv6 s)"
  using ipv4_bound ipv6_address by (auto simp: option.pred_set)

text \<open>Every spelling the URL parser gives an IPv6 address is read back as that address: the eight groups in full, and with any
  run of zero groups written as \<open>::\<close>.
\<close>

theorem ipv6_round_trip:
  assumes "v6_address groups" "1 \<le> n" "i + n \<le> 8" "take n (drop i groups) = replicate n 0"
  shows "ipv6 (v6_compressed groups i n) = Some groups \<and> ipv6 (v6_full groups) = Some groups"
  using ipv6_compressed [of groups n i] ipv6_full [of groups] assms by (auto simp: v6_address_def)

theorem ipv6_round_trip_witness:
  "ipv6 (v6_compressed [0x2001, 0xdb8, 0, 0, 0, 0, 0, 1] 2 5) = Some [0x2001, 0xdb8, 0, 0, 0, 0, 0, 1]"
proof -
  have "replicate 5 (0::nat) = [0, 0, 0, 0, 0]" by (simp add: eval_nat_numeral)
  then show ?thesis using ipv6_round_trip [of "[0x2001, 0xdb8, 0, 0, 0, 0, 0, 1]" 5 2] by (simp add: v6_address_def)
qed

lemma ipv4_no_bracket: "starts_with host ''['' \<Longrightarrow> ipv4 host = None"
proof (cases host)
  case (Cons c s)
  assume "starts_with host ''[''"
  then have c: "c = CHR ''[''" using Cons by (simp add: starts_with_def)
  obtain w ws where "split_on CHR ''.'' (c # s) = (c # w) # ws"
    using c by (cases "split_on CHR ''.'' s") (auto split: list.splits)
  then show ?thesis using c by (simp add: ipv4_def dotted_quad_def Cons quad_part_def is_digit_def Let_def)
qed (simp add: starts_with_def)

text \<open>C38. Outside local development an accepted URL names no special address: an IPv4 literal lies outside the private, loopback,
  link-local, shared, documentation, multicast and reserved ranges, written as intervals, and so does the IPv4 address inside an
  IPv4-mapped, NAT64 or 6to4 literal; any other IPv6 literal lies in the public part of \<open>2000::/3\<close>, and what is in brackets but no
  address is refused.
\<close>

theorem accepted_address_is_public:
  assumes "check_outbound_url (Some u) policy = Inr v" "\<not> op_local_development policy" "host = bare_host (url_hostname u)"
  shows "pred_option (\<lambda>a. \<not> special_v4 a) (ipv4 host) \<and>
    (starts_with host ''['' \<and> ends_with host '']'' \<longrightarrow>
      (\<exists>groups. ipv6 (butlast (tl host)) = Some groups \<and> public_v6_num (v6_num groups)))"
proof -
  have kind: "host_kind_of host = PublicHost" using assms by (auto simp: check_accepts_iff)
  have quad: "\<not> special_v4 a" if a: "ipv4 host = Some a" for a
  proof -
    have "\<not> starts_with host ''[''" using a ipv4_no_bracket by auto
    then have "is_public_v4 a" using kind a by (cases "is_public_v4 a") (simp_all add: host_kind_of_def split: if_split_asm)
    then show ?thesis by (simp add: is_public_v4_iff)
  qed
  have literal: "\<exists>groups. ipv6 (butlast (tl host)) = Some groups \<and> public_v6_num (v6_num groups)"
    if bracket: "starts_with host ''['' \<and> ends_with host '']''"
  proof (cases "ipv6 (butlast (tl host))")
    case None
    then show ?thesis using kind bracket by (simp add: host_kind_of_def)
  next
    case (Some groups)
    then have "is_public_v6 groups" using kind bracket by (simp add: host_kind_of_def split: if_split_asm)
    then show ?thesis using Some is_public_v6_iff ipv6_address by blast
  qed
  show ?thesis using quad literal by (auto simp: option.pred_set)
qed

definition sample_url :: "string \<Rightarrow> url" where
  "sample_url host = \<lparr>url_href = ''https://'' @ host, url_protocol = ''https:'', url_hostname = host, url_origin = ''https://'' @ host\<rparr>"

lemma public_quad: "ipv4 ''8.8.8.8'' = Some (v4 8 8 8 8)" "host_kind_of ''8.8.8.8'' = PublicHost"
proof -
  show a: "ipv4 ''8.8.8.8'' = Some (v4 8 8 8 8)"
    by (simp add: ipv4_def dotted_quad_def quad_part_def is_digit_def Let_def digits_val_def digit_val_def v4_def)
  have "\<not> special_v4 (v4 8 8 8 8)" by (simp add: special_v4_def between_def v4_def)
  moreover have "\<not> is_loopback_v4 (v4 8 8 8 8)" by (simp add: is_loopback_v4_def in_v4_range_def v4_def)
  ultimately show "host_kind_of ''8.8.8.8'' = PublicHost"
    by (simp add: host_kind_of_def starts_with_def a is_public_v4_iff)
qed

lemma sample_accepted: "check_outbound_url (Some (sample_url ''8.8.8.8'')) \<lparr>op_own_hosts = [], op_local_development = False\<rparr> = Inr (sample_url ''8.8.8.8'')"
proof -
  have "bare_host ''8.8.8.8'' = ''8.8.8.8''" by code_simp
  then show ?thesis by (simp add: check_accepts_iff sample_url_def public_quad is_own_host_def)
qed

theorem accepted_address_is_public_witness:
  "pred_option (\<lambda>a. \<not> special_v4 a) (ipv4 ''8.8.8.8'')"
  by (rule conjunct1 [OF accepted_address_is_public [OF sample_accepted]]) (simp, code_simp)

subsection \<open>The deployment's own hosts\<close>

lemma own_host_member:
  assumes "entry \<in> set own" "bare_host (js_trim entry) = ''*.'' @ account" "ends_with host (CHR ''.'' # account)"
  shows "is_own_host host own"
  using assms by (auto simp: is_own_host_def list_ex_iff Let_def starts_with_def intro!: bexI [of _ entry])

lemma split_on_two: "c \<notin> set a \<Longrightarrow> split_on c (a @ c # t) = a # split_on c t"
  by (induction a) auto

definition label_char :: "char \<Rightarrow> bool" where
  "label_char c \<longleftrightarrow> is_digit c \<or> c = CHR ''-'' \<or> (let n = (of_char c :: nat) in 97 \<le> n \<and> n \<le> 122)"

lemma label_char_lower: "label_char c \<Longrightarrow> lower_char c = c \<and> c \<noteq> CHR ''.''"
  by (auto simp: label_char_def is_digit_def lower_char_def Let_def)

lemma js_trim_id: "\<not> is_ws c \<Longrightarrow> \<not> is_ws d \<Longrightarrow> js_trim (c # m @ [d]) = c # m @ [d]"
  by (simp add: js_trim_def)

lemma wildcard_is_bare:
  assumes "\<forall>c \<in> set account. label_char c"
  shows "bare_host (js_trim (''*.'' @ account @ ''.workers.dev'')) = ''*.'' @ account @ ''.workers.dev''"
proof -
  let ?m = "CHR ''.'' # account @ ''.workers.de''"
  have form: "''*.'' @ account @ ''.workers.dev'' = CHR ''*'' # ?m @ [CHR ''v'']" by simp
  have trim: "js_trim (CHR ''*'' # ?m @ [CHR ''v'']) = CHR ''*'' # ?m @ [CHR ''v'']"
    by (rule js_trim_id) (simp_all add: is_ws_def)
  have "js_lower account = account" using assms label_char_lower by (simp add: js_lower_def map_idI)
  then have lower: "js_lower (CHR ''*'' # ?m @ [CHR ''v'']) = CHR ''*'' # ?m @ [CHR ''v'']"
    by (simp add: js_lower_def) (simp add: lower_char_def)
  show ?thesis unfolding form trim bare_host_def lower by simp
qed

lemma account_read_back:
  assumes "worker \<noteq> []" "account \<noteq> []" "\<forall>c \<in> set (worker @ account). label_char c"
  shows "workers_dev_account (worker @ ''.'' @ account @ ''.workers.dev'') = Some (account @ ''.workers.dev'')"
proof -
  have no_dot: "CHR ''.'' \<notin> set worker" "CHR ''.'' \<notin> set account" using assms(3) label_char_lower by auto
  have "split_on CHR ''.'' (worker @ ''.'' @ account @ ''.workers.dev'') = [worker, account, ''workers'', ''dev'']"
    using split_on_two [OF no_dot(1)] split_on_two [OF no_dot(2)] by simp
  then show ?thesis using assms(1,2) by (simp add: workers_dev_account_def)
qed

text \<open>While a Worker serves a request to its own \<open>workers.dev\<close> address, no other Worker of the account is reached: with the
  policy built for that request, every URL whose host lies under the account's subdomain is refused, whatever bindings it
  was built from, and outside local development.
\<close>

theorem own_workers_are_refused:
  assumes serving: "parse request_url None = Some v" "url_hostname v = worker @ ''.'' @ account @ ''.workers.dev''"
    and labels: "worker \<noteq> []" "account \<noteq> []" "\<forall>c \<in> set (worker @ account). label_char c"
    and target: "ends_with (bare_host (url_hostname u)) (''.'' @ account @ ''.workers.dev'')"
  shows "\<exists>refused. check_outbound_url (Some u) (policy_of parse hosts (Some request_url)) = Inl refused"
proof -
  let ?host = "worker @ ''.'' @ account @ ''.workers.dev''"
  let ?policy = "policy_of parse hosts (Some request_url)"
  have host: "request_host_of parse (Some request_url) = ?host" using serving by (simp add: request_host_of_def)
  have "List.last ?host = CHR ''v''" by simp
  then have "?host \<noteq> s" if "List.last s \<noteq> CHR ''v''" for s using that by metis
  from this [of "''localhost''"] this [of "''127.0.0.1''"] this [of "''[::1]''"]
  have remote: "\<not> is_loopback_host ?host" unfolding is_loopback_host_def by simp
  have "''*.'' @ account @ ''.workers.dev'' \<in> set (op_own_hosts ?policy)"
    using remote account_read_back [OF labels] by (simp add: policy_of_def host Let_def)
  then have "is_own_host (bare_host (url_hostname u)) (op_own_hosts ?policy)"
    using target wildcard_is_bare [of account] labels(3) by (intro own_host_member) auto
  then have "check_outbound_url (Some u) ?policy \<noteq> Inr x" for x by (simp add: check_accepts_iff)
  then show ?thesis by (cases "check_outbound_url (Some u) ?policy") auto
qed

definition plain_parser :: url_parser where
  "plain_parser s base = Some \<lparr>url_href = s, url_protocol = ''https:'', url_hostname = drop 8 s, url_origin = s\<rparr>"

theorem own_workers_are_refused_witness:
  "\<exists>refused. check_outbound_url (Some (sample_url ''api.acme.workers.dev'')) (policy_of plain_parser [None] (Some ''https://app.acme.workers.dev'')) = Inl refused"
proof (rule own_workers_are_refused [where worker = "''app''" and account = "''acme''"])
  show "plain_parser ''https://app.acme.workers.dev'' None = Some (sample_url ''app.acme.workers.dev'')" by (simp add: plain_parser_def sample_url_def)
  show "url_hostname (sample_url ''app.acme.workers.dev'') = ''app'' @ ''.'' @ ''acme'' @ ''.workers.dev''" by (simp add: sample_url_def)
  show "\<forall>c \<in> set (''app'' @ ''acme''). label_char c" by (simp add: label_char_def)
  show "ends_with (bare_host (url_hostname (sample_url ''api.acme.workers.dev''))) (''.'' @ ''acme'' @ ''.workers.dev'')"
    by code_simp
qed simp_all

text \<open>
  A trailing dot in the host of the request being served hides the account: the policy then has the host itself but no
  wildcard, and another Worker of the account passes the check.
\<close>

theorem trailing_dot_hides_account:
  "\<exists>u. check_outbound_url (Some (sample_url ''api.acme.workers.dev'')) (policy_of plain_parser [None] (Some ''https://app.acme.workers.dev.'')) = Inr u"
proof -
  have "check_outbound_url (Some (sample_url ''api.acme.workers.dev'')) (policy_of plain_parser [None] (Some ''https://app.acme.workers.dev.'')) =
    Inr (sample_url ''api.acme.workers.dev'')"
    by code_simp
  then show ?thesis by blast
qed

subsection \<open>Every hop\<close>


definition sample_platform :: platform where
  "sample_platform = \<lparr>pf_parse = plain_parser, pf_make = (\<lambda>u _ _. plain_parser u None),
     pf_set_method = (\<lambda>r m. r\<lparr>rq_method := m\<rparr>), pf_set_body = (\<lambda>r b. r\<lparr>rq_body := b\<rparr>),
     pf_remove_header = (\<lambda>r n. r\<lparr>rq_headers := filter (\<lambda>(k, _). k \<noteq> n) (rq_headers r)\<rparr>),
     pf_set_url = (\<lambda>r u. r\<lparr>rq_url := url_origin u\<rparr>)\<rparr>"

definition sample_http_request :: http_request where
  "sample_http_request = \<lparr>rq_method = ''GET'', rq_url = ''https://8.8.8.8'', rq_params = [], rq_hash = None,
     rq_headers = [(''authorization'', ''Bearer t'')], rq_body = EmptyBody\<rparr>"

text \<open>A transport that sends the first request on to another host.\<close>

definition bouncing :: "(unit, unit) transport" where
  "bouncing redirect request w =
     (Inr (if rq_url request = ''https://8.8.8.8'' then \<lparr>rs_status = 302, rs_headers = [(''location'', ''https://b.example'')], rs_url = rq_url request\<rparr>
           else \<lparr>rs_status = 200, rs_headers = [], rs_url = rq_url request\<rparr>), w)"

definition strict_policy :: outbound_policy where
  "strict_policy = \<lparr>op_own_hosts = [], op_local_development = False\<rparr>"

definition bounced_request :: http_request where
  "bounced_request = sample_http_request\<lparr>rq_headers := [], rq_url := ''https://b.example''\<rparr>"

lemma sample_check: "check_request sample_platform strict_policy sample_http_request = Inr (sample_url ''8.8.8.8'')"
  using sample_accepted by (simp add: check_request_def sample_platform_def plain_parser_def sample_http_request_def strict_policy_def sample_url_def)

lemma sample_check_bounced: "check_request sample_platform strict_policy bounced_request = Inr (sample_url ''b.example'')"
  by code_simp

lemma sample_sent:
  "fst (guard_http_client sample_platform strict_policy bouncing None sample_http_request ()) = [Sent sample_http_request, Released, Sent bounced_request]"
proof -
  have redirect: "redirected sample_platform sample_http_request \<lparr>rs_status = 302, rs_headers = [(''location'', ''https://b.example'')], rs_url = ''https://8.8.8.8''\<rparr> ''https://b.example'' =
      Some bounced_request" by code_simp
  have first: "bouncing (Some ''manual'') sample_http_request () = (Inr \<lparr>rs_status = 302, rs_headers = [(''location'', ''https://b.example'')], rs_url = ''https://8.8.8.8''\<rparr>, ())"
    by (simp add: bouncing_def sample_http_request_def)
  have second: "bouncing (Some ''manual'') bounced_request () = (Inr \<lparr>rs_status = 200, rs_headers = [], rs_url = ''https://b.example''\<rparr>, ())"
    by (simp add: bouncing_def bounced_request_def)
  show ?thesis
    by (simp add: guard_http_client_def guard_loop.simps [of _ _ _ _ 0] guard_loop.simps [of _ _ _ _ "Suc 0"] sample_check sample_check_bounced
        first second redirect location_of_def redirect_statuses_def max_outbound_redirects_def)
qed


text \<open>No redirect chain runs on: whatever the transport answers, the guarded client and the guarded \<open>fetch\<close> each send at most six
  requests, the first and five redirects.
\<close>

theorem redirects_are_bounded:
  "length (sent_requests (fst (guard_http_client pf policy transport redirect request w))) \<le> 6 \<and>
   length (fetched (fst (guarded_fetch parse policy inner first w'))) \<le> 6"
proof
  show "length (sent_requests (fst (guard_http_client pf policy transport redirect request w))) \<le> 6"
    unfolding guard_http_client_def Let_def
    by (rule order_trans [OF guard_loop_count]) (simp_all add: max_outbound_redirects_def)
  show "length (fetched (fst (guarded_fetch parse policy inner first w'))) \<le> 6"
    using fetch_loop_sent [of 0 parse policy first inner w']
    by (auto simp: guarded_fetch_def max_outbound_redirects_def fetch_check_None split: option.splits prod.splits sum.splits)
qed


lemma sample_laws: "platform_laws sample_platform"
  by (auto simp: platform_laws_def sample_platform_def plain_parser_def sample_url_def)

lemma bouncing_answers: "\<forall>init. answers_own_url (bouncing init) rq_url"
  by (auto simp: answers_own_url_def bouncing_def split: if_splits)


text \<open>The guarded \<open>fetch\<close> of a library keeps the same two promises: every request it makes passed the check, and one that still
  has a credential header goes to the origin of the first.
\<close>

theorem fetch_checks_every_hop:
  assumes "\<forall>s b u. parse s b = Some u \<longrightarrow> map_option url_origin (parse (url_href u) None) = Some (url_origin u)"
    and "r \<in> set (fetched (fst (wrapped_fetch parse (Some policy) inner first w)))"
  shows "(\<exists>u. check_outbound_url (parse (fr_url r) None) policy = Inr u) \<and>
    (carries_credentials (fr_headers r) \<longrightarrow>
      map_option url_origin (parse (fr_url r) None) = map_option url_origin (parse (fr_url first) None))"
proof -
  have allowed: "fetch_allowed parse policy (fr_url first)"
    using assms(2) by (auto simp: wrapped_fetch_def guarded_fetch_def fetch_check_None split: option.splits)
  then obtain o1 where o1: "map_option url_origin (parse (fr_url first) None) = Some o1"
    by (cases "parse (fr_url first) None") (simp_all add: fetch_allowed_def)
  have cases: "r = first \<or> r \<in> set (fetched (fst (fetch_loop parse policy inner 0 first w)))"
    using assms(2) by (auto simp: wrapped_fetch_def guarded_fetch_def split: option.splits prod.splits sum.splits if_splits)
  then have "fetch_allowed parse policy (fr_url r)"
    using fetch_loop_sent [of 0 parse policy first inner w] allowed by auto
  then have "\<exists>u. check_outbound_url (parse (fr_url r) None) policy = Inr u" by (simp add: fetch_allowed_def split: sum.splits)
  then show ?thesis using cases fetch_loop_credentials [OF assms(1), of first o1 r policy inner 0 w] o1 by auto
qed

definition sample_fetch :: fetch_request where
  "sample_fetch = \<lparr>fr_url = ''https://8.8.8.8'', fr_method = ''GET'', fr_headers = [(''cookie'', ''s'')], fr_body = None, fr_redirect = ''error''\<rparr>"

definition answering :: "(unit, unit) fetch" where
  "answering request w = (Inr \<lparr>rs_status = 200, rs_headers = [], rs_url = fr_url request\<rparr>, w)"

theorem fetch_checks_every_hop_witness:
  "\<exists>u. check_outbound_url (plain_parser ''https://8.8.8.8'' None) strict_policy = Inr u"
proof -
  have laws: "\<forall>s b u. plain_parser s b = Some u \<longrightarrow> map_option url_origin (plain_parser (url_href u) None) = Some (url_origin u)"
    by (auto simp: plain_parser_def sample_url_def)
  have "fetch_check plain_parser ''https://8.8.8.8'' strict_policy = (None :: unit fetch_failure option)"
    using sample_accepted by (simp add: fetch_check_def plain_parser_def strict_policy_def sample_url_def)
  then have "sample_fetch \<in> set (fetched (fst (wrapped_fetch plain_parser (Some strict_policy) answering sample_fetch ())))"
    by (simp add: wrapped_fetch_def guarded_fetch_def sample_fetch_def answering_def)
  from fetch_checks_every_hop [OF laws this] show ?thesis by (simp add: sample_fetch_def)
qed

text \<open>Where a credential may sit in any header, the query or a cookie, redirects are followed within the origin only:
  \<open>executeSameOriginRedirects\<close> over the guarded client sends at most six requests, all to the origin of the first.
\<close>

theorem same_origin_requests_stay:
  assumes "\<forall>init. answers_own_url (transport init) rq_url"
    and "sent = sent_requests (fst (execute_same_origin_redirects pf (guard_http_client pf policy transport) request w))"
  shows "length sent \<le> 6 \<and> (\<forall>r \<in> set sent. origin_of pf r = origin_of pf request)"
proof -
  have "sends_once (guard_http_client pf policy transport)"
    unfolding sends_once_def using guard_sends_once [of transport] assms(1) by blast
  from same_origin_loop_sent [OF _ this, of 0 pf request w] show ?thesis
    by (auto simp: assms(2) execute_same_origin_redirects_def max_outbound_redirects_def)
qed

theorem same_origin_requests_stay_witness:
  "\<forall>r \<in> set (sent_requests (fst (execute_same_origin_redirects sample_platform (guard_http_client sample_platform strict_policy bouncing) sample_http_request ()))).
     origin_of sample_platform r = origin_of sample_platform sample_http_request"
  using same_origin_requests_stay [OF bouncing_answers refl, of sample_platform strict_policy sample_http_request "()"] by blast

end
