(* ===== verification/Roles.thy ===== *)
theory Roles
  imports Prelude
begin

text \<open>
  Org roles and who may grant them (\<open>packages/auth/src/roles.ts\<close>): the ranks, the rules of the members store, and the
  role table of the management routes.
\<close>

datatype org_role = RoleMember | RoleAdmin | RoleOwner

text \<open>The text of a role, as stored; \<open>isOrgRole\<close> tells the texts of roles from others.\<close>

definition parse_role :: "string \<Rightarrow> org_role option" where
  "parse_role s =
     (if s = ''owner'' then Some RoleOwner else if s = ''admin'' then Some RoleAdmin
      else if s = ''member'' then Some RoleMember else None)"

definition is_org_role :: "string \<Rightarrow> bool" where
  "is_org_role s \<longleftrightarrow> parse_role s \<noteq> None"

fun role_rank :: "org_role \<Rightarrow> nat" where
  "role_rank RoleMember = 0"
| "role_rank RoleAdmin = 1"
| "role_rank RoleOwner = 2"

definition role_at_least :: "org_role option \<Rightarrow> org_role \<Rightarrow> bool" where
  "role_at_least role minimum \<longleftrightarrow> (case role of None \<Rightarrow> False | Some r \<Rightarrow> role_rank minimum \<le> role_rank r)"

record actor =
  ac_role :: org_role
  ac_sensitive :: bool

datatype principal_kind = UserKind | ServiceKind | KeyKind | ManagementKeyKind | RunKind

definition holds_sensitive_powers :: "bool \<Rightarrow> principal_kind \<Rightarrow> org_role option \<Rightarrow> bool" where
  "holds_sensitive_powers platform_admin kind role \<longleftrightarrow> platform_admin \<or> kind = ServiceKind \<and> role = Some RoleOwner"

definition may_manage_member :: "actor \<Rightarrow> org_role \<Rightarrow> bool" where
  "may_manage_member actor role \<longleftrightarrow> role_at_least (Some (ac_role actor)) (if role = RoleMember then RoleAdmin else RoleOwner)"

definition may_change_roles :: "actor \<Rightarrow> bool" where
  "may_change_roles actor \<longleftrightarrow> role_at_least (Some (ac_role actor)) RoleOwner"

definition may_grant_token_role :: "actor \<Rightarrow> org_role \<Rightarrow> bool \<Rightarrow> bool" where
  "may_grant_token_role actor role change \<longleftrightarrow>
     (if role = RoleMember then role_at_least (Some (ac_role actor)) (if change then RoleOwner else RoleAdmin)
      else ac_sensitive actor \<and> role_at_least (Some (ac_role actor)) RoleOwner)"

definition may_remove_token :: "actor \<Rightarrow> org_role \<Rightarrow> bool" where
  "may_remove_token actor role = may_manage_member actor role"

subsection \<open>The role table\<close>

datatype route_access = PlatformRoute | NeedsRole org_role

record access_rule =
  ru_path :: string
  ru_subpaths :: bool
  ru_methods :: "string list option"
  ru_role :: route_access

definition rule_matches :: "access_rule \<Rightarrow> string \<Rightarrow> string \<Rightarrow> bool" where
  "rule_matches rule method route \<longleftrightarrow>
     (route = ru_path rule \<or> ru_subpaths rule \<and> starts_with route (ru_path rule @ ''/'')) \<and>
     (case ru_methods rule of None \<Rightarrow> True | Some methods \<Rightarrow> method \<in> set methods)"

definition rule_access :: "access_rule list \<Rightarrow> string \<Rightarrow> string \<Rightarrow> route_access" where
  "rule_access rules method route =
     (case find (\<lambda>rule. rule_matches rule method route) rules of
        None \<Rightarrow> NeedsRole RoleAdmin
      | Some rule \<Rightarrow> ru_role rule)"

lemma role_at_least_simps [simp]:
  "\<not> role_at_least None r"
  "role_at_least (Some RoleOwner) r"
  "role_at_least (Some r) RoleMember"
  "role_at_least (Some r) RoleOwner \<longleftrightarrow> r = RoleOwner"
  "role_at_least (Some r) RoleAdmin \<longleftrightarrow> r \<noteq> RoleMember"
  by (cases r; simp add: role_at_least_def)+

lemmas role_rules = may_manage_member_def may_change_roles_def may_grant_token_role_def may_remove_token_def

lemma is_org_role_texts: "is_org_role s \<longleftrightarrow> s \<in> {''owner'', ''admin'', ''member''}"
  by (simp add: is_org_role_def parse_role_def)

end
