(* ===== verification/Members.thy ===== *)
theory Members
  imports Roles "HOL-Library.Product_Lexorder"
begin

text \<open>
  The members, teams and service tokens of an org (\<open>packages/state/src/members/store.ts\<close>, the class \<open>MemberStore\<close>;
  \<open>cleanName\<close> of \<open>platform/registry-store.ts\<close>). The six SQL tables are the fields of a record: a table is the list of its
  rows in insertion order, the one row of \<open>membership\<close> a record. A column that holds 0 or 1 is a \<^typ>\<open>bool\<close>.

  \<^item> Random ids are drawn from a list: \<open>draws\<close> are the 16 characters each \<open>freshId\<close> gives in turn.
  \<^item> An operation answers a \<open>reply\<close> and the store it leaves. \<open>Thrown\<close> is an exception (a violated UNIQUE or PRIMARY KEY,
    a row that must be there and is not), and also the draws running out, where the code would draw on; a transaction
    that throws leaves the store as it was. Texts of refusals are left out.
\<close>

datatype member_error =
  InvalidEmail | InvalidRole | InvalidName | InvalidClientId | MemberExists | TeamExists | ServiceTokenExists
  | MemberNotFound | TeamNotFound | ServiceTokenNotFound | OwnerRequired | AdminRequired | ServiceTokenOwnerRequired | LastOwner

datatype 'a reply = Reply 'a | Refusal member_error | Thrown

record membership_row =
  mr_auto_join :: bool
  mr_private_credentials :: bool
  mr_private_toolkits :: bool
  mr_private_agents :: bool
  mr_admins_migrated :: bool
  mr_counter :: int
  mr_index_synced :: int

record member_row =
  mb_id :: string
  mb_email :: string
  mb_role :: string
  mb_added_at :: ms
  mb_added_by :: string

record team_row =
  tm_id :: string
  tm_name :: string
  tm_name_key :: string
  tm_created_at :: ms

record token_row =
  tk_client_id :: string
  tk_name :: string
  tk_role :: string
  tk_added_at :: ms
  tk_added_by :: string

record member_store =
  ms_global :: bool
  ms_state :: membership_row
  ms_members :: "member_row list"
  ms_teams :: "team_row list"
  ms_links :: "(string \<times> string) list"
  ms_tokens :: "token_row list"
  ms_removed :: "(string, ms) js_map"

subsection \<open>Texts\<close>

definition max_name_length :: nat where "max_name_length = 100"

definition clean_name :: "string \<Rightarrow> string option" where
  "clean_name name =
     (let trimmed = js_trim name;
          control = list_ex (\<lambda>c. let code = (of_char c :: nat) in code < 32 \<or> code = 127) trimmed
      in if length trimmed > 0 \<and> length trimmed \<le> max_name_length \<and> \<not> control then Some trimmed else None)"

definition max_email_length :: nat where "max_email_length = 254"

definition email_char :: "char \<Rightarrow> bool" where
  "email_char c \<longleftrightarrow> \<not> is_ws c \<and> c \<notin> set ''@,;<>'' \<and> c \<noteq> CHR 34"

definition normalize_email :: "string \<Rightarrow> string" where
  "normalize_email email = js_lower (js_trim email)"

text \<open>The pattern \<open>EMAIL\<close>: two non-empty parts around one \<open>@\<close>.\<close>

definition valid_email :: "string \<Rightarrow> bool" where
  "valid_email email \<longleftrightarrow> length email \<le> max_email_length \<and>
     (let parts = split_on CHR ''@'' email in length parts = 2 \<and> list_all (\<lambda>p. p \<noteq> [] \<and> list_all email_char p) parts)"

definition is_alnum :: "char \<Rightarrow> bool" where
  "is_alnum c \<longleftrightarrow> is_digit c \<or> (let n = (of_char c :: nat) in (65 \<le> n \<and> n \<le> 90) \<or> (97 \<le> n \<and> n \<le> 122))"

text \<open>The pattern \<open>CLIENT_ID\<close>.\<close>

definition valid_client_id :: "string \<Rightarrow> bool" where
  "valid_client_id s \<longleftrightarrow> s \<noteq> [] \<and> length s \<le> 200 \<and> is_alnum (hd s) \<and> list_all (\<lambda>c. is_alnum c \<or> c \<in> set ''._-'') (tl s)"

definition removed_user :: "string \<Rightarrow> string" where "removed_user email = ''user:'' @ email"

definition removed_token :: "string \<Rightarrow> string" where "removed_token client_id = ''service:'' @ client_id"

text \<open>\<open>role(value)\<close>: a text that is no role counts as a plain member.\<close>

definition role_or_member :: "string \<Rightarrow> org_role" where
  "role_or_member value = (case parse_role value of None \<Rightarrow> RoleMember | Some r \<Rightarrow> r)"

definition platform_admin_seed_actor :: string where "platform_admin_seed_actor = ''migration''"

definition auto_join_actor :: string where "auto_join_actor = ''auto-join''"

definition sso_actor :: string where "sso_actor = ''single-sign-on''"

subsection \<open>Opening the store\<close>

text \<open>
  The constructor: which of the columns added later the \<open>membership\<close> table has (\<^const>\<open>None\<close>: the table is new), and its
  row if there is one.
\<close>

record stored_columns =
  sc_private_credentials :: bool
  sc_private_toolkits :: bool
  sc_private_agents :: bool

definition migrate_row :: "bool \<Rightarrow> stored_columns \<Rightarrow> membership_row \<Rightarrow> membership_row" where
  "migrate_row global columns row =
     (let row = (if sc_private_credentials columns then row else row\<lparr>mr_private_credentials := global\<rparr>);
          row = (if sc_private_toolkits columns then row else row\<lparr>mr_private_toolkits := mr_private_credentials row\<rparr>);
          row = (if sc_private_agents columns then row else row\<lparr>mr_private_agents := global \<or> mr_private_toolkits row\<rparr>)
      in row)"

definition first_row :: "bool \<Rightarrow> bool \<Rightarrow> membership_row" where
  "first_row global global_auto_join =
     \<lparr>mr_auto_join = global \<and> global_auto_join, mr_private_credentials = global, mr_private_toolkits = global, mr_private_agents = global,
      mr_admins_migrated = False, mr_counter = 0, mr_index_synced = 0\<rparr>"

definition open_row :: "bool \<Rightarrow> bool \<Rightarrow> stored_columns \<Rightarrow> membership_row option \<Rightarrow> membership_row" where
  "open_row global global_auto_join columns stored =
     (case stored of None \<Rightarrow> first_row global global_auto_join | Some row \<Rightarrow> migrate_row global columns row)"

definition new_member_store :: "bool \<Rightarrow> bool \<Rightarrow> member_store" where
  "new_member_store global global_auto_join =
     \<lparr>ms_global = global, ms_state = first_row global global_auto_join, ms_members = [], ms_teams = [], ms_links = [], ms_tokens = [], ms_removed = []\<rparr>"

subsection \<open>Rows\<close>

definition member_by_id :: "string \<Rightarrow> member_store \<Rightarrow> member_row option" where
  "member_by_id i s = find (\<lambda>m. mb_id m = i) (ms_members s)"

definition member_by_email :: "string \<Rightarrow> member_store \<Rightarrow> member_row option" where
  "member_by_email email s = find (\<lambda>m. mb_email m = email) (ms_members s)"

definition team_row_of :: "string \<Rightarrow> member_store \<Rightarrow> team_row option" where
  "team_row_of i s = find (\<lambda>t. tm_id t = i) (ms_teams s)"

definition team_by_name :: "string \<Rightarrow> member_store \<Rightarrow> team_row option" where
  "team_by_name name s = find (\<lambda>t. tm_name_key t = js_lower name) (ms_teams s)"

definition token_of :: "string \<Rightarrow> member_store \<Rightarrow> token_row option" where
  "token_of client_id s = find (\<lambda>t. tk_client_id t = client_id) (ms_tokens s)"

definition owner_count :: "member_store \<Rightarrow> nat" where
  "owner_count s = length (filter (\<lambda>m. mb_role m = ''owner'') (ms_members s))"

definition is_removed :: "string \<Rightarrow> member_store \<Rightarrow> bool" where
  "is_removed who s \<longleftrightarrow> map_of (ms_removed s) who \<noteq> None"

definition tombstone :: "string \<Rightarrow> ms \<Rightarrow> member_store \<Rightarrow> member_store" where
  "tombstone who now s = s\<lparr>ms_removed := AList.update who now (ms_removed s)\<rparr>"

definition restore_principal :: "string \<Rightarrow> member_store \<Rightarrow> member_store" where
  "restore_principal who s = s\<lparr>ms_removed := AList.delete who (ms_removed s)\<rparr>"

definition changed :: "member_store \<Rightarrow> member_store" where
  "changed s = s\<lparr>ms_state := (ms_state s)\<lparr>mr_counter := mr_counter (ms_state s) + 1\<rparr>\<rparr>"

text \<open>\<open>#insertMember\<close>: an id is drawn until one is unused; inserting an email that is there violates its UNIQUE.\<close>

definition insert_member :: "string list \<Rightarrow> string \<Rightarrow> org_role \<Rightarrow> ms \<Rightarrow> string \<Rightarrow> member_store \<Rightarrow> (string \<times> string list \<times> member_store) option" where
  "insert_member draws email granted now added_by s =
     (case dropWhile (\<lambda>d. member_by_id (''mem-'' @ d) s \<noteq> None) draws of
        [] \<Rightarrow> None
      | d # rest \<Rightarrow>
          if member_by_email email s \<noteq> None then None
          else Some (''mem-'' @ d, rest, s\<lparr>ms_members := ms_members s @
                 [\<lparr>mb_id = ''mem-'' @ d, mb_email = email,
                   mb_role = (case granted of RoleOwner \<Rightarrow> ''owner'' | RoleAdmin \<Rightarrow> ''admin'' | RoleMember \<Rightarrow> ''member''),
                   mb_added_at = now, mb_added_by = added_by\<rparr>]\<rparr>))"

definition set_member :: "string \<Rightarrow> string \<Rightarrow> member_store \<Rightarrow> member_store" where
  "set_member i role s = s\<lparr>ms_members := map (\<lambda>m. if mb_id m = i then m\<lparr>mb_role := role\<rparr> else m) (ms_members s)\<rparr>"

definition delete_member :: "string \<Rightarrow> member_store \<Rightarrow> member_store" where
  "delete_member i s = s\<lparr>ms_links := filter (\<lambda>(_, m). m \<noteq> i) (ms_links s), ms_members := filter (\<lambda>m. mb_id m \<noteq> i) (ms_members s)\<rparr>"

subsection \<open>Views\<close>

record member_record =
  mv_id :: string
  mv_email :: string
  mv_role :: org_role
  mv_added_at :: ms
  mv_teams :: "string list"

record team_record =
  tv_id :: string
  tv_name :: string
  tv_created_at :: ms
  tv_members :: "string list"

record token_record =
  kv_client_id :: string
  kv_name :: string
  kv_role :: org_role
  kv_added_at :: ms

definition team_ids_of :: "string \<Rightarrow> member_store \<Rightarrow> string list" where
  "team_ids_of i s = sort (map fst (filter (\<lambda>(_, m). m = i) (ms_links s)))"

definition member_record_of :: "member_store \<Rightarrow> member_row \<Rightarrow> member_record" where
  "member_record_of s m =
     \<lparr>mv_id = mb_id m, mv_email = mb_email m, mv_role = role_or_member (mb_role m), mv_added_at = mb_added_at m, mv_teams = team_ids_of (mb_id m) s\<rparr>"

definition list_members :: "member_store \<Rightarrow> member_record list" where
  "list_members s = map (member_record_of s) (sort_key (\<lambda>m. (mb_added_at m, mb_email m)) (ms_members s))"

definition member_view :: "string \<Rightarrow> member_store \<Rightarrow> member_record option" where
  "member_view i s = map_option (member_record_of s) (member_by_id i s)"

definition team_record_of :: "member_store \<Rightarrow> team_row \<Rightarrow> team_record" where
  "team_record_of s t =
     \<lparr>tv_id = tm_id t, tv_name = tm_name t, tv_created_at = tm_created_at t,
      tv_members = sort (map snd (filter (\<lambda>(team, _). team = tm_id t) (ms_links s)))\<rparr>"

definition list_teams :: "member_store \<Rightarrow> team_record list" where
  "list_teams s = map (team_record_of s) (sort_key tm_name_key (ms_teams s))"

definition team_view :: "string \<Rightarrow> member_store \<Rightarrow> team_record option" where
  "team_view i s = find (\<lambda>t. tv_id t = i) (list_teams s)"

definition team_member_ids :: "string \<Rightarrow> member_store \<Rightarrow> string list option" where
  "team_member_ids i s =
     (if team_row_of i s = None then None else Some (map snd (filter (\<lambda>(team, _). team = i) (ms_links s))))"

definition token_record_of :: "token_row \<Rightarrow> token_record" where
  "token_record_of t = \<lparr>kv_client_id = tk_client_id t, kv_name = tk_name t, kv_role = role_or_member (tk_role t), kv_added_at = tk_added_at t\<rparr>"

definition list_tokens :: "member_store \<Rightarrow> token_record list" where
  "list_tokens s = map token_record_of (sort_key (\<lambda>t. (tk_added_at t, tk_client_id t)) (ms_tokens s))"

definition found_member :: "string \<Rightarrow> member_store \<Rightarrow> member_record reply" where
  "found_member i s = (case member_view i s of None \<Rightarrow> Thrown | Some m \<Rightarrow> Reply m)"

definition found_team :: "string \<Rightarrow> member_store \<Rightarrow> team_record reply" where
  "found_team i s = (case team_view i s of None \<Rightarrow> Thrown | Some t \<Rightarrow> Reply t)"

definition found_token :: "string \<Rightarrow> member_store \<Rightarrow> token_record reply" where
  "found_token client_id s = (case token_of client_id s of None \<Rightarrow> Thrown | Some t \<Rightarrow> Reply (token_record_of t))"

subsection \<open>Refusals\<close>

definition denied :: "org_role \<Rightarrow> member_error" where
  "denied target = (if target = RoleMember then AdminRequired else OwnerRequired)"

definition token_denied :: "actor \<Rightarrow> org_role \<Rightarrow> member_error" where
  "token_denied actor target =
     (if target \<noteq> RoleMember then ServiceTokenOwnerRequired else if ac_role actor = RoleMember then AdminRequired else OwnerRequired)"

subsection \<open>Platform admins and admission\<close>

fun seed_each :: "string list \<Rightarrow> string list \<Rightarrow> ms \<Rightarrow> member_store \<Rightarrow> member_store option" where
  "seed_each [] draws now s = Some s"
| "seed_each (email # emails) draws now s =
     (if \<not> valid_email email then seed_each emails draws now s
      else (case member_by_email email s of
              None \<Rightarrow>
                (case insert_member draws email RoleOwner now platform_admin_seed_actor s of
                   None \<Rightarrow> None
                 | Some (_, rest, s1) \<Rightarrow> seed_each emails rest now s1)
            | Some m \<Rightarrow> seed_each emails draws now (set_member (mb_id m) ''owner'' s)))"

definition seed_platform_admins :: "string list \<Rightarrow> string list \<Rightarrow> ms \<Rightarrow> member_store \<Rightarrow> unit reply \<times> member_store" where
  "seed_platform_admins emails draws now s =
     (if mr_admins_migrated (ms_state s) then (Reply (), s)
      else (case (if ms_global s then map_option changed (seed_each (js_set (map normalize_email emails)) draws now s) else Some s) of
              None \<Rightarrow> (Thrown, s)
            | Some s1 \<Rightarrow> (Reply (), s1\<lparr>ms_state := (ms_state s1)\<lparr>mr_admins_migrated := True\<rparr>\<rparr>)))"

datatype principal_ref = UserRef string | ServiceRef string

record admission =
  ad_role :: org_role
  ad_member_id :: "string option"
  ad_joined :: bool
  ad_index_stale :: bool

definition index_stale :: "member_store \<Rightarrow> bool" where
  "index_stale s \<longleftrightarrow> mr_index_synced (ms_state s) < mr_counter (ms_state s)"

text \<open>The transaction in which a person joins as a plain member.\<close>

definition join_member :: "string list \<Rightarrow> string \<Rightarrow> ms \<Rightarrow> string \<Rightarrow> member_store \<Rightarrow> admission option reply \<times> member_store" where
  "join_member draws email now added_by s =
     (case insert_member draws email RoleMember now added_by s of
        None \<Rightarrow> (Thrown, s)
      | Some (i, _, s1) \<Rightarrow>
          (Reply (Some \<lparr>ad_role = RoleMember, ad_member_id = Some i, ad_joined = True, ad_index_stale = True\<rparr>), changed s1))"

definition admit :: "string list \<Rightarrow> principal_ref \<Rightarrow> bool \<Rightarrow> ms \<Rightarrow> member_store \<Rightarrow> admission option reply \<times> member_store" where
  "admit draws who auto_join now s =
     (let stale = index_stale s; open_org = auto_join \<and> mr_auto_join (ms_state s)
      in case who of
           ServiceRef given \<Rightarrow>
             let client_id = js_trim given
             in (case token_of client_id s of
                   Some t \<Rightarrow> (Reply (Some \<lparr>ad_role = role_or_member (tk_role t), ad_member_id = None, ad_joined = False, ad_index_stale = stale\<rparr>), s)
                 | None \<Rightarrow>
                     (Reply (if open_org \<and> \<not> is_removed (removed_token client_id) s
                        then Some \<lparr>ad_role = RoleMember, ad_member_id = None, ad_joined = False, ad_index_stale = stale\<rparr> else None), s))
         | UserRef given \<Rightarrow>
             let email = normalize_email given
             in (case member_by_email email s of
                   Some m \<Rightarrow> (Reply (Some \<lparr>ad_role = role_or_member (mb_role m), ad_member_id = Some (mb_id m), ad_joined = False, ad_index_stale = stale\<rparr>), s)
                 | None \<Rightarrow>
                     if \<not> open_org \<or> \<not> valid_email email \<or> is_removed (removed_user email) s then (Reply None, s)
                     else join_member draws email now auto_join_actor s))"

definition join_through_sso :: "string list \<Rightarrow> string \<Rightarrow> ms \<Rightarrow> member_store \<Rightarrow> admission option reply \<times> member_store" where
  "join_through_sso draws given now s =
     (let email = normalize_email given
      in case member_by_email email s of
           Some m \<Rightarrow> (Reply (Some \<lparr>ad_role = role_or_member (mb_role m), ad_member_id = Some (mb_id m), ad_joined = False, ad_index_stale = index_stale s\<rparr>), s)
         | None \<Rightarrow>
             if \<not> valid_email email \<or> is_removed (removed_user email) s then (Reply None, s)
             else join_member draws email now sso_actor s)"

subsection \<open>Settings\<close>

definition set_auto_join :: "bool \<Rightarrow> member_store \<Rightarrow> member_store" where
  "set_auto_join on s = s\<lparr>ms_state := (ms_state s)\<lparr>mr_auto_join := on\<rparr>\<rparr>"

definition set_private_credentials :: "bool \<Rightarrow> member_store \<Rightarrow> member_store" where
  "set_private_credentials on s = s\<lparr>ms_state := (ms_state s)\<lparr>mr_private_credentials := on\<rparr>\<rparr>"

definition set_private_toolkits :: "bool \<Rightarrow> member_store \<Rightarrow> member_store" where
  "set_private_toolkits on s = s\<lparr>ms_state := (ms_state s)\<lparr>mr_private_toolkits := on\<rparr>\<rparr>"

definition set_private_agents :: "bool \<Rightarrow> member_store \<Rightarrow> member_store" where
  "set_private_agents on s = s\<lparr>ms_state := (ms_state s)\<lparr>mr_private_agents := on\<rparr>\<rparr>"

subsection \<open>Members\<close>

definition add_member :: "string list \<Rightarrow> string \<Rightarrow> string \<Rightarrow> actor \<Rightarrow> string \<Rightarrow> ms \<Rightarrow> member_store \<Rightarrow> member_record reply \<times> member_store" where
  "add_member draws given role actor added_by now s =
     (let email = normalize_email given
      in if \<not> valid_email email then (Refusal InvalidEmail, s)
         else (case parse_role role of
                 None \<Rightarrow> (Refusal InvalidRole, s)
               | Some granted \<Rightarrow>
                   if \<not> may_manage_member actor granted then (Refusal (denied granted), s)
                   else if member_by_email email s \<noteq> None then (Refusal MemberExists, s)
                   else (case insert_member draws email granted now added_by s of
                           None \<Rightarrow> (Thrown, s)
                         | Some (i, _, s1) \<Rightarrow>
                             let s2 = changed (restore_principal (removed_user email) s1) in (found_member i s2, s2))))"

definition set_member_role :: "string \<Rightarrow> string \<Rightarrow> actor \<Rightarrow> member_store \<Rightarrow> member_record reply \<times> member_store" where
  "set_member_role i role actor s =
     (if \<not> is_org_role role then (Refusal InvalidRole, s)
      else (case member_by_id i s of
              None \<Rightarrow> (Refusal MemberNotFound, s)
            | Some current \<Rightarrow>
                if \<not> may_change_roles actor then (Refusal OwnerRequired, s)
                else if mb_role current = ''owner'' \<and> role \<noteq> ''owner'' \<and> owner_count s = 1 then (Refusal LastOwner, s)
                else let s1 = set_member i role s in (found_member i s1, s1)))"

definition other_members :: "string \<Rightarrow> member_store \<Rightarrow> nat" where
  "other_members i s = length (filter (\<lambda>m. mb_id m \<noteq> i) (ms_members s))"

definition remove_member :: "string \<Rightarrow> actor \<Rightarrow> ms \<Rightarrow> member_store \<Rightarrow> string reply \<times> member_store" where
  "remove_member i actor now s =
     (case member_by_id i s of
        None \<Rightarrow> (Refusal MemberNotFound, s)
      | Some current \<Rightarrow>
          let held = role_or_member (mb_role current)
          in if \<not> may_manage_member actor held then (Refusal (denied held), s)
             else if held = RoleOwner \<and> owner_count s = 1 \<and> other_members i s > 0 then (Refusal LastOwner, s)
             else (Reply (mb_email current), changed (tombstone (removed_user (mb_email current)) now (delete_member i s))))"

record account_standing =
  as_member :: bool
  as_alone :: bool
  as_sole_owner :: bool

definition standing_of :: "string \<Rightarrow> member_store \<Rightarrow> account_standing" where
  "standing_of email s =
     (case member_by_email (normalize_email email) s of
        None \<Rightarrow> \<lparr>as_member = False, as_alone = False, as_sole_owner = False\<rparr>
      | Some m \<Rightarrow>
          let others = other_members (mb_id m) s
          in \<lparr>as_member = True, as_alone = others = 0,
              as_sole_owner = role_or_member (mb_role m) = RoleOwner \<and> owner_count s = 1 \<and> others > 0\<rparr>)"

definition leave_org :: "string \<Rightarrow> member_store \<Rightarrow> string option \<times> member_store" where
  "leave_org email s =
     (case member_by_email (normalize_email email) s of
        None \<Rightarrow> (None, s)
      | Some m \<Rightarrow> (Some (mb_id m), changed (restore_principal (removed_user (normalize_email email)) (delete_member (mb_id m) s))))"

subsection \<open>Teams\<close>

definition create_team :: "string \<Rightarrow> string \<Rightarrow> ms \<Rightarrow> member_store \<Rightarrow> team_record reply \<times> member_store" where
  "create_team draw name now s =
     (case clean_name name of
        None \<Rightarrow> (Refusal InvalidName, s)
      | Some clean \<Rightarrow>
          if team_by_name clean s \<noteq> None then (Refusal TeamExists, s)
          else if team_row_of (''team-'' @ draw) s \<noteq> None then (Thrown, s)
          else let s1 = s\<lparr>ms_teams := ms_teams s @ [\<lparr>tm_id = ''team-'' @ draw, tm_name = clean, tm_name_key = js_lower clean, tm_created_at = now\<rparr>]\<rparr>
               in (found_team (''team-'' @ draw) s1, s1))"

definition rename_team :: "string \<Rightarrow> string \<Rightarrow> member_store \<Rightarrow> team_record reply \<times> member_store" where
  "rename_team i name s =
     (case clean_name name of
        None \<Rightarrow> (Refusal InvalidName, s)
      | Some clean \<Rightarrow>
          if team_row_of i s = None then (Refusal TeamNotFound, s)
          else if (case team_by_name clean s of None \<Rightarrow> False | Some holder \<Rightarrow> tm_id holder \<noteq> i) then (Refusal TeamExists, s)
          else let s1 = s\<lparr>ms_teams := map (\<lambda>t. if tm_id t = i then t\<lparr>tm_name := clean, tm_name_key := js_lower clean\<rparr> else t) (ms_teams s)\<rparr>
               in (found_team i s1, s1))"

definition delete_team :: "string \<Rightarrow> member_store \<Rightarrow> unit reply \<times> member_store" where
  "delete_team i s =
     (if team_row_of i s = None then (Refusal TeamNotFound, s)
      else (Reply (), s\<lparr>ms_links := filter (\<lambda>(team, _). team \<noteq> i) (ms_links s), ms_teams := filter (\<lambda>t. tm_id t \<noteq> i) (ms_teams s)\<rparr>))"

definition add_team_member :: "string \<Rightarrow> string \<Rightarrow> member_store \<Rightarrow> team_record reply \<times> member_store" where
  "add_team_member team member s =
     (if team_row_of team s = None then (Refusal TeamNotFound, s)
      else if member_by_id member s = None then (Refusal MemberNotFound, s)
      else let s1 = (if (team, member) \<in> set (ms_links s) then s else s\<lparr>ms_links := ms_links s @ [(team, member)]\<rparr>)
           in (found_team team s1, s1))"

definition remove_team_member :: "string \<Rightarrow> string \<Rightarrow> member_store \<Rightarrow> team_record reply \<times> member_store" where
  "remove_team_member team member s =
     (if team_row_of team s = None then (Refusal TeamNotFound, s)
      else let s1 = s\<lparr>ms_links := filter (\<lambda>link. link \<noteq> (team, member)) (ms_links s)\<rparr> in (found_team team s1, s1))"

subsection \<open>Service tokens\<close>

definition register_token :: "string \<Rightarrow> string option \<Rightarrow> string \<Rightarrow> actor \<Rightarrow> string \<Rightarrow> ms \<Rightarrow> member_store \<Rightarrow> token_record reply \<times> member_store" where
  "register_token given name role actor added_by now s =
     (let client_id = js_trim given
      in if \<not> valid_client_id client_id then (Refusal InvalidClientId, s)
         else (case parse_role role of
                 None \<Rightarrow> (Refusal InvalidRole, s)
               | Some granted \<Rightarrow>
                   (case (case name of None \<Rightarrow> Some client_id | Some n \<Rightarrow> clean_name n) of
                      None \<Rightarrow> (Refusal InvalidName, s)
                    | Some shown \<Rightarrow>
                        if \<not> may_grant_token_role actor granted False then (Refusal (token_denied actor granted), s)
                        else if token_of client_id s \<noteq> None then (Refusal ServiceTokenExists, s)
                        else
                          let row = \<lparr>tk_client_id = client_id, tk_name = shown, tk_role = role, tk_added_at = now, tk_added_by = added_by\<rparr>;
                              s1 = changed (restore_principal (removed_token client_id) (s\<lparr>ms_tokens := ms_tokens s @ [row]\<rparr>))
                          in (found_token client_id s1, s1))))"

definition set_token_role :: "string \<Rightarrow> string \<Rightarrow> actor \<Rightarrow> member_store \<Rightarrow> token_record reply \<times> member_store" where
  "set_token_role given role actor s =
     (case parse_role role of
        None \<Rightarrow> (Refusal InvalidRole, s)
      | Some granted \<Rightarrow>
          let client_id = js_trim given
          in (case token_of client_id s of
                None \<Rightarrow> (Refusal ServiceTokenNotFound, s)
              | Some t \<Rightarrow>
                  let held = role_or_member (tk_role t)
                  in if \<not> may_grant_token_role actor granted True then (Refusal (token_denied actor granted), s)
                     else if held \<noteq> RoleMember \<and> \<not> may_remove_token actor held then (Refusal (denied held), s)
                     else let s1 = s\<lparr>ms_tokens := map (\<lambda>t. if tk_client_id t = client_id then t\<lparr>tk_role := role\<rparr> else t) (ms_tokens s)\<rparr>
                          in (found_token client_id s1, s1)))"

definition remove_token :: "string \<Rightarrow> actor \<Rightarrow> ms \<Rightarrow> member_store \<Rightarrow> unit reply \<times> member_store" where
  "remove_token given actor now s =
     (let client_id = js_trim given
      in case token_of client_id s of
           None \<Rightarrow> (Refusal ServiceTokenNotFound, s)
         | Some t \<Rightarrow>
             let held = role_or_member (tk_role t)
             in if \<not> may_remove_token actor held then (Refusal (denied held), s)
                else (Reply (), changed (tombstone (removed_token client_id) now (s\<lparr>ms_tokens := filter (\<lambda>t. tk_client_id t \<noteq> client_id) (ms_tokens s)\<rparr>))))"

definition withdraw_token :: "string \<Rightarrow> member_store \<Rightarrow> member_store" where
  "withdraw_token given s = changed (s\<lparr>ms_tokens := filter (\<lambda>t. tk_client_id t \<noteq> js_trim given) (ms_tokens s)\<rparr>)"

subsection \<open>The registry's index\<close>

record membership_index =
  mi_emails :: "string list"
  mi_service_tokens :: "string list"
  mi_counter :: int
  mi_synced :: bool

definition membership_index_of :: "member_store \<Rightarrow> membership_index" where
  "membership_index_of s =
     \<lparr>mi_emails = sort (map mb_email (ms_members s)), mi_service_tokens = sort (map tk_client_id (ms_tokens s)),
      mi_counter = mr_counter (ms_state s), mi_synced = mr_index_synced (ms_state s) \<ge> mr_counter (ms_state s)\<rparr>"

definition mark_index_synced :: "int \<Rightarrow> member_store \<Rightarrow> member_store" where
  "mark_index_synced counter s = s\<lparr>ms_state := (ms_state s)\<lparr>mr_index_synced := max (mr_index_synced (ms_state s)) counter\<rparr>\<rparr>"

end
