(* ===== verification/Platform_Registry.thy ===== *)
theory Platform_Registry
  imports Members Org_Names
begin

text \<open>
  The Platform registry (\<open>packages/state/src/platform/registry-store.ts\<close>, the class \<open>PlatformStore\<close>): the deployment's orgs,
  the index of which orgs each person and each service token belong to, the people of the hosted deployment, and the
  verified single sign-on domains. Tables are lists of rows in insertion order; \<^const>\<open>None\<close> is NULL. Random ids and slugs are
  drawn from lists (\<open>draws\<close>), and an operation that throws, or would draw on, answers \<open>Thrown\<close>-like \<^const>\<open>None\<close>.
\<close>

record org_row =
  og_id :: string
  og_slug :: string
  og_name :: string
  og_created_at :: ms
  og_usage_days :: "int option"
  og_run_days :: "int option"
  og_created_by :: "string option"
  og_suspended_at :: "ms option"

record person_row =
  pe_email :: string
  pe_signed_up_at :: "ms option"
  pe_personal_org :: "string option"
  pe_org_limit :: "int option"
  pe_suspended_at :: "ms option"

record sso_row =
  so_domain :: string
  so_org :: string
  so_required :: bool

record registry =
  rg_orgs :: "org_row list"
  rg_members :: "(string \<times> string) list"
  rg_tokens :: "(string \<times> string) list"
  rg_people :: "person_row list"
  rg_domains :: "sso_row list"

datatype org_error = InvalidSlug | InvalidOrgName | InvalidRetention | SlugTaken | OrgNotFound | OrgLimitReached

datatype org_reply = OrgDone org_row | OrgRefused org_error | OrgThrown

definition default_usage_retention_days :: int where "default_usage_retention_days = 90"

definition max_retention_days :: int where "max_retention_days = 3650"

definition default_run_retention_days :: int where "default_run_retention_days = 30"

definition default_org_slug :: string where "default_org_slug = ''default''"

definition personal_org_name :: string where "personal_org_name = ''Personal''"

text \<open>The pattern of \<open>OrgSlug\<close>, the same as that of \<open>OrgId\<close>.\<close>

definition is_org_slug :: "string \<Rightarrow> bool" where "is_org_slug s = is_org_id s"

definition new_org_id :: "string \<Rightarrow> string" where "new_org_id draw = ''org-'' @ draw"

definition valid_retention :: "int option \<Rightarrow> bool" where
  "valid_retention days \<longleftrightarrow> (case days of None \<Rightarrow> True | Some d \<Rightarrow> 1 \<le> d \<and> d \<le> max_retention_days)"

text \<open>The first start: the org \<open>global\<close>, whose usage records are kept for ever.\<close>

definition open_registry :: "ms \<Rightarrow> registry" where
  "open_registry now =
     \<lparr>rg_orgs = [\<lparr>og_id = global_org, og_slug = default_org_slug, og_name = ''Default'', og_created_at = now, og_usage_days = None,
        og_run_days = Some default_run_retention_days, og_created_by = None, og_suspended_at = None\<rparr>],
      rg_members = [], rg_tokens = [], rg_people = [], rg_domains = []\<rparr>"

subsection \<open>Orgs\<close>

definition org_order :: "org_row \<Rightarrow> bool \<times> ms \<times> string" where
  "org_order o1 = (og_id o1 \<noteq> global_org, og_created_at o1, og_id o1)"

definition list_orgs :: "registry \<Rightarrow> org_row list" where
  "list_orgs r = sort_key org_order (rg_orgs r)"

definition org_by_slug :: "string \<Rightarrow> registry \<Rightarrow> org_row option" where
  "org_by_slug slug r = find (\<lambda>o1. og_slug o1 = slug) (rg_orgs r)"

definition org_by_id :: "string \<Rightarrow> registry \<Rightarrow> org_row option" where
  "org_by_id i r = find (\<lambda>o1. og_id o1 = i) (rg_orgs r)"

definition person_of :: "string \<Rightarrow> registry \<Rightarrow> person_row option" where
  "person_of email r = find (\<lambda>p. pe_email p = email) (rg_people r)"

definition owned_orgs :: "string \<Rightarrow> registry \<Rightarrow> nat" where
  "owned_orgs email r = length (filter (\<lambda>o1. og_created_by o1 = Some email) (rg_orgs r))"

definition org_limit :: "string \<Rightarrow> int \<Rightarrow> registry \<Rightarrow> int" where
  "org_limit email default_limit r =
     (case person_of email r of None \<Rightarrow> default_limit | Some p \<Rightarrow> (case pe_org_limit p of None \<Rightarrow> default_limit | Some n \<Rightarrow> n))"

text \<open>An INSERT into \<open>orgs\<close>; an id or slug that is there violates its constraint.\<close>

definition insert_org :: "org_row \<Rightarrow> registry \<Rightarrow> registry option" where
  "insert_org row r =
     (if org_by_id (og_id row) r \<noteq> None \<or> org_by_slug (og_slug row) r \<noteq> None then None else Some (r\<lparr>rg_orgs := rg_orgs r @ [row]\<rparr>))"

definition fresh_org :: "string \<Rightarrow> string \<Rightarrow> string \<Rightarrow> ms \<Rightarrow> string option \<Rightarrow> org_row" where
  "fresh_org i slug name now creator =
     \<lparr>og_id = i, og_slug = slug, og_name = name, og_created_at = now, og_usage_days = Some default_usage_retention_days,
      og_run_days = Some default_run_retention_days, og_created_by = creator, og_suspended_at = None\<rparr>"

definition create_org :: "string \<Rightarrow> string \<Rightarrow> string \<Rightarrow> string option \<Rightarrow> (string \<times> int) option \<Rightarrow> ms \<Rightarrow> registry \<Rightarrow> org_reply \<times> registry" where
  "create_org draw slug name given_id created_by now r =
     (if \<not> is_org_slug slug then (OrgRefused InvalidSlug, r)
      else (case clean_name name of
              None \<Rightarrow> (OrgRefused InvalidOrgName, r)
            | Some clean \<Rightarrow>
                if org_by_slug slug r \<noteq> None then (OrgRefused SlugTaken, r)
                else if (case created_by of None \<Rightarrow> False | Some (email, default_limit) \<Rightarrow>
                           int (owned_orgs (normalize_email email) r) \<ge> org_limit (normalize_email email) default_limit r)
                then (OrgRefused OrgLimitReached, r)
                else let row = fresh_org (case given_id of None \<Rightarrow> new_org_id draw | Some i \<Rightarrow> i) slug clean now
                           (map_option (\<lambda>c. normalize_email (fst c)) created_by)
                     in (case insert_org row r of
                           None \<Rightarrow> (OrgThrown, r)
                         | Some r1 \<Rightarrow> (OrgDone row, r1))))"

definition set_org :: "string \<Rightarrow> (org_row \<Rightarrow> org_row) \<Rightarrow> registry \<Rightarrow> registry" where
  "set_org i f r = r\<lparr>rg_orgs := map (\<lambda>o1. if og_id o1 = i then f o1 else o1) (rg_orgs r)\<rparr>"

definition update_org :: "string \<Rightarrow> string option \<Rightarrow> string option \<Rightarrow> registry \<Rightarrow> org_reply \<times> registry" where
  "update_org slug new_slug new_name r =
     (case org_by_slug slug r of
        None \<Rightarrow> (OrgRefused OrgNotFound, r)
      | Some current \<Rightarrow>
          let next_slug = (case new_slug of None \<Rightarrow> og_slug current | Some s \<Rightarrow> s)
          in if \<not> is_org_slug next_slug then (OrgRefused InvalidSlug, r)
             else (case (case new_name of None \<Rightarrow> Some (og_name current) | Some n \<Rightarrow> clean_name n) of
                     None \<Rightarrow> (OrgRefused InvalidOrgName, r)
                   | Some next_name \<Rightarrow>
                       if (case org_by_slug next_slug r of None \<Rightarrow> False | Some holder \<Rightarrow> og_id holder \<noteq> og_id current)
                       then (OrgRefused SlugTaken, r)
                       else (OrgDone (current\<lparr>og_slug := next_slug, og_name := next_name\<rparr>),
                             set_org (og_id current) (\<lambda>o1. o1\<lparr>og_slug := next_slug, og_name := next_name\<rparr>) r)))"

text \<open>\<open>setRetention\<close>: a period that is named is \<^const>\<open>Some\<close>, one that is cleared is \<^term>\<open>Some None\<close>.\<close>

definition set_retention :: "string \<Rightarrow> int option option \<Rightarrow> int option option \<Rightarrow> registry \<Rightarrow> org_reply \<times> registry" where
  "set_retention i usage_days run_days r =
     (case org_by_id i r of
        None \<Rightarrow> (OrgRefused OrgNotFound, r)
      | Some current \<Rightarrow>
          if (case usage_days of None \<Rightarrow> False | Some d \<Rightarrow> \<not> valid_retention d) then (OrgRefused InvalidRetention, r)
          else if (case run_days of None \<Rightarrow> False | Some d \<Rightarrow> \<not> valid_retention d) then (OrgRefused InvalidRetention, r)
          else
            let usage = (case usage_days of None \<Rightarrow> og_usage_days current | Some d \<Rightarrow> d);
                run = (case run_days of None \<Rightarrow> og_run_days current | Some d \<Rightarrow> d)
            in (OrgDone (current\<lparr>og_usage_days := usage, og_run_days := run\<rparr>), set_org i (\<lambda>o1. o1\<lparr>og_usage_days := usage, og_run_days := run\<rparr>) r))"

definition set_usage_retention :: "string \<Rightarrow> int option \<Rightarrow> registry \<Rightarrow> org_reply \<times> registry" where
  "set_usage_retention i days r = set_retention i (Some days) None r"

datatype org_removal = OrgRemoved | GlobalStays | NoSuchOrg

definition delete_org :: "string \<Rightarrow> registry \<Rightarrow> org_removal \<times> registry" where
  "delete_org i r =
     (if i = global_org then (GlobalStays, r)
      else if org_by_id i r = None then (NoSuchOrg, r)
      else (OrgRemoved,
        r\<lparr>rg_members := filter (\<lambda>(_, org). org \<noteq> i) (rg_members r), rg_tokens := filter (\<lambda>(_, org). org \<noteq> i) (rg_tokens r),
          rg_people := map (\<lambda>p. if pe_personal_org p = Some i then p\<lparr>pe_personal_org := None\<rparr> else p) (rg_people r),
          rg_domains := filter (\<lambda>d. so_org d \<noteq> i) (rg_domains r), rg_orgs := filter (\<lambda>o1. og_id o1 \<noteq> i) (rg_orgs r)\<rparr>))"

definition remove_person :: "string \<Rightarrow> registry \<Rightarrow> nat \<times> registry" where
  "remove_person email r =
     (let address = normalize_email email
      in (length (filter (\<lambda>(e, _). e = address) (rg_members r)),
          r\<lparr>rg_members := filter (\<lambda>(e, _). e \<noteq> address) (rg_members r), rg_people := filter (\<lambda>p. pe_email p \<noteq> address) (rg_people r),
            rg_orgs := map (\<lambda>o1. if og_created_by o1 = Some address then o1\<lparr>og_created_by := None\<rparr> else o1) (rg_orgs r)\<rparr>))"

subsection \<open>The index\<close>

definition orgs_of_email :: "string \<Rightarrow> registry \<Rightarrow> org_row list" where
  "orgs_of_email email r = sort_key org_order (filter (\<lambda>o1. (normalize_email email, og_id o1) \<in> set (rg_members r)) (rg_orgs r))"

definition org_of_service_token :: "string \<Rightarrow> registry \<Rightarrow> org_row option" where
  "org_of_service_token client_id r =
     (case map_of (rg_tokens r) (js_trim client_id) of None \<Rightarrow> None | Some org \<Rightarrow> org_by_id org r)"

text \<open>\<open>INSERT OR IGNORE\<close> of the tokens, in order, collecting those another org holds.\<close>

fun index_tokens :: "string \<Rightarrow> string list \<Rightarrow> (string \<times> string) list \<Rightarrow> (string \<times> string) list \<times> string list" where
  "index_tokens org [] rows = (rows, [])"
| "index_tokens org (token # tokens) rows =
     (if map_of rows token \<noteq> None
      then (case index_tokens org tokens rows of (rows', conflicts) \<Rightarrow> (rows', token # conflicts))
      else index_tokens org tokens (rows @ [(token, org)]))"

record index_repair =
  ir_members :: nat
  ir_service_tokens :: nat
  ir_conflicts :: "string list"

definition replace_org_index :: "string \<Rightarrow> string list \<Rightarrow> string list \<Rightarrow> registry \<Rightarrow> index_repair option \<times> registry" where
  "replace_org_index org given_emails given_tokens r =
     (if org_by_id org r = None then (None, r)
      else
        let emails = js_set (filter (\<lambda>e. e \<noteq> []) (map normalize_email given_emails));
            tokens = js_set (filter (\<lambda>t. t \<noteq> []) (map js_trim given_tokens));
            (rows, conflicts) = index_tokens org tokens (filter (\<lambda>(_, o1). o1 \<noteq> org) (rg_tokens r))
        in (Some \<lparr>ir_members = length emails, ir_service_tokens = length tokens - length conflicts, ir_conflicts = conflicts\<rparr>,
            r\<lparr>rg_members := filter (\<lambda>(_, o1). o1 \<noteq> org) (rg_members r) @ map (\<lambda>e. (e, org)) emails, rg_tokens := rows\<rparr>))"

definition emails_of_org :: "string \<Rightarrow> registry \<Rightarrow> string list" where
  "emails_of_org org r = sort (map fst (filter (\<lambda>(_, o1). o1 = org) (rg_members r)))"

subsection \<open>People\<close>

definition empty_person :: "string \<Rightarrow> person_row" where
  "empty_person email = \<lparr>pe_email = email, pe_signed_up_at = None, pe_personal_org = None, pe_org_limit = None, pe_suspended_at = None\<rparr>"

text \<open>\<open>INSERT ... ON CONFLICT (email) DO UPDATE\<close> on the people.\<close>

definition upsert_person :: "string \<Rightarrow> (person_row \<Rightarrow> person_row) \<Rightarrow> registry \<Rightarrow> registry" where
  "upsert_person email f r =
     r\<lparr>rg_people := (if person_of email r = None then rg_people r @ [f (empty_person email)]
                     else map (\<lambda>p. if pe_email p = email then f p else p) (rg_people r))\<rparr>"

definition finish_sign_up :: "string \<Rightarrow> ms \<Rightarrow> registry \<Rightarrow> registry" where
  "finish_sign_up email now r =
     upsert_person (normalize_email email)
       (\<lambda>p. p\<lparr>pe_signed_up_at := (case pe_signed_up_at p of None \<Rightarrow> Some now | Some t \<Rightarrow> Some t)\<rparr>) r"

datatype sign_in_state = SignInSuspended | SignInReady | SignInPersonal org_row

text \<open>\<open>signIn\<close>: a slug is drawn until one is free; \<^const>\<open>None\<close> when the draws run out or the new id is taken.\<close>

definition sign_in :: "string list \<Rightarrow> string \<Rightarrow> string \<Rightarrow> ms \<Rightarrow> registry \<Rightarrow> (sign_in_state \<times> registry) option" where
  "sign_in slug_draws id_draw email now r =
     (let address = normalize_email email; person = person_of address r
      in if person \<noteq> None \<and> pe_suspended_at (the person) \<noteq> None then Some (SignInSuspended, r)
         else if person \<noteq> None \<and> pe_signed_up_at (the person) \<noteq> None then Some (SignInReady, r)
         else (case (case person of None \<Rightarrow> None | Some p \<Rightarrow> (case pe_personal_org p of None \<Rightarrow> None | Some i \<Rightarrow> org_by_id i r)) of
                 Some pending \<Rightarrow> Some (SignInPersonal pending, r)
               | None \<Rightarrow>
                   if orgs_of_email address r \<noteq> [] then Some (SignInReady, finish_sign_up address now r)
                   else (case dropWhile (\<lambda>d. org_by_slug (''personal-'' @ d) r \<noteq> None) slug_draws of
                           [] \<Rightarrow> None
                         | d # _ \<Rightarrow>
                             let row = fresh_org (new_org_id id_draw) (''personal-'' @ d) personal_org_name now (Some address)
                             in (case insert_org row r of
                                   None \<Rightarrow> None
                                 | Some r1 \<Rightarrow>
                                     Some (SignInPersonal row, upsert_person address (\<lambda>p. p\<lparr>pe_personal_org := Some (og_id row)\<rparr>) r1)))))"

record person_record =
  pr_email :: string
  pr_signed_up_at :: "ms option"
  pr_org_limit :: int
  pr_org_limit_set :: bool
  pr_owned_orgs :: nat
  pr_suspended_at :: "ms option"

definition person_view :: "string \<Rightarrow> int \<Rightarrow> registry \<Rightarrow> person_record" where
  "person_view email default_limit r =
     (let address = normalize_email email; row = person_of address r
      in \<lparr>pr_email = address, pr_signed_up_at = (case row of None \<Rightarrow> None | Some p \<Rightarrow> pe_signed_up_at p), pr_org_limit = org_limit address default_limit r,
          pr_org_limit_set = (case row of None \<Rightarrow> False | Some p \<Rightarrow> pe_org_limit p \<noteq> None), pr_owned_orgs = owned_orgs address r,
          pr_suspended_at = (case row of None \<Rightarrow> None | Some p \<Rightarrow> pe_suspended_at p)\<rparr>)"

definition suspend_at :: "bool \<Rightarrow> ms \<Rightarrow> ms option \<Rightarrow> ms option" where
  "suspend_at suspended now current = (if suspended then (case current of None \<Rightarrow> Some now | Some t \<Rightarrow> Some t) else None)"

definition update_person :: "string \<Rightarrow> int option option \<Rightarrow> bool option \<Rightarrow> ms \<Rightarrow> registry \<Rightarrow> registry" where
  "update_person email limit suspended now r =
     upsert_person (normalize_email email)
       (\<lambda>p. let p = (case limit of None \<Rightarrow> p | Some l \<Rightarrow> p\<lparr>pe_org_limit := l\<rparr>)
            in (case suspended of None \<Rightarrow> p | Some b \<Rightarrow> p\<lparr>pe_suspended_at := suspend_at b now (pe_suspended_at p)\<rparr>)) r"

definition set_org_suspended :: "string \<Rightarrow> bool \<Rightarrow> ms \<Rightarrow> registry \<Rightarrow> org_reply \<times> registry" where
  "set_org_suspended slug suspended now r =
     (case org_by_slug slug r of
        None \<Rightarrow> (OrgRefused OrgNotFound, r)
      | Some current \<Rightarrow>
          (OrgDone (current\<lparr>og_suspended_at := suspend_at suspended now (og_suspended_at current)\<rparr>),
           set_org (og_id current) (\<lambda>o1. o1\<lparr>og_suspended_at := suspend_at suspended now (og_suspended_at o1)\<rparr>) r))"

datatype org_standing = OrgActive | OrgSuspended | OrgMissing

datatype person_standing = PersonActive | PersonSuspended

definition standing :: "string \<Rightarrow> string option \<Rightarrow> registry \<Rightarrow> org_standing \<times> person_standing" where
  "standing org email r =
     ((case org_by_id org r of None \<Rightarrow> OrgMissing | Some o1 \<Rightarrow> if og_suspended_at o1 = None then OrgActive else OrgSuspended),
      (case email of
         None \<Rightarrow> PersonActive
       | Some e \<Rightarrow> (case person_of (normalize_email e) r of None \<Rightarrow> PersonActive
           | Some p \<Rightarrow> if pe_suspended_at p = None then PersonActive else PersonSuspended)))"

subsection \<open>Single sign-on domains\<close>

datatype domain_claim = DomainClaimed | DomainTaken | ClaimNotFound

definition sso_domain :: "string \<Rightarrow> registry \<Rightarrow> sso_row option" where
  "sso_domain domain r = find (\<lambda>d. so_domain d = domain) (rg_domains r)"

definition claim_sso_domain :: "string \<Rightarrow> string \<Rightarrow> registry \<Rightarrow> domain_claim \<times> registry" where
  "claim_sso_domain domain org r =
     (if org_by_id org r = None then (ClaimNotFound, r)
      else (case sso_domain domain r of
              Some holder \<Rightarrow> if so_org holder \<noteq> org then (DomainTaken, r) else (DomainClaimed, r)
            | None \<Rightarrow> (DomainClaimed, r\<lparr>rg_domains := rg_domains r @ [\<lparr>so_domain = domain, so_org = org, so_required = False\<rparr>]\<rparr>)))"

definition release_sso_domain :: "string \<Rightarrow> string \<Rightarrow> registry \<Rightarrow> registry" where
  "release_sso_domain domain org r = r\<lparr>rg_domains := filter (\<lambda>d. \<not> (so_domain d = domain \<and> so_org d = org)) (rg_domains r)\<rparr>"

definition set_sso_domain_required :: "string \<Rightarrow> string \<Rightarrow> bool \<Rightarrow> registry \<Rightarrow> bool \<times> registry" where
  "set_sso_domain_required domain org required r =
     (list_ex (\<lambda>d. so_domain d = domain \<and> so_org d = org) (rg_domains r),
      r\<lparr>rg_domains := map (\<lambda>d. if so_domain d = domain \<and> so_org d = org then d\<lparr>so_required := required\<rparr> else d) (rg_domains r)\<rparr>)"

definition sso_domains_of :: "string \<Rightarrow> registry \<Rightarrow> string list" where
  "sso_domains_of org r = sort (map so_domain (filter (\<lambda>d. so_org d = org) (rg_domains r)))"

end
