(* ===== verification/Members_Invariant.thy ===== *)
theory Members_Invariant
  imports Members
begin

text \<open>
  The calls of the members store as data, and the invariant every one of them keeps: the UNIQUE and PRIMARY KEY
  constraints of the tables, emails that are valid and in lower case, roles that are roles, team names that are clean, and
  links between teams and members that exist.
\<close>

datatype member_call =
  SeedCall "string list" "string list" ms
| AdmitCall "string list" principal_ref bool ms
| SsoCall "string list" string ms
| SettingsCall "bool option" "bool option" "bool option" "bool option"
| AddCall "string list" string string actor string ms
| RoleCall string string actor
| RemoveCall string actor ms
| LeaveCall string
| CreateTeamCall string string ms
| RenameTeamCall string string
| DeleteTeamCall string
| AddTeamMemberCall string string
| RemoveTeamMemberCall string string
| RegisterTokenCall string "string option" string actor string ms
| TokenRoleCall string string actor
| RemoveTokenCall string actor ms
| WithdrawTokenCall string
| MarkSyncedCall int

definition set_if :: "(bool \<Rightarrow> member_store \<Rightarrow> member_store) \<Rightarrow> bool option \<Rightarrow> member_store \<Rightarrow> member_store" where
  "set_if f v s = (case v of None \<Rightarrow> s | Some b \<Rightarrow> f b s)"

fun member_run :: "member_call \<Rightarrow> member_store \<Rightarrow> member_store" where
  "member_run (SeedCall emails draws now) s = snd (seed_platform_admins emails draws now s)"
| "member_run (AdmitCall draws who auto_join now) s = snd (admit draws who auto_join now s)"
| "member_run (SsoCall draws email now) s = snd (join_through_sso draws email now s)"
| "member_run (SettingsCall a c t g) s =
     set_if set_private_agents g (set_if set_private_toolkits t (set_if set_private_credentials c (set_if set_auto_join a s)))"
| "member_run (AddCall draws email role actor added_by now) s = snd (add_member draws email role actor added_by now s)"
| "member_run (RoleCall i role actor) s = snd (set_member_role i role actor s)"
| "member_run (RemoveCall i actor now) s = snd (remove_member i actor now s)"
| "member_run (LeaveCall email) s = snd (leave_org email s)"
| "member_run (CreateTeamCall draw name now) s = snd (create_team draw name now s)"
| "member_run (RenameTeamCall i name) s = snd (rename_team i name s)"
| "member_run (DeleteTeamCall i) s = snd (delete_team i s)"
| "member_run (AddTeamMemberCall team member) s = snd (add_team_member team member s)"
| "member_run (RemoveTeamMemberCall team member) s = snd (remove_team_member team member s)"
| "member_run (RegisterTokenCall c name role actor added_by now) s = snd (register_token c name role actor added_by now s)"
| "member_run (TokenRoleCall c role actor) s = snd (set_token_role c role actor s)"
| "member_run (RemoveTokenCall c actor now) s = snd (remove_token c actor now s)"
| "member_run (WithdrawTokenCall c) s = withdraw_token c s"
| "member_run (MarkSyncedCall n) s = mark_index_synced n s"

definition member_rows_ok :: "member_row list \<Rightarrow> bool" where
  "member_rows_ok rows \<longleftrightarrow> distinct (map mb_id rows) \<and> distinct (map mb_email rows) \<and>
     list_all (\<lambda>m. valid_email (mb_email m) \<and> js_lower (mb_email m) = mb_email m \<and> is_org_role (mb_role m)) rows"

definition team_rows_ok :: "team_row list \<Rightarrow> bool" where
  "team_rows_ok rows \<longleftrightarrow> distinct (map tm_id rows) \<and> distinct (map tm_name_key rows) \<and>
     list_all (\<lambda>t. clean_name (tm_name t) = Some (tm_name t) \<and> tm_name_key t = js_lower (tm_name t)) rows"

definition link_rows_ok :: "team_row list \<Rightarrow> member_row list \<Rightarrow> (string \<times> string) list \<Rightarrow> bool" where
  "link_rows_ok teams members links \<longleftrightarrow> distinct links \<and>
     list_all (\<lambda>(t, m). t \<in> set (map tm_id teams) \<and> m \<in> set (map mb_id members)) links"

definition token_rows_ok :: "token_row list \<Rightarrow> bool" where
  "token_rows_ok rows \<longleftrightarrow> distinct (map tk_client_id rows) \<and> list_all (\<lambda>t. valid_client_id (tk_client_id t) \<and> is_org_role (tk_role t)) rows"

definition members_ok :: "member_store \<Rightarrow> bool" where
  "members_ok s \<longleftrightarrow> member_rows_ok (ms_members s) \<and> team_rows_ok (ms_teams s) \<and> link_rows_ok (ms_teams s) (ms_members s) (ms_links s) \<and>
     token_rows_ok (ms_tokens s) \<and> distinct (map fst (ms_removed s))"

subsection \<open>Rows found\<close>

lemma find_map_None: "find (\<lambda>x. f x = k) xs = None \<longleftrightarrow> k \<notin> set (map f xs)"
  by (auto simp: find_None_iff)

lemma find_key_Some: "find (\<lambda>x. f x = k) xs = Some x \<Longrightarrow> x \<in> set xs \<and> f x = k"
  by (auto simp: find_Some_iff)

lemma find_key_unique: "distinct (map f xs) \<Longrightarrow> x \<in> set xs \<Longrightarrow> find (\<lambda>y. f y = f x) xs = Some x"
  by (induction xs) (auto simp: image_iff)

lemmas row_lookups = member_by_id_def member_by_email_def team_row_of_def team_by_name_def token_of_def

subsection \<open>Frames of the primitive writes\<close>

lemma changed_fields [simp]:
  "ms_members (changed s) = ms_members s" "ms_teams (changed s) = ms_teams s" "ms_links (changed s) = ms_links s"
  "ms_tokens (changed s) = ms_tokens s" "ms_removed (changed s) = ms_removed s" "ms_global (changed s) = ms_global s"
  "mr_counter (ms_state (changed s)) = mr_counter (ms_state s) + 1" "mr_index_synced (ms_state (changed s)) = mr_index_synced (ms_state s)"
  "mr_admins_migrated (ms_state (changed s)) = mr_admins_migrated (ms_state s)"
  by (simp_all add: changed_def)

lemma tombstone_fields [simp]:
  "ms_members (tombstone p n s) = ms_members s" "ms_teams (tombstone p n s) = ms_teams s" "ms_links (tombstone p n s) = ms_links s"
  "ms_tokens (tombstone p n s) = ms_tokens s" "ms_state (tombstone p n s) = ms_state s" "ms_global (tombstone p n s) = ms_global s"
  "ms_removed (tombstone p n s) = AList.update p n (ms_removed s)"
  by (simp_all add: tombstone_def)

lemma restore_fields [simp]:
  "ms_members (restore_principal p s) = ms_members s" "ms_teams (restore_principal p s) = ms_teams s" "ms_links (restore_principal p s) = ms_links s"
  "ms_tokens (restore_principal p s) = ms_tokens s" "ms_state (restore_principal p s) = ms_state s" "ms_global (restore_principal p s) = ms_global s"
  "ms_removed (restore_principal p s) = AList.delete p (ms_removed s)"
  by (simp_all add: restore_principal_def)

lemma delete_member_fields [simp]:
  "ms_members (delete_member i s) = filter (\<lambda>m. mb_id m \<noteq> i) (ms_members s)" "ms_teams (delete_member i s) = ms_teams s"
  "ms_links (delete_member i s) = filter (\<lambda>(_, m). m \<noteq> i) (ms_links s)" "ms_tokens (delete_member i s) = ms_tokens s"
  "ms_state (delete_member i s) = ms_state s" "ms_removed (delete_member i s) = ms_removed s" "ms_global (delete_member i s) = ms_global s"
  by (simp_all add: delete_member_def)

lemma set_member_fields [simp]:
  "ms_members (set_member i r s) = map (\<lambda>m. if mb_id m = i then m\<lparr>mb_role := r\<rparr> else m) (ms_members s)" "ms_teams (set_member i r s) = ms_teams s"
  "ms_links (set_member i r s) = ms_links s" "ms_tokens (set_member i r s) = ms_tokens s"
  "ms_state (set_member i r s) = ms_state s" "ms_removed (set_member i r s) = ms_removed s" "ms_global (set_member i r s) = ms_global s"
  by (simp_all add: set_member_def)

definition role_text :: "org_role \<Rightarrow> string" where
  "role_text r = (case r of RoleOwner \<Rightarrow> ''owner'' | RoleAdmin \<Rightarrow> ''admin'' | RoleMember \<Rightarrow> ''member'')"

lemma parse_role_text [simp]: "parse_role (role_text r) = Some r" "is_org_role (role_text r)"
  by (cases r; simp add: role_text_def parse_role_def is_org_role_def)+

lemma parse_role_Some: "parse_role s = Some r \<longleftrightarrow> s = role_text r"
  by (cases r) (auto simp: parse_role_def role_text_def)

lemma insert_member_Some:
  assumes "insert_member draws email granted now added_by s = Some (i, rest, s1)"
  shows "i \<notin> set (map mb_id (ms_members s))" "email \<notin> set (map mb_email (ms_members s))"
    "s1 = s\<lparr>ms_members := ms_members s @ [\<lparr>mb_id = i, mb_email = email, mb_role = role_text granted, mb_added_at = now, mb_added_by = added_by\<rparr>]\<rparr>"
proof -
  obtain d where d: "dropWhile (\<lambda>d. member_by_id (''mem-'' @ d) s \<noteq> None) draws = d # rest" and i: "i = ''mem-'' @ d"
    and email: "member_by_email email s = None"
    and s1: "s1 = s\<lparr>ms_members := ms_members s @ [\<lparr>mb_id = i, mb_email = email, mb_role = role_text granted, mb_added_at = now, mb_added_by = added_by\<rparr>]\<rparr>"
    using assms by (auto simp: insert_member_def role_text_def split: list.splits if_splits)
  have "member_by_id i s = None" using d unfolding dropWhile_eq_Cons_conv i by blast
  then show "i \<notin> set (map mb_id (ms_members s))" "email \<notin> set (map mb_email (ms_members s))"
    "s1 = s\<lparr>ms_members := ms_members s @ [\<lparr>mb_id = i, mb_email = email, mb_role = role_text granted, mb_added_at = now, mb_added_by = added_by\<rparr>]\<rparr>"
    using email s1 by (simp_all add: row_lookups find_map_None)
qed

lemma js_lower_idem [simp]: "js_lower (js_lower s) = js_lower s"
proof -
  have "lower_char (lower_char c) = lower_char c" for c
    by (auto simp: lower_char_def Let_def)
  then show ?thesis by (simp add: js_lower_def comp_def)
qed

lemma normalize_lower [simp]: "js_lower (normalize_email e) = normalize_email e"
  by (simp add: normalize_email_def)

subsection \<open>Every call keeps the invariant\<close>

lemma members_ok_cong:
  "members_ok s \<Longrightarrow> ms_members s1 = ms_members s \<Longrightarrow> ms_teams s1 = ms_teams s \<Longrightarrow> ms_links s1 = ms_links s \<Longrightarrow>
   ms_tokens s1 = ms_tokens s \<Longrightarrow> ms_removed s1 = ms_removed s \<Longrightarrow> members_ok s1"
  by (simp add: members_ok_def)

lemma members_ok_changed [simp]: "members_ok (changed s) \<longleftrightarrow> members_ok s"
  by (simp add: members_ok_def)

lemma members_ok_state [simp]: "members_ok (s\<lparr>ms_state := x\<rparr>) \<longleftrightarrow> members_ok s"
  by (simp add: members_ok_def)

lemma members_ok_tombstone [simp]: "members_ok s \<Longrightarrow> members_ok (tombstone p n s)"
  by (simp add: members_ok_def distinct_update)

lemma members_ok_restore [simp]: "members_ok s \<Longrightarrow> members_ok (restore_principal p s)"
  by (simp add: members_ok_def distinct_delete)

lemma members_ok_insert:
  assumes "members_ok s" "insert_member draws email granted now added_by s = Some (i, rest, s1)" "valid_email email" "js_lower email = email"
  shows "members_ok s1"
  using assms(1,3,4) insert_member_Some [OF assms(2)]
  by (auto simp: members_ok_def member_rows_ok_def link_rows_ok_def list_all_iff)

lemma members_ok_set_member: "members_ok s \<Longrightarrow> is_org_role r \<Longrightarrow> members_ok (set_member i r s)"
proof -
  have same: "map mb_id (map (\<lambda>m. if mb_id m = i then m\<lparr>mb_role := r\<rparr> else m) ms) = map mb_id ms"
    "map mb_email (map (\<lambda>m. if mb_id m = i then m\<lparr>mb_role := r\<rparr> else m) ms) = map mb_email ms" for ms
    by simp_all
  show "members_ok s \<Longrightarrow> is_org_role r \<Longrightarrow> members_ok (set_member i r s)"
    unfolding members_ok_def member_rows_ok_def link_rows_ok_def set_member_fields same by (auto simp: list_all_iff)
qed

lemma distinct_map_filter_rows: "distinct (map f xs) \<Longrightarrow> distinct (map f (filter P xs))"
  by (simp add: distinct_map_filter)

lemma members_ok_delete: "members_ok s \<Longrightarrow> members_ok (delete_member i s)"
  by (auto simp: members_ok_def member_rows_ok_def link_rows_ok_def list_all_iff distinct_map_filter_rows)

lemma members_ok_seed_each:
  "members_ok s \<Longrightarrow> list_all (\<lambda>e. js_lower e = e) emails \<Longrightarrow> seed_each emails draws now s = Some s1 \<Longrightarrow> members_ok s1"
proof (induction emails draws now s arbitrary: s1 rule: seed_each.induct)
  case (2 email emails draws now s)
  have low: "js_lower email = email" "list_all (\<lambda>e. js_lower e = e) emails" using 2(5) by simp_all
  show ?case
  proof (cases "valid_email email")
    case False
    then show ?thesis using 2(1) [OF _ 2(4) low(2)] 2(6) by simp
  next
    case True
    show ?thesis
    proof (cases "member_by_email email s")
      case None
      then obtain i rest s2 where ins: "insert_member draws email RoleOwner now platform_admin_seed_actor s = Some (i, rest, s2)"
        and run: "seed_each emails rest now s2 = Some s1"
        using 2(6) True by (auto split: option.splits)
      show ?thesis
        using 2(2) [OF _ None ins refl refl members_ok_insert [OF 2(4) ins True low(1)] low(2) run] True by simp
    next
      case (Some m)
      then show ?thesis
        using 2(3) [OF _ Some members_ok_set_member [OF 2(4)] low(2)] 2(6) True by (simp add: is_org_role_texts)
    qed
  qed
qed simp

lemma members_ok_join:
  "members_ok s \<Longrightarrow> valid_email email \<Longrightarrow> js_lower email = email \<Longrightarrow> members_ok (snd (join_member draws email now added_by s))"
  by (auto simp: join_member_def intro: members_ok_insert split: option.splits)

lemma members_ok_admit: "members_ok s \<Longrightarrow> members_ok (snd (admit draws who auto_join now s))"
  by (auto simp: admit_def Let_def members_ok_join split: principal_ref.splits option.splits if_splits)

lemma members_ok_sso: "members_ok s \<Longrightarrow> members_ok (snd (join_through_sso draws email now s))"
  by (auto simp: join_through_sso_def Let_def members_ok_join split: option.splits)

lemma members_ok_seed: "members_ok s \<Longrightarrow> members_ok (snd (seed_platform_admins emails draws now s))"
  by (auto simp: seed_platform_admins_def list_all_iff split: option.splits if_splits dest!: members_ok_seed_each [rotated 2])

lemma members_ok_add: "members_ok s \<Longrightarrow> members_ok (snd (add_member draws email role actor added_by now s))"
  by (auto simp: add_member_def Let_def intro!: members_ok_restore intro: members_ok_insert split: option.splits)

lemma members_ok_role: "members_ok s \<Longrightarrow> members_ok (snd (set_member_role i role actor s))"
  by (auto simp: set_member_role_def Let_def members_ok_set_member split: option.splits)

lemma members_ok_remove: "members_ok s \<Longrightarrow> members_ok (snd (remove_member i actor now s))"
  by (auto simp: remove_member_def Let_def members_ok_delete split: option.splits)

lemma members_ok_leave: "members_ok s \<Longrightarrow> members_ok (snd (leave_org email s))"
  by (auto simp: leave_org_def members_ok_delete split: option.splits)

lemma members_ok_settings: "members_ok s \<Longrightarrow> members_ok (member_run (SettingsCall a c t g) s)"
  by (simp add: set_if_def set_auto_join_def set_private_credentials_def set_private_toolkits_def set_private_agents_def members_ok_def split: option.split)

subsection \<open>Teams and tokens\<close>

lemma clean_name_idem: "clean_name name = Some clean \<Longrightarrow> clean_name clean = Some clean"
  by (auto simp: clean_name_def Let_def split: if_splits)

lemma members_ok_teams:
  "members_ok s \<Longrightarrow> team_rows_ok ts \<Longrightarrow> link_rows_ok ts (ms_members s) ls \<Longrightarrow> members_ok (s\<lparr>ms_teams := ts, ms_links := ls\<rparr>)"
  "members_ok s \<Longrightarrow> team_rows_ok ts \<Longrightarrow> link_rows_ok ts (ms_members s) (ms_links s) \<Longrightarrow> members_ok (s\<lparr>ms_teams := ts\<rparr>)"
  "members_ok s \<Longrightarrow> link_rows_ok (ms_teams s) (ms_members s) ls \<Longrightarrow> members_ok (s\<lparr>ms_links := ls\<rparr>)"
  "members_ok s \<Longrightarrow> token_rows_ok tks \<Longrightarrow> members_ok (s\<lparr>ms_tokens := tks\<rparr>)"
  by (simp_all add: members_ok_def)

lemma members_okD:
  "members_ok s \<Longrightarrow> member_rows_ok (ms_members s)" "members_ok s \<Longrightarrow> team_rows_ok (ms_teams s)"
  "members_ok s \<Longrightarrow> link_rows_ok (ms_teams s) (ms_members s) (ms_links s)" "members_ok s \<Longrightarrow> token_rows_ok (ms_tokens s)"
  by (simp_all add: members_ok_def)

lemma members_ok_create_team: "members_ok s \<Longrightarrow> members_ok (snd (create_team draw name now s))"
proof -
  assume ok: "members_ok s"
  let ?row = "\<lambda>clean. \<lparr>tm_id = ''team-'' @ draw, tm_name = clean, tm_name_key = js_lower clean, tm_created_at = now\<rparr>"
  have "members_ok (s\<lparr>ms_teams := ms_teams s @ [?row clean]\<rparr>)"
    if "clean_name name = Some clean" "team_by_name clean s = None" "team_row_of (''team-'' @ draw) s = None" for clean
  proof (rule members_ok_teams(2) [OF ok])
    show "team_rows_ok (ms_teams s @ [?row clean])"
      using members_okD(2) [OF ok] that(2,3) clean_name_idem [OF that(1)]
      by (simp add: team_rows_ok_def row_lookups find_map_None del: set_map)
    show "link_rows_ok (ms_teams s @ [?row clean]) (ms_members s) (ms_links s)"
      using members_okD(3) [OF ok] by (auto simp: link_rows_ok_def list_all_iff)
  qed
  then show ?thesis using ok by (auto simp: create_team_def Let_def split: option.splits)
qed

lemma members_ok_rename_team: "members_ok s \<Longrightarrow> members_ok (snd (rename_team i name s))"
proof -
  assume ok: "members_ok s"
  let ?rows = "\<lambda>clean. map (\<lambda>t. if tm_id t = i then t\<lparr>tm_name := clean, tm_name_key := js_lower clean\<rparr> else t) (ms_teams s)"
  have "members_ok (s\<lparr>ms_teams := ?rows clean\<rparr>)"
    if clean: "clean_name name = Some clean" and free: "\<not> (case team_by_name clean s of None \<Rightarrow> False | Some holder \<Rightarrow> tm_id holder \<noteq> i)" for clean
  proof (rule members_ok_teams(2) [OF ok])
    have ids: "map tm_id (?rows clean) = map tm_id (ms_teams s)" by simp
    have other: "tm_name_key t \<noteq> js_lower clean" if t: "t \<in> set (ms_teams s)" "tm_id t \<noteq> i" for t
    proof
      assume k: "tm_name_key t = js_lower clean"
      have "find (\<lambda>t. tm_name_key t = js_lower clean) (ms_teams s) = Some t"
        using find_key_unique [of tm_name_key "ms_teams s" t] members_okD(2) [OF ok] t(1) k by (simp add: team_rows_ok_def)
      then show False using free t(2) by (simp add: team_by_name_def)
    qed
    have "distinct (map tm_name_key (map (\<lambda>t. if tm_id t = i then t\<lparr>tm_name := clean, tm_name_key := js_lower clean\<rparr> else t) ts))"
      if "distinct (map tm_id ts)" "distinct (map tm_name_key ts)" "set ts \<subseteq> set (ms_teams s)" for ts
      using that
    proof (induction ts)
      case (Cons t ts)
      then show ?case using other by (auto simp: image_iff) (metis subsetD)
    qed simp
    then show "team_rows_ok (?rows clean)"
      using members_okD(2) [OF ok] clean_name_idem [OF clean] unfolding team_rows_ok_def ids by (auto simp: list_all_iff)
    show "link_rows_ok (?rows clean) (ms_members s) (ms_links s)"
      using members_okD(3) [OF ok] unfolding link_rows_ok_def ids .
  qed
  then show ?thesis using ok by (auto simp: rename_team_def Let_def split: option.splits)
qed

lemma members_ok_delete_team: "members_ok s \<Longrightarrow> members_ok (snd (delete_team i s))"
  by (auto simp: delete_team_def members_ok_def team_rows_ok_def link_rows_ok_def list_all_iff distinct_map_filter_rows)

lemma members_ok_links: "members_ok s \<Longrightarrow> members_ok (snd (add_team_member team member s)) \<and> members_ok (snd (remove_team_member team member s))"
  by (auto simp: add_team_member_def remove_team_member_def Let_def members_ok_def link_rows_ok_def list_all_iff row_lookups find_map_None
      find_None_iff)

lemma members_ok_register: "members_ok s \<Longrightarrow> members_ok (snd (register_token c name role actor added_by now s))"
proof -
  assume ok: "members_ok s"
  have "members_ok (s\<lparr>ms_tokens := ms_tokens s @ [\<lparr>tk_client_id = js_trim c, tk_name = shown, tk_role = role, tk_added_at = now, tk_added_by = added_by\<rparr>]\<rparr>)"
    if "valid_client_id (js_trim c)" "parse_role role = Some granted" "token_of (js_trim c) s = None" for shown granted
    using members_okD(4) [OF ok] that
    by (intro members_ok_teams(4) [OF ok]) (simp add: token_rows_ok_def row_lookups find_map_None is_org_role_def del: set_map)
  then show ?thesis using ok by (auto simp: register_token_def Let_def split: option.splits)
qed

lemma members_ok_token_role: "members_ok s \<Longrightarrow> members_ok (snd (set_token_role c role actor s))"
proof -
  assume ok: "members_ok s"
  let ?rows = "map (\<lambda>t. if tk_client_id t = js_trim c then t\<lparr>tk_role := role\<rparr> else t) (ms_tokens s)"
  have ids: "map tk_client_id ?rows = map tk_client_id (ms_tokens s)" by simp
  have "members_ok (s\<lparr>ms_tokens := ?rows\<rparr>)" if "is_org_role role"
    using members_okD(4) [OF ok] that by (intro members_ok_teams(4) [OF ok]) (unfold token_rows_ok_def ids, auto simp: list_all_iff)
  then show ?thesis using ok by (auto simp: set_token_role_def Let_def is_org_role_def split: option.splits)
qed

lemma members_ok_remove_token: "members_ok s \<Longrightarrow> members_ok (snd (remove_token c actor now s)) \<and> members_ok (withdraw_token c s)"
proof -
  assume ok: "members_ok s"
  have "members_ok (s\<lparr>ms_tokens := filter P (ms_tokens s)\<rparr>)" for P
    using members_okD(4) [OF ok] by (intro members_ok_teams(4) [OF ok]) (auto simp: token_rows_ok_def distinct_map_filter_rows list_all_iff)
  then show ?thesis using ok by (auto simp: remove_token_def withdraw_token_def Let_def split: option.splits)
qed

lemma members_ok_new: "members_ok (new_member_store global auto)"
  by (simp add: new_member_store_def members_ok_def member_rows_ok_def team_rows_ok_def link_rows_ok_def token_rows_ok_def)

lemma members_ok_run: "members_ok s \<Longrightarrow> members_ok (member_run call s)"
proof (cases call)
  case (SettingsCall a c t g)
  then show "members_ok s \<Longrightarrow> members_ok (member_run call s)" using members_ok_settings by blast
qed (simp_all add: members_ok_seed members_ok_admit members_ok_sso members_ok_add members_ok_role members_ok_remove members_ok_leave
    members_ok_create_team members_ok_rename_team members_ok_delete_team members_ok_links members_ok_register members_ok_token_role
    members_ok_remove_token mark_index_synced_def)

end
