(* ===== verification/Registry_Properties.thy ===== *)
theory Registry_Properties
  imports Platform_Registry Members_Invariant
begin

text \<open>
  What the Platform registry promises: sound tables, the org \<open>global\<close> always there, tokens and domains that stay with the org
  that holds them, and one Personal org per person.
\<close>

datatype registry_call =
  CreateOrgCall string string string "string option" "(string \<times> int) option" ms
| UpdateOrgCall string "string option" "string option"
| RetentionCall string "int option option" "int option option"
| DeleteOrgCall string
| RemovePersonCall string
| ReplaceIndexCall string "string list" "string list"
| SignInCall "string list" string string ms
| FinishSignUpCall string ms
| UpdatePersonCall string "int option option" "bool option" ms
| SuspendOrgCall string bool ms
| ClaimDomainCall string string
| ReleaseDomainCall string string
| RequireDomainCall string string bool

fun registry_run :: "registry_call \<Rightarrow> registry \<Rightarrow> registry" where
  "registry_run (CreateOrgCall draw slug name i by now) r = snd (create_org draw slug name i by now r)"
| "registry_run (UpdateOrgCall slug s n) r = snd (update_org slug s n r)"
| "registry_run (RetentionCall i u d) r = snd (set_retention i u d r)"
| "registry_run (DeleteOrgCall i) r = snd (delete_org i r)"
| "registry_run (RemovePersonCall e) r = snd (remove_person e r)"
| "registry_run (ReplaceIndexCall org es ts) r = snd (replace_org_index org es ts r)"
| "registry_run (SignInCall ds d e now) r = (case sign_in ds d e now r of None \<Rightarrow> r | Some (_, r1) \<Rightarrow> r1)"
| "registry_run (FinishSignUpCall e now) r = finish_sign_up e now r"
| "registry_run (UpdatePersonCall e l b now) r = update_person e l b now r"
| "registry_run (SuspendOrgCall slug b now) r = snd (set_org_suspended slug b now r)"
| "registry_run (ClaimDomainCall d org) r = snd (claim_sso_domain d org r)"
| "registry_run (ReleaseDomainCall d org) r = release_sso_domain d org r"
| "registry_run (RequireDomainCall d org b) r = snd (set_sso_domain_required d org b r)"

definition org_ids :: "registry \<Rightarrow> string list" where
  "org_ids r = map og_id (rg_orgs r)"

definition orgs_ok :: "registry \<Rightarrow> bool" where
  "orgs_ok r \<longleftrightarrow> distinct (org_ids r) \<and> distinct (map og_slug (rg_orgs r)) \<and> list_all (\<lambda>o1. is_org_slug (og_slug o1)) (rg_orgs r) \<and>
     global_org \<in> set (org_ids r)"

definition registry_index_ok :: "registry \<Rightarrow> bool" where
  "registry_index_ok r \<longleftrightarrow> distinct (rg_members r) \<and> distinct (map fst (rg_tokens r)) \<and> distinct (map so_domain (rg_domains r)) \<and>
     snd ` set (rg_members r) \<subseteq> set (org_ids r) \<and> snd ` set (rg_tokens r) \<subseteq> set (org_ids r) \<and> so_org ` set (rg_domains r) \<subseteq> set (org_ids r)"

definition people_ok :: "registry \<Rightarrow> bool" where
  "people_ok r \<longleftrightarrow> distinct (map pe_email (rg_people r)) \<and>
     (\<forall>p \<in> set (rg_people r). case pe_personal_org p of None \<Rightarrow> True | Some i \<Rightarrow> i \<in> set (org_ids r))"

definition registry_ok :: "registry \<Rightarrow> bool" where
  "registry_ok r \<longleftrightarrow> orgs_ok r \<and> registry_index_ok r \<and> people_ok r"

subsection \<open>Orgs\<close>

lemma org_lookup: "org_by_id i r = None \<longleftrightarrow> i \<notin> set (org_ids r)" "org_by_slug s r = None \<longleftrightarrow> s \<notin> set (map og_slug (rg_orgs r))"
  by (simp_all add: org_by_id_def org_by_slug_def org_ids_def find_map_None del: set_map)

lemma org_ids_update [simp]:
  "org_ids (r\<lparr>rg_members := m\<rparr>) = org_ids r" "org_ids (r\<lparr>rg_tokens := t\<rparr>) = org_ids r" "org_ids (r\<lparr>rg_people := p\<rparr>) = org_ids r"
  "org_ids (r\<lparr>rg_domains := d\<rparr>) = org_ids r" "org_ids (r\<lparr>rg_orgs := rows\<rparr>) = map og_id rows"
  by (simp_all add: org_ids_def)

lemma registry_ok_insert:
  assumes "registry_ok r" "insert_org row r = Some r1" "is_org_slug (og_slug row)"
  shows "registry_ok r1" "set (org_ids r1) = insert (og_id row) (set (org_ids r))"
proof -
  have r1: "r1 = r\<lparr>rg_orgs := rg_orgs r @ [row]\<rparr>" "og_id row \<notin> set (org_ids r)" "og_slug row \<notin> set (map og_slug (rg_orgs r))"
    using assms(2) by (auto simp: insert_org_def org_lookup split: if_splits)
  then show ids: "set (org_ids r1) = insert (og_id row) (set (org_ids r))" by (simp add: org_ids_def)
  have "orgs_ok r1" using assms(1,3) r1 by (simp add: registry_ok_def orgs_ok_def org_ids_def)
  moreover have "registry_index_ok r1" using assms(1) r1(1) by (auto simp: registry_ok_def registry_index_ok_def org_ids_def)
  moreover have "people_ok r1" using assms(1) r1(1) by (auto simp: registry_ok_def people_ok_def org_ids_def split: option.splits)
  ultimately show "registry_ok r1" by (simp add: registry_ok_def)
qed

text \<open>A write to one org's row that keeps its id, and its slug or takes a free one.\<close>

lemma registry_ok_set_org:
  assumes "registry_ok r" "\<And>o1. og_id (f o1) = og_id o1"
    and "\<And>o1. o1 \<in> set (rg_orgs r) \<Longrightarrow> og_id o1 = i \<Longrightarrow> is_org_slug (og_slug (f o1)) \<and> (\<forall>o2 \<in> set (rg_orgs r). og_id o2 \<noteq> i \<longrightarrow> og_slug o2 \<noteq> og_slug (f o1))"
  shows "registry_ok (set_org i f r)"
proof -
  let ?g = "\<lambda>o1. if og_id o1 = i then f o1 else o1"
  have ids: "org_ids (set_org i f r) = org_ids r" using assms(2) by (simp add: set_org_def org_ids_def)
  have "distinct (map og_slug (map ?g rows))" if "distinct (map og_id rows)" "distinct (map og_slug rows)" "set rows \<subseteq> set (rg_orgs r)" for rows
    using that
  proof (induction rows)
    case (Cons a rows)
    have "og_slug (?g b) \<noteq> og_slug (?g a)" if b: "b \<in> set rows" for b
    proof -
      have "og_id b \<noteq> og_id a" "og_slug b \<noteq> og_slug a" using Cons.prems(1,2) b by simp_all (metis image_eqI)+
      moreover have "a \<in> set (rg_orgs r)" "b \<in> set (rg_orgs r)" using Cons.prems(3) b by auto
      ultimately show ?thesis using assms(3) [of a] assms(3) [of b] by (cases "og_id a = i"; cases "og_id b = i") auto
    qed
    then show ?case using Cons by force
  qed simp
  then have "orgs_ok (set_org i f r)"
    using assms(1,3) unfolding registry_ok_def orgs_ok_def ids by (auto simp: set_org_def list_all_iff org_ids_def)
  then show ?thesis using assms(1) unfolding registry_ok_def registry_index_ok_def people_ok_def ids by (simp add: set_org_def)
qed

lemma org_found: "org_by_id i r = Some o1 \<Longrightarrow> o1 \<in> set (rg_orgs r) \<and> og_id o1 = i" "org_by_slug sl r = Some o1 \<Longrightarrow> o1 \<in> set (rg_orgs r) \<and> og_slug o1 = sl"
  using find_key_Some [of og_id i "rg_orgs r" o1] find_key_Some [of og_slug sl "rg_orgs r" o1] by (simp_all add: org_by_id_def org_by_slug_def)

lemma org_same_id: "registry_ok r \<Longrightarrow> o1 \<in> set (rg_orgs r) \<Longrightarrow> o2 \<in> set (rg_orgs r) \<Longrightarrow> og_id o1 = og_id o2 \<Longrightarrow> o1 = o2"
  by (auto simp: registry_ok_def orgs_ok_def org_ids_def distinct_map inj_on_def)

lemma slug_of_row: "registry_ok r \<Longrightarrow> o1 \<in> set (rg_orgs r) \<Longrightarrow> o2 \<in> set (rg_orgs r) \<Longrightarrow> og_slug o1 = og_slug o2 \<Longrightarrow> o1 = o2"
  by (auto simp: registry_ok_def orgs_ok_def distinct_map inj_on_def)

lemma registry_ok_set_plain:
  assumes "registry_ok r" "\<And>o1. og_id (f o1) = og_id o1" "\<And>o1. og_slug (f o1) = og_slug o1"
  shows "registry_ok (set_org i f r)"
proof (rule registry_ok_set_org [OF assms(1,2)])
  fix o1 assume o: "o1 \<in> set (rg_orgs r)" "og_id o1 = i"
  have "is_org_slug (og_slug o1)" using assms(1) o(1) by (auto simp: registry_ok_def orgs_ok_def list_all_iff)
  then show "is_org_slug (og_slug (f o1)) \<and> (\<forall>o2 \<in> set (rg_orgs r). og_id o2 \<noteq> i \<longrightarrow> og_slug o2 \<noteq> og_slug (f o1))"
    using assms(3) slug_of_row [OF assms(1) o(1)] o(2) by metis
qed

lemma registry_ok_create: "registry_ok r \<Longrightarrow> registry_ok (snd (create_org draw slug name i by now r))"
  using registry_ok_insert(1) [of r _ _] by (auto simp: create_org_def fresh_org_def Let_def split: option.splits)

lemma registry_ok_update_org: "registry_ok r \<Longrightarrow> registry_ok (snd (update_org slug ns nn r))"
proof -
  assume ok: "registry_ok r"
  show ?thesis
  proof (cases "org_by_slug slug r")
    case None
    then show ?thesis using ok by (simp add: update_org_def)
  next
    case (Some current)
    define next_slug where "next_slug = (case ns of None \<Rightarrow> og_slug current | Some s \<Rightarrow> s)"
    have "registry_ok (set_org (og_id current) (\<lambda>o1. o1\<lparr>og_slug := next_slug, og_name := next_name\<rparr>) r)"
      if v: "is_org_slug next_slug" and free: "\<not> (case org_by_slug next_slug r of None \<Rightarrow> False | Some holder \<Rightarrow> og_id holder \<noteq> og_id current)" for next_name
    proof (rule registry_ok_set_org [OF ok])
      have "og_slug o2 \<noteq> next_slug" if o: "o2 \<in> set (rg_orgs r)" "og_id o2 \<noteq> og_id current" for o2
      proof
        assume k: "og_slug o2 = next_slug"
        obtain h where h: "org_by_slug next_slug r = Some h" using org_lookup(2) [of next_slug r] o(1) k by fastforce
        then have "h = o2" using org_found(2) slug_of_row [OF ok _ o(1)] k by metis
        then show False using free h o(2) by simp
      qed
      then show "is_org_slug (og_slug (o1\<lparr>og_slug := next_slug, og_name := next_name\<rparr>)) \<and>
          (\<forall>o2 \<in> set (rg_orgs r). og_id o2 \<noteq> og_id current \<longrightarrow> og_slug o2 \<noteq> og_slug (o1\<lparr>og_slug := next_slug, og_name := next_name\<rparr>))" for o1
        using v by simp
    qed simp
    then show ?thesis using ok by (simp add: update_org_def Some Let_def next_slug_def [symmetric] split: option.split)
  qed
qed

lemma registry_ok_retention: "registry_ok r \<Longrightarrow> registry_ok (snd (set_retention i u d r))"
  by (auto simp: set_retention_def Let_def intro!: registry_ok_set_plain split: option.splits)

lemma registry_ok_suspend: "registry_ok r \<Longrightarrow> registry_ok (snd (set_org_suspended slug b now r))"
  by (auto simp: set_org_suspended_def intro!: registry_ok_set_plain split: option.splits)

lemma registry_ok_delete: "registry_ok r \<Longrightarrow> registry_ok (snd (delete_org i r))"
proof -
  assume ok: "registry_ok r"
  let ?r = "r\<lparr>rg_members := filter (\<lambda>(_, org). org \<noteq> i) (rg_members r), rg_tokens := filter (\<lambda>(_, org). org \<noteq> i) (rg_tokens r),
          rg_people := map (\<lambda>p. if pe_personal_org p = Some i then p\<lparr>pe_personal_org := None\<rparr> else p) (rg_people r),
          rg_domains := filter (\<lambda>d. so_org d \<noteq> i) (rg_domains r), rg_orgs := filter (\<lambda>o1. og_id o1 \<noteq> i) (rg_orgs r)\<rparr>"
  have ids: "set (org_ids ?r) = set (org_ids r) - {i}" by (auto simp: org_ids_def)
  have "registry_ok ?r" if "i \<noteq> global_org"
  proof -
    have "orgs_ok ?r" using ok that unfolding registry_ok_def orgs_ok_def ids by (auto simp: org_ids_def distinct_map_filter list_all_iff)
    moreover have "registry_index_ok ?r"
      using ok unfolding registry_ok_def registry_index_ok_def ids by (auto simp: distinct_map_filter)
    moreover have "people_ok ?r"
      unfolding people_ok_def ids
    proof (intro conjI ballI)
      have "map pe_email (rg_people ?r) = map pe_email (rg_people r)" by simp
      then show "distinct (map pe_email (rg_people ?r))" using ok by (simp only: registry_ok_def people_ok_def)
      fix p
      assume "p \<in> set (rg_people ?r)"
      then show "case pe_personal_org p of None \<Rightarrow> True | Some j \<Rightarrow> j \<in> set (org_ids r) - {i}"
        using ok by (auto simp: registry_ok_def people_ok_def split: option.splits if_splits)
    qed
    ultimately show ?thesis by (simp add: registry_ok_def)
  qed
  then show ?thesis using ok by (simp add: delete_org_def)
qed

subsection \<open>The index, people and domains\<close>

lemma registry_ok_remove_person: "registry_ok r \<Longrightarrow> registry_ok (snd (remove_person e r))"
proof -
  assume ok: "registry_ok r"
  let ?r = "snd (remove_person e r)"
  have keys: "map og_id (rg_orgs ?r) = map og_id (rg_orgs r)" "map og_slug (rg_orgs ?r) = map og_slug (rg_orgs r)"
    by (simp_all add: remove_person_def Let_def)
  have slugs: "list_all (\<lambda>o1. is_org_slug (og_slug o1)) (rg_orgs ?r)"
    using ok by (auto simp: registry_ok_def orgs_ok_def list_all_iff remove_person_def Let_def)
  have "orgs_ok ?r" using ok slugs unfolding registry_ok_def orgs_ok_def org_ids_def keys by blast
  moreover have ids: "org_ids ?r = org_ids r" unfolding org_ids_def by (rule keys(1))
  moreover have "registry_index_ok ?r" "people_ok ?r"
    using ok unfolding registry_ok_def registry_index_ok_def people_ok_def ids by (auto simp: remove_person_def Let_def distinct_map_filter)
  ultimately show ?thesis by (simp add: registry_ok_def)
qed

lemma index_fields_only:
  "orgs_ok (r\<lparr>rg_members := ms, rg_tokens := ts\<rparr>) = orgs_ok r" "people_ok (r\<lparr>rg_members := ms, rg_tokens := ts\<rparr>) = people_ok r"
  "orgs_ok (r\<lparr>rg_people := ps\<rparr>) = orgs_ok r" "registry_index_ok (r\<lparr>rg_people := ps\<rparr>) = registry_index_ok r"
  "orgs_ok (r\<lparr>rg_domains := ds\<rparr>) = orgs_ok r" "people_ok (r\<lparr>rg_domains := ds\<rparr>) = people_ok r"
  unfolding orgs_ok_def people_ok_def registry_index_ok_def org_ids_update by simp_all

lemma index_tokens_ok:
  "distinct (map fst rows) \<Longrightarrow> snd ` set rows \<subseteq> ids \<Longrightarrow> org \<in> ids \<Longrightarrow>
   distinct (map fst (fst (index_tokens org tokens rows))) \<and> snd ` set (fst (index_tokens org tokens rows)) \<subseteq> ids"
proof (induction org tokens rows rule: index_tokens.induct)
  case (2 org token tokens rows)
  show ?case
  proof (cases "map_of rows token")
    case None
    then have "token \<notin> fst ` set rows" by (simp add: map_of_eq_None_iff)
    then show ?thesis using 2 None by simp
  next
    case (Some o1)
    then show ?thesis using 2 by (simp add: case_prod_beta)
  qed
qed simp

lemma registry_ok_replace: "registry_ok r \<Longrightarrow> registry_ok (snd (replace_org_index org es ts r))"
proof -
  assume ok: "registry_ok r"
  let ?emails = "js_set (filter (\<lambda>e. e \<noteq> []) (map normalize_email es))"
  let ?tokens = "js_set (filter (\<lambda>t. t \<noteq> []) (map js_trim ts))"
  let ?rows = "fst (index_tokens org ?tokens (filter (\<lambda>(_, o1). o1 \<noteq> org) (rg_tokens r)))"
  have "registry_ok (r\<lparr>rg_members := filter (\<lambda>(_, o1). o1 \<noteq> org) (rg_members r) @ map (\<lambda>e. (e, org)) ?emails, rg_tokens := ?rows\<rparr>)"
    if org: "org \<in> set (org_ids r)"
  proof -
    have "distinct (filter (\<lambda>(_, o1). o1 \<noteq> org) (rg_members r) @ map (\<lambda>e. (e, org)) ?emails)"
      using ok by (auto simp: registry_ok_def registry_index_ok_def distinct_map inj_on_def)
    moreover have "distinct (map fst ?rows) \<and> snd ` set ?rows \<subseteq> set (org_ids r)"
      by (rule index_tokens_ok) (use ok org in \<open>auto simp: registry_ok_def registry_index_ok_def distinct_map_filter\<close>)
    ultimately show ?thesis using ok org unfolding registry_ok_def index_fields_only by (auto simp: registry_index_ok_def)
  qed
  then show ?thesis using ok by (simp add: replace_org_index_def org_lookup Let_def case_prod_beta)
qed

lemma person_lookup: "person_of e r = None \<longleftrightarrow> e \<notin> set (map pe_email (rg_people r))"
  by (simp add: person_of_def find_map_None del: set_map)

lemma registry_ok_upsert:
  assumes "registry_ok r" "\<And>p. pe_email (f p) = pe_email p"
    and "\<And>p. (case pe_personal_org p of None \<Rightarrow> True | Some i \<Rightarrow> i \<in> set (org_ids r)) \<Longrightarrow> (case pe_personal_org (f p) of None \<Rightarrow> True | Some i \<Rightarrow> i \<in> set (org_ids r))"
  shows "registry_ok (upsert_person e f r)"
proof -
  let ?r = "r\<lparr>rg_people := map (\<lambda>p. if pe_email p = e then f p else p) (rg_people r)\<rparr>"
  have keys: "map pe_email (rg_people ?r) = map pe_email (rg_people r)" using assms(2) by simp
  have "people_ok ?r"
    unfolding people_ok_def org_ids_update keys
  proof (intro conjI ballI)
    show "distinct (map pe_email (rg_people r))" using assms(1) by (simp add: registry_ok_def people_ok_def)
    fix p
    assume "p \<in> set (rg_people ?r)"
    then obtain q where q: "q \<in> set (rg_people r)" "p = q \<or> p = f q" by auto
    have "case pe_personal_org q of None \<Rightarrow> True | Some i \<Rightarrow> i \<in> set (org_ids r)" using assms(1) q(1) by (simp add: registry_ok_def people_ok_def)
    then show "case pe_personal_org p of None \<Rightarrow> True | Some i \<Rightarrow> i \<in> set (org_ids r)" using assms(3) q(2) by blast
  qed
  moreover have "people_ok (r\<lparr>rg_people := rg_people r @ [f (empty_person e)]\<rparr>)" if "person_of e r = None"
  proof -
    have "case pe_personal_org (f (empty_person e)) of None \<Rightarrow> True | Some i \<Rightarrow> i \<in> set (org_ids r)"
      by (rule assms(3)) (simp add: empty_person_def)
    moreover have "pe_email (f (empty_person e)) = e" using assms(2) by (simp add: empty_person_def)
    ultimately show ?thesis using assms(1) that unfolding registry_ok_def people_ok_def org_ids_update person_lookup by auto
  qed
  ultimately show ?thesis using assms(1) by (simp add: registry_ok_def upsert_person_def index_fields_only)
qed

lemma registry_ok_finish: "registry_ok r \<Longrightarrow> registry_ok (finish_sign_up e now r)"
  unfolding finish_sign_up_def by (rule registry_ok_upsert) auto

lemma registry_ok_update_person: "registry_ok r \<Longrightarrow> registry_ok (update_person e l b now r)"
  unfolding update_person_def by (rule registry_ok_upsert) (auto simp: Let_def split: option.splits)


text \<open>A slug is drawn as ten hexadecimal digits.\<close>

definition slug_draw :: "string \<Rightarrow> bool" where
  "slug_draw d \<longleftrightarrow> length d = 10 \<and> list_all (\<lambda>c. c \<in> set ''0123456789abcdef'') d"

lemma hex_id_char: "c \<in> set ''0123456789abcdef'' \<Longrightarrow> id_char c"
  by (auto simp: id_char_def is_digit_def)

lemma personal_slug_ok:
  assumes "slug_draw d"
  shows "is_org_slug (''personal-'' @ d)"
proof -
  have hex: "\<forall>c \<in> set d. id_char c" using assms hex_id_char by (auto simp: slug_draw_def list_all_iff simp del: set_simps)
  have d: "d \<noteq> []" "length d = 10" using assms by (auto simp: slug_draw_def)
  then have "List.last (''personal-'' @ d) = List.last d" "hd (''personal-'' @ d) = CHR ''p''" by simp_all
  moreover have "id_char (List.last d)" "id_char (CHR ''p'')" using hex d(1) by (simp_all add: id_char_def)
  moreover have "\<forall>c \<in> set ''personal-''. id_char c \<or> c = CHR ''-''" by (simp add: id_char_def)
  ultimately show ?thesis using hex d by (auto simp: is_org_slug_def is_org_id_def)
qed

text \<open>What a sign-in writes.\<close>

lemma sign_in_effect:
  assumes "sign_in ds d e now r = Some (answer, r1)"
  obtains "r1 = r"
  | "r1 = finish_sign_up (normalize_email e) now r"
  | slug_draw row r2 where "slug_draw \<in> set ds" "row = fresh_org (new_org_id d) (''personal-'' @ slug_draw) personal_org_name now (Some (normalize_email e))"
      "insert_org row r = Some r2" "answer = SignInPersonal row"
      "r1 = upsert_person (normalize_email e) (\<lambda>p. p\<lparr>pe_personal_org := Some (og_id row)\<rparr>) r2"
proof -
  define address where "address = normalize_email e"
  define person where "person = person_of address r"
  note sign = assms [unfolded sign_in_def Let_def, folded address_def, folded person_def]
  consider (early) "r1 = r" | (ready) "r1 = finish_sign_up address now r"
    | (new) "(case dropWhile (\<lambda>d. org_by_slug (''personal-'' @ d) r \<noteq> None) ds of
         [] \<Rightarrow> None
       | x # _ \<Rightarrow> (case insert_org (fresh_org (new_org_id d) (''personal-'' @ x) personal_org_name now (Some address)) r of
             None \<Rightarrow> None
           | Some r1 \<Rightarrow> Some (SignInPersonal (fresh_org (new_org_id d) (''personal-'' @ x) personal_org_name now (Some address)),
               upsert_person address (\<lambda>p. p\<lparr>pe_personal_org := Some (og_id (fresh_org (new_org_id d) (''personal-'' @ x) personal_org_name now (Some address)))\<rparr>) r1)))
         = Some (answer, r1)"
  proof (cases "case person of None \<Rightarrow> None | Some p \<Rightarrow> (case pe_personal_org p of None \<Rightarrow> None | Some i \<Rightarrow> org_by_id i r)")
    case (Some pending)
    then show ?thesis using sign that(1) by (simp split: if_splits)
  next
    case None
    then show ?thesis using sign that by (simp split: if_splits)
  qed
  then show ?thesis
  proof cases
    case new
    obtain x xs where x: "dropWhile (\<lambda>d. org_by_slug (''personal-'' @ d) r \<noteq> None) ds = x # xs" using new by (auto split: list.splits)
    then have "x \<in> set ds" using set_dropWhileD [of x _ ds] by (metis list.set_intros(1))
    moreover define row where "row = fresh_org (new_org_id d) (''personal-'' @ x) personal_org_name now (Some address)"
    ultimately show ?thesis using that(3) new unfolding x address_def
      by (auto split: option.splits)
  qed (use that address_def in auto)
qed

lemma registry_ok_sign_in:
  assumes "registry_ok r" "list_all slug_draw ds" "sign_in ds d e now r = Some (answer, r1)"
  shows "registry_ok r1"
proof (rule sign_in_effect [OF assms(3)])
  fix sd row r2
  assume a: "sd \<in> set ds" "row = fresh_org (new_org_id d) (''personal-'' @ sd) personal_org_name now (Some (normalize_email e))"
    "insert_org row r = Some r2" "r1 = upsert_person (normalize_email e) (\<lambda>p. p\<lparr>pe_personal_org := Some (og_id row)\<rparr>) r2"
  have "is_org_slug (og_slug row)" using assms(2) a(1,2) personal_slug_ok by (auto simp: fresh_org_def list_all_iff)
  note ins = registry_ok_insert [OF assms(1) a(3) this]
  show ?thesis unfolding a(4) by (rule registry_ok_upsert [OF ins(1)]) (auto simp: ins(2))
qed (use assms(1) registry_ok_finish in simp_all)

lemma find_row_None: "find (\<lambda>x. f x = k) xs = None \<longleftrightarrow> k \<notin> f ` set xs"
  by (auto simp: find_None_iff)

lemma registry_ok_claim: "registry_ok r \<Longrightarrow> registry_ok (snd (claim_sso_domain domn org r))"
proof -
  assume ok: "registry_ok r"
  have "registry_ok (r\<lparr>rg_domains := rg_domains r @ [\<lparr>so_domain = domn, so_org = org, so_required = False\<rparr>]\<rparr>)"
    if "org \<in> set (org_ids r)" "sso_domain domn r = None"
    using ok that unfolding registry_ok_def index_fields_only registry_index_ok_def org_ids_update sso_domain_def find_row_None by auto
  then show ?thesis using ok by (auto simp: claim_sso_domain_def org_lookup split: option.split)
qed

lemma registry_ok_domains:
  assumes "registry_ok r" "distinct (map so_domain ds)" "so_org ` set ds \<subseteq> so_org ` set (rg_domains r)"
  shows "registry_ok (r\<lparr>rg_domains := ds\<rparr>)"
proof -
  have "so_org ` set ds \<subseteq> set (org_ids r)" using assms(1,3) by (meson registry_index_ok_def order_trans registry_ok_def)
  then show ?thesis using assms(1,2) unfolding registry_ok_def index_fields_only registry_index_ok_def org_ids_update by simp
qed

lemma registry_ok_release: "registry_ok r \<Longrightarrow> registry_ok (release_sso_domain domn org r)"
  unfolding release_sso_domain_def by (rule registry_ok_domains) (auto simp: registry_ok_def registry_index_ok_def distinct_map_filter)

lemma registry_ok_require: "registry_ok r \<Longrightarrow> registry_ok (snd (set_sso_domain_required domn org b r))"
proof -
  assume ok: "registry_ok r"
  let ?f = "\<lambda>d. if so_domain d = domn \<and> so_org d = org then d\<lparr>so_required := b\<rparr> else d"
  have "map so_domain (map ?f (rg_domains r)) = map so_domain (rg_domains r)" by simp
  then show ?thesis using ok unfolding set_sso_domain_required_def snd_conv
    by (intro registry_ok_domains) (auto simp: registry_ok_def registry_index_ok_def simp del: map_map)
qed

fun call_draws_ok :: "registry_call \<Rightarrow> bool" where
  "call_draws_ok (SignInCall ds d e now) = list_all slug_draw ds"
| "call_draws_ok _ = True"

lemma registry_ok_run: "registry_ok r \<Longrightarrow> call_draws_ok call \<Longrightarrow> registry_ok (registry_run call r)"
proof (cases call)
  case (SignInCall ds d e now)
  then show "registry_ok r \<Longrightarrow> call_draws_ok call \<Longrightarrow> registry_ok (registry_run call r)"
    using registry_ok_sign_in by (auto split: option.split)
qed (simp_all add: registry_ok_create registry_ok_update_org registry_ok_retention registry_ok_delete registry_ok_remove_person
    registry_ok_replace registry_ok_finish registry_ok_update_person registry_ok_suspend registry_ok_claim registry_ok_release registry_ok_require)

lemma registry_ok_open: "registry_ok (open_registry now)"
  by (simp add: registry_ok_def orgs_ok_def registry_index_ok_def people_ok_def org_ids_def open_registry_def is_org_slug_def is_org_id_def
      default_org_slug_def id_char_def is_digit_def)

definition run_registry :: "registry_call list \<Rightarrow> registry \<Rightarrow> registry" where
  "run_registry calls r = foldl (\<lambda>r call. registry_run call r) r calls"

lemma registry_ok_runs: "registry_ok r \<Longrightarrow> list_all call_draws_ok calls \<Longrightarrow> registry_ok (run_registry calls r)"
  by (induction calls arbitrary: r) (simp_all add: run_registry_def registry_ok_run)


text \<open>C22. Whatever the registry is asked, from its first start on, it stays sound: ids and slugs of orgs are unique and the org
  \<open>global\<close> is always there, a service token and a domain belong to one org, and no index entry, domain or Personal org
  of a person names an org that is gone.
\<close>

theorem registry_stays_sound:
  assumes "list_all call_draws_ok calls"
  shows "registry_ok (run_registry calls (open_registry now))"
  by (rule registry_ok_runs [OF registry_ok_open assms])

definition sample_registry_calls :: "registry_call list" where
  "sample_registry_calls =
     [SignInCall [''0123456789''] ''a1'' ''Ann@x.org '' 5, CreateOrgCall ''b2'' ''acme'' '' Acme '' None (Some (''ann@x.org'', 3)) 6,
      ReplaceIndexCall ''org-b2'' [''ann@x.org''] [''tok''], ReplaceIndexCall ''global'' [] [''tok'', ''other''], DeleteOrgCall ''org-a1'']"

theorem registry_stays_sound_witness: "registry_ok (run_registry sample_registry_calls (open_registry 0))"
  by (rule registry_stays_sound) code_simp

subsection \<open>Tokens and domains stay with their org\<close>

lemma index_tokens_keep: "map_of rows t = Some o1 \<Longrightarrow> map_of (fst (index_tokens org tokens rows)) t = Some o1"
proof (induction org tokens rows rule: index_tokens.induct)
  case (2 org token tokens rows)
  then show ?case by (cases "map_of rows token") (auto simp: case_prod_beta map_add_Some_iff)
qed simp

lemma map_of_filter_org: "distinct (map fst rows) \<Longrightarrow> map_of rows t = Some o1 \<Longrightarrow> o1 \<noteq> org \<Longrightarrow> map_of (filter (\<lambda>(_, x). x \<noteq> org) rows) t = Some o1"
  by (induction rows) (auto split: if_split_asm)

definition holder_of_domain :: "string \<Rightarrow> registry \<Rightarrow> string option" where
  "holder_of_domain domn r = map_option so_org (sso_domain domn r)"

lemma claim_keeps_holder: "holder_of_domain d r = Some o1 \<Longrightarrow> holder_of_domain d (snd (claim_sso_domain d2 org r)) = Some o1"
proof -
  assume h: "holder_of_domain d r = Some o1"
  have app: "find P (xs @ ys) = (case find P xs of None \<Rightarrow> find P ys | Some x \<Rightarrow> Some x)" for P :: "sso_row \<Rightarrow> bool" and xs ys
    by (induction xs) simp_all
  show ?thesis using h by (auto simp: holder_of_domain_def claim_sso_domain_def sso_domain_def app split: option.split)
qed

lemma index_conflicts: "map_of rows t \<noteq> None \<Longrightarrow> t \<in> set tokens \<Longrightarrow> t \<in> set (snd (index_tokens org tokens rows))"
proof (induction org tokens rows rule: index_tokens.induct)
  case (2 org token tokens rows)
  then show ?case by (cases "map_of rows token") (auto simp: case_prod_beta map_of_eq_None_iff)
qed simp


text \<open>No org takes what another holds: an index pushed for one org leaves each service token that another org holds with that
  org, and names it among the conflicts when it was asked for; a claim of a domain another org holds is refused and
  changes nothing.
\<close>

theorem holdings_stay_with_their_org:
  assumes "registry_ok r" "org_by_id org r \<noteq> None" "map_of (rg_tokens r) t = Some o1" "holder_of_domain d r = Some o2"
    and "o1 \<noteq> org" "o2 \<noteq> org" "replace_org_index org emails tokens r = (answer, r1)"
  shows "map_of (rg_tokens r1) t = Some o1 \<and> holder_of_domain d r1 = Some o2 \<and>
    (\<exists>repair. answer = Some repair \<and> (t \<noteq> [] \<longrightarrow> t \<in> js_trim ` set tokens \<longrightarrow> t \<in> set (ir_conflicts repair))) \<and>
    claim_sso_domain d org r = (DomainTaken, r)"
proof -
  let ?rows = "filter (\<lambda>(_, x). x \<noteq> org) (rg_tokens r)"
  have keys: "distinct (map fst (rg_tokens r))" using assms(1) by (simp add: registry_ok_def registry_index_ok_def)
  have kept: "map_of ?rows t = Some o1" by (rule map_of_filter_org [OF keys assms(3,5)])
  have "t \<in> set (js_set (filter (\<lambda>t. t \<noteq> []) (map js_trim tokens)))" if "t \<noteq> []" "t \<in> js_trim ` set tokens"
    using that by auto
  then have conflict: "t \<in> set (snd (index_tokens org (js_set (filter (\<lambda>t. t \<noteq> []) (map js_trim tokens))) ?rows))"
    if "t \<noteq> []" "t \<in> js_trim ` set tokens"
    using that kept by (intro index_conflicts) auto
  have "claim_sso_domain d org r = (DomainTaken, r)"
    using assms(2,4,6) by (auto simp: claim_sso_domain_def holder_of_domain_def)
  moreover have "map_of (rg_tokens r1) t = Some o1"
    using assms(2,7) index_tokens_keep [OF kept] by (auto simp: replace_org_index_def Let_def case_prod_beta)
  moreover have "holder_of_domain d r1 = Some o2"
    using assms(2,4,7) by (auto simp: replace_org_index_def Let_def case_prod_beta holder_of_domain_def sso_domain_def)
  moreover have "\<exists>repair. answer = Some repair \<and> (t \<noteq> [] \<longrightarrow> t \<in> js_trim ` set tokens \<longrightarrow> t \<in> set (ir_conflicts repair))"
    using assms(2,7) conflict by (auto simp: replace_org_index_def Let_def case_prod_beta)
  ultimately show ?thesis by blast
qed

definition held_registry :: registry where
  "held_registry = run_registry [CreateOrgCall ''a'' ''acme'' ''Acme'' None None 1, CreateOrgCall ''b'' ''bell'' ''Bell'' None None 2,
     ReplaceIndexCall ''org-a'' [] [''tok''], ClaimDomainCall ''x.org'' ''org-a''] (open_registry 0)"

theorem holdings_stay_with_their_org_witness:
  "map_of (rg_tokens (snd (replace_org_index ''org-b'' [] ['' tok ''] held_registry))) ''tok'' = Some ''org-a''"
proof -
  have ok: "registry_ok held_registry" unfolding held_registry_def by (rule registry_ok_runs [OF registry_ok_open]) code_simp
  have at: "org_by_id ''org-b'' held_registry \<noteq> None" "map_of (rg_tokens held_registry) ''tok'' = Some ''org-a''"
    "holder_of_domain ''x.org'' held_registry = Some ''org-a''" by code_simp+
  show ?thesis
    using holdings_stay_with_their_org [OF ok at, of "[]" "['' tok '']"] by (simp add: prod_eq_iff)
qed

subsection \<open>One Personal org per person\<close>

lemma person_of_upsert:
  assumes "\<And>p. pe_email (f p) = pe_email p"
  shows "person_of e (upsert_person e f r) = Some (f (case person_of e r of None \<Rightarrow> empty_person e | Some p \<Rightarrow> p))"
proof (cases "person_of e r")
  case None
  have "find P (xs @ [x]) = (case find P xs of None \<Rightarrow> (if P x then Some x else None) | Some y \<Rightarrow> Some y)" for P :: "person_row \<Rightarrow> bool" and xs x
    by (induction xs) simp_all
  then show ?thesis using None assms by (simp add: upsert_person_def person_of_def empty_person_def)
next
  case (Some p)
  have "find (\<lambda>p. pe_email p = e) (map (\<lambda>p. if pe_email p = e then f p else p) ps) = map_option f (find (\<lambda>p. pe_email p = e) ps)" for ps
    using assms by (induction ps) auto
  then show ?thesis using Some by (simp add: upsert_person_def person_of_def)
qed

definition pending_org :: "string \<Rightarrow> registry \<Rightarrow> org_row option" where
  "pending_org address r =
     (case person_of address r of
        None \<Rightarrow> None
      | Some p \<Rightarrow>
          if pe_suspended_at p \<noteq> None \<or> pe_signed_up_at p \<noteq> None then None
          else (case pe_personal_org p of None \<Rightarrow> None | Some i \<Rightarrow> org_by_id i r))"

lemma sign_in_pending: "pending_org (normalize_email e) r = Some row \<Longrightarrow> sign_in ds d e now r = Some (SignInPersonal row, r)"
  by (auto simp: pending_org_def sign_in_def Let_def split: option.splits if_splits)

lemma insert_org_found: "insert_org row r = Some r1 \<Longrightarrow> org_by_id (og_id row) r1 = Some row"
proof -
  assume i: "insert_org row r = Some r1"
  then have r1: "r1 = r\<lparr>rg_orgs := rg_orgs r @ [row]\<rparr>" "og_id row \<notin> og_id ` set (rg_orgs r)"
    by (auto simp: insert_org_def org_lookup org_ids_def split: if_splits)
  have "find (\<lambda>o1. og_id o1 = og_id row) (xs @ [row]) = Some row" if "og_id row \<notin> og_id ` set xs" for xs
    using that by (induction xs) auto
  then show ?thesis using r1 by (simp add: org_by_id_def)
qed

lemma sign_in_personal_pending:
  assumes "sign_in ds d e now r = Some (SignInPersonal row, r1)"
  shows "pending_org (normalize_email e) r1 = Some row"
proof -
  define address where "address = normalize_email e"
  define person where "person = person_of address r"
  have open_person: "person = None \<or> (\<exists>p. person = Some p \<and> pe_suspended_at p = None \<and> pe_signed_up_at p = None)"
    using assms unfolding sign_in_def Let_def address_def [symmetric] person_def [symmetric] by (cases person) (auto split: if_splits)
  consider (again) "r1 = r" "pending_org address r = Some row"
    | (created) r2 where "insert_org row r = Some r2" "r1 = upsert_person address (\<lambda>p. p\<lparr>pe_personal_org := Some (og_id row)\<rparr>) r2"
  proof (cases "case person of None \<Rightarrow> None | Some p \<Rightarrow> (case pe_personal_org p of None \<Rightarrow> None | Some i \<Rightarrow> org_by_id i r)")
    case (Some pending)
    moreover have "r1 = r" "row = pending"
      using assms Some open_person unfolding sign_in_def Let_def address_def [symmetric] person_def [symmetric] by auto
    ultimately show ?thesis using open_person that(1) unfolding pending_org_def person_def [symmetric] by (auto split: option.splits)
  next
    case None
    show ?thesis
      using assms None open_person that(2) unfolding sign_in_def Let_def address_def [symmetric] person_def [symmetric]
      by (auto split: if_splits list.splits option.splits)
  qed
  then show ?thesis
  proof cases
    case again
    then show ?thesis by (simp add: address_def)
  next
    case created
    let ?f = "\<lambda>p. p\<lparr>pe_personal_org := Some (og_id row)\<rparr>"
    have "person_of address r2 = person" using created(1) by (auto simp: insert_org_def person_of_def person_def split: if_splits)
    then have p: "person_of address r1 = Some (?f (case person of None \<Rightarrow> empty_person address | Some p \<Rightarrow> p))"
      using person_of_upsert [of ?f address r2] created(2) by simp
    have row: "org_by_id (og_id row) r1 = Some row" using insert_org_found [OF created(1)] by (simp add: created(2) upsert_person_def org_by_id_def)
    show ?thesis
      using p row open_person unfolding pending_org_def address_def [symmetric] by (auto simp: empty_person_def)
  qed
qed

text \<open>A person who comes back before finishing the sign-up gets the Personal org of their first sign-in again, not another one,
  and the registry is left as it is.
\<close>

theorem one_personal_org:
  assumes "sign_in ds d e now r = Some (SignInPersonal row, r1)"
  shows "sign_in ds2 d2 e now2 r1 = Some (SignInPersonal row, r1)"
  by (rule sign_in_pending [OF sign_in_personal_pending [OF assms]])

definition first_sign_in :: registry where
  "first_sign_in = snd (the (sign_in [''0123456789''] ''a1'' ''Ann@x.org '' 5 (open_registry 0)))"

theorem one_personal_org_witness:
  "sign_in [] [] ''Ann@x.org '' 9 first_sign_in =
     Some (SignInPersonal (fresh_org ''org-a1'' ''personal-0123456789'' ''Personal'' 5 (Some ''ann@x.org'')), first_sign_in)"
  by (rule one_personal_org [where ds = "[''0123456789'']" and d = "''a1''" and now = 5 and r = "open_registry 0"]) code_simp

end
