(* ===== verification/Members_Effects.thy ===== *)
theory Members_Effects
  imports Members_Invariant
begin

text \<open>
  What each call of the members store writes, as elimination rules: either nothing, or one composition of the primitive
  writes under the conditions its guards checked.
\<close>

lemma join_effect:
  obtains "snd (join_member draws email now added_by s) = s"
  | i rest s1 where "insert_member draws email RoleMember now added_by s = Some (i, rest, s1)" "snd (join_member draws email now added_by s) = changed s1"
  by (cases "insert_member draws email RoleMember now added_by s") (auto simp: join_member_def)

lemma admit_effect:
  obtains "snd (admit draws who auto_join now s) = s"
  | i rest s1 email added_by where "insert_member draws email RoleMember now added_by s = Some (i, rest, s1)" "valid_email email"
      "js_lower email = email" "\<not> is_removed (removed_user email) s" "snd (admit draws who auto_join now s) = changed s1"
proof (cases who)
  case (ServiceRef given)
  have "snd (admit draws (ServiceRef given) auto_join now s) = s" by (simp add: admit_def Let_def split: option.split)
  then show ?thesis using that(1) ServiceRef by simp
next
  case (UserRef given)
  let ?email = "normalize_email given"
  have "snd (admit draws (UserRef given) auto_join now s) = s \<or>
      valid_email ?email \<and> \<not> is_removed (removed_user ?email) s \<and>
      snd (admit draws (UserRef given) auto_join now s) = snd (join_member draws ?email now auto_join_actor s)"
    by (simp add: admit_def Let_def split: option.split)
  then show ?thesis
  proof
    assume "snd (admit draws (UserRef given) auto_join now s) = s"
    then show ?thesis using that(1) UserRef by simp
  next
    assume a: "valid_email ?email \<and> \<not> is_removed (removed_user ?email) s \<and>
      snd (admit draws (UserRef given) auto_join now s) = snd (join_member draws ?email now auto_join_actor s)"
    show ?thesis
      by (rule join_effect [of draws ?email now auto_join_actor s]) (use a that UserRef in auto)
  qed
qed

lemma sso_effect:
  obtains "snd (join_through_sso draws given now s) = s"
  | i rest s1 email added_by where "insert_member draws email RoleMember now added_by s = Some (i, rest, s1)" "valid_email email"
      "js_lower email = email" "\<not> is_removed (removed_user email) s" "snd (join_through_sso draws given now s) = changed s1"
proof -
  let ?email = "normalize_email given"
  have "snd (join_through_sso draws given now s) = s \<or>
      valid_email ?email \<and> \<not> is_removed (removed_user ?email) s \<and>
      snd (join_through_sso draws given now s) = snd (join_member draws ?email now sso_actor s)"
    by (simp add: join_through_sso_def Let_def split: option.split)
  then show ?thesis
  proof
    assume "snd (join_through_sso draws given now s) = s"
    then show ?thesis using that(1) by simp
  next
    assume a: "valid_email ?email \<and> \<not> is_removed (removed_user ?email) s \<and>
      snd (join_through_sso draws given now s) = snd (join_member draws ?email now sso_actor s)"
    show ?thesis
      by (rule join_effect [of draws ?email now sso_actor s]) (use a that in auto)
  qed
qed

lemma add_effect:
  obtains "snd (add_member draws given role actor added_by now s) = s"
  | i rest s1 granted where "parse_role role = Some granted" "may_manage_member actor granted" "valid_email (normalize_email given)"
      "insert_member draws (normalize_email given) granted now added_by s = Some (i, rest, s1)"
      "snd (add_member draws given role actor added_by now s) = changed (restore_principal (removed_user (normalize_email given)) s1)"
proof (cases "parse_role role")
  case None
  then show ?thesis using that(1) by (simp add: add_member_def Let_def)
next
  case (Some granted)
  show ?thesis
  proof (cases "valid_email (normalize_email given) \<and> may_manage_member actor granted \<and> member_by_email (normalize_email given) s = None")
    case False
    then show ?thesis using that(1) Some by (cases "valid_email (normalize_email given)") (auto simp: add_member_def Let_def)
  next
    case True
    then show ?thesis using that Some
      by (cases "insert_member draws (normalize_email given) granted now added_by s") (auto simp: add_member_def Let_def)
  qed
qed

lemma role_effect:
  obtains "snd (set_member_role i role actor s) = s"
  | current where "member_by_id i s = Some current" "is_org_role role" "ac_role actor = RoleOwner"
      "\<not> (mb_role current = ''owner'' \<and> role \<noteq> ''owner'' \<and> owner_count s = 1)"
      "snd (set_member_role i role actor s) = set_member i role s"
proof (cases "\<exists>current. member_by_id i s = Some current \<and> is_org_role role \<and> may_change_roles actor \<and>
    \<not> (mb_role current = ''owner'' \<and> role \<noteq> ''owner'' \<and> owner_count s = 1)")
  case True
  then obtain current where "member_by_id i s = Some current" "is_org_role role" "may_change_roles actor"
    "\<not> (mb_role current = ''owner'' \<and> role \<noteq> ''owner'' \<and> owner_count s = 1)" by blast
  then show ?thesis using that(2) [of current] by (auto simp: set_member_role_def Let_def may_change_roles_def)
next
  case False
  then have "snd (set_member_role i role actor s) = s" by (auto simp: set_member_role_def Let_def split: option.split)
  then show ?thesis using that(1) by blast
qed

lemma remove_effect:
  obtains "snd (remove_member i actor now s) = s"
  | current where "member_by_id i s = Some current" "may_manage_member actor (role_or_member (mb_role current))"
      "\<not> (role_or_member (mb_role current) = RoleOwner \<and> owner_count s = 1 \<and> other_members i s > 0)"
      "remove_member i actor now s = (Reply (mb_email current), changed (tombstone (removed_user (mb_email current)) now (delete_member i s)))"
proof (cases "\<exists>current. member_by_id i s = Some current \<and> may_manage_member actor (role_or_member (mb_role current)) \<and>
    \<not> (role_or_member (mb_role current) = RoleOwner \<and> owner_count s = 1 \<and> other_members i s > 0)")
  case True
  then obtain current where "member_by_id i s = Some current" "may_manage_member actor (role_or_member (mb_role current))"
    "\<not> (role_or_member (mb_role current) = RoleOwner \<and> owner_count s = 1 \<and> other_members i s > 0)" by blast
  then show ?thesis using that(2) [of current] by (auto simp: remove_member_def Let_def)
next
  case False
  then have "snd (remove_member i actor now s) = s" by (auto simp: remove_member_def Let_def split: option.split)
  then show ?thesis using that(1) by blast
qed

lemma leave_effect:
  obtains "snd (leave_org email s) = s" "member_by_email (normalize_email email) s = None"
  | m where "member_by_email (normalize_email email) s = Some m"
      "snd (leave_org email s) = changed (restore_principal (removed_user (normalize_email email)) (delete_member (mb_id m) s))"
  by (cases "member_by_email (normalize_email email) s") (auto simp: leave_org_def)

lemma register_effect:
  obtains "snd (register_token c name role actor added_by now s) = s"
  | shown granted where "parse_role role = Some granted" "may_grant_token_role actor granted False" "token_of (js_trim c) s = None"
      "snd (register_token c name role actor added_by now s) = changed (restore_principal (removed_token (js_trim c)) (s\<lparr>ms_tokens := ms_tokens s @
         [\<lparr>tk_client_id = js_trim c, tk_name = shown, tk_role = role, tk_added_at = now, tk_added_by = added_by\<rparr>]\<rparr>))"
proof (cases "valid_client_id (js_trim c) \<and> token_of (js_trim c) s = None \<and> (\<exists>granted. parse_role role = Some granted \<and> may_grant_token_role actor granted False)")
  case False
  then have "snd (register_token c name role actor added_by now s) = s"
    by (auto simp: register_token_def Let_def split: option.split)
  then show ?thesis using that(1) by blast
next
  case True
  then obtain granted where g: "parse_role role = Some granted" "may_grant_token_role actor granted False" by blast
  show ?thesis
  proof (cases "case name of None \<Rightarrow> Some (js_trim c) | Some n \<Rightarrow> clean_name n")
    case None
    then show ?thesis using that(1) True g by (simp add: register_token_def Let_def)
  next
    case (Some shown)
    then show ?thesis using that(2) [OF g, of shown] True g by (simp add: register_token_def Let_def)
  qed
qed

lemma token_role_effect:
  obtains "snd (set_token_role c role actor s) = s"
  | t granted where "parse_role role = Some granted" "token_of (js_trim c) s = Some t" "may_grant_token_role actor granted True"
      "snd (set_token_role c role actor s) = s\<lparr>ms_tokens := map (\<lambda>t. if tk_client_id t = js_trim c then t\<lparr>tk_role := role\<rparr> else t) (ms_tokens s)\<rparr>"
proof (cases "\<exists>t granted. parse_role role = Some granted \<and> token_of (js_trim c) s = Some t \<and> may_grant_token_role actor granted True \<and>
    \<not> (role_or_member (tk_role t) \<noteq> RoleMember \<and> \<not> may_remove_token actor (role_or_member (tk_role t)))")
  case True
  then show ?thesis using that(2) by (auto simp: set_token_role_def Let_def)
next
  case False
  then have "snd (set_token_role c role actor s) = s" by (auto simp: set_token_role_def Let_def split: option.split)
  then show ?thesis using that(1) by blast
qed

lemma remove_token_effect:
  obtains "snd (remove_token c actor now s) = s"
  | t where "token_of (js_trim c) s = Some t" "may_remove_token actor (role_or_member (tk_role t))"
      "snd (remove_token c actor now s) = changed (tombstone (removed_token (js_trim c)) now (s\<lparr>ms_tokens := filter (\<lambda>t. tk_client_id t \<noteq> js_trim c) (ms_tokens s)\<rparr>))"
proof (cases "\<exists>t. token_of (js_trim c) s = Some t \<and> may_remove_token actor (role_or_member (tk_role t))")
  case True
  then show ?thesis using that(2) by (auto simp: remove_token_def Let_def)
next
  case False
  then have "snd (remove_token c actor now s) = s" by (auto simp: remove_token_def Let_def split: option.split)
  then show ?thesis using that(1) by blast
qed

text \<open>The calls on teams and settings leave members, tokens and removals alone.\<close>

definition same_people :: "member_store \<Rightarrow> member_store \<Rightarrow> bool" where
  "same_people s s1 \<longleftrightarrow> ms_members s1 = ms_members s \<and> ms_tokens s1 = ms_tokens s \<and> ms_removed s1 = ms_removed s \<and>
     mr_counter (ms_state s1) = mr_counter (ms_state s) \<and> mr_admins_migrated (ms_state s1) = mr_admins_migrated (ms_state s)"

fun team_call :: "member_call \<Rightarrow> bool" where
  "team_call (SettingsCall _ _ _ _) = True"
| "team_call (CreateTeamCall _ _ _) = True"
| "team_call (RenameTeamCall _ _) = True"
| "team_call (DeleteTeamCall _) = True"
| "team_call (AddTeamMemberCall _ _) = True"
| "team_call (RemoveTeamMemberCall _ _) = True"
| "team_call (MarkSyncedCall _) = True"
| "team_call _ = False"

lemma team_calls_keep_people: "team_call call \<Longrightarrow> same_people s (member_run call s)"
proof (cases call)
  case (SettingsCall a c t g)
  then show ?thesis
    by (simp add: same_people_def set_if_def set_auto_join_def set_private_credentials_def set_private_toolkits_def set_private_agents_def
        split: option.split)
qed (simp_all add: same_people_def create_team_def rename_team_def delete_team_def add_team_member_def remove_team_member_def
    mark_index_synced_def Let_def split: option.split)

end
