(* ===== verification/Members_Properties.thy ===== *)
theory Members_Properties
  imports Members_Effects
begin

text \<open>
  What the members store promises: sound tables, an owner that stays, removals that hold, roles that nobody gives
  themselves, and a counter that no change of the index escapes.
\<close>

definition run_calls :: "member_call list \<Rightarrow> member_store \<Rightarrow> member_store" where
  "run_calls calls s = foldl (\<lambda>s call. member_run call s) s calls"

lemma run_calls_Cons [simp]: "run_calls [] s = s" "run_calls (call # calls) s = run_calls calls (member_run call s)"
  by (simp_all add: run_calls_def)

lemma run_calls_invariant:
  assumes "\<And>call s. call \<in> set calls \<Longrightarrow> I s \<Longrightarrow> I (member_run call s)" "I s"
  shows "I (run_calls calls s)"
  using assms by (induction calls arbitrary: s) auto

lemma members_ok_calls: "members_ok (run_calls calls (new_member_store global auto_join))"
  by (rule run_calls_invariant) (auto intro: members_ok_run members_ok_new)

text \<open>C20. Whatever is called, in whatever order, the tables stay sound: ids, emails, team names and Client IDs are unique,
  emails valid and in lower case, roles roles, and every link of a team names a team and a member there is.
\<close>

theorem members_store_stays_sound: "members_ok (run_calls calls (new_member_store global auto_join))"
  by (rule members_ok_calls)

subsection \<open>An owner stays\<close>

lemma role_or_member_owner: "is_org_role r \<Longrightarrow> role_or_member r = RoleOwner \<longleftrightarrow> r = ''owner''"
  by (auto simp: is_org_role_texts role_or_member_def parse_role_def)

lemma member_found:
  assumes "members_ok s" "member_by_id i s = Some m"
  shows "m \<in> set (ms_members s)" "mb_id m = i" "is_org_role (mb_role m)" "\<And>n. n \<in> set (ms_members s) \<Longrightarrow> mb_id n = i \<Longrightarrow> n = m"
proof -
  show m: "m \<in> set (ms_members s)" "mb_id m = i" using assms(2) find_key_Some [of mb_id i "ms_members s" m] by (simp_all add: member_by_id_def)
  show "is_org_role (mb_role m)" using members_okD(1) [OF assms(1)] m by (auto simp: member_rows_ok_def list_all_iff)
  show "n = m" if "n \<in> set (ms_members s)" "mb_id n = i" for n
    using members_okD(1) [OF assms(1)] that m by (auto simp: member_rows_ok_def distinct_map inj_on_def)
qed

lemma count_of_one:
  "distinct (map f xs) \<Longrightarrow> x \<in> set xs \<Longrightarrow> length (filter P xs) = (if P x then 1 else 0) + length (filter P (filter (\<lambda>y. f y \<noteq> f x) xs))"
proof (induction xs)
  case (Cons a xs)
  show ?case
  proof (cases "a = x")
    case True
    then have "filter (\<lambda>y. f y \<noteq> f x) xs = xs" using Cons.prems(1) by (simp add: filter_id_conv) (metis image_eqI)
    then show ?thesis using True by simp
  next
    case False
    then show ?thesis using Cons by (auto simp: image_iff)
  qed
qed simp

text \<open>C19. The last owner stays: no change of a role and no removal leaves an org that had an owner with members and no owner.
\<close>

theorem last_owner_stays:
  assumes "members_ok s" "owner_count s \<noteq> 0" "call = RoleCall i role actor \<or> call = RemoveCall i actor now"
  shows "ms_members (member_run call s) = [] \<or> owner_count (member_run call s) \<noteq> 0"
  using assms(3)
proof
  assume call: "call = RoleCall i role actor"
  show ?thesis
  proof (rule role_effect [of i role actor s])
    fix current
    assume c: "member_by_id i s = Some current" "\<not> (mb_role current = ''owner'' \<and> role \<noteq> ''owner'' \<and> owner_count s = 1)"
      "snd (set_member_role i role actor s) = set_member i role s"
    note m = member_found [OF assms(1) c(1)]
    have dist: "distinct (map mb_id (ms_members s))" using members_okD(1) [OF assms(1)] by (simp add: member_rows_ok_def)
    let ?rest = "filter (\<lambda>n. mb_id n \<noteq> mb_id current) (ms_members s)"
    let ?set = "\<lambda>n. if mb_id n = i then n\<lparr>mb_role := role\<rparr> else n"
    have "owner_count s = (if mb_role current = ''owner'' then 1 else 0) + length (filter (\<lambda>n. mb_role n = ''owner'') ?rest)"
      unfolding owner_count_def by (rule count_of_one [OF dist m(1)])
    moreover have "owner_count (set_member i role s) = (if role = ''owner'' then 1 else 0) + length (filter (\<lambda>n. mb_role n = ''owner'') ?rest)"
    proof -
      have "owner_count (set_member i role s) = length (filter (\<lambda>n. mb_role (?set n) = ''owner'') (ms_members s))"
        by (simp add: owner_count_def filter_map comp_def)
      also have "\<dots> = (if mb_role (?set current) = ''owner'' then 1 else 0) + length (filter (\<lambda>n. mb_role (?set n) = ''owner'') ?rest)"
        by (rule count_of_one [OF dist m(1)])
      also have "filter (\<lambda>n. mb_role (?set n) = ''owner'') ?rest = filter (\<lambda>n. mb_role n = ''owner'') ?rest"
        using m(2) by (intro filter_cong) auto
      finally show ?thesis using m(2) by simp
    qed
    ultimately show ?thesis using call c(2,3) assms(2) by (auto split: if_splits)
  qed (use call assms(2) in simp)
next
  assume call: "call = RemoveCall i actor now"
  show ?thesis
  proof (rule remove_effect [of i actor now s])
    fix current
    assume c: "member_by_id i s = Some current"
      "\<not> (role_or_member (mb_role current) = RoleOwner \<and> owner_count s = 1 \<and> other_members i s > 0)"
      "remove_member i actor now s = (Reply (mb_email current), changed (tombstone (removed_user (mb_email current)) now (delete_member i s)))"
    note m = member_found [OF assms(1) c(1)]
    have dist: "distinct (map mb_id (ms_members s))" using members_okD(1) [OF assms(1)] by (simp add: member_rows_ok_def)
    have "owner_count s = (if mb_role current = ''owner'' then 1 else 0) + owner_count (delete_member i s)"
      using count_of_one [OF dist m(1), of "\<lambda>n. mb_role n = ''owner''"] m(2) by (simp add: owner_count_def)
    moreover have "ms_members (delete_member i s) = [] \<longleftrightarrow> other_members i s = 0" by (simp add: other_members_def)
    moreover have "owner_count (member_run call s) = owner_count (delete_member i s)" "ms_members (member_run call s) = ms_members (delete_member i s)"
      using call c(3) by (simp_all add: owner_count_def)
    ultimately show ?thesis using c(2) assms(2) role_or_member_owner [OF m(3)] by (auto split: if_splits)
  qed (use call assms(2) in simp)
qed

definition sample_owner :: actor where "sample_owner = \<lparr>ac_role = RoleOwner, ac_sensitive = False\<rparr>"

definition two_members :: member_store where
  "two_members = run_calls [AddCall [''a''] ''ann@x.org'' ''owner'' sample_owner ''sign-up'' 1, AddCall [''b''] ''bob@x.org'' ''member'' sample_owner ''ann'' 2]
     (new_member_store False True)"

theorem last_owner_stays_witness:
  "owner_count (member_run (RemoveCall ''mem-a'' sample_owner 3) two_members) \<noteq> 0"
proof -
  have "members_ok two_members" unfolding two_members_def by (rule members_ok_calls)
  moreover have "owner_count two_members \<noteq> 0" by code_simp
  ultimately have "ms_members (member_run (RemoveCall ''mem-a'' sample_owner 3) two_members) = [] \<or>
      owner_count (member_run (RemoveCall ''mem-a'' sample_owner 3) two_members) \<noteq> 0"
    by (rule last_owner_stays) simp
  moreover have "ms_members (member_run (RemoveCall ''mem-a'' sample_owner 3) two_members) \<noteq> []" by code_simp
  ultimately show ?thesis by blast
qed

subsection \<open>Removals hold\<close>

fun adds_back :: "string \<Rightarrow> member_call \<Rightarrow> bool" where
  "adds_back email (AddCall _ given _ _ _ _) = (normalize_email given = email)"
| "adds_back email _ = False"

definition kept_out :: "string \<Rightarrow> member_store \<Rightarrow> bool" where
  "kept_out email s \<longleftrightarrow> mr_admins_migrated (ms_state s) \<and> is_removed (removed_user email) s \<and> email \<notin> set (map mb_email (ms_members s))"

lemma kept_out_same: "same_people s s1 \<Longrightarrow> kept_out email s \<Longrightarrow> kept_out email s1"
  by (simp add: kept_out_def same_people_def is_removed_def)

lemma removed_user_inj [simp]: "removed_user a = removed_user b \<longleftrightarrow> a = b"
  by (simp add: removed_user_def)

lemma removed_kinds [simp]: "removed_user a \<noteq> removed_token b" "removed_token b \<noteq> removed_user a"
  by (simp_all add: removed_user_def removed_token_def)

lemma is_removed_simps [simp]:
  "is_removed p (changed s) = is_removed p s" "is_removed p (delete_member i s) = is_removed p s" "is_removed p (set_member i r s) = is_removed p s"
  "is_removed p (tombstone q n s) = (p = q \<or> is_removed p s)" "is_removed p (restore_principal q s) = (p \<noteq> q \<and> is_removed p s)"
  "is_removed p (s\<lparr>ms_members := ms\<rparr>) = is_removed p s" "is_removed p (s\<lparr>ms_tokens := ts\<rparr>) = is_removed p s"
  by (auto simp: is_removed_def update_conv' delete_conv')

lemma kept_out_join:
  assumes "kept_out email s" "insert_member draws e granted now added_by s = Some (i, rest, s1)" "e \<noteq> email"
  shows "kept_out email s1"
  using assms insert_member_Some [OF assms(2)] by (auto simp: kept_out_def)

lemma kept_out_changed [simp]: "kept_out email (changed s) = kept_out email s"
  by (simp add: kept_out_def)

lemma kept_out_set_member [simp]: "kept_out email (set_member i r s) = kept_out email s"
proof -
  have "map mb_email (ms_members (set_member i r s)) = map mb_email (ms_members s)" by simp
  then show ?thesis unfolding kept_out_def by (simp only: set_member_fields(5) is_removed_simps)
qed

lemma kept_out_not_found: "kept_out email s \<Longrightarrow> member_by_email email s = None"
  by (simp add: kept_out_def row_lookups find_map_None del: set_map)

lemma kept_out_joined:
  assumes "kept_out email s" "insert_member draws e granted now added_by s = Some (i, rest, s1)" "\<not> is_removed (removed_user e) s"
  shows "kept_out email s1"
  using kept_out_join [OF assms(1,2)] assms(1,3) by (auto simp: kept_out_def)

lemma kept_out_restore: "kept_out email s \<Longrightarrow> e \<noteq> email \<Longrightarrow> kept_out email (restore_principal (removed_user e) s)"
  by (simp add: kept_out_def)

lemma kept_out_run:
  assumes "\<not> adds_back email call" "kept_out email s"
  shows "kept_out email (member_run call s)"
proof (cases call)
  case (SeedCall emails draws now)
  then show ?thesis using assms(2) by (simp add: seed_platform_admins_def kept_out_def)
next
  case (AdmitCall draws who auto_join now)
  show ?thesis
    by (rule admit_effect [of draws who auto_join now s])
      (simp_all add: AdmitCall assms(2) kept_out_joined [OF assms(2)])
next
  case (SsoCall draws given now)
  show ?thesis
    by (rule sso_effect [of draws given now s])
      (simp_all add: SsoCall assms(2) kept_out_joined [OF assms(2)])
next
  case (AddCall draws given role actor added_by now)
  show ?thesis
    by (rule add_effect [of draws given role actor added_by now s])
      (use AddCall assms(1) in \<open>simp_all add: assms(2) kept_out_restore [OF kept_out_join [OF assms(2)]]\<close>)
next
  case (RoleCall i role actor)
  show ?thesis
    by (rule role_effect [of i role actor s]) (simp_all add: RoleCall assms(2))
next
  case (RemoveCall i actor now)
  show ?thesis
    by (rule remove_effect [of i actor now s]) (use RemoveCall assms(2) in \<open>auto simp: kept_out_def\<close>)
next
  case (LeaveCall given)
  show ?thesis
    by (rule leave_effect [of given s])
      (use LeaveCall assms(2) kept_out_not_found [OF assms(2)] in \<open>auto simp: kept_out_def\<close>)
next
  case (RegisterTokenCall c name role actor added_by now)
  show ?thesis
    by (rule register_effect [of c name role actor added_by now s]) (use RegisterTokenCall assms(2) in \<open>auto simp: kept_out_def\<close>)
next
  case (TokenRoleCall c role actor)
  show ?thesis
    by (rule token_role_effect [of c role actor s]) (use TokenRoleCall assms(2) in \<open>auto simp: kept_out_def\<close>)
next
  case (RemoveTokenCall c actor now)
  show ?thesis
    by (rule remove_token_effect [of c actor now s]) (use RemoveTokenCall assms(2) in \<open>auto simp: kept_out_def\<close>)
next
  case (WithdrawTokenCall c)
  then show ?thesis using assms(2) by (simp add: withdraw_token_def kept_out_def)
qed (use assms(2) kept_out_same team_calls_keep_people in \<open>metis team_call.simps\<close>)+

text \<open>C18. A removal holds: once an admin removed a person, no call lets them in again, not auto-join, not single sign-on and not
  deleting an account, until somebody adds that email; until then they are not a member.
\<close>

theorem removed_person_stays_out:
  assumes "members_ok s" "mr_admins_migrated (ms_state s)" "fst (remove_member i actor now s) = Reply email"
    and "list_all (\<lambda>call. \<not> adds_back email call) calls"
  shows "member_by_email email (run_calls calls (snd (remove_member i actor now s))) = None"
proof -
  obtain m where m: "member_by_id i s = Some m" "email = mb_email m"
    and s1: "snd (remove_member i actor now s) = changed (tombstone (removed_user email) now (delete_member i s))"
    using assms(3) by (auto simp: remove_member_def Let_def split: option.splits if_splits)
  note found = member_found [OF assms(1) m(1)]
  have "distinct (map mb_email (ms_members s))" using members_okD(1) [OF assms(1)] by (simp add: member_rows_ok_def)
  then have "n = m" if "n \<in> set (ms_members s)" "mb_email n = email" for n
    using that found(1) m(2) by (auto simp: distinct_map inj_on_def)
  then have "kept_out email (snd (remove_member i actor now s))"
    using found(2) assms(2) by (auto simp: s1 kept_out_def)
  moreover have "kept_out email t \<Longrightarrow> kept_out email (member_run call t)" if "call \<in> set calls" for call t
    using assms(4) that kept_out_run by (simp add: list_all_iff)
  ultimately have "kept_out email (run_calls calls (snd (remove_member i actor now s)))"
    by (rule run_calls_invariant [rotated])
  then show ?thesis by (rule kept_out_not_found)
qed

definition seeded_members :: member_store where
  "seeded_members = run_calls [SeedCall [] [] 0, AddCall [''a''] ''ann@x.org'' ''owner'' sample_owner ''sign-up'' 1,
     AddCall [''b''] ''bob@x.org'' ''member'' sample_owner ''ann'' 2] (new_member_store True True)"

theorem removed_person_stays_out_witness:
  "member_by_email ''bob@x.org'' (run_calls [AdmitCall [''c''] (UserRef ''Bob@x.org'') True 4] (snd (remove_member ''mem-b'' sample_owner 3 seeded_members))) = None"
proof (rule removed_person_stays_out)
  show "members_ok seeded_members" unfolding seeded_members_def by (rule members_ok_calls)
  show "mr_admins_migrated (ms_state seeded_members)" by code_simp
  show "fst (remove_member ''mem-b'' sample_owner 3 seeded_members) = Reply ''bob@x.org''" by code_simp
qed simp

subsection \<open>Who may give which role\<close>

fun actor_of :: "member_call \<Rightarrow> actor option" where
  "actor_of (AddCall _ _ _ actor _ _) = Some actor"
| "actor_of (RoleCall _ _ actor) = Some actor"
| "actor_of (RemoveCall _ actor _) = Some actor"
| "actor_of (RegisterTokenCall _ _ _ actor _ _) = Some actor"
| "actor_of (TokenRoleCall _ _ actor) = Some actor"
| "actor_of (RemoveTokenCall _ actor _) = Some actor"
| "actor_of _ = None"

text \<open>The members and the service tokens that hold a role above plain member.\<close>

definition elevated_members :: "member_store \<Rightarrow> (string \<times> string) list" where
  "elevated_members s = map (\<lambda>m. (mb_email m, mb_role m)) (filter (\<lambda>m. mb_role m \<noteq> ''member'') (ms_members s))"

definition elevated_tokens :: "member_store \<Rightarrow> (string \<times> string) list" where
  "elevated_tokens s = map (\<lambda>t. (tk_client_id t, tk_role t)) (filter (\<lambda>t. tk_role t \<noteq> ''member'') (ms_tokens s))"

lemma elevated_simps [simp]:
  "elevated_members (changed s) = elevated_members s" "elevated_members (restore_principal p s) = elevated_members s"
  "elevated_members (tombstone p n s) = elevated_members s" "elevated_members (s\<lparr>ms_tokens := ts\<rparr>) = elevated_members s"
  "elevated_tokens (changed s) = elevated_tokens s" "elevated_tokens (restore_principal p s) = elevated_tokens s"
  "elevated_tokens (tombstone p n s) = elevated_tokens s" "elevated_tokens (s\<lparr>ms_members := ms\<rparr>) = elevated_tokens s"
  "elevated_tokens (delete_member i s) = elevated_tokens s" "elevated_tokens (set_member i r s) = elevated_tokens s"
  by (simp_all add: elevated_members_def elevated_tokens_def)

lemma role_or_member_plain: "is_org_role r \<Longrightarrow> role_or_member r = RoleMember \<longleftrightarrow> r = ''member''"
  by (auto simp: is_org_role_texts role_or_member_def parse_role_def)

lemma token_found:
  assumes "members_ok s" "token_of c s = Some t"
  shows "is_org_role (tk_role t)" "\<And>u. u \<in> set (ms_tokens s) \<Longrightarrow> tk_client_id u = c \<Longrightarrow> u = t"
proof -
  have t: "t \<in> set (ms_tokens s)" "tk_client_id t = c" using assms(2) find_key_Some [of tk_client_id c "ms_tokens s" t] by (simp_all add: token_of_def)
  show "is_org_role (tk_role t)" using members_okD(4) [OF assms(1)] t by (auto simp: token_rows_ok_def list_all_iff)
  show "u = t" if "u \<in> set (ms_tokens s)" "tk_client_id u = c" for u
    using members_okD(4) [OF assms(1)] that t by (auto simp: token_rows_ok_def distinct_map inj_on_def)
qed

lemma elevated_delete_plain:
  assumes "members_ok s" "member_by_id i s = Some m" "mb_role m = ''member''"
  shows "elevated_members (delete_member i s) = elevated_members s"
proof -
  have "filter (\<lambda>m. mb_role m \<noteq> ''member'') (filter (\<lambda>m. mb_id m \<noteq> i) (ms_members s)) = filter (\<lambda>m. mb_role m \<noteq> ''member'') (ms_members s)"
    unfolding filter_filter using member_found(4) [OF assms(1,2)] assms(3) by (intro filter_cong) auto
  then show ?thesis by (simp add: elevated_members_def)
qed

lemma elevated_insert_plain:
  "insert_member draws e RoleMember now added_by s = Some (i, rest, s1) \<Longrightarrow> elevated_members s1 = elevated_members s \<and> elevated_tokens s1 = elevated_tokens s"
  using insert_member_Some(3) by (force simp: elevated_members_def elevated_tokens_def role_text_def)

lemma insert_keeps_tokens: "insert_member draws e r now added_by s = Some (i, rest, s1) \<Longrightarrow> elevated_tokens s1 = elevated_tokens s"
  using insert_member_Some(3) by (force simp: elevated_tokens_def)

text \<open>C17. Nobody gives a role they may not give: a call made by a plain member changes nothing; one made by anyone below owner
  leaves every owner and admin, person or token, as they were and makes no new ones; and without the sensitive powers no
  service token gains a role above plain member.
\<close>

theorem roles_are_not_escalated:
  assumes "members_ok s" "actor_of call = Some actor"
  shows "(ac_role actor = RoleMember \<longrightarrow> member_run call s = s) \<and>
    (ac_role actor \<noteq> RoleOwner \<longrightarrow> elevated_members (member_run call s) = elevated_members s \<and> elevated_tokens (member_run call s) = elevated_tokens s) \<and>
    (\<not> ac_sensitive actor \<longrightarrow> set (elevated_tokens (member_run call s)) \<subseteq> set (elevated_tokens s))"
  using assms(2)
proof (cases call)
  case (AddCall draws given role ac added_by now)
  show ?thesis
  proof (rule add_effect [of draws given role ac added_by now s])
    fix i rest s1 granted
    assume g: "parse_role role = Some granted" "may_manage_member ac granted"
      and ins: "insert_member draws (normalize_email given) granted now added_by s = Some (i, rest, s1)"
      and run: "snd (add_member draws given role ac added_by now s) = changed (restore_principal (removed_user (normalize_email given)) s1)"
    have "ac_role actor \<noteq> RoleMember" "ac_role actor \<noteq> RoleOwner \<longrightarrow> granted = RoleMember"
      using g(2) AddCall assms(2) by (auto simp: may_manage_member_def split: if_splits)
    then show ?thesis using AddCall assms(2) run insert_keeps_tokens [OF ins] elevated_insert_plain ins by auto
  qed (use AddCall in simp)
next
  case (RoleCall i role ac)
  show ?thesis
    by (rule role_effect [of i role ac s]) (use RoleCall assms(2) in simp_all)
next
  case (RemoveCall i ac now)
  show ?thesis
  proof (rule remove_effect [of i ac now s])
    fix m
    assume m: "member_by_id i s = Some m" "may_manage_member ac (role_or_member (mb_role m))"
      and run: "remove_member i ac now s = (Reply (mb_email m), changed (tombstone (removed_user (mb_email m)) now (delete_member i s)))"
    have "ac_role actor \<noteq> RoleMember" "ac_role actor \<noteq> RoleOwner \<longrightarrow> mb_role m = ''member''"
      using m(2) RemoveCall assms(2) role_or_member_plain [OF member_found(3) [OF assms(1) m(1)]] by (auto simp: may_manage_member_def split: if_splits)
    then show ?thesis using RemoveCall assms(2) run elevated_delete_plain [OF assms(1) m(1)] by auto
  qed (use RemoveCall in simp)
next
  case (RegisterTokenCall c name role ac added_by now)
  show ?thesis
  proof (rule register_effect [of c name role ac added_by now s])
    fix shown granted
    assume g: "parse_role role = Some granted" "may_grant_token_role ac granted False"
      and run: "snd (register_token c name role ac added_by now s) = changed (restore_principal (removed_token (js_trim c)) (s\<lparr>ms_tokens := ms_tokens s @
         [\<lparr>tk_client_id = js_trim c, tk_name = shown, tk_role = role, tk_added_at = now, tk_added_by = added_by\<rparr>]\<rparr>))"
    have "ac_role actor \<noteq> RoleMember" "ac_role actor \<noteq> RoleOwner \<longrightarrow> role = ''member''" "\<not> ac_sensitive actor \<longrightarrow> role = ''member''"
      using g RegisterTokenCall assms(2) by (auto simp: may_grant_token_role_def parse_role_Some role_text_def split: if_splits)
    then show ?thesis using RegisterTokenCall run by (auto simp: elevated_tokens_def)
  qed (use RegisterTokenCall in simp)
next
  case (TokenRoleCall c role ac)
  show ?thesis
  proof (rule token_role_effect [of c role ac s])
    fix t granted
    assume g: "parse_role role = Some granted" "may_grant_token_role ac granted True"
      and run: "snd (set_token_role c role ac s) = s\<lparr>ms_tokens := map (\<lambda>t. if tk_client_id t = js_trim c then t\<lparr>tk_role := role\<rparr> else t) (ms_tokens s)\<rparr>"
    have "ac_role actor = RoleOwner" "\<not> ac_sensitive actor \<longrightarrow> role = ''member''"
      using g TokenRoleCall assms(2) by (auto simp: may_grant_token_role_def parse_role_Some role_text_def split: if_splits)
    then show ?thesis using TokenRoleCall run by (auto simp: elevated_tokens_def split: if_splits)
  qed (use TokenRoleCall in simp)
next
  case (RemoveTokenCall c ac now)
  show ?thesis
  proof (rule remove_token_effect [of c ac now s])
    fix t
    assume t: "token_of (js_trim c) s = Some t" "may_remove_token ac (role_or_member (tk_role t))"
      and run: "snd (remove_token c ac now s) = changed (tombstone (removed_token (js_trim c)) now (s\<lparr>ms_tokens := filter (\<lambda>t. tk_client_id t \<noteq> js_trim c) (ms_tokens s)\<rparr>))"
    have r: "ac_role actor \<noteq> RoleMember" "ac_role actor \<noteq> RoleOwner \<longrightarrow> tk_role t = ''member''"
      using t(2) RemoveTokenCall assms(2) role_or_member_plain [OF token_found(1) [OF assms(1) t(1)]] by (auto simp: role_rules split: if_splits)
    have "filter (\<lambda>t. tk_role t \<noteq> ''member'') (filter (\<lambda>t. tk_client_id t \<noteq> js_trim c) (ms_tokens s)) = filter (\<lambda>t. tk_role t \<noteq> ''member'') (ms_tokens s)"
      if "tk_role t = ''member''"
      unfolding filter_filter using token_found(2) [OF assms(1) t(1)] that by (intro filter_cong) auto
    then show ?thesis using RemoveTokenCall assms(2) run r by (auto simp: elevated_tokens_def)
  qed (use RemoveTokenCall in simp)
qed simp_all

definition sample_admin :: actor where "sample_admin = \<lparr>ac_role = RoleAdmin, ac_sensitive = False\<rparr>"

theorem roles_are_not_escalated_witness:
  "elevated_members (member_run (RoleCall ''mem-b'' ''owner'' sample_admin) two_members) = [(''ann@x.org'', ''owner'')]"
proof -
  have ok: "members_ok two_members" unfolding two_members_def by (rule members_ok_calls)
  have "elevated_members two_members = [(''ann@x.org'', ''owner'')]" by code_simp
  with roles_are_not_escalated [OF ok, of "RoleCall ''mem-b'' ''owner'' sample_admin" sample_admin]
  show ?thesis by (simp add: sample_admin_def)
qed

subsection \<open>The index\<close>

definition index_lists :: "member_store \<Rightarrow> string list \<times> string list" where
  "index_lists s = (mi_emails (membership_index_of s), mi_service_tokens (membership_index_of s))"

lemma index_lists_same: "ms_members s1 = ms_members s \<Longrightarrow> ms_tokens s1 = ms_tokens s \<Longrightarrow> index_lists s1 = index_lists s"
  by (simp add: index_lists_def membership_index_of_def)

lemma index_lists_keys:
  "map mb_email (ms_members s1) = map mb_email (ms_members s) \<Longrightarrow> map tk_client_id (ms_tokens s1) = map tk_client_id (ms_tokens s) \<Longrightarrow>
   index_lists s1 = index_lists s"
  by (simp add: index_lists_def membership_index_of_def del: set_map)

lemma seed_each_state: "seed_each emails draws now s = Some s1 \<Longrightarrow> ms_state s1 = ms_state s \<and> ms_tokens s1 = ms_tokens s \<and> ms_removed s1 = ms_removed s"
proof (induction emails draws now s rule: seed_each.induct)
  case (2 email emails draws now s)
  show ?case
  proof (cases "valid_email email")
    case False
    then show ?thesis using 2 by simp
  next
    case True
    show ?thesis
    proof (cases "member_by_email email s")
      case None
      then obtain i rest s2 where ins: "insert_member draws email RoleOwner now platform_admin_seed_actor s = Some (i, rest, s2)"
        and run: "seed_each emails rest now s2 = Some s1"
        using 2(4) True by (auto split: option.splits)
      then show ?thesis using 2(2) [OF _ None ins refl refl run] True insert_member_Some(3) [OF ins] by simp
    next
      case (Some m)
      then show ?thesis using 2(3) [OF _ Some] 2(4) True by simp
    qed
  qed
qed simp

lemma insert_keeps_state: "insert_member draws e r now added_by s = Some (i, rest, s1) \<Longrightarrow> ms_state s1 = ms_state s"
  using insert_member_Some(3) by force

lemma index_lists_set_member [simp]: "index_lists (set_member i r s) = index_lists s"
  by (rule index_lists_keys) simp_all

lemma index_change_counted:
  "mr_counter (ms_state s) \<le> mr_counter (ms_state (member_run call s)) \<and>
   (mr_counter (ms_state (member_run call s)) = mr_counter (ms_state s) \<longrightarrow> index_lists (member_run call s) = index_lists s)"
proof (cases call)
  case (SeedCall emails draws now)
  show ?thesis
  proof (cases "mr_admins_migrated (ms_state s)")
    case True
    then show ?thesis using SeedCall by (simp add: seed_platform_admins_def)
  next
    case False
    then show ?thesis
      using seed_each_state [of "js_set (map normalize_email emails)" draws now s] SeedCall index_lists_same [of "s\<lparr>ms_state := _\<rparr>" s]
      by (cases "seed_each (js_set (map normalize_email emails)) draws now s") (simp_all add: seed_platform_admins_def)
  qed
next
  case (AdmitCall draws who auto_join now)
  show ?thesis
    by (rule admit_effect [of draws who auto_join now s]) (simp_all add: AdmitCall insert_keeps_state)
next
  case (SsoCall draws given now)
  show ?thesis
    by (rule sso_effect [of draws given now s]) (simp_all add: SsoCall insert_keeps_state)
next
  case (AddCall draws given role actor added_by now)
  show ?thesis
    by (rule add_effect [of draws given role actor added_by now s]) (simp_all add: AddCall insert_keeps_state)
next
  case (RoleCall i role actor)
  show ?thesis by (rule role_effect [of i role actor s]) (simp_all add: RoleCall)
next
  case (RemoveCall i actor now)
  show ?thesis by (rule remove_effect [of i actor now s]) (simp_all add: RemoveCall)
next
  case (LeaveCall given)
  show ?thesis by (rule leave_effect [of given s]) (simp_all add: LeaveCall)
next
  case (RegisterTokenCall c name role actor added_by now)
  show ?thesis by (rule register_effect [of c name role actor added_by now s]) (simp_all add: RegisterTokenCall)
next
  case (TokenRoleCall c role actor)
  have same: "index_lists (s\<lparr>ms_tokens := map (\<lambda>t. if tk_client_id t = js_trim c then t\<lparr>tk_role := role\<rparr> else t) (ms_tokens s)\<rparr>) = index_lists s"
    by (rule index_lists_keys) simp_all
  show ?thesis by (rule token_role_effect [of c role actor s]) (simp_all add: TokenRoleCall same)
next
  case (RemoveTokenCall c actor now)
  show ?thesis by (rule remove_token_effect [of c actor now s]) (simp_all add: RemoveTokenCall)
next
  case (WithdrawTokenCall c)
  then show ?thesis by (simp add: withdraw_token_def)
qed (use team_calls_keep_people [of call s] index_lists_same [of "member_run call s" s] in \<open>metis same_people_def team_call.simps order_refl\<close>)+

end
