(* ===== verification/Index_Sync.thy ===== *)
theory Index_Sync
  imports Registry_Properties Members_Properties
begin

text \<open>
  Keeping the Platform registry's index in step with an org's members (\<open>syncOrgIndex\<close> of \<open>packages/auth/src/admission.ts\<close>):
  a sync reads the org's lists and counter, pushes the lists to the registry and tells the org which counter the registry
  holds. Its three calls reach two Durable Objects one after another, so other calls run in between; a sync may also stop
  after any of them. The number of syncs that may run at once is a parameter.
\<close>

definition sync_read :: "member_store \<Rightarrow> membership_index option" where
  "sync_read s = (let index = membership_index_of s in if mi_synced index then None else Some index)"

definition sync_push :: "string \<Rightarrow> membership_index \<Rightarrow> registry \<Rightarrow> index_repair option \<times> registry" where
  "sync_push org index r = replace_org_index org (mi_emails index) (mi_service_tokens index) r"

text \<open>A sync that nothing interrupts.\<close>

definition sync_org_index :: "string \<Rightarrow> member_store \<Rightarrow> registry \<Rightarrow> member_store \<times> registry" where
  "sync_org_index org s r =
     (case sync_read s of
        None \<Rightarrow> (s, r)
      | Some index \<Rightarrow>
          (case sync_push org index r of
             (None, r1) \<Rightarrow> (s, r1)
           | (Some repair, r1) \<Rightarrow> (mark_index_synced (mi_counter index) s, r1)))"

record sync_world =
  sw_store :: member_store
  sw_registry :: registry
  sw_syncs :: "(membership_index \<times> bool) list"

definition drop_nth :: "nat \<Rightarrow> 'a list \<Rightarrow> 'a list" where
  "drop_nth i xs = take i xs @ drop (Suc i) xs"

text \<open>The calls of the registry that leave the index of an org and the org itself alone.\<close>

fun leaves_org :: "string \<Rightarrow> registry_call \<Rightarrow> bool" where
  "leaves_org org (DeleteOrgCall i) = (i \<noteq> org)"
| "leaves_org org (RemovePersonCall e) = False"
| "leaves_org org (ReplaceIndexCall o1 es ts) = (o1 \<noteq> org)"
| "leaves_org org call = True"

inductive sync_step :: "string \<Rightarrow> nat \<Rightarrow> sync_world \<Rightarrow> sync_world \<Rightarrow> bool" for org limit where
  member_step: "(\<And>n. call \<noteq> MarkSyncedCall n) \<Longrightarrow> sync_step org limit w (w\<lparr>sw_store := member_run call (sw_store w)\<rparr>)"
| registry_step: "leaves_org org call \<Longrightarrow> sync_step org limit w (w\<lparr>sw_registry := registry_run call (sw_registry w)\<rparr>)"
| read_step: "length (sw_syncs w) < limit \<Longrightarrow> sync_read (sw_store w) = Some index \<Longrightarrow>
    sync_step org limit w (w\<lparr>sw_syncs := sw_syncs w @ [(index, False)]\<rparr>)"
| push_step: "i < length (sw_syncs w) \<Longrightarrow> sw_syncs w ! i = (index, False) \<Longrightarrow> sync_push org index (sw_registry w) = (Some repair, r1) \<Longrightarrow>
    sync_step org limit w (w\<lparr>sw_registry := r1, sw_syncs := (sw_syncs w)[i := (index, True)]\<rparr>)"
| mark_step: "i < length (sw_syncs w) \<Longrightarrow> sw_syncs w ! i = (index, True) \<Longrightarrow>
    sync_step org limit w (w\<lparr>sw_store := mark_index_synced (mi_counter index) (sw_store w), sw_syncs := drop_nth i (sw_syncs w)\<rparr>)"
| stop_step: "i < length (sw_syncs w) \<Longrightarrow> sync_step org limit w (w\<lparr>sw_syncs := drop_nth i (sw_syncs w)\<rparr>)"

inductive sync_run :: "string \<Rightarrow> nat \<Rightarrow> sync_world \<Rightarrow> sync_world \<Rightarrow> bool" for org limit where
  sync_refl: "sync_run org limit w w"
| sync_next: "sync_run org limit w w1 \<Longrightarrow> sync_step org limit w1 w2 \<Longrightarrow> sync_run org limit w w2"

definition sync_start :: "member_store \<Rightarrow> registry \<Rightarrow> sync_world" where
  "sync_start s r = \<lparr>sw_store = s, sw_registry = r, sw_syncs = []\<rparr>"

subsection \<open>Calls between the steps\<close>

lemma index_synced_state:
  "ms_state s1 = ms_state s \<Longrightarrow> mr_index_synced (ms_state (changed s1)) = mr_index_synced (ms_state s)"
  by (simp add: changed_def)

lemma mark_only_syncs:
  assumes "\<And>n. call \<noteq> MarkSyncedCall n"
  shows "mr_index_synced (ms_state (member_run call s)) = mr_index_synced (ms_state s)"
proof (cases call)
  case (SeedCall emails draws now)
  show ?thesis
    using seed_each_state [of "js_set (map normalize_email emails)" draws now s] SeedCall
    by (cases "seed_each (js_set (map normalize_email emails)) draws now s") (auto simp: seed_platform_admins_def changed_def)
next
  case (AdmitCall draws who auto_join now)
  show ?thesis
    by (rule admit_effect [of draws who auto_join now s]) (simp_all add: AdmitCall insert_keeps_state index_synced_state)
next
  case (SsoCall draws given now)
  show ?thesis
    by (rule sso_effect [of draws given now s]) (simp_all add: SsoCall insert_keeps_state index_synced_state)
next
  case (AddCall draws given role actor added_by now)
  show ?thesis
    by (rule add_effect [of draws given role actor added_by now s]) (simp_all add: AddCall insert_keeps_state index_synced_state)
next
  case (RoleCall i role actor)
  show ?thesis by (rule role_effect [of i role actor s]) (simp_all add: RoleCall)
next
  case (RemoveCall i actor now)
  show ?thesis by (rule remove_effect [of i actor now s]) (simp_all add: RemoveCall index_synced_state)
next
  case (LeaveCall given)
  show ?thesis by (rule leave_effect [of given s]) (simp_all add: LeaveCall index_synced_state)
next
  case (RegisterTokenCall c name role actor added_by now)
  show ?thesis by (rule register_effect [of c name role actor added_by now s]) (simp_all add: RegisterTokenCall index_synced_state)
next
  case (TokenRoleCall c role actor)
  show ?thesis by (rule token_role_effect [of c role actor s]) (simp_all add: TokenRoleCall)
next
  case (RemoveTokenCall c actor now)
  show ?thesis by (rule remove_token_effect [of c actor now s]) (simp_all add: RemoveTokenCall index_synced_state)
next
  case (WithdrawTokenCall c)
  then show ?thesis by (simp add: withdraw_token_def index_synced_state)
next
  case (MarkSyncedCall n)
  then show ?thesis using assms by blast
next
  case (SettingsCall a c t g)
  then show ?thesis
    by (simp add: set_if_def set_auto_join_def set_private_credentials_def set_private_toolkits_def set_private_agents_def
        split: option.split)
qed (simp_all add: create_team_def rename_team_def delete_team_def add_team_member_def remove_team_member_def Let_def split: option.split)

lemma set_org_ids: "(\<And>o1. og_id (f o1) = og_id o1) \<Longrightarrow> org_ids (set_org i f r) = org_ids r"
  by (simp add: set_org_def org_ids_def)

lemma rg_members_set_org [simp]: "rg_members (set_org i f r) = rg_members r"
  by (simp add: set_org_def)

lemma insert_org_effect: "insert_org row r = Some r1 \<Longrightarrow> rg_members r1 = rg_members r \<and> set (org_ids r) \<subseteq> set (org_ids r1)"
  by (auto simp: insert_org_def org_ids_def split: if_splits)

lemma upsert_effect [simp]: "rg_members (upsert_person e f r) = rg_members r" "org_ids (upsert_person e f r) = org_ids r"
  by (simp_all add: upsert_person_def)

lemma emails_of_org_cong: "rg_members r1 = rg_members r \<Longrightarrow> emails_of_org org r1 = emails_of_org org r"
  by (simp add: emails_of_org_def)

lemma registry_calls_leave_org:
  assumes "leaves_org org call" "org \<in> set (org_ids r)"
  shows "org \<in> set (org_ids (registry_run call r)) \<and> emails_of_org org (registry_run call r) = emails_of_org org r"
proof (cases call)
  case (CreateOrgCall draw slug name i c now)
  then show ?thesis using assms(2) insert_org_effect
    by (fastforce simp: create_org_def Let_def emails_of_org_def split: option.split)
next
  case (UpdateOrgCall slug s n)
  then show ?thesis using assms(2) by (auto simp: update_org_def Let_def emails_of_org_def set_org_ids split: option.split)
next
  case (RetentionCall i u d)
  then show ?thesis using assms(2) by (auto simp: set_retention_def Let_def emails_of_org_def set_org_ids split: option.split)
next
  case (DeleteOrgCall i)
  have "filter (\<lambda>(_, o1). o1 = org) (filter (\<lambda>(_, o1). o1 \<noteq> i) (rg_members r)) = filter (\<lambda>(_, o1). o1 = org) (rg_members r)"
    unfolding filter_filter using assms(1) DeleteOrgCall by (intro filter_cong) auto
  then show ?thesis using assms DeleteOrgCall by (auto simp: delete_org_def emails_of_org_def org_ids_def)
next
  case (ReplaceIndexCall o1 es ts)
  have "filter (\<lambda>(_, x). x = org) (filter (\<lambda>(_, x). x \<noteq> o1) (rg_members r)) = filter (\<lambda>(_, x). x = org) (rg_members r)"
    unfolding filter_filter using assms(1) ReplaceIndexCall by (intro filter_cong) auto
  moreover have "filter (\<lambda>(_, x). x = org) (map (\<lambda>e. (e, o1)) es) = []" for es :: "string list"
    using assms(1) ReplaceIndexCall by (induction es) auto
  ultimately show ?thesis using assms ReplaceIndexCall by (simp add: replace_org_index_def Let_def case_prod_beta emails_of_org_def)
next
  case (SignInCall ds d e now)
  show ?thesis
  proof (cases "sign_in ds d e now r")
    case (Some a)
    obtain answer r1 where a: "a = (answer, r1)" by (cases a)
    show ?thesis
      by (rule sign_in_effect [OF Some [unfolded a]])
        (use SignInCall Some a assms(2) insert_org_effect in \<open>auto simp: finish_sign_up_def emails_of_org_def\<close>)
  qed (use SignInCall assms(2) in simp)
next
  case (FinishSignUpCall e now)
  then show ?thesis using assms(2) by (simp add: finish_sign_up_def emails_of_org_def)
next
  case (UpdatePersonCall e l b now)
  then show ?thesis using assms(2) by (simp add: update_person_def emails_of_org_def)
next
  case (SuspendOrgCall slug b now)
  then show ?thesis using assms(2) by (auto simp: set_org_suspended_def emails_of_org_def set_org_ids split: option.split)
next
  case (ClaimDomainCall d o1)
  then show ?thesis using assms(2) by (auto simp: claim_sso_domain_def emails_of_org_def split: option.split)
qed (use assms in \<open>simp_all add: release_sso_domain_def set_sso_domain_required_def emails_of_org_def\<close>)


subsection \<open>What a push leaves\<close>

definition good_emails :: "string list \<Rightarrow> bool" where
  "good_emails es \<longleftrightarrow> sorted es \<and> distinct es \<and> list_all (\<lambda>e. e \<noteq> [] \<and> normalize_email e = e) es"

lemma js_trim_none: "list_all (\<lambda>c. \<not> is_ws c) s \<Longrightarrow> js_trim s = s"
proof -
  have "dropWhile is_ws s = s" if "list_all (\<lambda>c. \<not> is_ws c) s" for s using that by (cases s) simp_all
  note d = this
  assume s: "list_all (\<lambda>c. \<not> is_ws c) s"
  then have "list_all (\<lambda>c. \<not> is_ws c) (rev s)" by (simp add: list_all_iff)
  then show ?thesis by (simp add: js_trim_def d [OF s] d)
qed

lemma split_on_chars: "x \<in> set s \<Longrightarrow> x = c \<or> (\<exists>part \<in> set (split_on c s). x \<in> set part)"
proof (induction s)
  case (Cons d s)
  then show ?case by (cases "split_on c s") (auto split: if_splits)
qed simp

lemma valid_email_plain: "valid_email e \<Longrightarrow> e \<noteq> [] \<and> list_all (\<lambda>c. \<not> is_ws c) e"
proof -
  assume v: "valid_email e"
  have parts: "\<forall>part \<in> set (split_on CHR ''@'' e). \<forall>x \<in> set part. email_char x" using v by (simp add: valid_email_def Let_def list_all_iff)
  have at_sign: "\<not> is_ws CHR ''@''" by (simp add: is_ws_def)
  have "\<not> is_ws x" if x: "x \<in> set e" for x
    using split_on_chars [OF x, of "CHR ''@''"]
  proof
    assume "\<exists>part \<in> set (split_on CHR ''@'' e). x \<in> set part"
    then have "email_char x" using parts by blast
    then show ?thesis by (simp add: email_char_def)
  qed (use at_sign in simp)
  moreover have "e \<noteq> []" using v by (auto simp: valid_email_def)
  ultimately show ?thesis by (simp add: list_all_iff)
qed

lemma index_emails_good: "members_ok s \<Longrightarrow> good_emails (mi_emails (membership_index_of s))"
proof -
  assume "members_ok s"
  then have rows: "member_rows_ok (ms_members s)" by (rule members_okD(1))
  have "e \<noteq> [] \<and> normalize_email e = e" if "e \<in> mb_email ` set (ms_members s)" for e
    using that rows valid_email_plain [of e] js_trim_none [of e] by (auto simp: member_rows_ok_def list_all_iff normalize_email_def)
  then show ?thesis using rows by (auto simp: good_emails_def membership_index_of_def list_all_iff member_rows_ok_def)
qed

lemma push_lists:
  assumes "sync_push org index r = (Some repair, r1)" "good_emails (mi_emails index)"
  shows "emails_of_org org r1 = mi_emails index \<and> org_ids r1 = org_ids r"
proof -
  have norm: "map normalize_email (mi_emails index) = mi_emails index"
    by (rule map_idI) (use assms(2) in \<open>auto simp: good_emails_def list_all_iff\<close>)
  have full: "filter (\<lambda>e. e \<noteq> []) (mi_emails index) = mi_emails index" using assms(2) by (simp add: good_emails_def list_all_iff)
  have own: "filter (\<lambda>(_, x). x = org) (map (\<lambda>e. (e, org)) es) = map (\<lambda>e. (e, org)) es" for es :: "string list" by (induction es) auto
  have none: "filter (\<lambda>x. (case x of (_, o1) \<Rightarrow> o1 \<noteq> org) \<and> (case x of (_, o1) \<Rightarrow> o1 = org)) rows = []" for rows :: "(string \<times> string) list"
    by (induction rows) auto
  have "rg_members r1 = filter (\<lambda>(_, o1). o1 \<noteq> org) (rg_members r) @ map (\<lambda>e. (e, org)) (js_set (mi_emails index))" "org_ids r1 = org_ids r"
    using assms(1) norm full by (auto simp: sync_push_def replace_org_index_def Let_def case_prod_beta split: if_splits)
  then show ?thesis using assms(2)
    by (simp add: emails_of_org_def own none js_set_distinct good_emails_def comp_def sorted_sort_id)
qed

subsection \<open>One sync at a time\<close>

definition synced_world :: "string \<Rightarrow> sync_world \<Rightarrow> bool" where
  "synced_world org w \<longleftrightarrow>
     (let s = sw_store w; c = mr_counter (ms_state s); y = mr_index_synced (ms_state s); held = emails_of_org org (sw_registry w)
      in members_ok s \<and> org \<in> set (org_ids (sw_registry w)) \<and> y \<le> c \<and>
         (case sw_syncs w of
            [] \<Rightarrow> y = c \<longrightarrow> held = mi_emails (membership_index_of s)
          | (index, pushed) # rest \<Rightarrow>
              rest = [] \<and> good_emails (mi_emails index) \<and> y < mi_counter index \<and> mi_counter index \<le> c \<and>
              (mi_counter index = c \<longrightarrow> mi_emails index = mi_emails (membership_index_of s)) \<and>
              (pushed \<longrightarrow> held = mi_emails index)))"

lemma single_sync: "synced_world org w \<Longrightarrow> i < length (sw_syncs w) \<Longrightarrow> i = 0 \<and> sw_syncs w = [sw_syncs w ! 0]"
  by (auto simp: synced_world_def Let_def split: list.splits)

lemma emails_after_call:
  "mr_counter (ms_state (member_run call s)) = mr_counter (ms_state s) \<Longrightarrow>
   mi_emails (membership_index_of (member_run call s)) = mi_emails (membership_index_of s)"
  using index_change_counted [of s call] by (simp add: index_lists_def)

lemma synced_step:
  assumes "sync_step org 1 w w1" "synced_world org w"
  shows "synced_world org w1"
  using assms(1)
proof cases
  case (member_step call)
  let ?s = "sw_store w"
  have c: "mr_counter (ms_state ?s) \<le> mr_counter (ms_state (member_run call ?s))" using index_change_counted by blast
  have y: "mr_index_synced (ms_state (member_run call ?s)) = mr_index_synced (ms_state ?s)" by (rule mark_only_syncs) (use member_step in blast)
  have "members_ok (member_run call ?s)" using assms(2) by (simp add: synced_world_def Let_def members_ok_run)
  then show ?thesis using assms(2) c y emails_after_call [of call ?s] member_step(1)
    by (fastforce simp: synced_world_def Let_def split: list.splits)
next
  case (registry_step call)
  have "org \<in> set (org_ids (sw_registry w))" using assms(2) by (simp add: synced_world_def Let_def)
  note registry_calls_leave_org [OF registry_step(2) this]
  then show ?thesis using assms(2) registry_step(1) by (simp add: synced_world_def Let_def)
next
  case (read_step index)
  have idx: "index = membership_index_of (sw_store w)" "\<not> mi_synced index" using read_step(3) by (auto simp: sync_read_def Let_def split: if_splits)
  then have "mi_counter index = mr_counter (ms_state (sw_store w))" "mr_index_synced (ms_state (sw_store w)) < mi_counter index"
    by (simp_all add: membership_index_of_def)
  then show ?thesis using assms(2) read_step(1,2) idx(1) index_emails_good by (auto simp: synced_world_def Let_def)
next
  case (push_step i index repair r1)
  have one: "i = 0" "sw_syncs w = [(index, False)]" using single_sync [OF assms(2) push_step(2)] push_step(3) by auto
  have "good_emails (mi_emails index)" using assms(2) one by (simp add: synced_world_def Let_def)
  then show ?thesis using assms(2) push_step(1) one push_lists [OF push_step(4)] by (simp add: synced_world_def Let_def)
next
  case (mark_step i index)
  have one: "i = 0" "sw_syncs w = [(index, True)]" using single_sync [OF assms(2) mark_step(2)] mark_step(3) by auto
  have "members_ok (mark_index_synced (mi_counter index) (sw_store w))" using assms(2) by (simp add: synced_world_def Let_def mark_index_synced_def)
  then show ?thesis using assms(2) mark_step(1) one
    by (auto simp: synced_world_def Let_def mark_index_synced_def drop_nth_def membership_index_of_def)
next
  case (stop_step i)
  have one: "i = 0" "sw_syncs w = [sw_syncs w ! 0]" using single_sync [OF assms(2) stop_step(2)] by auto
  obtain index pushed where p: "sw_syncs w = [(index, pushed)]" using one(2) by (metis prod.exhaust)
  then show ?thesis using assms(2) stop_step(1) one(1) by (simp add: synced_world_def Let_def drop_nth_def)
qed

lemma synced_run: "sync_run org 1 w w1 \<Longrightarrow> synced_world org w \<Longrightarrow> synced_world org w1"
  by (induction rule: sync_run.induct) (auto intro: synced_step)



text \<open>A sync that nothing interrupts brings the registry in step.\<close>

lemma sync_in_step:
  assumes "members_ok s" "org_by_id org r \<noteq> None" "\<not> mi_synced (membership_index_of s)" "sync_org_index org s r = (s1, r1)"
  shows "mi_synced (membership_index_of s1) \<and> emails_of_org org r1 = mi_emails (membership_index_of s1)"
proof -
  let ?i = "membership_index_of s"
  obtain repair where push: "sync_push org ?i r = (Some repair, r1)" "s1 = mark_index_synced (mi_counter ?i) s"
    using assms(2-4) by (auto simp: sync_org_index_def sync_read_def sync_push_def replace_org_index_def Let_def case_prod_beta)
  then show ?thesis using push_lists [OF push(1) index_emails_good [OF assms(1)]]
    by (simp add: mark_index_synced_def membership_index_of_def)
qed

subsection \<open>Runs\<close>

definition acme_registry :: registry where
  "acme_registry = registry_run (CreateOrgCall ''a'' ''acme'' ''Acme'' None None 1) (open_registry 0)"

definition new_org_store :: member_store where "new_org_store = new_member_store False False"

definition ann_joins :: member_call where "ann_joins = AddCall [''1''] ''ann@x.org'' ''owner'' sample_owner ''sign-up'' 1"

definition bob_joins :: member_call where "bob_joins = AddCall [''2''] ''bob@x.org'' ''owner'' sample_owner ''ann'' 2"

definition one_member :: member_store where "one_member = member_run ann_joins new_org_store"

definition two_owners :: member_store where "two_owners = member_run bob_joins one_member"

definition pushed_registry :: "member_store \<Rightarrow> registry \<Rightarrow> registry" where
  "pushed_registry s r = snd (sync_push ''org-a'' (membership_index_of s) r)"

definition marked_store :: "member_store \<Rightarrow> member_store \<Rightarrow> member_store" where
  "marked_store read s = mark_index_synced (mi_counter (membership_index_of read)) s"

abbreviation sync_state :: "member_store \<Rightarrow> registry \<Rightarrow> (membership_index \<times> bool) list \<Rightarrow> sync_world" where
  "sync_state s r syncs \<equiv> \<lparr>sw_store = s, sw_registry = r, sw_syncs = syncs\<rparr>"

lemma run_joins: "sync_run org limit w (sync_state s r syncs) \<Longrightarrow> call = ann_joins \<or> call = bob_joins \<Longrightarrow>
    sync_run org limit w (sync_state (member_run call s) r syncs)"
  using sync_next [OF _ member_step [of call org limit "sync_state s r syncs"]] by (auto simp: ann_joins_def bob_joins_def)

lemma run_reads: "sync_run org limit w (sync_state s r syncs) \<Longrightarrow> length syncs < limit \<Longrightarrow> \<not> mi_synced (membership_index_of s) \<Longrightarrow>
    sync_run org limit w (sync_state s r (syncs @ [(membership_index_of s, False)]))"
  using sync_next [OF _ read_step [of "sync_state s r syncs" limit "membership_index_of s" org]] by (simp add: sync_read_def Let_def)

lemma run_pushes:
  assumes "sync_run ''org-a'' limit w (sync_state s r syncs)" "i < length syncs" "syncs ! i = (membership_index_of s0, False)"
    "org_by_id ''org-a'' r \<noteq> None"
  shows "sync_run ''org-a'' limit w (sync_state s (pushed_registry s0 r) (syncs[i := (membership_index_of s0, True)]))"
proof -
  obtain repair where "sync_push ''org-a'' (membership_index_of s0) r = (Some repair, pushed_registry s0 r)"
    using assms(4) by (auto simp: pushed_registry_def sync_push_def replace_org_index_def Let_def case_prod_beta)
  then show ?thesis
    using sync_next [OF assms(1) push_step [of i "sync_state s r syncs" "membership_index_of s0" "''org-a''" repair "pushed_registry s0 r" limit]] assms(2,3)
    by simp
qed

lemma run_marks: "sync_run org limit w (sync_state s r syncs) \<Longrightarrow> i < length syncs \<Longrightarrow> syncs ! i = (membership_index_of s0, True) \<Longrightarrow>
    sync_run org limit w (sync_state (marked_store s0 s) r (drop_nth i syncs))"
  using sync_next [OF _ mark_step [of i "sync_state s r syncs" "membership_index_of s0" org limit]] by (simp add: marked_store_def)

lemma sample_org_there: "org_by_id ''org-a'' acme_registry \<noteq> None" "org_by_id ''org-a'' (pushed_registry two_owners acme_registry) \<noteq> None"
  by code_simp+

lemma sample_not_synced: "\<not> mi_synced (membership_index_of one_member)" "\<not> mi_synced (membership_index_of two_owners)"
  by code_simp+

lemma run_first_read: "sync_run ''org-a'' (Suc n) (sync_start new_org_store acme_registry) (sync_state one_member acme_registry [(membership_index_of one_member, False)])"
proof -
  have "sync_run ''org-a'' (Suc n) (sync_start new_org_store acme_registry) (sync_state new_org_store acme_registry [])"
    by (simp add: sync_start_def sync_refl)
  from run_joins [OF this, of ann_joins]
  have "sync_run ''org-a'' (Suc n) (sync_start new_org_store acme_registry) (sync_state one_member acme_registry [])" by (simp add: one_member_def)
  from run_reads [OF this] show ?thesis using sample_not_synced by simp
qed


text \<open>Two syncs that overlap can leave the registry without a member, with an index that counts as synced: the first reads
  before a second member joins and pushes after the sync that read both.
\<close>

theorem overlapping_syncs_hide_a_member:
  "\<exists>w. sync_run ''org-a'' 2 (sync_start new_org_store acme_registry) w \<and> sw_syncs w = [] \<and>
     mi_synced (membership_index_of (sw_store w)) \<and> mi_emails (membership_index_of (sw_store w)) = [''ann@x.org'', ''bob@x.org''] \<and>
     emails_of_org ''org-a'' (sw_registry w) = [''ann@x.org'']"
proof -
  let ?run = "sync_run ''org-a'' 2 (sync_start new_org_store acme_registry)"
  let ?one = "membership_index_of one_member" and ?two = "membership_index_of two_owners"
  let ?r = "pushed_registry two_owners acme_registry" and ?s = "marked_store two_owners two_owners"
  have "?run (sync_state one_member acme_registry [(?one, False)])" using run_first_read [of 1] by (simp add: numeral_2_eq_2)
  from run_joins [OF this, of bob_joins] have "?run (sync_state two_owners acme_registry [(?one, False)])" by (simp add: two_owners_def)
  from run_reads [OF this] have "?run (sync_state two_owners acme_registry [(?one, False), (?two, False)])" using sample_not_synced by simp
  from run_pushes [OF this, of 1 two_owners] have "?run (sync_state two_owners ?r [(?one, False), (?two, True)])" using sample_org_there by simp
  from run_marks [OF this, of 1 two_owners] have "?run (sync_state ?s ?r [(?one, False)])" by (simp add: drop_nth_def)
  from run_pushes [OF this, of 0 one_member] have "?run (sync_state ?s (pushed_registry one_member ?r) [(?one, True)])" using sample_org_there by simp
  from run_marks [OF this, of 0 one_member]
  have "?run (sync_state (marked_store one_member ?s) (pushed_registry one_member ?r) [])" by (simp add: drop_nth_def)
  moreover have "mi_synced (membership_index_of (marked_store one_member ?s))"
    "mi_emails (membership_index_of (marked_store one_member ?s)) = [''ann@x.org'', ''bob@x.org'']"
    "emails_of_org ''org-a'' (pushed_registry one_member ?r) = [''ann@x.org'']" by code_simp+
  ultimately show ?thesis by (intro exI [of _ "sync_state (marked_store one_member ?s) (pushed_registry one_member ?r) []"]) simp
qed

end
