(* ===== verification/Key_Text.thy ===== *)
theory Key_Text
  imports Org_Names "HOL-Library.Word"
begin

text \<open>
  The text of API keys and management keys (\<open>packages/auth/src/keys.ts\<close>). The bytes \<open>crypto.getRandomValues\<close> draws and
  the hash \<open>sha256Hex\<close> are parameters; \<open>Buffer.toString("base64url")\<close> and \<open>toString(16)\<close> are written out.
\<close>

definition api_key_prefix :: string where "api_key_prefix = ''cms_''"

definition management_key_prefix :: string where "management_key_prefix = ''cmsm_''"

definition lower_hex_char :: "char \<Rightarrow> bool" where
  "lower_hex_char c \<longleftrightarrow> c \<in> set ''0123456789abcdef''"

definition url_char :: "char \<Rightarrow> bool" where
  "url_char c \<longleftrightarrow> c \<in> set ''ABCDEFGHIJKLMNOPQRSTUVWXYZabcdefghijklmnopqrstuvwxyz0123456789-_''"

text \<open>The patterns \<open>KEY_ID\<close> and \<open>SECRET\<close>.\<close>

definition is_key_id :: "string \<Rightarrow> bool" where
  "is_key_id s \<longleftrightarrow> length s = 20 \<and> list_all lower_hex_char s"

definition is_secret :: "string \<Rightarrow> bool" where
  "is_secret s \<longleftrightarrow> length s = 48 \<and> list_all url_char s"

definition shown_secret_characters :: nat where "shown_secret_characters = 4"

definition looks_like_api_key :: "string \<Rightarrow> bool" where
  "looks_like_api_key s = starts_with s api_key_prefix"

definition looks_like_management_key :: "string \<Rightarrow> bool" where
  "looks_like_management_key s = starts_with s management_key_prefix"

subsection \<open>Minting\<close>

definition lower_hex_digit :: "nat \<Rightarrow> char" where
  "lower_hex_digit n = ''0123456789abcdef'' ! n"

definition random_hex :: "8 word list \<Rightarrow> string" where
  "random_hex bytes = concat (map (\<lambda>b. [lower_hex_digit (unat b div 16), lower_hex_digit (unat b mod 16)]) bytes)"

definition url_digit :: "nat \<Rightarrow> char" where
  "url_digit n = ''ABCDEFGHIJKLMNOPQRSTUVWXYZabcdefghijklmnopqrstuvwxyz0123456789-_'' ! n"

fun base64_url :: "8 word list \<Rightarrow> string" where
  "base64_url [] = []"
| "base64_url [a] = [url_digit (unat a div 4), url_digit (unat a mod 4 * 16)]"
| "base64_url [a, b] =
     [url_digit (unat a div 4), url_digit (unat a mod 4 * 16 + unat b div 16), url_digit (unat b mod 16 * 4)]"
| "base64_url (a # b # c # rest) =
     url_digit (unat a div 4) # url_digit (unat a mod 4 * 16 + unat b div 16) # url_digit (unat b mod 16 * 4 + unat c div 64) #
     url_digit (unat c mod 64) # base64_url rest"

record parsed_key =
  pk_org :: string
  pk_key_id :: string
  pk_hash :: string

record minted_key = parsed_key +
  mk_key :: string
  mk_prefix :: string

definition mint_org_key :: "(string \<Rightarrow> string) \<Rightarrow> 8 word list \<Rightarrow> 8 word list \<Rightarrow> string \<Rightarrow> string \<Rightarrow> minted_key" where
  "mint_org_key sha id_bytes secret_bytes given_prefix org =
     (let key_id = random_hex id_bytes;
          secret = base64_url secret_bytes;
          key = given_prefix @ org @ ''_'' @ key_id @ ''_'' @ secret
      in \<lparr>pk_org = org, pk_key_id = key_id, pk_hash = sha key, mk_key = key,
          mk_prefix = given_prefix @ org @ ''_'' @ key_id @ ''_'' @ take shown_secret_characters secret\<rparr>)"

definition mint_api_key :: "(string \<Rightarrow> string) \<Rightarrow> 8 word list \<Rightarrow> 8 word list \<Rightarrow> string \<Rightarrow> minted_key" where
  "mint_api_key sha id_bytes secret_bytes org = mint_org_key sha id_bytes secret_bytes api_key_prefix org"

definition mint_management_key :: "(string \<Rightarrow> string) \<Rightarrow> 8 word list \<Rightarrow> 8 word list \<Rightarrow> string \<Rightarrow> minted_key" where
  "mint_management_key sha id_bytes secret_bytes org = mint_org_key sha id_bytes secret_bytes management_key_prefix org"

subsection \<open>Parsing\<close>

definition parse_org_key :: "(string \<Rightarrow> string) \<Rightarrow> string \<Rightarrow> string \<Rightarrow> parsed_key option" where
  "parse_org_key sha given_prefix text =
     (if \<not> starts_with text given_prefix then None
      else (case split_on CHR ''_'' (drop (length given_prefix) text) of
              org # key_id # rest \<Rightarrow>
                let secret = join_with ''_'' rest
                in if \<not> is_org_id org \<or> \<not> is_key_id key_id then None
                   else if is_secret secret then Some \<lparr>pk_org = org, pk_key_id = key_id, pk_hash = sha text\<rparr> else None
            | _ \<Rightarrow> None))"

definition parse_api_key :: "(string \<Rightarrow> string) \<Rightarrow> string \<Rightarrow> parsed_key option" where
  "parse_api_key sha text = parse_org_key sha api_key_prefix text"

definition parse_management_key :: "(string \<Rightarrow> string) \<Rightarrow> string \<Rightarrow> parsed_key option" where
  "parse_management_key sha text = parse_org_key sha management_key_prefix text"

subsection \<open>What the parts are made of\<close>

lemma byte_bound: "unat (b :: 8 word) < 256"
  using unsigned_less [where w = b and 'a = nat] by simp

lemma hex_digit_hex: "n < 16 \<Longrightarrow> lower_hex_char (lower_hex_digit n)"
  unfolding lower_hex_char_def lower_hex_digit_def by (rule nth_mem) simp

lemma url_digit_url: "n < 64 \<Longrightarrow> url_char (url_digit n)"
  unfolding url_char_def url_digit_def by (rule nth_mem) simp

lemma random_hex_hex: "list_all lower_hex_char (random_hex bytes)" "length (random_hex bytes) = 2 * length bytes"
proof -
  have digits: "lower_hex_char (lower_hex_digit (unat (b :: 8 word) div 16))" "lower_hex_char (lower_hex_digit (unat b mod 16))" for b
    using byte_bound [of b] by (auto intro!: hex_digit_hex)
  show "list_all lower_hex_char (random_hex bytes)" by (induction bytes) (simp_all add: random_hex_def digits)
  show "length (random_hex bytes) = 2 * length bytes" by (induction bytes) (simp_all add: random_hex_def)
qed

lemma base64_url_url: "list_all url_char (base64_url bytes)"
proof (induction bytes rule: base64_url.induct)
  case (2 a)
  then show ?case using byte_bound [of a] by (auto intro!: url_digit_url)
next
  case (3 a b)
  then show ?case using byte_bound [of a] byte_bound [of b] by (auto intro!: url_digit_url)
next
  case (4 a b c rest)
  then show ?case using byte_bound [of a] byte_bound [of b] byte_bound [of c] by (auto intro!: url_digit_url)
qed simp

lemma base64_url_length: "length (base64_url bytes) = 4 * (length bytes div 3) + (if length bytes mod 3 = 0 then 0 else length bytes mod 3 + 1)"
  by (induction bytes rule: base64_url.induct) simp_all

lemma minted_parts:
  "length id_bytes = 10 \<Longrightarrow> is_key_id (random_hex id_bytes)" "length secret_bytes = 36 \<Longrightarrow> is_secret (base64_url secret_bytes)"
  by (simp_all add: is_key_id_def is_secret_def random_hex_hex base64_url_url base64_url_length)

lemma split_on_first: "c \<notin> set a \<Longrightarrow> split_on c (a @ c # t) = a # split_on c t"
  by (induction a) auto

lemma join_split: "join_with [c] (split_on c s) = s"
proof (induction s)
  case (Cons d s)
  have "split_on c s \<noteq> []" by (cases s) (auto split: list.splits)
  then show ?case using Cons by (cases "split_on c s"; cases "tl (split_on c s)") auto
qed simp

lemma no_underscore: "is_org_id org \<Longrightarrow> CHR ''_'' \<notin> set org" "is_key_id key_id \<Longrightarrow> CHR ''_'' \<notin> set key_id"
proof -
  show "is_org_id org \<Longrightarrow> CHR ''_'' \<notin> set org" by (auto simp: is_org_id_def id_char_def is_digit_def Let_def)
  have "\<not> lower_hex_char (CHR ''_'')" by (simp add: lower_hex_char_def)
  then show "is_key_id key_id \<Longrightarrow> CHR ''_'' \<notin> set key_id" by (auto simp: is_key_id_def list_all_iff)
qed

lemma parse_text:
  assumes "is_org_id org" "is_key_id key_id" "is_secret secret"
  shows "parse_org_key sha p (p @ org @ ''_'' @ key_id @ ''_'' @ secret) =
    Some \<lparr>pk_org = org, pk_key_id = key_id, pk_hash = sha (p @ org @ ''_'' @ key_id @ ''_'' @ secret)\<rparr>"
  using assms no_underscore
  by (simp add: parse_org_key_def starts_with_def split_on_first join_split [of "CHR ''_''", simplified])

text \<open>A parsed text is the text of a key of that org, id and some secret.\<close>

lemma parse_org_key_text:
  assumes "parse_org_key sha p text = Some parsed"
  obtains secret where "text = p @ pk_org parsed @ ''_'' @ pk_key_id parsed @ ''_'' @ secret" "is_org_id (pk_org parsed)"
    "is_key_id (pk_key_id parsed)" "is_secret secret" "pk_hash parsed = sha text"
proof -
  obtain org key_id rest where parts: "starts_with text p" "split_on CHR ''_'' (drop (length p) text) = org # key_id # rest"
    "is_org_id org" "is_key_id key_id" "is_secret (join_with ''_'' rest)" "parsed = \<lparr>pk_org = org, pk_key_id = key_id, pk_hash = sha text\<rparr>"
    using assms by (auto simp: parse_org_key_def Let_def split: if_splits list.splits)
  have rest: "rest \<noteq> []" using parts(5) by (auto simp: is_secret_def)
  have "drop (length p) text = join_with ''_'' (org # key_id # rest)" using join_split [of "CHR ''_''"] parts(2) by metis
  also have "\<dots> = org @ ''_'' @ key_id @ ''_'' @ join_with ''_'' rest" using rest by (cases rest) simp_all
  finally have "text = p @ org @ ''_'' @ key_id @ ''_'' @ join_with ''_'' rest"
    using parts(1) by (metis append_take_drop_id prefix_def append_eq_conv_conj starts_with_def)
  then show ?thesis using that parts by auto
qed

text \<open>A minted key reads back: whatever bytes were drawn, the gate finds in its text the org, the key id and the hash that were
  stored for it.
\<close>

theorem minted_key_round_trip:
  assumes "is_org_id org" "length id_bytes = 10" "length secret_bytes = 36" "minted = mint_org_key sha id_bytes secret_bytes given_prefix org"
  shows "parse_org_key sha given_prefix (mk_key minted) =
    Some \<lparr>pk_org = pk_org minted, pk_key_id = pk_key_id minted, pk_hash = pk_hash minted\<rparr>"
  using parse_text [OF assms(1) minted_parts(1) [OF assms(2)] minted_parts(2) [OF assms(3)], of sha given_prefix]
  by (simp add: assms(4) mint_org_key_def Let_def)

theorem minted_key_round_trip_witness:
  "parse_org_key (take 5) ''cms_'' (mk_key (mint_org_key (take 5) (replicate 10 255) (replicate 36 254) ''cms_'' ''acme'')) =
     Some \<lparr>pk_org = ''acme'', pk_key_id = ''ffffffffffffffffffff'', pk_hash = ''cms_a''\<rparr>"
proof -
  let ?m = "mint_org_key (take 5) (replicate 10 255) (replicate 36 254) ''cms_'' ''acme''"
  have "parse_org_key (take 5) ''cms_'' (mk_key ?m) = Some \<lparr>pk_org = pk_org ?m, pk_key_id = pk_key_id ?m, pk_hash = pk_hash ?m\<rparr>"
    by (rule minted_key_round_trip [OF _ _ _ refl]) (code_simp, simp_all)
  moreover have "pk_org ?m = ''acme''" "pk_hash ?m = ''cms_a''" by (simp_all add: mint_org_key_def Let_def)
  moreover have "pk_key_id ?m = random_hex (replicate 10 255)" by (simp add: mint_org_key_def Let_def)
  moreover have "random_hex (replicate 10 255) = ''ffffffffffffffffffff''" by code_simp
  ultimately show ?thesis by simp
qed

text \<open>Neither kind of key is ever taken for the other.\<close>

lemma key_kinds_apart: "looks_like_api_key text \<Longrightarrow> \<not> looks_like_management_key text"
  by (auto simp: looks_like_api_key_def looks_like_management_key_def starts_with_def api_key_prefix_def management_key_prefix_def prefix_def)

text \<open>Two keys with one text are of one org and have one id and secret.\<close>

lemma key_text_injective:
  assumes "is_org_id a" "is_org_id b" "is_key_id i" "is_key_id j" "p @ a @ ''_'' @ i @ ''_'' @ s = p @ b @ ''_'' @ j @ ''_'' @ t"
  shows "a = b \<and> i = j \<and> s = t"
proof -
  have "CHR ''_'' \<notin> set a" "CHR ''_'' \<notin> set b" "CHR ''_'' \<notin> set i" "CHR ''_'' \<notin> set j" using assms no_underscore by blast+
  then show ?thesis using assms(5) free_prefix [of "CHR ''_''" a b "i @ ''_'' @ s" "j @ ''_'' @ t"] free_prefix [of "CHR ''_''" i j s t] by simp
qed

end
