(* ===== verification/Api_Keys.thy ===== *)
theory Api_Keys
  imports Members Key_Text
begin

text \<open>
  The API keys of an org (\<open>packages/state/src/api-keys/store.ts\<close>, the class \<open>ApiKeyStore\<close>; the shape of a tool scope in
  \<open>packages/contract/src/api-keys.ts\<close>). The table is the list of its rows in insertion order. An operation answers what
  it returns, the ids it tells the callback \<open>removed\<close>, and the store it leaves. The bytes a new key is drawn from come
  from a list, one pair for each try; \<open>KeyThrown\<close> also stands for the draws running out, where the code would draw on.
\<close>

datatype tool_selection = AllTools | ReadTools | NamedTools "string list"

record scope_entry =
  sc_toolkit :: string
  sc_tools :: tool_selection
  sc_agents :: "string list option"

type_synonym tool_scope = "scope_entry list"

definition agents_toolkit :: string where "agents_toolkit = ''agents''"

definition max_scope_toolkits :: nat where "max_scope_toolkits = 100"

definition max_scope_tools :: nat where "max_scope_tools = 500"

definition max_keys_per_member :: nat where "max_keys_per_member = 100"

definition last_used_resolution_ms :: ms where "last_used_resolution_ms = 60000"

definition max_safe_integer :: int where "max_safe_integer = 9007199254740991"

subsection \<open>Tool scopes\<close>

text \<open>\<open>scopeAgents\<close>: \<^const>\<open>None\<close> is \<open>false\<close>, \<^term>\<open>Some None\<close> is \<open>undefined\<close>.\<close>

definition scope_agents :: "string \<Rightarrow> string list option \<Rightarrow> string list option option" where
  "scope_agents toolkit agents =
     (case agents of
        None \<Rightarrow> Some None
      | Some given \<Rightarrow>
          let ids = js_set (map js_trim given)
          in if toolkit \<noteq> agents_toolkit \<or> ids = [] \<or> length ids > max_scope_tools \<or> [] \<in> set ids then None else Some (Some ids))"

definition scope_tools :: "string \<Rightarrow> tool_selection \<Rightarrow> tool_selection option" where
  "scope_tools toolkit tools =
     (case tools of
        NamedTools given \<Rightarrow>
          let ids = js_set (map js_trim given)
          in if ids = [] \<or> length ids > max_scope_tools \<or>
               list_ex (\<lambda>i. \<not> starts_with i (toolkit @ '':'') \<or> length i = length toolkit + 1) ids
             then None else Some (NamedTools ids)
      | other \<Rightarrow> Some other)"

fun scope_entries :: "string list \<Rightarrow> tool_scope \<Rightarrow> tool_scope option" where
  "scope_entries toolkits [] = Some []"
| "scope_entries toolkits (e # entries) =
     (let toolkit = js_trim (sc_toolkit e)
      in if toolkit = [] \<or> toolkit \<in> set toolkits then None
         else (case scope_agents toolkit (sc_agents e) of
                 None \<Rightarrow> None
               | Some named \<Rightarrow>
                   (case scope_tools toolkit (sc_tools e) of
                      None \<Rightarrow> None
                    | Some tools \<Rightarrow>
                        map_option (Cons \<lparr>sc_toolkit = toolkit, sc_tools = tools, sc_agents = named\<rparr>)
                          (scope_entries (toolkit # toolkits) entries))))"

definition normalized_tool_scope :: "tool_scope \<Rightarrow> tool_scope option" where
  "normalized_tool_scope scope = (if length scope > max_scope_toolkits then None else scope_entries [] scope)"

subsection \<open>The store\<close>

text \<open>The column \<open>tool_scope\<close>: the JSON of a scope, or a text that does not parse.\<close>

datatype stored_scope = StoredScope tool_scope | UnreadableScope

definition stored_tool_scope :: "stored_scope \<Rightarrow> tool_scope" where
  "stored_tool_scope text = (case text of StoredScope scope \<Rightarrow> scope | UnreadableScope \<Rightarrow> [])"

record api_key_row =
  kr_id :: string
  kr_member :: string
  kr_name :: string
  kr_hash :: string
  kr_prefix :: string
  kr_created_at :: ms
  kr_last_used_at :: "ms option"
  kr_expires_at :: "ms option"
  kr_revoked_at :: "ms option"
  kr_tool_scope :: "stored_scope option"

record api_key_store =
  ak_org :: string
  ak_access_clients :: bool
  ak_keys :: "api_key_row list"

record api_key_record =
  ar_id :: string
  ar_member :: string
  ar_name :: string
  ar_prefix :: string
  ar_created_at :: ms
  ar_last_used_at :: "ms option"
  ar_expires_at :: "ms option"
  ar_revoked_at :: "ms option"
  ar_tool_scope :: "tool_scope option"

definition key_record :: "api_key_row \<Rightarrow> api_key_record" where
  "key_record row =
     \<lparr>ar_id = kr_id row, ar_member = kr_member row, ar_name = kr_name row, ar_prefix = kr_prefix row, ar_created_at = kr_created_at row,
      ar_last_used_at = kr_last_used_at row, ar_expires_at = kr_expires_at row, ar_revoked_at = kr_revoked_at row,
      ar_tool_scope = map_option stored_tool_scope (kr_tool_scope row)\<rparr>"

datatype key_error = KeyInvalidName | KeyInvalidExpiry | KeyInvalidToolScope | TooManyKeys | ApiKeyNotFound

datatype 'a key_reply = KeyDone 'a | KeyRefused key_error | KeyThrown

text \<open>The constructor: rows the first version marked revoked go; the settings row stays when there is one.\<close>

definition open_api_keys :: "string \<Rightarrow> bool option \<Rightarrow> api_key_row list \<Rightarrow> api_key_store" where
  "open_api_keys org settings rows =
     \<lparr>ak_org = org, ak_access_clients = (case settings of None \<Rightarrow> org = global_org | Some on \<Rightarrow> on),
      ak_keys = filter (\<lambda>k. kr_revoked_at k = None) rows\<rparr>"

definition set_access_clients :: "bool \<Rightarrow> api_key_store \<Rightarrow> api_key_store" where
  "set_access_clients on s = s\<lparr>ak_access_clients := on\<rparr>"

definition api_key_row_of :: "string \<Rightarrow> api_key_store \<Rightarrow> api_key_row option" where
  "api_key_row_of i s = find (\<lambda>k. kr_id k = i) (ak_keys s)"

definition expired_at :: "ms \<Rightarrow> api_key_row \<Rightarrow> bool" where
  "expired_at now k \<longleftrightarrow> (case kr_expires_at k of None \<Rightarrow> False | Some e \<Rightarrow> e \<le> now)"

definition drop_keys :: "(api_key_row \<Rightarrow> bool) \<Rightarrow> api_key_store \<Rightarrow> string list \<times> api_key_store" where
  "drop_keys P s = (map kr_id (filter P (ak_keys s)), s\<lparr>ak_keys := filter (\<lambda>k. \<not> P k) (ak_keys s)\<rparr>)"

definition purge_expired_keys :: "ms \<Rightarrow> api_key_store \<Rightarrow> string list \<times> api_key_store" where
  "purge_expired_keys now s = drop_keys (expired_at now) s"

definition newest_first :: "api_key_row \<Rightarrow> int \<times> string" where
  "newest_first k = (- kr_created_at k, kr_id k)"

definition list_api_keys :: "string option \<Rightarrow> ms \<Rightarrow> api_key_store \<Rightarrow> api_key_record list \<times> string list \<times> api_key_store" where
  "list_api_keys member now s =
     (let (gone, s1) = purge_expired_keys now s
      in (map key_record (sort_key newest_first (filter (\<lambda>k. case member of None \<Rightarrow> True | Some m \<Rightarrow> kr_member k = m) (ak_keys s1))), gone, s1))"

definition get_api_key :: "string \<Rightarrow> api_key_store \<Rightarrow> api_key_record option" where
  "get_api_key i s = map_option key_record (api_key_row_of i s)"

record key_input =
  ki_member :: string
  ki_name :: string
  ki_expires_at :: "ms option"
  ki_tool_scope :: "tool_scope option"

type_synonym key_draws = "(8 word list \<times> 8 word list) list"

text \<open>The row a creation inserts.\<close>

definition new_key_row :: "minted_key \<Rightarrow> key_input \<Rightarrow> string \<Rightarrow> tool_scope option \<Rightarrow> ms \<Rightarrow> api_key_row" where
  "new_key_row minted input name scope now =
     \<lparr>kr_id = pk_key_id minted, kr_member = ki_member input, kr_name = name, kr_hash = pk_hash minted, kr_prefix = mk_prefix minted,
      kr_created_at = now, kr_last_used_at = None, kr_expires_at = ki_expires_at input, kr_revoked_at = None,
      kr_tool_scope = map_option StoredScope scope\<rparr>"

definition bad_expiry :: "ms \<Rightarrow> ms option \<Rightarrow> bool" where
  "bad_expiry now expires \<longleftrightarrow> (case expires of None \<Rightarrow> False | Some e \<Rightarrow> \<not> (\<bar>e\<bar> \<le> max_safe_integer) \<or> e \<le> now)"

text \<open>\<open>create\<close>: answers the record and the whole key. Ids are drawn until one is unused.\<close>

definition create_api_key ::
  "(string \<Rightarrow> string) \<Rightarrow> key_draws \<Rightarrow> key_input \<Rightarrow> ms \<Rightarrow> api_key_store \<Rightarrow> (api_key_record \<times> string) key_reply \<times> string list \<times> api_key_store" where
  "create_api_key sha draws input now s =
     (case clean_name (ki_name input) of
        None \<Rightarrow> (KeyRefused KeyInvalidName, [], s)
      | Some name \<Rightarrow>
          (case (case ki_tool_scope input of None \<Rightarrow> Some None | Some scope \<Rightarrow> map_option Some (normalized_tool_scope scope)) of
             None \<Rightarrow> (KeyRefused KeyInvalidToolScope, [], s)
           | Some scope \<Rightarrow>
               if bad_expiry now (ki_expires_at input) then (KeyRefused KeyInvalidExpiry, [], s)
               else
                 let (gone, s1) = purge_expired_keys now s
                 in if length (filter (\<lambda>k. kr_member k = ki_member input) (ak_keys s1)) \<ge> max_keys_per_member
                    then (KeyRefused TooManyKeys, gone, s1)
                    else (case dropWhile (\<lambda>m. api_key_row_of (pk_key_id m) s1 \<noteq> None) (map (\<lambda>(i, b). mint_api_key sha i b (ak_org s)) draws) of
                            [] \<Rightarrow> (KeyThrown, gone, s1)
                          | minted # _ \<Rightarrow>
                              let row = new_key_row minted input name scope now
                              in (KeyDone (key_record row, mk_key minted), gone, s1\<lparr>ak_keys := ak_keys s1 @ [row]\<rparr>))))"

definition revoke_api_key :: "string \<Rightarrow> ms \<Rightarrow> string option \<Rightarrow> api_key_store \<Rightarrow> api_key_record key_reply \<times> string list \<times> api_key_store" where
  "revoke_api_key i now member s =
     (case api_key_row_of i s of
        None \<Rightarrow> (KeyRefused ApiKeyNotFound, [], s)
      | Some row \<Rightarrow>
          if (case member of None \<Rightarrow> False | Some m \<Rightarrow> kr_member row \<noteq> m) then (KeyRefused ApiKeyNotFound, [], s)
          else (KeyDone ((key_record row)\<lparr>ar_revoked_at := Some now\<rparr>), [i], snd (drop_keys (\<lambda>k. kr_id k = i) s)))"

definition set_key_tool_scope ::
  "string \<Rightarrow> tool_scope option \<Rightarrow> string \<Rightarrow> ms \<Rightarrow> api_key_store \<Rightarrow> api_key_record key_reply \<times> string list \<times> api_key_store" where
  "set_key_tool_scope i scope member now s =
     (let (gone, s1) = purge_expired_keys now s
      in case api_key_row_of i s1 of
           None \<Rightarrow> (KeyRefused ApiKeyNotFound, gone, s1)
         | Some row \<Rightarrow>
             if kr_member row \<noteq> member then (KeyRefused ApiKeyNotFound, gone, s1)
             else (case (case scope of None \<Rightarrow> Some None | Some given \<Rightarrow> map_option Some (normalized_tool_scope given)) of
                     None \<Rightarrow> (KeyRefused KeyInvalidToolScope, gone, s1)
                   | Some stored \<Rightarrow>
                       let s2 = s1\<lparr>ak_keys := map (\<lambda>k. if kr_id k = i then k\<lparr>kr_tool_scope := map_option StoredScope stored\<rparr> else k) (ak_keys s1)\<rparr>
                       in (case get_api_key i s2 of None \<Rightarrow> KeyThrown | Some updated \<Rightarrow> KeyDone updated, gone, s2)))"

definition remove_member_keys :: "string \<Rightarrow> api_key_store \<Rightarrow> string list \<times> api_key_store" where
  "remove_member_keys member s = drop_keys (\<lambda>k. kr_member k = member) s"

subsection \<open>Checking a presented key\<close>

datatype key_rejection = UnknownKey | ExpiredKey

datatype key_check = KeyAccepted string "ms option" | KeyRejected key_rejection

definition is_hash :: "string \<Rightarrow> bool" where
  "is_hash s \<longleftrightarrow> length s = 64 \<and> list_all lower_hex_char s"

definition same_hash :: "string \<Rightarrow> string \<Rightarrow> bool" where
  "same_hash stored presented \<longleftrightarrow> is_hash presented \<and> length stored = length presented \<and> stored = presented"

definition check_api_key :: "string \<Rightarrow> string \<Rightarrow> ms \<Rightarrow> api_key_store \<Rightarrow> key_check \<times> string list \<times> api_key_store" where
  "check_api_key key_id hash now s =
     (case (if is_key_id key_id then api_key_row_of key_id s else None) of
        None \<Rightarrow> (KeyRejected UnknownKey, [], s)
      | Some row \<Rightarrow>
          if \<not> same_hash (kr_hash row) hash then (KeyRejected UnknownKey, [], s)
          else if expired_at now row then (KeyRejected ExpiredKey, [key_id], snd (drop_keys (\<lambda>k. kr_id k = key_id) s))
          else (KeyAccepted (kr_member row) (kr_expires_at row), [],
                if (case kr_last_used_at row of None \<Rightarrow> True | Some used \<Rightarrow> now - used \<ge> last_used_resolution_ms)
                then s\<lparr>ak_keys := map (\<lambda>k. if kr_id k = key_id then k\<lparr>kr_last_used_at := Some now\<rparr> else k) (ak_keys s)\<rparr>
                else s))"

end
