(* ===== verification/Api_Key_Properties.thy ===== *)
theory Api_Key_Properties
  imports Api_Keys Members_Invariant
begin

text \<open>
  What the API key store promises: a key that was issued passes the check until it is gone, a key that is gone never
  passes again and was told to the callback, and nothing but an issued, live key passes.
\<close>

datatype key_call =
  AccessClientsCall bool
| ListKeysCall "string option" ms
| CreateKeyCall key_draws key_input ms
| RevokeKeyCall string ms "string option"
| KeyScopeCall string "tool_scope option" string ms
| PurgeKeysCall ms
| MemberKeysCall string
| CheckKeyCall string string ms

text \<open>The ids a call tells the callback, and the store it leaves.\<close>

fun key_run :: "(string \<Rightarrow> string) \<Rightarrow> key_call \<Rightarrow> api_key_store \<Rightarrow> string list \<times> api_key_store" where
  "key_run sha (AccessClientsCall on) s = ([], set_access_clients on s)"
| "key_run sha (ListKeysCall member now) s = snd (list_api_keys member now s)"
| "key_run sha (CreateKeyCall draws input now) s = snd (create_api_key sha draws input now s)"
| "key_run sha (RevokeKeyCall i now member) s = snd (revoke_api_key i now member s)"
| "key_run sha (KeyScopeCall i scope member now) s = snd (set_key_tool_scope i scope member now s)"
| "key_run sha (PurgeKeysCall now) s = purge_expired_keys now s"
| "key_run sha (MemberKeysCall member) s = remove_member_keys member s"
| "key_run sha (CheckKeyCall i hash now) s = snd (check_api_key i hash now s)"

definition run_keys :: "(string \<Rightarrow> string) \<Rightarrow> key_call list \<Rightarrow> api_key_store \<Rightarrow> api_key_store" where
  "run_keys sha calls s = foldl (\<lambda>s call. snd (key_run sha call s)) s calls"

definition key_draws_ok :: "key_draws \<Rightarrow> bool" where
  "key_draws_ok draws = list_all (\<lambda>(i, b). length i = 10 \<and> length b = 36) draws"

fun key_call_ok :: "key_call \<Rightarrow> bool" where
  "key_call_ok (CreateKeyCall draws _ _) = key_draws_ok draws"
| "key_call_ok _ = True"

fun mints_key :: "(string \<Rightarrow> string) \<Rightarrow> string \<Rightarrow> string \<Rightarrow> key_call \<Rightarrow> bool" where
  "mints_key sha org i (CreateKeyCall draws _ _) = (i \<in> (\<lambda>(a, b). pk_key_id (mint_api_key sha a b org)) ` set draws)"
| "mints_key sha org i _ = False"

definition key_ids :: "api_key_store \<Rightarrow> string list" where
  "key_ids s = map kr_id (ak_keys s)"

text \<open>The text of a key of an org with an id and a secret.\<close>

definition api_key_text :: "string \<Rightarrow> string \<Rightarrow> string \<Rightarrow> string" where
  "api_key_text org i secret = api_key_prefix @ org @ ''_'' @ i @ ''_'' @ secret"

definition scope_ok :: "stored_scope option \<Rightarrow> bool" where
  "scope_ok stored \<longleftrightarrow> (case stored of Some (StoredScope scope) \<Rightarrow> normalized_tool_scope scope = Some scope | _ \<Rightarrow> True)"

definition api_key_row_ok :: "(string \<Rightarrow> string) \<Rightarrow> string \<Rightarrow> api_key_row \<Rightarrow> bool" where
  "api_key_row_ok sha org k \<longleftrightarrow> is_key_id (kr_id k) \<and> clean_name (kr_name k) = Some (kr_name k) \<and> kr_revoked_at k = None \<and>
     scope_ok (kr_tool_scope k) \<and>
     (\<exists>secret. is_secret secret \<and> kr_hash k = sha (api_key_text org (kr_id k) secret) \<and>
       kr_prefix k = api_key_text org (kr_id k) (take shown_secret_characters secret))"

definition member_keys :: "string \<Rightarrow> api_key_store \<Rightarrow> nat" where
  "member_keys m s = length (filter (\<lambda>k. kr_member k = m) (ak_keys s))"

definition api_keys_ok :: "(string \<Rightarrow> string) \<Rightarrow> api_key_store \<Rightarrow> bool" where
  "api_keys_ok sha s \<longleftrightarrow> is_org_id (ak_org s) \<and> distinct (key_ids s) \<and> list_all (api_key_row_ok sha (ak_org s)) (ak_keys s) \<and>
     (\<forall>m. member_keys m s \<le> max_keys_per_member)"

subsection \<open>Tool scopes\<close>

lemma js_set_of_distinct: "distinct xs \<Longrightarrow> js_set xs = xs"
  by (simp add: js_set_def distinct_remdups_id)

lemma trimmed_ids: "js_set (map js_trim (js_set (map js_trim ids))) = js_set (map js_trim ids)"
proof -
  have "map js_trim (js_set (map js_trim ids)) = js_set (map js_trim ids)" by (rule map_idI) auto
  then show ?thesis by (simp add: js_set_of_distinct)
qed

lemma scope_agents_again: "scope_agents toolkit agents = Some named \<Longrightarrow> scope_agents toolkit named = Some named"
  by (auto simp: scope_agents_def Let_def trimmed_ids split: option.splits if_splits)

lemma scope_tools_again: "scope_tools toolkit tools = Some kept \<Longrightarrow> scope_tools toolkit kept = Some kept"
  by (auto simp: scope_tools_def Let_def trimmed_ids split: tool_selection.splits if_splits)

lemma scope_entries_again:
  "scope_entries toolkits entries = Some kept \<Longrightarrow> scope_entries toolkits kept = Some kept \<and> length kept = length entries"
proof (induction entries arbitrary: toolkits kept)
  case (Cons e entries)
  let ?t = "js_trim (sc_toolkit e)"
  obtain named tools others where p: "?t \<noteq> []" "?t \<notin> set toolkits" "scope_agents ?t (sc_agents e) = Some named"
    "scope_tools ?t (sc_tools e) = Some tools" "scope_entries (?t # toolkits) entries = Some others"
    "kept = \<lparr>sc_toolkit = ?t, sc_tools = tools, sc_agents = named\<rparr> # others"
    using Cons.prems by (auto simp: Let_def split: if_splits option.splits)
  show ?case using Cons.IH [OF p(5)] p(1,2) scope_agents_again [OF p(3)] scope_tools_again [OF p(4)] by (simp add: p(6) Let_def)
qed simp

lemma normalized_tool_scope_again: "normalized_tool_scope scope = Some kept \<Longrightarrow> normalized_tool_scope kept = Some kept"
  using scope_entries_again by (auto simp: normalized_tool_scope_def split: if_splits)

subsection \<open>Writes\<close>

lemma api_keys_ok_drop: "api_keys_ok sha s \<Longrightarrow> api_keys_ok sha (snd (drop_keys P s))"
proof -
  assume ok: "api_keys_ok sha s"
  have "length (filter Q (filter P' ks)) \<le> length (filter Q ks)" for Q P' and ks :: "api_key_row list"
    by (induction ks) auto
  then have "member_keys m (snd (drop_keys P s)) \<le> member_keys m s" for m by (simp add: member_keys_def drop_keys_def)
  then show ?thesis using ok by (auto simp: api_keys_ok_def key_ids_def drop_keys_def distinct_map_filter list_all_iff intro: order_trans)
qed

lemma api_keys_ok_map:
  assumes "api_keys_ok sha s" "\<And>k. k \<in> set (ak_keys s) \<Longrightarrow> kr_id (f k) = kr_id k \<and> kr_member (f k) = kr_member k"
    and "\<And>k. k \<in> set (ak_keys s) \<Longrightarrow> api_key_row_ok sha (ak_org s) k \<Longrightarrow> api_key_row_ok sha (ak_org s) (f k)"
  shows "api_keys_ok sha (s\<lparr>ak_keys := map f (ak_keys s)\<rparr>)"
proof -
  have "map kr_id (map f (ak_keys s)) = map kr_id (ak_keys s)" using assms(2) by simp
  moreover have "filter (\<lambda>k. kr_member (f k) = m) (ak_keys s) = filter (\<lambda>k. kr_member k = m) (ak_keys s)" for m
    using assms(2) by (intro filter_cong) simp_all
  moreover have "list_all (api_key_row_ok sha (ak_org s)) (map f (ak_keys s))" using assms(1,3) by (auto simp: api_keys_ok_def list_all_iff)
  moreover have "distinct (map kr_id (ak_keys s))" using assms(1) by (simp add: api_keys_ok_def key_ids_def)
  ultimately show ?thesis using assms(1) unfolding api_keys_ok_def key_ids_def member_keys_def
    by (simp add: filter_map comp_def del: map_map)
qed

lemma api_keys_ok_append:
  assumes "api_keys_ok sha s" "api_key_row_ok sha (ak_org s) row" "kr_id row \<notin> set (key_ids s)" "member_keys (kr_member row) s < max_keys_per_member"
  shows "api_keys_ok sha (s\<lparr>ak_keys := ak_keys s @ [row]\<rparr>)"
  using assms by (auto simp: api_keys_ok_def key_ids_def member_keys_def list_all_iff)

lemma api_key_row_lookup: "api_key_row_of i s = None \<longleftrightarrow> i \<notin> set (key_ids s)"
  by (simp add: api_key_row_of_def key_ids_def find_map_None del: set_map)

lemma api_key_row_found: "api_key_row_of i s = Some row \<Longrightarrow> row \<in> set (ak_keys s) \<and> kr_id row = i"
  using find_key_Some [of kr_id i "ak_keys s" row] by (simp add: api_key_row_of_def)

lemma new_key_row_fields [simp]:
  "kr_id (new_key_row minted input name scope now) = pk_key_id minted" "kr_member (new_key_row minted input name scope now) = ki_member input"
  "kr_hash (new_key_row minted input name scope now) = pk_hash minted" "kr_expires_at (new_key_row minted input name scope now) = ki_expires_at input"
  "kr_last_used_at (new_key_row minted input name scope now) = None"
  by (simp_all add: new_key_row_def)

text \<open>What a creation writes.\<close>

fun is_done :: "'a key_reply \<Rightarrow> bool" where
  "is_done (KeyDone x) = True"
| "is_done _ = False"

lemma create_key_effect:
  assumes "create_api_key sha draws input now s = (answer, told, s1)"
  obtains (refused) "told = []" "s1 = s" "\<not> is_done answer"
  | (purged) "(told, s1) = purge_expired_keys now s" "\<not> is_done answer"
  | (created) a b name scope s0 row where "(told, s0) = purge_expired_keys now s" "(a, b) \<in> set draws" "clean_name (ki_name input) = Some name"
      "scope_ok (map_option StoredScope scope)" "\<not> bad_expiry now (ki_expires_at input)"
      "member_keys (ki_member input) s0 < max_keys_per_member" "row = new_key_row (mint_api_key sha a b (ak_org s)) input name scope now"
      "kr_id row \<notin> set (key_ids s0)" "answer = KeyDone (key_record row, mk_key (mint_api_key sha a b (ak_org s)))"
      "s1 = s0\<lparr>ak_keys := ak_keys s0 @ [row]\<rparr>"
proof (cases "clean_name (ki_name input)")
  case None
  then show ?thesis using assms refused by (auto simp: create_api_key_def)
next
  case (Some name)
  note name = Some
  show ?thesis
  proof (cases "case ki_tool_scope input of None \<Rightarrow> Some None | Some scope \<Rightarrow> map_option Some (normalized_tool_scope scope)")
    case None
    then show ?thesis using assms refused name by (auto simp: create_api_key_def)
  next
    case (Some scope)
    note scope = Some
    have ok: "scope_ok (map_option StoredScope scope)"
      using scope normalized_tool_scope_again by (auto simp: scope_ok_def split: option.splits)
    obtain gone s0 where purge: "purge_expired_keys now s = (gone, s0)" by (cases "purge_expired_keys now s")
    have org: "ak_org s0 = ak_org s" using purge by (auto simp: purge_expired_keys_def drop_keys_def)
    let ?mints = "map (\<lambda>(i, b). mint_api_key sha i b (ak_org s)) draws"
    consider "bad_expiry now (ki_expires_at input)"
      | "\<not> bad_expiry now (ki_expires_at input)" "member_keys (ki_member input) s0 \<ge> max_keys_per_member"
      | "\<not> bad_expiry now (ki_expires_at input)" "member_keys (ki_member input) s0 < max_keys_per_member" by linarith
    then show ?thesis
    proof cases
      case 1
      then show ?thesis using assms refused name scope by (auto simp: create_api_key_def)
    next
      case 2
      then show ?thesis using assms purged name scope purge by (auto simp: create_api_key_def Let_def member_keys_def)
    next
      case 3
      define fresh where "fresh = dropWhile (\<lambda>m. api_key_row_of (pk_key_id m) s0 \<noteq> None) ?mints"
      have answer: "(case fresh of [] \<Rightarrow> (KeyThrown, gone, s0)
          | minted # _ \<Rightarrow> let row = new_key_row minted input name scope now
              in (KeyDone (key_record row, mk_key minted), gone, s0\<lparr>ak_keys := ak_keys s0 @ [row]\<rparr>)) = (answer, told, s1)"
        using assms name scope purge 3 unfolding fresh_def by (simp add: create_api_key_def Let_def member_keys_def)
      show ?thesis
      proof (cases fresh)
        case Nil
        then show ?thesis using answer purged purge by auto
      next
        case (Cons minted others)
        note Cons = Cons [unfolded fresh_def]
        have "minted \<in> set ?mints" using Cons set_dropWhileD [of minted _ ?mints] by (metis list.set_intros(1))
        then obtain a b where ab: "(a, b) \<in> set draws" "minted = mint_api_key sha a b (ak_org s)" by auto
        have "api_key_row_of (pk_key_id minted) s0 = None" using dropWhile_eq_Cons_conv [THEN iffD1, OF Cons] by blast
        then have unused: "pk_key_id minted \<notin> set (key_ids s0)" by (simp add: api_key_row_lookup)
        show ?thesis
          by (rule created [of s0 a b name scope "new_key_row minted input name scope now"])
            (use answer name purge 3 Cons ab unused ok in \<open>simp_all add: fresh_def Let_def member_keys_def\<close>)
      qed
    qed
  qed
qed

lemma new_row_ok:
  assumes "is_org_id org" "length a = 10" "length b = 36" "clean_name given = Some name" "scope_ok (map_option StoredScope scope)"
  shows "api_key_row_ok sha org (new_key_row (mint_api_key sha a b org) input name scope now)"
proof -
  have "clean_name name = Some name" using assms(4) by (rule clean_name_idem)
  then show ?thesis
    using assms(5) minted_parts(1) [OF assms(2)] minted_parts(2) [OF assms(3)]
    by (auto simp: api_key_row_ok_def new_key_row_def mint_api_key_def mint_org_key_def Let_def api_key_text_def)
qed

lemma purge_is_drop: "(told, s0) = purge_expired_keys now s \<Longrightarrow> told = fst (drop_keys (expired_at now) s) \<and> s0 = snd (drop_keys (expired_at now) s)"
  by (simp add: purge_expired_keys_def prod_eq_iff)

lemma drop_org [simp]: "ak_org (snd (drop_keys P s)) = ak_org s"
  by (simp add: drop_keys_def)

lemma api_keys_ok_create: "api_keys_ok sha s \<Longrightarrow> key_draws_ok draws \<Longrightarrow> api_keys_ok sha (snd (snd (create_api_key sha draws input now s)))"
proof -
  assume ok: "api_keys_ok sha s" and draws: "key_draws_ok draws"
  obtain answer told s1 where c: "create_api_key sha draws input now s = (answer, told, s1)" by (metis prod.exhaust)
  show ?thesis
  proof (rule create_key_effect [OF c])
    fix a b name scope s0 row
    assume e: "(told, s0) = purge_expired_keys now s" "(a, b) \<in> set draws" "clean_name (ki_name input) = Some name"
      "scope_ok (map_option StoredScope scope)" "member_keys (ki_member input) s0 < max_keys_per_member"
      "row = new_key_row (mint_api_key sha a b (ak_org s)) input name scope now" "kr_id row \<notin> set (key_ids s0)"
      "s1 = s0\<lparr>ak_keys := ak_keys s0 @ [row]\<rparr>"
    have s0: "api_keys_ok sha s0" "ak_org s0 = ak_org s" using purge_is_drop [OF e(1)] api_keys_ok_drop [OF ok] by simp_all
    have len: "length a = 10" "length b = 36" using draws e(2) by (auto simp: key_draws_ok_def list_all_iff)
    have org: "is_org_id (ak_org s)" using ok by (simp add: api_keys_ok_def)
    have "api_key_row_ok sha (ak_org s0) row" unfolding e(6) s0(2) by (rule new_row_ok [OF org len e(3,4)])
    moreover have "kr_member row = ki_member input" by (simp add: e(6) new_key_row_def)
    ultimately show ?thesis using api_keys_ok_append [OF s0(1) _ e(7)] e(5,8) c by simp
  qed (use c ok api_keys_ok_drop [OF ok] in \<open>auto simp: purge_expired_keys_def\<close>)
qed

lemma api_keys_ok_scope: "api_keys_ok sha s \<Longrightarrow> api_keys_ok sha (snd (snd (set_key_tool_scope i scope member now s)))"
proof -
  assume ok: "api_keys_ok sha s"
  obtain gone s1 where purge: "purge_expired_keys now s = (gone, s1)" by (cases "purge_expired_keys now s")
  have s1: "api_keys_ok sha s1" using purge_is_drop [OF purge [symmetric]] api_keys_ok_drop [OF ok] by simp
  have "api_keys_ok sha (s1\<lparr>ak_keys := map (\<lambda>k. if kr_id k = i then k\<lparr>kr_tool_scope := map_option StoredScope stored\<rparr> else k) (ak_keys s1)\<rparr>)"
    if "(case scope of None \<Rightarrow> Some None | Some given \<Rightarrow> map_option Some (normalized_tool_scope given)) = Some stored" for stored
  proof (rule api_keys_ok_map [OF s1])
    have "scope_ok (map_option StoredScope stored)" using that normalized_tool_scope_again by (auto simp: scope_ok_def split: option.splits)
    then show "api_key_row_ok sha (ak_org s1) (if kr_id k = i then k\<lparr>kr_tool_scope := map_option StoredScope stored\<rparr> else k)"
      if "api_key_row_ok sha (ak_org s1) k" for k
      using that by (auto simp: api_key_row_ok_def)
  qed simp
  then show ?thesis using s1 by (auto simp: set_key_tool_scope_def purge Let_def split: option.split)
qed

lemma api_keys_ok_check: "api_keys_ok sha s \<Longrightarrow> api_keys_ok sha (snd (snd (check_api_key i hash now s)))"
proof -
  assume ok: "api_keys_ok sha s"
  have "api_keys_ok sha (s\<lparr>ak_keys := map (\<lambda>k. if kr_id k = i then k\<lparr>kr_last_used_at := Some now\<rparr> else k) (ak_keys s)\<rparr>)"
    by (rule api_keys_ok_map [OF ok]) (auto simp: api_key_row_ok_def)
  then show ?thesis using ok api_keys_ok_drop [OF ok] by (simp add: check_api_key_def split: option.split)
qed

lemma api_keys_ok_run: "api_keys_ok sha s \<Longrightarrow> key_call_ok call \<Longrightarrow> api_keys_ok sha (snd (key_run sha call s))"
proof (cases call)
  case (AccessClientsCall on)
  then show "api_keys_ok sha s \<Longrightarrow> key_call_ok call \<Longrightarrow> api_keys_ok sha (snd (key_run sha call s))"
    by (simp add: set_access_clients_def api_keys_ok_def key_ids_def member_keys_def)
next
  case (RevokeKeyCall i now member)
  then show "api_keys_ok sha s \<Longrightarrow> key_call_ok call \<Longrightarrow> api_keys_ok sha (snd (key_run sha call s))"
    using api_keys_ok_drop by (auto simp: revoke_api_key_def split: option.split)
qed (simp_all add: api_keys_ok_create api_keys_ok_scope api_keys_ok_check api_keys_ok_drop purge_expired_keys_def remove_member_keys_def
    list_api_keys_def case_prod_beta)

lemma api_keys_ok_runs: "api_keys_ok sha s \<Longrightarrow> list_all key_call_ok calls \<Longrightarrow> api_keys_ok sha (run_keys sha calls s)"
  by (induction calls arbitrary: s) (simp_all add: run_keys_def api_keys_ok_run)

lemma api_keys_ok_open: "is_org_id org \<Longrightarrow> api_keys_ok sha (open_api_keys org settings [])"
  by (simp add: api_keys_ok_def open_api_keys_def key_ids_def member_keys_def)


subsection \<open>What passes the check\<close>

lemma check_accepts:
  "fst (check_api_key i hash now s) = KeyAccepted m e \<longleftrightarrow>
   (\<exists>row. is_key_id i \<and> api_key_row_of i s = Some row \<and> same_hash (kr_hash row) hash \<and> \<not> expired_at now row \<and> m = kr_member row \<and> e = kr_expires_at row)"
  by (auto simp: check_api_key_def split: option.split)

lemma same_hash_eq: "same_hash stored presented \<longleftrightarrow> is_hash presented \<and> stored = presented"
  by (auto simp: same_hash_def)

text \<open>A key that was issued works: its text parses as one of the org, and until it expires its member passes the check
  with it.
\<close>

theorem issued_key_works:
  assumes "api_keys_ok sha s" "key_draws_ok draws" "\<And>x. is_hash (sha x)"
    and "create_api_key sha draws input now s = (KeyDone (given, key), told, s1)"
    and "\<And>e. ki_expires_at input = Some e \<Longrightarrow> later < e"
  shows "\<exists>parsed. parse_api_key sha key = Some parsed \<and> pk_org parsed = ak_org s \<and> pk_key_id parsed = ar_id given \<and>
    fst (check_api_key (pk_key_id parsed) (pk_hash parsed) later s1) = KeyAccepted (ki_member input) (ki_expires_at input)"
proof (rule create_key_effect [OF assms(4)])
  fix a b name scope s0 row
  assume e: "(told, s0) = purge_expired_keys now s" "(a, b) \<in> set draws"
    "row = new_key_row (mint_api_key sha a b (ak_org s)) input name scope now" "kr_id row \<notin> set (key_ids s0)"
    "KeyDone (given, key) = KeyDone (key_record row, mk_key (mint_api_key sha a b (ak_org s)))" "s1 = s0\<lparr>ak_keys := ak_keys s0 @ [row]\<rparr>"
  let ?m = "mint_api_key sha a b (ak_org s)"
  have org: "is_org_id (ak_org s)" using assms(1) by (simp add: api_keys_ok_def)
  have len: "length a = 10" "length b = 36" using assms(2) e(2) by (auto simp: key_draws_ok_def list_all_iff)
  have m: "pk_org ?m = ak_org s" "mk_key ?m = api_key_prefix @ ak_org s @ ''_'' @ pk_key_id ?m @ ''_'' @ base64_url b" "pk_hash ?m = sha (mk_key ?m)"
    "pk_key_id ?m = random_hex a"
    by (simp_all add: mint_api_key_def mint_org_key_def Let_def)
  have key_id: "is_key_id (pk_key_id ?m)" using minted_parts(1) [OF len(1)] m(4) by simp
  have parsed: "parse_api_key sha key = Some \<lparr>pk_org = ak_org s, pk_key_id = pk_key_id ?m, pk_hash = sha key\<rparr>"
    using parse_text [OF org key_id minted_parts(2) [OF len(2)], of sha api_key_prefix] e(5) m(2) by (simp add: parse_api_key_def)
  have "find (\<lambda>k. kr_id k = kr_id row) (ks @ [row]) = Some row" if "kr_id row \<notin> kr_id ` set ks" for ks
    using that by (induction ks) auto
  then have "api_key_row_of (pk_key_id ?m) s1 = Some row" using e(3,4,6) by (simp add: api_key_row_of_def key_ids_def)
  moreover have "\<not> expired_at later row" using assms(5) e(3) by (auto simp: expired_at_def split: option.split)
  moreover have "same_hash (kr_hash row) (sha key)" using assms(3) e(3,5) m(3) by (simp add: same_hash_eq)
  ultimately have "fst (check_api_key (pk_key_id ?m) (sha key) later s1) = KeyAccepted (ki_member input) (ki_expires_at input)"
    using key_id e(3) by (simp add: check_accepts)
  then show ?thesis using parsed e(3,5) by (simp add: key_record_def)
qed (use assms(4) in simp_all)

definition sample_sha :: "string \<Rightarrow> string" where
  "sample_sha s = replicate 63 CHR ''0'' @ [lower_hex_digit (length s mod 16)]"

definition sample_draws :: key_draws where
  "sample_draws = [(replicate 10 1, replicate 36 2)]"

definition sample_key_input :: key_input where
  "sample_key_input = \<lparr>ki_member = ''mem-1'', ki_name = '' laptop '', ki_expires_at = Some 50, ki_tool_scope = None\<rparr>"

lemma sample_sha_hash: "is_hash (sample_sha x)"
proof -
  have "lower_hex_char CHR ''0''" by (simp add: lower_hex_char_def)
  then have "list_all lower_hex_char (replicate 63 CHR ''0'')" by (simp add: list_all_iff)
  then show ?thesis using hex_digit_hex [of "length x mod 16"] by (simp add: is_hash_def sample_sha_def)
qed

lemma sample_draws_ok: "key_draws_ok sample_draws"
  by (simp add: key_draws_ok_def sample_draws_def)

definition sample_keys :: api_key_store where "sample_keys = open_api_keys ''acme'' None []"

lemma sample_keys_ok: "api_keys_ok sha sample_keys"
  unfolding sample_keys_def by (rule api_keys_ok_open) code_simp

definition sample_issued :: "(api_key_record \<times> string) \<times> api_key_store" where
  "sample_issued = (case create_api_key sample_sha sample_draws sample_key_input 10 sample_keys of
     (KeyDone x, told, s1) \<Rightarrow> (x, s1) | (_, told, s1) \<Rightarrow> (undefined, s1))"

theorem issued_key_works_witness:
  "\<exists>parsed given key told s1. create_api_key sample_sha sample_draws sample_key_input 10 sample_keys = (KeyDone (given, key), told, s1) \<and>
     parse_api_key sample_sha key = Some parsed \<and> fst (check_api_key (pk_key_id parsed) (pk_hash parsed) 49 s1) = KeyAccepted ''mem-1'' (Some 50)"
proof -
  obtain answer told s1 where c: "create_api_key sample_sha sample_draws sample_key_input 10 sample_keys = (answer, told, s1)"
    by (metis prod.exhaust)
  have name: "clean_name '' laptop '' = Some ''laptop''" by code_simp
  have "is_done answer"
    using c by (auto simp: create_api_key_def name Let_def purge_expired_keys_def drop_keys_def sample_key_input_def sample_keys_def open_api_keys_def
        sample_draws_def bad_expiry_def max_safe_integer_def max_keys_per_member_def api_key_row_of_def)
  then obtain given key where issued: "answer = KeyDone (given, key)" by (cases answer) auto
  from issued_key_works [OF sample_keys_ok sample_draws_ok sample_sha_hash c [unfolded issued], of 49]
  show ?thesis using c issued by (fastforce simp: sample_key_input_def)
qed

subsection \<open>Keys that are gone\<close>

lemma drop_told: "distinct (key_ids s) \<Longrightarrow> (told, s1) = drop_keys P s \<Longrightarrow> distinct told \<and> set told = set (key_ids s) - set (key_ids s1)"
  by (auto simp: drop_keys_def key_ids_def distinct_map_filter distinct_map inj_on_def)

lemma drop_ids: "set (key_ids (snd (drop_keys P s))) \<subseteq> set (key_ids s)"
  by (auto simp: drop_keys_def key_ids_def)

lemma access_clients_ids [simp]: "key_ids (set_access_clients on s) = key_ids s"
  by (simp add: set_access_clients_def key_ids_def)

lemma singleton_list: "distinct xs \<Longrightarrow> set xs = {x} \<Longrightarrow> xs = [x]"
  by (cases xs; cases "tl xs") auto

lemma drop_one: "api_key_row_of i s = Some row \<Longrightarrow> distinct (key_ids s) \<Longrightarrow> fst (drop_keys (\<lambda>k. kr_id k = i) s) = [i]"
proof -
  assume a: "api_key_row_of i s = Some row" "distinct (key_ids s)"
  have "distinct (fst (drop_keys (\<lambda>k. kr_id k = i) s)) \<and> set (fst (drop_keys (\<lambda>k. kr_id k = i) s)) = {i}"
    using a api_key_row_found [OF a(1)] by (auto simp: drop_keys_def key_ids_def distinct_map_filter)
  then show ?thesis by (rule conjE) (rule singleton_list)
qed

lemma key_ids_map: "(\<And>k. kr_id (f k) = kr_id k) \<Longrightarrow> key_ids (s\<lparr>ak_keys := map f ks\<rparr>) = map kr_id ks"
  by (simp add: key_ids_def)

lemma check_effect:
  "(\<exists>row. api_key_row_of i s = Some row \<and> snd (check_api_key i hash now s) = ([i], snd (drop_keys (\<lambda>k. kr_id k = i) s))) \<or>
   (\<exists>s1. snd (check_api_key i hash now s) = ([], s1) \<and> key_ids s1 = key_ids s \<and> ak_org s1 = ak_org s)"
proof (cases "if is_key_id i then api_key_row_of i s else None")
  case None
  then show ?thesis by (simp add: check_api_key_def)
next
  case (Some row)
  have "key_ids (s\<lparr>ak_keys := map (\<lambda>k. if kr_id k = i then k\<lparr>kr_last_used_at := Some now\<rparr> else k) (ak_keys s)\<rparr>) = key_ids s"
    by (simp add: key_ids_def)
  then show ?thesis using Some by (auto simp: check_api_key_def split: if_split_asm)
qed

lemma key_run_told:
  assumes "distinct (key_ids s)" "\<And>i. i \<in> set (key_ids s) \<Longrightarrow> \<not> mints_key sha (ak_org s) i call" "key_run sha call s = (told, s1)"
  shows "distinct told \<and> set told = set (key_ids s) - set (key_ids s1)"
proof (cases call)
  case (CreateKeyCall draws input now)
  obtain answer where c: "create_api_key sha draws input now s = (answer, told, s1)"
    using assms(3) CreateKeyCall by (cases "create_api_key sha draws input now s") auto
  show ?thesis
  proof (rule create_key_effect [OF c])
    fix a b name scope s0 row
    assume e: "(told, s0) = purge_expired_keys now s" "(a, b) \<in> set draws" "row = new_key_row (mint_api_key sha a b (ak_org s)) input name scope now"
      "s1 = s0\<lparr>ak_keys := ak_keys s0 @ [row]\<rparr>"
    have "kr_id row \<notin> set (key_ids s)" using assms(2) [of "kr_id row"] e(2,3) CreateKeyCall by force
    moreover have "key_ids s1 = key_ids s0 @ [kr_id row]" using e(4) by (simp add: key_ids_def)
    ultimately show ?thesis using drop_told [OF assms(1), of told s0 "expired_at now"] e(1) by (auto simp: purge_expired_keys_def)
  qed (use assms(1) drop_told in \<open>auto simp: purge_expired_keys_def\<close>)
next
  case (RevokeKeyCall i now member)
  show ?thesis
  proof (cases "told = [] \<and> s1 = s")
    case False
    then obtain row where "api_key_row_of i s = Some row" "told = [i]" "s1 = snd (drop_keys (\<lambda>k. kr_id k = i) s)"
      using assms(3) RevokeKeyCall by (auto simp: revoke_api_key_def split: option.splits if_splits)
    then show ?thesis using drop_told [OF assms(1), of told s1 "\<lambda>k. kr_id k = i"] drop_one [OF _ assms(1)] by (simp add: prod_eq_iff)
  qed simp
next
  case (KeyScopeCall i scope member now)
  obtain s0 where p: "(told, s0) = purge_expired_keys now s" "key_ids s1 = key_ids s0"
  proof -
    obtain gone s0 where "purge_expired_keys now s = (gone, s0)" by (cases "purge_expired_keys now s")
    then show ?thesis using that [of s0] assms(3) KeyScopeCall key_ids_map
      by (auto simp: set_key_tool_scope_def Let_def key_ids_def split: option.splits if_splits)
  qed
  then show ?thesis using drop_told [OF assms(1), of told s0 "expired_at now"] by (simp add: purge_expired_keys_def)
next
  case (CheckKeyCall i hash now)
  consider "told = []" "key_ids s1 = key_ids s"
    | row where "api_key_row_of i s = Some row" "told = [i]" "s1 = snd (drop_keys (\<lambda>k. kr_id k = i) s)"
    using assms(3) CheckKeyCall check_effect [of i s hash now] by auto
  then show ?thesis
  proof cases
    case 2
    then show ?thesis using drop_told [OF assms(1), of told s1 "\<lambda>k. kr_id k = i"] drop_one [OF _ assms(1)] by (simp add: prod_eq_iff)
  qed simp
qed (use assms drop_told [OF assms(1) sym] in \<open>auto simp: list_api_keys_def purge_expired_keys_def remove_member_keys_def case_prod_beta\<close>)

text \<open>Every key that goes is told: what a call tells the callback are, each once, exactly the keys that were there and are
  not any more, however they went (revoked, expired, their member gone).
\<close>

theorem deleted_keys_are_told:
  assumes "api_keys_ok sha s" "\<And>i. i \<in> set (key_ids s) \<Longrightarrow> \<not> mints_key sha (ak_org s) i call" "key_run sha call s = (told, s1)"
  shows "distinct told \<and> set told = set (key_ids s) - set (key_ids s1)"
  by (rule key_run_told) (use assms in \<open>simp_all add: api_keys_ok_def\<close>)

subsection \<open>Never again\<close>

text \<open>A key's id and expiry never change: what a call leaves was there, or it minted it.\<close>

definition key_life :: "api_key_store \<Rightarrow> (string \<times> ms option) list" where
  "key_life s = map (\<lambda>k. (kr_id k, kr_expires_at k)) (ak_keys s)"

lemma key_ids_life: "key_ids s = map fst (key_life s)"
  by (simp add: key_ids_def key_life_def)

lemma drop_life: "set (key_life (snd (drop_keys P s))) \<subseteq> set (key_life s)"
  by (auto simp: drop_keys_def key_life_def)

lemma check_life: "set (key_life (snd (snd (check_api_key i hash now s)))) \<subseteq> set (key_life s) \<and> ak_org (snd (snd (check_api_key i hash now s))) = ak_org s"
  using drop_life [of "\<lambda>k. kr_id k = i" s] by (auto simp: check_api_key_def key_life_def split: option.split)

lemma scope_life: "set (key_life (snd (snd (set_key_tool_scope i scope member now s)))) \<subseteq> set (key_life s)"
  by (auto simp: set_key_tool_scope_def purge_expired_keys_def drop_keys_def key_life_def Let_def split: option.splits if_splits)

lemma key_run_life:
  "set (key_life (snd (key_run sha call s))) \<subseteq> set (key_life s) \<union> {l. mints_key sha (ak_org s) (fst l) call} \<and> ak_org (snd (key_run sha call s)) = ak_org s"
proof (cases call)
  case (CreateKeyCall draws input now)
  obtain answer told s1 where c: "create_api_key sha draws input now s = (answer, told, s1)" by (metis prod.exhaust)
  have sub: "set (key_life s0) \<subseteq> set (key_life s) \<and> ak_org s0 = ak_org s" if "(told, s0) = purge_expired_keys now s" for s0
    using that by (auto simp: purge_expired_keys_def drop_keys_def key_life_def)
  show ?thesis
  proof (rule create_key_effect [OF c])
    fix a b name scope s0 row
    assume e: "(told, s0) = purge_expired_keys now s" "(a, b) \<in> set draws" "row = new_key_row (mint_api_key sha a b (ak_org s)) input name scope now"
      "s1 = s0\<lparr>ak_keys := ak_keys s0 @ [row]\<rparr>"
    have "mints_key sha (ak_org s) (kr_id row) call" using e(2,3) CreateKeyCall by force
    moreover have "key_life s1 = key_life s0 @ [(kr_id row, kr_expires_at row)]" using e(4) by (simp add: key_life_def)
    ultimately show ?thesis using sub [OF e(1)] e(4) CreateKeyCall c by auto
  next
    assume "(told, s1) = purge_expired_keys now s"
    note sub [OF this]
    moreover have "snd (key_run sha call s) = s1" using CreateKeyCall c by simp
    ultimately show ?thesis by blast
  qed (use CreateKeyCall c in auto)
next
  case (RevokeKeyCall i now member)
  then show ?thesis by (auto simp: revoke_api_key_def drop_keys_def key_life_def split: option.split)
next
  case (KeyScopeCall i scope member now)
  then show ?thesis using scope_life
    by (auto simp: set_key_tool_scope_def purge_expired_keys_def drop_keys_def Let_def split: option.splits if_splits)
next
  case (CheckKeyCall i hash now)
  then show ?thesis using check_life [of i hash now s] by auto
qed (auto simp: list_api_keys_def purge_expired_keys_def remove_member_keys_def set_access_clients_def drop_keys_def key_life_def case_prod_beta)

lemma key_run_ids: "set (key_ids (snd (key_run sha call s))) \<subseteq> set (key_ids s) \<union> {i. mints_key sha (ak_org s) i call} \<and> ak_org (snd (key_run sha call s)) = ak_org s"
  using key_run_life [of sha call s] by (fastforce simp: key_ids_life)

lemma gone_stays: "i \<notin> set (key_ids s) \<Longrightarrow> list_all (\<lambda>call. \<not> mints_key sha (ak_org s) i call) calls \<Longrightarrow> i \<notin> set (key_ids (run_keys sha calls s))"
proof (induction calls arbitrary: s)
  case (Cons call calls)
  let ?s = "snd (key_run sha call s)"
  have "i \<notin> set (key_ids ?s)" "ak_org ?s = ak_org s" using Cons.prems key_run_ids [of sha call s] by auto
  then show ?case using Cons.IH [of ?s] Cons.prems(2) by (simp add: run_keys_def)
qed (simp add: run_keys_def)

lemma check_unknown: "i \<notin> set (key_ids s) \<Longrightarrow> fst (check_api_key i hash now s) = KeyRejected UnknownKey"
  using api_key_row_lookup [of i s] by (simp add: check_api_key_def split: option.split)

text \<open>A key that is gone never works again: once a call deleted a key (revoked it, found it expired, or its member left), it
  is refused whatever is called after, unless its id is drawn again.
\<close>

theorem deleted_key_stays_refused:
  assumes "api_keys_ok sha s" "\<And>j. j \<in> set (key_ids s) \<Longrightarrow> \<not> mints_key sha (ak_org s) j call" "i \<in> set (fst (key_run sha call s))"
    and "list_all (\<lambda>call. \<not> mints_key sha (ak_org s) i call) calls"
  shows "fst (check_api_key i hash later (run_keys sha calls (snd (key_run sha call s)))) = KeyRejected UnknownKey"
proof -
  obtain told s1 where run: "key_run sha call s = (told, s1)" by (cases "key_run sha call s")
  have "distinct (key_ids s)" using assms(1) by (simp add: api_keys_ok_def)
  from key_run_told [OF this assms(2) run] have "i \<notin> set (key_ids s1)" using assms(3) run by auto
  moreover have "ak_org s1 = ak_org s" using key_run_ids [of sha call s] run by simp
  ultimately show ?thesis using gone_stays [of i s1 sha calls] assms(4) run check_unknown by simp
qed

definition one_key :: api_key_store where
  "one_key = sample_keys\<lparr>ak_keys := [\<lparr>kr_id = replicate 20 CHR ''7'', kr_member = ''mem-1'', kr_name = ''laptop'',
     kr_hash = sample_sha (api_key_text ''acme'' (replicate 20 CHR ''7'') (replicate 48 CHR ''A'')),
     kr_prefix = api_key_text ''acme'' (replicate 20 CHR ''7'') (replicate 4 CHR ''A''), kr_created_at = 5, kr_last_used_at = None,
     kr_expires_at = Some 50, kr_revoked_at = None, kr_tool_scope = None\<rparr>]\<rparr>"

lemma one_key_ok: "api_keys_ok sample_sha one_key"
proof -
  have "clean_name ''laptop'' = Some ''laptop''" by code_simp
  moreover have "is_secret (replicate 48 CHR ''A'')" by (simp add: is_secret_def url_char_def list_all_iff)
  moreover have "is_key_id (replicate 20 CHR ''7'')" by (simp add: is_key_id_def lower_hex_char_def list_all_iff)
  moreover have "take 4 (replicate 48 CHR ''A'') = replicate 4 CHR ''A''" by simp
  moreover have "is_org_id ''acme''" by code_simp
  ultimately show ?thesis
    by (force simp: api_keys_ok_def one_key_def sample_keys_def open_api_keys_def key_ids_def member_keys_def api_key_row_ok_def scope_ok_def
        shown_secret_characters_def max_keys_per_member_def)
qed

theorem deleted_keys_are_told_witness:
  "fst (key_run sample_sha (MemberKeysCall ''mem-1'') one_key) = [replicate 20 CHR ''7''] \<and>
   set (fst (key_run sample_sha (MemberKeysCall ''mem-1'') one_key)) = set (key_ids one_key) - set (key_ids (snd (key_run sample_sha (MemberKeysCall ''mem-1'') one_key)))"
proof -
  obtain told s1 where run: "key_run sample_sha (MemberKeysCall ''mem-1'') one_key = (told, s1)" by (metis prod.exhaust)
  have "fst (key_run sample_sha (MemberKeysCall ''mem-1'') one_key) = [replicate 20 CHR ''7'']"
    by (simp add: remove_member_keys_def drop_keys_def one_key_def)
  moreover have "set told = set (key_ids one_key) - set (key_ids s1)"
    using deleted_keys_are_told [OF one_key_ok _ run] by simp
  ultimately show ?thesis using run by simp
qed

theorem deleted_key_stays_refused_witness:
  "fst (check_api_key (replicate 20 CHR ''7'') (sample_sha []) 60 (run_keys sample_sha [PurgeKeysCall 20]
     (snd (key_run sample_sha (RevokeKeyCall (replicate 20 CHR ''7'') 10 None) one_key)))) = KeyRejected UnknownKey"
proof (rule deleted_key_stays_refused [OF one_key_ok])
  show "replicate 20 CHR ''7'' \<in> set (fst (key_run sample_sha (RevokeKeyCall (replicate 20 CHR ''7'') 10 None) one_key))"
    by (simp add: revoke_api_key_def api_key_row_of_def one_key_def)
qed simp_all

end
