(* ===== verification/Management_Keys.thy ===== *)
theory Management_Keys
  imports Api_Key_Properties
begin

text \<open>
  The management keys of an org (\<open>packages/state/src/management-keys/store.ts\<close>, the class \<open>ManagementKeyStore\<close>): a list of
  rows in insertion order; the bytes a key is drawn from come from a list, one pair for each try.
\<close>

record management_key_row =
  gr_id :: string
  gr_name :: string
  gr_role :: string
  gr_hash :: string
  gr_prefix :: string
  gr_created_by :: string
  gr_owner_email :: "string option"
  gr_created_at :: ms
  gr_last_used_at :: "ms option"

record management_key_store =
  mk_org :: string
  mk_rows :: "management_key_row list"

record management_key_record =
  gv_id :: string
  gv_name :: string
  gv_role :: org_role
  gv_prefix :: string
  gv_created_by :: string
  gv_owner_email :: "string option"
  gv_created_at :: ms
  gv_last_used_at :: "ms option"

datatype management_key_error = ManagementInvalidName | TooManyManagementKeys | ManagementKeyNotFound

datatype 'a management_reply = ManagementDone 'a | ManagementRefused management_key_error | ManagementThrown

definition max_management_keys :: nat where "max_management_keys = 100"

definition management_record :: "management_key_row \<Rightarrow> management_key_record" where
  "management_record row =
     \<lparr>gv_id = gr_id row, gv_name = gr_name row, gv_role = role_or_member (gr_role row), gv_prefix = gr_prefix row, gv_created_by = gr_created_by row,
      gv_owner_email = gr_owner_email row, gv_created_at = gr_created_at row, gv_last_used_at = gr_last_used_at row\<rparr>"

definition management_row_of :: "string \<Rightarrow> management_key_store \<Rightarrow> management_key_row option" where
  "management_row_of i s = find (\<lambda>k. gr_id k = i) (mk_rows s)"

definition list_management_keys :: "management_key_store \<Rightarrow> management_key_record list" where
  "list_management_keys s = map management_record (sort_key (\<lambda>k. (- gr_created_at k, gr_id k)) (mk_rows s))"

text \<open>\<open>create\<close>: the caller checked who may issue which role.\<close>

definition create_management_key ::
  "(string \<Rightarrow> string) \<Rightarrow> key_draws \<Rightarrow> string \<Rightarrow> org_role \<Rightarrow> string \<Rightarrow> string option \<Rightarrow> ms \<Rightarrow> management_key_store
     \<Rightarrow> (management_key_record \<times> string) management_reply \<times> management_key_store" where
  "create_management_key sha draws given_name role created_by owner now s =
     (case clean_name given_name of
        None \<Rightarrow> (ManagementRefused ManagementInvalidName, s)
      | Some name \<Rightarrow>
          if length (mk_rows s) \<ge> max_management_keys then (ManagementRefused TooManyManagementKeys, s)
          else (case dropWhile (\<lambda>m. management_row_of (pk_key_id m) s \<noteq> None) (map (\<lambda>(i, b). mint_management_key sha i b (mk_org s)) draws) of
                  [] \<Rightarrow> (ManagementThrown, s)
                | minted # _ \<Rightarrow>
                    let row = \<lparr>gr_id = pk_key_id minted, gr_name = name, gr_role = role_text role, gr_hash = pk_hash minted,
                          gr_prefix = mk_prefix minted, gr_created_by = created_by, gr_owner_email = map_option js_lower owner,
                          gr_created_at = now, gr_last_used_at = None\<rparr>
                    in (ManagementDone (management_record row, mk_key minted), s\<lparr>mk_rows := mk_rows s @ [row]\<rparr>)))"

definition revoke_management_key :: "string \<Rightarrow> management_key_store \<Rightarrow> management_key_record management_reply \<times> management_key_store" where
  "revoke_management_key i s =
     (case management_row_of i s of
        None \<Rightarrow> (ManagementRefused ManagementKeyNotFound, s)
      | Some row \<Rightarrow> (ManagementDone (management_record row), s\<lparr>mk_rows := filter (\<lambda>k. gr_id k \<noteq> i) (mk_rows s)\<rparr>))"

record management_verdict =
  gk_name :: string
  gk_role :: org_role
  gk_owner_email :: "string option"

definition check_management_key :: "string \<Rightarrow> string \<Rightarrow> ms \<Rightarrow> management_key_store \<Rightarrow> management_verdict option \<times> management_key_store" where
  "check_management_key key_id hash now s =
     (case (if is_key_id key_id then management_row_of key_id s else None) of
        None \<Rightarrow> (None, s)
      | Some row \<Rightarrow>
          if \<not> same_hash (gr_hash row) hash then (None, s)
          else (Some \<lparr>gk_name = gr_name row, gk_role = role_or_member (gr_role row), gk_owner_email = gr_owner_email row\<rparr>,
                if (case gr_last_used_at row of None \<Rightarrow> True | Some used \<Rightarrow> now - used \<ge> last_used_resolution_ms)
                then s\<lparr>mk_rows := map (\<lambda>k. if gr_id k = key_id then k\<lparr>gr_last_used_at := Some now\<rparr> else k) (mk_rows s)\<rparr>
                else s))"

subsection \<open>Calls\<close>

datatype management_call =
  CreateManagementCall key_draws string org_role string "string option" ms
| RevokeManagementCall string
| CheckManagementCall string string ms

fun management_run :: "(string \<Rightarrow> string) \<Rightarrow> management_call \<Rightarrow> management_key_store \<Rightarrow> management_key_store" where
  "management_run sha (CreateManagementCall draws name role creator owner now) s = snd (create_management_key sha draws name role creator owner now s)"
| "management_run sha (RevokeManagementCall i) s = snd (revoke_management_key i s)"
| "management_run sha (CheckManagementCall i hash now) s = snd (check_management_key i hash now s)"

definition management_ids :: "management_key_store \<Rightarrow> string list" where
  "management_ids s = map gr_id (mk_rows s)"

definition management_keys_ok :: "management_key_store \<Rightarrow> bool" where
  "management_keys_ok s \<longleftrightarrow> distinct (management_ids s) \<and> length (mk_rows s) \<le> max_management_keys \<and>
     list_all (\<lambda>k. clean_name (gr_name k) = Some (gr_name k) \<and> is_org_role (gr_role k)) (mk_rows s)"

lemma management_lookup: "management_row_of i s = None \<longleftrightarrow> i \<notin> set (management_ids s)"
  by (simp add: management_row_of_def management_ids_def find_map_None del: set_map)

lemma create_management_effect:
  obtains "snd (create_management_key sha draws name role creator owner now s) = s"
  | row where "snd (create_management_key sha draws name role creator owner now s) = s\<lparr>mk_rows := mk_rows s @ [row]\<rparr>"
      "gr_id row \<notin> set (management_ids s)" "length (mk_rows s) < max_management_keys" "clean_name (gr_name row) = Some (gr_name row)"
      "gr_role row = role_text role" "gr_id row \<in> (\<lambda>(a, b). pk_key_id (mint_management_key sha a b (mk_org s))) ` set draws"
proof (cases "clean_name name")
  case None
  then show ?thesis using that(1) by (simp add: create_management_key_def)
next
  case (Some clean)
  let ?mints = "map (\<lambda>(i, b). mint_management_key sha i b (mk_org s)) draws"
  define fresh where "fresh = dropWhile (\<lambda>m. management_row_of (pk_key_id m) s \<noteq> None) ?mints"
  have create: "create_management_key sha draws name role creator owner now s =
      (if length (mk_rows s) \<ge> max_management_keys then (ManagementRefused TooManyManagementKeys, s)
       else (case fresh of [] \<Rightarrow> (ManagementThrown, s)
         | minted # _ \<Rightarrow>
            let row = \<lparr>gr_id = pk_key_id minted, gr_name = clean, gr_role = role_text role, gr_hash = pk_hash minted,
                  gr_prefix = mk_prefix minted, gr_created_by = creator, gr_owner_email = map_option js_lower owner,
                  gr_created_at = now, gr_last_used_at = None\<rparr>
            in (ManagementDone (management_record row, mk_key minted), s\<lparr>mk_rows := mk_rows s @ [row]\<rparr>)))"
    unfolding fresh_def by (simp add: create_management_key_def Some)
  show ?thesis
  proof (cases fresh)
    case Nil
    then show ?thesis using create that(1) by simp
  next
    case (Cons minted others)
    let ?row = "\<lparr>gr_id = pk_key_id minted, gr_name = clean, gr_role = role_text role, gr_hash = pk_hash minted,
                  gr_prefix = mk_prefix minted, gr_created_by = creator, gr_owner_email = map_option js_lower owner,
                  gr_created_at = now, gr_last_used_at = None\<rparr>"
    have "minted \<in> set ?mints" using Cons [unfolded fresh_def] set_dropWhileD [of minted _ ?mints] by (metis list.set_intros(1))
    then have drawn: "gr_id ?row \<in> (\<lambda>(a, b). pk_key_id (mint_management_key sha a b (mk_org s))) ` set draws" by auto
    have "management_row_of (pk_key_id minted) s = None"
      using dropWhile_eq_Cons_conv [THEN iffD1, OF Cons [unfolded fresh_def]] by blast
    then have unused: "gr_id ?row \<notin> set (management_ids s)" by (simp add: management_lookup)
    have named: "clean_name (gr_name ?row) = Some (gr_name ?row)" using clean_name_idem [OF Some] by simp
    show ?thesis
    proof (cases "length (mk_rows s) \<ge> max_management_keys")
      case True
      then show ?thesis using create that(1) by simp
    next
      case False
      show ?thesis by (rule that(2) [of ?row]) (use create Cons False drawn unused named in \<open>simp_all add: Let_def\<close>)
    qed
  qed
qed

lemma management_keys_ok_run: "management_keys_ok s \<Longrightarrow> management_keys_ok (management_run sha call s)"
proof (cases call)
  case (CreateManagementCall draws name role creator owner now)
  assume "management_keys_ok s"
  then show ?thesis
    by (rule_tac create_management_effect [of sha draws name role creator owner now s])
      (auto simp: CreateManagementCall management_keys_ok_def management_ids_def)
next
  case (RevokeManagementCall i)
  assume "management_keys_ok s"
  moreover have "length (filter P xs) \<le> n" if "length xs \<le> n" for P and xs :: "management_key_row list" and n
    using that length_filter_le [of P xs] by linarith
  ultimately show ?thesis using RevokeManagementCall
    by (auto simp: revoke_management_key_def management_keys_ok_def management_ids_def distinct_map_filter list_all_iff split: option.split)
next
  case (CheckManagementCall i hash now)
  assume ok: "management_keys_ok s"
  let ?f = "\<lambda>k. if gr_id k = i then k\<lparr>gr_last_used_at := Some now\<rparr> else k"
  have "map gr_id (map ?f (mk_rows s)) = map gr_id (mk_rows s)" by simp
  then have "management_keys_ok (s\<lparr>mk_rows := map ?f (mk_rows s)\<rparr>)"
    using ok unfolding management_keys_ok_def management_ids_def by (auto simp: list_all_iff simp del: map_map)
  then show ?thesis using ok CheckManagementCall by (simp add: check_management_key_def split: option.split)
qed

lemma management_keys_ok_open: "management_keys_ok \<lparr>mk_org = org, mk_rows = []\<rparr>"
  by (simp add: management_keys_ok_def management_ids_def)

text \<open>A revoked management key is refused until its id is drawn again.\<close>

lemma revoked_management_key_unknown:
  "fst (revoke_management_key i s) = ManagementDone r \<Longrightarrow> fst (check_management_key i hash now (snd (revoke_management_key i s))) = None"
proof -
  assume "fst (revoke_management_key i s) = ManagementDone r"
  then have "snd (revoke_management_key i s) = s\<lparr>mk_rows := filter (\<lambda>k. gr_id k \<noteq> i) (mk_rows s)\<rparr>"
    by (simp add: revoke_management_key_def split: option.splits)
  moreover have "management_row_of i (s\<lparr>mk_rows := filter (\<lambda>k. gr_id k \<noteq> i) (mk_rows s)\<rparr>) = None"
    by (auto simp: management_lookup management_ids_def)
  ultimately show ?thesis by (simp add: check_management_key_def)
qed

end
