(* ===== verification/Org_Access.thy ===== *)
theory Org_Access
  imports Management_Keys Members_Effects Spend_Store
begin

text \<open>
  What an org's ControlPlane composes of its members, its keys and its Spend limits (\<open>packages/state/src/control-plane.ts\<close>).
  Every call first makes the platform admins owners of \<open>global\<close> once. Deleted keys and members who leave take their
  Spend limits and counters along; the parts the Worker adds keep their own state and are left out. The platform admins
  of the environment, the draws of ids and the clock are arguments; \<^const>\<open>None\<close> is a call that threw.
\<close>

record org_control =
  oc_members :: member_store
  oc_keys :: api_key_store
  oc_management :: management_key_store
  oc_spend :: spend_store

record call_env =
  ce_admins :: "string list"
  ce_draws :: "string list"
  ce_now :: ms

definition seeded :: "call_env \<Rightarrow> org_control \<Rightarrow> org_control option" where
  "seeded env oc =
     (case seed_platform_admins (ce_admins env) (ce_draws env) (ce_now env) (oc_members oc) of
        (Reply _, s) \<Rightarrow> Some (oc\<lparr>oc_members := s\<rparr>)
      | _ \<Rightarrow> None)"

text \<open>The callback the key store tells: a deleted key takes its Spend limits and counters along.\<close>

definition forget_keys :: "string list \<Rightarrow> spend_store \<Rightarrow> spend_store" where
  "forget_keys ids spend = foldl (\<lambda>s i. forget_subject KKey i s) spend ids"

definition with_keys :: "string list \<times> api_key_store \<Rightarrow> org_control \<Rightarrow> org_control" where
  "with_keys written oc = oc\<lparr>oc_keys := snd written, oc_spend := forget_keys (fst written) (oc_spend oc)\<rparr>"

subsection \<open>Members\<close>

datatype 'a admitted = Admitted 'a | ApiKeysOnly

definition control_admit :: "call_env \<Rightarrow> string list \<Rightarrow> principal_ref \<Rightarrow> bool \<Rightarrow> bool \<Rightarrow> org_control \<Rightarrow> (admission option reply admitted \<times> org_control) option" where
  "control_admit env draws who auto_join client oc =
     map_option (\<lambda>oc. if client \<and> \<not> ak_access_clients (oc_keys oc) then (ApiKeysOnly, oc)
                      else (case admit draws who auto_join (ce_now env) (oc_members oc) of (r, s) \<Rightarrow> (Admitted r, oc\<lparr>oc_members := s\<rparr>)))
       (seeded env oc)"

text \<open>The calls that only reach the members store.\<close>

definition control_members :: "call_env \<Rightarrow> member_call \<Rightarrow> org_control \<Rightarrow> org_control option" where
  "control_members env call oc = map_option (\<lambda>oc. oc\<lparr>oc_members := member_run call (oc_members oc)\<rparr>) (seeded env oc)"

definition delete_member_data :: "string \<Rightarrow> org_control \<Rightarrow> org_control" where
  "delete_member_data member oc =
     (let oc = with_keys (remove_member_keys member (oc_keys oc)) oc
      in oc\<lparr>oc_spend := forget_subject KMember member (oc_spend oc)\<rparr>)"

definition control_remove_member :: "call_env \<Rightarrow> string \<Rightarrow> actor \<Rightarrow> org_control \<Rightarrow> (string reply \<times> org_control) option" where
  "control_remove_member env i actor oc =
     map_option (\<lambda>oc. case remove_member i actor (ce_now env) (oc_members oc) of
         (Reply email, s) \<Rightarrow> (Reply email, delete_member_data i (oc\<lparr>oc_members := s\<rparr>))
       | (refused, s) \<Rightarrow> (refused, oc\<lparr>oc_members := s\<rparr>))
       (seeded env oc)"

definition control_leave_org :: "call_env \<Rightarrow> string \<Rightarrow> org_control \<Rightarrow> (bool \<times> org_control) option" where
  "control_leave_org env email oc =
     map_option (\<lambda>oc. case leave_org email (oc_members oc) of
         (None, s) \<Rightarrow> (False, oc\<lparr>oc_members := s\<rparr>)
       | (Some i, s) \<Rightarrow> (True, delete_member_data i (oc\<lparr>oc_members := s\<rparr>)))
       (seeded env oc)"

definition control_access_clients :: "call_env \<Rightarrow> bool \<Rightarrow> org_control \<Rightarrow> org_control option" where
  "control_access_clients env on oc = map_option (\<lambda>oc. oc\<lparr>oc_keys := set_access_clients on (oc_keys oc)\<rparr>) (seeded env oc)"

subsection \<open>Keys\<close>

datatype 'a issue_reply = IssueReply 'a | NoSuchMember

definition control_create_key ::
  "call_env \<Rightarrow> (string \<Rightarrow> string) \<Rightarrow> key_draws \<Rightarrow> key_input \<Rightarrow> ms \<Rightarrow> org_control \<Rightarrow> ((api_key_record \<times> string) key_reply issue_reply \<times> org_control) option" where
  "control_create_key env sha draws input now oc =
     map_option (\<lambda>oc. if member_view (ki_member input) (oc_members oc) = None then (NoSuchMember, oc)
                      else (case create_api_key sha draws input now (oc_keys oc) of (r, written) \<Rightarrow> (IssueReply r, with_keys written oc)))
       (seeded env oc)"

definition control_key_scope :: "call_env \<Rightarrow> string \<Rightarrow> tool_scope option \<Rightarrow> string \<Rightarrow> ms \<Rightarrow> org_control \<Rightarrow> (api_key_record key_reply \<times> org_control) option" where
  "control_key_scope env i scope member now oc =
     map_option (\<lambda>oc. case set_key_tool_scope i scope member now (oc_keys oc) of (r, written) \<Rightarrow> (r, with_keys written oc)) (seeded env oc)"

definition control_purge_keys :: "call_env \<Rightarrow> ms \<Rightarrow> org_control \<Rightarrow> (nat \<times> org_control) option" where
  "control_purge_keys env now oc =
     map_option (\<lambda>oc. let written = purge_expired_keys now (oc_keys oc) in (length (fst written), with_keys written oc)) (seeded env oc)"

definition control_revoke_key :: "call_env \<Rightarrow> string \<Rightarrow> ms \<Rightarrow> string option \<Rightarrow> org_control \<Rightarrow> (api_key_record key_reply \<times> org_control) option" where
  "control_revoke_key env i now member oc =
     map_option (\<lambda>oc. case revoke_api_key i now member (oc_keys oc) of (r, written) \<Rightarrow> (r, with_keys written oc)) (seeded env oc)"

definition control_list_keys :: "call_env \<Rightarrow> string option \<Rightarrow> ms \<Rightarrow> org_control \<Rightarrow> ((api_key_record \<times> string option) list \<times> org_control) option" where
  "control_list_keys env member now oc =
     map_option (\<lambda>oc. case list_api_keys member now (oc_keys oc) of
         (records, written) \<Rightarrow>
           (map (\<lambda>r. (r, map_option mv_email (find (\<lambda>m. mv_id m = ar_member r) (list_members (oc_members oc))))) records, with_keys written oc))
       (seeded env oc)"

record live_key =
  lk_member :: string
  lk_email :: string
  lk_role :: org_role
  lk_expires_at :: "ms option"

datatype key_verdict = LiveKey live_key | DeadKey key_rejection

definition control_verify_key :: "call_env \<Rightarrow> string \<Rightarrow> string \<Rightarrow> ms \<Rightarrow> org_control \<Rightarrow> (key_verdict \<times> org_control) option" where
  "control_verify_key env key_id hash now oc =
     map_option (\<lambda>oc. case check_api_key key_id hash now (oc_keys oc) of
         (KeyRejected reason, written) \<Rightarrow> (DeadKey reason, with_keys written oc)
       | (KeyAccepted member expires, written) \<Rightarrow>
           (case member_view member (oc_members oc) of
              None \<Rightarrow> (DeadKey UnknownKey, with_keys written oc)
            | Some m \<Rightarrow> (LiveKey \<lparr>lk_member = mv_id m, lk_email = mv_email m, lk_role = mv_role m, lk_expires_at = expires\<rparr>, with_keys written oc)))
       (seeded env oc)"

definition control_management :: "(string \<Rightarrow> string) \<Rightarrow> management_call \<Rightarrow> org_control \<Rightarrow> org_control" where
  "control_management sha call oc = oc\<lparr>oc_management := management_run sha call (oc_management oc)\<rparr>"

definition open_control :: "string \<Rightarrow> bool \<Rightarrow> org_control" where
  "open_control org auto_join =
     \<lparr>oc_members = new_member_store (org = global_org) auto_join, oc_keys = open_api_keys org None [],
      oc_management = \<lparr>mk_org = org, mk_rows = []\<rparr>, oc_spend = empty_store\<rparr>"

subsection \<open>Calls\<close>

datatype control_call =
  AdmitThrough "string list" principal_ref bool bool
| MembersThrough member_call
| RemoveThrough string actor
| LeaveThrough string
| ClientsThrough bool
| CreateKeyThrough key_draws key_input ms
| KeyScopeThrough string "tool_scope option" string ms
| PurgeThrough ms
| RevokeThrough string ms "string option"
| ListKeysThrough "string option" ms
| VerifyThrough string string ms
| ManagementThrough management_call

text \<open>A call that throws leaves the object as it was.\<close>

fun control_next :: "(string \<Rightarrow> string) \<Rightarrow> call_env \<Rightarrow> control_call \<Rightarrow> org_control \<Rightarrow> org_control option" where
  "control_next sha env (AdmitThrough draws who auto_join client) oc = map_option snd (control_admit env draws who auto_join client oc)"
| "control_next sha env (MembersThrough call) oc = control_members env call oc"
| "control_next sha env (RemoveThrough i actor) oc = map_option snd (control_remove_member env i actor oc)"
| "control_next sha env (LeaveThrough email) oc = map_option snd (control_leave_org env email oc)"
| "control_next sha env (ClientsThrough on) oc = control_access_clients env on oc"
| "control_next sha env (CreateKeyThrough draws input now) oc = map_option snd (control_create_key env sha draws input now oc)"
| "control_next sha env (KeyScopeThrough i scope member now) oc = map_option snd (control_key_scope env i scope member now oc)"
| "control_next sha env (PurgeThrough now) oc = map_option snd (control_purge_keys env now oc)"
| "control_next sha env (RevokeThrough i now member) oc = map_option snd (control_revoke_key env i now member oc)"
| "control_next sha env (ListKeysThrough member now) oc = map_option snd (control_list_keys env member now oc)"
| "control_next sha env (VerifyThrough i hash now) oc = map_option snd (control_verify_key env i hash now oc)"
| "control_next sha env (ManagementThrough call) oc = Some (control_management sha call oc)"

definition control_run :: "(string \<Rightarrow> string) \<Rightarrow> call_env \<Rightarrow> control_call \<Rightarrow> org_control \<Rightarrow> org_control" where
  "control_run sha env call oc = (case control_next sha env call oc of None \<Rightarrow> oc | Some oc1 \<Rightarrow> oc1)"

text \<open>The members store only loses people through \<open>removeMember\<close> and \<open>leaveOrg\<close>, which are calls of their own.\<close>

fun control_call_ok :: "control_call \<Rightarrow> bool" where
  "control_call_ok (MembersThrough (RemoveCall i actor now)) = False"
| "control_call_ok (MembersThrough (LeaveCall email)) = False"
| "control_call_ok (CreateKeyThrough draws input now) = key_draws_ok draws"
| "control_call_ok _ = True"

definition run_control :: "(string \<Rightarrow> string) \<Rightarrow> (call_env \<times> control_call) list \<Rightarrow> org_control \<Rightarrow> org_control" where
  "run_control sha calls oc = foldl (\<lambda>oc (env, call). control_run sha env call oc) oc calls"

end
