(* ===== verification/Org_Access_Properties.thy ===== *)
theory Org_Access_Properties
  imports Org_Access Members_Properties Spend_Invariant
begin

text \<open>
  What an org's ControlPlane keeps across members, keys and Spend: every key belongs to a member, a member who leaves takes
  everything along, and their keys stay dead.
\<close>

definition member_ids :: "member_store \<Rightarrow> string set" where
  "member_ids s = mb_id ` set (ms_members s)"

definition control_ok :: "(string \<Rightarrow> string) \<Rightarrow> org_control \<Rightarrow> bool" where
  "control_ok sha oc \<longleftrightarrow> members_ok (oc_members oc) \<and> api_keys_ok sha (oc_keys oc) \<and> management_keys_ok (oc_management oc) \<and>
     store_ok (oc_spend oc) \<and> kr_member ` set (ak_keys (oc_keys oc)) \<subseteq> member_ids (oc_members oc)"

subsection \<open>Member ids\<close>

lemma member_ids_simps [simp]:
  "member_ids (changed s) = member_ids s" "member_ids (tombstone p n s) = member_ids s" "member_ids (restore_principal p s) = member_ids s"
  "member_ids (s\<lparr>ms_tokens := ts\<rparr>) = member_ids s" "member_ids (s\<lparr>ms_state := x\<rparr>) = member_ids s" "member_ids (delete_member i s) = member_ids s - {i}"
  by (auto simp: member_ids_def)

lemma member_ids_set [simp]: "member_ids (set_member i r s) = member_ids s"
proof -
  have "map mb_id (ms_members (set_member i r s)) = map mb_id (ms_members s)" by simp
  then show ?thesis unfolding member_ids_def by (metis set_map)
qed

lemma insert_member_ids: "insert_member draws e r now added_by s = Some (i, rest, s1) \<Longrightarrow> member_ids s1 = insert i (member_ids s)"
  using insert_member_Some(3) by (force simp: member_ids_def)

lemma seed_each_ids: "seed_each emails draws now s = Some s1 \<Longrightarrow> member_ids s \<subseteq> member_ids s1"
proof (induction emails draws now s rule: seed_each.induct)
  case (2 email emails draws now s)
  show ?case
  proof (cases "valid_email email")
    case False
    then show ?thesis using 2 by simp
  next
    case True
    show ?thesis
    proof (cases "member_by_email email s")
      case None
      then obtain i rest s2 where s2: "insert_member draws email RoleOwner now platform_admin_seed_actor s = Some (i, rest, s2)"
        "seed_each emails rest now s2 = Some s1"
        using 2(4) True by (auto split: option.splits)
      then show ?thesis using 2(2) True None insert_member_ids [OF s2(1)] by fastforce
    next
      case (Some m)
      then show ?thesis using 2(3) [of m] 2(4) True by simp
    qed
  qed
qed simp

lemma seed_ids: "member_ids s \<subseteq> member_ids (snd (seed_platform_admins emails draws now s))"
  using seed_each_ids [of "js_set (map normalize_email emails)" draws now s]
  by (cases "seed_each (js_set (map normalize_email emails)) draws now s") (auto simp: seed_platform_admins_def)

lemma members_stay:
  assumes "control_call_ok (MembersThrough call)"
  shows "member_ids s \<subseteq> member_ids (member_run call s)"
proof (cases call)
  case (SeedCall emails draws now)
  then show ?thesis using seed_ids by simp
next
  case (AdmitCall draws who auto_join now)
  show ?thesis by (rule admit_effect [of draws who auto_join now s]) (auto simp: AdmitCall dest: insert_member_ids)
next
  case (SsoCall draws given now)
  show ?thesis by (rule sso_effect [of draws given now s]) (auto simp: SsoCall dest: insert_member_ids)
next
  case (AddCall draws given role actor added_by now)
  show ?thesis by (rule add_effect [of draws given role actor added_by now s]) (auto simp: AddCall dest: insert_member_ids)
next
  case (RoleCall i role actor)
  show ?thesis by (rule role_effect [of i role actor s]) (simp_all add: RoleCall)
next
  case (RegisterTokenCall c name role actor added_by now)
  show ?thesis by (rule register_effect [of c name role actor added_by now s]) (simp_all add: RegisterTokenCall)
next
  case (TokenRoleCall c role actor)
  show ?thesis by (rule token_role_effect [of c role actor s]) (simp_all add: TokenRoleCall)
next
  case (RemoveTokenCall c actor now)
  show ?thesis by (rule remove_token_effect [of c actor now s]) (simp_all add: RemoveTokenCall)
next
  case (WithdrawTokenCall c)
  then show ?thesis by (simp add: withdraw_token_def)
qed (use assms team_calls_keep_people [of call s] in \<open>auto simp: member_ids_def same_people_def\<close>)

subsection \<open>Writes\<close>

lemma seeded_Some:
  assumes "seeded env oc = Some oc1"
  shows "oc_keys oc1 = oc_keys oc" "oc_management oc1 = oc_management oc" "oc_spend oc1 = oc_spend oc"
    "oc_members oc1 = member_run (SeedCall (ce_admins env) (ce_draws env) (ce_now env)) (oc_members oc)"
  using assms by (auto simp: seeded_def split: prod.splits reply.splits)

lemma control_ok_members:
  "control_ok sha oc \<Longrightarrow> members_ok s \<Longrightarrow> member_ids (oc_members oc) \<subseteq> member_ids s \<Longrightarrow> control_ok sha (oc\<lparr>oc_members := s\<rparr>)"
  by (auto simp: control_ok_def)

lemma control_ok_seeded: "control_ok sha oc \<Longrightarrow> seeded env oc = Some oc1 \<Longrightarrow> control_ok sha oc1"
proof -
  assume ok: "control_ok sha oc" and s: "seeded env oc = Some oc1"
  let ?call = "SeedCall (ce_admins env) (ce_draws env) (ce_now env)"
  have "oc1 = oc\<lparr>oc_members := member_run ?call (oc_members oc)\<rparr>" using seeded_Some [OF s] by simp
  moreover have "members_ok (member_run ?call (oc_members oc))" by (rule members_ok_run) (use ok in \<open>simp add: control_ok_def\<close>)
  moreover have "member_ids (oc_members oc) \<subseteq> member_ids (member_run ?call (oc_members oc))" by (rule members_stay) simp
  ultimately show ?thesis using control_ok_members [OF ok] by simp
qed

lemma forget_keys_ok: "store_ok s \<Longrightarrow> store_ok (forget_keys ids s)"
  by (induction ids arbitrary: s) (simp_all add: forget_keys_def forget_subject_ok)

lemma control_ok_keys:
  assumes "control_ok sha oc" "api_keys_ok sha (snd written)" "kr_member ` set (ak_keys (snd written)) \<subseteq> member_ids (oc_members oc)"
  shows "control_ok sha (with_keys written oc)"
  using assms by (simp add: control_ok_def with_keys_def forget_keys_ok)

lemma drop_keys_members: "kr_member ` set (ak_keys (snd (drop_keys P s))) \<subseteq> kr_member ` set (ak_keys s)"
  by (auto simp: drop_keys_def)

text \<open>The members the keys of the store belong to, after a call.\<close>

lemma key_run_members:
  "kr_member ` set (ak_keys (snd (key_run sha call s))) \<subseteq>
   kr_member ` set (ak_keys s) \<union> (case call of CreateKeyCall draws input now \<Rightarrow> {ki_member input} | _ \<Rightarrow> {})"
proof (cases call)
  case (CreateKeyCall draws input now)
  obtain answer told s1 where c: "create_api_key sha draws input now s = (answer, told, s1)" by (metis prod.exhaust)
  have purge: "kr_member ` set (ak_keys s0) \<subseteq> kr_member ` set (ak_keys s)" if "(told, s0) = purge_expired_keys now s" for s0
    using drop_keys_members [of "expired_at now" s] purge_is_drop [OF that] by simp
  show ?thesis
  proof (rule create_key_effect [OF c])
    assume "(told, s1) = purge_expired_keys now s"
    note purge [OF this]
    moreover have "snd (key_run sha call s) = s1" using CreateKeyCall c by simp
    ultimately show ?thesis by blast
  next
    fix a b name scope s0 row
    assume e: "(told, s0) = purge_expired_keys now s" "row = new_key_row (mint_api_key sha a b (ak_org s)) input name scope now"
      "s1 = s0\<lparr>ak_keys := ak_keys s0 @ [row]\<rparr>"
    show ?thesis using purge [OF e(1)] e(2,3) CreateKeyCall c by auto
  qed (use CreateKeyCall c in auto)
next
  case (RevokeKeyCall i now member)
  then show ?thesis using drop_keys_members by (auto simp: revoke_api_key_def split: option.split)
next
  case (KeyScopeCall i scope member now)
  obtain gone s1 where purge: "purge_expired_keys now s = (gone, s1)" by (cases "purge_expired_keys now s")
  have "kr_member ` set (ak_keys s1) \<subseteq> kr_member ` set (ak_keys s)"
    using drop_keys_members [of "expired_at now" s] purge_is_drop [OF purge [symmetric]] by simp
  then show ?thesis using KeyScopeCall by (fastforce simp: set_key_tool_scope_def purge Let_def split: option.splits if_splits)
next
  case (CheckKeyCall i hash now)
  then show ?thesis using drop_keys_members [of "\<lambda>k. kr_id k = i" s] by (fastforce simp: check_api_key_def split: option.splits if_splits)
qed (use drop_keys_members in \<open>auto simp: list_api_keys_def purge_expired_keys_def remove_member_keys_def set_access_clients_def case_prod_beta\<close>)


lemma control_ok_key_run:
  assumes "control_ok sha oc" "key_call_ok call" "(case call of CreateKeyCall draws input now \<Rightarrow> ki_member input \<in> member_ids (oc_members oc) | _ \<Rightarrow> True)"
  shows "control_ok sha (with_keys (key_run sha call (oc_keys oc)) oc)"
proof (rule control_ok_keys [OF assms(1)])
  show "api_keys_ok sha (snd (key_run sha call (oc_keys oc)))" by (rule api_keys_ok_run) (use assms(1,2) in \<open>simp_all add: control_ok_def\<close>)
  have "kr_member ` set (ak_keys (oc_keys oc)) \<subseteq> member_ids (oc_members oc)" using assms(1) by (simp add: control_ok_def)
  then show "kr_member ` set (ak_keys (snd (key_run sha call (oc_keys oc)))) \<subseteq> member_ids (oc_members oc)"
    by (rule order_trans [OF key_run_members Un_least]) (use assms(3) in \<open>auto split: key_call.splits\<close>)
qed

lemma with_keys_fields [simp]:
  "oc_members (with_keys w oc) = oc_members oc" "oc_management (with_keys w oc) = oc_management oc" "oc_keys (with_keys w oc) = snd w"
  "oc_spend (with_keys w oc) = forget_keys (fst w) (oc_spend oc)"
  by (simp_all add: with_keys_def)

lemma delete_member_data_fields [simp]:
  "oc_members (delete_member_data i oc) = oc_members oc" "oc_management (delete_member_data i oc) = oc_management oc"
  "oc_keys (delete_member_data i oc) = snd (remove_member_keys i (oc_keys oc))"
  "oc_spend (delete_member_data i oc) = forget_subject KMember i (forget_keys (fst (remove_member_keys i (oc_keys oc))) (oc_spend oc))"
  by (simp_all add: delete_member_data_def Let_def)

text \<open>A member's row goes and all their keys with it.\<close>

lemma control_ok_gone:
  assumes "control_ok sha oc" "members_ok s" "member_ids s = member_ids (oc_members oc) - {i}"
  shows "control_ok sha (delete_member_data i (oc\<lparr>oc_members := s\<rparr>))"
proof -
  have "api_keys_ok sha (snd (remove_member_keys i (oc_keys oc)))" using assms(1) by (simp add: remove_member_keys_def control_ok_def api_keys_ok_drop)
  moreover have "kr_member ` set (ak_keys (snd (remove_member_keys i (oc_keys oc)))) \<subseteq> member_ids s"
    using assms(1,3) by (auto simp: remove_member_keys_def drop_keys_def control_ok_def)
  ultimately show ?thesis using assms(1,2) by (simp add: control_ok_def forget_keys_ok forget_subject_ok)
qed

lemma remove_reply:
  assumes "remove_member i actor now s = (Reply email, s1)"
  obtains m where "member_by_id i s = Some m" "email = mb_email m" "s1 = changed (tombstone (removed_user email) now (delete_member i s))"
  using assms by (auto simp: remove_member_def Let_def split: option.splits if_splits)

lemma remove_refused: "remove_member i actor now s = (r, s1) \<Longrightarrow> \<forall>email. r \<noteq> Reply email \<Longrightarrow> s1 = s"
  by (auto simp: remove_member_def Let_def split: option.splits if_splits)

lemma control_remove_cases:
  assumes "control_remove_member env i actor oc = Some (r, oc1)"
  obtains (gone) oc0 email m where "seeded env oc = Some oc0" "r = Reply email" "member_by_id i (oc_members oc0) = Some m" "email = mb_email m"
      "oc1 = delete_member_data i (oc0\<lparr>oc_members := changed (tombstone (removed_user email) (ce_now env) (delete_member i (oc_members oc0)))\<rparr>)"
  | (kept) "seeded env oc = Some oc1" "\<forall>email. r \<noteq> Reply email"
proof -
  obtain oc0 where s: "seeded env oc = Some oc0" using assms by (auto simp: control_remove_member_def)
  obtain answer s1 where e: "remove_member i actor (ce_now env) (oc_members oc0) = (answer, s1)" by (cases "remove_member i actor (ce_now env) (oc_members oc0)")
  show ?thesis
  proof (cases answer)
    case (Reply email)
    show ?thesis
      by (rule remove_reply [OF e [unfolded Reply]]) (rule gone [OF s], use assms s e Reply in \<open>auto simp: control_remove_member_def\<close>)
  next
    case (Refusal x)
    show ?thesis by (rule kept) (use remove_refused [OF e] assms s e Refusal in \<open>auto simp: control_remove_member_def\<close>)
  next
    case Thrown
    show ?thesis by (rule kept) (use remove_refused [OF e] assms s e Thrown in \<open>auto simp: control_remove_member_def\<close>)
  qed
qed

lemma control_ok_remove: "control_ok sha oc \<Longrightarrow> control_remove_member env i actor oc = Some (r, oc1) \<Longrightarrow> control_ok sha oc1"
proof -
  assume ok: "control_ok sha oc" and run: "control_remove_member env i actor oc = Some (r, oc1)"
  show ?thesis
    using run
  proof (cases rule: control_remove_cases)
    case (gone oc0 email m)
    note ok0 = control_ok_seeded [OF ok gone(1)]
    have "members_ok (changed (tombstone (removed_user email) (ce_now env) (delete_member i (oc_members oc0))))"
      using ok0 by (simp add: control_ok_def members_ok_delete)
    then show ?thesis using control_ok_gone [OF ok0] gone(5) by simp
  next
    case kept
    then show ?thesis using control_ok_seeded [OF ok] by simp
  qed
qed

lemma control_leave_cases:
  assumes "control_leave_org env email oc = Some (left, oc1)"
  obtains (gone) oc0 m where "seeded env oc = Some oc0" "left" "member_by_email (normalize_email email) (oc_members oc0) = Some m"
      "oc1 = delete_member_data (mb_id m) (oc0\<lparr>oc_members := changed (restore_principal (removed_user (normalize_email email)) (delete_member (mb_id m) (oc_members oc0)))\<rparr>)"
  | (kept) "seeded env oc = Some oc1" "\<not> left"
proof -
  obtain oc0 where s: "seeded env oc = Some oc0" using assms by (auto simp: control_leave_org_def)
  show ?thesis
    using assms s that by (cases "member_by_email (normalize_email email) (oc_members oc0)") (auto simp: control_leave_org_def leave_org_def)
qed

lemma control_ok_leave: "control_ok sha oc \<Longrightarrow> control_leave_org env email oc = Some (left, oc1) \<Longrightarrow> control_ok sha oc1"
proof -
  assume ok: "control_ok sha oc" and run: "control_leave_org env email oc = Some (left, oc1)"
  show ?thesis
    using run
  proof (cases rule: control_leave_cases)
    case (gone oc0 m)
    note ok0 = control_ok_seeded [OF ok gone(1)]
    have "members_ok (changed (restore_principal (removed_user (normalize_email email)) (delete_member (mb_id m) (oc_members oc0))))"
      using ok0 by (simp add: control_ok_def members_ok_delete)
    then show ?thesis using control_ok_gone [OF ok0] gone(4) by simp
  next
    case kept
    then show ?thesis using control_ok_seeded [OF ok] by simp
  qed
qed

text \<open>Each call on keys is a call of the key store whose deleted ids the Spend store forgets.\<close>

fun key_call_of :: "control_call \<Rightarrow> key_call option" where
  "key_call_of (KeyScopeThrough i scope member now) = Some (KeyScopeCall i scope member now)"
| "key_call_of (PurgeThrough now) = Some (PurgeKeysCall now)"
| "key_call_of (RevokeThrough i now member) = Some (RevokeKeyCall i now member)"
| "key_call_of (ListKeysThrough member now) = Some (ListKeysCall member now)"
| "key_call_of (VerifyThrough i hash now) = Some (CheckKeyCall i hash now)"
| "key_call_of _ = None"

lemma control_key_call:
  assumes "key_call_of call = Some kcall"
  shows "control_next sha env call oc = map_option (\<lambda>oc. with_keys (key_run sha kcall (oc_keys oc)) oc) (seeded env oc)"
proof (cases "seeded env oc")
  case None
  then show ?thesis using assms
    by (cases call) (auto simp: control_key_scope_def control_purge_keys_def control_revoke_key_def control_list_keys_def control_verify_key_def)
next
  case (Some oc0)
  then show ?thesis using assms
    by (cases call) (auto simp: control_key_scope_def control_purge_keys_def control_revoke_key_def control_list_keys_def control_verify_key_def
        Let_def split: prod.splits key_check.splits option.splits)
qed

lemma control_create_cases:
  assumes "control_create_key env sha draws input now oc = Some (r, oc1)"
  obtains "seeded env oc = Some oc1"
  | oc0 where "seeded env oc = Some oc0" "ki_member input \<in> member_ids (oc_members oc0)"
      "oc1 = with_keys (key_run sha (CreateKeyCall draws input now) (oc_keys oc0)) oc0"
proof -
  obtain oc0 where s: "seeded env oc = Some oc0" using assms by (auto simp: control_create_key_def)
  show ?thesis
  proof (cases "member_by_id (ki_member input) (oc_members oc0)")
    case None
    then show ?thesis using assms s that(1) by (simp add: control_create_key_def member_view_def)
  next
    case (Some m)
    then have "ki_member input \<in> member_ids (oc_members oc0)"
      using find_key_Some [of mb_id "ki_member input" "ms_members (oc_members oc0)" m]
      by (auto simp: member_by_id_def member_ids_def intro!: image_eqI [of _ _ m])
    then show ?thesis using assms s Some that(2) [of oc0] by (auto simp: control_create_key_def member_view_def split: prod.splits)
  qed
qed

lemma control_ok_next: "control_ok sha oc \<Longrightarrow> control_call_ok call \<Longrightarrow> control_next sha env call oc = Some oc1 \<Longrightarrow> control_ok sha oc1"
proof -
  assume ok: "control_ok sha oc" and call: "control_call_ok call" and run: "control_next sha env call oc = Some oc1"
  show ?thesis
  proof (cases "key_call_of call")
    case (Some kcall)
    then obtain oc0 where s: "seeded env oc = Some oc0" "oc1 = with_keys (key_run sha kcall (oc_keys oc0)) oc0"
      using run control_key_call [OF Some, of sha env oc] by auto
    have "key_call_ok kcall" "\<forall>a b c. kcall \<noteq> CreateKeyCall a b c" using Some by (cases call; auto)+
    then show ?thesis using control_ok_key_run [OF control_ok_seeded [OF ok s(1)], of kcall] s(2) by (cases kcall) auto
  next
    case None
    show ?thesis
    proof (cases call)
      case (AdmitThrough draws who auto_join client)
      obtain oc0 where s: "seeded env oc = Some oc0" using run AdmitThrough by (auto simp: control_admit_def)
      note ok0 = control_ok_seeded [OF ok s]
      have "control_ok sha (oc0\<lparr>oc_members := snd (admit draws who auto_join (ce_now env) (oc_members oc0))\<rparr>)"
        using control_ok_members [OF ok0 members_ok_run [of _ "AdmitCall draws who auto_join (ce_now env)"]]
          members_stay [of "AdmitCall draws who auto_join (ce_now env)"] ok0 by (simp add: control_ok_def)
      then show ?thesis using run AdmitThrough s ok0 by (auto simp: control_admit_def split: prod.splits if_splits)
    next
      case (MembersThrough mcall)
      obtain oc0 where s: "seeded env oc = Some oc0" "oc1 = oc0\<lparr>oc_members := member_run mcall (oc_members oc0)\<rparr>"
        using run MembersThrough by (auto simp: control_members_def)
      have m: "members_ok (oc_members oc0)" using control_ok_seeded [OF ok s(1)] by (simp add: control_ok_def)
      show ?thesis unfolding s(2)
        by (rule control_ok_members [OF control_ok_seeded [OF ok s(1)] members_ok_run [OF m] members_stay])
          (use call MembersThrough in simp)
    next
      case (RemoveThrough i actor)
      then show ?thesis using run control_ok_remove [OF ok] by auto
    next
      case (LeaveThrough email)
      then show ?thesis using run control_ok_leave [OF ok] by auto
    next
      case (ClientsThrough on)
      then obtain oc0 where s: "seeded env oc = Some oc0" "oc1 = oc0\<lparr>oc_keys := set_access_clients on (oc_keys oc0)\<rparr>"
        using run by (auto simp: control_access_clients_def)
      then show ?thesis using control_ok_seeded [OF ok s(1)]
        by (simp add: control_ok_def set_access_clients_def api_keys_ok_def key_ids_def member_keys_def)
    next
      case (CreateKeyThrough draws input now)
      then obtain r where c: "control_create_key env sha draws input now oc = Some (r, oc1)" using run by auto
      show ?thesis
        using c
      proof (cases rule: control_create_cases)
        case 1
        then show ?thesis using control_ok_seeded [OF ok] by simp
      next
        case (2 oc0)
        then show ?thesis using control_ok_key_run [OF control_ok_seeded [OF ok 2(1)], of "CreateKeyCall draws input now"] call CreateKeyThrough
          by simp
      qed
    next
      case (ManagementThrough mcall)
      then have "oc1 = control_management sha mcall oc" using run by simp
      then show ?thesis using ok by (simp add: control_management_def control_ok_def management_keys_ok_run)
    qed (use None in simp_all)
  qed
qed

lemma control_ok_run: "control_ok sha oc \<Longrightarrow> control_call_ok call \<Longrightarrow> control_ok sha (control_run sha env call oc)"
  by (auto simp: control_run_def control_ok_next split: option.split)

lemma control_ok_runs: "control_ok sha oc \<Longrightarrow> list_all (\<lambda>(_, call). control_call_ok call) calls \<Longrightarrow> control_ok sha (run_control sha calls oc)"
  by (induction calls arbitrary: oc) (auto simp: run_control_def control_ok_run)

lemma control_ok_open: "is_org_id org \<Longrightarrow> control_ok sha (open_control org auto_join)"
  by (simp add: control_ok_def open_control_def members_ok_new api_keys_ok_open management_keys_ok_open empty_store_ok)
    (simp add: open_api_keys_def)



definition sample_env :: call_env where "sample_env = \<lparr>ce_admins = [], ce_draws = [], ce_now = 1\<rparr>"

definition sample_control_calls :: "(call_env \<times> control_call) list" where
  "sample_control_calls =
     [(sample_env, MembersThrough (AddCall [''1''] ''ann@x.org'' ''owner'' sample_owner ''sign-up'' 1)),
      (sample_env, CreateKeyThrough sample_draws (sample_key_input\<lparr>ki_member := ''mem-1''\<rparr>) 10)]"


subsection \<open>Leaving\<close>

definition spend_names :: "subject_kind \<Rightarrow> string \<Rightarrow> spend_store \<Rightarrow> bool" where
  "spend_names kind subject s \<longleftrightarrow>
     list_ex (\<lambda>l. sl_kind l = kind \<and> sl_subject l = subject) (ss_limits s) \<or>
     list_ex (\<lambda>((sc, _, _), _). ss_kind sc = kind \<and> ss_subject sc = subject) (ss_counters s)"

lemma scope_is: "sc = \<lparr>ss_kind = kind, ss_subject = subject\<rparr> \<longleftrightarrow> ss_kind sc = kind \<and> ss_subject sc = subject"
  by (cases sc) simp

lemma scopes_counted: "list_ex (\<lambda>((sc, _, _), _). P sc) cs \<longleftrightarrow> (\<exists>sc p t v. ((sc, p, t), v) \<in> set cs \<and> P sc)"
  by (fastforce simp: list_ex_iff)

lemma forget_subject_names:
  "spend_names k x (forget_subject kind subject s) \<longleftrightarrow> spend_names k x s \<and> (k, x) \<noteq> (kind, subject)"
proof -
  have "(\<exists>l \<in> set (ss_limits (forget_subject kind subject s)). sl_kind l = k \<and> sl_subject l = x) \<longleftrightarrow>
      (\<exists>l \<in> set (ss_limits s). sl_kind l = k \<and> sl_subject l = x) \<and> (k, x) \<noteq> (kind, subject)"
    by (auto simp: forget_subject_def Let_def same_scope_def)
  moreover have "(\<exists>sc p t v. ((sc, p, t), v) \<in> set (ss_counters (forget_subject kind subject s)) \<and> ss_kind sc = k \<and> ss_subject sc = x) \<longleftrightarrow>
      (\<exists>sc p t v. ((sc, p, t), v) \<in> set (ss_counters s) \<and> ss_kind sc = k \<and> ss_subject sc = x) \<and> (k, x) \<noteq> (kind, subject)"
    by (auto simp: forget_subject_def Let_def scope_is)
  ultimately show ?thesis unfolding spend_names_def scopes_counted list_ex_iff by blast
qed

lemma forget_keys_names: "spend_names k x (forget_keys ids s) \<longleftrightarrow> spend_names k x s \<and> \<not> (k = KKey \<and> x \<in> set ids)"
  by (induction ids arbitrary: s) (auto simp: forget_keys_def forget_subject_names)

lemma members_distinct: "members_ok s \<Longrightarrow> m \<in> set (ms_members s) \<Longrightarrow> n \<in> set (ms_members s) \<Longrightarrow> mb_id m = mb_id n \<or> mb_email m = mb_email n \<Longrightarrow> m = n"
  using members_okD(1) [of s] by (auto simp: member_rows_ok_def distinct_map inj_on_def)

text \<open>A person who deletes their account leaves nothing in the org: no membership, no note of a removal, no API key, and no
  Spend limit or counter of theirs or of one of their keys; what belongs to others stays.
\<close>

theorem leaver_leaves_nothing:
  assumes "control_ok sha oc" "control_leave_org env email oc = Some (True, oc1)" "address = normalize_email email"
  shows "\<exists>i. member_by_email address (oc_members oc1) = None \<and> member_by_id i (oc_members oc1) = None \<and>
    \<not> is_removed (removed_user address) (oc_members oc1) \<and>
    ak_keys (oc_keys oc1) = filter (\<lambda>k. kr_member k \<noteq> i) (ak_keys (oc_keys oc)) \<and>
    (\<forall>kind x. spend_names kind x (oc_spend oc1) \<longleftrightarrow> spend_names kind x (oc_spend oc) \<and> (kind, x) \<noteq> (KMember, i) \<and>
       \<not> (kind = KKey \<and> (\<exists>k \<in> set (ak_keys (oc_keys oc)). kr_member k = i \<and> x = kr_id k)))"
  using assms(2)
proof (cases rule: control_leave_cases)
  case (gone oc0 m)
  have ok0: "members_ok (oc_members oc0)" using control_ok_seeded [OF assms(1) gone(1)] by (simp add: control_ok_def)
  have m: "m \<in> set (ms_members (oc_members oc0))" "mb_email m = address"
    using find_key_Some [of mb_email address "ms_members (oc_members oc0)" m] gone(3) assms(3) by (simp_all add: member_by_email_def)
  note fields = seeded_Some [OF gone(1)]
  have "member_by_email address (oc_members oc1) = None"
    using members_distinct [OF ok0 m(1)] m(2) by (fastforce simp: gone(4) member_by_email_def find_None_iff)
  moreover have "member_by_id (mb_id m) (oc_members oc1) = None" by (auto simp: gone(4) member_by_id_def find_None_iff)
  moreover have "\<not> is_removed (removed_user address) (oc_members oc1)" by (simp add: gone(4) assms(3))
  moreover have "ak_keys (oc_keys oc1) = filter (\<lambda>k. kr_member k \<noteq> mb_id m) (ak_keys (oc_keys oc))"
    by (simp add: gone(4) remove_member_keys_def drop_keys_def fields)
  moreover have "spend_names kind x (oc_spend oc1) \<longleftrightarrow> spend_names kind x (oc_spend oc) \<and> (kind, x) \<noteq> (KMember, mb_id m) \<and>
      \<not> (kind = KKey \<and> (\<exists>k \<in> set (ak_keys (oc_keys oc)). kr_member k = mb_id m \<and> x = kr_id k))" for kind x
    by (auto simp: gone(4) forget_subject_names forget_keys_names remove_member_keys_def drop_keys_def fields)
  ultimately show ?thesis by blast
qed simp

definition sample_control :: org_control where
  "sample_control = (open_control ''acme'' True)\<lparr>oc_members := member_run (AddCall [''1''] ''ann@x.org'' ''owner'' sample_owner ''sign-up'' 1) (new_member_store False True),
     oc_keys := one_key\<rparr>"

lemma sample_control_ok: "control_ok sample_sha sample_control"
proof -
  have "mb_id ` set (ms_members (oc_members sample_control)) = {''mem-1''}" by code_simp
  moreover have "members_ok (oc_members sample_control)" unfolding sample_control_def by (simp add: members_ok_add members_ok_new)
  ultimately show ?thesis using one_key_ok
    by (simp add: control_ok_def sample_control_def open_control_def management_keys_ok_open empty_store_ok member_ids_def)
      (simp add: one_key_def)
qed

lemma sample_seeded: "seeded sample_env sample_control = Some (sample_control\<lparr>oc_members := snd (seed_platform_admins [] [] 1 (oc_members sample_control))\<rparr>)"
proof -
  have "fst (seed_platform_admins [] [] 1 (oc_members sample_control)) = Reply ()" by code_simp
  then show ?thesis
    by (cases "seed_platform_admins [] [] 1 (oc_members sample_control)") (simp add: seeded_def sample_env_def)
qed

theorem leaver_leaves_nothing_witness:
  "\<exists>oc1 i. control_leave_org sample_env ''Ann@x.org'' sample_control = Some (True, oc1) \<and>
     ak_keys (oc_keys oc1) = filter (\<lambda>k. kr_member k \<noteq> i) (ak_keys (oc_keys sample_control))"
proof -
  have "map_option mb_id (member_by_email (normalize_email ''Ann@x.org'') (snd (seed_platform_admins [] [] 1 (oc_members sample_control)))) = Some ''mem-1''"
    by code_simp
  then obtain oc1 where leave: "control_leave_org sample_env ''Ann@x.org'' sample_control = Some (True, oc1)"
    by (auto simp: control_leave_org_def sample_seeded leave_org_def)
  from leaver_leaves_nothing [OF sample_control_ok this refl] show ?thesis using leave by blast
qed

subsection \<open>Keys that stay dead\<close>

fun control_mints :: "(string \<Rightarrow> string) \<Rightarrow> string \<Rightarrow> string \<Rightarrow> control_call \<Rightarrow> bool" where
  "control_mints sha org i (CreateKeyThrough draws input now) = mints_key sha org i (CreateKeyCall draws input now)"
| "control_mints sha org i _ = False"

lemma control_next_life:
  assumes "control_next sha env call oc = Some oc1"
  shows "set (key_life (oc_keys oc1)) \<subseteq> set (key_life (oc_keys oc)) \<union> {l. control_mints sha (ak_org (oc_keys oc)) (fst l) call} \<and>
    ak_org (oc_keys oc1) = ak_org (oc_keys oc)"
proof (cases "key_call_of call")
  case (Some kcall)
  then obtain oc0 where s: "seeded env oc = Some oc0" "oc1 = with_keys (key_run sha kcall (oc_keys oc0)) oc0"
    using assms control_key_call [OF Some, of sha env oc] by auto
  have "\<not> mints_key sha org i kcall" for org i using Some by (cases call) auto
  then show ?thesis using key_run_life [of sha kcall "oc_keys oc"] seeded_Some [OF s(1)] s(2) by auto
next
  case None
  have drop: "set (key_life (snd (drop_keys P s))) \<subseteq> set (key_life s) \<and> ak_org (snd (drop_keys P s)) = ak_org s" for P s
    using drop_life by simp
  show ?thesis
  proof (cases call)
    case (AdmitThrough draws who auto_join client)
    then obtain oc0 where s: "seeded env oc = Some oc0" using assms by (auto simp: control_admit_def)
    then show ?thesis using AdmitThrough assms seeded_Some [OF s] by (auto simp: control_admit_def split: prod.splits if_splits)
  next
    case (MembersThrough mcall)
    then obtain oc0 where "seeded env oc = Some oc0" "oc_keys oc1 = oc_keys oc0" using assms by (auto simp: control_members_def)
    then show ?thesis using seeded_Some(1) by auto
  next
    case (RemoveThrough i actor)
    then obtain r where r: "control_remove_member env i actor oc = Some (r, oc1)" using assms by auto
    show ?thesis using r
    proof (cases rule: control_remove_cases)
      case (gone oc0 email m)
      then show ?thesis using drop seeded_Some(1) [OF gone(1)] by (auto simp: remove_member_keys_def)
    next
      case kept
      then show ?thesis using seeded_Some(1) [OF kept(1)] by auto
    qed
  next
    case (LeaveThrough email)
    then obtain r where r: "control_leave_org env email oc = Some (r, oc1)" using assms by auto
    show ?thesis using r
    proof (cases rule: control_leave_cases)
      case (gone oc0 m)
      then show ?thesis using drop seeded_Some(1) [OF gone(1)] by (auto simp: remove_member_keys_def)
    next
      case kept
      then show ?thesis using seeded_Some(1) [OF kept(1)] by auto
    qed
  next
    case (ClientsThrough on)
    then obtain oc0 where "seeded env oc = Some oc0" "oc_keys oc1 = set_access_clients on (oc_keys oc0)" using assms by (auto simp: control_access_clients_def)
    then show ?thesis using seeded_Some(1) by (auto simp: set_access_clients_def key_life_def)
  next
    case (CreateKeyThrough draws input now)
    then obtain r where c: "control_create_key env sha draws input now oc = Some (r, oc1)" using assms by auto
    show ?thesis using c
    proof (cases rule: control_create_cases)
      case 1
      then show ?thesis using seeded_Some(1) by auto
    next
      case (2 oc0)
      then show ?thesis using key_run_life [of sha "CreateKeyCall draws input now" "oc_keys oc"] seeded_Some(1) [OF 2(1)] CreateKeyThrough by simp
    qed
  next
    case (ManagementThrough mcall)
    then have "oc1 = control_management sha mcall oc" using assms by simp
    then show ?thesis by (simp add: control_management_def)
  qed (use None in simp_all)
qed

lemma control_next_ids:
  "control_next sha env call oc = Some oc1 \<Longrightarrow>
   set (key_ids (oc_keys oc1)) \<subseteq> set (key_ids (oc_keys oc)) \<union> {i. control_mints sha (ak_org (oc_keys oc)) i call} \<and>
   ak_org (oc_keys oc1) = ak_org (oc_keys oc)"
  using control_next_life [of sha env call oc oc1] by (fastforce simp: key_ids_life)

lemma control_gone_stays:
  "i \<notin> set (key_ids (oc_keys oc)) \<Longrightarrow> list_all (\<lambda>(_, call). \<not> control_mints sha (ak_org (oc_keys oc)) i call) calls \<Longrightarrow>
   i \<notin> set (key_ids (oc_keys (run_control sha calls oc)))"
proof (induction calls arbitrary: oc)
  case (Cons c calls)
  obtain env call where c: "c = (env, call)" by (cases c)
  let ?oc = "control_run sha env call oc"
  have "i \<notin> set (key_ids (oc_keys ?oc)) \<and> ak_org (oc_keys ?oc) = ak_org (oc_keys oc)"
    using control_next_ids [of sha env call oc] Cons.prems c by (auto simp: control_run_def split: option.split)
  then show ?case using Cons.IH [of ?oc] Cons.prems(2) c by (simp add: run_control_def)
qed (simp add: run_control_def)

text \<open>C24. The keys of a removed member stay dead: once an admin removed a member, no call makes one of their keys pass the check
  again, not even when the person is added back, unless its id is drawn again.
\<close>

theorem removed_members_keys_stay_dead:
  assumes "control_ok sha oc" "control_remove_member env i actor oc = Some (Reply email, oc1)"
    and "k \<in> set (ak_keys (oc_keys oc))" "kr_member k = i"
    and "list_all (\<lambda>(_, call). \<not> control_mints sha (ak_org (oc_keys oc)) (kr_id k) call) calls"
    and "control_verify_key env2 (kr_id k) hash now (run_control sha calls oc1) = Some (verdict, oc2)"
  shows "verdict = DeadKey UnknownKey"
proof -
  have keys: "distinct (key_ids (oc_keys oc))" using assms(1) by (simp add: control_ok_def api_keys_ok_def)
  have "kr_id k \<notin> set (key_ids (oc_keys oc1)) \<and> ak_org (oc_keys oc1) = ak_org (oc_keys oc)"
    using assms(2)
  proof (cases rule: control_remove_cases)
    case (gone oc0 email m)
    have "kr_id k \<notin> kr_id ` set (filter (\<lambda>k. kr_member k \<noteq> i) (ak_keys (oc_keys oc)))"
      using keys assms(3,4) by (auto simp: key_ids_def distinct_map inj_on_def)
    then show ?thesis using gone(5) seeded_Some(1) [OF gone(1)] by (simp add: remove_member_keys_def drop_keys_def key_ids_def)
  qed simp
  then have gone: "kr_id k \<notin> set (key_ids (oc_keys (run_control sha calls oc1)))" using control_gone_stays assms(5) by simp
  obtain oc0 where s: "seeded env2 (run_control sha calls oc1) = Some oc0" using assms(6) by (auto simp: control_verify_key_def)
  have "fst (check_api_key (kr_id k) hash now (oc_keys oc0)) = KeyRejected UnknownKey"
    using check_unknown gone seeded_Some(1) [OF s] by simp
  then show ?thesis using assms(6) s by (auto simp: control_verify_key_def split: prod.splits)
qed

lemma sample_removed:
  "\<exists>email oc1. control_remove_member sample_env ''mem-1'' sample_owner sample_control = Some (Reply email, oc1)"
proof -
  have "fst (remove_member ''mem-1'' sample_owner 1 (snd (seed_platform_admins [] [] 1 (oc_members sample_control)))) = Reply ''ann@x.org''"
    by code_simp
  then show ?thesis
    by (cases "remove_member ''mem-1'' sample_owner 1 (snd (seed_platform_admins [] [] 1 (oc_members sample_control)))")
      (simp add: control_remove_member_def sample_seeded, simp add: sample_env_def)
qed

lemma no_admins_seeded: "ce_admins env = [] \<Longrightarrow> seeded env oc \<noteq> None"
  by (simp add: seeded_def seed_platform_admins_def js_set_def)

theorem removed_members_keys_stay_dead_witness:
  "\<exists>email oc1 oc2. control_remove_member sample_env ''mem-1'' sample_owner sample_control = Some (Reply email, oc1) \<and>
     control_verify_key sample_env (replicate 20 CHR ''7'') (sample_sha []) 20 oc1 = Some (DeadKey UnknownKey, oc2)"
proof -
  obtain email oc1 where removed: "control_remove_member sample_env ''mem-1'' sample_owner sample_control = Some (Reply email, oc1)"
    using sample_removed by blast
  obtain k where k: "k \<in> set (ak_keys (oc_keys sample_control))" "kr_member k = ''mem-1''" "kr_id k = replicate 20 CHR ''7''"
    by (auto simp: sample_control_def one_key_def)
  obtain verdict oc2 where v: "control_verify_key sample_env (replicate 20 CHR ''7'') (sample_sha []) 20 oc1 = Some (verdict, oc2)"
    using no_admins_seeded [of sample_env oc1]
    by (cases "control_verify_key sample_env (replicate 20 CHR ''7'') (sample_sha []) 20 oc1") (auto simp: control_verify_key_def sample_env_def)
  have "verdict = DeadKey UnknownKey"
    using removed_members_keys_stay_dead [OF sample_control_ok removed k(1,2), of "[]"] v by (simp add: run_control_def k(3))
  then show ?thesis using removed v by blast
qed

end
