(* ===== verification/Key_Gate.thy ===== *)
theory Key_Gate
  imports Org_Access_Properties
begin

text \<open>
  API keys and management keys at the Worker's gate (\<open>packages/auth/src/api-key.ts\<close>, \<open>management-key.ts\<close>): the credential
  a request presents, and the verified keys an isolate trusts for a while without asking the org's ControlPlane again.
  A verification asks the Platform registry and then the ControlPlane, so others run between its steps: \<open>gate_step\<close> is one
  step of an isolate, and \<open>gate_run\<close> any interleaving. What differs between the two kinds of key is a record of functions.
\<close>

definition verified_key_ttl_ms :: ms where "verified_key_ttl_ms = 30000"

definition max_cached_keys :: nat where "max_cached_keys = 1024"

subsection \<open>What a request presents\<close>

definition bearer :: "string \<Rightarrow> string" where
  "bearer header =
     (case split_on (CHR '' '') header of
        scheme # w # ws \<Rightarrow> if js_lower scheme = ''bearer'' then js_trim (join_with '' '' (w # ws)) else header
      | _ \<Rightarrow> header)"

text \<open>The query of the URL is an argument: \<^const>\<open>None\<close> for a parameter it does not have, or a URL that does not parse.\<close>

definition presented_credentials :: "(string \<Rightarrow> string option) \<Rightarrow> (string \<Rightarrow> string option) \<Rightarrow> string option \<times> bool" where
  "presented_credentials headers query =
     (let text = (\<lambda>v. case v of None \<Rightarrow> [] | Some s \<Rightarrow> s);
          candidates = filter (\<lambda>s. s \<noteq> []) (map js_trim
            [bearer (text (headers ''authorization'')), text (headers ''x-goog-api-key''), text (headers ''x-api-key''),
             text (query ''key''), text (query ''auth_token'')])
      in (find looks_like_api_key candidates, candidates \<noteq> []))"

definition presented_management_key :: "(string \<Rightarrow> string option) \<Rightarrow> string option" where
  "presented_management_key headers =
     (case split_on (CHR '' '') (js_trim (case headers ''authorization'' of None \<Rightarrow> [] | Some s \<Rightarrow> s)) of
        [] \<Rightarrow> None
      | scheme # rest \<Rightarrow>
          (let key = js_trim (join_with '' '' rest)
           in if js_lower scheme = ''bearer'' \<and> looks_like_management_key key then Some key else None))"

subsection \<open>One verification\<close>

record 'k trusted_key =
  tk_key :: 'k
  tk_until :: ms

datatype 'k begun = NoKey | TrustedKey 'k | AskFor parsed_key

definition begin_verification ::
  "(string \<Rightarrow> parsed_key option) \<Rightarrow> string \<Rightarrow> ms \<Rightarrow> 'k trusted_key org_cache \<Rightarrow> 'k begun \<times> 'k trusted_key org_cache" where
  "begin_verification parse text now cache =
     (case parse text of
        None \<Rightarrow> (NoKey, cache)
      | Some p \<Rightarrow>
          (case cache_get (pk_org p) (pk_hash p) cache of
             Some c \<Rightarrow> if now < tk_until c then (TrustedKey (tk_key c), cache) else (AskFor p, cache_delete (pk_org p) (pk_hash p) cache)
           | None \<Rightarrow> (AskFor p, cache_delete (pk_org p) (pk_hash p) cache)))"

definition org_known :: "string \<Rightarrow> ms \<Rightarrow> ms org_cache \<Rightarrow> bool" where
  "org_known org now known \<longleftrightarrow> now < (case cache_get org ''listed'' known of None \<Rightarrow> 0 | Some t \<Rightarrow> t)"

definition org_answered :: "string \<Rightarrow> ms \<Rightarrow> bool \<Rightarrow> ms org_cache \<Rightarrow> ms org_cache" where
  "org_answered org now found known =
     (if found then cache_set None org ''listed'' (now + verified_key_ttl_ms) known else cache_delete org ''listed'' known)"

definition trusted_until :: "ms \<Rightarrow> ms option \<Rightarrow> ms" where
  "trusted_until now expires = (case expires of None \<Rightarrow> now + verified_key_ttl_ms | Some e \<Rightarrow> min (now + verified_key_ttl_ms) e)"

definition trust_key :: "parsed_key \<Rightarrow> ms \<Rightarrow> 'k \<Rightarrow> ms option \<Rightarrow> 'k trusted_key org_cache \<Rightarrow> 'k trusted_key org_cache" where
  "trust_key p now key expires cache =
     cache_set (Some max_cached_keys) (pk_org p) (pk_hash p) \<lparr>tk_key = key, tk_until = trusted_until now expires\<rparr> cache"

subsection \<open>An isolate\<close>

datatype 'k waiting = ForOrg parsed_key ms | ForStore parsed_key ms | ForDelivery parsed_key ms "('k \<times> ms option) option"

record ('k, 'c) gate =
  ga_clock :: ms
  ga_verified :: "'k trusted_key org_cache"
  ga_known :: "ms org_cache"
  ga_waiting :: "nat \<Rightarrow> 'k waiting option"
  ga_control :: 'c

text \<open>A kind of key: its parser, the ControlPlane's answer (\<^const>\<open>None\<close>: the call threw), the org and id of a verified key,
  and what other calls do to the ControlPlanes.\<close>

record ('k, 'c, 'call) key_kind =
  kk_parse :: "string \<Rightarrow> parsed_key option"
  kk_ask :: "call_env \<Rightarrow> parsed_key \<Rightarrow> ms \<Rightarrow> 'c \<Rightarrow> (('k \<times> ms option) option \<times> 'c) option"
  kk_ref :: "'k \<Rightarrow> string \<times> string"
  kk_call :: "'call \<Rightarrow> 'c \<Rightarrow> 'c"

text \<open>The org cache is shared with the other kind of key, whose verifications may change it at any time (\<open>KnownOrgs\<close>).\<close>

datatype 'call gate_event =
  TimePasses ms
| ControlCalled 'call
| VerifyText nat string
| RegistryAnswers nat bool
| ControlAnswers nat call_env
| CallFails nat
| AnswerArrives nat
| ForgetKey string string
| KnownOrgs "ms org_cache"

definition wait_for :: "nat \<Rightarrow> 'k waiting option \<Rightarrow> ('k, 'c) gate \<Rightarrow> ('k, 'c) gate" where
  "wait_for n state w = w\<lparr>ga_waiting := (ga_waiting w)(n := state)\<rparr>"

definition ask_org :: "nat \<Rightarrow> parsed_key \<Rightarrow> ('k, 'c) gate \<Rightarrow> ('k, 'c) gate" where
  "ask_org n p w =
     wait_for n (Some (if org_known (pk_org p) (ga_clock w) (ga_known w) then ForStore p (ga_clock w) else ForOrg p (ga_clock w))) w"

definition forget_verified :: "('k \<Rightarrow> string \<times> string) \<Rightarrow> string \<Rightarrow> string \<Rightarrow> 'k trusted_key org_cache \<Rightarrow> 'k trusted_key org_cache" where
  "forget_verified ref org key_id cache = cache_delete_where (\<lambda>o1 _ c. o1 = org \<and> snd (ref (tk_key c)) = key_id) cache"

text \<open>A step answers the time a verification began and the key it accepted, \<^const>\<open>None\<close> for \<open>Invalid API key\<close>.\<close>

fun gate_step :: "('k, 'c, 'call) key_kind \<Rightarrow> 'call gate_event \<Rightarrow> ('k, 'c) gate \<Rightarrow> (ms \<times> 'k option) list \<times> ('k, 'c) gate" where
  "gate_step kind (TimePasses t) w = ([], w\<lparr>ga_clock := max (ga_clock w) t\<rparr>)"
| "gate_step kind (ControlCalled call) w = ([], w\<lparr>ga_control := kk_call kind call (ga_control w)\<rparr>)"
| "gate_step kind (VerifyText n text) w =
     (if ga_waiting w n \<noteq> None then ([], w)
      else case begin_verification (kk_parse kind) text (ga_clock w) (ga_verified w) of
        (NoKey, cache) \<Rightarrow> ([(ga_clock w, None)], w\<lparr>ga_verified := cache\<rparr>)
      | (TrustedKey key, cache) \<Rightarrow> ([(ga_clock w, Some key)], w\<lparr>ga_verified := cache\<rparr>)
      | (AskFor p, cache) \<Rightarrow> ([], ask_org n p (w\<lparr>ga_verified := cache\<rparr>)))"
| "gate_step kind (RegistryAnswers n found) w =
     (case ga_waiting w n of
        Some (ForOrg p began) \<Rightarrow>
          (let w = w\<lparr>ga_known := org_answered (pk_org p) began found (ga_known w)\<rparr>
           in if found then ([], wait_for n (Some (ForStore p began)) w) else ([(began, None)], wait_for n None w))
      | _ \<Rightarrow> ([], w))"
| "gate_step kind (ControlAnswers n env) w =
     (case ga_waiting w n of
        Some (ForStore p began) \<Rightarrow>
          (case kk_ask kind env p began (ga_control w) of
             None \<Rightarrow> ([], wait_for n None w)
           | Some (answer, c) \<Rightarrow> ([], wait_for n (Some (ForDelivery p began answer)) (w\<lparr>ga_control := c\<rparr>)))
      | _ \<Rightarrow> ([], w))"
| "gate_step kind (CallFails n) w = ([], wait_for n None w)"
| "gate_step kind (AnswerArrives n) w =
     (case ga_waiting w n of
        Some (ForDelivery p began None) \<Rightarrow> ([(began, None)], wait_for n None w)
      | Some (ForDelivery p began (Some (key, expires))) \<Rightarrow>
          ([(began, Some key)], wait_for n None (w\<lparr>ga_verified := trust_key p began key expires (ga_verified w)\<rparr>))
      | _ \<Rightarrow> ([], w))"
| "gate_step kind (ForgetKey org key_id) w = ([], w\<lparr>ga_verified := forget_verified (kk_ref kind) org key_id (ga_verified w)\<rparr>)"
| "gate_step kind (KnownOrgs known) w = ([], w\<lparr>ga_known := known\<rparr>)"

fun gate_run :: "('k, 'c, 'call) key_kind \<Rightarrow> 'call gate_event list \<Rightarrow> ('k, 'c) gate \<Rightarrow> (ms \<times> 'k option) list \<times> ('k, 'c) gate" where
  "gate_run kind [] w = ([], w)"
| "gate_run kind (e # es) w =
     (let (answers, w1) = gate_step kind e w; (later, w2) = gate_run kind es w1 in (answers @ later, w2))"

definition new_gate :: "ms \<Rightarrow> 'c \<Rightarrow> ('k, 'c) gate" where
  "new_gate now c = \<lparr>ga_clock = now, ga_verified = [], ga_known = [], ga_waiting = (\<lambda>_. None), ga_control = c\<rparr>"

subsection \<open>The two kinds of key\<close>

type_synonym controls = "string \<Rightarrow> org_control"

record verified_api_key =
  va_org :: string
  va_key_id :: string
  va_member :: string
  va_email :: string
  va_role :: org_role

definition ask_api_key ::
  "call_env \<Rightarrow> parsed_key \<Rightarrow> ms \<Rightarrow> controls \<Rightarrow> ((verified_api_key \<times> ms option) option \<times> controls) option" where
  "ask_api_key env p now controls =
     map_option (\<lambda>(verdict, oc).
         (case verdict of
            DeadKey _ \<Rightarrow> None
          | LiveKey k \<Rightarrow> Some (\<lparr>va_org = pk_org p, va_key_id = pk_key_id p, va_member = lk_member k, va_email = lk_email k, va_role = lk_role k\<rparr>,
              lk_expires_at k),
          controls(pk_org p := oc)))
       (control_verify_key env (pk_key_id p) (pk_hash p) now (controls (pk_org p)))"

record verified_management_key =
  vm_org :: string
  vm_key_id :: string
  vm_name :: string
  vm_role :: org_role
  vm_owner_email :: "string option"

definition ask_management_key ::
  "call_env \<Rightarrow> parsed_key \<Rightarrow> ms \<Rightarrow> controls \<Rightarrow> ((verified_management_key \<times> ms option) option \<times> controls) option" where
  "ask_management_key env p now controls =
     (case check_management_key (pk_key_id p) (pk_hash p) now (oc_management (controls (pk_org p))) of
        (verdict, s) \<Rightarrow>
          Some (map_option (\<lambda>v. (\<lparr>vm_org = pk_org p, vm_key_id = pk_key_id p, vm_name = gk_name v, vm_role = gk_role v, vm_owner_email = gk_owner_email v\<rparr>, None)) verdict,
            controls(pk_org p := controls (pk_org p)\<lparr>oc_management := s\<rparr>)))"

text \<open>A call to an org's ControlPlane.\<close>

definition org_call :: "(string \<Rightarrow> string) \<Rightarrow> string \<times> call_env \<times> control_call \<Rightarrow> controls \<Rightarrow> controls" where
  "org_call sha call controls = (case call of (org, env, c) \<Rightarrow> controls(org := control_run sha env c (controls org)))"

definition api_key_kind :: "(string \<Rightarrow> string) \<Rightarrow> (verified_api_key, controls, string \<times> call_env \<times> control_call) key_kind" where
  "api_key_kind sha = \<lparr>kk_parse = parse_api_key sha, kk_ask = ask_api_key, kk_ref = (\<lambda>k. (va_org k, va_key_id k)), kk_call = org_call sha\<rparr>"

definition management_key_kind :: "(string \<Rightarrow> string) \<Rightarrow> (verified_management_key, controls, string \<times> call_env \<times> control_call) key_kind" where
  "management_key_kind sha =
     \<lparr>kk_parse = parse_management_key sha, kk_ask = ask_management_key, kk_ref = (\<lambda>k. (vm_org k, vm_key_id k)), kk_call = org_call sha\<rparr>"

end
