(* ===== verification/Key_Gate_Properties.thy ===== *)
theory Key_Gate_Properties
  imports Key_Gate
begin

text \<open>
  What the gate's cache of verified keys promises (\<open>packages/auth/src/api-key.ts\<close>, \<open>management-key.ts\<close>), for any
  interleaving of verifications, calls to the ControlPlanes and time: a key works no longer than 30 seconds after the
  ControlPlane would refuse it. The contract of a kind of key is the locale \<open>trusted_keys\<close>, interpreted on both kinds.
\<close>

subsection \<open>The cache\<close>

definition cached :: "'v org_cache \<Rightarrow> 'v set" where
  "cached m = (\<lambda>(_, e). oe_value e) ` set m"

lemma cached_set: "cached (cache_set maximum org name v m) \<subseteq> insert v (cached m)"
proof -
  have tl: "set (tl m) \<subseteq> set m" by (cases m) auto
  have "p \<in> set m" if "p \<in> set (AList.update k e m1)" "set m1 \<subseteq> set m" "p \<noteq> (k, e)" for p k e m1
    using set_update_values [OF that(1)] that(2,3) by auto
  then show ?thesis using tl unfolding cache_set_def Let_def cached_def
    by (fastforce split: option.splits if_splits dest!: set_update_values)
qed

lemma cached_delete: "cached (cache_delete org name m) \<subseteq> cached m"
  by (auto simp: cached_def cache_delete_def AList.delete_eq)

lemma cached_delete_where: "cached (cache_delete_where P m) \<subseteq> cached m"
  by (auto simp: cached_def cache_delete_where_def)

lemma cached_get: "cache_get org name m = Some v \<Longrightarrow> v \<in> cached m"
  by (force simp: cache_get_def cached_def dest: map_of_SomeD)

lemma begin_cases:
  assumes "begin_verification parse text now cache = (r, cache1)"
  obtains (none) "r = NoKey" "cache1 = cache"
    | (trusted) c where "r = TrustedKey (tk_key c)" "c \<in> cached cache" "now < tk_until c" "cache1 = cache"
    | (ask) p where "r = AskFor p" "cached cache1 \<subseteq> cached cache"
  using assms cached_get cached_delete that unfolding begin_verification_def
  by (fastforce split: option.splits if_splits)

subsection \<open>What may stay trusted\<close>

definition gate_dies :: "('k, 'c, 'call) key_kind \<Rightarrow> ms \<Rightarrow> string \<Rightarrow> string \<Rightarrow> ('k, 'c) gate \<Rightarrow> bool" where
  "gate_dies kind B org i w \<longleftrightarrow>
     (\<forall>c \<in> cached (ga_verified w). kk_ref kind (tk_key c) = (org, i) \<longrightarrow> tk_until c \<le> B) \<and>
     (\<forall>n p began key expires. ga_waiting w n = Some (ForDelivery p began (Some (key, expires))) \<and> kk_ref kind key = (org, i) \<longrightarrow>
        began < B \<and> trusted_until began expires \<le> B)"

fun waiting_since :: "'k waiting \<Rightarrow> ms" where
  "waiting_since (ForOrg p began) = began"
| "waiting_since (ForStore p began) = began"
| "waiting_since (ForDelivery p began answer) = began"

definition gate_sound :: "('k, 'c) gate \<Rightarrow> bool" where
  "gate_sound w \<longleftrightarrow> (\<forall>c \<in> cached (ga_verified w). tk_until c \<le> ga_clock w + verified_key_ttl_ms) \<and>
     (\<forall>n state. ga_waiting w n = Some state \<longrightarrow> waiting_since state \<le> ga_clock w)"

lemma trusted_until_ttl: "trusted_until now expires \<le> now + verified_key_ttl_ms"
  by (simp add: trusted_until_def split: option.split)

lemma gate_sound_new: "gate_sound (new_gate now c)"
  by (simp add: gate_sound_def new_gate_def cached_def)

lemma gate_sound_waiting: "gate_sound w \<Longrightarrow> (\<And>s. state = Some s \<Longrightarrow> waiting_since s \<le> ga_clock w) \<Longrightarrow> gate_sound (wait_for n state w)"
  by (auto simp: gate_sound_def wait_for_def)

lemma gate_sound_cache: "gate_sound w \<Longrightarrow> cached m \<subseteq> cached (ga_verified w) \<Longrightarrow> gate_sound (w\<lparr>ga_verified := m\<rparr>)"
  by (auto simp: gate_sound_def)

lemma gate_sound_fields:
  "gate_sound (w\<lparr>ga_known := known\<rparr>) = gate_sound w" "gate_sound (w\<lparr>ga_control := c\<rparr>) = gate_sound w"
  by (simp_all add: gate_sound_def)

lemma gate_sound_step: "gate_sound w \<Longrightarrow> gate_sound (snd (gate_step kind e w))"
proof -
  assume ok: "gate_sound w"
  have since: "ga_waiting w n = Some state \<Longrightarrow> waiting_since state \<le> ga_clock w" for n state
    using ok by (simp add: gate_sound_def)
  show ?thesis
  proof (cases e)
    case (TimePasses t)
    have "max a t + b \<ge> a + b" for a b :: int by simp
    then show ?thesis using ok TimePasses by (fastforce simp: gate_sound_def intro: order_trans)
  next
    case (VerifyText n given)
    show ?thesis
    proof (cases "ga_waiting w n")
      case None
      obtain r cache where r: "begin_verification (kk_parse kind) given (ga_clock w) (ga_verified w) = (r, cache)"
        by (metis prod.exhaust)
      then show ?thesis
      proof (cases rule: begin_cases)
        case (ask p)
        then show ?thesis using VerifyText None r gate_sound_cache [OF ok ask(2)]
          by (auto simp: ask_org_def intro!: gate_sound_waiting)
      qed (use ok VerifyText None r in simp_all)
    qed (use ok VerifyText in simp)
  next
    case (RegistryAnswers n found)
    then show ?thesis using ok since [of n]
      by (auto simp: Let_def gate_sound_fields intro!: gate_sound_waiting split: option.split waiting.split)
  next
    case (ControlAnswers n env)
    then show ?thesis using ok since [of n]
      by (auto simp: gate_sound_fields intro!: gate_sound_waiting split: option.split waiting.split)
  next
    case (AnswerArrives n)
    have "gate_sound (w\<lparr>ga_verified := trust_key p began key expires (ga_verified w)\<rparr>)" if "began \<le> ga_clock w" for p began key expires
      using ok that trusted_until_ttl [of began expires] cached_set
      unfolding gate_sound_def trust_key_def by fastforce
    then show ?thesis using AnswerArrives ok since [of n]
      by (auto intro!: gate_sound_waiting split: option.split waiting.split)
  next
    case (ForgetKey org i)
    then show ?thesis using gate_sound_cache [OF ok cached_delete_where] by (simp add: forget_verified_def)
  qed (use ok in \<open>auto simp: gate_sound_fields intro!: gate_sound_waiting\<close>)
qed

lemma gate_sound_run: "gate_sound w \<Longrightarrow> gate_sound (snd (gate_run kind es w))"
  by (induction es arbitrary: w) (simp_all add: case_prod_beta Let_def gate_sound_step)

lemma sound_dies: "gate_sound w \<Longrightarrow> gate_dies kind (ga_clock w + verified_key_ttl_ms) org i w"
proof -
  assume ok: "gate_sound w"
  have "began < ga_clock w + verified_key_ttl_ms \<and> trusted_until began expires \<le> ga_clock w + verified_key_ttl_ms"
    if "ga_waiting w n = Some (ForDelivery p began (Some (key, expires)))" for n p began key expires
  proof -
    have "began \<le> ga_clock w" using ok that by (auto simp: gate_sound_def dest!: spec [of _ n])
    then show ?thesis using trusted_until_ttl [of began expires] by (simp add: verified_key_ttl_ms_def)
  qed
  then show ?thesis using ok by (auto simp: gate_sound_def gate_dies_def)
qed

lemma gate_dies_waiting:
  "gate_dies kind B org i w \<Longrightarrow> (\<And>p began key expires. state = Some (ForDelivery p began (Some (key, expires))) \<Longrightarrow> kk_ref kind key = (org, i) \<Longrightarrow>
     began < B \<and> trusted_until began expires \<le> B) \<Longrightarrow> gate_dies kind B org i (wait_for n state w)"
  by (auto simp: gate_dies_def wait_for_def)

lemma gate_dies_cache: "gate_dies kind B org i w \<Longrightarrow> cached m \<subseteq> cached (ga_verified w) \<Longrightarrow> gate_dies kind B org i (w\<lparr>ga_verified := m\<rparr>)"
  by (auto simp: gate_dies_def)

lemma gate_dies_fields:
  "gate_dies kind B org i (w\<lparr>ga_known := known\<rparr>) = gate_dies kind B org i w" "gate_dies kind B org i (w\<lparr>ga_control := c\<rparr>) = gate_dies kind B org i w"
  "gate_dies kind B org i (w\<lparr>ga_clock := t\<rparr>) = gate_dies kind B org i w"
  by (simp_all add: gate_dies_def)

fun control_calls :: "'call gate_event list \<Rightarrow> 'call list" where
  "control_calls [] = []"
| "control_calls (ControlCalled call # es) = call # control_calls es"
| "control_calls (_ # es) = control_calls es"

text \<open>No verification that began at \<open>B\<close> or later accepted the key.\<close>

definition accepts_until :: "('k, 'c, 'call) key_kind \<Rightarrow> ms \<Rightarrow> string \<Rightarrow> string \<Rightarrow> (ms \<times> 'k option) list \<Rightarrow> bool" where
  "accepts_until kind B org i answers \<longleftrightarrow>
     list_all (\<lambda>(began, k). case k of None \<Rightarrow> True | Some key \<Rightarrow> kk_ref kind key = (org, i) \<longrightarrow> began < B) answers"

lemma accepts_until_simps [simp]:
  "accepts_until kind B org i []" "accepts_until kind B org i ((began, None) # answers) = accepts_until kind B org i answers"
  "accepts_until kind B org i ((began, Some key) # answers) \<longleftrightarrow> (kk_ref kind key = (org, i) \<longrightarrow> began < B) \<and> accepts_until kind B org i answers"
  "accepts_until kind B org i (xs @ answers) \<longleftrightarrow> accepts_until kind B org i xs \<and> accepts_until kind B org i answers"
  by (simp_all add: accepts_until_def)

text \<open>The contract of a kind of key. \<open>dies B org i\<close>: the ControlPlanes accept the key \<open>i\<close> of \<open>org\<close> in no verification that begins
  at \<open>B\<close> or later, and tell the gate to trust it no longer than \<open>B\<close>; \<open>keeps org i\<close>: a call that leaves it so.\<close>

locale trusted_keys =
  fixes kind :: "('k, 'c, 'call) key_kind"
    and dies :: "ms \<Rightarrow> string \<Rightarrow> string \<Rightarrow> 'c \<Rightarrow> bool"
    and keeps :: "string \<Rightarrow> string \<Rightarrow> 'call \<Rightarrow> bool"
  assumes ask_dies: "dies B org i c \<Longrightarrow> kk_ask kind env p now c = Some (answer, c1) \<Longrightarrow> dies B org i c1"
    and answer_dies: "dies B org i c \<Longrightarrow> kk_ask kind env p now c = Some (Some (key, expires), c1) \<Longrightarrow> kk_ref kind key = (org, i) \<Longrightarrow>
      now < B \<and> trusted_until now expires \<le> B"
    and call_dies: "dies B org i c \<Longrightarrow> keeps org i call \<Longrightarrow> dies B org i (kk_call kind call c)"
begin

lemma step_dies:
  assumes ok: "gate_dies kind B org i w" "dies B org i (ga_control w)" and keep: "list_all (keeps org i) (control_calls [e])"
  shows "gate_dies kind B org i (snd (gate_step kind e w)) \<and> dies B org i (ga_control (snd (gate_step kind e w))) \<and>
    accepts_until kind B org i (fst (gate_step kind e w))"
proof (cases e)
  case (ControlCalled call)
  then show ?thesis using ok keep call_dies by (simp add: gate_dies_fields accepts_until_def)
next
  case (VerifyText n given)
  show ?thesis
  proof (cases "ga_waiting w n")
    case None
    obtain r cache where r: "begin_verification (kk_parse kind) given (ga_clock w) (ga_verified w) = (r, cache)"
      by (metis prod.exhaust)
    then show ?thesis
    proof (cases rule: begin_cases)
      case (trusted c)
      then show ?thesis using ok VerifyText None r by (fastforce simp: gate_dies_def)
    next
      case (ask p)
      then show ?thesis using VerifyText None r ok gate_dies_cache [OF ok(1) ask(2)]
        by (auto simp: ask_org_def wait_for_def [of _ _ w] intro!: gate_dies_waiting) (simp add: wait_for_def)+
    qed (use ok VerifyText None r in \<open>simp_all add: accepts_until_def\<close>)
  qed (use ok VerifyText in \<open>simp add: accepts_until_def\<close>)
next
  case (RegistryAnswers n found)
  then show ?thesis using ok
    by (auto simp: Let_def gate_dies_fields intro!: gate_dies_waiting split: option.split waiting.split) (simp_all add: wait_for_def)
next
  case (ControlAnswers n env)
  show ?thesis
  proof (cases "\<exists>p began answer c. ga_waiting w n = Some (ForStore p began) \<and> kk_ask kind env p began (ga_control w) = Some (answer, c)")
    case True
    then obtain p began answer c where a: "ga_waiting w n = Some (ForStore p began)" "kk_ask kind env p began (ga_control w) = Some (answer, c)" by blast
    have "gate_dies kind B org i (wait_for n (Some (ForDelivery p began answer)) (w\<lparr>ga_control := c\<rparr>))"
      by (rule gate_dies_waiting) (use ok(1) answer_dies [OF ok(2)] a(2) in \<open>auto simp: gate_dies_fields\<close>)
    then show ?thesis using ControlAnswers a ask_dies [OF ok(2) a(2)] by (simp add: wait_for_def)
  next
    case False
    then show ?thesis using ControlAnswers ok gate_dies_waiting [OF ok(1), of None n]
      by (auto simp: wait_for_def split: option.split waiting.split)
  qed
next
  case (AnswerArrives n)
  have stored: "gate_dies kind B org i (wait_for n None (w\<lparr>ga_verified := trust_key p began key expires (ga_verified w)\<rparr>)) \<and>
      (kk_ref kind key = (org, i) \<longrightarrow> began < B)"
    if "ga_waiting w n = Some (ForDelivery p began (Some (key, expires)))" for p began key expires
  proof -
    have "kk_ref kind key = (org, i) \<Longrightarrow> began < B \<and> trusted_until began expires \<le> B" using ok(1) that by (auto simp: gate_dies_def)
    moreover have "cached (trust_key p began key expires (ga_verified w)) \<subseteq>
        insert \<lparr>tk_key = key, tk_until = trusted_until began expires\<rparr> (cached (ga_verified w))"
      unfolding trust_key_def by (rule cached_set)
    ultimately show ?thesis using ok(1) by (auto simp: gate_dies_def wait_for_def)
  qed
  then show ?thesis using AnswerArrives ok gate_dies_waiting [OF ok(1), of None n]
    by (fastforce simp: wait_for_def split: option.splits waiting.splits)
next
  case (ForgetKey org1 i1)
  then show ?thesis using ok gate_dies_cache [OF ok(1) cached_delete_where] by (simp add: forget_verified_def accepts_until_def)
next
  case (CallFails n)
  then show ?thesis using ok gate_dies_waiting [OF ok(1), of None n] by (simp add: wait_for_def)
qed (use ok in \<open>auto simp: gate_dies_fields accepts_until_def\<close>)

lemma run_dies:
  "gate_dies kind B org i w \<Longrightarrow> dies B org i (ga_control w) \<Longrightarrow> list_all (keeps org i) (control_calls es) \<Longrightarrow>
   accepts_until kind B org i (fst (gate_run kind es w))"
proof (induction es arbitrary: w)
  case (Cons e es)
  have keep: "list_all (keeps org i) (control_calls [e])" "list_all (keeps org i) (control_calls es)"
    using Cons.prems(3) by (cases e; simp)+
  show ?case using step_dies [OF Cons.prems(1,2) keep(1)] Cons.IH [OF _ _ keep(2), of "snd (gate_step kind e w)"]
    by (auto simp: case_prod_beta Let_def accepts_until_def)
qed (simp add: accepts_until_def)

lemma dead_within_ttl:
  "gate_sound w \<Longrightarrow> dies (ga_clock w + verified_key_ttl_ms) org i (ga_control w) \<Longrightarrow> list_all (keeps org i) (control_calls es) \<Longrightarrow>
   accepts_until kind (ga_clock w + verified_key_ttl_ms) org i (fst (gate_run kind es w))"
  by (rule run_dies [OF sound_dies])

lemma dead_from_the_start:
  "dies B org i c \<Longrightarrow> list_all (keeps org i) (control_calls es) \<Longrightarrow> accepts_until kind B org i (fst (gate_run kind es (new_gate now c)))"
  by (rule run_dies) (simp_all add: gate_dies_def new_gate_def cached_def)

end

subsection \<open>API keys\<close>

definition api_key_dies :: "ms \<Rightarrow> string \<Rightarrow> string \<Rightarrow> controls \<Rightarrow> bool" where
  "api_key_dies B org i controls \<longleftrightarrow> ak_org (oc_keys (controls org)) = org \<and>
     (\<forall>(k, e) \<in> set (key_life (oc_keys (controls org))). k = i \<longrightarrow> (case e of None \<Rightarrow> False | Some t \<Rightarrow> t \<le> B))"

definition keeps_api_key_dead :: "(string \<Rightarrow> string) \<Rightarrow> string \<Rightarrow> string \<Rightarrow> string \<times> call_env \<times> control_call \<Rightarrow> bool" where
  "keeps_api_key_dead sha org i call = (case call of (o1, env, c) \<Rightarrow> o1 = org \<longrightarrow> \<not> control_mints sha org i c)"

lemma api_key_dies_next:
  assumes dead: "api_key_dies B org i controls" and run: "control_next sha env call (controls o1) = Some oc1"
    and keeps: "o1 = org \<Longrightarrow> \<not> control_mints sha org i call"
  shows "api_key_dies B org i (controls(o1 := oc1))"
proof (cases "o1 = org")
  case True
  show ?thesis using control_next_life [OF run] dead keeps True unfolding api_key_dies_def by fastforce
qed (use dead in \<open>simp add: api_key_dies_def\<close>)

lemma verify_is_call:
  "control_verify_key env i hash now oc = Some (verdict, oc1) \<Longrightarrow> control_next sha env (VerifyThrough i hash now) oc = Some oc1"
  by simp

lemma verified_is_stored:
  assumes "control_verify_key env i hash now oc = Some (LiveKey k, oc1)"
  shows "(i, lk_expires_at k) \<in> set (key_life (oc_keys oc)) \<and> (case lk_expires_at k of None \<Rightarrow> True | Some t \<Rightarrow> now < t)"
proof -
  obtain oc0 where s: "seeded env oc = Some oc0" using assms by (auto simp: control_verify_key_def)
  obtain m where c: "fst (check_api_key i hash now (oc_keys oc0)) = KeyAccepted m (lk_expires_at k)"
    using assms s by (auto simp: control_verify_key_def split: prod.splits key_check.splits option.splits)
  then obtain row where row: "api_key_row_of i (oc_keys oc0) = Some row" "\<not> expired_at now row" "lk_expires_at k = kr_expires_at row"
    using check_accepts by blast
  show ?thesis using api_key_row_found [OF row(1)] row(2,3) seeded_Some(1) [OF s]
    by (auto simp: key_life_def expired_at_def image_iff split: option.splits)
qed

interpretation api: trusted_keys "api_key_kind sha" api_key_dies "keeps_api_key_dead sha" for sha
proof (unfold_locales, goal_cases)
  case (1 B org i controls env p now answer c1)
  then obtain verdict oc1 where v: "control_verify_key env (pk_key_id p) (pk_hash p) now (controls (pk_org p)) = Some (verdict, oc1)" "c1 = controls(pk_org p := oc1)"
    by (auto simp: api_key_kind_def ask_api_key_def)
  show ?case unfolding v(2) by (rule api_key_dies_next [OF 1(1) verify_is_call [OF v(1)]]) simp
next
  case (2 B org i controls env p now key expires c1)
  then obtain verdict oc1 where c: "control_verify_key env (pk_key_id p) (pk_hash p) now (controls (pk_org p)) = Some (verdict, oc1)"
    by (auto simp: api_key_kind_def ask_api_key_def)
  then obtain k where v: "control_verify_key env (pk_key_id p) (pk_hash p) now (controls (pk_org p)) = Some (LiveKey k, oc1)" "expires = lk_expires_at k"
      "pk_org p = org" "pk_key_id p = i"
    using 2(2,3) by (cases verdict) (auto simp: api_key_kind_def ask_api_key_def)
  have "(i, expires) \<in> set (key_life (oc_keys (controls org))) \<and> (case expires of None \<Rightarrow> True | Some t \<Rightarrow> now < t)"
    using verified_is_stored [OF v(1)] v(2,3,4) by simp
  then show ?case using 2(1) by (auto simp: api_key_dies_def trusted_until_def split: option.splits)
next
  case (3 B org i controls call)
  obtain o1 env c where call: "call = (o1, env, c)" by (cases call)
  show ?case
  proof (cases "control_next sha env c (controls o1)")
    case None
    then show ?thesis using 3(1) call by (simp add: api_key_kind_def org_call_def control_run_def fun_upd_idem)
  next
    case (Some oc1)
    then show ?thesis using api_key_dies_next [OF 3(1) Some] 3(2) call
      by (simp add: api_key_kind_def org_call_def control_run_def keeps_api_key_dead_def)
  qed
qed

text \<open>C32. A revoked API key dies everywhere within 30 seconds: from the moment the org's ControlPlane does not have the key any more,
  however it went, no isolate accepts it in a verification that begins 30 seconds later or after that, whatever was under way in the
  isolate and whatever is called meanwhile.
\<close>

theorem revoked_key_dies_within_ttl:
  assumes "w = snd (gate_run (api_key_kind sha) before (new_gate start controls))"
    and "ak_org (oc_keys (ga_control w org)) = org" "i \<notin> set (key_ids (oc_keys (ga_control w org)))"
    and "list_all (keeps_api_key_dead sha org i) (control_calls after)"
  shows "accepts_until (api_key_kind sha) (ga_clock w + verified_key_ttl_ms) org i (fst (gate_run (api_key_kind sha) after w))"
proof (rule api.dead_within_ttl [OF _ _ assms(4)])
  show "gate_sound w" unfolding assms(1) by (rule gate_sound_run [OF gate_sound_new])
  show "api_key_dies (ga_clock w + verified_key_ttl_ms) org i (ga_control w)" using assms(2,3) by (force simp: api_key_dies_def key_ids_life)
qed

text \<open>An expired API key is never accepted: the cache keeps a verified key no longer than it lives.\<close>

theorem expired_key_is_not_trusted:
  assumes "ak_org (oc_keys (controls org)) = org" "(i, Some expiry) \<in> set (key_life (oc_keys (controls org)))" "distinct (key_ids (oc_keys (controls org)))"
    and "list_all (keeps_api_key_dead sha org i) (control_calls events)"
  shows "accepts_until (api_key_kind sha) expiry org i (fst (gate_run (api_key_kind sha) events (new_gate start controls)))"
proof (rule api.dead_from_the_start [OF _ assms(4)])
  have "e = Some expiry" if "(i, e) \<in> set (key_life (oc_keys (controls org)))" for e
    using eq_key_imp_eq_value [OF assms(3) [unfolded key_ids_life] that assms(2)] .
  then show "api_key_dies expiry org i controls" using assms(1) by (fastforce simp: api_key_dies_def)
qed

subsection \<open>Management keys\<close>

definition management_key_dies :: "ms \<Rightarrow> string \<Rightarrow> string \<Rightarrow> controls \<Rightarrow> bool" where
  "management_key_dies B org i controls \<longleftrightarrow> mk_org (oc_management (controls org)) = org \<and> i \<notin> set (management_ids (oc_management (controls org)))"

fun mints_management_key :: "(string \<Rightarrow> string) \<Rightarrow> string \<Rightarrow> string \<Rightarrow> control_call \<Rightarrow> bool" where
  "mints_management_key sha org i (ManagementThrough (CreateManagementCall draws _ _ _ _ _)) =
     (i \<in> (\<lambda>(a, b). pk_key_id (mint_management_key sha a b org)) ` set draws)"
| "mints_management_key sha org i _ = False"

definition keeps_management_key_dead :: "(string \<Rightarrow> string) \<Rightarrow> string \<Rightarrow> string \<Rightarrow> string \<times> call_env \<times> control_call \<Rightarrow> bool" where
  "keeps_management_key_dead sha org i call = (case call of (o1, env, c) \<Rightarrow> o1 = org \<longrightarrow> \<not> mints_management_key sha org i c)"

lemma management_run_ids:
  "set (management_ids (management_run sha mcall s)) \<subseteq> set (management_ids s) \<union> {i. mints_management_key sha (mk_org s) i (ManagementThrough mcall)} \<and>
   mk_org (management_run sha mcall s) = mk_org s"
proof (cases mcall)
  case (CreateManagementCall draws name role creator owner now)
  show ?thesis
    by (rule create_management_effect [of sha draws name role creator owner now s]) (auto simp: CreateManagementCall management_ids_def)
next
  case (RevokeManagementCall i)
  then show ?thesis by (auto simp: revoke_management_key_def management_ids_def split: option.split)
next
  case (CheckManagementCall i hash now)
  then show ?thesis by (auto simp: check_management_key_def management_ids_def split: option.split)
qed

lemma control_management_next:
  assumes "control_next sha env call oc = Some oc1"
  shows "oc_management oc1 = (case call of ManagementThrough mcall \<Rightarrow> management_run sha mcall (oc_management oc) | _ \<Rightarrow> oc_management oc)"
proof (cases "key_call_of call")
  case (Some kcall)
  then obtain oc0 where s: "seeded env oc = Some oc0" "oc1 = with_keys (key_run sha kcall (oc_keys oc0)) oc0"
    using assms control_key_call [OF Some, of sha env oc] by auto
  then show ?thesis using seeded_Some(2) Some by (cases call) auto
next
  case None
  show ?thesis
  proof (cases call)
    case (AdmitThrough draws who auto_join client)
    then obtain oc0 where s: "seeded env oc = Some oc0" using assms by (auto simp: control_admit_def)
    show ?thesis using AdmitThrough assms s seeded_Some(2) [OF s]
      by (cases "admit draws who auto_join (ce_now env) (oc_members oc0)") (auto simp: control_admit_def split: if_splits)
  next
    case (RemoveThrough i actor)
    then obtain r where r: "control_remove_member env i actor oc = Some (r, oc1)" using assms by auto
    show ?thesis using r by (cases rule: control_remove_cases) (use RemoveThrough seeded_Some(2) in auto)
  next
    case (LeaveThrough email)
    then obtain r where r: "control_leave_org env email oc = Some (r, oc1)" using assms by auto
    show ?thesis using r by (cases rule: control_leave_cases) (use LeaveThrough seeded_Some(2) in auto)
  next
    case (CreateKeyThrough draws input now)
    then obtain r where c: "control_create_key env sha draws input now oc = Some (r, oc1)" using assms by auto
    show ?thesis using c by (cases rule: control_create_cases) (use CreateKeyThrough seeded_Some(2) in auto)
  qed (use assms None seeded_Some(2) in \<open>auto simp: control_admit_def control_members_def control_access_clients_def control_management_def split: prod.splits if_splits\<close>)
qed

lemma check_management_run: "check_management_key i hash now s = (verdict, s1) \<Longrightarrow> management_run sha (CheckManagementCall i hash now) s = s1"
  by simp

interpretation management: trusted_keys "management_key_kind sha" management_key_dies "keeps_management_key_dead sha" for sha
proof (unfold_locales, goal_cases)
  case (1 B org i controls env p now answer c1)
  obtain verdict s where c: "check_management_key (pk_key_id p) (pk_hash p) now (oc_management (controls (pk_org p))) = (verdict, s)" by (metis prod.exhaust)
  show ?case using 1 c management_run_ids [of sha "CheckManagementCall (pk_key_id p) (pk_hash p) now" "oc_management (controls (pk_org p))"]
    by (auto simp: management_key_kind_def ask_management_key_def management_key_dies_def split: if_splits)
next
  case (2 B org i controls env p now key expires c1)
  obtain verdict s where c: "check_management_key (pk_key_id p) (pk_hash p) now (oc_management (controls (pk_org p))) = (verdict, s)" by (metis prod.exhaust)
  have ref: "pk_org p = org" "pk_key_id p = i" "verdict \<noteq> None"
    using 2(2,3) c by (auto simp: management_key_kind_def ask_management_key_def)
  have "management_row_of i (oc_management (controls org)) = None" using 2(1) by (simp add: management_key_dies_def management_lookup)
  then show ?case using c ref by (auto simp: check_management_key_def split: if_splits)
next
  case (3 B org i controls call)
  obtain o1 env c where call: "call = (o1, env, c)" by (cases call)
  show ?case
  proof (cases "control_next sha env c (controls o1)")
    case None
    then show ?thesis using 3(1) call by (simp add: management_key_kind_def org_call_def control_run_def fun_upd_idem)
  next
    case (Some oc1)
    have "management_key_dies B org i (controls(o1 := oc1))"
      using control_management_next [OF Some] 3 call management_run_ids [of sha _ "oc_management (controls o1)"]
      by (fastforce simp: management_key_dies_def keeps_management_key_dead_def split: control_call.splits)
    then show ?thesis using Some call by (simp add: management_key_kind_def org_call_def control_run_def)
  qed
qed

text \<open>A revoked management key dies everywhere within 30 seconds, too.\<close>

theorem revoked_management_key_dies_within_ttl:
  assumes "w = snd (gate_run (management_key_kind sha) before (new_gate start controls))"
    and "mk_org (oc_management (ga_control w org)) = org" "i \<notin> set (management_ids (oc_management (ga_control w org)))"
    and "list_all (keeps_management_key_dead sha org i) (control_calls after)"
  shows "accepts_until (management_key_kind sha) (ga_clock w + verified_key_ttl_ms) org i (fst (gate_run (management_key_kind sha) after w))"
proof (rule management.dead_within_ttl [OF _ _ assms(4)])
  show "gate_sound w" unfolding assms(1) by (rule gate_sound_run [OF gate_sound_new])
  show "management_key_dies (ga_clock w + verified_key_ttl_ms) org i (ga_control w)" using assms(2,3) by (simp add: management_key_dies_def)
qed

subsection \<open>Runs of an isolate\<close>

definition sample_key_id :: string where "sample_key_id = replicate 20 CHR ''7''"

definition sample_key_text :: string where "sample_key_text = api_key_text ''acme'' sample_key_id (replicate 48 CHR ''A'')"

text \<open>A key is verified and cached, then revoked.\<close>

definition sample_revoked :: "(string \<times> call_env \<times> control_call) gate_event list" where
  "sample_revoked = [VerifyText 0 sample_key_text, RegistryAnswers 0 True, ControlAnswers 0 sample_env, AnswerArrives 0,
     ControlCalled (''acme'', sample_env, RevokeThrough sample_key_id 20 None)]"

definition sample_gate :: "(verified_api_key, controls) gate" where
  "sample_gate = snd (gate_run (api_key_kind sample_sha) sample_revoked (new_gate 20 (\<lambda>_. sample_control)))"

text \<open>The cache still accepts the key 10 milliseconds later, and no more from 30020 on.\<close>

theorem revoked_key_dies_within_ttl_witness:
  "map (\<lambda>(began, k). (began, map_option va_key_id k)) (fst (gate_run (api_key_kind sample_sha) [TimePasses 30, VerifyText 1 sample_key_text] sample_gate)) =
     [(30, Some sample_key_id)] \<and>
   accepts_until (api_key_kind sample_sha) 30020 ''acme'' sample_key_id
     (fst (gate_run (api_key_kind sample_sha) [TimePasses 30, VerifyText 1 sample_key_text] sample_gate))"
proof -
  have "map (\<lambda>(began, k). (began, map_option va_key_id k)) (fst (gate_run (api_key_kind sample_sha) [TimePasses 30, VerifyText 1 sample_key_text] sample_gate)) =
     [(30, Some sample_key_id)]"
    by code_simp
  moreover have "ak_org (oc_keys (ga_control sample_gate ''acme'')) = ''acme''" by code_simp
  moreover have "key_ids (oc_keys (ga_control sample_gate ''acme'')) = []" by code_simp
  moreover have "ga_clock sample_gate + verified_key_ttl_ms = 30020" by code_simp
  ultimately show ?thesis
    using revoked_key_dies_within_ttl [OF sample_gate_def, of "''acme''" sample_key_id "[TimePasses 30, VerifyText 1 sample_key_text]"] by simp
qed

text \<open>A management key revoked through this isolate comes back: the verification under way when the key is revoked and forgotten
  is remembered afterwards, so verifications that begin later accept the key.
\<close>

definition sample_management_text :: string where
  "sample_management_text = management_key_prefix @ ''acme_'' @ sample_key_id @ ''_'' @ replicate 48 CHR ''A''"

definition sample_management :: org_control where
  "sample_management = (open_control ''acme'' True)\<lparr>oc_management := \<lparr>mk_org = ''acme'', mk_rows = [\<lparr>gr_id = sample_key_id, gr_name = ''ci'',
     gr_role = ''admin'', gr_hash = sample_sha sample_management_text, gr_prefix = [], gr_created_by = ''ann'', gr_owner_email = None,
     gr_created_at = 5, gr_last_used_at = None\<rparr>]\<rparr>\<rparr>"

definition sample_race :: "(string \<times> call_env \<times> control_call) gate_event list" where
  "sample_race = [VerifyText 0 sample_management_text, RegistryAnswers 0 True, ControlAnswers 0 sample_env,
     ControlCalled (''acme'', sample_env, ManagementThrough (RevokeManagementCall sample_key_id)), ForgetKey ''acme'' sample_key_id, AnswerArrives 0]"

theorem forgotten_key_comes_back:
  "(let w = snd (gate_run (management_key_kind sample_sha) sample_race (new_gate 20 (\<lambda>_. sample_management)))
    in management_ids (oc_management (ga_control w ''acme'')) = [] \<and>
       map (\<lambda>(began, k). (began, map_option vm_key_id k))
         (fst (gate_run (management_key_kind sample_sha) [TimePasses 30000, VerifyText 1 sample_management_text] w)) = [(30000, Some sample_key_id)])"
  by code_simp

end
