(* ===== verification/Request_Gates.thy ===== *)
theory Request_Gates
  imports Key_Gate Outbound_Check
begin

text \<open>
  Authentication of a request (\<open>packages/auth/src\<close>: \<open>principal.ts\<close>, \<open>access/config.ts\<close>, \<open>admission.ts\<close>, \<open>standing.ts\<close>,
  \<open>gate.ts\<close>, \<open>access-gate.ts\<close>, \<open>hosted-gate.ts\<close>, \<open>authenticate.ts\<close>). What the gates ask of others in one request is the
  record \<open>gate_services\<close>: the directory, the verified keys, the sessions, the verifier of Access tokens. SHA-256, the
  parts of a URL and the environment are arguments. \<open>csrf.ts\<close> is the check that comes before.
\<close>

subsection \<open>Principals\<close>

datatype run_actor = ActsAsMember string string | ActsAsAgent

record run_principal =
  rn_run :: string
  rn_agent :: string
  rn_starter :: "(string \<times> string) option"
  rn_starter_member :: "string option"
  rn_starter_email :: "string option"
  rn_acts_as :: run_actor
  rn_model :: string
  rn_tool_scope :: tool_scope

datatype principal =
  UserPrincipal string string
| ServicePrincipal string
| KeyPrincipal string string string
| ManagementPrincipal string string "string option"
| RunPrincipal run_principal

fun principal_kind_of :: "principal \<Rightarrow> principal_kind" where
  "principal_kind_of (UserPrincipal _ _) = UserKind"
| "principal_kind_of (ServicePrincipal _) = ServiceKind"
| "principal_kind_of (KeyPrincipal _ _ _) = KeyKind"
| "principal_kind_of (ManagementPrincipal _ _ _) = ManagementKeyKind"
| "principal_kind_of (RunPrincipal _) = RunKind"

record identity =
  id_principal :: principal
  id_principal_id :: string
  id_caller_scope :: string
  id_org :: string
  id_platform_admin :: bool
  id_role :: "org_role option"
  id_member :: "string option"

fun principal_id :: "principal \<Rightarrow> string" where
  "principal_id (UserPrincipal email _) = ''user:'' @ js_lower email"
| "principal_id (ServicePrincipal name) = ''service:'' @ name"
| "principal_id (KeyPrincipal key _ _) = ''key:'' @ key"
| "principal_id (ManagementPrincipal key _ _) = ''mkey:'' @ key"
| "principal_id (RunPrincipal run) = run_principal_id (rn_run run)"

fun scope_source :: "principal \<Rightarrow> string" where
  "scope_source (KeyPrincipal _ _ email) = ''user:'' @ js_lower email"
| "scope_source p = principal_id p"

definition caller_scope_prefix :: string where "caller_scope_prefix = ''cli-proxy-api:caller-scope:v1'' @ [CHR 0x00]"

definition caller_scope :: "(string \<Rightarrow> string) \<Rightarrow> string \<Rightarrow> string \<Rightarrow> string" where
  "caller_scope sha v org =
     (let trimmed = js_trim v
      in if trimmed = [] then []
         else sha (caller_scope_prefix @ (if org = global_org then trimmed else ''org:'' @ org @ [CHR 0x00] @ trimmed)))"

definition is_shared_agent_run :: "principal \<Rightarrow> bool" where
  "is_shared_agent_run p = (case p of RunPrincipal run \<Rightarrow> rn_acts_as run = ActsAsAgent | _ \<Rightarrow> False)"

record usage_run =
  ur_agent :: string
  ur_run :: string
  ur_starter :: "string option"
  ur_private :: bool

definition usage_run_of :: "principal \<Rightarrow> usage_run option" where
  "usage_run_of p =
     (case p of
        RunPrincipal run \<Rightarrow>
          Some \<lparr>ur_agent = rn_agent run, ur_run = rn_run run, ur_starter = map_option (\<lambda>(kind, i). kind @ '':'' @ i) (rn_starter run),
            ur_private = (rn_acts_as run \<noteq> ActsAsAgent)\<rparr>
      | _ \<Rightarrow> None)"

definition run_identity :: "(string \<Rightarrow> string) \<Rightarrow> run_principal \<Rightarrow> string \<Rightarrow> identity" where
  "run_identity sha run org =
     (let i = principal_id (RunPrincipal run)
      in \<lparr>id_principal = RunPrincipal run, id_principal_id = i, id_caller_scope = caller_scope sha i org, id_org = org,
          id_platform_admin = False, id_role = None,
          id_member = (case rn_acts_as run of ActsAsMember member _ \<Rightarrow> Some member | ActsAsAgent \<Rightarrow> None)\<rparr>)"

definition make_identity :: "(string \<Rightarrow> string) \<Rightarrow> principal \<Rightarrow> string \<Rightarrow> bool \<Rightarrow> (org_role \<times> string option) option \<Rightarrow> identity" where
  "make_identity sha p org platform_admin membership =
     \<lparr>id_principal = p, id_principal_id = principal_id p, id_caller_scope = caller_scope sha (scope_source p) org, id_org = org,
      id_platform_admin = platform_admin, id_role = (if platform_admin then Some RoleOwner else map_option fst membership),
      id_member = (case membership of None \<Rightarrow> None | Some (_, member) \<Rightarrow> member)\<rparr>"

subsection \<open>The deployment\<close>

record auth_env =
  ae_mode :: "string option"
  ae_team_domain :: "string option"
  ae_aud :: "string option"
  ae_admin_emails :: "string option"
  ae_admin_tokens :: "string option"
  ae_dev_bypass :: "string option"

definition or_empty :: "string option \<Rightarrow> string" where
  "or_empty v = (case v of None \<Rightarrow> [] | Some s \<Rightarrow> s)"

definition is_hosted :: "auth_env \<Rightarrow> bool" where
  "is_hosted env \<longleftrightarrow> js_lower (js_trim (or_empty (ae_mode env))) = ''cloud''"

text \<open>\<open>splitList\<close> splits at runs of spaces and commas and drops what is empty.\<close>

definition split_list :: "string option \<Rightarrow> string list" where
  "split_list v =
     filter (\<lambda>s. s \<noteq> []) (map js_trim (split_on (CHR '','') (map (\<lambda>c. if is_ws c then CHR '','' else c) (or_empty v))))"

definition strip_scheme :: "string \<Rightarrow> string" where
  "strip_scheme s =
     (if starts_with s ''https://'' then drop 8 s else if starts_with s ''http://'' then drop 7 s else s)"

definition team_edge :: "char \<Rightarrow> bool" where "team_edge c \<longleftrightarrow> c \<in> set ''abcdefghijklmnopqrstuvwxyz0123456789''"

definition is_team_host :: "string \<Rightarrow> bool" where
  "is_team_host s \<longleftrightarrow> s \<noteq> [] \<and> team_edge (hd s) \<and> team_edge (last s) \<and> list_all (\<lambda>c. team_edge c \<or> c \<in> {CHR ''.'', CHR ''-''}) s"

definition normalize_team_host :: "string \<Rightarrow> string option" where
  "normalize_team_host raw =
     (let host = rev (dropWhile (\<lambda>c. c = CHR ''/'') (rev (strip_scheme (js_lower (js_trim raw)))))
      in if host = [] \<or> \<not> is_team_host host then None
         else Some (if CHR ''.'' \<in> set host then host else host @ ''.cloudflareaccess.com''))"

record admin_lists =
  al_emails :: "string list"
  al_tokens :: "string list"

definition platform_admin_lists :: "auth_env \<Rightarrow> admin_lists" where
  "platform_admin_lists env = \<lparr>al_emails = map js_lower (split_list (ae_admin_emails env)), al_tokens = split_list (ae_admin_tokens env)\<rparr>"

record access_config = admin_lists +
  ac_issuer :: string
  ac_jwks_url :: string
  ac_audiences :: "string list"

datatype access_error = UnauthorizedError string | ForbiddenError string | NotFoundError string | InternalError string | ConfigurationError string

definition load_access_config :: "auth_env \<Rightarrow> access_error + access_config" where
  "load_access_config env =
     (case normalize_team_host (or_empty (ae_team_domain env)) of
        None \<Rightarrow> Inl (ConfigurationError ''ACCESS_TEAM_DOMAIN is missing or invalid'')
      | Some host \<Rightarrow>
          if split_list (ae_aud env) = [] then Inl (ConfigurationError ''ACCESS_AUD is missing'')
          else Inr \<lparr>al_emails = al_emails (platform_admin_lists env), al_tokens = al_tokens (platform_admin_lists env),
                 ac_issuer = ''https://'' @ host, ac_jwks_url = ''https://'' @ host @ ''/cdn-cgi/access/certs'',
                 ac_audiences = split_list (ae_aud env)\<rparr>)"

fun is_admin :: "'a admin_lists_scheme \<Rightarrow> principal \<Rightarrow> bool" where
  "is_admin l (UserPrincipal email _) \<longleftrightarrow> js_lower email \<in> set (al_emails l)"
| "is_admin l (ServicePrincipal name) \<longleftrightarrow> name \<in> set (al_tokens l)"
| "is_admin l _ = False"

definition is_deployed_stage :: "auth_env \<Rightarrow> bool" where
  "is_deployed_stage env \<longleftrightarrow> js_trim (or_empty (ae_team_domain env)) \<noteq> [] \<or> js_trim (or_empty (ae_aud env)) \<noteq> [] \<or> is_hosted env"

datatype dev_bypass = BypassUnset | BypassRefused | BypassActive string

text \<open>\<open>hostname\<close> is the host name of the request's URL, \<^const>\<open>None\<close> where it does not parse.\<close>

definition dev_bypass_of :: "auth_env \<Rightarrow> string option \<Rightarrow> dev_bypass" where
  "dev_bypass_of env hostname =
     (let v = js_trim (or_empty (ae_dev_bypass env))
      in if v = [] then BypassUnset
         else if is_deployed_stage env then BypassRefused
         else (case hostname of
                 None \<Rightarrow> BypassUnset
               | Some host \<Rightarrow>
                   if \<not> is_loopback_host host then BypassUnset
                   else BypassActive (if js_lower v \<in> {''1'', ''true'', ''yes''} then ''dev@localhost'' else v)))"

subsection \<open>Standing\<close>

definition standing_ttl_ms :: ms where "standing_ttl_ms = 30000"

definition max_standings :: nat where "max_standings = 4096"

datatype org_state = OrgActive | OrgSuspended | OrgMissing

record standing_answer =
  sd_org :: org_state
  sd_person_suspended :: bool

record cached_standing =
  ct_standing :: standing_answer
  ct_until :: ms

text \<open>\<open>ask\<close> is the directory; the cache is passed and returned.\<close>

definition cached_standing_of ::
  "(string \<Rightarrow> string option \<Rightarrow> access_error + standing_answer) \<Rightarrow> string \<Rightarrow> string option \<Rightarrow> ms \<Rightarrow> cached_standing org_cache
     \<Rightarrow> (access_error + standing_answer) \<times> cached_standing org_cache" where
  "cached_standing_of ask org email now cache =
     (let person = (case email of None \<Rightarrow> [] | Some e \<Rightarrow> js_lower e);
          fresh = (case cache_get org person cache of Some c \<Rightarrow> if now < ct_until c then Some (ct_standing c) else None | None \<Rightarrow> None)
      in case fresh of
           Some standing \<Rightarrow> (Inr standing, cache)
         | None \<Rightarrow> (case ask org email of
                      Inl e \<Rightarrow> (Inl e, cache)
                    | Inr standing \<Rightarrow> (Inr standing, cache_set (Some max_standings) org person \<lparr>ct_standing = standing, ct_until = now + standing_ttl_ms\<rparr> cache)))"

definition forget_standing :: "string option \<Rightarrow> string option \<Rightarrow> cached_standing org_cache \<Rightarrow> cached_standing org_cache" where
  "forget_standing email org cache = cache_delete_where (\<lambda>o1 e _. org = Some o1 \<or> map_option js_lower email = Some e) cache"

definition suspended_error :: access_error where "suspended_error = ForbiddenError ''Suspended''"

definition good_standing :: "standing_answer \<Rightarrow> access_error + standing_answer" where
  "good_standing s = (if sd_org s = OrgSuspended \<or> sd_person_suspended s then Inl suspended_error else Inr s)"

subsection \<open>The gates\<close>

text \<open>The claims of an Access token that are texts: \<open>email\<close>, \<open>sub\<close> and \<open>common_name\<close>.\<close>

record jwt_claims =
  jc_email :: "string option"
  jc_sub :: "string option"
  jc_common_name :: "string option"

definition principal_from_claims :: "jwt_claims \<Rightarrow> principal option" where
  "principal_from_claims claims =
     (let email = js_trim (or_empty (jc_email claims)); name = js_trim (or_empty (jc_common_name claims))
      in if email \<noteq> [] then Some (UserPrincipal email (or_empty (jc_sub claims)))
         else if name \<noteq> [] then Some (ServicePrincipal name) else None)"

text \<open>\<open>gs_admit\<close> is the ControlPlane of the org (\<^const>\<open>Inl\<close> the message of a failed call); \<open>gs_verify_jwt\<close> the claims of an Access
  token that verifies; \<open>gs_person\<close> the session of a cookie; \<open>gs_standing\<close> the standing, cached or asked for.\<close>

record gate_services =
  gs_verify_key :: "string \<Rightarrow> access_error + verified_api_key"
  gs_verify_management :: "string \<Rightarrow> access_error + verified_management_key"
  gs_org_by_slug :: "string \<Rightarrow> access_error + string option"
  gs_standing :: "string \<Rightarrow> string option \<Rightarrow> access_error + standing_answer"
  gs_person :: "string \<Rightarrow> access_error + (string \<times> string) option"
  gs_verify_jwt :: "access_config \<Rightarrow> string \<Rightarrow> access_error + jwt_claims"
  gs_admit :: "string \<Rightarrow> principal_ref \<Rightarrow> bool \<Rightarrow> bool \<Rightarrow> string + admission option admitted"
  gs_current_org :: string
  gs_sha :: "string \<Rightarrow> string"

fun bind_access :: "access_error + 'a \<Rightarrow> ('a \<Rightarrow> access_error + 'b) \<Rightarrow> access_error + 'b" where
  "bind_access (Inl e) f = Inl e"
| "bind_access (Inr a) f = f a"

definition verify_access_jwt :: "gate_services \<Rightarrow> access_config \<Rightarrow> string \<Rightarrow> access_error + principal" where
  "verify_access_jwt svc config token =
     bind_access (gs_verify_jwt svc config token) (\<lambda>claims. case principal_from_claims claims of
       None \<Rightarrow> Inl (UnauthorizedError ''Invalid API key'')
     | Some p \<Rightarrow> Inr p)"

fun principal_ref_of :: "principal \<Rightarrow> principal_ref" where
  "principal_ref_of (ServicePrincipal name) = ServiceRef name"
| "principal_ref_of (UserPrincipal email _) = UserRef email"
| "principal_ref_of (KeyPrincipal _ _ email) = UserRef email"
| "principal_ref_of _ = UserRef []"

definition admit_principal ::
  "auth_env \<Rightarrow> gate_services \<Rightarrow> string \<Rightarrow> principal \<Rightarrow> bool \<Rightarrow> bool \<Rightarrow> string + admission option admitted" where
  "admit_principal env svc org p auto_join client =
     gs_admit svc org (principal_ref_of p) (auto_join \<and> \<not> (org = global_org \<and> is_hosted env)) client"

record management_route =
  mu_needs :: route_access
  mu_slug :: "string option"

definition target_org :: "gate_services \<Rightarrow> string option \<Rightarrow> bool \<Rightarrow> access_error + string" where
  "target_org svc slug platform_admin =
     (case slug of
        None \<Rightarrow> Inr (gs_current_org svc)
      | Some s \<Rightarrow> bind_access (gs_org_by_slug svc s) (\<lambda>found. case found of
            Some org \<Rightarrow> Inr org
          | None \<Rightarrow> Inl (if platform_admin then NotFoundError ''Org not found'' else ForbiddenError ''Forbidden'')))"

fun role_suffices :: "org_role option \<Rightarrow> route_access \<Rightarrow> bool" where
  "role_suffices role PlatformRoute = True"
| "role_suffices role (NeedsRole minimum) = role_at_least role minimum"

text \<open>\<open>client\<close>: \<^const>\<open>None\<close> on a management route, whether another credential was sent on the client API.\<close>

definition admitted_identity ::
  "auth_env \<Rightarrow> gate_services \<Rightarrow> principal \<Rightarrow> string \<Rightarrow> bool \<Rightarrow> route_access \<Rightarrow> bool option \<Rightarrow> access_error + identity" where
  "admitted_identity env svc p org platform_admin needs client =
     (case admit_principal env svc org p (\<not> platform_admin) (client \<noteq> None) of
        Inl message \<Rightarrow>
          if \<not> platform_admin \<and> needs \<noteq> PlatformRoute then Inl (InternalError message)
          else Inr (make_identity (gs_sha svc) p org platform_admin None)
      | Inr ApiKeysOnly \<Rightarrow> Inl (UnauthorizedError (if client = Some True then ''Invalid API key'' else ''Missing API key''))
      | Inr (Admitted answer) \<Rightarrow>
          if \<not> platform_admin \<and> \<not> role_suffices (map_option ad_role answer) needs then Inl (ForbiddenError ''Forbidden'')
          else Inr (make_identity (gs_sha svc) p org platform_admin (map_option (\<lambda>a. (ad_role a, ad_member_id a)) answer)))"

definition key_identity :: "gate_services \<Rightarrow> string \<Rightarrow> access_error + identity" where
  "key_identity svc key =
     bind_access (gs_verify_key svc key) (\<lambda>k.
       Inr (make_identity (gs_sha svc) (KeyPrincipal (va_key_id k) (va_member k) (va_email k)) (va_org k) False (Some (va_role k, Some (va_member k)))))"

definition management_key_identity ::
  "gate_services \<Rightarrow> string \<Rightarrow> string option \<Rightarrow> route_access \<Rightarrow> access_error + (identity \<times> verified_management_key)" where
  "management_key_identity svc key slug needs =
     bind_access (gs_verify_management svc key) (\<lambda>k.
     bind_access (case slug of
         None \<Rightarrow> Inr ()
       | Some s \<Rightarrow> bind_access (gs_org_by_slug svc s) (\<lambda>found. if found = Some (vm_org k) then Inr () else Inl (ForbiddenError ''Forbidden''))) (\<lambda>_.
       if \<not> role_suffices (Some (vm_role k)) needs then Inl (ForbiddenError ''Forbidden'')
       else Inr (make_identity (gs_sha svc) (ManagementPrincipal (vm_key_id k) (vm_name k) (vm_owner_email k)) (vm_org k) False (Some (vm_role k, None)), k)))"

definition require_standing :: "gate_services \<Rightarrow> string \<Rightarrow> string option \<Rightarrow> access_error + standing_answer" where
  "require_standing svc org email = bind_access (gs_standing svc org email) good_standing"

definition require_active_person :: "gate_services \<Rightarrow> string \<Rightarrow> access_error + unit" where
  "require_active_person svc email =
     bind_access (gs_standing svc global_org (Some email)) (\<lambda>s. if sd_person_suspended s then Inl suspended_error else Inr ())"

definition hosted_client_gate :: "gate_services \<Rightarrow> (string \<Rightarrow> string option) \<Rightarrow> (string \<Rightarrow> string option) \<Rightarrow> access_error + identity" where
  "hosted_client_gate svc headers query =
     (case presented_credentials headers query of
        (None, any) \<Rightarrow> Inl (UnauthorizedError (if any then ''Invalid API key'' else ''Missing API key''))
      | (Some key, _) \<Rightarrow>
          bind_access (key_identity svc key) (\<lambda>i.
          bind_access (require_standing svc (id_org i) (case id_principal i of KeyPrincipal _ _ email \<Rightarrow> Some email | _ \<Rightarrow> None)) (\<lambda>_. Inr i)))"

definition hosted_management_gate :: "auth_env \<Rightarrow> gate_services \<Rightarrow> (string \<Rightarrow> string option) \<Rightarrow> management_route \<Rightarrow> access_error + identity" where
  "hosted_management_gate env svc headers route =
     (case presented_management_key headers of
        Some key \<Rightarrow>
          bind_access (management_key_identity svc key (mu_slug route) (mu_needs route)) (\<lambda>(i, k).
          bind_access (require_standing svc (vm_org k) (vm_owner_email k)) (\<lambda>_. Inr i))
      | None \<Rightarrow>
          bind_access (case or_empty (headers ''cookie'') of [] \<Rightarrow> Inr None | cookie \<Rightarrow> gs_person svc cookie) (\<lambda>person.
            case person of
              None \<Rightarrow> Inl (UnauthorizedError ''Not signed in'')
            | Some (user_id, email) \<Rightarrow>
                (let platform_admin = email \<in> set (al_emails (platform_admin_lists env))
                 in bind_access (target_org svc (mu_slug route) platform_admin) (\<lambda>org.
                    bind_access (if platform_admin then require_active_person svc email
                                 else bind_access (require_standing svc org (Some email)) (\<lambda>_. Inr ())) (\<lambda>_.
                    admitted_identity env svc (UserPrincipal email (''hosted:'' @ user_id)) org platform_admin (mu_needs route) None)))))"

definition access_gate ::
  "auth_env \<Rightarrow> gate_services \<Rightarrow> (string \<Rightarrow> string option) \<Rightarrow> (string \<Rightarrow> string option) \<Rightarrow> string option \<Rightarrow> management_route option
     \<Rightarrow> access_error + identity" where
  "access_gate env svc headers query hostname route =
     (let slug = (case route of None \<Rightarrow> None | Some r \<Rightarrow> mu_slug r);
          needs = (case route of None \<Rightarrow> NeedsRole RoleMember | Some r \<Rightarrow> mu_needs r);
          credentials = (if route = None then Some (presented_credentials headers query) else None);
          management_key = (if route = None then None else presented_management_key headers)
      in case credentials of
           Some (Some key, _) \<Rightarrow> key_identity svc key
         | _ \<Rightarrow>
           (case management_key of
              Some key \<Rightarrow> bind_access (management_key_identity svc key slug needs) (\<lambda>(i, _). Inr i)
            | None \<Rightarrow>
              (case dev_bypass_of env hostname of
                 BypassActive email \<Rightarrow>
                   bind_access (target_org svc slug True) (\<lambda>org.
                     admitted_identity env svc (UserPrincipal email ''dev-bypass'') org True needs None)
               | _ \<Rightarrow>
                   bind_access (load_access_config env) (\<lambda>config.
                     let jwt = js_trim (or_empty (headers ''cf-access-jwt-assertion''));
                         token = (if jwt \<noteq> [] then jwt else if route = None then js_trim (or_empty (headers ''cf-access-token'')) else [])
                     in if token = [] then Inl (UnauthorizedError ''Missing API key'')
                        else bind_access (verify_access_jwt svc config token) (\<lambda>p.
                          let platform_admin = is_admin config p
                          in bind_access (if route = None then Inr (gs_current_org svc) else target_org svc slug platform_admin) (\<lambda>org.
                             admitted_identity env svc p org platform_admin needs (map_option snd credentials)))))))"

definition authenticate_client ::
  "auth_env \<Rightarrow> gate_services \<Rightarrow> (string \<Rightarrow> string option) \<Rightarrow> (string \<Rightarrow> string option) \<Rightarrow> string option \<Rightarrow> access_error + identity" where
  "authenticate_client env svc headers query hostname =
     (if is_hosted env then hosted_client_gate svc headers query else access_gate env svc headers query hostname None)"

definition authenticate_run :: "auth_env \<Rightarrow> gate_services \<Rightarrow> run_principal \<Rightarrow> string \<Rightarrow> access_error + identity" where
  "authenticate_run env svc run org =
     bind_access (if is_hosted env
       then bind_access (require_standing svc org (rn_starter_email run)) (\<lambda>_.
              case rn_acts_as run of
                ActsAsMember _ email \<Rightarrow>
                  if Some email \<noteq> rn_starter_email run then bind_access (require_standing svc org (Some email)) (\<lambda>_. Inr ()) else Inr ()
              | ActsAsAgent \<Rightarrow> Inr ())
       else Inr ()) (\<lambda>_. Inr (run_identity (gs_sha svc) run org))"

definition authenticate_management ::
  "auth_env \<Rightarrow> gate_services \<Rightarrow> (string \<Rightarrow> string option) \<Rightarrow> (string \<Rightarrow> string option) \<Rightarrow> string option \<Rightarrow> management_route \<Rightarrow> access_error + identity" where
  "authenticate_management env svc headers query hostname route =
     (if is_hosted env then hosted_management_gate env svc headers route else access_gate env svc headers query hostname (Some route))"

subsection \<open>Cross-site requests\<close>

text \<open>\<open>url_host\<close> is the host of a URL, \<^const>\<open>None\<close> where it does not parse.\<close>

record management_target =
  mt_panel_page :: bool
  mt_body_types :: "string list"

datatype cross_site_refusal = CrossSiteRejected | CrossOriginWebSocketRejected | UnsupportedContentType

definition has_foreign_origin :: "(string \<Rightarrow> string option) \<Rightarrow> (string \<Rightarrow> string option) \<Rightarrow> string \<Rightarrow> bool" where
  "has_foreign_origin url_host headers url =
     (let origin = js_trim (or_empty (headers ''origin''))
      in if origin = [] then False
         else (case map_option js_lower (url_host origin) of
                 None \<Rightarrow> True
               | Some host \<Rightarrow> host = [] \<or> Some host \<noteq> map_option js_lower (url_host url)))"

definition header_of :: "(string \<Rightarrow> string option) \<Rightarrow> string \<Rightarrow> string" where
  "header_of headers name = js_lower (js_trim (or_empty (headers name)))"

definition fetched_cross_site :: "(string \<Rightarrow> string option) \<Rightarrow> bool" where
  "fetched_cross_site headers \<longleftrightarrow> header_of headers ''sec-fetch-site'' \<in> {''cross-site'', ''same-site''}"

definition is_web_socket_upgrade :: "(string \<Rightarrow> string option) \<Rightarrow> bool" where
  "is_web_socket_upgrade headers \<longleftrightarrow>
     list_ex (\<lambda>t. js_trim t = ''websocket'') (split_on (CHR '','') (js_lower (or_empty (headers ''upgrade''))))"

definition is_panel_navigation :: "string \<Rightarrow> (string \<Rightarrow> string option) \<Rightarrow> management_target \<Rightarrow> bool" where
  "is_panel_navigation verb headers target \<longleftrightarrow>
     verb \<in> {''GET'', ''HEAD''} \<and> header_of headers ''sec-fetch-mode'' = ''navigate'' \<and> header_of headers ''sec-fetch-dest'' = ''document'' \<and>
     mt_panel_page target"

definition media_type :: "(string \<Rightarrow> string option) \<Rightarrow> string" where
  "media_type headers =
     (case split_on (CHR '';'') (or_empty (headers ''content-type'')) of [] \<Rightarrow> [] | t # _ \<Rightarrow> js_lower (js_trim t))"

definition management_type_allowed :: "string \<Rightarrow> management_target \<Rightarrow> bool" where
  "management_type_allowed t target \<longleftrightarrow> t = ''application/json'' \<or> ends_with t ''+json'' \<or> t \<in> set (mt_body_types target)"

definition has_body :: "(string \<Rightarrow> string option) \<Rightarrow> bool" where
  "has_body headers \<longleftrightarrow>
     js_trim (or_empty (headers ''content-length'')) \<notin> {[], ''0''} \<or> js_trim (or_empty (headers ''transfer-encoding'')) \<noteq> []"

text \<open>\<open>verb\<close> is the method in upper case.\<close>

definition cross_site_rejection ::
  "(string \<Rightarrow> string option) \<Rightarrow> string \<Rightarrow> (string \<Rightarrow> string option) \<Rightarrow> string \<Rightarrow> management_target option \<Rightarrow> cross_site_refusal option" where
  "cross_site_rejection url_host verb headers url management =
     (let foreign = has_foreign_origin url_host headers url; unsafe = (verb \<notin> {''GET'', ''HEAD'', ''OPTIONS''})
      in if is_web_socket_upgrade headers \<and> foreign then Some CrossOriginWebSocketRejected
         else if unsafe \<and> (foreign \<or> fetched_cross_site headers) then Some CrossSiteRejected
         else (case management of
                 None \<Rightarrow> None
               | Some target \<Rightarrow>
                   if foreign \<or> fetched_cross_site headers \<and> \<not> is_panel_navigation verb headers target then Some CrossSiteRejected
                   else if \<not> unsafe then None
                   else (let t = media_type headers
                         in if t = [] then if has_body headers then Some UnsupportedContentType else None
                            else if management_type_allowed t target then None else Some UnsupportedContentType)))"

subsection \<open>What the gates promise\<close>

lemma bind_access_Inr: "bind_access r f = Inr b \<longleftrightarrow> (\<exists>a. r = Inr a \<and> f a = Inr b)"
  by (cases r) simp_all

lemma target_org_found: "target_org svc (Some slug) admin = Inr org \<longleftrightarrow> gs_org_by_slug svc slug = Inr (Some org)"
  by (auto simp: target_org_def bind_access_Inr split: option.splits)

lemma make_identity_fields [simp]:
  "id_principal (make_identity sha p org admin m) = p" "id_org (make_identity sha p org admin m) = org"
  "id_platform_admin (make_identity sha p org admin m) = admin"
  "id_role (make_identity sha p org admin m) = (if admin then Some RoleOwner else map_option fst m)"
  by (simp_all add: make_identity_def)

lemma admitted_identity_ok:
  assumes "admitted_identity env svc p org admin needs client = Inr i"
  shows "id_principal i = p \<and> id_org i = org \<and> id_platform_admin i = admin \<and> (admin \<or> role_suffices (id_role i) needs)"
  using assms by (cases needs) (auto simp: admitted_identity_def option.map_comp comp_def split: sum.splits admitted.splits if_splits)

lemma management_key_identity_ok:
  assumes "management_key_identity svc key slug needs = Inr (i, k)"
  shows "id_principal i = ManagementPrincipal (vm_key_id k) (vm_name k) (vm_owner_email k) \<and> id_org i = vm_org k \<and> \<not> id_platform_admin i \<and>
    role_suffices (id_role i) needs \<and> (\<forall>s. slug = Some s \<longrightarrow> gs_org_by_slug svc s = Inr (Some (id_org i)))"
  using assms by (auto simp: management_key_identity_def bind_access_Inr split: option.splits if_splits)

lemma claims_principal: "verify_access_jwt svc config token = Inr p \<Longrightarrow> principal_kind_of p = UserKind \<or> principal_kind_of p = ServiceKind"
  by (auto simp: verify_access_jwt_def principal_from_claims_def Let_def bind_access_Inr split: option.splits if_splits)

lemma loaded_lists: "load_access_config env = Inr config \<Longrightarrow> is_admin config p = is_admin (platform_admin_lists env) p"
  by (cases p) (auto simp: load_access_config_def split: option.splits if_splits)

lemma access_gate_management:
  assumes "access_gate env svc headers query hostname (Some route) = Inr i"
  obtains (key) k v where "management_key_identity svc k (mu_slug route) (mu_needs route) = Inr (i, v)"
  | (bypass) email org where "dev_bypass_of env hostname = BypassActive email" "target_org svc (mu_slug route) True = Inr org"
      "admitted_identity env svc (UserPrincipal email ''dev-bypass'') org True (mu_needs route) None = Inr i"
  | (jwt) config token p org where "load_access_config env = Inr config" "verify_access_jwt svc config token = Inr p"
      "target_org svc (mu_slug route) (is_admin config p) = Inr org" "admitted_identity env svc p org (is_admin config p) (mu_needs route) None = Inr i"
  using assms that
  by (auto simp: access_gate_def Let_def bind_access_Inr split: option.splits dev_bypass.splits if_splits)

lemma hosted_management:
  assumes "hosted_management_gate env svc headers route = Inr i"
  obtains (key) k v where "management_key_identity svc k (mu_slug route) (mu_needs route) = Inr (i, v)"
      "require_standing svc (vm_org v) (vm_owner_email v) \<in> range Inr"
  | (person) user email org where "target_org svc (mu_slug route) (email \<in> set (al_emails (platform_admin_lists env))) = Inr org"
      "admitted_identity env svc (UserPrincipal email user) org (email \<in> set (al_emails (platform_admin_lists env))) (mu_needs route) None = Inr i"
      "if email \<in> set (al_emails (platform_admin_lists env)) then require_active_person svc email = Inr ()
       else require_standing svc org (Some email) \<in> range Inr"
proof (cases "presented_management_key headers")
  case None
  let ?admin = "\<lambda>email. email \<in> set (al_emails (platform_admin_lists env))"
  obtain user email org where p: "target_org svc (mu_slug route) (?admin email) = Inr org"
      "bind_access (if ?admin email then require_active_person svc email else bind_access (require_standing svc org (Some email)) (\<lambda>_. Inr ()))
         (\<lambda>_. admitted_identity env svc (UserPrincipal email user) org (?admin email) (mu_needs route) None) = Inr i"
    using assms None by (simp add: hosted_management_gate_def Let_def bind_access_Inr del: if_split split: option.splits) blast
  show ?thesis by (rule person [OF p(1)]) (use p(2) in \<open>auto simp: bind_access_Inr split: if_splits\<close>)
qed (use assms key in \<open>auto simp: hosted_management_gate_def bind_access_Inr\<close>)


lemma access_gate_client:
  assumes "access_gate env svc headers query hostname None = Inr i"
  obtains (key) k where "key_identity svc k = Inr i"
  | (bypass) email org where "dev_bypass_of env hostname = BypassActive email"
      "admitted_identity env svc (UserPrincipal email ''dev-bypass'') org True (NeedsRole RoleMember) None = Inr i"
  | (jwt) config token p sent where "load_access_config env = Inr config" "verify_access_jwt svc config token = Inr p"
      "admitted_identity env svc p (gs_current_org svc) (is_admin config p) (NeedsRole RoleMember) sent = Inr i"
  using assms that
  by (auto simp: access_gate_def Let_def bind_access_Inr split: option.splits dev_bypass.splits if_splits prod.splits)

lemma key_identity_ok:
  "key_identity svc k = Inr i \<Longrightarrow> \<not> id_platform_admin i \<and> principal_kind_of (id_principal i) = KeyKind"
  by (auto simp: key_identity_def bind_access_Inr)

lemma listed_email: "email \<in> set (al_emails (platform_admin_lists env)) \<Longrightarrow> js_lower email = email"
  by (auto simp: platform_admin_lists_def js_lower_idem)

text \<open>Only who the deployment names is a platform admin: an identity with the rights of one is a person or service token of its
  lists, or the local bypass, which a deployed stage refuses; no key and no agent run is ever one.
\<close>

theorem platform_admins_are_listed:
  assumes "authenticate_client env svc headers query hostname = Inr i \<or> authenticate_management env svc headers query hostname route = Inr i \<or>
      authenticate_run env svc run org = Inr i"
    and "id_platform_admin i"
  shows "is_admin (platform_admin_lists env) (id_principal i) \<or>
    (\<exists>email. id_principal i = UserPrincipal email ''dev-bypass'' \<and> dev_bypass_of env hostname = BypassActive email \<and> \<not> is_deployed_stage env)"
proof -
  have bypass: "dev_bypass_of env hostname = BypassActive email \<Longrightarrow> \<not> is_deployed_stage env" for email
    by (auto simp: dev_bypass_of_def Let_def split: if_splits)
  consider (client) "is_hosted env" "hosted_client_gate svc headers query = Inr i" | (hosted) "is_hosted env" "hosted_management_gate env svc headers route = Inr i"
    | (access) "access_gate env svc headers query hostname None = Inr i" | (management) "access_gate env svc headers query hostname (Some route) = Inr i"
    | (run) "authenticate_run env svc run org = Inr i"
    using assms(1) by (auto simp: authenticate_client_def authenticate_management_def split: if_splits)
  then show ?thesis
  proof cases
    case client
    then have "\<exists>k. key_identity svc k = Inr i" by (auto simp: hosted_client_gate_def bind_access_Inr split: option.splits prod.splits)
    then show ?thesis using key_identity_ok assms(2) by blast
  next
    case hosted
    from hosted(2) show ?thesis
    proof (cases rule: hosted_management)
      case (key k v)
      then show ?thesis using management_key_identity_ok [OF key(1)] assms(2) by simp
    next
      case (person user email org)
      then show ?thesis using admitted_identity_ok [OF person(2)] assms(2) listed_email by auto
    qed
  next
    case access
    then show ?thesis
    proof (cases rule: access_gate_client)
      case (key k)
      then show ?thesis using key_identity_ok assms(2) by blast
    next
      case (bypass email org)
      then show ?thesis using admitted_identity_ok [OF bypass(2)] \<open>\<And>email. dev_bypass_of env hostname = BypassActive email \<Longrightarrow> \<not> is_deployed_stage env\<close> by blast
    next
      case (jwt config token p sent)
      then show ?thesis using admitted_identity_ok [OF jwt(3)] loaded_lists [OF jwt(1)] assms(2) by auto
    qed
  next
    case management
    then show ?thesis
    proof (cases rule: access_gate_management)
      case (key k v)
      then show ?thesis using management_key_identity_ok [OF key] assms(2) by simp
    next
      case (bypass email org)
      then show ?thesis using admitted_identity_ok [OF bypass(3)] \<open>\<And>email. dev_bypass_of env hostname = BypassActive email \<Longrightarrow> \<not> is_deployed_stage env\<close> by blast
    next
      case (jwt config token p org)
      then show ?thesis using admitted_identity_ok [OF jwt(4)] loaded_lists [OF jwt(1)] assms(2) by auto
    qed
  next
    case run
    then show ?thesis using assms(2) by (auto simp: authenticate_run_def run_identity_def Let_def bind_access_Inr)
  qed
qed

text \<open>The person behind a principal, if there is one.\<close>

fun person_of_principal :: "principal \<Rightarrow> string option" where
  "person_of_principal (UserPrincipal email _) = Some email"
| "person_of_principal (KeyPrincipal _ _ email) = Some email"
| "person_of_principal (ManagementPrincipal _ _ owner) = owner"
| "person_of_principal (RunPrincipal run) = rn_starter_email run"
| "person_of_principal (ServicePrincipal _) = None"

lemma standing_required: "require_standing svc org email \<in> range Inr \<longleftrightarrow> (\<exists>s. gs_standing svc org email = Inr s \<and> sd_org s \<noteq> OrgSuspended \<and> \<not> sd_person_suspended s)"
  by (cases "gs_standing svc org email") (auto simp: require_standing_def good_standing_def)

text \<open>Commissary Cloud turns the suspended away: whoever gets through, on the client API, the management API or as a run, the person
  behind the principal is not suspended, nor is the org unless a platform admin looks at it.
\<close>

theorem suspended_are_turned_away:
  assumes "is_hosted env"
    and "authenticate_client env svc headers query hostname = Inr i \<or> authenticate_management env svc headers query hostname route = Inr i \<or>
      authenticate_run env svc run org = Inr i"
  shows "\<exists>s. gs_standing svc (if id_platform_admin i then global_org else id_org i) (person_of_principal (id_principal i)) = Inr s \<and>
    \<not> sd_person_suspended s \<and> (id_platform_admin i \<or> sd_org s \<noteq> OrgSuspended)"
proof -
  consider (client) "hosted_client_gate svc headers query = Inr i" | (hosted) "hosted_management_gate env svc headers route = Inr i"
    | (run) "authenticate_run env svc run org = Inr i"
    using assms by (auto simp: authenticate_client_def authenticate_management_def)
  then show ?thesis
  proof cases
    case client
    then obtain k where k: "key_identity svc k = Inr i"
        "require_standing svc (id_org i) (case id_principal i of KeyPrincipal _ _ email \<Rightarrow> Some email | _ \<Rightarrow> None) \<in> range Inr"
      by (auto simp: hosted_client_gate_def bind_access_Inr split: option.splits prod.splits)
    then show ?thesis unfolding standing_required by (auto simp: key_identity_def bind_access_Inr)
  next
    case hosted
    then show ?thesis
    proof (cases rule: hosted_management)
      case (key k v)
      then show ?thesis using management_key_identity_ok [OF key(1)] unfolding standing_required by auto
    next
      case (person user email org)
      have active: "require_active_person svc email = Inr () \<Longrightarrow> \<exists>s. gs_standing svc global_org (Some email) = Inr s \<and> \<not> sd_person_suspended s"
        by (auto simp: require_active_person_def bind_access_Inr split: if_splits)
      show ?thesis using admitted_identity_ok [OF person(2)] person(3) active unfolding standing_required by (auto split: if_splits)
    qed
  next
    case run
    then have "require_standing svc org (rn_starter_email run) \<in> range Inr" "i = run_identity (gs_sha svc) run org"
      using assms(1) by (auto simp: authenticate_run_def bind_access_Inr)
    then show ?thesis unfolding standing_required by (auto simp: run_identity_def Let_def)
  qed
qed

subsection \<open>Caller scopes\<close>

lemma js_trim_first: "\<not> is_ws c \<Longrightarrow> \<exists>t. js_trim (c # s) = c # t"
proof -
  assume c: "\<not> is_ws c"
  have "\<exists>t. dropWhile is_ws (xs @ [c]) = t @ [c]" for xs by (induction xs) (simp_all add: c)
  from this [of "rev s"] obtain t where "dropWhile is_ws (rev s @ [c]) = t @ [c]" by blast
  then show ?thesis using c by (simp add: js_trim_def)
qed

lemma scope_source_first: "\<exists>c t. js_trim (scope_source p) = c # t \<and> c \<noteq> CHR ''o''"
proof -
  obtain c s where s: "scope_source p = c # s" "c \<in> {CHR ''u'', CHR ''s'', CHR ''m'', CHR ''r''}"
    by (cases p) (simp_all add: run_principal_id_def)
  have "\<not> is_ws c" using s(2) by (auto simp: is_ws_def)
  then show ?thesis using js_trim_first [of c s] s by auto
qed

text \<open>Callers never share session state: where the scopes of two principals, each in an org, are the same, they are in the same org
  and the same caller up to spaces at the ends (a member's API keys share the member's scope), unless SHA-256 collides.
\<close>

theorem caller_scopes_are_isolated:
  assumes "is_org_id org1" "is_org_id org2" "caller_scope sha (scope_source p1) org1 = caller_scope sha (scope_source p2) org2"
  shows "org1 = org2 \<and> js_trim (scope_source p1) = js_trim (scope_source p2) \<or> (\<exists>x y. x \<noteq> y \<and> sha x = sha y)"
proof -
  obtain c t d u where first: "js_trim (scope_source p1) = c # t" "c \<noteq> CHR ''o''" "js_trim (scope_source p2) = d # u" "d \<noteq> CHR ''o''"
    using scope_source_first [of p1] scope_source_first [of p2] by blast
  let ?text = "\<lambda>org s. if org = global_org then s else ''org:'' @ org @ [CHR 0x00] @ s"
  have same: "?text org1 (c # t) = ?text org2 (d # u) \<Longrightarrow> org1 = org2 \<and> c # t = d # u"
  proof (cases "org1 = global_org \<or> org2 = global_org")
    case True
    assume "?text org1 (c # t) = ?text org2 (d # u)"
    then show ?thesis using True first(2,4) by (cases "org1 = global_org"; cases "org2 = global_org") simp_all
  next
    case False
    assume "?text org1 (c # t) = ?text org2 (d # u)"
    then have "org1 @ CHR 0x00 # c # t = org2 @ CHR 0x00 # d # u" using False by simp
    then show ?thesis using free_prefix [OF org_id_no_nul [OF assms(1)] org_id_no_nul [OF assms(2)]] by blast
  qed
  have scope: "caller_scope sha (scope_source p) org = sha (caller_scope_prefix @ ?text org (e # v))"
    if "js_trim (scope_source p) = e # v" for p org e v
    using that by (simp add: caller_scope_def Let_def)
  define x where "x = caller_scope_prefix @ ?text org1 (c # t)"
  define y where "y = caller_scope_prefix @ ?text org2 (d # u)"
  have "sha x = sha y" using assms(3) unfolding scope [OF first(1)] scope [OF first(3)] x_def y_def .
  moreover have "x = y \<Longrightarrow> org1 = org2 \<and> c # t = d # u" unfolding x_def y_def by (rule same) (rule same_append_eq [THEN iffD1])
  ultimately show ?thesis unfolding first(1,3) by blast
qed

lemma cross_site_requests:
  "cross_site_rejection url_host verb headers url management = None \<Longrightarrow>
   (verb \<notin> {''GET'', ''HEAD'', ''OPTIONS''} \<longrightarrow> \<not> has_foreign_origin url_host headers url \<and> \<not> fetched_cross_site headers) \<and>
   (\<forall>target. management = Some target \<longrightarrow> \<not> has_foreign_origin url_host headers url \<and>
      (verb \<notin> {''GET'', ''HEAD'', ''OPTIONS''} \<and> has_body headers \<longrightarrow> management_type_allowed (media_type headers) target))"
  by (auto simp: cross_site_rejection_def Let_def split: option.splits if_splits)

subsection \<open>Requests\<close>

text \<open>Services that know one admin of the org \<open>acme\<close>; the session cookie is the email of a person.\<close>

definition sample_services :: gate_services where
  "sample_services = \<lparr>gs_verify_key = (\<lambda>_. Inr \<lparr>va_org = ''acme'', va_key_id = ''k'', va_member = ''mem-1'', va_email = ''ann@x.org'', va_role = RoleMember\<rparr>),
     gs_verify_management = (\<lambda>_. Inl (UnauthorizedError ''Invalid API key'')),
     gs_org_by_slug = (\<lambda>slug. Inr (if slug = ''acme-inc'' then Some ''acme'' else None)),
     gs_standing = (\<lambda>_ _. Inr \<lparr>sd_org = OrgActive, sd_person_suspended = False\<rparr>),
     gs_person = (\<lambda>cookie. Inr (Some (''u1'', cookie))),
     gs_verify_jwt = (\<lambda>_ _. Inl (UnauthorizedError ''Invalid API key'')),
     gs_admit = (\<lambda>_ _ _ _. Inr (Admitted (Some \<lparr>ad_role = RoleAdmin, ad_member_id = Some ''mem-1'', ad_joined = False, ad_index_stale = False\<rparr>))),
     gs_current_org = ''global'', gs_sha = (\<lambda>s. s)\<rparr>"

definition sample_cloud :: auth_env where
  "sample_cloud = \<lparr>ae_mode = Some ''cloud'', ae_team_domain = None, ae_aud = None, ae_admin_emails = Some ''Root@x.org, ops@x.org'',
     ae_admin_tokens = None, ae_dev_bypass = None\<rparr>"

definition sample_route :: management_route where
  "sample_route = \<lparr>mu_needs = NeedsRole RoleAdmin, mu_slug = Some ''acme-inc''\<rparr>"

abbreviation signed_in :: "string \<Rightarrow> string \<Rightarrow> string option" where
  "signed_in email \<equiv> (\<lambda>name. if name = ''cookie'' then Some email else None)"

definition sample_identity :: "string \<Rightarrow> access_error + identity" where
  "sample_identity email = authenticate_management sample_cloud sample_services (signed_in email) (\<lambda>_. None) None sample_route"

lemma sample_identities:
  "sample_identity ''ann@x.org'' = Inr (make_identity (\<lambda>s. s) (UserPrincipal ''ann@x.org'' ''hosted:u1'') ''acme'' False (Some (RoleAdmin, Some ''mem-1'')))"
  "sample_identity ''root@x.org'' = Inr (make_identity (\<lambda>s. s) (UserPrincipal ''root@x.org'' ''hosted:u1'') ''acme'' True (Some (RoleAdmin, Some ''mem-1'')))"
  by code_simp+


theorem platform_admins_are_listed_witness:
  "\<exists>i. sample_identity ''root@x.org'' = Inr i \<and> id_platform_admin i \<and> is_admin (platform_admin_lists sample_cloud) (id_principal i)"
proof -
  have "id_platform_admin (make_identity (\<lambda>s. s) (UserPrincipal ''root@x.org'' ''hosted:u1'') ''acme'' True (Some (RoleAdmin, Some ''mem-1'')))" by simp
  from platform_admins_are_listed [OF disjI2 [OF disjI1 [OF sample_identities(2) [unfolded sample_identity_def]]] this]
  show ?thesis using sample_identities(2) by (auto simp: is_deployed_stage_def is_hosted_def sample_cloud_def or_empty_def js_defs Let_def)
qed

theorem suspended_are_turned_away_witness:
  "\<exists>i s. sample_identity ''ann@x.org'' = Inr i \<and>
     gs_standing sample_services (if id_platform_admin i then global_org else id_org i) (person_of_principal (id_principal i)) = Inr s \<and> \<not> sd_person_suspended s"
proof -
  have "is_hosted sample_cloud" by code_simp
  from suspended_are_turned_away [OF this disjI2 [OF disjI1 [OF sample_identities(1) [unfolded sample_identity_def]]]]
  show ?thesis using sample_identities(1) by blast
qed

theorem caller_scopes_are_isolated_witness:
  "caller_scope (\<lambda>s. s) (scope_source (KeyPrincipal ''k'' ''mem-1'' ''Ann@x.org'')) ''acme'' = caller_scope (\<lambda>s. s) (scope_source (UserPrincipal ''ann@x.org'' [])) ''acme'' \<and>
   js_trim (scope_source (KeyPrincipal ''k'' ''mem-1'' ''Ann@x.org'')) = js_trim (scope_source (UserPrincipal ''ann@x.org'' []))"
proof -
  have org: "is_org_id ''acme''" by code_simp
  have same: "caller_scope (\<lambda>s. s) (scope_source (KeyPrincipal ''k'' ''mem-1'' ''Ann@x.org'')) ''acme'' = caller_scope (\<lambda>s. s) (scope_source (UserPrincipal ''ann@x.org'' [])) ''acme''"
    by code_simp
  then show ?thesis using caller_scopes_are_isolated [OF org org same] by blast
qed

end
