(* ===== verification/Spend_Service.thy ===== *)
theory Spend_Service
  imports Spend_Invariant
begin

text \<open>
  What the management API does with Spend limits (\<open>packages/state/src/spend/service.ts\<close>): who may write which limit and what
  each viewer sees. What the service asks of the org (\<open>SpendDirectory\<close>) is a record of lists, the calendar, the clock, a
  fresh id and \<open>localeCompare\<close> are arguments; the texts of refusals are left out.
\<close>

record spend_viewer =
  sv_member :: "string option"
  sv_admin :: bool

record spend_key =
  pk_id :: string
  pk_member :: string
  pk_name :: string
  pk_prefix :: string
  pk_revoked_at :: "ms option"

record spend_credential =
  pc_kind :: subject_kind
  pc_id :: string
  pc_public_id :: string
  pc_label :: string

record spend_directory =
  sd_members :: "(string \<times> string \<times> string list) list"
  sd_teams :: "(string \<times> string) list"
  sd_keys :: "spend_key list"
  sd_credentials :: "spend_credential list"
  sd_agents :: "(string \<times> string) list"

datatype service_error = StoreRefused spend_error | ServiceForbidden | SubjectNotFound

record spend_entry =
  se_id :: string
  se_kind :: subject_kind
  se_subject :: string
  se_label :: string
  se_period :: period
  se_amount :: int
  se_source :: limit_source
  se_revision :: int
  se_created_at :: ms
  se_updated_at :: ms
  se_updated_by :: string
  se_spent :: int
  se_period_start :: ms
  se_resets_at :: ms
  se_editable :: bool

datatype service_result = EntryOk spend_entry | EntryRefused service_error | EntryThrown

text \<open>\<open>new Map(list)\<close>: the last pair of a key counts.\<close>

definition map_from :: "('a \<times> 'b) list \<Rightarrow> 'a \<Rightarrow> 'b option" where
  "map_from xs = map_of (rev xs)"

definition key_owner :: "spend_directory \<Rightarrow> string \<Rightarrow> string option" where
  "key_owner d = map_from (map (\<lambda>k. (pk_id k, pk_member k)) (sd_keys d))"

fun kind_order :: "subject_kind \<Rightarrow> int" where
  "kind_order KOrg = 0"
| "kind_order KTeam = 1"
| "kind_order KMember = 2"
| "kind_order KKey = 3"
| "kind_order KCredential = 4"
| "kind_order KToolkitCredential = 5"
| "kind_order KAgent = 6"

fun period_index :: "period \<Rightarrow> int" where
  "period_index Day = 0"
| "period_index Week = 1"
| "period_index Month = 2"

fun source_name :: "limit_source \<Rightarrow> string" where
  "source_name ByAdmin = ''admin''"
| "source_name ByMember = ''member''"

subsection \<open>Labels\<close>

definition credential_of :: "spend_directory \<Rightarrow> subject_kind \<Rightarrow> string \<Rightarrow> spend_credential option" where
  "credential_of d kind i = map_from (map (\<lambda>c. ((pc_kind c, pc_id c), c)) (sd_credentials d)) (kind, i)"

definition label_of :: "spend_directory \<Rightarrow> spend_limit \<Rightarrow> string option" where
  "label_of d l =
     (case sl_kind l of
        KOrg \<Rightarrow> Some ''Whole org''
      | KMember \<Rightarrow> map_from (map (\<lambda>(i, email, _). (i, email)) (sd_members d)) (sl_subject l)
      | KTeam \<Rightarrow> map_from (sd_teams d) (sl_subject l)
      | KKey \<Rightarrow> map_from (map (\<lambda>k. (pk_id k, pk_name k @ '' ('' @ pk_prefix k @ '')'')) (sd_keys d)) (sl_subject l)
      | KAgent \<Rightarrow> map_from (sd_agents d) (sl_subject l)
      | kind \<Rightarrow> map_option pc_label (credential_of d kind (sl_subject l)))"

definition public_subject :: "spend_directory \<Rightarrow> spend_limit \<Rightarrow> string" where
  "public_subject d l =
     (if sl_kind l \<in> {KCredential, KToolkitCredential}
      then (case credential_of d (sl_kind l) (sl_subject l) of None \<Rightarrow> [] | Some c \<Rightarrow> pc_public_id c)
      else sl_subject l)"

subsection \<open>Who may do what\<close>

definition may_write :: "spend_directory \<Rightarrow> spend_viewer \<Rightarrow> spend_limit \<Rightarrow> bool" where
  "may_write d v l \<longleftrightarrow>
     sv_admin v \<or> sl_kind l = KKey \<and> sl_source l = ByMember \<and> key_owner d (sl_subject l) = sv_member v"

definition visible :: "spend_directory \<Rightarrow> string option \<Rightarrow> string list \<Rightarrow> spend_limit \<Rightarrow> bool" where
  "visible d member teams l =
     (case sl_kind l of
        KOrg \<Rightarrow> True
      | KMember \<Rightarrow> member \<noteq> None \<and> Some (sl_subject l) = member
      | KTeam \<Rightarrow> sl_subject l \<in> set teams
      | KKey \<Rightarrow> member \<noteq> None \<and> key_owner d (sl_subject l) = member
      | _ \<Rightarrow> False)"

definition teams_of_viewer :: "spend_directory \<Rightarrow> spend_viewer \<Rightarrow> string list" where
  "teams_of_viewer d v =
     (case sv_member v of
        None \<Rightarrow> []
      | Some m \<Rightarrow> (case find (\<lambda>(i, _). i = m) (sd_members d) of None \<Rightarrow> [] | Some (_, _, teams) \<Rightarrow> teams))"

definition listed :: "spend_directory \<Rightarrow> spend_viewer \<Rightarrow> spend_limit \<Rightarrow> bool" where
  "listed d v l \<longleftrightarrow> label_of d l \<noteq> None \<and> (sv_admin v \<or> visible d (sv_member v) (teams_of_viewer d v) l)"

subsection \<open>The overview\<close>

definition entry_for :: "calendar \<Rightarrow> spend_settings \<Rightarrow> spend_directory \<Rightarrow> spend_viewer \<Rightarrow> ms \<Rightarrow> spend_store \<Rightarrow> spend_limit \<Rightarrow> spend_entry" where
  "entry_for cal settings d v now s l =
     (let bounds = cal (sl_period l) now (st_time_zone settings) (st_week_start settings)
      in \<lparr>se_id = sl_id l, se_kind = sl_kind l, se_subject = public_subject d l, se_label = (case label_of d l of None \<Rightarrow> [] | Some t \<Rightarrow> t),
          se_period = sl_period l, se_amount = sl_amount l, se_source = sl_source l, se_revision = sl_revision l,
          se_created_at = sl_created_at l, se_updated_at = sl_updated_at l, se_updated_by = sl_updated_by l,
          se_spent = store_spent (scope_of l) (sl_period l) (pb_start bounds) s, se_period_start = pb_start bounds,
          se_resets_at = pb_end bounds, se_editable = may_write d v l\<rparr>)"

definition compare_entries :: "(string \<Rightarrow> string \<Rightarrow> int) \<Rightarrow> spend_entry \<Rightarrow> spend_entry \<Rightarrow> int" where
  "compare_entries locale a b =
     (let kinds = kind_order (se_kind a) - kind_order (se_kind b); labels = locale (se_label a) (se_label b);
          periods = period_index (se_period a) - period_index (se_period b)
      in if kinds \<noteq> 0 then kinds else if labels \<noteq> 0 then labels else if periods \<noteq> 0 then periods
         else locale (source_name (se_source a)) (source_name (se_source b)))"

text \<open>\<open>sort\<close> is stable: an entry goes after those that do not compare greater.\<close>

fun insert_entry :: "('a \<Rightarrow> 'a \<Rightarrow> int) \<Rightarrow> 'a \<Rightarrow> 'a list \<Rightarrow> 'a list" where
  "insert_entry cmp x [] = [x]"
| "insert_entry cmp x (y # ys) = (if cmp y x \<le> 0 then y # insert_entry cmp x ys else x # y # ys)"

definition sort_entries :: "('a \<Rightarrow> 'a \<Rightarrow> int) \<Rightarrow> 'a list \<Rightarrow> 'a list" where
  "sort_entries cmp xs = foldl (\<lambda>ys x. insert_entry cmp x ys) [] xs"

record spend_world =
  sw_calendar :: calendar
  sw_zone :: "string \<Rightarrow> bool"
  sw_locale :: "string \<Rightarrow> string \<Rightarrow> int"
  sw_directory :: spend_directory
  sw_now :: ms

definition overview :: "spend_world \<Rightarrow> spend_viewer \<Rightarrow> spend_store \<Rightarrow> spend_entry list" where
  "overview w v s =
     sort_entries (compare_entries (sw_locale w))
       (map (entry_for (sw_calendar w) (store_settings (sw_zone w) s) (sw_directory w) v (sw_now w) s)
         (filter (listed (sw_directory w) v) (store_limits s)))"

definition written_entry :: "spend_world \<Rightarrow> spend_viewer \<Rightarrow> spend_limit spend_result \<times> spend_store \<Rightarrow> service_result \<times> spend_store" where
  "written_entry w v written =
     (case written of
        (SpendOk l, s) \<Rightarrow>
          ((case find (\<lambda>e. se_id e = sl_id l) (overview w v s) of None \<Rightarrow> EntryRefused (StoreRefused SpendNotFound) | Some e \<Rightarrow> EntryOk e), s)
      | (SpendRefused e, s) \<Rightarrow> (EntryRefused (StoreRefused e), s)
      | (SpendThrown, s) \<Rightarrow> (EntryThrown, s))"

subsection \<open>Writes\<close>

record service_input =
  in_kind :: subject_kind
  in_subject :: string
  in_period :: period
  in_amount :: rat

text \<open>The stored subject, or why there is none.\<close>

definition subject_for :: "spend_directory \<Rightarrow> service_input \<Rightarrow> service_error + string" where
  "subject_for d input =
     (let subject = in_subject input in
      case in_kind input of
        KCredential \<Rightarrow> (case find (\<lambda>c. pc_kind c = KCredential \<and> pc_public_id c = subject) (sd_credentials d) of None \<Rightarrow> Inl SubjectNotFound | Some c \<Rightarrow> Inr (pc_id c))
      | KToolkitCredential \<Rightarrow>
          (case find (\<lambda>c. pc_kind c = KToolkitCredential \<and> pc_public_id c = subject) (sd_credentials d) of None \<Rightarrow> Inl SubjectNotFound | Some c \<Rightarrow> Inr (pc_id c))
      | KMember \<Rightarrow> if list_ex (\<lambda>(i, _). i = subject) (sd_members d) then Inr subject else Inl SubjectNotFound
      | KTeam \<Rightarrow> if list_ex (\<lambda>(i, _). i = subject) (sd_teams d) then Inr subject else Inl SubjectNotFound
      | KAgent \<Rightarrow> if list_ex (\<lambda>(i, _). i = subject) (sd_agents d) then Inr subject else Inl SubjectNotFound
      | KKey \<Rightarrow> (case map_from (map (\<lambda>k. (pk_id k, pk_revoked_at k)) (sd_keys d)) subject of
                   Some None \<Rightarrow> Inr subject
                 | _ \<Rightarrow> Inl SubjectNotFound)
      | KOrg \<Rightarrow> if subject \<noteq> org_subject then Inl (StoreRefused SpendInvalid) else Inr subject)"

definition service_create :: "spend_world \<Rightarrow> spend_viewer \<Rightarrow> service_input \<Rightarrow> string \<Rightarrow> string \<Rightarrow> spend_store \<Rightarrow> service_result \<times> spend_store" where
  "service_create w v input by_id fresh s =
     (let d = sw_directory w;
          own = (in_kind input = KKey \<and> key_owner d (in_subject input) \<noteq> None \<and> key_owner d (in_subject input) = sv_member v)
      in if \<not> sv_admin v \<and> \<not> own then (EntryRefused ServiceForbidden, s)
         else (case subject_for d input of
                 Inl e \<Rightarrow> (EntryRefused e, s)
               | Inr subject \<Rightarrow>
                   written_entry w v (create_limit
                     \<lparr>nl_kind = kind_name (in_kind input), nl_subject = subject, nl_period = period_name (in_period input),
                      nl_amount = in_amount input, nl_source = (if sv_admin v then ''admin'' else ''member'')\<rparr>
                     by_id (sw_now w) fresh s)))"

definition may_change :: "spend_world \<Rightarrow> spend_viewer \<Rightarrow> string \<Rightarrow> spend_store \<Rightarrow> bool" where
  "may_change w v i s = (case find_limit i s of None \<Rightarrow> True | Some l \<Rightarrow> may_write (sw_directory w) v l)"

definition service_update :: "spend_world \<Rightarrow> spend_viewer \<Rightarrow> string \<Rightarrow> int \<Rightarrow> rat \<Rightarrow> string \<Rightarrow> spend_store \<Rightarrow> service_result \<times> spend_store" where
  "service_update w v i revision amount by_id s =
     (if \<not> may_change w v i s then (EntryRefused ServiceForbidden, s)
      else written_entry w v (update_limit i revision amount by_id (sw_now w) s))"

definition gone_entry :: "ms \<Rightarrow> spend_limit \<Rightarrow> spend_entry" where
  "gone_entry now l =
     \<lparr>se_id = sl_id l, se_kind = sl_kind l, se_subject = sl_subject l, se_label = [], se_period = sl_period l, se_amount = sl_amount l,
      se_source = sl_source l, se_revision = sl_revision l, se_created_at = sl_created_at l, se_updated_at = sl_updated_at l,
      se_updated_by = sl_updated_by l, se_spent = 0, se_period_start = now, se_resets_at = now, se_editable = True\<rparr>"

definition service_remove :: "spend_world \<Rightarrow> spend_viewer \<Rightarrow> string \<Rightarrow> int \<Rightarrow> spend_store \<Rightarrow> service_result \<times> spend_store" where
  "service_remove w v i revision s =
     (if \<not> may_change w v i s then (EntryRefused ServiceForbidden, s)
      else (case remove_limit i revision s of
              (SpendOk l, s1) \<Rightarrow>
                (EntryOk (case find (\<lambda>e. se_id e = i) (overview w v s) of Some before \<Rightarrow> before | None \<Rightarrow> gone_entry (sw_now w) l), s1)
            | (SpendRefused e, s1) \<Rightarrow> (EntryRefused (StoreRefused e), s1)
            | (SpendThrown, s1) \<Rightarrow> (EntryThrown, s1)))"

datatype service_call =
  ServiceCreate service_input string string
| ServiceUpdate string int rat string
| ServiceRemove string int

fun service_run :: "spend_world \<Rightarrow> spend_viewer \<Rightarrow> service_call \<Rightarrow> spend_store \<Rightarrow> service_result \<times> spend_store" where
  "service_run w v (ServiceCreate input by_id fresh) s = service_create w v input by_id fresh s"
| "service_run w v (ServiceUpdate i revision amount by_id) s = service_update w v i revision amount by_id s"
| "service_run w v (ServiceRemove i revision) s = service_remove w v i revision s"

subsection \<open>What a plain member sees and writes\<close>

lemma set_insert_entry [simp]: "set (insert_entry cmp x ys) = insert x (set ys)"
  by (induction ys) auto

lemma set_sort_entries [simp]: "set (sort_entries cmp xs) = set xs"
  unfolding sort_entries_def by (induction xs rule: rev_induct) simp_all

lemma entry_for_fields [simp]:
  "se_id (entry_for cal settings d v now s l) = sl_id l" "se_kind (entry_for cal settings d v now s l) = sl_kind l"
  "se_source (entry_for cal settings d v now s l) = sl_source l" "se_editable (entry_for cal settings d v now s l) = may_write d v l"
  by (simp_all add: entry_for_def Let_def)

text \<open>The limits a viewer owns: a member's own limits on their API keys.\<close>

definition own_limit :: "spend_directory \<Rightarrow> spend_viewer \<Rightarrow> spend_limit \<Rightarrow> bool" where
  "own_limit d v l \<longleftrightarrow> sl_kind l = KKey \<and> sl_source l = ByMember \<and> key_owner d (sl_subject l) = sv_member v"

lemma written_entry_store [simp]: "snd (written_entry w v (r, s)) = s"
  by (cases r) (simp_all add: written_entry_def)

lemma written_entry_snd: "snd (written_entry w v written) = snd written"
  by (cases written) simp

lemma written_entry_stored: "written_entry w v written = (r, s1) \<Longrightarrow> s1 = snd written"
  by (metis written_entry_snd snd_conv)

lemma filter_map_same: "(\<And>x. x \<in> set xs \<Longrightarrow> f x \<noteq> x \<Longrightarrow> \<not> P x \<and> \<not> P (f x)) \<Longrightarrow> filter P (map f xs) = filter P xs"
  by (induction xs) (simp_all, metis)

text \<open>A non-admin may write a limit that is there only where it is theirs.\<close>

lemma may_change_own:
  "\<not> sv_admin v \<Longrightarrow> store_ok s \<Longrightarrow> may_change w v i s \<Longrightarrow> find_limit i s = Some l \<Longrightarrow>
   own_limit (sw_directory w) v l \<and> (\<forall>m \<in> set (ss_limits s). sl_id m = i \<longrightarrow> m = l)"
  by (auto simp: may_change_def may_write_def own_limit_def store_ok_def find_limit_iff limits_ok_def distinct_map inj_on_def)

text \<open>C5. A plain member writes their own limits only: whatever they create, change or remove, every limit that is not one of their
  own on their own API keys stays as it was, and so do the counters of every subject that is no key of theirs.
\<close>

theorem members_write_their_limits_only:
  assumes "\<not> sv_admin v" "store_ok s" "service_run w v call s = (r, s1)"
  shows "filter (\<lambda>l. \<not> own_limit (sw_directory w) v l) (ss_limits s1) = filter (\<lambda>l. \<not> own_limit (sw_directory w) v l) (ss_limits s) \<and>
    (\<forall>scope period start. \<not> (ss_kind scope = KKey \<and> key_owner (sw_directory w) (ss_subject scope) = sv_member v) \<longrightarrow>
       store_spent scope period start s1 = store_spent scope period start s)"
proof (cases call)
  case (ServiceCreate input by_id fresh)
  show ?thesis
  proof (cases "in_kind input = KKey \<and> key_owner (sw_directory w) (in_subject input) = sv_member v \<and>
      subject_for (sw_directory w) input = Inr (in_subject input)")
    case True
    let ?new = "\<lparr>nl_kind = kind_name KKey, nl_subject = in_subject input, nl_period = period_name (in_period input),
                      nl_amount = in_amount input, nl_source = ''member''\<rparr>"
    have "s1 = s \<or> s1 = snd (create_limit ?new by_id (sw_now w) fresh s)"
      using assms(1,3) ServiceCreate True by (auto simp: service_create_def Let_def dest!: written_entry_stored split: if_splits)
    moreover have "kind_of (kind_name KKey) = Some KKey" "source_of ''member'' = Some ByMember" by code_simp+
    ultimately show ?thesis
      by (cases rule: create_limit_cases [of ?new by_id "sw_now w" fresh s])
        (use True in \<open>auto simp: own_limit_def insert_limit_def store_spent_def split: if_splits\<close>)
  next
    case False
    have "s1 = s" using assms(1,3) ServiceCreate False
      by (auto simp: service_create_def Let_def subject_for_def split: if_splits option.splits sum.splits)
    then show ?thesis by simp
  qed
next
  case (ServiceUpdate i revision amount by_id)
  have run: "s1 = s \<or> may_change w v i s \<and> s1 = snd (update_limit i revision amount by_id (sw_now w) s)"
    using assms(3) ServiceUpdate by (auto simp: service_update_def dest!: written_entry_stored split: if_splits)
  show ?thesis
  proof (cases rule: update_limit_cases [of i revision amount by_id "sw_now w" s])
    case (updated l s2)
    have "filter (\<lambda>l. \<not> own_limit (sw_directory w) v l) (ss_limits s2) = filter (\<lambda>l. \<not> own_limit (sw_directory w) v l) (ss_limits s)"
      if "may_change w v i s"
      unfolding updated(5) using may_change_own [OF assms(1,2) that updated(1)]
      by (auto intro!: filter_map_same simp: own_limit_def split: if_splits)
    then show ?thesis using run updated(5,6) by (auto simp: store_spent_def)
  qed (use run in auto)
next
  case (ServiceRemove i revision)
  have run: "s1 = s \<or> may_change w v i s \<and> s1 = snd (remove_limit i revision s)"
    using assms(3) ServiceRemove by (auto simp: service_remove_def split: if_splits prod.splits spend_result.splits)
  show ?thesis
  proof (cases "find_limit i s")
    case None
    then show ?thesis using run by (auto simp: remove_limit_def)
  next
    case (Some l)
    have own: "own_limit (sw_directory w) v l" "\<forall>m \<in> set (ss_limits s). sl_id m = i \<longrightarrow> m = l" if "may_change w v i s"
      using may_change_own [OF assms(1,2) that Some] by blast+
    have limits: "filter (\<lambda>l. \<not> own_limit (sw_directory w) v l) (filter (\<lambda>m. sl_id m \<noteq> i) (ss_limits s)) =
        filter (\<lambda>l. \<not> own_limit (sw_directory w) v l) (ss_limits s)" if "may_change w v i s"
      using own [OF that] by (auto intro: filter_cong)
    have counters: "store_spent scope period start (drop_counters (\<lambda>sc p _. sc = scope_of l \<and> p = sl_period l) s2) = store_spent scope period start s"
      if "scope \<noteq> scope_of l" "ss_counters s2 = ss_counters s" for scope period start s2
    proof -
      have "distinct_keys (ss_counters s)" using assms(2) by (simp add: store_ok_def counters_ok_def)
      then have "map_of (filter (\<lambda>((sc, p, start), _). \<not> (sc = scope_of l \<and> p = sl_period l)) (ss_counters s)) (scope, period, start) =
          map_of (ss_counters s) (scope, period, start)"
        using that(1) by (subst map_of_filter_distinct) (auto split: option.split)
      then show ?thesis using that(2) by (simp add: store_spent_def)
    qed
    have scope: "scope \<noteq> scope_of l" if "may_change w v i s" "\<not> (ss_kind scope = KKey \<and> key_owner (sw_directory w) (ss_subject scope) = sv_member v)" for scope
      using own(1) [OF that(1)] that(2) by (auto simp: own_limit_def scope_of_def)
    show ?thesis using run limits counters scope Some
      by (auto simp: remove_limit_def Let_def store_spent_def split: if_splits)
  qed
qed

lemma overview_lists:
  "e \<in> set (overview w v s) \<longleftrightarrow>
   (\<exists>l \<in> set (ss_limits s). listed (sw_directory w) v l \<and>
      e = entry_for (sw_calendar w) (store_settings (sw_zone w) s) (sw_directory w) v (sw_now w) s l)"
  by (auto simp: overview_def)

text \<open>What a plain member sees binds them: the org, their teams, themselves or one of their keys.\<close>

lemma members_see_what_binds_them:
  "\<not> sv_admin v \<Longrightarrow> e \<in> set (overview w v s) \<Longrightarrow>
   \<exists>l \<in> set (ss_limits s). se_id e = sl_id l \<and> (se_editable e \<longleftrightarrow> own_limit (sw_directory w) v l) \<and>
     (sl_kind l = KOrg \<or> sl_kind l = KMember \<and> sv_member v = Some (sl_subject l) \<or>
      sl_kind l = KTeam \<and> sl_subject l \<in> set (teams_of_viewer (sw_directory w) v) \<or>
      sl_kind l = KKey \<and> sv_member v \<noteq> None \<and> key_owner (sw_directory w) (sl_subject l) = sv_member v)"
  unfolding overview_lists
  by (elim bexE conjE, rule bexI) (auto simp: listed_def visible_def may_write_def own_limit_def split: subject_kind.splits)

definition sample_spend_world :: spend_world where
  "sample_spend_world = \<lparr>sw_calendar = utc_calendar, sw_zone = (\<lambda>_. True), sw_locale = (\<lambda>_ _. 0),
     sw_directory = \<lparr>sd_members = [(''mem-1'', ''ann@x.org'', [])], sd_teams = [],
       sd_keys = [\<lparr>pk_id = ''k1'', pk_member = ''mem-1'', pk_name = ''laptop'', pk_prefix = ''cms_x'', pk_revoked_at = None\<rparr>],
       sd_credentials = [], sd_agents = []\<rparr>, sw_now = 10\<rparr>"

definition sample_spend_limits :: spend_store where
  "sample_spend_limits = empty_store\<lparr>ss_limits := [\<lparr>sl_id = ''l1'', sl_kind = KKey, sl_subject = ''k1'', sl_period = Day, sl_amount = 50,
     sl_source = ByAdmin, sl_revision = 1, sl_created_at = 1, sl_updated_at = 1, sl_updated_by = ''root''\<rparr>]\<rparr>"

abbreviation sample_member :: spend_viewer where
  "sample_member \<equiv> \<lparr>sv_member = Some ''mem-1'', sv_admin = False\<rparr>"

abbreviation sample_service_call :: service_call where
  "sample_service_call \<equiv> ServiceCreate \<lparr>in_kind = KKey, in_subject = ''k1'', in_period = Day, in_amount = 20\<rparr> ''ann'' ''l2''"

theorem members_write_their_limits_only_witness:
  "\<exists>r s1. service_run sample_spend_world sample_member sample_service_call sample_spend_limits = (r, s1) \<and> length (ss_limits s1) = 2 \<and>
     filter (\<lambda>l. \<not> own_limit (sw_directory sample_spend_world) sample_member l) (ss_limits s1) = ss_limits sample_spend_limits"
proof -
  obtain r s1 where run: "service_run sample_spend_world sample_member sample_service_call sample_spend_limits = (r, s1)" by (metis prod.exhaust)
  have ok: "store_ok sample_spend_limits"
    by (simp add: store_ok_def sample_spend_limits_def limits_ok_def counters_ok_def max_amount_micros_def empty_store_def)
  have "length (ss_limits (snd (service_run sample_spend_world sample_member sample_service_call sample_spend_limits))) = 2" by code_simp
  moreover have "filter (\<lambda>l. \<not> own_limit (sw_directory sample_spend_world) sample_member l) (ss_limits sample_spend_limits) = ss_limits sample_spend_limits"
    by (simp add: sample_spend_limits_def own_limit_def)
  moreover have "\<not> sv_admin sample_member" by simp
  ultimately show ?thesis using members_write_their_limits_only [OF _ ok run] run by auto
qed

end
