(* ===== verification/Canonical_Json.thy ===== *)
theory Canonical_Json
  imports Json
begin

text \<open>
  JSON texts of a value: \<open>JSON.stringify\<close> without white space, and the canonical form whose SHA-256 names a tool
  call's arguments (\<open>packages/tools/src/approvals/hash.ts\<close>). The text of a number is an argument: a number is the
  rational its text writes, and which text ECMAScript chooses for a double is not modelled. \<open>prints_numbers\<close> says that
  the text chosen reads back as the number.

  \<open>json_parse_text\<close> is the round trip of \<open>JSON.stringify\<close> and \<open>JSON.parse\<close>; through it two values have the same
  canonical form only where they differ in nothing but the order of object keys.
\<close>

subsection \<open>JSON.stringify\<close>

definition hex_digit_of :: "nat \<Rightarrow> char" where
  "hex_digit_of n = (if n < 10 then char_of (48 + n) else char_of (87 + n))"

definition escape_char :: "char \<Rightarrow> string" where
  "escape_char c =
     (if c = CHR 0x22 then [CHR 0x5C, CHR 0x22]
      else if c = CHR 0x5C then [CHR 0x5C, CHR 0x5C]
      else if c = CHR 0x08 then [CHR 0x5C, CHR ''b'']
      else if c = CHR 0x0C then [CHR 0x5C, CHR ''f'']
      else if c = CHR 0x0A then [CHR 0x5C, CHR ''n'']
      else if c = CHR 0x0D then [CHR 0x5C, CHR ''r'']
      else if c = CHR 0x09 then [CHR 0x5C, CHR ''t'']
      else (let n = (of_char c :: nat) in
        if n < 32 then [CHR 0x5C, CHR ''u'', CHR ''0'', CHR ''0'', hex_digit_of (n div 16), hex_digit_of (n mod 16)]
        else [c]))"

definition quote_text :: "string \<Rightarrow> string" where
  "quote_text s = [CHR 0x22] @ concat (map escape_char s) @ [CHR 0x22]"

lemma size_member_list: "v \<in> set vs \<Longrightarrow> size v < Suc (size_list size vs)" for v :: json
  by (induction vs) auto

lemma size_member_object: "(k, v) \<in> set m \<Longrightarrow> size v < Suc (size_list (size_prod (\<lambda>x. 0) size) m)" for v :: json
  by (induction m) auto

fun json_text :: "(rat \<Rightarrow> string) \<Rightarrow> json \<Rightarrow> string" where
  "json_text nt JNull = ''null''"
| "json_text nt (JBool b) = (if b then ''true'' else ''false'')"
| "json_text nt (JNum q) = nt q"
| "json_text nt (JStr s) = quote_text s"
| "json_text nt (JArr vs) = ''['' @ join_with '','' (map (json_text nt) vs) @ '']''"
| "json_text nt (JObj m) = ''{'' @ join_with '','' (map (\<lambda>(k, v). quote_text k @ '':'' @ json_text nt v) m) @ ''}''"

function canonical_json :: "(rat \<Rightarrow> string) \<Rightarrow> json \<Rightarrow> string" where
  "canonical_json nt JNull = json_text nt JNull"
| "canonical_json nt (JBool b) = json_text nt (JBool b)"
| "canonical_json nt (JNum q) = json_text nt (JNum q)"
| "canonical_json nt (JStr s) = json_text nt (JStr s)"
| "canonical_json nt (JArr vs) = ''['' @ join_with '','' (map (canonical_json nt) vs) @ '']''"
| "canonical_json nt (JObj m) =
     ''{'' @ join_with '','' (map (\<lambda>(k, v). quote_text k @ '':'' @ canonical_json nt v) (sort_key fst m)) @ ''}''"
  by pat_completeness auto
termination
  by (relation "measure (\<lambda>(nt, v). size v)") (auto dest: size_member_list size_member_object)

definition arguments_json :: "json_object option \<Rightarrow> json" where
  "arguments_json args = JObj (case args of None \<Rightarrow> [] | Some m \<Rightarrow> m)"

definition arguments_hash :: "(rat \<Rightarrow> string) \<Rightarrow> (string \<Rightarrow> string) \<Rightarrow> json_object option \<Rightarrow> string" where
  "arguments_hash nt sha args = sha (canonical_json nt (arguments_json args))"

text \<open>The value with the keys of every object in order.\<close>

function sort_json :: "json \<Rightarrow> json" where
  "sort_json JNull = JNull"
| "sort_json (JBool b) = JBool b"
| "sort_json (JNum q) = JNum q"
| "sort_json (JStr s) = JStr s"
| "sort_json (JArr vs) = JArr (map sort_json vs)"
| "sort_json (JObj m) = JObj (map (\<lambda>(k, v). (k, sort_json v)) (sort_key fst m))"
  by pat_completeness auto
termination
  by (relation "measure size") (auto dest: size_member_list size_member_object)

lemma canonical_json_text: "canonical_json nt v = json_text nt (sort_json v)"
  by (induction nt v rule: canonical_json.induct)
    (auto simp: case_prod_unfold comp_def intro!: arg_cong [where f = "join_with _"] map_cong)


subsection \<open>A text reads back\<close>

text \<open>What a value and its text must be: no object has a key twice, and the text of each number reads back.\<close>

fun json_ok :: "(rat \<Rightarrow> string) \<Rightarrow> json \<Rightarrow> bool" where
  "json_ok nt (JNum q) \<longleftrightarrow> parse_number (nt q) = Some (q, [])"
| "json_ok nt (JArr vs) \<longleftrightarrow> (\<forall>v \<in> set vs. json_ok nt v)"
| "json_ok nt (JObj m) \<longleftrightarrow> distinct_keys m \<and> (\<forall>(k, v) \<in> set m. json_ok nt v)"
| "json_ok nt _ \<longleftrightarrow> True"

definition ends_value :: "string \<Rightarrow> bool" where
  "ends_value r \<longleftrightarrow> r = [] \<or> hd r \<in> {CHR '','', CHR '']'', CHR ''}''}"

lemma hex_val_digit: "d < 16 \<Longrightarrow> hex_val (hex_digit_of d) = Some d"
  by (auto simp: hex_val_def hex_digit_of_def Let_def)

lemma code_unit_of_char: "code_unit (of_char c) = c"
proof -
  have "(of_char c :: nat) < 256" by (rule nat_of_char_less_256)
  then show ?thesis by (simp add: code_unit_def)
qed

lemma parse_escaped_char: "parse_chars (escape_char c @ s) = map_option (\<lambda>(w, r). (c # w, r)) (parse_chars s)"
proof (cases "c \<in> {CHR 0x22, CHR 0x5C, CHR 0x08, CHR 0x0C, CHR 0x0A, CHR 0x0D, CHR 0x09}")
  case True
  then show ?thesis by (auto simp: escape_char_def simple_escape_def)
next
  case False
  define n where "n = (of_char c :: nat)"
  have z: "hex_val (CHR ''0'') = Some 0" by (simp add: hex_val_def)
  show ?thesis
  proof (cases "n < 32")
    case True
    from True have h: "hex_val (hex_digit_of (n div 16)) = Some (n div 16)"
      "hex_val (hex_digit_of (n mod 16)) = Some (n mod 16)" by (auto intro: hex_val_digit)
    have "(n div 16) * 16 + n mod 16 = n" by simp
    with h z True False show ?thesis
      by (simp add: escape_char_def n_def [symmetric] Let_def) (simp add: n_def code_unit_of_char)
  next
    case False
    with \<open>c \<notin> _\<close> show ?thesis by (simp add: escape_char_def n_def Let_def)
  qed
qed

lemma parse_quoted: "parse_chars (concat (map escape_char s) @ CHR 0x22 # r) = Some (s, r)"
  by (induction s) (simp_all add: parse_escaped_char)

text \<open>What follows a number's text does not change how it reads.\<close>

lemma ends_value_no_number: "ends_value r \<Longrightarrow> takeWhile is_digit r = [] \<and> dropWhile is_digit r = r"
  by (cases r) (auto simp: ends_value_def is_digit_def)

lemma takeWhile_digits_append:
  assumes "ends_value r"
  shows "takeWhile is_digit (s @ r) = takeWhile is_digit s" "dropWhile is_digit (s @ r) = dropWhile is_digit s @ r"
  using ends_value_no_number [OF assms] by (induction s) auto

lemma parse_frac_append: "ends_value r \<Longrightarrow> parse_frac s = Some (f, u) \<Longrightarrow> parse_frac (s @ r) = Some (f, u @ r)"
  by (cases s) (auto simp: parse_frac_def takeWhile_digits_append ends_value_def hd_Cons_tl split: list.splits if_splits)

lemma parse_exp_append: "ends_value r \<Longrightarrow> parse_exp s = Some (e, []) \<Longrightarrow> parse_exp (s @ r) = Some (e, r)"
proof (cases s)
  case Nil
  assume "ends_value r" "parse_exp s = Some (e, [])"
  with Nil show ?thesis by (cases r) (auto simp: parse_exp_def ends_value_def)
next
  case (Cons c t)
  assume r: "ends_value r" and e: "parse_exp s = Some (e, [])"
  show ?thesis
  proof (cases t)
    case Nil
    with Cons e show ?thesis by (auto simp: parse_exp_def split: if_splits)
  next
    case (Cons d u)
    with \<open>s = c # t\<close> e r takeWhile_digits_append [OF r, of "d # u"] takeWhile_digits_append [OF r, of u] show ?thesis
      by (auto simp: parse_exp_def Let_def split: if_splits list.splits)
  qed
qed

lemma parse_number_append:
  assumes r: "ends_value r" and q: "parse_number s = Some (q, [])"
  shows "parse_number (s @ r) = Some (q, r)"
proof -
  from q have "s \<noteq> []" by (auto simp: parse_number_def)
  then obtain c t where s: "s = c # t" by (cases s) auto
  define sg where "sg = (if c = CHR ''-'' then - 1 else 1 :: int)"
  define b where "b = (if c = CHR ''-'' then t else s)"
  have split: "(case s @ r' of x # y \<Rightarrow> if x = CHR ''-'' then (- 1, y) else (1 :: int, s @ r') | [] \<Rightarrow> (1, s @ r')) = (sg, b @ r')" for r'
    by (simp add: s sg_def b_def)
  from q obtain fs v e where ds: "takeWhile is_digit b \<noteq> []"
      "\<not> (hd (takeWhile is_digit b) = CHR ''0'' \<and> length (takeWhile is_digit b) > 1)"
    and f: "parse_frac (dropWhile is_digit b) = Some (fs, v)" and e: "parse_exp v = Some (e, [])"
    and val: "q = rat_of_int (sg * digits_val (takeWhile is_digit b @ fs)) * pow10 (e - int (length fs))"
    using split [of "[]"] unfolding append_Nil2 parse_number_def Let_def
    by (auto split: if_splits option.splits)
  show ?thesis
    unfolding parse_number_def split Let_def case_prod_conv
    using ds val parse_frac_append [OF r f] parse_exp_append [OF r e] by (simp add: takeWhile_digits_append [OF r])
qed

text \<open>A number's text starts with a minus or a digit, so it is read as a number.\<close>

lemma parse_number_start: "parse_number s = Some p \<Longrightarrow> \<exists>c t. s = c # t \<and> (c = CHR ''-'' \<or> is_digit c)"
  by (cases s) (auto simp: parse_number_def Let_def split: if_splits)

lemma number_is_value:
  assumes "ends_value r" and "parse_number s = Some (q, [])"
  shows "parse_value (Suc n) (s @ r) = Some (JNum q, r)"
proof -
  obtain c t where s: "s = c # t" and c: "c = CHR ''-'' \<or> is_digit c" using parse_number_start [OF assms(2)] by blast
  from c have "\<not> json_ws c" by (auto simp: json_ws_def is_digit_def Let_def)
  then have w: "skip_ws (c # t @ r) = c # t @ r" by (simp add: skip_ws_def)
  from c have o: "c \<noteq> CHR ''{'' \<and> c \<noteq> CHR ''['' \<and> c \<noteq> CHR 0x22 \<and> c \<noteq> CHR ''t'' \<and> c \<noteq> CHR ''f'' \<and> c \<noteq> CHR ''n''"
    by (auto simp: is_digit_def)
  show ?thesis using parse_number_append [OF assms] o by (simp add: s w)
qed

text \<open>A text that is not white space at its start, so that the parser reads it where it stands.\<close>

lemma skip_no_ws: "\<not> json_ws c \<Longrightarrow> skip_ws (c # s) = c # s"
  by (simp add: skip_ws_def)

lemma json_ws_marks [simp]:
  "\<not> json_ws (CHR ''{'')" "\<not> json_ws (CHR ''}'')" "\<not> json_ws (CHR ''['')" "\<not> json_ws (CHR '']'')"
  "\<not> json_ws (CHR 0x22)" "\<not> json_ws (CHR '','')" "\<not> json_ws (CHR '':'')" "\<not> json_ws (CHR ''t'')"
  "\<not> json_ws (CHR ''f'')" "\<not> json_ws (CHR ''n'')"
  by (auto simp: json_ws_def)

lemma text_start:
  assumes "json_ok nt v"
  shows "json_text nt v \<noteq> [] \<and> \<not> json_ws (hd (json_text nt v)) \<and> hd (json_text nt v) \<noteq> CHR '']''"
proof (cases v)
  case (JNum q)
  from assms have "parse_number (nt q) = Some (q, [])" by (simp add: JNum)
  from parse_number_start [OF this] obtain c t where t: "nt q = c # t" and c: "c = CHR ''-'' \<or> is_digit c" by blast
  from c have "\<not> json_ws c \<and> c \<noteq> CHR '']''" by (auto simp: json_ws_def is_digit_def Let_def)
  with t show ?thesis by (simp add: JNum)
qed (simp_all add: quote_text_def)

definition reads_back :: "(rat \<Rightarrow> string) \<Rightarrow> json \<Rightarrow> nat \<Rightarrow> bool" where
  "reads_back nt v n \<longleftrightarrow> (\<forall>m r. n \<le> m \<longrightarrow> ends_value r \<longrightarrow> parse_value m (json_text nt v @ r) = Some (v, r))"

lemma reads_back_mono: "reads_back nt v n \<Longrightarrow> n \<le> n' \<Longrightarrow> reads_back nt v n'"
  by (auto simp: reads_back_def)

lemma common_fuel: "\<forall>v \<in> set vs. \<exists>n. reads_back nt v n \<Longrightarrow> \<exists>n. \<forall>v \<in> set vs. reads_back nt v n"
proof (induction vs)
  case (Cons v vs)
  then obtain n n' where "reads_back nt v n" "\<forall>v \<in> set vs. reads_back nt v n'" by auto
  then have "\<forall>w \<in> set (v # vs). reads_back nt w (max n n')" by (auto intro: reads_back_mono)
  then show ?case by blast
qed simp

lemma elements_read_back:
  assumes "\<forall>v \<in> set vs. reads_back nt v n" and "vs \<noteq> []" and "n + length vs \<le> m"
  shows "parse_elements m (join_with '','' (map (json_text nt) vs) @ CHR '']'' # r) = Some (vs, r)"
  using assms
proof (induction vs arbitrary: m)
  case (Cons v vs)
  then obtain k where m: "m = Suc k" and k: "n + length vs \<le> k" by (cases m) auto
  show ?case
  proof (cases vs)
    case Nil
    from Cons.prems(1) k have "parse_value k (json_text nt v @ CHR '']'' # r) = Some (v, CHR '']'' # r)"
      by (auto simp: reads_back_def ends_value_def)
    then show ?thesis by (simp add: m Nil skip_no_ws)
  next
    case (Cons w ws)
    let ?t = "join_with '','' (map (json_text nt) vs) @ CHR '']'' # r"
    from Cons.prems(1) k have "parse_value k (json_text nt v @ CHR '','' # ?t) = Some (v, CHR '','' # ?t)"
      by (auto simp: reads_back_def ends_value_def)
    moreover from Cons.IH [of k] Cons.prems(1) k Cons have "parse_elements k ?t = Some (vs, r)" by simp
    ultimately show ?thesis by (simp add: m Cons skip_no_ws)
  qed
qed simp

lemma update_new_key: "k \<notin> fst ` set m \<Longrightarrow> AList.update k v m = m @ [(k, v)]"
  by (induction m) auto

lemma members_read_back:
  assumes "\<forall>(k, v) \<in> set ms. reads_back nt v n" and "ms \<noteq> []" and "n + length ms \<le> m" and "distinct_keys (acc @ ms)"
  shows "parse_members m acc
    (join_with '','' (map (\<lambda>(k, v). quote_text k @ '':'' @ json_text nt v) ms) @ CHR ''}'' # r) = Some (acc @ ms, r)"
  using assms
proof (induction ms arbitrary: m acc)
  case (Cons p ms)
  obtain k v where p: "p = (k, v)" by force
  from Cons.prems obtain j where m: "m = Suc j" and j: "n + length ms \<le> j" by (cases m) auto
  from Cons.prems(4) have u: "AList.update k v acc = acc @ [(k, v)]"
    by (intro update_new_key) (auto simp: p distinct_keys_def)
  have key: "parse_chars (concat (map escape_char k) @ CHR 0x22 # s) = Some (k, s)" for s by (rule parse_quoted)
  show ?case
  proof (cases ms)
    case Nil
    from Cons.prems(1) j have "parse_value j (json_text nt v @ CHR ''}'' # r) = Some (v, CHR ''}'' # r)"
      by (auto simp: p reads_back_def ends_value_def)
    then show ?thesis by (simp add: m p Nil u quote_text_def skip_no_ws key)
  next
    case (Cons q qs)
    let ?t = "join_with '','' (map (\<lambda>(k, v). quote_text k @ '':'' @ json_text nt v) ms) @ CHR ''}'' # r"
    from Cons.prems(1) j have "parse_value j (json_text nt v @ CHR '','' # ?t) = Some (v, CHR '','' # ?t)"
      by (auto simp: p reads_back_def ends_value_def)
    moreover from Cons.IH [of j "acc @ [(k, v)]"] Cons.prems j Cons p have "parse_members j (acc @ [(k, v)]) ?t = Some (acc @ p # ms, r)"
      by simp
    ultimately show ?thesis by (simp add: m p Cons u quote_text_def skip_no_ws key)
  qed
qed simp

lemma join_start: "\<exists>u. join_with sep (x # xs) = x @ u"
  by (cases xs) auto

lemma array_reads_back:
  assumes "\<forall>v \<in> set vs. reads_back nt v n" and "\<forall>v \<in> set vs. json_ok nt v"
  shows "reads_back nt (JArr vs) (Suc (n + length vs))"
  unfolding reads_back_def
proof (intro allI impI)
  fix m r
  assume "Suc (n + length vs) \<le> m"
  then obtain k where m: "m = Suc k" and k: "n + length vs \<le> k" by (cases m) auto
  show "parse_value m (json_text nt (JArr vs) @ r) = Some (JArr vs, r)"
  proof (cases vs)
    case Nil
    then show ?thesis by (simp add: m skip_no_ws)
  next
    case (Cons v ws)
    let ?t = "join_with '','' (map (json_text nt) vs) @ CHR '']'' # r"
    obtain u where "join_with '','' (map (json_text nt) vs) = json_text nt v @ u"
      using join_start [of "'',''" "json_text nt v" "map (json_text nt) ws"] by (auto simp: Cons)
    moreover have "json_text nt v \<noteq> [] \<and> \<not> json_ws (hd (json_text nt v)) \<and> hd (json_text nt v) \<noteq> CHR '']''"
      using assms(2) Cons by (intro text_start) simp
    ultimately obtain c t where t: "?t = c # t" "\<not> json_ws c" "c \<noteq> CHR '']''" by (cases "json_text nt v") auto
    have "parse_elements k ?t = Some (vs, r)" using assms(1) k Cons by (intro elements_read_back) auto
    then show ?thesis by (simp add: m skip_no_ws t)
  qed
qed

lemma object_reads_back:
  assumes "\<forall>(k, v) \<in> set ms. reads_back nt v n" and "distinct_keys ms"
  shows "reads_back nt (JObj ms) (Suc (n + length ms))"
  unfolding reads_back_def
proof (intro allI impI)
  fix m r
  assume "Suc (n + length ms) \<le> m"
  then obtain k where m: "m = Suc k" and k: "n + length ms \<le> k" by (cases m) auto
  show "parse_value m (json_text nt (JObj ms) @ r) = Some (JObj ms, r)"
  proof (cases ms)
    case Nil
    then show ?thesis by (simp add: m skip_no_ws)
  next
    case (Cons p qs)
    let ?j = "join_with '','' (map (\<lambda>(k, v). quote_text k @ '':'' @ json_text nt v) ms)"
    let ?f = "\<lambda>(k, v). quote_text k @ '':'' @ json_text nt v"
    obtain u where "?j = ?f p @ u" using join_start [of "'',''" "?f p" "map ?f qs"] by (auto simp: Cons)
    then obtain t where t: "?j @ CHR ''}'' # r = CHR 0x22 # t" by (cases p) (auto simp: quote_text_def)
    have "parse_members k [] (?j @ CHR ''}'' # r) = Some ([] @ ms, r)"
      using assms k Cons by (intro members_read_back) auto
    then have "parse_value m (CHR ''{'' # ?j @ CHR ''}'' # r) = Some (JObj ms, r)"
      unfolding t by (simp add: m skip_no_ws)
    then show ?thesis by simp
  qed
qed

lemma leaves_read_back:
  "\<exists>n. reads_back nt JNull n" "\<exists>n. reads_back nt (JBool b) n" "\<exists>n. reads_back nt (JStr s) n"
proof -
  have "reads_back nt JNull 1" "reads_back nt (JBool b) 1"
    unfolding reads_back_def by (auto simp: skip_no_ws strip_word_def gr0_conv_Suc Suc_le_eq)
  then show "\<exists>n. reads_back nt JNull n" "\<exists>n. reads_back nt (JBool b) n" by blast+
  have "reads_back nt (JStr s) 1"
    unfolding reads_back_def by (auto simp: skip_no_ws quote_text_def parse_quoted gr0_conv_Suc Suc_le_eq)
  then show "\<exists>n. reads_back nt (JStr s) n" by blast
qed

lemma json_reads_back: "json_ok nt v \<Longrightarrow> \<exists>n. reads_back nt v n"
proof (induction nt v rule: json_ok.induct)
  case (1 nt q)
  have "reads_back nt (JNum q) 1"
    unfolding reads_back_def
  proof (intro allI impI)
    fix m :: nat and r
    assume "1 \<le> m" and "ends_value r"
    then show "parse_value m (json_text nt (JNum q) @ r) = Some (JNum q, r)"
      using number_is_value [of r "nt q" q "m - 1"] 1 by (cases m) auto
  qed
  then show ?case by blast
next
  case (2 nt vs)
  then have "\<forall>v \<in> set vs. \<exists>n. reads_back nt v n" by auto
  from common_fuel [OF this] obtain n where "\<forall>v \<in> set vs. reads_back nt v n" by blast
  with 2 array_reads_back show ?case by (metis json_ok.simps(2))
next
  case (3 nt m)
  then have "\<forall>v \<in> set (map snd m). \<exists>n. reads_back nt v n" by fastforce
  from common_fuel [OF this] obtain n where "\<forall>v \<in> set (map snd m). reads_back nt v n" by blast
  then have "\<forall>(k, v) \<in> set m. reads_back nt v n" by fastforce
  from object_reads_back [OF this] 3 show ?case by auto
qed (rule leaves_read_back)+

theorem json_parse_text: "json_ok nt v \<Longrightarrow> json_parse (json_text nt v) = Some v"
proof -
  assume "json_ok nt v"
  then obtain n where n: "reads_back nt v n" using json_reads_back by blast
  let ?m = "max n (parse_fuel (json_text nt v))"
  from n have "parse_value ?m (json_text nt v @ []) = Some (v, [])" by (simp add: reads_back_def ends_value_def)
  then show ?thesis using json_parse_any_fuel [of "json_text nt v" ?m] by (simp add: skip_ws_def)
qed

subsection \<open>The canonical form\<close>

text \<open>Equal but for the order of the keys of an object, at every depth.\<close>

fun same_json :: "json \<Rightarrow> json \<Rightarrow> bool" where
  "same_json (JArr vs) (JArr ws) \<longleftrightarrow> list_all2 same_json vs ws"
| "same_json (JObj m) (JObj n) \<longleftrightarrow>
     fst ` set m = fst ` set n \<and> (\<forall>p \<in> set m. \<forall>q \<in> set n. fst p = fst q \<longrightarrow> same_json (snd p) (snd q))"
| "same_json v w \<longleftrightarrow> v = w"

lemma sort_json_ok: "json_ok nt v \<Longrightarrow> json_ok nt (sort_json v)"
  by (induction v rule: sort_json.induct)
    (auto simp: distinct_keys_def comp_def case_prod_unfold distinct_map)

lemma sorted_keys_unique:
  fixes m n :: "(string, 'v) js_map"
  assumes "distinct_keys m" "distinct_keys n"
  shows "fst ` set m = fst ` set n \<longleftrightarrow> map fst (sort_key fst m) = map fst (sort_key fst n)"
proof
  assume "fst ` set m = fst ` set n"
  with assms show "map fst (sort_key fst m) = map fst (sort_key fst n)"
    by (intro sorted_distinct_set_unique) (simp_all add: distinct_keys_def distinct_map)
next
  assume "map fst (sort_key fst m) = map fst (sort_key fst n)"
  then have "set (map fst (sort_key fst m)) = set (map fst (sort_key fst n))" by simp
  then show "fst ` set m = fst ` set n" by simp
qed

lemma pairs_equal:
  "map fst a = map fst b \<Longrightarrow> distinct (map fst a) \<Longrightarrow>
   map (\<lambda>(k, v). (k, f v)) a = map (\<lambda>(k, v). (k, g v)) b \<longleftrightarrow>
   (\<forall>p \<in> set a. \<forall>q \<in> set b. fst p = fst q \<longrightarrow> f (snd p) = g (snd q))"
proof (induction a arbitrary: b)
  case (Cons p a)
  then obtain q b' where b: "b = q # b'" "fst p = fst q" "map fst a = map fst b'" by (cases b) auto
  from b(3) have "set (map fst a) = set (map fst b')" by simp
  with Cons.prems b have "fst p \<notin> set (map fst b')" "fst q \<notin> set (map fst a)" by (simp_all add: b)
  then have "\<forall>r \<in> set b'. fst p \<noteq> fst r" "\<forall>r \<in> set a. fst r \<noteq> fst q" by force+
  with Cons.IH [OF b(3)] Cons.prems b(2) show ?case by (auto simp: b case_prod_unfold)
qed simp

lemma sort_json_leaf [simp]:
  "sort_json w = JNull \<longleftrightarrow> w = JNull" "sort_json w = JBool b \<longleftrightarrow> w = JBool b"
  "sort_json w = JNum q \<longleftrightarrow> w = JNum q" "sort_json w = JStr s \<longleftrightarrow> w = JStr s"
  by (cases w; simp)+

lemma sort_json_leaf' [simp]:
  "JNull = sort_json w \<longleftrightarrow> w = JNull" "JBool b = sort_json w \<longleftrightarrow> w = JBool b"
  "JNum q = sort_json w \<longleftrightarrow> w = JNum q" "JStr s = sort_json w \<longleftrightarrow> w = JStr s"
  by (cases w; auto)+

lemma same_json_sorted: "json_ok nt v \<Longrightarrow> json_ok nt w \<Longrightarrow> same_json v w \<longleftrightarrow> sort_json v = sort_json w"
proof (induction v w rule: same_json.induct)
  case (1 vs ws)
  then have "list_all2 same_json vs ws \<longleftrightarrow> list_all2 (\<lambda>v w. sort_json v = sort_json w) vs ws"
    by (auto intro: list.rel_mono_strong)
  then show ?case by (auto simp: list_all2_conv_all_nth list_eq_iff_nth_eq)
next
  case (2 m n)
  then have d: "distinct_keys m" "distinct_keys n" by auto
  from 2 have "same_json (snd p) (snd q) \<longleftrightarrow> sort_json (snd p) = sort_json (snd q)"
    if "p \<in> set m" "q \<in> set n" "fst p = fst q" for p q using that by fastforce
  then have s: "same_json (JObj m) (JObj n) \<longleftrightarrow> fst ` set m = fst ` set n \<and>
      (\<forall>p \<in> set m. \<forall>q \<in> set n. fst p = fst q \<longrightarrow> sort_json (snd p) = sort_json (snd q))" by auto
  let ?f = "map (\<lambda>(k, v). (k, sort_json v))"
  have k: "map fst (?f (sort_key fst x)) = map fst (sort_key fst x)" for x by (simp add: comp_def case_prod_unfold)
  have "?f (sort_key fst m) = ?f (sort_key fst n) \<Longrightarrow> map fst (sort_key fst m) = map fst (sort_key fst n)"
    by (metis k)
  moreover have "distinct (map fst (sort_key fst m))" using d(1) by (simp add: distinct_keys_def distinct_map)
  ultimately have "?f (sort_key fst m) = ?f (sort_key fst n) \<longleftrightarrow>
      map fst (sort_key fst m) = map fst (sort_key fst n) \<and>
      (\<forall>p \<in> set m. \<forall>q \<in> set n. fst p = fst q \<longrightarrow> sort_json (snd p) = sort_json (snd q))"
    using pairs_equal [of "sort_key fst m" "sort_key fst n" sort_json sort_json] unfolding set_sort by blast
  then show ?case unfolding s sort_json.simps json.inject using sorted_keys_unique [OF d] by blast
qed auto

theorem canonical_json_same:
  assumes "json_ok nt v" "json_ok nt w"
  shows "canonical_json nt v = canonical_json nt w \<longleftrightarrow> same_json v w"
proof -
  have "json_text nt (sort_json v) = json_text nt (sort_json w) \<longleftrightarrow> sort_json v = sort_json w"
    using json_parse_text [OF sort_json_ok] assms by (metis option.inject)
  then show ?thesis using same_json_sorted [OF assms] by (simp add: canonical_json_text)
qed

end
