(* ===== verification/Approvals.thy ===== *)
theory Approvals
  imports Canonical_Json Org_Names "HOL-Library.Product_Lexorder"
begin

text \<open>
  Approval rules and pending approvals of tool calls (\<open>packages/tools/src/approvals\<close>: \<open>rules.ts\<close>, \<open>store.ts\<close>,
  \<open>agents/run-watchers.ts\<close>, and what the Tools part of an org's ControlPlane makes of them,
  \<open>control-plane-part.ts\<close>). The table \<open>tool_approvals\<close> is the list of its rows; a second row of an id is refused, as
  the primary key does. The column \<open>approver\<close>, the JSON text of an approver, is the approver. The cipher that seals
  arguments and forms, SHA-256 and the text of numbers are the fields of \<open>approval_services\<close>; the random id a row
  draws is an argument. Of a toolkit the part keeps its owner, its rules and its tools with their resolved class, and
  whether it is built in: a built-in toolkit's rules are in a table of their own.
\<close>

subsection \<open>rules.ts\<close>

datatype approver = CallerApprover | TeamApprover string | MembersApprover "string list"

datatype tool_class = ReadTool | WriteTool

record tool_mark =
  tmk_tool :: string
  tmk_approver :: approver

record approval_rules =
  rl_writes :: "approver option"
  rl_tools :: "tool_mark list"

definition approver_for :: "approval_rules option \<Rightarrow> string \<Rightarrow> tool_class \<Rightarrow> approver option" where
  "approver_for rules upstream cls =
     (case rules of
        None \<Rightarrow> None
      | Some ru \<Rightarrow>
          (case List.find (\<lambda>m. tmk_tool m = upstream) (rl_tools ru) of
             Some m \<Rightarrow> Some (tmk_approver m)
           | None \<Rightarrow> if cls = WriteTool then rl_writes ru else None))"

record decider =
  dc_member :: "string option"
  dc_teams :: "string list"

definition may_decide :: "approver \<Rightarrow> string option \<Rightarrow> decider \<Rightarrow> bool" where
  "may_decide a caller d =
     (case dc_member d of
        None \<Rightarrow> False
      | Some member \<Rightarrow>
          (case a of
             CallerApprover \<Rightarrow> Some member = caller
           | TeamApprover i \<Rightarrow> Some member \<noteq> caller \<and> i \<in> set (dc_teams d)
           | MembersApprover is \<Rightarrow> Some member \<noteq> caller \<and> member \<in> set is))"

fun without_member :: "string \<Rightarrow> approver \<Rightarrow> approver" where
  "without_member left (MembersApprover is) = MembersApprover (filter (\<lambda>i. i \<noteq> left) is)"
| "without_member left a = a"

definition map_approvers :: "(approver \<Rightarrow> approver) \<Rightarrow> approval_rules \<Rightarrow> approval_rules" where
  "map_approvers change ru =
     \<lparr>rl_writes = map_option change (rl_writes ru),
      rl_tools = map (\<lambda>m. m\<lparr>tmk_approver := change (tmk_approver m)\<rparr>) (rl_tools ru)\<rparr>"

definition approvers_of :: "approval_rules \<Rightarrow> approver list" where
  "approvers_of ru = (case rl_writes ru of None \<Rightarrow> [] | Some a \<Rightarrow> [a]) @ map tmk_approver (rl_tools ru)"

fun lists_member :: "string \<Rightarrow> approver \<Rightarrow> bool" where
  "lists_member i (MembersApprover is) = (i \<in> set is)"
| "lists_member i _ = False"

definition rules_without_member :: "approval_rules \<Rightarrow> string \<Rightarrow> approval_rules option" where
  "rules_without_member ru left =
     (if list_ex (lists_member left) (approvers_of ru) then Some (map_approvers (without_member left) ru) else None)"

text \<open>Rules as they are written: an approver left out is the caller, a mark names its tool by its stable id.\<close>

record given_mark =
  gm_id :: string
  gm_approver :: "approver option"

record given_rules =
  gn_writes :: "approver option option"
  gn_tools :: "given_mark list option"

definition clean_approver :: "approver option \<Rightarrow> string + approver" where
  "clean_approver given =
     (case given of
        None \<Rightarrow> Inr CallerApprover
      | Some CallerApprover \<Rightarrow> Inr CallerApprover
      | Some (TeamApprover i) \<Rightarrow>
          (let trimmed = js_trim i
           in if trimmed = [] then Inl ''a team approver names its team'' else Inr (TeamApprover trimmed))
      | Some (MembersApprover is) \<Rightarrow>
          (let ids = sort (js_set (map js_trim is))
           in if ids = [] \<or> [] \<in> set ids then Inl ''a list of approvers names at least one member''
              else Inr (MembersApprover ids)))"

definition stable_id :: "string \<Rightarrow> string \<Rightarrow> string" where
  "stable_id toolkit upstream = toolkit @ '':'' @ upstream"

fun clean_marks :: "string \<Rightarrow> given_mark list \<Rightarrow> tool_mark list \<Rightarrow> string + tool_mark list" where
  "clean_marks toolkit [] tools = Inr tools"
| "clean_marks toolkit (m # ms) tools =
     (let i = js_trim (gm_id m); p = toolkit @ '':''
      in if \<not> starts_with i p \<or> length i = length p
         then Inl (i @ '' is not the stable id of a tool of the toolkit (<toolkit id>:<upstream name>)'')
         else (let tool = drop (length p) i
               in if list_ex (\<lambda>x. tmk_tool x = tool) tools then Inl (i @ '' is marked more than once'')
                  else (case clean_approver (gm_approver m) of
                          Inl refused \<Rightarrow> Inl refused
                        | Inr a \<Rightarrow> clean_marks toolkit ms (tools @ [\<lparr>tmk_tool = tool, tmk_approver = a\<rparr>]))))"

definition clean_approval_rules :: "string \<Rightarrow> given_rules \<Rightarrow> string + approval_rules" where
  "clean_approval_rules toolkit given =
     (let finish = (\<lambda>writes. case clean_marks toolkit (case gn_tools given of None \<Rightarrow> [] | Some ms \<Rightarrow> ms) [] of
            Inl refused \<Rightarrow> Inl refused
          | Inr tools \<Rightarrow> Inr \<lparr>rl_writes = writes, rl_tools = sort_key tmk_tool tools\<rparr>)
      in case gn_writes given of
           None \<Rightarrow> finish None
         | Some w \<Rightarrow> (case clean_approver w of Inl refused \<Rightarrow> Inl refused | Inr a \<Rightarrow> finish (Some a)))"

definition no_rules :: "approval_rules \<Rightarrow> bool" where
  "no_rules ru \<longleftrightarrow> rl_writes ru = None \<and> rl_tools ru = []"

record rule_view =
  rv_approver :: approver
  rv_nobody_decides :: bool

record rules_view =
  rw_writes :: "rule_view option"
  rw_tools :: "(string \<times> rule_view) list option"

definition approval_rules_view :: "string \<Rightarrow> approval_rules \<Rightarrow> (approver \<Rightarrow> bool) \<Rightarrow> rules_view" where
  "approval_rules_view toolkit ru nobody =
     (let rule = (\<lambda>a. \<lparr>rv_approver = a, rv_nobody_decides = nobody a\<rparr>)
      in \<lparr>rw_writes = map_option rule (rl_writes ru),
          rw_tools = (if rl_tools ru = [] then None
            else Some (map (\<lambda>m. (stable_id toolkit (tmk_tool m), rule (tmk_approver m))) (rl_tools ru)))\<rparr>)"

subsection \<open>store.ts\<close>

definition approval_lifetime_ms :: ms where "approval_lifetime_ms = 60 * 60 * 1000"

datatype credential_slot = SharedSlot | PrivateSlot

datatype approval_status = ApprovalPending | ApprovalApproved | ApprovalDenied

record approval_row =
  ap_id :: string
  ap_toolkit :: string
  ap_upstream :: string
  ap_tool_name :: string
  ap_member :: string
  ap_principal :: string
  ap_credential :: credential_slot
  ap_approver :: approver
  ap_hash :: string
  ap_arguments :: "string option"
  ap_status :: approval_status
  ap_settled :: bool
  ap_created :: ms
  ap_expires :: ms
  ap_decided :: "ms option"
  ap_decided_by :: "string option"
  ap_form :: bool

record approval_key =
  ky_toolkit :: string
  ky_upstream :: string
  ky_hash :: string
  ky_member :: "string option"
  ky_principal :: string

record new_approval = approval_key +
  na_tool_name :: string
  na_credential :: credential_slot
  na_approver :: approver

record approval_services =
  as_seal :: "string \<Rightarrow> string \<Rightarrow> string"
  as_open :: "string \<Rightarrow> string \<Rightarrow> string option"
  as_number :: "rat \<Rightarrow> string"
  as_sha :: "string \<Rightarrow> string"

definition or_blank :: "string option \<Rightarrow> string" where
  "or_blank m = (case m of None \<Rightarrow> [] | Some i \<Rightarrow> i)"

definition caller_member :: "approval_row \<Rightarrow> string option" where
  "caller_member r = (if ap_member r = [] then None else Some (ap_member r))"

definition arguments_context :: "string \<Rightarrow> string" where
  "arguments_context i = ''tool_approvals/'' @ i"

definition form_context :: "string \<Rightarrow> string" where
  "form_context i = ''tool_approvals/'' @ i @ ''/form''"

definition form_binding :: "string \<Rightarrow> 'a approval_key_scheme \<Rightarrow> json" where
  "form_binding i key =
     JObj [(''id'', JStr i), (''toolId'', JStr (stable_id (ky_toolkit key) (ky_upstream key))), (''hash'', JStr (ky_hash key))]"

definition binds_call :: "json \<Rightarrow> string \<Rightarrow> 'a approval_key_scheme \<Rightarrow> bool" where
  "binds_call v i key =
     (case v of
        JObj m \<Rightarrow>
          map_of m ''id'' = Some (JStr i) \<and>
          map_of m ''toolId'' = Some (JStr (stable_id (ky_toolkit key) (ky_upstream key))) \<and>
          map_of m ''hash'' = Some (JStr (ky_hash key))
      | _ \<Rightarrow> False)"

definition live_approval :: "ms \<Rightarrow> approval_row \<Rightarrow> bool" where
  "live_approval now r \<longleftrightarrow> ap_expires r > now"

text \<open>The call a row is of: its tool, its arguments' hash and its caller, as the queries compare them.\<close>

definition of_call :: "'a approval_key_scheme \<Rightarrow> approval_row \<Rightarrow> bool" where
  "of_call key r \<longleftrightarrow>
     ap_toolkit r = ky_toolkit key \<and> ap_upstream r = ky_upstream key \<and> ap_hash r = ky_hash key \<and>
     ap_member r = or_blank (ky_member key) \<and> (ap_member r \<noteq> [] \<or> ap_principal r = ky_principal key)"

definition new_row :: "string \<Rightarrow> 'a new_approval_scheme \<Rightarrow> ms \<Rightarrow> bool \<Rightarrow> string option \<Rightarrow> approval_row" where
  "new_row i a now form args =
     \<lparr>ap_id = i, ap_toolkit = ky_toolkit a, ap_upstream = ky_upstream a, ap_tool_name = na_tool_name a,
      ap_member = or_blank (ky_member a), ap_principal = ky_principal a, ap_credential = na_credential a,
      ap_approver = na_approver a, ap_hash = ky_hash a, ap_arguments = args, ap_status = ApprovalPending,
      ap_settled = False, ap_created = now, ap_expires = now + approval_lifetime_ms, ap_decided = None,
      ap_decided_by = None, ap_form = form\<rparr>"

definition insert_approval :: "approval_row \<Rightarrow> approval_row list \<Rightarrow> approval_row list option" where
  "insert_approval r rows = (if ap_id r \<in> ap_id ` set rows then None else Some (rows @ [r]))"

definition approval_at :: "string \<Rightarrow> ms \<Rightarrow> approval_row list \<Rightarrow> approval_row option" where
  "approval_at i now rows = List.find (\<lambda>r. ap_id r = i \<and> \<not> ap_form r \<and> live_approval now r) rows"

definition create_approval :: "approval_services \<Rightarrow> string \<Rightarrow> 'a new_approval_scheme \<Rightarrow> json_object \<Rightarrow> ms \<Rightarrow>
    approval_row list \<Rightarrow> (approval_row \<times> approval_row list) option" where
  "create_approval sv i a args now rows =
     (case insert_approval (new_row i a now False
         (Some (as_seal sv (json_text (as_number sv) (JObj args)) (arguments_context i)))) rows of
        None \<Rightarrow> None
      | Some rows' \<Rightarrow> map_option (\<lambda>r. (r, rows')) (approval_at i now rows'))"

definition create_form :: "approval_services \<Rightarrow> string \<Rightarrow> 'a new_approval_scheme \<Rightarrow> ms \<Rightarrow> approval_row list \<Rightarrow>
    (string \<times> approval_row list) option" where
  "create_form sv i a now rows =
     map_option (Pair (i @ '':'' @ as_seal sv (json_text (as_number sv) (form_binding i a)) (form_context i)))
       (insert_approval (new_row i a now True None) rows)"

definition open_form :: "approval_row \<Rightarrow> bool" where
  "open_form r \<longleftrightarrow> ap_form r \<and> \<not> ap_settled r \<and> ap_status r = ApprovalPending"

definition take_form :: "approval_services \<Rightarrow> string option \<Rightarrow> 'a approval_key_scheme \<Rightarrow> ms \<Rightarrow> approval_row list \<Rightarrow>
    bool \<times> approval_row list" where
  "take_form sv request_state key now rows =
     (case request_state of
        None \<Rightarrow> (False, rows)
      | Some s \<Rightarrow>
          (case index_of '':'' s of
             None \<Rightarrow> (False, rows)
           | Some n \<Rightarrow>
               if n = 0 then (False, rows)
               else (case Option.bind (as_open sv (drop (Suc n) s) (form_context (take n s))) json_parse of
                       None \<Rightarrow> (False, rows)
                     | Some v \<Rightarrow>
                         if \<not> binds_call v (take n s) key then (False, rows)
                         else (let taken = (\<lambda>r. ap_id r = take n s \<and> open_form r \<and> live_approval now r \<and> of_call key r)
                               in (length (filter taken rows) = 1,
                                   map (\<lambda>r. if taken r then r\<lparr>ap_settled := True\<rparr> else r) rows)))))"

definition held_approval :: "string \<Rightarrow> approval_row list \<Rightarrow> approval_row option" where
  "held_approval i rows = List.find (\<lambda>r. ap_id r = i \<and> \<not> ap_form r) rows"

definition newest_approvals :: "approval_row list \<Rightarrow> approval_row list" where
  "newest_approvals rows = sort_key (\<lambda>r. (- ap_created r, ap_id r)) rows"

definition approvals_at :: "ms \<Rightarrow> approval_row list \<Rightarrow> approval_row list" where
  "approvals_at now rows = newest_approvals (filter (\<lambda>r. \<not> ap_form r \<and> live_approval now r) rows)"

definition unsettled_approval :: "'a approval_key_scheme \<Rightarrow> ms \<Rightarrow> approval_row list \<Rightarrow> approval_row option" where
  "unsettled_approval key now rows =
     (case newest_approvals (filter (\<lambda>r. of_call key r \<and> \<not> ap_settled r \<and> \<not> ap_form r \<and> live_approval now r) rows) of
        [] \<Rightarrow> None
      | r # _ \<Rightarrow> Some r)"

text \<open>What a read of sealed text answers: the text does not open, or it does.\<close>

datatype 'a sealed_read = SealBroken | Opened 'a

definition approval_arguments :: "approval_services \<Rightarrow> string \<Rightarrow> ms \<Rightarrow> approval_row list \<Rightarrow> json option sealed_read" where
  "approval_arguments sv i now rows =
     (case Option.bind (List.find (\<lambda>r. ap_id r = i \<and> live_approval now r) rows) ap_arguments of
        None \<Rightarrow> Opened None
      | Some sealed \<Rightarrow>
          (case Option.bind (as_open sv sealed (arguments_context i)) json_parse of
             None \<Rightarrow> SealBroken
           | Some v \<Rightarrow> Opened (Some v)))"

definition decide_row :: "string \<Rightarrow> approval_status \<Rightarrow> string \<Rightarrow> ms \<Rightarrow> approval_row list \<Rightarrow> approval_row list" where
  "decide_row i decision who now rows =
     map (\<lambda>r. if ap_id r = i \<and> ap_status r = ApprovalPending \<and> \<not> ap_form r
          then r\<lparr>ap_status := decision, ap_decided := Some now, ap_decided_by := Some who, ap_arguments := None\<rparr>
          else r) rows"

definition settle_row :: "string \<Rightarrow> approval_row list \<Rightarrow> approval_row list" where
  "settle_row i rows = map (\<lambda>r. if ap_id r = i then r\<lparr>ap_settled := True, ap_arguments := None\<rparr> else r) rows"

definition delete_rows :: "string list \<Rightarrow> approval_row list \<Rightarrow> approval_row list" where
  "delete_rows ids rows = filter (\<lambda>r. ap_id r \<notin> set ids) rows"

definition prune_rows :: "ms \<Rightarrow> approval_row list \<Rightarrow> ms option \<times> approval_row list" where
  "prune_rows now rows =
     (let kept = filter (\<lambda>r. \<not> ap_expires r \<le> now) rows
      in (case map ap_expires kept of [] \<Rightarrow> None | e # es \<Rightarrow> Some (fold min es e), kept))"

definition is_list :: "approver \<Rightarrow> bool" where
  "is_list a = (case a of MembersApprover _ \<Rightarrow> True | _ \<Rightarrow> False)"

definition delete_member_rows :: "string \<Rightarrow> (approver \<Rightarrow> approver) \<Rightarrow> approval_row list \<Rightarrow> approval_row list" where
  "delete_member_rows member without rows =
     map (\<lambda>r. if is_list (ap_approver r) then r\<lparr>ap_approver := without (ap_approver r)\<rparr> else r)
       (filter (\<lambda>r. ap_member r \<noteq> member) rows)"

subsection \<open>The Tools part: people\<close>

text \<open>Who watches which run (\<open>RunWatchers\<close>, \<^const>\<open>None\<close> without the Agents area) and the teams of a member, as they are now.\<close>

record org_people =
  op_watchers :: "(string \<Rightarrow> string list) option"
  op_teams :: "string \<Rightarrow> string list"

definition watchers_of_principal :: "(string \<Rightarrow> string list) option \<Rightarrow> string \<Rightarrow> string list" where
  "watchers_of_principal watchers p =
     (case run_of_principal p of
        None \<Rightarrow> []
      | Some run \<Rightarrow> (case watchers of None \<Rightarrow> [] | Some watching \<Rightarrow> watching run))"

definition callers_of :: "org_people \<Rightarrow> approval_row \<Rightarrow> string list" where
  "callers_of pe r =
     (case caller_member r of None \<Rightarrow> watchers_of_principal (op_watchers pe) (ap_principal r) | Some m \<Rightarrow> [m])"

definition viewer_may_decide :: "org_people \<Rightarrow> approval_row \<Rightarrow> string option \<Rightarrow> bool" where
  "viewer_may_decide pe r viewer =
     (if ap_approver r = CallerApprover \<and> caller_member r = None
      then (case viewer of None \<Rightarrow> False | Some m \<Rightarrow> m \<in> set (callers_of pe r))
      else may_decide (ap_approver r) (caller_member r)
             \<lparr>dc_member = viewer, dc_teams = (case viewer of None \<Rightarrow> [] | Some m \<Rightarrow> op_teams pe m)\<rparr>)"

subsection \<open>The Tools part: calls\<close>

record approval_toolkit =
  at_id :: string
  at_built_in :: bool
  at_owner :: "string option"
  at_rules :: "approval_rules option"
  at_tools :: "(string, tool_class) js_map"

record tools_part =
  tp_rows :: "approval_row list"
  tp_toolkits :: "approval_toolkit list"

datatype form_action = AcceptForm | DeclineForm | CancelForm

record approval_form =
  fm_answer :: "form_action option"
  fm_state :: "string option"

record tool_call =
  tc_toolkit :: string
  tc_upstream :: string
  tc_tool_name :: string
  tc_slot :: credential_slot
  tc_member :: "string option"
  tc_run :: "string option option"
  tc_principal :: "string option"
  tc_arguments :: "json_object option"
  tc_form :: "approval_form option"

datatype approved_how = NoApproval | ApprovedOnForm | ApprovedInPanel

datatype not_approved = CallDenied | NoApprover

datatype call_outcome =
    GoOn approved_how | AskCaller string | WaitForApproval approval_row | CallNotApproved not_approved
  | NoSuchTool | CallThrew

definition call_key :: "approval_services \<Rightarrow> tool_call \<Rightarrow> approval_key" where
  "call_key sv c =
     \<lparr>ky_toolkit = tc_toolkit c, ky_upstream = tc_upstream c,
      ky_hash = arguments_hash (as_number sv) (as_sha sv) (tc_arguments c),
      ky_member = (case tc_member c of Some m \<Rightarrow> Some m | None \<Rightarrow> Option.bind (tc_run c) (\<lambda>starter. starter)),
      ky_principal = or_blank (tc_principal c)\<rparr>"

definition new_approval_of :: "approval_key \<Rightarrow> tool_call \<Rightarrow> approver \<Rightarrow> new_approval" where
  "new_approval_of key c a =
     approval_key.extend key \<lparr>na_tool_name = tc_tool_name c, na_credential = tc_slot c, na_approver = a\<rparr>"

definition with_rows :: "approval_row list \<Rightarrow> tools_part \<Rightarrow> tools_part" where
  "with_rows rows p = p\<lparr>tp_rows := rows\<rparr>"

text \<open>The part's next wake-up prunes what is due.\<close>

definition wake_part :: "ms \<Rightarrow> tools_part \<Rightarrow> tools_part" where
  "wake_part now p = with_rows (snd (prune_rows now (tp_rows p))) p"

definition ask_form :: "approval_services \<Rightarrow> string \<Rightarrow> new_approval \<Rightarrow> ms \<Rightarrow> tools_part \<Rightarrow> call_outcome \<times> tools_part" where
  "ask_form sv draw a now p =
     (case create_form sv draw a now (tp_rows p) of
        None \<Rightarrow> (CallThrew, p)
      | Some (st, rows) \<Rightarrow> (AskCaller st, wake_part now (with_rows rows p)))"

definition wait_approval :: "approval_services \<Rightarrow> string \<Rightarrow> new_approval \<Rightarrow> json_object \<Rightarrow> ms \<Rightarrow> tools_part \<Rightarrow>
    call_outcome \<times> tools_part" where
  "wait_approval sv draw a args now p =
     (case create_approval sv draw a args now (tp_rows p) of
        None \<Rightarrow> (CallThrew, p)
      | Some (r, rows) \<Rightarrow> (WaitForApproval r, wake_part now (with_rows rows p)))"

definition match_approval :: "approval_services \<Rightarrow> org_people \<Rightarrow> string \<Rightarrow> tool_call \<Rightarrow> approver \<Rightarrow> ms \<Rightarrow> tools_part \<Rightarrow>
    call_outcome \<times> tools_part" where
  "match_approval sv pe draw c a now p =
     (let key = call_key sv c
      in if a = CallerApprover \<and> ky_member key = None \<and>
            (tc_run c = None \<or> watchers_of_principal (op_watchers pe) (or_blank (tc_principal c)) = [])
         then (CallNotApproved NoApprover, p)
         else (case unsettled_approval key now (tp_rows p) of
                 Some kept \<Rightarrow>
                   if ap_status kept = ApprovalPending then (WaitForApproval kept, p)
                   else (if ap_status kept = ApprovalDenied then CallNotApproved CallDenied else GoOn ApprovedInPanel,
                         with_rows (settle_row (ap_id kept) (tp_rows p)) p)
               | None \<Rightarrow>
                   wait_approval sv draw (new_approval_of key c a) (case tc_arguments c of None \<Rightarrow> [] | Some m \<Rightarrow> m) now p))"

definition approval_of :: "approval_services \<Rightarrow> org_people \<Rightarrow> string \<Rightarrow> tool_call \<Rightarrow> approval_toolkit \<Rightarrow> tool_class \<Rightarrow> ms \<Rightarrow>
    tools_part \<Rightarrow> call_outcome \<times> tools_part" where
  "approval_of sv pe draw c tk cls now p =
     (case approver_for (at_rules tk) (tc_upstream c) cls of
        None \<Rightarrow> (GoOn NoApproval, p)
      | Some a \<Rightarrow>
          (case (a, tc_form c) of
             (CallerApprover, Some form) \<Rightarrow>
               (let key = call_key sv c;
                    taken = (case fm_answer form of None \<Rightarrow> (False, tp_rows p)
                      | Some _ \<Rightarrow> take_form sv (fm_state form) key now (tp_rows p))
                in if fst taken
                   then (if fm_answer form = Some AcceptForm then GoOn ApprovedOnForm else CallNotApproved CallDenied,
                         with_rows (snd taken) p)
                   else ask_form sv draw (new_approval_of key c a) now (with_rows (snd taken) p))
           | _ \<Rightarrow> match_approval sv pe draw c a now p))"

definition toolkit_of :: "string \<Rightarrow> tools_part \<Rightarrow> approval_toolkit option" where
  "toolkit_of i p = List.find (\<lambda>tk. at_id tk = i) (tp_toolkits p)"

definition approve_call :: "approval_services \<Rightarrow> org_people \<Rightarrow> string \<Rightarrow> tool_call \<Rightarrow> ms \<Rightarrow> tools_part \<Rightarrow>
    call_outcome \<times> tools_part" where
  "approve_call sv pe draw c now p =
     (case toolkit_of (tc_toolkit c) p of
        None \<Rightarrow> (NoSuchTool, p)
      | Some tk \<Rightarrow>
          (case map_of (at_tools tk) (tc_upstream c) of
             None \<Rightarrow> (NoSuchTool, p)
           | Some cls \<Rightarrow> approval_of sv pe draw c tk cls now p))"

subsection \<open>The Tools part: decisions\<close>

datatype shown_status = ShownPending | ShownApproved | ShownDenied | ShownUsed

definition shown_status :: "approval_row \<Rightarrow> shown_status" where
  "shown_status r =
     (case ap_status r of
        ApprovalPending \<Rightarrow> ShownPending
      | ApprovalDenied \<Rightarrow> ShownDenied
      | ApprovalApproved \<Rightarrow> if ap_settled r then ShownUsed else ShownApproved)"

record approval_view =
  av_id :: string
  av_status :: shown_status
  av_toolkit :: string
  av_tool :: string
  av_tool_name :: string
  av_member :: "string option"
  av_principal :: string
  av_credential :: credential_slot
  av_approver :: approver
  av_created :: ms
  av_expires :: ms
  av_decided :: "ms option"
  av_decided_by :: "string option"
  av_arguments :: "json option"
  av_can_decide :: bool
  av_run :: "string option"

definition view_approval :: "approval_services \<Rightarrow> org_people \<Rightarrow> approval_row \<Rightarrow> string option \<Rightarrow> ms \<Rightarrow> approval_row list \<Rightarrow>
    approval_view option sealed_read" where
  "view_approval sv pe r viewer now rows =
     (let decides = viewer_may_decide pe r viewer;
          caller = (case viewer of None \<Rightarrow> False | Some m \<Rightarrow> m \<in> set (callers_of pe r));
          pending = (ap_status r = ApprovalPending)
      in if \<not> decides \<and> \<not> caller then Opened None
         else (case (if decides \<and> pending then approval_arguments sv (ap_id r) now rows else Opened None) of
                 SealBroken \<Rightarrow> SealBroken
               | Opened args \<Rightarrow> Opened (Some
                   \<lparr>av_id = ap_id r, av_status = shown_status r, av_toolkit = ap_toolkit r,
                    av_tool = stable_id (ap_toolkit r) (ap_upstream r), av_tool_name = ap_tool_name r,
                    av_member = caller_member r, av_principal = ap_principal r, av_credential = ap_credential r,
                    av_approver = ap_approver r, av_created = ap_created r, av_expires = ap_expires r,
                    av_decided = ap_decided r, av_decided_by = ap_decided_by r, av_arguments = args,
                    av_can_decide = (decides \<and> pending),
                    av_run = (if caller then run_of_principal (ap_principal r) else None)\<rparr>)))"

datatype 'a approval_reply = ApprovalOk 'a | ApprovalNotFound | ApprovalForbidden | ApprovalConflict | ApprovalThrew

definition get_approval :: "approval_services \<Rightarrow> org_people \<Rightarrow> string option \<Rightarrow> string \<Rightarrow> ms \<Rightarrow> tools_part \<Rightarrow>
    approval_view approval_reply" where
  "get_approval sv pe viewer i now p =
     (case approval_at i now (tp_rows p) of
        None \<Rightarrow> ApprovalNotFound
      | Some r \<Rightarrow>
          (case view_approval sv pe r viewer now (tp_rows p) of
             SealBroken \<Rightarrow> ApprovalThrew
           | Opened None \<Rightarrow> ApprovalNotFound
           | Opened (Some v) \<Rightarrow> ApprovalOk v))"

fun list_views :: "approval_services \<Rightarrow> org_people \<Rightarrow> string option \<Rightarrow> ms \<Rightarrow> approval_row list \<Rightarrow> approval_row list \<Rightarrow>
    approval_view list sealed_read" where
  "list_views sv pe viewer now rows [] = Opened []"
| "list_views sv pe viewer now rows (r # rs) =
     (case view_approval sv pe r viewer now rows of
        SealBroken \<Rightarrow> SealBroken
      | Opened v \<Rightarrow>
          (case list_views sv pe viewer now rows rs of
             SealBroken \<Rightarrow> SealBroken
           | Opened vs \<Rightarrow> Opened (case v of None \<Rightarrow> vs | Some w \<Rightarrow> w # vs)))"

definition list_approvals :: "approval_services \<Rightarrow> org_people \<Rightarrow> string option \<Rightarrow> ms \<Rightarrow> tools_part \<Rightarrow>
    approval_view list sealed_read" where
  "list_approvals sv pe viewer now p =
     list_views sv pe viewer now (tp_rows p)
       (filter (\<lambda>r. ap_status r = ApprovalPending) (approvals_at now (tp_rows p)))"

definition decide_approval :: "approval_services \<Rightarrow> org_people \<Rightarrow> string option \<Rightarrow> string \<Rightarrow> bool \<Rightarrow> string \<Rightarrow> ms \<Rightarrow> tools_part \<Rightarrow>
    approval_view approval_reply \<times> tools_part" where
  "decide_approval sv pe viewer i approve who now p =
     (case approval_at i now (tp_rows p) of
        None \<Rightarrow> (ApprovalNotFound, p)
      | Some r \<Rightarrow>
          (case view_approval sv pe r viewer now (tp_rows p) of
             SealBroken \<Rightarrow> (ApprovalThrew, p)
           | Opened None \<Rightarrow> (ApprovalNotFound, p)
           | Opened (Some _) \<Rightarrow>
               if \<not> viewer_may_decide pe r viewer then (ApprovalForbidden, p)
               else if ap_status r \<noteq> ApprovalPending then (ApprovalConflict, p)
               else (let p' = with_rows (decide_row i (if approve then ApprovalApproved else ApprovalDenied) who now (tp_rows p)) p
                     in (get_approval sv pe viewer i now p', p'))))"

datatype run_wait_state = RunWaiting | RunReady | RunExpired | RunGone

definition run_wait_approval :: "string \<Rightarrow> string \<Rightarrow> ms \<Rightarrow> tools_part \<Rightarrow> run_wait_state" where
  "run_wait_approval run i now p =
     (case held_approval i (tp_rows p) of
        None \<Rightarrow> RunGone
      | Some r \<Rightarrow>
          if ap_principal r \<noteq> run_principal_id run then RunGone
          else if ap_expires r \<le> now then RunExpired
          else if ap_status r = ApprovalPending \<and> \<not> ap_settled r then RunWaiting else RunReady)"

subsection \<open>The Tools part: rules, tools and members that change\<close>

fun approver_json :: "approver \<Rightarrow> json" where
  "approver_json CallerApprover = JObj [(''kind'', JStr ''caller'')]"
| "approver_json (TeamApprover i) = JObj [(''kind'', JStr ''team''), (''id'', JStr i)]"
| "approver_json (MembersApprover is) = JObj [(''kind'', JStr ''members''), (''ids'', JArr (map JStr is))]"

definition same_approver :: "approval_services \<Rightarrow> approver \<Rightarrow> approver \<Rightarrow> bool" where
  "same_approver sv a b \<longleftrightarrow>
     canonical_json (as_number sv) (approver_json a) = canonical_json (as_number sv) (approver_json b)"

definition orphaned :: "approval_services \<Rightarrow> approval_toolkit option \<Rightarrow> approval_row \<Rightarrow> bool" where
  "orphaned sv tk r \<longleftrightarrow>
     (case tk of
        None \<Rightarrow> True
      | Some t \<Rightarrow>
          (case map_of (at_tools t) (ap_upstream r) of
             None \<Rightarrow> True
           | Some cls \<Rightarrow>
               (case approver_for (at_rules t) (ap_upstream r) cls of
                  None \<Rightarrow> True
                | Some a \<Rightarrow> \<not> same_approver sv a (ap_approver r))))"

definition drop_orphaned :: "approval_services \<Rightarrow> string \<Rightarrow> tools_part \<Rightarrow> tools_part" where
  "drop_orphaned sv i p =
     with_rows (delete_rows
       (map ap_id (filter (orphaned sv (toolkit_of i p)) (filter (\<lambda>r. ap_toolkit r = i) (tp_rows p)))) (tp_rows p)) p"

definition with_toolkit :: "string \<Rightarrow> (approval_toolkit \<Rightarrow> approval_toolkit) \<Rightarrow> tools_part \<Rightarrow> tools_part" where
  "with_toolkit i f p = p\<lparr>tp_toolkits := map (\<lambda>tk. if at_id tk = i then f tk else tk) (tp_toolkits p)\<rparr>"

datatype rules_change = KeepRules | ClearRules | WriteRules given_rules

text \<open>The first approver that the org does not have: a team, or a member of a list.\<close>

definition missing_approver :: "(string \<Rightarrow> bool) \<Rightarrow> (string \<Rightarrow> bool) \<Rightarrow> approver \<Rightarrow> string option" where
  "missing_approver is_team is_member a =
     (case a of
        CallerApprover \<Rightarrow> None
      | TeamApprover i \<Rightarrow> if is_team i then None else Some (''the org has no team '' @ i)
      | MembersApprover is \<Rightarrow>
          (case List.find (\<lambda>i. \<not> is_member i) is of None \<Rightarrow> None | Some i \<Rightarrow> Some (''the org has no member '' @ i)))"

definition changed_rules :: "(string \<Rightarrow> bool) \<Rightarrow> (string \<Rightarrow> bool) \<Rightarrow> approval_toolkit \<Rightarrow> rules_change \<Rightarrow>
    string + approval_rules option" where
  "changed_rules is_team is_member tk change =
     (case change of
        KeepRules \<Rightarrow> Inr (at_rules tk)
      | ClearRules \<Rightarrow> Inr None
      | WriteRules given \<Rightarrow>
          (case clean_approval_rules (at_id tk) given of
             Inl refused \<Rightarrow> Inl refused
           | Inr ru \<Rightarrow>
               (case first_some (missing_approver is_team is_member) (approvers_of ru) of
                  Some refused \<Rightarrow> Inl refused
                | None \<Rightarrow> Inr (if no_rules ru then None else Some ru))))"

definition set_rules :: "approval_services \<Rightarrow> (string \<Rightarrow> bool) \<Rightarrow> (string \<Rightarrow> bool) \<Rightarrow> string \<Rightarrow> rules_change \<Rightarrow> tools_part \<Rightarrow>
    string option \<times> tools_part" where
  "set_rules sv is_team is_member i change p =
     (case toolkit_of i p of
        None \<Rightarrow> (Some ''toolkit not found'', p)
      | Some tk \<Rightarrow>
          (case changed_rules is_team is_member tk change of
             Inl refused \<Rightarrow> (Some refused, p)
           | Inr ru \<Rightarrow> (None, drop_orphaned sv i (with_toolkit i (\<lambda>t. t\<lparr>at_rules := ru\<rparr>) p))))"

text \<open>An override of a tool resolves the toolkit's tools anew and drops what they orphan; a built tool list does not.\<close>

definition override_tools :: "approval_services \<Rightarrow> string \<Rightarrow> (string, tool_class) js_map \<Rightarrow> tools_part \<Rightarrow> tools_part" where
  "override_tools sv i tools p = drop_orphaned sv i (with_toolkit i (\<lambda>t. t\<lparr>at_tools := tools\<rparr>) p)"

definition rebuild_tools :: "string \<Rightarrow> (string, tool_class) js_map \<Rightarrow> tools_part \<Rightarrow> tools_part" where
  "rebuild_tools i tools p = with_toolkit i (\<lambda>t. t\<lparr>at_tools := tools\<rparr>) p"

definition add_toolkit :: "approval_toolkit \<Rightarrow> tools_part \<Rightarrow> tools_part" where
  "add_toolkit tk p =
     (if at_id tk \<in> at_id ` set (tp_toolkits p) then p else p\<lparr>tp_toolkits := tp_toolkits p @ [tk\<lparr>at_rules := None\<rparr>]\<rparr>)"

definition delete_toolkits :: "(approval_toolkit \<Rightarrow> bool) \<Rightarrow> tools_part \<Rightarrow> tools_part" where
  "delete_toolkits gone p =
     (let ids = map at_id (filter gone (tp_toolkits p))
      in \<lparr>tp_rows = filter (\<lambda>r. ap_toolkit r \<notin> set ids) (tp_rows p),
          tp_toolkits = filter (\<lambda>tk. \<not> gone tk) (tp_toolkits p)\<rparr>)"

definition remove_toolkit :: "string \<Rightarrow> tools_part \<Rightarrow> tools_part" where
  "remove_toolkit i p = delete_toolkits (\<lambda>tk. at_id tk = i \<and> \<not> at_built_in tk) p"

definition forget_approver :: "string \<Rightarrow> approval_toolkit \<Rightarrow> approval_toolkit" where
  "forget_approver member tk =
     (if at_built_in tk then tk
      else (case Option.bind (at_rules tk) (\<lambda>ru. rules_without_member ru member) of
              None \<Rightarrow> tk
            | Some ru \<Rightarrow> tk\<lparr>at_rules := Some ru\<rparr>))"

definition approvals_member_left :: "string \<Rightarrow> tools_part \<Rightarrow> tools_part" where
  "approvals_member_left member p =
     (let p1 = delete_toolkits (\<lambda>tk. \<not> at_built_in tk \<and> at_owner tk = Some member) p
      in p1\<lparr>tp_rows := delete_member_rows member (without_member member) (tp_rows p1),
            tp_toolkits := map (forget_approver member) (tp_toolkits p1)\<rparr>)"

end
