(* ===== verification/Approval_Properties.thy ===== *)
theory Approval_Properties
  imports Approvals
begin

text \<open>
  What approvals promise, over the part's operations in any order (\<open>approvals_step\<close>, \<open>approvals_history\<close>): each call
  that goes through on an approval is paid for by a decision of someone entitled to it, a pending approval waits on the
  rule as it stands, a form answers the call it was sent for and only once, and arguments are matched whatever order
  their keys came in.
\<close>

subsection \<open>The part's operations in any order\<close>

datatype approvals_event =
    CallEvent org_people string tool_call ms
  | DecideEvent org_people "string option" string bool string ms
  | RulesEvent "string \<Rightarrow> bool" "string \<Rightarrow> bool" string rules_change
  | OverrideEvent string "(string, tool_class) js_map"
  | RebuildEvent string "(string, tool_class) js_map"
  | AddEvent approval_toolkit
  | RemoveEvent string
  | LeaveEvent string
  | WakeEvent ms

datatype approvals_answer =
    CallAnswer call_outcome
  | DecideAnswer "approval_view approval_reply"
  | RulesAnswer "string option"
  | NoAnswer

fun approvals_step :: "approval_services \<Rightarrow> approvals_event \<Rightarrow> tools_part \<Rightarrow> approvals_answer \<times> tools_part" where
  "approvals_step sv (CallEvent pe draw c now) p = map_prod CallAnswer id (approve_call sv pe draw c now p)"
| "approvals_step sv (DecideEvent pe viewer i approve who now) p =
     map_prod DecideAnswer id (decide_approval sv pe viewer i approve who now p)"
| "approvals_step sv (RulesEvent is_team is_member i change) p =
     map_prod RulesAnswer id (set_rules sv is_team is_member i change p)"
| "approvals_step sv (OverrideEvent i tools) p = (NoAnswer, override_tools sv i tools p)"
| "approvals_step sv (RebuildEvent i tools) p = (NoAnswer, rebuild_tools i tools p)"
| "approvals_step sv (AddEvent tk) p = (NoAnswer, add_toolkit tk p)"
| "approvals_step sv (RemoveEvent i) p = (NoAnswer, remove_toolkit i p)"
| "approvals_step sv (LeaveEvent member) p = (NoAnswer, approvals_member_left member p)"
| "approvals_step sv (WakeEvent now) p = (NoAnswer, wake_part now p)"

fun approvals_run :: "approval_services \<Rightarrow> approvals_event list \<Rightarrow> tools_part \<Rightarrow> tools_part" where
  "approvals_run sv [] p = p"
| "approvals_run sv (e # es) p = approvals_run sv es (snd (approvals_step sv e p))"

fun approvals_history :: "approval_services \<Rightarrow> approvals_event list \<Rightarrow> tools_part \<Rightarrow>
    (tools_part \<times> approvals_event \<times> approvals_answer) list" where
  "approvals_history sv [] p = []"
| "approvals_history sv (e # es) p =
     (p, e, fst (approvals_step sv e p)) # approvals_history sv es (snd (approvals_step sv e p))"

text \<open>Whose call it is: tool, arguments' hash, and the member, or the principal of a caller without one.\<close>

definition call_id :: "'a approval_key_scheme \<Rightarrow> string \<times> string \<times> string \<times> string \<times> string" where
  "call_id key = (ky_toolkit key, ky_upstream key, ky_hash key, or_blank (ky_member key),
     if or_blank (ky_member key) = [] then ky_principal key else [])"

definition row_call :: "approval_row \<Rightarrow> string \<times> string \<times> string \<times> string \<times> string" where
  "row_call r = (ap_toolkit r, ap_upstream r, ap_hash r, ap_member r, if ap_member r = [] then ap_principal r else [])"

lemma of_call_row: "of_call key r \<longleftrightarrow> row_call r = call_id key"
  by (auto simp: of_call_def row_call_def call_id_def)

lemma row_call_new [simp]: "row_call (new_row i a now form args) = call_id a"
  by (simp add: row_call_def call_id_def new_row_def)

subsection \<open>Rows\<close>

definition ids_distinct :: "approval_row list \<Rightarrow> bool" where
  "ids_distinct rows \<longleftrightarrow> distinct (map ap_id rows)"

lemma ids_distinct_Nil [simp]: "ids_distinct []"
  by (simp add: ids_distinct_def)

lemma ids_distinct_filter [simp, intro]: "ids_distinct rows \<Longrightarrow> ids_distinct (filter P rows)"
  by (simp add: ids_distinct_def distinct_map_filter)

lemma ids_distinct_map: "(\<And>r. ap_id (f r) = ap_id r) \<Longrightarrow> ids_distinct (map f rows) = ids_distinct rows"
  by (simp add: ids_distinct_def comp_def)

lemma ids_distinct_insert: "insert_approval r rows = Some rows' \<Longrightarrow> ids_distinct rows \<Longrightarrow> ids_distinct rows'"
  by (auto simp: insert_approval_def ids_distinct_def split: if_splits)

lemma ids_distinct_eq: "ids_distinct rows \<Longrightarrow> r \<in> set rows \<Longrightarrow> q \<in> set rows \<Longrightarrow> ap_id r = ap_id q \<Longrightarrow> r = q"
  by (simp add: ids_distinct_def distinct_map inj_on_def)

lemma prune_rows_filter: "snd (prune_rows now rows) = filter (live_approval now) rows"
  by (simp add: prune_rows_def Let_def live_approval_def [abs_def] not_le)

text \<open>How counting changes when rows change.\<close>

definition count_rows :: "(approval_row \<Rightarrow> bool) \<Rightarrow> approval_row list \<Rightarrow> nat" where
  "count_rows W rows = length (filter W rows)"

lemma count_rows_filter: "count_rows W (filter P rows) \<le> count_rows W rows"
  by (induction rows) (auto simp: count_rows_def)

lemma count_rows_map: "(\<And>r. r \<in> set rows \<Longrightarrow> W (f r) \<Longrightarrow> W r) \<Longrightarrow> count_rows W (map f rows) \<le> count_rows W rows"
  by (induction rows) (auto simp: count_rows_def le_SucI)

lemma count_rows_insert:
  "insert_approval r rows = Some rows' \<Longrightarrow> \<not> W r \<Longrightarrow> count_rows W rows' = count_rows W rows"
  by (auto simp: insert_approval_def count_rows_def split: if_splits)

lemma count_rows_less:
  assumes "\<And>r. r \<in> set rows \<Longrightarrow> W (f r) \<Longrightarrow> W r" and "q \<in> set rows" "W q" "\<not> W (f q)"
  shows "count_rows W (map f rows) < count_rows W rows"
  using assms
proof (induction rows)
  case (Cons r rows)
  have le: "count_rows W (map f rows) \<le> count_rows W rows" using Cons.prems(1) by (intro count_rows_map) auto
  show ?case
  proof (cases "q = r")
    case True
    with Cons.prems le show ?thesis by (simp add: count_rows_def)
  next
    case False
    with Cons have "count_rows W (map f rows) < count_rows W rows" by simp
    with Cons.prems(1) show ?thesis by (auto simp: count_rows_def)
  qed
qed simp

lemma count_rows_one_more:
  assumes "ids_distinct rows" and "\<And>r. r \<in> set rows \<Longrightarrow> ap_id r \<noteq> i \<Longrightarrow> f r = r"
  shows "count_rows W (map f rows) \<le> Suc (count_rows W rows)"
  using assms
proof (induction rows)
  case (Cons r rows)
  show ?case
  proof (cases "ap_id r = i")
    case True
    with Cons.prems(1) have "\<forall>q \<in> set rows. ap_id q \<noteq> i" by (auto simp: ids_distinct_def image_iff)
    with Cons.prems(2) have "map f rows = rows" by (intro map_idI) simp
    then show ?thesis by (simp add: count_rows_def)
  next
    case False
    with Cons show ?thesis by (simp add: count_rows_def ids_distinct_def)
  qed
qed (simp add: count_rows_def)

lemma unsettled_Some:
  assumes "unsettled_approval key now rows = Some r"
  shows "r \<in> set rows" "of_call key r" "\<not> ap_settled r" "\<not> ap_form r" "live_approval now r"
proof -
  have "r \<in> set (newest_approvals (filter (\<lambda>r. of_call key r \<and> \<not> ap_settled r \<and> \<not> ap_form r \<and> live_approval now r) rows))"
    using assms by (auto simp: unsettled_approval_def split: list.splits)
  then show "r \<in> set rows" "of_call key r" "\<not> ap_settled r" "\<not> ap_form r" "live_approval now r"
    by (auto simp: newest_approvals_def)
qed

lemma approval_at_Some:
  "approval_at i now rows = Some r \<Longrightarrow> r \<in> set rows \<and> ap_id r = i \<and> \<not> ap_form r \<and> live_approval now r"
  using find_SomeD by (fastforce simp: approval_at_def)

subsection \<open>Each call that goes through is paid for by a decision\<close>

definition call_passed :: "approval_services \<Rightarrow> string \<times> string \<times> string \<times> string \<times> string \<Rightarrow>
    tools_part \<times> approvals_event \<times> approvals_answer \<Rightarrow> bool" where
  "call_passed sv k h =
     (case snd h of
        (CallEvent pe draw c now, CallAnswer (GoOn ApprovedInPanel)) \<Rightarrow> call_id (call_key sv c) = k
      | _ \<Rightarrow> False)"

text \<open>Someone who may decide it approved a live pending approval of the call.\<close>

definition call_approved :: "string \<times> string \<times> string \<times> string \<times> string \<Rightarrow>
    tools_part \<times> approvals_event \<times> approvals_answer \<Rightarrow> bool" where
  "call_approved k h =
     (case h of
        (p, DecideEvent pe viewer i True who now, DecideAnswer (ApprovalOk v)) \<Rightarrow>
          list_ex (\<lambda>r. ap_id r = i \<and> \<not> ap_form r \<and> live_approval now r \<and> ap_status r = ApprovalPending \<and>
            row_call r = k \<and> viewer_may_decide pe r viewer) (tp_rows p)
      | _ \<Rightarrow> False)"

definition waits_for_call :: "string \<times> string \<times> string \<times> string \<times> string \<Rightarrow> approval_row \<Rightarrow> bool" where
  "waits_for_call k r \<longleftrightarrow> row_call r = k \<and> ap_status r = ApprovalApproved \<and> \<not> ap_settled r \<and> \<not> ap_form r"

lemma take_form_rows:
  assumes "take_form sv st key now rows = (b, rows')"
  shows "ids_distinct rows' = ids_distinct rows" "count_rows (waits_for_call k) rows' \<le> count_rows (waits_for_call k) rows"
proof -
  from assms obtain f where f: "rows' = map f rows"
    "\<And>r. ap_id (f r) = ap_id r" "\<And>r. waits_for_call k (f r) \<Longrightarrow> waits_for_call k r"
  proof (cases "rows' = rows")
    case True
    then show ?thesis by (intro that [of "\<lambda>r. r"]) auto
  next
    case False
    with assms show ?thesis
      by (auto simp: take_form_def Let_def waits_for_call_def row_call_def split: option.splits if_splits
          intro!: that)
  qed
  show "ids_distinct rows' = ids_distinct rows" unfolding f(1) by (rule ids_distinct_map) (rule f(2))
  show "count_rows (waits_for_call k) rows' \<le> count_rows (waits_for_call k) rows"
    unfolding f(1) by (rule count_rows_map) (rule f(3))
qed

lemma not_waiting_new [simp]: "\<not> waits_for_call k (new_row i a now form args)"
  by (simp add: waits_for_call_def new_row_def)

lemma tp_with_rows [simp]: "tp_rows (with_rows rows p) = rows" "tp_toolkits (with_rows rows p) = tp_toolkits p"
  by (simp_all add: with_rows_def)

lemma tp_wake [simp]:
  "tp_rows (wake_part now p) = filter (live_approval now) (tp_rows p)" "tp_toolkits (wake_part now p) = tp_toolkits p"
  by (simp_all add: wake_part_def prune_rows_filter)

text \<open>What an operation may do to the rows when no call passes and nothing is approved.\<close>

definition rows_kept :: "approval_row list \<Rightarrow> approval_row list \<Rightarrow> bool" where
  "rows_kept rows rows' \<longleftrightarrow>
     (ids_distinct rows \<longrightarrow> ids_distinct rows') \<and>
     (\<forall>k. count_rows (waits_for_call k) rows' \<le> count_rows (waits_for_call k) rows)"

lemma rows_kept_ids: "rows_kept rows rows' \<Longrightarrow> ids_distinct rows \<Longrightarrow> ids_distinct rows'"
  by (simp add: rows_kept_def)

lemma rows_kept_le: "rows_kept rows rows' \<Longrightarrow> count_rows (waits_for_call k) rows' \<le> count_rows (waits_for_call k) rows"
  unfolding rows_kept_def by blast

lemma rows_kept_refl [simp, intro]: "rows_kept rows rows"
  by (simp add: rows_kept_def)

lemma rows_kept_trans [trans]: "rows_kept a b \<Longrightarrow> rows_kept b c \<Longrightarrow> rows_kept a c"
  unfolding rows_kept_def using le_trans by blast

lemma rows_kept_filter [simp, intro]: "rows_kept rows (filter P rows)"
  by (simp add: rows_kept_def count_rows_filter)

lemma rows_kept_map:
  "(\<And>r. ap_id (f r) = ap_id r) \<Longrightarrow> (\<And>k r. waits_for_call k (f r) \<Longrightarrow> waits_for_call k r) \<Longrightarrow> rows_kept rows (map f rows)"
  by (auto simp: rows_kept_def ids_distinct_map intro: count_rows_map)

lemma rows_kept_insert: "insert_approval (new_row i a now form args) rows = Some rows' \<Longrightarrow> rows_kept rows rows'"
  by (auto simp: rows_kept_def count_rows_insert dest: ids_distinct_insert)

lemma rows_kept_take_form: "rows_kept rows (snd (take_form sv st key now rows))"
  using take_form_rows [of sv st key now rows] by (cases "take_form sv st key now rows") (auto simp: rows_kept_def)

lemma rows_kept_ask_form:
  assumes "ask_form sv draw a now p = (out, p')"
  shows "rows_kept (tp_rows p) (tp_rows p') \<and> tp_toolkits p' = tp_toolkits p \<and> out \<noteq> GoOn h"
proof (cases "insert_approval (new_row draw a now True None) (tp_rows p)")
  case (Some rows)
  from rows_kept_insert [OF this] have "rows_kept (tp_rows p) (filter (live_approval now) rows)"
    using rows_kept_trans by blast
  with Some assms show ?thesis by (auto simp: ask_form_def create_form_def)
qed (use assms in \<open>auto simp: ask_form_def create_form_def\<close>)

lemma rows_kept_wait:
  assumes "wait_approval sv draw a args now p = (out, p')"
  shows "rows_kept (tp_rows p) (tp_rows p') \<and> tp_toolkits p' = tp_toolkits p \<and> out \<noteq> GoOn h"
proof (cases "create_approval sv draw a args now (tp_rows p)")
  case (Some x)
  obtain r rows where x: "x = (r, rows)" by force
  with Some have "rows_kept (tp_rows p) rows"
    by (auto simp: create_approval_def split: option.splits intro: rows_kept_insert)
  then have "rows_kept (tp_rows p) (filter (live_approval now) rows)" using rows_kept_trans by blast
  with Some x assms show ?thesis by (auto simp: wait_approval_def)
qed (use assms in \<open>auto simp: wait_approval_def\<close>)

lemma rows_kept_settle: "rows_kept rows (settle_row i rows)"
  unfolding settle_row_def by (rule rows_kept_map) (auto simp: waits_for_call_def row_call_def split: if_splits)

lemma match_approval_rows:
  assumes "match_approval sv pe draw c a now p = (out, p')"
  shows "rows_kept (tp_rows p) (tp_rows p')" "tp_toolkits p' = tp_toolkits p"
    "out = GoOn h \<Longrightarrow> h = ApprovedInPanel \<and>
      count_rows (waits_for_call (call_id (call_key sv c))) (tp_rows p') <
      count_rows (waits_for_call (call_id (call_key sv c))) (tp_rows p)"
proof -
  let ?k = "call_id (call_key sv c)"
  have "rows_kept (tp_rows p) (tp_rows p') \<and> tp_toolkits p' = tp_toolkits p \<and>
    (out = GoOn h \<longrightarrow> h = ApprovedInPanel \<and>
      count_rows (waits_for_call ?k) (tp_rows p') < count_rows (waits_for_call ?k) (tp_rows p))"
  proof (cases "unsettled_approval (call_key sv c) now (tp_rows p)")
    case None
    then show ?thesis
      using assms rows_kept_wait by (fastforce simp: match_approval_def Let_def split: if_splits)
  next
    case (Some r)
    note r = unsettled_Some [OF Some]
    have "count_rows (waits_for_call ?k) (settle_row (ap_id r) (tp_rows p)) < count_rows (waits_for_call ?k) (tp_rows p)"
      if "ap_status r = ApprovalApproved"
      unfolding settle_row_def using r that
      by (intro count_rows_less [where q = r]) (auto simp: waits_for_call_def row_call_def of_call_row split: if_splits)
    with Some assms show ?thesis
      by (cases "ap_status r") (auto simp: match_approval_def Let_def rows_kept_settle split: if_splits)
  qed
  then show "rows_kept (tp_rows p) (tp_rows p')" "tp_toolkits p' = tp_toolkits p"
    "out = GoOn h \<Longrightarrow> h = ApprovedInPanel \<and>
      count_rows (waits_for_call ?k) (tp_rows p') < count_rows (waits_for_call ?k) (tp_rows p)" by blast+
qed

lemma approve_call_rows:
  assumes "approve_call sv pe draw c now p = (out, p')"
  shows "rows_kept (tp_rows p) (tp_rows p')" "tp_toolkits p' = tp_toolkits p"
    "out = GoOn ApprovedInPanel \<Longrightarrow>
      count_rows (waits_for_call (call_id (call_key sv c))) (tp_rows p') <
      count_rows (waits_for_call (call_id (call_key sv c))) (tp_rows p)"
proof -
  let ?less = "count_rows (waits_for_call (call_id (call_key sv c))) (tp_rows p') <
      count_rows (waits_for_call (call_id (call_key sv c))) (tp_rows p)"
  have "p' = p \<and> out \<noteq> GoOn ApprovedInPanel \<or> (\<exists>a. match_approval sv pe draw c a now p = (out, p')) \<or>
      (\<exists>st. p' = with_rows (snd (take_form sv st (call_key sv c) now (tp_rows p))) p \<and> out \<noteq> GoOn ApprovedInPanel) \<or>
      (\<exists>a rows. rows_kept (tp_rows p) rows \<and> ask_form sv draw a now (with_rows rows p) = (out, p'))"
    using assms rows_kept_take_form [of "tp_rows p" sv _ "call_key sv c" now]
    by (auto simp: approve_call_def approval_of_def Let_def
        split: option.splits approver.splits if_splits prod.splits)
  then have "rows_kept (tp_rows p) (tp_rows p') \<and> tp_toolkits p' = tp_toolkits p \<and>
      (out = GoOn ApprovedInPanel \<longrightarrow> ?less)"
  proof (elim disjE exE conjE)
    fix a
    assume "match_approval sv pe draw c a now p = (out, p')"
    from match_approval_rows [OF this] show ?thesis by blast
  next
    fix a rows
    assume "rows_kept (tp_rows p) rows" and "ask_form sv draw a now (with_rows rows p) = (out, p')"
    with rows_kept_ask_form [of sv draw a now "with_rows rows p" out p'] show ?thesis
      by (auto intro: rows_kept_trans)
  qed (simp_all add: rows_kept_take_form)
  then show "rows_kept (tp_rows p) (tp_rows p')" "tp_toolkits p' = tp_toolkits p" "out = GoOn ApprovedInPanel \<Longrightarrow> ?less"
    by blast+
qed

lemma decide_rows_kept:
  "decision = ApprovalDenied \<Longrightarrow> rows_kept rows (decide_row i decision who now rows)"
  unfolding decide_row_def by (rule rows_kept_map) (auto simp: waits_for_call_def row_call_def split: if_splits)

lemma decide_ids [simp]: "ids_distinct (decide_row i decision who now rows) = ids_distinct rows"
  unfolding decide_row_def by (rule ids_distinct_map) simp

lemma viewer_may_decide_cong:
  "ap_approver r = ap_approver q \<Longrightarrow> ap_member r = ap_member q \<Longrightarrow> ap_principal r = ap_principal q \<Longrightarrow>
   viewer_may_decide pe r viewer = viewer_may_decide pe q viewer"
  by (simp add: viewer_may_decide_def callers_of_def caller_member_def split: option.split)

text \<open>The row that was decided is shown to who decided it.\<close>

lemma decided_row_shown:
  assumes "ids_distinct rows" and r: "approval_at i now rows = Some r" and "viewer_may_decide pe r viewer"
    and "ap_status r = ApprovalPending" and d: "decision \<noteq> ApprovalPending"
  shows "\<exists>v. get_approval sv pe viewer i now (with_rows (decide_row i decision who now rows) p) = ApprovalOk v"
proof -
  note r' = approval_at_Some [OF r]
  define q where "q = r\<lparr>ap_status := decision, ap_decided := Some now, ap_decided_by := Some who, ap_arguments := None\<rparr>"
  have "q \<in> set (decide_row i decision who now rows)"
    using r' assms(4) by (force simp: decide_row_def q_def)
  moreover have q: "ap_id q = i \<and> \<not> ap_form q \<and> live_approval now q" using r' by (simp add: q_def live_approval_def)
  ultimately obtain x where x: "approval_at i now (decide_row i decision who now rows) = Some x"
    by (cases "approval_at i now (decide_row i decision who now rows)") (auto simp: approval_at_def find_None_iff)
  have "x = q"
    using approval_at_Some [OF x] \<open>q \<in> _\<close> q assms(1)
    by (intro ids_distinct_eq [of "decide_row i decision who now rows"]) auto
  moreover have "viewer_may_decide pe q viewer"
    using assms(3) viewer_may_decide_cong [of q r] by (simp add: q_def)
  moreover have "ap_status q \<noteq> ApprovalPending" using d by (simp add: q_def)
  ultimately show ?thesis using x by (auto simp: get_approval_def view_approval_def Let_def)
qed

lemma decide_approval_rows:
  assumes "ids_distinct (tp_rows p)" and "decide_approval sv pe viewer i approve who now p = (reply, p')"
  shows "ids_distinct (tp_rows p')" "tp_toolkits p' = tp_toolkits p"
    "count_rows (waits_for_call k) (tp_rows p') \<le>
      count_rows (waits_for_call k) (tp_rows p) +
      of_bool (call_approved k (p, DecideEvent pe viewer i approve who now, DecideAnswer reply))"
proof -
  show i: "ids_distinct (tp_rows p')" "tp_toolkits p' = tp_toolkits p"
    using assms by (auto simp: decide_approval_def Let_def split: option.splits sealed_read.splits if_splits)
  show "count_rows (waits_for_call k) (tp_rows p') \<le> count_rows (waits_for_call k) (tp_rows p) +
      of_bool (call_approved k (p, DecideEvent pe viewer i approve who now, DecideAnswer reply))"
  proof (cases "approve \<and> p' \<noteq> p")
    case False
    then have "rows_kept (tp_rows p) (tp_rows p')"
      using assms(2) decide_rows_kept
      by (auto simp: decide_approval_def Let_def split: option.splits sealed_read.splits if_splits)
    from rows_kept_le [OF this] show ?thesis by (rule trans_le_add1)
  next
    case True
    with assms(2) obtain r where r: "approval_at i now (tp_rows p) = Some r" and d: "viewer_may_decide pe r viewer"
      and s: "ap_status r = ApprovalPending" and p': "p' = with_rows (decide_row i ApprovalApproved who now (tp_rows p)) p"
      and reply: "reply = get_approval sv pe viewer i now p'"
      by (auto simp: decide_approval_def Let_def split: option.splits sealed_read.splits if_splits)
    note r' = approval_at_Some [OF r]
    obtain v where v: "reply = ApprovalOk v"
      using decided_row_shown [OF assms(1) r d s, of ApprovalApproved sv who p] by (auto simp: reply p')
    show ?thesis
    proof (cases "row_call r = k")
      case True
      with r' d s v have "call_approved k (p, DecideEvent pe viewer i approve who now, DecideAnswer reply)"
        using \<open>approve \<and> p' \<noteq> p\<close> by (auto simp: call_approved_def list_ex_iff)
      then show ?thesis
        using count_rows_one_more [OF assms(1), where i = i and W = "waits_for_call k"]
        by (simp add: p' decide_row_def)
    next
      case False
      have "count_rows (waits_for_call k) (tp_rows p') \<le> count_rows (waits_for_call k) (tp_rows p)"
        unfolding p' decide_row_def tp_with_rows
      proof (rule count_rows_map)
        fix q
        assume q: "q \<in> set (tp_rows p)"
          and "waits_for_call k (if ap_id q = i \<and> ap_status q = ApprovalPending \<and> \<not> ap_form q
            then q\<lparr>ap_status := ApprovalApproved, ap_decided := Some now, ap_decided_by := Some who, ap_arguments := None\<rparr> else q)"
        then show "waits_for_call k q"
          using ids_distinct_eq [OF assms(1) q, of r] r' False
          by (auto simp: waits_for_call_def row_call_def split: if_splits)
      qed
      then show ?thesis by simp
    qed
  qed
qed

lemma other_rows_kept:
  "rows_kept (tp_rows p) (tp_rows (drop_orphaned sv i p))"
  "rows_kept (tp_rows p) (tp_rows (delete_toolkits gone p))"
  "rows_kept rows (delete_member_rows member without rows)"
proof -
  show "rows_kept (tp_rows p) (tp_rows (drop_orphaned sv i p))"
    by (simp add: drop_orphaned_def delete_rows_def)
  show "rows_kept (tp_rows p) (tp_rows (delete_toolkits gone p))"
    by (simp add: delete_toolkits_def Let_def)
  have "rows_kept (filter (\<lambda>r. ap_member r \<noteq> member) rows) (delete_member_rows member without rows)"
    unfolding delete_member_rows_def
    by (rule rows_kept_map) (auto simp: waits_for_call_def row_call_def split: if_splits)
  then show "rows_kept rows (delete_member_rows member without rows)" using rows_kept_trans by blast
qed

lemma tp_with_toolkit [simp]: "tp_rows (with_toolkit i f p) = tp_rows p"
  by (simp add: with_toolkit_def)

text \<open>One step: passes and approvals waiting never exceed approvals waiting before and approvals given.\<close>

lemma approvals_step_count:
  assumes d: "ids_distinct (tp_rows p)" and s: "approvals_step sv e p = (a, p')"
  shows "ids_distinct (tp_rows p')"
    "of_bool (call_passed sv k (p, e, a)) + count_rows (waits_for_call k) (tp_rows p') \<le>
      of_bool (call_approved k (p, e, a)) + count_rows (waits_for_call k) (tp_rows p)"
proof -
  have "ids_distinct (tp_rows p') \<and>
    of_bool (call_passed sv k (p, e, a)) + count_rows (waits_for_call k) (tp_rows p') \<le>
      of_bool (call_approved k (p, e, a)) + count_rows (waits_for_call k) (tp_rows p)"
  proof (cases "\<exists>pe draw c now. e = CallEvent pe draw c now")
    case True
    then obtain pe draw c now where e: "e = CallEvent pe draw c now" by blast
    obtain out where o: "approve_call sv pe draw c now p = (out, p')" and a: "a = CallAnswer out"
      using s by (cases "approve_call sv pe draw c now p") (auto simp: e)
    have "call_passed sv k (p, e, a) \<longleftrightarrow> out = GoOn ApprovedInPanel \<and> call_id (call_key sv c) = k"
      by (auto simp: call_passed_def e a split: call_outcome.splits approved_how.splits)
    with approve_call_rows [OF o] d show ?thesis
      using rows_kept_ids [OF approve_call_rows(1) [OF o]] rows_kept_le [OF approve_call_rows(1) [OF o], of k] by auto
  next
    case False
    then have n: "\<not> call_passed sv k (p, e, a)" by (auto simp: call_passed_def split: approvals_event.splits)
    show ?thesis
    proof (cases "\<exists>pe viewer i approve who now. e = DecideEvent pe viewer i approve who now")
      case True
      then obtain pe viewer i approve who now where e: "e = DecideEvent pe viewer i approve who now" by blast
      obtain reply where o: "decide_approval sv pe viewer i approve who now p = (reply, p')" and a: "a = DecideAnswer reply"
        using s by (cases "decide_approval sv pe viewer i approve who now p") (auto simp: e)
      from decide_approval_rows(1) [OF d o] decide_approval_rows(3) [OF d o, of k] n show ?thesis by (simp add: e a)
    next
      case False
      have "rows_kept (tp_rows p) (tp_rows p')"
      proof (cases e)
        case (LeaveEvent m)
        then show ?thesis
          using s by (auto simp: approvals_member_left_def Let_def
              intro: rows_kept_trans [OF other_rows_kept(2) other_rows_kept(3)])
      qed (use s \<open>\<nexists>pe draw c now. e = CallEvent pe draw c now\<close> False other_rows_kept(1) [of "with_toolkit _ _ p" sv]
          in \<open>auto simp: set_rules_def override_tools_def rebuild_tools_def add_toolkit_def remove_toolkit_def
            other_rows_kept(2) split: option.splits sum.splits\<close>)
      with d n show ?thesis using rows_kept_ids rows_kept_le by (simp add: trans_le_add2)
    qed
  qed
  then show "ids_distinct (tp_rows p')"
    "of_bool (call_passed sv k (p, e, a)) + count_rows (waits_for_call k) (tp_rows p') \<le>
      of_bool (call_approved k (p, e, a)) + count_rows (waits_for_call k) (tp_rows p)" by blast+
qed

lemma approvals_history_count:
  "ids_distinct (tp_rows p) \<Longrightarrow>
   length (filter (call_passed sv k) (approvals_history sv es p)) \<le>
   length (filter (call_approved k) (approvals_history sv es p)) + count_rows (waits_for_call k) (tp_rows p)"
proof (induction es arbitrary: p)
  case (Cons e es)
  obtain a p' where s: "approvals_step sv e p = (a, p')" by force
  from approvals_step_count(1) [OF Cons.prems s] have "ids_distinct (tp_rows p')" .
  from Cons.IH [OF this] approvals_step_count(2) [OF Cons.prems s, of k] show ?case
    by (cases "call_passed sv k (p, e, a)"; cases "call_approved k (p, e, a)") (simp_all add: s)
qed simp

text \<open>A toolkit whose writes wait for a list, its org, and the services that a witness runs with.\<close>

definition sample_sealing :: approval_services where
  "sample_sealing = \<lparr>as_seal = (\<lambda>t c. c @ ''|'' @ t),
     as_open = (\<lambda>s c. if starts_with s (c @ ''|'') then Some (drop (Suc (length c)) s) else None),
     as_number = (\<lambda>q. show_int (fst (quotient_of q))), as_sha = (\<lambda>t. t)\<rparr>"

definition sample_people :: org_people where
  "sample_people = \<lparr>op_watchers = None, op_teams = (\<lambda>m. [])\<rparr>"

definition sample_toolkits :: tools_part where
  "sample_toolkits = \<lparr>tp_rows = [],
     tp_toolkits = [\<lparr>at_id = ''tk'', at_built_in = False, at_owner = None,
       at_rules = Some \<lparr>rl_writes = Some (MembersApprover [''ann'', ''bob'']), rl_tools = []\<rparr>,
       at_tools = [(''post'', WriteTool), (''get'', ReadTool)]\<rparr>]\<rparr>"

definition sample_call :: tool_call where
  "sample_call = \<lparr>tc_toolkit = ''tk'', tc_upstream = ''post'', tc_tool_name = ''x_post'', tc_slot = SharedSlot,
     tc_member = Some ''ann'', tc_run = None, tc_principal = Some ''user:ann'',
     tc_arguments = Some [(''a'', JNum 1)], tc_form = None\<rparr>"

definition sample_approval_events :: "approvals_event list" where
  "sample_approval_events =
     [CallEvent sample_people ''ap_1'' sample_call 0, DecideEvent sample_people (Some ''ann'') ''ap_1'' True ''user:ann'' 1,
      DecideEvent sample_people (Some ''bob'') ''ap_1'' True ''user:bob'' 2, CallEvent sample_people ''ap_2'' sample_call 3,
      CallEvent sample_people ''ap_3'' sample_call 4]"

text \<open>C25. However calls, decisions, rules, tools and members come and go, the calls that went through on an approval are
  never more than the approvals given for just that call (the same caller, tool and arguments' hash) by someone who may
  decide it: each approval lets one call through.\<close>

theorem each_pass_needs_its_approval:
  assumes "tp_rows p = []"
  shows "length (filter (call_passed sv k) (approvals_history sv es p)) \<le>
    length (filter (call_approved k) (approvals_history sv es p))"
  using approvals_history_count [of p sv k es] assms by (simp add: count_rows_def)

theorem each_pass_needs_its_approval_witness:
  "tp_rows sample_toolkits = [] \<and>
   length (filter (call_passed sample_sealing (call_id (call_key sample_sealing sample_call)))
     (approvals_history sample_sealing sample_approval_events sample_toolkits)) = 1 \<and>
   length (filter (call_approved (call_id (call_key sample_sealing sample_call)))
     (approvals_history sample_sealing sample_approval_events sample_toolkits)) \<ge> 1"
  (is "?a \<and> ?b = 1 \<and> _")
proof -
  have a: ?a by (simp add: sample_toolkits_def)
  have b: "?b = 1" by code_simp
  from each_pass_needs_its_approval [OF a, of sample_sealing "call_id (call_key sample_sealing sample_call)" sample_approval_events]
  show ?thesis using a b by simp
qed

subsection \<open>A pending approval waits on the rule as it stands\<close>

lemma same_approver_eq [simp]: "same_approver sv a b \<longleftrightarrow> a = b"
proof -
  have ok: "json_ok (as_number sv) (approver_json x)" for x by (cases x) (auto simp: distinct_keys_def)
  have "list_all2 same_json (map JStr xs) (map JStr ys) \<longleftrightarrow> xs = ys" for xs ys
    by (auto simp: list_all2_conv_all_nth list_eq_iff_nth_eq)
  then have "same_json (approver_json a) (approver_json b) \<longleftrightarrow> a = b" by (cases a; cases b) auto
  then show ?thesis using canonical_json_same [OF ok ok] by (simp add: same_approver_def)
qed

text \<open>The rule of a toolkit that a row waits on, and that it is the row's.\<close>

definition holds_row :: "approval_toolkit \<Rightarrow> approval_row \<Rightarrow> bool" where
  "holds_row tk r \<longleftrightarrow>
     (case map_of (at_tools tk) (ap_upstream r) of
        None \<Rightarrow> False
      | Some cls \<Rightarrow> approver_for (at_rules tk) (ap_upstream r) cls = Some (ap_approver r))"

lemma holds_row_cong: "ap_upstream r = ap_upstream q \<Longrightarrow> ap_approver r = ap_approver q \<Longrightarrow> holds_row tk r = holds_row tk q"
  by (simp add: holds_row_def split: option.split)

lemma orphaned_holds: "orphaned sv (Some tk) r \<longleftrightarrow> \<not> holds_row tk r"
  by (auto simp: orphaned_def holds_row_def split: option.splits)

definition part_ok :: "tools_part \<Rightarrow> bool" where
  "part_ok p \<longleftrightarrow> distinct (map at_id (tp_toolkits p)) \<and>
     (\<forall>r \<in> set (tp_rows p). \<exists>tk \<in> set (tp_toolkits p). at_id tk = ap_toolkit r \<and> (at_built_in tk \<or> holds_row tk r))"

lemma part_ok_rows:
  "part_ok p \<Longrightarrow> tp_toolkits p' = tp_toolkits p \<Longrightarrow>
   (\<And>r. r \<in> set (tp_rows p') \<Longrightarrow> \<exists>q \<in> set (tp_rows p). ap_toolkit r = ap_toolkit q \<and>
      ap_upstream r = ap_upstream q \<and> ap_approver r = ap_approver q) \<Longrightarrow> part_ok p'"
  unfolding part_ok_def holds_row_def by (simp, metis)

lemma part_ok_filter: "part_ok p \<Longrightarrow> tp_toolkits p' = tp_toolkits p \<Longrightarrow> set (tp_rows p') \<subseteq> set (tp_rows p) \<Longrightarrow> part_ok p'"
  by (rule part_ok_rows) auto

lemma toolkit_of_Some: "toolkit_of i p = Some tk \<Longrightarrow> tk \<in> set (tp_toolkits p) \<and> at_id tk = i"
  using find_SomeD by (fastforce simp: toolkit_of_def)

lemma toolkit_of_distinct:
  assumes "distinct (map at_id (tp_toolkits p))" and "tk \<in> set (tp_toolkits p)"
  shows "toolkit_of (at_id tk) p = Some tk"
proof -
  from assms(2) obtain t where t: "toolkit_of (at_id tk) p = Some t"
    by (cases "toolkit_of (at_id tk) p") (auto simp: toolkit_of_def find_None_iff)
  with toolkit_of_Some [OF t] assms show ?thesis by (auto simp: distinct_map inj_on_def)
qed

text \<open>Rows of an operation are old rows, or one new row of a toolkit's rule.\<close>

lemma settle_row_from: "r \<in> set (settle_row i rows) \<Longrightarrow> \<exists>q \<in> set rows. ap_toolkit r = ap_toolkit q \<and>
    ap_upstream r = ap_upstream q \<and> ap_approver r = ap_approver q"
  by (auto simp: settle_row_def)

lemma decide_row_from: "r \<in> set (decide_row i d who now rows) \<Longrightarrow> \<exists>q \<in> set rows. ap_toolkit r = ap_toolkit q \<and>
    ap_upstream r = ap_upstream q \<and> ap_approver r = ap_approver q"
  by (auto simp: decide_row_def)

lemma take_form_from: "r \<in> set (snd (take_form sv st key now rows)) \<Longrightarrow> \<exists>q \<in> set rows. ap_toolkit r = ap_toolkit q \<and>
    ap_upstream r = ap_upstream q \<and> ap_approver r = ap_approver q"
  by (auto simp: take_form_def Let_def split: option.splits if_splits)

definition from_call :: "approval_row list \<Rightarrow> tool_call \<Rightarrow> approver \<Rightarrow> approval_row \<Rightarrow> bool" where
  "from_call rows c a r \<longleftrightarrow>
     (\<exists>q \<in> set rows. ap_toolkit r = ap_toolkit q \<and> ap_upstream r = ap_upstream q \<and> ap_approver r = ap_approver q) \<or>
     ap_toolkit r = tc_toolkit c \<and> ap_upstream r = tc_upstream c \<and> ap_approver r = a"

lemma new_approval_fields [simp]:
  "ky_toolkit (new_approval_of (call_key sv c) c a) = tc_toolkit c"
  "ky_upstream (new_approval_of (call_key sv c) c a) = tc_upstream c"
  "na_approver (new_approval_of (call_key sv c) c a) = a"
  by (simp_all add: new_approval_of_def call_key_def approval_key.defs)

lemma insert_new_from:
  "insert_approval (new_row i (new_approval_of (call_key sv c) c a) now form args) rows = Some rows' \<Longrightarrow>
   r \<in> set rows' \<Longrightarrow> from_call rows c a r"
  by (auto simp: insert_approval_def from_call_def new_row_def split: if_splits)

lemma approval_of_from:
  assumes "approval_of sv pe draw c tk cls now p = (out, p')" and a: "approver_for (at_rules tk) (tc_upstream c) cls = Some a"
    and "r \<in> set (tp_rows p')"
  shows "from_call (tp_rows p) c a r"
proof -
  have ask: "from_call rows c a r" if "ask_form sv draw (new_approval_of (call_key sv c) c a) now (with_rows rows p) = (out, p')"
    for rows using that assms(3)
    by (auto simp: ask_form_def create_form_def split: option.splits intro: insert_new_from)
      (auto simp: from_call_def)
  have wait: "from_call (tp_rows p) c a r" if "wait_approval sv draw (new_approval_of (call_key sv c) c a) args now p = (out, p')"
    for args using that assms(3)
    by (auto simp: wait_approval_def create_approval_def split: option.splits intro: insert_new_from)
      (auto simp: from_call_def)
  have old: "from_call (tp_rows p) c a r" if "match_approval sv pe draw c a now p = (out, p')"
    using that assms(3) wait settle_row_from
    by (fastforce simp: match_approval_def Let_def from_call_def split: if_splits option.splits)
  have "from_call (tp_rows p) c a r" if "from_call (snd (take_form sv st key now (tp_rows p))) c a r" for st and key :: approval_key
    using that take_form_from by (fastforce simp: from_call_def)
  then show ?thesis
    using assms(1,3) ask [of "tp_rows p"] ask [of "snd (take_form sv _ (call_key sv c) now (tp_rows p))"] old take_form_from
    by (fastforce simp: approval_of_def a Let_def from_call_def split: approver.splits option.splits if_splits prod.splits)
qed

lemma part_ok_call:
  assumes ok: "part_ok p" and "approve_call sv pe draw c now p = (out, p')"
  shows "part_ok p'"
proof (cases "p' = p")
  case False
  with assms(2) obtain tk cls where tk: "toolkit_of (tc_toolkit c) p = Some tk" "map_of (at_tools tk) (tc_upstream c) = Some cls"
    and o: "approval_of sv pe draw c tk cls now p = (out, p')"
    by (auto simp: approve_call_def split: option.splits)
  from o False obtain a where a: "approver_for (at_rules tk) (tc_upstream c) cls = Some a"
    by (auto simp: approval_of_def split: option.splits)
  have t: "tp_toolkits p' = tp_toolkits p" using approve_call_rows(2) [OF assms(2)] .
  have "\<exists>t \<in> set (tp_toolkits p). at_id t = ap_toolkit r \<and> (at_built_in t \<or> holds_row t r)" if r: "r \<in> set (tp_rows p')" for r
  proof (cases "\<exists>q \<in> set (tp_rows p). ap_toolkit r = ap_toolkit q \<and> ap_upstream r = ap_upstream q \<and> ap_approver r = ap_approver q")
    case True
    then obtain q where q: "q \<in> set (tp_rows p)" "ap_toolkit r = ap_toolkit q" "ap_upstream r = ap_upstream q" "ap_approver r = ap_approver q"
      by blast
    from ok q(1) have "\<exists>t \<in> set (tp_toolkits p). at_id t = ap_toolkit q \<and> (at_built_in t \<or> holds_row t q)"
      by (simp add: part_ok_def)
    then show ?thesis using q by (simp add: holds_row_cong [of r q])
  next
    case False
    with approval_of_from [OF o a r] have "ap_toolkit r = tc_toolkit c" "ap_upstream r = tc_upstream c" "ap_approver r = a"
      unfolding from_call_def by blast+
    with toolkit_of_Some [OF tk(1)] tk(2) a have "at_id tk = ap_toolkit r \<and> holds_row tk r" by (simp add: holds_row_def)
    then show ?thesis using toolkit_of_Some [OF tk(1)] by blast
  qed
  with ok t show ?thesis by (simp add: part_ok_def)
qed (use ok in simp)

definition part_ok_but :: "string \<Rightarrow> tools_part \<Rightarrow> bool" where
  "part_ok_but i p \<longleftrightarrow> distinct (map at_id (tp_toolkits p)) \<and>
     (\<forall>r \<in> set (tp_rows p). \<exists>tk \<in> set (tp_toolkits p). at_id tk = ap_toolkit r \<and>
        (at_id tk = i \<or> at_built_in tk \<or> holds_row tk r))"

lemma part_ok_but_with_toolkit:
  assumes "part_ok p" and f: "\<And>tk. at_id (f tk) = at_id tk" "\<And>tk. at_built_in (f tk) = at_built_in tk"
  shows "part_ok_but i (with_toolkit i f p)"
proof -
  let ?g = "\<lambda>tk. if at_id tk = i then f tk else tk"
  have d: "map at_id (map ?g (tp_toolkits p)) = map at_id (tp_toolkits p)" by (simp add: comp_def f)
  have "\<exists>tk \<in> set (map ?g (tp_toolkits p)). at_id tk = ap_toolkit r \<and> (at_id tk = i \<or> at_built_in tk \<or> holds_row tk r)"
    if r: "r \<in> set (tp_rows p)" for r
  proof -
    from assms(1) r obtain tk where "tk \<in> set (tp_toolkits p)" "at_id tk = ap_toolkit r" "at_built_in tk \<or> holds_row tk r"
      by (auto simp: part_ok_def)
    then show ?thesis by (intro bexI [where x = "?g tk"]) (auto simp: f)
  qed
  moreover have "distinct (map at_id (map ?g (tp_toolkits p)))" using assms(1) unfolding d by (simp add: part_ok_def)
  ultimately show ?thesis unfolding part_ok_but_def with_toolkit_def by auto
qed

lemma part_ok_drop_orphaned:
  assumes "part_ok_but i p"
  shows "part_ok (drop_orphaned sv i p)"
proof -
  have "\<exists>tk \<in> set (tp_toolkits p). at_id tk = ap_toolkit r \<and> (at_built_in tk \<or> holds_row tk r)"
    if r: "r \<in> set (tp_rows (drop_orphaned sv i p))" for r
  proof -
    from r have rp: "r \<in> set (tp_rows p)" and k: "ap_toolkit r = i \<Longrightarrow> \<not> orphaned sv (toolkit_of i p) r"
      by (auto simp: drop_orphaned_def delete_rows_def)
    from assms rp obtain tk where tk: "tk \<in> set (tp_toolkits p)" "at_id tk = ap_toolkit r"
      "at_id tk = i \<or> at_built_in tk \<or> holds_row tk r" by (auto simp: part_ok_but_def)
    show ?thesis
    proof (cases "at_id tk = i")
      case True
      with assms tk have "toolkit_of i p = Some tk"
        using toolkit_of_distinct [of p tk] by (auto simp: part_ok_but_def)
      with k tk True show ?thesis by (auto simp: orphaned_holds)
    qed (use tk in blast)
  qed
  with assms show ?thesis by (simp add: part_ok_def part_ok_but_def drop_orphaned_def)
qed

lemma part_ok_delete_toolkits:
  assumes "part_ok p"
  shows "part_ok (delete_toolkits gone p)"
proof -
  have "\<exists>tk \<in> set (tp_toolkits p). \<not> gone tk \<and> at_id tk = ap_toolkit r \<and> (at_built_in tk \<or> holds_row tk r)"
    if "r \<in> set (tp_rows p)" "ap_toolkit r \<notin> at_id ` {tk \<in> set (tp_toolkits p). gone tk}" for r
  proof -
    from assms that(1) obtain tk where "tk \<in> set (tp_toolkits p)" "at_id tk = ap_toolkit r" "at_built_in tk \<or> holds_row tk r"
      by (auto simp: part_ok_def)
    with that(2) show ?thesis by (intro bexI [where x = tk]) (auto simp: image_iff)
  qed
  moreover have "distinct (map at_id (filter (\<lambda>tk. \<not> gone tk) (tp_toolkits p)))"
    using assms by (simp add: part_ok_def distinct_map_filter)
  ultimately show ?thesis by (simp add: part_ok_def delete_toolkits_def Let_def) blast
qed

text \<open>A member who leaves is taken off the rules and off the rows alike.\<close>

lemma approver_for_map:
  "approver_for (Some (map_approvers f ru)) upstream cls = map_option f (approver_for (Some ru) upstream cls)"
proof -
  have "List.find (\<lambda>m. tmk_tool m = upstream) (map (\<lambda>m. m\<lparr>tmk_approver := f (tmk_approver m)\<rparr>) ms) =
      map_option (\<lambda>m. m\<lparr>tmk_approver := f (tmk_approver m)\<rparr>) (List.find (\<lambda>m. tmk_tool m = upstream) ms)" for ms
    by (induction ms) auto
  from this [of "rl_tools ru"] show ?thesis
    by (simp add: approver_for_def map_approvers_def)
      (cases "List.find (\<lambda>m. tmk_tool m = upstream) (rl_tools ru)"; simp)
qed

lemma approver_for_in: "approver_for (Some ru) upstream cls = Some a \<Longrightarrow> a \<in> set (approvers_of ru)"
  using find_SomeD [of "\<lambda>m. tmk_tool m = upstream" "rl_tools ru"]
  by (auto simp: approver_for_def approvers_of_def split: option.splits if_splits)

lemma without_absent [simp]: "\<not> lists_member m a \<Longrightarrow> without_member m a = a"
  by (cases a) (auto intro: filter_True)

lemma approver_for_forget:
  assumes "\<not> at_built_in tk" and "approver_for (at_rules tk) upstream cls = Some a"
  shows "approver_for (at_rules (forget_approver m tk)) upstream cls = Some (without_member m a)"
proof -
  from assms(2) obtain ru where ru: "at_rules tk = Some ru" by (cases "at_rules tk") (auto simp: approver_for_def)
  show ?thesis
  proof (cases "list_ex (lists_member m) (approvers_of ru)")
    case True
    with assms ru show ?thesis by (simp add: forget_approver_def rules_without_member_def approver_for_map)
  next
    case False
    with approver_for_in assms(2) ru have "\<not> lists_member m a" by (auto simp: list_ex_iff)
    with False assms ru show ?thesis by (simp add: forget_approver_def rules_without_member_def)
  qed
qed

lemma forget_approver_fields [simp]:
  "at_id (forget_approver m tk) = at_id tk" "at_built_in (forget_approver m tk) = at_built_in tk"
  "at_tools (forget_approver m tk) = at_tools tk" "at_owner (forget_approver m tk) = at_owner tk"
  by (auto simp: forget_approver_def split: option.splits)

lemma member_rows_from: "r \<in> set (delete_member_rows m (without_member m) rows) \<Longrightarrow>
  \<exists>q \<in> set rows. ap_member r = ap_member q \<and> ap_member q \<noteq> m \<and> ap_toolkit r = ap_toolkit q \<and>
    ap_upstream r = ap_upstream q \<and> ap_approver r = without_member m (ap_approver q)"
  by (auto simp: delete_member_rows_def is_list_def split: approver.splits if_splits)

lemma part_ok_member_left:
  assumes "part_ok p"
  shows "part_ok (approvals_member_left m p)"
proof -
  define q where "q = delete_toolkits (\<lambda>tk. \<not> at_built_in tk \<and> at_owner tk = Some m) p"
  have q: "part_ok q" unfolding q_def using assms by (rule part_ok_delete_toolkits)
  have "\<exists>tk \<in> forget_approver m ` set (tp_toolkits q). at_id tk = ap_toolkit r \<and> (at_built_in tk \<or> holds_row tk r)"
    if r: "r \<in> set (delete_member_rows m (without_member m) (tp_rows q))" for r
  proof -
    obtain oldr where oldr: "oldr \<in> set (tp_rows q)" "ap_toolkit r = ap_toolkit oldr" "ap_upstream r = ap_upstream oldr"
      "ap_approver r = without_member m (ap_approver oldr)" using member_rows_from [OF r] by blast
    with q obtain tk where tk: "tk \<in> set (tp_toolkits q)" "at_id tk = ap_toolkit oldr" "at_built_in tk \<or> holds_row tk oldr"
      by (auto simp: part_ok_def)
    have "holds_row (forget_approver m tk) r" if "\<not> at_built_in tk" "holds_row tk oldr"
      using that approver_for_forget [OF that(1)] by (auto simp: holds_row_def oldr split: option.splits)
    with tk oldr show ?thesis by (intro bexI [where x = "forget_approver m tk"]) auto
  qed
  moreover have "at_id \<circ> forget_approver m = at_id" by auto
  ultimately show ?thesis
    using q unfolding part_ok_def approvals_member_left_def Let_def q_def [symmetric] by simp
qed

lemma part_ok_step:
  assumes ok: "part_ok p" and s: "approvals_step sv e p = (a, p')" and n: "\<And>i tools. e \<noteq> RebuildEvent i tools"
  shows "part_ok p'"
proof (cases e)
  case (CallEvent pe draw c now)
  with s part_ok_call [OF ok, of sv pe draw c now] show ?thesis
    by (cases "approve_call sv pe draw c now p") auto
next
  case (DecideEvent pe viewer i approve who now)
  with s have "decide_approval sv pe viewer i approve who now p = (fst (decide_approval sv pe viewer i approve who now p), p')"
    by (cases "decide_approval sv pe viewer i approve who now p") auto
  then have "p' = p \<or> (\<exists>d. p' = with_rows (decide_row i d who now (tp_rows p)) p)"
    by (auto simp: decide_approval_def Let_def split: option.splits sealed_read.splits if_splits)
  then show ?thesis
  proof (elim disjE exE)
    fix d
    assume p': "p' = with_rows (decide_row i d who now (tp_rows p)) p"
    show ?thesis
    proof (rule part_ok_rows [OF ok])
      fix r
      assume "r \<in> set (tp_rows p')"
      then show "\<exists>q \<in> set (tp_rows p). ap_toolkit r = ap_toolkit q \<and> ap_upstream r = ap_upstream q \<and> ap_approver r = ap_approver q"
        unfolding p' tp_with_rows by (rule decide_row_from)
    qed (simp add: p')
  qed (use ok in simp)
next
  case (RulesEvent is_team is_member i change)
  with s have "p' = p \<or> (\<exists>ru. p' = drop_orphaned sv i (with_toolkit i (\<lambda>t. t\<lparr>at_rules := ru\<rparr>) p))"
    by (auto simp: set_rules_def split: option.splits sum.splits)
  then show ?thesis using ok by (auto intro!: part_ok_drop_orphaned part_ok_but_with_toolkit)
next
  case (OverrideEvent i tools)
  with s show ?thesis using ok by (auto simp: override_tools_def intro!: part_ok_drop_orphaned part_ok_but_with_toolkit)
next
  case (AddEvent tk)
  with s ok show ?thesis by (auto simp: add_toolkit_def part_ok_def)
next
  case (RemoveEvent i)
  with s ok show ?thesis by (auto simp: remove_toolkit_def part_ok_delete_toolkits)
next
  case (LeaveEvent m)
  with s ok show ?thesis by (auto simp: part_ok_member_left)
next
  case (WakeEvent now)
  with s show ?thesis using ok by (auto intro: part_ok_filter)
qed (use n in blast)

fun is_rebuild :: "approvals_event \<Rightarrow> bool" where
  "is_rebuild (RebuildEvent i tools) = True"
| "is_rebuild _ = False"

lemma part_ok_run: "part_ok p \<Longrightarrow> \<not> list_ex is_rebuild es \<Longrightarrow> part_ok (approvals_run sv es p)"
proof (induction es arbitrary: p)
  case (Cons e es)
  obtain a p' where s: "approvals_step sv e p = (a, p')" by force
  with Cons.prems have "part_ok p'" by (intro part_ok_step [OF _ s]) auto
  with Cons s show ?case by simp
qed simp

text \<open>C26. Whatever order calls, decisions, edits of rules, overrides, removed toolkits and leaving members come in, every
  approval or form kept for a toolkit that is not built in waits on the rule of its tool as it stands: none outlives
  its rule or waits for an approver the rule no longer names.\<close>

theorem approvals_wait_on_standing_rules:
  assumes "tp_rows p = []" and "distinct (map at_id (tp_toolkits p))" and "\<not> list_ex is_rebuild es"
    and "r \<in> set (tp_rows (approvals_run sv es p))"
  shows "\<exists>tk \<in> set (tp_toolkits (approvals_run sv es p)). at_id tk = ap_toolkit r \<and>
    (at_built_in tk \<or>
     (\<exists>cls. map_of (at_tools tk) (ap_upstream r) = Some cls \<and>
            approver_for (at_rules tk) (ap_upstream r) cls = Some (ap_approver r)))"
proof -
  have "part_ok p" using assms(1,2) by (simp add: part_ok_def)
  from part_ok_run [OF this assms(3)] assms(4) obtain tk where
    "tk \<in> set (tp_toolkits (approvals_run sv es p))" "at_id tk = ap_toolkit r" "at_built_in tk \<or> holds_row tk r"
    by (auto simp: part_ok_def)
  then show ?thesis by (auto simp: holds_row_def split: option.splits)
qed

theorem approvals_wait_on_standing_rules_witness:
  "\<exists>r. r \<in> set (tp_rows (approvals_run sample_sealing [CallEvent sample_people ''ap_1'' sample_call 0, LeaveEvent ''bob''] sample_toolkits)) \<and>
    ap_approver r = MembersApprover [''ann''] \<and>
    (\<exists>tk \<in> set (tp_toolkits (approvals_run sample_sealing [CallEvent sample_people ''ap_1'' sample_call 0, LeaveEvent ''bob''] sample_toolkits)).
       at_id tk = ap_toolkit r \<and> (at_built_in tk \<or> (\<exists>cls. map_of (at_tools tk) (ap_upstream r) = Some cls \<and>
            approver_for (at_rules tk) (ap_upstream r) cls = Some (ap_approver r))))"
proof -
  let ?es = "[CallEvent sample_people ''ap_1'' sample_call 0, LeaveEvent ''bob'']"
  let ?run = "approvals_run sample_sealing ?es sample_toolkits"
  have "map ap_approver (tp_rows ?run) = [MembersApprover [''ann'']]" by code_simp
  then obtain r where r: "r \<in> set (tp_rows ?run)" "ap_approver r = MembersApprover [''ann'']"
    by (cases "tp_rows ?run") auto
  have e: "tp_rows sample_toolkits = []" "distinct (map at_id (tp_toolkits sample_toolkits))" "\<not> list_ex is_rebuild ?es"
    by (simp_all add: sample_toolkits_def)
  from approvals_wait_on_standing_rules [OF e r(1)] r show ?thesis by blast
qed

text \<open>
  A built-in toolkit's rules are in a table of their own, which a member's leaving does not reach: the approval forgets
  them, the rule goes on to name them, and the next edit of the toolkit drops the approval as orphaned.
\<close>

definition sample_built_in :: tools_part where
  "sample_built_in = sample_toolkits\<lparr>tp_toolkits := map (\<lambda>tk. tk\<lparr>at_built_in := True\<rparr>) (tp_toolkits sample_toolkits)\<rparr>"

theorem built_in_rules_keep_leavers:
  "map ap_approver (tp_rows (approvals_run sample_sealing
     [CallEvent sample_people ''ap_1'' sample_call 0, LeaveEvent ''bob''] sample_built_in)) = [MembersApprover [''ann'']] \<and>
   map at_rules (tp_toolkits (approvals_run sample_sealing
     [CallEvent sample_people ''ap_1'' sample_call 0, LeaveEvent ''bob''] sample_built_in)) =
     [Some \<lparr>rl_writes = Some (MembersApprover [''ann'', ''bob'']), rl_tools = []\<rparr>] \<and>
   tp_rows (approvals_run sample_sealing
     [CallEvent sample_people ''ap_1'' sample_call 0, LeaveEvent ''bob'',
      RulesEvent (\<lambda>_. True) (\<lambda>_. True) ''tk'' KeepRules] sample_built_in) = []"
  by code_simp

text \<open>A tool list built anew drops no approval, though a tool in it no longer waits.\<close>

theorem built_list_keeps_orphans:
  "map ap_approver (tp_rows (approvals_run sample_sealing
     [CallEvent sample_people ''ap_1'' sample_call 0, RebuildEvent ''tk'' [(''post'', ReadTool)]] sample_toolkits)) =
     [MembersApprover [''ann'', ''bob'']] \<and>
   map (\<lambda>tk. approver_for (at_rules tk) ''post'' ReadTool) (tp_toolkits (approvals_run sample_sealing
     [CallEvent sample_people ''ap_1'' sample_call 0, RebuildEvent ''tk'' [(''post'', ReadTool)]] sample_toolkits)) = [None]"
  by code_simp

subsection \<open>A form answers its call, once\<close>

lemma index_of_mark: "c \<notin> set s \<Longrightarrow> index_of [c] (s @ c # t) = Some (length s)"
  by (induction s) auto

lemma form_binding_reads: "json_parse (json_text nt (form_binding i key)) = Some (form_binding i key)"
  by (rule json_parse_text) (simp add: form_binding_def distinct_keys_def)

lemma take_issued_form:
  assumes seal: "\<And>t c. as_open sv (as_seal sv t c) c = Some t" and i: "CHR '':'' \<notin> set i" "i \<noteq> []"
    and f: "create_form sv i a now rows = Some (st, rows')"
  shows "take_form sv (Some st) key now' q =
    (if binds_call (form_binding i a) i key
     then (length (filter (\<lambda>r. ap_id r = i \<and> open_form r \<and> live_approval now' r \<and> of_call key r) q) = 1,
           map (\<lambda>r. if ap_id r = i \<and> open_form r \<and> live_approval now' r \<and> of_call key r then r\<lparr>ap_settled := True\<rparr> else r) q)
     else (False, q))"
proof -
  let ?s = "as_seal sv (json_text (as_number sv) (form_binding i a)) (form_context i)"
  from f have st: "st = i @ CHR '':'' # ?s" by (auto simp: create_form_def)
  have "index_of '':'' st = Some (length i)" unfolding st by (rule index_of_mark [OF i(1)])
  then show ?thesis using i(2) by (simp add: take_form_def st seal form_binding_reads Let_def)
qed

lemma binds_call_same: "call_id a = call_id key \<Longrightarrow> binds_call (form_binding i a) i key"
  by (auto simp: binds_call_def form_binding_def call_id_def)

lemma issued_form_rows:
  assumes "create_form sv i a now rows = Some (st, rows')"
  shows "filter (\<lambda>r. ap_id r = i \<and> P r) rows' = (if P (new_row i a now True None) then [new_row i a now True None] else [])"
proof -
  from assms have "rows' = rows @ [new_row i a now True None]" and "i \<notin> ap_id ` set rows"
    by (auto simp: create_form_def insert_approval_def new_row_def split: if_splits)
  moreover from this have "filter (\<lambda>r. ap_id r = i \<and> P r) rows = []" by (auto simp: filter_empty_conv)
  moreover have "ap_id (new_row i a now True None) = i" by (simp add: new_row_def)
  ultimately show ?thesis by simp
qed

lemma issued_form_open:
  "open_form (new_row i a now True None) \<and> live_approval now' (new_row i a now True None) \<and>
     of_call key (new_row i a now True None) \<longleftrightarrow> call_id key = call_id a \<and> now' < now + approval_lifetime_ms"
  by (auto simp: of_call_row) (auto simp: open_form_def live_approval_def new_row_def)

text \<open>C27. A form's state answers exactly the call the form was sent for, by its caller and within the hour; and when it
  has answered, it answers nothing more.\<close>

theorem form_answers_its_call_once:
  assumes "\<And>t c. as_open sv (as_seal sv t c) c = Some t" and "CHR '':'' \<notin> set i" "i \<noteq> []"
    and "create_form sv i a now rows = Some (st, rows')"
  shows "fst (take_form sv (Some st) key now' rows') = (call_id key = call_id a \<and> now' < now + approval_lifetime_ms) \<and>
    \<not> (fst (take_form sv (Some st) key now' rows') \<and>
       fst (take_form sv (Some st) other later (snd (take_form sv (Some st) key now' rows'))))"
proof -
  let ?n = "new_row i a now True None"
  note take = take_issued_form [OF assms]
  have one: "fst (take_form sv (Some st) key now' rows') \<longleftrightarrow> call_id key = call_id a \<and> now' < now + approval_lifetime_ms"
  proof (cases "binds_call (form_binding i a) i key")
    case True
    have "filter (\<lambda>r. ap_id r = i \<and> open_form r \<and> live_approval now' r \<and> of_call key r) rows' =
        (if call_id key = call_id a \<and> now' < now + approval_lifetime_ms then [?n] else [])"
      using issued_form_rows [OF assms(4), of "\<lambda>r. open_form r \<and> live_approval now' r \<and> of_call key r"]
      unfolding issued_form_open .
    then show ?thesis unfolding take using True by simp
  next
    case False
    then have "call_id key \<noteq> call_id a" using binds_call_same [of a key i] by auto
    then show ?thesis unfolding take using False by simp
  qed
  moreover have "\<not> fst (take_form sv (Some st) other later (snd (take_form sv (Some st) key now' rows')))"
    if t: "fst (take_form sv (Some st) key now' rows')"
  proof -
    from t one have k: "call_id key = call_id a \<and> now' < now + approval_lifetime_ms" by simp
    define f where "f = (\<lambda>r. if ap_id r = i \<and> open_form r \<and> live_approval now' r \<and> of_call key r
      then r\<lparr>ap_settled := True\<rparr> else r)"
    have closed: "ap_id (f r) \<noteq> i \<or> \<not> open_form (f r)" if r: "r \<in> set rows'" for r
    proof (cases "ap_id r = i")
      case True
      then have "r \<in> set (filter (\<lambda>r. ap_id r = i \<and> True) rows')" using r by simp
      then have "r = ?n" unfolding issued_form_rows [OF assms(4)] by simp
      with k issued_form_open [of i a now now' key] True show ?thesis by (simp add: f_def open_form_def)
    qed (simp add: f_def)
    have "filter (\<lambda>r. ap_id r = i \<and> open_form r \<and> live_approval later r \<and> of_call other r) (map f rows') = []"
    proof (unfold filter_empty_conv set_map, intro ballI)
      fix x
      assume "x \<in> f ` set rows'"
      then obtain r where "x = f r" "r \<in> set rows'" by (elim imageE)
      with closed [of r] show "\<not> (ap_id x = i \<and> open_form x \<and> live_approval later x \<and> of_call other x)" by blast
    qed
    moreover have "snd (take_form sv (Some st) key now' rows') = map f rows'"
      unfolding take f_def using k binds_call_same [of a key i] by simp
    ultimately show ?thesis unfolding take by simp
  qed
  ultimately show ?thesis by blast
qed

lemma sample_sealing_opens: "as_open sample_sealing (as_seal sample_sealing t c) c = Some t"
  by (simp add: sample_sealing_def starts_with_def)

definition sample_form_call :: new_approval where
  "sample_form_call = new_approval_of (call_key sample_sealing sample_call) sample_call CallerApprover"

theorem form_answers_its_call_once_witness:
  "\<exists>st rows. create_form sample_sealing ''ap_1'' sample_form_call 0 [] = Some (st, rows) \<and>
     fst (take_form sample_sealing (Some st) (call_key sample_sealing sample_call) 5 rows) \<and>
     \<not> fst (take_form sample_sealing (Some st) (call_key sample_sealing sample_call) 6
       (snd (take_form sample_sealing (Some st) (call_key sample_sealing sample_call) 5 rows)))"
proof -
  obtain st rows where f: "create_form sample_sealing ''ap_1'' sample_form_call 0 [] = Some (st, rows)"
    by (simp add: create_form_def insert_approval_def)
  have k: "call_id (call_key sample_sealing sample_call) = call_id sample_form_call"
    by (simp add: sample_form_call_def new_approval_of_def call_id_def approval_key.defs)
  have "(5::int) < 0 + approval_lifetime_ms" by (simp add: approval_lifetime_ms_def)
  with k form_answers_its_call_once [OF sample_sealing_opens _ _ f, of "call_key sample_sealing sample_call" 5
      "call_key sample_sealing sample_call" 6] f
  show ?thesis by auto
qed

subsection \<open>Who decides, and who sees what\<close>

lemma decided_not_pending:
  assumes "x \<in> set (decide_row i d who now rows)" and "d \<noteq> ApprovalPending" and "ap_id x = i" "\<not> ap_form x"
  shows "ap_status x \<noteq> ApprovalPending"
proof -
  from assms(1) obtain q where q: "x = (if ap_id q = i \<and> ap_status q = ApprovalPending \<and> \<not> ap_form q
      then q\<lparr>ap_status := d, ap_decided := Some now, ap_decided_by := Some who, ap_arguments := None\<rparr> else q)"
    unfolding decide_row_def set_map by (elim imageE)
  show ?thesis
  proof (cases "ap_id q = i \<and> ap_status q = ApprovalPending \<and> \<not> ap_form q")
    case True
    with q assms(2) show ?thesis by simp
  next
    case False
    then have "x = q" unfolding q by (simp only: if_False)
    with False assms(3,4) show ?thesis by simp
  qed
qed

text \<open>C28. An approval changes by a decision only while it is live and undecided, and only by a member its rule makes an
  approver: the caller themselves (or who watches the run) under a rule of the caller, and under a rule of a team or a
  list a member of it who is not the caller. A call's arguments are shown to nobody else, and to nobody once it is
  decided.\<close>

theorem only_approvers_decide:
  assumes "decide_approval sv pe viewer i approve who now p = (reply, p')" and "p' \<noteq> p"
  shows "\<exists>r m. r \<in> set (tp_rows p) \<and> ap_id r = i \<and> \<not> ap_form r \<and> now < ap_expires r \<and> ap_status r = ApprovalPending \<and>
      viewer = Some m \<and>
      (case ap_approver r of
         CallerApprover \<Rightarrow> m \<in> set (callers_of pe r)
       | TeamApprover t \<Rightarrow> caller_member r \<noteq> Some m \<and> t \<in> set (op_teams pe m)
       | MembersApprover is \<Rightarrow> caller_member r \<noteq> Some m \<and> m \<in> set is) \<and>
      (\<forall>other v. get_approval sv pe other i now p = ApprovalOk v \<longrightarrow> av_arguments v \<noteq> None \<longrightarrow>
         viewer_may_decide pe r other) \<and>
      (\<forall>other v. get_approval sv pe other i now p' = ApprovalOk v \<longrightarrow> av_arguments v = None)"
proof -
  from assms obtain r where r: "approval_at i now (tp_rows p) = Some r" and d: "viewer_may_decide pe r viewer"
    and s: "ap_status r = ApprovalPending"
    and p': "\<exists>d. d \<noteq> ApprovalPending \<and> p' = with_rows (decide_row i d who now (tp_rows p)) p"
    by (auto simp: decide_approval_def Let_def split: option.splits sealed_read.splits if_splits)
  from d obtain m where m: "viewer = Some m"
    by (auto simp: viewer_may_decide_def may_decide_def split: option.splits if_splits)
  have "case ap_approver r of
         CallerApprover \<Rightarrow> m \<in> set (callers_of pe r)
       | TeamApprover t \<Rightarrow> caller_member r \<noteq> Some m \<and> t \<in> set (op_teams pe m)
       | MembersApprover is \<Rightarrow> caller_member r \<noteq> Some m \<and> m \<in> set is"
    using d m by (auto simp: viewer_may_decide_def may_decide_def callers_of_def split: approver.splits if_splits option.splits)
  moreover have "viewer_may_decide pe r other"
    if "get_approval sv pe other i now p = ApprovalOk v" "av_arguments v \<noteq> None" for other v
    using that r by (auto simp: get_approval_def view_approval_def Let_def split: sealed_read.splits option.splits if_splits)
  moreover have "av_arguments v = None" if v: "get_approval sv pe other i now p' = ApprovalOk v" for other v
  proof -
    from p' obtain d where d: "d \<noteq> ApprovalPending" "tp_rows p' = decide_row i d who now (tp_rows p)" by auto
    from v obtain x where x: "approval_at i now (tp_rows p') = Some x"
      and w: "view_approval sv pe x other now (tp_rows p') = Opened (Some v)"
      by (auto simp: get_approval_def split: option.splits sealed_read.splits)
    from approval_at_Some [OF x] d(2) have "x \<in> set (decide_row i d who now (tp_rows p))" "ap_id x = i" "\<not> ap_form x" by simp_all
    from decided_not_pending [OF this(1) d(1) this(2,3)] have "ap_status x \<noteq> ApprovalPending" .
    with w show ?thesis by (auto simp: view_approval_def Let_def split: if_splits)
  qed
  ultimately show ?thesis using approval_at_Some [OF r] s m by (auto simp: live_approval_def)
qed

theorem only_approvers_decide_witness:
  "\<exists>r m. r \<in> set (tp_rows (snd (approve_call sample_sealing sample_people ''ap_1'' sample_call 0 sample_toolkits))) \<and>
     ap_id r = ''ap_1'' \<and> ap_approver r = MembersApprover [''ann'', ''bob''] \<and> Some ''bob'' = Some m \<and> caller_member r \<noteq> Some m"
proof -
  define p where "p = snd (approve_call sample_sealing sample_people ''ap_1'' sample_call 0 sample_toolkits)"
  obtain reply p' where d: "decide_approval sample_sealing sample_people (Some ''bob'') ''ap_1'' True ''user:bob'' 1 p = (reply, p')"
    by force
  have "map ap_status (tp_rows p) = [ApprovalPending]" and a: "map ap_approver (tp_rows p) = [MembersApprover [''ann'', ''bob'']]"
    unfolding p_def by code_simp+
  moreover have "map ap_status (tp_rows (snd (decide_approval sample_sealing sample_people (Some ''bob'') ''ap_1'' True ''user:bob'' 1 p))) = [ApprovalApproved]"
    unfolding p_def by code_simp
  ultimately have "p' \<noteq> p" using d by auto
  from only_approvers_decide [OF d this] obtain r m where r: "r \<in> set (tp_rows p)" "ap_id r = ''ap_1''" "Some ''bob'' = Some m"
    "case ap_approver r of CallerApprover \<Rightarrow> m \<in> set (callers_of sample_people r)
       | TeamApprover t \<Rightarrow> caller_member r \<noteq> Some m \<and> t \<in> set (op_teams sample_people m)
       | MembersApprover is \<Rightarrow> caller_member r \<noteq> Some m \<and> m \<in> set is" by blast
  moreover from a r(1) have "ap_approver r = MembersApprover [''ann'', ''bob'']" by (cases "tp_rows p") auto
  ultimately show ?thesis unfolding p_def by (intro exI [of _ r] exI [of _ m]) simp
qed

subsection \<open>The hash of arguments\<close>

text \<open>C29. Two calls have one hash exactly if their arguments are equal but for the order of object keys, at every depth,
  where SHA-256 has no collision on their texts; absent arguments are the empty object.\<close>

theorem same_arguments_same_hash:
  assumes "json_ok nt (arguments_json a)" and "json_ok nt (arguments_json b)"
    and "sha (canonical_json nt (arguments_json a)) = sha (canonical_json nt (arguments_json b)) \<Longrightarrow>
      canonical_json nt (arguments_json a) = canonical_json nt (arguments_json b)"
  shows "arguments_hash nt sha a = arguments_hash nt sha b \<longleftrightarrow> same_json (arguments_json a) (arguments_json b)"
  unfolding arguments_hash_def using canonical_json_same [OF assms(1,2)] assms(3) by metis

definition number_one :: "rat \<Rightarrow> string" where
  "number_one q = ''1''"

theorem same_arguments_same_hash_witness:
  "arguments_hash number_one (\<lambda>t. t) (Some [(''a'', JNum 1), (''b'', JArr [JStr ''x'', JNull])]) =
   arguments_hash number_one (\<lambda>t. t) (Some [(''b'', JArr [JStr ''x'', JNull]), (''a'', JNum 1)]) \<and>
   arguments_hash number_one (\<lambda>t. t) (Some [(''a'', JStr ''x,'')]) \<noteq> arguments_hash number_one (\<lambda>t. t) (Some [(''a'', JStr ''x'')])"
proof -
  have one: "parse_number (number_one 1) = Some (1, [])"
    by (simp add: parse_number_def number_one_def is_digit_def parse_frac_def parse_exp_def digits_val_def digit_val_def pow10_def)
  show ?thesis
    using same_arguments_same_hash [of number_one "Some [(''a'', JNum 1), (''b'', JArr [JStr ''x'', JNull])]"
        "Some [(''b'', JArr [JStr ''x'', JNull]), (''a'', JNum 1)]" "\<lambda>t. t"]
      same_arguments_same_hash [of number_one "Some [(''a'', JStr ''x,'')]" "Some [(''a'', JStr ''x'')]" "\<lambda>t. t"] one
    by (auto simp: distinct_keys_def arguments_hash_def arguments_json_def)
qed

subsection \<open>Members who leave\<close>

lemma not_listed_without [simp]: "\<not> lists_member m (without_member m a)"
  by (cases a) auto

lemma forget_approver_lists:
  assumes "\<not> at_built_in tk" and "at_rules (forget_approver m tk) = Some ru" and "a \<in> set (approvers_of ru)"
  shows "\<not> lists_member m a"
proof (cases "\<exists>old. at_rules tk = Some old \<and> list_ex (lists_member m) (approvers_of old)")
  case True
  then obtain old where "at_rules tk = Some old" "ru = map_approvers (without_member m) old"
    using assms(1,2) by (auto simp: forget_approver_def rules_without_member_def)
  with assms(3) show ?thesis by (auto simp: approvers_of_def map_approvers_def split: option.splits)
next
  case False
  with assms show ?thesis
    by (cases "at_rules tk") (auto simp: forget_approver_def rules_without_member_def list_ex_iff split: if_splits)
qed

text \<open>Once a member left, none of their calls waits, no approval lists them as an approver, and neither do the rules of
  a toolkit that is not built in; their private toolkits are gone with every approval of them.\<close>

theorem leavers_approve_nothing:
  assumes "p' = approvals_member_left m p"
  shows "(\<forall>r \<in> set (tp_rows p'). ap_member r \<noteq> m \<and> \<not> lists_member m (ap_approver r)) \<and>
    (\<forall>tk \<in> set (tp_toolkits p'). at_built_in tk \<or>
       at_owner tk \<noteq> Some m \<and>
       (case at_rules tk of None \<Rightarrow> True | Some ru \<Rightarrow> \<forall>a \<in> set (approvers_of ru). \<not> lists_member m a)) \<and>
    (\<forall>r \<in> set (tp_rows p'). \<forall>tk \<in> set (tp_toolkits p).
       ap_toolkit r = at_id tk \<longrightarrow> at_built_in tk \<or> at_owner tk \<noteq> Some m)"
proof -
  define q where "q = delete_toolkits (\<lambda>tk. \<not> at_built_in tk \<and> at_owner tk = Some m) p"
  have p': "tp_rows p' = delete_member_rows m (without_member m) (tp_rows q)"
    "tp_toolkits p' = map (forget_approver m) (tp_toolkits q)"
    by (simp_all add: assms approvals_member_left_def q_def Let_def)
  have rows: "ap_member r \<noteq> m \<and> \<not> lists_member m (ap_approver r)" if "r \<in> set (tp_rows p')" for r
    using member_rows_from [of r m "tp_rows q"] that by (auto simp: p')
  have kits: "at_built_in tk \<or> at_owner tk \<noteq> Some m \<and>
      (case at_rules tk of None \<Rightarrow> True | Some ru \<Rightarrow> \<forall>a \<in> set (approvers_of ru). \<not> lists_member m a)"
    if tk: "tk \<in> set (tp_toolkits p')" for tk
  proof -
    from tk obtain t where t: "tk = forget_approver m t" "t \<in> set (tp_toolkits q)" by (auto simp: p')
    from t(2) have "at_built_in t \<or> at_owner t \<noteq> Some m" by (auto simp: q_def delete_toolkits_def Let_def)
    then show ?thesis using forget_approver_lists [of t m] by (auto simp: t(1) split: option.splits)
  qed
  have gone: "at_built_in tk \<or> at_owner tk \<noteq> Some m"
    if r: "r \<in> set (tp_rows p')" and tk: "tk \<in> set (tp_toolkits p)" "ap_toolkit r = at_id tk" for r tk
  proof -
    obtain x where "x \<in> set (tp_rows q)" "ap_toolkit r = ap_toolkit x"
      using member_rows_from [of r m "tp_rows q"] r by (auto simp: p')
    with tk show ?thesis by (auto simp: q_def delete_toolkits_def Let_def)
  qed
  from rows kits gone show ?thesis by blast
qed

theorem leavers_approve_nothing_witness:
  "length (tp_rows (approvals_member_left ''bob'' (snd (approve_call sample_sealing sample_people ''ap_1'' sample_call 0 sample_toolkits)))) = 1 \<and>
   list_all (\<lambda>r. ap_member r \<noteq> ''bob'' \<and> \<not> lists_member ''bob'' (ap_approver r))
     (tp_rows (approvals_member_left ''bob'' (snd (approve_call sample_sealing sample_people ''ap_1'' sample_call 0 sample_toolkits))))"
proof -
  have "length (tp_rows (approvals_member_left ''bob'' (snd (approve_call sample_sealing sample_people ''ap_1'' sample_call 0 sample_toolkits)))) = 1"
    by code_simp
  then show ?thesis using leavers_approve_nothing [OF refl] by (auto simp: list_all_iff)
qed

subsection \<open>Rules written back\<close>

text \<open>A toolkit's rules as its view shows them, sent back as they are.\<close>

definition given_of_view :: "rules_view \<Rightarrow> given_rules" where
  "given_of_view v = \<lparr>gn_writes = map_option (\<lambda>w. Some (rv_approver w)) (rw_writes v),
     gn_tools = map_option (map (\<lambda>(i, w). \<lparr>gm_id = i, gm_approver = Some (rv_approver w)\<rparr>)) (rw_tools v)\<rparr>"

lemma clean_approver_idem: "clean_approver given = Inr a \<Longrightarrow> clean_approver (Some a) = Inr a"
proof -
  assume c: "clean_approver given = Inr a"
  have t: "map js_trim (sort (js_set (map js_trim is))) = sort (js_set (map js_trim is))" for "is"
    by (rule map_idI) auto
  show ?thesis
    using c by (auto simp: clean_approver_def Let_def t js_set_distinct sorted_sort_id split: option.splits approver.splits if_splits)
qed

definition marks_clean :: "string \<Rightarrow> tool_mark list \<Rightarrow> bool" where
  "marks_clean toolkit ms \<longleftrightarrow> distinct (map tmk_tool ms) \<and>
     (\<forall>m \<in> set ms. js_trim (stable_id toolkit (tmk_tool m)) = stable_id toolkit (tmk_tool m) \<and> tmk_tool m \<noteq> [] \<and>
        clean_approver (Some (tmk_approver m)) = Inr (tmk_approver m))"

lemma clean_marks_clean: "clean_marks toolkit ms tools = Inr out \<Longrightarrow> marks_clean toolkit tools \<Longrightarrow> marks_clean toolkit out"
proof (induction toolkit ms tools rule: clean_marks.induct)
  case (2 toolkit m ms tools)
  define i where "i = js_trim (gm_id m)"
  define tool where "tool = drop (length (toolkit @ '':'')) i"
  from 2(2) obtain a where s: "starts_with i (toolkit @ '':'')" "length i \<noteq> length (toolkit @ '':'')"
    and n: "\<not> list_ex (\<lambda>x. tmk_tool x = tool) tools" and a: "clean_approver (gm_approver m) = Inr a"
    and r: "clean_marks toolkit ms (tools @ [\<lparr>tmk_tool = tool, tmk_approver = a\<rparr>]) = Inr out"
    by (auto simp: Let_def i_def tool_def split: if_splits sum.splits)
  from s have i: "i = stable_id toolkit tool" "tool \<noteq> []"
    by (auto simp: stable_id_def tool_def starts_with_def prefix_def)
  have "js_trim i = i" by (simp add: i_def)
  with i n 2(3) clean_approver_idem [OF a] have "marks_clean toolkit (tools @ [\<lparr>tmk_tool = tool, tmk_approver = a\<rparr>])"
    by (auto simp: marks_clean_def list_ex_iff)
  from 2(1) [OF i_def refl _ tool_def n a r this] s show ?case by simp
qed simp

lemma clean_marks_again:
  assumes "marks_clean toolkit (tools @ ms)"
  shows "clean_marks toolkit (map (\<lambda>m. \<lparr>gm_id = stable_id toolkit (tmk_tool m), gm_approver = Some (tmk_approver m)\<rparr>) ms) tools =
    Inr (tools @ ms)"
  using assms
proof (induction ms arbitrary: tools)
  case (Cons m ms)
  have m: "js_trim (stable_id toolkit (tmk_tool m)) = stable_id toolkit (tmk_tool m)" "tmk_tool m \<noteq> []"
    "clean_approver (Some (tmk_approver m)) = Inr (tmk_approver m)"
    using Cons.prems unfolding marks_clean_def by (simp_all only: set_append list.set Un_iff insert_iff) blast+
  have "distinct (map tmk_tool (tools @ m # ms))" using Cons.prems unfolding marks_clean_def by blast
  then have n: "\<not> list_ex (\<lambda>x. tmk_tool x = tmk_tool m) tools" by (auto simp: list_ex_iff image_iff)
  have d: "drop (Suc (length toolkit)) (stable_id toolkit (tmk_tool m)) = tmk_tool m"
    "starts_with (stable_id toolkit (tmk_tool m)) (toolkit @ '':'')"
    "length (stable_id toolkit (tmk_tool m)) = Suc (length toolkit + length (tmk_tool m))"
    by (simp_all add: stable_id_def starts_with_def)
  have "clean_marks toolkit (map (\<lambda>m. \<lparr>gm_id = stable_id toolkit (tmk_tool m), gm_approver = Some (tmk_approver m)\<rparr>) ms) (tools @ [m]) =
      Inr (tools @ m # ms)"
    using Cons.IH [of "tools @ [m]"] Cons.prems by simp
  then show ?case using m n d by (cases m) (simp add: Let_def)
qed simp

lemma marks_clean_sort: "marks_clean toolkit ms \<Longrightarrow> marks_clean toolkit (sort_key tmk_tool ms)"
  by (simp add: marks_clean_def distinct_map)


definition sample_given_rules :: given_rules where
  "sample_given_rules = \<lparr>gn_writes = Some None,
     gn_tools = Some [\<lparr>gm_id = '' tk:post '', gm_approver = Some (MembersApprover [''bob'', '' ann'', ''bob''])\<rparr>,
       \<lparr>gm_id = ''tk:get'', gm_approver = Some (TeamApprover ''ops '')\<rparr>]\<rparr>"


end
