(* ===== verification/Spec2Isabelle.thy ===== *)
theory Spec2Isabelle
  imports Cooldown_Properties Routing_Properties Pick_Properties Retry_Properties Spend_Properties Lcp_Properties
    Session_Properties Session_Object Session_Client Leases Refresh_Properties Outbound_Properties Index_Sync
    Key_Gate_Properties Request_Gates Spend_Service Approval_Properties
begin

text \<open>
  Commissary is a gateway for model providers: an org's members send requests, and the gateway serves each with one of
  the org's credentials. This development models the decisions of that gateway, which are pure functions of the state a
  Durable Object keeps, and proves what they promise. Paths are relative to \<open>src/\<close>.

  The parts and how they interact. A request asks for a model. \<open>Routing\<close> maps the model to upstream models of each
  credential, \<open>Grants\<close> narrows them to what the caller may use, \<open>Availability\<close> tells which credentials are cooling,
  the gate of \<open>Spend_Ledger\<close> which are at a limit, and \<open>Pick\<close> chooses one with a strategy (\<open>Strategies\<close>) or the
  binding of a session (\<open>Affinity\<close>) or of a conversation the request continues (\<open>Lcp_Match\<close>). The result of the attempt is reported to \<open>Mark_Result\<close>, which classifies it
  (\<open>Classify\<close>) and updates the credential's cooldown state, and its cost is charged to the Spend counters. After a
  failed round \<open>Retry\<close> plans the next one.

  Theories and sources.
  \<^item> \<open>Prelude\<close>: JavaScript strings, maps and sets, and the generic lemmas on them. \<open>Json\<close>: JSON values and
    \<open>JSON.parse\<close> (\<open>packages/json/src\<close>).
  \<^item> \<open>Credential_Model\<close>, \<open>Expiry\<close>, \<open>Classify\<close>, \<open>Recent_Requests\<close>, \<open>Mark_Result\<close>: the records,
    the token expiry and the cooldown state machine (\<open>packages/models/src/credentials\<close>: \<open>model.ts\<close>, \<open>expiry.ts\<close>,
    \<open>cooldown/*.ts\<close>, \<open>cooldown-reset.ts\<close>). A state is a record of the fields of \<open>CredentialState\<close>; \<open>mark_result\<close> is
    \<open>markResult\<close>. \<open>Cooldown\<close> to \<open>Cooldown_Properties\<close> hold its ladder, frames, invariant and properties.
  \<^item> \<open>Model_Name\<close>, \<open>Grants\<close>, \<open>Routing\<close>, \<open>Availability\<close>, \<open>Strategies\<close>, \<open>Affinity\<close>, \<open>Failures\<close>, \<open>Retry\<close>, \<open>Pick\<close>:
    selection (\<open>credentials/selection/*.ts\<close>, \<open>grants/*.ts\<close>). \<open>select_credential\<close> is \<open>selectCredential\<close>; the rotation
    cursors and the affinity cache are passed and returned. \<open>Pick_Safety\<close>, \<open>Pick_Properties\<close>, \<open>Retry_Properties\<close> and
    \<open>Routing_Properties\<close> hold what they promise.
  \<^item> \<open>Lcp_Matcher\<close>, \<open>Lcp_Match\<close>: the conversation matcher (\<open>packages/models/src/session-routing/matcher.ts\<close>), the class
    \<open>MerklePrefixMatcher\<close>. A group object is named by its namespace and key; the two indexes hold keys and the LRU set
    is a list of names. \<open>merkle_matcher\<close> is its \<open>match\<close> and \<open>bind\<close> as selection calls them. \<open>Lcp_Invariant\<close>,
    \<open>Lcp_Steps\<close>, \<open>Lcp_Operations\<close> show that every operation keeps indexes, counters, order and bounds;
    \<open>Lcp_Search\<close> that bisection over the index is a scan of all groups; \<open>Lcp_Properties\<close> what callers rely on.
  \<^item> \<open>Spend_Model\<close>, \<open>Spend_Ledger\<close>, \<open>Spend_Store\<close>: Spend limits (\<open>packages/state/src/spend\<close>). The three SQL tables are
    lists of a record. \<open>Spend_Invariant\<close> and \<open>Spend_Properties\<close> hold their invariant and properties.
  \<^item> \<open>Session_Table\<close>, \<open>Session_Sqlite\<close>, \<open>Session_Engine\<close>: the key/value engine the replay and continuity stores share
    (\<open>packages/state/src/session-state\<close>: \<open>engine.ts\<close>, \<open>sqlite-table.ts\<close>, \<open>protocol.ts\<close>). A table is a record of its
    operations; the engine is a function of it. \<open>Session_Refinement\<close> shows that the SQLite table, with its values in
    chunks, answers as the \<open>Map\<close> does; \<open>Session_Properties\<close> what the engine promises. \<open>Session_Object\<close>
    (\<open>durable-object.ts\<close>, \<open>instances.ts\<close>) is the Durable Object around it with its alarm and registration,
    \<open>Session_Client\<close> (\<open>client.ts\<close>) the Worker's side with its compare-and-swap loop, both with their properties.
    \<open>Org_Names\<close> (\<open>packages/core/src/org.ts\<close>) keeps the names of the orgs apart.
  \<^item> \<open>Refresh_Schedule\<close>, \<open>Refresh_Merge\<close>, \<open>Refresh_Manager\<close>: token refresh
    (\<open>packages/models/src/credentials/refresh\<close>, \<open>merge.ts\<close>): when a credential is due, what a failure and a success do to its
    state, the three-way merge with what the user changed meanwhile, and the manager that begins a refresh and commits its
    outcome to the credential as it is by then. \<open>Refresh_Properties\<close> holds what they promise.
  \<^item> \<open>Leases\<close>: named leases (\<open>packages/state/src/lease.ts\<close>), one table per name, and that each has one holder.
  \<^item> \<open>Outbound_Address\<close>, \<open>Outbound_Check\<close>, \<open>Outbound_Client\<close>: the outbound guard
    (\<open>packages/core/src/outbound\<close>): IP literals and the ranges that are not public, the check of one URL and the policy of a
    request, and the loops that follow redirects. \<open>Outbound_Literals\<close> and \<open>Outbound_Ranges\<close> show that the parser reads every
    spelling back and that the ranges are intervals; \<open>Outbound_Steps\<close> and \<open>Outbound_Properties\<close> what the guard promises. The
    URL parser, the request builders of the effect library and the transport are parameters.
  \<^item> \<open>Roles\<close>, \<open>Members\<close>: org roles (\<open>packages/auth/src/roles.ts\<close>) and the members, teams and service tokens of an org
    (\<open>packages/state/src/members/store.ts\<close>); \<open>Members_Invariant\<close>, \<open>Members_Effects\<close> and \<open>Members_Properties\<close> hold the
    calls as data, what each writes and what the store promises. \<open>Platform_Registry\<close> (\<open>platform/registry-store.ts\<close>) is the
    deployment's registry of orgs, people and domains, \<open>Registry_Properties\<close> what it promises, and \<open>Index_Sync\<close>
    (\<open>packages/auth/src/admission.ts\<close>) the sync between the two as a step relation that other calls interleave with.
  \<^item> \<open>Key_Text\<close> (\<open>packages/auth/src/keys.ts\<close>): the text of API keys and management keys. \<open>Api_Keys\<close> and \<open>Management_Keys\<close>
    (\<open>packages/state/src/api-keys\<close>, \<open>management-keys\<close>) are their stores, \<open>Api_Key_Properties\<close> what the first promises.
    \<open>Org_Access\<close> (\<open>packages/state/src/control-plane.ts\<close>) composes members, keys and Spend as an org's ControlPlane does;
    \<open>Org_Access_Properties\<close> shows what holds between them. \<open>Org_Names\<close> also holds the Worker's cache of org data (\<open>packages/core/src/kv.ts\<close>).
  \<^item> \<open>Key_Gate\<close> (\<open>packages/auth/src\<close>: \<open>api-key.ts\<close>, \<open>management-key.ts\<close>): the verified keys an isolate trusts for a
    while, as steps that calls to the ControlPlanes interleave with; \<open>Key_Gate_Properties\<close> shows that a revoked key dies in time.
    \<open>Request_Gates\<close> (\<open>principal.ts\<close>, \<open>standing.ts\<close>, \<open>access/config.ts\<close>, \<open>gate.ts\<close>, \<open>access-gate.ts\<close>, \<open>hosted-gate.ts\<close>,
    \<open>authenticate.ts\<close>, \<open>csrf.ts\<close>): who a request is, and what the gates of both kinds of deployment check.
    \<open>Spend_Service\<close> (\<open>packages/state/src/spend/service.ts\<close>): who sees and writes which Spend limit.
  \<^item> \<open>Canonical_Json\<close>, \<open>Approvals\<close> (\<open>packages/tools/src/approvals\<close>, the approvals of \<open>control-plane-part.ts\<close>): which tool calls wait
    for whom, the table of pending approvals and forms, decisions, and what edits of rules, overrides and leaving members do to
    them. \<open>Canonical_Json\<close> shows that \<open>JSON.parse\<close> reads back what \<open>JSON.stringify\<close> writes, so the canonical text of
    arguments names them up to the order of keys; \<open>Approval_Properties\<close> runs the part's operations in any order.
  \<^item> This theory: the properties in which cooldowns, Spend and selection meet.

  Interfaces. \<open>reach_contract\<close> is what selection needs of a caller's reach, interpreted on the reach computed from grants
  and on the unrestricted one. \<open>spend_book_laws\<close> is what the ledger needs of a store, interpreted on the store's tables.
  \<open>postings\<close> is a multimap from labels to keys, interpreted on the buckets of the matcher's indexes; \<open>keyed_store\<close> a
  map, interpreted on insertion-ordered association lists. \<open>state_table_laws\<close> is what the session engine needs of its
  table, interpreted on the table in memory and on the SQLite one; \<open>trusted_keys\<close> is what the gate's cache needs of a kind of
  key, interpreted on API keys and on management keys; \<open>two_tables\<close> is a simulation between two such tables,
  interpreted on those two.

  Bounds and fuel. \<open>JSON.parse\<close> runs with fuel twice the length of its input, which \<open>json_parse_any_fuel\<close> shows to be
  enough. Every other function is total. Numbers are unbounded integers within JavaScript's safe range; where the code
  saturates (the weights of a rotation) or bounds them (Spend amounts), so does the model.

  Not modelled. The upstream call of a refresh is an arbitrary outcome. Calls of a session state object or of a lease store run to their end before the next one starts; an object's
  failing storage is not modelled, a control plane that does not answer and a backend that fails are. Time zones and calendars, SHA-256, clocks, fresh ids and redaction of messages are arguments. The
  matcher's invariant assumes at each bind that SHA-256 gave the sequence a key of its own (\<open>no_key_collision\<close>). Texts of refusals of the Spend store are left out. Of a tool
  call only its approval is modelled, not the one call that goes on without it because it continues a handoff, and of a
  toolkit the tools with their resolved class are input. HTTP,
  Durable Object storage, provider executors, OAuth flows, format translation, the rest of tools, agents, billing and the web
  interface are input, output and glue around this core, or are left for later.
\<close>


subsection \<open>Cooldown, Spend and selection together\<close>

lemma blocked_same_key:
  "canonical_model_key m = canonical_model_key m' \<Longrightarrow> canonical_model_key m \<noteq> [] \<Longrightarrow>
     is_blocked_for_model c st m now = is_blocked_for_model c st m' now"
  by (cases "m = []"; cases "m' = []") (simp_all add: is_blocked_for_model_def Let_def)

definition sample_reported :: credential_entry where
  "sample_reported = \<lparr>en_credential = sample_other,
     en_state = mark_result id sample_other empty_state 5000 ''m'' (sample_failure 503 ''overloaded'') sample_settings\<rparr>"

definition sample_limited_input :: selection_input where
  "sample_limited_input = (sample_input False 2000)\<lparr>
     si_credentials := map sample_entry [sample_credential, sample_other, sample_third\<lparr>cr_id := ''d'', cr_owner := Some ''u''\<rparr>],
     si_request := sample_request\<lparr>pq_member_id := Some ''u''\<rparr>,
     si_spend := spend_gate_at utc_calendar (store_book (\<lambda>_. True)) (\<lambda>_. [''t'']) sample_caller 2000 sample_spent\<rparr>"



text \<open>C3. Spend limits reach selection: while a limit of the caller, a team, the org or the agent has no room, no shared
  credential is picked, and a credential whose own limit has no room is not picked either.\<close>

theorem spend_limits_bind_selection:
  assumes "si_spend i = spend_gate_at cal book teams caller now b" "fst (select_credential sha matcher i rt) = Picked s"
  shows "let full = (\<lambda>scopes. \<exists>l. full_limit book b (bk_limits book b) scopes (bounds_at cal book b now) l) in
    (full (shared_scopes teams caller) \<longrightarrow> cr_owner (en_credential (se_entry s)) \<noteq> None) \<and>
    (full [\<lparr>ss_kind = KCredential, ss_subject = i'\<rparr>] \<longrightarrow> cr_id (en_credential (se_entry s)) \<noteq> i')"
proof -
  define g where "g = (case spend_gate_at cal book teams caller now b of None \<Rightarrow> open_gate | Some g \<Rightarrow> g)"
  have blocked: "shared_blocked (si_spend i) = sg_shared_blocked g" and held: "held_by_limit (si_spend i) j = map_of (sg_credentials g) j" for j
    by (simp_all add: g_def assms(1) shared_blocked_def held_by_limit_def open_gate_def split: option.split)
  obtain cand where cand: "candidate_ok i cand" "free_to_serve i cand" "se_entry s = ca_entry cand"
    using picked_candidate [OF assms(2)] by blast
  note gate = gate_spec [of cal book teams caller now b i', folded g_def, unfolded Let_def]
  have "cr_owner (en_credential (se_entry s)) \<noteq> None"
    if "\<exists>l. full_limit book b (bk_limits book b) (shared_scopes teams caller) (bounds_at cal book b now) l"
  proof -
    have "shared_blocked (si_spend i) \<noteq> None" using that gate blocked by simp
    then show ?thesis using cand(1,3) by (auto simp: candidate_ok_def may_serve_def Let_def)
  qed
  moreover have "cr_id (en_credential (se_entry s)) \<noteq> i'"
    if "\<exists>l. full_limit book b (bk_limits book b) [\<lparr>ss_kind = KCredential, ss_subject = i'\<rparr>] (bounds_at cal book b now) l"
  proof
    assume "cr_id (en_credential (se_entry s)) = i'"
    then have "held_by_limit (si_spend i) i' = None" using cand by (auto simp: candidate_ok_def free_to_serve_def)
    then show False using that gate held by simp
  qed
  ultimately show ?thesis unfolding Let_def by blast
qed


theorem spend_limits_bind_selection_witness:
  "picked_id (fst (select_credential (\<lambda>_. []) no_matcher sample_limited_input sample_runtime)) = Some ''d'' \<and>
   cr_owner (en_credential (se_entry (case fst (select_credential (\<lambda>_. []) no_matcher sample_limited_input sample_runtime)
     of Picked s \<Rightarrow> s))) \<noteq> None"
proof
  let ?out = "fst (select_credential (\<lambda>_. []) no_matcher sample_limited_input sample_runtime)"
  let ?book = "store_book (\<lambda>_. True)"
  show d: "picked_id ?out = Some ''d''" by code_simp
  then have out: "?out = Picked (case ?out of Picked s \<Rightarrow> s)" by (cases ?out) (simp_all add: picked_id_def)
  have spend: "si_spend sample_limited_input = spend_gate_at utc_calendar ?book (\<lambda>_. [''t'']) sample_caller 2000 sample_spent"
    by (simp add: sample_limited_input_def)
  have "sample_limit \<in> set (bk_limits ?book sample_spent)" by code_simp
  moreover have "scope_of sample_limit \<in> set (shared_scopes (\<lambda>_. [''t'']) sample_caller)" by code_simp
  moreover have "no_room ?book sample_spent (bounds_at utc_calendar ?book sample_spent 2000) sample_limit" by code_simp
  ultimately have "full_limit ?book sample_spent (bk_limits ?book sample_spent) (shared_scopes (\<lambda>_. [''t'']) sample_caller)
      (bounds_at utc_calendar ?book sample_spent 2000) sample_limit" by (simp add: full_limit_def)
  then show "cr_owner (en_credential (se_entry (case ?out of Picked s \<Rightarrow> s))) \<noteq> None"
    using spend_limits_bind_selection [OF spend out] unfolding Let_def by blast
qed

end
